(* ===== verification/Gramado_Prelude.thy ===== *)
theory Gramado_Prelude
  imports Main "HOL-Library.Word"
begin

text \<open>
  Shared vocabulary of the development: the machine-integer types of the kernel
  sources, the outcome type of an operation that may halt the machine, pointer-indexed
  object stores, and the generic lemmas about lists of table slots and about words that
  the component theories rely on.
\<close>

unbundle bit_operations_syntax

named_theorems kdefs \<open>unfolding equations of small kernel operations\<close>
named_theorems kframe \<open>fields an operation leaves alone\<close>

section \<open>Machine integers\<close>

text \<open>
  \<^verbatim>\<open>unsigned long\<close> is 64 bits wide on the only architecture the kernel builds for
  (x86_64), \<^verbatim>\<open>unsigned int\<close> 32, \<^verbatim>\<open>unsigned short\<close> 16 and \<^verbatim>\<open>unsigned char\<close> 8. A C
  \<^verbatim>\<open>int\<close> that is only compared, copied or kept in a small range by its code is an
  \<^typ>\<open>int\<close>. A pointer is the unsigned long the tables keep; NULL is 0.
\<close>

type_synonym u8 = "8 word"
type_synonym u16 = "16 word"
type_synonym u32 = "32 word"
type_synonym u64 = "64 word"
type_synonym addr = u64

abbreviation NULL :: addr where "NULL \<equiv> 0"

section \<open>Outcomes\<close>

text \<open>
  \<^verbatim>\<open>panic\<close>, \<^verbatim>\<open>x_panic\<close> and \<^verbatim>\<open>die\<close> do not return: the machine
  halts with interrupts disabled (gthouse/sys/panic.c). An operation that can reach one of
  them returns an outcome; \<^term>\<open>Inl\<close> carries the message of the source.
\<close>

datatype halt = Panic string | Die string

type_synonym 'a outcome = "halt + 'a"

definition and_then :: "'e + 'a \<Rightarrow> ('a \<Rightarrow> 'e + 'b) \<Rightarrow> 'e + 'b" where
  "and_then r f = (case r of Inl e \<Rightarrow> Inl e | Inr x \<Rightarrow> f x)"

lemma and_then_simps [simp]:
  "and_then (Inl e) f = Inl e"
  "and_then (Inr x) f = f x"
  by (simp_all add: and_then_def)

lemma and_then_Inr_iff: "and_then r f = Inr y \<longleftrightarrow> (\<exists>x. r = Inr x \<and> f x = Inr y)"
  by (cases r) simp_all

lemma and_then_InrE:
  assumes "and_then r f = Inr y"
  obtains x where "r = Inr x" and "f x = Inr y"
  using assms by (auto simp: and_then_Inr_iff)

lemma and_then_assoc: "and_then (and_then r f) g = and_then r (\<lambda>x. and_then (f x) g)"
  by (cases r) simp_all

section \<open>Searching a table of slots\<close>

text \<open>
  Many kernel tables are scanned with \<^verbatim>\<open>for (i = lo; i < hi; i++)\<close> for the first
  slot that satisfies a test. The scan is this function of the slot numbers still to visit.
\<close>

fun first_slot :: "(nat \<Rightarrow> bool) \<Rightarrow> nat list \<Rightarrow> nat option" where
  "first_slot P [] = None"
| "first_slot P (i # is) = (if P i then Some i else first_slot P is)"

lemma first_slot_None_iff: "first_slot P is = None \<longleftrightarrow> (\<forall>i \<in> set is. \<not> P i)"
  by (induction "is") auto

lemma first_slot_Some_sat: "first_slot P is = Some i \<Longrightarrow> P i \<and> i \<in> set is"
  by (induction "is") (auto split: if_splits)

lemma first_slot_upt_least:
  "first_slot P [lo..<hi] = Some i \<Longrightarrow>
     P i \<and> lo \<le> i \<and> i < hi \<and> (\<forall>j. lo \<le> j \<and> j < i \<longrightarrow> \<not> P j)"
proof (induction "hi - lo" arbitrary: lo)
  case 0
  then show ?case by simp
next
  case (Suc d)
  then have lo: "lo < hi" by simp
  show ?case
  proof (cases "P lo")
    case True
    with Suc.prems lo show ?thesis by (auto simp: upt_conv_Cons)
  next
    case False
    from Suc.hyps(2) have "d = hi - Suc lo" by simp
    moreover from Suc.prems False lo have "first_slot P [Suc lo..<hi] = Some i"
      by (simp add: upt_conv_Cons)
    ultimately have "P i \<and> Suc lo \<le> i \<and> i < hi \<and> (\<forall>j. Suc lo \<le> j \<and> j < i \<longrightarrow> \<not> P j)"
      by (rule Suc.hyps(1))
    with False show ?thesis
      by (metis Suc_le_eq le_neq_implies_less order_less_imp_le)
  qed
qed

lemma first_slot_upt_SomeI:
  assumes "P i" "lo \<le> i" "i < hi" "\<And>j. lo \<le> j \<Longrightarrow> j < i \<Longrightarrow> \<not> P j"
  shows "first_slot P [lo..<hi] = Some i"
proof (cases "first_slot P [lo..<hi]")
  case None
  with assms show ?thesis by (auto simp: first_slot_None_iff)
next
  case (Some k)
  from first_slot_upt_least [OF Some] assms have "k = i"
    by (meson linorder_neqE_nat)
  with Some show ?thesis by simp
qed

section \<open>Words\<close>

lemma unat_le_iff: "(a :: 'a::len word) \<le> b \<longleftrightarrow> unat a \<le> unat b"
  by (rule word_le_nat_alt)

lemma unat_less_iff: "(a :: 'a::len word) < b \<longleftrightarrow> unat a < unat b"
  by (rule word_less_nat_alt)

lemma unat_plus_exact:
  "unat (a :: u64) + unat b < 2 ^ 64 \<Longrightarrow> unat (a + b) = unat a + unat b"
  by (simp add: unat_word_ariths)

lemma unat_minus_exact:
  "(b :: u64) \<le> a \<Longrightarrow> unat (a - b) = unat a - unat b"
  by (rule unat_sub)

end
