(* ===== verification/Allocator_Spec.thy ===== *)
theory Allocator_Spec
  imports Gramado_Prelude
begin

text \<open>
  What the rest of the kernel relies on when it asks for memory: an allocation that
  returns a pointer hands out a region no live allocation overlaps. The kernel heap, its
  reuse path and the page pool each provide this interface.
\<close>

section \<open>Regions\<close>

text \<open>A region is a base address and a length, both as natural numbers.\<close>

type_synonym region = "nat \<times> nat"

fun disj_region :: "region \<Rightarrow> region \<Rightarrow> bool" where
  "disj_region (a, l) (b, k) \<longleftrightarrow> a + l \<le> b \<or> b + k \<le> a"

lemma disj_region_sym: "disj_region r q \<Longrightarrow> disj_region q r"
  by (cases r; cases q) auto

lemma disj_region_shrink:
  "disj_region (a, l) (b, k) \<Longrightarrow> l' \<le> l \<Longrightarrow> k' \<le> k \<Longrightarrow> disj_region (a, l') (b, k')"
  by auto

lemma disj_region_no_common_byte:
  "disj_region (a, l) (b, k) \<Longrightarrow> a \<le> x \<Longrightarrow> x < a + l \<Longrightarrow> \<not> (b \<le> x \<and> x < b + k)"
  by auto

section \<open>The interface\<close>

fun alloc_all :: "('n \<Rightarrow> 's \<Rightarrow> (addr \<times> 's) outcome) \<Rightarrow> 'n list \<Rightarrow> 's \<Rightarrow> (addr list \<times> 's) outcome" where
  "alloc_all alloc [] s = Inr ([], s)"
| "alloc_all alloc (n # ns) s =
     and_then (alloc n s) (\<lambda>(p, s1).
       and_then (alloc_all alloc ns s1) (\<lambda>(ps, s2). Inr (p # ps, s2)))"

locale region_allocator =
  fixes alloc :: "'n \<Rightarrow> 's \<Rightarrow> (addr \<times> 's) outcome"
    and need :: "'n \<Rightarrow> nat"
    and live :: "'s \<Rightarrow> region set"
    and inv :: "'s \<Rightarrow> bool"
  assumes alloc_inv: "inv s \<Longrightarrow> alloc n s = Inr (p, s') \<Longrightarrow> inv s'"
    and alloc_null: "inv s \<Longrightarrow> alloc n s = Inr (NULL, s') \<Longrightarrow> live s' = live s"
    and alloc_fresh: "inv s \<Longrightarrow> alloc n s = Inr (p, s') \<Longrightarrow> p \<noteq> NULL \<Longrightarrow>
      \<exists>len \<ge> need n. live s' = insert (unat p, len) (live s) \<and>
        (\<forall>r \<in> live s. disj_region (unat p, len) r)"
begin

lemma alloc_mono: "inv s \<Longrightarrow> alloc n s = Inr (p, s') \<Longrightarrow> live s \<subseteq> live s'"
  using alloc_null alloc_fresh by (cases "p = NULL") blast+

text \<open>Every region the sequence returns avoids everything that was live before it.\<close>

lemma alloc_all_fresh:
  assumes "inv s" and "alloc_all alloc ns s = Inr (ps, s')" and "NULL \<notin> set ps"
  shows "inv s' \<and> length ps = length ns \<and> live s \<subseteq> live s' \<and>
    (\<forall>i < length ps. \<forall>r \<in> live s. disj_region (unat (ps ! i), need (ns ! i)) r)"
  using assms
proof (induction ns arbitrary: s ps)
  case Nil
  then show ?case by simp
next
  case (Cons n ns)
  from Cons.prems(2) obtain p s1 qs where
    a: "alloc n s = Inr (p, s1)" and r: "alloc_all alloc ns s1 = Inr (qs, s')" and ps: "ps = p # qs"
    by (auto elim!: and_then_InrE)
  from Cons.prems a ps obtain len where len: "need n \<le> len"
    and disj: "\<forall>r \<in> live s. disj_region (unat p, len) r"
    using alloc_fresh by fastforce
  from a Cons.prems(1) have m: "live s \<subseteq> live s1" and i1: "inv s1"
    by (auto dest: alloc_mono alloc_inv)
  from Cons.IH [OF i1 r] Cons.prems(3) ps have IH: "inv s' \<and> length qs = length ns \<and>
      live s1 \<subseteq> live s' \<and>
      (\<forall>i < length qs. \<forall>r \<in> live s1. disj_region (unat (qs ! i), need (ns ! i)) r)"
    by simp
  have "disj_region (unat (ps ! i), need ((n # ns) ! i)) r"
    if "i < length ps" and "r \<in> live s" for i r
  proof (cases i)
    case 0
    obtain b k where "r = (b, k)" by (cases r)
    with 0 ps disj that len show ?thesis
      using disj_region_shrink [of "unat p" len b k "need n" k] by auto
  next
    case (Suc j)
    with IH ps that m show ?thesis by auto
  qed
  with IH m ps show ?case by auto
qed

text \<open>The regions a sequence of allocations returns are pairwise disjoint.\<close>

lemma alloc_all_disjoint:
  assumes "inv s" and "alloc_all alloc ns s = Inr (ps, s')" and "NULL \<notin> set ps"
    and "i < j" and "j < length ns"
  shows "disj_region (unat (ps ! i), need (ns ! i)) (unat (ps ! j), need (ns ! j))"
  using assms
proof (induction ns arbitrary: s ps i j)
  case Nil
  then show ?case by simp
next
  case (Cons n ns)
  from Cons.prems(2) obtain p s1 qs where
    a: "alloc n s = Inr (p, s1)" and r: "alloc_all alloc ns s1 = Inr (qs, s')" and ps: "ps = p # qs"
    by (auto elim!: and_then_InrE)
  from a Cons.prems(1) have i1: "inv s1" by (rule alloc_inv [rotated])
  have nn: "p \<noteq> NULL" "NULL \<notin> set qs" using Cons.prems(3) ps by auto
  obtain k where k: "j = Suc k" using Cons.prems(4) by (cases j) auto
  show ?case
  proof (cases i)
    case 0
    from alloc_fresh [OF Cons.prems(1) a nn(1)] obtain len where
      len: "need n \<le> len" and "(unat p, len) \<in> live s1" by auto
    with alloc_all_fresh [OF i1 r nn(2)] k Cons.prems(5)
    have "disj_region (unat (qs ! k), need (ns ! k)) (unat p, len)"
      by (simp del: disj_region.simps)
    then have "disj_region (unat (qs ! k), need (ns ! k)) (unat p, need n)"
      by (rule disj_region_shrink) (use len in auto)
    with 0 k ps show ?thesis by auto
  next
    case (Suc i')
    with Cons.IH [OF i1 r nn(2), of i' k] Cons.prems(4,5) k ps show ?thesis by simp
  qed
qed

end

end
