(* ===== verification/Kernel_Heap.thy ===== *)
theory Kernel_Heap
  imports Allocator_Spec
begin

text \<open>
  The kernel heap of halls/dev/req/mm/mm.c: a linear allocator that puts a
  \<^verbatim>\<open>struct mmblock_d\<close> header in front of every block, a free operation that only
  marks the header, and a first-fit search that hands marked blocks out again.
  Headers are kept in a store indexed by their address; the bytes of the user areas
  are a memory of their own.
\<close>

section \<open>State\<close>

record mmblock_d =
  b_Header :: u64
  b_headerSize :: u64
  b_userArea :: u64
  b_userareaSize :: u64
  b_Footer :: u64
  b_Id :: int
  b_Used :: bool
  b_Magic :: int
  b_Free :: bool

record kernel_region_d =
  r_initialized :: bool
  r_start :: u64
  r_end :: u64

record heap_state =
  kernel_heap_start :: u64
  kernel_heap_end :: u64
  KernelHeap :: kernel_region_d
  kernel_stack_start :: u64
  kernel_stack_end :: u64
  KernelStack :: kernel_region_d
  g_heap_pointer :: u64
  g_available_heap :: u64
  heapCount :: u64
  heapList :: "nat \<Rightarrow> u64"
  mmblockCount :: int
  mmblockList :: "nat \<Rightarrow> u64"
  mm_prev_pointer :: u64
  mmblocks :: "addr \<Rightarrow> mmblock_d"
  bytes :: "addr \<Rightarrow> u8"

definition KERNEL_HEAP_START :: u64 where "KERNEL_HEAP_START = 0x30100000"
definition KERNEL_HEAP_END :: u64 where "KERNEL_HEAP_END = 0x301D0000"
definition KERNEL_STACK_END :: u64 where "KERNEL_STACK_END = 0x301E0000"
definition KERNEL_STACK_START :: u64 where "KERNEL_STACK_START = 0x301FFFF0"
definition HEAP_COUNT_MAX :: nat where "HEAP_COUNT_MAX = 8"
definition MMBLOCK_COUNT_MAX :: int where "MMBLOCK_COUNT_MAX = 2 * 4096"

text \<open>
  \<^verbatim>\<open>sizeof(struct mmblock_d)\<close> under the x86_64 ABI: five unsigned longs, six ints
  and a pointer.
\<close>

definition sizeof_mmblock_d :: u64 where "sizeof_mmblock_d = 72"

lemmas heap_consts = KERNEL_HEAP_START_def KERNEL_HEAP_END_def KERNEL_STACK_END_def
  KERNEL_STACK_START_def HEAP_COUNT_MAX_def MMBLOCK_COUNT_MAX_def sizeof_mmblock_d_def

section \<open>Operations\<close>

text \<open>The result of the two initialisers is the status they return, 0 or -1.\<close>

definition init_kernel_heap :: "heap_state \<Rightarrow> int \<times> heap_state" where
  "init_kernel_heap h =
    (let h1 = h\<lparr>KernelHeap := \<lparr>r_initialized = False,
                               r_start = KERNEL_HEAP_START, r_end = KERNEL_HEAP_END\<rparr>,
                kernel_heap_start := KERNEL_HEAP_START,
                kernel_heap_end := KERNEL_HEAP_END,
                g_heap_pointer := KERNEL_HEAP_START,
                g_available_heap := KERNEL_HEAP_END - KERNEL_HEAP_START,
                heapCount := 0\<rparr>;
         fail = (-1, h1\<lparr>KernelHeap := (KernelHeap h1)\<lparr>r_initialized := False\<rparr>\<rparr>)
     in if kernel_heap_start h1 = 0 then fail
        else if kernel_heap_end h1 = 0 then fail
        else if g_heap_pointer h1 = 0 then fail
        else if kernel_heap_end h1 < g_heap_pointer h1 then fail
        else if g_available_heap h1 = 0 then fail
        else (0, h1\<lparr>heapList := (\<lambda>i. if i < HEAP_COUNT_MAX then 0 else heapList h1 i),
                     KernelHeap := (KernelHeap h1)\<lparr>r_initialized := True\<rparr>\<rparr>))"

definition init_kernel_stack :: "heap_state \<Rightarrow> int \<times> heap_state" where
  "init_kernel_stack h =
    (let h1 = h\<lparr>KernelStack := \<lparr>r_initialized = False,
                                r_start = KERNEL_STACK_START, r_end = KERNEL_STACK_END\<rparr>,
                kernel_stack_end := KERNEL_STACK_END,
                kernel_stack_start := KERNEL_STACK_START\<rparr>;
         fail = (-1, h1\<lparr>KernelStack := (KernelStack h1)\<lparr>r_initialized := False\<rparr>\<rparr>)
     in if kernel_stack_end h1 = 0 then fail
        else if kernel_stack_start h1 = 0 then fail
        else (0, h1\<lparr>KernelStack := (KernelStack h1)\<lparr>r_initialized := True\<rparr>\<rparr>))"

text \<open>
  Phase 0 of \<^verbatim>\<open>mmInitialize\<close> clears the block table between and after the two
  initialisers; the video and memory-size probes it also calls do not touch this state.
\<close>

definition mmInitialize_heap :: "heap_state \<Rightarrow> bool \<times> heap_state" where
  "mmInitialize_heap h =
    (case init_kernel_heap h of (st, h1) \<Rightarrow>
       if st \<noteq> 0 then (False, h1)
       else case init_kernel_stack h1 of (st2, h2) \<Rightarrow>
         if st2 \<noteq> 0 then (False, h2)
         else (True, h2\<lparr>mmblockList := (\<lambda>i. if int i < MMBLOCK_COUNT_MAX then 0
                                             else mmblockList h2 i),
                         mmblockCount := 0\<rparr>))"

definition heapAllocateMemory :: "u64 \<Rightarrow> heap_state \<Rightarrow> (u64 \<times> heap_state) outcome" where
  "heapAllocateMemory sz h =
    (let UserAreaInBytes = (if sz = 0 then 8 else sz) in
     if g_available_heap h = 0 then Inr (0, h)
     else if g_available_heap h \<le> UserAreaInBytes then Inr (0, h)
     else let h1 = h\<lparr>mmblockCount := mmblockCount h + 1\<rparr> in
     if MMBLOCK_COUNT_MAX \<le> mmblockCount h1
     then Inl (Panic ''heapAllocateMemory: mmblockCount'')
     else if g_heap_pointer h1 < KERNEL_HEAP_START \<or> KERNEL_HEAP_END \<le> g_heap_pointer h1
     then Inl (Panic ''heapAllocateMemory: Out of kernel heap'')
     else if g_heap_pointer h1 = NULL then Inr (0, h1)
     else let HeaderBase = g_heap_pointer h1;
              UserAreaBase = HeaderBase + sizeof_mmblock_d;
              Footer = UserAreaBase + UserAreaInBytes;
              Current = (mmblocks h1 HeaderBase)
                \<lparr>b_Header := HeaderBase, b_headerSize := sizeof_mmblock_d,
                 b_userArea := UserAreaBase, b_userareaSize := UserAreaInBytes,
                 b_Footer := Footer, b_Id := mmblockCount h1,
                 b_Free := False, b_Used := True, b_Magic := 1234\<rparr>;
              Total = Footer - HeaderBase
          in Inr (UserAreaBase,
                  h1\<lparr>g_available_heap := g_available_heap h1 - Total,
                     mm_prev_pointer := g_heap_pointer h1,
                     g_heap_pointer := Footer,
                     mmblocks := (mmblocks h1)(HeaderBase := Current),
                     mmblockList := (mmblockList h1)(nat (mmblockCount h1) := HeaderBase)\<rparr>))"

definition heapFreeMemory :: "addr \<Rightarrow> heap_state \<Rightarrow> heap_state" where
  "heapFreeMemory ptr h =
    (if ptr = NULL then h
     else if ptr < KERNEL_HEAP_START \<or> KERNEL_HEAP_END \<le> ptr then h
     else let block_header = ptr - sizeof_mmblock_d in
       if block_header = NULL then h
       else if \<not> b_Used (mmblocks h block_header) \<or> b_Magic (mmblocks h block_header) \<noteq> 1234
       then h
       else h\<lparr>mmblocks := (mmblocks h)(block_header :=
                (mmblocks h block_header)\<lparr>b_Used := True, b_Magic := 4321\<rparr>)\<rparr>)"

definition reusable :: "u64 \<Rightarrow> heap_state \<Rightarrow> nat \<Rightarrow> bool" where
  "reusable sz h i \<longleftrightarrow>
     mmblockList h i \<noteq> NULL \<and>
     b_Used (mmblocks h (mmblockList h i)) \<and> b_Magic (mmblocks h (mmblockList h i)) = 4321 \<and>
     sz \<le> b_userareaSize (mmblocks h (mmblockList h i))"

definition find_reusable_block :: "u64 \<Rightarrow> heap_state \<Rightarrow> addr" where
  "find_reusable_block sz h =
    (if sz = 0 then NULL
     else case first_slot (reusable sz h) [1..<Suc (nat (mmblockCount h))] of
            None \<Rightarrow> NULL | Some i \<Rightarrow> mmblockList h i)"

text \<open>
  \<^verbatim>\<open>memset\<close> of libk, with its \<^verbatim>\<open>int\<close> size: it writes only when the
  pointer is not NULL and the size is positive.
\<close>

definition memset_bytes :: "addr \<Rightarrow> u8 \<Rightarrow> int \<Rightarrow> (addr \<Rightarrow> u8) \<Rightarrow> (addr \<Rightarrow> u8)" where
  "memset_bytes ptr v sz m =
    (if ptr \<noteq> NULL \<and> 0 < sz
     then (\<lambda>a. if unat (a - ptr) < nat sz then v else m a) else m)"

definition heapReuseMemory :: "u64 \<Rightarrow> bool \<Rightarrow> heap_state \<Rightarrow> u64 \<times> heap_state" where
  "heapReuseMemory sz0 cleanup h =
    (let sz = (if sz0 = 0 then 8 else sz0);
         reuse = find_reusable_block sz h
     in if reuse = NULL then (0, h)
        else let b = (mmblocks h reuse)\<lparr>b_Free := False, b_Used := True, b_Magic := 1234\<rparr>;
                 h1 = h\<lparr>mmblocks := (mmblocks h)(reuse := b)\<rparr>;
                 h2 = (if cleanup
                       then h1\<lparr>bytes := memset_bytes (b_userArea b) 0
                                 (sint (ucast (b_userareaSize b) :: u32)) (bytes h1)\<rparr>
                       else h1)
             in (b_userArea b, h2))"

text \<open>
  \<^verbatim>\<open>size_t\<close> is a 32-bit signed int in this kernel (libk/kstddef.h); it is a
  \<^typ>\<open>u32\<close> here, read with \<^term>\<open>sint\<close> where the code compares it.
\<close>

definition mm_kmalloc_impl :: "u32 \<Rightarrow> bool \<Rightarrow> heap_state \<Rightarrow> (addr \<times> heap_state) outcome" where
  "mm_kmalloc_impl sz clean h =
    and_then (heapAllocateMemory (ucast sz) h) (\<lambda>(ptr, h1).
      if clean \<and> ptr \<noteq> NULL
      then Inr (ptr, h1\<lparr>bytes := memset_bytes ptr 0 (sint sz) (bytes h1)\<rparr>)
      else Inr (ptr, h1))"

definition mm_kcalloc :: "u32 \<Rightarrow> u32 \<Rightarrow> heap_state \<Rightarrow> (addr \<times> heap_state) outcome" where
  "mm_kcalloc count sz h =
    (let new_size = (if sint count \<le> 0 then sz else count * sz)
     in mm_kmalloc_impl new_size True h)"

definition mm_kfree :: "addr \<Rightarrow> heap_state \<Rightarrow> heap_state" where
  "mm_kfree ptr h = (if ptr = NULL then h else heapFreeMemory ptr h)"

definition kfree :: "addr \<Rightarrow> heap_state \<Rightarrow> heap_state" where
  "kfree ptr h = (if ptr = NULL then h else mm_kfree ptr h)"

section \<open>Well-formedness\<close>

definition blk :: "heap_state \<Rightarrow> nat \<Rightarrow> mmblock_d" where
  "blk h i = mmblocks h (mmblockList h i)"

definition block_ok :: "heap_state \<Rightarrow> nat \<Rightarrow> bool" where
  "block_ok h i \<longleftrightarrow>
     b_Header (blk h i) = mmblockList h i \<and>
     b_headerSize (blk h i) = sizeof_mmblock_d \<and>
     b_userArea (blk h i) = mmblockList h i + sizeof_mmblock_d \<and>
     unat KERNEL_HEAP_START \<le> unat (mmblockList h i) \<and>
     unat (b_Footer (blk h i)) =
       unat (mmblockList h i) + 72 + unat (b_userareaSize (blk h i)) \<and>
     unat (b_Footer (blk h i)) \<le> unat (g_heap_pointer h) \<and>
     0 < unat (b_userareaSize (blk h i)) \<and>
     b_Used (blk h i) \<and> b_Magic (blk h i) \<in> {1234, 4321} \<and> b_Id (blk h i) = int i"

text \<open>
  The blocks lie one after the other below the heap pointer, and heap pointer and
  available count always add up to the heap's end, modulo 2 to the 64: the count wraps when a
  block crosses the end, which the code allows by at most one header.
\<close>

definition heap_inv :: "heap_state \<Rightarrow> bool" where
  "heap_inv h \<longleftrightarrow>
     0 \<le> mmblockCount h \<and> mmblockCount h < MMBLOCK_COUNT_MAX \<and>
     unat KERNEL_HEAP_START \<le> unat (g_heap_pointer h) \<and>
     unat (g_heap_pointer h) < unat KERNEL_HEAP_END + 72 \<and>
     g_heap_pointer h + g_available_heap h = KERNEL_HEAP_END \<and>
     (\<forall>i. 1 \<le> i \<and> i \<le> nat (mmblockCount h) \<longrightarrow> block_ok h i) \<and>
     (\<forall>i j. 1 \<le> i \<and> i < j \<and> j \<le> nat (mmblockCount h) \<longrightarrow>
        unat (b_Footer (blk h i)) \<le> unat (mmblockList h j))"

definition heap_live :: "heap_state \<Rightarrow> region set" where
  "heap_live h =
     (\<lambda>i. (unat (b_userArea (blk h i)), unat (b_userareaSize (blk h i)))) `
        {i. 1 \<le> i \<and> i \<le> nat (mmblockCount h) \<and> b_Magic (blk h i) = 1234}"

lemma heap_const_unat:
  "unat KERNEL_HEAP_START = 0x30100000" "unat KERNEL_HEAP_END = 0x301D0000"
  "unat sizeof_mmblock_d = 72"
  by (simp_all add: heap_consts)

lemma heap_inv_block: "heap_inv h \<Longrightarrow> 1 \<le> i \<Longrightarrow> i \<le> nat (mmblockCount h) \<Longrightarrow> block_ok h i"
  by (simp add: heap_inv_def)

lemma block_userArea_unat:
  assumes "heap_inv h" "1 \<le> i" "i \<le> nat (mmblockCount h)"
  shows "unat (b_userArea (blk h i)) = unat (mmblockList h i) + 72"
proof -
  from assms have "block_ok h i" by (rule heap_inv_block)
  moreover from this assms(1) have "unat (mmblockList h i) + 72 < 2 ^ 64"
    by (auto simp: block_ok_def heap_inv_def heap_const_unat)
  ultimately show ?thesis
    by (simp add: block_ok_def unat_plus_exact heap_const_unat)
qed

text \<open>Two different blocks: the one with the smaller number ends before the other begins.\<close>

lemma block_regions_disjoint:
  assumes "heap_inv h" "1 \<le> i" "i \<le> nat (mmblockCount h)" "1 \<le> j" "j \<le> nat (mmblockCount h)" "i \<noteq> j"
  shows "disj_region (unat (b_userArea (blk h i)), unat (b_userareaSize (blk h i)))
           (unat (b_userArea (blk h j)), unat (b_userareaSize (blk h j)))"
proof -
  have *: "unat (b_userArea (blk h a)) + unat (b_userareaSize (blk h a)) \<le> unat (b_userArea (blk h b))"
    if ab: "1 \<le> a" "a < b" "b \<le> nat (mmblockCount h)" for a b
  proof -
    from ab assms(1) have "unat (b_Footer (blk h a)) \<le> unat (mmblockList h b)"
      unfolding heap_inv_def by blast
    moreover have "block_ok h a" by (rule heap_inv_block [OF assms(1)]) (use ab in auto)
    ultimately show ?thesis
      using block_userArea_unat [OF assms(1), of a] block_userArea_unat [OF assms(1), of b] ab
      by (auto simp: block_ok_def)
  qed
  from assms(6) consider "i < j" | "j < i" by linarith
  then show ?thesis by cases (use * assms in auto)
qed

lemma mmblockList_inj:
  assumes "heap_inv h" "1 \<le> i" "i \<le> nat (mmblockCount h)" "1 \<le> j" "j \<le> nat (mmblockCount h)"
    and "mmblockList h i = mmblockList h j"
  shows "i = j"
proof (rule ccontr)
  assume "i \<noteq> j"
  from block_regions_disjoint [OF assms(1-5) this] assms(6) heap_inv_block [OF assms(1-3)]
  show False by (auto simp: blk_def block_ok_def)
qed

lemma mmblockList_below_pointer:
  assumes "heap_inv h" "1 \<le> i" "i \<le> nat (mmblockCount h)"
  shows "unat (mmblockList h i) < unat (g_heap_pointer h)"
  using heap_inv_block [OF assms] by (auto simp: block_ok_def)

lemma block_marked:
  "heap_inv h \<Longrightarrow> 1 \<le> i \<Longrightarrow> i \<le> nat (mmblockCount h) \<Longrightarrow>
     b_Used (blk h i) \<and> b_Magic (blk h i) \<in> {1234, 4321}"
  using heap_inv_block [of h i] unfolding block_ok_def by blast

lemma block_footer_below_pointer:
  "heap_inv h \<Longrightarrow> 1 \<le> i \<Longrightarrow> i \<le> nat (mmblockCount h) \<Longrightarrow>
     unat (b_Footer (blk h i)) \<le> unat (g_heap_pointer h)"
  using heap_inv_block [of h i] unfolding block_ok_def by blast

section \<open>Initialisation\<close>

lemma mmInitialize_heap_ok: "fst (mmInitialize_heap h)"
  by (simp add: mmInitialize_heap_def init_kernel_heap_def init_kernel_stack_def heap_consts)

lemma mmInitialize_heap_inv: "heap_inv (snd (mmInitialize_heap h))"
  by (simp add: mmInitialize_heap_def init_kernel_heap_def init_kernel_stack_def heap_inv_def
      heap_consts)

section \<open>Allocation\<close>

text \<open>The block table after a successful allocation, as one update of the state.\<close>

definition push_block :: "u64 \<Rightarrow> heap_state \<Rightarrow> heap_state" where
  "push_block n h =
    (let b = g_heap_pointer h; f = b + sizeof_mmblock_d + n; c = mmblockCount h + 1 in
     h\<lparr>mmblockCount := c, g_available_heap := g_available_heap h - (f - b),
       mm_prev_pointer := b, g_heap_pointer := f,
       mmblocks := (mmblocks h)(b := (mmblocks h b)
         \<lparr>b_Header := b, b_headerSize := sizeof_mmblock_d, b_userArea := b + sizeof_mmblock_d,
          b_userareaSize := n, b_Footer := f, b_Id := c, b_Free := False, b_Used := True,
          b_Magic := 1234\<rparr>),
       mmblockList := (mmblockList h)(nat c := b)\<rparr>)"

definition user_size :: "u64 \<Rightarrow> u64" where
  "user_size sz = (if sz = 0 then 8 else sz)"

lemma heapAllocateMemory_cases:
  assumes "heap_inv h"
  shows "heapAllocateMemory sz h =
    (if g_available_heap h \<le> user_size sz then Inr (0, h)
     else if MMBLOCK_COUNT_MAX \<le> mmblockCount h + 1
     then Inl (Panic ''heapAllocateMemory: mmblockCount'')
     else if KERNEL_HEAP_END \<le> g_heap_pointer h
     then Inl (Panic ''heapAllocateMemory: Out of kernel heap'')
     else Inr (g_heap_pointer h + sizeof_mmblock_d, push_block (user_size sz) h))"
proof -
  from assms have "\<not> g_heap_pointer h < KERNEL_HEAP_START" "g_heap_pointer h \<noteq> 0"
    by (auto simp: heap_inv_def word_less_nat_alt heap_const_unat)
  then show ?thesis
    unfolding heapAllocateMemory_def push_block_def user_size_def Let_def by simp
qed

text \<open>Where the block is pushed there is room up to one header beyond the heap's end.\<close>

lemma push_block_room:
  assumes "heap_inv h" and "user_size sz < g_available_heap h" and "g_heap_pointer h < KERNEL_HEAP_END"
  shows "unat (g_heap_pointer h + sizeof_mmblock_d + user_size sz) =
           unat (g_heap_pointer h) + 72 + unat (user_size sz)"
    and "unat (g_heap_pointer h) + unat (user_size sz) < unat KERNEL_HEAP_END"
proof -
  let ?n = "user_size sz" and ?p = "g_heap_pointer h"
  have av: "g_available_heap h = KERNEL_HEAP_END - ?p"
    using assms(1) by (simp add: heap_inv_def eq_diff_eq add.commute)
  have "?p \<le> KERNEL_HEAP_END" using assms(3) by simp
  then have "unat (g_available_heap h) = unat KERNEL_HEAP_END - unat ?p"
    by (simp add: av unat_minus_exact)
  with assms(2) show room: "unat ?p + unat ?n < unat KERNEL_HEAP_END"
    by (simp add: unat_less_iff)
  have "unat (?p + sizeof_mmblock_d) = unat ?p + 72"
    using assms(1) by (subst unat_plus_exact) (auto simp: heap_inv_def heap_const_unat)
  with room show "unat (?p + sizeof_mmblock_d + ?n) = unat ?p + 72 + unat ?n"
    by (subst unat_plus_exact) (auto simp: heap_const_unat)
qed

lemma user_size_pos: "0 < unat (user_size sz)"
  by (simp add: user_size_def unat_gt_0)

lemma push_block_old:
  assumes "heap_inv h" "1 \<le> i" "i \<le> nat (mmblockCount h)"
  shows "mmblockList (push_block n h) i = mmblockList h i" and "blk (push_block n h) i = blk h i"
proof -
  from assms(1,3) have "i \<noteq> nat (mmblockCount h + 1)" by (auto simp: heap_inv_def)
  moreover have "mmblockList h i \<noteq> g_heap_pointer h"
    using mmblockList_below_pointer [OF assms] by auto
  ultimately show "mmblockList (push_block n h) i = mmblockList h i"
    and "blk (push_block n h) i = blk h i"
    by (simp_all add: push_block_def Let_def blk_def)
qed

lemma push_block_new:
  assumes "0 \<le> mmblockCount h"
  defines "c \<equiv> Suc (nat (mmblockCount h))"
  shows "mmblockList (push_block n h) c = g_heap_pointer h"
    and "b_Header (blk (push_block n h) c) = g_heap_pointer h"
    and "b_headerSize (blk (push_block n h) c) = sizeof_mmblock_d"
    and "b_userArea (blk (push_block n h) c) = g_heap_pointer h + sizeof_mmblock_d"
    and "b_userareaSize (blk (push_block n h) c) = n"
    and "b_Footer (blk (push_block n h) c) = g_heap_pointer h + sizeof_mmblock_d + n"
    and "b_Used (blk (push_block n h) c)" and "b_Magic (blk (push_block n h) c) = 1234"
    and "b_Id (blk (push_block n h) c) = int c"
  using assms by (simp_all add: push_block_def Let_def blk_def nat_add_distrib)

lemma push_block_fields:
  "mmblockCount (push_block n h) = mmblockCount h + 1"
  "g_heap_pointer (push_block n h) = g_heap_pointer h + sizeof_mmblock_d + n"
  "g_available_heap (push_block n h) = g_available_heap h - (sizeof_mmblock_d + n)"
  by (simp_all add: push_block_def Let_def)

lemma nat_count_Suc: "0 \<le> c \<Longrightarrow> nat (c + 1) = Suc (nat c)"
  by simp

lemma push_block_inv:
  assumes inv: "heap_inv h" and room: "user_size sz < g_available_heap h"
    and cnt: "mmblockCount h + 1 < MMBLOCK_COUNT_MAX" and ptr: "g_heap_pointer h < KERNEL_HEAP_END"
  shows "heap_inv (push_block (user_size sz) h)" (is "heap_inv ?h")
proof -
  let ?n = "user_size sz" and ?c = "Suc (nat (mmblockCount h))"
  have c0: "0 \<le> mmblockCount h" using inv by (simp add: heap_inv_def)
  note room' = push_block_room [OF inv room ptr]
  have new: "block_ok ?h ?c"
    unfolding block_ok_def push_block_new [OF c0] push_block_fields
    using inv user_size_pos room' push_block_new(7) [OF c0] by (simp add: heap_inv_def)
  have old: "block_ok ?h i" if "1 \<le> i" "i \<le> nat (mmblockCount h)" for i
    using heap_inv_block [OF inv that] push_block_old [OF inv that, of ?n] room'
    by (auto simp: block_ok_def push_block_fields)
  have blocks: "block_ok ?h i" if "1 \<le> i" "i \<le> nat (mmblockCount ?h)" for i
  proof (cases "i = ?c")
    case True
    with new show ?thesis by simp
  next
    case False
    then show ?thesis using that old c0 by (simp add: push_block_fields nat_count_Suc)
  qed
  have order: "unat (b_Footer (blk ?h i)) \<le> unat (mmblockList ?h j)"
    if "1 \<le> i" "i < j" "j \<le> nat (mmblockCount ?h)" for i j
  proof (cases "j = ?c")
    case True
    have i: "i \<le> nat (mmblockCount h)" using that True by simp
    show ?thesis
      using block_footer_below_pointer [OF inv that(1) i] push_block_old [OF inv that(1) i, of ?n]
        push_block_new(1) [OF c0, of ?n] True
      by simp
  next
    case False
    then have j: "1 \<le> j" "j \<le> nat (mmblockCount h)" using that c0
      by (simp_all add: push_block_fields nat_count_Suc)
    with that push_block_old [OF inv] have "blk ?h i = blk h i" "mmblockList ?h j = mmblockList h j"
      by (metis le_trans less_imp_le_nat)+
    then show ?thesis using inv that j unfolding heap_inv_def by auto
  qed
  have sum: "g_heap_pointer ?h + g_available_heap ?h = KERNEL_HEAP_END"
    using inv by (simp add: push_block_fields heap_inv_def algebra_simps)
  have bounds: "unat KERNEL_HEAP_START \<le> unat (g_heap_pointer ?h)"
    "unat (g_heap_pointer ?h) < unat KERNEL_HEAP_END + 72"
    using inv room' by (auto simp: push_block_fields heap_inv_def)
  show ?thesis
    unfolding heap_inv_def using blocks order sum bounds c0 cnt
    by (auto simp: push_block_fields)
qed

lemma push_block_live:
  assumes inv: "heap_inv h"
  shows "heap_live (push_block n h) =
    insert (unat (g_heap_pointer h + sizeof_mmblock_d), unat n) (heap_live h)"
proof -
  let ?h = "push_block n h" and ?c = "Suc (nat (mmblockCount h))"
  have c0: "0 \<le> mmblockCount h" using inv by (simp add: heap_inv_def)
  have "{i. 1 \<le> i \<and> i \<le> nat (mmblockCount ?h) \<and> b_Magic (blk ?h i) = 1234} =
      insert ?c {i. 1 \<le> i \<and> i \<le> nat (mmblockCount h) \<and> b_Magic (blk h i) = 1234}"
    using c0 push_block_old(2) [OF inv, of _ n] push_block_new(8) [OF c0, of n]
    by (auto simp: push_block_fields nat_count_Suc le_Suc_eq)
  moreover have "(\<lambda>i. (unat (b_userArea (blk ?h i)), unat (b_userareaSize (blk ?h i)))) `
        {i. 1 \<le> i \<and> i \<le> nat (mmblockCount h) \<and> b_Magic (blk h i) = 1234} = heap_live h"
    unfolding heap_live_def using push_block_old(2) [OF inv, of _ n] by (intro image_cong) auto
  ultimately show ?thesis
    using push_block_new(4,5) [OF c0, of n] by (simp add: heap_live_def)
qed

lemma heap_live_below_pointer:
  assumes "heap_inv h" "(a, l) \<in> heap_live h"
  shows "a + l \<le> unat (g_heap_pointer h)"
proof -
  from assms(2) obtain i where i: "1 \<le> i" "i \<le> nat (mmblockCount h)"
    and a: "a = unat (b_userArea (blk h i))" "l = unat (b_userareaSize (blk h i))"
    by (auto simp: heap_live_def)
  show ?thesis
    using heap_inv_block [OF assms(1) i] block_userArea_unat [OF assms(1) i] a
    by (auto simp: block_ok_def)
qed


lemma heapAllocateMemory_Inr:
  assumes "heap_inv h" "heapAllocateMemory sz h = Inr (p, h')"
  shows "(p = NULL \<and> h' = h) \<or>
    (p = g_heap_pointer h + sizeof_mmblock_d \<and> h' = push_block (user_size sz) h \<and>
     user_size sz < g_available_heap h \<and> mmblockCount h + 1 < MMBLOCK_COUNT_MAX \<and>
     g_heap_pointer h < KERNEL_HEAP_END)"
  using assms(2) unfolding heapAllocateMemory_cases [OF assms(1)]
  by (auto split: if_splits)

lemma heapAllocateMemory_inv:
  "heap_inv h \<Longrightarrow> heapAllocateMemory sz h = Inr (p, h') \<Longrightarrow> heap_inv h'"
  using heapAllocateMemory_Inr push_block_inv by blast

lemma new_userArea_unat:
  assumes "heap_inv h"
  shows "unat (g_heap_pointer h + sizeof_mmblock_d) = unat (g_heap_pointer h) + 72"
  using assms by (subst unat_plus_exact) (auto simp: heap_inv_def heap_const_unat)

lemma new_userArea_not_NULL: "heap_inv h \<Longrightarrow> g_heap_pointer h + sizeof_mmblock_d \<noteq> NULL"
  using new_userArea_unat [of h] by (metis add_is_0 numeral_eq_iff unat_0 zero_neq_numeral)

lemma heapAllocateMemory_fresh:
  assumes inv: "heap_inv h" and a: "heapAllocateMemory sz h = Inr (p, h')" and p: "p \<noteq> NULL"
  shows "heap_live h' = insert (unat p, unat (user_size sz)) (heap_live h) \<and>
    (\<forall>r \<in> heap_live h. disj_region (unat p, unat (user_size sz)) r)"
proof -
  from heapAllocateMemory_Inr [OF inv a] p have
    eq: "p = g_heap_pointer h + sizeof_mmblock_d" "h' = push_block (user_size sz) h" by auto
  have "disj_region (unat p, unat (user_size sz)) (a, l)" if "(a, l) \<in> heap_live h" for a l
    using heap_live_below_pointer [OF inv that] new_userArea_unat [OF inv] eq by simp
  then show ?thesis using push_block_live [OF inv] eq by auto
qed

interpretation heap_alloc: region_allocator heapAllocateMemory "\<lambda>n. unat (user_size n)" heap_live heap_inv
proof unfold_locales
  show "heap_inv s'" if "heap_inv s" "heapAllocateMemory n s = Inr (p, s')" for s n p s'
    using that by (rule heapAllocateMemory_inv)
  show "heap_live s' = heap_live s" if "heap_inv s" "heapAllocateMemory n s = Inr (NULL, s')" for s n s'
    using heapAllocateMemory_Inr [OF that] new_userArea_not_NULL [OF that(1)] by metis
  show "\<exists>len \<ge> unat (user_size n). heap_live s' = insert (unat p, len) (heap_live s) \<and>
        (\<forall>r \<in> heap_live s. disj_region (unat p, len) r)"
    if "heap_inv s" "heapAllocateMemory n s = Inr (p, s')" "p \<noteq> NULL" for s n p s'
    using heapAllocateMemory_fresh [OF that] by blast
qed

section \<open>Free and reuse\<close>

text \<open>Changing only the marks of blocks keeps the layout.\<close>

lemma same_layout_inv:
  assumes "heap_inv h"
    and "mmblockCount h' = mmblockCount h" "mmblockList h' = mmblockList h"
    and "g_heap_pointer h' = g_heap_pointer h" "g_available_heap h' = g_available_heap h"
    and "\<And>i. 1 \<le> i \<Longrightarrow> i \<le> nat (mmblockCount h) \<Longrightarrow>
      b_Header (blk h' i) = b_Header (blk h i) \<and> b_headerSize (blk h' i) = b_headerSize (blk h i) \<and>
      b_userArea (blk h' i) = b_userArea (blk h i) \<and>
      b_userareaSize (blk h' i) = b_userareaSize (blk h i) \<and>
      b_Footer (blk h' i) = b_Footer (blk h i) \<and> b_Id (blk h' i) = b_Id (blk h i) \<and>
      b_Used (blk h' i) \<and> b_Magic (blk h' i) \<in> {1234, 4321}"
  shows "heap_inv h'"
proof -
  have ok: "block_ok h' i" if "1 \<le> i" "i \<le> nat (mmblockCount h)" for i
    using heap_inv_block [OF assms(1) that] assms(6) [OF that] assms(3,4)
    by (simp add: block_ok_def)
  have "unat (b_Footer (blk h' i)) \<le> unat (mmblockList h' j)"
    if "1 \<le> i" "i < j" "j \<le> nat (mmblockCount h)" for i j
    using assms(1,3) assms(6) [of i] that unfolding heap_inv_def by simp
  with ok assms(1-5) show ?thesis unfolding heap_inv_def by simp
qed

lemma heapFreeMemory_at:
  assumes inv: "heap_inv h" and i: "1 \<le> i" "i \<le> nat (mmblockCount h)"
    and lim: "b_userArea (blk h i) < KERNEL_HEAP_END" and live: "b_Magic (blk h i) = 1234"
  shows "heapFreeMemory (b_userArea (blk h i)) h =
    h\<lparr>mmblocks := (mmblocks h)(mmblockList h i := (blk h i)\<lparr>b_Used := True, b_Magic := 4321\<rparr>)\<rparr>"
proof -
  have ok: "block_ok h i" using inv i by (rule heap_inv_block)
  note ua = block_userArea_unat [OF inv i]
  have hd: "b_userArea (blk h i) - sizeof_mmblock_d = mmblockList h i" and used: "b_Used (blk h i)"
    using ok by (simp_all add: block_ok_def)
  have nz: "mmblockList h i \<noteq> NULL" "b_userArea (blk h i) \<noteq> NULL"
    and lo: "\<not> b_userArea (blk h i) < KERNEL_HEAP_START"
    using ok ua by (auto simp: block_ok_def heap_const_unat unat_less_iff)
  show ?thesis
    unfolding heapFreeMemory_def Let_def hd
    using nz lo lim used live by (simp add: blk_def not_le)
qed

lemma heapFreeMemory_alt:
  "heapFreeMemory ptr h =
    (if ptr \<noteq> NULL \<and> \<not> ptr < KERNEL_HEAP_START \<and> \<not> KERNEL_HEAP_END \<le> ptr \<and>
        ptr - sizeof_mmblock_d \<noteq> NULL \<and> b_Used (mmblocks h (ptr - sizeof_mmblock_d)) \<and>
        b_Magic (mmblocks h (ptr - sizeof_mmblock_d)) = 1234
     then h\<lparr>mmblocks := (mmblocks h)(ptr - sizeof_mmblock_d :=
            (mmblocks h (ptr - sizeof_mmblock_d))\<lparr>b_Used := True, b_Magic := 4321\<rparr>)\<rparr>
     else h)"
  unfolding heapFreeMemory_def Let_def by (simp only: split: if_split) blast

lemma heapFreeMemory_inv:
  assumes inv: "heap_inv h"
  shows "heap_inv (heapFreeMemory ptr h)"
proof -
  let ?h = "h\<lparr>mmblocks := (mmblocks h)(ptr - sizeof_mmblock_d :=
      (mmblocks h (ptr - sizeof_mmblock_d))\<lparr>b_Used := True, b_Magic := 4321\<rparr>)\<rparr>"
  have "heap_inv ?h"
    by (rule same_layout_inv [OF inv]) (use block_marked [OF inv] in \<open>simp_all add: blk_def\<close>)
  with inv show ?thesis unfolding heapFreeMemory_alt by (simp only: if_split) blast
qed

lemma reusable_blk:
  "reusable sz h i \<longleftrightarrow> mmblockList h i \<noteq> NULL \<and> b_Used (blk h i) \<and>
     b_Magic (blk h i) = 4321 \<and> sz \<le> b_userareaSize (blk h i)"
  by (simp add: reusable_def blk_def)

lemma reusable_block_found:
  assumes "1 \<le> i" "i \<le> nat (mmblockCount h)" "reusable sz h i" "sz \<noteq> 0"
  obtains j where "1 \<le> j" "j \<le> i" "reusable sz h j"
    "find_reusable_block sz h = mmblockList h j" "\<And>k. 1 \<le> k \<Longrightarrow> k < j \<Longrightarrow> \<not> reusable sz h k"
proof -
  have "i \<in> set [1..<Suc (nat (mmblockCount h))]" using assms by auto
  then obtain j where j: "first_slot (reusable sz h) [1..<Suc (nat (mmblockCount h))] = Some j"
    using assms(3) by (metis first_slot_None_iff not_None_eq)
  from first_slot_upt_least [OF j] assms have "j \<le> i" by (meson not_le)
  with first_slot_upt_least [OF j] j assms(4) that show thesis
    by (auto simp: find_reusable_block_def)
qed

lemma find_reusable_block_Some:
  assumes "find_reusable_block sz h \<noteq> NULL"
  obtains j where "1 \<le> j" "j \<le> nat (mmblockCount h)" "reusable sz h j"
    "find_reusable_block sz h = mmblockList h j"
proof -
  from assms obtain j where "first_slot (reusable sz h) [1..<Suc (nat (mmblockCount h))] = Some j"
    "find_reusable_block sz h = mmblockList h j"
    by (auto simp: find_reusable_block_def split: if_splits option.splits)
  with first_slot_upt_least [of "reusable sz h" 1 "Suc (nat (mmblockCount h))" j] that
  show thesis by auto
qed

text \<open>Handing block \<open>j\<close> out again.\<close>

definition revive :: "nat \<Rightarrow> heap_state \<Rightarrow> heap_state" where
  "revive j h = h\<lparr>mmblocks := (mmblocks h)(mmblockList h j :=
     (blk h j)\<lparr>b_Free := False, b_Used := True, b_Magic := 1234\<rparr>)\<rparr>"

lemma heapReuseMemory_Some:
  assumes "find_reusable_block (user_size sz) h = mmblockList h j" "mmblockList h j \<noteq> NULL"
  shows "\<exists>m. heapReuseMemory sz c h = (b_userArea (blk h j), (revive j h)\<lparr>bytes := m\<rparr>)"
proof (cases c)
  case True
  then show ?thesis using assms
    unfolding heapReuseMemory_def Let_def user_size_def [symmetric] revive_def blk_def
    by (auto intro: exI)
next
  case False
  then show ?thesis using assms
    unfolding heapReuseMemory_def Let_def user_size_def [symmetric] revive_def blk_def
    by (intro exI [of _ "bytes h"]) simp
qed

lemma heapReuseMemory_None:
  "find_reusable_block (user_size sz) h = NULL \<Longrightarrow> heapReuseMemory sz c h = (NULL, h)"
  by (simp add: heapReuseMemory_def user_size_def)

lemma bytes_irrelevant:
  "blk (h\<lparr>bytes := m\<rparr>) i = blk h i" "heap_live (h\<lparr>bytes := m\<rparr>) = heap_live h"
  "heap_inv (h\<lparr>bytes := m\<rparr>) = heap_inv h"
  by (simp_all add: blk_def heap_live_def heap_inv_def block_ok_def)

lemma revive_inv:
  assumes inv: "heap_inv h"
  shows "heap_inv (revive j h)"
  by (rule same_layout_inv [OF inv])
     (use block_marked [OF inv] in \<open>simp_all add: blk_def revive_def\<close>)

lemma revive_blk:
  assumes "heap_inv h" "1 \<le> j" "j \<le> nat (mmblockCount h)" "1 \<le> i" "i \<le> nat (mmblockCount h)"
  shows "blk (revive j h) i =
    (if i = j then (blk h j)\<lparr>b_Free := False, b_Used := True, b_Magic := 1234\<rparr> else blk h i)"
  using mmblockList_inj [OF assms(1), of i j] assms by (auto simp: revive_def blk_def)

lemma revive_live:
  assumes inv: "heap_inv h" and j: "1 \<le> j" "j \<le> nat (mmblockCount h)"
  shows "heap_live (revive j h) =
    insert (unat (b_userArea (blk h j)), unat (b_userareaSize (blk h j))) (heap_live h)"
proof -
  let ?h = "revive j h" and ?I = "{i. 1 \<le> i \<and> i \<le> nat (mmblockCount h) \<and> b_Magic (blk h i) = 1234}"
  let ?r = "\<lambda>h i. (unat (b_userArea (blk h i)), unat (b_userareaSize (blk h i)))"
  have cnt: "mmblockCount ?h = mmblockCount h" by (simp add: revive_def)
  have "{i. 1 \<le> i \<and> i \<le> nat (mmblockCount ?h) \<and> b_Magic (blk ?h i) = 1234} = insert j ?I"
    using revive_blk [OF inv j] j cnt by auto
  moreover have "?r ?h ` insert j ?I = ?r h ` insert j ?I"
    using revive_blk [OF inv j] j by (intro image_cong) auto
  ultimately show ?thesis by (simp add: heap_live_def)
qed

lemma reuse_block:
  assumes inv: "heap_inv h" and a: "heapReuseMemory sz c h = (p, h')" and p: "p \<noteq> NULL"
  obtains j m where "1 \<le> j" "j \<le> nat (mmblockCount h)" "reusable (user_size sz) h j"
    "p = b_userArea (blk h j)" "h' = (revive j h)\<lparr>bytes := m\<rparr>"
proof -
  from a p have "find_reusable_block (user_size sz) h \<noteq> NULL"
    using heapReuseMemory_None by fastforce
  then obtain j where j: "1 \<le> j" "j \<le> nat (mmblockCount h)" "reusable (user_size sz) h j"
    "find_reusable_block (user_size sz) h = mmblockList h j"
    by (rule find_reusable_block_Some)
  then have "mmblockList h j \<noteq> NULL" by (simp add: reusable_def)
  from heapReuseMemory_Some [OF j(4) this, of c] a j that show thesis by auto
qed

interpretation heap_reuse: region_allocator "\<lambda>n h. Inr (heapReuseMemory n c h)"
  "\<lambda>n. unat (user_size n)" heap_live heap_inv for c
proof unfold_locales
  fix s s' :: heap_state and n p
  assume inv: "heap_inv s" and "Inr (heapReuseMemory n c s) = (Inr (p, s') :: (addr \<times> heap_state) outcome)"
  then have a: "heapReuseMemory n c s = (p, s')" by simp
  show "heap_inv s'"
  proof (cases "p = NULL")
    case True
    show ?thesis
    proof (cases "find_reusable_block (user_size n) s = NULL")
      case True
      then show ?thesis using a inv heapReuseMemory_None by simp
    next
      case False
      then obtain j where "find_reusable_block (user_size n) s = mmblockList s j" "mmblockList s j \<noteq> NULL"
        by (metis find_reusable_block_Some)
      then show ?thesis
        using heapReuseMemory_Some [of n s j c] a revive_inv [OF inv] bytes_irrelevant(3) by auto
    qed
  next
    case False
    with inv a obtain j m where "s' = (revive j s)\<lparr>bytes := m\<rparr>" by (rule reuse_block)
    then show ?thesis using revive_inv [OF inv, of j] by (simp add: bytes_irrelevant)
  qed
next
  fix s s' :: heap_state and n
  assume inv: "heap_inv s" and "Inr (heapReuseMemory n c s) = (Inr (NULL, s') :: (addr \<times> heap_state) outcome)"
  then have a: "heapReuseMemory n c s = (NULL, s')" by simp
  have "find_reusable_block (user_size n) s = NULL"
  proof (rule ccontr)
    assume "find_reusable_block (user_size n) s \<noteq> NULL"
    then obtain j where j: "1 \<le> j" "j \<le> nat (mmblockCount s)" "mmblockList s j \<noteq> NULL"
      "find_reusable_block (user_size n) s = mmblockList s j"
      by (metis find_reusable_block_Some)
    from heapReuseMemory_Some [OF j(4,3), of c] a block_userArea_unat [OF inv j(1,2)]
    show False by auto
  qed
  with a show "heap_live s' = heap_live s" using heapReuseMemory_None by simp
next
  fix s s' :: heap_state and n p
  assume inv: "heap_inv s" and "Inr (heapReuseMemory n c s) = (Inr (p, s') :: (addr \<times> heap_state) outcome)"
    and p: "p \<noteq> NULL"
  then have a: "heapReuseMemory n c s = (p, s')" by simp
  from inv a p obtain j m where j: "1 \<le> j" "j \<le> nat (mmblockCount s)"
    and r: "reusable (user_size n) s j" and eq: "p = b_userArea (blk s j)" "s' = (revive j s)\<lparr>bytes := m\<rparr>"
    by (rule reuse_block)
  have len: "unat (user_size n) \<le> unat (b_userareaSize (blk s j))" and dead: "b_Magic (blk s j) = 4321"
    using r by (simp_all add: reusable_def blk_def unat_le_iff)
  have "disj_region (unat p, unat (b_userareaSize (blk s j))) q" if "q \<in> heap_live s" for q
  proof -
    from that obtain i where i: "1 \<le> i" "i \<le> nat (mmblockCount s)" "b_Magic (blk s i) = 1234"
      and q: "q = (unat (b_userArea (blk s i)), unat (b_userareaSize (blk s i)))"
      by (auto simp: heap_live_def)
    with dead have "j \<noteq> i" by auto
    from block_regions_disjoint [OF inv j i(1,2) this] q eq show ?thesis by simp
  qed
  with len show "\<exists>len \<ge> unat (user_size n). heap_live s' = insert (unat p, len) (heap_live s) \<and>
        (\<forall>r \<in> heap_live s. disj_region (unat p, len) r)"
    using revive_live [OF inv j] eq by (intro exI [of _ "unat (b_userareaSize (blk s j))"])
      (simp add: bytes_irrelevant)
qed

text \<open>The cleared allocation is the plain one, with other contents.\<close>

lemma mm_kcalloc_inv:
  assumes "heap_inv h" "mm_kcalloc count sz h = Inr (p, h')"
  shows "heap_inv h'"
proof -
  obtain n where "mm_kmalloc_impl n True h = Inr (p, h')" using assms(2) by (auto simp: mm_kcalloc_def Let_def)
  then obtain h1 where "heapAllocateMemory (ucast n) h = Inr (p, h1)"
    "(if p = NULL then h1 else h1\<lparr>bytes := memset_bytes p 0 (sint n) (bytes h1)\<rparr>) = h'"
    by (auto simp: mm_kmalloc_impl_def elim!: and_then_InrE split: if_split_asm)
  then show ?thesis using heapAllocateMemory_inv [OF assms(1)] bytes_irrelevant(3) by (auto split: if_split_asm)
qed

section \<open>Properties\<close>

text \<open>
  Claim C16. Memory safety of the kernel heap: from any well-formed heap, every sequence of
  \<^verbatim>\<open>heapAllocateMemory\<close> calls that all return a pointer returns regions that are
  disjoint, over their full requested length, from every area that was live before and from one another; and what was
  live stays live.
\<close>

theorem heap_allocations_disjoint:
  assumes "heap_inv h" and "alloc_all heapAllocateMemory ns h = Inr (ps, h')" and "NULL \<notin> set ps"
  shows "length ps = length ns \<and> heap_live h \<subseteq> heap_live h' \<and>
    (\<forall>i < length ns. \<forall>r \<in> heap_live h. disj_region (unat (ps ! i), unat (user_size (ns ! i))) r) \<and>
    (\<forall>i j. i < j \<and> j < length ns \<longrightarrow>
      disj_region (unat (ps ! i), unat (user_size (ns ! i))) (unat (ps ! j), unat (user_size (ns ! j))))"
  using heap_alloc.alloc_all_fresh [OF assms] heap_alloc.alloc_all_disjoint [OF assms] by (simp del: disj_region.simps)

text \<open>A concrete heap for witnesses: freshly initialised, over zeroed memory.\<close>

definition boot_heap :: heap_state where
  "boot_heap = snd (mmInitialize_heap
     \<lparr>kernel_heap_start = 0, kernel_heap_end = 0, KernelHeap = \<lparr>r_initialized = False, r_start = 0, r_end = 0\<rparr>,
      kernel_stack_start = 0, kernel_stack_end = 0,
      KernelStack = \<lparr>r_initialized = False, r_start = 0, r_end = 0\<rparr>,
      g_heap_pointer = 0, g_available_heap = 0, heapCount = 0, heapList = (\<lambda>_. 0),
      mmblockCount = 0, mmblockList = (\<lambda>_. 0), mm_prev_pointer = 0,
      mmblocks = (\<lambda>_. \<lparr>b_Header = 0, b_headerSize = 0, b_userArea = 0, b_userareaSize = 0,
                        b_Footer = 0, b_Id = 0, b_Used = False, b_Magic = 0, b_Free = False\<rparr>),
      bytes = (\<lambda>_. 0)\<rparr>)"

lemma boot_heap_inv: "heap_inv boot_heap"
  unfolding boot_heap_def by (rule mmInitialize_heap_inv)

lemma boot_heap_fields:
  "g_heap_pointer boot_heap = KERNEL_HEAP_START" "mmblockCount boot_heap = 0"
  "g_available_heap boot_heap = KERNEL_HEAP_END - KERNEL_HEAP_START"
  by (simp_all add: boot_heap_def mmInitialize_heap_def init_kernel_heap_def init_kernel_stack_def
      heap_consts)

lemma boot_two_allocs:
  "\<exists>h. alloc_all heapAllocateMemory [16, 100] boot_heap = Inr ([0x30100048, 0x301000A0], h)"
  by (simp add: heapAllocateMemory_def Let_def boot_heap_fields heap_consts)

theorem heap_allocations_disjoint_witness:
  "\<exists>h0 h. (unat (0x30100048 :: u64), 16) \<in> heap_live h0 \<and>
    alloc_all heapAllocateMemory [100] h0 = Inr ([0x301000A0], h) \<and>
    disj_region (unat (0x301000A0 :: u64), 100) (unat (0x30100048 :: u64), 16)"
proof -
  obtain h where "alloc_all heapAllocateMemory [16, 100] boot_heap = Inr ([0x30100048, 0x301000A0], h)"
    using boot_two_allocs by blast
  then obtain h0 where h0: "heapAllocateMemory 16 boot_heap = Inr (0x30100048, h0)"
    and h: "alloc_all heapAllocateMemory [100] h0 = Inr ([0x301000A0], h)"
    by (auto elim!: and_then_InrE)
  have inv: "heap_inv h0" by (rule heapAllocateMemory_inv [OF boot_heap_inv h0])
  have "unat (user_size 16) = 16" by (simp add: user_size_def)
  then have l: "(unat (0x30100048 :: u64), 16) \<in> heap_live h0"
    using heapAllocateMemory_fresh [OF boot_heap_inv h0] by simp
  have "\<forall>i < length [100 :: u64]. \<forall>r \<in> heap_live h0. disj_region (unat ([0x301000A0 :: u64] ! i), unat (user_size ([100] ! i))) r"
    using heap_allocations_disjoint [OF inv h] by (simp del: disj_region.simps)
  then have "\<forall>r \<in> heap_live h0. disj_region (unat (0x301000A0 :: u64), unat (user_size 100)) r" by (simp del: disj_region.simps)
  then have "disj_region (unat (0x301000A0 :: u64), unat (user_size 100)) (unat (0x30100048 :: u64), 16)" using l by blast
  moreover have "unat (user_size 100) = 100" by (simp add: user_size_def)
  ultimately show ?thesis using l h by metis
qed

text \<open>
  Claim C33. Every operation of the heap keeps it well formed: allocation and \<^verbatim>\<open>kcalloc\<close> (when they do
  not halt the machine; clearing the new area writes bytes of the heap only), free of any pointer whatsoever, and reuse.
\<close>

theorem heap_operations_keep_invariant:
  assumes "heap_inv h"
  shows "(case heapAllocateMemory n h of Inl _ \<Rightarrow> True | Inr (_, h') \<Rightarrow> heap_inv h') \<and>
    (case mm_kcalloc count sz h of Inl _ \<Rightarrow> True | Inr (_, h') \<Rightarrow> heap_inv h') \<and>
    heap_inv (heapFreeMemory p h) \<and> heap_inv (snd (heapReuseMemory n c h))"
proof -
  have "case heapAllocateMemory n h of Inl _ \<Rightarrow> True | Inr (_, h') \<Rightarrow> heap_inv h'"
    using heapAllocateMemory_inv [OF assms] by (auto split: sum.split)
  moreover have "case mm_kcalloc count sz h of Inl _ \<Rightarrow> True | Inr (_, h') \<Rightarrow> heap_inv h'"
    using mm_kcalloc_inv [OF assms] by (auto split: sum.split)
  moreover have "heap_inv (snd (heapReuseMemory n c h))"
    by (rule heap_reuse.alloc_inv [OF assms]) (simp add: prod_eq_iff)
  ultimately show ?thesis using heapFreeMemory_inv [OF assms] by simp
qed

theorem heap_operations_keep_invariant_witness:
  "heap_inv (heapFreeMemory 0x30100048 boot_heap) \<and> heap_inv (snd (heapReuseMemory 8 True boot_heap))"
  using heap_operations_keep_invariant [OF boot_heap_inv, where n = 8 and p = "0x30100048" and c = True]
  by simp

text \<open>
  Free then reuse: freeing a live block makes the reuse path serve any request that
  fits it, from the lowest-numbered block that is free and large enough, and the block
  served is live afterwards.
\<close>

theorem heap_free_then_reuse:
  assumes inv: "heap_inv h" and i: "1 \<le> i" "i \<le> nat (mmblockCount h)"
    and lim: "b_userArea (blk h i) < KERNEL_HEAP_END" and live: "b_Magic (blk h i) = 1234"
    and fits: "user_size sz \<le> b_userareaSize (blk h i)"
  shows "\<exists>j h'. heapReuseMemory sz c (heapFreeMemory (b_userArea (blk h i)) h) = (b_userArea (blk h j), h') \<and>
    1 \<le> j \<and> j \<le> i \<and> user_size sz \<le> b_userareaSize (blk h j) \<and>
    (j = i \<or> b_Magic (blk h j) = 4321) \<and> b_Magic (blk h' j) = 1234"
proof -
  define f where "f = heapFreeMemory (b_userArea (blk h i)) h"
  note f = heapFreeMemory_at [OF inv i lim live, folded f_def]
  have finv: "heap_inv f" unfolding f_def by (rule heapFreeMemory_inv [OF inv])
  have cnt: "mmblockCount f = mmblockCount h" and tab: "mmblockList f = mmblockList h"
    by (simp_all add: f blk_def)
  have b: "blk f k = (if k = i then (blk h i)\<lparr>b_Used := True, b_Magic := 4321\<rparr> else blk h k)"
    if "1 \<le> k" "k \<le> nat (mmblockCount h)" for k
    using mmblockList_inj [OF inv that i] by (auto simp: f blk_def)
  have "mmblockList h i \<noteq> NULL"
    using heap_inv_block [OF inv i] by (auto simp: block_ok_def heap_const_unat)
  then have "reusable (user_size sz) f i"
    using b [OF i] fits tab by (simp add: reusable_blk)
  moreover have "user_size sz \<noteq> 0" using user_size_pos [of sz] by auto
  ultimately obtain j where j: "1 \<le> j" "j \<le> i" "reusable (user_size sz) f j"
    "find_reusable_block (user_size sz) f = mmblockList f j"
    using i cnt by (metis reusable_block_found)
  then have jn: "mmblockList f j \<noteq> NULL" by (simp add: reusable_def)
  from heapReuseMemory_Some [OF j(4) jn, of c] obtain m where
    r: "heapReuseMemory sz c f = (b_userArea (blk f j), (revive j f)\<lparr>bytes := m\<rparr>)" by blast
  have jc: "j \<le> nat (mmblockCount h)" using j i by simp
  have "b_Magic (blk ((revive j f)\<lparr>bytes := m\<rparr>) j) = 1234"
    using revive_blk [OF finv j(1) _ j(1)] jc cnt by (simp add: bytes_irrelevant)
  moreover have "user_size sz \<le> b_userareaSize (blk h j)" "j = i \<or> b_Magic (blk h j) = 4321"
    "b_userArea (blk f j) = b_userArea (blk h j)"
    using j(3) b [OF j(1) jc] by (auto simp: reusable_blk split: if_splits)
  ultimately show ?thesis using r j unfolding f_def [symmetric] by (intro exI) auto
qed

text \<open>A heap with two live blocks, of 16 and 100 bytes.\<close>

definition heap_2 :: heap_state where
  "heap_2 = push_block 100 (push_block 16 boot_heap)"

lemma heap_2_inv: "heap_inv heap_2"
proof -
  have "heap_inv (push_block (user_size 16) boot_heap)"
    by (rule push_block_inv [OF boot_heap_inv]) (simp_all add: boot_heap_fields heap_consts user_size_def)
  then have 1: "heap_inv (push_block 16 boot_heap)" by (simp add: user_size_def)
  have "heap_inv (push_block (user_size 100) (push_block 16 boot_heap))"
    by (rule push_block_inv [OF 1])
       (simp_all add: boot_heap_fields push_block_fields heap_consts user_size_def)
  then show ?thesis by (simp add: heap_2_def user_size_def)
qed

lemma heap_2_fields:
  "mmblockCount heap_2 = 2" "b_userArea (blk heap_2 1) = 0x30100048"
  "b_userareaSize (blk heap_2 1) = 16" "b_Magic (blk heap_2 1) = 1234"
  "b_userArea (blk heap_2 (Suc 0)) = 0x30100048"
  "b_userareaSize (blk heap_2 (Suc 0)) = 16" "b_Magic (blk heap_2 (Suc 0)) = 1234"
  by (simp_all add: heap_2_def push_block_def Let_def boot_heap_fields blk_def heap_consts)

theorem heap_free_then_reuse_witness:
  "\<exists>h'. heapReuseMemory 12 True (heapFreeMemory 0x30100048 heap_2) = (0x30100048, h')"
proof -
  have "\<exists>j h'. heapReuseMemory 12 True (heapFreeMemory (b_userArea (blk heap_2 1)) heap_2) =
      (b_userArea (blk heap_2 j), h') \<and> 1 \<le> j \<and> j \<le> 1 \<and> user_size 12 \<le> b_userareaSize (blk heap_2 j) \<and>
      (j = 1 \<or> b_Magic (blk heap_2 j) = 4321) \<and> b_Magic (blk h' j) = 1234"
    by (rule heap_free_then_reuse [OF heap_2_inv]) (simp_all add: heap_2_fields heap_consts user_size_def)
  then obtain j h' where "heapReuseMemory 12 True (heapFreeMemory (b_userArea (blk heap_2 1)) heap_2) =
      (b_userArea (blk heap_2 j), h')" and "1 \<le> j" "j \<le> 1" by blast
  moreover from this have "j = 1" by simp
  ultimately have "heapReuseMemory 12 True (heapFreeMemory (b_userArea (blk heap_2 1)) heap_2) =
      (b_userArea (blk heap_2 1), h')" by simp
  then show ?thesis unfolding heap_2_fields by blast
qed

text \<open>
  Bounds of an allocation: a block is placed at the heap pointer and covers exactly its
  header and the requested bytes. It starts inside the heap and may run past the heap's end
  by less than one header; it stays inside whenever header and request together fit the
  available space.
\<close>

theorem heap_allocation_bounds:
  assumes inv: "heap_inv h" and a: "heapAllocateMemory n h = Inr (p, h')" and p: "p \<noteq> NULL"
  shows "unat p = unat (g_heap_pointer h) + 72 \<and>
    unat (g_heap_pointer h') = unat p + unat (user_size n) \<and>
    unat KERNEL_HEAP_START \<le> unat (g_heap_pointer h) \<and>
    unat (g_heap_pointer h') < unat KERNEL_HEAP_END + 72 \<and>
    (unat (user_size n) + 72 \<le> unat (g_available_heap h) \<longrightarrow>
       unat (g_heap_pointer h') \<le> unat KERNEL_HEAP_END)"
proof -
  from heapAllocateMemory_Inr [OF inv a] p have
    eq: "p = g_heap_pointer h + sizeof_mmblock_d" "h' = push_block (user_size n) h"
    and room: "user_size n < g_available_heap h" "g_heap_pointer h < KERNEL_HEAP_END" by auto
  note r = push_block_room [OF inv room]
  have "g_available_heap h = KERNEL_HEAP_END - g_heap_pointer h"
    using inv by (simp add: heap_inv_def eq_diff_eq add.commute)
  then have "unat (g_available_heap h) = unat KERNEL_HEAP_END - unat (g_heap_pointer h)"
    using room(2) by (simp add: unat_minus_exact)
  then show ?thesis
    using r inv eq new_userArea_unat [OF inv] by (auto simp: push_block_fields heap_inv_def)
qed

theorem heap_allocation_bounds_witness:
  "\<exists>h'. heapAllocateMemory 16 boot_heap = Inr (0x30100048, h') \<and>
     unat (g_heap_pointer h') = unat (0x30100048 :: u64) + 16"
proof -
  obtain h' where h': "heapAllocateMemory 16 boot_heap = Inr (0x30100048, h')"
    by (simp add: heapAllocateMemory_def Let_def boot_heap_fields heap_consts)
  with heap_allocation_bounds [OF boot_heap_inv h'] show ?thesis by (simp add: user_size_def)
qed

text \<open>
  Exhaustion is not always reported: on a fresh heap a request for one byte less than
  the available count is granted although header and request do not fit, the block ends 71
  bytes past the heap, the available count wraps to almost 2 to the 64, and from then on
  every \<^verbatim>\<open>kmalloc\<close> halts the machine instead of returning NULL.
\<close>

theorem heap_overrun_then_panic:
  "\<exists>h'. heapAllocateMemory 0xCFFFF boot_heap = Inr (0x30100048, h') \<and>
     unat (g_heap_pointer h') = unat KERNEL_HEAP_END + 71 \<and>
     unat (g_available_heap h') = 2 ^ 64 - 71 \<and>
     (\<forall>m clean. mm_kmalloc_impl m clean h' = Inl (Panic ''heapAllocateMemory: Out of kernel heap''))"
proof -
  let ?h = "push_block 0xCFFFF boot_heap"
  have a: "heapAllocateMemory 0xCFFFF boot_heap = Inr (0x30100048, ?h)"
    unfolding heapAllocateMemory_cases [OF boot_heap_inv]
    by (simp add: boot_heap_fields heap_consts user_size_def)
  have inv: "heap_inv ?h" using heapAllocateMemory_inv [OF boot_heap_inv a] .
  have f: "g_heap_pointer ?h = 0x301D0047" "g_available_heap ?h = -71" "mmblockCount ?h = 1"
    by (simp_all add: push_block_fields boot_heap_fields heap_consts)
  have "mm_kmalloc_impl m clean ?h = Inl (Panic ''heapAllocateMemory: Out of kernel heap'')" for m clean
  proof -
    have "unat m < 2 ^ 32" by (rule order_less_le_trans [OF unsigned_less]) simp
    then have "unat (user_size (ucast m)) < 2 ^ 32"
      by (auto simp: user_size_def unsigned_ucast_eq intro: le_less_trans [OF take_bit_nat_less_eq_self])
    moreover have "unat (-71 :: u64) = 2 ^ 64 - 71" by simp
    ultimately have "\<not> g_available_heap ?h \<le> user_size (ucast m)"
      unfolding f by (simp add: unat_le_iff)
    then show ?thesis
      unfolding mm_kmalloc_impl_def heapAllocateMemory_cases [OF inv]
      by (simp add: f heap_consts)
  qed
  with a f show ?thesis by (intro exI [of _ ?h]) (simp add: heap_consts)
qed

text \<open>
  \<^verbatim>\<open>kcalloc\<close> multiplies count and size in 32 bits without a check: 65536 objects of
  65536 bytes are served, on a fresh heap, with a block of 8 bytes.
\<close>

theorem kcalloc_product_wraps:
  "\<exists>h'. mm_kcalloc 0x10000 0x10000 boot_heap = Inr (0x30100048, h') \<and>
     (unat (0x30100048 :: u64), 8) \<in> heap_live h'"
proof -
  let ?h = "push_block 8 boot_heap"
  have a: "heapAllocateMemory 0 boot_heap = Inr (0x30100048, ?h)"
    unfolding heapAllocateMemory_cases [OF boot_heap_inv]
    by (simp add: boot_heap_fields heap_consts user_size_def)
  have l: "(unat (0x30100048 :: u64), 8) \<in> heap_live ?h"
    using push_block_live [OF boot_heap_inv, of 8] by (simp add: boot_heap_fields heap_consts)
  have "mm_kcalloc 0x10000 0x10000 boot_heap = Inr (0x30100048, ?h\<lparr>bytes := bytes ?h\<rparr>)"
    by (simp add: mm_kcalloc_def mm_kmalloc_impl_def a memset_bytes_def)
  with l show ?thesis by (simp add: bytes_irrelevant)
qed

text \<open>
  \<^verbatim>\<open>kcalloc\<close> clears exactly what it returns: with a product that fits an int,
  every byte of the new block is zero and every other byte of memory is what it was.
\<close>

theorem kcalloc_zero_fills:
  assumes inv: "heap_inv h" and fits: "0 < sint count" "0 < sint n" "sint count * sint n < 2 ^ 31"
    and a: "mm_kcalloc count n h = Inr (p, h')" and p: "p \<noteq> NULL"
  shows "\<forall>x. bytes h' x = (if unat (x - p) < nat (sint count * sint n) then 0 else bytes h x)"
proof -
  have prod: "sint (count * n) = sint count * sint n"
  proof -
    have "sint (count * n) = signed_take_bit 31 (sint count * sint n)"
      by (simp add: sint_word_ariths)
    also have "\<dots> = sint count * sint n"
    proof (rule signed_take_bit_int_eq_self)
      have "0 \<le> sint count * sint n" using fits by simp
      then show "- (2 ^ 31) \<le> sint count * sint n" by (rule order_trans [rotated]) simp
    qed (use fits in simp)
    finally show ?thesis .
  qed
  from a fits obtain h1 where h1: "heapAllocateMemory (ucast (count * n)) h = Inr (p, h1)"
    and h': "h' = h1\<lparr>bytes := memset_bytes p 0 (sint (count * n)) (bytes h1)\<rparr>"
    using p by (auto simp: mm_kcalloc_def mm_kmalloc_impl_def Let_def elim!: and_then_InrE split: if_splits)
  from heapAllocateMemory_Inr [OF inv h1] p have "bytes h1 = bytes h"
    by (auto simp: push_block_def Let_def)
  with h' p fits prod show ?thesis by (simp add: memset_bytes_def)
qed

theorem kcalloc_zero_fills_witness:
  "\<exists>h'. mm_kcalloc 3 4 boot_heap = Inr (0x30100048, h') \<and> bytes h' 0x30100050 = 0"
proof -
  let ?h = "push_block 12 boot_heap"
  have a: "heapAllocateMemory 12 boot_heap = Inr (0x30100048, ?h)"
    unfolding heapAllocateMemory_cases [OF boot_heap_inv]
    by (simp add: boot_heap_fields heap_consts user_size_def)
  then obtain h' where h': "mm_kcalloc 3 4 boot_heap = Inr (0x30100048, h')"
    by (simp add: mm_kcalloc_def mm_kmalloc_impl_def)
  from kcalloc_zero_fills [OF boot_heap_inv _ _ _ h'] have
    "bytes h' 0x30100050 = (if unat ((0x30100050 :: u64) - 0x30100048) < nat (sint (3::u32) * sint (4::u32))
       then 0 else bytes boot_heap 0x30100050)" by simp
  with h' show ?thesis by simp
qed

end
