(* ===== verification/Kernel_State.thy ===== *)
theory Kernel_State
  imports Kernel_Heap
begin

text \<open>
  The state the core of the kernel works on: thread and process structures, the tables
  that point to them, the per-processor blocks, the scheduler's, task switcher's and
  dispatcher's globals. Structures live in stores indexed by address, so two table
  slots that hold the same pointer share the structure, as in the code. A store is total:
  kernel code reads whatever lies at an address, the zero page included. Only the fields
  that modelled code reads or writes are present. A C int that is only assigned and
  compared against TRUE and FALSE is a \<^typ>\<open>bool\<close>.
\<close>

section \<open>Threads (intake/thread.h)\<close>

datatype thread_state_t =
  THREAD_STATE_CREATED | INITIALIZED | STANDBY | ZOMBIE | DEAD
  | READY | RUNNING | WAITING | BLOCKED | THREAD_STATE_WAITING_FOR_REUSE

datatype thread_wait_reason_t =
  WAIT_REASON_NULL | WAIT_REASON_WAIT4PID | WAIT_REASON_WAIT4TID | WAIT_REASON_PEXIT
  | WAIT_REASON_TEXIT | WAIT_REASON_SEMAPHORE | WAIT_REASON_MUTEX | WAIT_REASON_CONDITION
  | WAIT_REASON_RWLOCK | WAIT_REASON_BLOCKED | WAIT_REASON_YIELD | WAIT_REASON_PREEMPTED
  | WAIT_REASON_PRIORITY_BOOST | WAIT_REASON_IO | WAIT_REASON_TIMER | WAIT_REASON_SIGNAL
  | WAIT_REASON_INTERRUPT | WAIT_REASON_LOOP | WAIT_REASON_TEST | WAIT_REASON_BREAKPOINT
  | WAIT_REASON_TRACE

record deferred_d =
  sleep_in_progress :: bool
  sleep_phase :: int
  desired_sleep_ms :: u64
  exit_in_progress :: bool
  exit_code :: int

record msgctl_d =
  mc_input_flags :: u64
  block_in_progress :: bool
  block_on_empty :: bool
  miss_count :: int
  has_event_from_ds :: bool

text \<open>The saved registers of a thread (struct x64_context_d of disp/x86_64/x64cont.h); selectors have 16 bits.\<close>

record x64_context_d =
  c_ss :: u16
  c_rsp :: u64
  c_rflags :: u64
  c_cs :: u16
  c_rip :: u64
  c_ds :: u16
  c_es :: u16
  c_fs :: u16
  c_gs :: u16
  c_rax :: u64
  c_rbx :: u64
  c_rcx :: u64
  c_rdx :: u64
  c_rsi :: u64
  c_rdi :: u64
  c_rbp :: u64
  c_r8 :: u64
  c_r9 :: u64
  c_r10 :: u64
  c_r11 :: u64
  c_r12 :: u64
  c_r13 :: u64
  c_r14 :: u64
  c_r15 :: u64
  c_fpu_buffer :: "nat \<Rightarrow> u8"

text \<open>
  The globals contextSS to contextR15 and context_fpu_buffer (disp/x86_64/x64cont.c), where the entry stubs
  leave the registers of the interrupted thread.
\<close>

record cpu_context_d =
  r_ss :: u64
  r_rsp :: u64
  r_rflags :: u64
  r_cs :: u64
  r_rip :: u64
  r_ds :: u64
  r_es :: u64
  r_fs :: u64
  r_gs :: u64
  r_rax :: u64
  r_rbx :: u64
  r_rcx :: u64
  r_rdx :: u64
  r_rsi :: u64
  r_rdi :: u64
  r_rbp :: u64
  r_r8 :: u64
  r_r9 :: u64
  r_r10 :: u64
  r_r11 :: u64
  r_r12 :: u64
  r_r13 :: u64
  r_r14 :: u64
  r_r15 :: u64
  r_fpu_buffer :: "nat \<Rightarrow> u8"

record thread_d =
  t_available_for_reuse :: bool
  t_used :: bool
  t_magic :: int
  t_te :: addr
  t_tgid :: int
  t_tid :: int
  t_input_flags :: u64
  t_base_priority :: u64
  t_priority :: u64
  t_quantum :: u64
  t_input_mode :: int
  t_state :: thread_state_t
  t_Deferred :: deferred_d
  t_callback_in_progress :: bool
  t_cb_r3_address :: u64
  t_is_alertable :: bool
  t_its_my_party :: bool
  t_has_pending_event :: bool
  t_wait_reason :: thread_wait_reason_t
  t_cpl :: nat
  t_is_preemptable :: bool
  t_preempted :: bool
  t_ready_jiffy :: u64
  t_waiting_jiffy :: u64
  t_blocked_jiffy :: u64
  t_zombie_jiffy :: u64
  t_wake_jiffy :: u64
  t_step :: u64
  t_total_time_ms :: u64
  t_credits :: u64
  t_standbyCount :: u64
  t_standbyCount_ms :: u64
  t_runningCount :: u64
  t_runningCount_ms :: u64
  t_end_quantum_requested :: bool
  t_readyCount :: u64
  t_readyCount_ms :: u64
  t_waitingCount :: u64
  t_waitingCount_ms :: u64
  t_blockedCount :: u64
  t_blockedCount_ms :: u64
  t_scheduledCount :: u64
  t_alarm :: u64
  t_profiler_percentage_running :: u64
  t_profiler_percentage_running_res :: u64
  t_profiler_percentage_running_mod :: u64
  t_profiler_ticks_running :: u64
  t_profiler_last_ticks :: u64
  t_link :: addr
  t_is_linked :: bool
  t_MsgQueue :: "nat \<Rightarrow> addr"
  t_MsgQueueHead :: int
  t_MsgQueueTail :: int
  t_msgctl :: msgctl_d
  t_wait4tid :: int
  t_wait4tid_pending :: bool
  t_pml4_PA :: u64
  t_to_supervisor :: u64
  t_to_user :: u64
  t_rflags_current_iopl :: u32
  t_initial_jiffy :: u64
  t_initial_time_ms :: u64
  t_context :: x64_context_d
  t_saved :: bool
  t_next :: addr

definition THREAD_COUNT_MAX :: nat where "THREAD_COUNT_MAX = 512"
definition PROCESS_COUNT_MAX :: nat where "PROCESS_COUNT_MAX = 512"
definition MSG_QUEUE_MAX :: nat where "MSG_QUEUE_MAX = 64"
definition NR_CPUS :: int where "NR_CPUS = 8"
definition INIT_TID :: int where "INIT_TID = 0"
definition HARDWARE_TID :: int where "HARDWARE_TID = 99"

text \<open>Priorities (process/prio.h) and quanta (intake/quantum.h, multiplier 2).\<close>

definition PRIORITY_P1 :: u64 where "PRIORITY_P1 = 1"
definition PRIORITY_P2 :: u64 where "PRIORITY_P2 = 2"
definition PRIORITY_P3 :: u64 where "PRIORITY_P3 = 3"
definition PRIORITY_P4 :: u64 where "PRIORITY_P4 = 4"
definition PRIORITY_P5 :: u64 where "PRIORITY_P5 = 5"
definition PRIORITY_P6 :: u64 where "PRIORITY_P6 = 6"

abbreviation PRIORITY_MIN :: u64 where "PRIORITY_MIN \<equiv> PRIORITY_P1"
abbreviation PRIORITY_MAX :: u64 where "PRIORITY_MAX \<equiv> PRIORITY_P6"
abbreviation PRIORITY_SYSTEM_THRESHOLD :: u64 where "PRIORITY_SYSTEM_THRESHOLD \<equiv> PRIORITY_P4"

definition QUANTUM_MULTIPLIER :: u64 where "QUANTUM_MULTIPLIER = 2"
definition QUANTUM_Q1 :: u64 where "QUANTUM_Q1 = QUANTUM_MULTIPLIER * 1"
definition QUANTUM_Q2 :: u64 where "QUANTUM_Q2 = QUANTUM_MULTIPLIER * 2"
definition QUANTUM_Q3 :: u64 where "QUANTUM_Q3 = QUANTUM_MULTIPLIER * 3"
definition QUANTUM_Q4 :: u64 where "QUANTUM_Q4 = QUANTUM_MULTIPLIER * 4"
definition QUANTUM_Q5 :: u64 where "QUANTUM_Q5 = QUANTUM_MULTIPLIER * 5"
definition QUANTUM_Q6 :: u64 where "QUANTUM_Q6 = QUANTUM_MULTIPLIER * 6"

abbreviation QUANTUM_MIN :: u64 where "QUANTUM_MIN \<equiv> QUANTUM_Q1"
abbreviation QUANTUM_MAX :: u64 where "QUANTUM_MAX \<equiv> QUANTUM_Q6"
abbreviation QUANTUM_NORMAL_THRESHOLD :: u64 where "QUANTUM_NORMAL_THRESHOLD \<equiv> QUANTUM_Q1"
abbreviation QUANTUM_NORMAL_BALANCED :: u64 where "QUANTUM_NORMAL_BALANCED \<equiv> QUANTUM_Q2"
abbreviation QUANTUM_SYSTEM_TIME_CRITICAL :: u64 where "QUANTUM_SYSTEM_TIME_CRITICAL \<equiv> QUANTUM_Q6"

lemmas prio_defs = PRIORITY_P1_def PRIORITY_P2_def PRIORITY_P3_def PRIORITY_P4_def
  PRIORITY_P5_def PRIORITY_P6_def
lemmas quantum_defs = QUANTUM_MULTIPLIER_def QUANTUM_Q1_def QUANTUM_Q2_def QUANTUM_Q3_def
  QUANTUM_Q4_def QUANTUM_Q5_def QUANTUM_Q6_def

section \<open>Messages (intake/ipc/ipc.h)\<close>

record msg_d =
  m_used :: bool
  m_magic :: int
  m_opaque_window :: addr
  m_msg :: int
  m_long1 :: u64
  m_long2 :: u64
  m_long3 :: u64
  m_long4 :: u64
  m_sender_tid :: int
  m_receiver_tid :: int
  m_sender_pid :: int
  m_receiver_pid :: int
  m_next :: addr

section \<open>Processes (process/te.h)\<close>

datatype process_state_t =
  PROCESS_CREATED | PROCESS_INITIALIZED | PROCESS_RUNNING | PROCESS_BLOCKED
  | PROCESS_TERMINATED | PROCESS_IN_MEMORY | PROCESS_OUT_OF_MEMORY
  | PROCESS_STATE_WAITING_FOR_REUSE

record te_d =
  p_available_for_reuse :: bool
  p_used :: bool
  p_magic :: int
  p_pid :: int
  p_ppid :: int
  p_state :: process_state_t
  p_flower :: addr
  p_pml4_PA :: u64
  p_wait4pid :: int
  p_allocated_memory :: u64
  p_HeapStart :: u64
  p_HeapSize :: u64
  p_HeapPointer :: u64
  p_Objects :: "nat \<Rightarrow> addr"

section \<open>Processor blocks and subsystem globals\<close>

text \<open>
  The queue of deferred input events of a processor (struct dpc_queue_d of smp/apic.h), with the
  fetched message in its cache fields.
\<close>

record dpc_queue_d =
  dpc_on :: bool
  dpc_head :: int
  dpc_tail :: int
  dpc_msg :: "nat \<Rightarrow> int"
  dpc_long1 :: "nat \<Rightarrow> u64"
  dpc_long2 :: "nat \<Rightarrow> u64"
  dpc_long3 :: "nat \<Rightarrow> u64"
  dpc_long4 :: "nat \<Rightarrow> u64"
  dpc_char1 :: "nat \<Rightarrow> u8"
  dpc_char2 :: "nat \<Rightarrow> u8"
  dpc_char3 :: "nat \<Rightarrow> u8"
  dpc_char4 :: "nat \<Rightarrow> u8"
  dpc_cache_msg :: int
  dpc_cache_longs :: "u64 \<times> u64 \<times> u64 \<times> u64"
  dpc_cache_chars :: "u8 \<times> u8 \<times> u8 \<times> u8"

record lapic_info_d =
  l_irql :: nat
  l_idle_tid :: int
  l_current_tid :: int
  l_current_pid :: int
  l_currentq :: addr
  l_p1q :: addr
  l_p2q :: addr
  l_p3q :: addr
  l_p4q :: addr
  l_p5q :: addr
  l_p6q :: addr
  l_DPC_QUEUE :: dpc_queue_d

datatype lock_state = LOCKED | UNLOCKED

datatype sched_policy = SCHED_POLICY_RR | SCHED_POLICY_PRIORITY_INTERLEAVING | SCHED_POLICY_OTHER int

record scheduler_info_d =
  si_initialized :: bool
  si_policy :: sched_policy
  si_flags :: u64
  si_is_locked :: lock_state
  si_rr_round_counter :: u64
  si_rr_ready_threads_in_round :: int
  si_stage :: u64
  si_max_stage :: u64

record dispatch_count_d =
  dc_used :: bool
  dc_magic :: int
  dc_initialized :: bool
  SelectIdleCount :: u64
  SelectInitializedCount :: u64
  SelectNextCount :: u64
  SelectCurrentCount :: u64
  SelectAnyCount :: u64
  SelectIdealCount :: u64
  SelectDispatcherQueueCount :: u64

text \<open>The pointer position the boot display driver keeps (chardev/display/bldisp/bldisp.c).\<close>

record mouse_d =
  new_mouse_x :: u64
  new_mouse_y :: u64
  rel_mouse_x :: u64
  rel_mouse_y :: u64

datatype system_state_t = SYSTEM_RUNNING | SYSTEM_SCHEDULING | SYSTEM_OTHER nat

record kstate =
  thr :: "addr \<Rightarrow> thread_d"
  msgs :: "addr \<Rightarrow> msg_d"
  tes :: "addr \<Rightarrow> te_d"
  threadList :: "nat \<Rightarrow> addr"
  teList :: "nat \<Rightarrow> addr"
  InitThread :: addr
  foreground_thread :: int
  jiffies :: u64
  lapic_info :: "nat \<Rightarrow> lapic_info_d"
  DisplayServer_initialized :: bool
  DisplayServer_tid :: int
  SchedulerInfo :: scheduler_info_d
  stage_selection_count :: "nat \<Rightarrow> u64"
  qList :: "nat \<Rightarrow> addr"
  g_use_event_responder :: bool
  ev_responder_thread :: addr
  UP_IdleThread :: addr
  UP_threads_counter :: nat
  UP_CurrentThread :: addr
  system_state :: system_state_t
  task_switch_status :: lock_state
  DispatchCountBlock :: addr
  dispatch_counts :: dispatch_count_d
  dead_thread_collector_flag :: int
  dead_thread_collector_status :: bool
  f_callback_requested :: u64
  ring3_callback_address :: u64
  profiler_ticks_limit :: u64
  profiler_percentage_all_normal_threads :: u64
  profiler_percentage_idle_thread :: u64
  mouse :: mouse_d
  cpu_context :: cpu_context_d
  contextCPL :: u64
  gszLastStackFrame :: int
  cr3 :: u64
  spawn_eoi_is_necessary :: bool
  TaskSwitchInfo_initialized :: bool
  dispatcherType :: int
  dispatcherQueueIndex :: int
  dispatcherReadyList :: "nat \<Rightarrow> addr"
  heap :: heap_state

section \<open>Access\<close>

definition upd_thr :: "addr \<Rightarrow> (thread_d \<Rightarrow> thread_d) \<Rightarrow> kstate \<Rightarrow> kstate" where
  "upd_thr p f s = s\<lparr>thr := (thr s)(p := f (thr s p))\<rparr>"

definition upd_msg :: "addr \<Rightarrow> (msg_d \<Rightarrow> msg_d) \<Rightarrow> kstate \<Rightarrow> kstate" where
  "upd_msg p f s = s\<lparr>msgs := (msgs s)(p := f (msgs s p))\<rparr>"

definition upd_te :: "addr \<Rightarrow> (te_d \<Rightarrow> te_d) \<Rightarrow> kstate \<Rightarrow> kstate" where
  "upd_te p f s = s\<lparr>tes := (tes s)(p := f (tes s p))\<rparr>"

definition upd_lapic :: "nat \<Rightarrow> (lapic_info_d \<Rightarrow> lapic_info_d) \<Rightarrow> kstate \<Rightarrow> kstate" where
  "upd_lapic i f s = s\<lparr>lapic_info := (lapic_info s)(i := f (lapic_info s i))\<rparr>"

text \<open>The range check every operation on a tid starts with.\<close>

definition tid_ok :: "int \<Rightarrow> bool" where
  "tid_ok tid \<longleftrightarrow> 0 \<le> tid \<and> tid < int THREAD_COUNT_MAX"

text \<open>\<^verbatim>\<open>t != NULL && t->used == TRUE && t->magic == 1234\<close>.\<close>

definition thr_ok :: "kstate \<Rightarrow> addr \<Rightarrow> bool" where
  "thr_ok s p \<longleftrightarrow> p \<noteq> NULL \<and> t_used (thr s p) \<and> t_magic (thr s p) = 1234"

abbreviation thr_at :: "kstate \<Rightarrow> int \<Rightarrow> addr" where
  "thr_at s tid \<equiv> threadList s (nat tid)"

lemma upd_thr_sel [simp]:
  "thr (upd_thr p f s) q = (if q = p then f (thr s p) else thr s q)"
  "msgs (upd_thr p f s) = msgs s" "tes (upd_thr p f s) = tes s"
  "threadList (upd_thr p f s) = threadList s" "teList (upd_thr p f s) = teList s"
  "InitThread (upd_thr p f s) = InitThread s"
  "foreground_thread (upd_thr p f s) = foreground_thread s" "jiffies (upd_thr p f s) = jiffies s"
  "lapic_info (upd_thr p f s) = lapic_info s"
  "DisplayServer_initialized (upd_thr p f s) = DisplayServer_initialized s"
  "DisplayServer_tid (upd_thr p f s) = DisplayServer_tid s"
  "SchedulerInfo (upd_thr p f s) = SchedulerInfo s"
  "stage_selection_count (upd_thr p f s) = stage_selection_count s"
  "qList (upd_thr p f s) = qList s"
  "g_use_event_responder (upd_thr p f s) = g_use_event_responder s"
  "ev_responder_thread (upd_thr p f s) = ev_responder_thread s"
  "UP_IdleThread (upd_thr p f s) = UP_IdleThread s"
  "UP_threads_counter (upd_thr p f s) = UP_threads_counter s"
  "UP_CurrentThread (upd_thr p f s) = UP_CurrentThread s"
  "system_state (upd_thr p f s) = system_state s"
  "task_switch_status (upd_thr p f s) = task_switch_status s"
  "DispatchCountBlock (upd_thr p f s) = DispatchCountBlock s"
  "dispatch_counts (upd_thr p f s) = dispatch_counts s"
  "dead_thread_collector_flag (upd_thr p f s) = dead_thread_collector_flag s"
  "dead_thread_collector_status (upd_thr p f s) = dead_thread_collector_status s"
  "f_callback_requested (upd_thr p f s) = f_callback_requested s"
  "ring3_callback_address (upd_thr p f s) = ring3_callback_address s"
  "profiler_ticks_limit (upd_thr p f s) = profiler_ticks_limit s"
  "profiler_percentage_all_normal_threads (upd_thr p f s) = profiler_percentage_all_normal_threads s"
  "profiler_percentage_idle_thread (upd_thr p f s) = profiler_percentage_idle_thread s"
  "mouse (upd_thr p f s) = mouse s" "cpu_context (upd_thr p f s) = cpu_context s"
  "contextCPL (upd_thr p f s) = contextCPL s"
  "gszLastStackFrame (upd_thr p f s) = gszLastStackFrame s" "cr3 (upd_thr p f s) = cr3 s"
  "spawn_eoi_is_necessary (upd_thr p f s) = spawn_eoi_is_necessary s"
  "TaskSwitchInfo_initialized (upd_thr p f s) = TaskSwitchInfo_initialized s"
  "dispatcherType (upd_thr p f s) = dispatcherType s"
  "dispatcherQueueIndex (upd_thr p f s) = dispatcherQueueIndex s"
  "dispatcherReadyList (upd_thr p f s) = dispatcherReadyList s"
  "heap (upd_thr p f s) = heap s"
  by (simp_all add: upd_thr_def)

lemma upd_msg_sel [simp]:
  "msgs (upd_msg p f s) q = (if q = p then f (msgs s p) else msgs s q)"
  "thr (upd_msg p f s) = thr s" "tes (upd_msg p f s) = tes s"
  "threadList (upd_msg p f s) = threadList s" "teList (upd_msg p f s) = teList s"
  "InitThread (upd_msg p f s) = InitThread s"
  "foreground_thread (upd_msg p f s) = foreground_thread s" "jiffies (upd_msg p f s) = jiffies s"
  "lapic_info (upd_msg p f s) = lapic_info s"
  "DisplayServer_initialized (upd_msg p f s) = DisplayServer_initialized s"
  "DisplayServer_tid (upd_msg p f s) = DisplayServer_tid s"
  "SchedulerInfo (upd_msg p f s) = SchedulerInfo s"
  "stage_selection_count (upd_msg p f s) = stage_selection_count s"
  "qList (upd_msg p f s) = qList s"
  "g_use_event_responder (upd_msg p f s) = g_use_event_responder s"
  "ev_responder_thread (upd_msg p f s) = ev_responder_thread s"
  "UP_IdleThread (upd_msg p f s) = UP_IdleThread s"
  "UP_threads_counter (upd_msg p f s) = UP_threads_counter s"
  "UP_CurrentThread (upd_msg p f s) = UP_CurrentThread s"
  "system_state (upd_msg p f s) = system_state s"
  "task_switch_status (upd_msg p f s) = task_switch_status s"
  "DispatchCountBlock (upd_msg p f s) = DispatchCountBlock s"
  "dispatch_counts (upd_msg p f s) = dispatch_counts s"
  "dead_thread_collector_flag (upd_msg p f s) = dead_thread_collector_flag s"
  "dead_thread_collector_status (upd_msg p f s) = dead_thread_collector_status s"
  "f_callback_requested (upd_msg p f s) = f_callback_requested s"
  "ring3_callback_address (upd_msg p f s) = ring3_callback_address s"
  "profiler_ticks_limit (upd_msg p f s) = profiler_ticks_limit s"
  "profiler_percentage_all_normal_threads (upd_msg p f s) = profiler_percentage_all_normal_threads s"
  "profiler_percentage_idle_thread (upd_msg p f s) = profiler_percentage_idle_thread s"
  "mouse (upd_msg p f s) = mouse s" "cpu_context (upd_msg p f s) = cpu_context s"
  "contextCPL (upd_msg p f s) = contextCPL s"
  "gszLastStackFrame (upd_msg p f s) = gszLastStackFrame s" "cr3 (upd_msg p f s) = cr3 s"
  "spawn_eoi_is_necessary (upd_msg p f s) = spawn_eoi_is_necessary s"
  "TaskSwitchInfo_initialized (upd_msg p f s) = TaskSwitchInfo_initialized s"
  "dispatcherType (upd_msg p f s) = dispatcherType s"
  "dispatcherQueueIndex (upd_msg p f s) = dispatcherQueueIndex s"
  "dispatcherReadyList (upd_msg p f s) = dispatcherReadyList s"
  "heap (upd_msg p f s) = heap s"
  by (simp_all add: upd_msg_def)

lemma upd_te_sel [simp]:
  "tes (upd_te p f s) q = (if q = p then f (tes s p) else tes s q)"
  "thr (upd_te p f s) = thr s" "msgs (upd_te p f s) = msgs s"
  "threadList (upd_te p f s) = threadList s" "teList (upd_te p f s) = teList s"
  "InitThread (upd_te p f s) = InitThread s"
  "foreground_thread (upd_te p f s) = foreground_thread s" "jiffies (upd_te p f s) = jiffies s"
  "lapic_info (upd_te p f s) = lapic_info s"
  "DisplayServer_initialized (upd_te p f s) = DisplayServer_initialized s"
  "DisplayServer_tid (upd_te p f s) = DisplayServer_tid s"
  "SchedulerInfo (upd_te p f s) = SchedulerInfo s"
  "stage_selection_count (upd_te p f s) = stage_selection_count s"
  "qList (upd_te p f s) = qList s"
  "g_use_event_responder (upd_te p f s) = g_use_event_responder s"
  "ev_responder_thread (upd_te p f s) = ev_responder_thread s"
  "UP_IdleThread (upd_te p f s) = UP_IdleThread s"
  "UP_threads_counter (upd_te p f s) = UP_threads_counter s"
  "UP_CurrentThread (upd_te p f s) = UP_CurrentThread s"
  "system_state (upd_te p f s) = system_state s"
  "task_switch_status (upd_te p f s) = task_switch_status s"
  "DispatchCountBlock (upd_te p f s) = DispatchCountBlock s"
  "dispatch_counts (upd_te p f s) = dispatch_counts s"
  "dead_thread_collector_flag (upd_te p f s) = dead_thread_collector_flag s"
  "dead_thread_collector_status (upd_te p f s) = dead_thread_collector_status s"
  "f_callback_requested (upd_te p f s) = f_callback_requested s"
  "ring3_callback_address (upd_te p f s) = ring3_callback_address s"
  "profiler_ticks_limit (upd_te p f s) = profiler_ticks_limit s"
  "profiler_percentage_all_normal_threads (upd_te p f s) = profiler_percentage_all_normal_threads s"
  "profiler_percentage_idle_thread (upd_te p f s) = profiler_percentage_idle_thread s"
  "mouse (upd_te p f s) = mouse s" "cpu_context (upd_te p f s) = cpu_context s"
  "contextCPL (upd_te p f s) = contextCPL s"
  "gszLastStackFrame (upd_te p f s) = gszLastStackFrame s" "cr3 (upd_te p f s) = cr3 s"
  "spawn_eoi_is_necessary (upd_te p f s) = spawn_eoi_is_necessary s"
  "TaskSwitchInfo_initialized (upd_te p f s) = TaskSwitchInfo_initialized s"
  "dispatcherType (upd_te p f s) = dispatcherType s"
  "dispatcherQueueIndex (upd_te p f s) = dispatcherQueueIndex s"
  "dispatcherReadyList (upd_te p f s) = dispatcherReadyList s"
  "heap (upd_te p f s) = heap s"
  by (simp_all add: upd_te_def)

lemma upd_lapic_sel [simp]:
  "lapic_info (upd_lapic i f s) j = (if j = i then f (lapic_info s i) else lapic_info s j)"
  "thr (upd_lapic i f s) = thr s" "msgs (upd_lapic i f s) = msgs s"
  "tes (upd_lapic i f s) = tes s" "threadList (upd_lapic i f s) = threadList s"
  "teList (upd_lapic i f s) = teList s" "InitThread (upd_lapic i f s) = InitThread s"
  "foreground_thread (upd_lapic i f s) = foreground_thread s"
  "jiffies (upd_lapic i f s) = jiffies s"
  "DisplayServer_initialized (upd_lapic i f s) = DisplayServer_initialized s"
  "DisplayServer_tid (upd_lapic i f s) = DisplayServer_tid s"
  "SchedulerInfo (upd_lapic i f s) = SchedulerInfo s"
  "stage_selection_count (upd_lapic i f s) = stage_selection_count s"
  "qList (upd_lapic i f s) = qList s"
  "g_use_event_responder (upd_lapic i f s) = g_use_event_responder s"
  "ev_responder_thread (upd_lapic i f s) = ev_responder_thread s"
  "UP_IdleThread (upd_lapic i f s) = UP_IdleThread s"
  "UP_threads_counter (upd_lapic i f s) = UP_threads_counter s"
  "UP_CurrentThread (upd_lapic i f s) = UP_CurrentThread s"
  "system_state (upd_lapic i f s) = system_state s"
  "task_switch_status (upd_lapic i f s) = task_switch_status s"
  "DispatchCountBlock (upd_lapic i f s) = DispatchCountBlock s"
  "dispatch_counts (upd_lapic i f s) = dispatch_counts s"
  "dead_thread_collector_flag (upd_lapic i f s) = dead_thread_collector_flag s"
  "dead_thread_collector_status (upd_lapic i f s) = dead_thread_collector_status s"
  "f_callback_requested (upd_lapic i f s) = f_callback_requested s"
  "ring3_callback_address (upd_lapic i f s) = ring3_callback_address s"
  "profiler_ticks_limit (upd_lapic i f s) = profiler_ticks_limit s"
  "profiler_percentage_all_normal_threads (upd_lapic i f s) = profiler_percentage_all_normal_threads s"
  "profiler_percentage_idle_thread (upd_lapic i f s) = profiler_percentage_idle_thread s"
  "mouse (upd_lapic i f s) = mouse s" "cpu_context (upd_lapic i f s) = cpu_context s"
  "contextCPL (upd_lapic i f s) = contextCPL s"
  "gszLastStackFrame (upd_lapic i f s) = gszLastStackFrame s" "cr3 (upd_lapic i f s) = cr3 s"
  "spawn_eoi_is_necessary (upd_lapic i f s) = spawn_eoi_is_necessary s"
  "TaskSwitchInfo_initialized (upd_lapic i f s) = TaskSwitchInfo_initialized s"
  "dispatcherType (upd_lapic i f s) = dispatcherType s"
  "dispatcherQueueIndex (upd_lapic i f s) = dispatcherQueueIndex s"
  "dispatcherReadyList (upd_lapic i f s) = dispatcherReadyList s"
  "heap (upd_lapic i f s) = heap s"
  by (simp_all add: upd_lapic_def)

section \<open>Cleared structures\<close>

text \<open>
  Structures as they are after a clearing allocation, the starting point of the concrete states
  that witness the properties.
\<close>

definition zero_deferred :: deferred_d where
  "zero_deferred = \<lparr>
    sleep_in_progress = False, sleep_phase = 0, desired_sleep_ms = 0, exit_in_progress = False,
    exit_code = 0\<rparr>"

definition zero_msgctl :: msgctl_d where
  "zero_msgctl = \<lparr>
    mc_input_flags = 0, block_in_progress = False, block_on_empty = False, miss_count = 0,
    has_event_from_ds = False\<rparr>"

definition zero_context :: x64_context_d where
  "zero_context = \<lparr>
    c_ss = 0, c_rsp = 0, c_rflags = 0, c_cs = 0, c_rip = 0, c_ds = 0, c_es = 0, c_fs = 0,
    c_gs = 0, c_rax = 0, c_rbx = 0, c_rcx = 0, c_rdx = 0, c_rsi = 0, c_rdi = 0, c_rbp = 0,
    c_r8 = 0, c_r9 = 0, c_r10 = 0, c_r11 = 0, c_r12 = 0, c_r13 = 0, c_r14 = 0, c_r15 = 0,
    c_fpu_buffer = (\<lambda>_. 0)\<rparr>"

definition zero_cpu_context :: cpu_context_d where
  "zero_cpu_context = \<lparr>
    r_ss = 0, r_rsp = 0, r_rflags = 0, r_cs = 0, r_rip = 0, r_ds = 0, r_es = 0, r_fs = 0, r_gs = 0, r_rax = 0, r_rbx = 0, r_rcx = 0,
    r_rdx = 0, r_rsi = 0, r_rdi = 0, r_rbp = 0, r_r8 = 0, r_r9 = 0, r_r10 = 0, r_r11 = 0, r_r12 = 0, r_r13 = 0, r_r14 = 0, r_r15 = 0,
    r_fpu_buffer = (\<lambda>_. 0)\<rparr>"

definition zero_thread :: thread_d where
  "zero_thread = \<lparr>
    t_available_for_reuse = False, t_used = False, t_magic = 0, t_te = NULL, t_tgid = 0,
    t_tid = 0, t_input_flags = 0, t_base_priority = 0, t_priority = 0, t_quantum = 0,
    t_input_mode = 0, t_state = THREAD_STATE_CREATED, t_Deferred = zero_deferred,
    t_callback_in_progress = False, t_cb_r3_address = 0, t_is_alertable = False,
    t_its_my_party = False, t_has_pending_event = False, t_wait_reason = WAIT_REASON_NULL,
    t_cpl = 0, t_is_preemptable = False, t_preempted = False, t_ready_jiffy = 0,
    t_waiting_jiffy = 0, t_blocked_jiffy = 0, t_zombie_jiffy = 0, t_wake_jiffy = 0, t_step = 0,
    t_total_time_ms = 0, t_credits = 0, t_standbyCount = 0, t_standbyCount_ms = 0,
    t_runningCount = 0, t_runningCount_ms = 0, t_end_quantum_requested = False, t_readyCount = 0,
    t_readyCount_ms = 0, t_waitingCount = 0, t_waitingCount_ms = 0, t_blockedCount = 0,
    t_blockedCount_ms = 0, t_scheduledCount = 0, t_alarm = 0, t_profiler_percentage_running = 0,
    t_profiler_percentage_running_res = 0, t_profiler_percentage_running_mod = 0,
    t_profiler_ticks_running = 0, t_profiler_last_ticks = 0, t_link = NULL, t_is_linked = False,
    t_MsgQueue = (\<lambda>_. NULL), t_MsgQueueHead = 0, t_MsgQueueTail = 0,
    t_msgctl = zero_msgctl, t_wait4tid = 0, t_wait4tid_pending = False, t_pml4_PA = 0,
    t_to_supervisor = 0, t_to_user = 0, t_rflags_current_iopl = 0, t_initial_jiffy = 0,
    t_initial_time_ms = 0, t_context = zero_context, t_saved = False, t_next = NULL\<rparr>"

definition zero_msg :: msg_d where
  "zero_msg = \<lparr>
    m_used = False, m_magic = 0, m_opaque_window = NULL, m_msg = 0, m_long1 = 0, m_long2 = 0,
    m_long3 = 0, m_long4 = 0, m_sender_tid = 0, m_receiver_tid = 0, m_sender_pid = 0,
    m_receiver_pid = 0, m_next = NULL\<rparr>"

definition zero_te :: te_d where
  "zero_te = \<lparr>
    p_available_for_reuse = False, p_used = False, p_magic = 0, p_pid = 0, p_ppid = 0,
    p_state = PROCESS_CREATED, p_flower = NULL, p_pml4_PA = 0, p_wait4pid = 0,
    p_allocated_memory = 0, p_HeapStart = 0, p_HeapSize = 0, p_HeapPointer = 0,
    p_Objects = (\<lambda>_. NULL)\<rparr>"

definition zero_dpc_queue :: dpc_queue_d where
  "zero_dpc_queue = \<lparr>
    dpc_on = False, dpc_head = 0, dpc_tail = 0, dpc_msg = (\<lambda>_. 0),
    dpc_long1 = (\<lambda>_. 0), dpc_long2 = (\<lambda>_. 0), dpc_long3 = (\<lambda>_. 0),
    dpc_long4 = (\<lambda>_. 0), dpc_char1 = (\<lambda>_. 0), dpc_char2 = (\<lambda>_. 0),
    dpc_char3 = (\<lambda>_. 0), dpc_char4 = (\<lambda>_. 0), dpc_cache_msg = 0,
    dpc_cache_longs = (0, 0, 0, 0), dpc_cache_chars = (0, 0, 0, 0)\<rparr>"

definition zero_lapic :: lapic_info_d where
  "zero_lapic = \<lparr>
    l_irql = 0, l_idle_tid = 0, l_current_tid = 0, l_current_pid = 0, l_currentq = NULL,
    l_p1q = NULL, l_p2q = NULL, l_p3q = NULL, l_p4q = NULL, l_p5q = NULL, l_p6q = NULL,
    l_DPC_QUEUE = zero_dpc_queue\<rparr>"

definition zero_scheduler_info :: scheduler_info_d where
  "zero_scheduler_info = \<lparr>
    si_initialized = False, si_policy = SCHED_POLICY_RR, si_flags = 0, si_is_locked = UNLOCKED,
    si_rr_round_counter = 0, si_rr_ready_threads_in_round = 0, si_stage = 0,
    si_max_stage = 0\<rparr>"

definition zero_dispatch_count :: dispatch_count_d where
  "zero_dispatch_count = \<lparr>
    dc_used = False, dc_magic = 0, dc_initialized = False, SelectIdleCount = 0, SelectInitializedCount = 0, SelectNextCount = 0,
    SelectCurrentCount = 0, SelectAnyCount = 0, SelectIdealCount = 0,
    SelectDispatcherQueueCount = 0\<rparr>"

definition zero_kstate :: kstate where
  "zero_kstate = \<lparr>
    thr = (\<lambda>_. zero_thread), msgs = (\<lambda>_. zero_msg), tes = (\<lambda>_. zero_te),
    threadList = (\<lambda>_. NULL), teList = (\<lambda>_. NULL), InitThread = NULL,
    foreground_thread = 0, jiffies = 0, lapic_info = (\<lambda>_. zero_lapic),
    DisplayServer_initialized = False, DisplayServer_tid = 0,
    SchedulerInfo = zero_scheduler_info, stage_selection_count = (\<lambda>_. 0),
    qList = (\<lambda>_. NULL), g_use_event_responder = False, ev_responder_thread = NULL,
    UP_IdleThread = NULL, UP_threads_counter = 0, UP_CurrentThread = NULL,
    system_state = SYSTEM_RUNNING, task_switch_status = UNLOCKED, DispatchCountBlock = NULL,
    dispatch_counts = zero_dispatch_count, dead_thread_collector_flag = 0,
    dead_thread_collector_status = False, f_callback_requested = 0, ring3_callback_address = 0,
    profiler_ticks_limit = 0, profiler_percentage_all_normal_threads = 0,
    profiler_percentage_idle_thread = 0,
    mouse = \<lparr>new_mouse_x = 0, new_mouse_y = 0, rel_mouse_x = 0, rel_mouse_y = 0\<rparr>,
    cpu_context = zero_cpu_context, contextCPL = 0, gszLastStackFrame = 0, cr3 = 0,
    spawn_eoi_is_necessary = False, TaskSwitchInfo_initialized = False, dispatcherType = 0, dispatcherQueueIndex = 0,
    dispatcherReadyList = (\<lambda>_. NULL), heap = boot_heap\<rparr>"

lemmas zero_defs = zero_deferred_def zero_msgctl_def zero_context_def zero_cpu_context_def zero_thread_def zero_msg_def
  zero_te_def zero_dpc_queue_def zero_lapic_def zero_scheduler_info_def zero_dispatch_count_def zero_kstate_def

end
