(* ===== verification/Thread_Ops.thy ===== *)
theory Thread_Ops
  imports Kernel_State
begin

text \<open>
  Operations on single threads: the scheduler interface of intake/sched/schedi.c, the
  thread library of intake/tlib.c and the accessors of intake/thread.c. Each definition
  keeps the order of the source's guards; diagnostic output is left out.
\<close>

section \<open>Current thread and process (sched/schedi.c, thread.c, process/te.c)\<close>

definition get_current_thread :: "int \<Rightarrow> kstate \<Rightarrow> int" where
  "get_current_thread lapic_info_id s =
    (if lapic_info_id < 0 \<or> NR_CPUS < lapic_info_id then -1
     else l_current_tid (lapic_info s (nat lapic_info_id)))"

definition set_current_thread :: "int \<Rightarrow> int \<Rightarrow> kstate \<Rightarrow> kstate" where
  "set_current_thread tid lapic_info_id s =
    (if \<not> tid_ok tid then s
     else if lapic_info_id < 0 \<or> NR_CPUS < lapic_info_id then s
     else if tid = l_current_tid (lapic_info s (nat lapic_info_id)) then s
     else let t = thr_at s tid in
       if t = NULL then s
       else if \<not> t_used (thr s t) then s
       else if t_magic (thr s t) \<noteq> 1234 then s
       else upd_lapic (nat lapic_info_id) (\<lambda>l. l\<lparr>l_current_tid := tid\<rparr>) s)"

definition set_foreground_thread :: "int \<Rightarrow> kstate \<Rightarrow> kstate" where
  "set_foreground_thread tid s =
    (if \<not> tid_ok tid then s
     else if tid = foreground_thread s then s
     else let t = thr_at s tid in
       if t = NULL then s
       else if \<not> t_used (thr s t) then s
       else if t_magic (thr s t) \<noteq> 1234 then s
       else s\<lparr>foreground_thread := tid\<rparr>)"

definition SetCurrentTID :: "int \<Rightarrow> int \<Rightarrow> kstate \<Rightarrow> kstate" where
  "SetCurrentTID tid lapic_info_id s =
    (if lapic_info_id < 0 then s
     else if NR_CPUS \<le> lapic_info_id then s
     else upd_lapic (nat lapic_info_id) (\<lambda>l. l\<lparr>l_current_tid := tid\<rparr>) s)"

definition GetCurrentTID :: "int \<Rightarrow> kstate \<Rightarrow> int" where
  "GetCurrentTID lapic_info_id s =
    (if lapic_info_id < 0 then -1
     else if NR_CPUS \<le> lapic_info_id then -1
     else l_current_tid (lapic_info s (nat lapic_info_id)))"

definition get_thread_by_tid :: "int \<Rightarrow> kstate \<Rightarrow> addr" where
  "get_thread_by_tid tid s = (if \<not> tid_ok tid then NULL else thr_at s tid)"

definition GetCurrentThreadForThisCore :: "int \<Rightarrow> kstate \<Rightarrow> addr" where
  "GetCurrentThreadForThisCore lapic_id s =
    (if lapic_id < 0 then NULL
     else if NR_CPUS \<le> lapic_id then NULL
     else let tid = l_current_tid (lapic_info s (nat lapic_id)) in
       if tid < 0 then NULL else get_thread_by_tid tid s)"

definition GetIdleThreadForThisCore :: "int \<Rightarrow> kstate \<Rightarrow> addr" where
  "GetIdleThreadForThisCore lapic_id s =
    (if lapic_id < 0 then NULL
     else if NR_CPUS \<le> lapic_id then NULL
     else let tid = l_idle_tid (lapic_info s (nat lapic_id)) in
       if tid < 0 then NULL else get_thread_by_tid tid s)"

definition GetForegroundThread :: "kstate \<Rightarrow> addr" where
  "GetForegroundThread s =
    (if foreground_thread s < 0 then NULL else get_thread_by_tid (foreground_thread s) s)"

definition GetDSThread :: "kstate \<Rightarrow> addr" where
  "GetDSThread s =
    (if \<not> DisplayServer_initialized s then NULL else get_thread_by_tid (DisplayServer_tid s) s)"

definition set_current_process :: "int \<Rightarrow> int \<Rightarrow> kstate \<Rightarrow> kstate" where
  "set_current_process pid lapic_info_id s =
    (if lapic_info_id < 0 \<or> NR_CPUS < lapic_info_id then s
     else upd_lapic (nat lapic_info_id) (\<lambda>l. l\<lparr>l_current_pid := pid\<rparr>) s)"

definition get_current_process :: "int \<Rightarrow> kstate \<Rightarrow> int" where
  "get_current_process lapic_info_id s =
    (if lapic_info_id < 0 \<or> NR_CPUS < lapic_info_id then -1
     else l_current_pid (lapic_info s (nat lapic_info_id)))"

section \<open>State changes (sched/schedi.c)\<close>

definition do_credits :: "addr \<Rightarrow> kstate \<Rightarrow> kstate" where
  "do_credits t s =
    (if t = NULL then s
     else if \<not> t_used (thr s t) then s
     else if t_magic (thr s t) \<noteq> 1234 then s
     else upd_thr t (\<lambda>x. x\<lparr>t_credits := t_credits x + 1\<rparr>) s)"

definition do_credits_by_tid :: "int \<Rightarrow> kstate \<Rightarrow> kstate" where
  "do_credits_by_tid tid s =
    (if \<not> tid_ok tid then s
     else let t = thr_at s tid in if t \<noteq> NULL then do_credits t s else s)"

definition do_thread_blocked :: "int \<Rightarrow> kstate \<Rightarrow> kstate" where
  "do_thread_blocked tid s =
    (if \<not> tid_ok tid then s
     else let t = thr_at s tid in
       if t = NULL then s
       else if \<not> t_used (thr s t) then s
       else if t_magic (thr s t) \<noteq> 1234 then s
       else upd_thr t (\<lambda>x. x\<lparr>t_blocked_jiffy := jiffies s, t_state := BLOCKED\<rparr>) s)"

definition do_thread_dead :: "int \<Rightarrow> kstate \<Rightarrow> kstate" where
  "do_thread_dead tid s =
    (if \<not> tid_ok tid then s
     else let t = thr_at s tid in
       if t = NULL then s
       else if \<not> t_used (thr s t) then s
       else if t_magic (thr s t) \<noteq> 1234 then s
       else upd_thr t (\<lambda>x. x\<lparr>t_state := DEAD\<rparr>) s)"

definition do_thread_initialized :: "int \<Rightarrow> kstate \<Rightarrow> kstate" where
  "do_thread_initialized tid s =
    (if \<not> tid_ok tid then s
     else let t = thr_at s tid in
       if t = NULL then s
       else if \<not> t_used (thr s t) then s
       else if t_magic (thr s t) \<noteq> 1234 then s
       else upd_thr t (\<lambda>x. x\<lparr>t_state := INITIALIZED\<rparr>) s)"

definition do_thread_ready :: "int \<Rightarrow> kstate \<Rightarrow> kstate" where
  "do_thread_ready tid s =
    (if \<not> tid_ok tid then s
     else let t = thr_at s tid in
       if t = NULL then s
       else if \<not> t_used (thr s t) then s
       else if t_magic (thr s t) \<noteq> 1234 then s
       else upd_thr t (\<lambda>x. x\<lparr>t_ready_jiffy := jiffies s, t_state := READY\<rparr>) s)"

text \<open>The source joins the two tests of \<^verbatim>\<open>do_thread_running\<close> with \<^verbatim>\<open>&&\<close>.\<close>

definition do_thread_running :: "int \<Rightarrow> kstate \<Rightarrow> kstate" where
  "do_thread_running tid s =
    (if \<not> tid_ok tid then s
     else let t = thr_at s tid in
       if t = NULL then s
       else if \<not> t_used (thr s t) \<and> t_magic (thr s t) \<noteq> 1234 then s
       else upd_thr t (\<lambda>x. x\<lparr>t_state := RUNNING\<rparr>) s)"

definition do_thread_standby :: "int \<Rightarrow> kstate \<Rightarrow> kstate" where
  "do_thread_standby tid s =
    (if \<not> tid_ok tid then s
     else let t = thr_at s tid in
       if t = NULL then s
       else if \<not> t_used (thr s t) then s
       else if t_magic (thr s t) \<noteq> 1234 then s
       else upd_thr t (\<lambda>x. x\<lparr>t_state := STANDBY\<rparr>) s)"

definition do_thread_waiting :: "int \<Rightarrow> u64 \<Rightarrow> kstate \<Rightarrow> kstate" where
  "do_thread_waiting tid ms s =
    (if \<not> tid_ok tid then s
     else let JiffiesToWait = (if ms = 0 then 1 else ms); t = thr_at s tid in
       if t = NULL then s
       else if \<not> t_used (thr s t) then s
       else if t_magic (thr s t) \<noteq> 1234 then s
       else upd_thr t (\<lambda>x. x\<lparr>t_waiting_jiffy := jiffies s,
              t_wake_jiffy := jiffies s + JiffiesToWait, t_state := WAITING\<rparr>) s)"

definition do_thread_zombie :: "int \<Rightarrow> kstate \<Rightarrow> kstate" where
  "do_thread_zombie tid s =
    (if \<not> tid_ok tid then s
     else let t = thr_at s tid in
       if t = NULL then s
       else if \<not> t_used (thr s t) then s
       else if t_magic (thr s t) \<noteq> 1234 then s
       else if tid = INIT_TID then s
       else upd_thr t (\<lambda>x. x\<lparr>t_zombie_jiffy := jiffies s, t_state := ZOMBIE\<rparr>) s)"

text \<open>
  \<^verbatim>\<open>do_waitpid\<close> records the awaited pid in the calling process and then only checks
  that its control thread is the current one. \<^verbatim>\<open>teList\<close> is indexed with the
  current pid unchecked; a negative pid reads slot 0 here.
\<close>

definition do_waitpid :: "int \<Rightarrow> kstate \<Rightarrow> int \<times> kstate" where
  "do_waitpid pid s =
    (let current_process = get_current_process 0 s;
         CurrentTID = l_current_tid (lapic_info s 0);
         p = teList s (nat current_process)
     in if p = NULL then (-1, s)
        else if \<not> p_used (tes s p) \<or> p_magic (tes s p) \<noteq> 1234 then (-1, s)
        else let s1 = upd_te p (\<lambda>x. x\<lparr>p_wait4pid := pid\<rparr>) s; t = p_flower (tes s1 p) in
          if t = NULL then (-1, s1)
          else if \<not> t_used (thr s1 t) \<or> t_magic (thr s1 t) \<noteq> 1234 then (-1, s1)
          else if CurrentTID \<noteq> t_tid (thr s1 t) then (-1, s1)
          else (0, s1))"

definition schediSelectForExecution :: "addr \<Rightarrow> kstate \<Rightarrow> kstate" where
  "schediSelectForExecution t s =
    (if t = NULL then s else upd_thr t (\<lambda>x. x\<lparr>t_state := STANDBY, t_standbyCount := 0\<rparr>) s)"

definition wait_for_a_reason :: "int \<Rightarrow> int \<Rightarrow> kstate \<Rightarrow> kstate" where
  "wait_for_a_reason tid reason s =
    (if \<not> tid_ok tid then s
     else if reason < 0 \<or> 10 \<le> reason then s
     else let t = thr_at s tid in
       if t = NULL then s
       else if t_used (thr s t) \<and> t_magic (thr s t) = 1234
       then upd_thr t (\<lambda>x. x\<lparr>t_state := WAITING\<rparr>) s else s)"

definition wakeup_thread :: "int \<Rightarrow> kstate \<Rightarrow> kstate" where
  "wakeup_thread tid s =
    (if \<not> tid_ok tid then s
     else let t = thr_at s tid in
       if t = NULL then s
       else if \<not> t_used (thr s t) then s
       else if t_magic (thr s t) \<noteq> 1234 then s
       else if \<not> t_saved (thr s t) then s
       else if t_state (thr s t) = READY then s
       else if t_state (thr s t) = RUNNING then s
       else if t_state (thr s t) = BLOCKED then s
       else do_thread_ready tid s)"

definition yield_thread :: "int \<Rightarrow> kstate \<Rightarrow> kstate" where
  "yield_thread tid s =
    (if \<not> tid_ok tid then s
     else let t = thr_at s tid in
       if t = NULL then s
       else if \<not> t_used (thr s t) \<or> t_magic (thr s t) \<noteq> 1234 then s
       else upd_thr t (\<lambda>x. x\<lparr>t_runningCount := t_quantum x\<rparr>) s)"

definition sleep_until :: "int \<Rightarrow> u64 \<Rightarrow> kstate \<Rightarrow> kstate" where
  "sleep_until tid ms s =
    (if \<not> tid_ok tid then s else do_thread_waiting tid (if ms = 0 then 1 else ms) s)"

definition sleep_thread :: "int \<Rightarrow> u64 \<Rightarrow> kstate \<Rightarrow> kstate" where
  "sleep_thread tid ms s =
    (if \<not> tid_ok tid then s
     else let t = thr_at s tid in
       if t = NULL then s
       else if \<not> t_used (thr s t) \<or> t_magic (thr s t) \<noteq> 1234 then s
       else upd_thr t (\<lambda>x. x\<lparr>t_Deferred := (t_Deferred x)
              \<lparr>sleep_in_progress := True, desired_sleep_ms := ms, sleep_phase := 1\<rparr>\<rparr>) s)"

definition schedi_drop_quantum :: "addr \<Rightarrow> kstate \<Rightarrow> kstate" where
  "schedi_drop_quantum t s =
    (if t = NULL then s
     else if t_magic (thr s t) \<noteq> 1234 then s
     else upd_thr t (\<lambda>x. x\<lparr>t_quantum := QUANTUM_MIN\<rparr>) s)"

definition is_standby :: "kstate \<Rightarrow> nat \<Rightarrow> bool" where
  "is_standby s i \<longleftrightarrow> threadList s i \<noteq> NULL \<and> t_used (thr s (threadList s i)) \<and>
     t_magic (thr s (threadList s i)) = 1234 \<and> t_state (thr s (threadList s i)) = STANDBY \<and>
     threadList s i \<noteq> InitThread s"

definition schedi_check_for_standby2 :: "kstate \<Rightarrow> addr" where
  "schedi_check_for_standby2 s =
    (case first_slot (is_standby s) [0..<THREAD_COUNT_MAX] of
       None \<Rightarrow> NULL | Some i \<Rightarrow> threadList s i)"

section \<open>The thread library (tlib.c)\<close>

definition link_two_threads :: "addr \<Rightarrow> addr \<Rightarrow> kstate \<Rightarrow> int \<times> kstate" where
  "link_two_threads primary secondary s =
    (if primary = NULL then (-1, s)
     else if t_magic (thr s primary) \<noteq> 1234 then (-1, s)
     else if secondary = NULL then (-1, s)
     else if t_magic (thr s secondary) \<noteq> 1234 then (-1, s)
     else (0, upd_thr secondary (\<lambda>x. x\<lparr>t_link := primary, t_is_linked := True\<rparr>)
             (upd_thr primary (\<lambda>x. x\<lparr>t_link := secondary, t_is_linked := True\<rparr>) s)))"

definition unlink_two_threads :: "addr \<Rightarrow> addr \<Rightarrow> kstate \<Rightarrow> int \<times> kstate" where
  "unlink_two_threads primary secondary s =
    (if primary = NULL then (-1, s)
     else if t_magic (thr s primary) \<noteq> 1234 then (-1, s)
     else if secondary = NULL then (-1, s)
     else if t_magic (thr s secondary) \<noteq> 1234 then (-1, s)
     else (0, upd_thr secondary (\<lambda>x. x\<lparr>t_link := NULL, t_is_linked := False\<rparr>)
             (upd_thr primary (\<lambda>x. x\<lparr>t_link := NULL, t_is_linked := False\<rparr>) s)))"

definition clamp_quantum :: "thread_d \<Rightarrow> thread_d" where
  "clamp_quantum x =
    (let x1 = (if t_quantum x < QUANTUM_MIN then x\<lparr>t_quantum := QUANTUM_MIN\<rparr> else x)
     in if QUANTUM_MAX < t_quantum x1 then x1\<lparr>t_quantum := QUANTUM_MAX\<rparr> else x1)"

definition set_thread_priority :: "addr \<Rightarrow> u64 \<Rightarrow> kstate \<Rightarrow> kstate" where
  "set_thread_priority t priority s =
    (if priority < PRIORITY_MIN then s
     else if PRIORITY_MAX < priority then s
     else if t = NULL then s
     else if \<not> t_used (thr s t) \<or> t_magic (thr s t) \<noteq> 1234 then s
     else let OldPriority = t_priority (thr s t); BasePriority = t_base_priority (thr s t) in
       if priority = OldPriority then s
       else if priority < BasePriority then s
       else upd_thr t (\<lambda>x.
         let x1 = (if PRIORITY_MAX < priority then x\<lparr>t_priority := PRIORITY_MAX\<rparr> else x);
             x2 = (if priority \<noteq> OldPriority then x1\<lparr>t_priority := priority\<rparr> else x1)
         in clamp_quantum x2) s)"

definition threadi_power :: "addr \<Rightarrow> u64 \<Rightarrow> kstate \<Rightarrow> kstate" where
  "threadi_power t priority s =
    (if t = NULL then s
     else if \<not> t_used (thr s t) \<or> t_magic (thr s t) \<noteq> 1234 then s
     else upd_thr t (\<lambda>x.
       let x1 = x\<lparr>t_priority := PRIORITY_MAX\<rparr>;
           x2 = (if PRIORITY_MIN \<le> t_priority x1 \<and> t_priority x1 \<le> PRIORITY_MAX
                 then x1\<lparr>t_priority := priority\<rparr> else x1)
       in x2\<lparr>t_quantum := QUANTUM_MAX\<rparr>) s)"

definition release :: "int \<Rightarrow> kstate \<Rightarrow> kstate" where
  "release tid s = (if \<not> tid_ok tid then s else do_thread_ready tid s)"

definition SetThread_PML4PA :: "addr \<Rightarrow> u64 \<Rightarrow> kstate \<Rightarrow> kstate" where
  "SetThread_PML4PA t pa s = (if t = NULL then s else upd_thr t (\<lambda>x. x\<lparr>t_pml4_PA := pa\<rparr>) s)"

definition check_for_dead_thread_collector :: "kstate \<Rightarrow> kstate" where
  "check_for_dead_thread_collector s =
    (if dead_thread_collector_flag s = 1 then s else s\<lparr>dead_thread_collector_flag := 0\<rparr>)"

text \<open>
  \<^verbatim>\<open>kill_thread\<close> halts unconditionally before its first check; what follows the
  \<^verbatim>\<open>panic\<close> in the source is not reached. The collectors therefore halt at the first
  zombie they meet.
\<close>

definition kill_thread :: "int \<Rightarrow> kstate \<Rightarrow> kstate outcome" where
  "kill_thread tid s = Inl (Panic ''kill_thread: #debug'')"

definition is_zombie :: "kstate \<Rightarrow> nat \<Rightarrow> bool" where
  "is_zombie s i \<longleftrightarrow> threadList s i \<noteq> NULL \<and> t_used (thr s (threadList s i)) \<and>
     t_magic (thr s (threadList s i)) = 1234 \<and> t_state (thr s (threadList s i)) = ZOMBIE"

fun kill_zombie_loop :: "nat list \<Rightarrow> kstate \<Rightarrow> kstate outcome" where
  "kill_zombie_loop [] s = Inr s"
| "kill_zombie_loop (i # is) s =
     (if is_zombie s i
      then and_then (kill_thread (t_tid (thr s (threadList s i))) s) (kill_zombie_loop is)
      else kill_zombie_loop is s)"

definition kill_zombie_threads :: "kstate \<Rightarrow> kstate outcome" where
  "kill_zombie_threads s = kill_zombie_loop [0..<THREAD_COUNT_MAX] s"

fun dead_thread_collector_loop :: "addr \<Rightarrow> nat list \<Rightarrow> kstate \<Rightarrow> kstate outcome" where
  "dead_thread_collector_loop Idle [] s = Inr s"
| "dead_thread_collector_loop Idle (i # is) s =
     (if is_zombie s i
      then if threadList s i = Idle
           then Inl (Panic ''dead_thread_collector: We can't kill the Idle thread!'')
           else if t_tid (thr s (threadList s i)) = l_current_tid (lapic_info s 0)
           then Inl (Panic ''dead_thread_collector: We can't kill the current_tid!'')
           else and_then (kill_thread (t_tid (thr s (threadList s i))) s)
                  (dead_thread_collector_loop Idle is)
      else dead_thread_collector_loop Idle is s)"

definition dead_thread_collector :: "kstate \<Rightarrow> kstate outcome" where
  "dead_thread_collector s =
    (if UP_IdleThread s = NULL then Inl (Panic ''dead_thread_collector: Idle'')
     else if t_magic (thr s (UP_IdleThread s)) \<noteq> 1234
     then Inl (Panic ''dead_thread_collector: Idle validation'')
     else dead_thread_collector_loop (UP_IdleThread s) [0..<THREAD_COUNT_MAX] s)"

section \<open>Thread structures (thread.c)\<close>

definition destroy_thread_structure :: "addr \<Rightarrow> kstate \<Rightarrow> int \<times> kstate" where
  "destroy_thread_structure thread s =
    (if thread = NULL then (-1, s)
     else if \<not> t_used (thr s thread) then (-1, s)
     else let TID = t_tid (thr s thread) in
       if TID < 0 then (-1, s)
       else if int THREAD_COUNT_MAX \<le> TID then (-1, s)
       else if thread \<noteq> thr_at s TID then (-1, s)
       else (0, upd_thr thread (\<lambda>x. x\<lparr>t_magic := 0, t_used := False\<rparr>) s))"

definition is_ready :: "kstate \<Rightarrow> nat \<Rightarrow> bool" where
  "is_ready s i \<longleftrightarrow> threadList s i \<noteq> NULL \<and> t_used (thr s (threadList s i)) \<and>
     t_magic (thr s (threadList s i)) = 1234 \<and> t_state (thr s (threadList s i)) = READY"

definition find_ready_thread :: "kstate \<Rightarrow> addr" where
  "find_ready_thread s =
    (case first_slot (is_ready s) [0..<THREAD_COUNT_MAX] of
       None \<Rightarrow> NULL | Some i \<Rightarrow> threadList s i)"

definition GetThreadState :: "addr \<Rightarrow> kstate \<Rightarrow> thread_state_t option" where
  "GetThreadState thread s =
    (if thread = NULL then None
     else if \<not> t_used (thr s thread) then None
     else Some (t_state (thr s thread)))"

definition thread_select_for_execution :: "addr \<Rightarrow> kstate \<Rightarrow> kstate" where
  "thread_select_for_execution Thread s =
    (if Thread = NULL then s else schediSelectForExecution Thread s)"

text \<open>
  The profiler divides by its tick limit and by a hundredth of it; a limit below 100 makes the
  processor raise a divide error on the first valid thread.
\<close>

definition profile_thread :: "u64 \<Rightarrow> thread_d \<Rightarrow> thread_d" where
  "profile_thread limit x =
    (let last = t_profiler_ticks_running x; md = last mod limit in
     x\<lparr>t_profiler_last_ticks := last, t_profiler_ticks_running := 0,
       t_profiler_percentage_running_res := last div limit,
       t_profiler_percentage_running_mod := md,
       t_profiler_percentage_running := md div (limit div 100)\<rparr>)"

fun profiler_loop :: "nat list \<Rightarrow> kstate \<Rightarrow> kstate outcome" where
  "profiler_loop [] s = Inr s"
| "profiler_loop (i # is) s =
     (let t = threadList s i in
      if t \<noteq> NULL \<and> t_used (thr s t) \<and> t_magic (thr s t) = 1234
      then if profiler_ticks_limit s div 100 = 0 then Inl (Die ''divide error'')
           else profiler_loop is (upd_thr t (profile_thread (profiler_ticks_limit s)) s)
      else profiler_loop is s)"

definition thread_profiler :: "int \<Rightarrow> int \<Rightarrow> kstate \<Rightarrow> (int \<times> kstate) outcome" where
  "thread_profiler service lapic_id s =
    (if service < 0 then Inr (-1, s)
     else if lapic_id < 0 then Inr (-1, s)
     else if NR_CPUS \<le> lapic_id then Inr (-1, s)
     else let Idle = UP_IdleThread s in
       if Idle = NULL then Inl (Panic ''thread_profiler: Idle'')
       else if t_magic (thr s Idle) \<noteq> 1234 then Inl (Panic ''thread_profiler: Idle validation'')
       else let cur = GetCurrentThreadForThisCore lapic_id s in
         if cur = NULL then Inl (Panic ''thread_profiler: __current'')
         else if t_magic (thr s cur) \<noteq> 1234 then Inl (Panic ''thread_profiler: __current validation'')
         else if service = 1
         then Inr (0, upd_thr cur (\<lambda>x. x\<lparr>t_profiler_ticks_running := t_profiler_ticks_running x + 1\<rparr>) s)
         else if service = 2
         then and_then (profiler_loop [0..<THREAD_COUNT_MAX] s) (\<lambda>s1.
           Inr (0, s1\<lparr>profiler_percentage_all_normal_threads :=
                       100 - t_profiler_percentage_running (thr s1 Idle),
                     profiler_percentage_idle_thread :=
                       t_profiler_percentage_running (thr s1 Idle)\<rparr>))
         else Inr (-1, s))"

definition sys_notify_event :: "int \<Rightarrow> int \<Rightarrow> int \<Rightarrow> kstate \<Rightarrow> int \<times> kstate" where
  "sys_notify_event caller_tid target_tid event_number s =
    (if \<not> tid_ok target_tid then (-1, s)
     else let t = thr_at s target_tid in
       if t = NULL then (-1, s)
       else if t_magic (thr s t) \<noteq> 1234 then (-1, s)
       else let fIsDisplayServer = (DisplayServer_initialized s \<and> DisplayServer_tid s = caller_tid) in
         if event_number = 8000
         then (0, if fIsDisplayServer
                  then upd_thr t (\<lambda>x. x\<lparr>t_msgctl := (t_msgctl x)\<lparr>has_event_from_ds := True\<rparr>\<rparr>) s else s)
         else if event_number = 8001
         then (0, if fIsDisplayServer
                  then upd_thr t (\<lambda>x. x\<lparr>t_msgctl := (t_msgctl x)\<lparr>has_event_from_ds := False\<rparr>\<rparr>) s else s)
         else (-1, s))"

definition THREAD_WANTS_TAB :: u64 where "THREAD_WANTS_TAB = 1"
definition THREAD_WANTS_ESC :: u64 where "THREAD_WANTS_ESC = 2"

definition upd_msgctl :: "addr \<Rightarrow> (msgctl_d \<Rightarrow> msgctl_d) \<Rightarrow> kstate \<Rightarrow> kstate" where
  "upd_msgctl t f s = upd_thr t (\<lambda>x. x\<lparr>t_msgctl := f (t_msgctl x)\<rparr>) s"

definition sys_msgctl :: "int \<Rightarrow> int \<Rightarrow> kstate \<Rightarrow> int \<times> kstate" where
  "sys_msgctl caller_tid option s =
    (if caller_tid \<noteq> l_current_tid (lapic_info s 0) then (-1, s)
     else if \<not> tid_ok caller_tid then (-1, s)
     else let t = thr_at s caller_tid in
       if t = NULL then (-1, s)
       else if t_magic (thr s t) \<noteq> 1234 then (-1, s)
       else if option = 1000 then (0, upd_msgctl t (\<lambda>m. m\<lparr>block_on_empty := True\<rparr>) s)
       else if option = 1001 then (0, upd_msgctl t (\<lambda>m. m\<lparr>block_on_empty := False\<rparr>) s)
       else if option = 2000
       then (0, upd_msgctl t (\<lambda>m. m\<lparr>mc_input_flags := mc_input_flags m OR THREAD_WANTS_TAB\<rparr>) s)
       else if option = 2001
       then (0, upd_msgctl t (\<lambda>m. m\<lparr>mc_input_flags := mc_input_flags m AND NOT THREAD_WANTS_TAB\<rparr>) s)
       else if option = 2002
       then (0, upd_msgctl t (\<lambda>m. m\<lparr>mc_input_flags := mc_input_flags m OR THREAD_WANTS_ESC\<rparr>) s)
       else if option = 2003
       then (0, upd_msgctl t (\<lambda>m. m\<lparr>mc_input_flags := mc_input_flags m AND NOT THREAD_WANTS_ESC\<rparr>) s)
       else (-1, s))"

definition exit_thread :: "int \<Rightarrow> kstate \<Rightarrow> (int \<times> kstate) outcome" where
  "exit_thread tid s =
    (if \<not> tid_ok tid then Inr (-1, s)
     else let Idle = UP_IdleThread s in
       if Idle = NULL then Inl (Panic ''exit_thread: Idle'')
       else if t_magic (thr s Idle) \<noteq> 1234 then Inl (Panic ''exit_thread: Idle validation'')
       else if tid = t_tid (thr s Idle)
       then Inl (Panic ''exit_thread: We can't kill the Idle thread'')
       else let t = thr_at s tid in
         if t = NULL then Inr (-1, s)
         else if t_magic (thr s t) \<noteq> 1234 then Inr (-1, s)
         else Inr (0, upd_thr t (\<lambda>x. x\<lparr>t_Deferred := (t_Deferred x)\<lparr>exit_in_progress := True\<rparr>\<rparr>) s))"

definition exit_current_thread :: "kstate \<Rightarrow> (int \<times> kstate) outcome" where
  "exit_current_thread s =
    (let tid = l_current_tid (lapic_info s 0) in
     if tid < 0 then Inr (-1, s)
     else if int THREAD_COUNT_MAX \<le> tid then Inr (-1, s)
     else exit_thread tid s)"

section \<open>Well-formed thread tables\<close>

text \<open>
  A slot of the table holds the thread whose tid is the slot number, which is how
  \<^verbatim>\<open>create_thread\<close> fills it; the rest of the kernel indexes the table by tid.
\<close>

definition wf_threads :: "kstate \<Rightarrow> bool" where
  "wf_threads s \<longleftrightarrow>
    (\<forall>i < THREAD_COUNT_MAX. threadList s i \<noteq> NULL \<longrightarrow> t_tid (thr s (threadList s i)) = int i)"

lemma wf_threads_tid:
  "wf_threads s \<Longrightarrow> i < THREAD_COUNT_MAX \<Longrightarrow> threadList s i \<noteq> NULL \<Longrightarrow>
     t_tid (thr s (threadList s i)) = int i"
  by (simp add: wf_threads_def)

lemma wf_threads_inj:
  assumes "wf_threads s" "i < THREAD_COUNT_MAX" "j < THREAD_COUNT_MAX"
    and "threadList s i = threadList s j" "threadList s i \<noteq> NULL"
  shows "i = j"
proof -
  from assms(4,5) have "threadList s j \<noteq> NULL" by simp
  with assms have "int i = int j" using wf_threads_tid by metis
  then show ?thesis by simp
qed

lemma wf_threads_tid_inj:
  assumes "wf_threads s" "tid_ok a" "tid_ok b" "thr_at s a = thr_at s b" "thr_at s a \<noteq> NULL"
  shows "a = b"
proof -
  have "nat a = nat b"
    using wf_threads_inj [OF assms(1) _ _ assms(4,5)] assms(2,3) by (auto simp: tid_ok_def)
  with assms(2,3) show ?thesis by (auto simp: tid_ok_def)
qed

text \<open>The processor's current tid names a thread in use.\<close>

definition current_valid :: "kstate \<Rightarrow> nat \<Rightarrow> bool" where
  "current_valid s n \<longleftrightarrow>
    tid_ok (l_current_tid (lapic_info s n)) \<and>
    thr_ok s (thr_at s (l_current_tid (lapic_info s n)))"

section \<open>The contract of the thread interface\<close>

text \<open>
  What the scheduler, the dispatcher and the system calls rely on when they use the thread
  interface: a call that returns never edits the table, never changes the tid of a thread, changes the use
  flag and the magic number of a thread only when it retires it, never turns the Init thread into a zombie, and leaves a
  processor with a valid current thread unless it is one of the calls that can take it away: such a
  call does not \<open>spare\<close> the processor. The consequences for whole sequences of calls are proved once from
  these laws.
\<close>

fun run_calls :: "('c \<Rightarrow> kstate \<Rightarrow> kstate outcome) \<Rightarrow> 'c list \<Rightarrow> kstate \<Rightarrow> kstate outcome" where
  "run_calls exec [] s = Inr s"
| "run_calls exec (c # cs) s = and_then (exec c s) (run_calls exec cs)"

fun run_spares :: "('c \<Rightarrow> kstate \<Rightarrow> kstate outcome) \<Rightarrow> ('c \<Rightarrow> kstate \<Rightarrow> bool) \<Rightarrow> 'c list \<Rightarrow> kstate \<Rightarrow> bool" where
  "run_spares exec spare [] s = True"
| "run_spares exec spare (c # cs) s = (spare c s \<and> (case exec c s of Inl h \<Rightarrow> True | Inr s1 \<Rightarrow> run_spares exec spare cs s1))"

definition retired_or_same :: "thread_d \<Rightarrow> thread_d \<Rightarrow> bool" where
  "retired_or_same t t' \<longleftrightarrow> t_used t' = t_used t \<and> t_magic t' = t_magic t \<or> \<not> t_used t' \<and> t_magic t' = 0"

lemma retired_or_same_refl [simp]: "retired_or_same t t"
  by (simp add: retired_or_same_def)

lemma retired_or_same_trans: "retired_or_same t t1 \<Longrightarrow> retired_or_same t1 t2 \<Longrightarrow> retired_or_same t t2"
  by (auto simp: retired_or_same_def)

locale thread_interface =
  fixes exec :: "'c \<Rightarrow> kstate \<Rightarrow> kstate outcome"
    and retires :: "'c \<Rightarrow> addr set"
    and spares :: "nat \<Rightarrow> 'c \<Rightarrow> kstate \<Rightarrow> bool"
  assumes exec_threadList: "exec c s = Inr s' \<Longrightarrow> threadList s' = threadList s"
    and exec_tid: "exec c s = Inr s' \<Longrightarrow> t_tid (thr s' p) = t_tid (thr s p)"
    and exec_live: "exec c s = Inr s' \<Longrightarrow> p \<notin> retires c \<Longrightarrow>
      t_used (thr s' p) = t_used (thr s p) \<and> t_magic (thr s' p) = t_magic (thr s p)"
    and exec_retired: "exec c s = Inr s' \<Longrightarrow> retired_or_same (thr s p) (thr s' p)"
    and exec_init: "exec c s = Inr s' \<Longrightarrow> wf_threads s \<Longrightarrow> thr_at s INIT_TID \<noteq> NULL \<Longrightarrow>
      t_state (thr s (thr_at s INIT_TID)) \<noteq> ZOMBIE \<Longrightarrow>
      t_state (thr s' (thr_at s INIT_TID)) \<noteq> ZOMBIE"
    and exec_current: "exec c s = Inr s' \<Longrightarrow> spares n c s \<Longrightarrow> current_valid s n \<Longrightarrow> current_valid s' n"
begin

lemma exec_wf: "exec c s = Inr s' \<Longrightarrow> wf_threads s \<Longrightarrow> wf_threads s'"
  by (simp add: wf_threads_def exec_threadList exec_tid)

lemma run_identity:
  "run_calls exec cs s = Inr s' \<Longrightarrow> threadList s' = threadList s \<and> t_tid (thr s' p) = t_tid (thr s p) \<and>
     retired_or_same (thr s p) (thr s' p)"
proof (induction cs arbitrary: s)
  case (Cons c cs)
  then obtain s1 where c: "exec c s = Inr s1" and r: "run_calls exec cs s1 = Inr s'" by (auto elim: and_then_InrE)
  from Cons.IH [OF r] show ?case
    using exec_threadList [OF c] exec_tid [OF c] retired_or_same_trans [OF exec_retired [OF c]] by simp
qed simp

lemma run_live:
  "run_calls exec cs s = Inr s' \<Longrightarrow> \<forall>c \<in> set cs. p \<notin> retires c \<Longrightarrow>
     t_used (thr s' p) = t_used (thr s p) \<and> t_magic (thr s' p) = t_magic (thr s p)"
proof (induction cs arbitrary: s)
  case (Cons c cs)
  then obtain s1 where c: "exec c s = Inr s1" and r: "run_calls exec cs s1 = Inr s'" by (auto elim: and_then_InrE)
  from Cons.IH [OF r] Cons.prems(2) exec_live [OF c, of p] show ?case by simp
qed simp

lemma run_wf: "run_calls exec cs s = Inr s' \<Longrightarrow> wf_threads s \<Longrightarrow> wf_threads s'"
  using run_identity by (simp add: wf_threads_def)

lemma run_current:
  "run_calls exec cs s = Inr s' \<Longrightarrow> run_spares exec (spares n) cs s \<Longrightarrow> current_valid s n \<Longrightarrow> current_valid s' n"
proof (induction cs arbitrary: s)
  case (Cons c cs)
  then obtain s1 where c: "exec c s = Inr s1" and r: "run_calls exec cs s1 = Inr s'" by (auto elim: and_then_InrE)
  show ?case by (rule Cons.IH [OF r]) (use Cons.prems(2,3) c exec_current [OF c] in simp_all)
qed simp

lemma run_init:
  "run_calls exec cs s = Inr s' \<Longrightarrow> wf_threads s \<Longrightarrow> thr_at s INIT_TID \<noteq> NULL \<Longrightarrow>
     t_state (thr s (thr_at s INIT_TID)) \<noteq> ZOMBIE \<Longrightarrow> t_state (thr s' (thr_at s INIT_TID)) \<noteq> ZOMBIE"
proof (induction cs arbitrary: s)
  case (Cons c cs)
  then obtain s1 where c: "exec c s = Inr s1" and r: "run_calls exec cs s1 = Inr s'" by (auto elim: and_then_InrE)
  have "thr_at s1 INIT_TID = thr_at s INIT_TID" by (simp add: exec_threadList [OF c])
  then show ?case
    using Cons.IH [OF r] Cons.prems(2-4) exec_wf [OF c] exec_init [OF c] by simp
qed simp

end

section \<open>The calls\<close>

text \<open>Every call of schedi.c, tlib.c and thread.c that changes the state of existing threads or of a processor.\<close>

datatype thread_call =
    CallBlocked int | CallDead int | CallInitialized int | CallReady int | CallRunning int
  | CallStandby int | CallWaiting int u64 | CallZombie int | CallWaitpid int
  | CallSelect addr | CallWaitReason int int | CallWakeup int | CallYield int
  | CallSleepUntil int u64 | CallSleep int u64 | CallDropQuantum addr | CallCredits int
  | CallLink addr addr | CallUnlink addr addr | CallPriority addr u64 | CallPower addr u64
  | CallRelease int | CallSetCurrent int int | CallForeground int
  | CallNotify int int int | CallMsgctl int int | CallSetTID int int | CallDestroy addr | CallPml4 addr u64
  | CallSelectExecution addr | CallExit int | CallExitCurrent | CallKill int | CallKillZombies
  | CallCheckCollector | CallCollect | CallProfile int int

fun exec_call :: "thread_call \<Rightarrow> kstate \<Rightarrow> kstate outcome" where
  "exec_call (CallBlocked tid) s = Inr (do_thread_blocked tid s)"
| "exec_call (CallDead tid) s = Inr (do_thread_dead tid s)"
| "exec_call (CallInitialized tid) s = Inr (do_thread_initialized tid s)"
| "exec_call (CallReady tid) s = Inr (do_thread_ready tid s)"
| "exec_call (CallRunning tid) s = Inr (do_thread_running tid s)"
| "exec_call (CallStandby tid) s = Inr (do_thread_standby tid s)"
| "exec_call (CallWaiting tid ms) s = Inr (do_thread_waiting tid ms s)"
| "exec_call (CallZombie tid) s = Inr (do_thread_zombie tid s)"
| "exec_call (CallWaitpid pid) s = Inr (snd (do_waitpid pid s))"
| "exec_call (CallSelect t) s = Inr (schediSelectForExecution t s)"
| "exec_call (CallWaitReason tid r) s = Inr (wait_for_a_reason tid r s)"
| "exec_call (CallWakeup tid) s = Inr (wakeup_thread tid s)"
| "exec_call (CallYield tid) s = Inr (yield_thread tid s)"
| "exec_call (CallSleepUntil tid ms) s = Inr (sleep_until tid ms s)"
| "exec_call (CallSleep tid ms) s = Inr (sleep_thread tid ms s)"
| "exec_call (CallDropQuantum t) s = Inr (schedi_drop_quantum t s)"
| "exec_call (CallCredits tid) s = Inr (do_credits_by_tid tid s)"
| "exec_call (CallLink p q) s = Inr (snd (link_two_threads p q s))"
| "exec_call (CallUnlink p q) s = Inr (snd (unlink_two_threads p q s))"
| "exec_call (CallPriority t pr) s = Inr (set_thread_priority t pr s)"
| "exec_call (CallPower t pr) s = Inr (threadi_power t pr s)"
| "exec_call (CallRelease tid) s = Inr (release tid s)"
| "exec_call (CallSetCurrent tid cpu) s = Inr (set_current_thread tid cpu s)"
| "exec_call (CallForeground tid) s = Inr (set_foreground_thread tid s)"
| "exec_call (CallNotify caller target ev) s = Inr (snd (sys_notify_event caller target ev s))"
| "exec_call (CallMsgctl caller opt) s = Inr (snd (sys_msgctl caller opt s))"
| "exec_call (CallSetTID tid cpu) s = Inr (SetCurrentTID tid cpu s)"
| "exec_call (CallDestroy t) s = Inr (snd (destroy_thread_structure t s))"
| "exec_call (CallPml4 t pa) s = Inr (SetThread_PML4PA t pa s)"
| "exec_call (CallSelectExecution t) s = Inr (thread_select_for_execution t s)"
| "exec_call (CallExit tid) s = and_then (exit_thread tid s) (\<lambda>(rv, s1). Inr s1)"
| "exec_call CallExitCurrent s = and_then (exit_current_thread s) (\<lambda>(rv, s1). Inr s1)"
| "exec_call (CallKill tid) s = kill_thread tid s"
| "exec_call CallKillZombies s = kill_zombie_threads s"
| "exec_call CallCheckCollector s = Inr (check_for_dead_thread_collector s)"
| "exec_call CallCollect s = dead_thread_collector s"
| "exec_call (CallProfile service cpu) s = and_then (thread_profiler service cpu s) (\<lambda>(rv, s1). Inr s1)"

text \<open>
  The two calls that can take the current thread of processor \<open>n\<close> away: \<^verbatim>\<open>SetCurrentTID\<close> stores any number, and
  \<^verbatim>\<open>destroy_thread_structure\<close> retires any thread.
\<close>

fun call_spares :: "nat \<Rightarrow> thread_call \<Rightarrow> kstate \<Rightarrow> bool" where
  "call_spares n (CallSetTID tid cpu) s = (cpu = int n \<longrightarrow> tid_ok tid \<and> thr_ok s (thr_at s tid))"
| "call_spares n (CallDestroy t) s = (t \<noteq> thr_at s (l_current_tid (lapic_info s n)))"
| "call_spares n c s = True"

fun call_retires :: "thread_call \<Rightarrow> addr set" where
  "call_retires (CallDestroy t) = {t}"
| "call_retires c = {}"

text \<open>
  Each call is the identity, or an update of one thread, of two threads, of a process, of a
  processor block or of the foreground tid. The facts about single fields follow by unfolding.
\<close>

lemmas thread_call_defs = do_thread_blocked_def do_thread_dead_def do_thread_initialized_def
  do_thread_ready_def do_thread_running_def do_thread_standby_def do_thread_waiting_def
  do_thread_zombie_def do_waitpid_def schediSelectForExecution_def wait_for_a_reason_def
  wakeup_thread_def yield_thread_def sleep_until_def sleep_thread_def schedi_drop_quantum_def
  do_credits_by_tid_def do_credits_def link_two_threads_def unlink_two_threads_def
  set_thread_priority_def threadi_power_def release_def set_current_thread_def
  set_foreground_thread_def sys_notify_event_def sys_msgctl_def upd_msgctl_def clamp_quantum_def
  SetCurrentTID_def destroy_thread_structure_def SetThread_PML4PA_def thread_select_for_execution_def
  check_for_dead_thread_collector_def

text \<open>The calls that can halt: what is left when they return.\<close>

lemma exit_thread_Inr:
  "exit_thread tid s = Inr (rv, s') \<Longrightarrow> s' = s \<or> (\<exists>t. s' = upd_thr t (\<lambda>x. x\<lparr>t_Deferred := (t_Deferred x)\<lparr>exit_in_progress := True\<rparr>\<rparr>) s)"
  by (auto simp: exit_thread_def Let_def split: if_splits)

lemma exit_current_Inr:
  "exit_current_thread s = Inr (rv, s') \<Longrightarrow> s' = s \<or> (\<exists>t. s' = upd_thr t (\<lambda>x. x\<lparr>t_Deferred := (t_Deferred x)\<lparr>exit_in_progress := True\<rparr>\<rparr>) s)"
  by (auto simp: exit_current_thread_def Let_def dest: exit_thread_Inr split: if_splits)

lemma kill_zombie_loop_Inr: "kill_zombie_loop is s = Inr s' \<Longrightarrow> s' = s"
  by (induction "is") (auto simp: kill_thread_def split: if_splits)

lemma collector_loop_Inr: "dead_thread_collector_loop t is s = Inr s' \<Longrightarrow> s' = s"
  by (induction "is") (auto simp: kill_thread_def split: if_splits)

text \<open>What a call may not touch, and the calls that touch nothing of it.\<close>

definition same_identities :: "kstate \<Rightarrow> kstate \<Rightarrow> bool" where
  "same_identities s s' \<longleftrightarrow> threadList s' = threadList s \<and> lapic_info s' = lapic_info s \<and> InitThread s' = InitThread s \<and>
     UP_IdleThread s' = UP_IdleThread s \<and> heap s' = heap s \<and> msgs s' = msgs s \<and>
     (\<forall>p. t_tid (thr s' p) = t_tid (thr s p) \<and> t_used (thr s' p) = t_used (thr s p) \<and> t_magic (thr s' p) = t_magic (thr s p) \<and>
        t_state (thr s' p) = t_state (thr s p) \<and> t_MsgQueue (thr s' p) = t_MsgQueue (thr s p) \<and>
        t_MsgQueueHead (thr s' p) = t_MsgQueueHead (thr s p) \<and> t_MsgQueueTail (thr s' p) = t_MsgQueueTail (thr s p))"

lemma same_identities_refl [simp]: "same_identities s s"
  by (simp add: same_identities_def)

lemma same_identities_trans: "same_identities s s1 \<Longrightarrow> same_identities s1 s2 \<Longrightarrow> same_identities s s2"
  by (simp add: same_identities_def)

lemma same_identities_profile: "same_identities s (upd_thr t (profile_thread l) s)"
  by (simp add: same_identities_def profile_thread_def Let_def)

lemma profiler_loop_Inr: "profiler_loop is s = Inr s' \<Longrightarrow> same_identities s s'"
proof (induction "is" arbitrary: s)
  case (Cons i "is")
  let ?t = "threadList s i"
  show ?case
  proof (cases "?t \<noteq> NULL \<and> t_used (thr s ?t) \<and> t_magic (thr s ?t) = 1234")
    case True
    with Cons.prems have "profiler_loop is (upd_thr ?t (profile_thread (profiler_ticks_limit s)) s) = Inr s'"
      by (auto simp: Let_def split: if_splits)
    from same_identities_trans [OF same_identities_profile Cons.IH [OF this]] show ?thesis .
  next
    case False
    with Cons.prems have "profiler_loop is s = Inr s'" by (auto simp: Let_def split: if_splits)
    then show ?thesis by (rule Cons.IH)
  qed
qed simp

lemma profiler_Inr:
  assumes "thread_profiler service cpu s = Inr (rv, s')"
  shows "same_identities s s'"
proof -
  have p: "same_identities s (s1\<lparr>profiler_percentage_all_normal_threads := a, profiler_percentage_idle_thread := b\<rparr>)"
    if "same_identities s s1" for s1 a b using that by (simp add: same_identities_def)
  have t: "same_identities s (upd_thr c (\<lambda>x. x\<lparr>t_profiler_ticks_running := t_profiler_ticks_running x + 1\<rparr>) s)" for c
    by (simp add: same_identities_def)
  show ?thesis using assms
    by (auto simp: thread_profiler_def Let_def t p dest: profiler_loop_Inr split: if_splits elim!: and_then_InrE)
qed

lemma same_identities_exit: "same_identities s (upd_thr t (\<lambda>x. x\<lparr>t_Deferred := (t_Deferred x)\<lparr>exit_in_progress := True\<rparr>\<rparr>) s)"
  by (simp add: same_identities_def)

fun may_halt :: "thread_call \<Rightarrow> bool" where
  "may_halt (CallExit tid) = True"
| "may_halt CallExitCurrent = True"
| "may_halt (CallKill tid) = True"
| "may_halt CallKillZombies = True"
| "may_halt CallCollect = True"
| "may_halt (CallProfile service cpu) = True"
| "may_halt c = False"

lemma may_halt_Inr: "may_halt c \<Longrightarrow> exec_call c s = Inr s' \<Longrightarrow> same_identities s s'"
proof (cases c)
  case (CallExit tid)
  assume "exec_call c s = Inr s'"
  then show ?thesis unfolding CallExit by (auto elim!: and_then_InrE dest!: exit_thread_Inr intro: same_identities_exit)
next
  case CallExitCurrent
  assume "exec_call c s = Inr s'"
  then show ?thesis unfolding CallExitCurrent by (auto elim!: and_then_InrE dest!: exit_current_Inr intro: same_identities_exit)
next
  case (CallProfile a b)
  assume "exec_call c s = Inr s'"
  then show ?thesis unfolding CallProfile by (auto elim!: and_then_InrE dest!: profiler_Inr)
qed (auto simp: kill_thread_def kill_zombie_threads_def dead_thread_collector_def
    dest!: kill_zombie_loop_Inr collector_loop_Inr split: if_splits)

definition after_call :: "thread_call \<Rightarrow> kstate \<Rightarrow> kstate" where
  "after_call c s = (case exec_call c s of Inl h \<Rightarrow> s | Inr s1 \<Rightarrow> s1)"

lemma after_call: "exec_call c s = Inr s' \<Longrightarrow> s' = after_call c s"
  by (simp add: after_call_def)

lemma plain_call_table: "\<not> may_halt c \<Longrightarrow> threadList (after_call c s) = threadList s"
  by (cases c) (simp_all add: after_call_def thread_call_defs Let_def)

lemma plain_call_tid: "\<not> may_halt c \<Longrightarrow> t_tid (thr (after_call c s) p) = t_tid (thr s p)"
  by (cases c) (simp_all add: after_call_def thread_call_defs Let_def)

lemma plain_call_used: "\<not> may_halt c \<Longrightarrow> p \<notin> call_retires c \<Longrightarrow> t_used (thr (after_call c s) p) = t_used (thr s p)"
  by (cases c) (simp_all add: after_call_def thread_call_defs Let_def)

lemma plain_call_magic: "\<not> may_halt c \<Longrightarrow> p \<notin> call_retires c \<Longrightarrow> t_magic (thr (after_call c s) p) = t_magic (thr s p)"
  by (cases c) (simp_all add: after_call_def thread_call_defs Let_def)

lemma plain_call_current:
  assumes "\<not> may_halt c" "call_spares n c s" "l_current_tid (lapic_info (after_call c s) n) \<noteq> l_current_tid (lapic_info s n)"
  shows "current_valid (after_call c s) n"
proof (cases c)
  case (CallSetCurrent tid cpu)
  with assms(3) show ?thesis
    by (auto simp: after_call_def set_current_thread_def Let_def current_valid_def thr_ok_def split: if_splits)
next
  case (CallSetTID tid cpu)
  with assms(3) have cpu: "cpu = int n" and e: "after_call c s = upd_lapic n (\<lambda>l. l\<lparr>l_current_tid := tid\<rparr>) s"
    by (auto simp: after_call_def SetCurrentTID_def split: if_splits)
  from assms(2) CallSetTID cpu show ?thesis unfolding e by (simp add: current_valid_def thr_ok_def)
qed (use assms in \<open>simp_all add: after_call_def thread_call_defs Let_def split: if_splits\<close>)

lemma plain_call_zombie:
  "\<not> may_halt c \<Longrightarrow> t_state (thr (after_call c s) p) = ZOMBIE \<Longrightarrow> t_state (thr s p) \<noteq> ZOMBIE \<Longrightarrow>
     \<exists>tid. tid_ok tid \<and> tid \<noteq> INIT_TID \<and> p = thr_at s tid \<and> p \<noteq> NULL"
  by (cases c) (auto simp: after_call_def thread_call_defs Let_def split: if_splits)

lemma call_retires_iff: "p \<in> call_retires c \<longleftrightarrow> c = CallDestroy p"
  by (cases c) auto

lemma exec_call_table:
  assumes "exec_call c s = Inr s'"
  shows "threadList s' = threadList s" "t_tid (thr s' p) = t_tid (thr s p)"
proof -
  have "threadList s' = threadList s \<and> t_tid (thr s' p) = t_tid (thr s p)"
  proof (cases "may_halt c")
    case True
    from may_halt_Inr [OF this assms] show ?thesis by (simp add: same_identities_def)
  next
    case False
    with after_call [OF assms] plain_call_table plain_call_tid show ?thesis by simp
  qed
  then show "threadList s' = threadList s" "t_tid (thr s' p) = t_tid (thr s p)" by blast+
qed

lemma exec_call_live:
  assumes "exec_call c s = Inr s'" "p \<notin> call_retires c"
  shows "t_used (thr s' p) = t_used (thr s p) \<and> t_magic (thr s' p) = t_magic (thr s p)"
proof (cases "may_halt c")
  case True
  from may_halt_Inr [OF this assms(1)] show ?thesis by (simp add: same_identities_def)
next
  case False
  with assms(2) after_call [OF assms(1)] plain_call_used plain_call_magic show ?thesis by simp
qed

lemma exec_call_retired:
  assumes "exec_call c s = Inr s'"
  shows "retired_or_same (thr s p) (thr s' p)"
proof (cases "p \<in> call_retires c")
  case True
  with assms have "s' = snd (destroy_thread_structure p s)" by (simp add: call_retires_iff)
  then show ?thesis by (auto simp: destroy_thread_structure_def retired_or_same_def Let_def)
qed (use exec_call_live [OF assms] in \<open>simp add: retired_or_same_def\<close>)

text \<open>A call that spares a processor leaves it with a valid thread.\<close>

lemma exec_call_current:
  assumes "exec_call c s = Inr s'" "call_spares n c s" "current_valid s n"
  shows "current_valid s' n"
proof (cases "may_halt c")
  case True
  from may_halt_Inr [OF this assms(1)] assms(3) show ?thesis
    by (simp add: same_identities_def current_valid_def thr_ok_def)
next
  case False
  show ?thesis
  proof (cases "l_current_tid (lapic_info s' n) = l_current_tid (lapic_info s n)")
    case True
    have "thr_at s (l_current_tid (lapic_info s n)) \<notin> call_retires c"
      using assms(2) by (auto simp: call_retires_iff)
    with assms(3) True exec_call_table [OF assms(1)] exec_call_live [OF assms(1)] show ?thesis
      by (auto simp: current_valid_def thr_ok_def)
  next
    case False
    with plain_call_current [OF \<open>\<not> may_halt c\<close> assms(2)] after_call [OF assms(1)] show ?thesis by simp
  qed
qed

text \<open>Only \<^verbatim>\<open>do_thread_zombie\<close> makes a zombie, and it refuses the Init thread.\<close>

lemma exec_call_zombie:
  assumes "exec_call c s = Inr s'" "t_state (thr s' p) = ZOMBIE" "t_state (thr s p) \<noteq> ZOMBIE"
  shows "\<exists>tid. tid_ok tid \<and> tid \<noteq> INIT_TID \<and> p = thr_at s tid \<and> p \<noteq> NULL"
proof (cases "may_halt c")
  case True
  from may_halt_Inr [OF this assms(1)] assms(2,3) show ?thesis by (simp add: same_identities_def)
next
  case False
  with plain_call_zombie [OF False] after_call [OF assms(1)] assms(2,3) show ?thesis by blast
qed

interpretation calls: thread_interface exec_call call_retires call_spares
proof
  fix c s s'
  assume c: "exec_call c s = Inr s'" and wf: "wf_threads s" and nn: "thr_at s INIT_TID \<noteq> NULL"
    and z: "t_state (thr s (thr_at s INIT_TID)) \<noteq> ZOMBIE"
  show "t_state (thr s' (thr_at s INIT_TID)) \<noteq> ZOMBIE"
  proof
    assume "t_state (thr s' (thr_at s INIT_TID)) = ZOMBIE"
    from exec_call_zombie [OF c this z] obtain tid where
      "tid_ok tid" "tid \<noteq> INIT_TID" "thr_at s INIT_TID = thr_at s tid" by blast
    moreover have "tid_ok INIT_TID" by (simp add: tid_ok_def INIT_TID_def THREAD_COUNT_MAX_def)
    ultimately show False using wf_threads_tid_inj [OF wf, of INIT_TID tid] nn by simp
  qed
qed (use exec_call_table exec_call_live exec_call_retired exec_call_current in blast)+

section \<open>Properties\<close>

text \<open>A small concrete state: Init running, thread 1 ready, thread 2 asleep.\<close>

definition sample_thread :: "int \<Rightarrow> thread_state_t \<Rightarrow> thread_d" where
  "sample_thread tid st = zero_thread\<lparr>t_used := True, t_magic := 1234, t_tid := tid, t_state := st,
     t_saved := True, t_base_priority := PRIORITY_P2, t_priority := PRIORITY_P2,
     t_quantum := QUANTUM_Q2\<rparr>"

definition sample_kstate :: kstate where
  "sample_kstate = zero_kstate\<lparr>
     thr := (\<lambda>_. zero_thread)(0x1000 := sample_thread 0 RUNNING, 0x2000 := sample_thread 1 READY,
       0x3000 := sample_thread 2 WAITING),
     threadList := (\<lambda>_. NULL)(0 := 0x1000, 1 := 0x2000, 2 := 0x3000),
     InitThread := 0x1000, UP_IdleThread := 0x1000\<rparr>"

lemma sample_thread_sel [simp]:
  "t_used (sample_thread i st)" "t_magic (sample_thread i st) = 1234"
  "t_tid (sample_thread i st) = i" "t_state (sample_thread i st) = st"
  "t_saved (sample_thread i st)" "t_base_priority (sample_thread i st) = PRIORITY_P2"
  "t_priority (sample_thread i st) = PRIORITY_P2" "t_quantum (sample_thread i st) = QUANTUM_Q2"
  by (simp_all add: sample_thread_def)

lemma sample_kstate_sel [simp]:
  "thr sample_kstate = (\<lambda>_. zero_thread)(0x1000 := sample_thread 0 RUNNING,
     0x2000 := sample_thread 1 READY, 0x3000 := sample_thread 2 WAITING)"
  "threadList sample_kstate = (\<lambda>_. NULL)(0 := 0x1000, 1 := 0x2000, 2 := 0x3000)"
  "lapic_info sample_kstate = (\<lambda>_. zero_lapic)" "jiffies sample_kstate = 0"
  "InitThread sample_kstate = 0x1000"
  by (simp_all add: sample_kstate_def zero_kstate_def)

lemma sample_kstate_wf: "wf_threads sample_kstate"
  by (simp add: wf_threads_def)

lemma sample_kstate_current: "current_valid sample_kstate n"
  by (simp add: current_valid_def tid_ok_def THREAD_COUNT_MAX_def zero_lapic_def thr_ok_def)

text \<open>
  Claim C35. Whatever sequence of calls the kernel makes through the thread interface (every call of schedi.c, tlib.c and
  thread.c that changes existing threads or a processor; creating and copying threads is not among them), if they all return:
  the thread table keeps its slots, no thread changes its tid, so every slot keeps the thread whose tid is the slot number; a
  thread that no call destroys keeps its use flag and its magic number, and one that is destroyed at most loses both.
  A processor whose current thread was valid still has a valid current thread, provided that no call
  takes it away: \<^verbatim>\<open>SetCurrentTID\<close> sets the processor to a valid thread only, and
  \<^verbatim>\<open>destroy_thread_structure\<close> is not applied to the thread that is current at that moment.
\<close>

theorem thread_calls_keep_table:
  assumes "wf_threads s" and "run_calls exec_call cs s = Inr s'"
  shows "wf_threads s' \<and> threadList s' = threadList s \<and>
    (\<forall>p. t_tid (thr s' p) = t_tid (thr s p) \<and>
         (if CallDestroy p \<in> set cs then retired_or_same (thr s p) (thr s' p)
          else t_used (thr s' p) = t_used (thr s p) \<and> t_magic (thr s' p) = t_magic (thr s p))) \<and>
    (\<forall>n. current_valid s n \<longrightarrow> run_spares exec_call (call_spares n) cs s \<longrightarrow> current_valid s' n)"
proof -
  have "p \<notin> call_retires c" if "c \<in> set cs" "CallDestroy p \<notin> set cs" for c p
    using that by (auto simp: call_retires_iff)
  then show ?thesis
    using calls.run_wf [OF assms(2,1)] calls.run_current [OF assms(2)] calls.run_identity [OF assms(2)]
      calls.run_live [OF assms(2)] by auto
qed

theorem thread_calls_keep_table_witness:
  "\<exists>s'. run_calls exec_call [CallSetTID 1 0, CallZombie 1, CallDestroy 0x3000, CallExit 1] sample_kstate = Inr s' \<and>
     current_valid s' 0 \<and> l_current_tid (lapic_info s' 0) = 1 \<and> \<not> t_used (thr s' 0x3000)"
proof -
  let ?cs = "[CallSetTID 1 0, CallZombie 1, CallDestroy 0x3000, CallExit 1]"
  have "UP_IdleThread sample_kstate = 0x1000" by (simp add: sample_kstate_def)
  note d = this thread_call_defs Let_def tid_ok_def THREAD_COUNT_MAX_def INIT_TID_def NR_CPUS_def zero_lapic_def
    exit_thread_def thr_ok_def
  obtain s' where r: "run_calls exec_call ?cs sample_kstate = Inr s'" "l_current_tid (lapic_info s' 0) = 1" "\<not> t_used (thr s' 0x3000)"
    by (simp add: d)
  have "run_spares exec_call (call_spares 0) ?cs sample_kstate" by (simp add: d)
  with thread_calls_keep_table [OF sample_kstate_wf r(1)] sample_kstate_current r show ?thesis by blast
qed

text \<open>
  The Init thread survives: in a well-formed table no sequence of calls of the thread
  interface turns the thread in slot 0 into a zombie, so the scheduler's zombie handling and
  the collectors never meet it.
\<close>

theorem init_thread_never_zombie:
  assumes "wf_threads s" and "thr_at s INIT_TID \<noteq> NULL"
    and "t_state (thr s (thr_at s INIT_TID)) \<noteq> ZOMBIE" and "run_calls exec_call cs s = Inr s'"
  shows "t_state (thr s' (thr_at s' INIT_TID)) \<noteq> ZOMBIE"
  using calls.run_init [OF assms(4,1-3)] calls.run_identity [OF assms(4)] by simp

theorem init_thread_never_zombie_witness:
  "\<exists>s'. run_calls exec_call [CallDead 0, CallZombie 0] sample_kstate = Inr s' \<and> t_state (thr s' 0x1000) \<noteq> ZOMBIE"
  using init_thread_never_zombie [OF sample_kstate_wf, of "[CallDead 0, CallZombie 0]"]
  by (simp add: INIT_TID_def thread_call_defs Let_def tid_ok_def THREAD_COUNT_MAX_def)

text \<open>
  Priorities: \<^verbatim>\<open>set_thread_priority\<close> changes only its thread, takes the new priority
  exactly when it lies in the priority range, is at least the thread's base priority and differs
  from the current one, brings the quantum into its range when it does, and so
  never lets a thread fall below its base priority.
\<close>

theorem set_thread_priority_contract:
  assumes "thr_ok s t" and "t_base_priority (thr s t) \<le> t_priority (thr s t)"
  shows "let s' = set_thread_priority t priority s; x = thr s t; x' = thr s' t;
             change = PRIORITY_MIN \<le> priority \<and> priority \<le> PRIORITY_MAX \<and>
               t_base_priority x \<le> priority \<and> priority \<noteq> t_priority x
         in t_priority x' = (if change then priority else t_priority x) \<and>
            t_quantum x' = (if change then min QUANTUM_MAX (max QUANTUM_MIN (t_quantum x)) else t_quantum x) \<and>
            t_base_priority x' = t_base_priority x \<and> t_base_priority x' \<le> t_priority x' \<and>
            (\<forall>q. q \<noteq> t \<longrightarrow> thr s' q = thr s q)"
proof -
  have "QUANTUM_MIN \<le> QUANTUM_MAX" by (simp add: quantum_defs)
  with assms show ?thesis
    by (auto simp: set_thread_priority_def thr_ok_def Let_def clamp_quantum_def min_def max_def)
qed

theorem set_thread_priority_contract_witness:
  "t_priority (thr (set_thread_priority 0x2000 PRIORITY_P5 sample_kstate) 0x2000) = PRIORITY_P5"
proof -
  have "thr_ok sample_kstate 0x2000" by (simp add: thr_ok_def)
  then show ?thesis
    using set_thread_priority_contract [of sample_kstate "0x2000" PRIORITY_P5]
    by (simp add: Let_def prio_defs)
qed

text \<open>
  Waking: \<^verbatim>\<open>wakeup_thread\<close> makes a thread ready exactly when its context is saved and it
  is not already ready, running or blocked, stamps its ready time then, and otherwise changes
  nothing; no other thread is touched.
\<close>

theorem wakeup_thread_effect:
  assumes "tid_ok tid" and "p = thr_at s tid"
  shows "let wakes = thr_ok s p \<and> t_saved (thr s p) \<and> t_state (thr s p) \<notin> {READY, RUNNING, BLOCKED}
         in (if wakes then thr (wakeup_thread tid s) p = (thr s p)\<lparr>t_ready_jiffy := jiffies s, t_state := READY\<rparr>
             else wakeup_thread tid s = s) \<and>
            (\<forall>q. q \<noteq> p \<longrightarrow> thr (wakeup_thread tid s) q = thr s q)"
  using assms by (simp add: wakeup_thread_def do_thread_ready_def thr_ok_def Let_def)

theorem wakeup_thread_effect_witness:
  "t_state (thr (wakeup_thread 2 sample_kstate) 0x3000) = READY"
  using wakeup_thread_effect [of 2 "0x3000" sample_kstate]
  by (simp add: tid_ok_def THREAD_COUNT_MAX_def Let_def thr_ok_def)

text \<open>
  \<^verbatim>\<open>find_ready_thread\<close> returns the ready thread of the lowest slot, and NULL exactly when no
  slot holds a ready thread.
\<close>

theorem find_ready_thread_lowest:
  "(find_ready_thread s = NULL \<longleftrightarrow> (\<forall>i < THREAD_COUNT_MAX. \<not> is_ready s i)) \<and>
   (find_ready_thread s \<noteq> NULL \<longrightarrow>
     (\<exists>i < THREAD_COUNT_MAX. find_ready_thread s = threadList s i \<and> is_ready s i \<and>
        (\<forall>j < i. \<not> is_ready s j)))"
proof (cases "first_slot (is_ready s) [0..<THREAD_COUNT_MAX]")
  case None
  then have "\<forall>i < THREAD_COUNT_MAX. \<not> is_ready s i" by (simp add: first_slot_None_iff)
  with None show ?thesis by (simp add: find_ready_thread_def)
next
  case (Some i)
  from first_slot_upt_least [OF Some] have
    i: "is_ready s i" "i < THREAD_COUNT_MAX" "\<forall>j < i. \<not> is_ready s j" by auto
  moreover from i(1) have "threadList s i \<noteq> NULL" by (simp add: is_ready_def)
  ultimately show ?thesis using Some by (auto simp: find_ready_thread_def)
qed

theorem find_ready_thread_lowest_witness:
  "find_ready_thread sample_kstate \<noteq> NULL"
proof
  assume "find_ready_thread sample_kstate = NULL"
  with find_ready_thread_lowest [of sample_kstate] have "\<not> is_ready sample_kstate 1"
    by (simp add: THREAD_COUNT_MAX_def)
  then show False by (simp add: is_ready_def)
qed

lemma kill_zombie_loop_eq:
  "kill_zombie_loop is s =
     (if \<exists>i \<in> set is. is_zombie s i then Inl (Panic ''kill_thread: #debug'') else Inr s)"
  by (induction "is") (auto simp: kill_thread_def)

text \<open>
  The zombie collector cannot collect: \<^verbatim>\<open>kill_zombie_threads\<close> leaves the state alone when no
  slot holds a zombie and halts the machine when one does, because \<^verbatim>\<open>kill_thread\<close>
  panics before it does anything.
\<close>

theorem kill_zombie_threads_halts:
  "kill_zombie_threads s =
     (if (\<exists>i < THREAD_COUNT_MAX. is_zombie s i) then Inl (Panic ''kill_thread: #debug'') else Inr s)"
  by (auto simp: kill_zombie_threads_def kill_zombie_loop_eq)

end
