(* ===== verification/Context.thy ===== *)
theory Context
  imports Thread_Ops
begin

text \<open>
  Saving and restoring the registers of the current thread (disp/x86_64/x64cont.c). The entry
  stubs leave the registers of the interrupted thread in globals; \<open>arch_save_context\<close> copies
  them to the thread structure and \<open>arch_restore_context\<close> copies the structure of the next
  current thread back and loads its page table. Both halt unless the thread runs in ring 3.
  The last section proves the round trip.
\<close>

section \<open>Operations\<close>

text \<open>Configuration (include/config/config.h).\<close>

definition CONFIG_ALLOW_RING0_CONTEXT_SAVE :: int where "CONFIG_ALLOW_RING0_CONTEXT_SAVE = 0"
definition CONFIG_ALLOW_RING0_CONTEXT_RESTORE :: int where "CONFIG_ALLOW_RING0_CONTEXT_RESTORE = 0"

text \<open>The copy into the thread structure; \<open>old\<close> is the structure's previous content.\<close>

definition save_registers :: "cpu_context_d \<Rightarrow> x64_context_d \<Rightarrow> x64_context_d" where
  "save_registers c old = \<lparr>
    c_ss = ucast (r_ss c AND 0xFFFF), c_rsp = r_rsp c, c_rflags = r_rflags c, c_cs = ucast (r_cs c AND
    0xFFFF), c_rip = r_rip c, c_ds = ucast (r_ds c AND 0xFFFF), c_es = ucast (r_es c AND 0xFFFF), c_fs =
    ucast (r_fs c AND 0xFFFF), c_gs = ucast (r_gs c AND 0xFFFF), c_rax = r_rax c, c_rbx = r_rbx c, c_rcx
    = r_rcx c, c_rdx = r_rdx c, c_rsi = r_rsi c, c_rdi = r_rdi c, c_rbp = r_rbp c, c_r8 = r_r8 c, c_r9 =
    r_r9 c, c_r10 = r_r10 c, c_r11 = r_r11 c, c_r12 = r_r12 c, c_r13 = r_r13 c, c_r14 = r_r14 c, c_r15 =
    r_r15 c,
    c_fpu_buffer = (\<lambda>i. if i < 512 then r_fpu_buffer c i else c_fpu_buffer old i)\<rparr>"

definition restore_registers :: "x64_context_d \<Rightarrow> cpu_context_d \<Rightarrow> cpu_context_d" where
  "restore_registers x old = \<lparr>
    r_ss = ucast (c_ss x) AND 0xFFFF, r_rsp = c_rsp x, r_rflags = c_rflags x, r_cs = ucast (c_cs x) AND
    0xFFFF, r_rip = c_rip x, r_ds = ucast (c_ds x) AND 0xFFFF, r_es = ucast (c_es x) AND 0xFFFF, r_fs =
    ucast (c_fs x) AND 0xFFFF, r_gs = ucast (c_gs x) AND 0xFFFF, r_rax = c_rax x, r_rbx = c_rbx x, r_rcx
    = c_rcx x, r_rdx = c_rdx x, r_rsi = c_rsi x, r_rdi = c_rdi x, r_rbp = c_rbp x, r_r8 = c_r8 x, r_r9 =
    c_r9 x, r_r10 = c_r10 x, r_r11 = c_r11 x, r_r12 = c_r12 x, r_r13 = c_r13 x, r_r14 = c_r14 x, r_r15 =
    c_r15 x,
    r_fpu_buffer = (\<lambda>i. if i < 512 then c_fpu_buffer x i else r_fpu_buffer old i)\<rparr>"

text \<open>
  The privilege bookkeeping at the end of a save, with \<open>p\<close> the current thread. Ring 0 halts
  under the configuration in use; rings 1 and 2 always do.
\<close>

definition save_ring :: "addr \<Rightarrow> kstate \<Rightarrow> kstate outcome" where
  "save_ring p s =
    (let cpl = unat (contextCPL s AND 3);
         enter = (\<lambda>frame s. (upd_thr p (\<lambda>t. t\<lparr>t_to_supervisor := t_to_supervisor t + 1\<rparr>) s)
                    \<lparr>gszLastStackFrame := frame\<rparr>)
     in if cpl \<noteq> t_cpl (thr s p) then Inl (Panic ''arch_save_context: cpl != t->cpl'')
        else if cpl = 0 then
          (if CONFIG_ALLOW_RING0_CONTEXT_SAVE \<noteq> 1 then Inl (Panic ''arch_save_context: cpl 0'')
           else Inr (enter 3 s))
        else if cpl = 1 then Inl (Panic ''arch_save_context: cpl 1'')
        else if cpl = 2 then Inl (Panic ''arch_save_context: cpl 2'')
        else Inr (enter 5 s))"

definition arch_save_context :: "int \<Rightarrow> kstate \<Rightarrow> kstate outcome" where
  "arch_save_context i s =
    (if i \<noteq> 0 then Inl (Panic ''arch_save_context: #todo Not BSP'')
     else let tid = l_current_tid (lapic_info s 0); p = thr_at s tid in
       if \<not> tid_ok tid then Inl (Die ''arch_save_context: CurrentTID'')
       else if \<not> thr_ok s p then Inl (Die ''arch_save_context: thread'')
       else let s1 = upd_thr p (\<lambda>t. t\<lparr>t_context := save_registers (cpu_context s) (t_context t)\<rparr>) s in
         and_then (save_ring p s1) (\<lambda>s2.
           Inr (upd_thr p (\<lambda>t. t\<lparr>t_rflags_current_iopl := ucast (c_rflags (t_context t) AND 0x200)\<rparr>) s2)))"

definition load_pml4_table :: "u64 \<Rightarrow> kstate \<Rightarrow> kstate" where
  "load_pml4_table pa s = s\<lparr>cr3 := pa\<rparr>"

definition restore_ring :: "addr \<Rightarrow> kstate \<Rightarrow> kstate outcome" where
  "restore_ring p s =
    (if t_cpl (thr s p) = 0 then
       (if CONFIG_ALLOW_RING0_CONTEXT_RESTORE \<noteq> 1 then Inl (Panic ''arch_restore_context: t->cpl 0'')
        else Inr (upd_thr p (\<lambda>t. t\<lparr>t_to_supervisor := t_to_supervisor t + 1\<rparr>) s))
     else if t_cpl (thr s p) = 1 then Inl (Panic ''arch_restore_context: t->cpl 1'')
     else if t_cpl (thr s p) = 2 then Inl (Panic ''arch_restore_context: t->cpl 2'')
     else if t_cpl (thr s p) = 3 then Inr (upd_thr p (\<lambda>t. t\<lparr>t_to_user := t_to_user t + 1\<rparr>) s)
     else Inr s)"

definition arch_restore_context :: "int \<Rightarrow> kstate \<Rightarrow> kstate outcome" where
  "arch_restore_context i s =
    (if i \<noteq> 0 then Inl (Panic ''arch_restore_context: #todo Not BSP'')
     else let tid = l_current_tid (lapic_info s 0); p = thr_at s tid in
       if \<not> tid_ok tid then Inl (Die ''arch_restore_context: CurrentTID'')
       else if \<not> thr_ok s p then Inl (Die ''arch_restore_context: thread'')
       else and_then (restore_ring p (s\<lparr>cpu_context := restore_registers (t_context (thr s p)) (cpu_context s)\<rparr>))
         (\<lambda>s1. Inr (load_pml4_table (t_pml4_PA (thr s1 p)) s1)))"

section \<open>Lemmas\<close>

text \<open>The structure of the current thread of processor 0.\<close>

definition current_ptr :: "kstate \<Rightarrow> addr" where
  "current_ptr s = thr_at s (l_current_tid (lapic_info s 0))"

text \<open>What a register file must satisfy to survive a save: selectors have 16 bits.\<close>

definition selectors_ok :: "cpu_context_d \<Rightarrow> bool" where
  "selectors_ok c \<longleftrightarrow> (\<forall>r \<in> set [r_ss c, r_cs c, r_ds c, r_es c, r_fs c, r_gs c]. r AND 0xFFFF = r)"

text \<open>Equality of register files as far as the machine has them: the FPU area has 512 bytes.\<close>

definition same_registers :: "cpu_context_d \<Rightarrow> cpu_context_d \<Rightarrow> bool" where
  "same_registers c d \<longleftrightarrow> c\<lparr>r_fpu_buffer := r_fpu_buffer d\<rparr> = d \<and>
     (\<forall>i < 512. r_fpu_buffer c i = r_fpu_buffer d i)"

lemma ucast_selector: "ucast (ucast (r :: u64) :: u16) AND (0xFFFF :: u64) = r AND 0xFFFF"
proof -
  have m: "(0xFFFF :: u64) = mask 16" by (simp add: mask_eq_exp_minus_1)
  show ?thesis unfolding m by (rule bit_word_eqI) (auto simp: bit_simps)
qed

lemma register_round_trip:
  "selectors_ok c \<Longrightarrow> same_registers (restore_registers (save_registers c x) d) c"
  by (simp add: same_registers_def restore_registers_def save_registers_def selectors_ok_def ucast_selector)

lemma cpl_cases: "unat (w AND 3 :: u64) \<in> {0, 1, 2, 3}"
proof -
  have "(3 :: u64) = mask 2" by (simp add: mask_eq_exp_minus_1)
  then have "w AND 3 = take_bit 2 w" by (simp add: take_bit_eq_mask)
  then have "unat (w AND 3) = take_bit 2 (unat w)" by (simp add: unsigned_take_bit_eq)
  then have "unat (w AND 3) < 4" by (simp add: take_bit_eq_mod)
  then show ?thesis by auto
qed

lemma save_ring_Inr_iff:
  "save_ring p s = Inr s' \<longleftrightarrow> unat (contextCPL s AND 3) = 3 \<and> t_cpl (thr s p) = 3 \<and>
     s' = (upd_thr p (\<lambda>t. t\<lparr>t_to_supervisor := t_to_supervisor t + 1\<rparr>) s)\<lparr>gszLastStackFrame := 5\<rparr>"
  using cpl_cases [of "contextCPL s"]
  by (auto simp: save_ring_def Let_def CONFIG_ALLOW_RING0_CONTEXT_SAVE_def)

lemma restore_ring_3:
  "t_cpl (thr s p) = 3 \<Longrightarrow> restore_ring p s = Inr (upd_thr p (\<lambda>t. t\<lparr>t_to_user := t_to_user t + 1\<rparr>) s)"
  by (simp add: restore_ring_def)

lemma current_valid_ptr:
  "current_valid s 0 \<longleftrightarrow> tid_ok (l_current_tid (lapic_info s 0)) \<and> thr_ok s (current_ptr s)"
  by (auto simp: current_valid_def current_ptr_def)

lemma kstate_field_frames [simp]:
  "thr (s\<lparr>gszLastStackFrame := n\<rparr>) = thr s" "thr_ok (s\<lparr>cpu_context := c\<rparr>) = thr_ok s"
  "thr_ok (load_pml4_table pa s) = thr_ok s" "thr (load_pml4_table pa s) = thr s"
  by (auto simp: load_pml4_table_def thr_ok_def fun_eq_iff)

lemma current_ptr_frames [simp]:
  "current_ptr (upd_thr p f s) = current_ptr s" "current_ptr (upd_te p g s) = current_ptr s"
  "current_ptr (s\<lparr>thr := h\<rparr>) = current_ptr s" "current_ptr (s\<lparr>heap := hp\<rparr>) = current_ptr s"
  "current_ptr (s\<lparr>UP_CurrentThread := p\<rparr>) = current_ptr s"
  "current_ptr (s\<lparr>dispatch_counts := d\<rparr>) = current_ptr s"
  "current_ptr (s\<lparr>gszLastStackFrame := n\<rparr>) = current_ptr s"
  "current_ptr (s\<lparr>cpu_context := c\<rparr>) = current_ptr s"
  "current_ptr (load_pml4_table pa s) = current_ptr s"
  by (simp_all add: current_ptr_def load_pml4_table_def)

lemma save_effect:
  assumes "arch_save_context i s = Inr s1"
  shows "i = 0" "current_valid s 0" "unat (contextCPL s AND 3) = 3" "t_cpl (thr s (current_ptr s)) = 3"
    "s1 = (upd_thr (current_ptr s) (\<lambda>t. t\<lparr>t_context := save_registers (cpu_context s) (t_context t),
        t_to_supervisor := t_to_supervisor t + 1,
        t_rflags_current_iopl := ucast (r_rflags (cpu_context s) AND 0x200)\<rparr>) s)\<lparr>gszLastStackFrame := 5\<rparr>"
  using assms
  by (auto simp: arch_save_context_def Let_def current_valid_ptr current_ptr_def [symmetric] and_then_Inr_iff
      save_ring_Inr_iff upd_thr_def save_registers_def split: if_splits)

lemma save_returns:
  assumes "current_valid s 0" "unat (contextCPL s AND 3) = 3" "t_cpl (thr s (current_ptr s)) = 3"
  shows "\<exists>s1. arch_save_context 0 s = Inr s1"
  using assms
  by (auto simp: arch_save_context_def Let_def current_valid_ptr current_ptr_def [symmetric] and_then_Inr_iff
      save_ring_Inr_iff)

lemma restore_effect:
  assumes "current_valid s 0" "t_cpl (thr s (current_ptr s)) = 3"
  shows "arch_restore_context 0 s =
    Inr (load_pml4_table (t_pml4_PA (thr s (current_ptr s)))
      (upd_thr (current_ptr s) (\<lambda>t. t\<lparr>t_to_user := t_to_user t + 1\<rparr>)
        (s\<lparr>cpu_context := restore_registers (t_context (thr s (current_ptr s))) (cpu_context s)\<rparr>)))"
  using assms
  by (simp add: arch_restore_context_def Let_def current_valid_ptr current_ptr_def [symmetric] restore_ring_3)

section \<open>Properties\<close>

text \<open>
  Claim C28. A thread resumes with the registers it was interrupted with: when a context was saved,
  and the same thread, with its saved context and privilege level intact, is current again after any
  other execution, restoring its context succeeds, brings back every register and the 512 bytes of
  FPU state, and loads the page table of the thread.
\<close>

theorem context_round_trip:
  assumes save: "arch_save_context i s = Inr s1" and sel: "selectors_ok (cpu_context s)"
    and again: "current_valid s2 0" "current_ptr s2 = current_ptr s"
    and kept: "t_context (thr s2 (current_ptr s)) = t_context (thr s1 (current_ptr s))"
      "t_cpl (thr s2 (current_ptr s)) = t_cpl (thr s1 (current_ptr s))"
  shows "\<exists>s3. arch_restore_context 0 s2 = Inr s3 \<and> same_registers (cpu_context s3) (cpu_context s) \<and>
    cr3 s3 = t_pml4_PA (thr s2 (current_ptr s))"
proof -
  note e = save_effect [OF save]
  have "t_cpl (thr s2 (current_ptr s2)) = 3" using kept e again by simp
  note r = restore_effect [OF again(1) this]
  have "t_context (thr s2 (current_ptr s)) = save_registers (cpu_context s) (t_context (thr s (current_ptr s)))"
    using kept(1) e(5) by simp
  with r again(2) register_round_trip [OF sel] show ?thesis
    by (simp add: load_pml4_table_def upd_thr_def)
qed

definition ring3_kstate :: kstate where
  "ring3_kstate = (upd_thr 0x1000 (\<lambda>t. t\<lparr>t_cpl := 3, t_pml4_PA := 0x9000\<rparr>) sample_kstate)
     \<lparr>contextCPL := 3, cpu_context := zero_cpu_context\<lparr>r_cs := 0x1B, r_ss := 0x23, r_rip := 0x201000, r_rax := 7\<rparr>\<rparr>"

lemma ring3_kstate_current: "current_ptr ring3_kstate = 0x1000" "current_valid ring3_kstate 0"
  by (simp_all add: current_valid_ptr current_ptr_def ring3_kstate_def upd_thr_def zero_lapic_def tid_ok_def
      THREAD_COUNT_MAX_def thr_ok_def)

lemma ring3_kstate_sel:
  "contextCPL ring3_kstate = 3" "t_cpl (thr ring3_kstate 0x1000) = 3" "t_pml4_PA (thr ring3_kstate 0x1000) = 0x9000"
  "selectors_ok (cpu_context ring3_kstate)"
  by (simp_all add: ring3_kstate_def upd_thr_def selectors_ok_def zero_cpu_context_def)

theorem context_round_trip_witness:
  "\<exists>s1 s3. arch_save_context 0 ring3_kstate = Inr s1 \<and>
     arch_restore_context 0 (s1\<lparr>cpu_context := zero_cpu_context, cr3 := 0\<rparr>) = Inr s3 \<and>
     same_registers (cpu_context s3) (cpu_context ring3_kstate) \<and> cr3 s3 = 0x9000"
proof -
  obtain s1 where s1: "arch_save_context 0 ring3_kstate = Inr s1"
    using save_returns [of ring3_kstate] ring3_kstate_current ring3_kstate_sel by auto
  let ?s2 = "s1\<lparr>cpu_context := zero_cpu_context, cr3 := 0\<rparr>"
  have "current_ptr ?s2 = current_ptr ring3_kstate" "current_valid ?s2 0"
    using save_effect(5) [OF s1] ring3_kstate_current
    by (auto simp: current_valid_ptr current_ptr_def thr_ok_def)
  with context_round_trip [OF s1 ring3_kstate_sel(4), of ?s2] s1 save_effect(5) [OF s1] ring3_kstate_current
    ring3_kstate_sel
  show ?thesis by auto
qed

text \<open>
  Only ring 3 threads can be switched: saving the context returns exactly on processor 0, with a
  valid current thread, when both the interrupted privilege level and the one recorded for the thread are 3;
  in every other case the machine halts.
\<close>

theorem save_context_returns_iff:
  "(\<exists>s1. arch_save_context i s = Inr s1) =
     (i = 0 \<and> current_valid s 0 \<and> unat (contextCPL s AND 3) = 3 \<and> t_cpl (thr s (current_ptr s)) = 3)"
  using save_effect [of i s] save_returns [of s] by blast

end
