(* ===== verification/Byte_Allocator.thy ===== *)
theory Byte_Allocator
  imports Allocator_Spec
begin

text \<open>
  A weaker allocation contract, for an allocator whose bookkeeping does not remember where a block ends: an allocation
  returns addresses that were not occupied and occupies them. Every region allocator is one, so what is proved here
  holds for the kernel heap and kmalloc as well; the page pool provides it on its own.
\<close>

definition span :: "addr \<Rightarrow> nat \<Rightarrow> nat set" where
  "span p n = {unat p ..< unat p + n}"

locale byte_allocator =
  fixes alloc :: "'n \<Rightarrow> 's \<Rightarrow> (addr \<times> 's) outcome"
    and need :: "'n \<Rightarrow> nat"
    and occupied :: "'s \<Rightarrow> nat set"
    and inv :: "'s \<Rightarrow> bool"
  assumes alloc_keeps_inv: "inv s \<Longrightarrow> alloc n s = Inr (p, s') \<Longrightarrow> inv s'"
    and alloc_mono_occ: "inv s \<Longrightarrow> alloc n s = Inr (p, s') \<Longrightarrow> occupied s \<subseteq> occupied s'"
    and alloc_takes_free: "inv s \<Longrightarrow> alloc n s = Inr (p, s') \<Longrightarrow> p \<noteq> NULL \<Longrightarrow>
      span p (need n) \<inter> occupied s = {} \<and> span p (need n) \<subseteq> occupied s'"
begin

lemma sequence_free:
  assumes "inv s" "alloc_all alloc ns s = Inr (ps, s')" "NULL \<notin> set ps"
  shows "inv s' \<and> length ps = length ns \<and> occupied s \<subseteq> occupied s' \<and>
    (\<forall>i < length ps. span (ps ! i) (need (ns ! i)) \<inter> occupied s = {} \<and> span (ps ! i) (need (ns ! i)) \<subseteq> occupied s')"
  using assms
proof (induction ns arbitrary: s ps)
  case (Cons n ns)
  from Cons.prems(2) obtain p s1 qs where a: "alloc n s = Inr (p, s1)" and r: "alloc_all alloc ns s1 = Inr (qs, s')"
    and ps: "ps = p # qs" by (auto elim!: and_then_InrE)
  have i1: "inv s1" and m: "occupied s \<subseteq> occupied s1" using a Cons.prems(1) alloc_keeps_inv alloc_mono_occ by blast+
  have f: "span p (need n) \<inter> occupied s = {}" "span p (need n) \<subseteq> occupied s1"
    using alloc_takes_free [OF Cons.prems(1) a] Cons.prems(3) ps by auto
  have IH: "inv s' \<and> length qs = length ns \<and> occupied s1 \<subseteq> occupied s' \<and>
    (\<forall>i < length qs. span (qs ! i) (need (ns ! i)) \<inter> occupied s1 = {} \<and> span (qs ! i) (need (ns ! i)) \<subseteq> occupied s')"
    by (rule Cons.IH [OF i1 r]) (use Cons.prems(3) ps in simp)
  have "span (ps ! i) (need ((n # ns) ! i)) \<inter> occupied s = {} \<and> span (ps ! i) (need ((n # ns) ! i)) \<subseteq> occupied s'"
    if "i < length ps" for i
  proof (cases i)
    case (Suc k)
    then have "span (qs ! k) (need (ns ! k)) \<inter> occupied s1 = {}" "span (qs ! k) (need (ns ! k)) \<subseteq> occupied s'"
      using IH that ps by simp_all
    with Suc ps m show ?thesis by (simp add: disjoint_iff subset_eq) blast
  qed (use f IH m ps in auto)
  then show ?case using IH m ps by auto
qed simp

lemma sequence_disjoint:
  assumes "inv s" "alloc_all alloc ns s = Inr (ps, s')" "NULL \<notin> set ps" "i < j" "j < length ns"
  shows "span (ps ! i) (need (ns ! i)) \<inter> span (ps ! j) (need (ns ! j)) = {}"
  using assms
proof (induction ns arbitrary: s ps i j)
  case (Cons n ns)
  from Cons.prems(2) obtain p s1 qs where a: "alloc n s = Inr (p, s1)" and r: "alloc_all alloc ns s1 = Inr (qs, s')"
    and ps: "ps = p # qs" by (auto elim!: and_then_InrE)
  have i1: "inv s1" by (rule alloc_keeps_inv [OF Cons.prems(1) a])
  have nn: "p \<noteq> NULL" "NULL \<notin> set qs" using Cons.prems(3) ps by auto
  obtain k where k: "j = Suc k" using Cons.prems(4) by (cases j) auto
  show ?case
  proof (cases i)
    case 0
    have "span p (need n) \<subseteq> occupied s1" using alloc_takes_free [OF Cons.prems(1) a nn(1)] by blast
    moreover have "span (qs ! k) (need (ns ! k)) \<inter> occupied s1 = {}"
      using sequence_free [OF i1 r nn(2)] Cons.prems(5) k by simp
    ultimately show ?thesis using 0 k ps by (simp add: disjoint_iff subset_eq) blast
  next
    case (Suc i')
    then show ?thesis using Cons.IH [OF i1 r nn(2), of i' k] Cons.prems(4,5) k ps by simp
  qed
qed simp

end

section \<open>Region allocators\<close>

definition covered :: "region set \<Rightarrow> nat set" where
  "covered rs = (\<Union>(a, l) \<in> rs. {a ..< a + l})"

lemma covered_insert: "covered (insert (a, l) rs) = {a ..< a + l} \<union> covered rs"
  by (auto simp: covered_def)

lemma disj_covered:
  assumes "\<forall>r \<in> rs. disj_region (a, l) r"
  shows "{a ..< a + l} \<inter> covered rs = {}"
proof -
  have "{a ..< a + l} \<inter> {b ..< b + k} = {}" if "(b, k) \<in> rs" for b k
    using bspec [OF assms that] by auto
  then show ?thesis unfolding covered_def by blast
qed

sublocale region_allocator \<subseteq> bytes: byte_allocator alloc need "\<lambda>s. covered (live s)" inv
proof
  fix s n p s'
  assume i: "inv s" and a: "alloc n s = Inr (p, s')"
  show "inv s'" by (rule alloc_inv [OF i a])
  show "covered (live s) \<subseteq> covered (live s')" using alloc_mono [OF i a] by (auto simp: covered_def)
  assume p: "p \<noteq> NULL"
  from alloc_fresh [OF i a p] obtain len where "need n \<le> len" "live s' = insert (unat p, len) (live s)"
    "\<forall>r \<in> live s. disj_region (unat p, len) r" by blast
  then show "span p (need n) \<inter> covered (live s) = {} \<and> span p (need n) \<subseteq> covered (live s')"
    using disj_covered [of "live s" "unat p" len] by (fastforce simp: span_def covered_insert disjoint_iff)
qed

end
