(* ===== verification/Kmalloc.thy ===== *)
theory Kmalloc
  imports Thread_Ops Byte_Allocator
begin

text \<open>
  The kernel's memory interface as its clients see it (mm/mm.c, libk/kstdlib.c): \<open>kmalloc\<close>
  serves a request from the kernel heap and charges it to the current process. It provides
  the allocator interface on whole kernel states.
\<close>

section \<open>Operations\<close>

definition get_current_process_pointer :: "kstate \<Rightarrow> addr" where
  "get_current_process_pointer s =
    (if system_state s \<noteq> SYSTEM_RUNNING then NULL
     else let pid = get_current_process 0 s in
       if pid < 0 \<or> int PROCESS_COUNT_MAX \<le> pid then NULL
       else let p = teList s (nat pid) in
         if \<not> p_used (tes s p) then NULL
         else if p_magic (tes s p) \<noteq> 1234 then NULL
         else p)"

text \<open>\<^verbatim>\<open>size_t\<close> is a signed int, so a request can be negative.\<close>

definition mm_kmalloc :: "u32 \<Rightarrow> kstate \<Rightarrow> (addr \<times> kstate) outcome" where
  "mm_kmalloc sz s =
    (let process = get_current_process_pointer s;
         IncrementUsageCounter = (process \<noteq> NULL \<and> p_magic (tes s process) = 1234)
     in if sint sz < 0 then Inr (NULL, s)
        else let lsize = (if sz = 0 then 1 else sz) in
          and_then (mm_kmalloc_impl lsize False (heap s)) (\<lambda>(ptr, h).
            let s1 = s\<lparr>heap := h\<rparr> in
            if ptr = NULL then Inr (NULL, s1)
            else if IncrementUsageCounter
            then Inr (ptr, upd_te process (\<lambda>p. p\<lparr>p_allocated_memory := p_allocated_memory p + scast lsize\<rparr>) s1)
            else Inr (ptr, s1)))"

definition kmalloc :: "u32 \<Rightarrow> kstate \<Rightarrow> (addr \<times> kstate) outcome" where
  "kmalloc sz s = mm_kmalloc sz s"

definition kcalloc :: "u32 \<Rightarrow> u32 \<Rightarrow> kstate \<Rightarrow> (addr \<times> kstate) outcome" where
  "kcalloc count sz s = and_then (mm_kcalloc count sz (heap s)) (\<lambda>(ptr, h). Inr (ptr, s\<lparr>heap := h\<rparr>))"

section \<open>Lemmas\<close>

abbreviation kheap_inv :: "kstate \<Rightarrow> bool" where "kheap_inv s \<equiv> heap_inv (heap s)"
abbreviation kheap_live :: "kstate \<Rightarrow> region set" where "kheap_live s \<equiv> heap_live (heap s)"

text \<open>The size a request of \<open>sz\<close> bytes reserves.\<close>

definition kmalloc_size :: "u32 \<Rightarrow> nat" where
  "kmalloc_size sz = (if sint sz < 0 then 0 else max 1 (unat sz))"

lemma mm_kmalloc_impl_plain: "mm_kmalloc_impl n False h = heapAllocateMemory (ucast n) h"
  by (cases "heapAllocateMemory (ucast n) h") (auto simp: mm_kmalloc_impl_def)

lemma unat_ucast_32_64 [simp]: "unat (ucast (n :: u32) :: u64) = unat n"
proof -
  have "unat n < 2 ^ LENGTH(32)" by (rule unsigned_less)
  then have "unat n < 2 ^ 64" by simp
  then show ?thesis by (simp add: unsigned_ucast_eq take_bit_nat_eq_self)
qed

lemma user_size_kmalloc:
  assumes "\<not> sint sz < 0"
  shows "unat (user_size (ucast (if sz = 0 then 1 else sz))) = kmalloc_size sz"
proof (cases "sz = 0")
  case False
  then have "ucast sz \<noteq> (0 :: u64)" "0 < unat sz"
    using unat_ucast_32_64 [of sz] by (metis unat_eq_zero unat_0, simp add: unat_gt_0)
  with False assms show ?thesis by (simp add: kmalloc_size_def user_size_def)
qed (simp add: kmalloc_size_def user_size_def)

text \<open>What a returning call has done.\<close>

definition charge :: "addr \<Rightarrow> u64 \<Rightarrow> kstate \<Rightarrow> kstate" where
  "charge process n s = (if process = NULL then s
     else upd_te process (\<lambda>p. p\<lparr>p_allocated_memory := p_allocated_memory p + n\<rparr>) s)"

lemma charge_frame [simp]:
  "heap (charge p n s) = heap s" "thr (charge p n s) = thr s" "threadList (charge p n s) = threadList s"
  by (simp_all add: charge_def)

lemma current_process_magic:
  "get_current_process_pointer s \<noteq> NULL \<Longrightarrow> p_magic (tes s (get_current_process_pointer s)) = 1234"
  by (auto simp: get_current_process_pointer_def Let_def split: if_splits)

lemma kmalloc_Inr:
  assumes "kmalloc sz s = Inr (p, s')"
  shows "(sint sz < 0 \<and> p = NULL \<and> s' = s) \<or>
    (\<not> sint sz < 0 \<and> (\<exists>h. heapAllocateMemory (ucast (if sz = 0 then 1 else sz)) (heap s) = Inr (p, h) \<and>
      s' = (if p = NULL then s\<lparr>heap := h\<rparr>
            else charge (get_current_process_pointer s) (scast (if sz = 0 then 1 else sz)) (s\<lparr>heap := h\<rparr>))))"
proof (cases "sint sz < 0")
  case True
  with assms show ?thesis by (simp add: kmalloc_def mm_kmalloc_def Let_def)
next
  case False
  let ?n = "ucast (if sz = 0 then 1 else sz) :: u64"
  from assms False obtain h where a: "heapAllocateMemory ?n (heap s) = Inr (p, h)"
    by (cases "heapAllocateMemory ?n (heap s)")
      (auto simp: kmalloc_def mm_kmalloc_def Let_def mm_kmalloc_impl_plain split: if_split_asm)
  with assms False show ?thesis
    using current_process_magic [of s]
    by (auto simp: kmalloc_def mm_kmalloc_def Let_def mm_kmalloc_impl_plain charge_def split: if_splits)
qed

lemma kmalloc_returns:
  assumes "\<not> sint sz < 0" "heapAllocateMemory (ucast (if sz = 0 then 1 else sz)) (heap s) = Inr (p, h)"
  shows "\<exists>s'. kmalloc sz s = Inr (p, s') \<and> heap s' = h"
  using assms by (auto simp: kmalloc_def mm_kmalloc_def Let_def mm_kmalloc_impl_plain)

interpretation kernel_alloc: region_allocator kmalloc kmalloc_size kheap_live kheap_inv
proof unfold_locales
  fix s :: kstate and n :: u32 and p s'
  assume inv: "kheap_inv s"
  let ?n = "ucast (if n = 0 then 1 else n) :: u64"
  show "kheap_inv s'" if "kmalloc n s = Inr (p, s')"
    using kmalloc_Inr [OF that] inv heap_alloc.alloc_inv [OF inv, of ?n p] by (auto split: if_splits)
  show "kheap_live s' = kheap_live s" if "kmalloc n s = Inr (NULL, s')"
    using kmalloc_Inr [OF that] heap_alloc.alloc_null [OF inv, of ?n] by auto
  show "\<exists>len \<ge> kmalloc_size n. kheap_live s' = insert (unat p, len) (kheap_live s) \<and>
      (\<forall>r \<in> kheap_live s. disj_region (unat p, len) r)"
    if k: "kmalloc n s = Inr (p, s')" and p: "p \<noteq> NULL"
  proof -
    obtain h where n: "\<not> sint n < 0" and a: "heapAllocateMemory ?n (heap s) = Inr (p, h)" and h: "heap s' = h"
      using kmalloc_Inr [OF k] p by auto
    show ?thesis using heap_alloc.alloc_fresh [OF inv a p] user_size_kmalloc [OF n] h by auto
  qed
qed

section \<open>Properties\<close>

text \<open>
  Memory handed to different clients never overlaps: from a well-formed heap, any sequence of
  \<^verbatim>\<open>kmalloc\<close> calls that all return pointers returns regions that are pairwise disjoint over their
  requested length, and the heap is still well formed.
\<close>

theorem kmalloc_regions_disjoint:
  assumes "kheap_inv s" and "alloc_all kmalloc ns s = Inr (ps, s')" and "NULL \<notin> set ps"
    and "i < j" and "j < length ns"
  shows "disj_region (unat (ps ! i), kmalloc_size (ns ! i)) (unat (ps ! j), kmalloc_size (ns ! j)) \<and> kheap_inv s'"
  using kernel_alloc.alloc_all_disjoint [OF assms] kernel_alloc.alloc_all_fresh [OF assms(1,2,3)] by simp

text \<open>
  A request is charged to the process that made it: \<^verbatim>\<open>kmalloc\<close> adds the size of the
  request (one byte for an empty request) to the account of the current process exactly when it returns memory,
  changes no other process, and refuses a negative size without changing anything.
\<close>

theorem kmalloc_charges_process:
  assumes "kmalloc sz s = Inr (p, s')" and "get_current_process_pointer s = cur"
  shows "(sint sz < 0 \<longrightarrow> p = NULL \<and> s' = s) \<and>
    (p \<noteq> NULL \<longrightarrow> cur \<noteq> NULL \<longrightarrow>
       p_allocated_memory (tes s' cur) = p_allocated_memory (tes s cur) + scast (if sz = 0 then 1 else sz)) \<and>
    (\<forall>q. q \<noteq> cur \<or> p = NULL \<longrightarrow> tes s' q = tes s q) \<and> thr s' = thr s"
  using kmalloc_Inr [OF assms(1)] assms(2) by (auto simp: charge_def split: if_splits)

text \<open>A running system with one process, current on processor 0.\<close>

definition process_kstate :: kstate where
  "process_kstate = zero_kstate\<lparr>
     tes := (\<lambda>_. zero_te)(0xA000 := zero_te\<lparr>p_used := True, p_magic := 1234, p_allocated_memory := 100\<rparr>),
     teList := (\<lambda>_. NULL)(0 := 0xA000)\<rparr>"

lemma process_kstate_sel [simp]:
  "heap process_kstate = boot_heap" "get_current_process_pointer process_kstate = 0xA000"
  "p_allocated_memory (tes process_kstate 0xA000) = 100"
  by (simp_all add: process_kstate_def zero_kstate_def get_current_process_pointer_def get_current_process_def
      zero_lapic_def NR_CPUS_def PROCESS_COUNT_MAX_def)

lemma process_kstate_kmalloc:
  "\<exists>s' s''. kmalloc 16 process_kstate = Inr (0x30100048, s') \<and> kmalloc 24 s' = Inr (0x301000A0, s'')"
proof -
  have "\<exists>h h'. heapAllocateMemory 16 boot_heap = Inr (0x30100048, h) \<and>
      heapAllocateMemory 24 h = Inr (0x301000A0, h')"
    by (simp add: heapAllocateMemory_def Let_def boot_heap_fields heap_consts)
  then obtain h h' where h: "heapAllocateMemory 16 boot_heap = Inr (0x30100048, h)"
    "heapAllocateMemory 24 h = Inr (0x301000A0, h')" by blast
  obtain s' where s': "kmalloc 16 process_kstate = Inr (0x30100048, s')" "heap s' = h"
    using kmalloc_returns [of 16 process_kstate] h(1) by auto
  with kmalloc_returns [of 24 s'] h(2) show ?thesis by auto
qed

theorem kmalloc_charges_process_witness:
  "\<exists>s'. kmalloc 16 process_kstate = Inr (0x30100048, s') \<and> p_allocated_memory (tes s' 0xA000) = 116"
proof -
  obtain s' where s': "kmalloc 16 process_kstate = Inr (0x30100048, s')"
    using process_kstate_kmalloc by blast
  with kmalloc_charges_process [OF s' refl] show ?thesis by auto
qed

theorem kmalloc_regions_disjoint_witness:
  "disj_region (unat (0x30100048 :: u64), 16) (unat (0x301000A0 :: u64), 24)"
proof -
  obtain s' where s': "alloc_all kmalloc [16, 24] process_kstate = Inr ([0x30100048, 0x301000A0], s')"
    using process_kstate_kmalloc by auto
  have "kheap_inv process_kstate" by (simp add: boot_heap_inv)
  from kmalloc_regions_disjoint [OF this s', of 0 1] show ?thesis by (simp add: kmalloc_size_def)
qed

end
