(* ===== verification/Dispatch.thy ===== *)
theory Dispatch
  imports Context Kmalloc
begin

text \<open>
  The dispatcher (disp/dispatch.c): the statistics of why a thread was selected, and the step that
  turns the selected thread from ready to running, clamps its priorities and quantum from
  below, makes it the processor's thread and restores its registers.
\<close>

section \<open>Operations\<close>

text \<open>Selection criteria and dispatcher types (disp/dispatch.h).\<close>

definition SELECT_IDLE_COUNT :: int where "SELECT_IDLE_COUNT = 1"
definition SELECT_INITIALIZED_COUNT :: int where "SELECT_INITIALIZED_COUNT = 2"
definition SELECT_NEXT_COUNT :: int where "SELECT_NEXT_COUNT = 3"
definition SELECT_CURRENT_COUNT :: int where "SELECT_CURRENT_COUNT = 4"
definition SELECT_ANY_COUNT :: int where "SELECT_ANY_COUNT = 5"
definition SELECT_IDEAL_COUNT :: int where "SELECT_IDEAL_COUNT = 6"
definition SELECT_DISPATCHER_COUNT :: int where "SELECT_DISPATCHER_COUNT = 7"
definition DISPATCHER_CURRENT :: int where "DISPATCHER_CURRENT = 1"

lemmas criteria_defs = SELECT_IDLE_COUNT_def SELECT_INITIALIZED_COUNT_def SELECT_NEXT_COUNT_def
  SELECT_CURRENT_COUNT_def SELECT_ANY_COUNT_def SELECT_IDEAL_COUNT_def SELECT_DISPATCHER_COUNT_def

definition count_selection :: "int \<Rightarrow> dispatch_count_d \<Rightarrow> dispatch_count_d" where
  "count_selection type d =
    (if type = SELECT_IDLE_COUNT then d\<lparr>SelectIdleCount := SelectIdleCount d + 1\<rparr>
     else if type = SELECT_INITIALIZED_COUNT then d\<lparr>SelectInitializedCount := SelectInitializedCount d + 1\<rparr>
     else if type = SELECT_NEXT_COUNT then d\<lparr>SelectNextCount := SelectNextCount d + 1\<rparr>
     else if type = SELECT_CURRENT_COUNT then d\<lparr>SelectCurrentCount := SelectCurrentCount d + 1\<rparr>
     else if type = SELECT_ANY_COUNT then d\<lparr>SelectAnyCount := SelectAnyCount d + 1\<rparr>
     else if type = SELECT_IDEAL_COUNT then d\<lparr>SelectIdealCount := SelectIdealCount d + 1\<rparr>
     else if type = SELECT_DISPATCHER_COUNT
     then d\<lparr>SelectDispatcherQueueCount := SelectDispatcherQueueCount d + 1\<rparr>
     else d)"

definition IncrementDispatcherCount :: "int \<Rightarrow> kstate \<Rightarrow> kstate outcome" where
  "IncrementDispatcherCount type s =
    (if type < 0 then Inr s
     else if DispatchCountBlock s = NULL then Inl (Panic ''IncrementDispatcherCount:'')
     else if dc_magic (dispatch_counts s) \<noteq> 1234 then Inl (Panic ''IncrementDispatcherCount: validation'')
     else Inr (s\<lparr>dispatch_counts := count_selection type (dispatch_counts s)\<rparr>))"

text \<open>The changes to the structure of the thread that is dispatched.\<close>

definition run_thread :: "thread_d \<Rightarrow> thread_d" where
  "run_thread t = t\<lparr>t_state := RUNNING, t_runningCount := 0, t_runningCount_ms := 0, t_readyCount := 0,
     t_readyCount_ms := 0, t_waitingCount := 0, t_waitingCount_ms := 0, t_blockedCount := 0,
     t_blockedCount_ms := 0,
     t_base_priority := (if t_base_priority t < PRIORITY_MIN then PRIORITY_MIN else t_base_priority t),
     t_priority := (if t_priority t < PRIORITY_MIN then PRIORITY_MIN else t_priority t),
     t_quantum := (if t_quantum t < QUANTUM_MIN then QUANTUM_MIN else t_quantum t)\<rparr>"

text \<open>
  Every type other than \<open>DISPATCHER_CURRENT\<close> is replaced by it, so the argument has no effect.
\<close>

definition dispatcher :: "int \<Rightarrow> kstate \<Rightarrow> kstate outcome" where
  "dispatcher type s =
    (let TargetTID = l_current_tid (lapic_info s 0); p = thr_at s TargetTID in
     if \<not> tid_ok TargetTID then Inl (Panic ''dispatcher: TargetTID'')
     else if p = NULL then Inl (Panic ''dispatcher: TargetThread'')
     else if t_magic (thr s p) \<noteq> 1234 then Inl (Panic ''dispatcher: magic'')
     else if t_state (thr s p) \<noteq> READY then Inl (Panic ''dispatcher: state'')
     else let s1 = (upd_thr p run_thread s)\<lparr>UP_CurrentThread := p\<rparr>
          in arch_restore_context 0 (upd_thr p (\<lambda>t. t\<lparr>t_saved := False\<rparr>) s1))"

text \<open>
  \<^verbatim>\<open>sizeof(struct dispatch_count_d)\<close>: three ints, padding and seven unsigned longs. The
  result is FALSE on failure and 0 on success, which are the same number.
\<close>

definition sizeof_dispatch_count_d :: u32 where "sizeof_dispatch_count_d = 72"

definition init_dispatch :: "kstate \<Rightarrow> (int \<times> kstate) outcome" where
  "init_dispatch s0 =
    (let s = s0\<lparr>dispatcherType := 0, dispatcherQueueIndex := 0,
           dispatcherReadyList := (\<lambda>i. if i < unat PRIORITY_MAX then NULL else dispatcherReadyList s0 i)\<rparr>
     in and_then (kmalloc sizeof_dispatch_count_d s) (\<lambda>(ptr, s1).
          let s2 = s1\<lparr>DispatchCountBlock := ptr\<rparr> in
          if ptr = NULL then Inr (0, s2)
          else Inr (0, s2\<lparr>dispatch_counts := \<lparr>dc_used = True, dc_magic = 1234, dc_initialized = True,
            SelectIdleCount = 0, SelectInitializedCount = 0, SelectNextCount = 0, SelectCurrentCount = 0,
            SelectAnyCount = 0, SelectIdealCount = 0, SelectDispatcherQueueCount = 0\<rparr>\<rparr>)))"

section \<open>Lemmas\<close>

definition counters_ok :: "kstate \<Rightarrow> bool" where
  "counters_ok s \<longleftrightarrow> DispatchCountBlock s \<noteq> NULL \<and> dc_magic (dispatch_counts s) = 1234"

lemma count_selection_magic [simp]: "dc_magic (count_selection type d) = dc_magic d"
  by (simp add: count_selection_def)

lemma IncrementDispatcherCount_Inr:
  "IncrementDispatcherCount type s = Inr s' \<Longrightarrow> \<exists>d. s' = s\<lparr>dispatch_counts := d\<rparr>"
  by (auto simp: IncrementDispatcherCount_def split: if_splits intro: exI [where x = "dispatch_counts s"])

lemma IncrementDispatcherCount_ok:
  "counters_ok s \<Longrightarrow> 0 \<le> type \<Longrightarrow>
     IncrementDispatcherCount type s = Inr (s\<lparr>dispatch_counts := count_selection type (dispatch_counts s)\<rparr>)"
  by (simp add: IncrementDispatcherCount_def counters_ok_def)

lemma run_thread_sel [simp]:
  "t_state (run_thread t) = RUNNING" "t_used (run_thread t) = t_used t" "t_magic (run_thread t) = t_magic t"
  "t_tid (run_thread t) = t_tid t" "t_cpl (run_thread t) = t_cpl t" "t_context (run_thread t) = t_context t"
  "t_pml4_PA (run_thread t) = t_pml4_PA t" "t_tgid (run_thread t) = t_tgid t" "t_runningCount (run_thread t) = 0"
  by (simp_all add: run_thread_def)

lemma run_thread_bounds:
  "PRIORITY_MIN \<le> t_priority (run_thread t) \<and> PRIORITY_MIN \<le> t_base_priority (run_thread t) \<and>
   QUANTUM_MIN \<le> t_quantum (run_thread t)"
  by (auto simp: run_thread_def not_less)

lemma dispatcher_run:
  assumes "current_valid s 0" and "t_state (thr s (current_ptr s)) = READY" and "t_cpl (thr s (current_ptr s)) = 3"
  shows "dispatcher type s = Inr (load_pml4_table (t_pml4_PA (thr s (current_ptr s)))
     (upd_thr (current_ptr s) (\<lambda>t. (run_thread t)\<lparr>t_saved := False, t_to_user := t_to_user t + 1\<rparr>) s)
       \<lparr>UP_CurrentThread := current_ptr s,
        cpu_context := restore_registers (t_context (thr s (current_ptr s))) (cpu_context s)\<rparr>)"
proof -
  let ?p = "current_ptr s"
  let ?s1 = "upd_thr ?p (\<lambda>t. t\<lparr>t_saved := False\<rparr>) ((upd_thr ?p run_thread s)\<lparr>UP_CurrentThread := ?p\<rparr>)"
  have 2: "current_valid ?s1 0" using assms(1) by (auto simp: current_valid_def thr_ok_def upd_thr_def)
  have "dispatcher type s = arch_restore_context 0 ?s1"
    using assms(1,2) by (simp add: dispatcher_def Let_def current_valid_ptr current_ptr_def [symmetric] thr_ok_def)
  also have "\<dots> = Inr (load_pml4_table (t_pml4_PA (thr ?s1 ?p))
      (upd_thr ?p (\<lambda>t. t\<lparr>t_to_user := t_to_user t + 1\<rparr>)
        (?s1\<lparr>cpu_context := restore_registers (t_context (thr ?s1 ?p)) (cpu_context ?s1)\<rparr>)))"
    using restore_effect [OF 2] assms(3) by simp
  also have "\<dots> = Inr (load_pml4_table (t_pml4_PA (thr s ?p))
     (upd_thr ?p (\<lambda>t. (run_thread t)\<lparr>t_saved := False, t_to_user := t_to_user t + 1\<rparr>) s)
       \<lparr>UP_CurrentThread := ?p, cpu_context := restore_registers (t_context (thr s ?p)) (cpu_context s)\<rparr>)"
    by (simp add: upd_thr_def load_pml4_table_def run_thread_def)
  finally show ?thesis .
qed

lemma dispatcher_needs:
  assumes "dispatcher type s = Inr s'"
  shows "current_valid s 0 \<and> t_state (thr s (current_ptr s)) = READY \<and> t_cpl (thr s (current_ptr s)) \<ge> 3"
  using assms
  by (auto simp: dispatcher_def arch_restore_context_def restore_ring_def Let_def and_then_Inr_iff
      current_valid_ptr current_ptr_def thr_ok_def CONFIG_ALLOW_RING0_CONTEXT_RESTORE_def split: if_splits)

section \<open>Properties\<close>

text \<open>
  Claim C31. Dispatching the selected thread: whatever type is asked for, if the current thread of processor 0 is
  valid, ready and a ring 3 thread, the dispatcher returns with that thread running, its context
  no longer marked as saved, its priorities and quantum at or above their minima, its registers loaded
  and its page table active; it becomes the processor's thread and no other thread changes.
\<close>

theorem dispatcher_contract:
  assumes "current_valid s 0" and "t_state (thr s (current_ptr s)) = READY" and "t_cpl (thr s (current_ptr s)) = 3"
  shows "\<exists>s'. dispatcher type s = Inr s' \<and> (let t = thr s (current_ptr s); t' = thr s' (current_ptr s) in
    t_state t' = RUNNING \<and> \<not> t_saved t' \<and> t_runningCount t' = 0 \<and>
    t_priority t' = max PRIORITY_MIN (t_priority t) \<and> t_base_priority t' = max PRIORITY_MIN (t_base_priority t) \<and>
    t_quantum t' = max QUANTUM_MIN (t_quantum t) \<and> UP_CurrentThread s' = current_ptr s \<and>
    cpu_context s' = restore_registers (t_context t) (cpu_context s) \<and> cr3 s' = t_pml4_PA t \<and>
    (\<forall>q. q \<noteq> current_ptr s \<longrightarrow> thr s' q = thr s q) \<and> lapic_info s' = lapic_info s)"
  unfolding dispatcher_run [OF assms] Let_def
  by (auto simp: load_pml4_table_def upd_thr_def run_thread_def max_def not_less)

definition dispatch_kstate :: kstate where
  "dispatch_kstate = upd_lapic 0 (\<lambda>l. l\<lparr>l_current_tid := 1\<rparr>)
     (upd_thr 0x2000 (\<lambda>t. t\<lparr>t_cpl := 3, t_pml4_PA := 0x9000, t_priority := 0\<rparr>) sample_kstate)"

lemma dispatch_kstate_current:
  "current_ptr dispatch_kstate = 0x2000" "current_valid dispatch_kstate 0"
  "thr dispatch_kstate 0x2000 = (sample_thread 1 READY)\<lparr>t_cpl := 3, t_pml4_PA := 0x9000, t_priority := 0\<rparr>"
  by (simp_all add: dispatch_kstate_def current_ptr_def current_valid_def tid_ok_def THREAD_COUNT_MAX_def thr_ok_def)

theorem dispatcher_contract_witness:
  "\<exists>s'. dispatcher 2 dispatch_kstate = Inr s' \<and> t_state (thr s' 0x2000) = RUNNING \<and>
     t_priority (thr s' 0x2000) = PRIORITY_MIN \<and> cr3 s' = 0x9000"
  using dispatcher_contract [of dispatch_kstate 2] dispatch_kstate_current
  by (auto simp: Let_def max_def prio_defs)

text \<open>
  The dispatcher never runs a thread that is not ready: for a current thread in any other state, or an
  invalid one, it halts the machine.
\<close>

theorem dispatcher_only_ready:
  assumes "dispatcher type s = Inr s'"
  shows "current_valid s 0 \<and> t_state (thr s (current_ptr s)) = READY \<and> t_cpl (thr s (current_ptr s)) \<ge> 3"
  by (rule dispatcher_needs [OF assms])

theorem dispatcher_only_ready_witness:
  "\<exists>s'. dispatcher 2 dispatch_kstate = Inr s' \<and> t_cpl (thr dispatch_kstate 0x2000) \<ge> 3"
proof -
  obtain s' where "dispatcher 2 dispatch_kstate = Inr s'"
    using dispatcher_run [of dispatch_kstate 2] dispatch_kstate_current by auto
  with dispatcher_only_ready [OF this] show ?thesis by (simp add: dispatch_kstate_current)
qed

end
