(* ===== verification/Queue_Spec.thy ===== *)
theory Queue_Spec
  imports Gramado_Prelude
begin

text \<open>
  What a client of a bounded queue relies on: as long as it neither puts into a full queue
  nor gets from an empty one, it observes a list. The message rings of the threads and the
  pipe buffers provide this interface; the consequences for whole schedules of puts and gets
  are proved once here.
\<close>

datatype 'm queue_op = Put 'm | Get

text \<open>The abstract queue of capacity \<open>cap\<close>; \<open>None\<close> when the schedule misuses it.\<close>

fun list_run :: "nat \<Rightarrow> 'm queue_op list \<Rightarrow> 'm list \<Rightarrow> ('m list \<times> 'm list) option" where
  "list_run cap [] q = Some ([], q)"
| "list_run cap (Put m # ops) q =
     (if length q < cap then list_run cap ops (q @ [m]) else None)"
| "list_run cap (Get # ops) q =
     (case q of [] \<Rightarrow> None
      | m # q' \<Rightarrow> (case list_run cap ops q' of None \<Rightarrow> None | Some (ms, r) \<Rightarrow> Some (m # ms, r)))"

text \<open>The same schedule on an implementation.\<close>

fun queue_run :: "('m \<Rightarrow> 's \<Rightarrow> 's outcome) \<Rightarrow> ('s \<Rightarrow> ('m \<times> 's) outcome) \<Rightarrow> 'm queue_op list \<Rightarrow> 's
    \<Rightarrow> ('m list \<times> 's) outcome" where
  "queue_run put get [] s = Inr ([], s)"
| "queue_run put get (Put m # ops) s = and_then (put m s) (queue_run put get ops)"
| "queue_run put get (Get # ops) s =
     and_then (get s) (\<lambda>(m, s1). and_then (queue_run put get ops s1) (\<lambda>(ms, s2). Inr (m # ms, s2)))"

lemma list_run_puts:
  "length q + length ms \<le> cap \<Longrightarrow> list_run cap (map Put ms @ ops) q = list_run cap ops (q @ ms)"
  by (induction ms arbitrary: q) auto

lemma list_run_gets: "list_run cap (replicate (length q) Get) q = Some (q, [])"
  by (induction q) auto

lemma list_run_round_trip:
  "length ms \<le> cap \<Longrightarrow> list_run cap (map Put ms @ replicate (length ms) Get) [] = Some (ms, [])"
  by (simp add: list_run_puts list_run_gets)

locale bounded_queue =
  fixes put :: "'m \<Rightarrow> 's \<Rightarrow> 's outcome"
    and get :: "'s \<Rightarrow> ('m \<times> 's) outcome"
    and holds :: "'s \<Rightarrow> 'm list \<Rightarrow> bool"
    and ok :: "'m \<Rightarrow> bool"
    and cap :: nat
  assumes put_law: "holds s q \<Longrightarrow> ok m \<Longrightarrow> length q < cap \<Longrightarrow>
      \<exists>s'. put m s = Inr s' \<and> holds s' (q @ [m])"
    and get_law: "holds s (m # q) \<Longrightarrow> \<exists>s'. get s = Inr (m, s') \<and> holds s' q"
begin

lemma run_refines:
  assumes "holds s q" and "\<forall>m. Put m \<in> set ops \<longrightarrow> ok m" and "list_run cap ops q = Some (ms, r)"
  shows "\<exists>s'. queue_run put get ops s = Inr (ms, s') \<and> holds s' r"
  using assms
proof (induction ops arbitrary: s q ms)
  case Nil
  then show ?case by auto
next
  case (Cons c ops)
  show ?case
  proof (cases c)
    case (Put m)
    with Cons.prems have "length q < cap" "list_run cap ops (q @ [m]) = Some (ms, r)" "ok m"
      by (auto split: if_splits)
    moreover from this put_law Cons.prems(1) obtain s1 where
      "put m s = Inr s1" "holds s1 (q @ [m])" by blast
    ultimately show ?thesis using Cons.IH [of s1 "q @ [m]" ms] Cons.prems(2) Put by auto
  next
    case Get
    with Cons.prems obtain m q' ms' where
      q: "q = m # q'" "list_run cap ops q' = Some (ms', r)" "ms = m # ms'"
      by (auto split: list.splits option.splits)
    from get_law q(1) Cons.prems(1) obtain s1 where "get s = Inr (m, s1)" "holds s1 q'" by blast
    with Cons.IH [of s1 q' ms'] Cons.prems(2) q Get show ?thesis by auto
  qed
qed

lemma round_trip:
  assumes "holds s []" and "\<forall>m \<in> set ms. ok m" and "length ms \<le> cap"
  shows "\<exists>s'. queue_run put get (map Put ms @ replicate (length ms) Get) s = Inr (ms, s') \<and> holds s' []"
  using run_refines [OF assms(1) _ list_run_round_trip [OF assms(3)]] assms(2) by auto

end

section \<open>Ring indices\<close>

text \<open>\<^verbatim>\<open>i++; if (i >= N) i = 0;\<close> as it moves an index of a ring of \<open>N\<close> slots.\<close>

definition ring_inc :: "nat \<Rightarrow> int \<Rightarrow> int" where
  "ring_inc N i = (if int N \<le> i + 1 then 0 else i + 1)"

lemma ring_inc_mod:
  assumes "0 \<le> i" "i < int N"
  shows "ring_inc N i = (i + 1) mod int N"
proof (cases "i + 1 = int N")
  case True
  then show ?thesis by (simp add: ring_inc_def)
next
  case False
  with assms have "i + 1 < int N" "0 \<le> i + 1" by simp_all
  then show ?thesis by (simp add: ring_inc_def)
qed

lemma ring_inc_range: "0 \<le> i \<Longrightarrow> 0 < N \<Longrightarrow> 0 \<le> ring_inc N i \<and> ring_inc N i < int N"
  by (simp add: ring_inc_def)

lemma mod_shift_inj:
  fixes h :: int
  assumes "j < N" "k < N" "(h + int j) mod int N = (h + int k) mod int N"
  shows "j = k"
proof -
  from assms(3) have "int N dvd (h + int j) - (h + int k)" by (simp only: mod_eq_dvd_iff)
  then have d: "int N dvd int j - int k" by simp
  have "int j - int k = 0"
  proof (rule ccontr)
    assume "int j - int k \<noteq> 0"
    with d have "\<bar>int N\<bar> \<le> \<bar>int j - int k\<bar>" by (rule dvd_imp_le_int [rotated])
    with assms(1,2) show False by linarith
  qed
  then show ?thesis by simp
qed

end
