(* ===== verification/Ipc.thy ===== *)
theory Ipc
  imports Thread_Ops Queue_Spec
begin

text \<open>
  Message passing between threads (intake/ipc/ipc.c). Every thread owns a ring of
  64 preallocated message slots; a post writes the slot at the tail and a
  \<^verbatim>\<open>get\<close> reads and clears the slot at the head. A slot whose message code is not
  positive counts as empty. Mouse-move and paint messages are not queued: they set a bit of
  the receiver's input flags. The caller's message buffer is user memory; it is a function
  from word index to value, separate from the kernel's stores.
\<close>

section \<open>Message codes (ipc/msgcode.h) and input flags (thread.h)\<close>

definition MSG_PAINT :: int where "MSG_PAINT = 8"
definition MSG_KEYDOWN :: int where "MSG_KEYDOWN = 20"
definition MSG_KEYUP :: int where "MSG_KEYUP = 21"
definition MSG_SYSKEYDOWN :: int where "MSG_SYSKEYDOWN = 22"
definition MSG_SYSKEYUP :: int where "MSG_SYSKEYUP = 23"
definition MSG_MOUSEMOVE :: int where "MSG_MOUSEMOVE = 32"
definition MSG_MOUSEPRESSED :: int where "MSG_MOUSEPRESSED = 35"
definition MSG_MOUSERELEASED :: int where "MSG_MOUSERELEASED = 36"
definition MSG_TIMER :: int where "MSG_TIMER = 53"
definition MSG_CONTROL_ARROW_UP :: int where "MSG_CONTROL_ARROW_UP = 80"
definition MSG_CONTROL_ARROW_DOWN :: int where "MSG_CONTROL_ARROW_DOWN = 81"
definition MSG_CONTROL_ARROW_LEFT :: int where "MSG_CONTROL_ARROW_LEFT = 82"
definition MSG_CONTROL_ARROW_RIGHT :: int where "MSG_CONTROL_ARROW_RIGHT = 83"

definition IFLAGS_MOUSEMOVE :: u64 where "IFLAGS_MOUSEMOVE = 1"
definition IFLAGS_PAINT :: u64 where "IFLAGS_PAINT = 0x10"

lemmas msg_codes = MSG_PAINT_def MSG_KEYDOWN_def MSG_KEYUP_def MSG_SYSKEYDOWN_def MSG_SYSKEYUP_def
  MSG_MOUSEMOVE_def MSG_MOUSEPRESSED_def MSG_MOUSERELEASED_def MSG_TIMER_def
  MSG_CONTROL_ARROW_UP_def MSG_CONTROL_ARROW_DOWN_def MSG_CONTROL_ARROW_LEFT_def
  MSG_CONTROL_ARROW_RIGHT_def

section \<open>Posting\<close>

text \<open>A ring index after one step: \<^verbatim>\<open>i++; if (i >= MSG_QUEUE_MAX) i = 0;\<close>\<close>

definition ring_next :: "int \<Rightarrow> int" where
  "ring_next i = (if int MSG_QUEUE_MAX \<le> i + 1 then 0 else i + 1)"

text \<open>
  The checks both post routines make on the receiver, under the name of the routine:
  \<open>Some t\<close> is the receiver, \<open>None\<close> the silent failure for a thread whose structure waits for
  reuse (magic 4321).
\<close>

definition ipc_check_receiver :: "string \<Rightarrow> int \<Rightarrow> kstate \<Rightarrow> addr option outcome" where
  "ipc_check_receiver nm dst_tid s =
    (if \<not> tid_ok dst_tid then Inl (Panic (nm @ '': dst_tid''))
     else let t = thr_at s dst_tid in
       if t = NULL then Inl (Panic (nm @ '': t''))
       else if \<not> t_used (thr s t) \<or> t_magic (thr s t) \<noteq> 1234
       then if t_magic (thr s t) = 4321 then Inr None else Inl (Panic (nm @ '': t validation''))
       else if t_tid (thr s t) \<noteq> dst_tid then Inl (Panic (nm @ '': t->tid != dst_tid''))
       else Inr (Some t))"

text \<open>Writing the message into the slot at the tail and advancing the tail.\<close>

definition ipc_enqueue :: "string \<Rightarrow> addr \<Rightarrow> int \<Rightarrow> int \<Rightarrow> int \<Rightarrow> u64 \<Rightarrow> u64 \<Rightarrow> u64 \<Rightarrow> u64 \<Rightarrow> kstate
    \<Rightarrow> (int \<times> kstate) outcome" where
  "ipc_enqueue nm t src_tid dst_tid code long1 long2 long3 long4 s =
    (let m = t_MsgQueue (thr s t) (nat (t_MsgQueueTail (thr s t))) in
     if m = NULL then Inl (Panic (nm @ '': m''))
     else if \<not> m_used (msgs s m) \<or> m_magic (msgs s m) \<noteq> 1234
     then Inl (Panic (nm @ '': m validation''))
     else Inr (0,
       upd_thr t (\<lambda>x. x\<lparr>t_MsgQueueTail := ring_next (t_MsgQueueTail x)\<rparr>)
        (upd_msg m (\<lambda>x. x\<lparr>m_opaque_window := NULL, m_msg := code, m_long1 := long1,
           m_long2 := long2, m_long3 := long3, m_long4 := long4, m_sender_tid := src_tid,
           m_receiver_tid := dst_tid, m_next := NULL\<rparr>) s)))"

definition ipc_post_message_to_tid2 :: "int \<Rightarrow> int \<Rightarrow> int \<Rightarrow> u64 \<Rightarrow> u64 \<Rightarrow> u64 \<Rightarrow> u64 \<Rightarrow> kstate
    \<Rightarrow> (int \<times> kstate) outcome" where
  "ipc_post_message_to_tid2 sender_tid receiver_tid msg long1 long2 long3 long4 s =
    (if msg < 0 then Inr (-1, s)
     else and_then (ipc_check_receiver ''ipc_post_message_to_tid2'' receiver_tid s) (\<lambda>r.
       case r of None \<Rightarrow> Inr (-1, s)
       | Some t \<Rightarrow> ipc_enqueue ''ipc_post_message_to_tid2'' t sender_tid receiver_tid msg
           long1 long2 long3 long4 s))"

text \<open>
  Repeated key presses and control arrows are merged into the last posted slot when it holds
  the same event for the same receiver: \<open>Some\<close> is the state after a merge.
\<close>

definition ipc_coalesce :: "addr \<Rightarrow> int \<Rightarrow> int \<Rightarrow> int \<Rightarrow> u64 \<Rightarrow> u64 \<Rightarrow> kstate \<Rightarrow> kstate option outcome" where
  "ipc_coalesce t src_tid dst_tid MessageCode long1 long2 s =
    (let isMake = (MessageCode = MSG_KEYDOWN);
         isControlArrow = (MessageCode \<in> {MSG_CONTROL_ARROW_UP, MSG_CONTROL_ARROW_DOWN,
           MSG_CONTROL_ARROW_LEFT, MSG_CONTROL_ARROW_RIGHT})
     in if \<not> (isMake \<or> isControlArrow) then Inr None
        else let last_index = (t_MsgQueueTail (thr s t) - 1 + int MSG_QUEUE_MAX) mod int MSG_QUEUE_MAX;
                 last_msg = t_MsgQueue (thr s t) (nat last_index); m = msgs s last_msg
             in if last_msg = NULL then Inl (Panic ''ipc_post_message_to_tid: __last_msg'')
                else if \<not> m_used m \<or> m_magic m \<noteq> 1234
                then Inl (Panic ''ipc_post_message_to_tid: __last_msg validation'')
                else if isMake \<and> m_receiver_tid m = dst_tid \<and> m_msg m = MSG_KEYDOWN \<and> m_long1 m = long1
                then Inr (Some (upd_msg last_msg (\<lambda>x. x\<lparr>m_long1 := long1, m_long2 := long2,
                       m_long3 := jiffies s, m_long4 := m_long4 x + 1, m_sender_tid := src_tid,
                       m_receiver_tid := dst_tid\<rparr>) s))
                else if isControlArrow \<and> m_receiver_tid m = dst_tid \<and> m_msg m = MessageCode
                then Inr (Some (upd_msg last_msg (\<lambda>x. x\<lparr>m_long3 := jiffies s, m_long4 := m_long4 x + 1,
                       m_sender_tid := src_tid, m_receiver_tid := dst_tid\<rparr>) s))
                else Inr None)"

definition ipc_post_message_to_tid :: "int \<Rightarrow> int \<Rightarrow> int \<Rightarrow> u64 \<Rightarrow> u64 \<Rightarrow> kstate
    \<Rightarrow> (int \<times> kstate) outcome" where
  "ipc_post_message_to_tid sender_tid receiver_tid msg long1 long2 s =
    (if msg \<le> 0 then Inr (-1, s)
     else and_then (ipc_check_receiver ''ipc_post_message_to_tid'' receiver_tid s) (\<lambda>r.
       case r of None \<Rightarrow> Inr (-1, s)
       | Some t \<Rightarrow>
         if msg = MSG_MOUSEMOVE
         then Inr (0, upd_thr t (\<lambda>x. x\<lparr>t_input_flags := t_input_flags x OR IFLAGS_MOUSEMOVE\<rparr>) s)
         else if msg = MSG_PAINT
         then Inr (0, upd_thr t (\<lambda>x. x\<lparr>t_input_flags := t_input_flags x OR IFLAGS_PAINT\<rparr>) s)
         else and_then (ipc_coalesce t sender_tid receiver_tid msg long1 long2 s) (\<lambda>c.
           case c of Some s' \<Rightarrow> Inr (0, s')
           | None \<Rightarrow> ipc_enqueue ''ipc_post_message_to_tid'' t sender_tid receiver_tid msg
               long1 long2 (jiffies s) (jiffies s) s)))"

definition ipc_post_message_to_foreground_thread :: "int \<Rightarrow> u64 \<Rightarrow> u64 \<Rightarrow> kstate
    \<Rightarrow> (int \<times> kstate) outcome" where
  "ipc_post_message_to_foreground_thread msg long1 long2 s =
    (if msg < 0 then Inr (-1, s)
     else if \<not> tid_ok (foreground_thread s) then Inr (-1, s)
     else ipc_post_message_to_tid HARDWARE_TID (foreground_thread s) msg long1 long2 s)"

definition ipc_post_message_to_init :: "int \<Rightarrow> u64 \<Rightarrow> u64 \<Rightarrow> kstate \<Rightarrow> (int \<times> kstate) outcome" where
  "ipc_post_message_to_init msg long1 long2 s =
    (if msg < 0 then Inr (-1, s)
     else if \<not> tid_ok INIT_TID then Inr (-1, s)
     else and_then (ipc_post_message_to_tid HARDWARE_TID INIT_TID msg long1 long2 s)
       (\<lambda>(_, s1). Inr (0, s1)))"

definition ipc_post_message_to_ds :: "int \<Rightarrow> u64 \<Rightarrow> u64 \<Rightarrow> kstate \<Rightarrow> (int \<times> kstate) outcome" where
  "ipc_post_message_to_ds msg long1 long2 s =
    (if msg < 0 then Inr (-1, s)
     else if \<not> DisplayServer_initialized s then Inr (-1, s)
     else let ReceiverTID = DisplayServer_tid s in
       if \<not> tid_ok ReceiverTID then Inr (-1, s)
       else and_then (ipc_post_message_to_tid HARDWARE_TID ReceiverTID msg long1 long2
              (do_credits_by_tid ReceiverTID (do_credits_by_tid ReceiverTID s)))
         (\<lambda>(_, s1). Inr (0, s1)))"

text \<open>Only a mouse move returns 0: every other event falls through to the failure label.\<close>

definition ipc_post_input_event_to_ds :: "int \<Rightarrow> u64 \<Rightarrow> u64 \<Rightarrow> kstate \<Rightarrow> (int \<times> kstate) outcome" where
  "ipc_post_input_event_to_ds event_id long1 long2 s =
    (if event_id < 0 then Inr (-1, s)
     else if event_id = MSG_MOUSEMOVE
     then and_then (ipc_post_message_to_ds event_id long1 long2 s) (\<lambda>(_, s1). Inr (0, s1))
     else if event_id \<in> {MSG_MOUSEPRESSED, MSG_MOUSERELEASED}
     then let button_number = long1 AND 0xFFFF in
          and_then (ipc_post_message_to_ds event_id button_number button_number s)
            (\<lambda>(_, s1). Inr (-1, s1))
     else if event_id \<in> {MSG_KEYDOWN, MSG_KEYUP, MSG_SYSKEYDOWN, MSG_SYSKEYUP}
     then and_then (ipc_post_message_to_ds event_id long1 long1 s) (\<lambda>(_, s1). Inr (-1, s1))
     else if event_id = MSG_TIMER
     then and_then (ipc_post_message_to_ds MSG_TIMER 1234 (jiffies s) s) (\<lambda>(_, s1). Inr (-1, s1))
     else Inr (-1, s))"

fun broadcast_loop :: "int \<Rightarrow> int \<Rightarrow> u64 \<Rightarrow> u64 \<Rightarrow> u64 \<Rightarrow> u64 \<Rightarrow> nat list \<Rightarrow> int \<times> kstate
    \<Rightarrow> (int \<times> kstate) outcome" where
  "broadcast_loop src msg l1 l2 l3 l4 [] (Counter, s) = Inr (Counter, s)"
| "broadcast_loop src msg l1 l2 l3 l4 (i # is) (Counter, s) =
     (let t = threadList s i in
      if t \<noteq> NULL \<and> t_magic (thr s t) = 1234
      then and_then (ipc_post_message_to_tid2 src (t_tid (thr s t)) msg l1 l2 l3 l4 s) (\<lambda>(rv, s1).
             broadcast_loop src msg l1 l2 l3 l4 is (if 0 \<le> rv then Counter + 1 else Counter, s1))
      else broadcast_loop src msg l1 l2 l3 l4 is (Counter, s))"

definition ipc_broadcast_system_message :: "int \<Rightarrow> int \<Rightarrow> u64 \<Rightarrow> u64 \<Rightarrow> u64 \<Rightarrow> u64 \<Rightarrow> kstate
    \<Rightarrow> (u64 \<times> kstate) outcome" where
  "ipc_broadcast_system_message sender_tid msg long1 long2 long3 long4 s =
    and_then (broadcast_loop sender_tid msg long1 long2 long3 long4 [0..<THREAD_COUNT_MAX] (0, s))
      (\<lambda>(Counter, s1). Inr (word_of_int Counter AND 0xFFFFFFFF, s1))"

section \<open>Getting\<close>

type_synonym ubuffer = "nat \<Rightarrow> u64"

text \<open>An empty slot: the miss is counted and the head moves on (labels \<^verbatim>\<open>fail0\<close> and \<^verbatim>\<open>fail\<close>).\<close>

definition ipc_get_fail :: "addr \<Rightarrow> bool \<Rightarrow> kstate \<Rightarrow> kstate" where
  "ipc_get_fail t fEmpty s =
    upd_thr t (\<lambda>x.
      let x1 = (if fEmpty then x\<lparr>t_msgctl := (t_msgctl x)\<lparr>miss_count := miss_count (t_msgctl x) + 1\<rparr>\<rparr> else x);
          x2 = (if block_on_empty (t_msgctl x) \<and> fEmpty \<and>
                   int MSG_QUEUE_MAX + 4 < miss_count (t_msgctl x1)
                then x1\<lparr>t_msgctl := (t_msgctl x1)\<lparr>block_in_progress := True, miss_count := 0\<rparr>\<rparr>
                else x1)
      in x2\<lparr>t_MsgQueueHead := ring_next (t_MsgQueueHead x2)\<rparr>) s"

text \<open>Copying a message out and clearing its slot.\<close>

definition ipc_copy_out :: "addr \<Rightarrow> addr \<Rightarrow> ubuffer \<Rightarrow> kstate \<Rightarrow> int \<times> ubuffer \<times> kstate" where
  "ipc_copy_out t m buf s =
    (let x = msgs s m; code = word_of_int (m_msg x mod 2 ^ 32) :: u64;
         b1 = buf(0 := m_opaque_window x, 1 := code, 2 := m_long1 x, 3 := m_long2 x,
                  4 := m_long3 x, 5 := m_long4 x)
     in if (code = word_of_int MSG_MOUSEPRESSED \<or> code = word_of_int MSG_MOUSERELEASED) \<and>
           t_input_flags (thr s t) AND IFLAGS_MOUSEMOVE \<noteq> 0
        then (1, b1(4 := rel_mouse_x (mouse s), 5 := rel_mouse_y (mouse s)),
              upd_thr t (\<lambda>y. y\<lparr>t_input_flags := t_input_flags y AND NOT IFLAGS_MOUSEMOVE\<rparr>) s)
        else (1, b1(8 := word_of_int (m_sender_tid x), 9 := word_of_int (m_receiver_tid x),
                    10 := m_long3 x, 11 := jiffies s),
              upd_thr t (\<lambda>y. y\<lparr>t_quantum := QUANTUM_MAX, t_MsgQueueHead := ring_next (t_MsgQueueHead y)\<rparr>)
               (upd_msg m (\<lambda>y. y\<lparr>m_opaque_window := NULL, m_msg := 0, m_long1 := 0, m_long2 := 0,
                  m_long3 := 0, m_long4 := 0, m_sender_tid := 0, m_receiver_tid := 0,
                  m_sender_pid := 0, m_receiver_pid := 0\<rparr>) s)))"

text \<open>The result is the return value (NULL is 0), the buffer and the state.\<close>

definition ipc_get_message :: "addr \<Rightarrow> ubuffer \<Rightarrow> kstate \<Rightarrow> (int \<times> ubuffer \<times> kstate) outcome" where
  "ipc_get_message ubuf buf s =
    (if ubuf = 0 then Inl (Panic ''ipc_get_message: ubuf'')
     else let FromThisTID = l_current_tid (lapic_info s 0) in
       if \<not> tid_ok FromThisTID then Inr (0, buf, s)
       else let t = thr_at s FromThisTID in
         if t = NULL then Inl (Panic ''ipc_get_message: t'')
         else if \<not> t_used (thr s t) \<or> t_magic (thr s t) \<noteq> 1234
         then Inl (Panic ''ipc_get_message: t validation'')
         else if t_input_flags (thr s t) AND IFLAGS_MOUSEMOVE \<noteq> 0
         then Inr (1, buf(0 := 0, 1 := word_of_int MSG_MOUSEMOVE, 2 := rel_mouse_x (mouse s),
                3 := rel_mouse_y (mouse s), 4 := new_mouse_x (mouse s), 5 := new_mouse_y (mouse s)),
                upd_thr t (\<lambda>x. x\<lparr>t_input_flags := t_input_flags x AND NOT IFLAGS_MOUSEMOVE\<rparr>) s)
         else if t_input_flags (thr s t) AND IFLAGS_PAINT \<noteq> 0
         then Inr (1, buf(0 := 0, 1 := word_of_int MSG_PAINT, 2 := 0, 3 := 0),
                upd_thr t (\<lambda>x. x\<lparr>t_input_flags := t_input_flags x AND NOT IFLAGS_PAINT\<rparr>) s)
         else let m = t_MsgQueue (thr s t) (nat (t_MsgQueueHead (thr s t))) in
           if m = NULL then Inr (0, buf, s)
           else if \<not> m_used (msgs s m) \<or> m_magic (msgs s m) \<noteq> 1234
           then Inr (0, buf, ipc_get_fail t False s)
           else if m_msg (msgs s m) \<le> 0 then Inr (0, buf, ipc_get_fail t True s)
           else Inr (ipc_copy_out t m buf s))"

section \<open>The message ring\<close>

text \<open>
  A ring is well formed when both indices are in range and its 64 slots hold distinct, valid
  message structures, as thread creation leaves it.
\<close>

definition msg_ring_ok :: "kstate \<Rightarrow> addr \<Rightarrow> bool" where
  "msg_ring_ok s t \<longleftrightarrow>
    0 \<le> t_MsgQueueHead (thr s t) \<and> t_MsgQueueHead (thr s t) < 64 \<and>
    0 \<le> t_MsgQueueTail (thr s t) \<and> t_MsgQueueTail (thr s t) < 64 \<and>
    inj_on (t_MsgQueue (thr s t)) {..<64} \<and>
    (\<forall>i < 64. t_MsgQueue (thr s t) i \<noteq> NULL \<and> m_used (msgs s (t_MsgQueue (thr s t) i)) \<and>
       m_magic (msgs s (t_MsgQueue (thr s t) i)) = 1234)"

text \<open>The k-th slot counted from the head.\<close>

definition ring_slot :: "kstate \<Rightarrow> addr \<Rightarrow> nat \<Rightarrow> addr" where
  "ring_slot s t k = t_MsgQueue (thr s t) (nat ((t_MsgQueueHead (thr s t) + int k) mod 64))"

lemma ring_next_mod: "0 \<le> i \<Longrightarrow> i < 64 \<Longrightarrow> ring_next i = (i + 1) mod 64"
  using ring_inc_mod [of i 64] by (simp add: ring_next_def ring_inc_def MSG_QUEUE_MAX_def)

lemma ring_next_range: "0 \<le> i \<Longrightarrow> 0 \<le> ring_next i \<and> ring_next i < 64"
  by (simp add: ring_next_def MSG_QUEUE_MAX_def)

lemma ring_slot_ok:
  assumes "msg_ring_ok s t"
  shows "ring_slot s t k \<noteq> NULL" "m_used (msgs s (ring_slot s t k))"
    "m_magic (msgs s (ring_slot s t k)) = 1234"
proof -
  have "nat ((t_MsgQueueHead (thr s t) + int k) mod 64) < 64" by simp
  with assms show "ring_slot s t k \<noteq> NULL" "m_used (msgs s (ring_slot s t k))"
    "m_magic (msgs s (ring_slot s t k)) = 1234"
    unfolding msg_ring_ok_def ring_slot_def by blast+
qed

lemma ring_slot_inj:
  assumes "msg_ring_ok s t" "j < 64" "k < 64"
  shows "ring_slot s t j = ring_slot s t k \<longleftrightarrow> j = k"
proof
  assume eq: "ring_slot s t j = ring_slot s t k"
  let ?i = "\<lambda>n. nat ((t_MsgQueueHead (thr s t) + int n) mod 64)"
  have "?i j < 64" "?i k < 64" by simp_all
  with eq assms(1) have "?i j = ?i k"
    unfolding msg_ring_ok_def ring_slot_def by (auto dest: inj_onD)
  then have "(t_MsgQueueHead (thr s t) + int j) mod 64 = (t_MsgQueueHead (thr s t) + int k) mod 64"
    by simp
  then show "j = k" using mod_shift_inj [OF assms(2,3)] by simp
qed simp

lemma ring_slot_head: "msg_ring_ok s t \<Longrightarrow> t_MsgQueue (thr s t) (nat (t_MsgQueueHead (thr s t))) = ring_slot s t 0"
  by (simp add: ring_slot_def msg_ring_ok_def)

section \<open>The ring as a bounded queue\<close>

text \<open>A message as its sender posts it: sender, code and the four words.\<close>

type_synonym payload = "int \<times> int \<times> u64 \<times> u64 \<times> u64 \<times> u64"

definition msg_payload :: "msg_d \<Rightarrow> payload" where
  "msg_payload x = (m_sender_tid x, m_msg x, m_long1 x, m_long2 x, m_long3 x, m_long4 x)"

text \<open>The same message as its receiver finds it in the buffer.\<close>

definition ubuf_payload :: "ubuffer \<Rightarrow> payload" where
  "ubuf_payload b = (sint (b 8), uint (b 1), b 2, b 3, b 4, b 5)"

fun payload_ok :: "payload \<Rightarrow> bool" where
  "payload_ok (sender, code, l1, l2, l3, l4) \<longleftrightarrow>
     - (2 ^ 31) \<le> sender \<and> sender < 2 ^ 31 \<and> 0 < code \<and> code < 2 ^ 31"

text \<open>One post to a thread, and one get by it, as the operations of a queue.\<close>

fun ipc_put :: "int \<Rightarrow> payload \<Rightarrow> kstate \<Rightarrow> kstate outcome" where
  "ipc_put tid (sender, code, l1, l2, l3, l4) s =
     and_then (ipc_post_message_to_tid2 sender tid code l1 l2 l3 l4 s)
       (\<lambda>(rv, s1). if rv = 0 then Inr s1 else Inl (Die ''rejected''))"

definition ipc_take :: "addr \<Rightarrow> kstate \<Rightarrow> (payload \<times> kstate) outcome" where
  "ipc_take ubuf s =
     and_then (ipc_get_message ubuf (\<lambda>_. 0) s)
       (\<lambda>(rv, b, s1). if rv = 1 then Inr (ubuf_payload b, s1) else Inl (Die ''empty''))"

text \<open>
  The thread \<open>tid\<close> is the current one, has no pending input flag, and its ring holds
  exactly the messages \<open>q\<close>, oldest first.
\<close>

definition receiver_ok :: "int \<Rightarrow> kstate \<Rightarrow> bool" where
  "receiver_ok tid s \<longleftrightarrow> tid_ok tid \<and> thr_ok s (thr_at s tid) \<and> t_tid (thr s (thr_at s tid)) = tid \<and>
     l_current_tid (lapic_info s 0) = tid \<and>
     t_input_flags (thr s (thr_at s tid)) AND IFLAGS_MOUSEMOVE = 0 \<and>
     t_input_flags (thr s (thr_at s tid)) AND IFLAGS_PAINT = 0 \<and> msg_ring_ok s (thr_at s tid)"

definition ring_holds :: "int \<Rightarrow> kstate \<Rightarrow> payload list \<Rightarrow> bool" where
  "ring_holds tid s q \<longleftrightarrow> receiver_ok tid s \<and> length q \<le> 64 \<and> (\<forall>m \<in> set q. payload_ok m) \<and>
     t_MsgQueueTail (thr s (thr_at s tid)) =
       (t_MsgQueueHead (thr s (thr_at s tid)) + int (length q)) mod 64 \<and>
     (\<forall>k < 64. if k < length q then msg_payload (msgs s (ring_slot s (thr_at s tid) k)) = q ! k
               else m_msg (msgs s (ring_slot s (thr_at s tid) k)) \<le> 0)"

lemma ring_holdsI:
  assumes "receiver_ok tid s" "length q \<le> 64" "\<forall>m \<in> set q. payload_ok m"
    and "t_MsgQueueTail (thr s (thr_at s tid)) =
       (t_MsgQueueHead (thr s (thr_at s tid)) + int (length q)) mod 64"
    and "\<And>k. k < 64 \<Longrightarrow> if k < length q then msg_payload (msgs s (ring_slot s (thr_at s tid) k)) = q ! k
               else m_msg (msgs s (ring_slot s (thr_at s tid) k)) \<le> 0"
  shows "ring_holds tid s q"
  using assms by (simp add: ring_holds_def)

lemma ring_holds_tail_slot:
  "ring_holds tid s q \<Longrightarrow>
     t_MsgQueue (thr s (thr_at s tid)) (nat (t_MsgQueueTail (thr s (thr_at s tid)))) =
       ring_slot s (thr_at s tid) (length q)"
  by (simp add: ring_holds_def ring_slot_def)

text \<open>The state after a post that reaches the slot \<open>m\<close> at the tail of thread \<open>t\<close>.\<close>

definition posted :: "addr \<Rightarrow> addr \<Rightarrow> int \<Rightarrow> payload \<Rightarrow> kstate \<Rightarrow> kstate" where
  "posted t m tid p s = (case p of (sender, code, l1, l2, l3, l4) \<Rightarrow>
     upd_thr t (\<lambda>x. x\<lparr>t_MsgQueueTail := ring_next (t_MsgQueueTail x)\<rparr>)
        (upd_msg m (\<lambda>x. x\<lparr>m_opaque_window := NULL, m_msg := code, m_long1 := l1, m_long2 := l2,
           m_long3 := l3, m_long4 := l4, m_sender_tid := sender, m_receiver_tid := tid,
           m_next := NULL\<rparr>) s))"

lemma posted_sel [simp]:
  "threadList (posted t m tid p s) = threadList s" "lapic_info (posted t m tid p s) = lapic_info s"
  "thr (posted t m tid p s) a = (if a = t then (thr s t)\<lparr>t_MsgQueueTail := ring_next (t_MsgQueueTail (thr s t))\<rparr> else thr s a)"
  "msg_payload (msgs (posted t m tid p s) a) = (if a = m then p else msg_payload (msgs s a))"
  "m_used (msgs (posted t m tid p s) a) = m_used (msgs s a)"
  "m_magic (msgs (posted t m tid p s) a) = m_magic (msgs s a)"
  "m_msg (msgs (posted t m tid p s) a) = (if a = m then fst (snd p) else m_msg (msgs s a))"
  by (cases p; simp add: posted_def msg_payload_def)+

lemma ring_slot_posted [simp]: "ring_slot (posted t m tid p s) t' k = ring_slot s t' k"
  by (simp add: ring_slot_def)

lemma receiver_ok_posted: "receiver_ok tid s \<Longrightarrow> receiver_ok tid (posted t m tid' p s)"
  by (auto simp: receiver_ok_def thr_ok_def msg_ring_ok_def ring_next_range)

lemma ipc_put_eq:
  assumes "receiver_ok tid s" and "payload_ok p"
    and m: "t_MsgQueue (thr s (thr_at s tid)) (nat (t_MsgQueueTail (thr s (thr_at s tid)))) = m"
  shows "ipc_put tid p s = Inr (posted (thr_at s tid) m tid p s)"
proof -
  let ?t = "thr_at s tid"
  have "nat (t_MsgQueueTail (thr s ?t)) < 64"
    using assms(1) by (auto simp: receiver_ok_def msg_ring_ok_def)
  then have "m \<noteq> NULL" "m_used (msgs s m)" "m_magic (msgs s m) = 1234"
    using assms(1) m unfolding receiver_ok_def msg_ring_ok_def by blast+
  then show ?thesis
    using assms by (cases p) (auto simp: ipc_post_message_to_tid2_def ipc_check_receiver_def
        ipc_enqueue_def receiver_ok_def thr_ok_def posted_def Let_def)
qed

lemma ipc_put_law:
  assumes h: "ring_holds tid s q" and ok: "payload_ok p" and len: "length q < 64"
  shows "\<exists>s'. ipc_put tid p s = Inr s' \<and> ring_holds tid s' (q @ [p])"
proof (intro exI conjI)
  let ?t = "thr_at s tid"
  let ?s' = "posted ?t (ring_slot s ?t (length q)) tid p s"
  have r: "receiver_ok tid s" using h by (simp add: ring_holds_def)
  then have ring: "msg_ring_ok s ?t" by (simp add: receiver_ok_def)
  show "ipc_put tid p s = Inr ?s'"
    by (rule ipc_put_eq [OF r ok ring_holds_tail_slot [OF h]])
  have tail: "0 \<le> t_MsgQueueTail (thr s ?t)" "t_MsgQueueTail (thr s ?t) < 64"
    using ring by (auto simp: msg_ring_ok_def)
  have slots: "if k < length (q @ [p]) then msg_payload (msgs ?s' (ring_slot ?s' ?t k)) = (q @ [p]) ! k
      else m_msg (msgs ?s' (ring_slot ?s' ?t k)) \<le> 0" if "k < 64" for k
    using h that ring_slot_inj [OF ring that len] by (auto simp: ring_holds_def nth_append)
  have "t_MsgQueueTail (thr ?s' ?t) = (t_MsgQueueTail (thr s ?t) + 1) mod 64"
    by (simp add: ring_next_mod [OF tail])
  also have "\<dots> = (t_MsgQueueHead (thr ?s' ?t) + int (length (q @ [p]))) mod 64"
    using h by (simp add: ring_holds_def mod_add_left_eq mod_add_right_eq ac_simps)
  finally have t': "t_MsgQueueTail (thr ?s' ?t) =
    (t_MsgQueueHead (thr ?s' ?t) + int (length (q @ [p]))) mod 64" .
  show "ring_holds tid ?s' (q @ [p])"
  proof (rule ring_holdsI)
    show "length (q @ [p]) \<le> 64" "\<forall>m \<in> set (q @ [p]). payload_ok m"
      using h ok len by (auto simp: ring_holds_def)
  qed (use receiver_ok_posted [OF r] slots t' in \<open>simp_all only: posted_sel\<close>)
qed

text \<open>The state after a message is taken from the slot \<open>m\<close> of thread \<open>t\<close>.\<close>

definition taken :: "addr \<Rightarrow> addr \<Rightarrow> kstate \<Rightarrow> kstate" where
  "taken t m s =
     upd_thr t (\<lambda>y. y\<lparr>t_quantum := QUANTUM_MAX, t_MsgQueueHead := ring_next (t_MsgQueueHead y)\<rparr>)
       (upd_msg m (\<lambda>y. y\<lparr>m_opaque_window := NULL, m_msg := 0, m_long1 := 0, m_long2 := 0,
          m_long3 := 0, m_long4 := 0, m_sender_tid := 0, m_receiver_tid := 0,
          m_sender_pid := 0, m_receiver_pid := 0\<rparr>) s)"

lemma taken_sel [simp]:
  "threadList (taken t m s) = threadList s" "lapic_info (taken t m s) = lapic_info s"
  "thr (taken t m s) a = (if a = t then (thr s t)\<lparr>t_quantum := QUANTUM_MAX,
     t_MsgQueueHead := ring_next (t_MsgQueueHead (thr s t))\<rparr> else thr s a)"
  "msg_payload (msgs (taken t m s) a) = (if a = m then (0, 0, 0, 0, 0, 0) else msg_payload (msgs s a))"
  "m_used (msgs (taken t m s) a) = m_used (msgs s a)"
  "m_magic (msgs (taken t m s) a) = m_magic (msgs s a)"
  "m_msg (msgs (taken t m s) a) = (if a = m then 0 else m_msg (msgs s a))"
  by (simp_all add: taken_def msg_payload_def)

lemma receiver_ok_taken: "receiver_ok tid s \<Longrightarrow> receiver_ok tid (taken t m s)"
  by (auto simp: receiver_ok_def thr_ok_def msg_ring_ok_def ring_next_range)

text \<open>Whenever the head advances, the slots are renumbered.\<close>

lemma ring_slot_advance:
  assumes "msg_ring_ok s t" and "t_MsgQueue (thr s' t) = t_MsgQueue (thr s t)"
    and "t_MsgQueueHead (thr s' t) = ring_next (t_MsgQueueHead (thr s t))"
  shows "ring_slot s' t k = ring_slot s t (Suc k)"
proof -
  have "t_MsgQueueHead (thr s' t) = (t_MsgQueueHead (thr s t) + 1) mod 64"
    using assms(1,3) by (simp add: ring_next_mod msg_ring_ok_def)
  then have "(t_MsgQueueHead (thr s' t) + int k) mod 64 = (t_MsgQueueHead (thr s t) + int (Suc k)) mod 64"
    by (simp add: mod_add_left_eq add.assoc)
  with assms(2) show ?thesis by (simp add: ring_slot_def)
qed

lemma ring_slot_wrap: "ring_slot s t 64 = ring_slot s t 0"
  by (simp add: ring_slot_def)

lemma payload_round_trip:
  assumes "payload_ok (msg_payload x)"
  shows "ubuf_payload (b(1 := word_of_int (m_msg x mod 2 ^ 32), 2 := m_long1 x, 3 := m_long2 x,
    4 := m_long3 x, 5 := m_long4 x, 8 := word_of_int (m_sender_tid x), 9 := c, 10 := d, 11 := e)) = msg_payload x"
proof -
  have "uint (word_of_int (m_msg x mod 2 ^ 32) :: u64) = m_msg x"
    using assms by (simp add: msg_payload_def uint_word_of_int_eq take_bit_int_eq_self)
  moreover have "sint (word_of_int (m_sender_tid x) :: u64) = m_sender_tid x"
    using assms by (simp add: msg_payload_def signed_of_int signed_take_bit_int_eq_self)
  ultimately show ?thesis by (simp add: ubuf_payload_def msg_payload_def)
qed

lemma ipc_take_eq:
  assumes r: "receiver_ok tid s" and u: "ubuf \<noteq> 0" and m: "ring_slot s (thr_at s tid) 0 = m"
    and p: "payload_ok (msg_payload (msgs s m))"
  shows "ipc_take ubuf s = Inr (msg_payload (msgs s m), taken (thr_at s tid) m s)"
proof -
  let ?t = "thr_at s tid"
  have ring: "msg_ring_ok s ?t" using r by (simp add: receiver_ok_def)
  have slot: "t_MsgQueue (thr s ?t) (nat (t_MsgQueueHead (thr s ?t))) = m"
    using ring_slot_head [OF ring] m by simp
  have code: "\<not> m_msg (msgs s m) \<le> 0" using p by (simp add: msg_payload_def)
  define b :: ubuffer where "b = (\<lambda>_. 0)(0 := m_opaque_window (msgs s m))"
  have "ipc_get_message ubuf (\<lambda>_. 0) s = Inr (ipc_copy_out ?t m (\<lambda>_. 0) s)"
    using r u slot code ring_slot_ok [OF ring, of 0] m
    by (simp add: ipc_get_message_def receiver_ok_def thr_ok_def Let_def)
  moreover have "ipc_copy_out ?t m (\<lambda>_. 0) s = (1, b(1 := word_of_int (m_msg (msgs s m) mod 2 ^ 32),
      2 := m_long1 (msgs s m), 3 := m_long2 (msgs s m), 4 := m_long3 (msgs s m), 5 := m_long4 (msgs s m),
      8 := word_of_int (m_sender_tid (msgs s m)), 9 := word_of_int (m_receiver_tid (msgs s m)),
      10 := m_long3 (msgs s m), 11 := jiffies s), taken ?t m s)"
    using r by (simp add: ipc_copy_out_def receiver_ok_def taken_def Let_def b_def)
  ultimately show ?thesis
    using payload_round_trip [OF p, of b "word_of_int (m_receiver_tid (msgs s m))" "m_long3 (msgs s m)" "jiffies s"]
    by (simp add: ipc_take_def)
qed

lemma ipc_take_law:
  assumes h: "ring_holds tid s (p # q)" and u: "ubuf \<noteq> 0"
  shows "\<exists>s'. ipc_take ubuf s = Inr (p, s') \<and> ring_holds tid s' q"
proof (intro exI conjI)
  let ?t = "thr_at s tid"
  let ?s' = "taken ?t (ring_slot s ?t 0) s"
  have r: "receiver_ok tid s" using h by (simp add: ring_holds_def)
  then have ring: "msg_ring_ok s ?t" by (simp add: receiver_ok_def)
  have p0: "msg_payload (msgs s (ring_slot s ?t 0)) = p" "payload_ok p"
    using h by (force simp: ring_holds_def)+
  then show "ipc_take ubuf s = Inr (p, ?s')"
    using ipc_take_eq [OF r u refl] by simp
  have adv: "ring_slot ?s' ?t k = ring_slot s ?t (Suc k)" for k
    by (rule ring_slot_advance [OF ring]) simp_all
  have slots: "if k < length q then msg_payload (msgs ?s' (ring_slot ?s' ?t k)) = q ! k
      else m_msg (msgs ?s' (ring_slot ?s' ?t k)) \<le> 0" if k: "k < 64" for k
  proof (cases "k = 63")
    case True
    then have "ring_slot ?s' ?t k = ring_slot s ?t 0" using adv [of 63] ring_slot_wrap [of s ?t] by simp
    with True h show ?thesis by (simp add: ring_holds_def)
  next
    case False
    with k have k1: "Suc k < 64" by simp
    with ring_slot_inj [OF ring k1, of 0] h show ?thesis
      by (auto simp: adv ring_holds_def)
  qed
  have head: "0 \<le> t_MsgQueueHead (thr s ?t)" "t_MsgQueueHead (thr s ?t) < 64"
    using ring by (auto simp: msg_ring_ok_def)
  have "t_MsgQueueTail (thr ?s' ?t) = (t_MsgQueueHead (thr s ?t) + 1 + int (length q)) mod 64"
    using h by (simp add: ring_holds_def ac_simps)
  also have "\<dots> = (t_MsgQueueHead (thr ?s' ?t) + int (length q)) mod 64"
    by (simp add: ring_next_mod [OF head] mod_add_left_eq)
  finally have tl: "t_MsgQueueTail (thr ?s' ?t) = (t_MsgQueueHead (thr ?s' ?t) + int (length q)) mod 64" .
  show "ring_holds tid ?s' q"
  proof (rule ring_holdsI)
    show "length q \<le> 64" "\<forall>m \<in> set q. payload_ok m" using h by (simp_all add: ring_holds_def)
  qed (use receiver_ok_taken [OF r] slots tl in \<open>simp_all only: taken_sel\<close>)
qed

interpretation ring: bounded_queue "ipc_put tid" "ipc_take ubuf"
  "\<lambda>s q. ubuf \<noteq> 0 \<and> ring_holds tid s q" payload_ok 64 for tid ubuf
proof
  fix s q m
  assume "ubuf \<noteq> 0 \<and> ring_holds tid s q" "payload_ok m" "length q < 64"
  then show "\<exists>s'. ipc_put tid m s = Inr s' \<and> ubuf \<noteq> 0 \<and> ring_holds tid s' (q @ [m])"
    using ipc_put_law by blast
next
  fix s m q
  assume "ubuf \<noteq> 0 \<and> ring_holds tid s (m # q)"
  then show "\<exists>s'. ipc_take ubuf s = Inr (m, s') \<and> ubuf \<noteq> 0 \<and> ring_holds tid s' q"
    using ipc_take_law by blast
qed

section \<open>Gets on an arbitrary ring\<close>

text \<open>What one get does whatever the slots hold: the head moves on, and only the head slot changes.\<close>

lemma ipc_get_fail_sel [simp]:
  "threadList (ipc_get_fail t e s) = threadList s" "lapic_info (ipc_get_fail t e s) = lapic_info s"
  "msgs (ipc_get_fail t e s) = msgs s" "a \<noteq> t \<Longrightarrow> thr (ipc_get_fail t e s) a = thr s a"
  "t_MsgQueue (thr (ipc_get_fail t e s) a) = t_MsgQueue (thr s a)"
  "t_MsgQueueTail (thr (ipc_get_fail t e s) a) = t_MsgQueueTail (thr s a)"
  "t_MsgQueueHead (thr (ipc_get_fail t e s) t) = ring_next (t_MsgQueueHead (thr s t))"
  "t_used (thr (ipc_get_fail t e s) a) = t_used (thr s a)"
  "t_magic (thr (ipc_get_fail t e s) a) = t_magic (thr s a)"
  "t_tid (thr (ipc_get_fail t e s) a) = t_tid (thr s a)"
  "t_input_flags (thr (ipc_get_fail t e s) a) = t_input_flags (thr s a)"
  by (simp_all add: ipc_get_fail_def Let_def)

lemma receiver_ok_fail:
  assumes "receiver_ok tid s" "t = thr_at s tid"
  shows "receiver_ok tid (ipc_get_fail t e s)"
  using assms ring_next_range [of "t_MsgQueueHead (thr s t)"]
  by (simp add: receiver_ok_def thr_ok_def msg_ring_ok_def)

definition head_step :: "int \<Rightarrow> kstate \<Rightarrow> kstate \<Rightarrow> bool" where
  "head_step tid s s' \<longleftrightarrow> receiver_ok tid s' \<and> threadList s' = threadList s \<and>
     t_MsgQueue (thr s' (thr_at s tid)) = t_MsgQueue (thr s (thr_at s tid)) \<and>
     t_MsgQueueHead (thr s' (thr_at s tid)) = ring_next (t_MsgQueueHead (thr s (thr_at s tid))) \<and>
     t_MsgQueueTail (thr s' (thr_at s tid)) = t_MsgQueueTail (thr s (thr_at s tid)) \<and>
     (\<forall>a. a \<noteq> ring_slot s (thr_at s tid) 0 \<longrightarrow> msgs s' a = msgs s a)"

lemma ipc_get_empty:
  assumes "receiver_ok tid s" "ubuf \<noteq> 0" "m_msg (msgs s (ring_slot s (thr_at s tid) 0)) \<le> 0"
  shows "ipc_get_message ubuf b s = Inr (0, b, ipc_get_fail (thr_at s tid) True s)"
proof -
  have ring: "msg_ring_ok s (thr_at s tid)" using assms(1) by (simp add: receiver_ok_def)
  show ?thesis
    using assms ring_slot_head [OF ring] ring_slot_ok [OF ring, of 0]
    by (simp add: ipc_get_message_def receiver_ok_def thr_ok_def Let_def)
qed

lemma ipc_get_full:
  assumes "receiver_ok tid s" "ubuf \<noteq> 0" "0 < m_msg (msgs s (ring_slot s (thr_at s tid) 0))"
  shows "\<exists>b'. ipc_get_message ubuf b s = Inr (1, b', taken (thr_at s tid) (ring_slot s (thr_at s tid) 0) s)"
proof -
  have ring: "msg_ring_ok s (thr_at s tid)" using assms(1) by (simp add: receiver_ok_def)
  show ?thesis
    using assms ring_slot_head [OF ring] ring_slot_ok [OF ring, of 0]
    by (simp add: ipc_get_message_def receiver_ok_def thr_ok_def Let_def ipc_copy_out_def taken_def)
qed

lemma ipc_get_head_step:
  assumes r: "receiver_ok tid s" and u: "ubuf \<noteq> 0"
  shows "\<exists>rv b' s'. ipc_get_message ubuf b s = Inr (rv, b', s') \<and> head_step tid s s'"
proof (cases "m_msg (msgs s (ring_slot s (thr_at s tid) 0)) \<le> 0")
  case True
  with ipc_get_empty [OF r u True] receiver_ok_fail [OF r refl] show ?thesis
    by (simp add: head_step_def)
next
  case False
  then obtain b' where
    "ipc_get_message ubuf b s = Inr (1, b', taken (thr_at s tid) (ring_slot s (thr_at s tid) 0) s)"
    using ipc_get_full [OF r u] by force
  moreover have "head_step tid s (taken (thr_at s tid) (ring_slot s (thr_at s tid) 0) s)"
    using receiver_ok_taken [OF r] by (simp add: head_step_def) (simp add: taken_def)
  ultimately show ?thesis by blast
qed

text \<open>A receiver that keeps calling get, whatever it obtains.\<close>

fun ipc_gets :: "addr \<Rightarrow> nat \<Rightarrow> kstate \<Rightarrow> kstate outcome" where
  "ipc_gets ubuf 0 s = Inr s"
| "ipc_gets ubuf (Suc n) s =
     and_then (ipc_get_message ubuf (\<lambda>_. 0) s) (\<lambda>(_, _, s1). ipc_gets ubuf n s1)"

lemma ipc_gets_reach:
  assumes "receiver_ok tid s" "ubuf \<noteq> 0" "n < 64"
  shows "\<exists>s'. ipc_gets ubuf n s = Inr s' \<and> receiver_ok tid s' \<and> threadList s' = threadList s \<and>
    ring_slot s' (thr_at s tid) 0 = ring_slot s (thr_at s tid) n \<and>
    msgs s' (ring_slot s (thr_at s tid) n) = msgs s (ring_slot s (thr_at s tid) n)"
  using assms
proof (induction n arbitrary: s)
  case 0
  then show ?case by simp
next
  case (Suc n)
  let ?t = "thr_at s tid"
  have ring: "msg_ring_ok s ?t" using Suc.prems(1) by (simp add: receiver_ok_def)
  from ipc_get_head_step [OF Suc.prems(1,2), of "\<lambda>_. 0"] obtain rv b s1 where
    g: "ipc_get_message ubuf (\<lambda>_. 0) s = Inr (rv, b, s1)" and st: "head_step tid s s1" by blast
  from st have r1: "receiver_ok tid s1" and tl: "threadList s1 = threadList s"
    and sl: "ring_slot s1 ?t k = ring_slot s ?t (Suc k)" for k
    using ring_slot_advance [OF ring, of s1] by (simp_all add: head_step_def)
  from Suc.IH [OF r1 Suc.prems(2)] Suc.prems(3) obtain s' where
    n: "ipc_gets ubuf n s1 = Inr s'" "receiver_ok tid s'" "threadList s' = threadList s1"
      "ring_slot s' ?t 0 = ring_slot s1 ?t n" "msgs s' (ring_slot s1 ?t n) = msgs s1 (ring_slot s1 ?t n)"
    using tl by auto
  have "ring_slot s ?t (Suc n) \<noteq> ring_slot s ?t 0"
    using ring_slot_inj [OF ring Suc.prems(3), of 0] by simp
  with st have "msgs s1 (ring_slot s ?t (Suc n)) = msgs s (ring_slot s ?t (Suc n))"
    by (simp add: head_step_def)
  with g n tl sl show ?case by simp
qed

lemma tail_as_slot:
  assumes "msg_ring_ok s t"
  shows "\<exists>d < 64. t_MsgQueue (thr s t) (nat (t_MsgQueueTail (thr s t))) = ring_slot s t d"
proof (intro exI conjI)
  let ?d = "nat ((t_MsgQueueTail (thr s t) - t_MsgQueueHead (thr s t)) mod 64)"
  show "?d < 64" by simp
  have "(t_MsgQueueHead (thr s t) + int ?d) mod 64 = t_MsgQueueTail (thr s t) mod 64"
    by (simp add: mod_simps)
  also have "\<dots> = t_MsgQueueTail (thr s t)" using assms by (simp add: msg_ring_ok_def)
  finally show "t_MsgQueue (thr s t) (nat (t_MsgQueueTail (thr s t))) = ring_slot s t ?d"
    by (simp add: ring_slot_def)
qed

section \<open>Well-formed rings are kept\<close>

text \<open>
  Every operation changes a message only in its contents and a thread only in its ring
  indices, input flags, quantum, credits and message control.
\<close>

definition same_rings :: "kstate \<Rightarrow> kstate \<Rightarrow> bool" where
  "same_rings s s' \<longleftrightarrow>
    (\<forall>a. m_used (msgs s' a) = m_used (msgs s a) \<and> m_magic (msgs s' a) = m_magic (msgs s a)) \<and>
    (\<forall>t. t_MsgQueue (thr s' t) = t_MsgQueue (thr s t) \<and>
       (t_MsgQueueHead (thr s' t) = t_MsgQueueHead (thr s t) \<or>
        t_MsgQueueHead (thr s' t) = ring_next (t_MsgQueueHead (thr s t))) \<and>
       (t_MsgQueueTail (thr s' t) = t_MsgQueueTail (thr s t) \<or>
        t_MsgQueueTail (thr s' t) = ring_next (t_MsgQueueTail (thr s t))))"

lemma same_rings_ok:
  assumes "same_rings s s'" "msg_ring_ok s t"
  shows "msg_ring_ok s' t"
proof -
  have "0 \<le> t_MsgQueueHead (thr s' t) \<and> t_MsgQueueHead (thr s' t) < 64"
    using assms ring_next_range [of "t_MsgQueueHead (thr s t)"]
    unfolding same_rings_def msg_ring_ok_def by metis
  moreover have "0 \<le> t_MsgQueueTail (thr s' t) \<and> t_MsgQueueTail (thr s' t) < 64"
    using assms ring_next_range [of "t_MsgQueueTail (thr s t)"]
    unfolding same_rings_def msg_ring_ok_def by metis
  ultimately show ?thesis using assms by (simp add: same_rings_def msg_ring_ok_def)
qed

lemma if_InrE:
  assumes "(if b then x else y) = Inr z"
  obtains "b" "x = Inr z" | "\<not> b" "y = Inr z"
  using assms by (auto split: if_splits)

lemma same_rings_refl [simp]: "same_rings s s"
  by (simp add: same_rings_def)

lemma same_rings_upd_msg:
  "(\<And>x. m_used (f x) = m_used x \<and> m_magic (f x) = m_magic x) \<Longrightarrow> same_rings s (upd_msg m f s)"
  by (simp add: same_rings_def)

lemma same_rings_upd_thr:
  assumes "same_rings s s'" and "\<And>a. thr s' a = thr s a"
    and "\<And>x. t_MsgQueue (f x) = t_MsgQueue x"
    and "\<And>x. t_MsgQueueHead (f x) = t_MsgQueueHead x \<or> t_MsgQueueHead (f x) = ring_next (t_MsgQueueHead x)"
    and "\<And>x. t_MsgQueueTail (f x) = t_MsgQueueTail x \<or> t_MsgQueueTail (f x) = ring_next (t_MsgQueueTail x)"
  shows "same_rings s (upd_thr t f s')"
  using assms by (simp add: same_rings_def)

lemma same_rings_enqueue:
  "ipc_enqueue nm t a b c l1 l2 l3 l4 s = Inr (rv, s') \<Longrightarrow> same_rings s s'"
  by (auto simp: ipc_enqueue_def Let_def split: if_splits intro!: same_rings_upd_thr same_rings_upd_msg)

lemma same_rings_post2:
  "ipc_post_message_to_tid2 a b c l1 l2 l3 l4 s = Inr (rv, s') \<Longrightarrow> same_rings s s'"
  by (auto simp: ipc_post_message_to_tid2_def elim!: and_then_InrE
      split: if_splits option.splits dest: same_rings_enqueue)

lemma same_rings_coalesce:
  "ipc_coalesce t a b c l1 l2 s = Inr (Some s') \<Longrightarrow> same_rings s s'"
  unfolding ipc_coalesce_def Let_def
  by (elim if_InrE; (simp; fail)?) (simp_all only: sum.inject option.inject, auto simp: same_rings_upd_msg)

lemma same_rings_flags: "same_rings s (upd_thr t (\<lambda>x. x\<lparr>t_input_flags := v x\<rparr>) s)"
  by (rule same_rings_upd_thr) simp_all

lemma same_rings_post:
  assumes "ipc_post_message_to_tid a b c l1 l2 s = Inr (rv, s')"
  shows "same_rings s s'"
proof (cases "c \<le> 0")
  case True
  with assms show ?thesis by (simp add: ipc_post_message_to_tid_def)
next
  case False
  with assms obtain r where r: "ipc_check_receiver ''ipc_post_message_to_tid'' b s = Inr r"
    unfolding ipc_post_message_to_tid_def by (auto elim: and_then_InrE)
  show ?thesis
  proof (cases r)
    case None
    with assms r False show ?thesis by (simp add: ipc_post_message_to_tid_def)
  next
    case (Some t)
    show ?thesis
    proof (cases "c = MSG_MOUSEMOVE \<or> c = MSG_PAINT")
      case True
      with assms r Some False show ?thesis
        by (auto simp: ipc_post_message_to_tid_def same_rings_flags split: if_splits)
    next
      case f: False
      with assms r Some False obtain k where k: "ipc_coalesce t a b c l1 l2 s = Inr k"
        "(case k of Some s' \<Rightarrow> Inr (0, s') | None \<Rightarrow> ipc_enqueue ''ipc_post_message_to_tid'' t a b c
           l1 l2 (jiffies s) (jiffies s) s) = Inr (rv, s')"
        by (auto simp: ipc_post_message_to_tid_def elim: and_then_InrE)
      then show ?thesis
        using same_rings_enqueue same_rings_coalesce by (cases k) auto
    qed
  qed
qed

lemma same_rings_fail: "same_rings s (ipc_get_fail t e s)"
  unfolding ipc_get_fail_def by (rule same_rings_upd_thr) (simp_all add: Let_def)

lemma same_rings_copy_out:
  "ipc_copy_out t m b s = (rv, b', s') \<Longrightarrow> same_rings s s'"
  unfolding ipc_copy_out_def Let_def
  by (auto split: if_splits intro!: same_rings_upd_thr same_rings_upd_msg)

lemma same_rings_get:
  assumes "ipc_get_message u b s = Inr (rv, b', s')"
  shows "same_rings s s'"
  using assms unfolding ipc_get_message_def Let_def
  by (elim if_InrE; (simp; fail)?) (auto intro: same_rings_flags same_rings_fail same_rings_copy_out)

section \<open>Properties\<close>

text \<open>
  A concrete receiver: thread 1 is current and its ring is empty. The message
  structures are 256 bytes apart.
\<close>

definition sample_ring_at :: "addr \<Rightarrow> nat \<Rightarrow> addr" where
  "sample_ring_at base i = base + of_nat i * 0x100"

abbreviation sample_ring :: "nat \<Rightarrow> addr" where "sample_ring \<equiv> sample_ring_at 0x10000"

definition ring_kstate :: kstate where
  "ring_kstate = sample_kstate\<lparr>
     thr := (thr sample_kstate)(0x2000 := (sample_thread 1 RUNNING)\<lparr>t_MsgQueue := sample_ring\<rparr>),
     msgs := (\<lambda>_. zero_msg\<lparr>m_used := True, m_magic := 1234\<rparr>),
     lapic_info := (\<lambda>_. zero_lapic\<lparr>l_current_tid := 1\<rparr>)\<rparr>"

lemma ring_kstate_sel [simp]:
  "thr ring_kstate 0x2000 = (sample_thread 1 RUNNING)\<lparr>t_MsgQueue := sample_ring\<rparr>"
  "msgs ring_kstate = (\<lambda>_. zero_msg\<lparr>m_used := True, m_magic := 1234\<rparr>)"
  "lapic_info ring_kstate = (\<lambda>_. zero_lapic\<lparr>l_current_tid := 1\<rparr>)"
  "threadList ring_kstate = (\<lambda>_. NULL)(0 := 0x1000, 1 := 0x2000, 2 := 0x3000)"
  by (simp_all add: ring_kstate_def)

lemma sample_ring_unat:
  assumes "i < 64" "unat base < 2 ^ 32"
  shows "unat (sample_ring_at base i) = unat base + i * 0x100"
  using assms by (simp add: sample_ring_at_def unat_word_ariths unat_of_nat)

lemma sample_ring_inj: "unat base < 2 ^ 32 \<Longrightarrow> inj_on (sample_ring_at base) {..<64}"
proof (rule inj_onI)
  fix i j :: nat assume b: "unat base < 2 ^ 32" and a: "i \<in> {..<64}" "j \<in> {..<64}"
    and eq: "sample_ring_at base i = sample_ring_at base j"
  from a have "i < 64" "j < 64" by (simp_all only: lessThan_iff)
  then have "unat base + i * 0x100 = unat base + j * 0x100"
    using sample_ring_unat [of i base] sample_ring_unat [of j base] b by (simp only: eq)
  then show "i = j" by simp
qed

lemma sample_ring_ok:
  assumes "t_MsgQueue (thr s t) = sample_ring_at base" "0 < unat base" "unat base < 2 ^ 32"
    and "t_MsgQueueHead (thr s t) = 0" "t_MsgQueueTail (thr s t) = 0"
    and "msgs s = (\<lambda>_. zero_msg\<lparr>m_used := True, m_magic := 1234\<rparr>)"
  shows "msg_ring_ok s t"
proof -
  have "sample_ring_at base i \<noteq> NULL" if "i < 64" for i
    using sample_ring_unat [OF that assms(3)] assms(2) by (intro notI) simp
  with assms(1,4-6) sample_ring_inj [OF assms(3)] show ?thesis unfolding msg_ring_ok_def by simp
qed

lemma ring_kstate_ring: "msg_ring_ok ring_kstate 0x2000"
  by (rule sample_ring_ok [of _ _ "0x10000"]) (simp_all add: sample_thread_def zero_thread_def)

lemma ring_kstate_receiver: "receiver_ok 1 ring_kstate"
  using ring_kstate_ring
  by (simp add: receiver_ok_def tid_ok_def THREAD_COUNT_MAX_def thr_ok_def
      sample_thread_def zero_thread_def)

lemma ring_kstate_empty: "ring_holds 1 ring_kstate []"
  using ring_kstate_receiver
  by (simp add: ring_holds_def sample_thread_def zero_thread_def zero_msg_def)

text \<open>
  Claim C14. The message ring is a bounded queue: on a schedule of posts and gets that never posts to a
  ring of 64 messages and never gets from an empty one, the receiver obtains exactly what the
  list queue gives, message for message and in order, and the ring then holds what the
  list queue holds.
\<close>

theorem ipc_ring_refines_list:
  assumes "ring_holds tid s q" and "ubuf \<noteq> 0" and "\<forall>m. Put m \<in> set ops \<longrightarrow> payload_ok m"
    and "list_run 64 ops q = Some (ms, r)"
  shows "\<exists>s'. queue_run (ipc_put tid) (ipc_take ubuf) ops s = Inr (ms, s') \<and> ring_holds tid s' r"
  using ring.run_refines [of ubuf tid s q ops ms r] assms by blast

theorem ipc_ring_refines_list_witness:
  "\<exists>s'. queue_run (ipc_put 1) (ipc_take 0x5000)
      [Put (2, 77, 1, 2, 3, 4), Put (3, 78, 5, 6, 7, 8), Get, Get] ring_kstate =
      Inr ([(2, 77, 1, 2, 3, 4), (3, 78, 5, 6, 7, 8)], s') \<and> ring_holds 1 s' []"
  by (rule ipc_ring_refines_list [OF ring_kstate_empty]) auto

text \<open>
  Claim C30. Delivery: whatever the ring holds and wherever its head is, a message posted to the current
  thread is returned to it, unchanged, after at most 63 other calls of
  \<^verbatim>\<open>ipc_get_message\<close> with no post in between.
\<close>

theorem ipc_post_is_delivered:
  assumes "receiver_ok tid s" and "payload_ok p" and "ubuf \<noteq> 0"
  shows "\<exists>s1 n s2 s3. ipc_put tid p s = Inr s1 \<and> n < 64 \<and> ipc_gets ubuf n s1 = Inr s2 \<and>
    ipc_take ubuf s2 = Inr (p, s3)"
proof -
  let ?t = "thr_at s tid"
  have ring: "msg_ring_ok s ?t" using assms(1) by (simp add: receiver_ok_def)
  obtain d where d: "d < 64" "t_MsgQueue (thr s ?t) (nat (t_MsgQueueTail (thr s ?t))) = ring_slot s ?t d"
    using tail_as_slot [OF ring] by blast
  let ?s1 = "posted ?t (ring_slot s ?t d) tid p s"
  have put: "ipc_put tid p s = Inr ?s1" by (rule ipc_put_eq [OF assms(1,2) d(2)])
  from ipc_gets_reach [OF receiver_ok_posted [OF assms(1)] assms(3) d(1), of ?t "ring_slot s ?t d" tid p]
  obtain s2 where s2: "ipc_gets ubuf d ?s1 = Inr s2" "receiver_ok tid s2" "threadList s2 = threadList s"
    "ring_slot s2 ?t 0 = ring_slot s ?t d" "msgs s2 (ring_slot s ?t d) = msgs ?s1 (ring_slot s ?t d)"
    by auto
  then have "msg_payload (msgs s2 (ring_slot s ?t d)) = p" by simp
  with s2 assms(2,3) have "ipc_take ubuf s2 = Inr (p, taken ?t (ring_slot s ?t d) s2)"
    using ipc_take_eq [of tid s2 ubuf "ring_slot s ?t d"] by simp
  with put s2(1) d(1) show ?thesis by blast
qed

theorem ipc_post_is_delivered_witness:
  "\<exists>s1 n s2 s3. ipc_put 1 (2, 77, 1, 2, 3, 4) ring_kstate = Inr s1 \<and> n < 64 \<and>
    ipc_gets 0x5000 n s1 = Inr s2 \<and> ipc_take 0x5000 s2 = Inr ((2, 77, 1, 2, 3, 4), s3)"
  by (rule ipc_post_is_delivered [OF ring_kstate_receiver]) auto

text \<open>
  Order is lost after a get on an empty ring: the get advances the head past the tail, so of
  two messages posted afterwards the second is returned first.
\<close>

theorem ipc_empty_get_reorders:
  assumes h: "ring_holds tid s []" and u: "ubuf \<noteq> 0" and p: "payload_ok p" and q: "payload_ok q"
  shows "\<exists>s1 s2 s3 s4. ipc_get_message ubuf b s = Inr (0, b, s1) \<and> ipc_put tid p s1 = Inr s2 \<and>
    ipc_put tid q s2 = Inr s3 \<and> ipc_take ubuf s3 = Inr (q, s4)"
proof -
  let ?t = "thr_at s tid"
  let ?s1 = "ipc_get_fail ?t True s"
  let ?s2 = "posted ?t (ring_slot s ?t 0) tid p ?s1"
  let ?s3 = "posted ?t (ring_slot s ?t 1) tid q ?s2"
  have r: "receiver_ok tid s" using h by (simp add: ring_holds_def)
  then have ring: "msg_ring_ok s ?t" by (simp add: receiver_ok_def)
  have r1: "receiver_ok tid ?s1" by (rule receiver_ok_fail [OF r refl])
  have r2: "receiver_ok tid ?s2" by (rule receiver_ok_posted [OF r1])
  have ht: "t_MsgQueueTail (thr s ?t) = t_MsgQueueHead (thr s ?t)"
    and hr: "0 \<le> t_MsgQueueHead (thr s ?t)" "t_MsgQueueHead (thr s ?t) < 64"
    using h ring by (simp_all add: ring_holds_def msg_ring_ok_def)
  have get: "ipc_get_message ubuf b s = Inr (0, b, ?s1)"
    using ipc_get_empty [OF r u] h by (simp add: ring_holds_def)
  have put1: "ipc_put tid p ?s1 = Inr ?s2"
    using ipc_put_eq [OF r1 p] ring_slot_head [OF ring] ht by simp
  have slot1: "t_MsgQueue (thr s ?t) (nat (ring_next (t_MsgQueueHead (thr s ?t)))) = ring_slot s ?t 1"
    by (simp add: ring_slot_def ring_next_mod [OF hr])
  have put2: "ipc_put tid q ?s2 = Inr ?s3"
    using ipc_put_eq [OF r2 q] slot1 ht by simp
  have "ring_slot ?s3 ?t 0 = ring_slot s ?t 1"
    using ring_slot_advance [OF ring, of ?s1 0] by simp
  then have "ipc_take ubuf ?s3 = Inr (q, taken ?t (ring_slot s ?t 1) ?s3)"
    using ipc_take_eq [OF receiver_ok_posted [OF r2] u] q by simp
  with get put1 put2 show ?thesis by blast
qed

theorem ipc_empty_get_reorders_witness:
  "\<exists>s1 s2 s3 s4. ipc_get_message 0x5000 (\<lambda>_. 0) ring_kstate = Inr (0, \<lambda>_. 0, s1) \<and>
    ipc_put 1 (2, 77, 1, 2, 3, 4) s1 = Inr s2 \<and> ipc_put 1 (3, 78, 5, 6, 7, 8) s2 = Inr s3 \<and>
    ipc_take 0x5000 s3 = Inr ((3, 78, 5, 6, 7, 8), s4)"
  by (rule ipc_empty_get_reorders [OF ring_kstate_empty]) auto

text \<open>
  A post to a full ring is accepted and destroys the oldest message: the new one takes its
  slot and is returned by the very next get, and the 63 others follow in order.
\<close>

theorem ipc_full_ring_overwrites:
  assumes h: "ring_holds tid s (old # q)" and len: "length q = 63" and p: "payload_ok p" and u: "ubuf \<noteq> 0"
  shows "\<exists>s1 s2. ipc_put tid p s = Inr s1 \<and> ipc_take ubuf s1 = Inr (p, s2) \<and>
    (\<forall>k < 63. \<exists>s3 s4. ipc_gets ubuf k s2 = Inr s3 \<and> ipc_take ubuf s3 = Inr (q ! k, s4))"
proof -
  let ?t = "thr_at s tid"
  let ?s1 = "posted ?t (ring_slot s ?t 0) tid p s"
  let ?s2 = "taken ?t (ring_slot s ?t 0) ?s1"
  have r: "receiver_ok tid s" using h by (simp add: ring_holds_def)
  then have ring: "msg_ring_ok s ?t" by (simp add: receiver_ok_def)
  have r2: "receiver_ok tid ?s2" by (intro receiver_ok_taken receiver_ok_posted r)
  have "t_MsgQueue (thr s ?t) (nat (t_MsgQueueTail (thr s ?t))) = ring_slot s ?t 0"
    using ring_holds_tail_slot [OF h] len by (simp add: ring_slot_wrap)
  then have put: "ipc_put tid p s = Inr ?s1" by (rule ipc_put_eq [OF r p])
  have take: "ipc_take ubuf ?s1 = Inr (p, ?s2)"
    using ipc_take_eq [OF receiver_ok_posted [OF r] u] p by simp
  have adv: "ring_slot ?s2 ?t k = ring_slot s ?t (Suc k)" for k
    using ring_slot_advance [OF ring, of ?s2 k] by simp
  have rest: "\<exists>s3 s4. ipc_gets ubuf k ?s2 = Inr s3 \<and> ipc_take ubuf s3 = Inr (q ! k, s4)" if k: "k < 63" for k
  proof -
    from k have k1: "Suc k < 64" "k < 64" by simp_all
    have pk: "msg_payload (msgs ?s2 (ring_slot ?s2 ?t k)) = q ! k"
      using ring_slot_inj [OF ring k1(1), of 0] h len k by (force simp: adv ring_holds_def)
    have okk: "payload_ok (q ! k)" using h len k by (simp add: ring_holds_def)
    from ipc_gets_reach [OF r2 u k1(2)] obtain s3 where s3: "ipc_gets ubuf k ?s2 = Inr s3"
      "receiver_ok tid s3" "threadList s3 = threadList s" "ring_slot s3 ?t 0 = ring_slot ?s2 ?t k"
      "msgs s3 (ring_slot ?s2 ?t k) = msgs ?s2 (ring_slot ?s2 ?t k)" by auto
    with ipc_take_eq [OF s3(2) u] pk okk show ?thesis by simp
  qed
  from put take rest show ?thesis by blast
qed

theorem ipc_full_ring_overwrites_witness:
  "\<exists>s s1 s2. ring_holds 1 s (replicate 64 (2, 77, 1, 2, 3, 4)) \<and> ipc_put 1 (5, 99, 0, 0, 0, 0) s = Inr s1 \<and>
    ipc_take 0x5000 s1 = Inr ((5, 99, 0, 0, 0, 0), s2)"
proof -
  let ?p = "(2, 77, 1, 2, 3, 4) :: payload"
  have "list_run 64 (map Put (replicate 64 ?p)) [] = Some ([], replicate 64 ?p)"
    using list_run_puts [of "[]" "replicate 64 ?p" 64 "[]"] by simp
  then obtain s where s: "ring_holds 1 s (replicate 64 ?p)"
    using ring.run_refines [of "0x5000" 1 ring_kstate "[]" "map Put (replicate 64 ?p)"]
      ring_kstate_empty by fastforce
  then have "ring_holds 1 s (?p # replicate 63 ?p)" by (simp flip: replicate_Suc)
  from ipc_full_ring_overwrites [OF this, of "(5, 99, 0, 0, 0, 0)" "0x5000"] s show ?thesis by auto
qed

text \<open>
  Claim C36. Message rings stay well formed: a post by either routine and a get, on any arguments and in
  any state, leave every well-formed ring of every thread well formed.
\<close>

theorem ipc_operations_keep_rings:
  assumes "msg_ring_ok s t"
  shows "(ipc_post_message_to_tid2 a b c l1 l2 l3 l4 s = Inr (rv, s1) \<longrightarrow> msg_ring_ok s1 t) \<and>
    (ipc_post_message_to_tid a b c l1 l2 s = Inr (rv, s2) \<longrightarrow> msg_ring_ok s2 t) \<and>
    (ipc_get_message u buf s = Inr (rv, buf', s3) \<longrightarrow> msg_ring_ok s3 t)"
  by (intro conjI impI; erule same_rings_ok [OF same_rings_post2 assms]
      same_rings_ok [OF same_rings_post assms] same_rings_ok [OF same_rings_get assms])

theorem ipc_operations_keep_rings_witness:
  "\<exists>s1. ipc_post_message_to_tid2 2 1 77 1 2 3 4 ring_kstate = Inr (0, s1) \<and> msg_ring_ok s1 0x2000"
proof -
  have "ipc_put 1 (2, 77, 1, 2, 3, 4) ring_kstate = Inr (posted 0x2000
      (t_MsgQueue (thr ring_kstate 0x2000) (nat (t_MsgQueueTail (thr ring_kstate 0x2000)))) 1 (2, 77, 1, 2, 3, 4) ring_kstate)"
    using ipc_put_eq [OF ring_kstate_receiver, of "(2, 77, 1, 2, 3, 4)"] by simp
  then obtain s1 where "ipc_post_message_to_tid2 2 1 77 1 2 3 4 ring_kstate = Inr (0, s1)"
    by (auto elim!: and_then_InrE split: if_splits)
  with ipc_operations_keep_rings [OF ring_kstate_ring] show ?thesis by blast
qed

section \<open>Broadcast\<close>

definition bcast_target :: "kstate \<Rightarrow> nat \<Rightarrow> bool" where
  "bcast_target s i \<longleftrightarrow> threadList s i \<noteq> NULL \<and> t_magic (thr s (threadList s i)) = 1234"

abbreviation tail_msg :: "kstate \<Rightarrow> nat \<Rightarrow> addr" where
  "tail_msg s i \<equiv> t_MsgQueue (thr s (threadList s i)) (nat (t_MsgQueueTail (thr s (threadList s i))))"

text \<open>Every target is in use with a well-formed ring, and no two targets share a message structure.\<close>

definition bcast_ok :: "kstate \<Rightarrow> bool" where
  "bcast_ok s \<longleftrightarrow> wf_threads s \<and>
     (\<forall>i < THREAD_COUNT_MAX. bcast_target s i \<longrightarrow>
        t_used (thr s (threadList s i)) \<and> msg_ring_ok s (threadList s i)) \<and>
     (\<forall>i < THREAD_COUNT_MAX. \<forall>j < THREAD_COUNT_MAX. bcast_target s i \<longrightarrow> bcast_target s j \<longrightarrow> i \<noteq> j \<longrightarrow>
        t_MsgQueue (thr s (threadList s i)) ` {..<64} \<inter> t_MsgQueue (thr s (threadList s j)) ` {..<64} = {})"

lemma same_rings_posted: "same_rings s (posted t m tid p s)"
  by (cases p) (auto simp: posted_def intro!: same_rings_upd_thr same_rings_upd_msg)

lemma posted_thr_same:
  "t_tid (thr (posted t m tid p s) a) = t_tid (thr s a)"
  "t_used (thr (posted t m tid p s) a) = t_used (thr s a)"
  "t_magic (thr (posted t m tid p s) a) = t_magic (thr s a)"
  "t_MsgQueue (thr (posted t m tid p s) a) = t_MsgQueue (thr s a)"
  by simp_all

lemma bcast_ok_posted: "bcast_ok s \<Longrightarrow> bcast_ok (posted t m tid p s)"
  using same_rings_ok [OF same_rings_posted, of s _ t m tid p]
  unfolding bcast_ok_def wf_threads_def bcast_target_def posted_thr_same posted_sel(1) by blast

lemma bcast_target_posted [simp]: "bcast_target (posted t m tid p s) = bcast_target s"
  by (auto simp: bcast_target_def fun_eq_iff)

lemma tail_msg_in_ring:
  "msg_ring_ok s t \<Longrightarrow> t_MsgQueue (thr s t) (nat (t_MsgQueueTail (thr s t))) \<in> t_MsgQueue (thr s t) ` {..<64}"
  by (rule imageI) (auto simp: msg_ring_ok_def)

lemma bcast_post:
  assumes "bcast_ok s" "i < THREAD_COUNT_MAX" "bcast_target s i" "0 \<le> code"
  shows "ipc_post_message_to_tid2 src (t_tid (thr s (threadList s i))) code l1 l2 l3 l4 s =
     Inr (0, posted (threadList s i) (tail_msg s i) (int i) (src, code, l1, l2, l3, l4) s)"
proof -
  let ?t = "threadList s i"
  have t: "?t \<noteq> NULL" "t_used (thr s ?t)" "t_magic (thr s ?t) = 1234" "t_tid (thr s ?t) = int i"
    and ring: "msg_ring_ok s ?t"
    using assms by (auto simp: bcast_ok_def bcast_target_def wf_threads_def)
  have "nat (t_MsgQueueTail (thr s ?t)) < 64" using ring by (auto simp: msg_ring_ok_def)
  then have "tail_msg s i \<noteq> NULL" "m_used (msgs s (tail_msg s i))" "m_magic (msgs s (tail_msg s i)) = 1234"
    using ring unfolding msg_ring_ok_def by blast+
  with t assms(2,4) show ?thesis
    by (simp add: ipc_post_message_to_tid2_def ipc_check_receiver_def tid_ok_def ipc_enqueue_def
        posted_def Let_def)
qed

text \<open>What a broadcast over a list of slots achieves.\<close>

definition bcast_done :: "nat list \<Rightarrow> payload \<Rightarrow> kstate \<Rightarrow> kstate \<Rightarrow> bool" where
  "bcast_done is p s s' \<longleftrightarrow>
    (\<forall>i \<in> set is. bcast_target s i \<longrightarrow> msg_payload (msgs s' (tail_msg s i)) = p \<and>
       t_MsgQueueTail (thr s' (threadList s i)) = ring_next (t_MsgQueueTail (thr s (threadList s i)))) \<and>
    (\<forall>a. (\<forall>i \<in> set is. bcast_target s i \<longrightarrow> a \<noteq> tail_msg s i) \<longrightarrow> msgs s' a = msgs s a) \<and>
    (\<forall>a. (\<forall>i \<in> set is. bcast_target s i \<longrightarrow> a \<noteq> threadList s i) \<longrightarrow> thr s' a = thr s a)"

lemma bcast_done_skip: "\<not> bcast_target s i \<Longrightarrow> bcast_done is p s s' \<Longrightarrow> bcast_done (i # is) p s s'"
  by (simp add: bcast_done_def)

lemma bcast_done_step:
  assumes ok: "bcast_ok s" and i: "i < THREAD_COUNT_MAX" "bcast_target s i"
    and fresh: "i \<notin> set is" "set is \<subseteq> {..<THREAD_COUNT_MAX}"
    and d: "bcast_done is p (posted (threadList s i) (tail_msg s i) tid p s) s'"
  shows "bcast_done (i # is) p s s'"
proof -
  let ?s1 = "posted (threadList s i) (tail_msg s i) tid p s"
  have ne: "threadList s j \<noteq> threadList s i" "tail_msg s j \<noteq> tail_msg s i"
    if "j \<in> set is" "bcast_target s j" for j
  proof -
    from that fresh have j: "j < THREAD_COUNT_MAX" "i \<noteq> j" by auto
    show "threadList s j \<noteq> threadList s i"
      using wf_threads_inj [of s i j] ok i j by (auto simp: bcast_ok_def bcast_target_def)
    have "t_MsgQueue (thr s (threadList s i)) ` {..<64} \<inter> t_MsgQueue (thr s (threadList s j)) ` {..<64} = {}"
      using ok i j that unfolding bcast_ok_def by blast
    moreover have "msg_ring_ok s (threadList s i)" "msg_ring_ok s (threadList s j)"
      using ok i j that unfolding bcast_ok_def by blast+
    ultimately show "tail_msg s j \<noteq> tail_msg s i" using tail_msg_in_ring by (metis disjoint_iff)
  qed
  have tm: "tail_msg ?s1 j = tail_msg s j" if "j \<in> set is" "bcast_target s j" for j
    using ne [OF that] by simp
  from d have d1: "\<forall>j \<in> set is. bcast_target s j \<longrightarrow> msg_payload (msgs s' (tail_msg ?s1 j)) = p \<and>
       t_MsgQueueTail (thr s' (threadList s j)) = ring_next (t_MsgQueueTail (thr ?s1 (threadList s j)))"
    and d2: "\<forall>a. (\<forall>j \<in> set is. bcast_target s j \<longrightarrow> a \<noteq> tail_msg ?s1 j) \<longrightarrow> msgs s' a = msgs ?s1 a"
    and d3: "\<forall>a. (\<forall>j \<in> set is. bcast_target s j \<longrightarrow> a \<noteq> threadList s j) \<longrightarrow> thr s' a = thr ?s1 a"
    unfolding bcast_done_def by simp_all
  have "msgs s' (tail_msg s i) = msgs ?s1 (tail_msg s i)" using d2 ne(2) tm by metis
  then have p: "msg_payload (msgs s' (tail_msg s i)) = p" by simp
  have "thr s' (threadList s i) = thr ?s1 (threadList s i)" using d3 ne(1) by metis
  then have tl: "t_MsgQueueTail (thr s' (threadList s i)) = ring_next (t_MsgQueueTail (thr s (threadList s i)))"
    by simp
  have rest: "msg_payload (msgs s' (tail_msg s j)) = p \<and>
      t_MsgQueueTail (thr s' (threadList s j)) = ring_next (t_MsgQueueTail (thr s (threadList s j)))"
    if "j \<in> set is" "bcast_target s j" for j
  proof -
    from d1 that have "msg_payload (msgs s' (tail_msg ?s1 j)) = p \<and>
      t_MsgQueueTail (thr s' (threadList s j)) = ring_next (t_MsgQueueTail (thr ?s1 (threadList s j)))" by blast
    then show ?thesis unfolding tm [OF that] using ne(1) [OF that] by simp
  qed
  have fm: "msgs s' a = msgs s a" if "\<forall>j \<in> set (i # is). bcast_target s j \<longrightarrow> a \<noteq> tail_msg s j" for a
  proof -
    from that i(2) have "a \<noteq> tail_msg s i" by simp
    then have "msgs ?s1 a = msgs s a" by (cases p) (simp add: posted_def)
    moreover have "msgs s' a = msgs ?s1 a" using d2 that tm by simp
    ultimately show ?thesis by simp
  qed
  have ft: "thr s' a = thr s a" if "\<forall>j \<in> set (i # is). bcast_target s j \<longrightarrow> a \<noteq> threadList s j" for a
  proof -
    from that i(2) have "a \<noteq> threadList s i" by simp
    then show ?thesis using d3 that by simp
  qed
  from p tl rest fm ft show ?thesis unfolding bcast_done_def by simp
qed

lemma broadcast_loop_done:
  assumes "bcast_ok s" "distinct is" "set is \<subseteq> {..<THREAD_COUNT_MAX}" "0 \<le> code"
  shows "\<exists>s'. broadcast_loop src code l1 l2 l3 l4 is (c, s) =
      Inr (c + int (length (filter (bcast_target s) is)), s') \<and>
    bcast_done is (src, code, l1, l2, l3, l4) s s'"
  using assms
proof (induction "is" arbitrary: c s)
  case Nil
  then show ?case by (simp add: bcast_done_def)
next
  case (Cons i "is")
  show ?case
  proof (cases "bcast_target s i")
    case True
    let ?s1 = "posted (threadList s i) (tail_msg s i) (int i) (src, code, l1, l2, l3, l4) s"
    have i: "i < THREAD_COUNT_MAX" using Cons.prems(3) by simp
    from Cons.IH [OF bcast_ok_posted [OF Cons.prems(1)], of "c + 1" "threadList s i" "tail_msg s i" "int i"
        "(src, code, l1, l2, l3, l4)"] Cons.prems obtain s' where
      r: "broadcast_loop src code l1 l2 l3 l4 is (c + 1, ?s1) =
        Inr (c + 1 + int (length (filter (bcast_target s) is)), s')"
      and d: "bcast_done is (src, code, l1, l2, l3, l4) ?s1 s'" by auto
    have "bcast_done (i # is) (src, code, l1, l2, l3, l4) s s'"
      by (rule bcast_done_step [OF Cons.prems(1) i True _ _ d]) (use Cons.prems in auto)
    moreover have "broadcast_loop src code l1 l2 l3 l4 (i # is) (c, s) =
        broadcast_loop src code l1 l2 l3 l4 is (c + 1, ?s1)"
      using bcast_post [OF Cons.prems(1) i True Cons.prems(4)] True
      by (simp add: bcast_target_def Let_def)
    ultimately show ?thesis using r True by simp
  next
    case False
    then have "broadcast_loop src code l1 l2 l3 l4 (i # is) (c, s) =
        broadcast_loop src code l1 l2 l3 l4 is (c, s)"
      by (auto simp: bcast_target_def Let_def)
    moreover obtain s' where "broadcast_loop src code l1 l2 l3 l4 is (c, s) =
        Inr (c + int (length (filter (bcast_target s) is)), s')"
      "bcast_done is (src, code, l1, l2, l3, l4) s s'"
      using Cons.IH [OF Cons.prems(1), of c] Cons.prems by auto
    ultimately show ?thesis using False bcast_done_skip [OF False] by auto
  qed
qed

lemma counter_mask: "n < 2 ^ 32 \<Longrightarrow> word_of_int (int n) AND 0xFFFFFFFF = (of_nat n :: u64)"
proof -
  assume n: "n < 2 ^ 32"
  have m: "(0xFFFFFFFF :: u64) = mask 32" by (simp add: mask_eq_exp_minus_1)
  have "take_bit 32 (of_nat n :: u64) = of_nat (take_bit 32 n)" by (simp only: take_bit_of_nat)
  also have "take_bit 32 n = n" using n by (simp add: take_bit_nat_eq_self)
  finally show ?thesis by (simp only: m flip: take_bit_eq_mask) simp
qed

text \<open>
  A broadcast reaches every thread exactly once: when the rings are well formed and not
  shared, it returns the number of threads in the table and leaves the message in the tail slot of
  each, with that tail advanced by one; no other thread and no other message is touched.
\<close>

theorem ipc_broadcast_reaches_all:
  assumes "bcast_ok s" and "0 \<le> code"
  shows "\<exists>s'. ipc_broadcast_system_message src code l1 l2 l3 l4 s =
      Inr (of_nat (card {i. i < THREAD_COUNT_MAX \<and> bcast_target s i}), s') \<and>
    bcast_done [0..<THREAD_COUNT_MAX] (src, code, l1, l2, l3, l4) s s'"
proof -
  let ?f = "filter (bcast_target s) [0..<THREAD_COUNT_MAX]"
  have "set ?f = {i. i < THREAD_COUNT_MAX \<and> bcast_target s i}" by auto
  then have c: "length ?f = card {i. i < THREAD_COUNT_MAX \<and> bcast_target s i}"
    using distinct_card [of ?f] by simp
  have "length ?f \<le> THREAD_COUNT_MAX" using length_filter_le [of _ "[0..<THREAD_COUNT_MAX]"] by simp
  then have "length ?f < 2 ^ 32" by (simp add: THREAD_COUNT_MAX_def)
  moreover have "set [0..<THREAD_COUNT_MAX] \<subseteq> {..<THREAD_COUNT_MAX}" by auto
  ultimately show ?thesis
    using counter_mask [of "length ?f"]
      broadcast_loop_done [OF assms(1) _ _ assms(2), of "[0..<THREAD_COUNT_MAX]" src l1 l2 l3 l4 0]
    by (auto simp: ipc_broadcast_system_message_def c)
qed

text \<open>Two threads with rings of their own.\<close>

definition bcast_kstate :: kstate where
  "bcast_kstate = ring_kstate\<lparr>
     thr := (thr ring_kstate)(0x1000 := (sample_thread 0 READY)\<lparr>t_MsgQueue := sample_ring_at 0x20000\<rparr>),
     threadList := (\<lambda>_. NULL)(0 := 0x1000, 1 := 0x2000)\<rparr>"

lemma bcast_kstate_sel:
  "thr bcast_kstate 0x1000 = (sample_thread 0 READY)\<lparr>t_MsgQueue := sample_ring_at 0x20000\<rparr>"
  "thr bcast_kstate 0x2000 = (sample_thread 1 RUNNING)\<lparr>t_MsgQueue := sample_ring\<rparr>"
  "msgs bcast_kstate = (\<lambda>_. zero_msg\<lparr>m_used := True, m_magic := 1234\<rparr>)"
  "threadList bcast_kstate = (\<lambda>_. NULL)(0 := 0x1000, 1 := 0x2000)"
  by (simp_all add: bcast_kstate_def)

lemma bcast_kstate_disjoint:
  "sample_ring_at 0x20000 ` {..<64} \<inter> sample_ring ` {..<64} = {}"
proof -
  have "sample_ring_at 0x20000 i \<noteq> sample_ring j" if "i < 64" "j < 64" for i j
  proof
    assume "sample_ring_at 0x20000 i = sample_ring j"
    then have "unat (sample_ring_at 0x20000 i) = unat (sample_ring j)" by simp
    with sample_ring_unat [OF that(1), of "0x20000"] sample_ring_unat [OF that(2), of "0x10000"] that
    show False by simp
  qed
  then show ?thesis by (auto simp only: lessThan_iff disjoint_iff image_iff)
qed

lemma bcast_kstate_ok: "bcast_ok bcast_kstate"
proof -
  have sl: "i = 0 \<or> i = 1" if "bcast_target bcast_kstate i" for i
    using that by (auto simp: bcast_target_def bcast_kstate_sel split: if_splits)
  have r0: "msg_ring_ok bcast_kstate 0x1000"
    by (rule sample_ring_ok [of _ _ "0x20000"]) (simp_all add: bcast_kstate_sel sample_thread_def zero_thread_def)
  have r1: "msg_ring_ok bcast_kstate 0x2000"
    by (rule sample_ring_ok [of _ _ "0x10000"]) (simp_all add: bcast_kstate_sel sample_thread_def zero_thread_def)
  have "wf_threads bcast_kstate" by (simp add: wf_threads_def bcast_kstate_sel)
  moreover have "t_used (thr bcast_kstate (threadList bcast_kstate i)) \<and>
      msg_ring_ok bcast_kstate (threadList bcast_kstate i)" if "bcast_target bcast_kstate i" for i
    using sl [OF that] r0 r1 by (auto simp: bcast_kstate_sel)
  moreover have "t_MsgQueue (thr bcast_kstate (threadList bcast_kstate i)) ` {..<64} \<inter>
      t_MsgQueue (thr bcast_kstate (threadList bcast_kstate j)) ` {..<64} = {}"
    if "bcast_target bcast_kstate i" "bcast_target bcast_kstate j" "i \<noteq> j" for i j
  proof -
    have q: "t_MsgQueue (thr bcast_kstate (threadList bcast_kstate 0)) = sample_ring_at 0x20000"
      "t_MsgQueue (thr bcast_kstate (threadList bcast_kstate 1)) = sample_ring"
      by (simp_all add: bcast_kstate_sel)
    from sl [OF that(1)] sl [OF that(2)] that(3) have "i = 0 \<and> j = 1 \<or> i = 1 \<and> j = 0" by auto
    then show ?thesis using q bcast_kstate_disjoint by (metis Int_commute)
  qed
  ultimately show ?thesis unfolding bcast_ok_def by blast
qed

theorem ipc_broadcast_reaches_all_witness:
  "\<exists>n s'. ipc_broadcast_system_message 5 99 1 2 3 4 bcast_kstate = Inr (n, s') \<and>
    bcast_done [0..<THREAD_COUNT_MAX] (5, 99, 1, 2, 3, 4) bcast_kstate s' \<and> bcast_target bcast_kstate 1"
  using ipc_broadcast_reaches_all [OF bcast_kstate_ok, of 99 5 1 2 3 4]
  by (auto simp: bcast_target_def bcast_kstate_sel)

text \<open>
  The result of posting an input event to the display server does not tell whether it was
  posted: it is 0 for a mouse move and -1 for every other event, whatever happened.
\<close>

theorem input_event_result:
  assumes "ipc_post_input_event_to_ds event_id long1 long2 s = Inr (rv, s')"
  shows "rv = (if event_id = MSG_MOUSEMOVE then 0 else -1)"
  using assms unfolding ipc_post_input_event_to_ds_def
  by (elim if_InrE) (auto simp: Let_def msg_codes elim!: and_then_InrE)

text \<open>Here the key event is posted: the display server's tail moves from 0 to 1.\<close>

definition ds_kstate :: kstate where
  "ds_kstate = ring_kstate\<lparr>DisplayServer_initialized := True, DisplayServer_tid := 1\<rparr>"

lemma ds_kstate_sel [simp]:
  "thr ds_kstate = thr ring_kstate" "msgs ds_kstate = msgs ring_kstate"
  "threadList ds_kstate = threadList ring_kstate" "DisplayServer_initialized ds_kstate"
  "DisplayServer_tid ds_kstate = 1"
  by (simp_all add: ds_kstate_def)

theorem input_event_result_witness:
  "\<exists>rv s'. ipc_post_input_event_to_ds MSG_KEYUP 65 65 ds_kstate = Inr (rv, s') \<and> rv = -1 \<and>
     t_MsgQueueTail (thr s' 0x2000) = 1"
proof -
  have "sample_ring 0 \<noteq> NULL" by (simp add: sample_ring_at_def)
  then obtain rv s' where r: "ipc_post_input_event_to_ds MSG_KEYUP 65 65 ds_kstate = Inr (rv, s')"
    and "t_MsgQueueTail (thr s' 0x2000) = 1"
    by (simp add: ipc_post_input_event_to_ds_def ipc_post_message_to_ds_def ipc_post_message_to_tid_def
        ipc_check_receiver_def ipc_coalesce_def ipc_enqueue_def do_credits_by_tid_def do_credits_def
        tid_ok_def THREAD_COUNT_MAX_def msg_codes Let_def ring_next_def MSG_QUEUE_MAX_def)
      (simp add: sample_thread_def zero_thread_def zero_msg_def ring_next_def MSG_QUEUE_MAX_def)
  moreover from input_event_result [OF r] have "rv = -1" by (simp add: msg_codes)
  ultimately show ?thesis by blast
qed

end
