(* ===== verification/Chain_Spec.thy ===== *)
theory Chain_Spec
  imports Gramado_Prelude
begin

text \<open>
  Building a run queue: a scan visits the slots of a table in order and appends some of the
  structures it finds to a list linked through a pointer field. Both scheduling policies build
  their queues this way; that the result is exactly the selected slots in table order, and
  properly terminated, is proved once from what one visit does.
\<close>

section \<open>Linked lists\<close>

text \<open>Each element points to its successor; what the last one points to is left open.\<close>

fun linked :: "(addr \<Rightarrow> addr) \<Rightarrow> addr list \<Rightarrow> bool" where
  "linked nxt (x # y # xs) \<longleftrightarrow> nxt x = y \<and> linked nxt (y # xs)"
| "linked nxt [x] \<longleftrightarrow> True"
| "linked nxt [] \<longleftrightarrow> True"

text \<open>The same, and the last element is followed by NULL.\<close>

definition chain :: "(addr \<Rightarrow> addr) \<Rightarrow> addr list \<Rightarrow> bool" where
  "chain nxt xs \<longleftrightarrow> xs \<noteq> [] \<and> linked nxt xs \<and> nxt (last xs) = NULL"

text \<open>What a walk from the head meets, with a bound on its length.\<close>

fun walk :: "(addr \<Rightarrow> addr) \<Rightarrow> nat \<Rightarrow> addr \<Rightarrow> addr list" where
  "walk nxt 0 p = []"
| "walk nxt (Suc n) p = (if p = NULL then [] else p # walk nxt n (nxt p))"

lemma linked_cong: "(\<And>x. x \<in> set (butlast xs) \<Longrightarrow> f x = g x) \<Longrightarrow> linked f xs = linked g xs"
  by (induction f xs rule: linked.induct) auto

lemma linked_snoc: "xs \<noteq> [] \<Longrightarrow> linked nxt (xs @ [y]) \<longleftrightarrow> linked nxt xs \<and> nxt (last xs) = y"
  by (induction nxt xs rule: linked.induct) auto

lemma chain_terminate:
  assumes "linked nxt q" "distinct q" "q \<noteq> []" "\<And>a. nxt' a = (if a = last q then NULL else nxt a)"
  shows "chain nxt' q"
proof -
  have "linked nxt' q = linked nxt q"
  proof (rule linked_cong)
    fix x assume x: "x \<in> set (butlast q)"
    have "distinct (butlast q @ [last q])" using assms(2,3) by simp
    with x have "x \<noteq> last q" by auto
    then show "nxt' x = nxt x" by (simp add: assms(4))
  qed
  with assms show ?thesis by (simp add: chain_def)
qed

lemma chain_walk:
  "chain nxt xs \<Longrightarrow> NULL \<notin> set xs \<Longrightarrow> length xs \<le> n \<Longrightarrow> walk nxt n (hd xs) = xs"
proof (induction xs arbitrary: n)
  case Nil
  then show ?case by (simp add: chain_def)
next
  case (Cons x xs)
  then obtain m where n: "n = Suc m" by (cases n) auto
  show ?case
  proof (cases xs)
    case Nil
    with Cons.prems n show ?thesis by (cases m) (auto simp: chain_def)
  next
    case (Cons y ys)
    with Cons.prems have "chain nxt xs" "nxt x = y" by (auto simp: chain_def)
    with Cons.IH [of m] Cons.prems n Cons show ?thesis by simp
  qed
qed

section \<open>Scans\<close>

fun visit_all :: "(nat \<Rightarrow> 's \<Rightarrow> 's outcome) \<Rightarrow> nat list \<Rightarrow> 's \<Rightarrow> 's outcome" where
  "visit_all visit [] st = Inr st"
| "visit_all visit (i # is) st = and_then (visit i st) (visit_all visit is)"

locale queue_builder =
  fixes visit :: "nat \<Rightarrow> 's \<Rightarrow> 's outcome"
    and inv :: "'s \<Rightarrow> bool"
    and sel :: "'s \<Rightarrow> nat \<Rightarrow> bool"
    and slot :: "nat \<Rightarrow> addr"
    and nxt :: "'s \<Rightarrow> addr \<Rightarrow> addr"
    and tail :: "'s \<Rightarrow> addr"
    and cnt :: "'s \<Rightarrow> 'c"
    and inc :: "'c \<Rightarrow> 'c"
    and valid :: "nat set"
  assumes slot_inj: "i \<in> valid \<Longrightarrow> j \<in> valid \<Longrightarrow> inv st \<Longrightarrow> sel st i \<Longrightarrow> slot i = slot j \<Longrightarrow> i = j"
    and visit_skip: "i \<in> valid \<Longrightarrow> inv st \<Longrightarrow> \<not> sel st i \<Longrightarrow>
      \<exists>st'. visit i st = Inr st' \<and> inv st' \<and> tail st' = tail st \<and> nxt st' = nxt st \<and>
        cnt st' = cnt st"
    and visit_add: "i \<in> valid \<Longrightarrow> inv st \<Longrightarrow> sel st i \<Longrightarrow> tail st \<noteq> slot i \<Longrightarrow>
      \<exists>st'. visit i st = Inr st' \<and> inv st' \<and> tail st' = slot i \<and> nxt st' (tail st) = slot i \<and>
        cnt st' = inc (cnt st) \<and> (\<forall>a. a \<noteq> tail st \<longrightarrow> a \<noteq> slot i \<longrightarrow> nxt st' a = nxt st a)"
    and sel_stable: "i \<in> valid \<Longrightarrow> j \<in> valid \<Longrightarrow> i \<noteq> j \<Longrightarrow> inv st \<Longrightarrow>
      (sel st i \<longrightarrow> tail st \<noteq> slot i) \<Longrightarrow> visit i st = Inr st' \<Longrightarrow> sel st' j = sel st j"
begin

lemma visit_all_builds:
  assumes "inv st" "distinct is" "set is \<subseteq> valid" "linked (nxt st) (xs @ [tail st])"
    and "distinct (xs @ [tail st])" "\<forall>i \<in> set is. sel st i \<longrightarrow> slot i \<notin> set (xs @ [tail st])"
  shows "\<exists>st'. visit_all visit is st = Inr st' \<and> inv st' \<and>
    cnt st' = (inc ^^ length (filter (sel st) is)) (cnt st) \<and>
    (let q = xs @ [tail st] @ map slot (filter (sel st) is)
     in linked (nxt st') q \<and> distinct q \<and> tail st' = last q)"
  using assms
proof (induction "is" arbitrary: st xs)
  case Nil
  then show ?case by simp
next
  case (Cons i "is")
  have i: "i \<in> valid" "set is \<subseteq> valid" "i \<notin> set is" "distinct is" using Cons.prems by auto
  have t: "sel st i \<longrightarrow> tail st \<noteq> slot i" using Cons.prems(6) by auto
  have stable: "visit i st = Inr st1 \<Longrightarrow> j \<in> set is \<Longrightarrow> sel st1 j = sel st j" for st1 j
    using sel_stable [OF i(1) _ _ Cons.prems(1) t] i by blast
  show ?case
  proof (cases "sel st i")
    case False
    from visit_skip [OF i(1) Cons.prems(1) False] obtain st1 where
      st1: "visit i st = Inr st1" "inv st1" "tail st1 = tail st" "nxt st1 = nxt st" "cnt st1 = cnt st" by blast
    have fl: "filter (sel st1) is = filter (sel st) is" using stable [OF st1(1)] by (auto intro: filter_cong)
    from Cons.IH [OF st1(2) i(4,2), of xs] Cons.prems st1 stable [OF st1(1)] fl False show ?thesis by auto
  next
    case True
    from visit_add [OF i(1) Cons.prems(1) True] t True obtain st1 where
      st1: "visit i st = Inr st1" "inv st1" "tail st1 = slot i" "nxt st1 (tail st) = slot i"
        "\<forall>a. a \<noteq> tail st \<longrightarrow> a \<noteq> slot i \<longrightarrow> nxt st1 a = nxt st a" "cnt st1 = inc (cnt st)" by blast
    have fl: "filter (sel st1) is = filter (sel st) is" using stable [OF st1(1)] by (auto intro: filter_cong)
    have fresh: "slot i \<notin> set (xs @ [tail st])" using Cons.prems(6) True by simp
    have "linked (nxt st1) (xs @ [tail st]) = linked (nxt st) (xs @ [tail st])"
    proof (rule linked_cong)
      fix x assume "x \<in> set (butlast (xs @ [tail st]))"
      then have "x \<in> set xs" by simp
      with fresh Cons.prems(5) have "x \<noteq> tail st" "x \<noteq> slot i" by auto
      with st1(5) show "nxt st1 x = nxt st x" by simp
    qed
    with Cons.prems(4) have "linked (nxt st1) ((xs @ [tail st]) @ [tail st1])"
      using linked_snoc [of "xs @ [tail st]"] st1(3,4) by simp
    moreover have "distinct ((xs @ [tail st]) @ [tail st1])" using Cons.prems(5) fresh st1(3) by auto
    moreover have "slot j \<noteq> slot i" if "j \<in> set is" "sel st1 j" for j
      using slot_inj [of i j st] i that True Cons.prems(1) by auto
    then have "\<forall>j \<in> set is. sel st1 j \<longrightarrow> slot j \<notin> set ((xs @ [tail st]) @ [tail st1])"
      using Cons.prems(6) stable [OF st1(1)] st1(3) by auto
    ultimately show ?thesis
      using Cons.IH [OF st1(2) i(4,2), of "xs @ [tail st]"] st1 fl True by (auto simp: funpow_swap1)
  qed
qed

end

end
