(* ===== verification/Scheduler.thy ===== *)
theory Scheduler
  imports Ipc Chain_Spec
begin

text \<open>
  The scheduler (intake/sched/sched.c) and its queue table (sched/schedq.c). A round builds
  the run queue of processor 0 as a list linked through the \<^verbatim>\<open>next\<close> field of the
  threads, headed by the Init thread, which is also the idle thread. The configured policy is
  round robin; the priority-interleaving policy builds one queue per stage. While it scans the
  thread table the scheduler also carries out what other parts deferred to it: blocking,
  waking, exiting and retiring threads.
\<close>

section \<open>Queue table (schedq.c)\<close>

definition SCHEQ_QUEUE_COUNT_MAX :: nat where "SCHEQ_QUEUE_COUNT_MAX = 7"
definition SCHED_DEFAULT_QUEUE :: int where "SCHED_DEFAULT_QUEUE = 0"
definition SCHED_P1_QUEUE :: int where "SCHED_P1_QUEUE = 1"
definition SCHED_P2_QUEUE :: int where "SCHED_P2_QUEUE = 2"
definition SCHED_P3_QUEUE :: int where "SCHED_P3_QUEUE = 3"
definition SCHED_P4_QUEUE :: int where "SCHED_P4_QUEUE = 4"
definition SCHED_P5_QUEUE :: int where "SCHED_P5_QUEUE = 5"
definition SCHED_P6_QUEUE :: int where "SCHED_P6_QUEUE = 6"

lemmas sched_queue_consts = SCHEQ_QUEUE_COUNT_MAX_def SCHED_DEFAULT_QUEUE_def SCHED_P1_QUEUE_def
  SCHED_P2_QUEUE_def SCHED_P3_QUEUE_def SCHED_P4_QUEUE_def SCHED_P5_QUEUE_def SCHED_P6_QUEUE_def

definition set_currentq :: "addr \<Rightarrow> kstate \<Rightarrow> int \<times> kstate" where
  "set_currentq thread s =
    (if thread = NULL then (-1, s)
     else if \<not> t_used (thr s thread) then (-1, s)
     else if t_magic (thr s thread) \<noteq> 1234 then (-1, s)
     else (0, upd_lapic 0 (\<lambda>l. l\<lparr>l_currentq := thread\<rparr>) s))"

definition get_currentq :: "kstate \<Rightarrow> addr" where
  "get_currentq s = l_currentq (lapic_info s 0)"

text \<open>The source joins the two range tests of the priority queues with \<^verbatim>\<open>||\<close>, so they always hold.\<close>

definition qlist_set_element :: "int \<Rightarrow> addr \<Rightarrow> kstate \<Rightarrow> int \<times> kstate" where
  "qlist_set_element index head_thread s =
    (if index < 0 \<or> int SCHEQ_QUEUE_COUNT_MAX \<le> index then (-1, s)
     else if head_thread = NULL then (-1, s)
     else if index = SCHED_DEFAULT_QUEUE
     then (0, upd_lapic 0 (\<lambda>l. l\<lparr>l_currentq := head_thread\<rparr>)
             (s\<lparr>qList := (qList s)(nat SCHED_DEFAULT_QUEUE := head_thread)\<rparr>))
     else if SCHED_P1_QUEUE \<le> index \<or> index \<le> SCHED_P6_QUEUE
     then (0, s\<lparr>qList := (qList s)(nat index := head_thread)\<rparr>)
     else (-1, s))"

definition qlist_get_element :: "int \<Rightarrow> kstate \<Rightarrow> addr" where
  "qlist_get_element index s =
    (if index < 0 \<or> int SCHEQ_QUEUE_COUNT_MAX \<le> index then NULL
     else if index = SCHED_DEFAULT_QUEUE then qList s (nat SCHED_DEFAULT_QUEUE)
     else if SCHED_P1_QUEUE \<le> index \<or> index \<le> SCHED_P6_QUEUE then qList s (nat index)
     else NULL)"

definition qlist_initialize :: "kstate \<Rightarrow> int \<times> kstate" where
  "qlist_initialize s =
    (0, s\<lparr>qList := (\<lambda>i. if i < SCHEQ_QUEUE_COUNT_MAX then NULL else qList s i)\<rparr>)"

section \<open>Helpers (sched.c)\<close>

definition sched_get_idle_thread_by_tid :: "int \<Rightarrow> kstate \<Rightarrow> int" where
  "sched_get_idle_thread_by_tid cpu_id s =
    (if cpu_id < 0 \<or> NR_CPUS \<le> cpu_id then -1 else l_idle_tid (lapic_info s (nat cpu_id)))"

definition sched_load_balancer :: "kstate \<Rightarrow> kstate" where
  "sched_load_balancer s =
    (let ReadyCount = si_rr_ready_threads_in_round (SchedulerInfo s) in
     if InitThread s = NULL then s
     else if \<not> t_used (thr s (InitThread s)) \<or> t_magic (thr s (InitThread s)) \<noteq> 1234 then s
     else upd_thr (InitThread s) (\<lambda>x. x\<lparr>t_quantum :=
            (if 3 < ReadyCount then QUANTUM_NORMAL_THRESHOLD else QUANTUM_NORMAL_BALANCED)\<rparr>) s)"

definition MSG_NOTIFY_PARENT :: int where "MSG_NOTIFY_PARENT = 89"

definition sched_notify_parent :: "addr \<Rightarrow> int \<Rightarrow> kstate \<Rightarrow> kstate outcome" where
  "sched_notify_parent thread event_number s =
    (if thread = NULL then Inr s
     else if t_magic (thr s thread) \<noteq> 1234 then Inr s
     else let teid = t_tgid (thr s thread) in
       if teid < 0 then Inr s
       else if int PROCESS_COUNT_MAX \<le> teid then Inr s
       else let p_owner = teList s (nat teid) in
         if p_owner = NULL then Inr s
         else if p_magic (tes s p_owner) \<noteq> 1234 then Inr s
         else let parent_pid = p_ppid (tes s p_owner) in
           if parent_pid < 0 then Inr s
           else if int PROCESS_COUNT_MAX \<le> parent_pid then Inr s
           else let p_parent = teList s (nat parent_pid) in
             if p_parent = NULL then Inr s
             else if p_magic (tes s p_parent) \<noteq> 1234 then Inr s
             else let target_thread = p_flower (tes s p_parent) in
               if target_thread = NULL then Inr s
               else if t_magic (thr s target_thread) \<noteq> 1234 then Inr s
               else let Sender = t_tid (thr s thread); Receiver = t_tid (thr s target_thread) in
                 and_then (ipc_post_message_to_tid Sender Receiver MSG_NOTIFY_PARENT
                     (word_of_int Sender) (word_of_int Receiver) s) (\<lambda>(_, s1). Inr s1))"

definition get_init_thread :: "kstate \<Rightarrow> addr" where
  "get_init_thread s = InitThread s"

definition get_next_on_queue_or_the_init_thread :: "addr \<Rightarrow> kstate \<Rightarrow> addr" where
  "get_next_on_queue_or_the_init_thread q s =
    (if q = NULL then InitThread s
     else if \<not> t_used (thr s q) then InitThread s
     else if t_magic (thr s q) \<noteq> 1234 then InitThread s
     else let nxt = t_next (thr s q) in
       if nxt = NULL then InitThread s
       else if \<not> t_used (thr s nxt) then InitThread s
       else if t_magic (thr s nxt) \<noteq> 1234 then InitThread s
       else nxt)"

definition get_ev_responter :: "kstate \<Rightarrow> addr" where
  "get_ev_responter s =
    (if \<not> g_use_event_responder s then NULL
     else if ev_responder_thread s = NULL then NULL
     else if \<not> t_used (thr s (ev_responder_thread s)) then NULL
     else if t_magic (thr s (ev_responder_thread s)) \<noteq> 1234 then NULL
     else ev_responder_thread s)"

definition set_ev_responder :: "addr \<Rightarrow> kstate \<Rightarrow> int \<times> kstate" where
  "set_ev_responder thread s =
    (if thread = NULL then (-1, s)
     else if \<not> t_used (thr s thread) then (-1, s)
     else if t_magic (thr s thread) \<noteq> 1234 then (-1, s)
     else (0, upd_thr thread (\<lambda>x. x\<lparr>t_quantum := QUANTUM_MAX, t_priority := PRIORITY_MAX\<rparr>)
             (s\<lparr>ev_responder_thread := thread\<rparr>)))"

definition has_pending_event :: "addr \<Rightarrow> kstate \<Rightarrow> bool \<times> kstate" where
  "has_pending_event thread s =
    (if thread = NULL then (False, s)
     else if \<not> t_used (thr s thread) then (False, s)
     else if t_magic (thr s thread) \<noteq> 1234 then (False, s)
     else if t_has_pending_event (thr s thread) then (True, s)
     else (False, upd_thr thread (\<lambda>x. x\<lparr>t_has_pending_event := False\<rparr>) s))"

definition scheduler_lock :: "kstate \<Rightarrow> kstate" where
  "scheduler_lock s = s\<lparr>SchedulerInfo := (SchedulerInfo s)\<lparr>si_is_locked := LOCKED\<rparr>\<rparr>"

definition scheduler_unlock :: "kstate \<Rightarrow> kstate" where
  "scheduler_unlock s = s\<lparr>SchedulerInfo := (SchedulerInfo s)\<lparr>si_is_locked := UNLOCKED\<rparr>\<rparr>"

definition is_scheduler_locked :: "kstate \<Rightarrow> lock_state" where
  "is_scheduler_locked s = si_is_locked (SchedulerInfo s)"

abbreviation set_next :: "addr \<Rightarrow> addr \<Rightarrow> kstate \<Rightarrow> kstate" where
  "set_next p q s \<equiv> upd_thr p (\<lambda>x. x\<lparr>t_next := q\<rparr>) s"

definition sched_cut_round :: "addr \<Rightarrow> int \<Rightarrow> kstate \<Rightarrow> kstate" where
  "sched_cut_round last_thread lapic_info_id s =
    (if last_thread = NULL then s
     else if \<not> t_used (thr s last_thread) \<or> t_magic (thr s last_thread) \<noteq> 1234 then s
     else if lapic_info_id < 0 \<or> NR_CPUS \<le> lapic_info_id then s
     else let tid = l_current_tid (lapic_info s (nat lapic_info_id)) in
       if \<not> tid_ok tid then s
       else let Current = thr_at s tid in
         if Current = NULL then s
         else if \<not> t_used (thr s Current) \<or> t_magic (thr s Current) \<noteq> 1234 then s
         else set_next last_thread NULL (set_next Current last_thread s))"

section \<open>Retiring a zombie (sched.c: __on_zombie)\<close>

definition IM_RAW_INPUT :: int where "IM_RAW_INPUT = 1"
definition IM_MESSAGE_INPUT :: int where "IM_MESSAGE_INPUT = 2"

text \<open>A retired thread keeps its slot and waits for reuse under magic 4321.\<close>

definition retire_thread :: "addr \<Rightarrow> kstate \<Rightarrow> kstate" where
  "retire_thread t s = upd_thr t (\<lambda>x. x\<lparr>t_available_for_reuse := True,
     t_state := THREAD_STATE_WAITING_FOR_REUSE, t_used := True, t_magic := 4321\<rparr>) s"

text \<open>
  One slot of the scan that follows: a thread that waits for the zombie is made ready and, when
  it takes input, brought to the foreground; a thread of the same process is retired too.
\<close>

definition on_zombie_visit :: "addr \<Rightarrow> nat \<Rightarrow> kstate \<Rightarrow> kstate" where
  "on_zombie_visit thread ti s =
    (let tmp = threadList s ti in
     if tmp = NULL then s
     else if t_magic (thr s tmp) = 1234 \<and> t_te (thr s tmp) \<noteq> NULL
     then if t_wait4tid (thr s tmp) = t_tid (thr s thread)
          then let s1 = upd_thr tmp (\<lambda>x. x\<lparr>t_state := READY\<rparr>) s in
               if t_input_mode (thr s1 tmp) = IM_RAW_INPUT \<or> t_input_mode (thr s1 tmp) = IM_MESSAGE_INPUT
               then set_foreground_thread (t_tid (thr s1 tmp)) s1 else s1
          else if t_te (thr s thread) \<noteq> NULL \<and> t_te (thr s tmp) = t_te (thr s thread)
          then retire_thread tmp s else s
     else s)"

definition on_zombie :: "addr \<Rightarrow> kstate \<Rightarrow> kstate outcome" where
  "on_zombie thread s =
    (if thread = NULL then Inr s
     else if t_magic (thr s thread) \<noteq> 1234 then Inr s
     else if t_state (thr s thread) \<noteq> ZOMBIE then Inr s
     else if thread = InitThread s then Inl (Panic ''__on_zombie: Can't kill InitThread'')
     else let s1 = (if DisplayServer_initialized s \<and> t_tid (thr s thread) = DisplayServer_tid s
                    then s\<lparr>DisplayServer_initialized := False\<rparr> else s);
              s2 = retire_thread thread s1;
              s3 = fold (on_zombie_visit thread) [0..<THREAD_COUNT_MAX] s2
          in Inr (if t_te (thr s3 thread) \<noteq> NULL
                  then upd_te (t_te (thr s3 thread)) (\<lambda>p. p\<lparr>p_available_for_reuse := True,
                         p_state := PROCESS_STATE_WAITING_FOR_REUSE, p_used := True, p_magic := 4321\<rparr>) s3
                  else s3))"

section \<open>Deferred work on one thread\<close>

text \<open>A thread whose exit was requested becomes a zombie and loses the foreground.\<close>

definition sched_exit :: "addr \<Rightarrow> kstate \<Rightarrow> kstate" where
  "sched_exit t s =
    (let s1 = upd_thr t (\<lambda>x. x\<lparr>t_state := ZOMBIE,
           t_Deferred := (t_Deferred x)\<lparr>exit_in_progress := False\<rparr>\<rparr>) s
     in if t_tid (thr s1 t) = foreground_thread s1 then s1\<lparr>foreground_thread := -1\<rparr> else s1)"

definition sched_alarm :: "addr \<Rightarrow> kstate \<Rightarrow> kstate" where
  "sched_alarm t s =
    (if t_state (thr s t) = WAITING \<and> t_alarm (thr s t) < jiffies s
     then upd_thr t (\<lambda>x. x\<lparr>t_alarm := 0\<rparr>) s else s)"

definition sleep_over :: "kstate \<Rightarrow> addr \<Rightarrow> bool" where
  "sleep_over s t \<longleftrightarrow> sleep_in_progress (t_Deferred (thr s t)) \<and> t_wake_jiffy (thr s t) \<le> jiffies s \<and>
     sleep_phase (t_Deferred (thr s t)) = 2"

definition sched_sleep_check :: "addr \<Rightarrow> kstate \<Rightarrow> kstate" where
  "sched_sleep_check t s =
    (if sleep_over s t
     then upd_thr t (\<lambda>x. x\<lparr>t_Deferred := (t_Deferred x)\<lparr>sleep_in_progress := False, sleep_phase := 0,
            desired_sleep_ms := 0\<rparr>\<rparr>) (do_thread_ready (t_tid (thr s t)) s)
     else s)"

definition wakes_on_event :: "thread_wait_reason_t \<Rightarrow> bool" where
  "wakes_on_event r \<longleftrightarrow> r \<in> {WAIT_REASON_YIELD, WAIT_REASON_PREEMPTED, WAIT_REASON_PRIORITY_BOOST,
     WAIT_REASON_BLOCKED, WAIT_REASON_LOOP}"

text \<open>
  Events, pending joins, pending blocks and exits of the round-robin scan. The first component tells
  whether the scan moves on to the next slot.
\<close>

definition rr_deferred :: "addr \<Rightarrow> addr \<Rightarrow> kstate \<Rightarrow> bool \<times> kstate" where
  "rr_deferred Idle t s =
    (if t_magic (thr s t) \<noteq> 1234 then (False, s)
     else if has_event_from_ds (t_msgctl (thr s t))
     then let s1 = (if t_state (thr s t) \<in> {WAITING, BLOCKED} \<and> wakes_on_event (t_wait_reason (thr s t))
                    then upd_thr t (\<lambda>x. x\<lparr>t_wait_reason := WAIT_REASON_NULL\<rparr>)
                           (do_thread_ready (t_tid (thr s t)) s)
                    else s)
          in (True, upd_thr t (\<lambda>x. x\<lparr>t_msgctl := (t_msgctl x)\<lparr>has_event_from_ds := False\<rparr>\<rparr>) s1)
     else let s1 = (if t_wait4tid_pending (thr s t)
                    then upd_thr t (\<lambda>x. x\<lparr>t_wait4tid_pending := False, t_state := BLOCKED\<rparr>) s else s)
          in if block_in_progress (t_msgctl (thr s1 t))
             then (True, upd_thr t (\<lambda>x. x\<lparr>t_wait_reason := WAIT_REASON_LOOP,
                      t_msgctl := (t_msgctl x)\<lparr>block_in_progress := False\<rparr>\<rparr>)
                    (do_thread_blocked (t_tid (thr s1 t)) s1))
             else if exit_in_progress (t_Deferred (thr s1 t)) \<and> t \<noteq> Idle
             then (True, sched_exit t s1)
             else (False, s1))"

section \<open>The round-robin policy\<close>

definition rr_reset_queues :: "kstate \<Rightarrow> kstate" where
  "rr_reset_queues s = upd_lapic 0 (\<lambda>l. l\<lparr>l_p1q := NULL, l_p2q := NULL, l_p3q := NULL,
     l_p4q := NULL, l_p5q := NULL, l_p6q := NULL, l_currentq := NULL\<rparr>) s"

definition rr_seed_queues :: "addr \<Rightarrow> kstate \<Rightarrow> kstate" where
  "rr_seed_queues Idle s =
    (let s1 = snd (qlist_set_element SCHED_P1_QUEUE Idle (upd_lapic 0 (\<lambda>l. l\<lparr>l_p1q := Idle\<rparr>) s));
         s2 = snd (qlist_set_element SCHED_P2_QUEUE Idle (upd_lapic 0 (\<lambda>l. l\<lparr>l_p2q := Idle\<rparr>) s1));
         s3 = snd (qlist_set_element SCHED_P3_QUEUE Idle (upd_lapic 0 (\<lambda>l. l\<lparr>l_p3q := Idle\<rparr>) s2));
         s4 = snd (qlist_set_element SCHED_P4_QUEUE Idle (upd_lapic 0 (\<lambda>l. l\<lparr>l_p4q := Idle\<rparr>) s3));
         s5 = snd (qlist_set_element SCHED_P5_QUEUE Idle (upd_lapic 0 (\<lambda>l. l\<lparr>l_p5q := Idle\<rparr>) s4));
         s6 = snd (qlist_set_element SCHED_P6_QUEUE Idle (upd_lapic 0 (\<lambda>l. l\<lparr>l_p6q := Idle\<rparr>) s5))
     in upd_lapic 0 (\<lambda>l. l\<lparr>l_currentq := l_p1q l\<rparr>) s6)"

text \<open>What the scan sets in a thread it queues.\<close>

definition rr_refresh :: "addr \<Rightarrow> addr \<Rightarrow> kstate \<Rightarrow> thread_d \<Rightarrow> thread_d" where
  "rr_refresh Idle t s x =
    (let base = (if t_base_priority x < PRIORITY_MIN then PRIORITY_MIN
                 else if PRIORITY_MAX < t_base_priority x then PRIORITY_MAX else t_base_priority x);
         x1 = x\<lparr>t_runningCount := 0, t_runningCount_ms := 0, t_scheduledCount := t_scheduledCount x + 1,
                t_base_priority := base, t_priority := base, t_quantum := QUANTUM_NORMAL_BALANCED\<rparr>;
         x2 = (if t = Idle then x1\<lparr>t_quantum := QUANTUM_NORMAL_BALANCED\<rparr> else x1);
         x3 = (if t_tid x2 = foreground_thread s then x2\<lparr>t_quantum := QUANTUM_NORMAL_BALANCED\<rparr> else x2);
         x4 = (if DisplayServer_initialized s \<and> t_tid x3 = DisplayServer_tid s
               then x3\<lparr>t_quantum := QUANTUM_NORMAL_BALANCED\<rparr> else x3)
     in if 2 \<le> t_credits x4 then x4\<lparr>t_quantum := t_quantum x4 + 1, t_credits := 0\<rparr> else x4)"

definition rr_enqueue :: "addr \<Rightarrow> addr \<Rightarrow> kstate \<Rightarrow> kstate" where
  "rr_enqueue Idle t s =
    (let s1 = upd_thr t (\<lambda>x. x\<lparr>t_preempted := False\<rparr>) s;
         s2 = set_next (l_p1q (lapic_info s1 0)) t s1;
         s3 = upd_lapic 0 (\<lambda>l. l\<lparr>l_p1q := t_next (thr s2 (l_p1q l))\<rparr>) s2
     in upd_thr t (rr_refresh Idle t s3) s3)"

definition rr_visit :: "addr \<Rightarrow> nat \<Rightarrow> int \<times> kstate \<Rightarrow> (int \<times> kstate) outcome" where
  "rr_visit Idle i st = (case st of (ReadyCounter, s) \<Rightarrow>
    (let t = threadList s i in
     if t = NULL then Inr (ReadyCounter, s)
     else case rr_deferred Idle t s of (go_on, s1) \<Rightarrow>
       if go_on then Inr (ReadyCounter, s1)
       else let s2 = (if t_used (thr s1 t) \<and> t_magic (thr s1 t) = 1234 then sched_alarm t s1 else s1);
                s3 = sched_sleep_check t s2
            in if t_used (thr s3 t) \<and> t_magic (thr s3 t) = 1234 \<and> t_state (thr s3 t) = ZOMBIE
               then and_then (on_zombie t s3) (\<lambda>s4. Inr (ReadyCounter, s4))
               else if t_used (thr s3 t) \<and> t_magic (thr s3 t) = 1234 \<and> t_state (thr s3 t) = READY
               then Inr (ReadyCounter + 1, rr_enqueue Idle t s3)
               else Inr (ReadyCounter, s3)))"

text \<open>The end of a round: the ready count, the load balancer, the terminator, the round counter.\<close>

definition rr_finish :: "int \<times> kstate \<Rightarrow> kstate" where
  "rr_finish st = (case st of (ReadyCounter, s) \<Rightarrow>
    (let s1 = s\<lparr>SchedulerInfo := (SchedulerInfo s)\<lparr>si_rr_ready_threads_in_round := ReadyCounter\<rparr>\<rparr>;
         s2 = sched_load_balancer s1;
         s3 = set_next (l_p1q (lapic_info s2 0)) NULL s2
     in s3\<lparr>SchedulerInfo := (SchedulerInfo s3)\<lparr>si_rr_round_counter := si_rr_round_counter (SchedulerInfo s3) + 1\<rparr>\<rparr>))"

definition rr_prepare :: "kstate \<Rightarrow> kstate" where
  "rr_prepare s =
    (let Idle = UP_IdleThread s;
         s1 = upd_thr Idle (\<lambda>x. x\<lparr>t_base_priority := PRIORITY_SYSTEM_THRESHOLD,
                t_priority := PRIORITY_SYSTEM_THRESHOLD, t_quantum := QUANTUM_NORMAL_THRESHOLD\<rparr>) s;
         s2 = rr_seed_queues Idle s1;
         s3 = snd (qlist_set_element SCHED_DEFAULT_QUEUE (l_p1q (lapic_info s2 0)) s2)
     in do_thread_ready (t_tid (thr s3 Idle)) s3)"

definition scheduler_rr :: "kstate \<Rightarrow> (int \<times> kstate) outcome" where
  "scheduler_rr s0 =
    (let s = rr_reset_queues s0; Idle = UP_IdleThread s in
     if \<not> si_initialized (SchedulerInfo s) then Inl (Panic ''__scheduler_rr: Scheduler not initialized'')
     else if si_policy (SchedulerInfo s) \<noteq> SCHED_POLICY_RR then Inl (Panic ''__scheduler_rr: Scheduler policy'')
     else if Idle = NULL then Inl (Panic ''__scheduler_rr: Idle'')
     else if \<not> t_used (thr s Idle) \<or> t_magic (thr s Idle) \<noteq> 1234
     then Inl (Panic ''__scheduler_rr: Idle validation'')
     else if Idle \<noteq> InitThread s then Inl (Panic ''__scheduler_rr: Idle != InitThread'')
     else let FirstTID = t_tid (thr s Idle) in
       if FirstTID \<noteq> INIT_TID then Inl (Panic ''__scheduler_rr: FirstTID'')
       else and_then (visit_all (rr_visit Idle) [nat (INIT_TID + 1)..<THREAD_COUNT_MAX] (0, rr_prepare s))
              (\<lambda>st. Inr (FirstTID, rr_finish st)))"

section \<open>The priority-interleaving policy\<close>

definition stage_quantum :: "u64 \<Rightarrow> u64" where
  "stage_quantum priority =
    (if priority = PRIORITY_P6 then QUANTUM_Q6 else if priority = PRIORITY_P5 then QUANTUM_Q5
     else if priority = PRIORITY_P4 then QUANTUM_Q4 else if priority = PRIORITY_P3 then QUANTUM_Q3
     else if priority = PRIORITY_P2 then QUANTUM_Q2 else if priority = PRIORITY_P1 then QUANTUM_Q1
     else QUANTUM_NORMAL_THRESHOLD)"

definition stage_enqueue :: "u64 \<Rightarrow> addr \<Rightarrow> addr \<Rightarrow> kstate \<Rightarrow> kstate" where
  "stage_enqueue target_quantum tail t s =
    (let s1 = upd_thr t (\<lambda>x. x\<lparr>t_preempted := False, t_next := NULL\<rparr>) s;
         s2 = set_next tail t s1
     in upd_thr t (\<lambda>x. x\<lparr>t_runningCount := 0, t_scheduledCount := t_scheduledCount x + 1,
          t_quantum := (if t \<noteq> InitThread s2 then target_quantum else t_quantum x)\<rparr>) s2)"

definition stage_visit :: "u64 \<Rightarrow> nat \<Rightarrow> addr \<times> kstate \<Rightarrow> (addr \<times> kstate) outcome" where
  "stage_visit priority i st = (case st of (tail, s) \<Rightarrow>
    (let t = threadList s i; Idle = InitThread s in
     if t \<noteq> NULL \<and> t_used (thr s t) \<and> t_magic (thr s t) = 1234
     then let s2 = sched_sleep_check t (sched_alarm t s)
          in if exit_in_progress (t_Deferred (thr s2 t)) \<and> t \<noteq> Idle then Inr (tail, sched_exit t s2)
             else if t_used (thr s2 t) \<and> t_magic (thr s2 t) = 1234 \<and> t_state (thr s2 t) = ZOMBIE
             then and_then (on_zombie t s2) (\<lambda>s3. Inr (tail, s3))
             else if t_priority (thr s2 t) = priority \<and> t_state (thr s2 t) = READY
             then Inr (t, stage_enqueue (stage_quantum priority) tail t s2)
             else Inr (tail, s2)
     else Inr (tail, s)))"

definition build_stage_queue :: "int \<Rightarrow> u64 \<Rightarrow> kstate \<Rightarrow> (addr \<times> kstate) outcome" where
  "build_stage_queue stage priority s =
    (let Idle = InitThread s;
         s1 = (if 0 < stage \<and> stage \<le> 6
               then s\<lparr>stage_selection_count := (stage_selection_count s)
                       (nat stage := stage_selection_count s (nat stage) + 1)\<rparr> else s);
         s2 = upd_thr (InitThread s1) (\<lambda>x. x\<lparr>t_quantum :=
                (if DisplayServer_initialized s1 then QUANTUM_MIN else QUANTUM_MAX)\<rparr>) s1;
         s3 = set_next Idle NULL s2
     in and_then (visit_all (stage_visit priority) [1..<THREAD_COUNT_MAX] (Idle, s3)) (\<lambda>(tail, s4).
          Inr (Idle, set_next tail NULL s4)))"

definition set_stage :: "u64 \<Rightarrow> kstate \<Rightarrow> kstate" where
  "set_stage n s = s\<lparr>SchedulerInfo := (SchedulerInfo s)\<lparr>si_stage := n\<rparr>\<rparr>"

text \<open>Stage 0: every queue is the Init thread alone.\<close>

definition interleaving_stage0 :: "addr \<Rightarrow> kstate \<Rightarrow> kstate" where
  "interleaving_stage0 Init s =
    (let s1 = rr_seed_queues Init (upd_lapic 0 (\<lambda>l. l\<lparr>l_p1q := NULL, l_p2q := NULL, l_p3q := NULL,
                l_p4q := NULL, l_p5q := NULL, l_p6q := NULL\<rparr>) s);
         s2 = set_next (l_currentq (lapic_info s1 0)) NULL s1
     in set_stage 1 (s2\<lparr>stage_selection_count := (stage_selection_count s2)
          (0 := stage_selection_count s2 0 + 1)\<rparr>))"

text \<open>Stages 1 to 6: the queue of one priority becomes the current queue.\<close>

definition interleaving_stage :: "u64 \<Rightarrow> kstate \<Rightarrow> kstate outcome" where
  "interleaving_stage stage s =
    (if stage = 1 then and_then (build_stage_queue 6 PRIORITY_P6 s) (\<lambda>(q, s1).
       Inr (set_stage 2 (upd_lapic 0 (\<lambda>l. l\<lparr>l_p6q := q, l_currentq := q\<rparr>) s1)))
     else if stage = 2 then and_then (build_stage_queue 5 PRIORITY_P5 s) (\<lambda>(q, s1).
       Inr (set_stage 3 (upd_lapic 0 (\<lambda>l. l\<lparr>l_p5q := q, l_currentq := q\<rparr>) s1)))
     else if stage = 3 then and_then (build_stage_queue 4 PRIORITY_P4 s) (\<lambda>(q, s1).
       Inr (set_stage 4 (upd_lapic 0 (\<lambda>l. l\<lparr>l_p4q := q, l_currentq := q\<rparr>) s1)))
     else if stage = 4 then and_then (build_stage_queue 3 PRIORITY_P3 s) (\<lambda>(q, s1).
       Inr (set_stage 5 (upd_lapic 0 (\<lambda>l. l\<lparr>l_p3q := q, l_currentq := q\<rparr>) s1)))
     else if stage = 5 then and_then (build_stage_queue 2 PRIORITY_P2 s) (\<lambda>(q, s1).
       Inr (set_stage 6 (upd_lapic 0 (\<lambda>l. l\<lparr>l_p2q := q, l_currentq := q\<rparr>) s1)))
     else if stage = 6 then and_then (build_stage_queue 1 PRIORITY_P1 s) (\<lambda>(q, s1).
       Inr (set_stage 1 (upd_lapic 0 (\<lambda>l. l\<lparr>l_p1q := q, l_currentq := q\<rparr>) s1)))
     else let Init = InitThread s in
       Inr (set_stage 0 (upd_lapic 0 (\<lambda>l. l\<lparr>l_p1q := Init, l_currentq := Init\<rparr>) (set_next Init NULL s))))"

definition scheduler_priorityinterleaving :: "kstate \<Rightarrow> (int \<times> kstate) outcome" where
  "scheduler_priorityinterleaving s0 =
    (if \<not> si_initialized (SchedulerInfo s0)
     then Inl (Panic ''__scheduler_priorityinterleaving: Scheduler not initialized'')
     else if si_policy (SchedulerInfo s0) \<noteq> SCHED_POLICY_PRIORITY_INTERLEAVING
     then Inl (Panic ''__scheduler_priorityinterleaving: Scheduler policy'')
     else let s = (if si_max_stage (SchedulerInfo s0) < si_stage (SchedulerInfo s0)
                   then set_stage 1 s0 else s0);
              Init = InitThread s
          in if Init = NULL \<or> t_magic (thr s Init) \<noteq> 1234
             then Inl (Panic ''__scheduler_priorityinterleaving: InitThread validation'')
             else if si_stage (SchedulerInfo s) = 0
             then Inr (t_tid (thr s Init), interleaving_stage0 Init s)
             else and_then (interleaving_stage (si_stage (SchedulerInfo s)) s) (\<lambda>s1.
                    Inr (t_tid (thr s1 (l_currentq (lapic_info s1 0))), s1)))"

section \<open>Entry points\<close>

definition scheduler :: "kstate \<Rightarrow> (int \<times> kstate) outcome" where
  "scheduler s =
    (if system_state s \<noteq> SYSTEM_RUNNING then Inl (Panic ''scheduler: system_state'')
     else let s1 = s\<lparr>system_state := SYSTEM_SCHEDULING\<rparr> in
       if UP_threads_counter s1 = 0 then Inl (Panic ''scheduler: UPProcessorBlock.threads_counter == 0'')
       else if \<not> si_initialized (SchedulerInfo s1) then Inl (Panic ''scheduler: SchedulerInfo.initialized'')
       else and_then
         (case si_policy (SchedulerInfo s) of
            SCHED_POLICY_RR \<Rightarrow> scheduler_rr s1
          | SCHED_POLICY_PRIORITY_INTERLEAVING \<Rightarrow> scheduler_priorityinterleaving s1
          | SCHED_POLICY_OTHER _ \<Rightarrow> Inl (Panic ''scheduler: Invalid policy''))
         (\<lambda>(first_tid, s2). let Idle = UP_IdleThread s2 in
            if Idle = NULL then Inl (Panic ''scheduler: Idle'')
            else if t_magic (thr s2 Idle) \<noteq> 1234 then Inl (Panic ''scheduler: Idle validation'')
            else if first_tid \<noteq> t_tid (thr s2 Idle) then Inl (Panic ''scheduler: first_tid != Idle->tid'')
            else Inr (first_tid, s2\<lparr>system_state := SYSTEM_RUNNING\<rparr>)))"

definition psScheduler :: "kstate \<Rightarrow> (int \<times> kstate) outcome" where
  "psScheduler s =
    (if si_is_locked (SchedulerInfo s) = LOCKED then Inr (-1, s)
     else if UP_threads_counter s = 0 then Inl (Panic ''psScheduler: No threads'')
     else scheduler s)"

definition is_active :: "kstate \<Rightarrow> nat \<Rightarrow> bool" where
  "is_active s i \<longleftrightarrow> threadList s i \<noteq> NULL \<and> t_used (thr s (threadList s i)) \<and>
     t_magic (thr s (threadList s i)) = 1234 \<and>
     (t_state (thr s (threadList s i)) = READY \<or> t_state (thr s (threadList s i)) = RUNNING)"

definition sched_count_active_threads :: "kstate \<Rightarrow> u64" where
  "sched_count_active_threads s =
    fold (\<lambda>i Counter. if is_active s i then Counter + 1 else Counter) [0..<THREAD_COUNT_MAX] 0"

definition sched_boost_ds_thread :: "kstate \<Rightarrow> kstate" where
  "sched_boost_ds_thread s =
    (if \<not> DisplayServer_initialized s then s
     else let target_tid = DisplayServer_tid s in
       if \<not> tid_ok target_tid then s
       else let t = thr_at s target_tid in
         if t = NULL then s
         else if \<not> t_used (thr s t) \<or> t_magic (thr s t) \<noteq> 1234 then s
         else upd_thr t (\<lambda>x. x\<lparr>t_quantum := QUANTUM_SYSTEM_TIME_CRITICAL\<rparr>) s)"

definition sched_boost_foreground_thread :: "kstate \<Rightarrow> kstate" where
  "sched_boost_foreground_thread s =
    (let target_tid = foreground_thread s in
     if \<not> tid_ok target_tid then s
     else let t = thr_at s target_tid in
       if t = NULL then s
       else if \<not> t_used (thr s t) \<or> t_magic (thr s t) \<noteq> 1234 then s
       else upd_thr t (\<lambda>x. x\<lparr>t_quantum := QUANTUM_SYSTEM_TIME_CRITICAL\<rparr>) s)"

definition sched_lower_current_thread :: "int \<Rightarrow> kstate \<Rightarrow> kstate" where
  "sched_lower_current_thread lapic_info_id s =
    (if lapic_info_id < 0 \<or> NR_CPUS \<le> lapic_info_id then s
     else let target_tid = l_current_tid (lapic_info s (nat lapic_info_id)) in
       if \<not> tid_ok target_tid then s
       else let t = thr_at s target_tid in
         if t = NULL then s
         else if \<not> t_used (thr s t) \<or> t_magic (thr s t) \<noteq> 1234 then s
         else upd_thr t (\<lambda>x. x\<lparr>t_quantum := QUANTUM_NORMAL_THRESHOLD\<rparr>) s)"

definition sys_nice :: "u64 \<Rightarrow> int \<Rightarrow> kstate \<Rightarrow> kstate" where
  "sys_nice decrement lapic_info_id s =
    (if lapic_info_id < 0 \<or> NR_CPUS \<le> lapic_info_id then s
     else let target_tid = l_current_tid (lapic_info s (nat lapic_info_id)) in
       if decrement = 0 then s
       else if \<not> tid_ok target_tid then s
       else let t = thr_at s target_tid in
         if t = NULL then s
         else if \<not> t_used (thr s t) \<or> t_magic (thr s t) \<noteq> 1234 then s
         else let DesiredPriority = t_priority (thr s t) - decrement;
                  s1 = (if DesiredPriority < t_base_priority (thr s t)
                        then upd_thr t (\<lambda>x. x\<lparr>t_priority := t_base_priority x\<rparr>) s else s)
              in if t_base_priority (thr s1 t) \<le> DesiredPriority
                 then upd_thr t (\<lambda>x. x\<lparr>t_priority := DesiredPriority\<rparr>) s1 else s1)"

definition sys_sleep :: "int \<Rightarrow> u64 \<Rightarrow> kstate \<Rightarrow> kstate" where
  "sys_sleep tid ms s = (if \<not> tid_ok tid then s else if ms = 0 then s else sleep_thread tid ms s)"

definition sys_yield :: "int \<Rightarrow> kstate \<Rightarrow> kstate" where
  "sys_yield tid s = (if \<not> tid_ok tid then s else yield_thread tid s)"

definition init_scheduler :: "u64 \<Rightarrow> kstate \<Rightarrow> int \<times> kstate" where
  "init_scheduler sched_flags s =
    (let s1 = s\<lparr>SchedulerInfo := (SchedulerInfo s)\<lparr>si_initialized := False\<rparr>\<rparr>;
         s2 = snd (qlist_initialize (scheduler_lock s1))
     in (0, s2\<lparr>SchedulerInfo := (SchedulerInfo s2)\<lparr>si_policy := SCHED_POLICY_RR, si_rr_round_counter := 0,
               si_rr_ready_threads_in_round := 0, si_stage := 0, si_max_stage := 6,
               si_flags := sched_flags, si_initialized := True\<rparr>,
             stage_selection_count := (\<lambda>i. if i \<le> 6 then 0 else stage_selection_count s2 i)\<rparr>))"

section \<open>What one visit of the scan changes\<close>

text \<open>A thread the scan neither kills nor retires.\<close>

definition quiet_thread :: "thread_d \<Rightarrow> bool" where
  "quiet_thread x \<longleftrightarrow> t_state x \<noteq> ZOMBIE \<and> \<not> exit_in_progress (t_Deferred x)"

definition sched_step :: "addr \<Rightarrow> kstate \<Rightarrow> kstate \<Rightarrow> bool" where
  "sched_step t s s' \<longleftrightarrow>
    (\<forall>a. a \<noteq> t \<longrightarrow> (\<exists>n. thr s' a = (thr s a)\<lparr>t_next := n\<rparr>)) \<and>
    t_tid (thr s' t) = t_tid (thr s t) \<and> t_used (thr s' t) = t_used (thr s t) \<and>
    t_magic (thr s' t) = t_magic (thr s t) \<and> (quiet_thread (thr s t) \<longrightarrow> quiet_thread (thr s' t)) \<and>
    threadList s' = threadList s \<and> jiffies s' = jiffies s \<and> InitThread s' = InitThread s \<and>
    UP_IdleThread s' = UP_IdleThread s \<and> SchedulerInfo s' = SchedulerInfo s \<and>
    l_currentq (lapic_info s' 0) = l_currentq (lapic_info s 0)"

definition same_queue :: "kstate \<Rightarrow> kstate \<Rightarrow> bool" where
  "same_queue s s' \<longleftrightarrow> (\<forall>a. t_next (thr s' a) = t_next (thr s a)) \<and> lapic_info s' = lapic_info s"

lemma thread_next_collapse: "x\<lparr>t_next := n\<rparr>\<lparr>t_next := m\<rparr> = x\<lparr>t_next := m\<rparr>"
  by simp

lemma thread_next_id: "x\<lparr>t_next := t_next x\<rparr> = x"
  by simp

lemma sched_step_refl [simp]: "sched_step t s s"
  unfolding sched_step_def using thread_next_id by metis

lemma sched_step_trans:
  assumes "sched_step t s s1" "sched_step t s1 s2"
  shows "sched_step t s s2"
proof -
  have "\<exists>n. thr s2 a = (thr s a)\<lparr>t_next := n\<rparr>" if "a \<noteq> t" for a
    using assms that unfolding sched_step_def by (metis thread_next_collapse)
  with assms show ?thesis unfolding sched_step_def by simp
qed

lemma same_queue_refl [simp]: "same_queue s s"
  by (simp add: same_queue_def)

lemma same_queue_trans: "same_queue s s1 \<Longrightarrow> same_queue s1 s2 \<Longrightarrow> same_queue s s2"
  by (simp add: same_queue_def)

lemma sched_step_upd:
  assumes "\<And>x. t_tid (f x) = t_tid x" "\<And>x. t_used (f x) = t_used x" "\<And>x. t_magic (f x) = t_magic x"
    and "\<And>x. quiet_thread x \<Longrightarrow> quiet_thread (f x)"
  shows "sched_step t s (upd_thr t f s)"
proof -
  have "\<exists>n. thr (upd_thr t f s) a = (thr s a)\<lparr>t_next := n\<rparr>" if "a \<noteq> t" for a
    using that by (intro exI [of _ "t_next (thr s a)"]) simp
  with assms show ?thesis unfolding sched_step_def by simp
qed

lemma same_queue_upd: "(\<And>x. t_next (f x) = t_next x) \<Longrightarrow> same_queue s (upd_thr t f s)"
  by (simp add: same_queue_def)

text \<open>In a well-formed table the operations by tid act on the thread they are given for.\<close>

definition own_slot :: "kstate \<Rightarrow> addr \<Rightarrow> bool" where
  "own_slot s t \<longleftrightarrow> tid_ok (t_tid (thr s t)) \<and> thr_at s (t_tid (thr s t)) = t \<and> t \<noteq> NULL"

lemma own_slotI: "wf_threads s \<Longrightarrow> i < THREAD_COUNT_MAX \<Longrightarrow> threadList s i \<noteq> NULL \<Longrightarrow> own_slot s (threadList s i)"
  by (simp add: own_slot_def wf_threads_def tid_ok_def)

lemma do_thread_ready_own:
  "own_slot s t \<Longrightarrow> do_thread_ready (t_tid (thr s t)) s =
    (if t_used (thr s t) \<and> t_magic (thr s t) = 1234
     then upd_thr t (\<lambda>x. x\<lparr>t_ready_jiffy := jiffies s, t_state := READY\<rparr>) s else s)"
  by (simp add: do_thread_ready_def own_slot_def Let_def)

lemma do_thread_blocked_own:
  "own_slot s t \<Longrightarrow> do_thread_blocked (t_tid (thr s t)) s =
    (if t_used (thr s t) \<and> t_magic (thr s t) = 1234
     then upd_thr t (\<lambda>x. x\<lparr>t_blocked_jiffy := jiffies s, t_state := BLOCKED\<rparr>) s else s)"
  by (simp add: do_thread_blocked_def own_slot_def Let_def)

lemma own_slot_step: "sched_step t s s' \<Longrightarrow> own_slot s t \<Longrightarrow> own_slot s' t"
  by (simp add: sched_step_def own_slot_def)

text \<open>A step that also leaves the queue links alone.\<close>

definition local_step :: "addr \<Rightarrow> kstate \<Rightarrow> kstate \<Rightarrow> bool" where
  "local_step t s s' \<longleftrightarrow> sched_step t s s' \<and> same_queue s s'"

lemma local_step_refl [simp]: "local_step t s s"
  by (simp add: local_step_def)

lemma local_step_trans: "local_step t s s1 \<Longrightarrow> local_step t s1 s2 \<Longrightarrow> local_step t s s2"
  unfolding local_step_def by (blast intro: sched_step_trans same_queue_trans)

lemma local_step_upd:
  assumes "\<And>x. t_tid (f x) = t_tid x" "\<And>x. t_used (f x) = t_used x" "\<And>x. t_magic (f x) = t_magic x"
    and "\<And>x. quiet_thread x \<Longrightarrow> quiet_thread (f x)" "\<And>x. t_next (f x) = t_next x"
  shows "local_step t s (upd_thr t f s)"
  unfolding local_step_def using sched_step_upd [of f t s] same_queue_upd [of f s t] assms by blast

lemma local_step_if: "(c \<Longrightarrow> local_step t s s1) \<Longrightarrow> local_step t s (if c then s1 else s)"
  by simp

lemma local_step_own: "local_step t s s' \<Longrightarrow> own_slot s t \<Longrightarrow> own_slot s' t"
  unfolding local_step_def using own_slot_step by blast

lemma local_step_quiet: "local_step t s s' \<Longrightarrow> quiet_thread (thr s t) \<Longrightarrow> quiet_thread (thr s' t)"
  by (simp add: local_step_def sched_step_def)

lemma ready_step:
  assumes "own_slot s t"
  shows "local_step t s (do_thread_ready (t_tid (thr s t)) s)"
  unfolding do_thread_ready_own [OF assms]
  by (rule local_step_if, rule local_step_upd) (simp_all add: quiet_thread_def)

lemma blocked_step:
  assumes "own_slot s t"
  shows "local_step t s (do_thread_blocked (t_tid (thr s t)) s)"
  unfolding do_thread_blocked_own [OF assms]
  by (rule local_step_if, rule local_step_upd) (simp_all add: quiet_thread_def)

lemma alarm_step: "local_step t s (sched_alarm t s)"
  unfolding sched_alarm_def by (rule local_step_if, rule local_step_upd) (simp_all add: quiet_thread_def)

lemma sleep_check_step:
  assumes "own_slot s t"
  shows "local_step t s (sched_sleep_check t s)"
  unfolding sched_sleep_check_def
  by (rule local_step_if, rule local_step_trans [OF ready_step [OF assms]], rule local_step_upd)
    (simp_all add: quiet_thread_def)

lemma event_step:
  assumes "own_slot s t"
  shows "local_step t s
    (if c then upd_thr t (\<lambda>x. x\<lparr>t_wait_reason := r\<rparr>) (do_thread_ready (t_tid (thr s t)) s) else s)"
  by (rule local_step_if, rule local_step_trans [OF ready_step [OF assms]], rule local_step_upd)
    (simp_all add: quiet_thread_def)

lemma join_step:
  "local_step t s (if c then upd_thr t (\<lambda>x. x\<lparr>t_wait4tid_pending := False, t_state := BLOCKED\<rparr>) s else s)"
  by (rule local_step_if, rule local_step_upd) (simp_all add: quiet_thread_def)

lemma deferred_step:
  assumes own: "own_slot s t" and q: "quiet_thread (thr s t)" and d: "rr_deferred Idle t s = (g, s')"
  shows "local_step t s s'"
proof (cases "t_magic (thr s t) = 1234")
  case False
  with d show ?thesis by (simp add: rr_deferred_def)
next
  case m: True
  show ?thesis
  proof (cases "has_event_from_ds (t_msgctl (thr s t))")
    case True
    let ?s1 = "if t_state (thr s t) \<in> {WAITING, BLOCKED} \<and> wakes_on_event (t_wait_reason (thr s t))
        then upd_thr t (\<lambda>x. x\<lparr>t_wait_reason := WAIT_REASON_NULL\<rparr>) (do_thread_ready (t_tid (thr s t)) s) else s"
    have "s' = upd_thr t (\<lambda>x. x\<lparr>t_msgctl := (t_msgctl x)\<lparr>has_event_from_ds := False\<rparr>\<rparr>) ?s1"
      using d m True by (simp add: rr_deferred_def Let_def)
    moreover have "local_step t ?s1 (upd_thr t (\<lambda>x. x\<lparr>t_msgctl := (t_msgctl x)\<lparr>has_event_from_ds := False\<rparr>\<rparr>) ?s1)"
      by (rule local_step_upd) (simp_all add: quiet_thread_def)
    ultimately show ?thesis using event_step [OF own] local_step_trans by metis
  next
    case False
    define s1 where "s1 = (if t_wait4tid_pending (thr s t)
        then upd_thr t (\<lambda>x. x\<lparr>t_wait4tid_pending := False, t_state := BLOCKED\<rparr>) s else s)"
    have s1: "local_step t s s1" unfolding s1_def by (rule join_step)
    have own1: "own_slot s1 t" by (rule local_step_own [OF s1 own])
    have nx: "\<not> exit_in_progress (t_Deferred (thr s1 t))"
      using local_step_quiet [OF s1 q] by (simp add: quiet_thread_def)
    have "(if block_in_progress (t_msgctl (thr s1 t))
        then (True, upd_thr t (\<lambda>x. x\<lparr>t_wait_reason := WAIT_REASON_LOOP,
               t_msgctl := (t_msgctl x)\<lparr>block_in_progress := False\<rparr>\<rparr>)
               (do_thread_blocked (t_tid (thr s1 t)) s1)) else (False, s1)) = (g, s')"
      using d m False nx by (simp only: rr_deferred_def Let_def s1_def [symmetric] simp_thms if_False if_True)
    moreover have "local_step t s1 (upd_thr t (\<lambda>x. x\<lparr>t_wait_reason := WAIT_REASON_LOOP,
               t_msgctl := (t_msgctl x)\<lparr>block_in_progress := False\<rparr>\<rparr>)
               (do_thread_blocked (t_tid (thr s1 t)) s1))"
      by (rule local_step_trans [OF blocked_step [OF own1] local_step_upd]) (simp_all add: quiet_thread_def)
    ultimately show ?thesis using s1 local_step_trans by (auto split: if_splits)
  qed
qed

section \<open>Which threads a round selects\<close>

definition rr_selected :: "kstate \<Rightarrow> nat \<Rightarrow> bool" where
  "rr_selected s i \<longleftrightarrow> threadList s i \<noteq> NULL \<and> t_used (thr s (threadList s i)) \<and>
     t_magic (thr s (threadList s i)) = 1234 \<and>
     \<not> has_event_from_ds (t_msgctl (thr s (threadList s i))) \<and>
     \<not> block_in_progress (t_msgctl (thr s (threadList s i))) \<and>
     (sleep_over s (threadList s i) \<or>
      t_state (thr s (threadList s i)) = READY \<and> \<not> t_wait4tid_pending (thr s (threadList s i)))"

lemma deferred_values:
  assumes "quiet_thread (thr s t)" and "rr_deferred Idle t s = (g, s1)"
  shows "g \<longleftrightarrow> t_magic (thr s t) = 1234 \<and>
      (has_event_from_ds (t_msgctl (thr s t)) \<or> block_in_progress (t_msgctl (thr s t)))"
    and "\<not> g \<Longrightarrow> t_state (thr s1 t) =
      (if t_magic (thr s t) = 1234 \<and> t_wait4tid_pending (thr s t) then BLOCKED else t_state (thr s t)) \<and>
      t_Deferred (thr s1 t) = t_Deferred (thr s t) \<and> t_wake_jiffy (thr s1 t) = t_wake_jiffy (thr s t)"
  using assms by (auto simp: rr_deferred_def quiet_thread_def Let_def split: if_splits)

lemma alarm_values [simp]:
  "t_state (thr (sched_alarm t s) a) = t_state (thr s a)"
  "t_Deferred (thr (sched_alarm t s) a) = t_Deferred (thr s a)"
  "t_wake_jiffy (thr (sched_alarm t s) a) = t_wake_jiffy (thr s a)"
  "t_used (thr (sched_alarm t s) a) = t_used (thr s a)"
  "t_magic (thr (sched_alarm t s) a) = t_magic (thr s a)"
  "t_priority (thr (sched_alarm t s) a) = t_priority (thr s a)"
  "jiffies (sched_alarm t s) = jiffies s"
  by (simp_all add: sched_alarm_def)

lemma alarm_sleep_over [simp]: "sleep_over (sched_alarm t s) a = sleep_over s a"
  by (simp add: sleep_over_def)

lemma sleep_check_values:
  assumes "own_slot s t"
  shows "t_state (thr (sched_sleep_check t s) t) =
      (if sleep_over s t \<and> t_used (thr s t) \<and> t_magic (thr s t) = 1234 then READY else t_state (thr s t))"
    "t_used (thr (sched_sleep_check t s) t) = t_used (thr s t)"
    "t_magic (thr (sched_sleep_check t s) t) = t_magic (thr s t)"
    "t_priority (thr (sched_sleep_check t s) t) = t_priority (thr s t)"
    "exit_in_progress (t_Deferred (thr (sched_sleep_check t s) t)) = exit_in_progress (t_Deferred (thr s t))"
  by (simp_all add: sched_sleep_check_def do_thread_ready_own [OF assms])

lemma local_step_same:
  assumes "local_step t s s1"
  shows "threadList s1 = threadList s" "jiffies s1 = jiffies s" "t_used (thr s1 t) = t_used (thr s t)"
    "t_magic (thr s1 t) = t_magic (thr s t)"
  using assms by (simp_all add: local_step_def sched_step_def)

lemma rr_visit_quiet:
  assumes own: "own_slot s (threadList s i)" and q: "quiet_thread (thr s (threadList s i))"
  shows "\<exists>s3. local_step (threadList s i) s s3 \<and> rr_visit Idle i (n, s) =
    (if rr_selected s i then Inr (n + 1, rr_enqueue Idle (threadList s i) s3) else Inr (n, s3))"
proof -
  let ?t = "threadList s i"
  have nn: "?t \<noteq> NULL" using own by (simp add: own_slot_def)
  obtain g s1 where d: "rr_deferred Idle ?t s = (g, s1)" by (cases "rr_deferred Idle ?t s")
  have l1: "local_step ?t s s1" by (rule deferred_step [OF own q d])
  note v1 = deferred_values [OF q d] and sm1 = local_step_same [OF l1]
  show ?thesis
  proof (cases g)
    case True
    then have "\<not> rr_selected s i" using v1(1) by (auto simp: rr_selected_def)
    with True d l1 nn show ?thesis by (auto simp: rr_visit_def Let_def)
  next
    case False
    define s2 where "s2 = (if t_used (thr s1 ?t) \<and> t_magic (thr s1 ?t) = 1234 then sched_alarm ?t s1 else s1)"
    define s3 where "s3 = sched_sleep_check ?t s2"
    have l2: "local_step ?t s1 s2" unfolding s2_def by (rule local_step_if) (rule alarm_step)
    have own2: "own_slot s2 ?t" using local_step_own own l1 l2 by blast
    have l3: "local_step ?t s2 s3" unfolding s3_def by (rule sleep_check_step [OF own2])
    have l: "local_step ?t s s3" using l1 l2 l3 local_step_trans by blast
    have q3: "t_state (thr s3 ?t) \<noteq> ZOMBIE" using local_step_quiet [OF l q] by (simp add: quiet_thread_def)
    have so: "sleep_over s2 ?t = sleep_over s ?t" and st: "t_state (thr s2 ?t) = t_state (thr s1 ?t)"
      using v1(2) [OF False] sm1 by (simp_all add: s2_def sleep_over_def)
    have "t_used (thr s3 ?t) \<and> t_magic (thr s3 ?t) = 1234 \<and> t_state (thr s3 ?t) = READY \<longleftrightarrow> rr_selected s i"
      unfolding s3_def sleep_check_values [OF own2] so st
      using v1(2) [OF False] v1(1) False nn
        local_step_same [OF l2] sm1 by (auto simp: rr_selected_def)
    moreover have "rr_visit Idle i (n, s) = (if t_used (thr s3 ?t) \<and> t_magic (thr s3 ?t) = 1234 \<and>
        t_state (thr s3 ?t) = READY then Inr (n + 1, rr_enqueue Idle ?t s3) else Inr (n, s3))"
      using d False nn q3 by (simp add: rr_visit_def Let_def flip: s2_def s3_def)
    ultimately show ?thesis using l by auto
  qed
qed

section \<open>The round-robin scan builds a queue\<close>

lemma rr_refresh_values [simp]:
  "t_tid (rr_refresh Idle t s x) = t_tid x" "t_used (rr_refresh Idle t s x) = t_used x"
  "t_magic (rr_refresh Idle t s x) = t_magic x" "t_state (rr_refresh Idle t s x) = t_state x"
  "t_Deferred (rr_refresh Idle t s x) = t_Deferred x" "t_next (rr_refresh Idle t s x) = t_next x"
  "t_MsgQueue (rr_refresh Idle t s x) = t_MsgQueue x" "t_MsgQueueHead (rr_refresh Idle t s x) = t_MsgQueueHead x"
  "t_MsgQueueTail (rr_refresh Idle t s x) = t_MsgQueueTail x"
  by (simp_all add: rr_refresh_def Let_def)

lemma rr_enqueue_values:
  assumes "l_p1q (lapic_info s 0) \<noteq> t"
  shows "sched_step t s (rr_enqueue Idle t s)"
    "l_p1q (lapic_info (rr_enqueue Idle t s) 0) = t"
    "t_next (thr (rr_enqueue Idle t s) (l_p1q (lapic_info s 0))) = t"
    "a \<noteq> l_p1q (lapic_info s 0) \<Longrightarrow> t_next (thr (rr_enqueue Idle t s) a) = t_next (thr s a)"
proof -
  have "\<exists>n. thr (rr_enqueue Idle t s) b = (thr s b)\<lparr>t_next := n\<rparr>" if "b \<noteq> t" for b
  proof (cases "b = l_p1q (lapic_info s 0)")
    case True
    with that have "thr (rr_enqueue Idle t s) b = (thr s b)\<lparr>t_next := t\<rparr>" by (simp add: rr_enqueue_def Let_def)
    then show ?thesis by blast
  next
    case False
    with that have "thr (rr_enqueue Idle t s) b = (thr s b)\<lparr>t_next := t_next (thr s b)\<rparr>"
      by (simp add: rr_enqueue_def Let_def)
    then show ?thesis by blast
  qed
  with assms show "sched_step t s (rr_enqueue Idle t s)"
    by (simp add: sched_step_def) (simp add: rr_enqueue_def Let_def quiet_thread_def)
qed (use assms in \<open>simp_all add: rr_enqueue_def Let_def\<close>)

text \<open>The part of the state a scan keeps, relative to the state it starts in.\<close>

definition scan_inv :: "kstate \<Rightarrow> kstate \<Rightarrow> bool" where
  "scan_inv s0 s \<longleftrightarrow> wf_threads s \<and> threadList s = threadList s0 \<and> InitThread s = InitThread s0 \<and>
     UP_IdleThread s = UP_IdleThread s0 \<and> SchedulerInfo s = SchedulerInfo s0 \<and>
     l_currentq (lapic_info s 0) = l_currentq (lapic_info s0 0) \<and>
     (\<forall>a. t_tid (thr s a) = t_tid (thr s0 a) \<and> t_used (thr s a) = t_used (thr s0 a) \<and>
        t_magic (thr s a) = t_magic (thr s0 a)) \<and>
     (\<forall>i. 1 \<le> i \<longrightarrow> i < THREAD_COUNT_MAX \<longrightarrow> threadList s i \<noteq> NULL \<longrightarrow> quiet_thread (thr s (threadList s i)))"

lemma sched_step_scan_inv:
  assumes "scan_inv s0 s" "sched_step t s s'"
  shows "scan_inv s0 s'"
proof -
  have other: "\<exists>n. thr s' a = (thr s a)\<lparr>t_next := n\<rparr>" if "a \<noteq> t" for a
    using assms(2) that by (simp add: sched_step_def)
  have id: "t_tid (thr s' a) = t_tid (thr s a) \<and> t_used (thr s' a) = t_used (thr s a) \<and>
      t_magic (thr s' a) = t_magic (thr s a)" for a
    using other [of a] assms(2) by (cases "a = t") (auto simp: sched_step_def)
  have q: "quiet_thread (thr s' a)" if "quiet_thread (thr s a)" for a
    using other [of a] assms(2) that by (cases "a = t") (auto simp: sched_step_def quiet_thread_def)
  have L: "threadList s' = threadList s" using assms(2) by (simp add: sched_step_def)
  with id assms(1) have wf: "wf_threads s'" unfolding scan_inv_def wf_threads_def by metis
  have qs: "quiet_thread (thr s' (threadList s' i))"
    if "1 \<le> i" "i < THREAD_COUNT_MAX" "threadList s' i \<noteq> NULL" for i
    using q assms(1) that L unfolding scan_inv_def by metis
  from assms id wf qs show ?thesis unfolding scan_inv_def sched_step_def by metis
qed

lemma sched_step_selected:
  assumes step: "sched_step t s s'" and ne: "threadList s j \<noteq> t"
  shows "rr_selected s' j = rr_selected s j"
proof -
  obtain n where "thr s' (threadList s j) = (thr s (threadList s j))\<lparr>t_next := n\<rparr>"
    using step ne by (auto simp: sched_step_def)
  moreover have "threadList s' = threadList s" "jiffies s' = jiffies s" using step by (simp_all add: sched_step_def)
  ultimately show ?thesis by (simp add: rr_selected_def sleep_over_def)
qed

lemma rr_visit_step:
  assumes inv: "scan_inv s0 s" and i: "1 \<le> i" "i < THREAD_COUNT_MAX"
    and tl: "rr_selected s i \<Longrightarrow> l_p1q (lapic_info s 0) \<noteq> threadList s i"
  shows "\<exists>s'. rr_visit Idle i (n, s) = Inr (if rr_selected s i then n + 1 else n, s') \<and>
    sched_step (threadList s i) s s' \<and>
    (if rr_selected s i
     then l_p1q (lapic_info s' 0) = threadList s i \<and>
          t_next (thr s' (l_p1q (lapic_info s 0))) = threadList s i \<and>
          (\<forall>a. a \<noteq> l_p1q (lapic_info s 0) \<longrightarrow> t_next (thr s' a) = t_next (thr s a))
     else same_queue s s')"
proof (cases "threadList s i = NULL")
  case True
  then show ?thesis by (auto simp: rr_visit_def rr_selected_def)
next
  case False
  let ?t = "threadList s i"
  have wf: "wf_threads s" and q: "quiet_thread (thr s ?t)"
    using inv i False unfolding scan_inv_def by blast+
  have own: "own_slot s ?t" by (rule own_slotI [OF wf i(2) False])
  from rr_visit_quiet [OF own q, of Idle n] obtain s3 where l: "local_step ?t s s3"
    and v: "rr_visit Idle i (n, s) =
      (if rr_selected s i then Inr (n + 1, rr_enqueue Idle ?t s3) else Inr (n, s3))" by blast
  show ?thesis
  proof (cases "rr_selected s i")
    case False
    with l v show ?thesis by (auto simp: local_step_def)
  next
    case sel: True
    have p: "l_p1q (lapic_info s3 0) = l_p1q (lapic_info s 0)" "t_next (thr s3 a) = t_next (thr s a)" for a
      using l by (simp_all add: local_step_def same_queue_def)
    with tl [OF sel] have "l_p1q (lapic_info s3 0) \<noteq> ?t" by simp
    note e = rr_enqueue_values [OF this, where Idle = Idle]
    have "sched_step ?t s (rr_enqueue Idle ?t s3)"
      using l e(1) sched_step_trans by (auto simp: local_step_def)
    with v sel e p show ?thesis by auto
  qed
qed

abbreviation scan_slots :: "nat set" where "scan_slots \<equiv> {1..<THREAD_COUNT_MAX}"

lemma scan_slot_inj:
  assumes "scan_inv s0 s" "i \<in> scan_slots" "j \<in> scan_slots" "threadList s0 i \<noteq> NULL"
    and "threadList s0 i = threadList s0 j"
  shows "i = j"
  using wf_threads_inj [of s i j] assms by (auto simp: scan_inv_def)

interpretation rr: queue_builder "rr_visit Idle" "\<lambda>(n, s). scan_inv s0 s" "\<lambda>(n, s) i. rr_selected s i"
  "threadList s0" "\<lambda>(n, s) a. t_next (thr s a)" "\<lambda>(n, s). l_p1q (lapic_info s 0)" fst "\<lambda>n. n + 1"
  scan_slots for Idle s0
proof
  fix i j and st :: "int \<times> kstate"
  assume "i \<in> scan_slots" "j \<in> scan_slots" "case st of (n, s) \<Rightarrow> scan_inv s0 s"
    "(case st of (n, s) \<Rightarrow> rr_selected s) i" "threadList s0 i = threadList s0 j"
  then show "i = j" using scan_slot_inj by (cases st) (auto simp: rr_selected_def scan_inv_def)
next
  fix i and st :: "int \<times> kstate"
  assume a: "i \<in> scan_slots" "case st of (n, s) \<Rightarrow> scan_inv s0 s" "\<not> (case st of (n, s) \<Rightarrow> rr_selected s) i"
  obtain n s where st: "st = (n, s)" by (cases st)
  have inv: "scan_inv s0 s" and ns: "\<not> rr_selected s i" and i: "1 \<le> i" "i < THREAD_COUNT_MAX"
    using a st by auto
  from rr_visit_step [OF inv i, of Idle n] ns obtain s' where
    "rr_visit Idle i (n, s) = Inr (n, s')" "sched_step (threadList s i) s s'" "same_queue s s'" by auto
  with sched_step_scan_inv [OF inv] st
  show "\<exists>st'. rr_visit Idle i st = Inr st' \<and> (case st' of (n, s) \<Rightarrow> scan_inv s0 s) \<and>
      (case st' of (n, s) \<Rightarrow> l_p1q (lapic_info s 0)) = (case st of (n, s) \<Rightarrow> l_p1q (lapic_info s 0)) \<and>
      (case st' of (n, s) \<Rightarrow> \<lambda>a. t_next (thr s a)) = (case st of (n, s) \<Rightarrow> \<lambda>a. t_next (thr s a)) \<and> fst st' = fst st"
    by (auto simp: same_queue_def)
next
  fix i and st :: "int \<times> kstate"
  assume a: "i \<in> scan_slots" "case st of (n, s) \<Rightarrow> scan_inv s0 s" "(case st of (n, s) \<Rightarrow> rr_selected s) i"
    "(case st of (n, s) \<Rightarrow> l_p1q (lapic_info s 0)) \<noteq> threadList s0 i"
  obtain n s where st: "st = (n, s)" by (cases st)
  have inv: "scan_inv s0 s" and sel: "rr_selected s i" and i: "1 \<le> i" "i < THREAD_COUNT_MAX"
    and ne: "l_p1q (lapic_info s 0) \<noteq> threadList s i" and L: "threadList s = threadList s0"
    using a st by (auto simp: scan_inv_def)
  from rr_visit_step [OF inv i, of Idle n] sel ne obtain s' where
    s': "rr_visit Idle i (n, s) = Inr (n + 1, s')" "sched_step (threadList s i) s s'"
    "l_p1q (lapic_info s' 0) = threadList s i" "t_next (thr s' (l_p1q (lapic_info s 0))) = threadList s i"
    "\<forall>a. a \<noteq> l_p1q (lapic_info s 0) \<longrightarrow> t_next (thr s' a) = t_next (thr s a)" by auto
  have "scan_inv s0 s'" by (rule sched_step_scan_inv [OF inv s'(2)])
  with s' st L show "\<exists>st'. rr_visit Idle i st = Inr st' \<and> (case st' of (n, s) \<Rightarrow> scan_inv s0 s) \<and>
      (case st' of (n, s) \<Rightarrow> l_p1q (lapic_info s 0)) = threadList s0 i \<and>
      (case st' of (n, s) \<Rightarrow> \<lambda>a. t_next (thr s a)) (case st of (n, s) \<Rightarrow> l_p1q (lapic_info s 0)) = threadList s0 i \<and>
      fst st' = fst st + 1 \<and>
      (\<forall>a. a \<noteq> (case st of (n, s) \<Rightarrow> l_p1q (lapic_info s 0)) \<longrightarrow> a \<noteq> threadList s0 i \<longrightarrow>
        (case st' of (n, s) \<Rightarrow> \<lambda>a. t_next (thr s a)) a = (case st of (n, s) \<Rightarrow> \<lambda>a. t_next (thr s a)) a)"
    by auto
next
  fix i j and st st' :: "int \<times> kstate"
  assume a: "i \<in> scan_slots" "j \<in> scan_slots" "i \<noteq> j" "case st of (n, s) \<Rightarrow> scan_inv s0 s"
    "(case st of (n, s) \<Rightarrow> rr_selected s) i \<longrightarrow> (case st of (n, s) \<Rightarrow> l_p1q (lapic_info s 0)) \<noteq> threadList s0 i"
    "rr_visit Idle i st = Inr st'"
  obtain n s m s' where st: "st = (n, s)" "st' = (m, s')" by (cases st; cases st')
  have inv: "scan_inv s0 s" and i: "1 \<le> i" "i < THREAD_COUNT_MAX" and L: "threadList s = threadList s0"
    and ne: "rr_selected s i \<Longrightarrow> l_p1q (lapic_info s 0) \<noteq> threadList s i"
    using a st by (auto simp: scan_inv_def)
  from rr_visit_step [OF inv i, of Idle n] ne a(6) st have step: "sched_step (threadList s i) s s'"
    by (auto split: if_splits)
  have "rr_selected s' j = rr_selected s j"
  proof (cases "threadList s j = threadList s i")
    case True
    with scan_slot_inj [OF inv a(2,1)] a(3) L have "threadList s j = NULL" by auto
    moreover have "threadList s' = threadList s" using step by (simp add: sched_step_def)
    ultimately show ?thesis by (simp add: rr_selected_def)
  next
    case False
    then show ?thesis by (rule sched_step_selected [OF step])
  qed
  with st show "(case st' of (n, s) \<Rightarrow> rr_selected s) j = (case st of (n, s) \<Rightarrow> rr_selected s) j" by simp
qed

section \<open>A whole round\<close>

lemma qlist_set_element_sel [simp]:
  "thr (snd (qlist_set_element i p s)) = thr s" "threadList (snd (qlist_set_element i p s)) = threadList s"
  "jiffies (snd (qlist_set_element i p s)) = jiffies s" "InitThread (snd (qlist_set_element i p s)) = InitThread s"
  "UP_IdleThread (snd (qlist_set_element i p s)) = UP_IdleThread s"
  "SchedulerInfo (snd (qlist_set_element i p s)) = SchedulerInfo s"
  "system_state (snd (qlist_set_element i p s)) = system_state s"
  "i \<noteq> SCHED_DEFAULT_QUEUE \<Longrightarrow> lapic_info (snd (qlist_set_element i p s)) = lapic_info s"
  "l_p1q (lapic_info (snd (qlist_set_element i p s)) n) = l_p1q (lapic_info s n)"
  by (simp_all add: qlist_set_element_def)

lemma rr_seed_queues_sel [simp]:
  "thr (rr_seed_queues p s) = thr s" "threadList (rr_seed_queues p s) = threadList s"
  "jiffies (rr_seed_queues p s) = jiffies s" "InitThread (rr_seed_queues p s) = InitThread s"
  "UP_IdleThread (rr_seed_queues p s) = UP_IdleThread s"
  "SchedulerInfo (rr_seed_queues p s) = SchedulerInfo s"
  "l_p1q (lapic_info (rr_seed_queues p s) 0) = p" "l_currentq (lapic_info (rr_seed_queues p s) 0) = p"
  by (simp_all add: rr_seed_queues_def Let_def sched_queue_consts)

lemma do_thread_ready_sel [simp]:
  "threadList (do_thread_ready tid s) = threadList s" "jiffies (do_thread_ready tid s) = jiffies s"
  "InitThread (do_thread_ready tid s) = InitThread s" "UP_IdleThread (do_thread_ready tid s) = UP_IdleThread s"
  "SchedulerInfo (do_thread_ready tid s) = SchedulerInfo s" "lapic_info (do_thread_ready tid s) = lapic_info s"
  "t_tid (thr (do_thread_ready tid s) a) = t_tid (thr s a)"
  "t_used (thr (do_thread_ready tid s) a) = t_used (thr s a)"
  "t_magic (thr (do_thread_ready tid s) a) = t_magic (thr s a)"
  by (simp_all add: do_thread_ready_def Let_def)

lemma rr_prepare_sel [simp]:
  "threadList (rr_prepare s) = threadList s" "jiffies (rr_prepare s) = jiffies s"
  "InitThread (rr_prepare s) = InitThread s" "UP_IdleThread (rr_prepare s) = UP_IdleThread s"
  "SchedulerInfo (rr_prepare s) = SchedulerInfo s"
  "l_p1q (lapic_info (rr_prepare s) 0) = UP_IdleThread s"
  "t_tid (thr (rr_prepare s) a) = t_tid (thr s a)" "t_used (thr (rr_prepare s) a) = t_used (thr s a)"
  "t_magic (thr (rr_prepare s) a) = t_magic (thr s a)"
  by (simp_all add: rr_prepare_def Let_def)

lemma rr_prepare_currentq:
  "UP_IdleThread s \<noteq> NULL \<Longrightarrow> l_currentq (lapic_info (rr_prepare s) 0) = UP_IdleThread s"
  by (simp add: rr_prepare_def Let_def qlist_set_element_def sched_queue_consts)

text \<open>What a round finds: the scheduler is set up and no thread is a zombie or about to exit.\<close>

definition round_ok :: "kstate \<Rightarrow> bool" where
  "round_ok s \<longleftrightarrow> si_initialized (SchedulerInfo s) \<and> si_policy (SchedulerInfo s) = SCHED_POLICY_RR \<and>
     wf_threads s \<and> thr_ok s (InitThread s) \<and> UP_IdleThread s = InitThread s \<and>
     threadList s 0 = InitThread s \<and>
     (\<forall>i. 1 \<le> i \<longrightarrow> i < THREAD_COUNT_MAX \<longrightarrow> threadList s i \<noteq> NULL \<longrightarrow> quiet_thread (thr s (threadList s i)))"

lemma round_ok_init:
  assumes "round_ok s"
  shows "t_tid (thr s (InitThread s)) = INIT_TID"
    and "1 \<le> i \<Longrightarrow> i < THREAD_COUNT_MAX \<Longrightarrow> threadList s i \<noteq> InitThread s"
proof -
  have wf: "wf_threads s" and z: "threadList s 0 = InitThread s" and nn: "InitThread s \<noteq> NULL"
    using assms by (simp_all add: round_ok_def thr_ok_def)
  have max: "0 < THREAD_COUNT_MAX" by (simp add: THREAD_COUNT_MAX_def)
  show "t_tid (thr s (InitThread s)) = INIT_TID"
    using wf_threads_tid [OF wf max] z nn by (simp add: INIT_TID_def)
  show "threadList s i \<noteq> InitThread s" if "1 \<le> i" "i < THREAD_COUNT_MAX"
    using wf_threads_inj [OF wf max that(2)] z nn that(1) by auto
qed

lemma rr_prepare_other:
  assumes "round_ok s" "a \<noteq> InitThread s"
  shows "thr (rr_prepare s) a = thr s a"
proof -
  have "t_tid (thr s (InitThread s)) = INIT_TID" by (rule round_ok_init [OF assms(1)])
  moreover have "thr_at s INIT_TID = InitThread s" "UP_IdleThread s = InitThread s"
    using assms(1) by (simp_all add: round_ok_def INIT_TID_def)
  ultimately show ?thesis using assms(2) by (simp add: rr_prepare_def Let_def do_thread_ready_def)
qed

lemma rr_prepare_selected:
  assumes "round_ok s" "1 \<le> i" "i < THREAD_COUNT_MAX"
  shows "rr_selected (rr_prepare s) i = rr_selected s i"
  using rr_prepare_other [OF assms(1) round_ok_init(2) [OF assms]]
  by (simp add: rr_selected_def sleep_over_def)

lemma rr_prepare_inv: "round_ok s \<Longrightarrow> scan_inv (rr_prepare s) (rr_prepare s)"
  using rr_prepare_other round_ok_init(2)
  by (simp add: scan_inv_def round_ok_def wf_threads_def)

lemma funpow_add_one: "((\<lambda>n :: int. n + 1) ^^ k) 0 = int k"
  by (induction k) simp_all

lemma rr_finish_sel:
  assumes "p = l_p1q (lapic_info s 0)"
  shows "t_next (thr (rr_finish (n, s)) a) = (if a = p then NULL else t_next (thr s a))"
    "l_currentq (lapic_info (rr_finish (n, s)) 0) = l_currentq (lapic_info s 0)"
    "si_rr_ready_threads_in_round (SchedulerInfo (rr_finish (n, s))) = n"
    "UP_IdleThread (rr_finish (n, s)) = UP_IdleThread s"
    "t_tid (thr (rr_finish (n, s)) a) = t_tid (thr s a)" "t_magic (thr (rr_finish (n, s)) a) = t_magic (thr s a)"
  using assms by (simp_all add: rr_finish_def sched_load_balancer_def Let_def)

text \<open>The slots a round queues, in order, behind the Init thread.\<close>

definition run_queue :: "kstate \<Rightarrow> addr list" where
  "run_queue s = InitThread s # map (threadList s) (filter (rr_selected s) [1..<THREAD_COUNT_MAX])"

lemma scheduler_rr_builds:
  assumes ok: "round_ok s"
  shows "\<exists>s'. scheduler_rr s = Inr (INIT_TID, s') \<and> l_currentq (lapic_info s' 0) = InitThread s \<and>
    chain (\<lambda>a. t_next (thr s' a)) (run_queue s) \<and> distinct (run_queue s) \<and>
    si_rr_ready_threads_in_round (SchedulerInfo s') = int (length (run_queue s) - 1) \<and>
    UP_IdleThread s' = UP_IdleThread s \<and>
    t_tid (thr s' (InitThread s)) = INIT_TID \<and> t_magic (thr s' (InitThread s)) = 1234"
proof -
  let ?r = "rr_reset_queues s"
  let ?Idle = "InitThread s"
  have okr: "round_ok ?r" using ok by (simp add: round_ok_def rr_reset_queues_def thr_ok_def wf_threads_def)
  have sel: "rr_selected ?r = rr_selected s" by (simp add: rr_reset_queues_def rr_selected_def sleep_over_def fun_eq_iff)
  have r: "InitThread ?r = ?Idle" "threadList ?r = threadList s" "UP_IdleThread ?r = ?Idle" "thr ?r = thr s"
    using ok by (simp_all add: rr_reset_queues_def round_ok_def)
  let ?p = "rr_prepare ?r"
  let ?is = "[1..<THREAD_COUNT_MAX]"
  have fl: "filter (rr_selected ?p) ?is = filter (rr_selected s) ?is"
    using rr_prepare_selected [OF okr] sel by (intro filter_cong) auto
  have Idle: "?Idle \<noteq> NULL" using ok by (simp add: round_ok_def thr_ok_def)
  have set_is: "set ?is \<subseteq> scan_slots" by auto
  have fresh: "\<forall>i \<in> set ?is. rr_selected ?p i \<longrightarrow> threadList s i \<noteq> ?Idle"
    using round_ok_init(2) [OF ok] by auto
  have q: "[] @ [l_p1q (lapic_info ?p 0)] @ map (threadList ?p) (filter (rr_selected ?p) ?is) = run_queue s"
    unfolding fl by (simp add: r run_queue_def)
  have "\<exists>st'. visit_all (rr_visit ?Idle) ?is (0, ?p) = Inr st' \<and> (case st' of (n, s) \<Rightarrow> scan_inv ?p s) \<and>
      fst st' = ((\<lambda>n. n + 1) ^^ length (filter (rr_selected ?p) ?is)) 0 \<and>
      (let q = run_queue s in linked (case st' of (n, s) \<Rightarrow> \<lambda>a. t_next (thr s a)) q \<and> distinct q \<and>
        (case st' of (n, s) \<Rightarrow> l_p1q (lapic_info s 0)) = last q)"
    using rr.visit_all_builds [of ?p "(0, ?p)" ?is "[]" ?Idle, unfolded prod.case fst_conv q]
      rr_prepare_inv [OF okr] set_is fresh r by simp
  then obtain n s1 where v: "visit_all (rr_visit ?Idle) ?is (0, ?p) = Inr (n, s1)" and inv: "scan_inv ?p s1"
    and n: "n = int (length (filter (rr_selected s) ?is))"
    and lk: "linked (\<lambda>a. t_next (thr s1 a)) (run_queue s)" and dq: "distinct (run_queue s)"
    and tl: "l_p1q (lapic_info s1 0) = last (run_queue s)"
    unfolding fl funpow_add_one Let_def by (auto split: prod.splits)
  let ?s' = "rr_finish (n, s1)"
  note f = rr_finish_sel [OF refl, of n s1]
  have tid: "t_tid (thr s ?Idle) = INIT_TID" by (rule round_ok_init [OF ok])
  have "scheduler_rr s = Inr (INIT_TID, ?s')"
    using okr v r tid by (simp add: scheduler_rr_def Let_def round_ok_def thr_ok_def INIT_TID_def)
  moreover have "chain (\<lambda>a. t_next (thr ?s' a)) (run_queue s)"
    by (rule chain_terminate [OF lk dq]) (use f(1) tl in \<open>simp_all add: run_queue_def\<close>)
  moreover have "l_currentq (lapic_info ?s' 0) = ?Idle"
    using inv rr_prepare_currentq [of ?r] r Idle f(2) by (simp add: scan_inv_def)
  moreover have "t_tid (thr ?s' ?Idle) = INIT_TID" "t_magic (thr ?s' ?Idle) = 1234"
    using inv f tid r ok by (simp_all add: scan_inv_def round_ok_def thr_ok_def)
  moreover have "UP_IdleThread ?s' = UP_IdleThread s" using inv f(4) r ok by (simp add: scan_inv_def round_ok_def)
  ultimately show ?thesis using dq f(3) n by (auto simp: run_queue_def)
qed

section \<open>The stage scan builds a queue\<close>

definition stage_selected :: "u64 \<Rightarrow> kstate \<Rightarrow> nat \<Rightarrow> bool" where
  "stage_selected priority s i \<longleftrightarrow> thr_ok s (threadList s i) \<and>
     t_priority (thr s (threadList s i)) = priority \<and>
     (sleep_over s (threadList s i) \<or> t_state (thr s (threadList s i)) = READY)"

lemma stage_enqueue_values:
  assumes "tail \<noteq> t"
  shows "sched_step t s (stage_enqueue tq tail t s)"
    "t_next (thr (stage_enqueue tq tail t s) tail) = t"
    "a \<noteq> tail \<Longrightarrow> a \<noteq> t \<Longrightarrow> t_next (thr (stage_enqueue tq tail t s) a) = t_next (thr s a)"
proof -
  have "\<exists>n. thr (stage_enqueue tq tail t s) b = (thr s b)\<lparr>t_next := n\<rparr>" if "b \<noteq> t" for b
  proof (cases "b = tail")
    case True
    with that have "thr (stage_enqueue tq tail t s) b = (thr s b)\<lparr>t_next := t\<rparr>"
      by (simp add: stage_enqueue_def Let_def)
    then show ?thesis by blast
  next
    case False
    with that have "thr (stage_enqueue tq tail t s) b = (thr s b)\<lparr>t_next := t_next (thr s b)\<rparr>"
      by (simp add: stage_enqueue_def Let_def)
    then show ?thesis by blast
  qed
  with assms show "sched_step t s (stage_enqueue tq tail t s)"
    by (simp add: sched_step_def) (simp add: stage_enqueue_def Let_def quiet_thread_def)
qed (use assms in \<open>simp_all add: stage_enqueue_def Let_def\<close>)

lemma stage_visit_step:
  assumes inv: "scan_inv s0 s" and i: "1 \<le> i" "i < THREAD_COUNT_MAX"
    and tl: "stage_selected priority s i \<Longrightarrow> tail \<noteq> threadList s i"
  shows "\<exists>s'. stage_visit priority i (tail, s) =
      Inr (if stage_selected priority s i then threadList s i else tail, s') \<and>
    sched_step (threadList s i) s s' \<and>
    (if stage_selected priority s i
     then t_next (thr s' tail) = threadList s i \<and>
          (\<forall>a. a \<noteq> tail \<longrightarrow> a \<noteq> threadList s i \<longrightarrow> t_next (thr s' a) = t_next (thr s a))
     else same_queue s s')"
proof (cases "thr_ok s (threadList s i)")
  case False
  then show ?thesis by (auto simp: stage_visit_def stage_selected_def thr_ok_def Let_def)
next
  case ok: True
  let ?t = "threadList s i"
  let ?s1 = "sched_alarm ?t s"
  let ?s2 = "sched_sleep_check ?t ?s1"
  have nn: "?t \<noteq> NULL" using ok by (simp add: thr_ok_def)
  have wf: "wf_threads s" and q: "quiet_thread (thr s ?t)"
    using inv i nn unfolding scan_inv_def by blast+
  have own: "own_slot s ?t" by (rule own_slotI [OF wf i(2) nn])
  have own1: "own_slot ?s1 ?t" by (rule local_step_own [OF alarm_step own])
  have l: "local_step ?t s ?s2" by (rule local_step_trans [OF alarm_step sleep_check_step [OF own1]])
  note v = sleep_check_values [OF own1, simplified]
  have "\<not> exit_in_progress (t_Deferred (thr ?s2 ?t))" "t_state (thr ?s2 ?t) \<noteq> ZOMBIE"
    using local_step_quiet [OF l q] by (simp_all add: quiet_thread_def)
  then have vis: "stage_visit priority i (tail, s) =
      (if t_priority (thr ?s2 ?t) = priority \<and> t_state (thr ?s2 ?t) = READY
       then Inr (?t, stage_enqueue (stage_quantum priority) tail ?t ?s2) else Inr (tail, ?s2))"
    using ok by (simp add: stage_visit_def thr_ok_def Let_def)
  have sel: "t_priority (thr ?s2 ?t) = priority \<and> t_state (thr ?s2 ?t) = READY \<longleftrightarrow> stage_selected priority s i"
    using ok by (auto simp: v stage_selected_def thr_ok_def)
  show ?thesis
  proof (cases "stage_selected priority s i")
    case False
    with vis sel l show ?thesis by (auto simp: local_step_def)
  next
    case True
    note e = stage_enqueue_values [OF tl [OF True], where tq = "stage_quantum priority" and s = ?s2]
    have "sched_step ?t s (stage_enqueue (stage_quantum priority) tail ?t ?s2)"
      using l e(1) sched_step_trans by (auto simp: local_step_def)
    moreover have "t_next (thr ?s2 a) = t_next (thr s a)" for a using l by (simp add: local_step_def same_queue_def)
    ultimately show ?thesis using vis sel True e by auto
  qed
qed

lemma sched_step_stage_selected:
  assumes step: "sched_step t s s'" and ne: "threadList s j \<noteq> t"
  shows "stage_selected priority s' j = stage_selected priority s j"
proof -
  obtain n where "thr s' (threadList s j) = (thr s (threadList s j))\<lparr>t_next := n\<rparr>"
    using step ne by (auto simp: sched_step_def)
  moreover have "threadList s' = threadList s" "jiffies s' = jiffies s" using step by (simp_all add: sched_step_def)
  ultimately show ?thesis by (simp add: stage_selected_def sleep_over_def thr_ok_def)
qed

interpretation stage: queue_builder "stage_visit priority" "\<lambda>(p, s). scan_inv s0 s"
  "\<lambda>(p, s) i. stage_selected priority s i" "threadList s0" "\<lambda>(p, s) a. t_next (thr s a)" fst
  "\<lambda>_. ()" id scan_slots for priority s0
proof
  fix i j and st :: "addr \<times> kstate"
  assume "i \<in> scan_slots" "j \<in> scan_slots" "case st of (p, s) \<Rightarrow> scan_inv s0 s"
    "(case st of (p, s) \<Rightarrow> stage_selected priority s) i" "threadList s0 i = threadList s0 j"
  then show "i = j" using scan_slot_inj by (cases st) (auto simp: stage_selected_def thr_ok_def scan_inv_def)
next
  fix i and st :: "addr \<times> kstate"
  assume a: "i \<in> scan_slots" "case st of (p, s) \<Rightarrow> scan_inv s0 s"
    "\<not> (case st of (p, s) \<Rightarrow> stage_selected priority s) i"
  obtain p s where st: "st = (p, s)" by (cases st)
  have inv: "scan_inv s0 s" and ns: "\<not> stage_selected priority s i" and i: "1 \<le> i" "i < THREAD_COUNT_MAX"
    using a st by auto
  from stage_visit_step [OF inv i, of priority p] ns obtain s' where
    "stage_visit priority i (p, s) = Inr (p, s')" "sched_step (threadList s i) s s'" "same_queue s s'" by auto
  with sched_step_scan_inv [OF inv] st
  show "\<exists>st'. stage_visit priority i st = Inr st' \<and> (case st' of (p, s) \<Rightarrow> scan_inv s0 s) \<and>
      fst st' = fst st \<and>
      (case st' of (p, s) \<Rightarrow> \<lambda>a. t_next (thr s a)) = (case st of (p, s) \<Rightarrow> \<lambda>a. t_next (thr s a)) \<and> () = ()"
    by (auto simp: same_queue_def)
next
  fix i and st :: "addr \<times> kstate"
  assume a: "i \<in> scan_slots" "case st of (p, s) \<Rightarrow> scan_inv s0 s"
    "(case st of (p, s) \<Rightarrow> stage_selected priority s) i" "fst st \<noteq> threadList s0 i"
  obtain p s where st: "st = (p, s)" by (cases st)
  have inv: "scan_inv s0 s" and sel: "stage_selected priority s i" and i: "1 \<le> i" "i < THREAD_COUNT_MAX"
    and ne: "p \<noteq> threadList s i" and L: "threadList s = threadList s0"
    using a st by (auto simp: scan_inv_def)
  from stage_visit_step [OF inv i, of priority p] sel ne obtain s' where
    s': "stage_visit priority i (p, s) = Inr (threadList s i, s')" "sched_step (threadList s i) s s'"
    "t_next (thr s' p) = threadList s i"
    "\<forall>a. a \<noteq> p \<longrightarrow> a \<noteq> threadList s i \<longrightarrow> t_next (thr s' a) = t_next (thr s a)" by auto
  have "scan_inv s0 s'" by (rule sched_step_scan_inv [OF inv s'(2)])
  with s' st L show "\<exists>st'. stage_visit priority i st = Inr st' \<and> (case st' of (p, s) \<Rightarrow> scan_inv s0 s) \<and>
      fst st' = threadList s0 i \<and>
      (case st' of (p, s) \<Rightarrow> \<lambda>a. t_next (thr s a)) (fst st) = threadList s0 i \<and> () = id () \<and>
      (\<forall>a. a \<noteq> fst st \<longrightarrow> a \<noteq> threadList s0 i \<longrightarrow>
        (case st' of (p, s) \<Rightarrow> \<lambda>a. t_next (thr s a)) a = (case st of (p, s) \<Rightarrow> \<lambda>a. t_next (thr s a)) a)"
    by auto
next
  fix i j and st st' :: "addr \<times> kstate"
  assume a: "i \<in> scan_slots" "j \<in> scan_slots" "i \<noteq> j" "case st of (p, s) \<Rightarrow> scan_inv s0 s"
    "(case st of (p, s) \<Rightarrow> stage_selected priority s) i \<longrightarrow> fst st \<noteq> threadList s0 i"
    "stage_visit priority i st = Inr st'"
  obtain p s m s' where st: "st = (p, s)" "st' = (m, s')" by (cases st; cases st')
  have inv: "scan_inv s0 s" and i: "1 \<le> i" "i < THREAD_COUNT_MAX" and L: "threadList s = threadList s0"
    and ne: "stage_selected priority s i \<Longrightarrow> p \<noteq> threadList s i"
    using a st by (auto simp: scan_inv_def)
  from stage_visit_step [OF inv i, of priority p] ne a(6) st have step: "sched_step (threadList s i) s s'"
    by (auto split: if_splits)
  have "stage_selected priority s' j = stage_selected priority s j"
  proof (cases "threadList s j = threadList s i")
    case True
    with scan_slot_inj [OF inv a(2,1)] a(3) L have "threadList s j = NULL" by auto
    moreover have "threadList s' = threadList s" using step by (simp add: sched_step_def)
    ultimately show ?thesis by (simp add: stage_selected_def thr_ok_def)
  next
    case False
    then show ?thesis by (rule sched_step_stage_selected [OF step])
  qed
  with st show "(case st' of (p, s) \<Rightarrow> stage_selected priority s) j = (case st of (p, s) \<Rightarrow> stage_selected priority s) j"
    by simp
qed

text \<open>The queue of one priority, behind the Init thread.\<close>

definition stage_queue :: "u64 \<Rightarrow> kstate \<Rightarrow> addr list" where
  "stage_queue priority s =
    InitThread s # map (threadList s) (filter (stage_selected priority s) [1..<THREAD_COUNT_MAX])"

text \<open>What a stage finds: as a round of the other policy, without the policy.\<close>

definition stage_ok :: "kstate \<Rightarrow> bool" where
  "stage_ok s \<longleftrightarrow> wf_threads s \<and> thr_ok s (InitThread s) \<and> threadList s 0 = InitThread s \<and>
     (\<forall>i. 1 \<le> i \<longrightarrow> i < THREAD_COUNT_MAX \<longrightarrow> threadList s i \<noteq> NULL \<longrightarrow> quiet_thread (thr s (threadList s i)))"

lemma stage_ok_init:
  assumes "stage_ok s" "1 \<le> i" "i < THREAD_COUNT_MAX"
  shows "threadList s i \<noteq> InitThread s"
  using wf_threads_inj [of s 0 i] assms by (auto simp: stage_ok_def thr_ok_def THREAD_COUNT_MAX_def)

lemma build_stage_queue_builds:
  assumes ok: "stage_ok s"
  shows "\<exists>s'. build_stage_queue stage priority s = Inr (InitThread s, s') \<and>
    chain (\<lambda>a. t_next (thr s' a)) (stage_queue priority s) \<and> distinct (stage_queue priority s) \<and>
    SchedulerInfo s' = SchedulerInfo s \<and> t_tid (thr s' (InitThread s)) = t_tid (thr s (InitThread s))"
proof -
  let ?Idle = "InitThread s"
  define s1 where "s1 = (if 0 < stage \<and> stage \<le> 6 then s\<lparr>stage_selection_count := (stage_selection_count s)
       (nat stage := stage_selection_count s (nat stage) + 1)\<rparr> else s)"
  define s3 where "s3 = set_next ?Idle NULL (upd_thr (InitThread s1) (\<lambda>x. x\<lparr>t_quantum :=
       (if DisplayServer_initialized s1 then QUANTUM_MIN else QUANTUM_MAX)\<rparr>) s1)"
  have s1: "thr s1 = thr s" "threadList s1 = threadList s" "InitThread s1 = ?Idle" "jiffies s1 = jiffies s"
    "SchedulerInfo s1 = SchedulerInfo s" by (simp_all add: s1_def)
  have s3: "threadList s3 = threadList s" "InitThread s3 = ?Idle" "jiffies s3 = jiffies s"
    "SchedulerInfo s3 = SchedulerInfo s" "\<And>a. a \<noteq> ?Idle \<Longrightarrow> thr s3 a = thr s a"
    "\<And>a. t_tid (thr s3 a) = t_tid (thr s a)" by (simp_all add: s3_def s1)
  let ?is = "[1..<THREAD_COUNT_MAX]"
  have inv: "scan_inv s3 s3"
    using ok s3 stage_ok_init [OF ok] unfolding scan_inv_def stage_ok_def wf_threads_def by simp
  have fl: "filter (stage_selected priority s3) ?is = filter (stage_selected priority s) ?is"
    using stage_ok_init [OF ok] s3
    by (intro filter_cong) (auto simp: stage_selected_def sleep_over_def thr_ok_def)
  have q: "[] @ [?Idle] @ map (threadList s3) (filter (stage_selected priority s3) ?is) = stage_queue priority s"
    unfolding fl by (simp add: s3 stage_queue_def)
  have set_is: "set ?is \<subseteq> scan_slots" by auto
  have fresh: "\<forall>i \<in> set ?is. stage_selected priority s3 i \<longrightarrow> threadList s3 i \<notin> set ([] @ [?Idle])"
    using stage_ok_init [OF ok] s3 by auto
  from stage.visit_all_builds [of s3 "(?Idle, s3)" ?is "[]" priority, unfolded prod.case fst_conv q] inv set_is fresh
  obtain p s4 where v: "visit_all (stage_visit priority) ?is (?Idle, s3) = Inr (p, s4)"
    and inv4: "scan_inv s3 s4" and lk: "linked (\<lambda>a. t_next (thr s4 a)) (stage_queue priority s)"
    and dq: "distinct (stage_queue priority s)" and p: "p = last (stage_queue priority s)"
    unfolding Let_def by (auto split: prod.splits)
  let ?s' = "set_next p NULL s4"
  have b: "build_stage_queue stage priority s = Inr (?Idle, ?s')"
    using v by (simp add: build_stage_queue_def Let_def flip: s1_def s3_def)
  have "chain (\<lambda>a. t_next (thr ?s' a)) (stage_queue priority s)"
    by (rule chain_terminate [OF lk dq]) (use p in \<open>simp_all add: stage_queue_def\<close>)
  moreover have "SchedulerInfo ?s' = SchedulerInfo s" "t_tid (thr ?s' ?Idle) = t_tid (thr s ?Idle)"
    using inv4 s3 by (simp_all add: scan_inv_def)
  ultimately show ?thesis using b dq by blast
qed

section \<open>Retiring a zombie\<close>

text \<open>What the scan after a death does to one other thread.\<close>

definition after_death :: "thread_d \<Rightarrow> thread_d \<Rightarrow> thread_d" where
  "after_death z x =
    (if t_magic x = 1234 \<and> t_te x \<noteq> NULL
     then if t_wait4tid x = t_tid z then x\<lparr>t_state := READY\<rparr>
          else if t_te z \<noteq> NULL \<and> t_te x = t_te z
          then x\<lparr>t_available_for_reuse := True, t_state := THREAD_STATE_WAITING_FOR_REUSE, t_used := True,
                 t_magic := 4321\<rparr>
          else x
     else x)"

lemma after_death_other: "t_magic x \<noteq> 1234 \<Longrightarrow> after_death z x = x"
  by (simp add: after_death_def)

lemma set_foreground_thread_sel [simp]:
  "thr (set_foreground_thread tid s) = thr s" "threadList (set_foreground_thread tid s) = threadList s"
  "tes (set_foreground_thread tid s) = tes s" "InitThread (set_foreground_thread tid s) = InitThread s"
  by (simp_all add: set_foreground_thread_def Let_def)

lemma on_zombie_visit_sel:
  "threadList (on_zombie_visit z i s) = threadList s"
  "thr (on_zombie_visit z i s) a =
     (if a = threadList s i \<and> a \<noteq> NULL then after_death (thr s z) (thr s a) else thr s a)"
  by (simp_all add: on_zombie_visit_def retire_thread_def after_death_def Let_def)

lemma on_zombie_scan:
  assumes "wf_threads s" "t_magic (thr s z) \<noteq> 1234" "distinct is" "set is \<subseteq> {..<THREAD_COUNT_MAX}"
  shows "threadList (fold (on_zombie_visit z) is s) = threadList s \<and>
    thr (fold (on_zombie_visit z) is s) a =
      (if a \<noteq> NULL \<and> a \<in> threadList s ` set is then after_death (thr s z) (thr s a) else thr s a)"
  using assms
proof (induction "is" arbitrary: s)
  case Nil
  then show ?case by simp
next
  case (Cons i "is")
  let ?s1 = "on_zombie_visit z i s"
  have z: "thr ?s1 z = thr s z" using Cons.prems(2) by (auto simp: on_zombie_visit_sel(2) after_death_other)
  have "t_tid (thr ?s1 b) = t_tid (thr s b)" for b by (simp add: on_zombie_visit_sel after_death_def)
  then have wf1: "wf_threads ?s1" using Cons.prems(1) by (simp add: wf_threads_def on_zombie_visit_sel(1))
  have IH: "threadList (fold (on_zombie_visit z) is ?s1) = threadList s \<and>
    thr (fold (on_zombie_visit z) is ?s1) a =
      (if a \<noteq> NULL \<and> a \<in> threadList s ` set is then after_death (thr s z) (thr ?s1 a) else thr ?s1 a)"
    using Cons.IH [OF wf1] Cons.prems z by (simp add: on_zombie_visit_sel(1))
  have "a \<noteq> threadList s i" if "a \<noteq> NULL" "a \<in> threadList s ` set is"
  proof
    assume eq: "a = threadList s i"
    from that(2) obtain j where j: "j \<in> set is" "a = threadList s j" by blast
    with Cons.prems(4) have "i < THREAD_COUNT_MAX" "j < THREAD_COUNT_MAX" by auto
    with wf_threads_inj [OF Cons.prems(1), of i j] j eq that(1) have "i = j" by simp
    with j(1) Cons.prems(3) show False by simp
  qed
  with IH show ?case by (auto simp: on_zombie_visit_sel(2))
qed

text \<open>The state in which the scan starts.\<close>

lemma on_zombie_eq:
  assumes "z \<noteq> NULL" "t_magic (thr s z) = 1234" "t_state (thr s z) = ZOMBIE" "z \<noteq> InitThread s"
  shows "\<exists>s2. thr s2 = thr (retire_thread z s) \<and> threadList s2 = threadList s \<and> tes s2 = tes s \<and>
    on_zombie z s = Inr (let s3 = fold (on_zombie_visit z) [0..<THREAD_COUNT_MAX] s2 in
      if t_te (thr s3 z) \<noteq> NULL
      then upd_te (t_te (thr s3 z)) (\<lambda>p. p\<lparr>p_available_for_reuse := True,
             p_state := PROCESS_STATE_WAITING_FOR_REUSE, p_used := True, p_magic := 4321\<rparr>) s3 else s3)"
proof -
  let ?s1 = "if DisplayServer_initialized s \<and> t_tid (thr s z) = DisplayServer_tid s
    then s\<lparr>DisplayServer_initialized := False\<rparr> else s"
  have "thr (retire_thread z ?s1) = thr (retire_thread z s)" "threadList (retire_thread z ?s1) = threadList s"
    "tes (retire_thread z ?s1) = tes s"
    by (simp_all add: retire_thread_def fun_eq_iff)
  moreover have "on_zombie z s = Inr (let s3 = fold (on_zombie_visit z) [0..<THREAD_COUNT_MAX] (retire_thread z ?s1) in
      if t_te (thr s3 z) \<noteq> NULL
      then upd_te (t_te (thr s3 z)) (\<lambda>p. p\<lparr>p_available_for_reuse := True,
             p_state := PROCESS_STATE_WAITING_FOR_REUSE, p_used := True, p_magic := 4321\<rparr>) s3 else s3)"
    using assms by (simp only: on_zombie_def Let_def if_False simp_thms)
  ultimately show ?thesis by blast
qed

lemma on_zombie_result:
  assumes wf: "wf_threads s" and z: "z \<noteq> NULL" "t_magic (thr s z) = 1234" "t_state (thr s z) = ZOMBIE"
    "z \<noteq> InitThread s"
  shows "\<exists>s'. on_zombie z s = Inr s' \<and> threadList s' = threadList s \<and>
    thr s' z = thr (retire_thread z s) z \<and>
    (\<forall>a. a \<noteq> z \<longrightarrow> thr s' a = (if a \<noteq> NULL \<and> a \<in> threadList s ` {..<THREAD_COUNT_MAX}
       then after_death (thr s z) (thr s a) else thr s a)) \<and>
    (t_te (thr s z) \<noteq> NULL \<longrightarrow> p_magic (tes s' (t_te (thr s z))) = 4321)"
proof -
  from on_zombie_eq [OF z] obtain s2 where s2: "thr s2 = thr (retire_thread z s)" "threadList s2 = threadList s"
    and r: "on_zombie z s = Inr (let s3 = fold (on_zombie_visit z) [0..<THREAD_COUNT_MAX] s2 in
      if t_te (thr s3 z) \<noteq> NULL
      then upd_te (t_te (thr s3 z)) (\<lambda>p. p\<lparr>p_available_for_reuse := True,
             p_state := PROCESS_STATE_WAITING_FOR_REUSE, p_used := True, p_magic := 4321\<rparr>) s3 else s3)"
    by blast
  define s3 where "s3 = fold (on_zombie_visit z) [0..<THREAD_COUNT_MAX] s2"
  have "t_tid (thr s2 a) = t_tid (thr s a)" for a using s2 by (simp add: retire_thread_def)
  then have wf2: "wf_threads s2" using wf s2(2) by (simp add: wf_threads_def)
  have m2: "t_magic (thr s2 z) \<noteq> 1234" using s2 by (simp add: retire_thread_def)
  have sub: "set [0..<THREAD_COUNT_MAX] \<subseteq> {..<THREAD_COUNT_MAX}" by auto
  have scan: "threadList s3 = threadList s"
    "thr s3 a = (if a \<noteq> NULL \<and> a \<in> threadList s ` {..<THREAD_COUNT_MAX}
       then after_death (thr s2 z) (thr s2 a) else thr s2 a)" for a
    using on_zombie_scan [OF wf2 m2 _ sub] s2(2) by (simp_all add: s3_def atLeast0LessThan)
  have ad: "after_death (thr s2 z) x = after_death (thr s z) x" for x
    using s2 by (simp add: retire_thread_def after_death_def)
  have z3: "thr s3 z = thr (retire_thread z s) z"
    using scan(2) [of z] m2 s2 by (simp add: after_death_def)
  have o3: "thr s3 a = (if a \<noteq> NULL \<and> a \<in> threadList s ` {..<THREAD_COUNT_MAX}
       then after_death (thr s z) (thr s a) else thr s a)" if "a \<noteq> z" for a
    using scan(2) [of a] ad s2 that by (simp add: retire_thread_def)
  let ?s' = "if t_te (thr s3 z) \<noteq> NULL
      then upd_te (t_te (thr s3 z)) (\<lambda>p. p\<lparr>p_available_for_reuse := True,
             p_state := PROCESS_STATE_WAITING_FOR_REUSE, p_used := True, p_magic := 4321\<rparr>) s3 else s3"
  have te: "t_te (thr s3 z) = t_te (thr s z)" using z3 by (simp add: retire_thread_def)
  have "on_zombie z s = Inr ?s'" using r by (simp only: Let_def flip: s3_def)
  moreover have "threadList ?s' = threadList s" "thr ?s' = thr s3" using scan(1) by simp_all
  moreover have "t_te (thr s z) \<noteq> NULL \<longrightarrow> p_magic (tes ?s' (t_te (thr s z))) = 4321" using te by simp
  ultimately show ?thesis using z3 o3 by auto
qed

section \<open>Every round keeps the thread table\<close>

text \<open>
  Table, identities and the fixed pointers stay as they are, a well-formed kernel heap and well-formed
  message rings stay well formed, whatever the threads' states are.
\<close>

definition keeps_table :: "kstate \<Rightarrow> kstate \<Rightarrow> bool" where
  "keeps_table s s' \<longleftrightarrow> threadList s' = threadList s \<and> InitThread s' = InitThread s \<and>
     UP_IdleThread s' = UP_IdleThread s \<and> (\<forall>a. t_tid (thr s' a) = t_tid (thr s a)) \<and>
     (heap_inv (heap s) \<longrightarrow> heap_inv (heap s')) \<and> (\<forall>t. msg_ring_ok s t \<longrightarrow> msg_ring_ok s' t)"

lemma keeps_table_refl [simp]: "keeps_table s s"
  by (simp add: keeps_table_def)

lemma keeps_table_trans: "keeps_table s s1 \<Longrightarrow> keeps_table s1 s2 \<Longrightarrow> keeps_table s s2"
  by (simp add: keeps_table_def)

text \<open>What the predicate depends on.\<close>

lemma keeps_table_cong:
  assumes "threadList s'' = threadList s'" "InitThread s'' = InitThread s'" "UP_IdleThread s'' = UP_IdleThread s'"
    "heap s'' = heap s'" "msgs s'' = msgs s'"
    "\<And>a. t_tid (thr s'' a) = t_tid (thr s' a) \<and> t_MsgQueue (thr s'' a) = t_MsgQueue (thr s' a) \<and>
      t_MsgQueueHead (thr s'' a) = t_MsgQueueHead (thr s' a) \<and> t_MsgQueueTail (thr s'' a) = t_MsgQueueTail (thr s' a)"
  shows "keeps_table s s'' = keeps_table s s'"
proof -
  have "msg_ring_ok s'' t = msg_ring_ok s' t" for t using assms(5,6) by (simp add: msg_ring_ok_def)
  with assms show ?thesis by (simp add: keeps_table_def)
qed

lemma keeps_table_upd [simp]:
  "(\<And>x. t_tid (f x) = t_tid x \<and> t_MsgQueue (f x) = t_MsgQueue x \<and> t_MsgQueueHead (f x) = t_MsgQueueHead x \<and>
     t_MsgQueueTail (f x) = t_MsgQueueTail x) \<Longrightarrow> keeps_table s (upd_thr t f s') = keeps_table s s'"
  by (rule keeps_table_cong) simp_all

lemma keeps_table_lapic [simp]: "keeps_table s (upd_lapic n f s') = keeps_table s s'"
  by (rule keeps_table_cong) simp_all

lemma keeps_table_te [simp]: "keeps_table s (upd_te p f s') = keeps_table s s'"
  by (rule keeps_table_cong) simp_all

lemma keeps_table_fields [simp]:
  "keeps_table s (s'\<lparr>SchedulerInfo := v\<rparr>) = keeps_table s s'"
  "keeps_table s (s'\<lparr>foreground_thread := w\<rparr>) = keeps_table s s'"
  "keeps_table s (s'\<lparr>DisplayServer_initialized := b\<rparr>) = keeps_table s s'"
  "keeps_table s (s'\<lparr>system_state := y\<rparr>) = keeps_table s s'"
  "keeps_table s (s'\<lparr>qList := q\<rparr>) = keeps_table s s'"
  "keeps_table s (s'\<lparr>stage_selection_count := c\<rparr>) = keeps_table s s'"
  by (rule keeps_table_cong; simp)+

lemma keeps_table_ready [simp]: "keeps_table s (do_thread_ready tid s') = keeps_table s s'"
  by (simp add: do_thread_ready_def Let_def)

lemma keeps_table_blocked [simp]: "keeps_table s (do_thread_blocked tid s') = keeps_table s s'"
  by (simp add: do_thread_blocked_def Let_def)

lemma keeps_table_foreground [simp]: "keeps_table s (set_foreground_thread tid s') = keeps_table s s'"
  by (simp add: set_foreground_thread_def Let_def)

lemma keeps_table_qlist [simp]: "keeps_table s (snd (qlist_set_element i p s')) = keeps_table s s'"
  by (simp add: qlist_set_element_def)

lemma keeps_table_seed [simp]: "keeps_table s (rr_seed_queues p s') = keeps_table s s'"
  by (simp add: rr_seed_queues_def Let_def)

lemma keeps_table_retire [simp]: "keeps_table s (retire_thread t s') = keeps_table s s'"
  by (simp add: retire_thread_def)

lemma keeps_table_zombie_visit [simp]: "keeps_table s (on_zombie_visit z i s') = keeps_table s s'"
  by (simp add: on_zombie_visit_def Let_def)

lemma keeps_table_zombie_scan: "keeps_table s s' \<Longrightarrow> keeps_table s (fold (on_zombie_visit z) is s')"
  by (induction "is" arbitrary: s') simp_all

lemma keeps_table_on_zombie: "on_zombie z s' = Inr s'' \<Longrightarrow> keeps_table s s' \<Longrightarrow> keeps_table s s''"
  by (auto simp: on_zombie_def Let_def split: if_splits intro!: keeps_table_zombie_scan)

lemma keeps_table_exit [simp]: "keeps_table s (sched_exit t s') = keeps_table s s'"
  by (simp add: sched_exit_def Let_def)

lemma keeps_table_alarm [simp]: "keeps_table s (sched_alarm t s') = keeps_table s s'"
  by (simp add: sched_alarm_def)

lemma keeps_table_sleep [simp]: "keeps_table s (sched_sleep_check t s') = keeps_table s s'"
  by (simp add: sched_sleep_check_def)

lemma keeps_table_deferred: "keeps_table s (snd (rr_deferred Idle t s')) = keeps_table s s'"
  by (simp add: rr_deferred_def Let_def)

lemma keeps_table_enqueue [simp]: "keeps_table s (rr_enqueue Idle t s') = keeps_table s s'"
  by (simp add: rr_enqueue_def Let_def)

lemma keeps_table_stage_enqueue [simp]: "keeps_table s (stage_enqueue tq tail t s') = keeps_table s s'"
  by (simp add: stage_enqueue_def Let_def)

lemma keeps_table_rr_visit:
  assumes "rr_visit Idle i (n, s') = Inr (m, s'')" "keeps_table s s'"
  shows "keeps_table s s''"
proof (cases "rr_deferred Idle (threadList s' i) s'")
  case (Pair g s1)
  with keeps_table_deferred [of s Idle "threadList s' i" s'] assms show ?thesis
    by (auto simp: rr_visit_def Let_def split: if_splits elim!: and_then_InrE intro: keeps_table_on_zombie)
qed

lemma keeps_table_stage_visit:
  assumes "stage_visit priority i (tail, s') = Inr (tail', s'')" "keeps_table s s'"
  shows "keeps_table s s''"
  using assms
  by (auto simp: stage_visit_def Let_def split: if_splits elim!: and_then_InrE intro: keeps_table_on_zombie)

lemma keeps_table_visit_all:
  assumes "visit_all visit is (a, s') = Inr (b, s'')" "keeps_table s s'"
    and "\<And>i a s1 b s2. visit i (a, s1) = Inr (b, s2) \<Longrightarrow> keeps_table s s1 \<Longrightarrow> keeps_table s s2"
  shows "keeps_table s s''"
  using assms(1,2)
proof (induction "is" arbitrary: a s')
  case Nil
  then show ?case by simp
next
  case (Cons i "is")
  from Cons.prems(1) obtain a1 s1 where "visit i (a, s') = Inr (a1, s1)"
    "visit_all visit is (a1, s1) = Inr (b, s'')" by (auto elim!: and_then_InrE)
  with Cons.IH assms(3) Cons.prems(2) show ?case by blast
qed

lemma keeps_table_scheduler_rr:
  assumes "scheduler_rr s = Inr (tid, s')"
  shows "keeps_table s s' \<and> tid = INIT_TID"
proof -
  from assms obtain n s1 where
    v: "visit_all (rr_visit (UP_IdleThread s)) [nat (INIT_TID + 1)..<THREAD_COUNT_MAX]
      (0, rr_prepare (rr_reset_queues s)) = Inr (n, s1)"
    and s': "s' = rr_finish (n, s1)" and tid: "tid = INIT_TID"
    by (auto simp: scheduler_rr_def Let_def rr_reset_queues_def split: if_splits elim!: and_then_InrE)
  have "keeps_table s (rr_prepare (rr_reset_queues s))" by (simp add: rr_prepare_def rr_reset_queues_def Let_def)
  with v have "keeps_table s s1" by (rule keeps_table_visit_all) (rule keeps_table_rr_visit)
  with s' tid show ?thesis by (simp add: rr_finish_def sched_load_balancer_def Let_def)
qed

lemma keeps_table_build_stage:
  assumes "build_stage_queue stage priority s' = Inr (q, s'')" "keeps_table s s'"
  shows "keeps_table s s''"
proof -
  from assms(1) obtain s3 p s4 where v: "visit_all (stage_visit priority) [1..<THREAD_COUNT_MAX] (InitThread s', s3) = Inr (p, s4)"
    and k: "keeps_table s' s3" and r: "s'' = set_next p NULL s4"
    by (auto simp: build_stage_queue_def Let_def elim!: and_then_InrE split: if_splits)
  have "keeps_table s s3" using keeps_table_trans [OF assms(2) k] .
  with v have "keeps_table s s4" by (rule keeps_table_visit_all) (rule keeps_table_stage_visit)
  with r show ?thesis by simp
qed

lemma keeps_table_interleaving_stage:
  assumes "interleaving_stage stage s' = Inr s''" "keeps_table s s'"
  shows "keeps_table s s''"
proof -
  have k: "keeps_table s (set_stage n (upd_lapic 0 f s1))" if "build_stage_queue st pr s' = Inr (q, s1)" for n f st pr q s1
    using keeps_table_build_stage [OF that assms(2)] by (simp add: set_stage_def)
  from assms show ?thesis unfolding interleaving_stage_def
    by (elim if_InrE) (auto simp: Let_def set_stage_def elim!: and_then_InrE dest: keeps_table_build_stage)
qed

lemma keeps_table_interleaving:
  assumes "scheduler_priorityinterleaving s = Inr (tid, s')"
  shows "keeps_table s s'"
proof -
  define s1 where "s1 = (if si_max_stage (SchedulerInfo s) < si_stage (SchedulerInfo s) then set_stage 1 s else s)"
  have k1: "keeps_table s s1" by (simp add: s1_def set_stage_def)
  show ?thesis
  proof (cases "si_stage (SchedulerInfo s1) = 0")
    case True
    with assms have "s' = interleaving_stage0 (InitThread s1) s1"
      by (simp add: scheduler_priorityinterleaving_def Let_def flip: s1_def split: if_splits)
    with k1 show ?thesis by (simp add: interleaving_stage0_def Let_def set_stage_def)
  next
    case False
    with assms have "interleaving_stage (si_stage (SchedulerInfo s1)) s1 = Inr s'"
      by (auto simp: scheduler_priorityinterleaving_def Let_def simp flip: s1_def split: if_splits elim!: and_then_InrE)
    then show ?thesis using k1 by (rule keeps_table_interleaving_stage)
  qed
qed

section \<open>Properties\<close>

lemma scheduler_builds_run_queue_plain:
  assumes "system_state s = SYSTEM_RUNNING" and "UP_threads_counter s \<noteq> 0" and "round_ok s"
  shows "\<exists>s'. scheduler s = Inr (INIT_TID, s') \<and> system_state s' = SYSTEM_RUNNING \<and>
    distinct (run_queue s) \<and>
    walk (\<lambda>a. t_next (thr s' a)) THREAD_COUNT_MAX (get_currentq s') = run_queue s \<and>
    si_rr_ready_threads_in_round (SchedulerInfo s') = int (length (run_queue s) - 1)"
proof -
  let ?s1 = "s\<lparr>system_state := SYSTEM_SCHEDULING\<rparr>"
  have ok1: "round_ok ?s1" using assms(3) by (simp add: round_ok_def wf_threads_def thr_ok_def)
  have q: "run_queue ?s1 = run_queue s"
    by (simp add: run_queue_def rr_selected_def [abs_def] sleep_over_def)
  from scheduler_rr_builds [OF ok1] q obtain s2 where s2: "scheduler_rr ?s1 = Inr (INIT_TID, s2)"
    "l_currentq (lapic_info s2 0) = InitThread s" "chain (\<lambda>a. t_next (thr s2 a)) (run_queue s)"
    "distinct (run_queue s)" "si_rr_ready_threads_in_round (SchedulerInfo s2) = int (length (run_queue s) - 1)"
    "UP_IdleThread s2 = UP_IdleThread s" "t_tid (thr s2 (InitThread s)) = INIT_TID"
    "t_magic (thr s2 (InitThread s)) = 1234" by auto
  let ?s' = "s2\<lparr>system_state := SYSTEM_RUNNING\<rparr>"
  have r: "scheduler s = Inr (INIT_TID, ?s')"
    using assms s2 by (simp add: scheduler_def Let_def round_ok_def thr_ok_def)
  have nn: "NULL \<notin> set (run_queue s)"
    using assms(3) by (auto simp: run_queue_def rr_selected_def round_ok_def thr_ok_def)
  have "length (run_queue s) \<le> THREAD_COUNT_MAX"
    using length_filter_le [of "rr_selected s" "[1..<THREAD_COUNT_MAX]"]
    by (simp add: run_queue_def THREAD_COUNT_MAX_def)
  from chain_walk [OF s2(3) nn this] have "walk (\<lambda>a. t_next (thr ?s' a)) THREAD_COUNT_MAX (get_currentq ?s') = run_queue s"
    using s2(2) by (simp add: get_currentq_def run_queue_def)
  with r s2(4,5) show ?thesis by auto
qed

text \<open>
  Claim C7. A round builds the run queue: when no thread is a zombie or about to exit, the scheduler
  returns the Init thread's tid, the system is running again, and a walk from the current queue
  meets exactly the Init thread followed by the selected threads in slot order, each
  once, and then NULL. Selected are the threads in use with no pending event or block that are
  ready and not about to wait for another thread, or whose sleep is over.
\<close>

theorem scheduler_builds_run_queue:
  assumes "system_state s = SYSTEM_RUNNING" and "UP_threads_counter s \<noteq> 0" and "round_ok s"
  shows "\<exists>s'. scheduler s = Inr (INIT_TID, s') \<and> system_state s' = SYSTEM_RUNNING \<and>
    distinct (run_queue s) \<and>
    walk (\<lambda>a. t_next (thr s' a)) THREAD_COUNT_MAX (get_currentq s') = run_queue s \<and>
    si_rr_ready_threads_in_round (SchedulerInfo s') = int (length (run_queue s) - 1)"
  by (rule scheduler_builds_run_queue_plain [OF assms])

text \<open>A state with two ready threads, one sleeping thread whose time has come and one that waits.\<close>

definition round_kstate :: kstate where
  "round_kstate = sample_kstate\<lparr>
     thr := (thr sample_kstate)(0x4000 := (sample_thread 3 WAITING)\<lparr>
       t_Deferred := \<lparr>sleep_in_progress = True, sleep_phase = 2, desired_sleep_ms = 5,
         exit_in_progress = False, exit_code = 0\<rparr>\<rparr>),
     threadList := (threadList sample_kstate)(3 := 0x4000),
     SchedulerInfo := zero_scheduler_info\<lparr>si_initialized := True\<rparr>, UP_threads_counter := 4\<rparr>"

lemma round_kstate_sel:
  "thr round_kstate = (thr sample_kstate)(0x4000 := (sample_thread 3 WAITING)\<lparr>
       t_Deferred := \<lparr>sleep_in_progress = True, sleep_phase = 2, desired_sleep_ms = 5,
         exit_in_progress = False, exit_code = 0\<rparr>\<rparr>)"
  "threadList round_kstate = (threadList sample_kstate)(3 := 0x4000)"
  "SchedulerInfo round_kstate = zero_scheduler_info\<lparr>si_initialized := True\<rparr>"
  "UP_threads_counter round_kstate = 4" "system_state round_kstate = SYSTEM_RUNNING"
  "InitThread round_kstate = 0x1000" "UP_IdleThread round_kstate = 0x1000" "jiffies round_kstate = 0"
  by (simp_all add: round_kstate_def sample_kstate_def zero_kstate_def)

lemma round_kstate_ok: "round_ok round_kstate"
  by (simp add: round_ok_def round_kstate_sel wf_threads_def thr_ok_def quiet_thread_def zero_scheduler_info_def
      sample_thread_def zero_thread_def zero_deferred_def)

lemma round_kstate_selected: "rr_selected round_kstate i \<longleftrightarrow> i = 1 \<or> i = 3"
  by (auto simp: rr_selected_def round_kstate_sel sleep_over_def sample_thread_def zero_thread_def zero_deferred_def
      zero_msgctl_def split: if_splits)

theorem scheduler_builds_run_queue_witness:
  "\<exists>s'. scheduler round_kstate = Inr (0, s') \<and>
     walk (\<lambda>a. t_next (thr s' a)) THREAD_COUNT_MAX (get_currentq s') = [0x1000, 0x2000, 0x4000]"
proof -
  obtain k where k: "THREAD_COUNT_MAX = 4 + k" by (rule that [of 508]) (simp add: THREAD_COUNT_MAX_def)
  have "[1..<THREAD_COUNT_MAX] = [1..<4] @ [4..<4 + k]" unfolding k by (rule upt_add_eq_append) simp
  also have "[1..<4] = [1, 2, 3 :: nat]" by (simp add: upt_rec)
  finally have "filter (rr_selected round_kstate) [1..<THREAD_COUNT_MAX] = [1, 3]"
    by (simp only: filter_append) (simp add: round_kstate_selected filter_empty_conv)
  then have "run_queue round_kstate = [0x1000, 0x2000, 0x4000]"
    by (simp add: run_queue_def round_kstate_sel)
  then show ?thesis
    using scheduler_builds_run_queue [OF _ _ round_kstate_ok] by (auto simp: round_kstate_sel INIT_TID_def)
qed

lemma psScheduler_keeps:
  assumes "psScheduler s = Inr (tid, s')"
  shows "keeps_table s s' \<and> (if si_is_locked (SchedulerInfo s) = LOCKED then tid = -1 \<and> s' = s
     else tid = t_tid (thr s (UP_IdleThread s)) \<and> system_state s' = SYSTEM_RUNNING)"
proof (cases "si_is_locked (SchedulerInfo s) = LOCKED")
  case True
  with assms show ?thesis by (simp add: psScheduler_def)
next
  case False
  let ?s1 = "s\<lparr>system_state := SYSTEM_SCHEDULING\<rparr>"
  from False assms have sch: "scheduler s = Inr (tid, s')" by (simp add: psScheduler_def split: if_splits)
  from sch obtain s2 where
    p: "(case si_policy (SchedulerInfo s) of SCHED_POLICY_RR \<Rightarrow> scheduler_rr ?s1
        | SCHED_POLICY_PRIORITY_INTERLEAVING \<Rightarrow> scheduler_priorityinterleaving ?s1
        | SCHED_POLICY_OTHER _ \<Rightarrow> Inl (Panic ''scheduler: Invalid policy'')) = Inr (tid, s2)"
    and t: "tid = t_tid (thr s2 (UP_IdleThread s2))" and s': "s' = s2\<lparr>system_state := SYSTEM_RUNNING\<rparr>"
    by (auto simp: scheduler_def Let_def split: if_splits elim!: and_then_InrE)
  have "keeps_table ?s1 s2"
    using p keeps_table_scheduler_rr keeps_table_interleaving by (auto split: sched_policy.splits)
  moreover have "keeps_table s ?s1" by simp
  ultimately have k: "keeps_table s s2" using keeps_table_trans by blast
  then have "tid = t_tid (thr s (UP_IdleThread s))" unfolding t by (simp add: keeps_table_def)
  with False s' k show ?thesis by simp
qed

text \<open>
  Claim C34. Whatever the threads' states, a round that returns keeps the thread table: no slot changes, no
  thread changes its tid, a well-formed table stays well formed; the result is the tid of the
  idle thread and the system is running again. A locked scheduler returns -1 and changes nothing.
\<close>

theorem scheduler_keeps_table:
  assumes "psScheduler s = Inr (tid, s')"
  shows "threadList s' = threadList s \<and> (\<forall>a. t_tid (thr s' a) = t_tid (thr s a)) \<and>
    (wf_threads s \<longrightarrow> wf_threads s') \<and>
    (if si_is_locked (SchedulerInfo s) = LOCKED then tid = -1 \<and> s' = s
     else tid = t_tid (thr s (UP_IdleThread s)) \<and> system_state s' = SYSTEM_RUNNING)"
  using psScheduler_keeps [OF assms] by (auto simp: keeps_table_def wf_threads_def)

theorem scheduler_keeps_table_witness:
  "\<exists>tid s'. psScheduler round_kstate = Inr (tid, s') \<and> wf_threads s' \<and> tid = 0"
proof -
  have "psScheduler round_kstate = scheduler round_kstate"
    by (simp add: psScheduler_def round_kstate_sel zero_scheduler_info_def)
  then obtain s' where s': "psScheduler round_kstate = Inr (INIT_TID, s')"
    using scheduler_builds_run_queue_plain [OF _ _ round_kstate_ok] by (auto simp: round_kstate_sel)
  have "wf_threads round_kstate" using round_kstate_ok by (simp add: round_ok_def)
  with scheduler_keeps_table [OF s'] s' show ?thesis by (auto simp: INIT_TID_def)
qed

lemma stage_cases: "1 \<le> (k :: u64) \<Longrightarrow> k \<le> 6 \<Longrightarrow> k = 1 \<or> k = 2 \<or> k = 3 \<or> k = 4 \<or> k = 5 \<or> k = 6"
proof -
  assume "1 \<le> k" "k \<le> 6"
  then have "1 \<le> unat k" "unat k \<le> 6" by (simp_all add: unat_le_iff)
  then have "unat k \<in> {1, 2, 3, 4, 5, 6}" by auto
  moreover have "unat k = n \<longleftrightarrow> k = of_nat n" if "n \<in> {1, 2, 3, 4, 5, 6}" for n
    using that by (auto simp: word_unat_eq_iff)
  ultimately show ?thesis by auto
qed

text \<open>
  Claim C18. Priority interleaving: in stage k of 1 to 6, when no thread is a zombie or about to exit, the
  current queue becomes the Init thread followed by the ready threads of priority 7 - k in
  slot order, terminated by NULL, and the next stage is k + 1, or 1 after stage 6: every
  priority gets its turn once in six rounds.
\<close>

theorem interleaving_serves_stage:
  assumes "si_initialized (SchedulerInfo s)" and "si_policy (SchedulerInfo s) = SCHED_POLICY_PRIORITY_INTERLEAVING"
    and k: "si_stage (SchedulerInfo s) = k" "1 \<le> k" "k \<le> 6" "si_max_stage (SchedulerInfo s) = 6"
    and ok: "stage_ok s"
  shows "\<exists>s'. scheduler_priorityinterleaving s = Inr (t_tid (thr s (InitThread s)), s') \<and>
    get_currentq s' = InitThread s \<and> chain (\<lambda>a. t_next (thr s' a)) (stage_queue (7 - k) s) \<and>
    distinct (stage_queue (7 - k) s) \<and> si_stage (SchedulerInfo s') = (if k = 6 then 1 else k + 1)"
proof -
  have init: "InitThread s \<noteq> NULL" "t_magic (thr s (InitThread s)) = 1234"
    using ok by (simp_all add: stage_ok_def thr_ok_def)
  have "\<exists>s'. interleaving_stage k s = Inr s' \<and> l_currentq (lapic_info s' 0) = InitThread s \<and>
      chain (\<lambda>a. t_next (thr s' a)) (stage_queue (7 - k) s) \<and> distinct (stage_queue (7 - k) s) \<and>
      t_tid (thr s' (InitThread s)) = t_tid (thr s (InitThread s)) \<and>
      si_stage (SchedulerInfo s') = (if k = 6 then 1 else k + 1)"
    using stage_cases [OF k(2,3)]
      build_stage_queue_builds [OF ok, of 6 "PRIORITY_P6"] build_stage_queue_builds [OF ok, of 5 "PRIORITY_P5"]
      build_stage_queue_builds [OF ok, of 4 "PRIORITY_P4"] build_stage_queue_builds [OF ok, of 3 "PRIORITY_P3"]
      build_stage_queue_builds [OF ok, of 2 "PRIORITY_P2"] build_stage_queue_builds [OF ok, of 1 "PRIORITY_P1"]
    by (elim disjE) (auto simp: interleaving_stage_def set_stage_def prio_defs)
  then obtain s' where s': "interleaving_stage k s = Inr s'" "l_currentq (lapic_info s' 0) = InitThread s"
      "chain (\<lambda>a. t_next (thr s' a)) (stage_queue (7 - k) s)" "distinct (stage_queue (7 - k) s)"
      "t_tid (thr s' (InitThread s)) = t_tid (thr s (InitThread s))"
      "si_stage (SchedulerInfo s') = (if k = 6 then 1 else k + 1)" by blast
  have "k \<noteq> 0" "\<not> 6 < k" using k(2,3) by auto
  then have "scheduler_priorityinterleaving s = Inr (t_tid (thr s (InitThread s)), s')"
    using assms s' init k by (simp add: scheduler_priorityinterleaving_def Let_def)
  with s' show ?thesis by (auto simp: get_currentq_def)
qed

definition stage_kstate :: kstate where
  "stage_kstate = round_kstate\<lparr>SchedulerInfo := zero_scheduler_info\<lparr>si_initialized := True,
     si_policy := SCHED_POLICY_PRIORITY_INTERLEAVING, si_stage := 5, si_max_stage := 6\<rparr>\<rparr>"

lemma stage_kstate_ok: "stage_ok stage_kstate"
  using round_kstate_ok by (simp add: round_ok_def stage_ok_def stage_kstate_def wf_threads_def thr_ok_def)

theorem interleaving_serves_stage_witness:
  "\<exists>s'. scheduler_priorityinterleaving stage_kstate = Inr (0, s') \<and>
     si_stage (SchedulerInfo s') = 6 \<and> chain (\<lambda>a. t_next (thr s' a)) (stage_queue PRIORITY_P2 stage_kstate)"
proof -
  have i: "InitThread stage_kstate = 0x1000" "t_tid (thr stage_kstate 0x1000) = 0"
    by (simp_all add: stage_kstate_def round_kstate_sel)
  have "SchedulerInfo stage_kstate = zero_scheduler_info\<lparr>si_initialized := True,
     si_policy := SCHED_POLICY_PRIORITY_INTERLEAVING, si_stage := 5, si_max_stage := 6\<rparr>"
    by (simp add: stage_kstate_def)
  with interleaving_serves_stage [of stage_kstate 5, OF _ _ _ _ _ _ stage_kstate_ok] i show ?thesis
    by (auto simp: prio_defs)
qed

text \<open>
  Claim C29. A zombie is retired together with its process: handling a zombie other than Init marks it for
  reuse under magic 4321 and marks its process the same way; every thread in the table
  that waits for it becomes ready; every other thread of its process is retired too; all
  other threads are left alone.
\<close>

theorem zombie_is_retired:
  assumes "wf_threads s" and "thr_ok s z" and "t_state (thr s z) = ZOMBIE" and "z \<noteq> InitThread s"
  shows "\<exists>s'. on_zombie z s = Inr s' \<and> t_magic (thr s' z) = 4321 \<and>
    t_state (thr s' z) = THREAD_STATE_WAITING_FOR_REUSE \<and>
    (t_te (thr s z) \<noteq> NULL \<longrightarrow> p_magic (tes s' (t_te (thr s z))) = 4321) \<and>
    (\<forall>i < THREAD_COUNT_MAX. threadList s i \<noteq> z \<longrightarrow> thr_ok s (threadList s i) \<longrightarrow> t_te (thr s (threadList s i)) \<noteq> NULL \<longrightarrow>
      (if t_wait4tid (thr s (threadList s i)) = t_tid (thr s z)
       then thr s' (threadList s i) = (thr s (threadList s i))\<lparr>t_state := READY\<rparr>
       else if t_te (thr s (threadList s i)) = t_te (thr s z)
       then t_magic (thr s' (threadList s i)) = 4321 \<and> t_state (thr s' (threadList s i)) = THREAD_STATE_WAITING_FOR_REUSE
       else thr s' (threadList s i) = thr s (threadList s i)))"
proof -
  from on_zombie_result [OF assms(1) _ _ assms(3,4)] assms(2) obtain s' where
    r: "on_zombie z s = Inr s'" "thr s' z = thr (retire_thread z s) z"
    "\<forall>a. a \<noteq> z \<longrightarrow> thr s' a = (if a \<noteq> NULL \<and> a \<in> threadList s ` {..<THREAD_COUNT_MAX}
       then after_death (thr s z) (thr s a) else thr s a)"
    "t_te (thr s z) \<noteq> NULL \<longrightarrow> p_magic (tes s' (t_te (thr s z))) = 4321"
    by (auto simp: thr_ok_def)
  have "thr s' (threadList s i) = after_death (thr s z) (thr s (threadList s i))"
    if "i < THREAD_COUNT_MAX" "threadList s i \<noteq> z" "thr_ok s (threadList s i)" for i
    using r(3) that by (auto simp: thr_ok_def)
  then show ?thesis using r by (auto simp: retire_thread_def after_death_def thr_ok_def)
qed

definition zombie_kstate :: kstate where
  "zombie_kstate = sample_kstate\<lparr>
     thr := (thr sample_kstate)(0x2000 := (sample_thread 1 ZOMBIE)\<lparr>t_te := 0x9000\<rparr>,
       0x3000 := (sample_thread 2 BLOCKED)\<lparr>t_te := 0x9100, t_wait4tid := 1\<rparr>)\<rparr>"

theorem zombie_is_retired_witness:
  "\<exists>s'. on_zombie 0x2000 zombie_kstate = Inr s' \<and> t_magic (thr s' 0x2000) = 4321 \<and>
     t_state (thr s' 0x3000) = READY"
proof -
  have z: "thr zombie_kstate = (thr sample_kstate)(0x2000 := (sample_thread 1 ZOMBIE)\<lparr>t_te := 0x9000\<rparr>,
       0x3000 := (sample_thread 2 BLOCKED)\<lparr>t_te := 0x9100, t_wait4tid := 1\<rparr>)"
    "threadList zombie_kstate = threadList sample_kstate" "InitThread zombie_kstate = 0x1000"
    by (simp_all add: zombie_kstate_def)
  have wf: "wf_threads zombie_kstate" by (simp add: wf_threads_def z)
  have ok: "thr_ok zombie_kstate 0x2000" "t_state (thr zombie_kstate 0x2000) = ZOMBIE"
    by (simp_all add: thr_ok_def z)
  have "(2 :: nat) < THREAD_COUNT_MAX" by (simp add: THREAD_COUNT_MAX_def)
  with zombie_is_retired [OF wf ok] show ?thesis by (fastforce simp: z thr_ok_def)
qed

text \<open>
  \<^verbatim>\<open>sys_nice\<close> lowers the priority of the current thread, down to its base priority, when the
  decrement is at most the priority. A larger decrement wraps around: a thread of priority
  2 that asks for 3 less obtains the largest unsigned long as its priority, far above the maximum.
\<close>

theorem sys_nice_priority:
  assumes "0 \<le> cpu" "cpu < NR_CPUS" "current_valid s (nat cpu)" "decrement \<noteq> 0"
  defines "t \<equiv> thr_at s (l_current_tid (lapic_info s (nat cpu)))"
  shows "t_priority (thr (sys_nice decrement cpu s) t) =
      max (t_base_priority (thr s t)) (t_priority (thr s t) - decrement) \<and>
    (decrement \<le> t_priority (thr s t) \<longrightarrow> t_base_priority (thr s t) \<le> t_priority (thr s t) \<longrightarrow>
      t_priority (thr (sys_nice decrement cpu s) t) \<le> t_priority (thr s t)) \<and>
    (t_priority (thr s t) = PRIORITY_P2 \<longrightarrow> decrement = 3 \<longrightarrow>
      PRIORITY_MAX < t_priority (thr (sys_nice decrement cpu s) t))"
proof -
  have "tid_ok (l_current_tid (lapic_info s (nat cpu)))" "thr_ok s t"
    using assms(3) by (simp_all add: current_valid_def t_def)
  then have p: "t_priority (thr (sys_nice decrement cpu s) t) =
      max (t_base_priority (thr s t)) (t_priority (thr s t) - decrement)"
    using assms(1,2,4)
    by (auto simp: sys_nice_def thr_ok_def max_def Let_def simp flip: t_def)
  moreover have "PRIORITY_MAX < PRIORITY_P2 - 3" by (simp add: prio_defs)
  moreover have "t_priority (thr s t) - decrement \<le> t_priority (thr s t)" if "decrement \<le> t_priority (thr s t)"
    using that by (simp add: word_le_nat_alt unat_sub)
  ultimately show ?thesis by (auto simp: max_def)
qed

theorem sys_nice_priority_witness:
  "t_priority (thr (sys_nice 3 0 sample_kstate) 0x1000) = - 1"
  using sys_nice_priority [of 0 sample_kstate 3, OF _ _ sample_kstate_current]
  by (simp add: NR_CPUS_def zero_lapic_def prio_defs max_def)

end
