(* ===== verification/Spawn.thy ===== *)
theory Spawn
  imports Dispatch Scheduler
begin

text \<open>
  The first entry into a thread (disp/spawn.c). A thread in state STANDBY has never run: instead of
  restoring a saved context, the kernel prepares the structure, makes thread and process
  current, and leaves through \<^verbatim>\<open>iretq\<close> to the entry point in the thread's initial
  context. The call does not return to its caller; its result here is the instruction and stack
  pointer the processor continues with and the kernel state at that moment.
\<close>

section \<open>Operations\<close>

text \<open>Interrupt request levels (gthouse/sys/irql.h) and configuration.\<close>

definition IRQL_R3_THREAD_IS_RUNNING :: nat where "IRQL_R3_THREAD_IS_RUNNING = 1"
definition IRQL_R0_THREAD_IS_RUNNING :: nat where "IRQL_R0_THREAD_IS_RUNNING = 2"
definition IRQL_DISPATCHER :: nat where "IRQL_DISPATCHER = 22"
definition CONFIG_ALLOW_RING0_THREAD_SPAWN :: int where "CONFIG_ALLOW_RING0_THREAD_SPAWN = 0"

record user_entry =
  entry_rip :: u64
  entry_rsp :: u64

definition spawn_set_eoi_state :: "kstate \<Rightarrow> kstate" where
  "spawn_set_eoi_state s = s\<lparr>spawn_eoi_is_necessary := True\<rparr>"

definition spawn_reset_eoi_state :: "kstate \<Rightarrow> kstate" where
  "spawn_reset_eoi_state s = s\<lparr>spawn_eoi_is_necessary := False\<rparr>"

definition set_irql :: "nat \<Rightarrow> kstate \<Rightarrow> kstate" where
  "set_irql level s = upd_lapic 0 (\<lambda>l. l\<lparr>l_irql := level\<rparr>) s"

definition spawn_enter_kernelmode :: "u64 \<Rightarrow> u64 \<Rightarrow> kstate \<Rightarrow> (user_entry \<times> kstate) outcome" where
  "spawn_enter_kernelmode entry_va rsp0_va s =
    (if CONFIG_ALLOW_RING0_THREAD_SPAWN \<noteq> 1
     then Inl (Panic ''__spawn_enter_kernelmode: RING0 not supported yet'')
     else let s1 = set_irql IRQL_R0_THREAD_IS_RUNNING s in
       if gszLastStackFrame s1 = 5 \<or> gszLastStackFrame s1 = 3
       then Inr (\<lparr>entry_rip = entry_va, entry_rsp = rsp0_va\<rparr>, s1)
       else Inl (Panic ''__spawn_enter_kernelmode: gszLastStackFrame''))"

definition spawn_enter_usermode :: "u64 \<Rightarrow> u64 \<Rightarrow> kstate \<Rightarrow> (user_entry \<times> kstate) outcome" where
  "spawn_enter_usermode entry_va rsp3_va s =
    (if gszLastStackFrame s = 3 then Inl (Panic ''__spawn_enter_usermode: gszLastStackFrame'')
     else Inr (\<lparr>entry_rip = entry_va, entry_rsp = rsp3_va\<rparr>, set_irql IRQL_R3_THREAD_IS_RUNNING s))"

text \<open>The structure of the thread as its first quantum begins.\<close>

definition fresh_thread :: "u64 \<Rightarrow> addr \<Rightarrow> thread_d \<Rightarrow> thread_d" where
  "fresh_thread now init t = t\<lparr>t_saved := False,
     t_Deferred := (t_Deferred t)\<lparr>sleep_in_progress := False, exit_in_progress := False\<rparr>,
     t_standbyCount := 0, t_standbyCount_ms := 0, t_runningCount := 0, t_runningCount_ms := 0,
     t_readyCount := 0, t_readyCount_ms := 0, t_waitingCount := 0, t_waitingCount_ms := 0,
     t_blockedCount := 0, t_blockedCount_ms := 0, t_initial_jiffy := now, t_step := 0,
     t_initial_time_ms := 0, t_total_time_ms := 0, t_next := init,
     t_state := (if t_state t = STANDBY then RUNNING else t_state t)\<rparr>"

definition mark_process_running :: "int \<Rightarrow> kstate \<Rightarrow> kstate" where
  "mark_process_running pid s =
    (let p = teList s (nat pid) in
     if p \<noteq> NULL \<and> p_magic (tes s p) = 1234 then upd_te p (\<lambda>x. x\<lparr>p_state := PROCESS_RUNNING\<rparr>) s else s)"

text \<open>The last part, with thread and process current: the page table and the ring.\<close>

definition spawn_enter :: "addr \<Rightarrow> kstate \<Rightarrow> (user_entry \<times> kstate) outcome" where
  "spawn_enter p s0 =
    (let s = load_pml4_table (t_pml4_PA (thr s0 p)) s0; t = thr s p in
     if \<not> spawn_eoi_is_necessary s then Inl (Panic ''__spawn_thread_by_tid_imp: eoi_is_needed != TRUE'')
     else if t_cpl t = 0
     then spawn_enter_kernelmode (c_rip (t_context t)) (c_rsp (t_context t))
            (upd_thr p (\<lambda>t. t\<lparr>t_to_supervisor := t_to_supervisor t + 1\<rparr>) s)
     else if t_cpl t = 3
     then spawn_enter_usermode (c_rip (t_context t)) (c_rsp (t_context t))
            (upd_thr p (\<lambda>t. t\<lparr>t_to_user := t_to_user t + 1\<rparr>) s)
     else Inl (Panic ''__spawn_thread_by_tid_imp: iretq fail''))"

definition spawn_make_current :: "addr \<Rightarrow> kstate \<Rightarrow> (user_entry \<times> kstate) outcome" where
  "spawn_make_current p s =
    (let cur_teid = t_tgid (thr s p) in
     if t_state (thr s p) \<noteq> RUNNING then Inl (Die ''__spawn_thread_by_tid_imp: State'')
     else if t_te (thr s p) = NULL then Inl (Panic ''__spawn_thread_by_tid_imp: target_thread->te'')
     else if cur_teid < 0 \<or> int PROCESS_COUNT_MAX \<le> cur_teid
     then Inl (Panic ''__spawn_thread_by_tid_imp: cur_teid'')
     else let s1 = mark_process_running cur_teid (set_current_process cur_teid 0 s);
              s2 = set_current_thread (t_tid (thr s1 p)) 0 s1
          in if \<not> tid_ok (l_current_tid (lapic_info s2 0))
             then Inl (Panic ''__spawn_thread_by_tid_imp: lapic_info[0].current_tid'')
             else and_then (IncrementDispatcherCount SELECT_INITIALIZED_COUNT s2) (spawn_enter p))"

definition spawn_thread_by_tid_imp :: "int \<Rightarrow> kstate \<Rightarrow> (user_entry \<times> kstate) outcome" where
  "spawn_thread_by_tid_imp tid s =
    (let p = thr_at s tid in
     if \<not> tid_ok tid then Inl (Die ''__spawn_thread_by_tid_imp: TargetTID'')
     else if p = NULL then Inl (Die ''__spawn_thread_by_tid_imp: target_thread'')
     else if \<not> t_used (thr s p) \<or> t_magic (thr s p) \<noteq> 1234
     then Inl (Panic ''__spawn_thread_by_tid_imp: target_thread validation'')
     else if t_tid (thr s p) \<noteq> tid then Inl (Panic ''__spawn_thread_by_tid_imp: target_thread->tid validation'')
     else if t_state (thr s p) \<noteq> STANDBY then Inl (Die ''__spawn_thread_by_tid_imp: not in Standby'')
     else if t_saved (thr s p) then Inl (Die ''__spawn_thread_by_tid_imp: Saved'')
     else let s1 = upd_thr p (fresh_thread (jiffies s) (InitThread s)) s
          in spawn_make_current p (scheduler_unlock (s1\<lparr>task_switch_status := UNLOCKED\<rparr>)))"

definition spawn_thread_by_tid :: "int \<Rightarrow> kstate \<Rightarrow> (user_entry \<times> kstate) outcome" where
  "spawn_thread_by_tid tid s =
    (if \<not> tid_ok tid then Inl (Die ''spawn_thread_by_tid: TID'') else spawn_thread_by_tid_imp tid s)"

section \<open>Lemmas\<close>

text \<open>What the code needs in order to enter a thread.\<close>

definition spawnable :: "int \<Rightarrow> kstate \<Rightarrow> bool" where
  "spawnable tid s \<longleftrightarrow> tid_ok tid \<and> thr_ok s (thr_at s tid) \<and> t_tid (thr s (thr_at s tid)) = tid \<and>
     t_state (thr s (thr_at s tid)) = STANDBY \<and> \<not> t_saved (thr s (thr_at s tid)) \<and>
     t_te (thr s (thr_at s tid)) \<noteq> NULL \<and> 0 \<le> t_tgid (thr s (thr_at s tid)) \<and>
     t_tgid (thr s (thr_at s tid)) < int PROCESS_COUNT_MAX \<and> t_cpl (thr s (thr_at s tid)) = 3 \<and>
     counters_ok s \<and> spawn_eoi_is_necessary s \<and> gszLastStackFrame s \<noteq> 3"

lemma fresh_thread_sel [simp]:
  "t_used (fresh_thread j i t) = t_used t" "t_magic (fresh_thread j i t) = t_magic t"
  "t_tid (fresh_thread j i t) = t_tid t" "t_tgid (fresh_thread j i t) = t_tgid t"
  "t_te (fresh_thread j i t) = t_te t" "t_cpl (fresh_thread j i t) = t_cpl t"
  "t_context (fresh_thread j i t) = t_context t" "t_pml4_PA (fresh_thread j i t) = t_pml4_PA t"
  "t_state (fresh_thread j i t) = (if t_state t = STANDBY then RUNNING else t_state t)"
  by (simp_all add: fresh_thread_def)

lemma mark_process_running_frame [simp]:
  "thr (mark_process_running pid s) = thr s" "threadList (mark_process_running pid s) = threadList s"
  "lapic_info (mark_process_running pid s) = lapic_info s"
  "spawn_eoi_is_necessary (mark_process_running pid s) = spawn_eoi_is_necessary s"
  "gszLastStackFrame (mark_process_running pid s) = gszLastStackFrame s"
  "task_switch_status (mark_process_running pid s) = task_switch_status s"
  "SchedulerInfo (mark_process_running pid s) = SchedulerInfo s"
  "DispatchCountBlock (mark_process_running pid s) = DispatchCountBlock s"
  "dispatch_counts (mark_process_running pid s) = dispatch_counts s"
  by (simp_all add: mark_process_running_def Let_def)

lemma set_current_process_eq: "set_current_process pid 0 s = upd_lapic 0 (\<lambda>l. l\<lparr>l_current_pid := pid\<rparr>) s"
  by (simp add: set_current_process_def NR_CPUS_def)

lemma set_current_thread_valid:
  assumes "tid_ok tid" "thr_ok s (thr_at s tid)"
  shows "set_current_thread tid 0 s = upd_lapic 0 (\<lambda>l. l\<lparr>l_current_tid := tid\<rparr>) s"
proof (cases "tid = l_current_tid (lapic_info s 0)")
  case True
  then have "upd_lapic 0 (\<lambda>l. l\<lparr>l_current_tid := tid\<rparr>) s = s" by (simp add: upd_lapic_def)
  with True assms show ?thesis by (simp add: set_current_thread_def NR_CPUS_def)
next
  case False
  with assms show ?thesis by (auto simp: set_current_thread_def NR_CPUS_def thr_ok_def Let_def)
qed

lemma spawn_enter_Inr:
  "spawn_enter p s = Inr r \<longleftrightarrow> spawn_eoi_is_necessary s \<and> t_cpl (thr s p) = 3 \<and> gszLastStackFrame s \<noteq> 3 \<and>
     r = (\<lparr>entry_rip = c_rip (t_context (thr s p)), entry_rsp = c_rsp (t_context (thr s p))\<rparr>,
          set_irql IRQL_R3_THREAD_IS_RUNNING
            (upd_thr p (\<lambda>t. t\<lparr>t_to_user := t_to_user t + 1\<rparr>) (load_pml4_table (t_pml4_PA (thr s p)) s)))"
  by (auto simp: spawn_enter_def spawn_enter_usermode_def spawn_enter_kernelmode_def Let_def
      CONFIG_ALLOW_RING0_THREAD_SPAWN_def load_pml4_table_def)

lemma spawn_make_current_eq:
  assumes "tid_ok (t_tid (thr s p))" "thr_ok s p" "thr_at s (t_tid (thr s p)) = p"
    and "t_state (thr s p) = RUNNING" "t_te (thr s p) \<noteq> NULL"
    and "0 \<le> t_tgid (thr s p)" "t_tgid (thr s p) < int PROCESS_COUNT_MAX"
  defines "s1 \<equiv> mark_process_running (t_tgid (thr s p))
      (upd_lapic 0 (\<lambda>l. l\<lparr>l_current_pid := t_tgid (thr s p)\<rparr>) s)"
  shows "spawn_make_current p s =
    and_then (IncrementDispatcherCount SELECT_INITIALIZED_COUNT
      (upd_lapic 0 (\<lambda>l. l\<lparr>l_current_tid := t_tid (thr s p)\<rparr>) s1)) (spawn_enter p)"
proof -
  have "thr_ok s1 (thr_at s1 (t_tid (thr s1 p)))" using assms by (simp add: thr_ok_def)
  then have "set_current_thread (t_tid (thr s1 p)) 0 s1 = upd_lapic 0 (\<lambda>l. l\<lparr>l_current_tid := t_tid (thr s p)\<rparr>) s1"
    using set_current_thread_valid [of "t_tid (thr s p)" s1] assms by simp
  with assms show ?thesis
    by (simp add: spawn_make_current_def Let_def set_current_process_eq)
qed

lemma spawn_imp_Inr_conditions:
  assumes "spawn_thread_by_tid tid s = Inr r"
  shows "tid_ok tid" "thr_ok s (thr_at s tid)" "t_tid (thr s (thr_at s tid)) = tid"
    "t_state (thr s (thr_at s tid)) = STANDBY" "\<not> t_saved (thr s (thr_at s tid))"
    "spawn_make_current (thr_at s tid) (scheduler_unlock ((upd_thr (thr_at s tid)
       (fresh_thread (jiffies s) (InitThread s)) s)\<lparr>task_switch_status := UNLOCKED\<rparr>)) = Inr r"
  using assms by (auto simp: spawn_thread_by_tid_def spawn_thread_by_tid_imp_def Let_def thr_ok_def split: if_splits)

text \<open>The state the processor has when it leaves for the new thread.\<close>

definition spawned :: "int \<Rightarrow> kstate \<Rightarrow> kstate" where
  "spawned tid s =
    (let p = thr_at s tid;
         t = thr s p;
         s0 = scheduler_unlock ((upd_thr p (fresh_thread (jiffies s) (InitThread s)) s)
                \<lparr>task_switch_status := UNLOCKED\<rparr>);
         s1 = mark_process_running (t_tgid t) (upd_lapic 0 (\<lambda>l. l\<lparr>l_current_pid := t_tgid t\<rparr>) s0);
         s2 = (upd_lapic 0 (\<lambda>l. l\<lparr>l_current_tid := tid\<rparr>) s1)
                \<lparr>dispatch_counts := count_selection SELECT_INITIALIZED_COUNT (dispatch_counts s)\<rparr>
     in set_irql IRQL_R3_THREAD_IS_RUNNING
          (upd_thr p (\<lambda>t. t\<lparr>t_to_user := t_to_user t + 1\<rparr>) (load_pml4_table (t_pml4_PA t) s2)))"

lemma scheduler_unlock_frame [simp]:
  "thr (scheduler_unlock s) = thr s" "threadList (scheduler_unlock s) = threadList s"
  "lapic_info (scheduler_unlock s) = lapic_info s" "DispatchCountBlock (scheduler_unlock s) = DispatchCountBlock s"
  "dispatch_counts (scheduler_unlock s) = dispatch_counts s" "thr_ok (scheduler_unlock s) = thr_ok s"
  "spawn_eoi_is_necessary (scheduler_unlock s) = spawn_eoi_is_necessary s"
  "gszLastStackFrame (scheduler_unlock s) = gszLastStackFrame s"
  by (simp_all add: scheduler_unlock_def thr_ok_def fun_eq_iff)

lemma spawn_Inr_iff:
  "spawn_thread_by_tid tid s = Inr r \<longleftrightarrow> spawnable tid s \<and>
     r = (\<lparr>entry_rip = c_rip (t_context (thr s (thr_at s tid))),
           entry_rsp = c_rsp (t_context (thr s (thr_at s tid)))\<rparr>, spawned tid s)"
proof (cases "tid_ok tid \<and> thr_ok s (thr_at s tid) \<and> t_tid (thr s (thr_at s tid)) = tid \<and>
    t_state (thr s (thr_at s tid)) = STANDBY \<and> \<not> t_saved (thr s (thr_at s tid)) \<and>
    t_te (thr s (thr_at s tid)) \<noteq> NULL \<and> 0 \<le> t_tgid (thr s (thr_at s tid)) \<and>
    t_tgid (thr s (thr_at s tid)) < int PROCESS_COUNT_MAX")
  case False
  show ?thesis
  proof
    assume a: "spawn_thread_by_tid tid s = Inr r"
    note c = spawn_imp_Inr_conditions [OF a]
    show "spawnable tid s \<and> r = (\<lparr>entry_rip = c_rip (t_context (thr s (thr_at s tid))),
           entry_rsp = c_rsp (t_context (thr s (thr_at s tid)))\<rparr>, spawned tid s)"
      using c(6) False c(1-5) by (auto simp: spawn_make_current_def Let_def split: if_splits)
  qed (use False in \<open>auto simp: spawnable_def\<close>)
next
  case True
  define p where "p = thr_at s tid"
  define s0 where "s0 = scheduler_unlock ((upd_thr p (fresh_thread (jiffies s) (InitThread s)) s)
      \<lparr>task_switch_status := UNLOCKED\<rparr>)"
  have t0: "thr s0 p = fresh_thread (jiffies s) (InitThread s) (thr s p)" "thr_at s0 tid = p"
    by (simp_all add: s0_def p_def)
  have f0: "DispatchCountBlock s0 = DispatchCountBlock s" "dispatch_counts s0 = dispatch_counts s"
    "spawn_eoi_is_necessary s0 = spawn_eoi_is_necessary s" "gszLastStackFrame s0 = gszLastStackFrame s"
    by (simp_all add: s0_def)
  have ok0: "thr_ok s0 p" using True by (simp add: thr_ok_def t0(1)) (simp add: p_def)
  define s1 where "s1 = upd_lapic 0 (\<lambda>l. l\<lparr>l_current_tid := tid\<rparr>)
      (mark_process_running (t_tgid (thr s p)) (upd_lapic 0 (\<lambda>l. l\<lparr>l_current_pid := t_tgid (thr s p)\<rparr>) s0))"
  have "spawn_thread_by_tid tid s = spawn_make_current p s0"
    using True by (auto simp: spawn_thread_by_tid_def spawn_thread_by_tid_imp_def Let_def thr_ok_def s0_def p_def)
  also have "\<dots> = and_then (IncrementDispatcherCount SELECT_INITIALIZED_COUNT s1) (spawn_enter p)"
    using spawn_make_current_eq [of s0 p] True ok0 t0 by (simp add: p_def [symmetric] s1_def)
  finally have eq: "spawn_thread_by_tid tid s =
    and_then (IncrementDispatcherCount SELECT_INITIALIZED_COUNT s1) (spawn_enter p)" .
  have f1: "thr s1 = thr s0" "DispatchCountBlock s1 = DispatchCountBlock s" "dispatch_counts s1 = dispatch_counts s"
    "spawn_eoi_is_necessary s1 = spawn_eoi_is_necessary s" "gszLastStackFrame s1 = gszLastStackFrame s"
    by (simp_all add: s1_def f0)
  have sp: "spawned tid s = set_irql IRQL_R3_THREAD_IS_RUNNING (upd_thr p (\<lambda>t. t\<lparr>t_to_user := t_to_user t + 1\<rparr>)
      (load_pml4_table (t_pml4_PA (thr s p))
        (s1\<lparr>dispatch_counts := count_selection SELECT_INITIALIZED_COUNT (dispatch_counts s)\<rparr>)))"
    by (simp add: spawned_def Let_def s1_def s0_def p_def [symmetric])
  show ?thesis
    using True unfolding eq sp
    by (auto simp: IncrementDispatcherCount_def spawn_enter_Inr f1 t0(1) spawnable_def counters_ok_def
        criteria_defs p_def [symmetric])
qed

section \<open>Properties\<close>

text \<open>
  A spawn enters exactly the threads it may enter: it leaves the kernel, with the instruction and stack
  pointer of the thread's initial context, if and only if the tid names a valid ring 3 thread in STANDBY that was
  never saved and belongs to a process, the statistics block exists, the timer interrupt handler has announced the
  end-of-interrupt, and the last stack frame was not a ring 0 frame; otherwise the machine halts.
\<close>

theorem spawn_enters_iff:
  "(\<exists>e s'. spawn_thread_by_tid tid s = Inr (e, s')) = spawnable tid s \<and>
   (\<forall>e s'. spawn_thread_by_tid tid s = Inr (e, s') \<longrightarrow>
      entry_rip e = c_rip (t_context (thr s (thr_at s tid))) \<and>
      entry_rsp e = c_rsp (t_context (thr s (thr_at s tid))))"
  by (auto simp: spawn_Inr_iff)

text \<open>
  The thread that is entered runs as the current thread: the state at the first instruction has the thread
  running with clean counters, it and its process current on processor 0, its page table loaded, the task switch and
  the scheduler unlocked, and every other thread as it was.
\<close>

theorem spawn_state:
  assumes "spawn_thread_by_tid tid s = Inr (e, s')"
  shows "t_state (thr s' (thr_at s tid)) = RUNNING \<and> t_runningCount (thr s' (thr_at s tid)) = 0 \<and>
    t_next (thr s' (thr_at s tid)) = InitThread s \<and> \<not> sleep_in_progress (t_Deferred (thr s' (thr_at s tid))) \<and>
    l_current_tid (lapic_info s' 0) = tid \<and> l_current_pid (lapic_info s' 0) = t_tgid (thr s (thr_at s tid)) \<and>
    l_irql (lapic_info s' 0) = IRQL_R3_THREAD_IS_RUNNING \<and> cr3 s' = t_pml4_PA (thr s (thr_at s tid)) \<and>
    task_switch_status s' = UNLOCKED \<and> si_is_locked (SchedulerInfo s') = UNLOCKED \<and>
    (\<forall>q. q \<noteq> thr_at s tid \<longrightarrow> thr s' q = thr s q)"
proof -
  have s': "s' = spawned tid s" and st: "t_state (thr s (thr_at s tid)) = STANDBY"
    using assms by (auto simp: spawn_Inr_iff spawnable_def)
  have f: "cr3 (load_pml4_table pa s) = pa" "task_switch_status (load_pml4_table pa s) = task_switch_status s"
    "SchedulerInfo (load_pml4_table pa s) = SchedulerInfo s" "lapic_info (load_pml4_table pa s) = lapic_info s"
    for pa s by (simp_all add: load_pml4_table_def)
  show ?thesis
    unfolding s' spawned_def Let_def set_irql_def
    by (simp add: f st fresh_thread_def) (simp add: scheduler_unlock_def)
qed

definition spawn_kstate :: kstate where
  "spawn_kstate = (upd_thr 0x3000 (\<lambda>_. (sample_thread 2 STANDBY)\<lparr>t_saved := False, t_te := 0xA000, t_cpl := 3,
       t_context := zero_context\<lparr>c_rip := 0x201000, c_rsp := 0x5000\<rparr>\<rparr>) sample_kstate)
     \<lparr>DispatchCountBlock := 0xD000, dispatch_counts := zero_dispatch_count\<lparr>dc_magic := 1234\<rparr>,
      spawn_eoi_is_necessary := True, gszLastStackFrame := 5\<rparr>"

lemma spawn_kstate_spawnable: "spawnable 2 spawn_kstate" "thr_at spawn_kstate 2 = 0x3000"
  by (simp_all add: spawnable_def spawn_kstate_def tid_ok_def thr_ok_def THREAD_COUNT_MAX_def PROCESS_COUNT_MAX_def
      counters_ok_def) (simp_all add: sample_thread_def zero_thread_def)

theorem spawn_enters_iff_witness:
  "\<exists>e s'. spawn_thread_by_tid 2 spawn_kstate = Inr (e, s') \<and> entry_rip e = 0x201000"
proof -
  obtain e s' where r: "spawn_thread_by_tid 2 spawn_kstate = Inr (e, s')"
    using spawn_enters_iff [of 2 spawn_kstate] spawn_kstate_spawnable by blast
  moreover have "entry_rip e = 0x201000"
    using spawn_enters_iff [of 2 spawn_kstate] r spawn_kstate_spawnable(2) by (simp add: spawn_kstate_def)
  ultimately show ?thesis by blast
qed

theorem spawn_state_witness:
  "\<exists>e s'. spawn_thread_by_tid 2 spawn_kstate = Inr (e, s') \<and> l_current_tid (lapic_info s' 0) = 2 \<and>
     t_state (thr s' 0x3000) = RUNNING"
proof -
  obtain r where r: "spawn_thread_by_tid 2 spawn_kstate = Inr r"
    using spawn_kstate_spawnable(1) by (simp add: spawn_Inr_iff)
  obtain e s' where "r = (e, s')" by (cases r)
  with r spawn_state [of 2 spawn_kstate e s'] spawn_kstate_spawnable(2) show ?thesis by auto
qed

end
