(* ===== verification/Dpc_Queue.thy ===== *)
theory Dpc_Queue
  imports Kernel_State Queue_Spec
begin

text \<open>
  The queue of deferred input events (garden/entry/kmain.c): interrupt handlers post key and
  mouse events, and the task switcher takes one when a thread has used up its quantum. It is a
  ring of 32 slots in parallel arrays; a slot whose message code is 0 is free. A get copies the
  event into the cache fields of the queue.
\<close>

section \<open>Operations\<close>

text \<open>A message code, four words and four bytes.\<close>

type_synonym dpc_event = "int \<times> (u64 \<times> u64 \<times> u64 \<times> u64) \<times> (u8 \<times> u8 \<times> u8 \<times> u8)"

fun dpc_post :: "dpc_event \<Rightarrow> dpc_queue_d \<Rightarrow> dpc_queue_d" where
  "dpc_post (msg, (long1, long2, long3, long4), (char1, char2, char3, char4)) q0 =
    (let q = (if dpc_tail q0 < 0 \<or> 32 \<le> dpc_tail q0 then q0\<lparr>dpc_tail := 0\<rparr> else q0);
         i = nat (dpc_tail q)
     in if dpc_msg q i = 0
        then q\<lparr>dpc_msg := (dpc_msg q)(i := msg),
               dpc_long1 := (dpc_long1 q)(i := long1), dpc_long2 := (dpc_long2 q)(i := long2),
               dpc_long3 := (dpc_long3 q)(i := long3), dpc_long4 := (dpc_long4 q)(i := long4),
               dpc_char1 := (dpc_char1 q)(i := char1), dpc_char2 := (dpc_char2 q)(i := char2),
               dpc_char3 := (dpc_char3 q)(i := char3), dpc_char4 := (dpc_char4 q)(i := char4),
               dpc_tail := ring_inc 32 (dpc_tail q)\<rparr>
        else q)"

definition qf_post_message :: "dpc_event \<Rightarrow> kstate \<Rightarrow> kstate" where
  "qf_post_message e s = upd_lapic 0 (\<lambda>l. l\<lparr>l_DPC_QUEUE := dpc_post e (l_DPC_QUEUE l)\<rparr>) s"

definition dpc_get :: "dpc_queue_d \<Rightarrow> int \<times> dpc_queue_d" where
  "dpc_get q0 =
    (let q = (if dpc_head q0 < 0 \<or> 32 \<le> dpc_head q0 then q0\<lparr>dpc_head := 0\<rparr> else q0);
         i = nat (dpc_head q)
     in if dpc_msg q i \<le> 0 then (-1, q\<lparr>dpc_head := ring_inc 32 (dpc_head q)\<rparr>)
        else (dpc_head q,
              q\<lparr>dpc_cache_msg := dpc_msg q i,
                dpc_cache_longs := (dpc_long1 q i, dpc_long2 q i, dpc_long3 q i, dpc_long4 q i),
                dpc_cache_chars := (dpc_char1 q i, dpc_char2 q i, dpc_char3 q i, dpc_char4 q i),
                dpc_msg := (dpc_msg q)(i := 0), dpc_head := ring_inc 32 (dpc_head q)\<rparr>))"

definition qf_get_message :: "kstate \<Rightarrow> int \<times> kstate" where
  "qf_get_message s =
    (case dpc_get (l_DPC_QUEUE (lapic_info s 0)) of (slot, q) \<Rightarrow>
       (slot, upd_lapic 0 (\<lambda>l. l\<lparr>l_DPC_QUEUE := q\<rparr>) s))"

section \<open>The queue as a bounded queue\<close>

definition dpc_entry :: "dpc_queue_d \<Rightarrow> nat \<Rightarrow> dpc_event" where
  "dpc_entry q i = (dpc_msg q i, (dpc_long1 q i, dpc_long2 q i, dpc_long3 q i, dpc_long4 q i),
     (dpc_char1 q i, dpc_char2 q i, dpc_char3 q i, dpc_char4 q i))"

definition dpc_index :: "dpc_queue_d \<Rightarrow> nat \<Rightarrow> nat" where
  "dpc_index q k = nat ((dpc_head q + int k) mod 32)"

definition dpc_holds :: "dpc_queue_d \<Rightarrow> dpc_event list \<Rightarrow> bool" where
  "dpc_holds q es \<longleftrightarrow> 0 \<le> dpc_head q \<and> dpc_head q < 32 \<and> length es \<le> 32 \<and> (\<forall>e \<in> set es. 0 < fst e) \<and>
     dpc_tail q = (dpc_head q + int (length es)) mod 32 \<and>
     (\<forall>k < 32. if k < length es then dpc_entry q (dpc_index q k) = es ! k
               else dpc_msg q (dpc_index q k) = 0)"

definition dpc_put :: "dpc_event \<Rightarrow> dpc_queue_d \<Rightarrow> dpc_queue_d outcome" where
  "dpc_put e q = Inr (dpc_post e q)"

definition dpc_take :: "dpc_queue_d \<Rightarrow> (dpc_event \<times> dpc_queue_d) outcome" where
  "dpc_take q = (case dpc_get q of (slot, q1) \<Rightarrow>
     if slot = -1 then Inl (Die ''empty'')
     else Inr ((dpc_cache_msg q1, dpc_cache_longs q1, dpc_cache_chars q1), q1))"

lemma dpc_event_cases:
  fixes e :: dpc_event
  obtains m a b c d w x y z where "e = (m, (a, b, c, d), (w, x, y, z))"
  by (cases e) auto

lemma dpc_index_inj: "j < 32 \<Longrightarrow> k < 32 \<Longrightarrow> dpc_index q j = dpc_index q k \<longleftrightarrow> j = k"
  using mod_shift_inj [of j 32 k "dpc_head q"] by (auto simp: dpc_index_def)

lemma dpc_holds_tail:
  "dpc_holds q es \<Longrightarrow> \<not> (dpc_tail q < 0 \<or> 32 \<le> dpc_tail q) \<and> nat (dpc_tail q) = dpc_index q (length es)"
  using pos_mod_bound [of 32 "dpc_head q + int (length es)"]
  by (simp add: dpc_holds_def dpc_index_def not_le)

lemma dpc_put_law:
  assumes h: "dpc_holds q es" and e: "0 < fst e" and len: "length es < 32"
  shows "dpc_holds (dpc_post e q) (es @ [e])"
proof -
  let ?n = "length es"
  let ?q' = "dpc_post e q"
  note tl = dpc_holds_tail [OF h]
  have free: "dpc_msg q (dpc_index q ?n) = 0" using h len by (auto simp: dpc_holds_def)
  have hd: "dpc_head ?q' = dpc_head q" "dpc_tail ?q' = ring_inc 32 (dpc_tail q)"
    using tl free by (cases e rule: dpc_event_cases; simp add: Let_def)+
  have idx: "dpc_index ?q' k = dpc_index q k" for k using hd(1) by (simp add: dpc_index_def)
  have ent: "dpc_entry ?q' i = (if i = dpc_index q ?n then e else dpc_entry q i)" for i
    using tl free by (cases e rule: dpc_event_cases) (auto simp: Let_def dpc_entry_def)
  have msg: "dpc_msg ?q' i = (if i = dpc_index q ?n then fst e else dpc_msg q i)" for i
    using arg_cong [OF ent [of i], of fst] by (simp add: dpc_entry_def)
  have t0: "0 \<le> dpc_tail q" "dpc_tail q < int 32" using tl by auto
  have "dpc_tail ?q' = (dpc_tail q + 1) mod 32" using hd(2) ring_inc_mod [OF t0] by simp
  also have "\<dots> = (dpc_head ?q' + int (length (es @ [e]))) mod 32"
    using h hd(1) by (simp add: dpc_holds_def mod_add_left_eq mod_add_right_eq ac_simps)
  finally have tail: "dpc_tail ?q' = (dpc_head ?q' + int (length (es @ [e]))) mod 32" .
  have slots: "if k < length (es @ [e]) then dpc_entry ?q' (dpc_index ?q' k) = (es @ [e]) ! k
      else dpc_msg ?q' (dpc_index ?q' k) = 0" if "k < 32" for k
    using h that dpc_index_inj [OF that len, of q] by (auto simp: dpc_holds_def idx ent msg nth_append)
  from h hd(1) e len tail slots show ?thesis by (auto simp: dpc_holds_def)
qed

lemma dpc_take_law:
  assumes h: "dpc_holds q (e # es)"
  shows "\<exists>q'. dpc_take q = Inr (e, q') \<and> dpc_holds q' es"
proof -
  let ?q' = "snd (dpc_get q)"
  have h0: "0 \<le> dpc_head q" "dpc_head q < int 32" using h by (auto simp: dpc_holds_def)
  have i0: "nat (dpc_head q) = dpc_index q 0" using h0 by (simp add: dpc_index_def)
  have e0: "dpc_entry q (dpc_index q 0) = e" "0 < fst e" using h by (force simp: dpc_holds_def)+
  then have pos: "\<not> dpc_msg q (dpc_index q 0) \<le> 0" by (auto simp: dpc_entry_def)
  have g: "dpc_take q = Inr (e, ?q')"
    using h0 i0 pos e0 by (auto simp: dpc_take_def dpc_get_def Let_def dpc_entry_def)
  have hd: "dpc_head ?q' = (dpc_head q + 1) mod 32" "dpc_tail ?q' = dpc_tail q"
    using h0 pos i0 ring_inc_mod [OF h0] by (simp_all add: dpc_get_def Let_def)
  have msg: "dpc_msg ?q' i = (if i = dpc_index q 0 then 0 else dpc_msg q i)" for i
    using h0 pos i0 by (simp add: dpc_get_def Let_def)
  have ent: "dpc_entry ?q' i = dpc_entry q i" if "i \<noteq> dpc_index q 0" for i
    using h0 pos i0 that by (simp add: dpc_get_def Let_def dpc_entry_def)
  have idx: "dpc_index ?q' k = dpc_index q (Suc k)" for k
    using hd(1) by (simp add: dpc_index_def mod_add_left_eq add.assoc)
  have wrap: "dpc_index q 32 = dpc_index q 0" by (simp add: dpc_index_def)
  have slots: "if k < length es then dpc_entry ?q' (dpc_index ?q' k) = es ! k
      else dpc_msg ?q' (dpc_index ?q' k) = 0" if k: "k < 32" for k
  proof (cases "k = 31")
    case True
    then have "dpc_index ?q' k = dpc_index q 0" using idx [of 31] wrap by simp
    with True h show ?thesis by (simp add: msg dpc_holds_def)
  next
    case False
    with k have k1: "Suc k < 32" by simp
    have "dpc_index q (Suc k) \<noteq> dpc_index q 0" using dpc_index_inj [OF k1, of 0 q] by simp
    with h k1 show ?thesis by (auto simp: idx ent msg dpc_holds_def)
  qed
  have "dpc_tail ?q' = (dpc_head q + 1 + int (length es)) mod 32"
    using h hd(2) by (simp add: dpc_holds_def ac_simps)
  also have "\<dots> = (dpc_head ?q' + int (length es)) mod 32" using hd(1) by (simp add: mod_add_left_eq)
  finally have "dpc_tail ?q' = (dpc_head ?q' + int (length es)) mod 32" .
  with h hd(1) slots have "dpc_holds ?q' es" by (auto simp: dpc_holds_def)
  with g show ?thesis by blast
qed

interpretation dpc: bounded_queue dpc_put dpc_take dpc_holds "\<lambda>e. 0 < fst e" 32
proof
  show "\<exists>s'. dpc_put m s = Inr s' \<and> dpc_holds s' (q @ [m])"
    if "dpc_holds s q" "0 < fst m" "length q < 32" for s q m
    using dpc_put_law [OF that] by (simp add: dpc_put_def)
  show "\<exists>s'. dpc_take s = Inr (m, s') \<and> dpc_holds s' q" if "dpc_holds s (m # q)" for s m q
    by (rule dpc_take_law [OF that])
qed

section \<open>Properties\<close>

lemma zero_dpc_queue_empty: "dpc_holds zero_dpc_queue []"
  by (simp add: dpc_holds_def zero_dpc_queue_def)

text \<open>
  Deferred events arrive in order: on a schedule of posts of nonzero codes and gets that never
  exceeds 32 pending events and never gets from the empty queue, the task switcher obtains exactly the
  events posted, in the order posted.
\<close>

theorem dpc_queue_refines_list:
  assumes "dpc_holds q es" and "\<forall>e. Put e \<in> set ops \<longrightarrow> 0 < fst e" and "list_run 32 ops es = Some (out, r)"
  shows "\<exists>q'. queue_run dpc_put dpc_take ops q = Inr (out, q') \<and> dpc_holds q' r"
  by (rule dpc.run_refines [OF assms])

theorem dpc_queue_refines_list_witness:
  "\<exists>q'. queue_run dpc_put dpc_take
      [Put (1000, (0, 0, 0, 0), (1, 2, 3, 4)), Put (2000, (5, 6, 7, 0), (0, 0, 0, 0)), Get, Get] zero_dpc_queue =
      Inr ([(1000, (0, 0, 0, 0), (1, 2, 3, 4)), (2000, (5, 6, 7, 0), (0, 0, 0, 0))], q') \<and> dpc_holds q' []"
  by (rule dpc_queue_refines_list [OF zero_dpc_queue_empty]) auto

text \<open>
  A full queue of deferred events drops the new event without a trace: with 32 events pending a
  post changes nothing.
\<close>

theorem dpc_full_drops:
  assumes "dpc_holds q es" and "length es = 32"
  shows "dpc_post e q = q"
proof -
  have "nat (dpc_tail q) = dpc_index q 0" "\<not> (dpc_tail q < 0 \<or> 32 \<le> dpc_tail q)"
    using dpc_holds_tail [OF assms(1)] assms(2) by (simp_all add: dpc_index_def)
  moreover have "dpc_msg q (dpc_index q 0) \<noteq> 0"
  proof -
    have "dpc_entry q (dpc_index q 0) = es ! 0" "0 < fst (es ! 0)"
      using assms nth_mem [of 0 es] by (auto simp: dpc_holds_def simp del: nth_mem)
    then have "0 < dpc_msg q (dpc_index q 0)" by (metis dpc_entry_def fst_conv)
    then show ?thesis by simp
  qed
  ultimately show ?thesis by (cases e rule: dpc_event_cases) (simp add: Let_def)
qed

theorem dpc_full_drops_witness:
  "\<exists>q. dpc_holds q (replicate 32 (1000, (0, 0, 0, 0), (1, 2, 3, 4))) \<and>
     dpc_post (2000, (5, 6, 7, 0), (0, 0, 0, 0)) q = q"
proof -
  let ?e = "(1000, (0, 0, 0, 0), (1, 2, 3, 4)) :: dpc_event"
  have "list_run 32 (map Put (replicate 32 ?e)) [] = Some ([], replicate 32 ?e)"
    using list_run_puts [of "[]" "replicate 32 ?e" 32 "[]"] by simp
  then obtain q where "dpc_holds q (replicate 32 ?e)"
    using dpc.run_refines [OF zero_dpc_queue_empty, of "map Put (replicate 32 ?e)"] by fastforce
  with dpc_full_drops [OF this] show ?thesis by auto
qed

end
