(* ===== verification/Task_Switch.thy ===== *)
theory Task_Switch
  imports Spawn Dpc_Queue
begin

text \<open>
  The task switcher (disp/ts.c), called from the timer interrupt. One call validates and charges
  the current thread; if its quantum is not used up the thread continues, otherwise deferred
  work is done, the next thread of the run queue is selected (a new round is built at the end
  of the queue) and dispatched. The two window-manager input handlers that deferred events go
  to (wmRawKeyEvent, wmMouseEvent of wink/user/evi) are parameters: their effect on the kernel
  state is arbitrary in every property of this theory. What they must keep for the tables to stay well formed
  is \<open>handlers_ok\<close>.
\<close>

section \<open>Control flow\<close>

text \<open>
  A call of the switcher either returns to its caller, or enters a new thread for the first time and
  never returns.
\<close>

datatype 'a flow = Return 'a | Enter user_entry

definition flow_then ::
  "('a flow \<times> kstate) outcome \<Rightarrow> ('a \<Rightarrow> kstate \<Rightarrow> ('b flow \<times> kstate) outcome) \<Rightarrow> ('b flow \<times> kstate) outcome" where
  "flow_then r f = and_then r (\<lambda>(x, s). case x of Return a \<Rightarrow> f a s | Enter e \<Rightarrow> Inr (Enter e, s))"

record input_handlers =
  wmRawKeyEvent :: "u8 \<Rightarrow> u8 \<Rightarrow> u8 \<Rightarrow> u8 \<Rightarrow> kstate \<Rightarrow> kstate outcome"
  wmMouseEvent :: "int \<Rightarrow> u64 \<Rightarrow> u64 \<Rightarrow> kstate \<Rightarrow> kstate outcome"

section \<open>The lock\<close>

definition get_taskswitch_status :: "kstate \<Rightarrow> lock_state" where
  "get_taskswitch_status s = task_switch_status s"

definition set_taskswitch_status :: "lock_state \<Rightarrow> kstate \<Rightarrow> kstate" where
  "set_taskswitch_status status s = s\<lparr>task_switch_status := status\<rparr>"

definition taskswitch_lock :: "kstate \<Rightarrow> kstate" where
  "taskswitch_lock s = s\<lparr>task_switch_status := LOCKED\<rparr>"

definition taskswitch_unlock :: "kstate \<Rightarrow> kstate" where
  "taskswitch_unlock s = s\<lparr>task_switch_status := UNLOCKED\<rparr>"

definition init_ts :: "kstate \<Rightarrow> int \<times> kstate" where
  "init_ts s =
    (let s1 = taskswitch_lock (s\<lparr>TaskSwitchInfo_initialized := False\<rparr>)
     in (0, s1\<lparr>TaskSwitchInfo_initialized := True\<rparr>))"

section \<open>The end of a quantum\<close>

definition tsCry :: "u64 \<Rightarrow> kstate \<Rightarrow> kstate outcome" where
  "tsCry flags s = (if flags AND 0x8000 \<noteq> 0 then Inl (Panic ''core_shutdown: #todo'') else Inr s)"

text \<open>One deferred input event, if the queue is on and has one.\<close>

definition ts_deferred_event :: "input_handlers \<Rightarrow> kstate \<Rightarrow> kstate outcome" where
  "ts_deferred_event h s0 =
    (if \<not> dpc_on (l_DPC_QUEUE (lapic_info s0 0)) then Inr s0
     else case qf_get_message s0 of (slot, s) \<Rightarrow>
       if slot = -1 then Inr s
       else if \<not> (0 \<le> slot \<and> slot < 32) then Inr s
       else let q = l_DPC_QUEUE (lapic_info s 0) in
         (case (dpc_cache_longs q, dpc_cache_chars q) of ((l0, l1, l2, l3), (c0, c1, c2, c3)) \<Rightarrow>
            if dpc_cache_msg q = 1000 then wmRawKeyEvent h c0 c1 c2 c3 s
            else if dpc_cache_msg q = 2000 then wmMouseEvent h (sint (ucast (l0 AND 0xFFFFFFFF) :: u32)) l1 l2 s
            else Inr s))"

text \<open>A thread in STANDBY is entered at once; the call then never comes back.\<close>

definition ts_spawn_standby :: "kstate \<Rightarrow> (unit flow \<times> kstate) outcome" where
  "ts_spawn_standby s =
    (let p = schedi_check_for_standby2 s in
     if p \<noteq> NULL \<and> t_state (thr s p) = STANDBY
     then and_then (spawn_thread_by_tid (t_tid (thr s p)) (set_current_thread (t_tid (thr s p)) 0 s))
            (\<lambda>(e, s1). Inr (Enter e, s1))
     else Inr (Return (), s))"

definition tsOnFinishedExecuting :: "input_handlers \<Rightarrow> addr \<Rightarrow> kstate \<Rightarrow> (unit flow \<times> kstate) outcome" where
  "tsOnFinishedExecuting h t s =
    (if t = NULL then Inl (Panic ''__tsOnFinishedExecuting: t'')
     else if t_magic (thr s t) \<noteq> 1234 then Inl (Panic ''__tsOnFinishedExecuting: t magic'')
     else let s1 = (if t_state (thr s t) = RUNNING
                    then upd_thr t (\<lambda>x. x\<lparr>t_state := READY, t_readyCount := 0, t_preempted := True\<rparr>) s
                    else s)
          in flow_then (ts_spawn_standby s1) (\<lambda>_ s2.
               let s3 = (if dead_thread_collector_status s2 then check_for_dead_thread_collector s2 else s2)
               in and_then (if t_tid (thr s3 t) = INIT_TID \<and> t_its_my_party (thr s3 t) then tsCry 0 s3 else Inr s3)
                    (\<lambda>s4. and_then (ts_deferred_event h s4) (\<lambda>s5. Inr (Return (), s5)))))"

section \<open>The switch\<close>

definition JIFFY_FREQ :: u64 where "JIFFY_FREQ = 1000"

text \<open>Validation of the current thread and its process; the process becomes current.\<close>

definition ts_validate :: "int \<Rightarrow> kstate \<Rightarrow> (addr \<times> kstate) outcome" where
  "ts_validate cpu s =
    (let CurrentTID = l_current_tid (lapic_info s (nat cpu)); p = thr_at s CurrentTID;
         te_id = t_tgid (thr s p); q = teList s (nat te_id)
     in if cpu < 0 \<or> NR_CPUS \<le> cpu then Inl (Panic ''__thread_switch: __lapic_info_id'')
        else if \<not> tid_ok CurrentTID then Inl (Panic ''ts: CurrentTID'')
        else if p = NULL then Inl (Panic ''ts: CurrentThread'')
        else if \<not> t_used (thr s p) \<or> t_magic (thr s p) \<noteq> 1234 then Inl (Panic ''ts: CurrentThread validation'')
        else if te_id < 0 \<or> int PROCESS_COUNT_MAX \<le> te_id then Inl (Panic ''ts: te_id'')
        else if q = NULL then Inl (Panic ''ts: CurrentProcess'')
        else if \<not> p_used (tes s q) \<or> p_magic (tes s q) \<noteq> 1234 then Inl (Panic ''ts: CurrentProcess validation'')
        else if p_pid (tes s q) \<noteq> te_id then Inl (Panic ''ts: CurrentProcess->pid != te_id'')
        else Inr (p, set_current_process te_id 0 s))"

text \<open>Time accounting, in 64-bit arithmetic.\<close>

definition ts_account :: "thread_d \<Rightarrow> thread_d" where
  "ts_account t =
    (let step = t_step t + 1; run = t_runningCount t + 1
     in t\<lparr>t_step := step, t_total_time_ms := (step * 1000) div JIFFY_FREQ, t_runningCount := run,
          t_runningCount_ms := (run * 1000) div JIFFY_FREQ\<rparr>)"

text \<open>A sleep request is honoured at the next tick: the thread waits for the requested time.\<close>

definition wants_sleep :: "thread_d \<Rightarrow> bool" where
  "wants_sleep t \<longleftrightarrow> sleep_in_progress (t_Deferred t) \<and> sleep_phase (t_Deferred t) = 1"

definition fall_asleep :: "u64 \<Rightarrow> thread_d \<Rightarrow> thread_d" where
  "fall_asleep now t = t\<lparr>t_Deferred := (t_Deferred t)\<lparr>sleep_phase := 2\<rparr>, t_runningCount := t_quantum t,
     t_state := WAITING, t_waiting_jiffy := now, t_wake_jiffy := now + desired_sleep_ms (t_Deferred t)\<rparr>"

text \<open>
  Saving: from here on the thread can be resumed later. A pending callback forbids it. A thread that
  asked for the end of its quantum is given a full running count.
\<close>

definition ts_save :: "addr \<Rightarrow> kstate \<Rightarrow> kstate outcome" where
  "ts_save p s =
    (if t_callback_in_progress (thr s p) then Inl (Panic ''ts: Cant save context. Callback in progress'')
     else and_then (arch_save_context 0 s) (\<lambda>s1.
       let s2 = upd_thr p (\<lambda>t. t\<lparr>t_saved := True\<rparr>) s1
       in Inr (if t_end_quantum_requested (thr s2 p)
               then upd_thr p (\<lambda>t. t\<lparr>t_end_quantum_requested := False, t_runningCount := t_quantum t\<rparr>) s2
               else s2)))"

text \<open>
  The label ZeroGravity: the next thread of the run queue, which must be ready, or a new round.
  The run queue is always that of processor 0.
\<close>

definition ts_zero_gravity :: "int \<Rightarrow> kstate \<Rightarrow> kstate outcome" where
  "ts_zero_gravity cpu s =
    (let nxt = t_next (thr s (l_currentq (lapic_info s 0))) in
     if UP_threads_counter s = 0 then Inl (Panic ''ts: No threads'')
     else if nxt \<noteq> NULL then
       (let s1 = upd_lapic 0 (\<lambda>l. l\<lparr>l_currentq := nxt\<rparr>) s in
        if t_used (thr s1 nxt) \<and> t_magic (thr s1 nxt) = 1234 \<and> t_state (thr s1 nxt) = READY
        then Inr (upd_lapic (nat cpu) (\<lambda>l. l\<lparr>l_current_tid := t_tid (thr s1 nxt)\<rparr>) s1)
        else Inl (Panic ''ts: Unexpected error''))
     else and_then (psScheduler s) (\<lambda>(tid, s1). Inr (upd_lapic (nat cpu) (\<lambda>l. l\<lparr>l_current_tid := tid\<rparr>) s1)))"

text \<open>
  The choice at the label dispatch_current: a thread that is not ready, or that sleeps, is replaced by
  the Init thread, made ready; the processor's current tid keeps its value.
\<close>

definition make_init_ready :: "kstate \<Rightarrow> kstate" where
  "make_init_ready s = upd_thr (InitThread s) (\<lambda>t. t\<lparr>t_state := READY, t_next := NULL\<rparr>) s"

definition ts_target :: "addr \<Rightarrow> kstate \<Rightarrow> (addr \<times> kstate) outcome" where
  "ts_target p s =
    (let (p1, s1) = (if t_state (thr s p) \<noteq> READY then (InitThread s, make_init_ready s) else (p, s))
     in if sleep_in_progress (t_Deferred (thr s1 p1)) then
          (if p1 = InitThread s1 then Inl (Panic ''__thread_switch: Init thread [idle] is sleeping #test'')
           else Inr (InitThread s1, make_init_ready s1))
        else Inr (p1, s1))"

definition clear_counters :: "thread_d \<Rightarrow> thread_d" where
  "clear_counters t = t\<lparr>t_standbyCount := 0, t_standbyCount_ms := 0, t_runningCount := 0,
     t_runningCount_ms := 0, t_readyCount := 0, t_readyCount_ms := 0, t_waitingCount := 0,
     t_waitingCount_ms := 0, t_blockedCount := 0, t_blockedCount_ms := 0,
     t_base_priority := (if PRIORITY_MAX < t_base_priority t then PRIORITY_MAX else t_base_priority t),
     t_priority := (if PRIORITY_MAX < t_priority t then PRIORITY_MAX else t_priority t),
     t_quantum := (if QUANTUM_MAX < t_quantum t then QUANTUM_MAX else t_quantum t)\<rparr>"

text \<open>After the dispatcher: the target's process becomes current and must have a page table.\<close>

definition ts_enter_process :: "addr \<Rightarrow> kstate \<Rightarrow> kstate outcome" where
  "ts_enter_process p s =
    (let pid = t_tgid (thr s p); q = teList s (nat pid) in
     if pid < 0 \<or> int THREAD_COUNT_MAX \<le> pid then Inl (Die ''ts: targetthread_OwnerPID ERROR'')
     else if q = NULL then Inl (Die ''ts: TargetProcess struct fail'')
     else if \<not> p_used (tes s q) \<or> p_magic (tes s q) \<noteq> 1234 then Inl (Die ''ts: TargetProcess validation'')
     else if p_pid (tes s q) \<noteq> pid then Inl (Panic ''ts: TargetProcess->pid != targetthread_OwnerPID'')
     else if p_pml4_PA (tes s q) = 0 then Inl (Die ''ts: Process pml4 fail'')
     else Inr (set_current_process (p_pid (tes s q)) 0 s))"

definition ts_dispatch_current :: "int \<Rightarrow> kstate \<Rightarrow> kstate outcome" where
  "ts_dispatch_current cpu s =
    (let tid = l_current_tid (lapic_info s (nat cpu)); p0 = thr_at s tid in
     if \<not> tid_ok tid then Inl (Panic ''ts-dispatch_current: current_tid'')
     else if p0 = NULL then Inl (Panic ''ts-dispatch_current: TargetThread'')
     else if \<not> t_used (thr s p0) \<or> t_magic (thr s p0) \<noteq> 1234 then Inl (Panic ''ts-dispatch_current: validation'')
     else and_then (ts_target p0 s) (\<lambda>(p, s1).
       and_then (IncrementDispatcherCount SELECT_DISPATCHER_COUNT (upd_thr p clear_counters s1)) (\<lambda>s2.
       and_then (dispatcher DISPATCHER_CURRENT s2) (ts_enter_process p))))"

text \<open>Select and dispatch; the switcher's result is then 0.\<close>

definition ts_switch :: "int \<Rightarrow> kstate \<Rightarrow> (u64 flow \<times> kstate) outcome" where
  "ts_switch cpu s = and_then (ts_zero_gravity cpu s) (\<lambda>s1.
     and_then (ts_dispatch_current cpu s1) (\<lambda>s2. Inr (Return 0, s2)))"

text \<open>The thread goes on: the selection is counted and the result is 0x80.\<close>

definition ts_continue :: "kstate \<Rightarrow> (u64 flow \<times> kstate) outcome" where
  "ts_continue s = and_then (IncrementDispatcherCount SELECT_CURRENT_COUNT s) (\<lambda>s1. Inr (Return 0x80, s1))"

definition ts_sleep :: "addr \<Rightarrow> kstate \<Rightarrow> kstate" where
  "ts_sleep p s = upd_thr p (fall_asleep (jiffies s)) s"

text \<open>The decision once the context is saved.\<close>

definition ts_decide :: "input_handlers \<Rightarrow> int \<Rightarrow> addr \<Rightarrow> kstate \<Rightarrow> (u64 flow \<times> kstate) outcome" where
  "ts_decide h cpu p s =
    (if \<not> t_is_preemptable (thr s p) then ts_continue s
     else if t_runningCount (thr s p) < t_quantum (thr s p) then
       (if wants_sleep (thr s p) then ts_switch cpu (ts_sleep p s) else ts_continue s)
     else flow_then (tsOnFinishedExecuting h p s) (\<lambda>_ s1.
       if wants_sleep (thr s1 p) then ts_switch cpu (ts_sleep p s1) else ts_switch cpu s1))"

definition thread_switch :: "input_handlers \<Rightarrow> int \<Rightarrow> kstate \<Rightarrow> (u64 flow \<times> kstate) outcome" where
  "thread_switch h cpu s0 =
    and_then (ts_validate cpu s0) (\<lambda>(p, s1).
      let s = upd_thr p ts_account s1 in
      if task_switch_status s = LOCKED
      then and_then (IncrementDispatcherCount SELECT_CURRENT_COUNT s) (\<lambda>s2. Inr (Return 0, s2))
      else and_then (ts_save p s) (ts_decide h cpu p))"

text \<open>What the entry point does once a thread is current: deliver a callback and note the ring.\<close>

definition ts_finish :: "u64 \<Rightarrow> kstate \<Rightarrow> (u64 flow \<times> kstate) outcome" where
  "ts_finish rv s =
    (let tid = l_current_tid (lapic_info s 0); t = thr_at s tid in
     if \<not> tid_ok tid then Inl (Die ''psTaskSwitch: CurrentTID'')
     else let s1 = (if t_is_alertable (thr s t)
                    then upd_thr t (\<lambda>x. x\<lparr>t_is_alertable := False, t_callback_in_progress := True\<rparr>)
                           (s\<lparr>f_callback_requested := 0x1234, ring3_callback_address := t_cb_r3_address (thr s t)\<rparr>)
                    else s);
              s2 = (if t_cpl (thr s1 t) = 0 then set_irql IRQL_R0_THREAD_IS_RUNNING s1
                    else if t_cpl (thr s1 t) = 3 then set_irql IRQL_R3_THREAD_IS_RUNNING s1
                    else s1)
          in Inr (Return rv, s2))"

text \<open>The entry point; \<open>hw_id\<close> is the identifier the local APIC reports.\<close>

definition tsThreadSwitch :: "input_handlers \<Rightarrow> int \<Rightarrow> kstate \<Rightarrow> (u64 flow \<times> kstate) outcome" where
  "tsThreadSwitch h hw_id s0 =
    (let s = set_irql IRQL_DISPATCHER s0; pid = get_current_process 0 s in
     if hw_id \<noteq> 0 then Inl (Panic ''tsThreadSwitch: Not in BSP'')
     else if pid < 0 \<or> int PROCESS_COUNT_MAX \<le> pid then Inl (Die ''psTaskSwitch: current_process_pid'')
     else if \<not> tid_ok (l_current_tid (lapic_info s 0)) then Inl (Die ''psTaskSwitch: CurrentTID'')
     else flow_then (thread_switch h hw_id s) ts_finish)"

section \<open>The thread table\<close>

lemma keeps_table_frames [simp]:
  "keeps_table s (s'\<lparr>dispatch_counts := d\<rparr>) = keeps_table s s'"
  "keeps_table s (s'\<lparr>UP_CurrentThread := p\<rparr>) = keeps_table s s'"
  "keeps_table s (s'\<lparr>cpu_context := c\<rparr>) = keeps_table s s'"
  "keeps_table s (s'\<lparr>gszLastStackFrame := n\<rparr>) = keeps_table s s'"
  "keeps_table s (s'\<lparr>task_switch_status := l\<rparr>) = keeps_table s s'"
  "keeps_table s (s'\<lparr>dead_thread_collector_flag := n\<rparr>) = keeps_table s s'"
  "keeps_table s (s'\<lparr>f_callback_requested := u, ring3_callback_address := v\<rparr>) = keeps_table s s'"
  "keeps_table s (load_pml4_table pa s') = keeps_table s s'"
  "keeps_table s (set_irql level s') = keeps_table s s'"
  "keeps_table s (set_current_process pid cpu s') = keeps_table s s'"
  "keeps_table s (set_current_thread tid cpu s') = keeps_table s s'"
  "keeps_table s (mark_process_running pid s') = keeps_table s s'"
  "keeps_table s (scheduler_unlock s') = keeps_table s s'"
  "keeps_table s (check_for_dead_thread_collector s') = keeps_table s s'"
  by (rule keeps_table_cong; simp add: load_pml4_table_def set_irql_def set_current_process_def set_current_thread_def
      mark_process_running_def scheduler_unlock_def check_for_dead_thread_collector_def Let_def)+

lemma message_queue_fields [simp]:
  "t_MsgQueue (run_thread t) = t_MsgQueue t" "t_MsgQueueHead (run_thread t) = t_MsgQueueHead t"
  "t_MsgQueueTail (run_thread t) = t_MsgQueueTail t"
  "t_MsgQueue (ts_account t) = t_MsgQueue t" "t_MsgQueueHead (ts_account t) = t_MsgQueueHead t"
  "t_MsgQueueTail (ts_account t) = t_MsgQueueTail t"
  "t_MsgQueue (clear_counters t) = t_MsgQueue t" "t_MsgQueueHead (clear_counters t) = t_MsgQueueHead t"
  "t_MsgQueueTail (clear_counters t) = t_MsgQueueTail t"
  "t_MsgQueue (fall_asleep j t) = t_MsgQueue t" "t_MsgQueueHead (fall_asleep j t) = t_MsgQueueHead t"
  "t_MsgQueueTail (fall_asleep j t) = t_MsgQueueTail t"
  "t_MsgQueue (fresh_thread j i t) = t_MsgQueue t" "t_MsgQueueHead (fresh_thread j i t) = t_MsgQueueHead t"
  "t_MsgQueueTail (fresh_thread j i t) = t_MsgQueueTail t"
  by (simp_all add: run_thread_def ts_account_def clear_counters_def fall_asleep_def fresh_thread_def Let_def)

text \<open>
  The handlers belong to the window manager and the console, which are not modelled. They may run commands that
  allocate memory, post messages and create threads. A handler may therefore extend the table: a thread that was in
  it stays in its slot with its tid and its ring, a thread that was added carries the number of its slot and has a
  well-formed ring, and the heap stays well formed. The Init thread and the idle thread stay who they are. Nothing
  is assumed about the states, the contexts and the priorities of the threads.
\<close>

definition extends_table :: "kstate \<Rightarrow> kstate \<Rightarrow> bool" where
  "extends_table s s' \<longleftrightarrow> InitThread s' = InitThread s \<and> UP_IdleThread s' = UP_IdleThread s \<and>
     (\<forall>i. threadList s i \<noteq> NULL \<longrightarrow> threadList s' i = threadList s i \<and>
        t_tid (thr s' (threadList s i)) = t_tid (thr s (threadList s i)) \<and>
        (msg_ring_ok s (threadList s i) \<longrightarrow> msg_ring_ok s' (threadList s i))) \<and>
     (\<forall>i. threadList s i = NULL \<and> threadList s' i \<noteq> NULL \<longrightarrow>
        t_tid (thr s' (threadList s' i)) = int i \<and> msg_ring_ok s' (threadList s' i)) \<and>
     (heap_inv (heap s) \<longrightarrow> heap_inv (heap s'))"

definition handlers_ok :: "input_handlers \<Rightarrow> bool" where
  "handlers_ok h \<longleftrightarrow>
    (\<forall>a b c d s s'. wmRawKeyEvent h a b c d s = Inr s' \<longrightarrow> extends_table s s') \<and>
    (\<forall>e x y s s'. wmMouseEvent h e x y s = Inr s' \<longrightarrow> extends_table s s')"

lemma keeps_extends: "keeps_table s s' \<Longrightarrow> extends_table s s'"
  by (simp add: keeps_table_def extends_table_def)

lemma extends_table_refl [simp]: "extends_table s s"
  by (simp add: keeps_extends)

lemma extends_table_trans:
  assumes 1: "extends_table s s1" and 2: "extends_table s1 s2"
  shows "extends_table s s2"
proof -
  have new: "t_tid (thr s2 (threadList s2 i)) = int i \<and> msg_ring_ok s2 (threadList s2 i)"
    if "threadList s i = NULL" "threadList s2 i \<noteq> NULL" for i
  proof (cases "threadList s1 i = NULL")
    case False
    with 1 that(1) have "t_tid (thr s1 (threadList s1 i)) = int i" "msg_ring_ok s1 (threadList s1 i)"
      by (simp_all add: extends_table_def)
    moreover have "threadList s2 i = threadList s1 i" "t_tid (thr s2 (threadList s1 i)) = t_tid (thr s1 (threadList s1 i))"
      "msg_ring_ok s1 (threadList s1 i) \<longrightarrow> msg_ring_ok s2 (threadList s1 i)"
      using 2 False unfolding extends_table_def by blast+
    ultimately show ?thesis by simp
  qed (use 2 that(2) in \<open>simp add: extends_table_def\<close>)
  have old: "threadList s2 i = threadList s i \<and> t_tid (thr s2 (threadList s i)) = t_tid (thr s (threadList s i)) \<and>
      (msg_ring_ok s (threadList s i) \<longrightarrow> msg_ring_ok s2 (threadList s i))" if i: "threadList s i \<noteq> NULL" for i
  proof -
    have a: "threadList s1 i = threadList s i" "t_tid (thr s1 (threadList s i)) = t_tid (thr s (threadList s i))"
      "msg_ring_ok s (threadList s i) \<longrightarrow> msg_ring_ok s1 (threadList s i)"
      using 1 i unfolding extends_table_def by blast+
    then have "threadList s1 i \<noteq> NULL" using i by simp
    then have "threadList s2 i = threadList s1 i" "t_tid (thr s2 (threadList s1 i)) = t_tid (thr s1 (threadList s1 i))"
      "msg_ring_ok s1 (threadList s1 i) \<longrightarrow> msg_ring_ok s2 (threadList s1 i)"
      using 2 unfolding extends_table_def by blast+
    with a show ?thesis by simp
  qed
  show ?thesis using 1 2 new old by (simp add: extends_table_def)
qed

lemma keeps_table_count: "IncrementDispatcherCount type s = Inr s' \<Longrightarrow> keeps_table s s'"
  by (auto dest: IncrementDispatcherCount_Inr)

lemma keeps_table_save: "arch_save_context i s = Inr s' \<Longrightarrow> keeps_table s s'"
  by (drule save_effect(5)) simp

lemma keeps_table_spawn: "spawn_thread_by_tid tid s = Inr (e, s') \<Longrightarrow> keeps_table s s'"
  by (simp add: spawn_Inr_iff spawned_def Let_def fresh_thread_def)

lemma extends_table_event: "handlers_ok h \<Longrightarrow> ts_deferred_event h s = Inr s' \<Longrightarrow> extends_table s s'"
proof -
  assume h: "handlers_ok h" and e: "ts_deferred_event h s = Inr s'"
  obtain slot s1 where g: "qf_get_message s = (slot, s1)" by force
  have k: "extends_table s s1"
    using g by (auto simp: qf_get_message_def intro: keeps_extends split: prod.splits)
  from e g have "extends_table s1 s' \<or> s' = s"
    using h unfolding ts_deferred_event_def handlers_ok_def
    by (auto simp: Let_def split: if_splits prod.splits)
  with k show "extends_table s s'" by (auto intro: extends_table_trans)
qed

lemma ts_validate_Inr:
  assumes "ts_validate cpu s = Inr (p, s')"
  shows "0 \<le> cpu" "cpu < NR_CPUS" "current_valid s (nat cpu)" "p = thr_at s (l_current_tid (lapic_info s (nat cpu)))"
    "s' = upd_lapic 0 (\<lambda>l. l\<lparr>l_current_pid := t_tgid (thr s p)\<rparr>) s"
  using assms by (auto simp: ts_validate_def Let_def current_valid_def thr_ok_def set_current_process_eq split: if_splits)

lemma keeps_table_zero_gravity: "ts_zero_gravity cpu s = Inr s' \<Longrightarrow> keeps_table s s'"
  using psScheduler_keeps [of s]
  by (auto simp: ts_zero_gravity_def Let_def split: if_splits elim!: and_then_InrE)

lemma keeps_table_make_init [simp]: "keeps_table s (make_init_ready s') = keeps_table s s'"
  by (simp add: make_init_ready_def)

lemma keeps_table_target: "ts_target p s = Inr (q, s') \<Longrightarrow> keeps_table s s'"
  by (auto simp: ts_target_def split: if_splits prod.splits)

text \<open>What a returning dispatcher has done, for any ring.\<close>

lemma dispatcher_Inr:
  assumes "dispatcher type s = Inr s'"
  shows "\<exists>n. s' = load_pml4_table (t_pml4_PA (thr s (current_ptr s)))
     (upd_thr (current_ptr s) (\<lambda>t. (run_thread t)\<lparr>t_saved := False, t_to_user := n\<rparr>) s)
       \<lparr>UP_CurrentThread := current_ptr s,
        cpu_context := restore_registers (t_context (thr s (current_ptr s))) (cpu_context s)\<rparr>"
proof -
  let ?p = "current_ptr s"
  let ?s1 = "upd_thr ?p (\<lambda>t. t\<lparr>t_saved := False\<rparr>) ((upd_thr ?p run_thread s)\<lparr>UP_CurrentThread := ?p\<rparr>)"
  let ?s2 = "?s1\<lparr>cpu_context := restore_registers (t_context (thr s ?p)) (cpu_context s)\<rparr>"
  from assms have "arch_restore_context 0 ?s1 = Inr s'"
    by (auto simp: dispatcher_def Let_def current_ptr_def split: if_splits)
  moreover have "thr_at ?s1 (l_current_tid (lapic_info ?s1 0)) = ?p" by (simp add: current_ptr_def)
  ultimately have "and_then (restore_ring ?p ?s2) (\<lambda>s1. Inr (load_pml4_table (t_pml4_PA (thr s1 ?p)) s1)) = Inr s'"
    by (auto simp: arch_restore_context_def Let_def split: if_splits)
  then obtain s3 where r: "restore_ring ?p ?s2 = Inr s3" and s': "s' = load_pml4_table (t_pml4_PA (thr s3 ?p)) s3"
    by (auto elim: and_then_InrE)
  from r have "s3 = upd_thr ?p (\<lambda>t. t\<lparr>t_to_user := t_to_user t + 1\<rparr>) ?s2 \<or> s3 = ?s2"
    by (auto simp: restore_ring_def CONFIG_ALLOW_RING0_CONTEXT_RESTORE_def split: if_splits)
  then show ?thesis
  proof
    assume "s3 = upd_thr ?p (\<lambda>t. t\<lparr>t_to_user := t_to_user t + 1\<rparr>) ?s2"
    then show ?thesis using s'
      by (intro exI [where x = "t_to_user (thr s ?p) + 1"]) (simp add: upd_thr_def load_pml4_table_def run_thread_def)
  next
    assume "s3 = ?s2"
    then show ?thesis using s'
      by (intro exI [where x = "t_to_user (thr s ?p)"]) (simp add: upd_thr_def load_pml4_table_def run_thread_def)
  qed
qed

text \<open>What a returning dispatch establishes, whichever thread was selected.\<close>

definition dispatched :: "kstate \<Rightarrow> bool" where
  "dispatched s \<longleftrightarrow> current_valid s 0 \<and> t_state (thr s (current_ptr s)) = RUNNING \<and>
     \<not> t_saved (thr s (current_ptr s)) \<and> UP_CurrentThread s = current_ptr s \<and>
     cr3 s = t_pml4_PA (thr s (current_ptr s)) \<and>
     cpu_context s = restore_registers (t_context (thr s (current_ptr s))) (cpu_context s) \<and> PRIORITY_MIN \<le> t_priority (thr s (current_ptr s)) \<and>
     QUANTUM_MIN \<le> t_quantum (thr s (current_ptr s)) \<and> t_cpl (thr s (current_ptr s)) \<ge> 3"

lemma restore_again: "restore_registers x (restore_registers x c) = restore_registers x c"
  by (auto simp: restore_registers_def fun_eq_iff)

lemma dispatcher_dispatched:
  assumes d: "dispatcher type s = Inr s'"
  shows "dispatched s' \<and> keeps_table s s' \<and> lapic_info s' = lapic_info s"
proof -
  have n: "current_valid s 0" "t_cpl (thr s (current_ptr s)) \<ge> 3" using dispatcher_needs [OF d] by auto
  obtain n where s': "s' = load_pml4_table (t_pml4_PA (thr s (current_ptr s)))
     (upd_thr (current_ptr s) (\<lambda>t. (run_thread t)\<lparr>t_saved := False, t_to_user := n\<rparr>) s)
       \<lparr>UP_CurrentThread := current_ptr s,
        cpu_context := restore_registers (t_context (thr s (current_ptr s))) (cpu_context s)\<rparr>"
    using dispatcher_Inr [OF d] by blast
  have c: "current_ptr s' = current_ptr s" unfolding s' by (simp add: current_ptr_def load_pml4_table_def)
  have l: "lapic_info s' = lapic_info s" "threadList s' = threadList s"
    unfolding s' by (simp_all add: load_pml4_table_def)
  have t: "thr s' (current_ptr s) = (run_thread (thr s (current_ptr s)))\<lparr>t_saved := False, t_to_user := n\<rparr>"
    unfolding s' by (simp add: load_pml4_table_def)
  have "current_valid s' 0" using n(1) t by (simp add: current_valid_ptr c l thr_ok_def)
  moreover have "keeps_table s s'" unfolding s' by simp
  ultimately show ?thesis
    using run_thread_bounds [of "thr s (current_ptr s)"] n(2) l(1)
    by (simp add: dispatched_def c t) (simp add: s' load_pml4_table_def restore_again)
qed

lemma dispatched_frames [simp]:
  "dispatched (set_current_process pid 0 s) = dispatched s" "dispatched (set_irql level s) = dispatched s"
  by (simp_all add: dispatched_def current_valid_def current_ptr_def thr_ok_def set_current_process_def set_irql_def)

lemma set_current_process_tid [simp]:
  "l_current_tid (lapic_info (set_current_process pid n s) m) = l_current_tid (lapic_info s m)"
  by (simp add: set_current_process_def)

lemma ts_enter_process_Inr:
  assumes "ts_enter_process p s = Inr s'"
  shows "s' = set_current_process (t_tgid (thr s p)) 0 s"
  using assms by (auto simp: ts_enter_process_def Let_def split: if_splits)

lemma ts_target_lapic: "ts_target p s = Inr (q, s') \<Longrightarrow> lapic_info s' = lapic_info s"
  by (auto simp: ts_target_def make_init_ready_def split: if_splits prod.splits)

lemma ts_dispatch_current_Inr:
  assumes "ts_dispatch_current cpu s = Inr s'"
  shows "dispatched s' \<and> keeps_table s s' \<and>
    l_current_tid (lapic_info s' 0) = l_current_tid (lapic_info s 0)"
proof -
  from assms obtain p s1 s2 s3 where
    t: "ts_target (thr_at s (l_current_tid (lapic_info s (nat cpu)))) s = Inr (p, s1)" and
    c: "IncrementDispatcherCount SELECT_DISPATCHER_COUNT (upd_thr p clear_counters s1) = Inr s2" and
    d: "dispatcher DISPATCHER_CURRENT s2 = Inr s3" and e: "ts_enter_process p s3 = Inr s'"
    by (auto simp: ts_dispatch_current_def Let_def split: if_splits elim!: and_then_InrE)
  have "keeps_table s (upd_thr p clear_counters s1)"
    using keeps_table_target [OF t] by (simp add: clear_counters_def)
  from keeps_table_trans [OF this keeps_table_count [OF c]] have "keeps_table s s2" .
  moreover have "lapic_info s2 = lapic_info s"
    using IncrementDispatcherCount_Inr [OF c] ts_target_lapic [OF t] by auto
  ultimately show ?thesis
    using dispatcher_dispatched [OF d] ts_enter_process_Inr [OF e]
    by (auto intro: keeps_table_trans)
qed

lemma ts_switch_Inr:
  assumes "ts_switch cpu s = Inr (r, s')"
  shows "r = Return 0 \<and> dispatched s' \<and> keeps_table s s'"
  using assms
  by (auto simp: ts_switch_def elim!: and_then_InrE
      dest: ts_dispatch_current_Inr keeps_table_zero_gravity intro: keeps_table_trans)

lemma ts_continue_Inr:
  assumes "ts_continue s = Inr (r, s')"
  shows "r = Return 0x80 \<and> (\<exists>d. s' = s\<lparr>dispatch_counts := d\<rparr>)"
  using assms by (auto simp: ts_continue_def elim!: and_then_InrE dest: IncrementDispatcherCount_Inr)

text \<open>What holds when a thread is entered for the first time: it starts where its initial context says.\<close>

definition entered :: "user_entry \<Rightarrow> kstate \<Rightarrow> bool" where
  "entered e s \<longleftrightarrow> current_valid s 0 \<and> t_state (thr s (current_ptr s)) = RUNNING \<and>
     cr3 s = t_pml4_PA (thr s (current_ptr s)) \<and> entry_rip e = c_rip (t_context (thr s (current_ptr s))) \<and>
     entry_rsp e = c_rsp (t_context (thr s (current_ptr s)))"

lemma spawned_current:
  assumes "spawn_thread_by_tid tid s = Inr (e, s')"
  shows "entered e s'"
proof -
  have s': "s' = spawned tid s" and sp: "spawnable tid s"
    and e: "entry_rip e = c_rip (t_context (thr s (thr_at s tid)))" "entry_rsp e = c_rsp (t_context (thr s (thr_at s tid)))"
    using assms by (auto simp: spawn_Inr_iff)
  define p where "p = thr_at s tid"
  have f: "thr (load_pml4_table pa s) = thr s" "lapic_info (load_pml4_table pa s) = lapic_info s"
    "threadList (load_pml4_table pa s) = threadList s" for pa s by (simp_all add: load_pml4_table_def)
  have l: "l_current_tid (lapic_info s' 0) = tid" "threadList s' = threadList s"
    unfolding s' spawned_def Let_def set_irql_def by (simp_all add: f)
  have t: "\<exists>n. thr s' p = (fresh_thread (jiffies s) (InitThread s) (thr s p))\<lparr>t_to_user := n\<rparr>"
    unfolding s' spawned_def Let_def set_irql_def p_def by (auto simp: f)
  have c: "cr3 s' = t_pml4_PA (thr s p)"
    unfolding s' spawned_def Let_def set_irql_def p_def by (simp add: load_pml4_table_def)
  have "current_ptr s' = p" by (simp add: current_ptr_def l p_def)
  with t l sp c e show ?thesis
    by (auto simp: entered_def current_valid_ptr spawnable_def thr_ok_def p_def [symmetric])
qed

lemma finished_executing_Inr:
  assumes f: "tsOnFinishedExecuting h t s = Inr (r, s')"
  shows "(handlers_ok h \<longrightarrow> extends_table s s') \<and> (\<forall>e. r = Enter e \<longrightarrow> entered e s')"
proof -
  let ?s1 = "if t_state (thr s t) = RUNNING
    then upd_thr t (\<lambda>x. x\<lparr>t_state := READY, t_readyCount := 0, t_preempted := True\<rparr>) s else s"
  have k1: "keeps_table s ?s1" by simp
  from f obtain x s2 where sp: "ts_spawn_standby ?s1 = Inr (x, s2)"
    by (auto simp: tsOnFinishedExecuting_def Let_def flow_then_def split: if_splits elim!: and_then_InrE)
  show ?thesis
  proof (cases x)
    case (Enter e)
    with f sp have r: "r = Enter e" "s' = s2"
      by (auto simp: tsOnFinishedExecuting_def Let_def flow_then_def split: if_splits)
    from sp Enter obtain tid where w: "spawn_thread_by_tid tid (set_current_thread tid 0 ?s1) = Inr (e, s2)"
      by (auto simp: ts_spawn_standby_def Let_def split: if_splits elim!: and_then_InrE)
    have "keeps_table ?s1 (set_current_thread tid 0 ?s1)" by simp
    then have "keeps_table ?s1 s2" using keeps_table_spawn [OF w] by (rule keeps_table_trans)
    with k1 spawned_current [OF w] r show ?thesis by (auto intro: keeps_extends keeps_table_trans)
  next
    case (Return u)
    with sp have s2: "s2 = ?s1" by (auto simp: ts_spawn_standby_def Let_def split: if_splits elim!: and_then_InrE)
    define s3 where "s3 = (if dead_thread_collector_status s2 then check_for_dead_thread_collector s2 else s2)"
    have k3: "keeps_table s s3" using k1 s2 by (simp add: s3_def)
    from f sp Return obtain s4 s5 where
      c: "(if t_tid (thr s3 t) = INIT_TID \<and> t_its_my_party (thr s3 t) then tsCry 0 s3 else Inr s3) = Inr s4"
      and e: "ts_deferred_event h s4 = Inr s5" and r: "r = Return ()" "s' = s5"
      by (auto simp: tsOnFinishedExecuting_def Let_def flow_then_def s3_def [symmetric] split: if_splits elim!: and_then_InrE)
    from c have "s4 = s3" by (auto simp: tsCry_def split: if_splits)
    with keeps_extends [OF k3] extends_table_event [OF _ e] r show ?thesis by (auto intro: extends_table_trans)
  qed
qed

lemma current_valid_count [simp]: "current_valid (s\<lparr>dispatch_counts := d\<rparr>) n = current_valid s n"
  by (simp add: current_valid_def thr_ok_def)

lemma current_valid_upd:
  "(\<And>x. t_used (f x) = t_used x) \<Longrightarrow> (\<And>x. t_magic (f x) = t_magic x) \<Longrightarrow>
     current_valid (upd_thr p f s) n = current_valid s n"
  by (simp add: current_valid_def thr_ok_def)

lemma ts_account_sel [simp]:
  "t_used (ts_account t) = t_used t" "t_magic (ts_account t) = t_magic t" "t_tid (ts_account t) = t_tid t"
  "t_state (ts_account t) = t_state t" "t_cpl (ts_account t) = t_cpl t" "t_quantum (ts_account t) = t_quantum t"
  "t_Deferred (ts_account t) = t_Deferred t" "t_is_preemptable (ts_account t) = t_is_preemptable t"
  "t_callback_in_progress (ts_account t) = t_callback_in_progress t" "t_context (ts_account t) = t_context t"
  "t_end_quantum_requested (ts_account t) = t_end_quantum_requested t" "t_pml4_PA (ts_account t) = t_pml4_PA t"
  "t_runningCount (ts_account t) = t_runningCount t + 1" "t_step (ts_account t) = t_step t + 1"
  by (simp_all add: ts_account_def Let_def)

text \<open>The interrupted thread goes on as it was.\<close>

definition goes_on :: "kstate \<Rightarrow> kstate \<Rightarrow> bool" where
  "goes_on s s' \<longleftrightarrow> l_current_tid (lapic_info s' 0) = l_current_tid (lapic_info s 0) \<and>
     cpu_context s' = cpu_context s \<and> cr3 s' = cr3 s"

lemma goes_on_trans: "goes_on s s1 \<Longrightarrow> goes_on s1 s2 \<Longrightarrow> goes_on s s2"
  by (simp add: goes_on_def)

lemma ts_save_Inr:
  assumes "ts_save p s = Inr s'"
  shows "keeps_table s s' \<and> goes_on s s' \<and> task_switch_status s' = task_switch_status s \<and>
    (current_valid s 0 \<longrightarrow> current_valid s' 0)"
proof -
  from assms obtain s1 where a: "arch_save_context 0 s = Inr s1" and
    s': "s' = (if t_end_quantum_requested (thr (upd_thr p (\<lambda>t. t\<lparr>t_saved := True\<rparr>) s1) p)
               then upd_thr p (\<lambda>t. t\<lparr>t_end_quantum_requested := False, t_runningCount := t_quantum t\<rparr>)
                      (upd_thr p (\<lambda>t. t\<lparr>t_saved := True\<rparr>) s1)
               else upd_thr p (\<lambda>t. t\<lparr>t_saved := True\<rparr>) s1)"
    by (auto simp: ts_save_def Let_def split: if_split_asm elim!: and_then_InrE)
  have v: "current_valid (s\<lparr>gszLastStackFrame := k\<rparr>) 0 = current_valid s 0" for s k
    by (simp add: current_valid_def thr_ok_def)
  show ?thesis
    using keeps_table_save [OF a] unfolding s' save_effect(5) [OF a]
    by (simp add: current_valid_upd v goes_on_def)
qed

lemma ts_decide_Inr:
  assumes d: "ts_decide h cpu p s = Inr (r, s')" and v: "current_valid s 0"
  shows "(handlers_ok h \<longrightarrow> extends_table s s') \<and>
    ((\<exists>e. r = Enter e \<and> entered e s') \<or> (r = Return 0 \<and> dispatched s') \<or>
     (r = Return 0x80 \<and> goes_on s s' \<and> current_valid s' 0))"
proof -
  have sleep: "extends_table s1 (ts_sleep p s1)" for s1 by (rule keeps_extends) (simp add: ts_sleep_def fall_asleep_def)
  have sw: ?thesis if "ts_switch cpu s1 = Inr (r, s')" "handlers_ok h \<longrightarrow> extends_table s s1" for s1
    using ts_switch_Inr [OF that(1)] that(2) by (auto intro: extends_table_trans keeps_extends)
  have co: ?thesis if "ts_continue s = Inr (r, s')"
    using ts_continue_Inr [OF that] v by (auto simp: goes_on_def intro: keeps_extends)
  consider (continue) "ts_continue s = Inr (r, s')" | (asleep) "ts_switch cpu (ts_sleep p s) = Inr (r, s')"
    | (expired) "flow_then (tsOnFinishedExecuting h p s) (\<lambda>_ s1.
       if wants_sleep (thr s1 p) then ts_switch cpu (ts_sleep p s1) else ts_switch cpu s1) = Inr (r, s')"
    using d by (auto simp: ts_decide_def split: if_split_asm)
  then show ?thesis
  proof cases
    case expired
    then obtain x s1 where f: "tsOnFinishedExecuting h p s = Inr (x, s1)"
      and e: "(case x of Return a \<Rightarrow> if wants_sleep (thr s1 p) then ts_switch cpu (ts_sleep p s1) else ts_switch cpu s1
        | Enter e \<Rightarrow> Inr (Enter e, s1)) = Inr (r, s')"
      by (auto simp: flow_then_def elim!: and_then_InrE)
    note k = finished_executing_Inr [OF f]
    show ?thesis
    proof (cases x)
      case (Return u)
      with e sw [of s1] sw [of "ts_sleep p s1"] k extends_table_trans [OF _ sleep, of s s1] show ?thesis
        by (auto split: if_split_asm)
    next
      case (Enter en)
      with e k show ?thesis by auto
    qed
  qed (use co sw [of "ts_sleep p s"] sleep [of s] in auto)
qed

text \<open>What holds after a call: a new thread, the thread that was dispatched, or the interrupted one.\<close>

definition switch_result :: "u64 flow \<Rightarrow> kstate \<Rightarrow> kstate \<Rightarrow> bool" where
  "switch_result r s s' \<longleftrightarrow> current_valid s' 0 \<and>
     (case r of Enter e \<Rightarrow> entered e s'
      | Return rv \<Rightarrow> (rv = 0 \<or> rv = 0x80) \<and>
          (if rv = 0 \<and> task_switch_status s = UNLOCKED then dispatched s' else goes_on s s'))"

lemma thread_switch_Inr:
  assumes t: "thread_switch h 0 s = Inr (r, s')"
  shows "(handlers_ok h \<longrightarrow> extends_table s s') \<and> switch_result r s s'"
proof -
  from t obtain p s1 where va: "ts_validate 0 s = Inr (p, s1)" and
    rest: "(if task_switch_status s1 = LOCKED
       then and_then (IncrementDispatcherCount SELECT_CURRENT_COUNT (upd_thr p ts_account s1)) (\<lambda>s2. Inr (Return 0, s2))
       else and_then (ts_save p (upd_thr p ts_account s1)) (ts_decide h 0 p)) = Inr (r, s')"
    by (auto simp: thread_switch_def Let_def elim!: and_then_InrE)
  note v = ts_validate_Inr [OF va]
  let ?s2 = "upd_thr p ts_account s1"
  have k2: "extends_table s ?s2" "current_valid ?s2 0" "task_switch_status s1 = task_switch_status s" "goes_on s ?s2"
    using v(3) unfolding v(5)
    by (auto simp: current_valid_def thr_ok_def goes_on_def intro: keeps_extends)
  show ?thesis
  proof (cases "task_switch_status s1 = LOCKED")
    case True
    with rest obtain d where "r = Return 0" "s' = ?s2\<lparr>dispatch_counts := d\<rparr>"
      by (auto elim!: and_then_InrE dest: IncrementDispatcherCount_Inr)
    moreover from this(2) have "extends_table ?s2 s'" "goes_on ?s2 s'" by (simp_all add: keeps_extends goes_on_def)
    ultimately show ?thesis
      using True k2 extends_table_trans [OF k2(1)] goes_on_trans [OF k2(4)] by (simp add: switch_result_def)
  next
    case False
    with rest obtain s3 where sv: "ts_save p ?s2 = Inr s3" and de: "ts_decide h 0 p s3 = Inr (r, s')"
      by (auto elim!: and_then_InrE)
    note s = ts_save_Inr [OF sv]
    with k2 have v3: "current_valid s3 0" by blast
    note d = ts_decide_Inr [OF de v3]
    have "extends_table s s3" using k2(1) s keeps_extends extends_table_trans by blast
    then have "handlers_ok h \<longrightarrow> extends_table s s'" using d extends_table_trans by blast
    moreover have "task_switch_status s \<noteq> LOCKED" using False k2 by simp
    moreover have "goes_on s s3" using k2(4) s goes_on_trans by blast
    ultimately show ?thesis
      using d goes_on_trans by (cases "task_switch_status s") (auto simp: switch_result_def dispatched_def entered_def)
  qed
qed

lemma set_irql_frames [simp]:
  "current_valid (set_irql l s) n = current_valid s n"
  "l_current_tid (lapic_info (set_irql l s) n) = l_current_tid (lapic_info s n)"
  "task_switch_status (set_irql l s) = task_switch_status s"
  by (simp_all add: set_irql_def current_valid_def thr_ok_def)

lemma ts_finish_Inr:
  assumes "ts_finish rv s = Inr (r, s')"
  shows "r = Return rv \<and> keeps_table s s' \<and> (current_valid s 0 \<longrightarrow> current_valid s' 0) \<and>
    goes_on s s' \<and> (dispatched s \<longrightarrow> dispatched s')"
proof -
  let ?t = "thr_at s (l_current_tid (lapic_info s 0))"
  define s1 where "s1 = (if t_is_alertable (thr s ?t)
    then upd_thr ?t (\<lambda>x. x\<lparr>t_is_alertable := False, t_callback_in_progress := True\<rparr>)
           (s\<lparr>f_callback_requested := 0x1234, ring3_callback_address := t_cb_r3_address (thr s ?t)\<rparr>)
    else s)"
  have s': "r = Return rv" "s' = s1 \<or> (\<exists>l. s' = set_irql l s1)"
    using assms unfolding ts_finish_def Let_def s1_def by (auto split: if_split_asm)
  have k: "keeps_table s s1" "goes_on s s1" by (simp_all add: s1_def goes_on_def)
  have c: "current_valid s 0 \<longrightarrow> current_valid s1 0" by (simp add: s1_def current_valid_def thr_ok_def)
  have d: "dispatched s \<longrightarrow> dispatched s1"
    using c unfolding dispatched_def by (auto simp: s1_def current_ptr_def)
  have irql: "keeps_table s (set_irql l s1) \<and> current_valid (set_irql l s1) 0 = current_valid s1 0 \<and>
      goes_on s (set_irql l s1) \<and>
      dispatched (set_irql l s1) = dispatched s1" for l
    using k by (simp add: goes_on_def) (simp add: set_irql_def)
  from s' k c d irql show ?thesis by auto
qed

section \<open>Running the switch forward\<close>

text \<open>The two states agree on everything the selection of a thread depends on, thread \<open>p\<close> apart.\<close>

definition same_but :: "addr \<Rightarrow> kstate \<Rightarrow> kstate \<Rightarrow> bool" where
  "same_but p s s' \<longleftrightarrow> (\<forall>q. q \<noteq> p \<longrightarrow> thr s' q = thr s q) \<and> threadList s' = threadList s \<and>
     t_tid (thr s' p) = t_tid (thr s p) \<and> t_tgid (thr s' p) = t_tgid (thr s p) \<and>
     t_next (thr s' p) = t_next (thr s p) \<and> t_cpl (thr s' p) = t_cpl (thr s p) \<and>
     tes s' = tes s \<and> teList s' = teList s \<and> InitThread s' = InitThread s \<and> jiffies s' = jiffies s \<and>
     UP_threads_counter s' = UP_threads_counter s \<and> task_switch_status s' = task_switch_status s \<and>
     cpu_context s' = cpu_context s \<and> DispatchCountBlock s' = DispatchCountBlock s \<and>
     dc_magic (dispatch_counts s') = dc_magic (dispatch_counts s) \<and>
     l_currentq (lapic_info s' 0) = l_currentq (lapic_info s 0) \<and>
     l_current_tid (lapic_info s' 0) = l_current_tid (lapic_info s 0)"

lemma same_but_refl [simp]: "same_but p s s"
  by (simp add: same_but_def)

lemma same_but_trans: "same_but p s s1 \<Longrightarrow> same_but p s1 s2 \<Longrightarrow> same_but p s s2"
  by (simp add: same_but_def)

lemma same_but_upd:
  "(\<And>x. t_tid (f x) = t_tid x) \<Longrightarrow> (\<And>x. t_tgid (f x) = t_tgid x) \<Longrightarrow> (\<And>x. t_next (f x) = t_next x) \<Longrightarrow>
     (\<And>x. t_cpl (f x) = t_cpl x) \<Longrightarrow> same_but p s (upd_thr p f s)"
  by (simp add: same_but_def)

lemma same_but_current: "same_but p s s' \<Longrightarrow> current_ptr s' = current_ptr s"
  by (simp add: same_but_def current_ptr_def)

lemma same_but_counters: "same_but p s s' \<Longrightarrow> counters_ok s' = counters_ok s"
  by (simp add: same_but_def counters_ok_def)

definition process_ok :: "kstate \<Rightarrow> int \<Rightarrow> bool" where
  "process_ok s pid \<longleftrightarrow> 0 \<le> pid \<and> pid < int PROCESS_COUNT_MAX \<and> teList s (nat pid) \<noteq> NULL \<and>
     p_used (tes s (teList s (nat pid))) \<and> p_magic (tes s (teList s (nat pid))) = 1234 \<and>
     p_pid (tes s (teList s (nat pid))) = pid"

text \<open>The processor interrupted a ring 3 thread that may be switched.\<close>

definition switchable :: "kstate \<Rightarrow> bool" where
  "switchable s \<longleftrightarrow> current_valid s 0 \<and> process_ok s (t_tgid (thr s (current_ptr s))) \<and>
     0 \<le> l_current_pid (lapic_info s 0) \<and> l_current_pid (lapic_info s 0) < int PROCESS_COUNT_MAX \<and>
     task_switch_status s = UNLOCKED \<and> \<not> t_callback_in_progress (thr s (current_ptr s)) \<and>
     t_cpl (thr s (current_ptr s)) = 3 \<and> unat (contextCPL s AND 3) = 3 \<and>
     t_is_preemptable (thr s (current_ptr s)) \<and> counters_ok s"

text \<open>The thread as it is saved: charged for the tick, its registers stored.\<close>

definition saved_thread :: "cpu_context_d \<Rightarrow> thread_d \<Rightarrow> thread_d \<Rightarrow> bool" where
  "saved_thread c t t' \<longleftrightarrow> t_context t' = save_registers c (t_context t) \<and> t_saved t' \<and>
     t_step t' = t_step t + 1 \<and> t_state t' = t_state t \<and> t_quantum t' = t_quantum t \<and>
     t_Deferred t' = t_Deferred t \<and> t_is_preemptable t' = t_is_preemptable t \<and>
     t_magic t' = t_magic t \<and> t_used t' = t_used t \<and> t_its_my_party t' = t_its_my_party t \<and>
     t_runningCount t' = (if t_end_quantum_requested t then t_quantum t else t_runningCount t + 1)"

lemma switch_start:
  assumes "switchable s"
  defines "p \<equiv> current_ptr s"
  shows "\<exists>s1. thread_switch h 0 s = ts_decide h 0 p s1 \<and> same_but p s s1 \<and>
    saved_thread (cpu_context s) (thr s p) (thr s1 p) \<and> l_DPC_QUEUE (lapic_info s1 0) = l_DPC_QUEUE (lapic_info s 0)"
proof -
  define s0 where "s0 = upd_thr p ts_account (upd_lapic 0 (\<lambda>l. l\<lparr>l_current_pid := t_tgid (thr s p)\<rparr>) s)"
  have a: "same_but p s s0" by (simp add: s0_def same_but_def ts_account_def Let_def)
  have c: "current_valid s0 0" "current_ptr s0 = p" "cpu_context s0 = cpu_context s" "contextCPL s0 = contextCPL s"
    using assms by (auto simp: s0_def switchable_def current_valid_def current_ptr_def thr_ok_def)
  have t0: "thr s0 p = ts_account (thr s p)" by (simp add: s0_def)
  have v: "ts_validate 0 s = Inr (p, upd_lapic 0 (\<lambda>l. l\<lparr>l_current_pid := t_tgid (thr s p)\<rparr>) s)"
    using assms by (simp add: ts_validate_def Let_def switchable_def current_valid_ptr current_ptr_def process_ok_def
        thr_ok_def NR_CPUS_def set_current_process_eq)
  obtain s2 where s2: "arch_save_context 0 s0 = Inr s2"
    using save_returns [OF c(1)] assms c t0 by (auto simp: switchable_def)
  have e: "s2 = (upd_thr p (\<lambda>t. t\<lparr>t_context := save_registers (cpu_context s) (t_context t),
        t_to_supervisor := t_to_supervisor t + 1,
        t_rflags_current_iopl := ucast (r_rflags (cpu_context s) AND 0x200)\<rparr>) s0)\<lparr>gszLastStackFrame := 5\<rparr>"
    using save_effect(5) [OF s2] c by simp
  define s3 where "s3 = upd_thr p (\<lambda>t. t\<lparr>t_saved := True\<rparr>) s2"
  define s4 where "s4 = (if t_end_quantum_requested (thr s3 p)
    then upd_thr p (\<lambda>t. t\<lparr>t_end_quantum_requested := False, t_runningCount := t_quantum t\<rparr>) s3 else s3)"
  have ncb: "\<not> t_callback_in_progress (thr s0 p)" unfolding t0 using assms by (simp add: switchable_def)
  have sv: "ts_save p s0 = Inr s4"
    unfolding ts_save_def s4_def s3_def by (simp only: ncb s2 and_then_simps Let_def if_False)
  have st: "task_switch_status s = UNLOCKED" using assms by (simp add: switchable_def)
  have "thread_switch h 0 s = ts_decide h 0 p s4"
    using v st sv by (simp add: thread_switch_def Let_def flip: s0_def)
  moreover have "same_but p s0 s4"
  proof -
    have "same_but p s0 s2" unfolding e by (simp add: same_but_def)
    moreover have "same_but p s2 s3" unfolding s3_def by (rule same_but_upd) simp_all
    moreover have "same_but p s3 s4" unfolding s4_def by (simp add: same_but_upd)
    ultimately show ?thesis by (blast intro: same_but_trans)
  qed
  moreover have "saved_thread (cpu_context s) (thr s p) (thr s4 p)"
  proof -
    define t2 where "t2 = (ts_account (thr s p))\<lparr>t_context := save_registers (cpu_context s) (t_context (thr s p)),
        t_to_supervisor := t_to_supervisor (ts_account (thr s p)) + 1,
        t_rflags_current_iopl := ucast (r_rflags (cpu_context s) AND 0x200)\<rparr>"
    have "thr s3 p = t2\<lparr>t_saved := True\<rparr>" by (simp add: s3_def e t0 t2_def)
    then have "thr s4 p = (if t_end_quantum_requested (thr s p)
        then t2\<lparr>t_saved := True, t_end_quantum_requested := False, t_runningCount := t_quantum (thr s p)\<rparr>
        else t2\<lparr>t_saved := True\<rparr>)"
      by (simp add: s4_def t2_def)
    then show ?thesis by (simp add: saved_thread_def t2_def ts_account_def Let_def)
  qed
  moreover have "l_DPC_QUEUE (lapic_info s4 0) = l_DPC_QUEUE (lapic_info s 0)"
    by (simp add: s4_def s3_def e s0_def)
  ultimately show ?thesis using a by (blast intro: same_but_trans)
qed

text \<open>The thread to switch to: next in the queue, ready, of a process with a page table.\<close>

definition next_ready :: "kstate \<Rightarrow> addr \<Rightarrow> bool" where
  "next_ready s n \<longleftrightarrow> t_next (thr s (l_currentq (lapic_info s 0))) = n \<and> UP_threads_counter s \<noteq> 0 \<and>
     tid_ok (t_tid (thr s n)) \<and> thr_at s (t_tid (thr s n)) = n \<and> thr_ok s n \<and> t_state (thr s n) = READY \<and>
     \<not> sleep_in_progress (t_Deferred (thr s n)) \<and> t_cpl (thr s n) = 3 \<and> process_ok s (t_tgid (thr s n)) \<and>
     p_pml4_PA (tes s (teList s (nat (t_tgid (thr s n))))) \<noteq> 0"

lemma next_ready_same:
  assumes "next_ready s n" "same_but p s s'" "n \<noteq> p"
  shows "next_ready s' n"
proof -
  have "t_next (thr s' (l_currentq (lapic_info s' 0))) = t_next (thr s (l_currentq (lapic_info s 0)))"
    using assms(2) by (cases "l_currentq (lapic_info s 0) = p") (auto simp: same_but_def)
  with assms show ?thesis by (auto simp: next_ready_def same_but_def thr_ok_def process_ok_def)
qed

lemma clear_counters_sel [simp]:
  "t_state (clear_counters t) = t_state t" "t_used (clear_counters t) = t_used t"
  "t_magic (clear_counters t) = t_magic t" "t_cpl (clear_counters t) = t_cpl t"
  "t_context (clear_counters t) = t_context t" "t_tgid (clear_counters t) = t_tgid t"
  "t_tid (clear_counters t) = t_tid t" "t_pml4_PA (clear_counters t) = t_pml4_PA t"
  by (simp_all add: clear_counters_def)

text \<open>What holds once the selected thread runs.\<close>

definition now_running :: "addr \<Rightarrow> kstate \<Rightarrow> kstate \<Rightarrow> bool" where
  "now_running n s s' \<longleftrightarrow> current_ptr s' = n \<and> l_current_tid (lapic_info s' 0) = t_tid (thr s n) \<and>
     l_current_pid (lapic_info s' 0) = t_tgid (thr s n) \<and> t_state (thr s' n) = RUNNING \<and>
     t_quantum (thr s' n) = max QUANTUM_MIN (min QUANTUM_MAX (t_quantum (thr s n))) \<and>
     cpu_context s' = restore_registers (t_context (thr s n)) (cpu_context s) \<and> cr3 s' = t_pml4_PA (thr s n)"

lemma ts_switch_next:
  assumes n: "next_ready s n" and c: "counters_ok s"
  shows "\<exists>s'. ts_switch 0 s = Inr (Return 0, s') \<and> now_running n s s' \<and> (\<forall>q. q \<noteq> n \<longrightarrow> thr s' q = thr s q)"
proof -
  define s1 where "s1 = upd_lapic 0 (\<lambda>l. l\<lparr>l_current_tid := t_tid (thr s n)\<rparr>) (upd_lapic 0 (\<lambda>l. l\<lparr>l_currentq := n\<rparr>) s)"
  have nn: "n \<noteq> NULL" using n by (simp add: next_ready_def thr_ok_def)
  have z: "ts_zero_gravity 0 s = Inr s1"
  proof -
    have e: "t_next (thr s (l_currentq (lapic_info s 0))) = n" using n by (simp add: next_ready_def)
    show ?thesis using n nn by (simp add: ts_zero_gravity_def Let_def e next_ready_def thr_ok_def s1_def)
  qed
  have t: "ts_target n s1 = Inr (n, s1)" using n by (simp add: ts_target_def s1_def next_ready_def)
  define s2 where "s2 = (upd_thr n clear_counters s1)
    \<lparr>dispatch_counts := count_selection SELECT_DISPATCHER_COUNT (dispatch_counts s)\<rparr>"
  have i: "IncrementDispatcherCount SELECT_DISPATCHER_COUNT (upd_thr n clear_counters s1) = Inr s2"
    using IncrementDispatcherCount_ok [of "upd_thr n clear_counters s1"] c
    by (simp add: counters_ok_def s2_def s1_def criteria_defs)
  have c2: "current_ptr s2 = n" "thr s2 n = clear_counters (thr s n)" "threadList s2 = threadList s"
    "tes s2 = tes s" "teList s2 = teList s" "l_current_tid (lapic_info s2 0) = t_tid (thr s n)"
    "cpu_context s2 = cpu_context s"
    using n by (simp_all add: s2_def s1_def current_ptr_def next_ready_def)
  have v2: "current_valid s2 0" using n by (simp add: current_valid_ptr c2 thr_ok_def next_ready_def)
  have r2: "t_state (thr s2 (current_ptr s2)) = READY" "t_cpl (thr s2 (current_ptr s2)) = 3"
    using n c2 by (simp_all add: next_ready_def)
  define s3 where "s3 = load_pml4_table (t_pml4_PA (thr s n))
     (upd_thr n (\<lambda>t. (run_thread t)\<lparr>t_saved := False, t_to_user := t_to_user t + 1\<rparr>) s2)
       \<lparr>UP_CurrentThread := n, cpu_context := restore_registers (t_context (thr s n)) (cpu_context s)\<rparr>"
  have d: "dispatcher DISPATCHER_CURRENT s2 = Inr s3"
    using dispatcher_run [OF v2 r2] by (simp add: s3_def c2)
  have f3: "tes s3 = tes s" "teList s3 = teList s" "threadList s3 = threadList s"
    "thr s3 n = (run_thread (clear_counters (thr s n)))\<lparr>t_saved := False, t_to_user := t_to_user (thr s n) + 1\<rparr>"
    "cr3 s3 = t_pml4_PA (thr s n)" "cpu_context s3 = restore_registers (t_context (thr s n)) (cpu_context s)"
    "lapic_info s3 = lapic_info s2"
    by (simp_all add: s3_def load_pml4_table_def c2) (simp add: clear_counters_def)
  define s4 where "s4 = set_current_process (t_tgid (thr s n)) 0 s3"
  have p: "ts_enter_process n s3 = Inr s4"
    using n by (simp add: ts_enter_process_def Let_def f3 next_ready_def process_ok_def s4_def THREAD_COUNT_MAX_def
        PROCESS_COUNT_MAX_def)
  have cur: "l_current_tid (lapic_info s1 0) = t_tid (thr s n)" "threadList s1 = threadList s" "thr s1 = thr s"
    by (simp_all add: s1_def)
  have "ts_dispatch_current 0 s1 = Inr s4"
    using n t i d p by (simp add: ts_dispatch_current_def Let_def cur next_ready_def thr_ok_def)
  then have sw: "ts_switch 0 s = Inr (Return 0, s4)" using z by (simp add: ts_switch_def)
  have q: "t_quantum (run_thread (clear_counters t)) = max QUANTUM_MIN (min QUANTUM_MAX (t_quantum t))" for t
    by (auto simp: run_thread_def clear_counters_def max_def min_def quantum_defs)
  have "now_running n s s4"
    using n c2 f3 by (simp add: now_running_def s4_def set_current_process_eq current_ptr_def q next_ready_def)
  moreover have "thr s4 x = thr s x" if "x \<noteq> n" for x
    using that by (simp add: s4_def set_current_process_eq s3_def load_pml4_table_def s2_def s1_def)
  ultimately show ?thesis using sw by blast
qed

lemma next_ready_now_running:
  assumes "now_running n s1 s2" "same_but p s s1" "n \<noteq> p"
  shows "now_running n s s2"
  using assms by (simp add: now_running_def same_but_def)

text \<open>
  Nothing waits to be entered for the first time, and no deferred event is pending: the queue of deferred events is
  off, or the next event to take is missing.
\<close>

definition no_side_work :: "kstate \<Rightarrow> bool" where
  "no_side_work s \<longleftrightarrow> (\<forall>i < THREAD_COUNT_MAX. \<not> is_standby s i) \<and>
     (dpc_on (l_DPC_QUEUE (lapic_info s 0)) \<longrightarrow> fst (dpc_get (l_DPC_QUEUE (lapic_info s 0))) = -1)"

lemma no_event:
  assumes "dpc_on (l_DPC_QUEUE (lapic_info s 0)) \<longrightarrow> fst (dpc_get (l_DPC_QUEUE (lapic_info s 0))) = -1"
  shows "\<exists>q. ts_deferred_event h s = Inr (upd_lapic 0 (\<lambda>l. l\<lparr>l_DPC_QUEUE := q\<rparr>) s)"
proof (cases "dpc_on (l_DPC_QUEUE (lapic_info s 0))")
  case True
  then show ?thesis using assms by (auto simp: ts_deferred_event_def qf_get_message_def split: prod.splits)
next
  case False
  then have "ts_deferred_event h s = Inr (upd_lapic 0 (\<lambda>l. l\<lparr>l_DPC_QUEUE := l_DPC_QUEUE (lapic_info s 0)\<rparr>) s)"
    by (simp add: ts_deferred_event_def upd_lapic_def)
  then show ?thesis by blast
qed

lemma no_side_work_saved:
  assumes "no_side_work s" "same_but p s s1" "saved_thread c (thr s p) (thr s1 p)"
    and "l_DPC_QUEUE (lapic_info s1 0) = l_DPC_QUEUE (lapic_info s 0)"
  shows "no_side_work s1"
proof -
  have "t_state (thr s1 x) = t_state (thr s x) \<and> t_used (thr s1 x) = t_used (thr s x) \<and>
      t_magic (thr s1 x) = t_magic (thr s x)" for x
    using assms(2,3) by (cases "x = p") (auto simp: same_but_def saved_thread_def)
  with assms(1,2,4) show ?thesis by (simp add: no_side_work_def same_but_def is_standby_def)
qed

lemma standby_none:
  assumes "\<forall>i < THREAD_COUNT_MAX. \<not> is_standby s i"
  shows "schedi_check_for_standby2 s = NULL"
proof -
  have "first_slot (is_standby s) [0..<THREAD_COUNT_MAX] = None"
    using assms by (simp add: first_slot_None_iff)
  then show ?thesis by (simp add: schedi_check_for_standby2_def)
qed

lemma finished_executing_plain:
  assumes t: "p \<noteq> NULL" "t_magic (thr s p) = 1234" and w: "no_side_work s"
  shows "\<exists>s'. tsOnFinishedExecuting h p s = Inr (Return (), s') \<and> same_but p s s' \<and>
    thr s' p = (if t_state (thr s p) = RUNNING
      then (thr s p)\<lparr>t_state := READY, t_readyCount := 0, t_preempted := True\<rparr> else thr s p)"
proof -
  define s1 where "s1 = (if t_state (thr s p) = RUNNING
    then upd_thr p (\<lambda>x. x\<lparr>t_state := READY, t_readyCount := 0, t_preempted := True\<rparr>) s else s)"
  have "\<not> is_standby s1 i" if "i < THREAD_COUNT_MAX" for i
    using w that by (auto simp: s1_def is_standby_def no_side_work_def)
  then have "schedi_check_for_standby2 s1 = NULL" by (intro standby_none) blast
  then have sp: "ts_spawn_standby s1 = Inr (Return (), s1)" by (simp add: ts_spawn_standby_def)
  define s2 where "s2 = (if dead_thread_collector_status s1 then check_for_dead_thread_collector s1 else s1)"
  have f2: "same_but p s1 s2" "thr s2 p = thr s1 p"
    by (simp_all add: s2_def check_for_dead_thread_collector_def same_but_def)
  have f1: "same_but p s s1" by (simp add: s1_def same_but_upd)
  have d: "l_DPC_QUEUE (lapic_info s2 0) = l_DPC_QUEUE (lapic_info s 0)"
    by (simp add: s2_def s1_def check_for_dead_thread_collector_def)
  then obtain q where e: "ts_deferred_event h s2 = Inr (upd_lapic 0 (\<lambda>l. l\<lparr>l_DPC_QUEUE := q\<rparr>) s2)"
    using no_event [of s2 h] w d by (auto simp: no_side_work_def)
  define s3 where "s3 = upd_lapic 0 (\<lambda>l. l\<lparr>l_DPC_QUEUE := q\<rparr>) s2"
  have f3: "same_but p s2 s3" "thr s3 p = thr s2 p" by (simp_all add: s3_def same_but_def)
  have "tsOnFinishedExecuting h p s = Inr (Return (), s3)"
    using t sp e
    by (simp add: tsOnFinishedExecuting_def Let_def flow_then_def tsCry_def flip: s1_def s2_def s3_def)
  with f1 f2 f3 same_but_trans [OF same_but_trans [OF f1 f2(1)] f3(1)] show ?thesis by (auto simp: s1_def)
qed

text \<open>Leaving the processor: saved, and waiting or ready again.\<close>

definition left_processor :: "addr \<Rightarrow> kstate \<Rightarrow> kstate \<Rightarrow> bool" where
  "left_processor p s s' \<longleftrightarrow> t_context (thr s' p) = save_registers (cpu_context s) (t_context (thr s p)) \<and>
     t_saved (thr s' p) \<and> t_step (thr s' p) = t_step (thr s p) + 1 \<and>
     (if wants_sleep (thr s p)
      then t_state (thr s' p) = WAITING \<and>
           t_wake_jiffy (thr s' p) = jiffies s + desired_sleep_ms (t_Deferred (thr s p)) \<and>
           sleep_phase (t_Deferred (thr s' p)) = 2
      else t_state (thr s' p) = (if t_state (thr s p) = RUNNING then READY else t_state (thr s p)))"

definition quantum_over :: "thread_d \<Rightarrow> bool" where
  "quantum_over t \<longleftrightarrow> t_end_quantum_requested t \<or> t_quantum t \<le> t_runningCount t + 1"

lemma switch_away:
  assumes sw: "switchable s" and n: "next_ready s n" "n \<noteq> current_ptr s" and w: "no_side_work s"
    and q: "wants_sleep (thr s (current_ptr s)) \<or> quantum_over (thr s (current_ptr s))"
  shows "\<exists>s'. thread_switch h 0 s = Inr (Return 0, s') \<and> now_running n s s' \<and>
    left_processor (current_ptr s) s s' \<and> (\<forall>x. x \<noteq> n \<longrightarrow> x \<noteq> current_ptr s \<longrightarrow> thr s' x = thr s x)"
proof -
  define p where "p = current_ptr s"
  obtain s1 where t: "thread_switch h 0 s = ts_decide h 0 p s1" and b: "same_but p s s1"
    and sv: "saved_thread (cpu_context s) (thr s p) (thr s1 p)" "l_DPC_QUEUE (lapic_info s1 0) = l_DPC_QUEUE (lapic_info s 0)"
    using switch_start [OF sw] by (auto simp: p_def)
  have p: "p \<noteq> NULL" "t_magic (thr s p) = 1234" "t_is_preemptable (thr s p)" "counters_ok s"
    using sw by (auto simp: switchable_def current_valid_ptr thr_ok_def p_def)
  have ws: "wants_sleep (thr s1 p) = wants_sleep (thr s p)" using sv by (simp add: saved_thread_def wants_sleep_def)
  have w1: "no_side_work s1" by (rule no_side_work_saved [OF w b sv])
  define st where "st = (if wants_sleep (thr s p) then fall_asleep (jiffies s) else id)"
  have go: ?thesis if d: "ts_decide h 0 p s1 = ts_switch 0 (upd_thr p st s2)" and b2: "same_but p s1 s2"
    and t2: "t_context (thr s2 p) = t_context (thr s1 p)" "t_saved (thr s2 p) = t_saved (thr s1 p)"
      "t_step (thr s2 p) = t_step (thr s1 p)" "t_Deferred (thr s2 p) = t_Deferred (thr s1 p)"
    and st2: "\<not> wants_sleep (thr s p) \<Longrightarrow>
      t_state (thr s2 p) = (if t_state (thr s p) = RUNNING then READY else t_state (thr s p))" for s2
  proof -
    have "same_but p s2 (upd_thr p st s2)" by (rule same_but_upd) (simp_all add: st_def fall_asleep_def)
    then have b3: "same_but p s (upd_thr p st s2)" using b b2 same_but_trans by blast
    have np: "n \<noteq> p" using n(2) by (simp add: p_def)
    have "counters_ok (upd_thr p st s2)" using p(4) same_but_counters [OF b3] by simp
    then obtain s3 where s3: "ts_switch 0 (upd_thr p st s2) = Inr (Return 0, s3)"
      "now_running n (upd_thr p st s2) s3" "\<forall>x. x \<noteq> n \<longrightarrow> thr s3 x = thr (upd_thr p st s2) x"
      using ts_switch_next [OF next_ready_same [OF n(1) b3 np]] by blast
    have l: "thr s3 p = st (thr s2 p)" using s3(3) np by simp
    have j: "jiffies s1 = jiffies s" using b by (simp add: same_but_def)
    have "left_processor p s s3"
    proof (cases "wants_sleep (thr s p)")
      case True
      then have "thr s3 p = fall_asleep (jiffies s) (thr s2 p)" by (simp add: l st_def)
      with True t2 sv show ?thesis by (simp add: left_processor_def saved_thread_def fall_asleep_def)
    next
      case False
      then have "thr s3 p = thr s2 p" by (simp add: l st_def)
      with False t2 st2 sv show ?thesis by (simp add: left_processor_def saved_thread_def)
    qed
    moreover have "\<forall>x. x \<noteq> n \<longrightarrow> x \<noteq> p \<longrightarrow> thr s3 x = thr s x"
      using s3(3) b3 by (simp add: same_but_def)
    ultimately show ?thesis
      using t d s3(1) next_ready_now_running [OF s3(2) b3 np] by (auto simp: p_def)
  qed
  show ?thesis
  proof (cases "t_runningCount (thr s1 p) < t_quantum (thr s1 p)")
    case True
    then have z: "wants_sleep (thr s p)" using q sv by (auto simp: saved_thread_def quantum_over_def p_def split: if_splits)
    with True ws sv p(3) have "ts_decide h 0 p s1 = ts_switch 0 (upd_thr p st s1)"
      using b by (simp add: ts_decide_def saved_thread_def ts_sleep_def st_def same_but_def)
    from go [OF this] z show ?thesis by simp
  next
    case False
    obtain s2 where f: "tsOnFinishedExecuting h p s1 = Inr (Return (), s2)" "same_but p s1 s2"
      "thr s2 p = (if t_state (thr s1 p) = RUNNING
        then (thr s1 p)\<lparr>t_state := READY, t_readyCount := 0, t_preempted := True\<rparr> else thr s1 p)"
      using finished_executing_plain [OF p(1) _ w1, of h] p(2) sv by (auto simp: saved_thread_def)
    have ws2: "wants_sleep (thr s2 p) = wants_sleep (thr s p)" using f(3) ws by (simp add: wants_sleep_def)
    have j2: "jiffies s2 = jiffies s" using b f(2) by (simp add: same_but_def)
    have "upd_thr p id s2 = s2" by (simp add: upd_thr_def)
    then have "ts_decide h 0 p s1 = ts_switch 0 (upd_thr p st s2)"
      using False sv p(3) f(1) ws2 j2 by (simp add: ts_decide_def saved_thread_def flow_then_def ts_sleep_def st_def)
    moreover have "t_state (thr s1 p) = t_state (thr s p)" using sv by (simp add: saved_thread_def)
    ultimately show ?thesis by (intro go [OF _ f(2)]) (simp_all add: f(3))
  qed
qed

lemma set_irql_predicates [simp]:
  "current_ptr (set_irql l s) = current_ptr s" "switchable (set_irql l s) = switchable s"
  "next_ready (set_irql l s) = next_ready s" "no_side_work (set_irql l s) = no_side_work s"
  "now_running n (set_irql l s) s' = now_running n s s'" "left_processor p (set_irql l s) s' = left_processor p s s'"
  "now_running n s (set_irql l s') = now_running n s s'" "left_processor p s (set_irql l s') = left_processor p s s'"
  "thr (set_irql l s) = thr s"
  by (simp_all add: set_irql_def switchable_def current_valid_def current_ptr_def process_ok_def counters_ok_def
      next_ready_def no_side_work_def now_running_def left_processor_def thr_ok_def is_standby_def fun_eq_iff)

lemma ts_finish_run:
  assumes "tid_ok (l_current_tid (lapic_info s 0))"
  shows "\<exists>s'. ts_finish rv s = Inr (Return rv, s') \<and> (\<forall>n s0. now_running n s0 s \<longrightarrow> now_running n s0 s') \<and>
    (\<forall>p s0. left_processor p s0 s \<longrightarrow> left_processor p s0 s') \<and>
    (\<forall>q. q \<noteq> current_ptr s \<longrightarrow> thr s' q = thr s q) \<and>
    (let t = thr s (current_ptr s); t' = thr s' (current_ptr s) in t_state t' = t_state t \<and> t_step t' = t_step t \<and>
       t_runningCount t' = t_runningCount t \<and> t_quantum t' = t_quantum t) \<and>
    l_current_tid (lapic_info s' 0) = l_current_tid (lapic_info s 0)"
proof -
  let ?t = "current_ptr s"
  define s1 where "s1 = (if t_is_alertable (thr s ?t)
    then upd_thr ?t (\<lambda>x. x\<lparr>t_is_alertable := False, t_callback_in_progress := True\<rparr>)
           (s\<lparr>f_callback_requested := 0x1234, ring3_callback_address := t_cb_r3_address (thr s ?t)\<rparr>)
    else s)"
  have "ts_finish rv s = Inr (Return rv, s1) \<or> (\<exists>l. ts_finish rv s = Inr (Return rv, set_irql l s1))"
    using assms by (auto simp: ts_finish_def Let_def s1_def current_ptr_def)
  moreover have "now_running n s0 s1" if "now_running n s0 s" for n s0
    using that by (auto simp: now_running_def s1_def current_ptr_def)
  moreover have "left_processor p s0 s1" if "left_processor p s0 s" for p s0
    using that by (auto simp: left_processor_def s1_def)
  moreover have "\<forall>q. q \<noteq> ?t \<longrightarrow> thr s1 q = thr s q" by (simp add: s1_def)
  moreover have "t_state (thr s1 ?t) = t_state (thr s ?t) \<and> t_step (thr s1 ?t) = t_step (thr s ?t) \<and>
      t_runningCount (thr s1 ?t) = t_runningCount (thr s ?t) \<and> t_quantum (thr s1 ?t) = t_quantum (thr s ?t)"
    by (simp add: s1_def)
  moreover have "lapic_info s1 = lapic_info s" by (simp add: s1_def)
  ultimately show ?thesis by (auto simp: Let_def)
qed

lemma switch_entry:
  assumes "switchable s"
  shows "tsThreadSwitch h 0 s = flow_then (thread_switch h 0 (set_irql IRQL_DISPATCHER s)) ts_finish"
  using assms by (simp add: tsThreadSwitch_def Let_def switchable_def current_valid_def get_current_process_def
      NR_CPUS_def set_irql_def)

text \<open>What holds whenever the switcher returns.\<close>

lemma switch_outcome:
  assumes "tsThreadSwitch h hw_id s = Inr (r, s')"
  shows "(handlers_ok h \<longrightarrow> extends_table s s') \<and> switch_result r s s'"
proof -
  let ?s1 = "set_irql IRQL_DISPATCHER s"
  have f1: "task_switch_status ?s1 = task_switch_status s" "extends_table s ?s1" "goes_on s ?s1"
    by (simp_all add: keeps_extends goes_on_def) (simp add: set_irql_def)
  from assms obtain x s2 where t: "thread_switch h 0 ?s1 = Inr (x, s2)"
    and e: "(case x of Return a \<Rightarrow> ts_finish a s2 | Enter e \<Rightarrow> Inr (Enter e, s2)) = Inr (r, s')"
    by (auto simp: tsThreadSwitch_def Let_def flow_then_def split: if_splits elim!: and_then_InrE)
  note i = thread_switch_Inr [OF t]
  have k: "handlers_ok h \<longrightarrow> extends_table s s2" using f1(2) i extends_table_trans by blast
  show ?thesis
  proof (cases x)
    case (Return a)
    with e have fi: "ts_finish a s2 = Inr (r, s')" by simp
    note f = ts_finish_Inr [OF fi]
    have "handlers_ok h \<longrightarrow> extends_table s s'" using k f keeps_extends extends_table_trans by blast
    moreover have "goes_on ?s1 s2 \<longrightarrow> goes_on s s'" using f f1(3) goes_on_trans by blast
    ultimately show ?thesis using f i f1(1) Return by (auto simp: switch_result_def)
  next
    case (Enter en)
    with e i k show ?thesis by (auto simp: switch_result_def)
  qed
qed

section \<open>Properties\<close>


text \<open>
  Claim C17. Round robin. The timer has interrupted a valid preemptable ring 3 thread of a valid process outside of any
  callback, the switcher is not locked, the statistics block exists, and there is nothing else to do first: no thread
  waits in STANDBY for its first run, and no deferred input event is pending (their queue is off or has no event
  to take). The next thread of the run queue is another valid ring 3 thread that is ready and not asleep, of a valid process
  with a page table. Then, when the current thread has used up its quantum, has asked for its end, or has asked to
  sleep, one call of the task switcher switches to the next thread. That thread
  runs, with exactly the registers and the page table it was saved with and a quantum clamped to its range; the old
  thread is saved with the registers it was interrupted with and is ready again, or, if it asked to sleep, waits until
  the current time plus the requested delay; no other thread changes.
\<close>

theorem switch_to_next_thread:
  assumes "switchable s" and "next_ready s n" and "n \<noteq> current_ptr s" and "no_side_work s"
    and "wants_sleep (thr s (current_ptr s)) \<or> quantum_over (thr s (current_ptr s))"
  shows "\<exists>s'. tsThreadSwitch h 0 s = Inr (Return 0, s') \<and> now_running n s s' \<and> left_processor (current_ptr s) s s' \<and>
    (\<forall>x. x \<noteq> n \<longrightarrow> x \<noteq> current_ptr s \<longrightarrow> thr s' x = thr s x)"
proof -
  obtain s1 where t: "thread_switch h 0 (set_irql IRQL_DISPATCHER s) = Inr (Return 0, s1)"
    and r: "now_running n s s1" "left_processor (current_ptr s) s s1"
      "\<forall>x. x \<noteq> n \<longrightarrow> x \<noteq> current_ptr s \<longrightarrow> thr s1 x = thr s x"
    using switch_away [of "set_irql IRQL_DISPATCHER s" n h] assms by auto
  have c: "current_ptr s1 = n" using r(1) by (simp add: now_running_def)
  have "tid_ok (l_current_tid (lapic_info s1 0))" using r(1) assms(2) by (simp add: now_running_def next_ready_def)
  from ts_finish_run [OF this, of 0] obtain s2 where "ts_finish 0 s1 = Inr (Return 0, s2)"
    "now_running n s s2" "left_processor (current_ptr s) s s2" "\<forall>q. q \<noteq> n \<longrightarrow> thr s2 q = thr s1 q"
    using r c by blast
  with t r(3) switch_entry [OF assms(1), of h] show ?thesis by (auto simp: flow_then_def)
qed

text \<open>
  A quantum is not cut short: while the running count, including the current tick, stays below the quantum
  and the thread has asked neither to sleep nor to give up its quantum, a call of the task switcher returns 0x80 with
  the same thread current, its registers untouched, its step and running counts increased by one and its state as it
  was; no other thread changes.
\<close>

theorem quantum_not_cut_short:
  assumes sw: "switchable s" and q: "\<not> quantum_over (thr s (current_ptr s))"
    and ns: "\<not> wants_sleep (thr s (current_ptr s))"
  shows "\<exists>s'. tsThreadSwitch h 0 s = Inr (Return 0x80, s') \<and> current_ptr s' = current_ptr s \<and>
    cpu_context s' = cpu_context s \<and> (let t = thr s (current_ptr s); t' = thr s' (current_ptr s) in
      t_state t' = t_state t \<and> t_step t' = t_step t + 1 \<and> t_runningCount t' = t_runningCount t + 1 \<and>
      t_quantum t' = t_quantum t) \<and> (\<forall>x. x \<noteq> current_ptr s \<longrightarrow> thr s' x = thr s x)"
proof -
  define p where "p = current_ptr s"
  let ?s0 = "set_irql IRQL_DISPATCHER s"
  obtain s1 where t: "thread_switch h 0 ?s0 = ts_decide h 0 p s1" and b: "same_but p ?s0 s1"
    and sv: "saved_thread (cpu_context ?s0) (thr s p) (thr s1 p)"
    using switch_start [of ?s0 h] sw by (auto simp: p_def)
  have pr: "t_is_preemptable (thr s p)" "tid_ok (l_current_tid (lapic_info s 0))" "counters_ok ?s0"
    using sw by (simp_all add: switchable_def current_valid_def p_def counters_ok_def set_irql_def)
  have c1: "counters_ok s1" "current_ptr s1 = p" "tid_ok (l_current_tid (lapic_info s1 0))"
    using same_but_counters [OF b] same_but_current [OF b] b pr by (simp_all add: p_def same_but_def)
  define s2 where "s2 = s1\<lparr>dispatch_counts := count_selection SELECT_CURRENT_COUNT (dispatch_counts s1)\<rparr>"
  have "ts_decide h 0 p s1 = ts_continue s1"
    using sv pr(1) q ns by (auto simp: ts_decide_def saved_thread_def quantum_over_def wants_sleep_def p_def not_le)
  also have "\<dots> = Inr (Return 0x80, s2)"
    using IncrementDispatcherCount_ok [OF c1(1)] by (simp add: ts_continue_def s2_def criteria_defs)
  finally have d: "thread_switch h 0 ?s0 = Inr (Return 0x80, s2)" using t by simp
  have f2: "current_ptr s2 = p" "thr s2 = thr s1" "lapic_info s2 = lapic_info s1" "cpu_context s2 = cpu_context s"
    using b c1(2) by (simp_all add: s2_def same_but_def set_irql_def)
  obtain s3 where fin: "ts_finish 0x80 s2 = Inr (Return 0x80, s3)" and oth: "\<forall>x. x \<noteq> p \<longrightarrow> thr s3 x = thr s2 x"
    and cur: "l_current_tid (lapic_info s3 0) = l_current_tid (lapic_info s2 0)"
    and own: "t_state (thr s3 p) = t_state (thr s2 p)" "t_step (thr s3 p) = t_step (thr s2 p)"
      "t_runningCount (thr s3 p) = t_runningCount (thr s2 p)" "t_quantum (thr s3 p) = t_quantum (thr s2 p)"
    using ts_finish_run [of s2 "0x80"] c1(3) f2 by (auto simp: Let_def)
  have fs: "tsThreadSwitch h 0 s = Inr (Return 0x80, s3)"
    using switch_entry [OF sw, of h] d fin by (simp add: flow_then_def)
  have k: "keeps_table s2 s3" using ts_finish_Inr [OF fin] by simp
  have cp: "current_ptr s3 = p" using cur k f2(1) by (simp add: current_ptr_def keeps_table_def)
  have regs: "cpu_context s3 = cpu_context s2"
    using fin by (auto simp: ts_finish_def Let_def set_irql_def split: if_split_asm)
  from own sv f2 have "t_state (thr s3 p) = t_state (thr s p) \<and> t_step (thr s3 p) = t_step (thr s p) + 1 \<and>
      t_runningCount (thr s3 p) = t_runningCount (thr s p) + 1 \<and> t_quantum (thr s3 p) = t_quantum (thr s p)"
    using q by (auto simp: saved_thread_def quantum_over_def p_def)
  moreover have "\<forall>x. x \<noteq> p \<longrightarrow> thr s3 x = thr s x" using oth f2 b by (simp add: same_but_def)
  ultimately show ?thesis using fs cp regs f2(4) by (simp add: Let_def p_def)
qed

text \<open>A concrete system: Init runs in ring 3 with one tick left, thread 1 is next in the queue and ready.\<close>

definition switch_kstate :: kstate where
  "switch_kstate = sample_kstate\<lparr>
     thr := (\<lambda>_. zero_thread)(
       0x1000 := (sample_thread 0 RUNNING)\<lparr>t_cpl := 3, t_is_preemptable := True, t_runningCount := 3, t_next := 0x2000\<rparr>,
       0x2000 := (sample_thread 1 READY)\<lparr>t_cpl := 3, t_pml4_PA := 0x9000\<rparr>),
     threadList := (\<lambda>_. NULL)(0 := 0x1000, 1 := 0x2000),
     tes := (\<lambda>_. zero_te)(0xA000 := zero_te\<lparr>p_used := True, p_magic := 1234, p_pml4_PA := 0x8000\<rparr>),
     teList := (\<lambda>_. NULL)(0 := 0xA000), UP_threads_counter := 2, contextCPL := 3,
     DispatchCountBlock := 0xD000, dispatch_counts := zero_dispatch_count\<lparr>dc_magic := 1234\<rparr>,
     lapic_info := (\<lambda>_. zero_lapic)(0 := zero_lapic\<lparr>l_currentq := 0x1000\<rparr>)\<rparr>"

lemma switch_kstate_sel:
  "thr switch_kstate = (\<lambda>_. zero_thread)(
     0x1000 := (sample_thread 0 RUNNING)\<lparr>t_cpl := 3, t_is_preemptable := True, t_runningCount := 3, t_next := 0x2000\<rparr>,
     0x2000 := (sample_thread 1 READY)\<lparr>t_cpl := 3, t_pml4_PA := 0x9000\<rparr>)"
  "threadList switch_kstate = (\<lambda>_. NULL)(0 := 0x1000, 1 := 0x2000)"
  "teList switch_kstate = (\<lambda>_. NULL)(0 := 0xA000)"
  "tes switch_kstate = (\<lambda>_. zero_te)(0xA000 := zero_te\<lparr>p_used := True, p_magic := 1234, p_pml4_PA := 0x8000\<rparr>)"
  "lapic_info switch_kstate = (\<lambda>_. zero_lapic)(0 := zero_lapic\<lparr>l_currentq := 0x1000\<rparr>)"
  "UP_threads_counter switch_kstate = 2" "contextCPL switch_kstate = 3" "task_switch_status switch_kstate = UNLOCKED"
  "InitThread switch_kstate = 0x1000" "cpu_context switch_kstate = zero_cpu_context"
  "counters_ok switch_kstate" "jiffies switch_kstate = 0"
  by (simp_all add: switch_kstate_def sample_kstate_def zero_kstate_def counters_ok_def)

lemma sample_thread_more [simp]:
  "t_tgid (sample_thread i st) = 0" "\<not> sleep_in_progress (t_Deferred (sample_thread i st))"
  "\<not> t_callback_in_progress (sample_thread i st)" "\<not> t_end_quantum_requested (sample_thread i st)"
  "t_next (sample_thread i st) = NULL"
  by (simp_all add: sample_thread_def zero_thread_def zero_deferred_def)

lemma switch_kstate_ptr: "current_ptr switch_kstate = 0x1000"
  by (simp add: current_ptr_def switch_kstate_sel zero_lapic_def)

lemma switch_kstate_ok: "switchable switch_kstate" "next_ready switch_kstate 0x2000" "no_side_work switch_kstate"
proof -
  note d = switch_kstate_sel tid_ok_def THREAD_COUNT_MAX_def PROCESS_COUNT_MAX_def thr_ok_def process_ok_def
    zero_lapic_def zero_te_def
  show "switchable switch_kstate"
    by (simp add: switchable_def current_valid_ptr switch_kstate_ptr d)
  show "next_ready switch_kstate 0x2000" by (simp add: next_ready_def d)
  have "\<not> is_standby switch_kstate i" for i
    by (simp add: is_standby_def switch_kstate_sel)
  then show "no_side_work switch_kstate"
    by (simp add: no_side_work_def switch_kstate_sel zero_lapic_def zero_dpc_queue_def)
qed

definition no_input :: input_handlers where
  "no_input = \<lparr>wmRawKeyEvent = (\<lambda>_ _ _ _ s. Inr s), wmMouseEvent = (\<lambda>_ _ _ s. Inr s)\<rparr>"

lemma no_input_ok: "handlers_ok no_input"
  by (simp add: handlers_ok_def no_input_def)

theorem switch_to_next_thread_witness:
  "\<exists>s'. tsThreadSwitch no_input 0 switch_kstate = Inr (Return 0, s') \<and> current_ptr s' = 0x2000 \<and>
     cr3 s' = 0x9000 \<and> t_state (thr s' 0x2000) = RUNNING \<and> t_state (thr s' 0x1000) = READY"
proof -
  have "quantum_over (thr switch_kstate (current_ptr switch_kstate))"
    "\<not> wants_sleep (thr switch_kstate 0x1000)"
    by (simp_all add: switch_kstate_ptr switch_kstate_sel quantum_over_def quantum_defs wants_sleep_def)
  with switch_to_next_thread [OF switch_kstate_ok(1,2) _ switch_kstate_ok(3), of no_input] show ?thesis
    by (auto simp: switch_kstate_ptr now_running_def left_processor_def switch_kstate_sel)
qed

text \<open>The same system two ticks earlier.\<close>

definition early_kstate :: kstate where
  "early_kstate = upd_thr 0x1000 (\<lambda>t. t\<lparr>t_runningCount := 1\<rparr>) switch_kstate"

lemma early_kstate_ok: "switchable early_kstate" "current_ptr early_kstate = 0x1000"
  "thr early_kstate 0x1000 =
     (sample_thread 0 RUNNING)\<lparr>t_cpl := 3, t_is_preemptable := True, t_runningCount := 1, t_next := 0x2000\<rparr>"
proof -
  show c: "current_ptr early_kstate = 0x1000" by (simp add: early_kstate_def switch_kstate_ptr)
  show t: "thr early_kstate 0x1000 =
     (sample_thread 0 RUNNING)\<lparr>t_cpl := 3, t_is_preemptable := True, t_runningCount := 1, t_next := 0x2000\<rparr>"
    by (simp add: early_kstate_def switch_kstate_sel)
  have ct: "counters_ok early_kstate"
    using switch_kstate_sel(11) by (simp add: counters_ok_def early_kstate_def)
  show "switchable early_kstate"
    using switch_kstate_ok(1) t ct
    by (simp add: switchable_def c switch_kstate_ptr current_valid_ptr switch_kstate_sel)
      (simp add: early_kstate_def switch_kstate_sel process_ok_def counters_ok_def thr_ok_def)
qed

theorem quantum_not_cut_short_witness:
  "\<exists>s'. tsThreadSwitch no_input 0 early_kstate = Inr (Return 0x80, s') \<and> t_runningCount (thr s' 0x1000) = 2"
  using quantum_not_cut_short [OF early_kstate_ok(1), of no_input]
  by (auto simp: early_kstate_ok quantum_over_def quantum_defs wants_sleep_def Let_def)


text \<open>
  The run queue must stay fresh: when the quantum is over and the next thread in the queue has meanwhile
  stopped being ready (it was blocked, put to sleep or killed after the round was built), the switcher does not skip it;
  the machine halts.
\<close>

theorem stale_queue_halts:
  assumes sw: "switchable s" and w: "no_side_work s" and q: "quantum_over (thr s (current_ptr s))"
    and nxt: "n = t_next (thr s (l_currentq (lapic_info s 0)))" "n \<noteq> NULL" "n \<noteq> current_ptr s"
    and stale: "t_state (thr s n) \<noteq> READY" and cnt: "UP_threads_counter s \<noteq> 0"
  shows "tsThreadSwitch h 0 s = Inl (Panic ''ts: Unexpected error'')"
proof -
  define p where "p = current_ptr s"
  let ?s0 = "set_irql IRQL_DISPATCHER s"
  have zg: "ts_switch 0 s' = Inl (Panic ''ts: Unexpected error'')" if b: "same_but p ?s0 s'" for s'
  proof -
    have q: "l_currentq (lapic_info s' 0) = l_currentq (lapic_info s 0)"
      using b by (simp add: same_but_def set_irql_def)
    have "t_next (thr s' a) = t_next (thr s a)" for a using b by (cases "a = p") (auto simp: same_but_def)
    moreover have "thr s' n = thr s n" "UP_threads_counter s' \<noteq> 0"
      using b nxt(3) cnt by (simp_all add: same_but_def p_def set_irql_def)
    ultimately show ?thesis
      using nxt stale by (simp add: ts_switch_def ts_zero_gravity_def Let_def q)
  qed
  obtain s1 where t: "thread_switch h 0 ?s0 = ts_decide h 0 p s1" and b: "same_but p ?s0 s1"
    and sv: "saved_thread (cpu_context ?s0) (thr s p) (thr s1 p)" "l_DPC_QUEUE (lapic_info s1 0) = l_DPC_QUEUE (lapic_info ?s0 0)"
    using switch_start [of ?s0 h] sw by (auto simp: p_def)
  have pr: "t_is_preemptable (thr s p)" "p \<noteq> NULL" "t_magic (thr s p) = 1234"
    using sw by (auto simp: switchable_def current_valid_ptr thr_ok_def p_def)
  have w1: "no_side_work s1" by (rule no_side_work_saved [OF _ b]) (use w sv in simp_all)
  obtain s2 where f: "tsOnFinishedExecuting h p s1 = Inr (Return (), s2)" "same_but p s1 s2"
    using finished_executing_plain [OF pr(2) _ w1, of h] pr(3) sv by (auto simp: saved_thread_def)
  have b2: "same_but p ?s0 s2" by (rule same_but_trans [OF b f(2)])
  have "same_but p ?s0 (ts_sleep p s2)"
    unfolding ts_sleep_def by (rule same_but_trans [OF b2 same_but_upd]) (simp_all add: fall_asleep_def)
  moreover have "\<not> t_runningCount (thr s1 p) < t_quantum (thr s1 p)"
    using q sv by (auto simp: quantum_over_def saved_thread_def p_def)
  ultimately have "ts_decide h 0 p s1 = Inl (Panic ''ts: Unexpected error'')"
    using sv pr(1) f(1) zg [OF b2] zg by (simp add: ts_decide_def flow_then_def saved_thread_def)
  with t show ?thesis using switch_entry [OF sw, of h] by (simp add: flow_then_def)
qed

text \<open>The concrete system with the next thread blocked after the round was built.\<close>

definition stale_kstate :: kstate where
  "stale_kstate = do_thread_blocked 1 switch_kstate"

lemma stale_kstate_eq: "stale_kstate = upd_thr 0x2000 (\<lambda>x. x\<lparr>t_blocked_jiffy := 0, t_state := BLOCKED\<rparr>) switch_kstate"
  by (simp add: stale_kstate_def do_thread_blocked_def Let_def tid_ok_def THREAD_COUNT_MAX_def switch_kstate_sel)

theorem stale_queue_halts_witness:
  "tsThreadSwitch no_input 0 stale_kstate = Inl (Panic ''ts: Unexpected error'')"
proof -
  have c: "current_ptr stale_kstate = 0x1000" by (simp add: stale_kstate_eq switch_kstate_ptr)
  have "counters_ok stale_kstate"
    using switch_kstate_sel(11) by (simp add: counters_ok_def stale_kstate_eq)
  then have "switchable stale_kstate"
    using switch_kstate_ok(1)
    by (simp add: switchable_def c switch_kstate_ptr current_valid_ptr switch_kstate_sel)
      (simp add: stale_kstate_eq switch_kstate_sel process_ok_def thr_ok_def)
  moreover have "no_side_work stale_kstate"
    using switch_kstate_ok(3) by (simp add: no_side_work_def is_standby_def stale_kstate_eq)
  moreover have "quantum_over (thr stale_kstate (current_ptr stale_kstate))"
    by (simp add: c) (simp add: stale_kstate_eq switch_kstate_sel quantum_over_def quantum_defs)
  ultimately show ?thesis
    by (rule stale_queue_halts [of _ "0x2000"])
      (simp_all add: c, simp_all add: stale_kstate_eq switch_kstate_sel)
qed

text \<open>
  The replacement of a sleeping thread is incomplete: when the selected thread was woken before its sleep
  was over, the switcher prepares the Init thread instead, but the processor's current tid still names the
  sleeper. The dispatcher therefore runs the sleeper, while the process made current is that of the Init thread,
  and the Init thread is marked ready and taken out of the run queue.
\<close>

theorem sleeper_runs_as_init:
  assumes v: "current_valid s 0" and p: "p = current_ptr s" "p \<noteq> InitThread s"
    and t: "t_state (thr s p) = READY" "sleep_in_progress (t_Deferred (thr s p))" "t_cpl (thr s p) = 3"
    and c: "counters_ok s" and i: "process_ok s (t_tgid (thr s (InitThread s)))"
      "p_pml4_PA (tes s (teList s (nat (t_tgid (thr s (InitThread s)))))) \<noteq> 0"
  shows "\<exists>s'. ts_dispatch_current 0 s = Inr s' \<and> current_ptr s' = p \<and> t_state (thr s' p) = RUNNING \<and>
    cr3 s' = t_pml4_PA (thr s p) \<and> l_current_pid (lapic_info s' 0) = t_tgid (thr s (InitThread s)) \<and>
    t_state (thr s' (InitThread s)) = READY \<and> t_next (thr s' (InitThread s)) = NULL"
proof -
  let ?I = "InitThread s"
  define s1 where "s1 = (upd_thr ?I clear_counters (make_init_ready s))
    \<lparr>dispatch_counts := count_selection SELECT_DISPATCHER_COUNT (dispatch_counts s)\<rparr>"
  have tg: "ts_target p s = Inr (?I, make_init_ready s)" using t p(2) by (simp add: ts_target_def)
  have inc: "IncrementDispatcherCount SELECT_DISPATCHER_COUNT (upd_thr ?I clear_counters (make_init_ready s)) = Inr s1"
    using IncrementDispatcherCount_ok [of "upd_thr ?I clear_counters (make_init_ready s)"] c
    by (simp add: counters_ok_def s1_def criteria_defs make_init_ready_def)
  have f1: "current_ptr s1 = p" "thr s1 p = thr s p" "lapic_info s1 = lapic_info s" "threadList s1 = threadList s"
    "teList s1 = teList s" "tes s1 = tes s" "thr s1 ?I = clear_counters ((thr s ?I)\<lparr>t_state := READY, t_next := NULL\<rparr>)"
    using p by (simp_all add: s1_def make_init_ready_def)
  have v1: "current_valid s1 0" using v by (simp add: current_valid_ptr f1 thr_ok_def p(1) [symmetric])
  have r1: "t_state (thr s1 (current_ptr s1)) = READY" "t_cpl (thr s1 (current_ptr s1)) = 3" using t f1 by simp_all
  define s2 where "s2 = load_pml4_table (t_pml4_PA (thr s p))
     (upd_thr p (\<lambda>t. (run_thread t)\<lparr>t_saved := False, t_to_user := t_to_user t + 1\<rparr>) s1)
       \<lparr>UP_CurrentThread := p, cpu_context := restore_registers (t_context (thr s p)) (cpu_context s1)\<rparr>"
  have d: "dispatcher DISPATCHER_CURRENT s1 = Inr s2"
    using dispatcher_run [OF v1 r1] by (simp add: s2_def f1)
  have f2: "thr s2 p = (run_thread (thr s p))\<lparr>t_saved := False, t_to_user := t_to_user (thr s p) + 1\<rparr>"
    "thr s2 ?I = thr s1 ?I" "tes s2 = tes s" "teList s2 = teList s" "cr3 s2 = t_pml4_PA (thr s p)"
    "lapic_info s2 = lapic_info s" "threadList s2 = threadList s"
    using p(2) by (simp_all add: s2_def load_pml4_table_def f1)
  define s3 where "s3 = set_current_process (t_tgid (thr s ?I)) 0 s2"
  have "t_tgid (thr s2 ?I) = t_tgid (thr s ?I)" by (simp add: f2 f1)
  then have e: "ts_enter_process ?I s2 = Inr s3"
    using i by (simp add: ts_enter_process_def Let_def f2 process_ok_def s3_def THREAD_COUNT_MAX_def PROCESS_COUNT_MAX_def)
  have "tid_ok (l_current_tid (lapic_info s 0))" "thr_ok s p" "thr_at s (l_current_tid (lapic_info s 0)) = p"
    using v p(1) by (simp_all add: current_valid_ptr) (simp add: current_ptr_def)
  then have "ts_dispatch_current 0 s = Inr s3"
    using tg inc d e by (simp add: ts_dispatch_current_def Let_def thr_ok_def)
  moreover have "current_ptr s3 = p"
    using p(1) by (simp add: s3_def set_current_process_eq current_ptr_def f2)
  ultimately show ?thesis
    using f2 f1 by (simp add: s3_def set_current_process_eq) (simp add: clear_counters_def)
qed

definition sleeper_kstate :: kstate where
  "sleeper_kstate = upd_lapic 0 (\<lambda>l. l\<lparr>l_current_tid := 1\<rparr>)
     (upd_thr 0x2000 (\<lambda>t. t\<lparr>t_Deferred := zero_deferred\<lparr>sleep_in_progress := True, sleep_phase := 2\<rparr>\<rparr>) switch_kstate)"

theorem sleeper_runs_as_init_witness:
  "\<exists>s'. ts_dispatch_current 0 sleeper_kstate = Inr s' \<and> current_ptr s' = 0x2000 \<and> t_state (thr s' 0x2000) = RUNNING"
proof -
  have c: "current_ptr sleeper_kstate = 0x2000" "InitThread sleeper_kstate = 0x1000"
    by (simp_all add: sleeper_kstate_def current_ptr_def switch_kstate_sel)
  have v: "current_valid sleeper_kstate 0"
    by (simp add: current_valid_ptr c)
      (simp add: sleeper_kstate_def tid_ok_def THREAD_COUNT_MAX_def thr_ok_def switch_kstate_sel)
  have ok: "counters_ok sleeper_kstate" using switch_kstate_sel(11) by (simp add: counters_ok_def sleeper_kstate_def)
  have t: "thr sleeper_kstate 0x1000 = thr switch_kstate 0x1000" "teList sleeper_kstate = teList switch_kstate"
    "tes sleeper_kstate = tes switch_kstate" "t_state (thr sleeper_kstate 0x2000) = READY"
    "sleep_in_progress (t_Deferred (thr sleeper_kstate 0x2000))" "t_cpl (thr sleeper_kstate 0x2000) = 3"
    by (simp_all add: sleeper_kstate_def switch_kstate_sel)
  have "process_ok sleeper_kstate (t_tgid (thr sleeper_kstate 0x1000))"
    by (simp add: process_ok_def t switch_kstate_sel PROCESS_COUNT_MAX_def zero_te_def)
  with sleeper_runs_as_init [OF v c(1) [symmetric] _ t(4,5,6) ok] c t show ?thesis
    by (auto simp: switch_kstate_sel zero_te_def)
qed

end
