(* ===== verification/Kernel_Steps.thy ===== *)
theory Kernel_Steps
  imports Task_Switch
begin

text \<open>
  The kernel as a transition system: what can happen to the state between and at timer interrupts, in
  any order. The calls of the thread interface, the priority calls of the scheduler, messages, deferred
  input events, heap requests and the task switch itself are the steps; a step that halts the machine
  has no successor. The input handlers that a switch may call are an argument of the relation. The invariant of the reachable states is proved by rule induction from the
  contracts of the components.
\<close>

section \<open>Steps\<close>

datatype kernel_event =
    ThreadCall thread_call
  | NiceCall u64 int | BoostDs | BoostForeground | LowerCurrent int
  | PostMessage int int int u64 u64 | PostMessage2 int int int u64 u64 u64 u64
  | PostInput int u64 u64 | Broadcast int int u64 u64 u64 u64 | GetMessage addr
  | DeferEvent dpc_event | AllocMemory u32 | FreeMemory addr
  | TimerInterrupt "u64 flow"

text \<open>
  The two thread calls that could take the current thread of processor 0 away are steps only where they do not: the start
  of the machine sets invalid tids, and the handler of fatal exceptions destroys the thread that failed.
\<close>

inductive kernel_step :: "input_handlers \<Rightarrow> kstate \<Rightarrow> kernel_event \<Rightarrow> kstate \<Rightarrow> bool" for h where
  thread_call: "call_spares 0 c s \<Longrightarrow> exec_call c s = Inr s' \<Longrightarrow> kernel_step h s (ThreadCall c) s'"
| nice_call: "kernel_step h s (NiceCall d n) (sys_nice d n s)"
| boost_ds: "kernel_step h s BoostDs (sched_boost_ds_thread s)"
| boost_foreground: "kernel_step h s BoostForeground (sched_boost_foreground_thread s)"
| lower_current: "kernel_step h s (LowerCurrent n) (sched_lower_current_thread n s)"
| post_message: "ipc_post_message_to_tid a b c l1 l2 s = Inr (rv, s') \<Longrightarrow>
    kernel_step h s (PostMessage a b c l1 l2) s'"
| post_message2: "ipc_post_message_to_tid2 a b c l1 l2 l3 l4 s = Inr (rv, s') \<Longrightarrow>
    kernel_step h s (PostMessage2 a b c l1 l2 l3 l4) s'"
| post_input: "ipc_post_input_event_to_ds ev l1 l2 s = Inr (rv, s') \<Longrightarrow> kernel_step h s (PostInput ev l1 l2) s'"
| broadcast: "ipc_broadcast_system_message a c l1 l2 l3 l4 s = Inr (n, s') \<Longrightarrow>
    kernel_step h s (Broadcast a c l1 l2 l3 l4) s'"
| get_message: "ipc_get_message u b s = Inr (rv, b', s') \<Longrightarrow> kernel_step h s (GetMessage u) s'"
| defer_event: "kernel_step h s (DeferEvent e) (qf_post_message e s)"
| alloc_memory: "kmalloc n s = Inr (p, s') \<Longrightarrow> kernel_step h s (AllocMemory n) s'"
| free_memory: "kernel_step h s (FreeMemory p) (s\<lparr>heap := kfree p (heap s)\<rparr>)"
| timer_interrupt: "tsThreadSwitch h hw s = Inr (r, s') \<Longrightarrow> kernel_step h s (TimerInterrupt r) s'"

inductive_cases timerE: "kernel_step h s (TimerInterrupt r) s'"

inductive kernel_run :: "input_handlers \<Rightarrow> kstate \<Rightarrow> kernel_event list \<Rightarrow> kstate \<Rightarrow> bool" for h where
  run_Nil: "kernel_run h s [] s"
| run_Cons: "kernel_step h s e s1 \<Longrightarrow> kernel_run h s1 es s2 \<Longrightarrow> kernel_run h s (e # es) s2"

inductive_simps kernel_run_Cons: "kernel_run h s (e # es) s'"
inductive_simps kernel_run_Nil: "kernel_run h s [] s'"

section \<open>What a step keeps\<close>

text \<open>
  A step that touches neither table, identities, heap nor the current thread of processor 0, and
  treats the rings as the message operations do.
\<close>

definition quiet_step :: "kstate \<Rightarrow> kstate \<Rightarrow> bool" where
  "quiet_step s s' \<longleftrightarrow> threadList s' = threadList s \<and> InitThread s' = InitThread s \<and> UP_IdleThread s' = UP_IdleThread s \<and>
     heap s' = heap s \<and> l_current_tid (lapic_info s' 0) = l_current_tid (lapic_info s 0) \<and>
     (\<forall>p. t_tid (thr s' p) = t_tid (thr s p) \<and> t_used (thr s' p) = t_used (thr s p) \<and> t_magic (thr s' p) = t_magic (thr s p))"

lemma quiet_step_refl [simp]: "quiet_step s s"
  by (simp add: quiet_step_def)

lemma quiet_step_trans: "quiet_step s s1 \<Longrightarrow> quiet_step s1 s2 \<Longrightarrow> quiet_step s s2"
  by (simp add: quiet_step_def)

lemma quiet_step_upd [simp]:
  "(\<And>x. t_tid (f x) = t_tid x \<and> t_used (f x) = t_used x \<and> t_magic (f x) = t_magic x) \<Longrightarrow>
   quiet_step s (upd_thr t f s') = quiet_step s s'"
  by (auto simp: quiet_step_def)

lemma quiet_step_msg [simp]: "quiet_step s (upd_msg m f s') = quiet_step s s'"
  by (simp add: quiet_step_def)

lemma quiet_step_keeps: "quiet_step s s' \<Longrightarrow> same_rings s s' \<Longrightarrow> keeps_table s s'"
  using same_rings_ok by (auto simp: quiet_step_def keeps_table_def)

lemma quiet_step_current: "quiet_step s s' \<Longrightarrow> current_valid s 0 \<Longrightarrow> current_valid s' 0"
  by (simp add: quiet_step_def current_valid_def thr_ok_def)

lemma quiet_enqueue: "ipc_enqueue nm t a b c l1 l2 l3 l4 s = Inr (rv, s') \<Longrightarrow> quiet_step s s'"
  by (auto simp: ipc_enqueue_def Let_def split: if_splits)

lemma quiet_coalesce: "ipc_coalesce t a b c l1 l2 s = Inr (Some s') \<Longrightarrow> quiet_step s s'"
  unfolding ipc_coalesce_def Let_def
  by (elim if_InrE; (simp; fail)?) (simp_all only: sum.inject option.inject, auto)

lemma quiet_post2: "ipc_post_message_to_tid2 a b c l1 l2 l3 l4 s = Inr (rv, s') \<Longrightarrow> quiet_step s s'"
  by (auto simp: ipc_post_message_to_tid2_def elim!: and_then_InrE split: if_splits option.splits dest: quiet_enqueue)

lemma quiet_post:
  assumes "ipc_post_message_to_tid a b c l1 l2 s = Inr (rv, s')"
  shows "quiet_step s s'"
proof (cases "c \<le> 0")
  case False
  with assms obtain r where r: "ipc_check_receiver ''ipc_post_message_to_tid'' b s = Inr r"
    and k: "(case r of None \<Rightarrow> Inr (-1, s) | Some t \<Rightarrow>
      if c = MSG_MOUSEMOVE then Inr (0, upd_thr t (\<lambda>x. x\<lparr>t_input_flags := t_input_flags x OR IFLAGS_MOUSEMOVE\<rparr>) s)
      else if c = MSG_PAINT then Inr (0, upd_thr t (\<lambda>x. x\<lparr>t_input_flags := t_input_flags x OR IFLAGS_PAINT\<rparr>) s)
      else and_then (ipc_coalesce t a b c l1 l2 s) (\<lambda>k. case k of Some s' \<Rightarrow> Inr (0, s')
        | None \<Rightarrow> ipc_enqueue ''ipc_post_message_to_tid'' t a b c l1 l2 (jiffies s) (jiffies s) s)) = Inr (rv, s')"
    unfolding ipc_post_message_to_tid_def by (auto elim: and_then_InrE)
  show ?thesis
  proof (cases r)
    case (Some t)
    with k show ?thesis
      by (auto split: if_split_asm option.split_asm elim!: and_then_InrE intro: quiet_enqueue quiet_coalesce)
  qed (use k in simp)
qed (use assms in \<open>simp add: ipc_post_message_to_tid_def\<close>)

lemma quiet_get: "ipc_get_message u b s = Inr (rv, b', s') \<Longrightarrow> quiet_step s s'"
  unfolding ipc_get_message_def Let_def
  by (elim if_InrE; (simp; fail)?)
    (auto simp: ipc_get_fail_def ipc_copy_out_def Let_def split: if_splits)

lemma quiet_broadcast:
  "broadcast_loop a c l1 l2 l3 l4 is (n, s) = Inr (m, s') \<Longrightarrow> keeps_table s s' \<and> quiet_step s s'"
proof (induction "is" arbitrary: n s)
  case (Cons i "is")
  let ?t = "threadList s i"
  show ?case
  proof (cases "?t \<noteq> NULL \<and> t_magic (thr s ?t) = 1234")
    case True
    with Cons.prems obtain rv s1 n1 where
      p: "ipc_post_message_to_tid2 a (t_tid (thr s ?t)) c l1 l2 l3 l4 s = Inr (rv, s1)"
      and l: "broadcast_loop a c l1 l2 l3 l4 is (n1, s1) = Inr (m, s')"
      by (auto simp: Let_def elim!: and_then_InrE)
    have q: "quiet_step s s1" by (rule quiet_post2 [OF p])
    then have "keeps_table s s1" using same_rings_post2 [OF p] by (rule quiet_step_keeps)
    with q Cons.IH [OF l] show ?thesis using keeps_table_trans quiet_step_trans by blast
  next
    case False
    then have "broadcast_loop a c l1 l2 l3 l4 is (n, s) = Inr (m, s')" using Cons.prems by (auto simp: Let_def)
    then show ?thesis by (rule Cons.IH)
  qed
qed simp

section \<open>The invariant\<close>

text \<open>What one step keeps, besides whatever it is meant to change.\<close>

definition safe_step :: "kstate \<Rightarrow> kstate \<Rightarrow> bool" where
  "safe_step s s' \<longleftrightarrow> extends_table s s' \<and> (current_valid s 0 \<longrightarrow> current_valid s' 0)"

lemma safe_step_quiet: "quiet_step s s' \<Longrightarrow> keeps_table s s' \<Longrightarrow> safe_step s s'"
  by (simp add: safe_step_def quiet_step_current keeps_extends)

lemma safe_step_msg: "quiet_step s s' \<Longrightarrow> same_rings s s' \<Longrightarrow> safe_step s s'"
  by (simp add: safe_step_quiet quiet_step_keeps)

lemma safe_step_refl [simp]: "safe_step s s"
  by (simp add: safe_step_quiet)

lemma safe_step_trans: "safe_step s s1 \<Longrightarrow> safe_step s1 s2 \<Longrightarrow> safe_step s s2"
  using extends_table_trans by (auto simp: safe_step_def)

lemma keeps_table_call: "\<not> may_halt c \<Longrightarrow> keeps_table s (after_call c s)"
  by (cases c) (simp_all add: after_call_def thread_call_defs Let_def)

lemma same_identities_keeps: "same_identities s s' \<Longrightarrow> keeps_table s s'"
  by (simp add: same_identities_def keeps_table_def msg_ring_ok_def)

lemma safe_step_call:
  assumes "call_spares 0 c s" "exec_call c s = Inr s'"
  shows "safe_step s s'"
proof -
  have "keeps_table s s'"
    using keeps_table_call [of c s] after_call [OF assms(2)] same_identities_keeps [OF may_halt_Inr [OF _ assms(2)]]
    by (cases "may_halt c") simp_all
  then show ?thesis using exec_call_current [OF assms(2,1)] by (simp add: safe_step_def keeps_extends)
qed

lemma safe_step_priority:
  "safe_step s (sys_nice d n s)" "safe_step s (sched_boost_ds_thread s)"
  "safe_step s (sched_boost_foreground_thread s)" "safe_step s (sched_lower_current_thread n s)"
  by (rule safe_step_quiet; simp add: sys_nice_def sched_boost_ds_thread_def sched_boost_foreground_thread_def
      sched_lower_current_thread_def set_thread_priority_def Let_def)+

lemma safe_step_input:
  assumes "ipc_post_input_event_to_ds ev l1 l2 s = Inr (rv, s')"
  shows "safe_step s s'"
proof -
  have p: "safe_step s s1" if "ipc_post_message_to_ds e a b s = Inr (n, s1)" for e a b n s1
  proof -
    have c: "safe_step s (do_credits_by_tid tid (do_credits_by_tid tid s))" for tid
      using safe_step_call [of "CallCredits tid"] safe_step_trans by (metis exec_call.simps(17) call_spares.simps(19))
    have "s1 = s \<or> (\<exists>tid rv. ipc_post_message_to_tid HARDWARE_TID tid e a b
        (do_credits_by_tid tid (do_credits_by_tid tid s)) = Inr (rv, s1))"
      using that unfolding ipc_post_message_to_ds_def by (auto simp: Let_def split: if_splits elim!: and_then_InrE)
    then show ?thesis
      using c safe_step_msg [OF quiet_post same_rings_post] safe_step_trans by (metis safe_step_msg quiet_step_refl same_rings_refl)
  qed
  from assms show ?thesis
    unfolding ipc_post_input_event_to_ds_def
    by (auto simp: Let_def split: if_splits elim!: and_then_InrE dest!: p intro: safe_step_trans)
qed

lemma safe_step_heap:
  assumes "heap_inv (heap s) \<Longrightarrow> heap_inv h" "thr s' = thr s" "msgs s' = msgs s" "threadList s' = threadList s"
    "InitThread s' = InitThread s" "UP_IdleThread s' = UP_IdleThread s" "lapic_info s' = lapic_info s" "heap s' = h"
  shows "safe_step s s'"
  using assms by (simp add: safe_step_def extends_table_def msg_ring_ok_def current_valid_def thr_ok_def)

lemma safe_step_kmalloc: "kmalloc n s = Inr (p, s') \<Longrightarrow> safe_step s s'"
  by (rule safe_step_heap [OF _ _ _ _ _ _ _ refl])
    (use kernel_alloc.alloc_inv in \<open>blast\<close>, auto dest!: kmalloc_Inr simp: charge_def Let_def split: if_splits)

lemma safe_step_kfree: "safe_step s (s\<lparr>heap := kfree p (heap s)\<rparr>)"
  by (rule safe_step_heap) (simp_all add: kfree_def mm_kfree_def heapFreeMemory_inv)

lemma safe_step_timer: "handlers_ok h \<Longrightarrow> tsThreadSwitch h hw s = Inr (r, s') \<Longrightarrow> safe_step s s'"
  using switch_outcome [of h hw s r s'] by (simp add: safe_step_def switch_result_def)

lemma safe_step_broadcast: "ipc_broadcast_system_message a c l1 l2 l3 l4 s = Inr (n, s') \<Longrightarrow> safe_step s s'"
  unfolding ipc_broadcast_system_message_def by (auto elim!: and_then_InrE dest!: quiet_broadcast intro: safe_step_quiet)

lemma safe_step_defer: "safe_step s (qf_post_message e s)"
  by (cases e) (auto simp: qf_post_message_def Let_def safe_step_def extends_table_def msg_ring_ok_def
    current_valid_def thr_ok_def)

lemma kernel_step_safe: "kernel_step h s e s' \<Longrightarrow> handlers_ok h \<Longrightarrow> safe_step s s'"
  by (induction rule: kernel_step.induct)
    (auto intro: safe_step_call safe_step_priority safe_step_msg quiet_post same_rings_post quiet_post2 same_rings_post2
      safe_step_input quiet_get same_rings_get safe_step_kmalloc safe_step_kfree safe_step_timer
      safe_step_broadcast safe_step_defer)

text \<open>The invariant of the reachable states.\<close>

definition kernel_ok :: "kstate \<Rightarrow> bool" where
  "kernel_ok s \<longleftrightarrow> wf_threads s \<and> current_valid s 0 \<and> heap_inv (heap s) \<and>
     (\<forall>i < THREAD_COUNT_MAX. threadList s i \<noteq> NULL \<longrightarrow> msg_ring_ok s (threadList s i))"

lemma safe_step_ok:
  assumes "safe_step s s'" "kernel_ok s"
  shows "kernel_ok s'"
proof -
  have e: "extends_table s s'" and o: "wf_threads s" "current_valid s 0" "heap_inv (heap s)"
    "\<forall>i < THREAD_COUNT_MAX. threadList s i \<noteq> NULL \<longrightarrow> msg_ring_ok s (threadList s i)"
    using assms by (auto simp: safe_step_def kernel_ok_def)
  have "t_tid (thr s' (threadList s' i)) = int i \<and> msg_ring_ok s' (threadList s' i)"
    if i: "i < THREAD_COUNT_MAX" "threadList s' i \<noteq> NULL" for i
  proof (cases "threadList s i = NULL")
    case True
    with e i(2) show ?thesis unfolding extends_table_def by blast
  next
    case False
    then have "threadList s' i = threadList s i" "t_tid (thr s' (threadList s i)) = t_tid (thr s (threadList s i))"
      "msg_ring_ok s (threadList s i) \<longrightarrow> msg_ring_ok s' (threadList s i)"
      using e unfolding extends_table_def by blast+
    with False i(1) o show ?thesis by (simp add: wf_threads_def)
  qed
  moreover have "heap_inv (heap s')" using e o(3) by (simp add: extends_table_def)
  ultimately show ?thesis using assms(1) o(2) by (simp add: kernel_ok_def wf_threads_def safe_step_def)
qed

lemma kernel_run_safe: "kernel_run h s es s' \<Longrightarrow> handlers_ok h \<Longrightarrow> safe_step s s'"
  by (induction rule: kernel_run.induct)
    (simp add: safe_step_def, blast intro: safe_step_trans kernel_step_safe)

lemma kernel_run_append: "kernel_run h s (es @ es') s' \<longleftrightarrow> (\<exists>s1. kernel_run h s es s1 \<and> kernel_run h s1 es' s')"
  by (induction es arbitrary: s) (auto simp: kernel_run_Nil kernel_run_Cons)

lemma timer_dispatches:
  "kernel_step h s (TimerInterrupt (Return 0)) s' \<Longrightarrow> task_switch_status s = UNLOCKED \<Longrightarrow> dispatched s'"
  by (erule timerE) (auto dest: switch_outcome simp: switch_result_def)

section \<open>Properties\<close>

text \<open>
  Claim C3. The kernel stays well formed: from a well-formed state, any sequence of thread calls, priority changes,
  messages, broadcasts, deferred events, heap requests, heap releases and timer interrupts that does not halt the
  machine ends in a well-formed state: each slot holds the thread with that
  tid, the current thread of processor 0 is valid, the heap satisfies its invariant and every thread has a well-formed
  ring. Every thread that was in the table is still in its slot. Whenever a last event is a timer interrupt that
  returns 0 from an unlocked switcher, the current thread is dispatched. Two conditions are part of the statement. The
  input handlers that a timer interrupt may call (\<open>handlers_ok\<close>) do to the thread table, the rings and the
  heap nothing but what the kernel's own calls do, creating threads included: they may allocate, post messages and add
  well-formed threads, but neither remove a thread nor damage a ring or the heap. And thread calls do not take the current
  thread of processor 0 away (\<open>call_spares\<close>, in the steps): \<^verbatim>\<open>SetCurrentTID\<close> names a valid thread, and
  \<^verbatim>\<open>destroy_thread_structure\<close> another one.
\<close>

theorem kernel_run_keeps_ok:
  assumes "handlers_ok h" and "kernel_ok s" and "kernel_run h s es s'"
  shows "kernel_ok s' \<and> (\<forall>i. threadList s i \<noteq> NULL \<longrightarrow> threadList s' i = threadList s i) \<and>
    (\<forall>s''. task_switch_status s' = UNLOCKED \<longrightarrow> kernel_step h s' (TimerInterrupt (Return 0)) s'' \<longrightarrow>
       kernel_ok s'' \<and> dispatched s'')"
proof -
  have r: "safe_step s s'" by (rule kernel_run_safe [OF assms(3,1)])
  then have "kernel_ok s'" "\<forall>i. threadList s i \<noteq> NULL \<longrightarrow> threadList s' i = threadList s i"
    using safe_step_ok assms(2) by (auto simp: safe_step_def extends_table_def)
  then show ?thesis using kernel_step_safe [OF _ assms(1)] safe_step_ok timer_dispatches by blast
qed

text \<open>The two-thread system of the task switcher, with message rings and a fresh heap.\<close>

definition run_kstate :: kstate where
  "run_kstate = switch_kstate\<lparr>
     thr := (\<lambda>p. (thr switch_kstate p)\<lparr>t_MsgQueue := sample_ring_at (if p = 0x1000 then 0x10000 else 0x20000)\<rparr>),
     msgs := (\<lambda>_. zero_msg\<lparr>m_used := True, m_magic := 1234\<rparr>),
     heap := snd (mmInitialize_heap (heap switch_kstate))\<rparr>"

lemma run_kstate_sel:
  "thr run_kstate p = (thr switch_kstate p)\<lparr>t_MsgQueue := sample_ring_at (if p = 0x1000 then 0x10000 else 0x20000)\<rparr>"
  "threadList run_kstate = (\<lambda>_. NULL)(0 := 0x1000, 1 := 0x2000)" "teList run_kstate = teList switch_kstate"
  "tes run_kstate = tes switch_kstate" "lapic_info run_kstate = lapic_info switch_kstate"
  "UP_threads_counter run_kstate = 2" "contextCPL run_kstate = 3" "task_switch_status run_kstate = UNLOCKED"
  "heap run_kstate = snd (mmInitialize_heap (heap switch_kstate))" "counters_ok run_kstate"
  by (simp_all add: run_kstate_def switch_kstate_sel) (use switch_kstate_sel(11) in \<open>simp add: counters_ok_def\<close>)

lemma run_kstate_ptr: "current_ptr run_kstate = 0x1000"
  by (simp add: current_ptr_def run_kstate_sel switch_kstate_sel zero_lapic_def)

lemma run_kstate_switchable:
  "switchable run_kstate" "next_ready run_kstate 0x2000" "no_side_work run_kstate"
proof -
  note d = run_kstate_sel switch_kstate_sel tid_ok_def THREAD_COUNT_MAX_def PROCESS_COUNT_MAX_def thr_ok_def
    process_ok_def zero_lapic_def zero_te_def
  show "switchable run_kstate" by (simp add: switchable_def current_valid_ptr run_kstate_ptr d)
  show "next_ready run_kstate 0x2000" by (simp add: next_ready_def d)
  have "\<not> is_standby run_kstate i" for i by (simp add: is_standby_def run_kstate_sel switch_kstate_sel)
  then show "no_side_work run_kstate"
    by (simp add: no_side_work_def run_kstate_sel switch_kstate_sel zero_lapic_def zero_dpc_queue_def)
qed

lemma run_kstate_ok: "kernel_ok run_kstate"
proof -
  have "msg_ring_ok run_kstate 0x1000"
    by (rule sample_ring_ok [of _ _ "0x10000"])
      (simp_all add: run_kstate_def switch_kstate_sel sample_thread_def zero_thread_def)
  moreover have "msg_ring_ok run_kstate 0x2000"
    by (rule sample_ring_ok [of _ _ "0x20000"])
      (simp_all add: run_kstate_def switch_kstate_sel sample_thread_def zero_thread_def)
  moreover have "wf_threads run_kstate"
    by (simp add: wf_threads_def run_kstate_sel switch_kstate_sel sample_thread_def zero_thread_def)
  ultimately show ?thesis
    using run_kstate_switchable(1)
    by (auto simp: kernel_ok_def switchable_def run_kstate_sel mmInitialize_heap_inv split: if_splits)
qed

text \<open>
  Handlers that work: a key adds a thread with a ring of its own in slot 2, as a command of the console may do, and a
  mouse event allocates memory.
\<close>

definition new_thread :: thread_d where
  "new_thread = (sample_thread 2 INITIALIZED)\<lparr>t_MsgQueue := sample_ring_at 0x30000\<rparr>"

definition add_thread :: "kstate \<Rightarrow> kstate" where
  "add_thread s = (if threadList s 2 = NULL \<and> (\<forall>i. threadList s i \<noteq> 0x3000) \<and>
       (\<forall>k < 64. m_used (msgs s (sample_ring_at 0x30000 k)) \<and> m_magic (msgs s (sample_ring_at 0x30000 k)) = 1234)
     then (upd_thr 0x3000 (\<lambda>_. new_thread) s)\<lparr>threadList := (threadList s)(2 := 0x3000)\<rparr> else s)"

definition busy_input :: input_handlers where
  "busy_input = \<lparr>wmRawKeyEvent = (\<lambda>_ _ _ _ s. Inr (add_thread s)),
     wmMouseEvent = (\<lambda>_ _ _ s. and_then (kmalloc 64 s) (\<lambda>(p, s1). Inr s1))\<rparr>"

lemma add_thread_extends: "extends_table s (add_thread s)"
proof (cases "threadList s 2 = NULL \<and> (\<forall>i. threadList s i \<noteq> 0x3000) \<and>
    (\<forall>k < 64. m_used (msgs s (sample_ring_at 0x30000 k)) \<and> m_magic (msgs s (sample_ring_at 0x30000 k)) = 1234)")
  case True
  then have e: "add_thread s = (upd_thr 0x3000 (\<lambda>_. new_thread) s)\<lparr>threadList := (threadList s)(2 := 0x3000)\<rparr>"
    by (simp add: add_thread_def)
  have r: "msg_ring_ok (add_thread s) 0x3000"
  proof -
    have u: "unat (0x30000 :: addr) = 0x30000" "unat (0x30000 :: addr) < 2 ^ 32" by simp_all
    have "sample_ring_at 0x30000 i \<noteq> NULL" if "i < 64" for i
      using sample_ring_unat [OF that u(2)] u(1) by (intro notI) simp
    moreover have "thr (add_thread s) 0x3000 = new_thread" "msgs (add_thread s) = msgs s" by (simp_all add: e)
    ultimately show ?thesis using True sample_ring_inj [OF u(2)]
      by (simp add: msg_ring_ok_def new_thread_def sample_thread_def zero_thread_def)
  qed
  have "msg_ring_ok (add_thread s) p = msg_ring_ok s p" if "p \<noteq> 0x3000" for p
    using that by (simp add: e msg_ring_ok_def)
  with r show ?thesis using True by (auto simp: extends_table_def e new_thread_def)
next
  case False
  then show ?thesis unfolding add_thread_def by (simp only: if_False extends_table_refl)
qed

lemma busy_input_ok: "handlers_ok busy_input"
  using safe_step_kmalloc
  by (auto simp: handlers_ok_def busy_input_def add_thread_extends safe_step_def elim!: and_then_InrE)

lemma run_kstate_tick: "\<exists>s'. kernel_step h run_kstate (TimerInterrupt (Return 0)) s'"
proof -
  have "quantum_over (thr run_kstate 0x1000)"
    by (simp add: run_kstate_sel switch_kstate_sel quantum_over_def quantum_defs)
  then obtain s1 where t: "thread_switch h 0 (set_irql IRQL_DISPATCHER run_kstate) = Inr (Return 0, s1)"
    and n: "now_running 0x2000 run_kstate s1"
    using switch_away [of "set_irql IRQL_DISPATCHER run_kstate" "0x2000" h] run_kstate_switchable
    by (auto simp: run_kstate_ptr)
  then have "tid_ok (l_current_tid (lapic_info s1 0))"
    by (simp add: now_running_def run_kstate_sel switch_kstate_sel tid_ok_def THREAD_COUNT_MAX_def)
  with t obtain s2 where "tsThreadSwitch h 0 run_kstate = Inr (Return 0, s2)"
    using switch_entry [OF run_kstate_switchable(1), of h] ts_finish_run [of s1 0] by (auto simp: flow_then_def)
  then show ?thesis by (blast intro: timer_interrupt)
qed

theorem kernel_run_keeps_ok_witness:
  "\<exists>s'. kernel_run busy_input run_kstate [TimerInterrupt (Return 0), ThreadCall (CallYield 1), BoostDs, FreeMemory 0x1000] s' \<and>
     kernel_ok s'"
proof -
  from run_kstate_tick obtain s1 where "kernel_step busy_input run_kstate (TimerInterrupt (Return 0)) s1" by blast
  moreover have "kernel_step busy_input s1 (ThreadCall (CallYield 1)) (yield_thread 1 s1)"
    by (rule thread_call) simp_all
  ultimately have "\<exists>s'. kernel_run busy_input run_kstate
      [TimerInterrupt (Return 0), ThreadCall (CallYield 1), BoostDs, FreeMemory 0x1000] s'"
    by (blast intro: run_Cons run_Nil boost_ds free_memory)
  then show ?thesis using kernel_run_keeps_ok [OF busy_input_ok run_kstate_ok] by blast
qed

end
