(* ===== verification/Bytes.thy ===== *)
theory Bytes
  imports Gramado_Prelude
begin

text \<open>
  Byte-addressed memory for the C library of the kernel (gthouse/libk): pointers are 64-bit
  addresses that wrap, a \<^verbatim>\<open>char\<close> is a byte that comparisons read as signed.
  The predicate \<open>cstr\<close> says that memory holds a given NUL-terminated string, and
  \<open>area\<close> is the set of addresses of a buffer.
\<close>

type_synonym mem = "addr \<Rightarrow> u8"

abbreviation at_off :: "addr \<Rightarrow> nat \<Rightarrow> addr" where
  "at_off p k \<equiv> p + of_nat k"

definition area :: "addr \<Rightarrow> nat \<Rightarrow> addr set" where
  "area p n = (\<lambda>k. at_off p k) ` {..<n}"

definition cstr :: "mem \<Rightarrow> addr \<Rightarrow> u8 list \<Rightarrow> bool" where
  "cstr m p xs \<longleftrightarrow> (\<forall>k < length xs. m (at_off p k) = xs ! k) \<and> 0 \<notin> set xs \<and> m (at_off p (length xs)) = 0"

text \<open>The bytes of a buffer.\<close>

definition read_bytes :: "mem \<Rightarrow> addr \<Rightarrow> nat \<Rightarrow> u8 list" where
  "read_bytes m p n = map (\<lambda>k. m (at_off p k)) [0..<n]"

section \<open>Offsets\<close>

lemma at_off_inj:
  assumes "j < 2 ^ 64" "k < 2 ^ 64" "at_off p j = at_off p k"
  shows "j = k"
proof -
  from assms(3) have "(of_nat j :: u64) = of_nat k" by simp
  then have "j mod 2 ^ 64 = k mod 2 ^ 64" by (simp add: unat_of_nat word_unat_eq_iff)
  with assms show ?thesis by simp
qed

lemma at_off_inj_iff: "j < 2 ^ 64 \<Longrightarrow> k < 2 ^ 64 \<Longrightarrow> at_off p j = at_off p k \<longleftrightarrow> j = k"
  using at_off_inj by blast

lemma at_off_Suc: "at_off p (Suc k) = at_off (p + 1) k"
  by (simp add: algebra_simps)

lemma at_off_add: "at_off (at_off p j) k = at_off p (j + k)"
  by (simp add: algebra_simps)

lemma area_at: "k < n \<Longrightarrow> at_off p k \<in> area p n"
  by (auto simp: area_def)

lemma area_mono: "k \<le> n \<Longrightarrow> area p k \<subseteq> area p n"
  by (auto simp: area_def)

lemma area_elem: "a \<in> area p n \<longleftrightarrow> (\<exists>k < n. a = at_off p k)"
  by (auto simp: area_def)

lemma area_sub:
  assumes "j + k \<le> n"
  shows "area (at_off p j) k \<subseteq> area p n"
proof
  fix a assume "a \<in> area (at_off p j) k"
  then obtain i where "i < k" "a = at_off p (j + i)" by (auto simp: area_elem at_off_add simp del: of_nat_add)
  with assms show "a \<in> area p n" unfolding area_elem by (intro exI [where x = "j + i"]) simp
qed

lemma at_off_below_area:
  assumes "i < j" "j + n \<le> 2 ^ 64"
  shows "at_off p i \<notin> area (at_off p j) n"
proof
  assume "at_off p i \<in> area (at_off p j) n"
  then obtain k where "k < n" "at_off p i = at_off p (j + k)"
    by (auto simp: area_elem at_off_add simp del: of_nat_add)
  with at_off_inj [of i "j + k" p] assms show False by simp
qed

lemma at_off_above_area:
  assumes "n \<le> k" "k < 2 ^ 64"
  shows "at_off p k \<notin> area p n"
proof
  assume "at_off p k \<in> area p n"
  then obtain j where "j < n" "at_off p k = at_off p j" by (auto simp: area_elem)
  with at_off_inj [of k j p] assms show False by simp
qed

lemma area_upt: "area p n = set (map (at_off p) [0..<n])"
  by (auto simp: area_def)

lemma area_0 [simp]: "area p 0 = {}"
  by (simp add: area_def)

lemma area_Suc: "area p (Suc n) = insert p (area (p + 1) n)"
proof -
  have "{..<Suc n} = insert 0 (Suc ` {..<n})" by (rule lessThan_Suc_eq_insert_0)
  then show ?thesis by (simp add: area_def image_image at_off_Suc [symmetric] algebra_simps)
qed

lemma area_range: "a \<in> area p n \<Longrightarrow> unat p + n \<le> 2 ^ 64 \<Longrightarrow> unat p \<le> unat a \<and> unat a < unat p + n"
proof -
  assume a: "a \<in> area p n" and n: "unat p + n \<le> 2 ^ 64"
  then obtain k where k: "k < n" "a = p + of_nat k" by (auto simp: area_elem)
  have "unat (of_nat k :: addr) = k" using k n by (simp add: unat_of_nat)
  then have "unat a = unat p + k" unfolding k(2) using k n by (subst unat_plus_exact) simp_all
  then show ?thesis using k by simp
qed

lemma area_apart: "unat p + n \<le> unat q \<Longrightarrow> unat q + k \<le> 2 ^ 64 \<Longrightarrow> area p n \<inter> area q k = {}"
proof (rule equals0I)
  fix a assume b: "unat p + n \<le> unat q" "unat q + k \<le> 2 ^ 64" and "a \<in> area p n \<inter> area q k"
  then have "a \<in> area p n" "a \<in> area q k" by simp_all
  then show False using area_range [of a p n] area_range [of a q k] b by linarith
qed

section \<open>Strings\<close>

lemma cstr_Nil [simp]: "cstr m p [] \<longleftrightarrow> m p = 0"
  by (simp add: cstr_def)

lemma cstr_Cons: "cstr m p (x # xs) \<longleftrightarrow> m p = x \<and> x \<noteq> 0 \<and> cstr m (p + 1) xs"
  by (auto simp: cstr_def less_Suc_eq_0_disj at_off_Suc algebra_simps)

lemma cstr_append: "cstr m p (xs @ ys) \<Longrightarrow> cstr m (at_off p (length xs)) ys"
proof (induction xs arbitrary: p)
  case (Cons x xs)
  then have "cstr m (at_off (p + 1) (length xs)) ys" by (simp add: cstr_Cons)
  then show ?case unfolding at_off_Suc [symmetric] by simp
qed simp

lemma cstr_appendI:
  "\<forall>k < length ys. m (at_off p k) = ys ! k \<Longrightarrow> 0 \<notin> set ys \<Longrightarrow> cstr m (at_off p (length ys)) xs \<Longrightarrow> cstr m p (ys @ xs)"
proof (induction ys arbitrary: p)
  case (Cons y ys)
  have "m p = y" using Cons.prems(1) [rule_format, of 0] by simp
  moreover have "m (at_off (p + 1) k) = ys ! k" if "k < length ys" for k
    using Cons.prems(1) [rule_format, of "Suc k"] that by (simp add: at_off_Suc del: of_nat_Suc)
  ultimately show ?case
    using Cons.IH [of "p + 1"] Cons.prems(2,3) by (simp add: cstr_Cons at_off_Suc del: of_nat_Suc)
qed simp

lemma cstr_unique: "cstr m p xs \<Longrightarrow> cstr m p ys \<Longrightarrow> xs = ys"
proof (induction xs arbitrary: p ys)
  case Nil
  then show ?case by (cases ys) (auto simp: cstr_Cons)
next
  case (Cons x xs)
  then show ?case by (cases ys) (auto simp: cstr_Cons)
qed

lemma cstr_cong:
  assumes "\<And>a. a \<in> area p (Suc (length xs)) \<Longrightarrow> m' a = m a"
  shows "cstr m' p xs = cstr m p xs"
  using assms unfolding cstr_def by (metis area_at less_Suc_eq)

lemma cstr_upd_outside: "a \<notin> area p (Suc (length xs)) \<Longrightarrow> cstr (m(a := v)) p xs = cstr m p xs"
  by (rule cstr_cong) auto

text \<open>Cutting a string short by writing its terminator.\<close>

lemma cstr_cut:
  assumes "cstr m p (xs @ ys)" "length xs + length ys < 2 ^ 64"
  shows "cstr (m(at_off p (length xs) := 0)) p xs"
proof -
  have "at_off p k \<noteq> at_off p (length xs)" if "k < length xs" for k
    using at_off_inj [of k "length xs" p] that assms(2) by auto
  with assms(1) show ?thesis by (auto simp: cstr_def nth_append)
qed

end
