(* ===== verification/Kstring.thy ===== *)
theory Kstring
  imports Bytes Kernel_Heap
begin

text \<open>
  The string library of the kernel (gthouse/libk/kstring.c) on byte memory. A loop that runs to a
  terminator that might not be there is a \<open>partial_function\<close> whose value is then
  \<^term>\<open>None\<close>; the properties show when it returns. Copies return the memory they leave
  behind. \<^verbatim>\<open>size_t\<close> is a signed int in this kernel.
\<close>

section \<open>Measuring and comparing\<close>

partial_function (option) strlen_loop :: "mem \<Rightarrow> addr \<Rightarrow> nat \<Rightarrow> nat option" where
  "strlen_loop m s i = (if m (at_off s i) \<noteq> 0 then strlen_loop m s (i + 1) else Some i)"

definition strlen :: "mem \<Rightarrow> addr \<Rightarrow> nat option" where
  "strlen m s = strlen_loop m s 0"

fun k_strnlen_loop :: "mem \<Rightarrow> addr \<Rightarrow> nat \<Rightarrow> nat \<Rightarrow> nat" where
  "k_strnlen_loop m s 0 i = i"
| "k_strnlen_loop m s (Suc left) i = (if m (at_off s i) \<noteq> 0 then k_strnlen_loop m s left (i + 1) else i)"

definition k_strnlen :: "mem \<Rightarrow> addr \<Rightarrow> int \<Rightarrow> nat" where
  "k_strnlen m s maxlen = k_strnlen_loop m s (nat maxlen) 0"

partial_function (option) strcmp_loop :: "mem \<Rightarrow> addr \<Rightarrow> addr \<Rightarrow> nat \<Rightarrow> int option" where
  "strcmp_loop m s1 s2 i =
    (if m (at_off s1 i) = m (at_off s2 i)
     then if m (at_off s1 i) = 0 then Some 0 else strcmp_loop m s1 s2 (i + 1)
     else Some (sint (m (at_off s1 i)) - sint (m (at_off s2 i))))"

definition strcmp :: "mem \<Rightarrow> addr \<Rightarrow> addr \<Rightarrow> int option" where
  "strcmp m s1 s2 = strcmp_loop m s1 s2 0"

fun gramado_strncmp_loop :: "mem \<Rightarrow> nat \<Rightarrow> addr \<Rightarrow> addr \<Rightarrow> int" where
  "gramado_strncmp_loop m 0 s1 s2 = (if m s1 \<noteq> 0 \<or> m s2 \<noteq> 0 then 2 else 0)"
| "gramado_strncmp_loop m (Suc n) s1 s2 =
    (if m s1 \<noteq> m s2 then 1 else gramado_strncmp_loop m n (s1 + 1) (s2 + 1))"

definition gramado_strncmp :: "mem \<Rightarrow> addr \<Rightarrow> addr \<Rightarrow> int \<Rightarrow> int" where
  "gramado_strncmp m s1 s2 len = gramado_strncmp_loop m (nat len) s1 s2"

fun checksum_loop :: "mem \<Rightarrow> addr \<Rightarrow> nat \<Rightarrow> u64 \<Rightarrow> u64" where
  "checksum_loop m buffer 0 tot = tot"
| "checksum_loop m buffer (Suc l) tot = checksum_loop m (buffer + 1) l (tot + ucast (m buffer AND 0xFF))"

definition string_compute_checksum :: "mem \<Rightarrow> addr \<Rightarrow> u64 \<Rightarrow> u64" where
  "string_compute_checksum m buffer lenght = (if lenght = 0 then 0 else checksum_loop m buffer (unat lenght) 0)"

section \<open>Copying\<close>

fun memcpy_loop :: "nat \<Rightarrow> addr \<Rightarrow> addr \<Rightarrow> mem \<Rightarrow> mem" where
  "memcpy_loop 0 dst src m = m"
| "memcpy_loop (Suc n) dst src m = memcpy_loop n (dst + 1) (src + 1) (m(dst := m src))"

definition memcpy :: "addr \<Rightarrow> addr \<Rightarrow> u64 \<Rightarrow> mem \<Rightarrow> addr \<times> mem" where
  "memcpy dst src n m = (dst, memcpy_loop (unat n) dst src m)"

text \<open>One step of the wide copies moves \<open>w\<close> bytes at a time.\<close>

definition copy_unit :: "nat \<Rightarrow> addr \<Rightarrow> addr \<Rightarrow> mem \<Rightarrow> mem" where
  "copy_unit w dst src m = (\<lambda>a. if unat (a - dst) < w then m (src + (a - dst)) else m a)"

fun memcpy_wide :: "nat \<Rightarrow> nat \<Rightarrow> addr \<Rightarrow> addr \<Rightarrow> mem \<Rightarrow> mem" where
  "memcpy_wide w 0 dst src m = m"
| "memcpy_wide w (Suc n) dst src m = memcpy_wide w n (at_off dst w) (at_off src w) (copy_unit w dst src m)"

definition memcpy32 :: "addr \<Rightarrow> addr \<Rightarrow> u64 \<Rightarrow> mem \<Rightarrow> addr \<times> mem" where
  "memcpy32 dst src n m = (dst, memcpy_wide 4 (unat n) dst src m)"

definition memcpy64 :: "addr \<Rightarrow> addr \<Rightarrow> u64 \<Rightarrow> mem \<Rightarrow> addr \<times> mem" where
  "memcpy64 dst src n m = (dst, memcpy_wide 8 (unat n) dst src m)"

text \<open>The common loop of the bounded copies: stop at the terminator or before index \<open>lim\<close>.\<close>

function copy_until :: "addr \<Rightarrow> addr \<Rightarrow> int \<Rightarrow> nat \<Rightarrow> mem \<Rightarrow> nat \<times> mem" where
  "copy_until dst src lim i m =
    (if int i < lim \<and> m (at_off src i) \<noteq> 0
     then copy_until dst src lim (i + 1) (m(at_off dst i := m (at_off src i))) else (i, m))"
  by pat_completeness auto
termination by (relation "measure (\<lambda>(dst, src, lim, i, m). nat (lim - int i))") auto

declare copy_until.simps [simp del]

definition safe_strcpy :: "addr \<Rightarrow> addr \<Rightarrow> int \<Rightarrow> mem \<Rightarrow> addr \<times> mem" where
  "safe_strcpy to from maxlen m =
    (case copy_until to from (maxlen - 1) 0 m of (i, m1) \<Rightarrow> (to, m1(at_off to i := 0)))"

definition kernel_strcpy_safe :: "addr \<Rightarrow> int \<Rightarrow> addr \<Rightarrow> mem \<Rightarrow> addr \<times> mem" where
  "kernel_strcpy_safe dst dst_size src m =
    (if dst = NULL \<or> src = NULL \<or> dst_size = 0 then (NULL, m)
     else case copy_until dst src (dst_size - 1) 0 m of (i, m1) \<Rightarrow> (dst, m1(at_off dst i := 0)))"

partial_function (option) strcpy_loop :: "addr \<Rightarrow> addr \<Rightarrow> nat \<Rightarrow> mem \<Rightarrow> mem option" where
  "strcpy_loop to from i m =
    (let m1 = m(at_off to i := m (at_off from i))
     in if m (at_off from i) \<noteq> 0 then strcpy_loop to from (i + 1) m1 else Some m1)"

definition strcpy :: "addr \<Rightarrow> addr \<Rightarrow> mem \<Rightarrow> (addr \<times> mem) option" where
  "strcpy to from m = map_option (\<lambda>m1. (to, m1)) (strcpy_loop to from 0 m)"

fun fill_zero :: "nat \<Rightarrow> addr \<Rightarrow> mem \<Rightarrow> mem" where
  "fill_zero 0 s m = m"
| "fill_zero (Suc n) s m = fill_zero n (s + 1) (m(s := 0))"

fun strncpy_loop :: "nat \<Rightarrow> addr \<Rightarrow> addr \<Rightarrow> mem \<Rightarrow> mem" where
  "strncpy_loop 0 s s2 m = m"
| "strncpy_loop (Suc n) s s2 m =
    (if m s2 \<noteq> 0 then strncpy_loop n (s + 1) (s2 + 1) (m(s := m s2)) else fill_zero (Suc n) s m)"

definition strncpy :: "addr \<Rightarrow> addr \<Rightarrow> int \<Rightarrow> mem \<Rightarrow> addr \<times> mem" where
  "strncpy s1 s2 n m = (s1, strncpy_loop (nat n) s1 s2 m)"

definition kernel_strcat_safe :: "addr \<Rightarrow> int \<Rightarrow> addr \<Rightarrow> mem \<Rightarrow> addr \<times> mem" where
  "kernel_strcat_safe dst dst_size src m =
    (if dst = NULL \<or> src = NULL \<or> dst_size = 0 then (NULL, m)
     else let dst_len = k_strnlen_loop m dst (nat dst_size) 0 in
       if dst_size \<le> int dst_len then (NULL, m)
       else case copy_until (at_off dst dst_len) src (dst_size - int dst_len - 1) 0 m of
         (i, m1) \<Rightarrow> (dst, m1(at_off dst (dst_len + i) := 0)))"

definition strcat :: "addr \<Rightarrow> addr \<Rightarrow> mem \<Rightarrow> (addr \<times> mem) option" where
  "strcat to from m = (case strlen m to of None \<Rightarrow> None
     | Some k \<Rightarrow> map_option (\<lambda>r. (to, snd r)) (strcpy (at_off to k) from m))"

text \<open>\<^verbatim>\<open>while (len--)\<close>: a negative length does not stop at zero.\<close>

partial_function (option) bcopy :: "addr \<Rightarrow> addr \<Rightarrow> int \<Rightarrow> mem \<Rightarrow> mem option" where
  "bcopy from to len m = (if len = 0 then Some m else bcopy (from + 1) (to + 1) (len - 1) (m(to := m from)))"

partial_function (option) bzero :: "addr \<Rightarrow> int \<Rightarrow> mem \<Rightarrow> mem option" where
  "bzero cp len m = (if len = 0 then Some m else bzero cp (len - 1) (m(cp + of_int (len - 1) := 0)))"

fun memset_loop :: "nat \<Rightarrow> addr \<Rightarrow> u8 \<Rightarrow> mem \<Rightarrow> mem" where
  "memset_loop 0 temp v m = m"
| "memset_loop (Suc n) temp v m = memset_loop n (temp + 1) v (m(temp := v))"

definition memset :: "addr \<Rightarrow> u32 \<Rightarrow> int \<Rightarrow> mem \<Rightarrow> addr \<times> mem" where
  "memset ptr val sz m =
    (if ptr \<noteq> NULL \<and> 0 < sz then (ptr, memset_loop (nat sz) ptr (ucast val) m) else (ptr, m))"

section \<open>Scanning\<close>

text \<open>
  The loop headers of \<^verbatim>\<open>strcspn\<close> and \<^verbatim>\<open>strspn\<close> read
  \<^verbatim>\<open>result = 1\<close>: the condition assigns 1 and is always true.
\<close>

partial_function (option) strcspn_loop :: "mem \<Rightarrow> addr \<Rightarrow> addr \<Rightarrow> nat \<Rightarrow> int \<Rightarrow> bool \<Rightarrow> int option" where
  "strcspn_loop m str reject n result0 matches0 =
    (let result = 1; c = m (str + of_int result) in
     if c = 0 then Some result
     else let matches = matches0 \<or> list_ex (\<lambda>i. c = m (at_off reject i)) [0..<n]
       in if matches then Some result else strcspn_loop m str reject n (result + 1) matches)"

definition strcspn :: "mem \<Rightarrow> addr \<Rightarrow> addr \<Rightarrow> int option" where
  "strcspn m str reject = (case strlen m reject of None \<Rightarrow> None
     | Some n \<Rightarrow> strcspn_loop m str reject n 0 False)"

partial_function (option) strspn_loop :: "mem \<Rightarrow> addr \<Rightarrow> addr \<Rightarrow> nat \<Rightarrow> int \<Rightarrow> bool \<Rightarrow> int option" where
  "strspn_loop m str accept n result0 matches0 =
    (let result = 1; c = m (str + of_int result) in
     if c = 0 then Some result
     else let matches = matches0 \<or> list_ex (\<lambda>i. c = m (at_off accept i)) [0..<n]
       in if \<not> matches then Some result else strspn_loop m str accept n (result + 1) matches)"

definition strspn :: "mem \<Rightarrow> addr \<Rightarrow> addr \<Rightarrow> int option" where
  "strspn m str accept = (case strlen m accept of None \<Rightarrow> None
     | Some n \<Rightarrow> strspn_loop m str accept n 0 False)"

text \<open>The two scans of a delimiter string in the tokenizer: without and with its terminator.\<close>

partial_function (option) in_delim :: "mem \<Rightarrow> addr \<Rightarrow> u8 \<Rightarrow> bool option" where
  "in_delim m spanp c = (if m spanp = 0 then Some False else if c = m spanp then Some True else in_delim m (spanp + 1) c)"

partial_function (option) in_delim_or_end :: "mem \<Rightarrow> addr \<Rightarrow> u8 \<Rightarrow> bool option" where
  "in_delim_or_end m spanp c =
    (if m spanp = c then Some True else if m spanp = 0 then Some False else in_delim_or_end m (spanp + 1) c)"

text \<open>Label \<^verbatim>\<open>cont\<close>: the first character that is no delimiter and the pointer after it.\<close>

partial_function (option) skip_delims :: "mem \<Rightarrow> addr \<Rightarrow> addr \<Rightarrow> (u8 \<times> addr) option" where
  "skip_delims m delim s = (case in_delim m delim (m s) of None \<Rightarrow> None
     | Some d \<Rightarrow> if d then skip_delims m delim (s + 1) else Some (m s, s + 1))"

partial_function (option) scan_token :: "mem \<Rightarrow> addr \<Rightarrow> addr \<Rightarrow> (addr \<times> mem) option" where
  "scan_token m delim s = (case in_delim_or_end m delim (m s) of None \<Rightarrow> None
     | Some d \<Rightarrow> if \<not> d then scan_token m delim (s + 1)
         else if m s = 0 then Some (NULL, m) else Some (s + 1, m(s := 0)))"

text \<open>The result is the token, the new value of \<^verbatim>\<open>*last\<close> and the memory.\<close>

definition k_strtok_r :: "addr \<Rightarrow> addr \<Rightarrow> addr \<Rightarrow> mem \<Rightarrow> (addr \<times> addr \<times> mem) option" where
  "k_strtok_r s0 delim lastp m =
    (let s = (if s0 = NULL then lastp else s0) in
     if s = NULL then Some (NULL, lastp, m)
     else case skip_delims m delim s of None \<Rightarrow> None
       | Some (c, s1) \<Rightarrow>
           if c = 0 then Some (NULL, NULL, m)
           else case scan_token m delim s1 of None \<Rightarrow> None
             | Some (s2, m1) \<Rightarrow> Some (s1 - 1, s2, m1))"

section \<open>Lemmas on measuring and comparing\<close>

lemma strlen_loop_runs:
  "(\<forall>k < n. m (at_off s (i + k)) \<noteq> 0) \<Longrightarrow> m (at_off s (i + n)) = 0 \<Longrightarrow> strlen_loop m s i = Some (i + n)"
proof (induction n arbitrary: i)
  case 0
  then show ?case by (subst strlen_loop.simps) simp
next
  case (Suc n)
  have "m (at_off s i) \<noteq> 0" using Suc.prems(1) [rule_format, of 0] by simp
  moreover have "strlen_loop m s (i + 1) = Some (i + 1 + n)"
  proof (rule Suc.IH)
    show "\<forall>k < n. m (at_off s (i + 1 + k)) \<noteq> 0"
    proof (intro allI impI)
      fix k assume "k < n"
      then show "m (at_off s (i + 1 + k)) \<noteq> 0" using Suc.prems(1) [rule_format, of "Suc k"] by simp
    qed
    show "m (at_off s (i + 1 + n)) = 0" using Suc.prems(2) by simp
  qed
  ultimately show ?case by (subst strlen_loop.simps) simp
qed

lemma strlen_cstr: "cstr m s xs \<Longrightarrow> strlen m s = Some (length xs)"
  using strlen_loop_runs [of "length xs" m s 0] by (auto simp: strlen_def cstr_def in_set_conv_nth)

lemma strlen_loop_Some:
  assumes "strlen_loop m s i = Some n"
  shows "i \<le> n \<and> m (at_off s n) = 0 \<and> (\<forall>k. i \<le> k \<and> k < n \<longrightarrow> m (at_off s k) \<noteq> 0)"
proof (rule strlen_loop.raw_induct [where P = "\<lambda>m s i n. i \<le> n \<and> m (at_off s n) = 0 \<and>
    (\<forall>k. i \<le> k \<and> k < n \<longrightarrow> m (at_off s k) \<noteq> 0)", OF _ assms])
  fix f m s i n
  assume IH: "\<And>m s i n. f m s i = Some n \<Longrightarrow>
      i \<le> n \<and> m (at_off s n) = 0 \<and> (\<forall>k. i \<le> k \<and> k < n \<longrightarrow> m (at_off s k) \<noteq> 0)"
    and e: "(if m (at_off s i) \<noteq> 0 then f m s (i + 1) else Some i) = Some n"
  show "i \<le> n \<and> m (at_off s n) = 0 \<and> (\<forall>k. i \<le> k \<and> k < n \<longrightarrow> m (at_off s k) \<noteq> 0)"
  proof (cases "m (at_off s i) = 0")
    case True
    with e show ?thesis by auto
  next
    case False
    with e have "f m s (i + 1) = Some n" by simp
    note h = IH [OF this]
    have "m (at_off s k) \<noteq> 0" if "i \<le> k" "k < n" for k
      using h that False by (cases "k = i") auto
    with h show ?thesis by simp
  qed
qed

lemma read_bytes_nth [simp]: "k < n \<Longrightarrow> read_bytes m p n ! k = m (at_off p k)"
  by (simp add: read_bytes_def)

lemma read_bytes_length [simp]: "length (read_bytes m p n) = n"
  by (simp add: read_bytes_def)

lemma strlen_iff: "strlen m s = Some n \<longleftrightarrow> (\<exists>xs. cstr m s xs \<and> length xs = n)"
proof
  assume "strlen m s = Some n"
  then have "m (at_off s n) = 0" "\<forall>k < n. m (at_off s k) \<noteq> 0"
    using strlen_loop_Some [of m s 0 n] by (auto simp: strlen_def)
  then have "cstr m s (read_bytes m s n)"
    by (auto simp: cstr_def in_set_conv_nth)
  then show "\<exists>xs. cstr m s xs \<and> length xs = n" using read_bytes_length by blast
qed (auto simp: strlen_cstr)

text \<open>The first position at which two strings differ, their terminators included.\<close>

lemma strcmp_loop_runs:
  assumes "\<forall>k < n. m (at_off s1 (i + k)) = m (at_off s2 (i + k)) \<and> m (at_off s1 (i + k)) \<noteq> 0"
  shows "strcmp_loop m s1 s2 i = strcmp_loop m s1 s2 (i + n)"
  using assms
proof (induction n arbitrary: i)
  case (Suc n)
  have "m (at_off s1 i) = m (at_off s2 i)" "m (at_off s1 i) \<noteq> 0" using Suc.prems [rule_format, of 0] by auto
  then have "strcmp_loop m s1 s2 i = strcmp_loop m s1 s2 (i + 1)" by (subst strcmp_loop.simps) simp
  also have "\<dots> = strcmp_loop m s1 s2 (i + 1 + n)"
  proof (rule Suc.IH, intro allI impI)
    fix k assume "k < n"
    then have "Suc k < Suc n" by simp
    moreover have "i + 1 + k = i + Suc k" by simp
    ultimately show "m (at_off s1 (i + 1 + k)) = m (at_off s2 (i + 1 + k)) \<and> m (at_off s1 (i + 1 + k)) \<noteq> 0"
      using Suc.prems [rule_format, of "Suc k"] by metis
  qed
  finally show ?case by simp
qed simp

lemma strcmp_same: "cstr m s1 xs \<Longrightarrow> cstr m s2 xs \<Longrightarrow> strcmp m s1 s2 = Some 0"
proof -
  assume a: "cstr m s1 xs" "cstr m s2 xs"
  have "\<forall>k < length xs. m (at_off s1 (0 + k)) = m (at_off s2 (0 + k)) \<and> m (at_off s1 (0 + k)) \<noteq> 0"
    using a by (metis add_0 cstr_def nth_mem)
  from strcmp_loop_runs [OF this] have "strcmp m s1 s2 = strcmp_loop m s1 s2 (length xs)" by (simp add: strcmp_def)
  also have "\<dots> = Some 0" using a by (subst strcmp_loop.simps) (simp add: cstr_def)
  finally show ?thesis .
qed

lemma strcmp_differ:
  assumes "cstr m s1 (ps @ xs)" "cstr m s2 (ps @ ys)" and d: "m (at_off s1 (length ps)) \<noteq> m (at_off s2 (length ps))"
  shows "strcmp m s1 s2 = Some (sint (m (at_off s1 (length ps))) - sint (m (at_off s2 (length ps))))"
proof -
  have "\<forall>k < length ps. m (at_off s1 (0 + k)) = m (at_off s2 (0 + k)) \<and> m (at_off s1 (0 + k)) \<noteq> 0"
    using assms(1,2) unfolding cstr_def
    by (metis Un_iff add_0 length_append nth_append nth_mem set_append trans_less_add1)
  from strcmp_loop_runs [OF this] have "strcmp m s1 s2 = strcmp_loop m s1 s2 (length ps)" by (simp add: strcmp_def)
  also have "\<dots> = Some (sint (m (at_off s1 (length ps))) - sint (m (at_off s2 (length ps))))"
    using d by (subst strcmp_loop.simps) simp
  finally show ?thesis .
qed

lemma gramado_strncmp_loop_iff:
  "gramado_strncmp_loop m n s1 s2 = 0 \<longleftrightarrow> (\<forall>k < n. m (at_off s1 k) = m (at_off s2 k)) \<and>
     m (at_off s1 n) = 0 \<and> m (at_off s2 n) = 0"
proof (induction n arbitrary: s1 s2)
  case (Suc n)
  show ?case using Suc.IH [of "s1 + 1" "s2 + 1"]
    by (auto simp: less_Suc_eq_0_disj at_off_Suc simp del: of_nat_Suc)
qed simp

section \<open>Lemmas on copying\<close>

text \<open>A forward copy moves the bytes unless it overwrites source bytes it has yet to read.\<close>

lemma memcpy_loop_effect:
  assumes "n < 2 ^ 64" and "\<forall>i j. i < j \<and> j < n \<longrightarrow> at_off dst i \<noteq> at_off src j"
  shows "(\<forall>k < n. memcpy_loop n dst src m (at_off dst k) = m (at_off src k)) \<and>
    (\<forall>a. a \<notin> area dst n \<longrightarrow> memcpy_loop n dst src m a = m a)"
  using assms
proof (induction n arbitrary: dst src m)
  case (Suc n)
  let ?m = "m(dst := m src)"
  have IH: "(\<forall>k < n. memcpy_loop n (dst + 1) (src + 1) ?m (at_off (dst + 1) k) = ?m (at_off (src + 1) k)) \<and>
    (\<forall>a. a \<notin> area (dst + 1) n \<longrightarrow> memcpy_loop n (dst + 1) (src + 1) ?m a = ?m a)"
  proof (rule Suc.IH)
    show "\<forall>i j. i < j \<and> j < n \<longrightarrow> at_off (dst + 1) i \<noteq> at_off (src + 1) j"
      using Suc.prems(2) unfolding at_off_Suc [symmetric] by auto
  qed (use Suc.prems(1) in simp)
  have nin: "dst \<notin> area (dst + 1) n"
  proof
    assume "dst \<in> area (dst + 1) n"
    then obtain k where "k < n" "at_off dst 0 = at_off dst (Suc k)" by (auto simp: area_elem at_off_Suc)
    with at_off_inj [of 0 "Suc k" dst] Suc.prems(1) show False by auto
  qed
  have keep: "?m (at_off src (Suc k)) = m (at_off src (Suc k))" if "k < n" for k
    using Suc.prems(2) [rule_format, of 0 "Suc k"] that by (auto simp del: of_nat_Suc)
  have "memcpy_loop (Suc n) dst src m (at_off dst k) = m (at_off src k)" if k: "k < Suc n" for k
  proof (cases k)
    case 0
    with IH nin show ?thesis by simp
  next
    case (Suc l)
    with IH k keep [of l] show ?thesis by (simp add: at_off_Suc del: of_nat_Suc)
  qed
  moreover have "memcpy_loop (Suc n) dst src m a = m a" if "a \<notin> area dst (Suc n)" for a
    using IH that by (simp add: area_Suc)
  ultimately show ?case by blast
qed simp

lemma memcpy_effect:
  assumes "\<forall>i j. i < j \<and> j < unat n \<longrightarrow> at_off dst i \<noteq> at_off src j"
  shows "read_bytes (snd (memcpy dst src n m)) dst (unat n) = read_bytes m src (unat n)"
    "a \<notin> area dst (unat n) \<Longrightarrow> snd (memcpy dst src n m) a = m a"
proof -
  have "unat n < 2 ^ LENGTH(64)" by (rule unsigned_less)
  then have "unat n < 2 ^ 64" by simp
  note e = memcpy_loop_effect [OF this assms]
  show "read_bytes (snd (memcpy dst src n m)) dst (unat n) = read_bytes m src (unat n)"
    using e by (simp add: memcpy_def read_bytes_def)
  show "snd (memcpy dst src n m) a = m a" if "a \<notin> area dst (unat n)"
    using e that by (simp add: memcpy_def)
qed

text \<open>The clearing loop against the closed form the heap model uses.\<close>

lemma memset_loop_eq:
  "n < 2 ^ 64 \<Longrightarrow> memset_loop n p v m = (\<lambda>a. if a \<in> area p n then v else m a)"
proof (induction n arbitrary: p m)
  case (Suc n)
  then show ?case by (auto simp: area_Suc fun_eq_iff)
qed simp

lemma area_unat: "n < 2 ^ 64 \<Longrightarrow> a \<in> area p n \<longleftrightarrow> unat (a - p) < n"
proof
  assume n: "n < 2 ^ 64" and "a \<in> area p n"
  then obtain k where k: "k < n" "a = at_off p k" by (auto simp: area_elem)
  then have "unat (a - p) = k mod 2 ^ 64" by (simp add: unat_of_nat)
  with k n show "unat (a - p) < n" by simp
next
  assume "unat (a - p) < n"
  moreover have "a = at_off p (unat (a - p))" by simp
  ultimately show "a \<in> area p n" unfolding area_elem by blast
qed

text \<open>The bounded copy loop: it stops at the terminator or at its limit, whichever comes first.\<close>

lemma copy_until_run:
  assumes "cstr m src xs" and "length xs < 2 ^ 64" and "L = min (length xs) (nat lim)" and "i \<le> L"
    and "\<forall>j < L. at_off dst j \<notin> area src (Suc (length xs))"
  shows "\<exists>m'. copy_until dst src lim i m = (L, m') \<and> (\<forall>k. i \<le> k \<and> k < L \<longrightarrow> m' (at_off dst k) = xs ! k) \<and>
    (\<forall>a. (\<forall>k. i \<le> k \<and> k < L \<longrightarrow> a \<noteq> at_off dst k) \<longrightarrow> m' a = m a)"
  using assms
proof (induction "L - i" arbitrary: i m)
  case 0
  from 0(1) 0(5) have "i = L" by linarith
  moreover have "\<not> (int L < lim \<and> m (at_off src L) \<noteq> 0)"
    using 0 by (auto simp: cstr_def min_def in_set_conv_nth split: if_splits)
  ultimately have "copy_until dst src lim i m = (L, m)" by (subst copy_until.simps) auto
  with \<open>i = L\<close> show ?case by auto
next
  case (Suc d)
  then have i: "i < L" "i < length xs" "int i < lim" by auto
  let ?m = "m(at_off dst i := m (at_off src i))"
  have s: "m (at_off src i) = xs ! i" "xs ! i \<noteq> 0"
    using Suc.prems(1) i(2) by (auto simp: cstr_def in_set_conv_nth)
  have c: "cstr ?m src xs" using Suc.prems(1,5) i(1) by (simp add: cstr_upd_outside)
  have "d = L - Suc i" using Suc.hyps(2) by simp
  from Suc.hyps(1) [OF this c Suc.prems(2,3) _ Suc.prems(5)] i(1) obtain m' where
    m': "copy_until dst src lim (Suc i) ?m = (L, m')" "\<forall>k. Suc i \<le> k \<and> k < L \<longrightarrow> m' (at_off dst k) = xs ! k"
    "\<forall>a. (\<forall>k. Suc i \<le> k \<and> k < L \<longrightarrow> a \<noteq> at_off dst k) \<longrightarrow> m' a = ?m a" by auto
  have "copy_until dst src lim i m = (L, m')"
    using m'(1) i(3) s by (subst copy_until.simps) simp
  moreover have "m' (at_off dst i) = xs ! i"
  proof -
    have "at_off dst i \<noteq> at_off dst k" if "Suc i \<le> k" "k < L" for k
      using at_off_inj [of i k dst] that Suc.prems(2,3) by auto
    with m'(3) s(1) show ?thesis by simp
  qed
  moreover have "m' (at_off dst k) = xs ! k" if "i \<le> k" "k < L" for k
    using m'(2) calculation(2) that by (cases "k = i") auto
  moreover have "m' a = m a" if "\<forall>k. i \<le> k \<and> k < L \<longrightarrow> a \<noteq> at_off dst k" for a
    using m'(3) that i(1) by auto
  ultimately show ?case by blast
qed

text \<open>Copy and terminate.\<close>

lemma copy_and_terminate:
  assumes src: "cstr m src xs" "length xs < 2 ^ 64 - 1" and lim: "0 \<le> lim"
    and disj: "area dst (Suc (nat lim)) \<inter> area src (Suc (length xs)) = {}"
  shows "\<exists>m1. copy_until dst src lim 0 m = (min (length xs) (nat lim), m1) \<and>
    cstr (m1(at_off dst (min (length xs) (nat lim)) := 0)) dst (take (nat lim) xs) \<and>
    (\<forall>a. a \<notin> area dst (Suc (nat lim)) \<longrightarrow> (m1(at_off dst (min (length xs) (nat lim)) := 0)) a = m a)"
proof -
  define L where "L = min (length xs) (nat lim)"
  have "at_off dst j \<notin> area src (Suc (length xs))" if "j < L" for j
    using disj area_at [of j "Suc (nat lim)" dst] that unfolding L_def by auto
  then have "\<forall>j < L. at_off dst j \<notin> area src (Suc (length xs))" by blast
  from copy_until_run [OF src(1) _ L_def, of 0 dst] this src(2) obtain m1 where
    m1: "copy_until dst src lim 0 m = (L, m1)" "\<forall>k < L. m1 (at_off dst k) = xs ! k"
    "\<forall>a. (\<forall>k < L. a \<noteq> at_off dst k) \<longrightarrow> m1 a = m a" by auto
  have "at_off dst k \<noteq> at_off dst L" if "k < L" for k
    using at_off_inj [of k L dst] that src(2) by (auto simp: L_def)
  with m1(2) have "cstr (m1(at_off dst L := 0)) dst (take (nat lim) xs)"
    using src(1) set_take_subset [of "nat lim" xs] by (auto simp: cstr_def L_def)
  moreover have "(m1(at_off dst L := 0)) a = m a" if "a \<notin> area dst (Suc (nat lim))" for a
  proof -
    have "a \<noteq> at_off dst k" if "k \<le> L" for k
      using \<open>a \<notin> area dst (Suc (nat lim))\<close> area_at [of k "Suc (nat lim)" dst] that by (auto simp: L_def)
    with m1(3) show ?thesis by simp
  qed
  ultimately show ?thesis using m1(1) unfolding L_def by blast
qed

lemma k_strnlen_loop_runs:
  "cstr m s (ps @ xs) \<Longrightarrow> k_strnlen_loop m s n (length ps) = length ps + min n (length xs)"
proof (induction n arbitrary: ps xs)
  case (Suc n)
  have t: "cstr m (at_off s (length ps)) xs" using cstr_append [OF Suc.prems] .
  show ?case
  proof (cases xs)
    case Nil
    with t show ?thesis by simp
  next
    case (Cons x ys)
    with t have "m (at_off s (length ps)) \<noteq> 0" by (simp add: cstr_Cons)
    moreover have "k_strnlen_loop m s n (length (ps @ [x])) = length (ps @ [x]) + min n (length ys)"
      by (rule Suc.IH) (use Suc.prems Cons in simp)
    ultimately show ?thesis using Cons by simp
  qed
qed simp

section \<open>Lemmas on scanning\<close>

lemma in_delim_cstr: "cstr m p ds \<Longrightarrow> in_delim m p c = Some (c \<in> set ds)"
  by (induction ds arbitrary: p) (subst in_delim.simps, auto simp: cstr_Cons)+

lemma in_delim_or_end_cstr: "cstr m p ds \<Longrightarrow> in_delim_or_end m p c = Some (c = 0 \<or> c \<in> set ds)"
  by (induction ds arbitrary: p) (subst in_delim_or_end.simps, auto simp: cstr_Cons)+

lemma skip_delims_cstr:
  assumes "cstr m delim ds"
  shows "cstr m s xs \<Longrightarrow> skip_delims m delim s =
    (let k = length (takeWhile (\<lambda>c. c \<in> set ds) xs) in Some (m (at_off s k), at_off s (Suc k)))"
proof (induction xs arbitrary: s)
  case Nil
  moreover have "0 \<notin> set ds" using assms by (simp add: cstr_def)
  ultimately show ?case by (subst skip_delims.simps) (simp add: in_delim_cstr [OF assms])
next
  case (Cons x xs)
  then have x: "m s = x" and c: "cstr m (s + 1) xs" by (simp_all add: cstr_Cons)
  have step: "skip_delims m delim s = (if x \<in> set ds then skip_delims m delim (s + 1) else Some (m s, s + 1))"
    using x by (subst skip_delims.simps) (simp add: in_delim_cstr [OF assms])
  show ?case
  proof (cases "x \<in> set ds")
    case True
    then show ?thesis unfolding step Cons.IH [OF c] by (simp add: Let_def algebra_simps)
  qed (simp add: step)
qed

lemma scan_token_cstr:
  assumes "cstr m delim ds"
  shows "cstr m s xs \<Longrightarrow> scan_token m delim s =
    (let k = length (takeWhile (\<lambda>c. c \<notin> set ds) xs)
     in if k = length xs then Some (NULL, m) else Some (at_off s (Suc k), m(at_off s k := 0)))"
proof (induction xs arbitrary: s)
  case Nil
  then show ?case by (subst scan_token.simps) (simp add: in_delim_or_end_cstr [OF assms])
next
  case (Cons x xs)
  then have x: "m s = x" "x \<noteq> 0" and c: "cstr m (s + 1) xs" by (simp_all add: cstr_Cons)
  have step: "scan_token m delim s = (if x \<in> set ds then Some (s + 1, m(s := 0)) else scan_token m delim (s + 1))"
    using x by (subst scan_token.simps) (simp add: in_delim_or_end_cstr [OF assms])
  show ?case
  proof (cases "x \<in> set ds")
    case False
    then show ?thesis unfolding step Cons.IH [OF c] by (simp add: Let_def algebra_simps)
  qed (simp add: step)
qed

text \<open>The reference tokenizer on lists: fields between delimiters, the empty ones dropped.\<close>

fun fields :: "(u8 \<Rightarrow> bool) \<Rightarrow> u8 list \<Rightarrow> u8 list list" where
  "fields D [] = [[]]"
| "fields D (x # xs) = (if D x then [] # fields D xs else (x # hd (fields D xs)) # tl (fields D xs))"

definition tokens :: "u8 list \<Rightarrow> u8 list \<Rightarrow> u8 list list" where
  "tokens ds xs = filter (\<lambda>f. f \<noteq> []) (fields (\<lambda>c. c \<in> set ds) xs)"

text \<open>The client's loop: call with NULL for the string until no token is left.\<close>

partial_function (option) strtok_rest :: "addr \<Rightarrow> addr \<Rightarrow> mem \<Rightarrow> (addr list \<times> mem) option" where
  "strtok_rest delim lastp m = (case k_strtok_r NULL delim lastp m of None \<Rightarrow> None
     | Some (tok, last1, m1) \<Rightarrow> if tok = NULL then Some ([], m1)
         else Option.bind (strtok_rest delim last1 m1) (\<lambda>(ts, m2). Some (tok # ts, m2)))"

definition strtok_all :: "addr \<Rightarrow> addr \<Rightarrow> addr \<Rightarrow> mem \<Rightarrow> (addr list \<times> mem) option" where
  "strtok_all s delim last0 m = (case k_strtok_r s delim last0 m of None \<Rightarrow> None
     | Some (tok, last1, m1) \<Rightarrow> if tok = NULL then Some ([], m1)
         else Option.bind (strtok_rest delim last1 m1) (\<lambda>(ts, m2). Some (tok # ts, m2)))"

lemma fields_split:
  "fields D xs = takeWhile (\<lambda>c. \<not> D c) xs #
     (case dropWhile (\<lambda>c. \<not> D c) xs of [] \<Rightarrow> [] | _ # ys \<Rightarrow> fields D ys)"
  by (induction xs) (auto split: list.splits)

lemma tokens_skip: "\<forall>c \<in> set ps. c \<in> set ds \<Longrightarrow> tokens ds (ps @ xs) = tokens ds xs"
  by (induction ps) (auto simp: tokens_def)

lemma tokens_delims: "\<forall>c \<in> set ps. c \<in> set ds \<Longrightarrow> tokens ds ps = []"
  using tokens_skip [of ps ds "[]"] by (simp add: tokens_def)

lemma tokens_first:
  assumes "t \<noteq> []" "\<forall>c \<in> set t. c \<notin> set ds"
  shows "tokens ds t = [t]" "d \<in> set ds \<Longrightarrow> tokens ds (t @ d # xs) = t # tokens ds xs"
proof -
  let ?D = "\<lambda>c. c \<in> set ds"
  have w: "takeWhile (\<lambda>c. \<not> ?D c) t = t" "dropWhile (\<lambda>c. \<not> ?D c) t = []" using assms(2) by simp_all
  from fields_split [of ?D t, unfolded w] show "tokens ds t = [t]" using assms(1) by (simp add: tokens_def)
  assume d: "d \<in> set ds"
  have w: "takeWhile (\<lambda>c. \<not> ?D c) (t @ d # xs) = t" "dropWhile (\<lambda>c. \<not> ?D c) (t @ d # xs) = d # xs"
    using assms(2) d by (auto simp: takeWhile_append2 dropWhile_append2)
  from fields_split [of ?D "t @ d # xs", unfolded w] show "tokens ds (t @ d # xs) = t # tokens ds xs"
    using assms(1) by (simp add: tokens_def)
qed

text \<open>One call: the delimiters before the token, the token, and what follows it.\<close>

lemma k_strtok_r_none:
  assumes "cstr m delim ds" "cstr m s ps" "s \<noteq> NULL" "s = (if s0 = NULL then lastp else s0)" "\<forall>c \<in> set ps. c \<in> set ds"
  shows "k_strtok_r s0 delim lastp m = Some (NULL, NULL, m)"
proof -
  have w: "takeWhile (\<lambda>c. c \<in> set ds) ps = ps" using assms(5) by simp
  from skip_delims_cstr [OF assms(1,2), unfolded w] have "skip_delims m delim s = Some (0, at_off s (Suc (length ps)))"
    using assms(2) by (simp add: Let_def cstr_def)
  with assms(3,4) show ?thesis by (auto simp: k_strtok_r_def Let_def)
qed

lemma k_strtok_r_token:
  assumes d: "cstr m delim ds" and s: "cstr m s (ps @ t @ rest)" "s \<noteq> NULL" "s = (if s0 = NULL then lastp else s0)"
    and ps: "\<forall>c \<in> set ps. c \<in> set ds" and t: "t \<noteq> []" "\<forall>c \<in> set t. c \<notin> set ds" and r: "rest \<noteq> [] \<Longrightarrow> hd rest \<in> set ds"
  shows "k_strtok_r s0 delim lastp m = Some (at_off s (length ps),
    (if rest = [] then (NULL, m)
     else (at_off s (Suc (length ps + length t)), m(at_off s (length ps + length t) := 0))))"
proof -
  obtain x t' where t': "t = x # t'" using t(1) by (cases t) auto
  have x: "x \<notin> set ds" "x \<noteq> 0" using t(2) s(1) by (auto simp: t' cstr_def)
  have "takeWhile (\<lambda>c. c \<in> set ds) (ps @ t @ rest) = ps" using ps x by (simp add: t')
  from skip_delims_cstr [OF d s(1), unfolded this]
  have k: "skip_delims m delim s = Some (m (at_off s (length ps)), at_off s (Suc (length ps)))" by (simp add: Let_def)
  have c: "cstr m (at_off s (length (ps @ [x]))) (t' @ rest)" by (rule cstr_append) (use s(1) t' in simp)
  have mx: "m (at_off s (length ps)) = x" using s(1) by (auto simp: cstr_def t' nth_append dest: spec [of _ "length ps"])
  have "takeWhile (\<lambda>c. c \<notin> set ds) (t' @ rest) = t'" using t(2) r t' by (cases rest) (auto simp: takeWhile_append2)
  from scan_token_cstr [OF d c, unfolded this]
  have "scan_token m delim (at_off s (Suc (length ps))) = (if rest = [] then Some (NULL, m)
    else Some (at_off (at_off s (Suc (length ps))) (Suc (length t')), m(at_off (at_off s (Suc (length ps))) (length t') := 0)))"
    by (simp add: Let_def)
  then show ?thesis using s(2,3) k mx x(2) by (auto simp: k_strtok_r_def Let_def t' algebra_simps)
qed

lemma split_first_token:
  obtains (delims) "\<forall>c \<in> set xs. c \<in> set ds"
    | (token) ps t rest where "xs = ps @ t @ rest" "\<forall>c \<in> set ps. c \<in> set ds" "t \<noteq> []"
        "\<forall>c \<in> set t. c \<notin> set ds" "rest \<noteq> [] \<Longrightarrow> hd rest \<in> set ds"
proof (cases "dropWhile (\<lambda>c. c \<in> set ds) xs")
  case Nil
  then show ?thesis using delims by simp
next
  case (Cons x zs)
  define r where "r = dropWhile (\<lambda>c. c \<notin> set ds) (x # zs)"
  have x: "x \<notin> set ds" using Cons hd_dropWhile [of "\<lambda>c. c \<in> set ds" xs] by simp
  show ?thesis
  proof (rule token)
    show "xs = takeWhile (\<lambda>c. c \<in> set ds) xs @ takeWhile (\<lambda>c. c \<notin> set ds) (x # zs) @ r"
      unfolding r_def takeWhile_dropWhile_id Cons [symmetric] by (rule refl)
    show "\<forall>c \<in> set (takeWhile (\<lambda>c. c \<in> set ds) xs). c \<in> set ds" by (blast dest: set_takeWhileD)
    show "\<forall>c \<in> set (takeWhile (\<lambda>c. c \<notin> set ds) (x # zs)). c \<notin> set ds" by (blast dest: set_takeWhileD)
    show "takeWhile (\<lambda>c. c \<notin> set ds) (x # zs) \<noteq> []" using x by simp
    show "hd r \<in> set ds" if "r \<noteq> []" using hd_dropWhile [of "\<lambda>c. c \<notin> set ds" "x # zs"] that unfolding r_def by blast
  qed
qed

lemma strtok_rest_NULL [simp]: "strtok_rest delim NULL m = Some ([], m)"
  by (subst strtok_rest.simps) (simp add: k_strtok_r_def)

lemma strtok_rest_tokens:
  assumes "cstr m delim ds" "cstr m s xs" "\<forall>k \<le> length xs. at_off s k \<noteq> NULL" "length xs < 2 ^ 64"
    "area delim (Suc (length ds)) \<inter> area s (length xs) = {}"
  shows "\<exists>ts m'. strtok_rest delim s m = Some (ts, m') \<and> list_all2 (cstr m') ts (tokens ds xs) \<and>
    (\<forall>a. a \<notin> area s (length xs) \<longrightarrow> m' a = m a)"
  using assms
proof (induction "length xs" arbitrary: s xs m rule: less_induct)
  case less
  note d = less.prems(1) and x = less.prems(2) and nn = less.prems(3) and len = less.prems(4) and dj = less.prems(5)
  have s: "s \<noteq> NULL" "s = (if NULL = NULL then s else NULL)" using nn [rule_format, of 0] by simp_all
  show ?case
  proof (cases rule: split_first_token [of xs ds])
    case delims
    with k_strtok_r_none [OF d x s(1) s(2)] show ?thesis
      by (subst strtok_rest.simps) (simp add: tokens_delims)
  next
    case (token ps t rest)
    let ?p = "at_off s (length ps)" and ?q = "at_off s (length ps + length t)"
    note k = k_strtok_r_token [OF d x [unfolded token(1)] s token(2-5)]
    have p: "?p \<noteq> NULL" using nn [rule_format, of "length ps"] token(1) by simp
    show ?thesis
    proof (cases rest)
      case Nil
      have "cstr m ?p t" using x token(1) Nil by (simp add: cstr_append)
      moreover have "tokens ds xs = [t]" using token Nil by (simp add: tokens_skip tokens_first)
      ultimately show ?thesis using k p Nil by (subst strtok_rest.simps) simp
    next
      case (Cons y ys)
      let ?s = "at_off s (Suc (length ps + length t))" and ?m = "m(?q := 0)"
      have l: "length xs = Suc (length ps + length t + length ys)" using token(1) Cons by simp
      have sub: "area ?s (length ys) \<subseteq> area s (length xs)" using area_sub [of "Suc (length ps + length t)" "length ys" "length xs" s] l by simp
      have q: "?q \<in> area s (length xs)" by (rule area_at) (simp add: l)
      have cm: "cstr ?m delim ds" using d dj q cstr_upd_outside by blast
      have "cstr m (at_off s (length (ps @ t @ [y]))) ys" by (rule cstr_append) (use x token(1) Cons in simp)
      moreover have "?q \<notin> area ?s (Suc (length ys))"
        by (rule at_off_below_area) (use l len in auto)
      ultimately have cy: "cstr ?m ?s ys" by (simp add: cstr_upd_outside)
      have "at_off ?s j \<noteq> NULL" if "j \<le> length ys" for j
        using nn [rule_format, of "Suc (length ps + length t) + j"] that l by (simp add: at_off_add del: of_nat_add of_nat_Suc)
      then have n: "\<forall>j \<le> length ys. at_off ?s j \<noteq> NULL" by blast
      have "length ys < length xs" "length ys < 2 ^ 64" "area delim (Suc (length ds)) \<inter> area ?s (length ys) = {}"
        using l len sub dj by auto
      from less.hyps [OF this(1) cm cy n this(2,3)] obtain ts m' where
        ih: "strtok_rest delim ?s ?m = Some (ts, m')" "list_all2 (cstr m') ts (tokens ds ys)"
          "\<forall>a. a \<notin> area ?s (length ys) \<longrightarrow> m' a = ?m a" by blast
      have "strtok_rest delim s m = Some (?p # ts, m')"
        using k p Cons ih(1) by (subst strtok_rest.simps) simp
      moreover have "tokens ds xs = t # tokens ds ys" using token Cons by (simp add: tokens_skip tokens_first)
      moreover have "cstr m' ?p t"
      proof -
        have "cstr ?m s (ps @ t)" using cstr_cut [of m s "ps @ t" "y # ys"] x token(1) Cons len l by simp
        then have "cstr ?m ?p t" by (rule cstr_append)
        moreover have "m' a = ?m a" if a: "a \<in> area ?p (Suc (length t))" for a
        proof -
          from a obtain i where i: "i < Suc (length t)" "a = at_off s (length ps + i)"
            by (auto simp: area_elem at_off_add simp del: of_nat_add of_nat_Suc)
          have "a \<notin> area ?s (length ys)"
            unfolding i(2) by (rule at_off_below_area) (use l len i(1) in auto)
          with ih(3) show ?thesis by blast
        qed
        ultimately show ?thesis using cstr_cong [of ?p t m' ?m] by blast
      qed
      moreover have "m' a = m a" if "a \<notin> area s (length xs)" for a
        using that q sub ih(3) by auto
      ultimately show ?thesis using ih(2) by auto
    qed
  qed
qed

section \<open>Properties\<close>

text \<open>Comparison of byte lists as \<^verbatim>\<open>strcmp\<close> should give it: bytes are read as signed.\<close>

fun cmp_bytes :: "u8 list \<Rightarrow> u8 list \<Rightarrow> int" where
  "cmp_bytes [] [] = 0"
| "cmp_bytes (x # xs) [] = sint x"
| "cmp_bytes [] (y # ys) = - sint y"
| "cmp_bytes (x # xs) (y # ys) = (if x = y then cmp_bytes xs ys else sint x - sint y)"

lemma cmp_bytes_common [simp]: "cmp_bytes (ps @ xs) (ps @ ys) = cmp_bytes xs ys"
  by (induction ps) auto

lemma sint_u8_zero [simp]: "sint (x :: u8) = 0 \<longleftrightarrow> x = 0"
  by (rule signed_eq_0_iff)

lemma cmp_bytes_zero: "0 \<notin> set xs \<Longrightarrow> 0 \<notin> set ys \<Longrightarrow> cmp_bytes xs ys = 0 \<longleftrightarrow> xs = ys"
  by (induction xs ys rule: cmp_bytes.induct) (auto dest: signed_word_eqI)

lemma first_difference:
  obtains ps us vs where "xs = ps @ us" "ys = ps @ vs" "us = [] \<or> vs = [] \<or> hd us \<noteq> hd vs"
proof (induction xs ys arbitrary: thesis rule: list_induct2')
  case (4 x xs y ys)
  show ?case
  proof (cases "x = y")
    case True
    from 4(1) obtain ps us vs where "xs = ps @ us" "ys = ps @ vs" "us = [] \<or> vs = [] \<or> hd us \<noteq> hd vs" by blast
    with True show ?thesis by (intro 4(2) [of "x # ps" us vs]) auto
  next
    case False
    then show ?thesis by (intro 4(2) [of "[]" "x # xs" "y # ys"]) auto
  qed
qed auto

lemma cstr_byte: "cstr m p (ps @ us) \<Longrightarrow> m (at_off p (length ps)) = (if us = [] then 0 else hd us)"
  using cstr_append [of m p ps us] by (cases us) (auto simp: cstr_Cons)

text \<open>
  On two terminated strings \<^verbatim>\<open>strcmp\<close> returns, its result is the signed
  difference of the first bytes that differ (or the byte that follows the end of the shorter string),
  and the result is zero exactly for equal strings.
\<close>

theorem strcmp_orders_strings:
  assumes "cstr m s1 xs" "cstr m s2 ys"
  shows "strcmp m s1 s2 = Some (cmp_bytes xs ys) \<and> (cmp_bytes xs ys = 0 \<longleftrightarrow> xs = ys)"
proof -
  have z: "0 \<notin> set xs" "0 \<notin> set ys" using assms by (simp_all add: cstr_def)
  obtain ps us vs where uv: "xs = ps @ us" "ys = ps @ vs" and h: "us = [] \<or> vs = [] \<or> hd us \<noteq> hd vs"
    by (rule first_difference)
  note at = cstr_byte [OF assms(1) [unfolded uv]] cstr_byte [OF assms(2) [unfolded uv]]
  have "strcmp m s1 s2 = Some (cmp_bytes us vs)"
  proof (cases "us = vs")
    case True
    then show ?thesis using strcmp_same assms uv cmp_bytes_zero z by auto
  next
    case False
    then have "m (at_off s1 (length ps)) \<noteq> m (at_off s2 (length ps))"
      using z uv h unfolding at by (cases us; cases vs) auto
    from strcmp_differ [OF assms [unfolded uv] this] show ?thesis
      using False h unfolding at by (cases us; cases vs) auto
  qed
  with cmp_bytes_zero [OF z] show ?thesis by (simp add: uv)
qed

theorem strcmp_orders_strings_witness:
  "strcmp ((\<lambda>_. 0)(16 := 97, 17 := 200, 32 := 97, 33 := 98)) 16 32 = Some (-154) \<and> cmp_bytes [97, 200] [97, 98] = -154"
  using strcmp_orders_strings [of "(\<lambda>_. 0)(16 := 97, 17 := 200, 32 := 97, 33 := 98)" 16 "[97, 200]" 32 "[97, 98]"]
  by (simp add: cstr_Cons)

text \<open>A string assembled in a buffer: one bounded copy, then bounded concatenations.\<close>

fun cat_all :: "addr \<Rightarrow> int \<Rightarrow> addr list \<Rightarrow> mem \<Rightarrow> mem" where
  "cat_all dst n [] m = m"
| "cat_all dst n (s # ss) m = cat_all dst n ss (snd (kernel_strcat_safe dst n s m))"

lemma kernel_strcpy_safe_effect:
  assumes "cstr m src xs" "length xs < 2 ^ 64 - 1" "dst \<noteq> NULL" "src \<noteq> NULL" "0 < n"
    "area dst (nat n) \<inter> area src (Suc (length xs)) = {}"
  shows "fst (kernel_strcpy_safe dst n src m) = dst \<and>
    cstr (snd (kernel_strcpy_safe dst n src m)) dst (take (nat n - 1) xs) \<and>
    (\<forall>a. a \<notin> area dst (nat n) \<longrightarrow> snd (kernel_strcpy_safe dst n src m) a = m a)"
proof -
  have n: "Suc (nat (n - 1)) = nat n" "nat (n - 1) = nat n - 1" using assms(5) by auto
  from copy_and_terminate [OF assms(1,2), of "n - 1" dst, unfolded n(1)] assms(5,6) show ?thesis
    using assms(3-5) by (auto simp: kernel_strcpy_safe_def n(2))
qed

lemma kernel_strcat_safe_effect:
  assumes dst: "cstr m dst ys" "int (length ys) < n" "n < 2 ^ 63" and src: "cstr m src xs" "length xs < 2 ^ 64 - 1"
    and nn: "dst \<noteq> NULL" "src \<noteq> NULL" and disj: "area dst (nat n) \<inter> area src (Suc (length xs)) = {}"
  shows "fst (kernel_strcat_safe dst n src m) = dst \<and>
    cstr (snd (kernel_strcat_safe dst n src m)) dst (take (nat n - 1) (ys @ xs)) \<and>
    (\<forall>a. a \<notin> area dst (nat n) \<longrightarrow> snd (kernel_strcat_safe dst n src m) a = m a)"
proof -
  define l d where "l = n - int (length ys) - 1" and "d = at_off dst (length ys)"
  have l: "0 \<le> l" "Suc (nat l) + length ys = nat n" using dst(2) by (auto simp: l_def)
  have sub: "area d (Suc (nat l)) \<subseteq> area dst (nat n)" unfolding d_def by (rule area_sub) (use l in simp)
  have len: "k_strnlen_loop m dst (nat n) 0 = length ys"
    using k_strnlen_loop_runs [of m dst "[]" ys "nat n"] dst by simp
  from copy_and_terminate [OF src l(1), of d] sub disj obtain m1 where
    m1: "copy_until d src l 0 m = (min (length xs) (nat l), m1)"
    "cstr (m1(at_off d (min (length xs) (nat l)) := 0)) d (take (nat l) xs)"
    "\<forall>a. a \<notin> area d (Suc (nat l)) \<longrightarrow> (m1(at_off d (min (length xs) (nat l)) := 0)) a = m a" by blast
  define m2 where "m2 = m1(at_off d (min (length xs) (nat l)) := 0)"
  have r: "kernel_strcat_safe dst n src m = (dst, m2)"
    using nn dst(2) m1(1) len unfolding kernel_strcat_safe_def Let_def l_def d_def m2_def
    by (simp add: at_off_add)
  have "m2 (at_off dst k) = ys ! k" if "k < length ys" for k
  proof -
    have "at_off dst k \<notin> area d (Suc (nat l))" unfolding d_def by (rule at_off_below_area) (use that l dst(3) in auto)
    with m1(3) dst(1) that show ?thesis by (simp add: m2_def cstr_def)
  qed
  then have "cstr m2 dst (ys @ take (nat l) xs)"
    using m1(2) dst(1) by (intro cstr_appendI) (auto simp: m2_def d_def cstr_def)
  moreover have "take (nat n - 1) (ys @ xs) = ys @ take (nat l) xs" using l by (simp add: l(2) [symmetric])
  ultimately show ?thesis using m1(3) sub unfolding r by (auto simp: m2_def)
qed

text \<open>A source string that can be read while the buffer is written.\<close>

definition source_ok :: "mem \<Rightarrow> addr \<Rightarrow> int \<Rightarrow> addr \<Rightarrow> u8 list \<Rightarrow> bool" where
  "source_ok m dst n s xs \<longleftrightarrow> s \<noteq> NULL \<and> cstr m s xs \<and> length xs < 2 ^ 64 - 1 \<and>
     area dst (nat n) \<inter> area s (Suc (length xs)) = {}"

lemma source_ok_cong:
  assumes "\<forall>a. a \<notin> area dst (nat n) \<longrightarrow> m' a = m a"
  shows "source_ok m' dst n s xs = source_ok m dst n s xs"
proof (cases "area dst (nat n) \<inter> area s (Suc (length xs)) = {}")
  case True
  then have "cstr m' s xs = cstr m s xs" using assms by (intro cstr_cong) blast
  then show ?thesis by (simp add: source_ok_def)
qed (simp add: source_ok_def)

lemma cat_all_effect:
  assumes "cstr m dst (take (nat n - 1) ys)" "1 < n" "n < 2 ^ 63" "dst \<noteq> NULL"
    "list_all2 (source_ok m dst n) ss xss"
  shows "cstr (cat_all dst n ss m) dst (take (nat n - 1) (ys @ concat xss)) \<and>
    (\<forall>a. a \<notin> area dst (nat n) \<longrightarrow> cat_all dst n ss m a = m a)"
  using assms(1,5)
proof (induction ss arbitrary: m ys xss)
  case (Cons s ss)
  then obtain xs xss' where xss: "xss = xs # xss'" by (cases xss) auto
  let ?m = "snd (kernel_strcat_safe dst n s m)"
  have "int (length (take (nat n - 1) ys)) < n" using assms(2) by simp
  from kernel_strcat_safe_effect [OF Cons.prems(1) this assms(3), of s xs] Cons.prems(2) assms(4)
  have k: "cstr ?m dst (take (nat n - 1) (take (nat n - 1) ys @ xs))" "\<forall>a. a \<notin> area dst (nat n) \<longrightarrow> ?m a = m a"
    unfolding xss source_ok_def by auto
  have "take (nat n - 1) (take (nat n - 1) ys @ xs) = take (nat n - 1) (ys @ xs)"
    by (simp add: min_def)
  with k(1) have c: "cstr ?m dst (take (nat n - 1) (ys @ xs))" by simp
  have "list_all2 (source_ok ?m dst n) ss xss'"
    using Cons.prems(2) unfolding xss by (auto elim: list_all2_mono simp: source_ok_cong [OF k(2)])
  from Cons.IH [OF c this] k(2) show ?case by (simp add: xss)
qed simp

text \<open>
  A string assembled with \<^verbatim>\<open>kernel_strcpy_safe\<close> and any number of
  \<^verbatim>\<open>kernel_strcat_safe\<close> calls in a buffer of n bytes is the concatenation of the
  parts cut to n - 1 bytes, it is terminated, and no byte outside the buffer is written.
\<close>

theorem safe_copies_build_string:
  assumes "1 < n" "n < 2 ^ 63" "dst \<noteq> NULL"
    "\<forall>(s, xs) \<in> set ((s0, xs0) # parts). source_ok m dst n s xs"
    "m' = cat_all dst n (map fst parts) (snd (kernel_strcpy_safe dst n s0 m))"
  shows "cstr m' dst (take (nat n - 1) (concat (xs0 # map snd parts))) \<and> (\<forall>a. a \<notin> area dst (nat n) \<longrightarrow> m' a = m a)"
proof -
  let ?m = "snd (kernel_strcpy_safe dst n s0 m)"
  have k: "cstr ?m dst (take (nat n - 1) xs0)" "\<forall>a. a \<notin> area dst (nat n) \<longrightarrow> ?m a = m a"
    using kernel_strcpy_safe_effect [of m s0 xs0 dst n] assms(1,3,4) by (auto simp: source_ok_def)
  have "list_all2 (source_ok ?m dst n) (map fst parts) (map snd parts)"
    using assms(4) unfolding list.rel_map source_ok_cong [OF k(2)] by (intro list.rel_refl_strong) auto
  from cat_all_effect [OF k(1) assms(1-3) this] k(2) show ?thesis by (simp add: assms(5))
qed

theorem safe_copies_build_string_witness:
  "cstr (cat_all 64 4 [16] (snd (kernel_strcpy_safe 64 4 16 ((\<lambda>_. 7)(16 := 97, 17 := 98, 18 := 0))))) 64 [97, 98, 97]"
proof -
  let ?m = "(\<lambda>_. 7)(16 := 97, 17 := 98, 18 := 0) :: mem"
  have "area 64 4 \<inter> area 16 3 = {}" by (simp add: area_upt upt_rec)
  then have "source_ok ?m 64 4 16 [97, 98]" by (simp add: source_ok_def cstr_Cons numeral_3_eq_3)
  then have "\<forall>(s, xs) \<in> set ((16, [97, 98]) # [(16, [97, 98])]). source_ok ?m 64 4 s xs" by simp
  from safe_copies_build_string [OF _ _ _ this refl] show ?thesis by simp
qed

lemma strcspn_loop_stuck:
  assumes "m (str + 1) \<noteq> 0" and "\<not> list_ex (\<lambda>i. m (str + 1) = m (at_off rej i)) [0..<n]"
  shows "strcspn_loop m str rej n r False = None"
proof (rule ccontr)
  let ?P = "\<lambda>(m :: mem) (str :: addr) rej n (r :: int) b (v :: int). m (str + 1) \<noteq> 0 \<longrightarrow> b \<or> list_ex (\<lambda>i. m (str + 1) = m (at_off rej i)) [0..<n]"
  assume "strcspn_loop m str rej n r False \<noteq> None"
  then obtain v where v: "strcspn_loop m str rej n r False = Some v" by blast
  have "?P m str rej n r False v"
  proof (rule strcspn_loop.raw_induct [where P = ?P, OF _ v])
    fix f :: "mem \<Rightarrow> addr \<Rightarrow> addr \<Rightarrow> nat \<Rightarrow> int \<Rightarrow> bool \<Rightarrow> int option" and m str rej n r b v
    assume IH: "\<And>m str rej n r b v. f m str rej n r b = Some v \<Longrightarrow> ?P m str rej n r b v"
      and e: "(let result = 1; c = m (str + of_int result) in if c = 0 then Some result
        else let matches = b \<or> list_ex (\<lambda>i. c = m (at_off rej i)) [0..<n]
          in if matches then Some result else f m str rej n (result + 1) matches) = Some v"
    show "?P m str rej n r b v"
      using e IH [of m str rej n 2 "b \<or> list_ex (\<lambda>i. m (str + 1) = m (at_off rej i)) [0..<n]" v]
      by (auto simp: Let_def split: if_splits)
  qed
  with assms show False by simp
qed

lemma strspn_loop_stuck:
  assumes "m (str + 1) \<noteq> 0" and "list_ex (\<lambda>i. m (str + 1) = m (at_off acc i)) [0..<n]"
  shows "strspn_loop m str acc n r b = None"
proof (rule ccontr)
  let ?P = "\<lambda>(m :: mem) (str :: addr) acc n (r :: int) b (v :: int). m (str + 1) \<noteq> 0 \<longrightarrow> \<not> b \<and> \<not> list_ex (\<lambda>i. m (str + 1) = m (at_off acc i)) [0..<n]"
  assume "strspn_loop m str acc n r b \<noteq> None"
  then obtain v where v: "strspn_loop m str acc n r b = Some v" by blast
  have "?P m str acc n r b v"
  proof (rule strspn_loop.raw_induct [where P = ?P, OF _ v])
    fix f :: "mem \<Rightarrow> addr \<Rightarrow> addr \<Rightarrow> nat \<Rightarrow> int \<Rightarrow> bool \<Rightarrow> int option" and m str acc n r b v
    assume IH: "\<And>m str acc n r b v. f m str acc n r b = Some v \<Longrightarrow> ?P m str acc n r b v"
      and e: "(let result = 1; c = m (str + of_int result) in if c = 0 then Some result
        else let matches = b \<or> list_ex (\<lambda>i. c = m (at_off acc i)) [0..<n]
          in if \<not> matches then Some result else f m str acc n (result + 1) matches) = Some v"
    show "?P m str acc n r b v"
      using e IH [of m str acc n 2 "b \<or> list_ex (\<lambda>i. m (str + 1) = m (at_off acc i)) [0..<n]" v]
      by (auto simp: Let_def split: if_splits)
  qed
  with assms show False by simp
qed

text \<open>
  \<^verbatim>\<open>strcspn\<close> and \<^verbatim>\<open>strspn\<close> look at the second byte of the string only.
  If it is the terminator the result is 1; otherwise \<^verbatim>\<open>strcspn\<close> answers 1 when
  that byte is listed and never returns when it is not, \<^verbatim>\<open>strspn\<close> the other way round.
\<close>

theorem span_functions_terminate_iff:
  assumes "cstr m set_ptr cs"
  shows "strcspn m str set_ptr = (if m (str + 1) = 0 \<or> m (str + 1) \<in> set cs then Some 1 else None) \<and>
    strspn m str set_ptr = (if m (str + 1) = 0 \<or> m (str + 1) \<notin> set cs then Some 1 else None)"
proof -
  have listed: "list_ex (\<lambda>i. m (str + 1) = m (at_off set_ptr i)) [0..<length cs] \<longleftrightarrow> m (str + 1) \<in> set cs"
    using assms by (auto simp: list_ex_iff cstr_def in_set_conv_nth Bex_def)
  note stuck = strcspn_loop_stuck [where n = "length cs" and r = 0, of m str set_ptr]
    strspn_loop_stuck [where n = "length cs" and r = 0 and b = False, of m str set_ptr]
  have "strcspn_loop m str set_ptr (length cs) 0 False = Some 1" if "m (str + 1) = 0 \<or> m (str + 1) \<in> set cs"
    using that listed by (subst strcspn_loop.simps) (auto simp: Let_def)
  moreover have "strspn_loop m str set_ptr (length cs) 0 False = Some 1" if "m (str + 1) = 0 \<or> m (str + 1) \<notin> set cs"
    using that listed by (subst strspn_loop.simps) (auto simp: Let_def)
  ultimately show ?thesis
    using stuck unfolding listed strcspn_def strspn_def strlen_cstr [OF assms] by auto
qed

theorem span_functions_terminate_iff_witness:
  "strcspn ((\<lambda>_. 0)(16 := 97, 17 := 98, 32 := 97)) 16 32 = None \<and>
   strspn ((\<lambda>_. 0)(16 := 97, 17 := 98, 32 := 97)) 16 32 = Some 1"
  using span_functions_terminate_iff [of "(\<lambda>_. 0)(16 := 97, 17 := 98, 32 := 97)" 32 "[97]" 16]
  by (simp add: cstr_Cons)

text \<open>
  Claim C27. Calling \<^verbatim>\<open>k_strtok_r\<close> with a string and then with NULL until it answers
  NULL always ends, yields the addresses of exactly the maximal runs of non-delimiter bytes of the
  string, in order and each terminated in place, and writes nowhere but into the string.
\<close>

theorem k_strtok_r_tokenizes:
  assumes "cstr m delim ds" "cstr m s xs" "length xs < 2 ^ 64" "\<forall>k \<le> length xs. at_off s k \<noteq> NULL"
    "area delim (Suc (length ds)) \<inter> area s (length xs) = {}"
  shows "\<exists>ts m'. strtok_all s delim last0 m = Some (ts, m') \<and> list_all2 (cstr m') ts (tokens ds xs) \<and>
    (\<forall>a. a \<notin> area s (length xs) \<longrightarrow> m' a = m a)"
proof -
  have "s \<noteq> NULL" using assms(4) [rule_format, of 0] by simp
  then have "strtok_all s delim last0 m = strtok_rest delim s m"
    by (subst strtok_rest.simps) (simp add: strtok_all_def k_strtok_r_def)
  with strtok_rest_tokens [OF assms(1,2,4,3,5)] show ?thesis by simp
qed

theorem k_strtok_r_tokenizes_witness:
  "\<exists>ts m'. strtok_all 16 32 NULL ((\<lambda>_. 0)(16 := 44, 17 := 97, 18 := 44, 19 := 98, 32 := 44)) = Some (ts, m') \<and>
    list_all2 (cstr m') ts [[97], [98]] \<and> m' 32 = 44"
proof -
  let ?m = "(\<lambda>_. 0)(16 := 44, 17 := 97, 18 := 44, 19 := 98, 32 := 44) :: mem"
  have c: "cstr ?m 32 [44]" "cstr ?m 16 [44, 97, 44, 98]" by (simp_all add: cstr_Cons)
  have n: "\<forall>k \<le> length [44, 97, 44, 98 :: u8]. at_off 16 k \<noteq> NULL"
    by (simp add: le_Suc_eq all_conj_distrib conj_disj_distribR imp_disjL)
  have d: "area 32 (Suc (length [44 :: u8])) \<inter> area 16 (length [44, 97, 44, 98 :: u8]) = {}"
    by (simp add: area_upt upt_rec)
  have o: "32 \<notin> area 16 (length [44, 97, 44, 98 :: u8])" by (simp add: area_upt upt_rec)
  have t: "tokens [44] [44, 97, 44, 98] = [[97], [98]]" by (simp add: tokens_def)
  from k_strtok_r_tokenizes [OF c _ n d, of NULL, unfolded t] obtain ts m' where
    r: "strtok_all 16 32 NULL ?m = Some (ts, m')" "list_all2 (cstr m') ts [[97], [98]]"
    "\<forall>a. a \<notin> area 16 (length [44, 97, 44, 98 :: u8]) \<longrightarrow> m' a = ?m a" by auto
  from r(3) o have "m' 32 = 44" by auto
  with r(1,2) show ?thesis by blast
qed

end
