(* ===== verification/Kprint.thy ===== *)
theory Kprint
  imports Kstring
begin

text \<open>
  Number formatting and parsing of the kernel's C library (gthouse/libk/kstdio.c, kstdlib.c) on byte
  memory. The converters write their digits backwards into the buffer and reverse it in place; the
  reference functions \<open>dec\<close> and \<open>hexa\<close> say which string that must be.
  A C int is a 32-bit word read as signed, and the arithmetic of \<^verbatim>\<open>k_atoi\<close> wraps as
  the compiled code does.
\<close>

section \<open>Conversion to decimal\<close>

text \<open>The digit loop shared by \<^verbatim>\<open>kinguio_itoa\<close> and \<^verbatim>\<open>__utoa_r\<close>.\<close>

function put_digits :: "nat \<Rightarrow> addr \<Rightarrow> mem \<Rightarrow> addr \<times> mem" where
  "put_digits v p m =
    (let m1 = m(p := of_nat (v mod 10) + 48)
     in if v div 10 \<noteq> 0 then put_digits (v div 10) (p + 1) m1 else (p + 1, m1))"
  by pat_completeness auto
termination by (relation "measure fst") auto

declare put_digits.simps [simp del]

function reverse_bytes :: "addr \<Rightarrow> addr \<Rightarrow> mem \<Rightarrow> mem" where
  "reverse_bytes lo p m =
    (if lo < p then reverse_bytes (lo + 1) (p - 1) (m(lo := m p, p := m lo)) else m)"
  by pat_completeness auto
termination
proof (relation "measure (\<lambda>(lo, p, m). unat p - unat lo)")
  fix lo p :: addr and m :: mem
  assume a: "lo < p"
  then have l: "unat lo < unat p" by (simp add: word_less_nat_alt)
  moreover have "unat p < 2 ^ LENGTH(64)" by (rule unsigned_less)
  ultimately have "unat (lo + 1) = unat lo + 1" by (simp add: unat_word_ariths)
  moreover have "p \<noteq> 0" using l by auto
  then have "unat (p - 1) = unat p - 1" by (rule unat_minus_one)
  ultimately show "((lo + 1, p - 1, m(lo := m p, p := m lo)), lo, p, m) \<in> measure (\<lambda>(lo, p, m). unat p - unat lo)"
    using a by (simp add: word_less_nat_alt)
qed simp

declare reverse_bytes.simps [simp del]

definition INT_MAX :: int where "INT_MAX = 2147483647"

definition kinguio_itoa :: "u32 \<Rightarrow> addr \<Rightarrow> mem \<Rightarrow> addr \<times> mem" where
  "kinguio_itoa val str m =
    (let neg = sint val < 0;
         m0 = (if neg then m(str := 45) else m);
         valuestring = (if neg then str + 1 else str);
         min_flag = neg \<and> sint val < - INT_MAX;
         value = (if neg then if min_flag then INT_MAX else - sint val else sint val)
     in case put_digits (nat value) valuestring m0 of (p, m1) \<Rightarrow>
       let m2 = (if min_flag then m1(valuestring := m1 valuestring + 1) else m1)
       in (str, reverse_bytes valuestring (p - 1) (m2(p := 0))))"

definition utoa_r :: "u64 \<Rightarrow> addr \<Rightarrow> mem \<Rightarrow> addr \<times> mem" where
  "utoa_r val str m = (case put_digits (unat val) str m of (p, m1) \<Rightarrow>
     (str, reverse_bytes str (p - 1) (m1(p := 0))))"

section \<open>Conversion to hexadecimal\<close>

definition hex_char :: "u64 \<Rightarrow> u8" where
  "hex_char x = (if 9 < x then ucast x + (65 - 10) else ucast x + 48)"

fun put_hex :: "nat \<Rightarrow> u64 \<Rightarrow> addr \<Rightarrow> mem \<Rightarrow> mem" where
  "put_hex 0 n dest m = m"
| "put_hex (Suc k) n dest m = put_hex k (drop_bit 4 n) dest (m(at_off dest k := hex_char (n AND 0xF)))"

fun strip_zeros :: "nat \<Rightarrow> addr \<Rightarrow> addr \<Rightarrow> mem \<Rightarrow> mem option" where
  "strip_zeros 0 dest cp m = Some m"
| "strip_zeros (Suc k) dest cp m =
    (if m cp = 48 then strip_zeros k dest (cp + 1) m else map_option snd (strcpy dest cp m))"

text \<open>
  Both conversions are the same but for the width of the value and the last argument of
  \<^verbatim>\<open>memset\<close>: the rest of the buffer, or of eight bytes.
\<close>

definition i2hex_with :: "u64 \<Rightarrow> addr \<Rightarrow> nat \<Rightarrow> nat \<Rightarrow> mem \<Rightarrow> mem option" where
  "i2hex_with val dest len clear m =
    (if val = 0 then Some (m(dest := 48, dest + 1 := 0))
     else case strip_zeros len dest dest ((put_hex len val dest m)(at_off dest len := 0)) of None \<Rightarrow> None
       | Some m1 \<Rightarrow> (case strlen m1 dest of None \<Rightarrow> None
           | Some n \<Rightarrow> Some (snd (memset (at_off dest n) 0 (int clear - int n) m1))))"

definition kinguio_i2hex_versao2 :: "u64 \<Rightarrow> addr \<Rightarrow> nat \<Rightarrow> mem \<Rightarrow> mem option" where
  "kinguio_i2hex_versao2 val dest len m = i2hex_with val dest len len m"

definition kinguio_i2hex :: "u32 \<Rightarrow> addr \<Rightarrow> nat \<Rightarrow> mem \<Rightarrow> mem option" where
  "kinguio_i2hex val dest len m = i2hex_with (ucast val) dest len 8 m"

definition kinguio_utoa :: "u64 \<Rightarrow> addr \<Rightarrow> int \<Rightarrow> mem \<Rightarrow> (addr \<times> mem) option" where
  "kinguio_utoa val dst radix m =
    (if radix = 16 then map_option (\<lambda>m1. (dst, m1)) (kinguio_i2hex_versao2 val dst 16 m)
     else Some (dst, snd (utoa_r val dst m)))"

section \<open>Parsing\<close>

definition isdigit :: "u8 \<Rightarrow> bool" where "isdigit c \<longleftrightarrow> 48 \<le> c \<and> c \<le> 57"

definition is_sign :: "u8 \<Rightarrow> bool" where "is_sign c \<longleftrightarrow> c = 45 \<or> c = 43"

partial_function (option) atoi_skip :: "mem \<Rightarrow> addr \<Rightarrow> addr option" where
  "atoi_skip m str = (if m str = 0 \<or> isdigit (m str) \<or> is_sign (m str) then Some str else atoi_skip m (str + 1))"

partial_function (option) atoi_digits :: "mem \<Rightarrow> addr \<Rightarrow> u32 \<Rightarrow> u32 option" where
  "atoi_digits m str rv =
    (if m str \<noteq> 0 \<and> isdigit (m str) then atoi_digits m (str + 1) (rv * 10 + (ucast (m str) - 48)) else Some rv)"

definition k_atoi :: "mem \<Rightarrow> addr \<Rightarrow> u32 option" where
  "k_atoi m str0 = (case atoi_skip m str0 of None \<Rightarrow> None
     | Some str \<Rightarrow>
         (let sign = (m str = 45); str1 = (if is_sign (m str) then str + 1 else str)
          in map_option (\<lambda>rv. if sign then - rv else rv) (atoi_digits m str1 0)))"

section \<open>Formatted output\<close>

text \<open>
  Arguments come from a list of 8-byte slots. The conversions write into the static
  \<^verbatim>\<open>buffer\<close>, whose address is a parameter, and are copied from there. The local array that
  holds one character is \<open>vsputs_char\<close>, string literals are \<open>mem_write\<close>s. No result
  means that the call does not return or reads an argument that is not there.
\<close>

partial_function (option) vsputs_r :: "addr \<Rightarrow> addr \<Rightarrow> mem \<Rightarrow> (addr \<times> mem) option" where
  "vsputs_r dest src m = (if m src \<noteq> 0 then vsputs_r (dest + 1) (src + 1) (m(dest := m src)) else Some (dest, m))"

fun mem_write :: "addr \<Rightarrow> u8 list \<Rightarrow> mem \<Rightarrow> mem" where
  "mem_write p [] m = m"
| "mem_write p (x # xs) m = mem_write (p + 1) xs (m(p := x))"

definition vsputs_char :: "addr \<Rightarrow> u8 \<Rightarrow> mem \<Rightarrow> addr \<times> mem" where
  "vsputs_char dest c m = (if c \<noteq> 0 then (dest + 1, m(dest := c)) else (dest, m))"

definition vsputs_lit :: "addr \<Rightarrow> u8 list \<Rightarrow> mem \<Rightarrow> addr \<times> mem" where
  "vsputs_lit dest xs m = (at_off dest (length xs), mem_write dest xs m)"

text \<open>One conversion: the flag, the arguments left, the output pointer and the memory after it.\<close>

definition convert :: "addr \<Rightarrow> u8 \<Rightarrow> bool \<Rightarrow> u64 list \<Rightarrow> addr \<Rightarrow> mem \<Rightarrow> (bool \<times> u64 list \<times> addr \<times> mem) option" where
  "convert buffer c t args dest m =
    (if c \<in> {99, 115, 83, 100, 105, 117, 88, 120, 112} then
       (case args of [] \<Rightarrow> None
        | a # as \<Rightarrow>
            if c = 99 then Some (t, as, vsputs_char dest (ucast a) m)
            else if c = 115 \<or> c = 83 then
              (if a \<noteq> NULL then map_option (\<lambda>r. (t, as, r)) (vsputs_r dest a m)
               else Some (t, as, vsputs_lit dest [40, 110, 117, 108, 108, 41] m))
            else if c = 100 \<or> c = 105 then
              map_option (\<lambda>r. (t, as, r)) (vsputs_r dest buffer (snd (kinguio_itoa (ucast a) buffer m)))
            else if c = 117 then
              (if t then case kinguio_utoa a buffer 10 m of None \<Rightarrow> None
                 | Some r \<Rightarrow> map_option (\<lambda>r. (False, as, r)) (vsputs_r dest buffer (snd r))
               else map_option (\<lambda>r. (t, as, r)) (vsputs_r dest buffer (snd (kinguio_itoa (ucast a) buffer m))))
            else if c = 88 \<or> c = 120 then
              (if t then case kinguio_utoa a buffer 16 m of None \<Rightarrow> None
                 | Some r \<Rightarrow> map_option (\<lambda>r. (False, as, r)) (vsputs_r dest buffer (snd r))
               else case kinguio_i2hex (ucast a) buffer 8 m of None \<Rightarrow> None
                 | Some m1 \<Rightarrow> map_option (\<lambda>r. (t, as, r)) (vsputs_r dest buffer m1))
            else case kinguio_utoa a buffer 16 m of None \<Rightarrow> None
                 | Some r \<Rightarrow> (case vsputs_lit dest [48, 120] (snd r) of (dest1, m1) \<Rightarrow>
                     map_option (\<lambda>r. (t, as, r)) (vsputs_r dest1 buffer m1)))
     else Some (t, args, vsputs_lit dest [37, 37] m))"

partial_function (option) vsprintf_loop ::
  "addr \<Rightarrow> addr \<Rightarrow> nat \<Rightarrow> bool \<Rightarrow> u64 list \<Rightarrow> addr \<Rightarrow> mem \<Rightarrow> (addr \<times> mem) option" where
  "vsprintf_loop buffer fmt i t args dest m =
    (if m (at_off fmt i) = 0 then Some (dest, m)
     else if m (at_off fmt i) = 37 then
       (let long = (m (at_off fmt (i + 1)) = 108);
            j = (if long then i + 2 else i + 1)
        in case convert buffer (m (at_off fmt j)) (t \<or> long) args dest m of None \<Rightarrow> None
           | Some (t1, args1, dest1, m1) \<Rightarrow> vsprintf_loop buffer fmt (j + 1) t1 args1 dest1 m1)
     else case vsputs_char dest (m (at_off fmt i)) m of
       (dest1, m1) \<Rightarrow> vsprintf_loop buffer fmt (i + 1) t args dest1 m1)"

definition kinguio_vsprintf :: "addr \<Rightarrow> addr \<Rightarrow> addr \<Rightarrow> u64 list \<Rightarrow> mem \<Rightarrow> (u32 \<times> mem) option" where
  "kinguio_vsprintf buffer str fmt args m =
    map_option (\<lambda>(dest, m1). (ucast (dest - str), m1)) (vsprintf_loop buffer fmt 0 False args str m)"

section \<open>Writing strings\<close>

lemma mem_write_append: "mem_write p (xs @ ys) m = mem_write (at_off p (length xs)) ys (mem_write p xs m)"
  by (induction xs arbitrary: p m) (auto simp: at_off_Suc [symmetric])

lemma mem_write_upd:
  "a \<notin> area p (length xs) \<Longrightarrow> mem_write p xs (m(a := v)) = (mem_write p xs m)(a := v)"
proof (induction xs arbitrary: p m)
  case (Cons x xs)
  then have "a \<noteq> p" "a \<notin> area (p + 1) (length xs)" by (simp_all add: area_Suc)
  with Cons.IH [of "p + 1" "m(p := x)"] fun_upd_twist [of a p m v x] show ?case by (metis mem_write.simps(2))
qed simp

lemma mem_write_outside: "a \<notin> area p (length xs) \<Longrightarrow> mem_write p xs m a = m a"
  by (induction xs arbitrary: p m) (auto simp: area_Suc)

lemma mem_write_nth:
  "length xs \<le> 2 ^ 64 \<Longrightarrow> k < length xs \<Longrightarrow> mem_write p xs m (at_off p k) = xs ! k"
proof (induction xs arbitrary: p m k)
  case (Cons x xs)
  show ?case
  proof (cases k)
    case 0
    have "p \<notin> area (p + 1) (length xs)" using at_off_below_area [of 0 1 "length xs" p] Cons.prems(1) by simp
    with 0 show ?thesis by (simp add: mem_write_outside)
  next
    case (Suc j)
    then show ?thesis
      using Cons.IH [of j "p + 1" "m(p := x)"] Cons.prems by (simp add: at_off_Suc del: of_nat_Suc fun_upd_apply)
  qed
qed simp

lemma cstr_mem_write:
  assumes "0 \<notin> set xs" "length xs < 2 ^ 64"
  shows "cstr (mem_write p (xs @ [0]) m) p xs"
  using assms mem_write_nth [of "xs @ [0]" _ p m] by (auto simp: cstr_def nth_append)

lemma mem_write_last: "length xs < 2 ^ 64 \<Longrightarrow> mem_write p (xs @ [x]) m = (mem_write p xs m)(at_off p (length xs) := x)"
  by (simp add: mem_write_append)

section \<open>Decimal digits\<close>

text \<open>The decimal numeral of a number, most significant digit first.\<close>

fun dec :: "nat \<Rightarrow> u8 list" where
  "dec n = (if n < 10 then [] else dec (n div 10)) @ [of_nat (n mod 10) + 48]"

declare dec.simps [simp del]

lemma dec_not_Nil [simp]: "dec n \<noteq> []"
  by (subst dec.simps) simp

lemma digit_isdigit:
  assumes "d < 10"
  shows "isdigit (of_nat d + 48)" "ucast (of_nat d + 48 :: u8) - 48 = (of_nat d :: u32)"
proof -
  have "\<forall>d \<in> set [0..<10]. isdigit (of_nat d + 48) \<and> ucast (of_nat d + 48 :: u8) - 48 = (of_nat d :: u32)"
    by (simp add: upt_rec isdigit_def)
  with assms show "isdigit (of_nat d + 48)" "ucast (of_nat d + 48 :: u8) - 48 = (of_nat d :: u32)" by simp_all
qed

lemma dec_digits: "c \<in> set (dec n) \<Longrightarrow> isdigit c"
proof (induction n rule: dec.induct)
  case (1 n)
  have "isdigit (of_nat (n mod 10) + 48)" using digit_isdigit [of "n mod 10"] by simp
  moreover have "c \<in> set (if n < 10 then [] else dec (n div 10)) \<union> {of_nat (n mod 10) + 48}"
    using 1(2) by (subst (asm) dec.simps) simp
  ultimately show ?case using 1(1) by (auto split: if_splits)
qed

lemma dec_length: "n < 10 ^ k \<Longrightarrow> 0 < k \<Longrightarrow> length (dec n) \<le> k"
proof (induction k arbitrary: n)
  case (Suc k)
  show ?case
  proof (cases "n < 10")
    case False
    with Suc.prems have "k \<noteq> 0" by (intro notI) simp
    with Suc.IH [of "n div 10"] Suc.prems(1) have "length (dec (n div 10)) \<le> k" by (simp add: less_mult_imp_div_less)
    with False show ?thesis by (subst dec.simps) simp
  qed (subst dec.simps, simp)
qed simp

lemma put_digits_eq: "put_digits v p m = (at_off p (length (dec v)), mem_write p (rev (dec v)) m)"
proof (induction v p m rule: put_digits.induct)
  case (1 v p m)
  show ?case
  proof (cases "v < 10")
    case True
    then show ?thesis by (subst put_digits.simps, subst (1 2) dec.simps) simp
  next
    case False
    then have "v div 10 \<noteq> 0" by simp
    note IH = 1 [OF refl this]
    have "put_digits v p m = (at_off (p + 1) (length (dec (v div 10))),
        mem_write (p + 1) (rev (dec (v div 10))) (m(p := of_nat (v mod 10) + 48)))"
      using \<open>v div 10 \<noteq> 0\<close> by (subst put_digits.simps) (simp only: Let_def IH simp_thms if_True)
    then show ?thesis using False by (subst (1 2) dec.simps) (simp add: algebra_simps)
  qed
qed

lemma mem_write_swap:
  assumes "length ys < 2 ^ 64 - 1"
  shows "mem_write lo (x # ys @ [y]) m = mem_write (lo + 1) ys (m(lo := x, at_off lo (Suc (length ys)) := y))"
proof -
  have nin: "at_off (lo + 1) (length ys) \<notin> area (lo + 1) (length ys)"
    by (rule at_off_above_area) (use assms in auto)
  show ?thesis
    by (simp only: mem_write.simps mem_write_append mem_write_upd [OF nin] at_off_Suc)
qed

lemma at_off_unat: "unat p + k < 2 ^ 64 \<Longrightarrow> unat (at_off p k) = unat p + k"
  by (simp add: unat_word_ariths unat_of_nat)

lemma reverse_bytes_eq:
  "xs \<noteq> [] \<Longrightarrow> unat lo + length xs \<le> 2 ^ 64 \<Longrightarrow>
   reverse_bytes lo (at_off lo (length xs - 1)) (mem_write lo xs m) = mem_write lo (rev xs) m"
proof (induction "length xs" arbitrary: xs lo m rule: less_induct)
  case less
  show ?case
  proof (cases "length xs = 1")
    case True
    then show ?thesis by (cases xs) (auto simp: reverse_bytes.simps)
  next
    case False
    then obtain x ys y where xs: "xs = x # ys @ [y]"
      using less.prems(1) by (cases xs) (auto, metis append_butlast_last_id)
    let ?p = "at_off lo (Suc (length ys))" and ?m = "mem_write lo xs m"
    have len: "unat lo + Suc (Suc (length ys)) \<le> 2 ^ 64" using less.prems(2) xs by simp
    then have "unat ?p = unat lo + Suc (length ys)" by (intro at_off_unat) simp
    then have lt: "lo < ?p" by (simp add: word_less_nat_alt)
    have l: "length ys < 2 ^ 64 - 1" using len by simp
    note sw = mem_write_swap [OF l, of lo]
    have ne: "lo \<noteq> ?p" using lt by (rule less_imp_neq)
    have at: "?m lo = x" "?m ?p = y"
      using mem_write_nth [of xs 0 lo m] mem_write_nth [of xs "Suc (length ys)" lo m] len xs
      by (simp_all add: nth_append)
    have nin: "lo \<notin> area (lo + 1) (length ys)" "?p \<notin> area (lo + 1) (length ys)"
      using at_off_below_area [of 0 1 "length ys" lo] at_off_above_area [of "length ys" "length ys" "lo + 1"] l
      unfolding at_off_Suc by simp_all
    have m1: "?m(lo := y, ?p := x) = mem_write (lo + 1) ys (m(lo := y, ?p := x))"
    proof -
      have "?m(lo := y, ?p := x) = mem_write (lo + 1) ys (m(lo := x, ?p := y, lo := y, ?p := x))"
        unfolding xs sw mem_write_upd [OF nin(1)] mem_write_upd [OF nin(2)] by (rule refl)
      also have "m(lo := x, ?p := y, lo := y, ?p := x) = m(lo := y, ?p := x)"
        using ne by (simp add: fun_eq_iff del: of_nat_Suc)
      finally show ?thesis .
    qed
    have p1: "?p - 1 = at_off lo (length ys)" by simp
    have "reverse_bytes lo ?p ?m = reverse_bytes (lo + 1) (at_off lo (length ys)) (mem_write (lo + 1) ys (m(lo := y, ?p := x)))"
      using lt by (subst reverse_bytes.simps) (simp only: if_True p1 at m1)
    also have "\<dots> = mem_write (lo + 1) (rev ys) (m(lo := y, ?p := x))"
    proof (cases "ys = []")
      case True
      then have "\<not> lo + 1 < at_off lo (length ys)" 
        using at_off_unat [of lo 1] len by (simp add: word_less_nat_alt)
      with True show ?thesis by (subst reverse_bytes.simps) simp
    next
      case False
      have "unat (lo + 1) = unat lo + 1" using at_off_unat [of lo 1] len by simp
      then have "unat (lo + 1) + length ys \<le> 2 ^ 64" "length ys < length xs" using len xs by simp_all
      note IH = less.hyps [OF this(2) False this(1)]
      have "at_off lo (length ys) = at_off (lo + 1) (length ys - 1)"
        using False by (cases ys) (auto simp: at_off_Suc)
      show ?thesis unfolding \<open>at_off lo (length ys) = _\<close> by (rule IH)
    qed
    also have "\<dots> = mem_write lo (y # rev ys @ [x]) m"
      using mem_write_swap [of "rev ys" lo y x m] l by simp
    finally show ?thesis using xs by (simp del: mem_write.simps of_nat_Suc)
  qed
qed

lemma reverse_digits:
  assumes "ds \<noteq> []" "unat p + length ds < 2 ^ 64" "q = at_off p (length ds)"
  shows "reverse_bytes p (q - 1) ((mem_write p (rev ds) m)(q := 0)) = mem_write p (ds @ [0]) m"
proof -
  have nin: "q \<notin> area p (length (rev ds))" unfolding assms(3) by (rule at_off_above_area) (use assms(2) in auto)
  obtain k where k: "length ds = Suc k" using assms(1) by (cases ds) auto
  have "q - 1 = at_off p (length (rev ds) - 1)" unfolding assms(3) k length_rev by simp
  moreover have "(mem_write p (rev ds) m)(q := 0) = mem_write p (rev ds) (m(q := 0))"
    by (rule mem_write_upd [OF nin, symmetric])
  ultimately have "reverse_bytes p (q - 1) ((mem_write p (rev ds) m)(q := 0)) = mem_write p ds (m(q := 0))"
    using reverse_bytes_eq [of "rev ds" p "m(q := 0)"] assms(1,2) by simp
  also have "\<dots> = mem_write p (ds @ [0]) m"
    using nin mem_write_last [of ds p 0 m] assms(2,3) by (simp add: mem_write_upd)
  finally show ?thesis .
qed

lemma utoa_r_eq:
  assumes "unat p + length (dec (unat v)) < 2 ^ 64"
  shows "utoa_r v p m = (p, mem_write p (dec (unat v) @ [0]) m)"
  using reverse_digits [OF dec_not_Nil assms refl] by (simp add: utoa_r_def put_digits_eq)

text \<open>The numeral of a signed 32-bit value.\<close>

definition numeral_of :: "u32 \<Rightarrow> u8 list" where
  "numeral_of v = (if sint v < 0 then 45 # dec (nat (- sint v)) else dec (nat (sint v)))"

lemma sint_u32: "- 2147483648 \<le> sint (v :: u32)" "sint v < 2147483648"
  using sint_greater_eq [of v] sint_less [of v] by simp_all

lemma dec_length_u31: "n \<le> 2147483648 \<Longrightarrow> length (dec n) \<le> 10"
  by (rule dec_length) auto

lemma kinguio_itoa_eq:
  assumes "unat str + 12 \<le> 2 ^ 64"
  shows "kinguio_itoa v str m = (str, mem_write str (numeral_of v @ [0]) m)"
proof (cases "sint v < 0")
  case False
  then have "length (dec (nat (sint v))) \<le> 10" using sint_u32 [of v] by (intro dec_length_u31) auto
  with assms have "unat str + length (dec (nat (sint v))) < 2 ^ 64" by simp
  from reverse_digits [OF dec_not_Nil this refl] show ?thesis
    using False by (simp add: kinguio_itoa_def numeral_of_def put_digits_eq)
next
  case True
  have u: "unat (str + 1) = unat str + 1" using assms at_off_unat [of str 1] by simp
  have "length (dec (nat (- sint v))) \<le> 10" using sint_u32 [of v] by (intro dec_length_u31) auto
  with assms u have len: "unat (str + 1) + length (dec (nat (- sint v))) < 2 ^ 64" by simp
  note rd = reverse_digits [OF dec_not_Nil this refl]
  show ?thesis
  proof (cases "sint v < - INT_MAX")
    case False
    then show ?thesis using True rd by (simp add: kinguio_itoa_def numeral_of_def put_digits_eq)
  next
    case min: True
    then have v: "sint v = - 2147483648" using sint_u32 [of v] by (simp add: INT_MAX_def)
    define ds :: "u8 list" where "ds = [50, 49, 52, 55, 52, 56, 51, 54, 52]"
    have d: "dec 2147483647 = ds @ [55]" "dec 2147483648 = ds @ [56]" "length ds = 9"
      by (simp_all add: ds_def dec.simps)
    have "(mem_write (str + 1) (rev (ds @ [55])) m1)(str + 1 := 56) = mem_write (str + 1) (rev (ds @ [56])) m1" for m1
    proof -
      have "str + 1 \<notin> area (str + 1 + 1) (length (rev ds))"
        using at_off_below_area [of 0 1 "length ds" "str + 1"] by (simp add: d)
      note u = mem_write_upd [OF this, of _ 56, symmetric]
      show ?thesis by (simp only: rev_append rev.simps append.simps mem_write.simps u fun_upd_upd)
    qed
    moreover have "mem_write (str + 1) (rev (ds @ [55])) m1 (str + 1) = 55" for m1
      using mem_write_nth [of "rev (ds @ [55])" 0 "str + 1" m1] by (simp add: d)
    ultimately show ?thesis
      using True min rd unfolding kinguio_itoa_def numeral_of_def put_digits_eq v
      by (simp add: INT_MAX_def d Let_def del: rev.simps)
  qed
qed

section \<open>Reading numerals back\<close>

lemma digit_not_zero: "isdigit c \<Longrightarrow> c \<noteq> 0"
  by (auto simp: isdigit_def)

lemma digit_not_sign: "isdigit c \<Longrightarrow> \<not> is_sign c"
  by (auto simp: isdigit_def is_sign_def)

abbreviation digits_value :: "u8 list \<Rightarrow> u32 \<Rightarrow> u32" where
  "digits_value ds rv \<equiv> foldl (\<lambda>rv c. rv * 10 + (ucast c - 48)) rv ds"

lemma digits_value_dec: "digits_value (dec n) 0 = of_nat n"
proof (induction n rule: dec.induct)
  case (1 n)
  have d: "ucast (of_nat (n mod 10) + 48 :: u8) - 48 = (of_nat (n mod 10) :: u32)"
    using digit_isdigit [of "n mod 10"] by simp
  have "digits_value (if n < 10 then [] else dec (n div 10)) 0 = of_nat (n div 10)"
    using 1 by simp
  then have "digits_value (dec n) 0 = of_nat (n div 10) * 10 + of_nat (n mod 10)"
    using d by (subst dec.simps) simp
  also have "\<dots> = (of_nat (n div 10 * 10 + n mod 10) :: u32)" by (simp only: of_nat_add of_nat_mult of_nat_numeral)
  finally show ?case by simp
qed

lemma atoi_digits_cstr:
  "cstr m s (ds @ rest) \<Longrightarrow> \<forall>c \<in> set ds. isdigit c \<Longrightarrow> (rest \<noteq> [] \<Longrightarrow> \<not> isdigit (hd rest)) \<Longrightarrow>
   atoi_digits m s rv = Some (digits_value ds rv)"
proof (induction ds arbitrary: s rv)
  case Nil
  then show ?case by (cases rest; subst atoi_digits.simps) (auto simp: cstr_Cons)
next
  case (Cons d ds)
  then show ?case by (subst atoi_digits.simps) (simp add: cstr_Cons)
qed

lemma atoi_skip_cstr:
  "cstr m s (ps @ c # rest) \<Longrightarrow> \<forall>x \<in> set ps. \<not> isdigit x \<and> \<not> is_sign x \<Longrightarrow> isdigit c \<or> is_sign c \<Longrightarrow>
   atoi_skip m s = Some (at_off s (length ps))"
proof (induction ps arbitrary: s)
  case Nil
  then show ?case by (subst atoi_skip.simps) (auto simp: cstr_Cons)
next
  case (Cons x ps)
  then show ?case by (subst atoi_skip.simps) (simp add: cstr_Cons algebra_simps)
qed

text \<open>Any text without digits and signs may stand before the numeral, and anything but a digit after it.\<close>

lemma k_atoi_numeral:
  assumes "cstr m s (ps @ numeral_of v @ rest)" "\<forall>x \<in> set ps. \<not> isdigit x \<and> \<not> is_sign x"
    and r: "rest \<noteq> [] \<Longrightarrow> \<not> isdigit (hd rest)"
  shows "k_atoi m s = Some v"
proof -
  have c: "cstr m (at_off s (length ps)) (numeral_of v @ rest)" by (rule cstr_append) (use assms(1) in simp)
  have dg: "\<forall>x \<in> set (dec n). isdigit x" for n using dec_digits by blast
  show ?thesis
  proof (cases "sint v < 0")
    case True
    then have n: "numeral_of v = 45 # dec (nat (- sint v))" by (simp add: numeral_of_def)
    have "atoi_skip m s = Some (at_off s (length ps))"
      by (rule atoi_skip_cstr [where c = 45]) (use assms(1,2) n in \<open>auto simp: is_sign_def\<close>)
    moreover from c have d: "m (at_off s (length ps)) = 45"
      "cstr m (at_off s (length ps) + 1) (dec (nat (- sint v)) @ rest)" by (simp_all add: n cstr_Cons)
    moreover have "- of_nat (nat (- sint v)) = v" using True by simp
    ultimately show ?thesis
      using atoi_digits_cstr [OF d(2) dg r, of 0] by (simp add: k_atoi_def is_sign_def digits_value_dec)
  next
    case False
    then have n: "numeral_of v = dec (nat (sint v))" by (simp add: numeral_of_def)
    obtain d ds where ds: "dec (nat (sint v)) = d # ds" by (cases "dec (nat (sint v))") auto
    then have d: "isdigit d" using dg [of "nat (sint v)"] by simp
    have "atoi_skip m s = Some (at_off s (length ps))"
      by (rule atoi_skip_cstr [where c = d and rest = "ds @ rest"]) (use assms(1,2) n ds d in auto)
    moreover have "m (at_off s (length ps)) = d" using c by (simp add: n ds cstr_Cons)
    moreover have "d \<noteq> 45" "\<not> is_sign d" using d by (auto simp: isdigit_def is_sign_def)
    moreover have "of_nat (nat (sint v)) = v" using False by simp
    ultimately show ?thesis
      using atoi_digits_cstr [OF c [unfolded n] dg r, of 0] by (simp add: k_atoi_def digits_value_dec)
  qed
qed

lemma numeral_of_bytes: "0 \<notin> set (numeral_of v)" "length (numeral_of v) \<le> 11"
proof -
  have z: "0 \<notin> set (dec n)" for n using dec_digits digit_not_zero by blast
  have "length (dec (nat (- sint v))) \<le> 10" "length (dec (nat (sint v))) \<le> 10"
    using sint_u32 [of v] by (intro dec_length_u31; simp)+
  then show "0 \<notin> set (numeral_of v)" "length (numeral_of v) \<le> 11" using z by (auto simp: numeral_of_def)
qed

section \<open>Hexadecimal digits\<close>

text \<open>The shortest upper-case hexadecimal numeral, and the one of fixed width.\<close>

fun hexa :: "nat \<Rightarrow> u8 list" where
  "hexa n = (if n < 16 then [] else hexa (n div 16)) @ [hex_char (of_nat (n mod 16))]"

fun hex_digits :: "nat \<Rightarrow> nat \<Rightarrow> u8 list" where
  "hex_digits 0 n = []"
| "hex_digits (Suc k) n = hex_digits k (n div 16) @ [hex_char (of_nat (n mod 16))]"

declare hexa.simps [simp del]

lemma hex_digits_length [simp]: "length (hex_digits k n) = k"
  by (induction k arbitrary: n) auto

lemma hex_digits_zero: "hex_digits k 0 = replicate k 48"
  by (induction k) (auto simp: hex_char_def replicate_append_same)

lemma hex_digits_hexa:
  "0 < n \<Longrightarrow> n < 16 ^ k \<Longrightarrow> \<exists>z. hex_digits k n = replicate z 48 @ hexa n \<and> z + length (hexa n) = k"
proof (induction k arbitrary: n)
  case (Suc k)
  show ?case
  proof (cases "n < 16")
    case True
    then show ?thesis by (subst (1 2) hexa.simps) (auto simp: hex_digits_zero)
  next
    case False
    then have "0 < n div 16" "n div 16 < 16 ^ k" using Suc.prems(2) by (auto simp: less_mult_imp_div_less)
    from Suc.IH [OF this] False show ?thesis by (subst (1 2) hexa.simps) auto
  qed
qed simp

lemma hex_char_cases: "n < 16 \<Longrightarrow> hex_char (of_nat n) \<noteq> 0 \<and> (hex_char (of_nat n) = 48 \<longleftrightarrow> n = 0)"
proof -
  have "\<forall>d \<in> set [0..<16]. hex_char (of_nat d) \<noteq> 0 \<and> (hex_char (of_nat d) = 48 \<longleftrightarrow> d = 0)"
    by (simp add: upt_rec hex_char_def)
  then show "n < 16 \<Longrightarrow> hex_char (of_nat n) \<noteq> 0 \<and> (hex_char (of_nat n) = 48 \<longleftrightarrow> n = 0)" by simp
qed

lemma hexa_bytes: "0 \<notin> set (hexa n)" "hexa n \<noteq> []" "0 < n \<Longrightarrow> hd (hexa n) \<noteq> 48"
proof -
  show "hexa n \<noteq> []" by (subst hexa.simps) simp
  show "0 \<notin> set (hexa n)"
  proof (induction n rule: hexa.induct)
    case (1 n)
    then show ?case using hex_char_cases [of "n mod 16"] by (subst hexa.simps) auto
  qed
  show "0 < n \<Longrightarrow> hd (hexa n) \<noteq> 48"
  proof (induction n rule: hexa.induct)
    case (1 n)
    show ?case
    proof (cases "n < 16")
      case True
      with 1(2) show ?thesis using hex_char_cases [of n] by (subst hexa.simps) simp
    next
      case False
      then have "hd (hexa (n div 16)) \<noteq> 48" using 1 by simp
      moreover have "hexa (n div 16) \<noteq> []" by (subst hexa.simps) simp
      ultimately show ?thesis using False by (subst hexa.simps) simp
    qed
  qed
qed

lemma put_hex_eq:
  "k < 2 ^ 64 \<Longrightarrow> put_hex k v dest m = mem_write dest (hex_digits k (unat v)) m"
proof (induction k arbitrary: v m)
  case (Suc k)
  let ?h = "hex_char (of_nat (unat v mod 16))"
  have nib: "v AND 0xF = of_nat (unat v mod 16)"
    using take_bit_eq_mask [of 4 v] by (simp add: mask_eq_exp_minus_1 take_bit_eq_mod word_unat_eq_iff unat_mod)
  have "unat (drop_bit 4 v) = unat v div 16" by (simp add: drop_bit_eq_div unat_div)
  then have "put_hex (Suc k) v dest m = mem_write dest (hex_digits k (unat v div 16)) (m(at_off dest k := ?h))"
    using Suc by (simp add: nib)
  moreover have "at_off dest k \<notin> area dest (length (hex_digits k (unat v div 16)))"
    by (rule at_off_above_area) (use Suc.prems in auto)
  ultimately show ?case using Suc.prems by (simp add: mem_write_upd mem_write_append)
qed simp

text \<open>Moving a string to lower addresses in place, terminator included.\<close>

lemma strcpy_loop_down:
  assumes "0 \<notin> set xs" "j \<le> length xs" "z + length xs < 2 ^ 64"
    "\<forall>k. j \<le> k \<and> k \<le> length xs \<longrightarrow> m (at_off d (z + k)) = (xs @ [0]) ! k" "\<forall>k < j. m (at_off d k) = xs ! k"
  shows "\<exists>m'. strcpy_loop d (at_off d z) j m = Some m' \<and> (\<forall>k \<le> length xs. m' (at_off d k) = (xs @ [0]) ! k) \<and>
    (\<forall>a. a \<notin> area d (Suc (length xs)) \<longrightarrow> m' a = m a)"
  using assms(2,4,5)
proof (induction "length xs - j" arbitrary: j m)
  case 0
  then have j: "j = length xs" by simp
  have r: "m (at_off (at_off d z) j) = 0" using 0(3) [rule_format, of j] j by (simp add: at_off_add)
  have "at_off d k \<noteq> at_off d j" if "k < j" for k using at_off_inj [of k j d] that j assms(3) by auto
  then have "\<forall>k \<le> length xs. (m(at_off d j := 0)) (at_off d k) = (xs @ [0]) ! k"
    using 0(4) by (auto simp: j nth_append le_less)
  moreover have "at_off d j \<in> area d (Suc (length xs))" by (rule area_at) (simp add: j)
  moreover have "strcpy_loop d (at_off d z) j m = Some (m(at_off d j := 0))"
    using r by (subst strcpy_loop.simps) (simp add: Let_def)
  ultimately show ?case by auto
next
  case (Suc n)
  then have j: "j < length xs" by simp
  let ?m = "m(at_off d j := xs ! j)"
  have r: "m (at_off (at_off d z) j) = xs ! j" using Suc.prems(2) [rule_format, of j] j by (simp add: at_off_add nth_append)
  have nz: "xs ! j \<noteq> 0" using j assms(1) by (metis nth_mem)
  have keep: "?m (at_off d (z + k)) = (xs @ [0]) ! k" if "Suc j \<le> k" "k \<le> length xs" for k
  proof -
    have "at_off d (z + k) \<noteq> at_off d j" using at_off_inj [of "z + k" j d] that assms(3) by auto
    then show ?thesis using Suc.prems(2) that by simp
  qed
  have done': "?m (at_off d k) = xs ! k" if "k < Suc j" for k
    using at_off_inj [of k j d] that j assms(3) Suc.prems(3) by (cases "k = j") auto
  have "n = length xs - Suc j" using Suc.hyps(2) by simp
  have j1: "Suc j \<le> length xs" using j by simp
  have k1: "\<forall>k. Suc j \<le> k \<and> k \<le> length xs \<longrightarrow> ?m (at_off d (z + k)) = (xs @ [0]) ! k"
    and k2: "\<forall>k < Suc j. ?m (at_off d k) = xs ! k" using keep done' by blast+
  from Suc.hyps(1) [OF \<open>n = _\<close> j1 k1 k2] obtain m' where
    m': "strcpy_loop d (at_off d z) (Suc j) ?m = Some m'" "\<forall>k \<le> length xs. m' (at_off d k) = (xs @ [0]) ! k"
    "\<forall>a. a \<notin> area d (Suc (length xs)) \<longrightarrow> m' a = ?m a" by blast
  have "strcpy_loop d (at_off d z) j m = Some m'"
    using m'(1) nz r by (subst strcpy_loop.simps) (simp add: Let_def)
  moreover have "at_off d j \<in> area d (Suc (length xs))" by (rule area_at) (use j in simp)
  ultimately show ?case using m' by auto
qed

lemma strip_zeros_eq:
  assumes "cstr m (at_off d z0) (replicate z 48 @ xs)" "xs \<noteq> []" "hd xs \<noteq> 48" "length xs + z + z0 < 2 ^ 64" "z < k"
  shows "\<exists>m'. strip_zeros k d (at_off d z0) m = Some m' \<and> cstr m' d xs \<and>
    (\<forall>a. a \<notin> area d (Suc (length xs)) \<longrightarrow> m' a = m a)"
  using assms(1,4,5)
proof (induction z arbitrary: z0 k)
  case 0
  then have c: "cstr m (at_off d z0) xs" by simp
  obtain k' where k: "k = Suc k'" using 0 by (cases k) auto
  have "m (at_off d z0) \<noteq> 48" using c assms(2,3) by (cases xs) (auto simp: cstr_Cons)
  then have st: "strip_zeros k d (at_off d z0) m = strcpy_loop d (at_off d z0) 0 m"
    by (simp add: k strcpy_def option.map_comp comp_def option.map_ident)
  from c have z: "0 \<notin> set xs" and src: "\<forall>j. 0 \<le> j \<and> j \<le> length xs \<longrightarrow> m (at_off d (z0 + j)) = (xs @ [0]) ! j"
    by (auto simp: cstr_def nth_append at_off_add [symmetric] simp del: of_nat_add)
  from strcpy_loop_down [OF z _ _ src] 0(2) obtain m' where
    m': "strcpy_loop d (at_off d z0) 0 m = Some m'" "\<forall>k \<le> length xs. m' (at_off d k) = (xs @ [0]) ! k"
    "\<forall>a. a \<notin> area d (Suc (length xs)) \<longrightarrow> m' a = m a" by auto
  have "cstr m' d xs" using m'(2) c by (auto simp: cstr_def nth_append)
  with m' st show ?case by auto
next
  case (Suc z)
  then have "m (at_off d z0) = 48" and c: "cstr m (at_off d (Suc z0)) (replicate z 48 @ xs)"
    by (simp_all add: cstr_Cons algebra_simps)
  moreover obtain k' where "k = Suc k'" "z < k'" using Suc.prems(3) by (cases k) auto
  ultimately show ?case using Suc.IH [OF c, of k'] Suc.prems(2) by (simp add: algebra_simps)
qed

lemma i2hex_with_eq:
  assumes "unat v < 16 ^ len" "0 < len" "len < 2 ^ 62" "clear \<le> len"
  shows "\<exists>m'. i2hex_with v d len clear m = Some m' \<and> cstr m' d (hexa (unat v)) \<and>
    (\<forall>a. a \<notin> area d (Suc len) \<longrightarrow> m' a = m a)"
proof (cases "v = 0")
  case True
  have "hexa 0 = [48]" by (simp add: hexa.simps hex_char_def)
  moreover have "d \<in> area d (Suc len)" "d + 1 \<in> area d (Suc len)"
    using area_at [of 0 "Suc len" d] area_at [of 1 "Suc len" d] assms(2) by simp_all
  moreover have "d \<noteq> d + 1" by simp
  ultimately show ?thesis using True by (auto simp: i2hex_with_def cstr_Cons)
next
  case False
  then have v: "0 < unat v" by (simp add: unat_gt_0)
  from hex_digits_hexa [OF v assms(1)] obtain z where
    z: "hex_digits len (unat v) = replicate z 48 @ hexa (unat v)" "z + length (hexa (unat v)) = len" by blast
  note hb = hexa_bytes [of "unat v"]
  let ?m = "(put_hex len v d m)(at_off d len := 0)"
  have m: "?m = mem_write d (hex_digits len (unat v) @ [0]) m"
    using assms(3) by (simp add: put_hex_eq mem_write_append)
  have c: "cstr ?m (at_off d 0) (replicate z 48 @ hexa (unat v))"
    unfolding m z(1) using hb(1) cstr_mem_write [of "replicate z 48 @ hexa (unat v)" d m] z(2) assms(3) by simp
  have "z < len" using z(2) hb(2) by (cases "hexa (unat v)") auto
  from strip_zeros_eq [OF c hb(2,3) _ this] v z(2) assms(3) obtain m1 where
    m1: "strip_zeros len d d ?m = Some m1" "cstr m1 d (hexa (unat v))"
    "\<forall>a. a \<notin> area d (Suc (length (hexa (unat v)))) \<longrightarrow> m1 a = ?m a" by auto
  define n where "n = length (hexa (unat v))"
  have n: "n \<le> len" "n < 2 ^ 62" using z(2) assms(3) by (auto simp: n_def)
  define m2 where "m2 = snd (memset (at_off d n) 0 (int clear - int n) m1)"
  have r: "i2hex_with v d len clear m = Some m2"
    using False m1(1) strlen_cstr [OF m1(2)] by (simp add: i2hex_with_def m2_def n_def)
  have m2: "m2 a = m1 a \<or> m2 a = 0 \<and> a \<in> area (at_off d n) (nat (int clear - int n))" for a
    unfolding m2_def memset_def using n assms(3,4) by (auto simp: memset_loop_eq)
  have sub: "area (at_off d n) (nat (int clear - int n)) \<subseteq> area d (Suc len)"
    by (rule area_sub) (use n assms(4) in linarith)
  have "m2 (at_off d k) = m1 (at_off d k)" if "k < n" for k
    using m2 [of "at_off d k"] at_off_below_area [of k n "nat (int clear - int n)" d] that n assms(3,4) by auto
  moreover have "m2 (at_off d n) = 0" using m2 [of "at_off d n"] m1(2) by (auto simp: cstr_def n_def)
  ultimately have "cstr m2 d (hexa (unat v))" using m1(2) by (auto simp: cstr_def n_def)
  moreover have "m2 a = m a" if a: "a \<notin> area d (Suc len)" for a
  proof -
    have "m2 a = m1 a" using m2 [of a] sub a by blast
    also have "\<dots> = ?m a" using m1(3) area_mono [of "Suc n" "Suc len" d] n(1) a by (auto simp: n_def)
    also have "\<dots> = m a" unfolding m using a by (intro mem_write_outside) simp
    finally show ?thesis .
  qed
  ultimately show ?thesis using r by blast
qed

text \<open>The unsigned conversions.\<close>

lemma kinguio_utoa_eq:
  assumes "unat dst + 24 \<le> 2 ^ 64"
  shows "\<exists>m'. kinguio_utoa v dst radix m = Some (dst, m') \<and>
    cstr m' dst (if radix = 16 then hexa (unat v) else dec (unat v)) \<and> (\<forall>a. a \<notin> area dst 24 \<longrightarrow> m' a = m a)"
proof (cases "radix = 16")
  case True
  have "unat v < 2 ^ LENGTH(64)" by (rule unsigned_less)
  then have "unat v < 16 ^ 16" by simp
  from i2hex_with_eq [OF this, of 16 dst m] area_mono [of 17 24 dst] show ?thesis
    using True unfolding kinguio_utoa_def kinguio_i2hex_versao2_def by auto
next
  case False
  have "unat v < 2 ^ LENGTH(64)" by (rule unsigned_less)
  then have len: "length (dec (unat v)) \<le> 20" by (intro dec_length) auto
  let ?m = "mem_write dst (dec (unat v) @ [0]) m"
  have "0 \<notin> set (dec (unat v))" using dec_digits digit_not_zero by blast
  then have "cstr ?m dst (dec (unat v))" using len by (intro cstr_mem_write) auto
  moreover have "?m a = m a" if "a \<notin> area dst 24" for a
    using area_mono [of "length (dec (unat v) @ [0])" 24 dst] len that by (intro mem_write_outside) auto
  moreover have "utoa_r v dst m = (dst, ?m)" using utoa_r_eq len assms by simp
  ultimately show ?thesis using False unfolding kinguio_utoa_def by auto
qed

lemma kinguio_i2hex_eq:
  "\<exists>m'. kinguio_i2hex v dst 8 m = Some m' \<and> cstr m' dst (hexa (unat v)) \<and> (\<forall>a. a \<notin> area dst 24 \<longrightarrow> m' a = m a)"
proof -
  have "unat v < 2 ^ LENGTH(32)" by (rule unsigned_less)
  then have "unat (ucast v :: u64) < 16 ^ 8" "unat (ucast v :: u64) = unat v" by (simp_all add: unsigned_ucast_eq take_bit_nat_eq_self)
  with i2hex_with_eq [of "ucast v" 8 8 dst m] area_mono [of 9 24 dst] show ?thesis
    unfolding kinguio_i2hex_def by auto
qed

lemma vsputs_r_cstr:
  "cstr m src xs \<Longrightarrow> length xs < 2 ^ 64 \<Longrightarrow> area dst (length xs) \<inter> area src (Suc (length xs)) = {} \<Longrightarrow>
   vsputs_r dst src m = Some (at_off dst (length xs), mem_write dst xs m)"
proof (induction xs arbitrary: dst src m)
  case Nil
  then show ?case by (subst vsputs_r.simps) simp
next
  case (Cons x xs)
  let ?m = "m(dst := x)"
  have x: "m src = x" "x \<noteq> 0" and c: "cstr m (src + 1) xs" using Cons.prems(1) by (simp_all add: cstr_Cons)
  have sub: "area (src + 1) (Suc (length xs)) \<subseteq> area src (Suc (length (x # xs)))"
    "area (dst + 1) (length xs) \<subseteq> area dst (length (x # xs))" "dst \<in> area dst (length (x # xs))"
    by (auto simp: area_Suc)
  have "dst \<notin> area (src + 1) (Suc (length xs))" using Cons.prems(3) sub by blast
  from cstr_upd_outside [OF this, of m x] c have c': "cstr ?m (src + 1) xs" by blast
  have "area (dst + 1) (length xs) \<inter> area (src + 1) (Suc (length xs)) = {}" using Cons.prems(3) sub by blast
  from Cons.IH [OF c' _ this] Cons.prems(2)
  have "vsputs_r (dst + 1) (src + 1) ?m = Some (at_off (dst + 1) (length xs), mem_write (dst + 1) xs ?m)"
    by (simp del: fun_upd_apply)
  then show ?case using x by (subst vsputs_r.simps) (simp add: at_off_Suc del: of_nat_Suc)
qed

section \<open>Formatted output on lists\<close>

text \<open>
  The reference: which bytes one conversion and a whole format produce. \<open>env\<close> gives the
  string at an address. A format that ends in the middle of a conversion has no result.
\<close>

definition render_conv :: "(addr \<Rightarrow> u8 list option) \<Rightarrow> u8 \<Rightarrow> bool \<Rightarrow> u64 list \<Rightarrow> (u8 list \<times> bool \<times> u64 list) option" where
  "render_conv env c t args =
    (if c \<in> {99, 115, 83, 100, 105, 117, 88, 120, 112} then
       (case args of [] \<Rightarrow> None
        | a # as \<Rightarrow>
            if c = 99 then Some (if (ucast a :: u8) = 0 then [] else [ucast a], t, as)
            else if c = 115 \<or> c = 83 then
              (if a = NULL then Some ([40, 110, 117, 108, 108, 41], t, as) else map_option (\<lambda>xs. (xs, t, as)) (env a))
            else if c = 100 \<or> c = 105 then Some (numeral_of (ucast a), t, as)
            else if c = 117 then
              (if t then Some (dec (unat a), False, as) else Some (numeral_of (ucast a), t, as))
            else if c = 88 \<or> c = 120 then
              (if t then Some (hexa (unat a), False, as) else Some (hexa (unat (ucast a :: u32)), t, as))
            else Some ([48, 120] @ hexa (unat a), t, as))
     else Some ([37, 37], t, args))"

fun render :: "(addr \<Rightarrow> u8 list option) \<Rightarrow> u8 list \<Rightarrow> bool \<Rightarrow> u64 list \<Rightarrow> u8 list option" where
  "render env [] t args = Some []"
| "render env [x] t args = (if x = 37 then None else Some [x])"
| "render env (x # c # rest) t args =
    (if x \<noteq> 37 then map_option ((#) x) (render env (c # rest) t args)
     else if c = 108 then
       (case rest of [] \<Rightarrow> None
        | d # rest1 \<Rightarrow> (case render_conv env d True args of None \<Rightarrow> None
            | Some (out, t1, args1) \<Rightarrow> map_option ((@) out) (render env rest1 t1 args1)))
     else (case render_conv env c t args of None \<Rightarrow> None
            | Some (out, t1, args1) \<Rightarrow> map_option ((@) out) (render env rest t1 args1)))"

definition strings_ok :: "mem \<Rightarrow> (addr \<Rightarrow> u8 list option) \<Rightarrow> addr set \<Rightarrow> bool" where
  "strings_ok m env W \<longleftrightarrow> (\<forall>s xs. env s = Some xs \<longrightarrow> cstr m s xs \<and> length xs < 2 ^ 64 - 1 \<and> W \<inter> area s (Suc (length xs)) = {})"

lemma strings_ok_frame:
  assumes "strings_ok m env W" "\<forall>a. a \<notin> W \<longrightarrow> m' a = m a"
  shows "strings_ok m' env W"
proof -
  have "cstr m' s xs = cstr m s xs" if "W \<inter> area s (Suc (length xs)) = {}" for s xs
    by (rule cstr_cong) (use that assms(2) in blast)
  with assms(1) show ?thesis unfolding strings_ok_def by blast
qed

lemma strings_ok_mono: "strings_ok m env W \<Longrightarrow> V \<subseteq> W \<Longrightarrow> strings_ok m env V"
  unfolding strings_ok_def by blast

lemma hexa_length: "n < 16 ^ k \<Longrightarrow> 0 < k \<Longrightarrow> length (hexa n) \<le> k"
  using hex_digits_hexa [of n k] hexa.simps [of 0] by (cases "n = 0") auto

lemma conversion_lengths:
  "length (dec (unat (a :: u64))) \<le> 23" "length (hexa (unat a)) \<le> 20" "length (hexa (unat (b :: u32))) \<le> 20"
proof -
  have a: "unat a < 2 ^ LENGTH(64)" and b: "unat b < 2 ^ LENGTH(32)" by (rule unsigned_less)+
  have "length (dec (unat a)) \<le> 20" by (rule dec_length) (use a in auto)
  then show "length (dec (unat a)) \<le> 23" by simp
  show "length (hexa (unat a)) \<le> 20" by (rule hexa_length) (use a in auto)
  show "length (hexa (unat b)) \<le> 20" by (rule hexa_length) (use b in auto)
qed

text \<open>What a step has done: the bytes are in place and nothing else but the buffer has changed.\<close>

definition printed :: "addr \<Rightarrow> addr \<Rightarrow> u8 list \<Rightarrow> mem \<Rightarrow> mem \<Rightarrow> bool" where
  "printed buffer dest out m m1 \<longleftrightarrow> (\<forall>k < length out. m1 (at_off dest k) = out ! k) \<and>
     (\<forall>a. a \<notin> area dest (length out) \<union> area buffer 24 \<longrightarrow> m1 a = m a)"

lemma printed_write:
  "length out < 2 ^ 64 \<Longrightarrow> \<forall>a. a \<notin> area buffer 24 \<longrightarrow> mb a = m a \<Longrightarrow> printed buffer dest out m (mem_write dest out mb)"
  by (auto simp: printed_def mem_write_nth mem_write_outside)

lemma vsputs_buffer:
  assumes "cstr mb buffer xs" "length xs \<le> 23" "area dest (length xs) \<inter> area buffer 24 = {}"
  shows "vsputs_r dest buffer mb = Some (at_off dest (length xs), mem_write dest xs mb)"
  by (rule vsputs_r_cstr) (use assms area_mono [of "Suc (length xs)" 24 buffer] in auto)

lemma printed_append:
  assumes "printed buffer dest o1 m m1" "printed buffer (at_off dest (length o1)) o2 m1 m2"
    "length (o1 @ o2) < 2 ^ 64" "area dest (length (o1 @ o2)) \<inter> area buffer 24 = {}"
  shows "printed buffer dest (o1 @ o2) m m2"
proof -
  let ?d = "at_off dest (length o1)"
  have sub: "area ?d (length o2) \<subseteq> area dest (length (o1 @ o2))" "area dest (length o1) \<subseteq> area dest (length (o1 @ o2))"
    by (rule area_sub, simp) (rule area_mono, simp)
  have "m2 (at_off dest k) = (o1 @ o2) ! k" if k: "k < length (o1 @ o2)" for k
  proof (cases "k < length o1")
    case True
    have "at_off dest k \<notin> area ?d (length o2)" by (rule at_off_below_area) (use True assms(3) in auto)
    moreover have "at_off dest k \<notin> area buffer 24" using assms(4) area_at [OF k] by blast
    ultimately show ?thesis using assms(1,2) True by (auto simp: printed_def nth_append)
  next
    case False
    then have k': "at_off dest k = at_off ?d (k - length o1)" "k - length o1 < length o2" using k by (simp_all add: at_off_add)
    from assms(2) k'(2) have "m2 (at_off ?d (k - length o1)) = o2 ! (k - length o1)" unfolding printed_def by blast
    with False show ?thesis unfolding k'(1) by (simp only: nth_append if_False)
  qed
  moreover have "m2 a = m a" if a: "a \<notin> area dest (length (o1 @ o2)) \<union> area buffer 24" for a
  proof -
    from a sub have "a \<notin> area ?d (length o2) \<union> area buffer 24" "a \<notin> area dest (length o1) \<union> area buffer 24" by blast+
    with assms(1,2) show ?thesis unfolding printed_def by simp
  qed
  ultimately show ?thesis unfolding printed_def by blast
qed

text \<open>Copying a converted number, or a prefix and a converted number, from the buffer.\<close>

lemma put_number:
  assumes "cstr mb buffer xs" "length xs \<le> 23" "\<forall>a. a \<notin> area buffer 24 \<longrightarrow> mb a = m a"
    "area dest (length xs) \<inter> area buffer 24 = {}"
  shows "\<exists>m1. vsputs_r dest buffer mb = Some (at_off dest (length xs), m1) \<and> printed buffer dest xs m m1"
  using vsputs_buffer [OF assms(1,2,4)] printed_write [OF _ assms(3), of xs dest] assms(2) by simp

lemma put_prefixed_number:
  assumes "cstr mb buffer xs" "length xs \<le> 20" "\<forall>a. a \<notin> area buffer 24 \<longrightarrow> mb a = m a"
    "area dest (length (ps @ xs)) \<inter> area buffer 24 = {}" "length ps \<le> 3"
  shows "\<exists>m1. vsputs_r (at_off dest (length ps)) buffer (mem_write dest ps mb) = Some (at_off dest (length (ps @ xs)), m1) \<and>
    printed buffer dest (ps @ xs) m m1"
proof -
  let ?d = "at_off dest (length ps)" and ?m = "mem_write dest ps mb"
  have sub: "area ?d (length xs) \<subseteq> area dest (length (ps @ xs))" "area dest (length ps) \<subseteq> area dest (length (ps @ xs))"
    by (rule area_sub, simp) (rule area_mono, simp)
  have "area buffer (Suc (length xs)) \<subseteq> area buffer 24" by (rule area_mono) (use assms(2) in simp)
  then have "cstr ?m buffer xs"
    using assms(1,4) sub(2) by (subst cstr_cong [of buffer xs _ mb]) (auto intro!: mem_write_outside)
  moreover have "area ?d (length xs) \<inter> area buffer 24 = {}" using assms(4) sub by blast
  ultimately have "vsputs_r ?d buffer ?m = Some (at_off ?d (length xs), mem_write ?d xs ?m)"
    using assms(2) by (intro vsputs_buffer) auto
  moreover have "printed buffer dest (ps @ xs) m (mem_write ?d xs ?m)"
    using printed_write [OF _ assms(3), of "ps @ xs" dest] assms(2,5) by (simp add: mem_write_append)
  ultimately show ?thesis by (simp add: at_off_add)
qed

lemma convert_prints:
  assumes r: "render_conv env c t args = Some (out, t1, args1)" and b: "unat buffer + 24 \<le> 2 ^ 64"
    and disj: "area dest (length out) \<inter> area buffer 24 = {}" and ok: "strings_ok m env (area dest (length out))"
  shows "\<exists>m1. convert buffer c t args dest m = Some (t1, args1, at_off dest (length out), m1) \<and>
    printed buffer dest out m m1"
proof (cases "c \<in> {99, 115, 83, 100, 105, 117, 88, 120, 112}")
  case False
  then show ?thesis
    using r printed_write [of "[37, 37]" buffer m m dest] by (auto simp: render_conv_def convert_def vsputs_lit_def)
next
  case True
  then obtain a as where args: "args = a # as" using r by (cases args) (auto simp: render_conv_def)
  have itoa: "\<exists>m1. vsputs_r dest buffer (snd (kinguio_itoa v buffer m)) = Some (at_off dest (length out), m1) \<and>
      printed buffer dest out m m1" if "out = numeral_of v" for v
  proof (rule put_number [OF _ _ _ disj])
    have "unat buffer + 12 \<le> 2 ^ 64" using b by simp
    from kinguio_itoa_eq [OF this, of v m] have e: "snd (kinguio_itoa v buffer m) = mem_write buffer (numeral_of v @ [0]) m" by simp
    show "cstr (snd (kinguio_itoa v buffer m)) buffer out"
      unfolding e that by (rule cstr_mem_write) (use numeral_of_bytes [of v] in auto)
    show "length out \<le> 23" using that numeral_of_bytes [of v] by simp
    show "\<forall>a. a \<notin> area buffer 24 \<longrightarrow> snd (kinguio_itoa v buffer m) a = m a"
      using area_mono [of "length (numeral_of v @ [0])" 24 buffer] numeral_of_bytes(2) [of v]
      unfolding e by (intro allI impI mem_write_outside) auto
  qed
  have utoa: "\<exists>m1. (case kinguio_utoa a buffer radix m of None \<Rightarrow> None
      | Some r \<Rightarrow> map_option (\<lambda>r. (u, as, r)) (vsputs_r dest buffer (snd r))) = Some (u, as, at_off dest (length out), m1) \<and>
      printed buffer dest out m m1" if "out = (if radix = 16 then hexa (unat a) else dec (unat a))" for radix u
  proof -
    note o = that
    from kinguio_utoa_eq [OF b, of a radix m] obtain mb where mb: "kinguio_utoa a buffer radix m = Some (buffer, mb)"
      "cstr mb buffer out" "\<forall>a. a \<notin> area buffer 24 \<longrightarrow> mb a = m a" unfolding o by blast
    have "length out \<le> 23" using o conversion_lengths(1,2) [of a] by simp
    from put_number [OF mb(2) this mb(3) disj] mb(1) show ?thesis by auto
  qed
  consider "c = 99" | "c = 115 \<or> c = 83" | "c = 100 \<or> c = 105" | "c = 117" | "c = 88 \<or> c = 120" | "c = 112"
    using True by auto
  then show ?thesis
  proof cases
    case 1
    then show ?thesis
      using r printed_write [of "if (ucast a :: u8) = 0 then [] else [ucast a]" buffer m m dest]
      by (auto simp: render_conv_def convert_def args vsputs_char_def)
  next
    case 2
    show ?thesis
    proof (cases "a = NULL")
      case True
      with 2 r show ?thesis
        using printed_write [of "[40, 110, 117, 108, 108, 41]" buffer m m dest]
        by (auto simp: render_conv_def convert_def args vsputs_lit_def)
    next
      case False
      with 2 r have e: "env a = Some out" "t1 = t" "args1 = as" by (auto simp: render_conv_def args)
      with ok have "cstr m a out" "length out < 2 ^ 64 - 1" "area dest (length out) \<inter> area a (Suc (length out)) = {}"
        unfolding strings_ok_def by auto
      with vsputs_r_cstr [of m a out dest] printed_write [of out buffer m m dest] show ?thesis
        using 2 False e by (auto simp: convert_def args)
    qed
  next
    case 3
    then have e: "out = numeral_of (ucast a)" "t1 = t" "args1 = as" using r by (auto simp: render_conv_def args)
    from itoa [OF e(1)] 3 show ?thesis by (auto simp: convert_def args e(2,3))
  next
    case 4
    show ?thesis
    proof (cases t)
      case True
      then have e: "out = (if (10 :: int) = 16 then hexa (unat a) else dec (unat a))" "t1 = False" "args1 = as"
        using r 4 by (auto simp: render_conv_def args)
      from utoa [OF e(1), of False] 4 True show ?thesis by (auto simp: convert_def args e(2,3))
    next
      case False
      then have e: "out = numeral_of (ucast a)" "t1 = t" "args1 = as" using r 4 by (auto simp: render_conv_def args)
      from itoa [OF e(1)] 4 False show ?thesis by (auto simp: convert_def args e(2,3))
    qed
  next
    case 5
    show ?thesis
    proof (cases t)
      case True
      then have e: "out = (if (16 :: int) = 16 then hexa (unat a) else dec (unat a))" "t1 = False" "args1 = as"
        using r 5 by (auto simp: render_conv_def args)
      from utoa [OF e(1), of False] 5 True show ?thesis by (auto simp: convert_def args e(2,3))
    next
      case False
      then have e: "out = hexa (unat (ucast a :: u32))" "t1 = t" "args1 = as" using r 5 by (auto simp: render_conv_def args)
      from kinguio_i2hex_eq [of "ucast a" buffer m] obtain mb where mb: "kinguio_i2hex (ucast a) buffer 8 m = Some mb"
        "cstr mb buffer out" "\<forall>a. a \<notin> area buffer 24 \<longrightarrow> mb a = m a" unfolding e(1) by blast
      have "length out \<le> 23" using e(1) conversion_lengths(3) [of "ucast a"] by simp
      from put_number [OF mb(2) this mb(3) disj] mb(1) 5 False show ?thesis by (auto simp: convert_def args e(2,3))
    qed
  next
    case 6
    then have e: "out = [48, 120] @ hexa (unat a)" "t1 = t" "args1 = as" using r by (auto simp: render_conv_def args)
    from kinguio_utoa_eq [OF b, of a 16 m] obtain mb where mb: "kinguio_utoa a buffer 16 m = Some (buffer, mb)"
      "cstr mb buffer (hexa (unat a))" "\<forall>a. a \<notin> area buffer 24 \<longrightarrow> mb a = m a" by auto
    from put_prefixed_number [OF mb(2) conversion_lengths(2) mb(3) disj [unfolded e(1)]] obtain m1 where
      "vsputs_r (at_off dest (length [48, 120 :: u8])) buffer (mem_write dest [48, 120] mb) = Some (at_off dest (length out), m1)"
      "printed buffer dest out m m1" unfolding e(1) by auto
    with mb(1) 6 show ?thesis by (auto simp: convert_def args vsputs_lit_def e(2,3) simp del: mem_write.simps)
  qed
qed

text \<open>
  The whole format: as long as the output stays clear of the format, the string arguments and the
  conversion buffer, the loop prints what the reference says.
\<close>

lemma vsprintf_loop_renders:
  assumes "render env fs t args = Some out" "cstr m (at_off fmt i) fs" "unat buffer + 24 \<le> 2 ^ 64"
    "length out < 2 ^ 64" "area dest (length out) \<inter> area buffer 24 = {}"
    "strings_ok m env (area dest (length out) \<union> area buffer 24)"
    "(area dest (length out) \<union> area buffer 24) \<inter> area (at_off fmt i) (Suc (length fs)) = {}"
  shows "\<exists>m1. vsprintf_loop buffer fmt i t args dest m = Some (at_off dest (length out), m1) \<and> printed buffer dest out m m1"
  using assms(1,2,4-7)
proof (induction "length fs" arbitrary: fs t args out i dest m rule: less_induct)
  case less
  note ren = less.prems(1) and fmt = less.prems(2) and len = less.prems(3) and disj = less.prems(4)
    and ok = less.prems(5) and keep = less.prems(6)
  let ?W = "area dest (length out) \<union> area buffer 24"
  have byte: "m (at_off fmt (i + k)) = (if k < length fs then fs ! k else 0)" if "k \<le> length fs" for k
    using fmt that by (auto simp: cstr_def at_off_add simp del: of_nat_add)
  have nz: "0 \<notin> set fs" using fmt by (simp add: cstr_def)
  have next_step: ?case
    if fs: "fs = ps @ rest" "ps \<noteq> []" and pr: "printed buffer dest o1 m m1"
      and rr: "render env rest t1 args1 = Some o2" "out = o1 @ o2"
      and lp: "vsprintf_loop buffer fmt i t args dest m =
        vsprintf_loop buffer fmt (i + length ps) t1 args1 (at_off dest (length o1)) m1"
    for ps rest t1 args1 o1 o2 m1
  proof -
    let ?d = "at_off dest (length o1)" and ?f = "at_off fmt (i + length ps)"
    have sub: "area ?d (length o2) \<subseteq> area dest (length out)" "area dest (length o1) \<subseteq> area dest (length out)"
      unfolding rr(2) by (rule area_sub, simp) (rule area_mono, simp)
    have f: "?f = at_off (at_off fmt i) (length ps)" by (simp add: at_off_add)
    have fsub: "area ?f (Suc (length rest)) \<subseteq> area (at_off fmt i) (Suc (length fs))"
      unfolding f by (rule area_sub) (simp add: fs(1))
    have same: "m1 a = m a" if "a \<notin> ?W" for a using pr that sub(2) unfolding printed_def by blast
    have "cstr m ?f rest" unfolding f by (rule cstr_append) (use fmt fs(1) in simp)
    moreover have "\<And>a. a \<in> area ?f (Suc (length rest)) \<Longrightarrow> m1 a = m a" using same keep fsub by blast
    ultimately have c1: "cstr m1 ?f rest" using cstr_cong [of ?f rest m1 m] by blast
    have "strings_ok m1 env ?W" by (rule strings_ok_frame [OF ok]) (use same in blast)
    then have ok1: "strings_ok m1 env (area ?d (length o2) \<union> area buffer 24)"
      by (rule strings_ok_mono) (use sub(1) in blast)
    have d1: "area ?d (length o2) \<inter> area buffer 24 = {}" using disj sub(1) by blast
    have k1: "(area ?d (length o2) \<union> area buffer 24) \<inter> area ?f (Suc (length rest)) = {}" using keep sub(1) fsub by blast
    have l1: "length rest < length fs" "length o2 < 2 ^ 64" using fs len rr(2) by simp_all
    from less.hyps [OF l1(1) rr(1) c1 l1(2) d1 ok1 k1] obtain m2 where
      m2: "vsprintf_loop buffer fmt (i + length ps) t1 args1 ?d m1 = Some (at_off ?d (length o2), m2)"
      "printed buffer ?d o2 m1 m2" by blast
    have "printed buffer dest out m m2"
      unfolding rr(2) by (rule printed_append [OF pr m2(2)]) (use len disj rr(2) in auto)
    with m2(1) lp rr(2) show ?thesis by (simp add: at_off_add)
  qed
  have conv_step: ?case
    if fs: "fs = ps @ c # rest" "ps = [37] \<and> c \<noteq> 108 \<and> u = t \<or> ps = [37, 108] \<and> u"
      and rc: "render_conv env c u args = Some (o1, t1, args1)"
      and rr: "render env rest t1 args1 = Some o2" "out = o1 @ o2" for ps c rest u t1 args1 o1 o2
  proof -
    have o1: "area dest (length o1) \<subseteq> area dest (length out)" unfolding rr(2) by (rule area_mono) simp
    have "strings_ok m env (area dest (length o1))" by (rule strings_ok_mono [OF ok]) (use o1 in blast)
    from convert_prints [OF rc assms(3) _ this] disj o1 obtain m1 where
      m1: "convert buffer c u args dest m = Some (t1, args1, at_off dest (length o1), m1)" "printed buffer dest o1 m m1"
      by blast
    have b0: "m (at_off fmt i) = 37" using byte [of 0] fs by auto
    have b1: "m (at_off fmt (i + 1)) = fs ! 1" using byte [of 1] fs by auto
    have bj: "m (at_off fmt (i + length ps)) = c" using byte [of "length ps"] fs by simp
    have "vsprintf_loop buffer fmt i t args dest m =
        vsprintf_loop buffer fmt (i + length (ps @ [c])) t1 args1 (at_off dest (length o1)) m1"
      using fs(2)
    proof (elim disjE conjE)
      assume ps: "ps = [37]" "c \<noteq> 108" "u = t"
      then have "m (at_off fmt (i + 1)) = c" using bj by (simp del: of_nat_add)
      with ps b0 m1(1) show ?thesis by (subst vsprintf_loop.simps) (simp add: Let_def del: of_nat_add of_nat_Suc)
    next
      assume ps: "ps = [37, 108]" u
      then have "m (at_off fmt (i + 2)) = c" "m (at_off fmt (i + 1)) = 108"
        using bj b1 fs(1) by (simp_all del: of_nat_add of_nat_Suc)
      with ps b0 m1(1) show ?thesis by (subst vsprintf_loop.simps) (simp add: Let_def del: of_nat_add of_nat_Suc)
    qed
    with next_step [of "ps @ [c]" rest] fs(1) m1(2) rr show ?case by simp
  qed
  have char_step: ?case
    if fs: "fs = x # rest" "x \<noteq> 37" and rr: "render env rest t args = Some o2" "out = x # o2" for x rest o2
  proof -
    have "m (at_off fmt i) = x" "x \<noteq> 0" using byte [of 0] fs nz by auto
    then have "vsprintf_loop buffer fmt i t args dest m =
        vsprintf_loop buffer fmt (i + length [x]) t args (at_off dest (length [x])) (m(dest := x))"
      using fs(2) by (subst vsprintf_loop.simps) (simp add: vsputs_char_def)
    moreover have "printed buffer dest [x] m (m(dest := x))" using printed_write [of "[x]" buffer m m dest] by simp
    ultimately show ?case using next_step [of "[x]" rest "[x]"] fs(1) rr by simp
  qed
  show ?case
  proof (cases fs)
    case Nil
    then have "m (at_off fmt i) = 0" "out = []" using byte [of 0] ren by auto
    then show ?thesis by (subst vsprintf_loop.simps) (simp add: printed_def)
  next
    case (Cons x fs')
    show ?thesis
    proof (cases fs')
      case Nil
      with ren Cons show ?thesis by (intro char_step [of x "[]" "[]"]) (auto split: if_splits)
    next
      case (Cons c rest)
      with \<open>fs = x # fs'\<close> have fs: "fs = x # c # rest" by simp
      consider "x \<noteq> 37" | "x = 37" "c = 108" | "x = 37" "c \<noteq> 108" by blast
      then show ?thesis
      proof cases
        case 1
        with ren fs obtain o2 where "render env (c # rest) t args = Some o2" "out = x # o2" by auto
        with 1 fs show ?thesis by (intro char_step [of x "c # rest" o2]) auto
      next
        case 2
        with ren fs obtain d rest1 o1 t1 args1 o2 where "rest = d # rest1" "render_conv env d True args = Some (o1, t1, args1)"
          "render env rest1 t1 args1 = Some o2" "out = o1 @ o2" by (auto split: list.splits option.splits)
        with 2 fs show ?thesis by (intro conv_step [of "[37, 108]" d rest1 True]) auto
      next
        case 3
        with ren fs obtain o1 t1 args1 o2 where "render_conv env c t args = Some (o1, t1, args1)"
          "render env rest t1 args1 = Some o2" "out = o1 @ o2" by (auto split: option.splits)
        with 3 fs show ?thesis by (intro conv_step [of "[37]" c rest t]) auto
      qed
    qed
  qed
qed

section \<open>Properties\<close>

text \<open>
  Claim C32. \<^verbatim>\<open>kinguio_itoa\<close> writes the signed decimal numeral of every 32-bit value,
  the smallest one included, into at most twelve bytes, and \<^verbatim>\<open>k_atoi\<close> reads the value
  back from it.
\<close>

theorem itoa_atoi_round_trip:
  assumes "unat str + 12 \<le> 2 ^ 64" "m' = snd (kinguio_itoa v str m)"
  shows "cstr m' str (numeral_of v) \<and> k_atoi m' str = Some v \<and> (\<forall>a. a \<notin> area str 12 \<longrightarrow> m' a = m a)"
proof -
  note nb = numeral_of_bytes [of v]
  have m': "m' = mem_write str (numeral_of v @ [0]) m" using kinguio_itoa_eq [OF assms(1)] assms(2) by simp
  have c: "cstr m' str (numeral_of v)" unfolding m' by (rule cstr_mem_write) (use nb in auto)
  moreover have "k_atoi m' str = Some v" using k_atoi_numeral [of m' str "[]" v "[]"] c by simp
  moreover have "m' a = m a" if "a \<notin> area str 12" for a
  proof -
    have "area str (length (numeral_of v @ [0])) \<subseteq> area str 12" by (rule area_mono) (use nb in simp)
    with that show ?thesis unfolding m' by (intro mem_write_outside) blast
  qed
  ultimately show ?thesis by blast
qed

theorem itoa_atoi_round_trip_witness:
  "k_atoi (snd (kinguio_itoa (- 2147483648) 64 (\<lambda>_. 7))) 64 = Some (- 2147483648) \<and>
   cstr (snd (kinguio_itoa 305 64 (\<lambda>_. 7))) 64 [51, 48, 53]"
proof -
  have "numeral_of 305 = [51, 48, 53]" by (simp add: numeral_of_def dec.simps)
  then show ?thesis
    using itoa_atoi_round_trip [OF _ refl, of 64 "- 2147483648" "\<lambda>_. 7"] itoa_atoi_round_trip [OF _ refl, of 64 305 "\<lambda>_. 7"]
    by simp
qed

lemma kinguio_vsprintf_eq:
  assumes "render env fs False args = Some out" "cstr m fmt fs" "unat buffer + 24 \<le> 2 ^ 64" "length out < 2 ^ 31"
    and W: "W = area str (length out) \<union> area buffer 24" "area str (length out) \<inter> area buffer 24 = {}"
    and "strings_ok m env W" "W \<inter> area fmt (Suc (length fs)) = {}"
  shows "\<exists>m1. kinguio_vsprintf buffer str fmt args m = Some (of_nat (length out), m1) \<and>
    read_bytes m1 str (length out) = out \<and> (\<forall>a. a \<notin> W \<longrightarrow> m1 a = m a)"
proof -
  have "length out < 2 ^ 64" using assms(4) by simp
  from vsprintf_loop_renders [OF assms(1) _ assms(3) this W(2), of m fmt 0] assms(2,7,8) obtain m1 where
    m1: "vsprintf_loop buffer fmt 0 False args str m = Some (at_off str (length out), m1)" "printed buffer str out m m1"
    unfolding W(1) by auto
  have "(ucast (at_off str (length out) - str) :: u32) = of_nat (length out)"
    using assms(4) by (simp add: word_unat_eq_iff unsigned_ucast_eq unat_of_nat take_bit_nat_eq_self)
  with m1 show ?thesis
    unfolding kinguio_vsprintf_def W(1) printed_def by (auto simp: read_bytes_def intro: nth_equalityI)
qed

text \<open>
  Claim C19. For a format and arguments for which the reference rendering is defined, and an output
  area that overlaps neither the format nor the string arguments nor the conversion buffer,
  \<^verbatim>\<open>kinguio_vsprintf\<close> returns, its result is the length of the rendering, the output area
  holds exactly these bytes, and only the output area and 24 bytes of the buffer are written: in
  particular no terminator follows the output.
\<close>

theorem vsprintf_renders:
  assumes "render env fs False args = Some out" "cstr m fmt fs" "unat buffer + 24 \<le> 2 ^ 64" "length out < 2 ^ 31"
    and "W = area str (length out) \<union> area buffer 24" "area str (length out) \<inter> area buffer 24 = {}"
    and "strings_ok m env W" "W \<inter> area fmt (Suc (length fs)) = {}"
  shows "\<exists>m1. kinguio_vsprintf buffer str fmt args m = Some (of_nat (length out), m1) \<and>
    read_bytes m1 str (length out) = out \<and> (\<forall>a. a \<notin> W \<longrightarrow> m1 a = m a)"
  using assms by (rule kinguio_vsprintf_eq)

theorem vsprintf_renders_witness:
  "\<exists>m1. kinguio_vsprintf 128 64 16 [4294967295] ((\<lambda>_. 0)(16 := 37, 17 := 117)) = Some (2, m1) \<and> read_bytes m1 64 2 = [45, 49]"
proof -
  let ?m = "(\<lambda>_. 0)(16 := 37, 17 := 117) :: mem" and ?W = "area 64 2 \<union> area 128 24 :: addr set"
  have n: "numeral_of 4294967295 = [45, 49]" by (simp add: numeral_of_def dec.simps)
  have r: "render (\<lambda>_. None) [37, 117] False [4294967295] = Some [45, 49]"
    by (simp add: render_conv_def n)
  have d: "area (64 :: addr) (length [45, 49 :: u8]) \<inter> area 128 24 = {}" by (simp add: area_upt upt_rec)
  have f: "(area (64 :: addr) (length [45, 49 :: u8]) \<union> area 128 24) \<inter> area 16 (Suc (length [37, 117 :: u8])) = {}"
    by (simp add: area_upt upt_rec)
  have "cstr ?m 16 [37, 117]" by (simp add: cstr_Cons)
  have l: "length [45, 49 :: u8] = 2" by simp
  have "\<exists>m1. kinguio_vsprintf 128 64 16 [4294967295] ?m = Some (of_nat 2, m1) \<and> read_bytes m1 64 2 = [45, 49] \<and>
      (\<forall>a. a \<notin> ?W \<longrightarrow> m1 a = ?m a)"
    using vsprintf_renders [OF r \<open>cstr ?m 16 _\<close> _ _ refl d _ f, unfolded l] by (simp add: strings_ok_def)
  then show ?thesis by auto
qed

text \<open>
  The conversion \<^verbatim>\<open>%u\<close> goes through the signed converter: from 2147483648 on it prints
  a negative number.
\<close>

lemma percent_u_prints_negative:
  assumes "2147483648 \<le> a" "a < 4294967296"
  shows "render env [37, 117] False [a] = Some (45 # dec (4294967296 - unat a))"
proof -
  have a: "2147483648 \<le> unat a" "unat a < 4294967296" using assms by (simp_all add: word_le_nat_alt word_less_nat_alt)
  have "unat (ucast a :: u32) = unat a" using a(2) by (simp add: unsigned_ucast_eq take_bit_nat_eq_self)
  then have "uint (ucast a :: u32) = int (unat a)" by (metis of_nat_unat)
  moreover have "uint (ucast a :: u32) = sint (ucast a :: u32) mod 4294967296"
    by (simp add: uint_sint take_bit_eq_mod)
  ultimately have m: "sint (ucast a :: u32) mod 4294967296 = int (unat a)" by simp
  have "sint (ucast a :: u32) < 0"
  proof (rule ccontr)
    assume "\<not> sint (ucast a :: u32) < 0"
    then have "sint (ucast a :: u32) mod 4294967296 = sint (ucast a :: u32)"
      using sint_u32(2) [of "ucast a"] by (intro mod_pos_pos_trivial) auto
    with m a sint_u32(2) [of "ucast a"] show False by linarith
  qed
  then have "(sint (ucast a :: u32) + 4294967296) mod 4294967296 = sint (ucast a :: u32) + 4294967296"
    using sint_u32(1) [of "ucast a"] by (intro mod_pos_pos_trivial) auto
  with m have "sint (ucast a :: u32) = int (unat a) - 4294967296" by simp
  moreover have "nat (4294967296 - int (unat a)) = 4294967296 - unat a" using a(2) by linarith
  ultimately have "numeral_of (ucast a) = 45 # dec (4294967296 - unat a)"
    using a(2) by (simp add: numeral_of_def minus_diff_eq del: of_nat_unat)
  then show ?thesis by (simp add: render_conv_def)
qed

end
