(* ===== verification/Paging.thy ===== *)
theory Paging
  imports Gramado_Prelude
begin

text \<open>
  The page tables of the kernel (mm/x86_64/paging.c, x64mm.c) and what is decided with them at boot: the regions of
  the address space, the frame table (mmft.c) and the memory sizes (mmsize.c, mmusage.c). Page tables live in the
  first two megabytes, which are mapped onto themselves, so one store of 64-bit entries serves the code, which
  writes them through virtual addresses, and the processor, which walks them by physical ones. The walk is
  described here as the processor manual does; the boot code is shown to build one
  address space, and the software walk of the kernel is compared with the processor.
\<close>

section \<open>Constants\<close>

text \<open>Physical addresses (x64gpa.h), virtual addresses (x64gva.h) and page flags (paging.h).\<close>

definition SYSTEM_ORIGIN :: u64 where "SYSTEM_ORIGIN = 0"
definition KERNEL_BASE_PA :: u64 where "KERNEL_BASE_PA = 0x00100000"
definition USER_BASE_PA :: u64 where "USER_BASE_PA = 0x02000000"
definition CGA_PA :: u64 where "CGA_PA = 0x000B8000"
definition HEAPPOOL_PA :: u64 where "HEAPPOOL_PA = 0x01000000"
definition EXTRAHEAP1_PA :: u64 where "EXTRAHEAP1_PA = 0x01000000 + 0x200000"
definition EXTRAHEAP2_PA :: u64 where "EXTRAHEAP2_PA = 0x01000000 + 0x400000"
definition EXTRAHEAP3_PA :: u64 where "EXTRAHEAP3_PA = 0x01000000 + 0x600000"
definition PAGEDPOOL1_PA :: u64 where "PAGEDPOOL1_PA = 0x01000000 + 0x800000"
definition FRAMETABLE_START_PA :: u64 where "FRAMETABLE_START_PA = 0x08000000"
definition FRAMETABLE_END_PA :: u64 where "FRAMETABLE_END_PA = 0x10000000 - 0x800000"
definition FAT_ADDRESS :: u64 where "FAT_ADDRESS = 0x00030000"
definition TABLE_POINTER_HEAP_BASE :: u64 where "TABLE_POINTER_HEAP_BASE = 0x1000"
definition KERNEL_PD_PA :: u64 where "KERNEL_PD_PA = 0x9A000"
definition KERNEL_PDPT_PA :: u64 where "KERNEL_PDPT_PA = 0x9B000"
definition KERNEL_PML4_PA :: u64 where "KERNEL_PML4_PA = 0x9C000"

definition KERNEL_PML4_VA :: u64 where "KERNEL_PML4_VA = 0x9C000"
definition RING0AREA_VA :: u64 where "RING0AREA_VA = 0"
definition RING3AREA_VA :: u64 where "RING3AREA_VA = 0x200000"
definition NEW_BACKBUFFER_VA :: u64 where "NEW_BACKBUFFER_VA = 0x20000000"
definition KERNELIMAGE_VA :: u64 where "KERNELIMAGE_VA = 0x30000000"
definition FRONTBUFFER_VA :: u64 where "FRONTBUFFER_VA = 0x30200000"
definition PAGEDPOOL_VA :: u64 where "PAGEDPOOL_VA = 0x30600000"
definition HEAPPOOL_VA :: u64 where "HEAPPOOL_VA = 0x30800000"
definition EXTRAHEAP1_VA :: u64 where "EXTRAHEAP1_VA = 0x30A00000"
definition EXTRAHEAP2_VA :: u64 where "EXTRAHEAP2_VA = 0x30C00000"
definition EXTRAHEAP3_VA :: u64 where "EXTRAHEAP3_VA = 0x30E00000"

definition PAGE_PRESENT :: u64 where "PAGE_PRESENT = 1"
definition PAGE_WRITE :: u64 where "PAGE_WRITE = 2"
definition PAGE_USER :: u64 where "PAGE_USER = 4"

definition FT_NUMBER_OF_SYSTEM_FRAMES :: u64 where "FT_NUMBER_OF_SYSTEM_FRAMES = 512"
definition FT_NUMBER_OF_USER_FRAMES :: u64 where "FT_NUMBER_OF_USER_FRAMES = 512"
definition FT_TOTAL_FRAMES :: u64 where "FT_TOTAL_FRAMES = FT_NUMBER_OF_SYSTEM_FRAMES + FT_NUMBER_OF_USER_FRAMES"
definition G_DEFAULT_PROCESSHEAP_SIZE :: u64 where "G_DEFAULT_PROCESSHEAP_SIZE = 32 * 1024"
definition G_DEFAULT_PROCESSHEAP_COUNTMAX :: int where "G_DEFAULT_PROCESSHEAP_COUNTMAX = 64"
definition SMALLSYSTEM_SIZE_KB :: u64 where "SMALLSYSTEM_SIZE_KB = (256 - 1) * 1024"
definition MEDIUMSYSTEM_SIZE_KB :: u64 where "MEDIUMSYSTEM_SIZE_KB = (512 - 1) * 1024"
definition LARGESYSTEM_SIZE_KB :: u64 where "LARGESYSTEM_SIZE_KB = (1024 - 1) * 1024"

lemmas page_table_consts = KERNEL_PD_PA_def KERNEL_PDPT_PA_def KERNEL_PML4_PA_def KERNEL_PML4_VA_def
  FAT_ADDRESS_def TABLE_POINTER_HEAP_BASE_def PAGE_PRESENT_def PAGE_WRITE_def PAGE_USER_def
lemmas region_va_consts = RING0AREA_VA_def RING3AREA_VA_def NEW_BACKBUFFER_VA_def KERNELIMAGE_VA_def FRONTBUFFER_VA_def
  PAGEDPOOL_VA_def HEAPPOOL_VA_def EXTRAHEAP1_VA_def EXTRAHEAP2_VA_def EXTRAHEAP3_VA_def
lemmas region_pa_consts = SYSTEM_ORIGIN_def KERNEL_BASE_PA_def USER_BASE_PA_def HEAPPOOL_PA_def EXTRAHEAP1_PA_def
  EXTRAHEAP2_PA_def EXTRAHEAP3_PA_def PAGEDPOOL1_PA_def

section \<open>State\<close>

datatype mm_component_physical_d =
    MM_COMPONENT_SYSTEM_ORIGIN_PA | MM_COMPONENT_KERNEL_BASE_PA | MM_COMPONENT_USER_BASE_PA
  | MM_COMPONENT_FRONTBUFFER_PA | MM_COMPONENT_BACKBUFFER_PA | MM_COMPONENT_HEAPPOOL_PA
  | MM_COMPONENT_EXTRAHEAP1_PA | MM_COMPONENT_EXTRAHEAP2_PA | MM_COMPONENT_EXTRAHEAP3_PA | MM_COMPONENT_PAGEDPOOL_PA

datatype mm_component_virtual_d =
    MM_COMPONENT_SYSTEM_ORIGIN_VA | MM_COMPONENT_KERNEL_BASE_VA | MM_COMPONENT_USER_BASE_VA
  | MM_COMPONENT_FRONTBUFFER_VA | MM_COMPONENT_BACKBUFFER_VA | MM_COMPONENT_PAGEDPOOL_VA | MM_COMPONENT_HEAPPOOL_VA
  | MM_COMPONENT_EXTRAHEAP1_VA | MM_COMPONENT_EXTRAHEAP2_VA | MM_COMPONENT_EXTRAHEAP3_VA
  | MM_COMPONENT_USERPROCESS_BASE_VA | MM_COMPONENT_USERPROCESS_ENTRYPOINT_VA | MM_COMPONENT_USERPROCESS_STACK_VA

datatype system_type_t = stNull | stSmallSystem | stMediumSystem | stLargeSystem

record mm_data_d =
  md_used :: bool
  md_magic :: int
  md_pml4_va :: u64
  md_pml4_pa :: u64
  md_pdpt0_va :: u64
  md_pdpt0_pa :: u64
  md_pd0_va :: u64
  md_pd0_pa :: u64

text \<open>The static physical regions of one system size (the variables SMALL_, MEDIUM_, LARGE_ of paging.c).\<close>

record canonical_regions =
  r_origin_pa :: u64
  r_kernel_base_pa :: u64
  r_user_pa :: u64
  r_cga_pa :: u64
  r_frontbuffer_pa :: u64
  r_backbuffer_pa :: u64
  r_pagedpool_pa :: u64
  r_heappool_pa :: u64
  r_extraheap1_pa :: u64
  r_extraheap2_pa :: u64
  r_extraheap3_pa :: u64

record mm_usage =
  mm_used_ring0_area :: u64
  mm_used_ring3_area :: u64
  mm_used_kernelimage :: u64
  mm_used_backbuffer :: u64
  mm_used_pagedpool :: u64
  mm_used_heappool :: u64
  mm_used_extraheap1 :: u64
  mm_used_extraheap2 :: u64
  mm_used_extraheap3 :: u64
  mm_used_frame_table :: u64
  mm_used_lfb :: u64
  mm_used_module0 :: u64

record memory_size_info_d =
  ms_initialized :: bool
  BaseMemoryViaCMOS :: u64
  BaseMemory :: u64
  OtherMemory :: u64
  ExtendedMemory :: u64
  MemoryTotal :: u64
  MemoryUsed :: u64
  MemoryFree :: u64
  InstalledPhysicalMemory :: u64
  TotalPhysicalMemory :: u64
  AvailablePhysicalMemory :: u64

record frame_table_d =
  ft_used :: bool
  ft_magic :: int
  ft_initialized :: bool
  ft_start_pa :: u64
  ft_end_pa :: u64
  ft_size_in_bytes :: u64
  ft_size_in_kb :: u64
  ft_size_in_mb :: u64
  ft_size_in_frames :: u64
  ft_number_of_system_frames :: u64
  ft_number_of_user_frames :: u64
  ft_number_of_used_frames :: u64
  ft_number_of_reserved_frames :: u64

record newpagedpool_d =
  np_initialized :: bool
  np_a1_va :: u64
  np_a2_va :: u64
  np_b1_va :: u64
  np_b2_va :: u64
  np_Free :: "nat \<Rightarrow> bool"

record shmm_user_heap_d =
  sh_initialized :: bool
  sh_next_address :: u64

record mm_state =
  qmem :: "addr \<Rightarrow> u64"
  mm_cr3 :: u64
  table_pointer_heap_base :: u64
  gKernelPML4Address :: u64
  kernel_mm_data :: mm_data_d
  SMALL :: canonical_regions
  MEDIUM :: canonical_regions
  LARGE :: canonical_regions
  paList :: "mm_component_physical_d \<Rightarrow> u64"
  vaList :: "mm_component_virtual_d \<Rightarrow> u64"
  g_ring0area_va :: u64
  g_ring3area_va :: u64
  g_kernelimage_va :: u64
  g_frontbuffer_pa :: u64
  g_frontbuffer_va :: u64
  g_backbuffer_pa :: u64
  g_backbuffer_va :: u64
  g_pagedpool_va :: u64
  g_heappool_va :: u64
  g_heap_count :: int
  g_heap_count_max :: int
  g_heap_size :: u64
  g_extraheap1_va :: u64
  g_extraheap1_size :: u64
  g_extraheap1_initialized :: bool
  g_extraheap2_va :: u64
  g_extraheap2_size :: u64
  g_extraheap2_initialized :: bool
  g_extraheap3_va :: u64
  g_extraheap3_size :: u64
  g_extraheap3_initialized :: bool
  display_backbuffer_pa :: u64
  display_backbuffer_va :: u64
  gSavedLFB :: u64
  blSavedLastValidAddress :: u64
  mm_used :: mm_usage
  MemorySizeInfo :: memory_size_info_d
  g_mm_system_type :: system_type_t
  FT :: frame_table_d
  NewPagedPool :: newpagedpool_d
  shmm_user_heap :: shmm_user_heap_d

section \<open>Tables\<close>

text \<open>The address of entry \<open>i\<close> of the table at \<open>base\<close>; an entry has eight bytes.\<close>

definition entry :: "addr \<Rightarrow> nat \<Rightarrow> addr" where
  "entry base i = base + 8 * of_nat i"

definition read_entry :: "addr \<Rightarrow> nat \<Rightarrow> mm_state \<Rightarrow> u64" where
  "read_entry base i s = qmem s (entry base i)"

definition write_entry :: "addr \<Rightarrow> nat \<Rightarrow> u64 \<Rightarrow> mm_state \<Rightarrow> mm_state" where
  "write_entry base i v s = s\<lparr>qmem := (qmem s)(entry base i := v)\<rparr>"

definition X64_GET_PDE_INDEX :: "u64 \<Rightarrow> int" where
  "X64_GET_PDE_INDEX va = uint (drop_bit (12 + 9) (ucast va :: u32) AND 0x1FF)"

definition X64_GET_PDPE_INDEX :: "u64 \<Rightarrow> int" where
  "X64_GET_PDPE_INDEX va = uint (drop_bit (12 + 9 + 9) (ucast va :: u32) AND 0x1FF)"

definition mm_is_page_aligned_va :: "u64 \<Rightarrow> bool" where
  "mm_is_page_aligned_va va \<longleftrightarrow> va AND 0xFFF = 0"

text \<open>The loop of \<^verbatim>\<open>mm_fill_page_table\<close> over the entries still to write.\<close>

fun fill_table :: "addr \<Rightarrow> u64 \<Rightarrow> u64 \<Rightarrow> nat list \<Rightarrow> mm_state \<Rightarrow> mm_state" where
  "fill_table pt pa flags [] s = s"
| "fill_table pt pa flags (i # is) s = fill_table pt (pa + 4096) flags is (write_entry pt i (pa OR flags) s)"

definition mm_fill_page_table :: "u64 \<Rightarrow> int \<Rightarrow> u64 \<Rightarrow> u64 \<Rightarrow> u64 \<Rightarrow> mm_state \<Rightarrow> int \<times> mm_state" where
  "mm_fill_page_table directory_va directory_entry pt_va region_2mb_pa flags s =
    (if directory_entry < 0 \<or> 512 \<le> directory_entry then (-1, s)
     else let e = nat directory_entry;
              s1 = fill_table pt_va region_2mb_pa flags [0..<512] s;
              s2 = write_entry directory_va e pt_va s1
          in (0, write_entry directory_va e (read_entry directory_va e s2 OR flags) s2))"

text \<open>
  The software walk. It follows the entries whether they are present or not, refuses addresses above the first
  gigabyte by an endless loop, and takes a directory entry for the address of a page table even when it maps
  a large page.
\<close>

definition virtual_to_physical :: "u64 \<Rightarrow> u64 \<Rightarrow> mm_state \<Rightarrow> u64 outcome" where
  "virtual_to_physical virtual_address pml4_va s =
    (let a = drop_bit 39 virtual_address AND 0x1FF; b = drop_bit 30 virtual_address AND 0x1FF;
         d = drop_bit 21 virtual_address AND 0x1FF; t = drop_bit 12 virtual_address AND 0x1FF;
         k = virtual_address AND 0xFFF in
     if 512 \<le> a \<or> 512 \<le> b \<or> 512 \<le> d \<or> 512 \<le> t \<or> 4096 \<le> k then Inl (Die ''__virtual_to_physical: entry limits'')
     else if a \<noteq> 0 then Inl (Die ''__virtual_to_physical: [TODO] a != 0'')
     else if b \<noteq> 0 then Inl (Die ''__virtual_to_physical: [TODO] b != 0'')
     else if pml4_va = 0 then Inl (Panic ''__virtual_to_physical: [FAIL] Invalid pml4_va'')
     else let ptpt = read_entry pml4_va (unat a) s AND 0xFFFFFFFFF000;
              dir = read_entry ptpt (unat b) s AND 0xFFFFFFFFF000;
              pt = read_entry dir (unat d) s AND 0xFFFFFFFFF000;
              address = read_entry pt (unat t) s AND 0xFFFFFFFFF000
          in Inr (address + k))"

definition get_table_pointer_va :: "mm_state \<Rightarrow> (u64 \<times> mm_state) outcome" where
  "get_table_pointer_va s =
    (let s1 = s\<lparr>table_pointer_heap_base := table_pointer_heap_base s + 0x1000\<rparr> in
     if FAT_ADDRESS \<le> table_pointer_heap_base s1 then Inl (Panic ''get_table_pointer_va: [FIXME] Limits'')
     else Inr (table_pointer_heap_base s1, s1))"

definition get_new_frame :: "mm_state \<Rightarrow> u64 outcome" where
  "get_new_frame s = Inl (Panic ''get_new_frame: [FIXME] This is a work in progress'')"

definition alloc_frame :: "mm_state \<Rightarrow> u64 outcome" where
  "alloc_frame s = Inl (Panic ''alloc_frame: [FIXME] This is a work in progress'')"

section \<open>Cloning tables\<close>

fun copy_table :: "addr \<Rightarrow> addr \<Rightarrow> nat list \<Rightarrow> mm_state \<Rightarrow> mm_state" where
  "copy_table src dst [] s = s"
| "copy_table src dst (i # is) s = copy_table src dst is (write_entry dst i (read_entry src i s) s)"

definition clone_table :: "string \<Rightarrow> u64 \<Rightarrow> mm_state \<Rightarrow> (u64 \<times> mm_state) outcome" where
  "clone_table msg src s =
    and_then (get_table_pointer_va s) (\<lambda>(destAddressVA, s1).
      if destAddressVA = 0 then Inl (Panic msg)
      else Inr (destAddressVA, copy_table src destAddressVA [0..<512] s1))"

definition CloneKernelPD0 :: "mm_state \<Rightarrow> (u64 \<times> mm_state) outcome" where
  "CloneKernelPD0 s = clone_table ''CloneKernelPD0: destAddressVA'' (md_pd0_va (kernel_mm_data s)) s"

definition CloneKernelPDPT0 :: "mm_state \<Rightarrow> (u64 \<times> mm_state) outcome" where
  "CloneKernelPDPT0 s = clone_table ''CloneKernelPDPT0: destAddressVA'' (md_pdpt0_va (kernel_mm_data s)) s"

definition CloneKernelPML4 :: "mm_state \<Rightarrow> (u64 \<times> mm_state) outcome" where
  "CloneKernelPML4 s = clone_table ''CloneKernelPML4: destAddressVA'' (gKernelPML4Address s) s"

definition clone_pml4 :: "u64 \<Rightarrow> mm_state \<Rightarrow> (u64 \<times> mm_state) outcome" where
  "clone_pml4 pml4_va s =
    (if pml4_va = 0 then Inl (Panic ''clone_pml4: pml4_va'')
     else clone_table ''clone_pml4: destAddressVA'' pml4_va s)"

section \<open>Mapping\<close>

definition mm_map_2mb_region_in_pd0_imp :: "u64 \<Rightarrow> u64 \<Rightarrow> u64 \<Rightarrow> mm_state \<Rightarrow> (int \<times> mm_state) outcome" where
  "mm_map_2mb_region_in_pd0_imp pa va flags s =
    and_then (get_table_pointer_va s) (\<lambda>(pt, s1).
      if pt = NULL then Inr (-1, s1)
      else let pdindex = X64_GET_PDE_INDEX va in
        if pdindex < 0 \<or> 512 \<le> pdindex then Inr (-1, s1)
        else Inr (0, snd (mm_fill_page_table KERNEL_PD_PA pdindex pt pa flags s1)))"

definition mm_map_2mb_region_in_pd0 :: "u64 \<Rightarrow> u64 \<Rightarrow> mm_state \<Rightarrow> (int \<times> mm_state) outcome" where
  "mm_map_2mb_region_in_pd0 pa va s = mm_map_2mb_region_in_pd0_imp pa va 0x1B s"

text \<open>The four calls that install one large page; they differ in the level and in the user bit.\<close>

definition map_va_2mb :: "u64 \<Rightarrow> u64 \<Rightarrow> u64 \<Rightarrow> mm_state \<Rightarrow> mm_state" where
  "map_va_2mb bits va phys_addr s =
    (let pd = KERNEL_PD_PA; pd_index = X64_GET_PDE_INDEX va in
     if pd = 0 then s else if pd_index < 0 \<or> 512 \<le> pd_index then s
     else if phys_addr AND 0x1FFFFF \<noteq> 0 then s
     else write_entry pd (nat pd_index) (phys_addr OR push_bit 7 1 OR bits) s)"

definition map_va_1gb :: "u64 \<Rightarrow> u64 \<Rightarrow> u64 \<Rightarrow> mm_state \<Rightarrow> mm_state" where
  "map_va_1gb bits va phys_addr s =
    (let pdpt = KERNEL_PDPT_PA; pdpt_index = X64_GET_PDPE_INDEX va in
     if pdpt = 0 then s else if pdpt_index < 0 \<or> 512 \<le> pdpt_index then s
     else if phys_addr AND 0x3FFFFFFF \<noteq> 0 then s
     else write_entry pdpt (nat pdpt_index) (phys_addr OR push_bit 7 1 OR bits) s)"

definition map_kernel_va_2mb :: "u64 \<Rightarrow> u64 \<Rightarrow> mm_state \<Rightarrow> mm_state" where
  "map_kernel_va_2mb = map_va_2mb 0x3"

definition map_user_va_2mb :: "u64 \<Rightarrow> u64 \<Rightarrow> mm_state \<Rightarrow> mm_state" where
  "map_user_va_2mb = map_va_2mb 0x7"

definition map_kernel_va_1gb :: "u64 \<Rightarrow> u64 \<Rightarrow> mm_state \<Rightarrow> mm_state" where
  "map_kernel_va_1gb = map_va_1gb 0x3"

definition map_user_va_1gb :: "u64 \<Rightarrow> u64 \<Rightarrow> mm_state \<Rightarrow> mm_state" where
  "map_user_va_1gb = map_va_1gb 0x7"

section \<open>The shared user heap and the slabs\<close>

definition shmm_user_heap_initialize :: "u64 \<Rightarrow> mm_state \<Rightarrow> mm_state" where
  "shmm_user_heap_initialize base_address s = s\<lparr>shmm_user_heap := \<lparr>sh_initialized = True, sh_next_address = base_address\<rparr>\<rparr>"

definition get_2mb_user_heap_page :: "mm_state \<Rightarrow> u64 \<times> mm_state" where
  "get_2mb_user_heap_page s =
    (if \<not> sh_initialized (shmm_user_heap s) then (NULL, s)
     else let va = sh_next_address (shmm_user_heap s) in
       (va, s\<lparr>shmm_user_heap := (shmm_user_heap s)\<lparr>sh_next_address := va + 0x200000\<rparr>\<rparr>))"

definition slab_initialize :: "mm_state \<Rightarrow> mm_state outcome" where
  "slab_initialize s =
    (if g_extraheap2_va s = 0 \<or> g_extraheap3_va s = 0 then Inl (Panic ''slab_initialize: address'')
     else Inr (s\<lparr>NewPagedPool :=
       \<lparr>np_initialized = True, np_a1_va = g_extraheap2_va s, np_a2_va = g_extraheap2_va s + 1024 * 1024,
        np_b1_va = g_extraheap3_va s, np_b2_va = g_extraheap3_va s + 1024 * 1024,
        np_Free = (np_Free (NewPagedPool s))(0 := True, 1 := True, 2 := True, 3 := True)\<rparr>\<rparr>))"

section \<open>Memory sizes\<close>

definition mmsize_get_total_memory :: "mm_state \<Rightarrow> u64" where
  "mmsize_get_total_memory s = MemoryTotal (MemorySizeInfo s)"

definition mmsize_get_used_memory :: "mm_state \<Rightarrow> u64" where
  "mmsize_get_used_memory s = MemoryUsed (MemorySizeInfo s)"

definition mmsize_get_free_memory :: "mm_state \<Rightarrow> u64" where
  "mmsize_get_free_memory s = MemoryFree (MemorySizeInfo s)"

definition system_type_of :: "u64 \<Rightarrow> system_type_t" where
  "system_type_of tot = (if tot = 0 then stNull else if LARGESYSTEM_SIZE_KB \<le> tot then stLargeSystem
     else if MEDIUMSYSTEM_SIZE_KB \<le> tot then stMediumSystem
     else if SMALLSYSTEM_SIZE_KB \<le> tot then stSmallSystem else stNull)"

text \<open>The base memory that the CMOS reports is an argument.\<close>

definition mmsize_initialize :: "u64 \<Rightarrow> mm_state \<Rightarrow> bool \<times> mm_state" where
  "mmsize_initialize rtcBaseMemory s =
    (let total_memory_in_kb = blSavedLastValidAddress s div 0x400;
         base = rtcBaseMemory; other = 1024 - base; ext = total_memory_in_kb - base - other;
         tot = base + other + ext;
         info = \<lparr>ms_initialized = False, BaseMemoryViaCMOS = rtcBaseMemory, BaseMemory = base, OtherMemory = other,
                 ExtendedMemory = ext, MemoryTotal = tot, MemoryUsed = 0, MemoryFree = 0,
                 InstalledPhysicalMemory = 0, TotalPhysicalMemory = 0, AvailablePhysicalMemory = 0\<rparr>;
         s1 = s\<lparr>MemorySizeInfo := info, g_mm_system_type := system_type_of tot\<rparr>
     in if tot = 0 then (False, s1)
        else (True, s1\<lparr>MemorySizeInfo := info\<lparr>ms_initialized := True\<rparr>\<rparr>))"

definition initialize_ram_usage_variables :: "mm_state \<Rightarrow> mm_state" where
  "initialize_ram_usage_variables s =
    s\<lparr>MemorySizeInfo := (MemorySizeInfo s)\<lparr>MemoryUsed := 0, MemoryFree := 0\<rparr>,
      mm_used := (mm_used s)\<lparr>mm_used_ring0_area := 0, mm_used_ring3_area := 0, mm_used_kernelimage := 0,
        mm_used_backbuffer := 0, mm_used_pagedpool := 0, mm_used_heappool := 0, mm_used_extraheap1 := 0,
        mm_used_extraheap2 := 0, mm_used_extraheap3 := 0, mm_used_frame_table := 0, mm_used_module0 := 0\<rparr>\<rparr>"

definition mmSetupMemoryUsage :: "mm_state \<Rightarrow> mm_state" where
  "mmSetupMemoryUsage s =
    (let u = mm_used s;
         used = mm_used_ring0_area u + mm_used_ring3_area u + mm_used_kernelimage u + mm_used_backbuffer u +
           mm_used_pagedpool u + mm_used_heappool u + mm_used_extraheap1 u + mm_used_extraheap2 u +
           mm_used_extraheap3 u + mm_used_frame_table u + mm_used_module0 u
     in s\<lparr>MemorySizeInfo := (MemorySizeInfo s)\<lparr>MemoryUsed := used, MemoryFree := MemoryTotal (MemorySizeInfo s) - used\<rparr>\<rparr>)"

text \<open>
  The frame table gets the same end for every size from 250 MB on; the three tests for 1 GB, 512 MB and 256 MB of the
  source set the same value. What follows the label checks the bounds and counts the frames.
\<close>

definition frame_table_sizes :: "frame_table_d \<Rightarrow> frame_table_d" where
  "frame_table_sizes f =
    (let b = ft_end_pa f - ft_start_pa f in
     f\<lparr>ft_size_in_bytes := b, ft_size_in_kb := b div 1024, ft_size_in_mb := b div 1024 div 1024,
       ft_size_in_frames := b div 4096, ft_number_of_system_frames := FT_NUMBER_OF_SYSTEM_FRAMES,
       ft_number_of_user_frames := FT_NUMBER_OF_USER_FRAMES, ft_number_of_used_frames := FT_TOTAL_FRAMES\<rparr>)"

definition frame_table_finish :: "mm_state \<Rightarrow> (int \<times> mm_state) outcome" where
  "frame_table_finish s =
    (let f = FT s in
     if ft_end_pa f < ft_start_pa f then Inl (Panic ''I_initialize_frame_table: FT.end_pa < FT.start_pa'')
     else if ft_end_pa f = ft_start_pa f then Inl (Panic ''I_initialize_frame_table: No table'')
     else if FRAMETABLE_END_PA < ft_end_pa f then Inl (Panic ''I_initialize_frame_table: FT.end_pa > FRAMETABLE_END_PA'')
     else let s1 = s\<lparr>mm_used := (mm_used s)\<lparr>mm_used_frame_table := (ft_end_pa f - ft_start_pa f) div 1024\<rparr>\<rparr> in
     if ft_start_pa f = 0 then Inl (Panic ''I_initialize_frame_table: FT.start_pa'')
     else if ft_end_pa f = 0 then Inl (Panic ''I_initialize_frame_table: FT.end_pa'')
     else let g = frame_table_sizes f in
     if ft_size_in_frames g \<le> ft_number_of_used_frames g then Inl (Panic ''I_initialize_frame_table: FT.size_in_frames'')
     else Inr (0, s1\<lparr>FT := g\<lparr>ft_number_of_reserved_frames := ft_size_in_frames g - ft_number_of_used_frames g,
                          ft_used := True, ft_magic := 1234, ft_initialized := True\<rparr>\<rparr>))"

definition I_initialize_frame_table :: "mm_state \<Rightarrow> (int \<times> mm_state) outcome" where
  "I_initialize_frame_table s =
    (if \<not> ms_initialized (MemorySizeInfo s) then Inl (Panic ''I_initialize_frame_table: MemorySizeInfo'')
     else let f = (FT s)\<lparr>ft_initialized := False, ft_used := False, ft_magic := 0,
                         ft_start_pa := FRAMETABLE_START_PA, ft_end_pa := FRAMETABLE_START_PA\<rparr>;
              whole = s\<lparr>FT := f\<lparr>ft_end_pa := FRAMETABLE_END_PA\<rparr>\<rparr>;
              tot = MemoryTotal (MemorySizeInfo s)
     in if 1024 * 1024 \<le> tot then frame_table_finish whole
        else if 512 * 1024 \<le> tot then frame_table_finish whole
        else if 256 * 1024 \<le> tot then frame_table_finish whole
        else if tot < 250 * 1024 then Inl (Panic ''I_initialize_frame_table: Less than 250MB'')
        else if tot \<le> FRAMETABLE_END_PA div 1024 then Inl (Panic ''I_initialize_frame_table:  Invalid FRAMETABLE_END_PA'')
        else frame_table_finish whole)"

definition mmGetFTStartPA :: "mm_state \<Rightarrow> u64" where "mmGetFTStartPA s = ft_start_pa (FT s)"
definition mmGetFTEndPA :: "mm_state \<Rightarrow> u64" where "mmGetFTEndPA s = ft_end_pa (FT s)"

section \<open>The regions of the kernel\<close>

definition canonical_of :: "u64 \<Rightarrow> canonical_regions" where
  "canonical_of lfb =
    \<lparr>r_origin_pa = SYSTEM_ORIGIN, r_kernel_base_pa = KERNEL_BASE_PA, r_user_pa = USER_BASE_PA, r_cga_pa = CGA_PA,
     r_frontbuffer_pa = lfb, r_backbuffer_pa = NEW_BACKBUFFER_VA, r_pagedpool_pa = PAGEDPOOL1_PA,
     r_heappool_pa = HEAPPOOL_PA, r_extraheap1_pa = EXTRAHEAP1_PA, r_extraheap2_pa = EXTRAHEAP2_PA,
     r_extraheap3_pa = EXTRAHEAP3_PA\<rparr>"

definition initialize_canonical_physical_regions :: "mm_state \<Rightarrow> mm_state" where
  "initialize_canonical_physical_regions s =
    s\<lparr>SMALL := canonical_of (gSavedLFB s), MEDIUM := canonical_of (gSavedLFB s), LARGE := canonical_of (gSavedLFB s)\<rparr>"

text \<open>Each initialiser takes a new page table, records the region, and fills the table.\<close>

definition install_region :: "u64 \<Rightarrow> u64 \<Rightarrow> u64 \<Rightarrow> addr \<Rightarrow> mm_state \<Rightarrow> mm_state outcome" where
  "install_region va pa flags pt s = Inr (snd (mm_fill_page_table KERNEL_PD_PA (X64_GET_PDE_INDEX va) pt pa flags s))"

definition initialize_ring0area :: "mm_state \<Rightarrow> mm_state outcome" where
  "initialize_ring0area s =
    and_then (get_table_pointer_va s) (\<lambda>(pt, s1).
      install_region RING0AREA_VA SYSTEM_ORIGIN (PAGE_WRITE OR PAGE_PRESENT) pt
        (s1\<lparr>paList := (paList s1)(MM_COMPONENT_SYSTEM_ORIGIN_PA := SYSTEM_ORIGIN),
            vaList := (vaList s1)(MM_COMPONENT_SYSTEM_ORIGIN_VA := RING0AREA_VA), g_ring0area_va := RING0AREA_VA,
            mm_used := (mm_used s1)\<lparr>mm_used_ring0_area := 1024 * 1\<rparr>\<rparr>))"

definition initialize_ring3area :: "mm_state \<Rightarrow> mm_state outcome" where
  "initialize_ring3area s =
    and_then (get_table_pointer_va s) (\<lambda>(pt, s1).
      install_region RING3AREA_VA USER_BASE_PA (PAGE_USER OR PAGE_WRITE OR PAGE_PRESENT) pt
        (s1\<lparr>paList := (paList s1)(MM_COMPONENT_USER_BASE_PA := USER_BASE_PA),
            vaList := (vaList s1)(MM_COMPONENT_USER_BASE_VA := RING3AREA_VA), g_ring3area_va := RING3AREA_VA,
            mm_used := (mm_used s1)\<lparr>mm_used_ring3_area := 1024 * 2\<rparr>\<rparr>))"

definition initialize_kernelimage_region :: "mm_state \<Rightarrow> mm_state outcome" where
  "initialize_kernelimage_region s =
    and_then (get_table_pointer_va s) (\<lambda>(pt, s1).
      install_region KERNELIMAGE_VA KERNEL_BASE_PA (PAGE_WRITE OR PAGE_PRESENT) pt
        (s1\<lparr>paList := (paList s1)(MM_COMPONENT_KERNEL_BASE_PA := KERNEL_BASE_PA),
            vaList := (vaList s1)(MM_COMPONENT_KERNEL_BASE_VA := KERNELIMAGE_VA), g_kernelimage_va := KERNELIMAGE_VA,
            mm_used := (mm_used s1)\<lparr>mm_used_kernelimage := 1024 * 2\<rparr>\<rparr>))"

definition initialize_new_frontbuffer :: "mm_state \<Rightarrow> mm_state outcome" where
  "initialize_new_frontbuffer s =
    and_then (mm_map_2mb_region_in_pd0_imp (r_frontbuffer_pa (SMALL s) + 0) (FRONTBUFFER_VA + 0) 0x1F s) (\<lambda>(_, s1).
    and_then (mm_map_2mb_region_in_pd0_imp (r_frontbuffer_pa (SMALL s1) + 0x200000) (FRONTBUFFER_VA + 0x200000) 0x1F s1)
      (\<lambda>(_, s2).
      Inr (s2\<lparr>paList := (paList s2)(MM_COMPONENT_FRONTBUFFER_PA := r_frontbuffer_pa (SMALL s2)),
              g_frontbuffer_pa := r_frontbuffer_pa (SMALL s2),
              vaList := (vaList s2)(MM_COMPONENT_FRONTBUFFER_VA := FRONTBUFFER_VA), g_frontbuffer_va := FRONTBUFFER_VA,
              mm_used := (mm_used s2)\<lparr>mm_used_lfb := 1024 * 2 * 2\<rparr>\<rparr>)))"

fun map_all_2mb :: "(u64 \<times> u64) list \<Rightarrow> u64 \<Rightarrow> mm_state \<Rightarrow> mm_state outcome" where
  "map_all_2mb [] flags s = Inr s"
| "map_all_2mb ((pa, va) # rs) flags s =
     and_then (mm_map_2mb_region_in_pd0_imp pa va flags s) (\<lambda>(_, s1). map_all_2mb rs flags s1)"

definition initialize_new_backbuffer :: "mm_state \<Rightarrow> mm_state outcome" where
  "initialize_new_backbuffer s =
    (let s0 = s\<lparr>display_backbuffer_pa := 0x20000000, display_backbuffer_va := 0x20000000\<rparr> in
     and_then (map_all_2mb [(0x20000000, 0x20000000), (0x20200000, 0x20200000), (0x20400000, 0x20400000),
         (0x20600000, 0x20600000), (0x20800000, 0x20800000)] 0x1F s0) (\<lambda>s1.
       let pa = display_backbuffer_pa s1; va = display_backbuffer_va s1 in
       Inr (s1\<lparr>paList := (paList s1)(MM_COMPONENT_BACKBUFFER_PA := pa), g_backbuffer_pa := pa,
               vaList := (vaList s1)(MM_COMPONENT_BACKBUFFER_VA := va), g_backbuffer_va := va,
               mm_used := (mm_used s1)\<lparr>mm_used_backbuffer := 1024 * 2 * 5\<rparr>\<rparr>)))"

definition initialize_pagedpool :: "mm_state \<Rightarrow> mm_state outcome" where
  "initialize_pagedpool s =
    and_then (get_table_pointer_va s) (\<lambda>(pt, s1).
      let pa = r_pagedpool_pa (SMALL s1) in
      install_region PAGEDPOOL_VA pa (PAGE_USER OR PAGE_WRITE OR PAGE_PRESENT) pt
        (s1\<lparr>paList := (paList s1)(MM_COMPONENT_PAGEDPOOL_PA := pa),
            vaList := (vaList s1)(MM_COMPONENT_PAGEDPOOL_VA := PAGEDPOOL_VA), g_pagedpool_va := PAGEDPOOL_VA,
            mm_used := (mm_used s1)\<lparr>mm_used_pagedpool := 1024 * 2\<rparr>\<rparr>))"

definition initialize_heappool :: "mm_state \<Rightarrow> mm_state outcome" where
  "initialize_heappool s =
    and_then (get_table_pointer_va s) (\<lambda>(pt, s1).
      let pa = r_heappool_pa (SMALL s1) in
      install_region HEAPPOOL_VA pa (PAGE_USER OR PAGE_WRITE OR PAGE_PRESENT) pt
        (s1\<lparr>paList := (paList s1)(MM_COMPONENT_HEAPPOOL_PA := pa),
            vaList := (vaList s1)(MM_COMPONENT_HEAPPOOL_VA := HEAPPOOL_VA), g_heappool_va := HEAPPOOL_VA,
            mm_used := (mm_used s1)\<lparr>mm_used_heappool := 1024 * 2\<rparr>, g_heap_count := 0,
            g_heap_count_max := G_DEFAULT_PROCESSHEAP_COUNTMAX, g_heap_size := G_DEFAULT_PROCESSHEAP_SIZE\<rparr>))"

definition initialize_extraheap1 :: "mm_state \<Rightarrow> mm_state outcome" where
  "initialize_extraheap1 s =
    and_then (get_table_pointer_va s) (\<lambda>(pt, s1).
      let pa = r_extraheap1_pa (SMALL s1) in
      and_then (install_region EXTRAHEAP1_VA pa (PAGE_WRITE OR PAGE_PRESENT) pt
        (s1\<lparr>paList := (paList s1)(MM_COMPONENT_EXTRAHEAP1_PA := pa),
            vaList := (vaList s1)(MM_COMPONENT_EXTRAHEAP1_VA := EXTRAHEAP1_VA), g_extraheap1_va := EXTRAHEAP1_VA,
            g_extraheap1_size := 1024 * 2, mm_used := (mm_used s1)\<lparr>mm_used_extraheap1 := 1024 * 2\<rparr>\<rparr>))
      (\<lambda>s2. Inr (s2\<lparr>g_extraheap1_initialized := True\<rparr>)))"

definition initialize_extraheap2 :: "mm_state \<Rightarrow> mm_state outcome" where
  "initialize_extraheap2 s =
    and_then (get_table_pointer_va s) (\<lambda>(pt, s1).
      let pa = r_extraheap2_pa (SMALL s1) in
      and_then (install_region EXTRAHEAP2_VA pa (PAGE_USER OR PAGE_WRITE OR PAGE_PRESENT) pt
        (s1\<lparr>paList := (paList s1)(MM_COMPONENT_EXTRAHEAP2_PA := pa),
            vaList := (vaList s1)(MM_COMPONENT_EXTRAHEAP2_VA := EXTRAHEAP2_VA), g_extraheap2_va := EXTRAHEAP2_VA,
            mm_used := (mm_used s1)\<lparr>mm_used_extraheap2 := 1024 * 2\<rparr>, g_extraheap2_size := 1024 * 2\<rparr>))
      (\<lambda>s2. Inr (s2\<lparr>g_extraheap2_initialized := True\<rparr>)))"

definition initialize_extraheap3 :: "mm_state \<Rightarrow> mm_state outcome" where
  "initialize_extraheap3 s =
    and_then (get_table_pointer_va s) (\<lambda>(pt, s1).
      let pa = r_extraheap3_pa (SMALL s1) in
      and_then (install_region EXTRAHEAP3_VA pa (PAGE_USER OR PAGE_WRITE OR PAGE_PRESENT) pt
        (s1\<lparr>paList := (paList s1)(MM_COMPONENT_EXTRAHEAP3_PA := pa),
            vaList := (vaList s1)(MM_COMPONENT_EXTRAHEAP3_VA := EXTRAHEAP3_VA), g_extraheap3_va := EXTRAHEAP3_VA,
            mm_used := (mm_used s1)\<lparr>mm_used_extraheap3 := 1024 * 2\<rparr>, g_extraheap3_size := 1024 * 2\<rparr>))
      (\<lambda>s2. Inr (s2\<lparr>g_extraheap3_initialized := True\<rparr>)))"

section \<open>Paging\<close>

definition map_canvas_slots :: "nat list \<Rightarrow> mm_state \<Rightarrow> mm_state" where
  "map_canvas_slots slots = fold (\<lambda>CanvasSlot. map_user_va_2mb (0x00400000 + 0x200000 * of_nat CanvasSlot)
     (0x00400000 + 0x200000 * of_nat CanvasSlot)) slots"

definition map_module_regions :: "mm_state \<Rightarrow> mm_state" where
  "map_module_regions s =
    (let s1 = fold (\<lambda>a. map_kernel_va_2mb a a) [0x10000000, 0x10200000, 0x10400000, 0x10600000, 0x10800000] s
     in s1\<lparr>mm_used := (mm_used s1)\<lparr>mm_used_module0 := 1024 * 2 * 5\<rparr>\<rparr>)"

text \<open>The configuration options CONFIG_TEST_MMBLOCK00 and CONFIG_USE_NEW_FRONTBUFFER are 1, CONFIG_USE_SHBUFFER_FOR_CANVAS is 0.\<close>

definition initialize_canonical_kernel_pagetables :: "mm_state \<Rightarrow> mm_state outcome" where
  "initialize_canonical_kernel_pagetables s =
    and_then (initialize_ring0area s) (\<lambda>s.
    and_then (initialize_ring3area s) (\<lambda>s.
    let s = map_canvas_slots [0..<100] s;
        s = shmm_user_heap_initialize 0x00400000 s;
        s = map_module_regions s in
    and_then (initialize_new_backbuffer s) (\<lambda>s.
    and_then (initialize_kernelimage_region s) (\<lambda>s.
    and_then (initialize_new_frontbuffer s) (\<lambda>s.
    and_then (initialize_pagedpool s) (\<lambda>s.
    and_then (initialize_heappool s) (\<lambda>s.
    and_then (initialize_extraheap1 s) (\<lambda>s.
    and_then (initialize_extraheap2 s) (\<lambda>s.
    and_then (initialize_extraheap3 s) (\<lambda>s.
    slab_initialize s))))))))))"

definition clear_table :: "addr \<Rightarrow> mm_state \<Rightarrow> mm_state" where
  "clear_table base = fold (\<lambda>i. write_entry base i (0 OR PAGE_WRITE)) [0..<512]"

definition link_kernel_tables :: "mm_state \<Rightarrow> mm_state" where
  "link_kernel_tables s =
    (let s = write_entry KERNEL_PDPT_PA 0 KERNEL_PD_PA s;
         s = write_entry KERNEL_PDPT_PA 0 (read_entry KERNEL_PDPT_PA 0 s OR PAGE_USER OR PAGE_WRITE OR PAGE_PRESENT) s;
         s = write_entry KERNEL_PML4_PA 0 KERNEL_PDPT_PA s
     in write_entry KERNEL_PML4_PA 0 (read_entry KERNEL_PML4_PA 0 s OR PAGE_USER OR PAGE_WRITE OR PAGE_PRESENT) s)"

definition pagesInitializePaging :: "mm_state \<Rightarrow> (int \<times> mm_state) outcome" where
  "pagesInitializePaging s =
    (let s = initialize_ram_usage_variables s;
         s = initialize_canonical_physical_regions s;
         d = \<lparr>md_used = True, md_magic = 1234, md_pml4_va = KERNEL_PML4_PA, md_pml4_pa = KERNEL_PML4_PA,
              md_pdpt0_va = KERNEL_PDPT_PA, md_pdpt0_pa = KERNEL_PDPT_PA,
              md_pd0_va = KERNEL_PD_PA, md_pd0_pa = KERNEL_PD_PA\<rparr>;
         s = s\<lparr>gKernelPML4Address := KERNEL_PML4_VA, kernel_mm_data := d\<rparr> in
     if md_pml4_va d = 0 \<or> md_pml4_pa d = 0 \<or> md_pdpt0_va d = 0 \<or> md_pdpt0_pa d = 0 \<or> md_pd0_va d = 0 \<or> md_pd0_pa d = 0
     then Inl (Panic ''pagesInitializePaging: Invalid kernel_mm_data'')
     else
       let s = clear_table KERNEL_PD_PA (clear_table KERNEL_PDPT_PA (clear_table KERNEL_PML4_PA s));
           s = link_kernel_tables s in
       and_then (initialize_canonical_kernel_pagetables s) (\<lambda>s.
       and_then (I_initialize_frame_table s) (\<lambda>(_, s).
       let s = mmSetupMemoryUsage s in
       Inr (0, s\<lparr>mm_cr3 := md_pml4_pa (kernel_mm_data s)\<rparr>))))"

end
