(* ===== verification/Address_Space.thy ===== *)
theory Address_Space
  imports Paging Kernel_Heap
begin

text \<open>
  The address space the boot code builds. The page walk of the processor is the specification: the tables left by
  \<^verbatim>\<open>pagesInitializePaging\<close> are shown to translate every address of the first gigabyte the way a short table of
  regions says, and no other address. The software walk agrees with it on the regions with
  small pages and is wrong on large pages. A cloned top-level table gives the same address space.
\<close>

section \<open>The processor\<close>

text \<open>
  The four-level walk of the x86-64 manual for 4 KB, 2 MB and 1 GB pages: bit 0 present, bit 1 writable, bit 2
  user, bit 7 large page; permissions hold when they hold on every level. The result is the
  physical address, user access and write access.
\<close>

abbreviation level_index :: "nat \<Rightarrow> u64 \<Rightarrow> nat" where
  "level_index k va \<equiv> unat (drop_bit k va AND 0x1FF)"

definition hw_walk :: "(addr \<Rightarrow> u64) \<Rightarrow> u64 \<Rightarrow> u64 \<Rightarrow> (u64 \<times> bool \<times> bool) option" where
  "hw_walk q root va =
    (let e4 = q (entry (root AND 0xFFFFFFFFFF000) (level_index 39 va)) in
     if \<not> bit e4 0 then None
     else let e3 = q (entry (e4 AND 0xFFFFFFFFFF000) (level_index 30 va)) in
     if \<not> bit e3 0 then None
     else if bit e3 7
     then Some ((e3 AND 0xFFFFFC0000000) + (va AND 0x3FFFFFFF), bit e4 2 \<and> bit e3 2, bit e4 1 \<and> bit e3 1)
     else let e2 = q (entry (e3 AND 0xFFFFFFFFFF000) (level_index 21 va)) in
     if \<not> bit e2 0 then None
     else if bit e2 7
     then Some ((e2 AND 0xFFFFFFFE00000) + (va AND 0x1FFFFF),
       bit e4 2 \<and> bit e3 2 \<and> bit e2 2, bit e4 1 \<and> bit e3 1 \<and> bit e2 1)
     else let e1 = q (entry (e2 AND 0xFFFFFFFFFF000) (level_index 12 va)) in
     if \<not> bit e1 0 then None
     else Some ((e1 AND 0xFFFFFFFFFF000) + (va AND 0xFFF),
       bit e4 2 \<and> bit e3 2 \<and> bit e2 2 \<and> bit e1 2, bit e4 1 \<and> bit e3 1 \<and> bit e2 1 \<and> bit e1 1))"

section \<open>Entries of tables\<close>

abbreviation page_of :: "addr \<Rightarrow> nat" where "page_of a \<equiv> unat a div 4096"
abbreviation page_aligned :: "addr \<Rightarrow> bool" where "page_aligned a \<equiv> unat a mod 4096 = 0"

lemma page_alignedE:
  assumes "page_aligned b"
  obtains k where "unat b = 4096 * k" "k < 2 ^ 52" "page_of b = k"
proof -
  from assms have "4096 dvd unat b" by (simp only: mod_eq_0_iff_dvd)
  then obtain k where k: "unat b = 4096 * k" by (rule dvdE)
  moreover have "unat b < 2 ^ 64" using unsigned_less [of b] by simp
  ultimately have "k < 2 ^ 52" by simp
  with k show ?thesis by (intro that) simp_all
qed

lemma entry_unat:
  assumes "page_aligned b" "i < 512"
  shows "unat (entry b i) = unat b + 8 * i"
proof -
  obtain k where k: "unat b = 4096 * k" "k < 2 ^ 52" using assms(1) by (rule page_alignedE)
  have "unat (8 * of_nat i :: u64) = 8 * i" using assms(2) by (simp add: unat_word_ariths unat_of_nat)
  then show ?thesis using k assms(2) unfolding entry_def by (subst unat_plus_exact) simp_all
qed

lemma entry_page:
  assumes "page_aligned b" "i < 512"
  shows "page_of (entry b i) = page_of b"
proof -
  obtain k where k: "unat b = 4096 * k" using assms(1) by (rule page_alignedE)
  have "8 * i div 4096 = 0" using assms(2) by simp
  with k show ?thesis by (simp only: entry_unat [OF assms]) simp
qed

lemma entry_eq_iff:
  assumes "page_aligned b" "page_aligned c" "i < 512" "j < 512"
  shows "entry b i = entry c j \<longleftrightarrow> b = c \<and> i = j"
proof
  assume e: "entry b i = entry c j"
  have "page_of b = page_of c" by (simp only: entry_page [OF assms(1,3), symmetric] entry_page [OF assms(2,4), symmetric] e)
  moreover obtain k where "unat b = 4096 * k" "page_of b = k" using assms(1) by (rule page_alignedE)
  moreover obtain l where "unat c = 4096 * l" "page_of c = l" using assms(2) by (rule page_alignedE)
  ultimately have u: "unat b = unat c" by simp
  have "unat b + 8 * i = unat c + 8 * j"
    by (simp only: entry_unat [OF assms(1,3), symmetric] entry_unat [OF assms(2,4), symmetric] e)
  with u have "i = j" by simp
  with u show "b = c \<and> i = j" by (simp add: word_unat_eq_iff)
qed simp

text \<open>An address whose offset bits are clear survives the frame masks.\<close>

lemma frame_mask:
  fixes x :: u64
  assumes "page_aligned x" "unat x < 2 ^ 48"
  shows "x AND 0xFFFFFFFFF000 = x" "x AND 0xFFFFFFFFFF000 = x"
proof -
  have "unat (take_bit 12 x) = 0" using assms(1) by (simp only: unsigned_take_bit_eq) (simp add: take_bit_eq_mod)
  then have m: "take_bit 12 x = 0" by (simp only: unat_eq_zero)
  have b: "\<not> bit x n" if "n < 12" for n
    using arg_cong [OF m, of "\<lambda>y. bit y n"] that by (simp add: bit_take_bit_iff)
  have "unat (take_bit 48 x) = unat x" using assms(2) by (simp add: unsigned_take_bit_eq take_bit_nat_eq_self)
  then have s: "take_bit 48 x = x" by (simp only: word_unat_eq_iff)
  have c: "n < 48" if "bit x n" for n
    using arg_cong [OF s, of "\<lambda>y. bit y n"] that by (simp add: bit_take_bit_iff)
  have e: "(0xFFFFFFFFF000 :: u64) = mask 48 AND NOT (mask 12)" "(0xFFFFFFFFFF000 :: u64) = mask 52 AND NOT (mask 12)"
    by (simp_all add: mask_eq_exp_minus_1)
  show "x AND 0xFFFFFFFFF000 = x" unfolding e(1)
    by (rule bit_word_eqI) (use b c not_le in \<open>auto simp: bit_and_iff bit_not_iff bit_mask_iff\<close>)
  show "x AND 0xFFFFFFFFFF000 = x" unfolding e(2)
    by (rule bit_word_eqI) (use b c not_le less_trans in \<open>fastforce simp: bit_and_iff bit_not_iff bit_mask_iff\<close>)
qed

section \<open>What the boot code writes\<close>

text \<open>
  A region of the boot code is a small-page region with a table of its own or one large page. \<open>exec_acts\<close>
  is their effect on the memory and on the table pointer.
\<close>

datatype region_act = Table nat u64 u64 | Large_Page nat u64

fun act_index :: "region_act \<Rightarrow> nat" where
  "act_index (Table e pa fl) = e"
| "act_index (Large_Page e v) = e"

fun fill_mem :: "addr \<Rightarrow> u64 \<Rightarrow> u64 \<Rightarrow> nat list \<Rightarrow> (addr \<Rightarrow> u64) \<Rightarrow> addr \<Rightarrow> u64" where
  "fill_mem pt pa fl [] q = q"
| "fill_mem pt pa fl (i # is) q = fill_mem pt (pa + 4096) fl is (q(entry pt i := pa OR fl))"

fun exec_act :: "region_act \<Rightarrow> (addr \<Rightarrow> u64) \<times> u64 \<Rightarrow> (addr \<Rightarrow> u64) \<times> u64" where
  "exec_act (Table e pa fl) (q, tp) =
     ((fill_mem (tp + 0x1000) pa fl [0..<512] q)(entry KERNEL_PD_PA e := (tp + 0x1000) OR fl), tp + 0x1000)"
| "exec_act (Large_Page e v) (q, tp) = (q(entry KERNEL_PD_PA e := v), tp)"

definition exec_acts :: "region_act list \<Rightarrow> (addr \<Rightarrow> u64) \<times> u64 \<Rightarrow> (addr \<Rightarrow> u64) \<times> u64" where
  "exec_acts = fold exec_act"

definition table_count :: "region_act list \<Rightarrow> nat" where
  "table_count acts = length (filter (\<lambda>a. case a of Table _ _ _ \<Rightarrow> True | _ \<Rightarrow> False) acts)"

lemma table_count_simps [simp]:
  "table_count [] = 0" "table_count (Table e pa fl # as) = Suc (table_count as)"
  "table_count (Large_Page e v # as) = table_count as" "table_count (as @ bs) = table_count as + table_count bs"
  by (simp_all add: table_count_def)

lemma exec_acts_simps [simp]:
  "exec_acts [] m = m" "exec_acts (a # as) m = exec_acts as (exec_act a m)"
  "exec_acts (as @ bs) m = exec_acts bs (exec_acts as m)"
  by (simp_all add: exec_acts_def)

lemma fill_table_mem: "fill_table pt pa fl is s = s\<lparr>qmem := fill_mem pt pa fl is (qmem s)\<rparr>"
  by (induction "is" arbitrary: pa s) (simp_all add: write_entry_def)

lemma fill_mem_entries:
  assumes "page_aligned pt" "k \<le> n" "n \<le> 512"
  shows "(\<forall>j. k \<le> j \<longrightarrow> j < n \<longrightarrow> fill_mem pt pa fl [k..<n] q (entry pt j) = (pa + 4096 * of_nat (j - k)) OR fl) \<and>
    (\<forall>a. page_of a \<noteq> page_of pt \<longrightarrow> fill_mem pt pa fl [k..<n] q a = q a) \<and>
    (\<forall>j < k. fill_mem pt pa fl [k..<n] q (entry pt j) = q (entry pt j))"
  using assms(2)
proof (induction "n - k" arbitrary: k pa q)
  case (Suc d)
  then have kn: "k < n" by simp
  let ?q = "q(entry pt k := pa OR fl)"
  have IH: "(\<forall>j. Suc k \<le> j \<longrightarrow> j < n \<longrightarrow> fill_mem pt (pa + 4096) fl [Suc k..<n] ?q (entry pt j) =
        (pa + 4096 + 4096 * of_nat (j - Suc k)) OR fl) \<and>
      (\<forall>a. page_of a \<noteq> page_of pt \<longrightarrow> fill_mem pt (pa + 4096) fl [Suc k..<n] ?q a = ?q a) \<and>
      (\<forall>j < Suc k. fill_mem pt (pa + 4096) fl [Suc k..<n] ?q (entry pt j) = ?q (entry pt j))"
    by (rule Suc.hyps(1)) (use Suc.hyps(2) kn in simp_all)
  have u: "fill_mem pt pa fl [k..<n] q = fill_mem pt (pa + 4096) fl [Suc k..<n] ?q"
    using kn by (simp add: upt_conv_Cons)
  have pk: "page_of (entry pt k) = page_of pt" using entry_page assms(1,3) kn by simp
  show ?case unfolding u
  proof (intro conjI allI impI)
    fix j assume j: "k \<le> j" "j < n"
    show "fill_mem pt (pa + 4096) fl [Suc k..<n] ?q (entry pt j) = pa + 4096 * of_nat (j - k) OR fl"
    proof (cases "j = k")
      case False
      with j have "Suc k \<le> j" by simp
      from conjunct1 [OF IH, rule_format, OF this j(2)]
      have f: "fill_mem pt (pa + 4096) fl [Suc k..<n] ?q (entry pt j) = (pa + 4096 + 4096 * of_nat (j - Suc k)) OR fl" .
      have "j - k = Suc (j - Suc k)" using \<open>Suc k \<le> j\<close> by simp
      then have "4096 + 4096 * of_nat (j - Suc k) = (4096 * of_nat (j - k) :: u64)" by (simp add: distrib_left)
      then show ?thesis by (simp only: f add.assoc)
    qed (use IH in simp)
  next
    fix a assume "page_of a \<noteq> page_of pt"
    then show "fill_mem pt (pa + 4096) fl [Suc k..<n] ?q a = q a" using IH pk by auto
  next
    fix j assume j: "j < k"
    then have "entry pt j \<noteq> entry pt k" using entry_eq_iff assms(1,3) kn by simp
    with j IH show "fill_mem pt (pa + 4096) fl [Suc k..<n] ?q (entry pt j) = q (entry pt j)" by simp
  qed
qed simp

lemma fill_mem_result:
  assumes "page_aligned pt"
  shows "j < 512 \<Longrightarrow> fill_mem pt pa fl [0..<512] q (entry pt j) = (pa + 4096 * of_nat j) OR fl"
    and "page_of a \<noteq> page_of pt \<Longrightarrow> fill_mem pt pa fl [0..<512] q a = q a"
  using fill_mem_entries [OF assms, of 0 512 pa fl q] by auto

text \<open>The table pointer moves by one page for each table; the pages it passes are fresh.\<close>

definition room :: "u64 \<Rightarrow> nat \<Rightarrow> bool" where
  "room tp n \<longleftrightarrow> page_aligned tp \<and> unat tp + 4096 * n < 0x30000"

lemma room_next:
  assumes "room tp (Suc n)"
  shows "room (tp + 0x1000) n" "unat (tp + 0x1000) = unat tp + 0x1000" "tp + 0x1000 < FAT_ADDRESS"
    "page_of (tp + 0x1000) = Suc (page_of tp)" "page_of tp + Suc n < 0x30" "tp + 0x1000 \<noteq> NULL"
proof -
  obtain k where k: "unat tp = 4096 * k" "page_of tp = k" using assms unfolding room_def by (auto elim: page_alignedE)
  have b: "4096 * k + 4096 * Suc n < 0x30000" using assms k by (simp add: room_def)
  have u: "unat (tp + 0x1000) = unat tp + 0x1000" using b k by (subst unat_plus_exact) simp_all
  then show "unat (tp + 0x1000) = unat tp + 0x1000" .
  show "room (tp + 0x1000) n" using u b k by (simp add: room_def)
  show "tp + 0x1000 < FAT_ADDRESS" using u b k by (simp add: unat_less_iff FAT_ADDRESS_def)
  show "page_of (tp + 0x1000) = Suc (page_of tp)" using u k by simp
  show "page_of tp + Suc n < 0x30" using b k by simp
  show "tp + 0x1000 \<noteq> NULL" using u by auto
qed

lemma pd_page: "page_of KERNEL_PD_PA = 0x9A" "page_aligned KERNEL_PD_PA"
  by (simp_all add: KERNEL_PD_PA_def)

definition acts_done :: "region_act list \<Rightarrow> (addr \<Rightarrow> u64) \<times> u64 \<Rightarrow> (addr \<Rightarrow> u64) \<times> u64 \<Rightarrow> bool" where
  "acts_done acts m m' \<longleftrightarrow>
    (\<forall>e v. Large_Page e v \<in> set acts \<longrightarrow> fst m' (entry KERNEL_PD_PA e) = v) \<and>
    (\<forall>e pa fl. Table e pa fl \<in> set acts \<longrightarrow> (\<exists>pt. page_aligned pt \<and> page_of (snd m) < page_of pt \<and>
       page_of pt \<le> page_of (snd m) + table_count acts \<and> fst m' (entry KERNEL_PD_PA e) = pt OR fl \<and>
       (\<forall>j < 512. fst m' (entry pt j) = (pa + 4096 * of_nat j) OR fl))) \<and>
    (\<forall>e < 512. e \<notin> act_index ` set acts \<longrightarrow> fst m' (entry KERNEL_PD_PA e) = fst m (entry KERNEL_PD_PA e)) \<and>
    (\<forall>a. page_of a \<noteq> page_of KERNEL_PD_PA \<longrightarrow>
       page_of a \<le> page_of (snd m) \<or> page_of (snd m) + table_count acts < page_of a \<longrightarrow> fst m' a = fst m a)"

lemma acts_done_table:
  assumes "acts_done acts m m'" "Table e pa fl \<in> set acts"
  obtains pt where "page_aligned pt" "page_of (snd m) < page_of pt" "page_of pt \<le> page_of (snd m) + table_count acts"
    "fst m' (entry KERNEL_PD_PA e) = pt OR fl" "\<And>j. j < 512 \<Longrightarrow> fst m' (entry pt j) = (pa + 4096 * of_nat j) OR fl"
proof -
  note o = that
  from conjunct1 [OF conjunct2 [OF assms(1) [unfolded acts_done_def]], rule_format, OF assms(2)]
  show ?thesis by (elim exE conjE) (rule o, assumption+, simp)
qed

lemma exec_act_done:
  assumes r: "room tp (table_count [x])" and e: "act_index x < 512"
  shows "acts_done [x] (q, tp) (exec_act x (q, tp))"
proof (cases x)
  case (Large_Page i v)
  have "entry KERNEL_PD_PA j \<noteq> entry KERNEL_PD_PA i" if "j < 512" "j \<noteq> i" for j
    using entry_eq_iff pd_page(2) e Large_Page that by simp
  moreover have "a \<noteq> entry KERNEL_PD_PA i" if "page_of a \<noteq> page_of KERNEL_PD_PA" for a
    using entry_page [OF pd_page(2)] e Large_Page that by auto
  ultimately show ?thesis using Large_Page by (auto simp: acts_done_def)
next
  case (Table i pa fl)
  let ?pt = "tp + 0x1000"
  note n = room_next [of tp 0]
  have rt: "room tp (Suc 0)" using r Table by simp
  have al: "page_aligned ?pt" using n(1) [OF rt] by (simp add: room_def)
  have pp: "page_of ?pt = Suc (page_of tp)" by (rule n(4) [OF rt])
  have np: "page_of ?pt \<noteq> page_of KERNEL_PD_PA" using n(5) [OF rt] pp pd_page by simp
  have ne: "entry ?pt j \<noteq> entry KERNEL_PD_PA i" if "j < 512" for j
    using entry_eq_iff [OF al pd_page(2) that] e Table np by auto
  have nd: "entry KERNEL_PD_PA j \<noteq> entry KERNEL_PD_PA i" if "j < 512" "j \<noteq> i" for j
    using entry_eq_iff pd_page(2) e Table that by simp
  have pd: "page_of (entry KERNEL_PD_PA j) \<noteq> page_of ?pt" if "j < 512" for j
    using entry_page [OF pd_page(2) that] np by simp
  have fr: "a \<noteq> entry KERNEL_PD_PA i" if "page_of a \<noteq> page_of KERNEL_PD_PA" for a
    using entry_page [OF pd_page(2)] e Table that by auto
  show ?thesis unfolding acts_done_def Table
  proof (intro conjI allI impI)
    fix e' pa' fl' assume "Table e' pa' fl' \<in> set [Table i pa fl]"
    then show "\<exists>pt. page_aligned pt \<and> page_of (snd (q, tp)) < page_of pt \<and>
       page_of pt \<le> page_of (snd (q, tp)) + table_count [Table i pa fl] \<and>
       fst (exec_act (Table i pa fl) (q, tp)) (entry KERNEL_PD_PA e') = pt OR fl' \<and>
       (\<forall>j < 512. fst (exec_act (Table i pa fl) (q, tp)) (entry pt j) = (pa' + 4096 * of_nat j) OR fl')"
      by (intro exI [of _ ?pt]) (use al pp ne fill_mem_result(1) [OF al] in simp)
  next
    fix e' assume "e' < 512" "e' \<notin> act_index ` set [Table i pa fl]"
    then show "fst (exec_act (Table i pa fl) (q, tp)) (entry KERNEL_PD_PA e') = fst (q, tp) (entry KERNEL_PD_PA e')"
      using nd pd fill_mem_result(2) [OF al] by simp
  next
    fix a assume "page_of a \<noteq> page_of KERNEL_PD_PA"
      "page_of a \<le> page_of (snd (q, tp)) \<or> page_of (snd (q, tp)) + table_count [Table i pa fl] < page_of a"
    then show "fst (exec_act (Table i pa fl) (q, tp)) a = fst (q, tp) a"
      using pp fr fill_mem_result(2) [OF al] by auto
  qed simp
qed

lemma exec_act_room:
  assumes "room tp (table_count (x # xs))"
  shows "room (snd (exec_act x (q, tp))) (table_count xs)"
    "page_of (snd (exec_act x (q, tp))) = page_of tp + table_count [x]"
  using assms room_next [of tp "table_count xs"] by (cases x; simp)+

lemma room_pages:
  assumes "room tp n"
  shows "page_of tp + n < 0x30"
proof -
  obtain k where "unat tp = 4096 * k" "page_of tp = k" using assms unfolding room_def by (auto elim: page_alignedE)
  with assms show ?thesis by (simp add: room_def)
qed

lemma room_less: "room tp n \<Longrightarrow> m \<le> n \<Longrightarrow> room tp m"
  by (auto simp: room_def)

text \<open>Regions with different directory entries do not disturb each other.\<close>

lemma exec_acts_done:
  assumes "room tp (table_count acts)" "distinct (map act_index acts)" "\<forall>x \<in> set acts. act_index x < 512"
  shows "acts_done acts (q, tp) (exec_acts acts (q, tp))"
  using assms
proof (induction acts arbitrary: q tp)
  case Nil
  then show ?case by (simp add: acts_done_def)
next
  case (Cons x acts)
  let ?m = "exec_act x (q, tp)" let ?n = "exec_acts acts ?m"
  have c: "table_count (x # acts) = table_count [x] + table_count acts" by (cases x) simp_all
  have d1: "acts_done [x] (q, tp) ?m"
    by (rule exec_act_done) (use Cons.prems room_less c in \<open>auto intro: room_less\<close>)
  have r: "room (snd ?m) (table_count acts)" and p: "page_of (snd ?m) = page_of tp + table_count [x]"
    using exec_act_room Cons.prems(1) by blast+
  have d2: "acts_done acts ?m ?n" using Cons.IH [of "snd ?m" "fst ?m"] r Cons.prems by simp
  have b: "page_of tp + table_count (x # acts) < 0x30" by (rule room_pages [OF Cons.prems(1)])
  have frame: "fst ?n (entry KERNEL_PD_PA (act_index x)) = fst ?m (entry KERNEL_PD_PA (act_index x))"
    using d2 Cons.prems by (auto simp: acts_done_def)
  have "\<exists>pt. page_aligned pt \<and> page_of tp < page_of pt \<and> page_of pt \<le> page_of tp + table_count (x # acts) \<and>
      fst ?n (entry KERNEL_PD_PA e) = pt OR fl \<and> (\<forall>j < 512. fst ?n (entry pt j) = (pa + 4096 * of_nat j) OR fl)"
    if "Table e pa fl = x" for e pa fl
  proof -
    have "Table e pa fl \<in> set [x]" using that by simp
    from acts_done_table [OF d1 this] obtain pt where pt: "page_aligned pt" "page_of tp < page_of pt"
      "page_of pt \<le> page_of tp + table_count [x]" "fst ?m (entry KERNEL_PD_PA e) = pt OR fl"
      "\<And>j. j < 512 \<Longrightarrow> fst ?m (entry pt j) = (pa + 4096 * of_nat j) OR fl" by (metis snd_conv)
    have "fst ?n (entry pt j) = fst ?m (entry pt j)" if "j < 512" for j
    proof -
      have "page_of (entry pt j) = page_of pt" by (rule entry_page [OF pt(1) that])
      moreover have "page_of pt \<noteq> page_of KERNEL_PD_PA" using pt(3) b c pd_page by simp
      ultimately show ?thesis using d2 pt(3) p by (simp add: acts_done_def)
    qed
    with pt frame that c show ?thesis by (intro exI [of _ pt]) auto
  qed
  moreover have "\<exists>pt. page_aligned pt \<and> page_of tp < page_of pt \<and> page_of pt \<le> page_of tp + table_count (x # acts) \<and>
      fst ?n (entry KERNEL_PD_PA e) = pt OR fl \<and> (\<forall>j < 512. fst ?n (entry pt j) = (pa + 4096 * of_nat j) OR fl)"
    if "Table e pa fl \<in> set acts" for e pa fl
  proof -
    from acts_done_table [OF d2 that] obtain pt where "page_aligned pt" "page_of (snd ?m) < page_of pt"
      "page_of pt \<le> page_of (snd ?m) + table_count acts" "fst ?n (entry KERNEL_PD_PA e) = pt OR fl"
      "\<And>j. j < 512 \<Longrightarrow> fst ?n (entry pt j) = (pa + 4096 * of_nat j) OR fl" by metis
    then show ?thesis using p c by (intro exI [of _ pt]) auto
  qed
  moreover have "fst ?n (entry KERNEL_PD_PA e) = v" if "Large_Page e v \<in> set (x # acts)" for e v
    using that frame d1 d2 by (auto simp: acts_done_def)
  moreover have "fst ?n (entry KERNEL_PD_PA e) = q (entry KERNEL_PD_PA e)"
    if "e < 512" "e \<notin> act_index ` set (x # acts)" for e
    using that d1 d2 by (simp add: acts_done_def)
  moreover have "fst ?n a = q a" if "page_of a \<noteq> page_of KERNEL_PD_PA"
      "page_of a \<le> page_of tp \<or> page_of tp + table_count (x # acts) < page_of a" for a
  proof -
    have "fst ?n a = fst ?m a" using that d2 p c unfolding acts_done_def by auto
    also have "\<dots> = q a" using that d1 p c unfolding acts_done_def by auto
    finally show ?thesis .
  qed
  ultimately show ?case unfolding acts_done_def by auto
qed

section \<open>The boot code as a list of regions\<close>

lemma mm_fill_page_table_mem:
  "0 \<le> e \<Longrightarrow> e < 512 \<Longrightarrow> mm_fill_page_table dir e pt pa fl s =
     (0, s\<lparr>qmem := (fill_mem pt pa fl [0..<512] (qmem s))(entry dir (nat e) := pt OR fl)\<rparr>)"
  by (simp add: mm_fill_page_table_def fill_table_mem write_entry_def read_entry_def Let_def)

text \<open>
  A Hoare triple for the initialisers: with room for its tables, the code returns, its effect on the memory is a list
  of regions, and the listed variables survive.
\<close>

definition region_step :: "u64 \<Rightarrow> region_act list \<Rightarrow> (mm_state \<Rightarrow> bool) \<Rightarrow> (mm_state \<Rightarrow> mm_state outcome) \<Rightarrow>
    (mm_state \<Rightarrow> bool) \<Rightarrow> bool" where
  "region_step lfb acts P f Q \<longleftrightarrow>
    (\<forall>s. P s \<longrightarrow> SMALL s = canonical_of lfb \<longrightarrow> room (table_pointer_heap_base s) (table_count acts) \<longrightarrow>
      (\<exists>s'. f s = Inr s' \<and> Q s' \<and> SMALL s' = SMALL s \<and> kernel_mm_data s' = kernel_mm_data s \<and>
        MemorySizeInfo s' = MemorySizeInfo s \<and> gKernelPML4Address s' = gKernelPML4Address s \<and>
        (qmem s', table_pointer_heap_base s') = exec_acts acts (qmem s, table_pointer_heap_base s)))"

lemma region_step_Inr: "region_step lfb [] P (\<lambda>s. Inr s) P"
  by (simp add: region_step_def)

lemma exec_acts_room:
  "room tp (table_count acts + n) \<Longrightarrow> room (snd (exec_acts acts (q, tp))) n"
proof (induction acts arbitrary: q tp)
  case (Cons x acts)
  let ?m = "exec_act x (q, tp)"
  have "room (snd ?m) (table_count acts + n)"
    using Cons.prems room_next(1) [of tp "table_count acts + n"] by (cases x) simp_all
  then show ?case using Cons.IH [of "snd ?m" "fst ?m"] by simp
qed simp

lemma region_step_then:
  assumes "region_step lfb as P f Q" "region_step lfb bs Q g R"
  shows "region_step lfb (as @ bs) P (\<lambda>s. and_then (f s) g) R"
  unfolding region_step_def
proof (intro allI impI)
  fix s assume s: "P s" "SMALL s = canonical_of lfb" and r: "room (table_pointer_heap_base s) (table_count (as @ bs))"
  have "room (table_pointer_heap_base s) (table_count as)" using r by (rule room_less) simp
  with assms(1) s obtain s1 where 1: "f s = Inr s1" "Q s1" "SMALL s1 = SMALL s" "kernel_mm_data s1 = kernel_mm_data s"
      "MemorySizeInfo s1 = MemorySizeInfo s" "gKernelPML4Address s1 = gKernelPML4Address s"
      "(qmem s1, table_pointer_heap_base s1) = exec_acts as (qmem s, table_pointer_heap_base s)"
    unfolding region_step_def by blast
  have "room (snd (exec_acts as (qmem s, table_pointer_heap_base s))) (table_count bs)"
    using r by (intro exec_acts_room) simp
  then have "room (table_pointer_heap_base s1) (table_count bs)" by (simp flip: 1(7))
  with assms(2) 1(2,3) s(2) obtain s2 where "g s1 = Inr s2" "R s2" "SMALL s2 = SMALL s1"
      "kernel_mm_data s2 = kernel_mm_data s1" "MemorySizeInfo s2 = MemorySizeInfo s1"
      "gKernelPML4Address s2 = gKernelPML4Address s1"
      "(qmem s2, table_pointer_heap_base s2) = exec_acts bs (qmem s1, table_pointer_heap_base s1)"
    unfolding region_step_def by metis
  with 1 show "\<exists>s'. and_then (f s) g = Inr s' \<and> R s' \<and> SMALL s' = SMALL s \<and> kernel_mm_data s' = kernel_mm_data s \<and>
        MemorySizeInfo s' = MemorySizeInfo s \<and> gKernelPML4Address s' = gKernelPML4Address s \<and>
        (qmem s', table_pointer_heap_base s') = exec_acts (as @ bs) (qmem s, table_pointer_heap_base s)"
    by (intro exI [of _ s2]) simp
qed

text \<open>The initialisers with one table.\<close>

lemma get_table_pointer_room:
  "room (table_pointer_heap_base s) (Suc n) \<Longrightarrow> get_table_pointer_va s =
     Inr (table_pointer_heap_base s + 0x1000, s\<lparr>table_pointer_heap_base := table_pointer_heap_base s + 0x1000\<rparr>)"
  using room_next(3) [of "table_pointer_heap_base s" n] by (simp add: get_table_pointer_va_def Let_def)

lemma region_va_index:
  "X64_GET_PDE_INDEX RING0AREA_VA = 0" "X64_GET_PDE_INDEX RING3AREA_VA = 1" "X64_GET_PDE_INDEX KERNELIMAGE_VA = 384"
  "X64_GET_PDE_INDEX PAGEDPOOL_VA = 387" "X64_GET_PDE_INDEX HEAPPOOL_VA = 388" "X64_GET_PDE_INDEX EXTRAHEAP1_VA = 389"
  "X64_GET_PDE_INDEX EXTRAHEAP2_VA = 390" "X64_GET_PDE_INDEX EXTRAHEAP3_VA = 391"
  "X64_GET_PDE_INDEX FRONTBUFFER_VA = 385" "X64_GET_PDE_INDEX (FRONTBUFFER_VA + 0x200000) = 386"
  "X64_GET_PDE_INDEX 0x20000000 = 256" "X64_GET_PDE_INDEX 0x20200000 = 257" "X64_GET_PDE_INDEX 0x20400000 = 258"
  "X64_GET_PDE_INDEX 0x20600000 = 259" "X64_GET_PDE_INDEX 0x20800000 = 260"
  by (simp_all add: X64_GET_PDE_INDEX_def region_va_consts drop_bit_eq_div)

lemmas region_simps = and_then_def get_table_pointer_room install_region_def region_va_index mm_fill_page_table_mem
  region_step_def Let_def

lemma map_2mb_run:
  assumes "X64_GET_PDE_INDEX va = int e" "e < 512" "room (table_pointer_heap_base s) (Suc n)"
  shows "mm_map_2mb_region_in_pd0_imp pa va fl s = (let pt = table_pointer_heap_base s + 0x1000 in
    Inr (0, s\<lparr>qmem := (fill_mem pt pa fl [0..<512] (qmem s))(entry KERNEL_PD_PA e := pt OR fl), table_pointer_heap_base := pt\<rparr>))"
  using room_next(6) [OF assms(3)] assms
  by (simp add: mm_map_2mb_region_in_pd0_imp_def get_table_pointer_room mm_fill_page_table_mem Let_def)

lemma map_2mb_step:
  assumes "X64_GET_PDE_INDEX va = int e" "e < 512"
  shows "region_step lfb [Table e pa fl] (\<lambda>_. True)
    (\<lambda>s. and_then (mm_map_2mb_region_in_pd0_imp pa va fl s) (\<lambda>(_, s). Inr s)) (\<lambda>_. True)"
  by (simp add: region_step_def map_2mb_run [OF assms] Let_def)

lemma ring0area_step: "region_step lfb [Table 0 0 3] (\<lambda>_. True) initialize_ring0area (\<lambda>_. True)"
  by (simp add: region_simps initialize_ring0area_def SYSTEM_ORIGIN_def page_table_consts)

lemma ring3area_step: "region_step lfb [Table 1 0x2000000 7] (\<lambda>_. True) initialize_ring3area (\<lambda>_. True)"
  by (simp add: region_simps initialize_ring3area_def USER_BASE_PA_def page_table_consts)

lemma kernelimage_step: "region_step lfb [Table 384 0x100000 3] (\<lambda>_. True) initialize_kernelimage_region (\<lambda>_. True)"
  by (simp add: region_simps initialize_kernelimage_region_def KERNEL_BASE_PA_def page_table_consts)

abbreviation pool_set :: "mm_state \<Rightarrow> bool" where "pool_set s \<equiv> g_pagedpool_va s = PAGEDPOOL_VA"

lemma pagedpool_step: "region_step lfb [Table 387 0x1800000 7] (\<lambda>_. True) initialize_pagedpool pool_set"
  by (simp add: region_simps initialize_pagedpool_def canonical_of_def PAGEDPOOL1_PA_def page_table_consts)

lemma heappool_step: "region_step lfb [Table 388 0x1000000 7] pool_set initialize_heappool pool_set"
  by (simp add: region_simps initialize_heappool_def canonical_of_def HEAPPOOL_PA_def page_table_consts)

lemma extraheap1_step: "region_step lfb [Table 389 0x1200000 3] pool_set initialize_extraheap1 pool_set"
  by (simp add: region_simps initialize_extraheap1_def canonical_of_def EXTRAHEAP1_PA_def page_table_consts)

lemma extraheap2_step:
  "region_step lfb [Table 390 0x1400000 7] pool_set initialize_extraheap2
     (\<lambda>s. pool_set s \<and> g_extraheap2_va s = EXTRAHEAP2_VA)"
  by (simp add: region_simps initialize_extraheap2_def canonical_of_def EXTRAHEAP2_PA_def page_table_consts)

lemma extraheap3_step:
  "region_step lfb [Table 391 0x1600000 7] (\<lambda>s. pool_set s \<and> g_extraheap2_va s = EXTRAHEAP2_VA) initialize_extraheap3
     (\<lambda>s. pool_set s \<and> g_extraheap2_va s = EXTRAHEAP2_VA \<and> g_extraheap3_va s = EXTRAHEAP3_VA)"
  by (simp add: region_simps initialize_extraheap3_def canonical_of_def EXTRAHEAP3_PA_def page_table_consts)

lemma slab_step:
  "region_step lfb [] (\<lambda>s. pool_set s \<and> g_extraheap2_va s = EXTRAHEAP2_VA \<and> g_extraheap3_va s = EXTRAHEAP3_VA)
     slab_initialize pool_set"
  by (simp add: region_step_def slab_initialize_def region_va_consts)

text \<open>The buffers and the large pages.\<close>

definition same_tables :: "mm_state \<Rightarrow> mm_state \<Rightarrow> bool" where
  "same_tables s s' \<longleftrightarrow> qmem s' = qmem s \<and> table_pointer_heap_base s' = table_pointer_heap_base s \<and> SMALL s' = SMALL s \<and>
     kernel_mm_data s' = kernel_mm_data s \<and> MemorySizeInfo s' = MemorySizeInfo s \<and>
     gKernelPML4Address s' = gKernelPML4Address s"

lemma region_step_wrap:
  assumes "region_step lfb as (\<lambda>_. True) f (\<lambda>_. True)" "\<And>s. same_tables s (g s)" "\<And>s. same_tables s (h s)"
  shows "region_step lfb as (\<lambda>_. True) (\<lambda>s. and_then (f (g s)) (\<lambda>s. Inr (h s))) (\<lambda>_. True)"
  unfolding region_step_def
proof (intro allI impI)
  fix s :: mm_state
  assume "SMALL s = canonical_of lfb" "room (table_pointer_heap_base s) (table_count as)"
  with assms(2) [of s] have "SMALL (g s) = canonical_of lfb" "room (table_pointer_heap_base (g s)) (table_count as)"
    by (simp_all add: same_tables_def)
  with assms(1) obtain s1 where "f (g s) = Inr s1" "SMALL s1 = SMALL (g s)" "kernel_mm_data s1 = kernel_mm_data (g s)"
      "MemorySizeInfo s1 = MemorySizeInfo (g s)" "gKernelPML4Address s1 = gKernelPML4Address (g s)"
      "(qmem s1, table_pointer_heap_base s1) = exec_acts as (qmem (g s), table_pointer_heap_base (g s))"
    unfolding region_step_def by metis
  with assms(2) [of s] assms(3) [of s1]
  show "\<exists>s'. and_then (f (g s)) (\<lambda>s. Inr (h s)) = Inr s' \<and> True \<and> SMALL s' = SMALL s \<and>
      kernel_mm_data s' = kernel_mm_data s \<and> MemorySizeInfo s' = MemorySizeInfo s \<and>
      gKernelPML4Address s' = gKernelPML4Address s \<and>
      (qmem s', table_pointer_heap_base s') = exec_acts as (qmem s, table_pointer_heap_base s)"
    by (intro exI [of _ "h s1"]) (simp add: same_tables_def)
qed

lemma map_all_2mb_step:
  assumes "list_all2 (\<lambda>(pa, va) e. X64_GET_PDE_INDEX va = int e \<and> e < 512) rs es"
  shows "region_step lfb (map2 (\<lambda>(pa, va) e. Table e pa fl) rs es) (\<lambda>_. True) (map_all_2mb rs fl) (\<lambda>_. True)"
  using assms
proof (induction rule: list_all2_induct)
  case Nil
  then show ?case by (simp add: region_step_def)
next
  case (Cons r rs e es)
  obtain pa va where r: "r = (pa, va)" by (cases r)
  have s: "region_step lfb [Table e pa fl] (\<lambda>_. True)
      (\<lambda>s. and_then (mm_map_2mb_region_in_pd0_imp pa va fl s) (\<lambda>(_, s). Inr s)) (\<lambda>_. True)"
    by (rule map_2mb_step) (use Cons.hyps(1) r in simp_all)
  have "map_all_2mb (r # rs) fl = (\<lambda>s. and_then (and_then (mm_map_2mb_region_in_pd0_imp pa va fl s) (\<lambda>(_, s). Inr s)) (map_all_2mb rs fl))"
    by (rule ext) (simp add: r and_then_def split: sum.split prod.split)
  with region_step_then [OF s Cons.IH] r show ?case by simp
qed

lemma backbuffer_step:
  "region_step lfb [Table 256 0x20000000 0x1F, Table 257 0x20200000 0x1F, Table 258 0x20400000 0x1F,
     Table 259 0x20600000 0x1F, Table 260 0x20800000 0x1F] (\<lambda>_. True) initialize_new_backbuffer (\<lambda>_. True)"
proof -
  let ?rs = "[(0x20000000, 0x20000000), (0x20200000, 0x20200000), (0x20400000, 0x20400000),
         (0x20600000, 0x20600000), (0x20800000, 0x20800000)] :: (u64 \<times> u64) list"
  have "region_step lfb [Table 256 0x20000000 0x1F, Table 257 0x20200000 0x1F, Table 258 0x20400000 0x1F,
     Table 259 0x20600000 0x1F, Table 260 0x20800000 0x1F] (\<lambda>_. True) (map_all_2mb ?rs 0x1F) (\<lambda>_. True)"
    using map_all_2mb_step [of ?rs "[256, 257, 258, 259, 260]" lfb "0x1F"] by (simp add: region_va_index)
  then show ?thesis unfolding initialize_new_backbuffer_def Let_def
    by (rule region_step_wrap) (simp_all add: same_tables_def)
qed

lemma frontbuffer_step:
  "region_step lfb [Table 385 lfb 0x1F, Table 386 (lfb + 0x200000) 0x1F] (\<lambda>_. True) initialize_new_frontbuffer (\<lambda>_. True)"
proof -
  have i: "X64_GET_PDE_INDEX FRONTBUFFER_VA = int 385" "X64_GET_PDE_INDEX (FRONTBUFFER_VA + 0x200000) = int 386"
    by (simp_all add: region_va_index)
  show ?thesis unfolding region_step_def
  proof (intro allI impI)
    fix s :: mm_state
    assume s: "SMALL s = canonical_of lfb"
      and r: "room (table_pointer_heap_base s) (table_count [Table 385 lfb 0x1F, Table 386 (lfb + 0x200000) 0x1F])"
    then have "room (table_pointer_heap_base s) (Suc (Suc 0))" by simp
    moreover from room_next(1) [OF this] have "room (table_pointer_heap_base s + 0x1000) (Suc 0)" .
    ultimately show "\<exists>s'. initialize_new_frontbuffer s = Inr s' \<and> True \<and> SMALL s' = SMALL s \<and>
        kernel_mm_data s' = kernel_mm_data s \<and> MemorySizeInfo s' = MemorySizeInfo s \<and>
        gKernelPML4Address s' = gKernelPML4Address s \<and> (qmem s', table_pointer_heap_base s') =
          exec_acts [Table 385 lfb 0x1F, Table 386 (lfb + 0x200000) 0x1F] (qmem s, table_pointer_heap_base s)"
      by (simp add: initialize_new_frontbuffer_def map_2mb_run [OF i(1)] map_2mb_run [OF i(2)] s Let_def
        canonical_of_def add.assoc)
  qed
qed

text \<open>Large pages are written without a table.\<close>

lemma map_va_2mb_mem:
  "X64_GET_PDE_INDEX va = int e \<Longrightarrow> e < 512 \<Longrightarrow> pa AND 0x1FFFFF = 0 \<Longrightarrow>
     map_va_2mb bits va pa s = s\<lparr>qmem := (qmem s)(entry KERNEL_PD_PA e := pa OR 0x80 OR bits)\<rparr>"
  by (simp add: map_va_2mb_def write_entry_def KERNEL_PD_PA_def push_bit_eq_mult)

lemma large_addr:
  assumes "i < 512"
  shows "X64_GET_PDE_INDEX (0x200000 * of_nat i) = int i" "(0x200000 * of_nat i :: u64) AND 0x1FFFFF = 0"
proof -
  have u: "unat (0x200000 * of_nat i :: u64) = 0x200000 * i"
    using assms by (simp add: unat_word_ariths unat_of_nat)
  have m: "(0x1FF :: u32) = mask 9" "(0x1FFFFF :: u64) = mask 21" by (simp_all add: mask_eq_exp_minus_1)
  define w where "w = (ucast (0x200000 * of_nat i :: u64) :: u32)"
  have uw: "unat w = 0x200000 * i" using assms u by (simp add: w_def unsigned_ucast_eq take_bit_nat_eq_self)
  have "unat (drop_bit 21 w) = unat w div 2 ^ 21" by (simp add: drop_bit_eq_div unat_div)
  then have "unat (drop_bit 21 w) = i" using uw by simp
  then have "unat (drop_bit 21 w AND 0x1FF) = i"
    using assms by (simp only: m take_bit_eq_mask [symmetric] unsigned_take_bit_eq) (simp add: take_bit_nat_eq_self)
  then show "X64_GET_PDE_INDEX (0x200000 * of_nat i) = int i"
    by (simp add: X64_GET_PDE_INDEX_def uint_nat w_def)
  have "unat ((0x200000 * of_nat i :: u64) AND 0x1FFFFF) = 0x200000 * i mod 2 ^ 21"
    by (simp only: m take_bit_eq_mask [symmetric] unsigned_take_bit_eq u) (simp only: take_bit_eq_mod)
  then have "unat ((0x200000 * of_nat i :: u64) AND 0x1FFFFF) = 0" by simp
  then show "(0x200000 * of_nat i :: u64) AND 0x1FFFFF = 0" by (simp only: unat_eq_zero)
qed

definition large_acts :: "u64 \<Rightarrow> nat list \<Rightarrow> region_act list" where
  "large_acts bits es = map (\<lambda>e. Large_Page e (0x200000 * of_nat e OR 0x80 OR bits)) es"

lemma fold_large_pages:
  assumes "\<forall>e \<in> set es. e < 512"
  shows "fold (\<lambda>e. map_va_2mb bits (0x200000 * of_nat e) (0x200000 * of_nat e)) es s =
    s\<lparr>qmem := fst (exec_acts (large_acts bits es) (qmem s, tp))\<rparr>"
  using assms
  by (induction es arbitrary: s) (simp_all add: large_acts_def map_va_2mb_mem large_addr)

lemma snd_large_acts: "snd (exec_acts (large_acts bits es) (q, tp)) = tp"
  by (induction es arbitrary: q) (simp_all add: large_acts_def)

lemma large_acts_step:
  assumes "\<forall>e \<in> set es. e < 512" "\<And>s. same_tables (s\<lparr>qmem := fst (exec_acts (large_acts bits es) (qmem s, table_pointer_heap_base s))\<rparr>) (h s)"
  shows "region_step lfb (large_acts bits es) (\<lambda>_. True) (\<lambda>s. Inr (h s)) (\<lambda>_. True)"
  unfolding region_step_def
proof (intro allI impI)
  fix s :: mm_state
  from assms(2) [of s] show "\<exists>s'. Inr (h s) = Inr s' \<and> True \<and> SMALL s' = SMALL s \<and> kernel_mm_data s' = kernel_mm_data s \<and>
      MemorySizeInfo s' = MemorySizeInfo s \<and> gKernelPML4Address s' = gKernelPML4Address s \<and>
      (qmem s', table_pointer_heap_base s') = exec_acts (large_acts bits es) (qmem s, table_pointer_heap_base s)"
    by (simp add: same_tables_def prod_eq_iff snd_large_acts)
qed

lemma canvas_fold:
  "map_canvas_slots [0..<n] s = fold (\<lambda>e. map_va_2mb 7 (0x200000 * of_nat e) (0x200000 * of_nat e)) [2..<n + 2] s"
proof (induction n)
  case (Suc n)
  have "(0x00400000 + 0x200000 * of_nat n :: u64) = 0x200000 * of_nat (n + 2)" by simp
  with Suc show ?case by (simp add: map_canvas_slots_def map_user_va_2mb_def)
qed (simp add: map_canvas_slots_def)

lemma module_fold:
  "map_module_regions s = (let s1 = fold (\<lambda>e. map_va_2mb 3 (0x200000 * of_nat e) (0x200000 * of_nat e)) [128..<133] s
     in s1\<lparr>mm_used := (mm_used s1)\<lparr>mm_used_module0 := 1024 * 2 * 5\<rparr>\<rparr>)"
  by (simp add: map_module_regions_def map_kernel_va_2mb_def upt_rec)

definition boot_acts :: "u64 \<Rightarrow> region_act list" where
  "boot_acts lfb = [Table 0 0 3] @ [Table 1 0x2000000 7] @ large_acts 7 [2..<102] @ large_acts 3 [128..<133] @
    [Table 256 0x20000000 0x1F, Table 257 0x20200000 0x1F, Table 258 0x20400000 0x1F,
     Table 259 0x20600000 0x1F, Table 260 0x20800000 0x1F] @
    [Table 384 0x100000 3] @ [Table 385 lfb 0x1F, Table 386 (lfb + 0x200000) 0x1F] @ [Table 387 0x1800000 7] @
    [Table 388 0x1000000 7] @ [Table 389 0x1200000 3] @ [Table 390 0x1400000 7] @ [Table 391 0x1600000 7] @ []"

lemma boot_step:
  "region_step lfb (boot_acts lfb) (\<lambda>_. True) initialize_canonical_kernel_pagetables pool_set"
proof -
  have c: "region_step lfb (large_acts 7 [2..<102]) (\<lambda>_. True)
      (\<lambda>s. Inr (shmm_user_heap_initialize 0x00400000 (map_canvas_slots [0..<100] s))) (\<lambda>_. True)"
    using fold_large_pages [of "[2..<102]" 7]
    by (intro large_acts_step) (simp_all add: canvas_fold same_tables_def shmm_user_heap_initialize_def)
  have m: "region_step lfb (large_acts 3 [128..<133]) (\<lambda>_. True) (\<lambda>s. Inr (map_module_regions s)) (\<lambda>_. True)"
    using fold_large_pages [of "[128..<133]" 3]
    by (intro large_acts_step) (simp_all add: module_fold same_tables_def Let_def)
  have "region_step lfb (boot_acts lfb) (\<lambda>_. True)
      (\<lambda>s. and_then (initialize_ring0area s) (\<lambda>s. and_then (initialize_ring3area s) (\<lambda>s.
        and_then (Inr (shmm_user_heap_initialize 0x00400000 (map_canvas_slots [0..<100] s))) (\<lambda>s.
        and_then (Inr (map_module_regions s)) (\<lambda>s. and_then (initialize_new_backbuffer s) (\<lambda>s.
        and_then (initialize_kernelimage_region s) (\<lambda>s. and_then (initialize_new_frontbuffer s) (\<lambda>s.
        and_then (initialize_pagedpool s) (\<lambda>s. and_then (initialize_heappool s) (\<lambda>s.
        and_then (initialize_extraheap1 s) (\<lambda>s. and_then (initialize_extraheap2 s) (\<lambda>s.
        and_then (initialize_extraheap3 s) slab_initialize)))))))))))) pool_set"
    unfolding boot_acts_def
    by (rule region_step_then [OF ring0area_step], rule region_step_then [OF ring3area_step],
        rule region_step_then [OF c], rule region_step_then [OF m])
      (intro region_step_then [OF backbuffer_step] region_step_then [OF kernelimage_step] region_step_then [OF frontbuffer_step]
        region_step_then [OF pagedpool_step] region_step_then [OF heappool_step] region_step_then [OF extraheap1_step]
        region_step_then [OF extraheap2_step] region_step_then [OF extraheap3_step slab_step])
  then show ?thesis by (simp add: initialize_canonical_kernel_pagetables_def [abs_def] Let_def)
qed

section \<open>Walking the boot tables\<close>

lemma clear_table_mem:
  "clear_table base s = s\<lparr>qmem := (\<lambda>a. if a \<in> entry base ` {..<512} then 2 else qmem s a)\<rparr>"
proof -
  have "fold (\<lambda>i. write_entry base i (0 OR PAGE_WRITE)) [0..<n] s =
      s\<lparr>qmem := (\<lambda>a. if a \<in> entry base ` {..<n} then 2 else qmem s a)\<rparr>" for n
    by (induction n) (auto simp: write_entry_def PAGE_WRITE_def lessThan_Suc intro!: mm_state.equality)
  then show ?thesis by (simp add: clear_table_def)
qed

lemma level_index_nat: "level_index k va = unat va div 2 ^ k mod 512"
proof -
  have "(0x1FF :: u64) = mask 9" by (simp add: mask_eq_exp_minus_1)
  then have "level_index k va = take_bit 9 (unat (drop_bit k va))"
    by (simp only: take_bit_eq_mask [symmetric] unsigned_take_bit_eq)
  moreover have "unat (drop_bit k va) = unat va div 2 ^ k"
  proof -
    have "take_bit 64 (unat va) = unat va" by (rule take_bit_nat_eq_self) (use unsigned_less [of va] in simp)
    then show ?thesis by (simp add: unsigned_drop_bit_eq) (simp add: drop_bit_eq_div)
  qed
  ultimately show ?thesis by (simp add: take_bit_eq_mod)
qed

lemma low_bits: "unat (va AND 0xFFF :: u64) = unat va mod 4096" "unat (va AND 0x1FFFFF :: u64) = unat va mod 0x200000"
proof -
  have "(0xFFF :: u64) = mask 12" "(0x1FFFFF :: u64) = mask 21" by (simp_all add: mask_eq_exp_minus_1)
  then have "unat (va AND 0xFFF) = take_bit 12 (unat va)" "unat (va AND 0x1FFFFF) = take_bit 21 (unat va)"
    by (simp_all only: take_bit_eq_mask [symmetric] unsigned_take_bit_eq)
  then show "unat (va AND 0xFFF) = unat va mod 4096" "unat (va AND 0x1FFFFF) = unat va mod 0x200000"
    by (simp_all only: take_bit_eq_mod) simp_all
qed

lemma offset_split: "4096 * of_nat (level_index 12 va) + (va AND 0xFFF) = (va AND 0x1FFFFF :: u64)"
proof -
  define v where "v = unat va"
  have "v mod 0x200000 = 4096 * (v div 4096 mod 512) + v mod 4096"
    using mod_mult2_eq [of v 4096 512] by simp
  moreover have "unat (4096 * of_nat (level_index 12 va) :: u64) = 4096 * (v div 4096 mod 512)"
    by (simp only: level_index_nat v_def) (simp add: unat_word_ariths unat_of_nat)
  moreover have "4096 * a + b < 2 ^ 64" if "a < 512" "b < 4096" for a b :: nat using that by simp
  ultimately have "unat (4096 * of_nat (level_index 12 va) + (va AND 0xFFF)) = unat (va AND 0x1FFFFF)"
    by (subst unat_plus_exact) (simp_all add: low_bits v_def)
  then show ?thesis by (simp only: word_unat_eq_iff)
qed

text \<open>Entries with flags in their offset bits.\<close>

abbreviation frame_base :: "u64 \<Rightarrow> bool" where "frame_base x \<equiv> page_aligned x \<and> unat x < 2 ^ 48"

lemma aligned_bit: "page_aligned x \<Longrightarrow> n < 12 \<Longrightarrow> \<not> bit x n"
proof
  assume a: "page_aligned x" "n < 12" "bit x n"
  have "unat (take_bit 12 x) = 0" using a(1) by (simp only: unsigned_take_bit_eq) (simp add: take_bit_eq_mod)
  then have "take_bit 12 x = 0" by (simp only: unat_eq_zero)
  then have "\<not> bit (take_bit 12 x) n" by simp
  with a(2,3) show False by (simp add: bit_take_bit_iff)
qed

lemma flagged_entry:
  assumes "frame_base x" "fl \<in> {3, 7, 0x1F}"
  shows "(x OR fl) AND 0xFFFFFFFFF000 = x" "(x OR fl) AND 0xFFFFFFFFFF000 = x"
    "bit (x OR fl) 0" "bit (x OR fl) 1" "bit (x OR fl) 2 \<longleftrightarrow> fl \<noteq> 3" "\<not> bit (x OR fl) 7"
proof -
  have m: "fl AND 0xFFFFFFFFF000 = 0" "fl AND 0xFFFFFFFFFF000 = 0" using assms(2) by auto
  show "(x OR fl) AND 0xFFFFFFFFF000 = x" "(x OR fl) AND 0xFFFFFFFFFF000 = x"
    using frame_mask [of x] assms(1) m by (simp_all only: bit.conj_disj_distrib2) simp_all
  have b: "bit fl 0" "bit fl 1" "bit fl 2 \<longleftrightarrow> fl \<noteq> 3" "\<not> bit fl 7"
    using assms(2) by (auto simp: bit_numeral_rec)
  show "bit (x OR fl) 0" "bit (x OR fl) 1" "bit (x OR fl) 2 \<longleftrightarrow> fl \<noteq> 3" "\<not> bit (x OR fl) 7"
    using b aligned_bit [of x] assms(1) by (simp_all add: bit_or_iff)
qed

lemma large_entry:
  assumes "e < 512" "fl \<in> {3, 7}"
  shows "(0x200000 * of_nat e OR 0x80 OR fl :: u64) AND 0xFFFFFFFE00000 = 0x200000 * of_nat e"
    "bit (0x200000 * of_nat e OR 0x80 OR fl :: u64) 0" "bit (0x200000 * of_nat e OR 0x80 OR fl :: u64) 1"
    "bit (0x200000 * of_nat e OR 0x80 OR fl :: u64) 2 \<longleftrightarrow> fl \<noteq> 3" "bit (0x200000 * of_nat e OR 0x80 OR fl :: u64) 7"
proof -
  let ?x = "0x200000 * of_nat e :: u64"
  have px: "?x = push_bit 21 (of_nat e)" by (simp add: push_bit_eq_mult)
  have h: "bit (of_nat e :: u64) n \<Longrightarrow> n < 9" for n
  proof (rule ccontr)
    assume "bit (of_nat e :: u64) n" "\<not> n < 9"
    moreover have "take_bit 9 (of_nat e :: u64) = of_nat e"
      using assms(1) by (simp add: take_bit_of_nat take_bit_nat_eq_self)
    ultimately show False by (metis bit_take_bit_iff)
  qed
  have xb: "bit ?x n \<Longrightarrow> 21 \<le> n \<and> n < 30" for n
    unfolding px by (auto simp: bit_push_bit_iff dest!: h)
  have m: "(0xFFFFFFFE00000 :: u64) = mask 52 AND NOT (mask 21)" by (simp add: mask_eq_exp_minus_1)
  have fm: "(0x80 OR fl) AND 0xFFFFFFFE00000 = 0" using assms(2) by auto
  have "?x AND 0xFFFFFFFE00000 = ?x" unfolding m
    by (rule bit_word_eqI) (auto simp: bit_and_iff bit_not_iff bit_mask_iff dest: xb)
  then show "(?x OR 0x80 OR fl) AND 0xFFFFFFFE00000 = ?x"
    using fm by (simp only: or.assoc bit.conj_disj_distrib2) simp
  have b: "bit (0x80 OR fl) 0" "bit (0x80 OR fl) 1" "bit (0x80 OR fl) 2 \<longleftrightarrow> fl \<noteq> 3" "bit (0x80 OR fl) 7"
    using assms(2) by (auto simp: bit_numeral_rec)
  then show "bit (?x OR 0x80 OR fl) 0" "bit (?x OR 0x80 OR fl) 1" "bit (?x OR 0x80 OR fl) 2 \<longleftrightarrow> fl \<noteq> 3"
    "bit (?x OR 0x80 OR fl) 7" using xb [of 2] by (auto simp: bit_or_iff)
qed

text \<open>The walk below the page directory, and what it finds for each kind of entry.\<close>

definition walk_directory :: "(addr \<Rightarrow> u64) \<Rightarrow> u64 \<Rightarrow> u64 \<Rightarrow> (u64 \<times> bool \<times> bool) option" where
  "walk_directory q e2 va =
    (if \<not> bit e2 0 then None
     else if bit e2 7 then Some ((e2 AND 0xFFFFFFFE00000) + (va AND 0x1FFFFF), bit e2 2, bit e2 1)
     else let e1 = q (entry (e2 AND 0xFFFFFFFFFF000) (level_index 12 va)) in
     if \<not> bit e1 0 then None
     else Some ((e1 AND 0xFFFFFFFFFF000) + (va AND 0xFFF), bit e2 2 \<and> bit e1 2, bit e2 1 \<and> bit e1 1))"

definition boot_upper :: "(addr \<Rightarrow> u64) \<Rightarrow> bool" where
  "boot_upper q \<longleftrightarrow> (\<forall>i < 512. q (entry KERNEL_PML4_PA i) = (if i = 0 then KERNEL_PDPT_PA OR 7 else 2)) \<and>
     (\<forall>i < 512. q (entry KERNEL_PDPT_PA i) = (if i = 0 then KERNEL_PD_PA OR 7 else 2))"

lemma level_index_less: "level_index k va < 512"
  by (simp add: level_index_nat)

lemma upper_flags:
  "(KERNEL_PDPT_PA OR 7) AND 0xFFFFFFFFFF000 = KERNEL_PDPT_PA" "(KERNEL_PD_PA OR 7) AND 0xFFFFFFFFFF000 = KERNEL_PD_PA"
  "(KERNEL_PDPT_PA OR 7) AND 0xFFFFFFFFF000 = KERNEL_PDPT_PA" "(KERNEL_PD_PA OR 7) AND 0xFFFFFFFFF000 = KERNEL_PD_PA"
  "KERNEL_PML4_PA AND 0xFFFFFFFFFF000 = KERNEL_PML4_PA"
  "bit (KERNEL_PDPT_PA OR 7) 0" "bit (KERNEL_PDPT_PA OR 7) 1" "bit (KERNEL_PDPT_PA OR 7) 2"
  "bit (KERNEL_PD_PA OR 7) 0" "bit (KERNEL_PD_PA OR 7) 1" "bit (KERNEL_PD_PA OR 7) 2" "\<not> bit (KERNEL_PD_PA OR 7) 7"
  "\<not> bit (2 :: u64) 0"
  by (simp_all add: page_table_consts bit_numeral_rec)

lemma hw_walk_boot:
  assumes "boot_upper q"
  shows "hw_walk q KERNEL_PML4_PA va = (if level_index 39 va = 0 \<and> level_index 30 va = 0
    then walk_directory q (q (entry KERNEL_PD_PA (level_index 21 va))) va else None)"
proof -
  have 4: "q (entry KERNEL_PML4_PA (level_index 39 va)) = (if level_index 39 va = 0 then KERNEL_PDPT_PA OR 7 else 2)"
    and 3: "q (entry KERNEL_PDPT_PA (level_index 30 va)) = (if level_index 30 va = 0 then KERNEL_PD_PA OR 7 else 2)"
    using assms level_index_less unfolding boot_upper_def by blast+
  consider "level_index 39 va \<noteq> 0" | "level_index 39 va = 0" "level_index 30 va \<noteq> 0"
    | "level_index 39 va = 0" "level_index 30 va = 0" by blast
  then show ?thesis
  proof cases
    case 1
    then have "q (entry KERNEL_PML4_PA (level_index 39 va)) = 2" using 4 by simp
    with 1 show ?thesis by (simp only: hw_walk_def Let_def upper_flags) simp
  next
    case 2
    then have "q (entry KERNEL_PML4_PA (level_index 39 va)) = KERNEL_PDPT_PA OR 7"
      "q (entry KERNEL_PDPT_PA (level_index 30 va)) = 2" using 4 3 by simp_all
    with 2 show ?thesis by (simp only: hw_walk_def Let_def upper_flags) simp
  next
    case z: 3
    then have "q (entry KERNEL_PML4_PA (level_index 39 va)) = KERNEL_PDPT_PA OR 7"
      "q (entry KERNEL_PDPT_PA (level_index 30 va)) = KERNEL_PD_PA OR 7" using 4 3 by simp_all
    with z show ?thesis by (simp only: hw_walk_def walk_directory_def Let_def upper_flags) simp
  qed
qed

lemma canonical_levels:
  assumes "unat va < 2 ^ 48"
  shows "level_index 39 va = 0 \<and> level_index 30 va = 0 \<longleftrightarrow> unat va < 2 ^ 30"
    and "unat va < 2 ^ 30 \<Longrightarrow> level_index 21 va = unat va div 0x200000"
proof -
  let ?v = "unat va"
  have a: "?v div 2 ^ 39 mod 512 = ?v div 2 ^ 39" using assms by simp
  show "level_index 39 va = 0 \<and> level_index 30 va = 0 \<longleftrightarrow> ?v < 2 ^ 30"
  proof
    assume z: "level_index 39 va = 0 \<and> level_index 30 va = 0"
    then have "?v div 2 ^ 39 = 0" using a by (simp only: level_index_nat)
    then have "?v < 2 ^ 39" by (simp add: div_eq_0_iff)
    then have "?v div 2 ^ 30 mod 512 = ?v div 2 ^ 30" by simp
    moreover have "?v div 2 ^ 30 mod 512 = 0" using z by (simp only: level_index_nat)
    ultimately show "?v < 2 ^ 30" by (simp add: div_eq_0_iff)
  next
    assume "?v < 2 ^ 30"
    then have "?v div 2 ^ 39 = 0" "?v div 2 ^ 30 = 0" by simp_all
    then show "level_index 39 va = 0 \<and> level_index 30 va = 0" by (simp only: level_index_nat) simp
  qed
  show "level_index 21 va = ?v div 0x200000" if "?v < 2 ^ 30"
  proof -
    from that have "?v div 2 ^ 21 < 512" by simp
    then show ?thesis by (simp only: level_index_nat) simp
  qed
qed

lemma walk_small:
  assumes "frame_base pt" "frame_base pa" "unat pa + 0x200000 \<le> 2 ^ 48" "fl \<in> {3, 7, 0x1F}"
    and "\<And>j. j < 512 \<Longrightarrow> q (entry pt j) = (pa + 4096 * of_nat j) OR fl"
  shows "walk_directory q (pt OR fl) va = Some (pa + (va AND 0x1FFFFF), fl \<noteq> 3, True)"
proof -
  let ?j = "level_index 12 va"
  have j: "?j < 512" by (rule level_index_less)
  have u: "unat (pa + 4096 * of_nat ?j) = unat pa + 4096 * ?j"
    using j assms(3) by (subst unat_plus_exact) (simp_all add: unat_word_ariths unat_of_nat)
  have "frame_base (pa + 4096 * of_nat ?j)" using u assms(2,3) j by simp
  note f = flagged_entry [OF this assms(4)] and g = flagged_entry [OF assms(1,4)]
  have "q (entry pt ?j) = (pa + 4096 * of_nat ?j) OR fl" by (rule assms(5) [OF j])
  then have "walk_directory q (pt OR fl) va = Some (pa + 4096 * of_nat ?j + (va AND 0xFFF), fl \<noteq> 3, True)"
    by (simp only: walk_directory_def Let_def f g simp_thms if_True if_False)
  then show ?thesis by (simp only: add.assoc offset_split)
qed

lemma walk_large:
  assumes "e < 512" "fl \<in> {3, 7}"
  shows "walk_directory q (0x200000 * of_nat e OR 0x80 OR fl) va = Some (0x200000 * of_nat e + (va AND 0x1FFFFF), fl \<noteq> 3, True)"
  by (simp only: walk_directory_def large_entry [OF assms] simp_thms if_True if_False)

section \<open>The boot address space\<close>

text \<open>
  The regions, by directory entry of two megabytes: physical base and user access. All are writable. The canvas area from
  4 MB on, the module area at 256 MB and the back buffer at 512 MB are mapped onto themselves.
\<close>

definition boot_frame :: "u64 \<Rightarrow> nat \<Rightarrow> (u64 \<times> bool) option" where
  "boot_frame lfb d =
    (if d = 0 then Some (0, False) else if d = 1 then Some (0x2000000, True)
     else if d < 102 then Some (0x200000 * of_nat d, True)
     else if 128 \<le> d \<and> d < 133 then Some (0x200000 * of_nat d, False)
     else if 256 \<le> d \<and> d < 261 then Some (0x200000 * of_nat d, True)
     else if d = 384 then Some (0x100000, False)
     else if d = 385 then Some (lfb, True) else if d = 386 then Some (lfb + 0x200000, True)
     else if d = 387 then Some (0x1800000, True) else if d = 388 then Some (0x1000000, True)
     else if d = 389 then Some (0x1200000, False) else if d = 390 then Some (0x1400000, True)
     else if d = 391 then Some (0x1600000, True) else None)"

lemma act_index_large [simp]: "map act_index (large_acts bits es) = es" "act_index ` set (large_acts bits es) = set es"
  by (induction es) (simp_all add: large_acts_def)

lemma table_count_large [simp]: "table_count (large_acts bits es) = 0"
  by (induction es) (simp_all add: large_acts_def)

lemma boot_acts_indices:
  "distinct (map act_index (boot_acts lfb))" "\<forall>x \<in> set (boot_acts lfb). act_index x < 512"
  "table_count (boot_acts lfb) = 15"
proof -
  show "distinct (map act_index (boot_acts lfb))" by (simp add: boot_acts_def)
  have "act_index ` set (boot_acts lfb) \<subseteq> {..<512}" by (simp add: boot_acts_def image_Un)
  then show "\<forall>x \<in> set (boot_acts lfb). act_index x < 512" by auto
  show "table_count (boot_acts lfb) = 15" by (simp add: boot_acts_def)
qed

lemma boot_index_iff:
  "e \<in> act_index ` set (boot_acts lfb) \<longleftrightarrow>
    e < 102 \<or> 128 \<le> e \<and> e < 133 \<or> 256 \<le> e \<and> e < 261 \<or> 384 \<le> e \<and> e < 392"
  by (simp add: boot_acts_def image_Un del: upt_rec_numeral) presburger

lemma boot_large:
  "2 \<le> e \<Longrightarrow> e < 102 \<Longrightarrow> Large_Page e (0x200000 * of_nat e OR 0x80 OR 7) \<in> set (boot_acts lfb)"
  "128 \<le> e \<Longrightarrow> e < 133 \<Longrightarrow> Large_Page e (0x200000 * of_nat e OR 0x80 OR 3) \<in> set (boot_acts lfb)"
  by (simp_all add: boot_acts_def large_acts_def del: upt_rec_numeral)

lemma boot_small:
  "Table 0 0 3 \<in> set (boot_acts lfb)" "Table (Suc 0) 0x2000000 7 \<in> set (boot_acts lfb)"
  "Table 256 0x20000000 0x1F \<in> set (boot_acts lfb)" "Table 257 0x20200000 0x1F \<in> set (boot_acts lfb)"
  "Table 258 0x20400000 0x1F \<in> set (boot_acts lfb)" "Table 259 0x20600000 0x1F \<in> set (boot_acts lfb)"
  "Table 260 0x20800000 0x1F \<in> set (boot_acts lfb)" "Table 384 0x100000 3 \<in> set (boot_acts lfb)"
  "Table 385 lfb 0x1F \<in> set (boot_acts lfb)" "Table 386 (lfb + 0x200000) 0x1F \<in> set (boot_acts lfb)"
  "Table 387 0x1800000 7 \<in> set (boot_acts lfb)" "Table 388 0x1000000 7 \<in> set (boot_acts lfb)"
  "Table 389 0x1200000 3 \<in> set (boot_acts lfb)" "Table 390 0x1400000 7 \<in> set (boot_acts lfb)"
  "Table 391 0x1600000 7 \<in> set (boot_acts lfb)"
  by (simp_all add: boot_acts_def del: upt_rec_numeral)

text \<open>A directory entry after boot: none, a large page, or a page table with the frames of the region in order.\<close>

definition large_slot :: "nat \<Rightarrow> bool" where
  "large_slot d \<longleftrightarrow> 2 \<le> d \<and> d < 102 \<or> 128 \<le> d \<and> d < 133"

definition small_entry :: "(addr \<Rightarrow> u64) \<Rightarrow> nat \<Rightarrow> u64 \<Rightarrow> u64 \<Rightarrow> u64 \<Rightarrow> bool" where
  "small_entry q d pa fl pt \<longleftrightarrow> q (entry KERNEL_PD_PA d) = pt OR fl \<and> frame_base pt \<and> page_of pt \<le> 0x10 \<and>
     frame_base pa \<and> unat pa + 0x200000 \<le> 2 ^ 48 \<and> fl \<in> {3, 7, 0x1F} \<and> (\<forall>j < 512. q (entry pt j) = (pa + 4096 * of_nat j) OR fl)"

definition boot_entry :: "u64 \<Rightarrow> (addr \<Rightarrow> u64) \<Rightarrow> nat \<Rightarrow> bool" where
  "boot_entry lfb q d \<longleftrightarrow>
    (if large_slot d then \<exists>fl \<in> {3, 7}. boot_frame lfb d = Some (0x200000 * of_nat d, fl \<noteq> 3) \<and>
       q (entry KERNEL_PD_PA d) = 0x200000 * of_nat d OR 0x80 OR fl
     else case boot_frame lfb d of None \<Rightarrow> q (entry KERNEL_PD_PA d) = 2
       | Some (pa, u) \<Rightarrow> \<exists>fl pt. small_entry q d pa fl pt \<and> u = (fl \<noteq> 3))"

lemma boot_acts_entry:
  assumes d: "acts_done (boot_acts lfb) (q, 0x1000) m" and lfb: "page_aligned lfb" "unat lfb + 0x400000 \<le> 2 ^ 48"
    and other: "\<forall>e < 512. q (entry KERNEL_PD_PA e) = 2" and e: "e < 512"
  shows "boot_entry lfb (fst m) e"
proof -
  have small: "boot_entry lfb (fst m) e"
    if "Table e pa fl \<in> set (boot_acts lfb)" "frame_base pa" "unat pa + 0x200000 \<le> 2 ^ 48" "fl \<in> {3, 7, 0x1F}"
      "boot_frame lfb e = Some (pa, fl \<noteq> 3)" "\<not> large_slot e" for pa fl
  proof -
    from acts_done_table [OF d that(1)] obtain pt where pt: "page_aligned pt"
      "page_of pt \<le> page_of (snd (q, 0x1000 :: u64)) + table_count (boot_acts lfb)"
      "fst m (entry KERNEL_PD_PA e) = pt OR fl"
      "\<And>j. j < 512 \<Longrightarrow> fst m (entry pt j) = (pa + 4096 * of_nat j) OR fl" by metis
    from pt(2) have "unat pt < 2 ^ 48" "page_of pt \<le> 0x10" by (simp_all add: boot_acts_indices)
    with pt that have "small_entry (fst m) e pa fl pt" unfolding small_entry_def by blast
    with that(5,6) show ?thesis by (auto simp: boot_entry_def)
  qed
  have large: "boot_entry lfb (fst m) e"
    if "Large_Page e (0x200000 * of_nat e OR 0x80 OR fl) \<in> set (boot_acts lfb)" "fl \<in> {3, 7}"
      "boot_frame lfb e = Some (0x200000 * of_nat e, fl \<noteq> 3)" "large_slot e" for fl
  proof -
    have "fst m (entry KERNEL_PD_PA e) = 0x200000 * of_nat e OR 0x80 OR fl"
      using d that(1) unfolding acts_done_def by blast
    with that(2,3,4) show ?thesis unfolding boot_entry_def by auto
  qed
  consider "e < 2" | "2 \<le> e" "e < 102" | "128 \<le> e" "e < 133" | "256 \<le> e" "e < 261" | "384 \<le> e" "e < 387"
    | "387 \<le> e" "e < 392" | "e \<notin> act_index ` set (boot_acts lfb)"
    unfolding boot_index_iff by linarith
  then show ?thesis
  proof cases
    case 1
    then have "e = 0 \<or> e = Suc 0" by auto
    then show ?thesis using small [of 0 3] small [of "0x2000000" 7]
      by (elim disjE) (simp_all add: boot_frame_def boot_small large_slot_def)
  next
    case 2
    then show ?thesis by (intro large [OF boot_large(1)]) (simp_all add: boot_frame_def large_slot_def)
  next
    case 3
    then show ?thesis by (intro large [OF boot_large(2)]) (simp_all add: boot_frame_def large_slot_def)
  next
    case 4
    then have "e = 256 \<or> e = 257 \<or> e = 258 \<or> e = 259 \<or> e = 260" by auto
    then show ?thesis using small [of "0x200000 * of_nat e" "0x1F"]
      by (elim disjE) (simp_all add: boot_frame_def boot_small large_slot_def)
  next
    case 5
    have "unat (lfb + 0x200000) = unat lfb + 0x200000" using lfb by (subst unat_plus_exact) simp_all
    moreover have "(unat lfb + 0x200000) mod 4096 = 0" using lfb(1) by (simp add: mod_add_eq [symmetric])
    moreover have "e = 384 \<or> e = 385 \<or> e = 386" using 5 by auto
    ultimately show ?thesis using small [of "0x100000" 3] small [of lfb "0x1F"] small [of "lfb + 0x200000" "0x1F"] lfb
      by (elim disjE) (simp_all add: boot_frame_def boot_small large_slot_def)
  next
    case 6
    then have "e = 387 \<or> e = 388 \<or> e = 389 \<or> e = 390 \<or> e = 391" by auto
    then show ?thesis using small [of "0x1800000" 7] small [of "0x1000000" 7] small [of "0x1200000" 3]
        small [of "0x1400000" 7] small [of "0x1600000" 7]
      by (elim disjE) (simp_all add: boot_frame_def boot_small large_slot_def)
  next
    case 7
    then have "fst m (entry KERNEL_PD_PA e) = q (entry KERNEL_PD_PA e)" using d e unfolding acts_done_def by simp
    moreover have "boot_frame lfb e = None" "\<not> large_slot e" using 7 unfolding boot_index_iff boot_frame_def large_slot_def by auto
    ultimately show ?thesis using other e by (simp add: boot_entry_def)
  qed
qed

lemma boot_entry_walk:
  assumes "boot_entry lfb q e" "e < 512"
  shows "walk_directory q (q (entry KERNEL_PD_PA e)) va =
    map_option (\<lambda>(b, u). (b + (va AND 0x1FFFFF), u, True)) (boot_frame lfb e)"
proof (cases "large_slot e")
  case True
  with assms(1) obtain fl where "fl \<in> {3, 7}" "boot_frame lfb e = Some (0x200000 * of_nat e, fl \<noteq> 3)"
    "q (entry KERNEL_PD_PA e) = 0x200000 * of_nat e OR 0x80 OR fl" unfolding boot_entry_def by auto
  then show ?thesis using walk_large [OF assms(2)] by simp
next
  case False
  show ?thesis
  proof (cases "boot_frame lfb e")
    case None
    with False assms(1) show ?thesis by (simp add: boot_entry_def walk_directory_def)
  next
    case (Some r)
    obtain pa u where r: "r = (pa, u)" by (cases r)
    with Some False assms(1) obtain fl pt where "small_entry q e pa fl pt" "u = (fl \<noteq> 3)"
      by (auto simp: boot_entry_def)
    then have "walk_directory q (q (entry KERNEL_PD_PA e)) va = Some (pa + (va AND 0x1FFFFF), fl \<noteq> 3, True)"
      using walk_small unfolding small_entry_def by metis
    then show ?thesis by (simp only: Some r \<open>u = (fl \<noteq> 3)\<close>) simp
  qed
qed

text \<open>The top-level tables before the regions are installed.\<close>

lemma fresh_tables:
  assumes "i < 512"
  shows "qmem (link_kernel_tables (clear_table KERNEL_PD_PA (clear_table KERNEL_PDPT_PA (clear_table KERNEL_PML4_PA s))))
      (entry KERNEL_PML4_PA i) = (if i = 0 then KERNEL_PDPT_PA OR 7 else 2)"
    "qmem (link_kernel_tables (clear_table KERNEL_PD_PA (clear_table KERNEL_PDPT_PA (clear_table KERNEL_PML4_PA s))))
      (entry KERNEL_PDPT_PA i) = (if i = 0 then KERNEL_PD_PA OR 7 else 2)"
    "qmem (link_kernel_tables (clear_table KERNEL_PD_PA (clear_table KERNEL_PDPT_PA (clear_table KERNEL_PML4_PA s))))
      (entry KERNEL_PD_PA i) = 2"
proof -
  have al: "page_aligned KERNEL_PD_PA" "page_aligned KERNEL_PDPT_PA" "page_aligned KERNEL_PML4_PA"
    "KERNEL_PD_PA \<noteq> KERNEL_PDPT_PA" "KERNEL_PD_PA \<noteq> KERNEL_PML4_PA" "KERNEL_PDPT_PA \<noteq> KERNEL_PML4_PA"
    by (simp_all add: page_table_consts)
  have f: "PAGE_USER OR PAGE_WRITE OR PAGE_PRESENT = 7" by (simp add: page_table_consts)
  note e = entry_eq_iff [OF al(1) al(1)] entry_eq_iff [OF al(2) al(2)] entry_eq_iff [OF al(3) al(3)]
    entry_eq_iff [OF al(1) al(2)] entry_eq_iff [OF al(2) al(1)] entry_eq_iff [OF al(1) al(3)] entry_eq_iff [OF al(3) al(1)]
    entry_eq_iff [OF al(2) al(3)] entry_eq_iff [OF al(3) al(2)]
  have m: "entry KERNEL_PML4_PA i \<in> entry KERNEL_PML4_PA ` {..<512}" "entry KERNEL_PDPT_PA i \<in> entry KERNEL_PDPT_PA ` {..<512}"
    "entry KERNEL_PD_PA i \<in> entry KERNEL_PD_PA ` {..<512}" using assms by auto
  have n: "entry KERNEL_PML4_PA i \<notin> entry KERNEL_PDPT_PA ` {..<512}" "entry KERNEL_PML4_PA i \<notin> entry KERNEL_PD_PA ` {..<512}"
    "entry KERNEL_PDPT_PA i \<notin> entry KERNEL_PD_PA ` {..<512}" using assms al e by auto
  note d = link_kernel_tables_def write_entry_def read_entry_def clear_table_mem Let_def f
  show "qmem (link_kernel_tables (clear_table KERNEL_PD_PA (clear_table KERNEL_PDPT_PA (clear_table KERNEL_PML4_PA s))))
      (entry KERNEL_PML4_PA i) = (if i = 0 then KERNEL_PDPT_PA OR 7 else 2)"
    using assms al e m n by (simp add: d)
  show "qmem (link_kernel_tables (clear_table KERNEL_PD_PA (clear_table KERNEL_PDPT_PA (clear_table KERNEL_PML4_PA s))))
      (entry KERNEL_PDPT_PA i) = (if i = 0 then KERNEL_PD_PA OR 7 else 2)"
    using assms al e m n by (simp add: d)
  show "qmem (link_kernel_tables (clear_table KERNEL_PD_PA (clear_table KERNEL_PDPT_PA (clear_table KERNEL_PML4_PA s))))
      (entry KERNEL_PD_PA i) = 2"
    using assms al e m n by (simp add: d)
qed

lemma exec_acts_pointer: "snd (exec_acts acts (q, tp)) = tp + 0x1000 * of_nat (table_count acts)"
proof (induction acts arbitrary: q tp)
  case (Cons x acts)
  show ?case using Cons.IH [of "fst (exec_act x (q, tp))" "snd (exec_act x (q, tp))"]
    by (cases x) (simp_all add: distrib_left add.assoc del: fun_upd_apply)
qed simp

lemma fresh_tables_frame:
  "SMALL (link_kernel_tables s) = SMALL s" "kernel_mm_data (link_kernel_tables s) = kernel_mm_data s"
  "MemorySizeInfo (link_kernel_tables s) = MemorySizeInfo s" "gKernelPML4Address (link_kernel_tables s) = gKernelPML4Address s"
  "table_pointer_heap_base (link_kernel_tables s) = table_pointer_heap_base s"
  "SMALL (clear_table b s) = SMALL s" "kernel_mm_data (clear_table b s) = kernel_mm_data s"
  "MemorySizeInfo (clear_table b s) = MemorySizeInfo s" "gKernelPML4Address (clear_table b s) = gKernelPML4Address s"
  "table_pointer_heap_base (clear_table b s) = table_pointer_heap_base s"
  by (simp_all add: link_kernel_tables_def write_entry_def clear_table_mem Let_def)

lemma frame_table_run:
  assumes "ms_initialized (MemorySizeInfo s)" "256 * 1024 \<le> MemoryTotal (MemorySizeInfo s)"
  shows "\<exists>s'. I_initialize_frame_table s = Inr (0, s') \<and> qmem s' = qmem s \<and> kernel_mm_data s' = kernel_mm_data s \<and>
    gKernelPML4Address s' = gKernelPML4Address s \<and> g_pagedpool_va s' = g_pagedpool_va s \<and>
    table_pointer_heap_base s' = table_pointer_heap_base s \<and>
    ft_size_in_frames (FT s') = 30720 \<and> ft_number_of_reserved_frames (FT s') = 30720 - 1024 \<and> ft_initialized (FT s')"
  using assms
  by (auto simp: I_initialize_frame_table_def frame_table_finish_def frame_table_sizes_def Let_def FRAMETABLE_START_PA_def
      FRAMETABLE_END_PA_def FT_TOTAL_FRAMES_def FT_NUMBER_OF_SYSTEM_FRAMES_def FT_NUMBER_OF_USER_FRAMES_def)

text \<open>What the boot code needs from the boot loader: memory sizes, an aligned frame buffer and unused table space.\<close>

definition boot_ready :: "mm_state \<Rightarrow> bool" where
  "boot_ready s \<longleftrightarrow> table_pointer_heap_base s = TABLE_POINTER_HEAP_BASE \<and> page_aligned (gSavedLFB s) \<and>
     unat (gSavedLFB s) + 0x400000 \<le> 2 ^ 48 \<and> ms_initialized (MemorySizeInfo s) \<and> 256 * 1024 \<le> MemoryTotal (MemorySizeInfo s)"

text \<open>The tables the boot code leaves: the upper levels and the entries of the page directory.\<close>

definition boot_tables :: "u64 \<Rightarrow> (addr \<Rightarrow> u64) \<Rightarrow> bool" where
  "boot_tables lfb q \<longleftrightarrow> boot_upper q \<and> (\<forall>e < 512. boot_entry lfb q e)"

lemma boot_tables_built:
  assumes "boot_ready s"
  shows "\<exists>s'. pagesInitializePaging s = Inr (0, s') \<and> boot_tables (gSavedLFB s) (qmem s') \<and> mm_cr3 s' = KERNEL_PML4_PA \<and>
    pool_set s' \<and> gKernelPML4Address s' = KERNEL_PML4_VA \<and> table_pointer_heap_base s' = 0x10000 \<and>
    ft_size_in_frames (FT s') = 30720 \<and> ft_number_of_reserved_frames (FT s') = 30720 - 1024"
proof -
  define lfb where "lfb = gSavedLFB s"
  define d where "d = \<lparr>md_used = True, md_magic = 1234, md_pml4_va = KERNEL_PML4_PA, md_pml4_pa = KERNEL_PML4_PA,
              md_pdpt0_va = KERNEL_PDPT_PA, md_pdpt0_pa = KERNEL_PDPT_PA,
              md_pd0_va = KERNEL_PD_PA, md_pd0_pa = KERNEL_PD_PA\<rparr>"
  define s1 where "s1 = (initialize_canonical_physical_regions (initialize_ram_usage_variables s))
    \<lparr>gKernelPML4Address := KERNEL_PML4_VA, kernel_mm_data := d\<rparr>"
  define s2 where "s2 = link_kernel_tables (clear_table KERNEL_PD_PA (clear_table KERNEL_PDPT_PA (clear_table KERNEL_PML4_PA s1)))"
  have s1: "SMALL s1 = canonical_of lfb" "kernel_mm_data s1 = d" "gKernelPML4Address s1 = KERNEL_PML4_VA"
    "table_pointer_heap_base s1 = 0x1000" "ms_initialized (MemorySizeInfo s1)" "256 * 1024 \<le> MemoryTotal (MemorySizeInfo s1)"
    using assms by (simp_all add: s1_def boot_ready_def initialize_canonical_physical_regions_def
        initialize_ram_usage_variables_def lfb_def TABLE_POINTER_HEAP_BASE_def)
  have s2: "SMALL s2 = canonical_of lfb" "kernel_mm_data s2 = d" "gKernelPML4Address s2 = KERNEL_PML4_VA"
    "table_pointer_heap_base s2 = 0x1000" "MemorySizeInfo s2 = MemorySizeInfo s1"
    by (simp_all add: s2_def fresh_tables_frame s1)
  have "room (0x1000 :: u64) (table_count (boot_acts lfb))" by (simp add: room_def boot_acts_indices)
  then obtain s3 where s3: "initialize_canonical_kernel_pagetables s2 = Inr s3" "pool_set s3" "kernel_mm_data s3 = d"
      "MemorySizeInfo s3 = MemorySizeInfo s1" "gKernelPML4Address s3 = KERNEL_PML4_VA"
      "(qmem s3, table_pointer_heap_base s3) = exec_acts (boot_acts lfb) (qmem s2, 0x1000)"
    using boot_step [of lfb] s2 unfolding region_step_def by auto
  have built: "acts_done (boot_acts lfb) (qmem s2, 0x1000) (qmem s3, table_pointer_heap_base s3)"
    unfolding s3(6) by (rule exec_acts_done) (simp_all add: boot_acts_indices room_def)
  have "table_pointer_heap_base s3 = snd (exec_acts (boot_acts lfb) (qmem s2, 0x1000))" by (simp flip: s3(6))
  then have tp: "table_pointer_heap_base s3 = 0x10000" by (simp add: exec_acts_pointer boot_acts_indices)
  have upper: "qmem s3 (entry b i) = qmem s2 (entry b i)" if "b \<in> {KERNEL_PML4_PA, KERNEL_PDPT_PA}" "i < 512" for b i
  proof -
    have "page_aligned b" "page_of b \<noteq> page_of KERNEL_PD_PA" "0x10 < page_of b"
      using that(1) by (auto simp: page_table_consts)
    moreover from this(1) that(2) have "page_of (entry b i) = page_of b" by (rule entry_page)
    ultimately show ?thesis using built by (simp add: acts_done_def boot_acts_indices)
  qed
  have "boot_upper (qmem s3)"
    using upper fresh_tables(1,2) by (simp add: boot_upper_def s2_def)
  moreover have e2: "\<forall>e < 512. qmem s2 (entry KERNEL_PD_PA e) = 2" using fresh_tables(3) by (simp add: s2_def)
  have l: "page_aligned lfb" "unat lfb + 0x400000 \<le> 2 ^ 48" using assms unfolding boot_ready_def lfb_def by blast+
  have "\<forall>e < 512. boot_entry lfb (qmem s3) e"
    using boot_acts_entry [OF built l e2] unfolding fst_conv by blast
  ultimately have bt: "boot_tables lfb (qmem s3)" unfolding boot_tables_def by blast
  from frame_table_run [of s3] s1(5,6) s3(4) obtain s4 where s4: "I_initialize_frame_table s3 = Inr (0, s4)"
      "qmem s4 = qmem s3" "kernel_mm_data s4 = d" "gKernelPML4Address s4 = KERNEL_PML4_VA" "g_pagedpool_va s4 = PAGEDPOOL_VA"
      "table_pointer_heap_base s4 = 0x10000" "ft_size_in_frames (FT s4) = 30720" "ft_number_of_reserved_frames (FT s4) = 30720 - 1024"
    using s3(2,3,5) tp by auto
  have "pagesInitializePaging s = Inr (0, (mmSetupMemoryUsage s4)\<lparr>mm_cr3 := md_pml4_pa (kernel_mm_data (mmSetupMemoryUsage s4))\<rparr>)"
    using s3(1) s4(1) unfolding pagesInitializePaging_def Let_def s2_def s1_def d_def
    by (simp add: page_table_consts)
  then show ?thesis
    using bt s4 by (simp add: mmSetupMemoryUsage_def Let_def lfb_def d_def)
qed

lemma boot_tables_walk:
  assumes "boot_tables lfb q" "unat va < 2 ^ 48"
  shows "hw_walk q KERNEL_PML4_PA va = (if unat va < 2 ^ 30
    then map_option (\<lambda>(b, u). (b + (va AND 0x1FFFFF), u, True)) (boot_frame lfb (unat va div 0x200000)) else None)"
proof -
  have q: "boot_upper q" "boot_entry lfb q (level_index 21 va)"
    using assms(1) level_index_less unfolding boot_tables_def by blast+
  note w = boot_entry_walk [OF q(2) level_index_less [of 21 va], of va]
  show ?thesis
  proof (cases "unat va < 2 ^ 30")
    case True
    then have z: "level_index 39 va = 0 \<and> level_index 30 va = 0" using canonical_levels(1) [OF assms(2)] by blast
    have d: "level_index 21 va = unat va div 0x200000" by (rule canonical_levels(2) [OF assms(2) True])
    have "hw_walk q KERNEL_PML4_PA va = walk_directory q (q (entry KERNEL_PD_PA (level_index 21 va))) va"
      by (simp only: hw_walk_boot [OF q(1)] z simp_thms if_True)
    also have "\<dots> = map_option (\<lambda>(b, u). (b + (va AND 0x1FFFFF), u, True)) (boot_frame lfb (unat va div 0x200000))"
      using w unfolding d .
    finally show ?thesis using True by simp
  next
    case False
    then have "\<not> (level_index 39 va = 0 \<and> level_index 30 va = 0)" using canonical_levels(1) [OF assms(2)] by blast
    then show ?thesis using False by (simp only: hw_walk_boot [OF q(1)] if_False)
  qed
qed

text \<open>The boot as one fact: it returns, and this is the processor's translation afterwards.\<close>

definition boot_translation :: "u64 \<Rightarrow> u64 \<Rightarrow> (u64 \<times> bool \<times> bool) option" where
  "boot_translation lfb va = (if unat va < 2 ^ 30
     then map_option (\<lambda>(b, u). (b + (va AND 0x1FFFFF), u, True)) (boot_frame lfb (unat va div 0x200000)) else None)"

lemma boot_run:
  assumes "boot_ready s"
  obtains s' where "pagesInitializePaging s = Inr (0, s')" "boot_tables (gSavedLFB s) (qmem s')" "mm_cr3 s' = KERNEL_PML4_PA"
    "pool_set s'" "gKernelPML4Address s' = KERNEL_PML4_VA" "table_pointer_heap_base s' = 0x10000"
    "\<And>va. unat va < 2 ^ 48 \<Longrightarrow> hw_walk (qmem s') (mm_cr3 s') va = boot_translation (gSavedLFB s) va"
proof -
  note o = that
  from boot_tables_built [OF assms] obtain s' where s': "pagesInitializePaging s = Inr (0, s')"
    "boot_tables (gSavedLFB s) (qmem s')" "mm_cr3 s' = KERNEL_PML4_PA" "pool_set s'" "gKernelPML4Address s' = KERNEL_PML4_VA"
    "table_pointer_heap_base s' = 0x10000" by blast
  have "hw_walk (qmem s') (mm_cr3 s') va = boot_translation (gSavedLFB s) va" if "unat va < 2 ^ 48" for va
    unfolding s'(3) boot_translation_def by (rule boot_tables_walk [OF s'(2) that])
  with s' show ?thesis by (rule o)
qed

lemma large_unat: "d < 512 \<Longrightarrow> unat (0x200000 * of_nat d :: u64) = 0x200000 * d"
  by (simp add: unat_word_ariths unat_of_nat)

lemma boot_frame_user:
  assumes "boot_frame lfb d = Some (b, True)" "0x400000 \<le> unat lfb" "unat lfb + 0x400000 \<le> 2 ^ 48"
  shows "0x400000 \<le> unat b \<and> unat b < 2 ^ 48"
proof -
  have u: "unat (lfb + 0x200000) = unat lfb + 0x200000" using assms(3) by (subst unat_plus_exact) simp_all
  consider "d = 1" | "2 \<le> d" "d < 261" "b = 0x200000 * of_nat d" | "b = lfb" | "b = lfb + 0x200000"
    | "b \<in> {0x1800000, 0x1000000, 0x1400000, 0x1600000}"
    using assms(1) by (auto simp: boot_frame_def split: if_splits)
  then show ?thesis
  proof cases
    case 2
    then have "unat b = 0x200000 * d" using large_unat [of d] by simp
    with 2 show ?thesis by simp
  qed (use assms u in \<open>auto simp: boot_frame_def\<close>)
qed

lemma canvas_identity:
  assumes "0x400000 \<le> a" "a < 0xCC00000"
  shows "boot_translation lfb a = Some (a, True, True)"
proof -
  have n: "0x400000 \<le> unat a" "unat a < 0xCC00000" using assms by (simp_all add: unat_le_iff unat_less_iff)
  then have d: "2 \<le> unat a div 0x200000" "unat a div 0x200000 < 102" by auto
  have "0x200000 * (unat a div 0x200000) + unat a mod 0x200000 = unat a" by simp
  then have "unat (0x200000 * of_nat (unat a div 0x200000) + (a AND 0x1FFFFF)) = unat a"
    using d n by (subst unat_plus_exact) (simp_all only: large_unat low_bits, simp_all)
  then have "0x200000 * of_nat (unat a div 0x200000) + (a AND 0x1FFFFF) = a" by (simp only: word_unat_eq_iff)
  with d n show ?thesis by (simp add: boot_translation_def boot_frame_def)
qed

section \<open>The software walk\<close>

lemma v2p_guards:
  "\<not> (512 :: u64) \<le> drop_bit k va AND 0x1FF" "\<not> (4096 :: u64) \<le> va AND 0xFFF"
proof -
  have "unat (drop_bit k va AND 0x1FF) < 512" by (rule level_index_less)
  then show "\<not> (512 :: u64) \<le> drop_bit k va AND 0x1FF" by (simp add: unat_le_iff)
  have "unat (va AND 0xFFF) < 4096" by (simp add: low_bits)
  then show "\<not> (4096 :: u64) \<le> va AND 0xFFF" by (simp add: unat_le_iff)
qed

lemma v2p_boot:
  assumes "boot_upper (qmem s)"
  shows "virtual_to_physical va KERNEL_PML4_VA s =
    (if level_index 39 va \<noteq> 0 then Inl (Die ''__virtual_to_physical: [TODO] a != 0'')
     else if level_index 30 va \<noteq> 0 then Inl (Die ''__virtual_to_physical: [TODO] b != 0'')
     else Inr ((qmem s (entry (qmem s (entry KERNEL_PD_PA (level_index 21 va)) AND 0xFFFFFFFFF000) (level_index 12 va))
       AND 0xFFFFFFFFF000) + (va AND 0xFFF)))"
proof -
  have z: "drop_bit k va AND 0x1FF = 0 \<longleftrightarrow> level_index k va = 0" for k by (simp only: unat_eq_zero)
  have e: "qmem s (entry KERNEL_PML4_VA 0) = KERNEL_PDPT_PA OR 7" "qmem s (entry KERNEL_PDPT_PA 0) = KERNEL_PD_PA OR 7"
    using assms by (simp_all add: boot_upper_def KERNEL_PML4_VA_def KERNEL_PML4_PA_def)
  have n: "KERNEL_PML4_VA \<noteq> 0" "\<not> (512 :: u64) \<le> 0" by (simp_all add: KERNEL_PML4_VA_def)
  show ?thesis
  proof (cases "level_index 39 va = 0 \<and> level_index 30 va = 0")
    case True
    then have "drop_bit 39 va AND 0x1FF = 0" "drop_bit 30 va AND 0x1FF = 0" by (simp_all only: z)
    then show ?thesis
      by (simp only: virtual_to_physical_def Let_def v2p_guards simp_thms if_False if_True read_entry_def n
          unsigned_0 e upper_flags not_True_eq_False)
  next
    case False
    then show ?thesis
      by (simp only: virtual_to_physical_def Let_def v2p_guards simp_thms if_False z n) auto
  qed
qed

text \<open>What the software walk yields: right for small pages, a word of the frame itself for large ones.\<close>

definition v2p_result :: "u64 \<Rightarrow> (addr \<Rightarrow> u64) \<Rightarrow> u64 \<Rightarrow> u64" where
  "v2p_result lfb q va =
    (case boot_frame lfb (unat va div 0x200000) of
       None \<Rightarrow> (q (entry 0 (level_index 12 va)) AND 0xFFFFFFFFF000) + (va AND 0xFFF)
     | Some (b, u) \<Rightarrow> if large_slot (unat va div 0x200000)
         then (q (entry b (level_index 12 va)) AND 0xFFFFFFFFF000) + (va AND 0xFFF) else b + (va AND 0x1FFFFF))"

lemma large_base_mask:
  assumes "e < 512" "fl \<in> {3, 7}"
  shows "(0x200000 * of_nat e OR 0x80 OR fl :: u64) AND 0xFFFFFFFFF000 = 0x200000 * of_nat e"
proof -
  have u: "unat (0x200000 * of_nat e :: u64) = 0x200000 * e" by (rule large_unat [OF assms(1)])
  have "0x200000 * e mod 4096 = 0" by simp
  then have "(0x200000 * of_nat e :: u64) AND 0xFFFFFFFFF000 = 0x200000 * of_nat e"
    using assms(1) by (intro frame_mask) (simp_all add: u)
  moreover have "(0x80 OR fl) AND 0xFFFFFFFFF000 = (0 :: u64)" using assms(2) by auto
  ultimately show ?thesis by (simp only: or.assoc bit.conj_disj_distrib2) simp
qed

lemma v2p_boot_entry:
  assumes "boot_entry lfb q e" "e < 512"
  shows "(q (entry (q (entry KERNEL_PD_PA e) AND 0xFFFFFFFFF000) (level_index 12 va)) AND 0xFFFFFFFFF000) + (va AND 0xFFF) =
    (case boot_frame lfb e of
       None \<Rightarrow> (q (entry 0 (level_index 12 va)) AND 0xFFFFFFFFF000) + (va AND 0xFFF)
     | Some (b, u) \<Rightarrow> if large_slot e
         then (q (entry b (level_index 12 va)) AND 0xFFFFFFFFF000) + (va AND 0xFFF) else b + (va AND 0x1FFFFF))"
proof (cases "large_slot e")
  case True
  with assms(1) obtain fl where "fl \<in> {3, 7}" "boot_frame lfb e = Some (0x200000 * of_nat e, fl \<noteq> 3)"
    "q (entry KERNEL_PD_PA e) = 0x200000 * of_nat e OR 0x80 OR fl" unfolding boot_entry_def by auto
  then show ?thesis using True large_base_mask [OF assms(2)] by simp
next
  case False
  show ?thesis
  proof (cases "boot_frame lfb e")
    case None
    with False assms(1) show ?thesis by (simp add: boot_entry_def)
  next
    case (Some r)
    obtain pa u where r: "r = (pa, u)" by (cases r)
    with Some False assms(1) obtain fl pt where "small_entry q e pa fl pt" by (auto simp: boot_entry_def)
    then have s: "q (entry KERNEL_PD_PA e) = pt OR fl" "frame_base pt" "frame_base pa" "unat pa + 0x200000 \<le> 2 ^ 48"
      "fl \<in> {3, 7, 0x1F}" "q (entry pt (level_index 12 va)) = (pa + 4096 * of_nat (level_index 12 va)) OR fl"
      using level_index_less unfolding small_entry_def by blast+
    let ?j = "level_index 12 va"
    have "unat (pa + 4096 * of_nat ?j) = unat pa + 4096 * ?j"
      using level_index_less [of 12 va] s(4) by (subst unat_plus_exact) (simp_all add: unat_word_ariths unat_of_nat)
    then have "frame_base (pa + 4096 * of_nat ?j)" using s(3,4) level_index_less [of 12 va] by simp
    note f = flagged_entry(1) [OF this s(5)]
    have "(q (entry (q (entry KERNEL_PD_PA e) AND 0xFFFFFFFFF000) ?j) AND 0xFFFFFFFFF000) + (va AND 0xFFF) =
        pa + 4096 * of_nat ?j + (va AND 0xFFF)"
      by (simp only: s(1) flagged_entry(1) [OF s(2,5)] s(6) f)
    then have "(q (entry (q (entry KERNEL_PD_PA e) AND 0xFFFFFFFFF000) ?j) AND 0xFFFFFFFFF000) + (va AND 0xFFF) =
        pa + (va AND 0x1FFFFF)" by (simp only: add.assoc offset_split)
    then show ?thesis using False by (simp only: Some r) simp
  qed
qed

lemma v2p_low:
  assumes "boot_tables lfb (qmem s)" "unat va < 2 ^ 30"
  shows "virtual_to_physical va KERNEL_PML4_VA s = Inr (v2p_result lfb (qmem s) va)"
proof -
  have q: "boot_upper (qmem s)" "boot_entry lfb (qmem s) (level_index 21 va)"
    using assms(1) level_index_less unfolding boot_tables_def by blast+
  have v: "unat va < 2 ^ 48" using assms(2) by simp
  have z: "level_index 39 va = 0" "level_index 30 va = 0" using canonical_levels(1) [OF v] assms(2) by blast+
  have d: "level_index 21 va = unat va div 0x200000" by (rule canonical_levels(2) [OF v assms(2)])
  show ?thesis unfolding v2p_result_def d [symmetric] v2p_boot_entry [OF q(2) level_index_less, symmetric]
    by (simp only: v2p_boot [OF q(1)] z simp_thms if_False not_True_eq_False)
qed

section \<open>Properties\<close>

text \<open>
  Claim C2. The boot code builds one address space: from a boot-ready state \<^verbatim>\<open>pagesInitializePaging\<close> returns 0 with the
  kernel tables active, and the processor then translates every canonical address of the lower half exactly as the table
  of regions says, with its user bit and write access; no address from 1 GB on is mapped.
\<close>

theorem boot_address_space:
  assumes "boot_ready s"
  shows "\<exists>s'. pagesInitializePaging s = Inr (0, s') \<and>
    (\<forall>va. unat va < 2 ^ 48 \<longrightarrow> hw_walk (qmem s') (mm_cr3 s') va = boot_translation (gSavedLFB s) va)"
  using boot_run [OF assms] by metis

text \<open>
  Claim C6. Kernel memory is out of reach of user mode: after boot, no address that user mode may use leads to the frames
  of the first four megabytes, where the page tables, the kernel image, the kernel heap and the kernel stack
  are. Outside them the protection has a hole: the canvas area maps every frame from 4 MB to 204 MB for user mode, the first
  extra heap, which has a region of its own for the kernel only, included.
\<close>

theorem kernel_frames_protected:
  assumes "boot_ready s" and "0x400000 \<le> gSavedLFB s"
  shows "\<exists>s'. pagesInitializePaging s = Inr (0, s') \<and>
    (\<forall>va pa w. unat va < 2 ^ 48 \<longrightarrow> hw_walk (qmem s') (mm_cr3 s') va = Some (pa, True, w) \<longrightarrow> 0x400000 \<le> pa) \<and>
    (\<forall>a. 0x400000 \<le> a \<longrightarrow> a < 0xCC00000 \<longrightarrow> hw_walk (qmem s') (mm_cr3 s') a = Some (a, True, True)) \<and>
    hw_walk (qmem s') (mm_cr3 s') EXTRAHEAP1_VA = Some (EXTRAHEAP1_PA, False, True)"
proof -
  from boot_run [OF assms(1)] obtain s' where run: "pagesInitializePaging s = Inr (0, s')"
    and w: "\<And>va. unat va < 2 ^ 48 \<Longrightarrow> hw_walk (qmem s') (mm_cr3 s') va = boot_translation (gSavedLFB s) va" by metis
  have l: "0x400000 \<le> unat (gSavedLFB s)" "unat (gSavedLFB s) + 0x400000 \<le> 2 ^ 48"
    using assms unfolding boot_ready_def by (simp_all add: unat_le_iff)
  have "0x400000 \<le> pa" if v: "unat va < 2 ^ 48" and h: "hw_walk (qmem s') (mm_cr3 s') va = Some (pa, True, x)" for va pa x
  proof -
    from h obtain b where b: "boot_frame (gSavedLFB s) (unat va div 0x200000) = Some (b, True)"
        "pa = b + (va AND 0x1FFFFF)"
      by (auto simp: w [OF v] boot_translation_def split: if_splits)
    note u = boot_frame_user [OF b(1) l]
    have "unat va mod 0x200000 < 0x200000" by simp
    then have "unat pa = unat b + unat va mod 0x200000" using u b(2) by (simp only: b(2), subst unat_plus_exact) (simp_all add: low_bits)
    then show ?thesis using u by (simp add: unat_le_iff)
  qed
  moreover have "hw_walk (qmem s') (mm_cr3 s') a = Some (a, True, True)" if "0x400000 \<le> a" "a < 0xCC00000" for a
  proof -
    have "unat a < 2 ^ 48" using that(2) by (simp add: unat_less_iff)
    then show ?thesis using w canvas_identity [OF that] by simp
  qed
  moreover have "hw_walk (qmem s') (mm_cr3 s') EXTRAHEAP1_VA = Some (EXTRAHEAP1_PA, False, True)"
    by (simp add: w EXTRAHEAP1_VA_def EXTRAHEAP1_PA_def boot_translation_def boot_frame_def)
  ultimately show ?thesis using run by blast
qed

text \<open>
  Claim C37. The software walk \<^verbatim>\<open>virtual_to_physical\<close> on the boot tables: it gives the processor's translation on every
  region with small pages; on a large page it takes the mapped frame for a page table and returns a word of its contents, on an
  unmapped address it reads a table at address 0, and from 1 GB on it never returns.
\<close>

theorem software_walk_result:
  assumes "boot_ready s" and "pagesInitializePaging s = Inr (0, s')" and "unat va < 2 ^ 48"
  shows "(unat va < 2 ^ 30 \<longrightarrow> virtual_to_physical va (gKernelPML4Address s') s' = Inr (v2p_result (gSavedLFB s) (qmem s') va)) \<and>
    (2 ^ 30 \<le> unat va \<longrightarrow> (\<exists>m. virtual_to_physical va (gKernelPML4Address s') s' = Inl (Die m))) \<and>
    (\<forall>b u w. hw_walk (qmem s') (mm_cr3 s') va = Some (b, u, w) \<longrightarrow> \<not> large_slot (unat va div 0x200000) \<longrightarrow>
       virtual_to_physical va (gKernelPML4Address s') s' = Inr b)"
proof -
  from boot_run [OF assms(1)] assms(2) have bt: "boot_tables (gSavedLFB s) (qmem s')"
    and g: "gKernelPML4Address s' = KERNEL_PML4_VA"
    and w: "\<And>va. unat va < 2 ^ 48 \<Longrightarrow> hw_walk (qmem s') (mm_cr3 s') va = boot_translation (gSavedLFB s) va"
    by (metis Inr_inject Pair_inject)+
  then have q: "boot_upper (qmem s')" unfolding boot_tables_def by blast
  note low = v2p_low [OF bt, of va]
  have "\<exists>m. virtual_to_physical va KERNEL_PML4_VA s' = Inl (Die m)" if "2 ^ 30 \<le> unat va"
  proof -
    have "\<not> (level_index 39 va = 0 \<and> level_index 30 va = 0)" using canonical_levels(1) [OF assms(3)] that by linarith
    then show ?thesis by (simp only: v2p_boot [OF q]) auto
  qed
  moreover have "virtual_to_physical va KERNEL_PML4_VA s' = Inr b"
    if "hw_walk (qmem s') (mm_cr3 s') va = Some (b, u, x)" "\<not> large_slot (unat va div 0x200000)" for b u x
    using that low by (auto simp: w [OF assms(3)] boot_translation_def v2p_result_def split: if_splits)
  ultimately show ?thesis using low by (simp only: g) blast
qed

section \<open>Cloned address spaces and the canvas heap\<close>

lemma copy_table_frame:
  "copy_table src dst is s = s\<lparr>qmem := qmem (copy_table src dst is s)\<rparr>"
proof (induction "is" arbitrary: s)
  case (Cons i "is")
  show ?case using Cons.IH [of "write_entry dst i (read_entry src i s) s"] by (simp add: write_entry_def)
qed simp

lemma copy_table_mem:
  assumes "page_aligned src" "page_aligned dst" "page_of src \<noteq> page_of dst" "k \<le> n" "n \<le> 512"
  shows "(\<forall>j. k \<le> j \<longrightarrow> j < n \<longrightarrow> qmem (copy_table src dst [k..<n] s) (entry dst j) = qmem s (entry src j)) \<and>
    (\<forall>a. page_of a \<noteq> page_of dst \<longrightarrow> qmem (copy_table src dst [k..<n] s) a = qmem s a) \<and>
    (\<forall>j < k. qmem (copy_table src dst [k..<n] s) (entry dst j) = qmem s (entry dst j))"
  using assms(4)
proof (induction "n - k" arbitrary: k s)
  case (Suc d)
  then have kn: "k < n" by simp
  let ?s = "write_entry dst k (read_entry src k s) s"
  have IH: "(\<forall>j. Suc k \<le> j \<longrightarrow> j < n \<longrightarrow> qmem (copy_table src dst [Suc k..<n] ?s) (entry dst j) = qmem ?s (entry src j)) \<and>
    (\<forall>a. page_of a \<noteq> page_of dst \<longrightarrow> qmem (copy_table src dst [Suc k..<n] ?s) a = qmem ?s a) \<and>
    (\<forall>j < Suc k. qmem (copy_table src dst [Suc k..<n] ?s) (entry dst j) = qmem ?s (entry dst j))"
    by (rule Suc.hyps(1)) (use Suc.hyps(2) kn in simp_all)
  have u: "copy_table src dst [k..<n] s = copy_table src dst [Suc k..<n] ?s" using kn by (simp add: upt_conv_Cons)
  have pk: "page_of (entry dst k) = page_of dst" by (rule entry_page [OF assms(2)]) (use kn assms(5) in simp)
  have ps: "page_of (entry src j) = page_of src" if "j < n" for j
    by (rule entry_page [OF assms(1)]) (use that assms(5) in simp)
  show ?case unfolding u
  proof (intro conjI allI impI)
    fix j assume j: "k \<le> j" "j < n"
    have "entry src j \<noteq> entry dst k" using ps [OF j(2)] pk assms(3) by auto
    moreover have "j = k \<or> Suc k \<le> j" using j by auto
    ultimately show "qmem (copy_table src dst [Suc k..<n] ?s) (entry dst j) = qmem s (entry src j)"
      using IH j(2) by (auto simp: write_entry_def read_entry_def)
  next
    fix a assume "page_of a \<noteq> page_of dst"
    then show "qmem (copy_table src dst [Suc k..<n] ?s) a = qmem s a"
      using IH pk by (auto simp: write_entry_def)
  next
    fix j assume j: "j < k"
    then have "entry dst j \<noteq> entry dst k" using entry_eq_iff [OF assms(2,2)] kn assms(5) by simp
    with j IH show "qmem (copy_table src dst [Suc k..<n] ?s) (entry dst j) = qmem s (entry dst j)"
      by (simp add: write_entry_def)
  qed
qed simp

text \<open>Two top-level tables with the same entries give the same walk.\<close>

lemma hw_walk_same_root:
  assumes "root AND 0xFFFFFFFFFF000 = root" "root' AND 0xFFFFFFFFFF000 = root'"
    and "\<And>i. i < 512 \<Longrightarrow> q (entry root i) = q (entry root' i)"
  shows "hw_walk q root va = hw_walk q root' va"
  unfolding hw_walk_def using assms(3) [OF level_index_less [of 39 va]] by (simp only: assms(1,2))

fun clone_times :: "nat \<Rightarrow> mm_state \<Rightarrow> (u64 list \<times> mm_state) outcome" where
  "clone_times 0 s = Inr ([], s)"
| "clone_times (Suc n) s = and_then (clone_times n s) (\<lambda>(ps, s1).
     and_then (CloneKernelPML4 s1) (\<lambda>(p, s2). Inr (ps @ [p], s2)))"

lemma boot_tables_frame:
  assumes "boot_tables lfb q" "\<And>a. page_of a \<le> 0x10 \<or> page_of a \<in> {0x9A, 0x9B, 0x9C} \<Longrightarrow> q' a = q a"
  shows "boot_tables lfb q'"
proof -
  have e: "q' (entry b i) = q (entry b i)" if "page_aligned b" "page_of b \<le> 0x10 \<or> page_of b \<in> {0x9A, 0x9B, 0x9C}" "i < 512" for b i
    by (rule assms(2)) (use entry_page [OF that(1,3)] that(2) in simp)
  have k: "q' (entry KERNEL_PML4_PA i) = q (entry KERNEL_PML4_PA i)" "q' (entry KERNEL_PDPT_PA i) = q (entry KERNEL_PDPT_PA i)"
    "q' (entry KERNEL_PD_PA i) = q (entry KERNEL_PD_PA i)" if "i < 512" for i
    by (rule e; simp add: page_table_consts that)+
  have se: "small_entry q' d pa fl pt" if "small_entry q d pa fl pt" "d < 512" for d pa fl pt
    using that e [of pt] k(3) [OF that(2)] unfolding small_entry_def by metis
  have "boot_entry lfb q' d" if d: "d < 512" for d
  proof -
    have b: "boot_entry lfb q d" using assms(1) d by (simp add: boot_tables_def)
    show ?thesis
    proof (cases "large_slot d")
      case True
      with b k(3) [OF d] show ?thesis by (simp add: boot_entry_def)
    next
      case False
      with b k(3) [OF d] show ?thesis
        by (cases "boot_frame lfb d") (fastforce simp: boot_entry_def dest: se [OF _ d])+
    qed
  qed
  then show ?thesis using assms(1) k by (simp add: boot_tables_def boot_upper_def)
qed

lemma clone_step:
  assumes "gKernelPML4Address s = KERNEL_PML4_VA" and p: "table_pointer_heap_base s = 0x1000 * of_nat m" "0x10 \<le> m"
  shows "m + 1 < 0x30 \<Longrightarrow> \<exists>s1. CloneKernelPML4 s = Inr (0x1000 * of_nat (m + 1), s1) \<and>
      table_pointer_heap_base s1 = 0x1000 * of_nat (m + 1) \<and> gKernelPML4Address s1 = KERNEL_PML4_VA \<and>
      (\<forall>a. page_of a \<noteq> m + 1 \<longrightarrow> qmem s1 a = qmem s a) \<and>
      (\<forall>j < 512. qmem s1 (entry (0x1000 * of_nat (m + 1)) j) = qmem s (entry KERNEL_PML4_VA j))"
    and "m + 1 = 0x30 \<Longrightarrow> CloneKernelPML4 s = Inl (Panic ''get_table_pointer_va: [FIXME] Limits'')"
proof -
  let ?p = "0x1000 * of_nat (m + 1) :: u64"
  have n: "table_pointer_heap_base s + 0x1000 = ?p" by (simp add: p(1) distrib_left)
  {
    assume m: "m + 1 < 0x30"
    have u: "unat ?p = 0x1000 * (m + 1)" using m by (simp add: unat_word_ariths unat_of_nat del: of_nat_Suc of_nat_add)
    have al: "page_aligned ?p" "page_of ?p = m + 1" by (simp_all only: u) simp_all
    have k: "page_aligned KERNEL_PML4_VA" "page_of KERNEL_PML4_VA \<noteq> page_of ?p" using m al(2) by (simp_all add: KERNEL_PML4_VA_def)
    have "\<not> FAT_ADDRESS \<le> ?p" using m by (simp only: unat_le_iff u) (simp add: FAT_ADDRESS_def)
    moreover have "?p \<noteq> 0" using u by auto
    ultimately have r: "CloneKernelPML4 s = Inr (?p, copy_table KERNEL_PML4_VA ?p [0..<512]
        (s\<lparr>table_pointer_heap_base := ?p\<rparr>))"
      by (simp only: CloneKernelPML4_def clone_table_def get_table_pointer_va_def Let_def n assms(1)) (simp add: n)
    note c = copy_table_mem [OF k(1) al(1) k(2), of 0 512 "s\<lparr>table_pointer_heap_base := ?p\<rparr>"]
    show "\<exists>s1. CloneKernelPML4 s = Inr (?p, s1) \<and> table_pointer_heap_base s1 = ?p \<and> gKernelPML4Address s1 = KERNEL_PML4_VA \<and>
      (\<forall>a. page_of a \<noteq> m + 1 \<longrightarrow> qmem s1 a = qmem s a) \<and>
      (\<forall>j < 512. qmem s1 (entry ?p j) = qmem s (entry KERNEL_PML4_VA j))"
      unfolding r using c al(2) assms(1)
      by (intro exI [of _ "copy_table KERNEL_PML4_VA ?p [0..<512] (s\<lparr>table_pointer_heap_base := ?p\<rparr>)"])
        (subst (2 3) copy_table_frame, simp del: copy_table.simps)
  next
    assume m: "m + 1 = 0x30"
    have "?p = 0x30000" by (simp only: m) simp
    then show "CloneKernelPML4 s = Inl (Panic ''get_table_pointer_va: [FIXME] Limits'')"
      by (simp only: CloneKernelPML4_def clone_table_def get_table_pointer_va_def Let_def n) (simp add: FAT_ADDRESS_def)
  }
qed

lemma clone_run:
  assumes "boot_tables lfb (qmem s)" "gKernelPML4Address s = KERNEL_PML4_VA" "table_pointer_heap_base s = 0x10000"
  shows "k \<le> 31 \<Longrightarrow> \<exists>s1. clone_times k s = Inr (map (\<lambda>i. 0x1000 * of_nat (0x11 + i)) [0..<k], s1) \<and> boot_tables lfb (qmem s1) \<and>
     gKernelPML4Address s1 = KERNEL_PML4_VA \<and> table_pointer_heap_base s1 = 0x1000 * of_nat (0x10 + k) \<and>
     (\<forall>i < k. \<forall>j < 512. qmem s1 (entry (0x1000 * of_nat (0x11 + i)) j) = qmem s1 (entry KERNEL_PML4_VA j))"
proof (induction k)
  case 0
  then show ?case using assms by simp
next
  case (Suc k)
  then obtain s1 where s1: "clone_times k s = Inr (map (\<lambda>i. 0x1000 * of_nat (0x11 + i)) [0..<k], s1)" "boot_tables lfb (qmem s1)"
     "gKernelPML4Address s1 = KERNEL_PML4_VA" "table_pointer_heap_base s1 = 0x1000 * of_nat (0x10 + k)"
     "\<And>i j. i < k \<Longrightarrow> j < 512 \<Longrightarrow> qmem s1 (entry (0x1000 * of_nat (0x11 + i)) j) = qmem s1 (entry KERNEL_PML4_VA j)" by auto
  have m: "0x10 \<le> 0x10 + k" "0x10 + k + 1 < 0x30" "0x10 + k + 1 = 0x11 + k" using Suc.prems by simp_all
  from clone_step(1) [OF s1(3,4) m(1,2)] obtain s2 where s2: "CloneKernelPML4 s1 = Inr (0x1000 * of_nat (0x11 + k), s2)"
      "table_pointer_heap_base s2 = 0x1000 * of_nat (0x11 + k)" "gKernelPML4Address s2 = KERNEL_PML4_VA"
      "\<And>a. page_of a \<noteq> 0x11 + k \<Longrightarrow> qmem s2 a = qmem s1 a"
      "\<And>j. j < 512 \<Longrightarrow> qmem s2 (entry (0x1000 * of_nat (0x11 + k)) j) = qmem s1 (entry KERNEL_PML4_VA j)"
    unfolding m(3) by blast
  have "boot_tables lfb (qmem s2)" by (rule boot_tables_frame [OF s1(2) s2(4)]) (use Suc.prems in auto)
  moreover have kp: "qmem s2 (entry KERNEL_PML4_VA j) = qmem s1 (entry KERNEL_PML4_VA j)" if "j < 512" for j
    by (rule s2(4)) (use entry_page [of KERNEL_PML4_VA j] that Suc.prems in \<open>simp add: KERNEL_PML4_VA_def\<close>)
  moreover have "qmem s2 (entry (0x1000 * of_nat (0x11 + i)) j) = qmem s2 (entry KERNEL_PML4_VA j)"
    if "i < Suc k" "j < 512" for i j
  proof (cases "i = k")
    case True
    then show ?thesis using s2(5) kp that(2) by simp
  next
    case False
    then have ik: "i < k" using that(1) by simp
    have u: "unat (0x1000 * of_nat (0x11 + i) :: u64) = 0x1000 * (0x11 + i)"
      using ik Suc.prems by (simp add: unat_word_ariths unat_of_nat del: of_nat_Suc of_nat_add)
    have "page_aligned (0x1000 * of_nat (0x11 + i) :: u64)" "page_of (0x1000 * of_nat (0x11 + i) :: u64) = 0x11 + i"
      by (simp_all only: u) simp_all
    then have "page_of (entry (0x1000 * of_nat (0x11 + i)) j) = 0x11 + i" using entry_page that(2) by metis
    then have "qmem s2 (entry (0x1000 * of_nat (0x11 + i)) j) = qmem s1 (entry (0x1000 * of_nat (0x11 + i)) j)"
      using s2(4) ik by simp
    then show ?thesis using s1(5) [OF ik that(2)] kp that(2) by simp
  qed
  ultimately show ?case using s1(1) s2 by (intro exI [of _ s2]) (simp add: and_then_def)
qed

text \<open>
  Cloned top-level tables: after boot, up to 31 calls of \<^verbatim>\<open>CloneKernelPML4\<close> return fresh pages, and every clone and
  the kernel's own table give exactly the boot address space; tables are never given back, and the 32nd call
  halts the machine.
\<close>

theorem clones_share_address_space:
  assumes "boot_ready s" and "pagesInitializePaging s = Inr (0, s')"
  shows "(k \<le> 31 \<longrightarrow> (\<exists>s''. clone_times k s' = Inr (map (\<lambda>i. 0x1000 * of_nat (0x11 + i)) [0..<k], s'') \<and>
      (\<forall>p \<in> set (KERNEL_PML4_PA # map (\<lambda>i. 0x1000 * of_nat (0x11 + i)) [0..<k]). \<forall>va. unat va < 2 ^ 48 \<longrightarrow>
         hw_walk (qmem s'') p va = boot_translation (gSavedLFB s) va))) \<and>
    clone_times 32 s' = Inl (Panic ''get_table_pointer_va: [FIXME] Limits'')"
proof -
  from boot_run [OF assms(1)] assms(2) have bt: "boot_tables (gSavedLFB s) (qmem s')"
    and g: "gKernelPML4Address s' = KERNEL_PML4_VA" "table_pointer_heap_base s' = 0x10000" by (metis Inr_inject Pair_inject)+
  note run = clone_run [OF bt g]
  have "hw_walk q (0x1000 * of_nat (0x11 + i)) va = boot_translation (gSavedLFB s) va"
    if b: "boot_tables (gSavedLFB s) q" and i: "i < 31" and v: "unat va < 2 ^ 48"
      and e: "\<And>j. j < 512 \<Longrightarrow> q (entry (0x1000 * of_nat (0x11 + i)) j) = q (entry KERNEL_PML4_VA j)" for q i va
  proof -
    have u: "unat (0x1000 * of_nat (0x11 + i) :: u64) = 0x1000 * (0x11 + i)"
      using i by (simp add: unat_word_ariths unat_of_nat del: of_nat_Suc of_nat_add)
    then have "page_aligned (0x1000 * of_nat (0x11 + i) :: u64)" by (simp only: u) simp
    then have "(0x1000 * of_nat (0x11 + i) :: u64) AND 0xFFFFFFFFFF000 = 0x1000 * of_nat (0x11 + i)"
      using i u by (intro frame_mask(2)) simp_all
    then have "hw_walk q (0x1000 * of_nat (0x11 + i)) va = hw_walk q KERNEL_PML4_VA va"
      by (rule hw_walk_same_root [OF _ _ e]) (simp add: KERNEL_PML4_VA_def)
    also have "\<dots> = boot_translation (gSavedLFB s) va"
      using boot_tables_walk [OF b v] by (simp add: boot_translation_def KERNEL_PML4_VA_def KERNEL_PML4_PA_def)
    finally show ?thesis .
  qed
  moreover have "hw_walk q KERNEL_PML4_PA va = boot_translation (gSavedLFB s) va"
    if "boot_tables (gSavedLFB s) q" "unat va < 2 ^ 48" for q va
    using boot_tables_walk [OF that] by (simp add: boot_translation_def)
  moreover have "clone_times 32 s' = Inl (Panic ''get_table_pointer_va: [FIXME] Limits'')"
  proof -
    from run [of 31] obtain s1 where s1: "clone_times 31 s' = Inr (map (\<lambda>i. 0x1000 * of_nat (0x11 + i)) [0..<31], s1)"
        "gKernelPML4Address s1 = KERNEL_PML4_VA" "table_pointer_heap_base s1 = 0x1000 * of_nat (0x10 + 31)" by blast
    from clone_step(2) [OF s1(2,3)] have "CloneKernelPML4 s1 = Inl (Panic ''get_table_pointer_va: [FIXME] Limits'')" by simp
    moreover have "clone_times 32 s' = and_then (clone_times 31 s') (\<lambda>(ps, s1).
        and_then (CloneKernelPML4 s1) (\<lambda>(p, s2). Inr (ps @ [p], s2)))" by (simp add: numeral_eq_Suc)
    ultimately show ?thesis by (simp only: s1(1) and_then_simps prod.case)
  qed
  moreover have "k \<le> 31 \<Longrightarrow> i < k \<Longrightarrow> i < 31" for i by simp
  ultimately show ?thesis using run [of k] by (fastforce simp del: clone_times.simps)
qed

text \<open>The canvas heap: the boot code opens it at 4 MB, and no later initialiser moves it.\<close>

lemma shmm_frame:
  "mm_map_2mb_region_in_pd0_imp pa va fl s = Inr (r, s') \<Longrightarrow> shmm_user_heap s' = shmm_user_heap s"
  "initialize_kernelimage_region s = Inr s' \<Longrightarrow> shmm_user_heap s' = shmm_user_heap s"
  "initialize_pagedpool s = Inr s' \<Longrightarrow> shmm_user_heap s' = shmm_user_heap s"
  "initialize_heappool s = Inr s' \<Longrightarrow> shmm_user_heap s' = shmm_user_heap s"
  "initialize_extraheap1 s = Inr s' \<Longrightarrow> shmm_user_heap s' = shmm_user_heap s"
  "initialize_extraheap2 s = Inr s' \<Longrightarrow> shmm_user_heap s' = shmm_user_heap s"
  "initialize_extraheap3 s = Inr s' \<Longrightarrow> shmm_user_heap s' = shmm_user_heap s"
  "slab_initialize s = Inr s' \<Longrightarrow> shmm_user_heap s' = shmm_user_heap s"
  "I_initialize_frame_table s = Inr (r, s') \<Longrightarrow> shmm_user_heap s' = shmm_user_heap s"
  by (auto simp: mm_map_2mb_region_in_pd0_imp_def initialize_kernelimage_region_def initialize_pagedpool_def
      initialize_heappool_def initialize_extraheap1_def initialize_extraheap2_def initialize_extraheap3_def slab_initialize_def
      I_initialize_frame_table_def frame_table_finish_def get_table_pointer_va_def install_region_def mm_fill_page_table_def
      fill_table_mem write_entry_def Let_def elim!: and_then_InrE split: if_splits)

lemma map_all_shmm: "map_all_2mb rs fl s = Inr s' \<Longrightarrow> shmm_user_heap s' = shmm_user_heap s"
  by (induction rs arbitrary: s) (auto elim!: and_then_InrE dest!: shmm_frame)

lemma buffers_shmm:
  "initialize_new_backbuffer s = Inr s' \<Longrightarrow> shmm_user_heap s' = shmm_user_heap s"
  "initialize_new_frontbuffer s = Inr s' \<Longrightarrow> shmm_user_heap s' = shmm_user_heap s"
  unfolding initialize_new_backbuffer_def initialize_new_frontbuffer_def Let_def
  by (auto elim!: and_then_InrE dest!: shmm_frame map_all_shmm simp del: map_all_2mb.simps)

lemma module_shmm: "shmm_user_heap (map_module_regions s) = shmm_user_heap s"
  by (simp add: map_module_regions_def map_kernel_va_2mb_def map_va_2mb_def write_entry_def Let_def)

lemma boot_shmm:
  assumes "pagesInitializePaging s = Inr (r, s')"
  shows "shmm_user_heap s' = \<lparr>sh_initialized = True, sh_next_address = 0x400000\<rparr>"
proof -
  have "shmm_user_heap s2 = \<lparr>sh_initialized = True, sh_next_address = 0x400000\<rparr>"
    if "initialize_canonical_kernel_pagetables s1 = Inr s2" for s1 s2
    using that unfolding initialize_canonical_kernel_pagetables_def Let_def
    by (auto elim!: and_then_InrE dest!: shmm_frame buffers_shmm simp: module_shmm shmm_user_heap_initialize_def)
  with assms show ?thesis
    unfolding pagesInitializePaging_def Let_def
    by (auto elim!: and_then_InrE dest!: shmm_frame simp: mmSetupMemoryUsage_def Let_def split: if_splits)
qed

fun take_pages :: "nat \<Rightarrow> mm_state \<Rightarrow> u64 list \<times> mm_state" where
  "take_pages 0 s = ([], s)"
| "take_pages (Suc n) s = (case take_pages n s of (ps, s1) \<Rightarrow>
     case get_2mb_user_heap_page s1 of (p, s2) \<Rightarrow> (ps @ [p], s2))"

lemma take_pages_run:
  assumes "shmm_user_heap s = \<lparr>sh_initialized = True, sh_next_address = 0x400000\<rparr>"
  shows "\<exists>s'. take_pages n s = (map (\<lambda>i. 0x400000 + 0x200000 * of_nat i) [0..<n], s') \<and>
    shmm_user_heap s' = \<lparr>sh_initialized = True, sh_next_address = 0x400000 + 0x200000 * of_nat n\<rparr> \<and>
    qmem s' = qmem s \<and> mm_cr3 s' = mm_cr3 s"
proof (induction n)
  case 0
  then show ?case using assms by simp
next
  case (Suc n)
  then show ?case by (auto simp: get_2mb_user_heap_page_def Let_def distrib_left add.assoc)
qed

text \<open>
  The canvas allocator hands out mapped pages up to its limit: after boot, the first 100 calls of
  \<^verbatim>\<open>get_2mb_user_heap_page\<close> return pairwise distinct 2 MB pages which user mode can write, each mapped onto itself. There is
  no limit in the allocator: the 101st page is not mapped, and the 127th lies in the region of the
  kernel module, which user mode cannot use.
\<close>

theorem canvas_pages_mapped:
  assumes "boot_ready s" and "pagesInitializePaging s = Inr (0, s')"
  shows "\<exists>s''. take_pages n s' = (map (\<lambda>i. 0x400000 + 0x200000 * of_nat i) [0..<n], s'') \<and>
    (\<forall>i off. i < 100 \<longrightarrow> off < 0x200000 \<longrightarrow> hw_walk (qmem s'') (mm_cr3 s'') (0x400000 + 0x200000 * of_nat i + off) =
       Some (0x400000 + 0x200000 * of_nat i + off, True, True)) \<and>
    hw_walk (qmem s'') (mm_cr3 s'') (0x400000 + 0x200000 * of_nat 100) = None \<and>
    hw_walk (qmem s'') (mm_cr3 s'') (0x400000 + 0x200000 * of_nat 126) = Some (0x10000000, False, True)"
proof -
  obtain s'' where t: "take_pages n s' = (map (\<lambda>i. 0x400000 + 0x200000 * of_nat i) [0..<n], s'')"
    "qmem s'' = qmem s'" "mm_cr3 s'' = mm_cr3 s'" using take_pages_run [OF boot_shmm [OF assms(2)]] by metis
  from boot_run [OF assms(1)] assms(2) have
    w: "\<And>va. unat va < 2 ^ 48 \<Longrightarrow> hw_walk (qmem s') (mm_cr3 s') va = boot_translation (gSavedLFB s) va"
    by (metis Inr_inject Pair_inject)
  have "hw_walk (qmem s') (mm_cr3 s') (0x400000 + 0x200000 * of_nat i + off) =
      Some (0x400000 + 0x200000 * of_nat i + off, True, True)" if "i < 100" "off < 0x200000" for i and off :: u64
  proof -
    let ?a = "0x200000 * of_nat (i + 2) + off"
    have "unat (0x200000 * of_nat (i + 2) :: u64) = 0x200000 * (i + 2)" by (rule large_unat) (use that in simp)
    moreover have "unat off < 0x200000" using that(2) by (simp add: unat_less_iff)
    ultimately have u: "unat ?a = 0x200000 * (i + 2) + unat off"
      using that by (subst unat_plus_exact) simp_all
    have "0x400000 \<le> ?a" "?a < 0xCC00000" "unat ?a < 2 ^ 48"
      unfolding unat_le_iff unat_less_iff u using that \<open>unat off < 0x200000\<close> by simp_all
    then have "hw_walk (qmem s') (mm_cr3 s') ?a = Some (?a, True, True)" using w canvas_identity by simp
    moreover have "?a = 0x400000 + 0x200000 * of_nat i + off" by (simp add: distrib_left)
    ultimately show ?thesis by simp
  qed
  moreover have "hw_walk (qmem s') (mm_cr3 s') 0xCC00000 = None"
    by (simp add: w boot_translation_def boot_frame_def)
  moreover have "hw_walk (qmem s') (mm_cr3 s') 0x10000000 = Some (0x10000000, False, True)"
    by (simp add: w boot_translation_def boot_frame_def)
  ultimately show ?thesis using t by simp
qed

section \<open>A machine ready to boot\<close>

text \<open>512 MB of memory and a frame buffer at 3.75 GB.\<close>

definition zero_regions :: canonical_regions where
  "zero_regions = \<lparr>r_origin_pa = 0, r_kernel_base_pa = 0, r_user_pa = 0, r_cga_pa = 0, r_frontbuffer_pa = 0,
     r_backbuffer_pa = 0, r_pagedpool_pa = 0, r_heappool_pa = 0, r_extraheap1_pa = 0, r_extraheap2_pa = 0,
     r_extraheap3_pa = 0\<rparr>"

definition boot_mm_state :: mm_state where
  "boot_mm_state = \<lparr>qmem = (\<lambda>_. 0), mm_cr3 = 0, table_pointer_heap_base = TABLE_POINTER_HEAP_BASE, gKernelPML4Address = 0,
     kernel_mm_data = \<lparr>md_used = False, md_magic = 0, md_pml4_va = 0, md_pml4_pa = 0, md_pdpt0_va = 0, md_pdpt0_pa = 0,
       md_pd0_va = 0, md_pd0_pa = 0\<rparr>,
     SMALL = zero_regions, MEDIUM = zero_regions, LARGE = zero_regions, paList = (\<lambda>_. 0), vaList = (\<lambda>_. 0),
     g_ring0area_va = 0, g_ring3area_va = 0, g_kernelimage_va = 0, g_frontbuffer_pa = 0, g_frontbuffer_va = 0,
     g_backbuffer_pa = 0, g_backbuffer_va = 0, g_pagedpool_va = 0, g_heappool_va = 0, g_heap_count = 0, g_heap_count_max = 0,
     g_heap_size = 0, g_extraheap1_va = 0, g_extraheap1_size = 0, g_extraheap1_initialized = False, g_extraheap2_va = 0,
     g_extraheap2_size = 0, g_extraheap2_initialized = False, g_extraheap3_va = 0, g_extraheap3_size = 0,
     g_extraheap3_initialized = False, display_backbuffer_pa = 0, display_backbuffer_va = 0,
     gSavedLFB = 0xF0000000, blSavedLastValidAddress = 0x20000000,
     mm_used = \<lparr>mm_used_ring0_area = 0, mm_used_ring3_area = 0, mm_used_kernelimage = 0, mm_used_backbuffer = 0,
       mm_used_pagedpool = 0, mm_used_heappool = 0, mm_used_extraheap1 = 0, mm_used_extraheap2 = 0, mm_used_extraheap3 = 0,
       mm_used_frame_table = 0, mm_used_lfb = 0, mm_used_module0 = 0\<rparr>,
     MemorySizeInfo = \<lparr>ms_initialized = True, BaseMemoryViaCMOS = 640, BaseMemory = 640, OtherMemory = 384,
       ExtendedMemory = 0x80000 - 1024, MemoryTotal = 0x80000, MemoryUsed = 0, MemoryFree = 0, InstalledPhysicalMemory = 0,
       TotalPhysicalMemory = 0, AvailablePhysicalMemory = 0\<rparr>,
     g_mm_system_type = stMediumSystem,
     FT = \<lparr>ft_used = False, ft_magic = 0, ft_initialized = False, ft_start_pa = 0, ft_end_pa = 0, ft_size_in_bytes = 0,
       ft_size_in_kb = 0, ft_size_in_mb = 0, ft_size_in_frames = 0, ft_number_of_system_frames = 0,
       ft_number_of_user_frames = 0, ft_number_of_used_frames = 0, ft_number_of_reserved_frames = 0\<rparr>,
     NewPagedPool = \<lparr>np_initialized = False, np_a1_va = 0, np_a2_va = 0, np_b1_va = 0, np_b2_va = 0, np_Free = (\<lambda>_. False)\<rparr>,
     shmm_user_heap = \<lparr>sh_initialized = False, sh_next_address = 0\<rparr>\<rparr>"

lemma boot_mm_state_ready: "boot_ready boot_mm_state" "gSavedLFB boot_mm_state = 0xF0000000"
  by (simp_all add: boot_ready_def boot_mm_state_def)

theorem boot_address_space_witness:
  "\<exists>s'. pagesInitializePaging boot_mm_state = Inr (0, s') \<and>
     hw_walk (qmem s') (mm_cr3 s') 0x30100040 = Some (0x200040, False, True)"
proof -
  from boot_address_space [OF boot_mm_state_ready(1)] obtain s' where "pagesInitializePaging boot_mm_state = Inr (0, s')"
    "\<forall>va. unat va < 2 ^ 48 \<longrightarrow> hw_walk (qmem s') (mm_cr3 s') va = boot_translation (gSavedLFB boot_mm_state) va" by blast
  then show ?thesis by (intro exI [of _ s']) (simp add: boot_translation_def boot_frame_def)
qed

theorem kernel_frames_protected_witness:
  "\<exists>s'. pagesInitializePaging boot_mm_state = Inr (0, s') \<and>
     hw_walk (qmem s') (mm_cr3 s') 0x1200000 = Some (0x1200000, True, True)"
  using kernel_frames_protected [of boot_mm_state] boot_mm_state_ready by auto

theorem software_walk_result_witness:
  "\<exists>s'. pagesInitializePaging boot_mm_state = Inr (0, s') \<and>
     virtual_to_physical 0x30600123 (gKernelPML4Address s') s' = Inr 0x1800123"
proof -
  obtain s' where r: "pagesInitializePaging boot_mm_state = Inr (0, s')"
    by (rule boot_run [OF boot_mm_state_ready(1)])
  have "virtual_to_physical 0x30600123 (gKernelPML4Address s') s' =
      Inr (v2p_result (gSavedLFB boot_mm_state) (qmem s') 0x30600123)"
    using software_walk_result [OF boot_mm_state_ready(1) r, of "0x30600123"] by simp
  with r show ?thesis by (intro exI [of _ s']) (simp add: v2p_result_def boot_frame_def large_slot_def)
qed

theorem clones_share_address_space_witness:
  "\<exists>s' s''. pagesInitializePaging boot_mm_state = Inr (0, s') \<and> clone_times 2 s' = Inr ([0x11000, 0x12000], s'') \<and>
     hw_walk (qmem s'') 0x12000 0x200010 = Some (0x2000010, True, True)"
proof -
  obtain s' where r: "pagesInitializePaging boot_mm_state = Inr (0, s')"
    by (rule boot_run [OF boot_mm_state_ready(1)])
  from clones_share_address_space [OF boot_mm_state_ready(1) r, of 2] obtain s'' where
    "clone_times 2 s' = Inr ([0x11000, 0x12000], s'')"
    "\<forall>va. unat va < 2 ^ 48 \<longrightarrow> hw_walk (qmem s'') 0x12000 va = boot_translation (gSavedLFB boot_mm_state) va"
    by (auto simp: upt_rec simp del: clone_times.simps)
  with r show ?thesis
    by (intro exI [of _ s'] exI [of _ s'']) (simp add: boot_translation_def boot_frame_def del: clone_times.simps)
qed

theorem canvas_pages_mapped_witness:
  "\<exists>s' s''. pagesInitializePaging boot_mm_state = Inr (0, s') \<and> take_pages 2 s' = ([0x400000, 0x600000], s'') \<and>
     hw_walk (qmem s'') (mm_cr3 s'') 0x600010 = Some (0x600010, True, True)"
proof -
  obtain s' where r: "pagesInitializePaging boot_mm_state = Inr (0, s')"
    by (rule boot_run [OF boot_mm_state_ready(1)])
  from canvas_pages_mapped [OF boot_mm_state_ready(1) r, of 2] obtain s'' where
    t: "take_pages 2 s' = ([0x400000, 0x600000], s'')" and
    w: "\<forall>i off. i < 100 \<longrightarrow> off < 0x200000 \<longrightarrow> hw_walk (qmem s'') (mm_cr3 s'') (0x400000 + 0x200000 * of_nat i + off) =
       Some (0x400000 + 0x200000 * of_nat i + off, True, True)"
    by (auto simp: upt_rec simp del: take_pages.simps)
  from w [rule_format, of 1 "0x10"] have "hw_walk (qmem s'') (mm_cr3 s'') 0x600010 = Some (0x600010, True, True)" by simp
  with r t show ?thesis by blast
qed

end
