(* ===== verification/Page_Pool.thy ===== *)
theory Page_Pool
  imports Address_Space Kmalloc Byte_Allocator
begin

text \<open>
  The pool of page frames (mm/mmpool.c), the slabs of one megabyte (mm/slab.c) and phase 1 of the memory manager. A slot of
  the list stands for one page of the pool region; its structure comes from the kernel heap and holds the frame
  that the page tables give for the page. The pool provides the weak allocation contract of
  \<^theory_text>\<open>Byte_Allocator\<close>.
\<close>

section \<open>State\<close>

definition PAGE_COUNT_MAX :: int where "PAGE_COUNT_MAX = 512"
definition PAGE_SIZE :: u64 where "PAGE_SIZE = 4096"

text \<open>\<^verbatim>\<open>sizeof(struct page_d)\<close>: the kernel object header, seven ints with padding and a pointer.\<close>

definition sizeof_page_d :: u32 where "sizeof_page_d = 56"

record page_d =
  pg_used :: bool
  pg_magic :: int
  pg_id :: int
  pg_absolute_frame_number :: u32
  pg_locked :: bool
  pg_free :: bool
  pg_ref_count :: int
  pg_next :: addr

record pool_state =
  ks :: kstate
  mm :: mm_state
  pageAllocList :: "nat \<Rightarrow> addr"
  pages :: "addr \<Rightarrow> page_d"
  MMInfo_initialized :: bool

definition zero_page :: page_d where
  "zero_page = \<lparr>pg_used = False, pg_magic = 0, pg_id = 0, pg_absolute_frame_number = 0, pg_locked = False, pg_free = False,
     pg_ref_count = 0, pg_next = NULL\<rparr>"

abbreviation upd_page :: "addr \<Rightarrow> (page_d \<Rightarrow> page_d) \<Rightarrow> pool_state \<Rightarrow> pool_state" where
  "upd_page p f s \<equiv> s\<lparr>pages := (pages s)(p := f (pages s p))\<rparr>"

section \<open>Operations\<close>

definition page_create :: "int \<Rightarrow> pool_state \<Rightarrow> (addr \<times> pool_state) outcome" where
  "page_create slot s =
    and_then (kmalloc sizeof_page_d (ks s)) (\<lambda>(p, k).
      if p = NULL then Inr (NULL, s\<lparr>ks := k\<rparr>)
      else Inr (p, s\<lparr>ks := k, pages := (pages s)(p := zero_page\<lparr>pg_id := slot, pg_used := True, pg_magic := 1234, pg_ref_count := 1\<rparr>)\<rparr>))"

definition pageObject :: "pool_state \<Rightarrow> (addr \<times> pool_state) outcome" where
  "pageObject s =
    (case first_slot (\<lambda>i. pageAllocList s i = NULL) [0..<nat PAGE_COUNT_MAX] of
       None \<Rightarrow> Inr (NULL, s)
     | Some slot \<Rightarrow> and_then (kmalloc sizeof_page_d (ks s)) (\<lambda>(p, k).
         if p = NULL then Inr (NULL, s\<lparr>ks := k\<rparr>)
         else Inr (p, s\<lparr>ks := k, pages := (pages s)(p := zero_page\<lparr>pg_id := int slot, pg_used := True, pg_magic := 1234\<rparr>),
                       pageAllocList := (pageAllocList s)(slot := p)\<rparr>)))"

text \<open>The inner loop counts the free slots of a window up to the first used one.\<close>

fun count_free :: "(nat \<Rightarrow> addr) \<Rightarrow> nat list \<Rightarrow> nat" where
  "count_free L [] = 0"
| "count_free L (i # is) = (if L i \<noteq> 0 then 0 else Suc (count_free L is))"

definition firstSlotForAList :: "int \<Rightarrow> pool_state \<Rightarrow> int" where
  "firstSlotForAList sz s =
    (if sz \<le> 0 \<or> PAGE_COUNT_MAX \<le> sz then -1
     else case first_slot (\<lambda>start. int (count_free (pageAllocList s) [start..<start + nat sz]) = sz)
         [0..<nat (PAGE_COUNT_MAX - sz) + 1] of
       None \<Rightarrow> -1 | Some start \<Rightarrow> int start)"

definition mmNewPage :: "pool_state \<Rightarrow> (addr \<times> pool_state) outcome" where
  "mmNewPage s =
    (let base = g_pagedpool_va (mm s) in
     if base = 0 then Inl (Panic ''mmNewPage: base'')
     else and_then (pageObject s) (\<lambda>(New, s1).
       if New = NULL then Inl (Panic ''mmNewPage: New'')
       else if \<not> pg_used (pages s1 New) then Inl (Panic ''mmNewPage: New used'')
       else if pg_magic (pages s1 New) \<noteq> 1234 then Inl (Panic ''mmNewPage: New magic'')
       else if pg_id (pages s1 New) < 0 then Inl (Panic ''mmNewPage: id underflow'')
       else if PAGE_COUNT_MAX \<le> pg_id (pages s1 New) then Inl (Panic ''mmNewPage: id overflow'')
       else let s2 = upd_page New (\<lambda>p. p\<lparr>pg_locked := False, pg_ref_count := 1\<rparr>) s1;
                va = base + of_int (pg_id (pages s2 New)) * PAGE_SIZE in
       if va = 0 then Inl (Panic ''mmNewPage: va={0}'')
       else and_then (virtual_to_physical va (gKernelPML4Address (mm s2)) (mm s2)) (\<lambda>pa.
         if pa = 0 then Inl (Panic ''mmNewPage: pa==0'')
         else let alignedPA = (if pa mod PAGE_SIZE \<noteq> 0 then pa - pa mod PAGE_SIZE else pa)
              in Inr (va, upd_page New (\<lambda>p. p\<lparr>pg_absolute_frame_number := ucast (alignedPA div PAGE_SIZE)\<rparr>) s2))))"

text \<open>Clearing a page goes through the page tables: each word is stored where the processor translates its address.\<close>

fun clear_words :: "u64 \<Rightarrow> nat list \<Rightarrow> mm_state \<Rightarrow> mm_state outcome" where
  "clear_words va [] m = Inr m"
| "clear_words va (i # is) m =
    (case hw_walk (qmem m) (mm_cr3 m) (va + 8 * of_nat i) of
       None \<Rightarrow> Inl (Die ''page fault'')
     | Some (pa, u, w) \<Rightarrow> clear_words va is (m\<lparr>qmem := (qmem m)(pa := 0)\<rparr>))"

text \<open>One more page of a block: its structure, its frame, and the link from the page before.\<close>

definition add_page :: "u64 \<Rightarrow> nat \<Rightarrow> addr \<Rightarrow> pool_state \<Rightarrow> (addr \<times> pool_state) outcome" where
  "add_page base slot pageConductor s =
    (if pageAllocList s slot \<noteq> NULL then Inl (Panic ''allocPages: p'')
     else and_then (kmalloc sizeof_page_d (ks s)) (\<lambda>(p, k).
       if p = NULL then Inl (Panic ''allocPages: fail 2'')
       else and_then (virtual_to_physical (base + of_nat slot * PAGE_SIZE) (gKernelPML4Address (mm s)) (mm s)) (\<lambda>pa0.
         let pa = (if pa0 mod PAGE_SIZE \<noteq> 0 then pa0 - pa0 mod PAGE_SIZE else pa0);
             frame = (if pa = 0 then 0 else ucast (pa div PAGE_SIZE));
             s1 = s\<lparr>ks := k, pages := (pages s)(p := zero_page\<lparr>pg_id := int slot, pg_ref_count := 1, pg_used := True,
                      pg_magic := 1234, pg_absolute_frame_number := frame\<rparr>),
                    pageAllocList := (pageAllocList s)(slot := p)\<rparr>
         in Inr (p, if pageConductor = NULL then upd_page p (\<lambda>x. x\<lparr>pg_next := NULL\<rparr>) s1
                    else upd_page pageConductor (\<lambda>x. x\<lparr>pg_next := p\<rparr>) s1))))"

fun allocPages_loop :: "int \<Rightarrow> nat \<Rightarrow> u64 \<Rightarrow> nat list \<Rightarrow> addr \<Rightarrow> int \<Rightarrow> pool_state \<Rightarrow> (addr \<times> pool_state) outcome" where
  "allocPages_loop sz first base [] conductor Count s = Inl (Panic ''allocPages: fail'')"
| "allocPages_loop sz first base (slot # slots) conductor Count s =
    and_then (add_page base slot conductor s) (\<lambda>(p, s1).
      if sz \<le> Count + 1
      then let pRet = pageAllocList s1 first in
        if pRet = NULL then Inl (Panic ''allocPages: pRet'')
        else if \<not> pg_used (pages s1 pRet) then Inl (Panic ''allocPages: pRet->used'')
        else if pg_magic (pages s1 pRet) \<noteq> 1234 then Inl (Panic ''allocPages: pRet->magic'')
        else Inr (base + of_int (pg_id (pages s1 pRet)) * PAGE_SIZE, s1)
      else allocPages_loop sz first base slots p (Count + 1) s1)"

definition allocPages :: "int \<Rightarrow> pool_state \<Rightarrow> (addr \<times> pool_state) outcome" where
  "allocPages sz s =
    (let base = g_pagedpool_va (mm s) in
     if sz \<le> 0 then Inr (NULL, s)
     else if sz = 1
     then and_then (mmNewPage s) (\<lambda>(va, s1).
       if va \<noteq> NULL then and_then (clear_words va [0..<512] (mm s1)) (\<lambda>m. Inr (va, s1\<lparr>mm := m\<rparr>)) else Inr (va, s1))
     else if PAGE_COUNT_MAX \<le> sz then Inl (Panic ''allocPages: size limits'')
     else let first_free_slot = firstSlotForAList sz s in
     if first_free_slot = -1 then Inl (Panic ''allocPages: No more free slots'')
     else let TargetSize = first_free_slot + sz + 1 in
     if PAGE_COUNT_MAX \<le> TargetSize then Inl (Panic ''allocPages: TargetSize'')
     else allocPages_loop sz (nat first_free_slot) base [nat first_free_slot..<nat TargetSize] NULL 0 s)"

definition mm_alloc_single_page :: "pool_state \<Rightarrow> (addr \<times> pool_state) outcome" where
  "mm_alloc_single_page s = mmNewPage s"

definition mm_alloc_contig_pages :: "int \<Rightarrow> pool_state \<Rightarrow> (addr \<times> pool_state) outcome" where
  "mm_alloc_contig_pages sz s = (if sz \<le> 0 then Inr (NULL, s) else allocPages sz s)"

definition mmAllocPage :: "pool_state \<Rightarrow> (addr \<times> pool_state) outcome" where
  "mmAllocPage s = mmNewPage s"

definition mmAllocPages :: "int \<Rightarrow> pool_state \<Rightarrow> (addr \<times> pool_state) outcome" where
  "mmAllocPages sz s = (if sz \<le> 0 then Inr (NULL, s) else allocPages sz s)"

definition initializeFramesAlloc :: "pool_state \<Rightarrow> pool_state outcome" where
  "initializeFramesAlloc s =
    (let s1 = s\<lparr>pageAllocList := (\<lambda>i. if i < nat PAGE_COUNT_MAX then 0 else pageAllocList s i)\<rparr> in
     and_then (kmalloc sizeof_page_d (ks s1)) (\<lambda>(p, k).
       if p = NULL then Inl (Panic ''initializeFramesAlloc:'')
       else Inr (s1\<lparr>ks := k, pages := (pages s1)(p := zero_page\<lparr>pg_id := 0, pg_free := True, pg_used := True, pg_magic := 1234\<rparr>),
                    pageAllocList := (pageAllocList s1)(0 := p)\<rparr>)))"

definition isValidPageStruct :: "addr \<Rightarrow> pool_state \<Rightarrow> bool" where
  "isValidPageStruct p s \<longleftrightarrow> p \<noteq> NULL \<and> pg_used (pages s p) \<and> pg_magic (pages s p) = 1234"

definition freePage :: "addr \<Rightarrow> pool_state \<Rightarrow> pool_state" where
  "freePage p s = (if p = NULL then s
     else if pg_used (pages s p) \<and> pg_magic (pages s p) = 1234 then upd_page p (\<lambda>x. x\<lparr>pg_free := True\<rparr>) s else s)"

definition notfreePage :: "addr \<Rightarrow> pool_state \<Rightarrow> pool_state" where
  "notfreePage p s = (if p = NULL then s
     else if pg_used (pages s p) \<and> pg_magic (pages s p) = 1234 then upd_page p (\<lambda>x. x\<lparr>pg_free := False\<rparr>) s else s)"

text \<open>The slabs: four chunks of one megabyte, each handed out once and charged to the calling process.\<close>

definition slab_address :: "nat \<Rightarrow> mm_state \<Rightarrow> u64" where
  "slab_address i m = ([np_a1_va, np_a2_va, np_b1_va, np_b2_va] ! i) (NewPagedPool m)"

definition slab_1MB_allocator :: "pool_state \<Rightarrow> (addr \<times> pool_state) outcome" where
  "slab_1MB_allocator s =
    (if \<not> np_initialized (NewPagedPool (mm s)) then Inr (NULL, s)
     else let process = get_current_process_pointer (ks s) in
     if process = NULL then Inl (Panic ''slab_1MB_allocator: process'')
     else if p_magic (tes (ks s) process) \<noteq> 1234 then Inl (Panic ''slab_1MB_allocator: process validation'')
     else case first_slot (np_Free (NewPagedPool (mm s))) [0, 1, 2, 3] of
       None \<Rightarrow> Inr (NULL, s)
     | Some i \<Rightarrow> Inr (slab_address i (mm s),
         s\<lparr>mm := (mm s)\<lparr>NewPagedPool := (NewPagedPool (mm s))\<lparr>np_Free := (np_Free (NewPagedPool (mm s)))(i := False)\<rparr>\<rparr>,
           ks := upd_te process (\<lambda>t. t\<lparr>p_allocated_memory := p_allocated_memory t + 1 * 1024 * 1024\<rparr>) (ks s)\<rparr>))"

text \<open>Phase 1 of the memory manager.\<close>

definition mmInitialize_phase1 :: "pool_state \<Rightarrow> (bool \<times> pool_state) outcome" where
  "mmInitialize_phase1 s =
    and_then (initializeFramesAlloc s) (\<lambda>s.
    and_then (pagesInitializePaging (mm s)) (\<lambda>(PagingStatus, m).
      if PagingStatus < 0 then Inl (Panic ''mmInitialize: Paging'')
      else Inr (True, s\<lparr>mm := m, MMInfo_initialized := True\<rparr>)))"

section \<open>Invariant\<close>

text \<open>
  The tables translate as the boot code set them up, slot 0 is taken, and each listed page is a live heap block that knows
  its slot. \<open>pool_occupied\<close> are the addresses of the pages in use.
\<close>

definition tables_ok :: "mm_state \<Rightarrow> bool" where
  "tables_ok m \<longleftrightarrow> (\<exists>lfb. boot_tables lfb (qmem m)) \<and> g_pagedpool_va m = PAGEDPOOL_VA \<and>
     gKernelPML4Address m = KERNEL_PML4_VA \<and> mm_cr3 m = KERNEL_PML4_PA"

definition listed_ok :: "pool_state \<Rightarrow> nat \<Rightarrow> bool" where
  "listed_ok s i \<longleftrightarrow> (let p = pageAllocList s i in p \<noteq> NULL \<longrightarrow> pg_used (pages s p) \<and> pg_magic (pages s p) = 1234 \<and>
     pg_id (pages s p) = int i \<and> unat p \<in> covered (kheap_live (ks s)))"

definition pool_ok :: "pool_state \<Rightarrow> bool" where
  "pool_ok s \<longleftrightarrow> tables_ok (mm s) \<and> kheap_inv (ks s) \<and> pageAllocList s 0 \<noteq> NULL \<and> (\<forall>i < 512. listed_ok s i)"

definition page_va :: "nat \<Rightarrow> u64" where
  "page_va i = PAGEDPOOL_VA + of_nat i * PAGE_SIZE"

definition pool_occupied :: "pool_state \<Rightarrow> nat set" where
  "pool_occupied s = (\<Union>i \<in> {i. i < 512 \<and> pageAllocList s i \<noteq> NULL}. span (page_va i) 4096)"

lemma page_va_unat: "i < 512 \<Longrightarrow> unat (page_va i) = 0x30600000 + 4096 * i"
proof -
  assume "i < 512"
  moreover from this have "unat (of_nat i * PAGE_SIZE) = 4096 * i"
    by (simp add: PAGE_SIZE_def unat_word_ariths unat_of_nat)
  ultimately show ?thesis by (simp add: page_va_def PAGEDPOOL_VA_def unat_plus_exact)
qed

lemma page_va_offset:
  assumes "i < 512" "off < 4096"
  shows "unat (page_va i + of_nat off) = 0x30600000 + 4096 * i + off" "unat (page_va i + of_nat off) < 2 ^ 30"
    "unat (page_va i + of_nat off) div 0x200000 = 387" "(page_va i + of_nat off) AND 0x1FFFFF = of_nat (4096 * i + off)"
proof -
  have o: "unat (of_nat off :: u64) = off" using assms(2) by (simp add: unat_of_nat)
  show u: "unat (page_va i + of_nat off) = 0x30600000 + 4096 * i + off"
    using assms by (subst unat_plus_exact) (simp_all add: page_va_unat o)
  with assms show "unat (page_va i + of_nat off) < 2 ^ 30" by simp
  have r: "4096 * i + off < 0x200000" using assms by simp
  have "0x30600000 + 4096 * i + off = 0x200000 * 387 + (4096 * i + off)" by simp
  then show "unat (page_va i + of_nat off) div 0x200000 = 387" using r unfolding u by simp
  have "unat ((page_va i + of_nat off) AND 0x1FFFFF) = (0x200000 * 387 + (4096 * i + off)) mod 0x200000"
    unfolding low_bits u by (simp add: add.assoc)
  also have "\<dots> = 4096 * i + off" using r by (simp only: mod_mult_self4 mod_less)
  also have "\<dots> = unat (of_nat (4096 * i + off) :: u64)" using r by (simp only: unat_of_nat) simp
  finally show "(page_va i + of_nat off) AND 0x1FFFFF = of_nat (4096 * i + off)" by (simp only: word_unat_eq_iff)
qed

definition frame_pa :: "nat \<Rightarrow> u64" where
  "frame_pa i = 0x1800000 + of_nat (4096 * i)"

text \<open>The pages of the pool are contiguous in physical memory, and both walks agree on them.\<close>

lemma pool_translation:
  assumes "tables_ok m" "i < 512" "off < 4096"
  shows "hw_walk (qmem m) (mm_cr3 m) (page_va i + of_nat off) = Some (frame_pa i + of_nat off, True, True)"
proof -
  from assms(1) obtain lfb where b: "boot_tables lfb (qmem m)" unfolding tables_ok_def by blast
  note o = page_va_offset [OF assms(2,3)]
  have v: "unat (page_va i + of_nat off) < 2 ^ 48" by (rule less_trans [OF o(2)]) simp
  have f: "boot_frame lfb 387 = Some (0x1800000, True)" by (simp add: boot_frame_def)
  have c: "mm_cr3 m = KERNEL_PML4_PA" using assms(1) by (simp add: tables_ok_def)
  show ?thesis using o(2)
    by (simp only: c boot_tables_walk [OF b v] o(3) f o(4) if_True option.map prod.case) (simp add: frame_pa_def add.assoc)
qed

lemma pool_v2p:
  assumes "tables_ok m" "i < 512"
  shows "virtual_to_physical (page_va i) (gKernelPML4Address m) m = Inr (frame_pa i)"
proof -
  from assms(1) obtain lfb where b: "boot_tables lfb (qmem m)" unfolding tables_ok_def by blast
  have e: "page_va i + of_nat 0 = page_va i" by simp
  note o = page_va_offset [OF assms(2), of 0, unfolded e]
  have f: "boot_frame lfb 387 = Some (0x1800000, True)" "\<not> large_slot 387" by (simp_all add: boot_frame_def large_slot_def)
  have v: "unat (page_va i) < 2 ^ 30" "unat (page_va i) div 0x200000 = 387" "page_va i AND 0x1FFFFF = of_nat (4096 * i + 0)"
    using o by simp_all
  have g: "gKernelPML4Address m = KERNEL_PML4_VA" using assms(1) by (simp add: tables_ok_def)
  show ?thesis unfolding g v2p_low [OF b v(1)] v2p_result_def v(2,3) f(1)
    using f(2) by (simp add: frame_pa_def)
qed

lemma frame_pa_unat: "i < 512 \<Longrightarrow> unat (frame_pa i) = 0x1800000 + 4096 * i"
proof -
  assume i: "i < 512"
  have "unat (of_nat (4096 * i) :: u64) = 4096 * i" using i by (simp only: unat_of_nat) simp
  then show ?thesis using i by (simp add: frame_pa_def unat_plus_exact)
qed

lemma frame_pa_aligned:
  assumes "i < 512"
  shows "frame_pa i mod PAGE_SIZE = 0" "frame_pa i \<noteq> 0" "ucast (frame_pa i div PAGE_SIZE) = (of_nat (0x1800 + i) :: u32)"
proof -
  note u = frame_pa_unat [OF assms]
  have "unat (frame_pa i mod PAGE_SIZE) = (0x1800000 + 4096 * i) mod 4096" by (simp add: unat_mod u PAGE_SIZE_def)
  also have "\<dots> = 0" by simp
  finally show "frame_pa i mod PAGE_SIZE = 0" by (simp only: unat_eq_zero)
  show "frame_pa i \<noteq> 0" using u by auto
  have d: "unat (frame_pa i div PAGE_SIZE) = 0x1800 + i" by (simp add: unat_div u PAGE_SIZE_def)
  have "unat (ucast (frame_pa i div PAGE_SIZE) :: u32) = 0x1800 + i"
    using assms d by (simp add: unsigned_ucast_eq take_bit_nat_eq_self)
  moreover have "unat (of_nat (0x1800 + i) :: u32) = 0x1800 + i" using assms by (simp only: unat_of_nat) simp
  ultimately show "ucast (frame_pa i div PAGE_SIZE) = (of_nat (0x1800 + i) :: u32)" by (simp only: word_unat_eq_iff)
qed

section \<open>Adding a page\<close>

text \<open>What the heap gives for a page structure, when it gives one, and when it does.\<close>

definition heap_room :: "nat \<Rightarrow> kstate \<Rightarrow> bool" where
  "heap_room n k \<longleftrightarrow> kheap_inv k \<and> mmblockCount (heap k) + int n < MMBLOCK_COUNT_MAX \<and>
     unat (g_heap_pointer (heap k)) + 128 * n < unat KERNEL_HEAP_END"

lemma kmalloc_page_size: "kmalloc_size sizeof_page_d = 56" "\<not> sint sizeof_page_d < 0"
  by (simp_all add: kmalloc_size_def sizeof_page_d_def)

lemma kmalloc_page_Inr:
  assumes "kheap_inv k" "kmalloc sizeof_page_d k = Inr (p, k')" "p \<noteq> NULL"
  shows "kheap_inv k'" "covered (kheap_live k) \<subseteq> covered (kheap_live k')" "unat p \<notin> covered (kheap_live k)"
    "unat p \<in> covered (kheap_live k')"
proof -
  have p: "unat p \<in> span p (kmalloc_size sizeof_page_d)" by (simp add: span_def kmalloc_page_size)
  note f = kernel_alloc.bytes.alloc_takes_free [OF assms]
  show "kheap_inv k'" by (rule kernel_alloc.bytes.alloc_keeps_inv [OF assms(1,2)])
  show "covered (kheap_live k) \<subseteq> covered (kheap_live k')" by (rule kernel_alloc.bytes.alloc_mono_occ [OF assms(1,2)])
  show "unat p \<notin> covered (kheap_live k)" "unat p \<in> covered (kheap_live k')" using f p by blast+
qed

lemma kmalloc_page_room:
  assumes "heap_room (Suc n) k"
  obtains p k' where "kmalloc sizeof_page_d k = Inr (p, k')" "p \<noteq> NULL" "heap_room n k'"
proof -
  note o = that
  let ?h = "heap k" and ?n = "ucast (if sizeof_page_d = 0 then 1 else sizeof_page_d) :: u64"
  have inv: "kheap_inv k" and c: "mmblockCount ?h + int (Suc n) < MMBLOCK_COUNT_MAX"
    and r: "unat (g_heap_pointer ?h) + 128 * Suc n < unat KERNEL_HEAP_END" using assms by (simp_all only: heap_room_def)
  have us: "user_size ?n = 56" by (simp add: user_size_def sizeof_page_d_def)
  have pe: "g_heap_pointer ?h < KERNEL_HEAP_END" using r by (simp add: unat_less_iff)
  have "g_available_heap ?h = KERNEL_HEAP_END - g_heap_pointer ?h"
    using inv by (simp add: heap_inv_def eq_diff_eq add.commute)
  then have "unat (g_available_heap ?h) = unat KERNEL_HEAP_END - unat (g_heap_pointer ?h)"
    using unat_minus_exact [of "g_heap_pointer ?h" KERNEL_HEAP_END] pe by (simp add: unat_le_iff unat_less_iff)
  then have av: "user_size ?n < g_available_heap ?h" using r by (simp add: us unat_less_iff)
  have h: "heapAllocateMemory ?n ?h = Inr (g_heap_pointer ?h + sizeof_mmblock_d, push_block (user_size ?n) ?h)"
  proof -
    have "\<not> g_available_heap ?h \<le> user_size ?n" "\<not> MMBLOCK_COUNT_MAX \<le> mmblockCount ?h + 1" "\<not> KERNEL_HEAP_END \<le> g_heap_pointer ?h"
      using av c pe by simp_all
    then show ?thesis by (simp only: heapAllocateMemory_cases [OF inv] if_False)
  qed
  obtain k' where k: "kmalloc sizeof_page_d k = Inr (g_heap_pointer ?h + sizeof_mmblock_d, k')"
    "heap k' = push_block (user_size ?n) ?h" using kmalloc_returns [OF kmalloc_page_size(2) h] by blast
  have "kheap_inv k'" using heapAllocateMemory_inv [OF inv h] k(2) by simp
  moreover have "unat (g_heap_pointer ?h + sizeof_mmblock_d + user_size ?n) = unat (g_heap_pointer ?h) + 72 + unat (user_size ?n)"
    by (rule push_block_room(1) [OF inv av pe])
  ultimately have "heap_room n k'" using c r k(2) us by (simp add: heap_room_def push_block_def Let_def)
  with k(1) new_userArea_not_NULL [OF inv] show ?thesis by (rule o)
qed

text \<open>The pages \<open>f, ..., f + n - 1\<close> have been added: their frames, and the links between their structures.\<close>

definition pages_added :: "nat \<Rightarrow> nat \<Rightarrow> pool_state \<Rightarrow> pool_state \<Rightarrow> bool" where
  "pages_added f n s s' \<longleftrightarrow> mm s' = mm s \<and>
    (\<forall>i. \<not> (f \<le> i \<and> i < f + n) \<longrightarrow> pageAllocList s' i = pageAllocList s i) \<and>
    (\<forall>i. f \<le> i \<longrightarrow> i < f + n \<longrightarrow> pageAllocList s i = NULL \<and> pageAllocList s' i \<noteq> NULL \<and>
       pg_absolute_frame_number (pages s' (pageAllocList s' i)) = of_nat (0x1800 + i) \<and>
       pg_next (pages s' (pageAllocList s' i)) = (if i + 1 < f + n then pageAllocList s' (i + 1) else NULL))"

lemma listed_distinct:
  assumes "pool_ok s" "i < 512" "j < 512" "pageAllocList s i \<noteq> NULL" "pageAllocList s i = pageAllocList s j"
  shows "i = j"
proof -
  have "listed_ok s i" "listed_ok s j" using assms by (simp_all add: pool_ok_def)
  then have "int i = int j" using assms(4,5) unfolding listed_ok_def Let_def by metis
  then show ?thesis by simp
qed

lemma add_page_Inr:
  assumes ok: "pool_ok s" and slot: "slot < 512"
    and a: "add_page PAGEDPOOL_VA slot c s = Inr (p, s1)"
  shows "pageAllocList s slot = NULL" "p \<noteq> NULL" "mm s1 = mm s" "pageAllocList s1 = (pageAllocList s)(slot := p)"
    "unat p \<notin> covered (kheap_live (ks s))" "unat p \<in> covered (kheap_live (ks s1))" "kheap_inv (ks s1)"
    "covered (kheap_live (ks s)) \<subseteq> covered (kheap_live (ks s1))"
    "pages s1 = (let q = (pages s)(p := zero_page\<lparr>pg_id := int slot, pg_ref_count := 1, pg_used := True, pg_magic := 1234,
        pg_absolute_frame_number := of_nat (0x1800 + slot)\<rparr>) in if c = NULL then q else q(c := (q c)\<lparr>pg_next := p\<rparr>))"
proof -
  have t: "tables_ok (mm s)" and h: "kheap_inv (ks s)" using ok by (simp_all add: pool_ok_def)
  have v: "virtual_to_physical (PAGEDPOOL_VA + of_nat slot * PAGE_SIZE) (gKernelPML4Address (mm s)) (mm s) = Inr (frame_pa slot)"
    using pool_v2p [OF t slot] by (simp only: page_va_def)
  note f = frame_pa_aligned [OF slot]
  show n: "pageAllocList s slot = NULL" using a by (simp add: add_page_def split: if_splits)
  from a n obtain k where k: "kmalloc sizeof_page_d (ks s) = Inr (p, k)" "p \<noteq> NULL"
    and s1: "s1 = (let s2 = s\<lparr>ks := k, pages := (pages s)(p := zero_page\<lparr>pg_id := int slot, pg_ref_count := 1, pg_used := True,
                      pg_magic := 1234, pg_absolute_frame_number := of_nat (0x1800 + slot)\<rparr>),
                    pageAllocList := (pageAllocList s)(slot := p)\<rparr>
         in if c = NULL then upd_page p (\<lambda>x. x\<lparr>pg_next := NULL\<rparr>) s2 else upd_page c (\<lambda>x. x\<lparr>pg_next := p\<rparr>) s2)"
    unfolding add_page_def v Let_def by (auto simp: f elim!: and_then_InrE split: if_splits)
  show "p \<noteq> NULL" by (rule k(2))
  show "mm s1 = mm s" "pageAllocList s1 = (pageAllocList s)(slot := p)" by (simp_all add: s1 Let_def)
  show "pages s1 = (let q = (pages s)(p := zero_page\<lparr>pg_id := int slot, pg_ref_count := 1, pg_used := True, pg_magic := 1234,
        pg_absolute_frame_number := of_nat (0x1800 + slot)\<rparr>) in if c = NULL then q else q(c := (q c)\<lparr>pg_next := p\<rparr>))"
    by (simp add: s1 Let_def zero_page_def)
  have "ks s1 = k" by (simp add: s1 Let_def)
  then show "unat p \<notin> covered (kheap_live (ks s))" "unat p \<in> covered (kheap_live (ks s1))" "kheap_inv (ks s1)"
    "covered (kheap_live (ks s)) \<subseteq> covered (kheap_live (ks s1))" using kmalloc_page_Inr [OF h k] by simp_all
qed

text \<open>One step of the loop: the invariant and the block grow by the page.\<close>

lemma add_page_step:
  assumes ok: "pool_ok s" and slot: "f + k < 512" and b: "pages_added f k s0 s"
    and c: "c = (if k = 0 then NULL else pageAllocList s (f + k - 1))"
    and a: "add_page PAGEDPOOL_VA (f + k) c s = Inr (p, s1)"
  shows "pool_ok s1" "pages_added f (Suc k) s0 s1" "pageAllocList s1 (f + k) = p"
proof -
  let ?x = "zero_page\<lparr>pg_id := int (f + k), pg_ref_count := 1, pg_used := True, pg_magic := 1234,
        pg_absolute_frame_number := of_nat (0x1800 + (f + k))\<rparr>"
  note A = add_page_Inr [OF ok slot a]
  have L: "listed_ok s i" if "i < 512" for i using ok that by (simp add: pool_ok_def)
  have pn: "pageAllocList s i \<noteq> p" if "i < 512" "pageAllocList s i \<noteq> NULL" for i
    using L [OF that(1)] that(2) A(5) by (auto simp: listed_ok_def)
  have cp: "c \<noteq> NULL \<Longrightarrow> 0 < k \<and> c = pageAllocList s (f + k - 1) \<and> c \<noteq> p"
    using c pn [of "f + k - 1"] slot by (auto split: if_splits)
  have pg: "pages s1 p = ?x" using A(9) cp by (auto simp: Let_def zero_page_def split: if_splits)
  have old: "pages s1 q = (if q = c \<and> c \<noteq> NULL then (pages s q)\<lparr>pg_next := p\<rparr> else pages s q)" if "q \<noteq> p" for q
    using A(9) that by (auto simp: Let_def split: if_splits)
  have keep: "pg_used (pages s1 q) = pg_used (pages s q)" "pg_magic (pages s1 q) = pg_magic (pages s q)"
    "pg_id (pages s1 q) = pg_id (pages s q)" "pg_absolute_frame_number (pages s1 q) = pg_absolute_frame_number (pages s q)"
    if "q \<noteq> p" for q using old [OF that] by simp_all
  show "pageAllocList s1 (f + k) = p" by (simp add: A(4))
  have "listed_ok s1 i" if i: "i < 512" for i
  proof (cases "i = f + k")
    case True
    then show ?thesis using A(6) by (simp add: listed_ok_def A(4) pg)
  next
    case False
    then have e: "pageAllocList s1 i = pageAllocList s i" by (simp add: A(4))
    show ?thesis using L [OF i] pn [OF i] keep A(8) unfolding listed_ok_def e Let_def by auto
  qed
  moreover have "pageAllocList s1 0 \<noteq> NULL" using A(1,2,4) ok by (simp add: pool_ok_def)
  ultimately show "pool_ok s1" using ok A(3,7) by (simp add: pool_ok_def)
  have new_free: "pageAllocList s0 (f + k) = NULL" using b A(1) by (simp add: pages_added_def)
  have "pg_absolute_frame_number (pages s1 (pageAllocList s1 i)) = of_nat (0x1800 + i) \<and> pageAllocList s1 i \<noteq> NULL \<and>
      pageAllocList s0 i = NULL \<and>
      pg_next (pages s1 (pageAllocList s1 i)) = (if i + 1 < f + Suc k then pageAllocList s1 (i + 1) else NULL)"
    if i: "f \<le> i" "i < f + k" for i
  proof -
    have bi: "pageAllocList s0 i = NULL" "pageAllocList s i \<noteq> NULL"
      "pg_absolute_frame_number (pages s (pageAllocList s i)) = of_nat (0x1800 + i)"
      "pg_next (pages s (pageAllocList s i)) = (if i + 1 < f + k then pageAllocList s (i + 1) else NULL)"
      using b i unfolding pages_added_def by blast+
    have i5: "i < 512" using i slot by simp
    have np: "pageAllocList s i \<noteq> p" by (rule pn [OF i5 bi(2)])
    have e: "pageAllocList s1 i = pageAllocList s i" using i by (simp add: A(4))
    have n: "pg_next (pages s1 (pageAllocList s i)) = (if i + 1 < f + Suc k then pageAllocList s1 (i + 1) else NULL)"
    proof (cases "i + 1 = f + k")
      case True
      then have "0 < k" "i = f + k - 1" using i by simp_all
      then have "pageAllocList s i = c" "c \<noteq> NULL" using c bi(2) by simp_all
      then show ?thesis using old [OF np] True A(4) by simp
    next
      case False
      then have lt: "i + 1 < f + k" using i by simp
      have "pageAllocList s i \<noteq> c \<or> c = NULL"
      proof (rule ccontr)
        assume x: "\<not> (pageAllocList s i \<noteq> c \<or> c = NULL)"
        then have "pageAllocList s i = pageAllocList s (f + k - 1)" using cp by simp
        then have "i = f + k - 1" using listed_distinct [OF ok i5 _ bi(2)] slot by simp
        with lt show False by simp
      qed
      then show ?thesis using old [OF np] bi(4) lt A(4) by auto
    qed
    show ?thesis using bi n keep(4) [OF np] by (simp add: e)
  qed
  note old_pages = this
  have m: "mm s1 = mm s0" using A(3) b by (simp add: pages_added_def)
  have outside: "pageAllocList s1 i = pageAllocList s0 i" if "\<not> (f \<le> i \<and> i < f + Suc k)" for i
  proof -
    have "i \<noteq> f + k" "\<not> (f \<le> i \<and> i < f + k)" using that by auto
    then show ?thesis using b unfolding pages_added_def A(4) by simp
  qed
  have new_page: "pageAllocList s0 i = NULL \<and> pageAllocList s1 i \<noteq> NULL \<and>
      pg_absolute_frame_number (pages s1 (pageAllocList s1 i)) = of_nat (0x1800 + i) \<and>
      pg_next (pages s1 (pageAllocList s1 i)) = (if i + 1 < f + Suc k then pageAllocList s1 (i + 1) else NULL)"
    if "f \<le> i" "i < f + Suc k" for i
  proof (cases "i < f + k")
    case True
    then show ?thesis using old_pages [OF that(1)] by blast
  next
    case False
    then have e: "i = f + k" using that by simp
    show ?thesis unfolding e using new_free A(2) pg by (simp add: A(4) zero_page_def)
  qed
  show "pages_added f (Suc k) s0 s1" unfolding pages_added_def using m outside new_page by blast
qed


lemma add_page_total:
  assumes ok: "pool_ok s" and slot: "slot < 512" and free: "pageAllocList s slot = NULL" and r: "heap_room (Suc n) (ks s)"
  obtains p s1 where "add_page PAGEDPOOL_VA slot c s = Inr (p, s1)" "heap_room n (ks s1)"
proof -
  note o = that
  have t: "tables_ok (mm s)" using ok by (simp add: pool_ok_def)
  have v: "virtual_to_physical (PAGEDPOOL_VA + of_nat slot * PAGE_SIZE) (gKernelPML4Address (mm s)) (mm s) = Inr (frame_pa slot)"
    using pool_v2p [OF t slot] by (simp only: page_va_def)
  obtain p k' where k: "kmalloc sizeof_page_d (ks s) = Inr (p, k')" "p \<noteq> NULL" "heap_room n k'"
    by (rule kmalloc_page_room [OF r])
  have "\<exists>p s1. add_page PAGEDPOOL_VA slot c s = Inr (p, s1) \<and> heap_room n (ks s1)"
    using k free unfolding add_page_def v by (simp add: Let_def)
  with o show ?thesis by blast
qed

section \<open>Blocks of pages\<close>

text \<open>The loop returns the first page of the block, and does return when the heap has room for the page structures.\<close>

lemma pages_added_listed:
  assumes "pages_added f n s s'" "f \<le> i" "i < f + n"
  shows "pageAllocList s i = NULL" "pageAllocList s' i \<noteq> NULL"
  using assms unfolding pages_added_def by blast+

lemma loop_return:
  assumes ok: "pool_ok s1" and b: "pages_added f n s0 s1" and n: "0 < n" "f + n \<le> 512"
  shows "pageAllocList s1 f \<noteq> NULL" "pg_used (pages s1 (pageAllocList s1 f))" "pg_magic (pages s1 (pageAllocList s1 f)) = 1234"
    "PAGEDPOOL_VA + of_int (pg_id (pages s1 (pageAllocList s1 f))) * PAGE_SIZE = page_va f"
proof -
  show l: "pageAllocList s1 f \<noteq> NULL" using pages_added_listed(2) [OF b] n by simp
  have "listed_ok s1 f" using ok n by (simp add: pool_ok_def)
  then have "pg_used (pages s1 (pageAllocList s1 f)) \<and> pg_magic (pages s1 (pageAllocList s1 f)) = 1234 \<and>
      pg_id (pages s1 (pageAllocList s1 f)) = int f" using l by (simp add: listed_ok_def Let_def)
  then show "pg_used (pages s1 (pageAllocList s1 f))" "pg_magic (pages s1 (pageAllocList s1 f)) = 1234"
    "PAGEDPOOL_VA + of_int (pg_id (pages s1 (pageAllocList s1 f))) * PAGE_SIZE = page_va f"
    by (simp_all add: page_va_def)
qed

lemma loop_result:
  assumes "pool_ok s" "pages_added f k s0 s" "k < n" "f + n < m" "m \<le> 512"
    and "c = (if k = 0 then NULL else pageAllocList s (f + k - 1))"
    and "allocPages_loop (int n) f PAGEDPOOL_VA [f + k..<m] c (int k) s = Inr (va, s')"
  shows "va = page_va f \<and> pages_added f n s0 s' \<and> pool_ok s'"
  using assms
proof (induction "n - k" arbitrary: k c s)
  case (Suc d)
  have slot: "f + k < 512" using Suc.prems by simp
  have u: "[f + k..<m] = (f + k) # [f + Suc k..<m]" using Suc.prems by (simp add: upt_conv_Cons)
  obtain p s1 where a: "add_page PAGEDPOOL_VA (f + k) c s = Inr (p, s1)"
    using Suc.prems(7) unfolding u by (auto elim!: and_then_InrE)
  note S = add_page_step [OF Suc.prems(1) slot Suc.prems(2,6) a]
  show ?case
  proof (cases "n = Suc k")
    case True
    have b: "pages_added f n s0 s1" using S(2) True by simp
    have n0: "0 < n" "f + n \<le> 512" using Suc.prems by simp_all
    note r = loop_return [OF S(1) b n0]
    show ?thesis using Suc.prems(7) S(1) b r unfolding u by (simp add: a True Let_def)
  next
    case False
    have nk: "\<not> int n \<le> int (Suc k)" "int k + 1 = int (Suc k)" using False Suc.prems(3) by simp_all
    have rest: "allocPages_loop (int n) f PAGEDPOOL_VA [f + Suc k..<m] p (int (Suc k)) s1 = Inr (va, s')"
      using Suc.prems(7) unfolding u by (simp only: allocPages_loop.simps a and_then_simps prod.case nk if_False)
    show ?thesis
      by (rule Suc.hyps(1) [OF _ S(1,2) _ Suc.prems(4,5) _ rest]) (use Suc.hyps(2) Suc.prems(3) False S(3) in auto)
  qed
qed simp

lemma loop_total:
  assumes "pool_ok s" "pages_added f k s0 s" "k < n" "f + n < m" "m \<le> 512"
    and "c = (if k = 0 then NULL else pageAllocList s (f + k - 1))"
    and "heap_room (n - k + r) (ks s)" "\<forall>i. f + k \<le> i \<and> i < f + n \<longrightarrow> pageAllocList s i = NULL"
  shows "\<exists>va s'. allocPages_loop (int n) f PAGEDPOOL_VA [f + k..<m] c (int k) s = Inr (va, s') \<and> heap_room r (ks s')"
  using assms
proof (induction "n - k" arbitrary: k c s)
  case (Suc d)
  have slot: "f + k < 512" using Suc.prems by simp
  have u: "[f + k..<m] = (f + k) # [f + Suc k..<m]" using Suc.prems by (simp add: upt_conv_Cons)
  have room: "heap_room (Suc (d + r)) (ks s)" using Suc.prems(7) unfolding Suc.hyps(2) [symmetric] by simp
  have fr: "pageAllocList s (f + k) = NULL" using Suc.prems(3,8) by simp
  obtain p s1 where a: "add_page PAGEDPOOL_VA (f + k) c s = Inr (p, s1)" "heap_room (d + r) (ks s1)"
    by (rule add_page_total [OF Suc.prems(1) slot fr room])
  note S = add_page_step [OF Suc.prems(1) slot Suc.prems(2,6) a(1)]
  show ?case
  proof (cases "n = Suc k")
    case True
    have b: "pages_added f n s0 s1" using S(2) True by simp
    have n0: "0 < n" "f + n \<le> 512" using Suc.prems by simp_all
    note ret = loop_return [OF S(1) b n0]
    have "heap_room r (ks s1)" using a(2) Suc.hyps(2) True by simp
    then show ?thesis using ret unfolding u by (simp add: a True Let_def)
  next
    case False
    have nk: "\<not> int n \<le> int (Suc k)" "int k + 1 = int (Suc k)" using False Suc.prems(3) by simp_all
    have rest_count: "n - Suc k = d" using Suc.hyps(2) by simp
    have keep: "\<forall>i. f + Suc k \<le> i \<and> i < f + n \<longrightarrow> pageAllocList s1 i = NULL"
      using Suc.prems(8) add_page_Inr(4) [OF Suc.prems(1) slot a(1)] by simp
    have "\<exists>va s'. allocPages_loop (int n) f PAGEDPOOL_VA [f + Suc k..<m] p (int (Suc k)) s1 = Inr (va, s') \<and> heap_room r (ks s')"
      by (rule Suc.hyps(1) [OF _ S(1,2) _ Suc.prems(4,5) _ _ keep])
        (use Suc.hyps(2) Suc.prems(3) False S(3) a(2) rest_count in auto)
    then show ?thesis unfolding u by (simp only: allocPages_loop.simps a and_then_simps prod.case nk if_False)
  qed
qed simp

text \<open>The search returns the first window of free slots.\<close>

lemma count_free_full: "count_free L is = length is \<longleftrightarrow> (\<forall>i \<in> set is. L i = NULL)"
proof -
  have "count_free L is \<le> length is" for "is" by (induction "is") auto
  then show ?thesis by (induction "is") (auto simp: le_Suc_eq)
qed

definition window_free :: "pool_state \<Rightarrow> nat \<Rightarrow> nat \<Rightarrow> bool" where
  "window_free s n f \<longleftrightarrow> f + n \<le> 512 \<and> (\<forall>i. f \<le> i \<and> i < f + n \<longrightarrow> pageAllocList s i = NULL)"

lemma firstSlot_result:
  assumes "0 < n" "n < 512"
  shows "firstSlotForAList (int n) s = -1 \<and> (\<forall>f. \<not> window_free s n f) \<or>
    (\<exists>f. firstSlotForAList (int n) s = int f \<and> window_free s n f \<and> (\<forall>g < f. \<not> window_free s n g))"
proof -
  let ?P = "\<lambda>start. int (count_free (pageAllocList s) [start..<start + nat (int n)]) = int n"
  have P: "?P f \<longleftrightarrow> (\<forall>i. f \<le> i \<and> i < f + n \<longrightarrow> pageAllocList s i = NULL)" for f
    using count_free_full [of "pageAllocList s" "[f..<f + n]"] by auto
  have hi: "nat (PAGE_COUNT_MAX - int n) + 1 = 513 - n" using assms by (simp add: PAGE_COUNT_MAX_def)
  have W: "window_free s n f \<longleftrightarrow> f < 513 - n \<and> ?P f" for f using assms unfolding window_free_def P by auto
  have e: "firstSlotForAList (int n) s = (case first_slot ?P [0..<513 - n] of None \<Rightarrow> -1 | Some start \<Rightarrow> int start)"
    using assms unfolding firstSlotForAList_def hi by (simp add: PAGE_COUNT_MAX_def)
  show ?thesis
  proof (cases "first_slot ?P [0..<513 - n]")
    case None
    then have "\<forall>f < 513 - n. \<not> ?P f" by (simp add: first_slot_None_iff)
    then show ?thesis using None W unfolding e by auto
  next
    case (Some f)
    then show ?thesis using first_slot_upt_least [OF Some] W unfolding e by auto
  qed
qed


lemma pages_added_0: "pages_added f 0 s s"
  by (simp add: pages_added_def)

lemma allocPages_block:
  assumes ok: "pool_ok s" and n: "2 \<le> n" and a: "allocPages (int n) s = Inr (va, s')"
  obtains f where "va = page_va f" "f + n + 1 < 512" "window_free s n f" "\<forall>g < f. \<not> window_free s n g"
    "pages_added f n s s'" "pool_ok s'"
proof -
  note o = that
  have base: "g_pagedpool_va (mm s) = PAGEDPOOL_VA" using ok by (simp add: pool_ok_def tables_ok_def)
  have lt: "n < 512" "\<not> int n \<le> 0" "int n \<noteq> 1" using a n by (auto simp: allocPages_def PAGE_COUNT_MAX_def split: if_splits)
  have n0: "0 < n" using n by simp
  have u: "allocPages (int n) s = (if firstSlotForAList (int n) s = -1 then Inl (Panic ''allocPages: No more free slots'')
     else if PAGE_COUNT_MAX \<le> firstSlotForAList (int n) s + int n + 1 then Inl (Panic ''allocPages: TargetSize'')
     else allocPages_loop (int n) (nat (firstSlotForAList (int n) s)) PAGEDPOOL_VA
       [nat (firstSlotForAList (int n) s)..<nat (firstSlotForAList (int n) s + int n + 1)] NULL 0 s)"
    using lt unfolding allocPages_def Let_def base by (simp add: PAGE_COUNT_MAX_def)
  from firstSlot_result [OF n0 lt(1), of s] a obtain f where f: "firstSlotForAList (int n) s = int f" "window_free s n f"
    "\<forall>g < f. \<not> window_free s n g" unfolding u by (auto split: if_splits)
  have t: "nat (int f + int n + 1) = f + n + 1" by simp
  have m: "f + n + 1 < 512" and r: "allocPages_loop (int n) f PAGEDPOOL_VA [f..<f + n + 1] NULL 0 s = Inr (va, s')"
    using a unfolding u f(1) t by (auto simp: PAGE_COUNT_MAX_def split: if_splits)
  have "va = page_va f \<and> pages_added f n s s' \<and> pool_ok s'"
    by (rule loop_result [where k = 0 and m = "f + n + 1" and c = NULL, OF ok pages_added_0 n0]) (use r m in simp_all)
  then show ?thesis using m f(2,3) o by blast
qed

text \<open>One page: it is cleared through the page tables, which its frame is not part of.\<close>

lemma frame_word:
  assumes "i < 512" "j < 512"
  shows "page_of (frame_pa i + 8 * of_nat j) = 0x1800 + i"
proof -
  have "unat (8 * of_nat j :: u64) = 8 * j" using assms(2) by (simp add: unat_word_ariths unat_of_nat)
  then have "unat (frame_pa i + 8 * of_nat j) = 0x1800000 + 4096 * i + 8 * j"
    using assms by (subst unat_plus_exact) (simp_all add: frame_pa_unat)
  moreover have "(0x1800000 + 4096 * i + 8 * j) div 4096 = 0x1800 + i" using assms(2) by simp
  ultimately show ?thesis by simp
qed

lemma tables_ok_frame:
  assumes "tables_ok m" "page_of a = 0x1800 + i"
  shows "tables_ok (m\<lparr>qmem := (qmem m)(a := v)\<rparr>)"
proof -
  from assms(1) obtain lfb where "boot_tables lfb (qmem m)" unfolding tables_ok_def by blast
  then have "boot_tables lfb ((qmem m)(a := v))" by (rule boot_tables_frame) (use assms(2) in auto)
  with assms(1) show ?thesis by (auto simp: tables_ok_def)
qed

lemma clear_words_page:
  assumes "i < 512" "tables_ok m" "set js \<subseteq> {..<512}"
  shows "\<exists>q. clear_words (page_va i) js m = Inr (m\<lparr>qmem := q\<rparr>) \<and> tables_ok (m\<lparr>qmem := q\<rparr>) \<and>
    (\<forall>a. q a = (if a \<in> (\<lambda>j. frame_pa i + 8 * of_nat j) ` set js then 0 else qmem m a))"
  using assms
proof (induction js arbitrary: m)
  case (Cons j js)
  let ?a = "frame_pa i + 8 * of_nat j" and ?m = "m\<lparr>qmem := (qmem m)(frame_pa i + 8 * of_nat j := 0)\<rparr>"
  have j: "j < 512" and o: "8 * j < 4096" using Cons.prems(3) by simp_all
  have w: "hw_walk (qmem m) (mm_cr3 m) (page_va i + 8 * of_nat j) = Some (?a, True, True)"
    using pool_translation [OF Cons.prems(2,1) o] by simp
  have t: "tables_ok ?m" by (rule tables_ok_frame [OF Cons.prems(2) frame_word [OF Cons.prems(1) j]])
  obtain q where q: "clear_words (page_va i) js ?m = Inr (?m\<lparr>qmem := q\<rparr>)" "tables_ok (?m\<lparr>qmem := q\<rparr>)"
    "\<forall>a. q a = (if a \<in> (\<lambda>j. frame_pa i + 8 * of_nat j) ` set js then 0 else qmem ?m a)"
    using Cons.IH [OF Cons.prems(1) t] Cons.prems(3) by auto
  have s: "clear_words (page_va i) (j # js) m = clear_words (page_va i) js ?m" by (simp add: w)
  have "q a = (if a \<in> (\<lambda>j. frame_pa i + 8 * of_nat j) ` set (j # js) then 0 else qmem m a)" for a
    using q(3) by auto
  note qa = this
  show ?case unfolding s
  proof (rule exI [of _ q], intro conjI)
    show "clear_words (page_va i) js ?m = Inr (m\<lparr>qmem := q\<rparr>)" "tables_ok (m\<lparr>qmem := q\<rparr>)" using q(1,2) by simp_all
  qed (use qa in blast)
qed (rule exI, auto)

definition new_page :: "nat \<Rightarrow> addr \<Rightarrow> kstate \<Rightarrow> pool_state \<Rightarrow> pool_state" where
  "new_page i p k s = s\<lparr>ks := k, pages := (pages s)(p := zero_page\<lparr>pg_id := int i, pg_used := True, pg_magic := 1234,
     pg_locked := False, pg_ref_count := 1, pg_absolute_frame_number := of_nat (0x1800 + i)\<rparr>),
     pageAllocList := (pageAllocList s)(i := p)\<rparr>"

lemma mmNewPage_slot:
  assumes "pool_ok s" "first_slot (\<lambda>i. pageAllocList s i = NULL) [0..<nat PAGE_COUNT_MAX] = Some i"
    "kmalloc sizeof_page_d (ks s) = Inr (p, k)" "p \<noteq> NULL"
  shows "mmNewPage s = Inr (page_va i, new_page i p k s)"
proof -
  have t: "tables_ok (mm s)" using assms(1) by (simp add: pool_ok_def)
  have base: "g_pagedpool_va (mm s) = PAGEDPOOL_VA" using t by (simp add: tables_ok_def)
  have p0: "PAGEDPOOL_VA \<noteq> 0" by (simp add: PAGEDPOOL_VA_def)
  have i: "i < 512" using first_slot_upt_least [OF assms(2)] by (simp add: PAGE_COUNT_MAX_def)
  have id_lt: "\<not> PAGE_COUNT_MAX \<le> int i" using i by (simp add: PAGE_COUNT_MAX_def)
  note fr = frame_pa_aligned [OF i]
  have v: "virtual_to_physical (PAGEDPOOL_VA + of_nat i * PAGE_SIZE) (gKernelPML4Address (mm s)) (mm s) = Inr (frame_pa i)"
    using pool_v2p [OF t i] by (simp only: page_va_def)
  have nz: "PAGEDPOOL_VA + of_nat i * PAGE_SIZE \<noteq> 0" using page_va_unat [OF i] by (auto simp: page_va_def)
  show ?thesis unfolding mmNewPage_def Let_def base using nz p0
    by (simp add: pageObject_def assms v fr id_lt page_va_def zero_page_def new_page_def)
qed

lemma mmNewPage_Inr:
  assumes ok: "pool_ok s" and a: "mmNewPage s = Inr (va, s')"
  obtains i p where "i < 512" "pageAllocList s i = NULL" "\<forall>j < i. pageAllocList s j \<noteq> NULL" "va = page_va i" "pool_ok s'"
    "mm s' = mm s" "p \<noteq> NULL" "pageAllocList s' = (pageAllocList s)(i := p)"
    "pg_absolute_frame_number (pages s' p) = of_nat (0x1800 + i)"
proof -
  note o = that
  have t: "tables_ok (mm s)" and h: "kheap_inv (ks s)" using ok by (simp_all add: pool_ok_def)
  have L: "listed_ok s j" if "j < 512" for j using ok that by (simp add: pool_ok_def)
  have base: "g_pagedpool_va (mm s) = PAGEDPOOL_VA" using t by (simp add: tables_ok_def)
  have p0: "PAGEDPOOL_VA \<noteq> 0" by (simp add: PAGEDPOOL_VA_def)
  let ?slots = "first_slot (\<lambda>i. pageAllocList s i = NULL) [0..<nat PAGE_COUNT_MAX]"
  have nn: "pageObject s \<noteq> Inr (NULL, s1)" for s1
    using a by (auto simp: mmNewPage_def base p0)
  obtain i where f: "?slots = Some i" using nn by (cases ?slots) (auto simp: pageObject_def)
  note F = first_slot_upt_least [OF f]
  have i: "i < 512" using F by (simp add: PAGE_COUNT_MAX_def)
  obtain p k where k: "kmalloc sizeof_page_d (ks s) = Inr (p, k)"
    using a by (cases "kmalloc sizeof_page_d (ks s)") (auto simp: mmNewPage_def base p0 pageObject_def f)
  have pz: "p \<noteq> NULL" using a k by (auto simp: mmNewPage_def base p0 pageObject_def f)
  note k = k pz
  note K = kmalloc_page_Inr [OF h k]
  have "Inr (va, s') = (Inr (page_va i, new_page i p k s) :: (addr \<times> pool_state) outcome)"
    unfolding a [symmetric] by (rule mmNewPage_slot [OF ok f k])
  then have r: "va = page_va i \<and> s' = new_page i p k s" by simp
  have pn: "pageAllocList s j \<noteq> p" if "j < 512" "pageAllocList s j \<noteq> NULL" for j
    using L [OF that(1)] that(2) K(3) by (auto simp: listed_ok_def)
  have "listed_ok s' j" if j: "j < 512" for j
  proof (cases "j = i")
    case True
    then show ?thesis using K(4) by (simp add: listed_ok_def r zero_page_def new_page_def)
  next
    case False
    then show ?thesis using L [OF j] pn [OF j] K(2) by (auto simp: listed_ok_def Let_def r new_page_def)
  qed
  moreover have "pageAllocList s' 0 \<noteq> NULL" using k(2) ok by (simp add: pool_ok_def r new_page_def)
  ultimately have "pool_ok s'" using t K(1) by (simp add: pool_ok_def r new_page_def)
  with i F k(2) r show ?thesis by (intro o [of i p]) (auto simp: new_page_def)
qed


text \<open>A request for several pages, decided by the first window that holds it.\<close>

definition first_window :: "pool_state \<Rightarrow> nat \<Rightarrow> nat option" where
  "first_window s n = first_slot (window_free s n) [0..<512]"

lemma first_window_result:
  assumes "0 < n" "n < 512"
  shows "firstSlotForAList (int n) s = (case first_window s n of None \<Rightarrow> -1 | Some f \<Rightarrow> int f)"
  using firstSlot_result [OF assms, of s]
proof (elim disjE exE conjE)
  assume "firstSlotForAList (int n) s = -1" "\<forall>f. \<not> window_free s n f"
  moreover from this(2) have "first_window s n = None" unfolding first_window_def first_slot_None_iff by blast
  ultimately show ?thesis by simp
next
  fix f assume f: "firstSlotForAList (int n) s = int f" "window_free s n f" "\<forall>g < f. \<not> window_free s n g"
  then have "first_window s n = Some f" unfolding first_window_def
    using assms by (intro first_slot_upt_SomeI) (auto simp: window_free_def)
  with f(1) show ?thesis by simp
qed

lemma allocPages_cases:
  assumes ok: "pool_ok s" and n: "2 \<le> n" "n < 512" and r: "heap_room (n + r) (ks s)"
  shows "case first_window s n of
      None \<Rightarrow> allocPages (int n) s = Inl (Panic ''allocPages: No more free slots'')
    | Some f \<Rightarrow> if f + n < 511
        then \<exists>s'. allocPages (int n) s = Inr (page_va f, s') \<and> pages_added f n s s' \<and> pool_ok s' \<and> heap_room r (ks s')
        else allocPages (int n) s = Inl (Panic ''allocPages: TargetSize'')"
proof -
  have base: "g_pagedpool_va (mm s) = PAGEDPOOL_VA" using ok by (simp add: pool_ok_def tables_ok_def)
  have n0: "0 < n" using n by simp
  have u: "allocPages (int n) s = (if firstSlotForAList (int n) s = -1 then Inl (Panic ''allocPages: No more free slots'')
     else if PAGE_COUNT_MAX \<le> firstSlotForAList (int n) s + int n + 1 then Inl (Panic ''allocPages: TargetSize'')
     else allocPages_loop (int n) (nat (firstSlotForAList (int n) s)) PAGEDPOOL_VA
       [nat (firstSlotForAList (int n) s)..<nat (firstSlotForAList (int n) s + int n + 1)] NULL 0 s)"
    using n unfolding allocPages_def Let_def base by (simp add: PAGE_COUNT_MAX_def)
  show ?thesis
  proof (cases "first_window s n")
    case None
    then show ?thesis unfolding u first_window_result [OF n0 n(2)] by simp
  next
    case (Some f)
    have w: "window_free s n f" using first_slot_Some_sat [OF Some [unfolded first_window_def]] by blast
    have t: "nat (int f + int n + 1) = f + n + 1" by simp
    show ?thesis
    proof (cases "f + n < 511")
      case True
      have e: "allocPages (int n) s = allocPages_loop (int n) f PAGEDPOOL_VA [f + 0..<f + n + 1] NULL (int 0) s"
        using True unfolding u first_window_result [OF n0 n(2)] Some option.case t
        by (simp add: PAGE_COUNT_MAX_def)
      have lt: "f + n < f + n + 1" "f + n + 1 \<le> 512" using True by simp_all
      have c: "NULL = (if (0::nat) = 0 then NULL else pageAllocList s (f + 0 - 1))" by simp
      have room: "heap_room (n - 0 + r) (ks s)" using r by simp
      have fr: "\<forall>i. f + 0 \<le> i \<and> i < f + n \<longrightarrow> pageAllocList s i = NULL" using w by (simp add: window_free_def)
      obtain va s' where a: "allocPages (int n) s = Inr (va, s')" "heap_room r (ks s')"
        using loop_total [OF ok pages_added_0 n0 lt c room fr] unfolding e by blast
      have "va = page_va f \<and> pages_added f n s s' \<and> pool_ok s'"
        by (rule loop_result [OF ok pages_added_0 n0 lt c a(1) [unfolded e]])
      with a True Some show ?thesis by simp
    next
      case False
      then show ?thesis unfolding u first_window_result [OF n0 n(2)] Some option.case t
        by (simp add: PAGE_COUNT_MAX_def)
    qed
  qed
qed

section \<open>The pool as an allocator\<close>

lemma pages_span:
  assumes "f + n \<le> 512" "0 < n"
  shows "span (page_va f) (n * 4096) = (\<Union>i \<in> {f..<f + n}. span (page_va i) 4096)"
proof -
  have e: "span (page_va i) 4096 = {x. 0x30600 + i = x div 4096}" if "i < 512" for i
    using that by (auto simp: span_def page_va_unat)
  have "span (page_va f) (n * 4096) = {x. 0x30600 + f \<le> x div 4096 \<and> x div 4096 < 0x30600 + f + n}"
    using assms by (auto simp: span_def page_va_unat)
  also have "\<dots> = (\<Union>i \<in> {f..<f + n}. {x. 0x30600 + i = x div 4096})"
  proof (intro set_eqI iffI)
    fix x assume "x \<in> {x. 0x30600 + f \<le> x div 4096 \<and> x div 4096 < 0x30600 + f + n}"
    then have "x div 4096 - 0x30600 \<in> {f..<f + n}" "0x30600 + (x div 4096 - 0x30600) = x div 4096" by auto
    then show "x \<in> (\<Union>i \<in> {f..<f + n}. {x. 0x30600 + i = x div 4096})" by blast
  qed auto
  also have "\<dots> = (\<Union>i \<in> {f..<f + n}. span (page_va i) 4096)"
    using assms(1) by (intro SUP_cong refl) (simp add: e)
  finally show ?thesis .
qed

lemma page_spans_disjoint:
  assumes "i < 512" "j < 512" "i \<noteq> j"
  shows "span (page_va i) 4096 \<inter> span (page_va j) 4096 = {}"
  using assms by (auto simp: span_def page_va_unat)

lemma allocPages_result:
  assumes ok: "pool_ok s" and a: "allocPages sz s = Inr (va, s')"
  shows "pool_ok s' \<and> (sz \<le> 0 \<and> va = NULL \<and> s' = s \<or>
    (\<exists>f. 0 < sz \<and> va = page_va f \<and> window_free s (nat sz) f \<and>
      (\<forall>i. pageAllocList s' i \<noteq> NULL \<longleftrightarrow> pageAllocList s i \<noteq> NULL \<or> f \<le> i \<and> i < f + nat sz)))"
proof -
  consider "sz \<le> 0" | "sz = 1" | "2 \<le> sz" by linarith
  then show ?thesis
  proof cases
    case 1
    then show ?thesis using ok a by (simp add: allocPages_def Let_def)
  next
    case 2
    then obtain s1 where n: "mmNewPage s = Inr (va, s1)"
      and c: "(if va \<noteq> NULL then and_then (clear_words va [0..<512] (mm s1)) (\<lambda>m. Inr (va, s1\<lparr>mm := m\<rparr>)) else Inr (va, s1)) = Inr (va, s')"
      using a unfolding allocPages_def Let_def
      by (auto simp del: upt_rec_numeral elim!: and_then_InrE split: if_splits)
    obtain i p where i: "i < 512" "pageAllocList s i = NULL" "va = page_va i" "pool_ok s1" "p \<noteq> NULL"
      "pageAllocList s1 = (pageAllocList s)(i := p)" by (rule mmNewPage_Inr [OF ok n])
    have t: "tables_ok (mm s1)" using i(4) by (simp add: pool_ok_def)
    have all_words: "set [0..<512::nat] \<subseteq> {..<512}" by (simp only: set_upt) auto
    obtain q where q: "clear_words (page_va i) [0..<512] (mm s1) = Inr ((mm s1)\<lparr>qmem := q\<rparr>)" "tables_ok ((mm s1)\<lparr>qmem := q\<rparr>)"
      using clear_words_page [OF i(1) t all_words] by blast
    have nz: "page_va i \<noteq> NULL" using page_va_unat [OF i(1)] by auto
    have s': "s' = s1\<lparr>mm := (mm s1)\<lparr>qmem := q\<rparr>\<rparr>" using c nz unfolding i(3) q(1) by simp
    have "pool_ok s'" using i(4) q(2) unfolding s' pool_ok_def listed_ok_def by simp
    moreover have "window_free s (nat sz) i" using i(1,2) 2 by (auto simp: window_free_def le_less_Suc_eq)
    ultimately show ?thesis using 2 i(3,5,6) by (auto simp: s')
  next
    case 3
    then have n: "2 \<le> nat sz" "int (nat sz) = sz" by simp_all
    obtain f where f: "va = page_va f" "window_free s (nat sz) f" "pages_added f (nat sz) s s'" "pool_ok s'"
      by (rule allocPages_block [OF ok n(1)]) (use a n(2) in auto)
    have "pageAllocList s' i \<noteq> NULL \<longleftrightarrow> pageAllocList s i \<noteq> NULL \<or> f \<le> i \<and> i < f + nat sz" for i
      using f(3) unfolding pages_added_def by metis
    then show ?thesis using f 3 by auto
  qed
qed

interpretation pool: byte_allocator allocPages "\<lambda>n. nat n * 4096" pool_occupied pool_ok
proof
  fix s :: pool_state and n :: int and p s'
  assume i: "pool_ok s" and a: "allocPages n s = Inr (p, s')"
  note r = allocPages_result [OF i a]
  show "pool_ok s'" using r by blast
  show "pool_occupied s \<subseteq> pool_occupied s'" using r by (auto simp: pool_occupied_def)
  assume "p \<noteq> NULL"
  then obtain f where f: "0 < n" "p = page_va f" "window_free s (nat n) f"
    "\<forall>i. pageAllocList s' i \<noteq> NULL \<longleftrightarrow> pageAllocList s i \<noteq> NULL \<or> f \<le> i \<and> i < f + nat n" using r by auto
  have b: "f + nat n \<le> 512" "\<forall>i. f \<le> i \<and> i < f + nat n \<longrightarrow> pageAllocList s i = NULL"
    using f(3) by (simp_all add: window_free_def)
  have e: "span p (nat n * 4096) = (\<Union>i \<in> {f..<f + nat n}. span (page_va i) 4096)"
    unfolding f(2) using pages_span [OF b(1)] f(1) by simp
  have "span (page_va i) 4096 \<inter> span (page_va j) 4096 = {}" if "i \<in> {f..<f + nat n}" "j < 512" "pageAllocList s j \<noteq> NULL" for i j
  proof -
    have "i < 512" "i \<noteq> j" using that b by auto
    then show ?thesis by (rule page_spans_disjoint [OF _ that(2)])
  qed
  note apart = this
  have "span p (nat n * 4096) \<inter> pool_occupied s = {}" unfolding e pool_occupied_def
  proof (rule equals0I, elim IntE UN_E CollectE conjE)
    fix x i j assume "i \<in> {f..<f + nat n}" "x \<in> span (page_va i) 4096" "j < 512" "pageAllocList s j \<noteq> NULL" "x \<in> span (page_va j) 4096"
    then show False using apart [of i j] by blast
  qed
  moreover have "span p (nat n * 4096) \<subseteq> pool_occupied s'"
    unfolding e pool_occupied_def
  proof (rule subsetI, elim UN_E)
    fix x i assume i: "i \<in> {f..<f + nat n}" "x \<in> span (page_va i) 4096"
    have "i < 512" using i(1) b(1) by simp
    moreover have "pageAllocList s' i \<noteq> NULL" using spec [OF f(4), of i] i(1) by simp
    ultimately show "x \<in> (\<Union>i \<in> {i. i < 512 \<and> pageAllocList s' i \<noteq> NULL}. span (page_va i) 4096)" using i(2) by blast
  qed
  ultimately show "span p (nat n * 4096) \<inter> pool_occupied s = {} \<and> span p (nat n * 4096) \<subseteq> pool_occupied s'" ..
qed


section \<open>The slabs as an allocator\<close>

text \<open>The chunks as \<^verbatim>\<open>slab_initialize\<close> lays them out: two in each extra heap.\<close>

definition slab_ok :: "pool_state \<Rightarrow> bool" where
  "slab_ok s \<longleftrightarrow> (let n = NewPagedPool (mm s) in np_initialized n \<and>
     np_a1_va n = EXTRAHEAP2_VA \<and> np_a2_va n = EXTRAHEAP2_VA + 0x100000 \<and>
     np_b1_va n = EXTRAHEAP3_VA \<and> np_b2_va n = EXTRAHEAP3_VA + 0x100000)"

definition slab_occupied :: "pool_state \<Rightarrow> nat set" where
  "slab_occupied s = (\<Union>i \<in> {i. i < 4 \<and> \<not> np_Free (NewPagedPool (mm s)) i}. span (slab_address i (mm s)) 0x100000)"

lemma slab_address_unat:
  assumes "slab_ok s" "i < 4"
  shows "unat (slab_address i (mm s)) = [unat EXTRAHEAP2_VA, unat EXTRAHEAP2_VA + 0x100000, unat EXTRAHEAP3_VA,
    unat EXTRAHEAP3_VA + 0x100000] ! i"
proof -
  consider "i = 0" | "i = 1" | "i = 2" | "i = 3" using assms(2) by linarith
  then show ?thesis using assms(1)
    by cases (simp_all add: slab_ok_def Let_def slab_address_def EXTRAHEAP2_VA_def EXTRAHEAP3_VA_def)
qed

lemma slab_spans_disjoint:
  assumes "slab_ok s" "i < 4" "j < 4" "i \<noteq> j"
  shows "span (slab_address i (mm s)) 0x100000 \<inter> span (slab_address j (mm s)) 0x100000 = {}"
proof -
  have four: "k = 0 \<or> k = 1 \<or> k = 2 \<or> k = 3" if "k < 4" for k :: nat using that by linarith
  show ?thesis using four [OF assms(2)] four [OF assms(3)] assms(4)
    unfolding span_def slab_address_unat [OF assms(1,2)] slab_address_unat [OF assms(1,3)]
    by (elim disjE) (simp_all add: EXTRAHEAP2_VA_def EXTRAHEAP3_VA_def)
qed

lemma slab_Inr:
  assumes ok: "slab_ok s" and a: "slab_1MB_allocator s = Inr (p, s')"
  obtains "p = NULL" "s' = s" "\<forall>i < 4. \<not> np_Free (NewPagedPool (mm s)) i"
  | i where "i < 4" "np_Free (NewPagedPool (mm s)) i" "p = slab_address i (mm s)"
    "mm s' = (mm s)\<lparr>NewPagedPool := (NewPagedPool (mm s))\<lparr>np_Free := (np_Free (NewPagedPool (mm s)))(i := False)\<rparr>\<rparr>"
proof -
  note o = that
  let ?f = "first_slot (np_Free (NewPagedPool (mm s))) [0, 1, 2, 3]"
  have init: "np_initialized (NewPagedPool (mm s))" using ok by (simp add: slab_ok_def Let_def)
  have r: "(case ?f of None \<Rightarrow> Inr (NULL, s)
     | Some i \<Rightarrow> Inr (slab_address i (mm s),
         s\<lparr>mm := (mm s)\<lparr>NewPagedPool := (NewPagedPool (mm s))\<lparr>np_Free := (np_Free (NewPagedPool (mm s)))(i := False)\<rparr>\<rparr>,
           ks := upd_te (get_current_process_pointer (ks s)) (\<lambda>t. t\<lparr>p_allocated_memory := p_allocated_memory t + 1 * 1024 * 1024\<rparr>) (ks s)\<rparr>))
     = (Inr (p, s') :: (addr \<times> pool_state) outcome)"
    using a unfolding slab_1MB_allocator_def Let_def by (simp only: init if_False not_True_eq_False sum.distinct split: if_split_asm)
  show ?thesis
  proof (cases ?f)
    case None
    then have "\<forall>i \<in> {0, 1, 2, 3}. \<not> np_Free (NewPagedPool (mm s)) i" by (simp only: first_slot_None_iff list.set)
    moreover have "i \<in> {0, 1, 2, 3}" if "i < 4" for i :: nat using that by auto
    ultimately show ?thesis using r None by (intro o(1)) auto
  next
    case (Some i)
    from first_slot_Some_sat [OF Some] have i: "np_Free (NewPagedPool (mm s)) i" "i < 4" by auto
    from r Some have "p = slab_address i (mm s)"
      "mm s' = (mm s)\<lparr>NewPagedPool := (NewPagedPool (mm s))\<lparr>np_Free := (np_Free (NewPagedPool (mm s)))(i := False)\<rparr>\<rparr>"
      by (simp_all only: option.case) auto
    with i show ?thesis by (intro o(2))
  qed
qed

lemma slab_keeps:
  assumes "slab_ok s" "mm s' = (mm s)\<lparr>NewPagedPool := (NewPagedPool (mm s))\<lparr>np_Free := F\<rparr>\<rparr>"
  shows "slab_ok s'" "j < 4 \<Longrightarrow> slab_address j (mm s') = slab_address j (mm s)" "np_Free (NewPagedPool (mm s')) = F"
proof -
  have "j = 0 \<or> j = 1 \<or> j = 2 \<or> j = 3" if "j < 4" using that by linarith
  then show "j < 4 \<Longrightarrow> slab_address j (mm s') = slab_address j (mm s)" using assms by (auto simp: slab_address_def)
qed (use assms in \<open>simp_all add: slab_ok_def Let_def\<close>)

interpretation slab: byte_allocator "\<lambda>_ :: unit. slab_1MB_allocator" "\<lambda>_. 0x100000" slab_occupied slab_ok
proof
  fix s :: pool_state and n :: unit and p s'
  assume ok: "slab_ok s" and a: "slab_1MB_allocator s = Inr (p, s')"
  from slab_Inr [OF ok a] have "slab_ok s' \<and> slab_occupied s \<subseteq> slab_occupied s' \<and>
    (p \<noteq> NULL \<longrightarrow> span p 0x100000 \<inter> slab_occupied s = {} \<and> span p 0x100000 \<subseteq> slab_occupied s')"
  proof cases
    case (2 i)
    note K = slab_keeps [OF ok 2(4)]
    have "slab_occupied s' = span p 0x100000 \<union> slab_occupied s"
      using 2(1,3) K(2,3) unfolding slab_occupied_def by (auto split: if_splits)
    moreover have "span p 0x100000 \<inter> slab_occupied s = {}" unfolding slab_occupied_def
    proof (rule equals0I, elim IntE UN_E CollectE conjE)
      fix x j assume "x \<in> span p 0x100000" "j < 4" "\<not> np_Free (NewPagedPool (mm s)) j" "x \<in> span (slab_address j (mm s)) 0x100000"
      then show False using slab_spans_disjoint [OF ok 2(1), of j] 2(2,3) by blast
    qed
    ultimately show ?thesis using K(1) by blast
  qed (use ok in simp)
  then show "slab_ok s'" "slab_occupied s \<subseteq> slab_occupied s'"
    "p \<noteq> NULL \<Longrightarrow> span p 0x100000 \<inter> slab_occupied s = {} \<and> span p 0x100000 \<subseteq> slab_occupied s'" by blast+
qed


section \<open>Properties\<close>

text \<open>The heap as the boot code leaves it has room for the structures.\<close>

lemma initializeFramesAlloc_ok:
  assumes r: "heap_room (Suc n) (ks s)" and m: "tables_ok m"
  shows "\<exists>s'. initializeFramesAlloc s = Inr s' \<and> heap_room n (ks s') \<and> mm s' = mm s \<and>
    pool_ok (s'\<lparr>mm := m, MMInfo_initialized := True\<rparr>) \<and> (\<forall>i. 0 < i \<and> i < 512 \<longrightarrow> pageAllocList s' i = NULL)"
proof -
  obtain p k where k: "kmalloc sizeof_page_d (ks s) = Inr (p, k)" "p \<noteq> NULL" "heap_room n k"
    by (rule kmalloc_page_room [OF r])
  have h: "kheap_inv (ks s)" using r by (simp add: heap_room_def)
  note K = kmalloc_page_Inr [OF h k(1,2)]
  show ?thesis using k K(1,4) m
    by (simp add: initializeFramesAlloc_def Let_def pool_ok_def listed_ok_def zero_page_def PAGE_COUNT_MAX_def)
qed

text \<open>
  Phase 1 of the memory manager ends with a pool in order: the page structure of slot 0 is reserved, every other
  slot is free, the tables translate every page of the pool, and the memory manager is marked as initialized.
\<close>

theorem phase1_establishes_pool:
  assumes "boot_ready (mm s)" and "heap_room (Suc n) (ks s)"
  shows "\<exists>s'. mmInitialize_phase1 s = Inr (True, s') \<and> pool_ok s' \<and> heap_room n (ks s') \<and> MMInfo_initialized s' \<and>
    pool_occupied s' = span PAGEDPOOL_VA 4096 \<and> (\<forall>i. 0 < i \<and> i < 512 \<longrightarrow> pageAllocList s' i = NULL)"
proof -
  obtain m where m: "pagesInitializePaging (mm s) = Inr (0, m)" "boot_tables (gSavedLFB (mm s)) (qmem m)"
    "mm_cr3 m = KERNEL_PML4_PA" "g_pagedpool_va m = PAGEDPOOL_VA" "gKernelPML4Address m = KERNEL_PML4_VA"
    by (rule boot_run [OF assms(1)])
  have t: "tables_ok m" using m by (auto simp: tables_ok_def)
  from initializeFramesAlloc_ok [OF assms(2) t] obtain s1 where s1: "initializeFramesAlloc s = Inr s1" "heap_room n (ks s1)"
    "mm s1 = mm s" "pool_ok (s1\<lparr>mm := m, MMInfo_initialized := True\<rparr>)" "\<forall>i. 0 < i \<and> i < 512 \<longrightarrow> pageAllocList s1 i = NULL" by blast
  let ?s' = "s1\<lparr>mm := m, MMInfo_initialized := True\<rparr>"
  have "{i. i < 512 \<and> pageAllocList ?s' i \<noteq> NULL} = {0}"
    using s1(4,5) by (auto simp: pool_ok_def)
  then have "pool_occupied ?s' = span PAGEDPOOL_VA 4096" by (simp add: pool_occupied_def page_va_def)
  with s1 m(1) show ?thesis by (simp add: mmInitialize_phase1_def)
qed

text \<open>
  Claim C4. The pool hands out memory once: in any sequence of requests that all return pointers, the blocks returned are
  pairwise disjoint and apart from every page that was in use before.
\<close>

theorem page_blocks_disjoint:
  assumes "pool_ok s" and "alloc_all allocPages ns s = Inr (ps, s')" and "NULL \<notin> set ps" and "j < length ns"
  shows "pool_ok s' \<and> span (ps ! j) (nat (ns ! j) * 4096) \<inter> pool_occupied s = {} \<and>
    (\<forall>i < j. span (ps ! i) (nat (ns ! i) * 4096) \<inter> span (ps ! j) (nat (ns ! j) * 4096) = {})"
proof -
  have "length ps = length ns" using pool.sequence_free [OF assms(1,2,3)] by blast
  then show ?thesis
    using pool.sequence_free [OF assms(1,2,3)] pool.sequence_disjoint [OF assms(1,2,3) _ assms(4)] assms(4) by simp
qed

text \<open>
  Claim C5. In a well-formed pool, and while the kernel heap is well formed and has room for the structures of the
  pages, a request for 2 to 511 pages is served from the first window of free slots: its pages follow each other in
  virtual and in physical memory, their structures are linked in order and hold the frame numbers, and no other slot
  changes. It panics when there is no window, and also when the first window ends at one of the last two slots of the
  pool, 510 or 511, although the block would fit.
\<close>

theorem contiguous_pages_result:
  assumes "pool_ok s" and "2 \<le> n" and "n < 512" and "heap_room n (ks s)"
  shows "case first_window s n of
      None \<Rightarrow> allocPages (int n) s = Inl (Panic ''allocPages: No more free slots'')
    | Some f \<Rightarrow> if f + n = 511 \<or> f + n = 512 then allocPages (int n) s = Inl (Panic ''allocPages: TargetSize'')
        else \<exists>s'. allocPages (int n) s = Inr (page_va f, s') \<and> pages_added f n s s' \<and>
          (\<forall>off < 4096 * n. hw_walk (qmem (mm s')) (mm_cr3 (mm s')) (page_va f + of_nat off) = Some (frame_pa f + of_nat off, True, True))"
proof -
  have "heap_room (n + 0) (ks s)" using assms(4) by simp
  note c = allocPages_cases [OF assms(1-3) this]
  show ?thesis
  proof (cases "first_window s n")
    case (Some f)
    have w: "f + n \<le> 512" using first_slot_Some_sat [OF Some [unfolded first_window_def]] by (simp add: window_free_def)
    show ?thesis
    proof (cases "f + n < 511")
      case True
      with c Some obtain s' where s': "allocPages (int n) s = Inr (page_va f, s')" "pages_added f n s s'" "pool_ok s'" by auto
      have "hw_walk (qmem (mm s')) (mm_cr3 (mm s')) (page_va f + of_nat off) = Some (frame_pa f + of_nat off, True, True)"
        if off: "off < 4096 * n" for off
      proof -
        have i: "f + off div 4096 < 512" "off mod 4096 < 4096" using off w by (auto simp: less_mult_imp_div_less)
        have sp: "(of_nat off :: u64) = of_nat (off div 4096) * 4096 + of_nat (off mod 4096)"
          by (metis div_mult_mod_eq of_nat_add of_nat_mult of_nat_numeral)
        have v: "page_va f + of_nat off = page_va (f + off div 4096) + of_nat (off mod 4096)"
          unfolding sp by (simp add: page_va_def PAGE_SIZE_def algebra_simps)
        have p: "frame_pa f + of_nat off = frame_pa (f + off div 4096) + of_nat (off mod 4096)"
          unfolding sp by (simp add: frame_pa_def algebra_simps)
        have t: "tables_ok (mm s')" using s'(3) by (simp add: pool_ok_def)
        show ?thesis unfolding v p by (rule pool_translation [OF t i])
      qed
      with s' Some True show ?thesis by auto
    next
      case False
      with c Some w show ?thesis by auto
    qed
  qed (use c in simp)
qed


text \<open>
  A single page is the lowest free one: it is returned whenever a slot is free and the heap has room, every word of it
  reads zero through the page tables, and no word outside its frame changes.
\<close>

theorem single_page_cleared:
  assumes "pool_ok s" and "heap_room 1 (ks s)" and "i < 512" and "pageAllocList s i = NULL"
    and "\<forall>j < i. pageAllocList s j \<noteq> NULL"
  shows "\<exists>s'. allocPages 1 s = Inr (page_va i, s') \<and> pool_ok s' \<and> pool_occupied s' = pool_occupied s \<union> span (page_va i) 4096 \<and>
    (\<forall>j < 512. \<exists>pa. hw_walk (qmem (mm s')) (mm_cr3 (mm s')) (page_va i + 8 * of_nat j) = Some (pa, True, True) \<and> qmem (mm s') pa = 0) \<and>
    (\<forall>a. page_of a \<noteq> page_of (frame_pa i) \<longrightarrow> qmem (mm s') a = qmem (mm s) a)"
proof -
  have f: "first_slot (\<lambda>i. pageAllocList s i = NULL) [0..<nat PAGE_COUNT_MAX] = Some i"
    by (rule first_slot_upt_SomeI) (use assms(3-5) in \<open>auto simp: PAGE_COUNT_MAX_def\<close>)
  have "heap_room (Suc 0) (ks s)" using assms(2) by simp
  then obtain p k where k: "kmalloc sizeof_page_d (ks s) = Inr (p, k)" "p \<noteq> NULL" by (rule kmalloc_page_room)
  note n = mmNewPage_slot [OF assms(1) f k]
  let ?s = "new_page i p k s"
  have m: "mm ?s = mm s" "pageAllocList ?s = (pageAllocList s)(i := p)" by (simp_all add: new_page_def)
  have ok: "pool_ok ?s" using mmNewPage_Inr [OF assms(1) n] by blast
  have t: "tables_ok (mm ?s)" using ok by (simp add: pool_ok_def)
  have words: "set [0..<512::nat] \<subseteq> {..<512}" by (simp only: set_upt) auto
  obtain q where q: "clear_words (page_va i) [0..<512] (mm ?s) = Inr ((mm ?s)\<lparr>qmem := q\<rparr>)" "tables_ok ((mm ?s)\<lparr>qmem := q\<rparr>)"
    "\<forall>a. q a = (if a \<in> (\<lambda>j. frame_pa i + 8 * of_nat j) ` set [0..<512] then 0 else qmem (mm ?s) a)"
    using clear_words_page [OF assms(3) t words] by blast
  let ?t = "?s\<lparr>mm := (mm ?s)\<lparr>qmem := q\<rparr>\<rparr>"
  have nz: "page_va i \<noteq> NULL" using page_va_unat [OF assms(3)] by auto
  have r: "allocPages 1 s = Inr (page_va i, ?t)"
    unfolding allocPages_def Let_def n by (simp add: nz q(1) del: upt_rec_numeral)
  have ot: "pool_ok ?t" using ok q(2) unfolding pool_ok_def listed_ok_def by simp
  have "{j. j < 512 \<and> pageAllocList ?t j \<noteq> NULL} = insert i {j. j < 512 \<and> pageAllocList s j \<noteq> NULL}"
    using assms(3) k(2) m(2) by auto
  then have oc: "pool_occupied ?t = pool_occupied s \<union> span (page_va i) 4096" unfolding pool_occupied_def by auto
  have z: "\<exists>pa. hw_walk (qmem (mm ?t)) (mm_cr3 (mm ?t)) (page_va i + 8 * of_nat j) = Some (pa, True, True) \<and> qmem (mm ?t) pa = 0"
    if j: "j < 512" for j
  proof -
    have o: "8 * j < 4096" using j by simp
    have "j \<in> set [0..<512]" using j by (simp only: set_upt atLeastLessThan_iff) simp
    then have "q (frame_pa i + 8 * of_nat j) = 0" using q(3) by (metis image_eqI)
    moreover have "hw_walk q (mm_cr3 (mm ?s)) (page_va i + 8 * of_nat j) = Some (frame_pa i + 8 * of_nat j, True, True)"
      using pool_translation [OF q(2) assms(3) o] by simp
    ultimately show ?thesis by simp
  qed
  have out: "qmem (mm ?t) a = qmem (mm s) a" if a: "page_of a \<noteq> page_of (frame_pa i)" for a
  proof -
    have "page_of (frame_pa i) = 0x1800 + i" using frame_word [OF assms(3), of 0] by simp
    then have "a \<notin> (\<lambda>j. frame_pa i + 8 * of_nat j) ` set [0..<512]" using a frame_word [OF assms(3)] words by auto
    then show ?thesis using q(3) m(1) by simp
  qed
  show ?thesis using r ot oc z out by blast
qed


text \<open>The chunks of the slab allocator, from its initialization on.\<close>

lemma slab_initialize_ok:
  assumes "slab_initialize (mm s) = Inr m" "g_extraheap2_va (mm s) = EXTRAHEAP2_VA" "g_extraheap3_va (mm s) = EXTRAHEAP3_VA"
  shows "slab_ok (s\<lparr>mm := m\<rparr>) \<and> slab_occupied (s\<lparr>mm := m\<rparr>) = {}"
proof -
  have ok: "slab_ok (s\<lparr>mm := m\<rparr>)"
    using assms by (auto simp: slab_initialize_def slab_ok_def EXTRAHEAP2_VA_def EXTRAHEAP3_VA_def)
  have "np_Free (NewPagedPool m) i" if "i < 4" for i
  proof -
    have "i = 0 \<or> i = 1 \<or> i = 2 \<or> i = 3" using that by linarith
    then show ?thesis using assms(1) by (auto simp: slab_initialize_def split: if_splits)
  qed
  then show ?thesis using ok by (auto simp: slab_occupied_def)
qed

theorem slab_chunks_disjoint:
  assumes "slab_initialize (mm s) = Inr m" "g_extraheap2_va (mm s) = EXTRAHEAP2_VA" "g_extraheap3_va (mm s) = EXTRAHEAP3_VA"
    and "alloc_all (\<lambda>_ :: unit. slab_1MB_allocator) us (s\<lparr>mm := m\<rparr>) = Inr (ps, s')" "NULL \<notin> set ps" "i < j" "j < length us"
  shows "span (ps ! i) 0x100000 \<inter> span (ps ! j) 0x100000 = {}"
  using slab.sequence_disjoint [OF _ assms(4-7)] slab_initialize_ok [OF assms(1-3)] by blast

section \<open>Examples\<close>

text \<open>The system before phase 1, with the heap as the boot code left it and a process running.\<close>

definition boot_pool_state :: pool_state where
  "boot_pool_state = \<lparr>ks = process_kstate, mm = boot_mm_state, pageAllocList = (\<lambda>_. 0), pages = (\<lambda>_. zero_page),
     MMInfo_initialized = False\<rparr>"

lemma boot_pool_ready: "boot_ready (mm boot_pool_state)" "heap_room (Suc 6) (ks boot_pool_state)"
  by (simp_all add: boot_pool_state_def boot_mm_state_ready heap_room_def boot_heap_inv boot_heap_fields heap_consts)

theorem phase1_establishes_pool_witness:
  "\<exists>s'. mmInitialize_phase1 boot_pool_state = Inr (True, s') \<and> pool_ok s' \<and> heap_room 6 (ks s') \<and>
    (\<forall>i. 0 < i \<and> i < 512 \<longrightarrow> pageAllocList s' i = NULL)"
  using phase1_establishes_pool [OF boot_pool_ready] by blast

lemma phase1_state:
  obtains s where "pool_ok s" "heap_room 6 (ks s)" "\<forall>i. 0 < i \<and> i < 512 \<longrightarrow> pageAllocList s i = NULL"
proof -
  note o = that
  obtain m where m: "pagesInitializePaging boot_mm_state = Inr (0, m)" "boot_tables (gSavedLFB boot_mm_state) (qmem m)"
    "mm_cr3 m = KERNEL_PML4_PA" "g_pagedpool_va m = PAGEDPOOL_VA" "gKernelPML4Address m = KERNEL_PML4_VA"
    by (rule boot_run [OF boot_mm_state_ready(1)])
  then have t: "tables_ok m" by (auto simp: tables_ok_def)
  from initializeFramesAlloc_ok [OF boot_pool_ready(2) t] obtain s1 where s1: "heap_room 6 (ks s1)"
    "pool_ok (s1\<lparr>mm := m, MMInfo_initialized := True\<rparr>)" "\<forall>i. 0 < i \<and> i < 512 \<longrightarrow> pageAllocList s1 i = NULL" by blast
  then show ?thesis by (intro o [of "s1\<lparr>mm := m, MMInfo_initialized := True\<rparr>"]) simp_all
qed

lemma free_window:
  assumes "pool_ok s" "\<forall>i. f \<le> i \<and> i < 512 \<longrightarrow> pageAllocList s i = NULL" "\<forall>i. i < f \<longrightarrow> pageAllocList s i \<noteq> NULL"
    "0 < n" "f + n \<le> 512"
  shows "first_window s n = Some f"
  unfolding first_window_def using assms by (intro first_slot_upt_SomeI) (auto simp: window_free_def)

lemma phase1_window:
  assumes "pool_ok s" "\<forall>i. 0 < i \<and> i < 512 \<longrightarrow> pageAllocList s i = NULL" "0 < n" "n < 512"
  shows "first_window s n = Some 1"
  by (rule free_window [OF assms(1)]) (use assms in \<open>auto simp: pool_ok_def\<close>)

lemma blocks_2_3:
  obtains s s1 s2 where "pool_ok s" "heap_room 6 (ks s)" "allocPages 2 s = Inr (page_va 1, s1)"
    "allocPages 3 s1 = Inr (page_va 3, s2)"
proof -
  note o = that
  obtain s where s: "pool_ok s" "heap_room (2 + 4) (ks s)" "\<forall>i. 0 < i \<and> i < 512 \<longrightarrow> pageAllocList s i = NULL"
    by (rule phase1_state) simp
  have w: "first_window s 2 = Some 1" by (rule phase1_window [OF s(1,3)]) simp_all
  have "allocPages (int 2) s = allocPages 2 s" "allocPages (int 3) x = allocPages 3 x" for x by simp_all
  note three = this
  obtain s1 where s1: "allocPages 2 s = Inr (page_va 1, s1)" "pages_added 1 2 s s1" "pool_ok s1" "heap_room (3 + 1) (ks s1)"
    using allocPages_cases [OF s(1) _ _ s(2)] w three by auto
  have "\<forall>i. 3 \<le> i \<and> i < 512 \<longrightarrow> pageAllocList s1 i = NULL" using s(3) s1(2) by (simp add: pages_added_def)
  moreover have "\<forall>i. i < 3 \<longrightarrow> pageAllocList s1 i \<noteq> NULL"
    using s(1) s1(2) by (auto simp: pages_added_def pool_ok_def less_Suc_eq numeral_3_eq_3)
  ultimately have w1: "first_window s1 3 = Some 3" by (intro free_window [OF s1(3)]) simp_all
  obtain s2 where "allocPages 3 s1 = Inr (page_va 3, s2)"
    using allocPages_cases [OF s1(3) _ _ s1(4)] w1 three by auto
  with s(1,2) s1(1) show ?thesis by (intro o) simp_all
qed

theorem page_blocks_disjoint_witness:
  "\<exists>s s'. pool_ok s \<and> alloc_all allocPages [2, 3] s = Inr ([page_va 1, page_va 3], s') \<and>
    span (page_va 1) 8192 \<inter> span (page_va 3) 12288 = {}"
proof -
  obtain s s1 s2 where s: "pool_ok s" "allocPages 2 s = Inr (page_va 1, s1)" "allocPages 3 s1 = Inr (page_va 3, s2)"
    by (rule blocks_2_3)
  then have a: "alloc_all allocPages [2, 3] s = Inr ([page_va 1, page_va 3], s2)" by simp
  have n: "NULL \<notin> set [page_va 1, page_va 3]" using page_va_unat [of 1] page_va_unat [of 3] by auto
  have "\<forall>i < 1. span ([page_va 1, page_va 3] ! i) (nat ([2, 3] ! i) * 4096) \<inter> span ([page_va 1, page_va 3] ! 1) (nat ([2, 3] ! 1) * 4096) = {}"
    using page_blocks_disjoint [OF s(1) a n, of 1] by simp
  then have "span (page_va 1) 8192 \<inter> span (page_va 3) 12288 = {}" by simp
  with s(1) a show ?thesis by blast
qed

theorem contiguous_pages_result_witness:
  "\<exists>s s'. allocPages 2 s = Inr (page_va 1, s') \<and>
    hw_walk (qmem (mm s')) (mm_cr3 (mm s')) (page_va 1 + of_nat 5000) = Some (frame_pa 1 + of_nat 5000, True, True)"
proof -
  obtain s where s: "pool_ok s" "heap_room 6 (ks s)" "\<forall>i. 0 < i \<and> i < 512 \<longrightarrow> pageAllocList s i = NULL"
    by (rule phase1_state)
  have w: "first_window s 2 = Some 1" by (rule phase1_window [OF s(1,3)]) simp_all
  have room: "heap_room 2 (ks s)" using s(2) by (simp add: heap_room_def)
  have "int 2 = 2" by simp
  note c = contiguous_pages_result [OF s(1) _ _ room, unfolded w option.case this]
  have "\<exists>s'. allocPages 2 s = Inr (page_va 1, s') \<and>
    (\<forall>off < 4096 * 2. hw_walk (qmem (mm s')) (mm_cr3 (mm s')) (page_va 1 + of_nat off) = Some (frame_pa 1 + of_nat off, True, True))"
    using c by auto
  then obtain s' where s': "allocPages 2 s = Inr (page_va 1, s')"
    "\<forall>off < 4096 * 2. hw_walk (qmem (mm s')) (mm_cr3 (mm s')) (page_va 1 + of_nat off) = Some (frame_pa 1 + of_nat off, True, True)" by blast
  have "5000 < 4096 * (2::nat)" by simp
  with s' show ?thesis by blast
qed

theorem single_page_cleared_witness:
  "\<exists>s s'. allocPages 1 s = Inr (page_va 1, s') \<and> pool_occupied s' = pool_occupied s \<union> span (page_va 1) 4096"
proof -
  obtain s where s: "pool_ok s" "heap_room 6 (ks s)" "\<forall>i. 0 < i \<and> i < 512 \<longrightarrow> pageAllocList s i = NULL"
    by (rule phase1_state)
  have room: "heap_room 1 (ks s)" using s(2) by (simp add: heap_room_def)
  have "pageAllocList s 1 = NULL" "\<forall>j < 1. pageAllocList s j \<noteq> NULL" using s(1,3) by (simp_all add: pool_ok_def)
  from single_page_cleared [OF s(1) room _ this] show ?thesis by auto
qed

end
