(* ===== verification/Io_State.thy ===== *)
theory Io_State
  imports Kmalloc Kstring
begin

text \<open>
  The state of the file layer: file structures (libk/kstdio.h), pipes (fs/pipe.h), terminals (chardev/tty/tty.h),
  sockets as far as the file layer reads them, and the descriptor table \<^verbatim>\<open>Objects\<close> of each
  process. Buffers are bytes in memory, structures have a store for each type. Characters that leave the
  kernel for a console or the serial port are collected in lists.
\<close>

section \<open>Constants\<close>

definition OPEN_MAX :: int where "OPEN_MAX = 32"
definition BUFSIZ :: int where "BUFSIZ = 1024"
definition EOF :: int where "EOF = -1"
definition EPERM :: int where "EPERM = 1"
definition EBADF :: int where "EBADF = 9"
definition EINVAL :: int where "EINVAL = 22"
definition EMFILE :: int where "EMFILE = 24"
definition ENOTCONN :: int where "ENOTCONN = 107"

definition SRD :: u16 where "SRD = 0x0004"
definition SWR :: u16 where "SWR = 0x0008"
definition IOERR :: u16 where "IOERR = 0x0020"

definition STDIN_FILENO :: int where "STDIN_FILENO = 0"
definition STDOUT_FILENO :: int where "STDOUT_FILENO = 1"
definition STDERR_FILENO :: int where "STDERR_FILENO = 2"

lemmas io_consts = OPEN_MAX_def BUFSIZ_def EOF_def EPERM_def EBADF_def EINVAL_def EMFILE_def ENOTCONN_def
  SRD_def SWR_def IOERR_def STDIN_FILENO_def STDOUT_FILENO_def STDERR_FILENO_def

text \<open>The kinds of object that the file layer tells apart; the code has more, which it all treats alike.\<close>

datatype object_type_t = ObjectTypeNull | ObjectTypeDirectory | ObjectTypeFile | ObjectTypePipe | ObjectTypeFileSystem
  | ObjectTypeMetafile | ObjectTypeDevice | ObjectTypePTMX | ObjectTypeTTY | ObjectTypeVirtualConsole
  | ObjectTypeNIC | ObjectTypeSocket | ObjectTypeIoBuffer | ObjectTypeOther int

section \<open>Structures\<close>

record kstdio_sync_d =
  sy_sender_pid :: int
  sy_receiver_pid :: int
  sy_action :: int
  sy_can_read :: bool
  sy_can_write :: bool
  sy_can_execute :: bool
  sy_can_accept :: bool
  sy_can_connect :: bool
  sy_block_on_write :: bool
  sy_block_on_write_full :: bool
  sy_block_on_read_empty :: bool

record file_d =
  f_used :: bool
  f_magic :: int
  f_object :: object_type_t
  f_file :: int
  f_tty :: addr
  f_socket :: addr
  f_tmpfname :: addr
  f_pid :: int
  f_uid :: int
  f_gid :: int
  f_isDevice :: bool
  f_dev_major :: int
  f_dev_minor :: int
  f_socket_buffer_full :: bool
  f_base :: addr
  f_p :: addr
  f_r :: int
  f_w :: int
  f_lbfsize :: int
  f_fsize :: int
  f_cnt :: int
  f_bf_base :: addr
  f_flags :: u16
  f_fd_flags :: u16
  f_sync :: kstdio_sync_d
  f_fd_counter :: int
  f_pipe_info :: addr

record pipe_info_d =
  pi_base :: addr
  pi_buffer_size :: int
  pi_counter :: int
  pi_write_pos :: int
  pi_read_pos :: int

record tty_queue =
  tq_buf :: "nat \<Rightarrow> u8"
  tq_buffer_size :: int
  tq_cnt :: int
  tq_head :: u64
  tq_tail :: u64

record termios_d =
  c_iflag :: u16
  c_oflag :: u16
  c_cflag :: u16
  c_lflag :: u16
  c_cc :: "nat \<Rightarrow> u8"
  c_ispeed :: u32
  c_ospeed :: u32

record tty_d =
  tt_used :: bool
  tt_magic :: int
  tt_index :: int
  tt_session_type :: int
  tt_fp :: addr
  tt_type :: int
  tt_subtype :: int
  tt_initialized :: bool
  tt_is_blocked :: bool
  raw_queue :: tty_queue
  canonical_queue :: tty_queue
  output_queue :: tty_queue
  output_worker_number :: int
  tt_termios :: termios_d
  tt_link :: addr

record connection_d =
  cn_magic :: int
  cn_status :: int

record socket_d =
  sk_magic :: int
  sk_family :: int
  sk_state :: int
  sk_is_client_connecting_with_remote_server :: bool
  sk_is_remote_client_connecting_with_local_server :: bool
  sk_conn :: addr

text \<open>
  A sector has 512 bytes, numbered by a 9-bit word. A disk is a store of sectors; an IDE disk is selected by the
  base port of its channel and the slave bit and has 28-bit sector addresses.
\<close>

type_synonym sector = "9 word \<Rightarrow> u8"
type_synonym ide_unit = "u16 \<times> bool"

record ide_port_d =
  base_port :: u16
  dev_num :: u8

record filesystem_d =
  r_used :: bool
  r_magic :: int
  r_spc :: int
  r_dir_entries :: int

record system_directory_d =
  sd_initialized :: bool
  sd_address :: addr

record device_d =
  d_magic :: int
  d_fp :: addr
  d_mount_point :: addr

record io_state =
  iks :: kstate
  bytes :: mem
  objects :: "addr \<Rightarrow> nat \<Rightarrow> addr"
  read_counter :: "addr \<Rightarrow> u32"
  write_counter :: "addr \<Rightarrow> u32"
  files :: "addr \<Rightarrow> file_d"
  pipe_infos :: "addr \<Rightarrow> pipe_info_d"
  ttys :: "addr \<Rightarrow> tty_d"
  sockets :: "addr \<Rightarrow> socket_d"
  connections :: "addr \<Rightarrow> connection_d"
  stdin_file :: addr
  special_reader :: int
  current_user :: int
  current_group :: int
  fg_console :: int
  console_session :: "int \<Rightarrow> int"
  console_out :: "(int \<times> u8) list"
  serial_out :: "u8 list"
  user_termios :: "addr \<Rightarrow> termios_d"
  redirect :: addr
  controller_type :: u8
  current_ide_port :: u32
  ide_port :: "u32 \<Rightarrow> ide_port_d"
  ide_sectors :: "ide_unit \<Rightarrow> u32 \<Rightarrow> sector"
  ide_answers :: "ide_unit \<Rightarrow> u32 \<Rightarrow> bool"
  ide_settles :: "ide_unit \<Rightarrow> u32 \<Rightarrow> bool"
  ahci_sectors :: "u64 \<Rightarrow> sector"
  ahci_answers :: "u64 \<Rightarrow> bool"
  gNumberOfSectorsInBootDisk :: u64
  g_currentvolume_fatbits :: int
  g_fat_cache_loaded :: bool
  g_fat_cache_saved :: bool
  fat16ClustersToSave :: "int \<Rightarrow> u16"
  root :: "filesystem_d option"
  sdGRAMADO :: system_directory_d
  sdDE :: system_directory_d
  fs_buffers :: "int \<Rightarrow> addr"
  backbuffer_va :: addr
  deviceList :: "nat \<Rightarrow> addr"
  devices :: "addr \<Rightarrow> device_d"

abbreviation upd_file :: "addr \<Rightarrow> (file_d \<Rightarrow> file_d) \<Rightarrow> io_state \<Rightarrow> io_state" where
  "upd_file f g s \<equiv> s\<lparr>files := (files s)(f := g (files s f))\<rparr>"

abbreviation upd_pipe :: "addr \<Rightarrow> (pipe_info_d \<Rightarrow> pipe_info_d) \<Rightarrow> io_state \<Rightarrow> io_state" where
  "upd_pipe p g s \<equiv> s\<lparr>pipe_infos := (pipe_infos s)(p := g (pipe_infos s p))\<rparr>"

abbreviation upd_tty :: "addr \<Rightarrow> (tty_d \<Rightarrow> tty_d) \<Rightarrow> io_state \<Rightarrow> io_state" where
  "upd_tty t g s \<equiv> s\<lparr>ttys := (ttys s)(t := g (ttys s t))\<rparr>"

abbreviation upd_sync :: "(kstdio_sync_d \<Rightarrow> kstdio_sync_d) \<Rightarrow> file_d \<Rightarrow> file_d" where
  "upd_sync g f \<equiv> f\<lparr>f_sync := g (f_sync f)\<rparr>"

abbreviation set_object :: "addr \<Rightarrow> int \<Rightarrow> addr \<Rightarrow> io_state \<Rightarrow> io_state" where
  "set_object p fd v s \<equiv> s\<lparr>objects := (objects s)(p := (objects s p)(nat fd := v))\<rparr>"

text \<open>Allocation of a structure or a buffer.\<close>

definition io_kmalloc :: "u32 \<Rightarrow> io_state \<Rightarrow> (addr \<times> io_state) outcome" where
  "io_kmalloc sz s = and_then (kmalloc sz (iks s)) (\<lambda>(p, k). Inr (p, s\<lparr>iks := k\<rparr>))"

text \<open>The entry of the process table for a process number; the code that does not check the number reads outside the
  table for others, which the model treats as a crash.\<close>

definition te_at :: "int \<Rightarrow> io_state \<Rightarrow> addr outcome" where
  "te_at pid s = (if pid < 0 \<or> int PROCESS_COUNT_MAX \<le> pid then Inl (Die ''teList index'') else Inr (teList (iks s) (nat pid)))"

lemma io_kmalloc_Inr:
  assumes "io_kmalloc sz s = Inr (p, s')"
  obtains k where "kmalloc sz (iks s) = Inr (p, k)" "s' = s\<lparr>iks := k\<rparr>"
  using assms by (auto simp: io_kmalloc_def elim!: and_then_InrE)

section \<open>An empty state\<close>

text \<open>One process without files, an empty disk on the first IDE channel.\<close>

definition zero_file :: file_d where
  "zero_file = \<lparr>f_used = False, f_magic = 0, f_object = ObjectTypeNull, f_file = 0, f_tty = NULL, f_socket = NULL, f_tmpfname = NULL,
     f_pid = 0, f_uid = 0, f_gid = 0, f_isDevice = False, f_dev_major = 0, f_dev_minor = 0, f_socket_buffer_full = False,
     f_base = NULL, f_p = NULL, f_r = 0, f_w = 0, f_lbfsize = 0, f_fsize = 0, f_cnt = 0, f_bf_base = NULL, f_flags = 0, f_fd_flags = 0,
     f_sync = \<lparr>sy_sender_pid = 0, sy_receiver_pid = 0, sy_action = 0, sy_can_read = False, sy_can_write = False, sy_can_execute = False,
       sy_can_accept = False, sy_can_connect = False, sy_block_on_write = False, sy_block_on_write_full = False, sy_block_on_read_empty = False\<rparr>,
     f_fd_counter = 0, f_pipe_info = NULL\<rparr>"

definition zero_termios :: termios_d where
  "zero_termios = \<lparr>c_iflag = 0, c_oflag = 0, c_cflag = 0, c_lflag = 0, c_cc = (\<lambda>_. 0), c_ispeed = 0, c_ospeed = 0\<rparr>"

definition zero_queue :: tty_queue where
  "zero_queue = \<lparr>tq_buf = (\<lambda>_. 0), tq_buffer_size = 1024, tq_cnt = 0, tq_head = 0, tq_tail = 0\<rparr>"

definition zero_tty :: tty_d where
  "zero_tty = \<lparr>tt_used = False, tt_magic = 0, tt_index = 0, tt_session_type = 0, tt_fp = NULL, tt_type = 0, tt_subtype = 0, tt_initialized = False,
     tt_is_blocked = False, raw_queue = zero_queue, canonical_queue = zero_queue, output_queue = zero_queue, output_worker_number = 0,
     tt_termios = zero_termios, tt_link = NULL\<rparr>"

definition zero_io :: io_state where
  "zero_io = \<lparr>iks = process_kstate, bytes = (\<lambda>a. ucast a), objects = (\<lambda>_ _. NULL), read_counter = (\<lambda>_. 0), write_counter = (\<lambda>_. 0),
     files = (\<lambda>_. zero_file), pipe_infos = (\<lambda>_. \<lparr>pi_base = NULL, pi_buffer_size = 0, pi_counter = 0, pi_write_pos = 0, pi_read_pos = 0\<rparr>),
     ttys = (\<lambda>_. zero_tty), sockets = (\<lambda>_. \<lparr>sk_magic = 0, sk_family = 0, sk_state = 0, sk_is_client_connecting_with_remote_server = False,
       sk_is_remote_client_connecting_with_local_server = False, sk_conn = NULL\<rparr>), connections = (\<lambda>_. \<lparr>cn_magic = 0, cn_status = 0\<rparr>),
     stdin_file = NULL, special_reader = -1, current_user = 0, current_group = 0, fg_console = 0, console_session = (\<lambda>_. 0), console_out = [], serial_out = [],
     user_termios = (\<lambda>_. zero_termios), redirect = NULL, controller_type = 1, current_ide_port = 0,
     ide_port = (\<lambda>_. \<lparr>base_port = 0x1F0, dev_num = 0\<rparr>), ide_sectors = (\<lambda>_ _ _. 0), ide_answers = (\<lambda>_ _. True),
     ide_settles = (\<lambda>_ _. True), ahci_sectors = (\<lambda>_ _. 0), ahci_answers = (\<lambda>_. False),
     gNumberOfSectorsInBootDisk = 0x10000, g_currentvolume_fatbits = 16, g_fat_cache_loaded = True, g_fat_cache_saved = False,
     fat16ClustersToSave = (\<lambda>_. 0), root = Some \<lparr>r_used = True, r_magic = 1234, r_spc = 1, r_dir_entries = 512\<rparr>,
     sdGRAMADO = \<lparr>sd_initialized = False, sd_address = NULL\<rparr>, sdDE = \<lparr>sd_initialized = False, sd_address = NULL\<rparr>,
     fs_buffers = (\<lambda>_. NULL), backbuffer_va = 0x30A00000, deviceList = (\<lambda>_. NULL),
     devices = (\<lambda>_. \<lparr>d_magic = 0, d_fp = NULL, d_mount_point = NULL\<rparr>)\<rparr>"

end
