(* ===== verification/File_Buffer.thy ===== *)
theory File_Buffer
  imports Io_State Queue_Spec
begin

text \<open>
  Pipe buffers (fs/pipe.c), file buffers (the two buffer routines of fs/fslib.c) and the positions of a file
  (libk/kstdio.c). A pipe is a ring of bytes shared by its two files; any other file has a buffer with a read and a
  write position.
\<close>

section \<open>Pipe buffers\<close>

fun read_pipe_loop :: "nat \<Rightarrow> addr \<Rightarrow> pipe_info_d \<Rightarrow> mem \<Rightarrow> nat \<times> pipe_info_d \<times> mem" where
  "read_pipe_loop 0 p q m = (0, q, m)"
| "read_pipe_loop (Suc len) p q m =
    (if pi_counter q \<le> 0 then (0, q\<lparr>pi_counter := 0\<rparr>, m)
     else let q1 = (if pi_buffer_size q \<le> pi_read_pos q then q\<lparr>pi_read_pos := 0\<rparr> else q);
              m1 = m(p := m (pi_base q1 + word_of_int (pi_read_pos q1)));
              q2 = q1\<lparr>pi_read_pos := pi_read_pos q1 + 1, pi_counter := pi_counter q1 - 1\<rparr>
          in case read_pipe_loop len (p + 1) q2 m1 of (n, r) \<Rightarrow> (Suc n, r))"

definition file_read_pipe_buffer :: "addr \<Rightarrow> addr \<Rightarrow> int \<Rightarrow> io_state \<Rightarrow> int \<times> io_state" where
  "file_read_pipe_buffer f buffer len s =
    (if f = NULL \<or> f_object (files s f) \<noteq> ObjectTypePipe then (- EBADF, s)
     else if \<not> f_used (files s f) \<or> f_magic (files s f) \<noteq> 1234 then (- EBADF, s)
     else if buffer = NULL \<or> len \<le> 0 then (- EINVAL, s)
     else let pi = f_pipe_info (files s f) in
     if pi = NULL then (- EBADF, s)
     else case read_pipe_loop (nat len) buffer (pipe_infos s pi) (bytes s) of (Count, q, m) \<Rightarrow>
       (int Count, upd_file f (\<lambda>x. (upd_sync (\<lambda>y. y\<lparr>sy_can_write := True\<rparr>) x)\<lparr>f_flags := SWR\<rparr>)
          (upd_pipe pi (\<lambda>_. q) (s\<lparr>bytes := m\<rparr>))))"

fun write_pipe_loop :: "nat \<Rightarrow> addr \<Rightarrow> pipe_info_d \<Rightarrow> mem \<Rightarrow> nat \<times> pipe_info_d \<times> mem" where
  "write_pipe_loop 0 p q m = (0, q, m)"
| "write_pipe_loop (Suc len) p q m =
    (if pi_buffer_size q \<le> pi_counter q then (0, q, m)
     else let q1 = (if pi_buffer_size q \<le> pi_write_pos q then q\<lparr>pi_write_pos := 0\<rparr> else q);
              m1 = m(pi_base q1 + word_of_int (pi_write_pos q1) := m p);
              q2 = q1\<lparr>pi_write_pos := pi_write_pos q1 + 1, pi_counter := pi_counter q1 + 1\<rparr>
          in case write_pipe_loop len (p + 1) q2 m1 of (n, r) \<Rightarrow> (Suc n, r))"

definition file_write_pipe_buffer :: "addr \<Rightarrow> addr \<Rightarrow> int \<Rightarrow> io_state \<Rightarrow> int \<times> io_state" where
  "file_write_pipe_buffer f buffer len s =
    (if f = NULL \<or> f_object (files s f) \<noteq> ObjectTypePipe then (- EBADF, s)
     else if \<not> f_used (files s f) \<or> f_magic (files s f) \<noteq> 1234 then (- EBADF, s)
     else if buffer = NULL \<or> len \<le> 0 then (- EINVAL, s)
     else let pi = f_pipe_info (files s f) in
     if pi = NULL then (- EBADF, s)
     else case write_pipe_loop (nat len) buffer (pipe_infos s pi) (bytes s) of (Count, q, m) \<Rightarrow>
       (int Count, upd_file f (\<lambda>x. (upd_sync (\<lambda>y. y\<lparr>sy_can_read := True\<rparr>) x)\<lparr>f_flags := SRD\<rparr>)
          (upd_pipe pi (\<lambda>_. q) (s\<lparr>bytes := m\<rparr>))))"

section \<open>File buffers\<close>

text \<open>Regular files, terminals and buffers share one path; what remains of a request is a copy.\<close>

definition plain_object :: "object_type_t \<Rightarrow> bool" where
  "plain_object t \<longleftrightarrow> t = ObjectTypeFile \<or> t = ObjectTypeTTY \<or> t = ObjectTypeIoBuffer"

definition read_plain :: "addr \<Rightarrow> addr \<Rightarrow> int \<Rightarrow> io_state \<Rightarrow> int \<times> io_state" where
  "read_plain f buffer Count0 s =
    (let x = files s f in
     if f_lbfsize x \<le> 0 then (EOF, s)
     else if 8 * 1024 < f_lbfsize x then (EOF, s)
     else if f_r x < 0 then (EOF, upd_file f (\<lambda>x. x\<lparr>f_r := 0\<rparr>) s)
     else if f_lbfsize x < f_r x then (EOF, s)
     else if f_w x < f_r x then (0, upd_file f (\<lambda>x. x\<lparr>f_r := f_w x\<rparr>) s)
     else let Count1 = (if f_lbfsize x < Count0 then f_lbfsize x - 1 else Count0);
              delta = f_w x - f_r x in
     if delta = 0 then (0, s)
     else let Count = (if delta < Count1 then delta else Count1);
              s1 = upd_file f (\<lambda>x. x\<lparr>f_p := f_base x + word_of_int (f_r x)\<rparr>) s in
     if Count \<le> 0 then (EOF, s1)
     else let s2 = s1\<lparr>bytes := snd (memcpy buffer (f_p (files s1 f)) (word_of_int Count) (bytes s1))\<rparr>;
              s3 = upd_file f (\<lambda>x. x\<lparr>f_p := f_p x + word_of_int Count, f_r := f_r x + Count\<rparr>) s2;
              s4 = (if f_w (files s3 f) < f_r (files s3 f) then upd_file f (\<lambda>x. x\<lparr>f_r := f_w x\<rparr>) s3 else s3)
          in (Count, upd_file f (\<lambda>x. (upd_sync (\<lambda>y. y\<lparr>sy_can_write := True\<rparr>) x)\<lparr>f_flags := f_flags x OR SWR\<rparr>) s4))"

definition file_read_buffer :: "addr \<Rightarrow> addr \<Rightarrow> int \<Rightarrow> io_state \<Rightarrow> int \<times> io_state" where
  "file_read_buffer f buffer len s =
    (let Count = len mod 0x10000 in
     if f = NULL then (EOF, s)
     else if \<not> f_used (files s f) \<or> f_magic (files s f) \<noteq> 1234 then (EOF, s)
     else if buffer = NULL then (EOF, s)
     else if Count \<le> 0 then (EOF, s)
     else let Count = (if f_lbfsize (files s f) < Count then f_lbfsize (files s f) else Count) in
     if f_object (files s f) = ObjectTypeSocket
     then (Count, upd_file f (\<lambda>x. x\<lparr>f_flags := f_flags x OR SWR\<rparr>)
             (s\<lparr>bytes := snd (memcpy buffer (f_base (files s f)) (word_of_int Count) (bytes s))\<rparr>))
     else if f_object (files s f) = ObjectTypePipe then file_read_pipe_buffer f buffer Count s
     else if plain_object (f_object (files s f)) then read_plain f buffer Count s
     else (EOF, s))"

definition write_plain :: "addr \<Rightarrow> addr \<Rightarrow> int \<Rightarrow> io_state \<Rightarrow> int \<times> io_state" where
  "write_plain f string len0 s =
    (let x = files s f in
     if BUFSIZ < f_lbfsize x then (EOF, s)
     else if f_w x < 0 then (EOF, upd_file f (\<lambda>x. x\<lparr>f_p := f_base x, f_w := 0, f_r := 0, f_cnt := f_lbfsize x\<rparr>) s)
     else if BUFSIZ \<le> f_w x then (EOF, upd_file f (\<lambda>x. x\<lparr>f_w := BUFSIZ, f_cnt := 0\<rparr>) s)
     else if f_cnt x < 0
     then (EOF, upd_file f (\<lambda>x. x\<lparr>f_cnt := 0, f_w := f_lbfsize x, f_r := f_lbfsize x,
             f_p := f_base x + word_of_int (f_lbfsize x)\<rparr>) s)
     else let s1 = (if f_lbfsize x < f_cnt x then upd_file f (\<lambda>x. x\<lparr>f_cnt := f_lbfsize x, f_p := f_base x, f_w := 0, f_r := 0\<rparr>) s
                    else s);
              x1 = files s1 f in
     if len0 < 0 then (-1, s1)
     else if f_cnt x1 < len0 \<and> f_cnt x1 \<le> 0
     then (-1, upd_file f (\<lambda>x. x\<lparr>f_w := f_lbfsize x, f_r := f_lbfsize x, f_p := f_base x + word_of_int (f_lbfsize x), f_cnt := 0\<rparr>) s1)
     else let len = (if f_cnt x1 < len0 then f_cnt x1 else len0);
              s2 = (if f_w x1 < f_r x1 then upd_file f (\<lambda>x. x\<lparr>f_w := f_r x, f_cnt := f_lbfsize x - f_r x\<rparr>) s1 else s1);
              s3 = upd_file f (\<lambda>x. x\<lparr>f_p := f_base x + word_of_int (f_w x)\<rparr>) s2;
              s4 = s3\<lparr>bytes := snd (memcpy (f_p (files s3 f)) string (word_of_int len) (bytes s3))\<rparr>
          in (len, upd_file f (\<lambda>x. (upd_sync (\<lambda>y. y\<lparr>sy_can_read := True\<rparr>) x)
                 \<lparr>f_p := f_p x + word_of_int len, f_w := f_w x + len, f_cnt := f_cnt x - len, f_flags := SRD\<rparr>) s4))"

definition file_write_buffer :: "addr \<Rightarrow> addr \<Rightarrow> int \<Rightarrow> io_state \<Rightarrow> int \<times> io_state" where
  "file_write_buffer f string len s =
    (if f = NULL then (EOF, s)
     else if string = NULL then (EOF, s)
     else if BUFSIZ \<le> len then (EOF, s)
     else if f_object (files s f) = ObjectTypeSocket
     then (len, s\<lparr>bytes := snd (memcpy (f_base (files s f)) string (word_of_int len) (bytes s))\<rparr>)
     else if f_object (files s f) = ObjectTypePipe then file_write_pipe_buffer f string len s
     else if plain_object (f_object (files s f)) then write_plain f string len s
     else (EOF, s))"

text \<open>A character for the standard input; its two-byte buffer is on the stack of the kernel, at \<open>ch_buffer\<close>.\<close>

definition kstdio_feed_stdin :: "addr \<Rightarrow> int \<Rightarrow> io_state \<Rightarrow> int \<times> io_state" where
  "kstdio_feed_stdin ch_buffer ch s =
    (let f = stdin_file s in
     if f = NULL then (-1, s)
     else if \<not> f_used (files s f) then (-1, s)
     else if f_magic (files s f) \<noteq> 1234 then (-1, s)
     else let s1 = upd_file f (\<lambda>x. (upd_sync (\<lambda>y. y\<lparr>sy_can_write := True\<rparr>) x)\<lparr>f_flags := SWR\<rparr>) s;
              s2 = s1\<lparr>bytes := (bytes s1)(ch_buffer := word_of_int ch)\<rparr>
          in case file_write_buffer f ch_buffer 1 s2 of (wbytes, s3) \<Rightarrow>
            (wbytes, upd_file f (\<lambda>x. (upd_sync (\<lambda>y. y\<lparr>sy_can_read := True\<rparr>) x)\<lparr>f_flags := SRD\<rparr>) s3))"

section \<open>Positions\<close>

definition SEEK_SET :: int where "SEEK_SET = 0"
definition SEEK_CUR :: int where "SEEK_CUR = 1"
definition SEEK_END :: int where "SEEK_END = 2"
definition GRAMADO_SEEK_CLEAR :: int where "GRAMADO_SEEK_CLEAR = 1000"

text \<open>The value of a long stored in an int.\<close>

definition int_of_long :: "int \<Rightarrow> int" where
  "int_of_long x = sint (word_of_int x :: u32)"

definition k_ungetc :: "int \<Rightarrow> addr \<Rightarrow> io_state \<Rightarrow> int \<times> io_state" where
  "k_ungetc c f s =
    (if c = EOF then (c, s) else if f = NULL then (EOF, s)
     else let s1 = upd_file f (\<lambda>x. x\<lparr>f_p := f_p x - 1\<rparr>) s
          in (c, s1\<lparr>bytes := (bytes s1)(f_p (files s1 f) := word_of_int c)\<rparr>))"

definition k_ftell :: "addr \<Rightarrow> io_state \<Rightarrow> int" where
  "k_ftell f s = (if f = NULL then EOF else sint (f_p (files s f) - f_base (files s f)))"

definition k_fileno :: "addr \<Rightarrow> io_state \<Rightarrow> int" where
  "k_fileno f s = (if f = NULL then EOF else f_file (files s f))"

definition k_fgetc :: "addr \<Rightarrow> io_state \<Rightarrow> int \<times> io_state" where
  "k_fgetc f s =
    (if f = NULL then (EOF, s) else if f_p (files s f) = 0 then (EOF, s)
     else (uint (bytes s (f_p (files s f))), upd_file f (\<lambda>x. x\<lparr>f_p := f_p x + 1, f_cnt := f_cnt x - 1\<rparr>) s))"

definition k_feof :: "addr \<Rightarrow> io_state \<Rightarrow> int \<times> io_state" where
  "k_feof f s =
    (if f = NULL then (-1, s) else case k_fgetc f s of (ch, s1) \<Rightarrow> if ch = EOF then (1, s1) else (0, s1))"

definition k_ferror :: "addr \<Rightarrow> io_state \<Rightarrow> int" where
  "k_ferror f s = (if f = NULL then EOF else uint (f_flags (files s f) AND IOERR))"

definition k_fseek :: "addr \<Rightarrow> int \<Rightarrow> int \<Rightarrow> io_state \<Rightarrow> (int \<times> io_state) outcome" where
  "k_fseek f offset whence s =
    (if f = NULL then Inr (-1, s) else if whence < 0 then Inr (-1, s)
     else let x = files s f in
     if whence = SEEK_SET
     then let off0 = (if offset < 0 then 0 else offset); off = (if f_cnt x < off0 then f_cnt x else off0)
       in Inr (0, upd_file f (\<lambda>x. x\<lparr>f_r := int_of_long off, f_w := int_of_long off, f_p := f_base x + word_of_int off\<rparr>) s)
     else if whence = SEEK_CUR
     then let off = (if f_cnt x < offset then f_cnt x else offset); p = f_p x + word_of_int off;
              d = int_of_long (uint (p - f_base x))
       in Inr (0, upd_file f (\<lambda>x. x\<lparr>f_p := p, f_r := d, f_w := d\<rparr>) s)
     else if whence = SEEK_END
     then let off = (if 0 < offset then 0 else offset) in
       if f_lbfsize x < f_fsize x then Inl (Panic ''k_fseek: #todo f->_fsize > f->_lbfsize'')
       else if f_lbfsize x < f_fsize x + off then Inl (Panic ''k_fseek: #todo (f->_fsize + offset) > f->_lbfsize'')
       else Inr (0, upd_file f (\<lambda>x. x\<lparr>f_r := int_of_long (f_fsize x + off), f_w := int_of_long (f_fsize x + off),
              f_p := f_base x + word_of_int (f_fsize x + off)\<rparr>) s)
     else if whence = GRAMADO_SEEK_CLEAR
     then let s1 = s\<lparr>bytes := memset_loop (nat BUFSIZ) (f_base x) 0 (bytes s)\<rparr>
       in Inr (0, upd_file f (\<lambda>x. x\<lparr>f_p := f_base x, f_r := 0, f_w := 0, f_cnt := f_lbfsize x\<rparr>) s1)
     else Inr (-1, s))"

definition k_fputc :: "int \<Rightarrow> addr \<Rightarrow> io_state \<Rightarrow> (int \<times> io_state) outcome" where
  "k_fputc ch f s =
    (if f = NULL then Inl (Panic ''k_fputc: f'')
     else if 0 < f_cnt (files s f) \<and> ch \<noteq> 10
     then let s1 = s\<lparr>bytes := (bytes s)(f_p (files s f) := word_of_int ch)\<rparr>;
              s2 = upd_file f (\<lambda>x. x\<lparr>f_p := f_p x + 1, f_w := f_w x + 1, f_cnt := f_cnt x - 1\<rparr>) s1 in
       if f_cnt (files s2 f) \<le> 0 then Inl (Panic ''k_fputc: _cnt'')
       else Inr (ch, upd_file f (\<lambda>x. x\<lparr>f_flags := f_flags x OR SRD\<rparr>) s2)
     else Inr (EOF, s))"

definition k_rewind :: "addr \<Rightarrow> io_state \<Rightarrow> io_state" where
  "k_rewind f s = (if f = NULL then s else upd_file f (\<lambda>x. x\<lparr>f_p := f_base x\<rparr>) s)"

definition k_setbuf :: "addr \<Rightarrow> addr \<Rightarrow> io_state \<Rightarrow> io_state" where
  "k_setbuf f buf s = (if f = NULL then s else if buf = NULL then s else upd_file f (\<lambda>x. x\<lparr>f_bf_base := buf, f_p := buf\<rparr>) s)"

definition k_setbuffer :: "addr \<Rightarrow> addr \<Rightarrow> int \<Rightarrow> io_state \<Rightarrow> io_state" where
  "k_setbuffer f buf sz s = (if f = NULL then s else upd_file f (\<lambda>x. x\<lparr>f_bf_base := buf, f_lbfsize := sz, f_p := buf\<rparr>) s)"

definition k_setvbuf :: "addr \<Rightarrow> addr \<Rightarrow> int \<Rightarrow> int \<Rightarrow> io_state \<Rightarrow> int \<times> io_state" where
  "k_setvbuf f buf mode sz s = (if f = NULL then (-1, s) else (0, upd_file f (\<lambda>x. x\<lparr>f_bf_base := buf, f_lbfsize := sz, f_p := buf\<rparr>) s))"

definition is_socket :: "addr \<Rightarrow> io_state \<Rightarrow> bool" where
  "is_socket f s \<longleftrightarrow> f \<noteq> NULL \<and> f_magic (files s f) = 1234 \<and> f_object (files s f) = ObjectTypeSocket"

definition is_virtual_console :: "addr \<Rightarrow> io_state \<Rightarrow> bool" where
  "is_virtual_console f s \<longleftrightarrow> f \<noteq> NULL \<and> f_object (files s f) = ObjectTypeVirtualConsole"

section \<open>A pipe is a bounded sequence of bytes\<close>

text \<open>The byte at position \<open>i\<close> of the ring, and the bytes waiting in it.\<close>

definition ring_slot :: "pipe_info_d \<Rightarrow> int \<Rightarrow> addr" where
  "ring_slot q i = pi_base q + word_of_int (i mod pi_buffer_size q)"

definition ring_area :: "pipe_info_d \<Rightarrow> addr set" where
  "ring_area q = area (pi_base q) (nat (pi_buffer_size q))"

definition pipe_holds :: "pipe_info_d \<Rightarrow> mem \<Rightarrow> u8 list \<Rightarrow> bool" where
  "pipe_holds q m xs \<longleftrightarrow> 0 < pi_buffer_size q \<and> pi_buffer_size q < 2 ^ 31 \<and>
     0 \<le> pi_read_pos q \<and> pi_read_pos q \<le> pi_buffer_size q \<and> 0 \<le> pi_write_pos q \<and> pi_write_pos q \<le> pi_buffer_size q \<and>
     pi_counter q = int (length xs) \<and> int (length xs) \<le> pi_buffer_size q \<and>
     pi_write_pos q mod pi_buffer_size q = (pi_read_pos q + int (length xs)) mod pi_buffer_size q \<and>
     (\<forall>k < length xs. m (ring_slot q (pi_read_pos q + int k)) = xs ! k)"

lemma wrap_pos: "0 \<le> (i :: int) \<Longrightarrow> i \<le> N \<Longrightarrow> 0 < N \<Longrightarrow> (if N \<le> i then 0 else i) = i mod N"
  by (cases "i = N") simp_all

lemma ring_slot_area: "0 < pi_buffer_size q \<Longrightarrow> ring_slot q i \<in> ring_area q"
proof -
  assume "0 < pi_buffer_size q"
  then have "0 \<le> i mod pi_buffer_size q" "nat (i mod pi_buffer_size q) < nat (pi_buffer_size q)" by simp_all
  then show ?thesis unfolding ring_slot_def ring_area_def
    using area_at [of "nat (i mod pi_buffer_size q)" "nat (pi_buffer_size q)" "pi_base q"] by simp
qed

lemma pipe_slot_inj:
  assumes "0 < pi_buffer_size q" "pi_buffer_size q < 2 ^ 31" "ring_slot q i = ring_slot q j"
  shows "i mod pi_buffer_size q = j mod pi_buffer_size q"
proof -
  let ?i = "i mod pi_buffer_size q" and ?j = "j mod pi_buffer_size q"
  have b: "0 \<le> ?i" "?i < pi_buffer_size q" "0 \<le> ?j" "?j < pi_buffer_size q" using assms(1) by simp_all
  have "at_off (pi_base q) (nat ?i) = at_off (pi_base q) (nat ?j)" using assms(3) b by (simp add: ring_slot_def)
  moreover have "?i < 2 ^ 64" "?j < 2 ^ 64"
    by (rule less_trans [OF b(2) less_trans [OF assms(2)]], simp) (rule less_trans [OF b(4) less_trans [OF assms(2)]], simp)
  then have "nat ?i < 2 ^ 64" "nat ?j < 2 ^ 64" using b by (simp_all add: nat_less_iff)
  ultimately have "nat ?i = nat ?j" using at_off_inj by blast
  then show ?thesis using b(1,3) by (simp add: nat_eq_iff)
qed

lemma pipe_holdsI:
  assumes "0 < pi_buffer_size q" "pi_buffer_size q < 2 ^ 31" "0 \<le> pi_read_pos q" "pi_read_pos q \<le> pi_buffer_size q"
    "0 \<le> pi_write_pos q" "pi_write_pos q \<le> pi_buffer_size q" "pi_counter q = int (length xs)"
    "int (length xs) \<le> pi_buffer_size q"
    "pi_write_pos q mod pi_buffer_size q = (pi_read_pos q + int (length xs)) mod pi_buffer_size q"
    "\<And>k. k < length xs \<Longrightarrow> m (ring_slot q (pi_read_pos q + int k)) = xs ! k"
  shows "pipe_holds q m xs"
  using assms by (simp add: pipe_holds_def)

text \<open>One byte taken and one byte put.\<close>

lemma pipe_take:
  assumes h: "pipe_holds q m (x # xs)" and p: "p \<notin> ring_area q"
  defines "q1 \<equiv> (if pi_buffer_size q \<le> pi_read_pos q then q\<lparr>pi_read_pos := 0\<rparr> else q)"
  defines "q2 \<equiv> q1\<lparr>pi_read_pos := pi_read_pos q1 + 1, pi_counter := pi_counter q1 - 1\<rparr>"
  shows "m (pi_base q1 + word_of_int (pi_read_pos q1)) = x" "pipe_holds q2 (m(p := v)) xs" "ring_area q2 = ring_area q"
proof -
  let ?N = "pi_buffer_size q" and ?r = "pi_read_pos q"
  have N: "0 < ?N" "0 \<le> ?r" "?r \<le> ?N" using h by (simp_all add: pipe_holds_def)
  have q1: "pi_read_pos q1 = ?r mod ?N" "pi_base q1 = pi_base q" "pi_buffer_size q1 = ?N" "pi_counter q1 = pi_counter q"
    "pi_write_pos q1 = pi_write_pos q"
    using wrap_pos [OF N(2,3,1)] by (auto simp: q1_def)
  have "m (ring_slot q (?r + int 0)) = (x # xs) ! 0" using h unfolding pipe_holds_def by blast
  then show "m (pi_base q1 + word_of_int (pi_read_pos q1)) = x" by (simp add: q1 ring_slot_def)
  show "ring_area q2 = ring_area q" by (simp add: ring_area_def q2_def q1)
  have rm: "0 \<le> ?r mod ?N" "?r mod ?N < ?N" using N(1) by simp_all
  have slot: "ring_slot q2 (pi_read_pos q2 + int k) = ring_slot q (?r + int (Suc k))" for k
    by (simp add: ring_slot_def q2_def q1 mod_simps add.assoc)
  have wr: "pi_write_pos q mod ?N = (?r mod ?N + 1 + int (length xs)) mod ?N"
    using h by (simp add: pipe_holds_def mod_simps add.assoc)
  have "(m(p := v)) (ring_slot q2 (pi_read_pos q2 + int k)) = xs ! k" if k: "k < length xs" for k
  proof -
    have "ring_slot q (?r + int (Suc k)) \<noteq> p" using ring_slot_area [OF N(1)] p by metis
    moreover have "m (ring_slot q (?r + int (Suc k))) = (x # xs) ! Suc k" using h k unfolding pipe_holds_def by auto
    ultimately show ?thesis unfolding slot by simp
  qed
  note bytes = this
  have f: "pi_buffer_size q2 = ?N" "pi_read_pos q2 = ?r mod ?N + 1" "pi_write_pos q2 = pi_write_pos q" "pi_counter q2 = pi_counter q - 1"
    by (simp_all add: q2_def q1)
  show "pipe_holds q2 (m(p := v)) xs"
  proof (rule pipe_holdsI)
    show "pi_read_pos q2 \<le> pi_buffer_size q2" unfolding f using pos_mod_bound [OF N(1), of ?r] by linarith
    show "0 \<le> pi_read_pos q2" unfolding f using rm(1) by linarith
    show "pi_write_pos q2 mod pi_buffer_size q2 = (pi_read_pos q2 + int (length xs)) mod pi_buffer_size q2" unfolding f by (rule wr)
    show "(m(p := v)) (ring_slot q2 (pi_read_pos q2 + int k)) = xs ! k" if "k < length xs" for k by (rule bytes [OF that])
  qed (use h in \<open>simp_all add: f pipe_holds_def\<close>)
qed

lemma pipe_put:
  assumes h: "pipe_holds q m xs" and room: "int (length xs) < pi_buffer_size q"
  defines "q1 \<equiv> (if pi_buffer_size q \<le> pi_write_pos q then q\<lparr>pi_write_pos := 0\<rparr> else q)"
  defines "q2 \<equiv> q1\<lparr>pi_write_pos := pi_write_pos q1 + 1, pi_counter := pi_counter q1 + 1\<rparr>"
  shows "pi_base q1 + word_of_int (pi_write_pos q1) \<in> ring_area q"
    "pipe_holds q2 (m(pi_base q1 + word_of_int (pi_write_pos q1) := v)) (xs @ [v])" "ring_area q2 = ring_area q"
proof -
  let ?N = "pi_buffer_size q" and ?w = "pi_write_pos q" and ?r = "pi_read_pos q"
  have N: "0 < ?N" "?N < 2 ^ 31" "0 \<le> ?w" "?w \<le> ?N" using h by (simp_all add: pipe_holds_def)
  have q1: "pi_write_pos q1 = ?w mod ?N" "pi_base q1 = pi_base q" "pi_buffer_size q1 = ?N" "pi_counter q1 = pi_counter q"
    "pi_read_pos q1 = pi_read_pos q"
    using wrap_pos [OF N(3,4,1)] by (auto simp: q1_def)
  have nN: "int (nat ?N) = ?N" using N(1) by simp
  have w: "?w mod ?N = (?r + int (length xs)) mod ?N" using h by (simp add: pipe_holds_def)
  have at: "pi_base q1 + word_of_int (pi_write_pos q1) = ring_slot q (?r + int (length xs))"
    by (simp add: q1 ring_slot_def w)
  show "pi_base q1 + word_of_int (pi_write_pos q1) \<in> ring_area q" unfolding at by (rule ring_slot_area [OF N(1)])
  show "ring_area q2 = ring_area q" by (simp add: ring_area_def q2_def q1)
  have wm: "0 \<le> ?w mod ?N" "?w mod ?N < ?N" using N(1) by simp_all
  have slot: "ring_slot q2 i = ring_slot q i" for i by (simp add: ring_slot_def q2_def q1)
  have wr: "(?w mod ?N + 1) mod ?N = (?r + (1 + int (length xs))) mod ?N" unfolding w by (simp add: mod_simps algebra_simps)
  have "(m(ring_slot q (?r + int (length xs)) := v)) (ring_slot q2 (?r + int k)) = (xs @ [v]) ! k"
    if k: "k < length (xs @ [v])" for k
  proof (cases "k = length xs")
    case False
    then have k': "k < length xs" using k by simp
    have "ring_slot q (?r + int k) \<noteq> ring_slot q (?r + int (length xs))"
    proof
      assume "ring_slot q (?r + int k) = ring_slot q (?r + int (length xs))"
      then have "(?r + int k) mod ?N = (?r + int (length xs)) mod ?N" by (rule pipe_slot_inj [OF N(1,2)])
      then have "(?r + int k) mod int (nat ?N) = (?r + int (length xs)) mod int (nat ?N)" unfolding nN .
      moreover have "k < nat ?N" "length xs < nat ?N" using k' room by linarith+
      ultimately have "k = length xs" by (intro mod_shift_inj [of k "nat ?N" "length xs" ?r])
      with False show False by simp
    qed
    moreover have "m (ring_slot q (?r + int k)) = xs ! k" using h k' unfolding pipe_holds_def by blast
    ultimately show ?thesis using k' by (simp add: slot nth_append)
  qed (simp add: slot nth_append)
  note bytes = this
  have f: "pi_buffer_size q2 = ?N" "pi_write_pos q2 = ?w mod ?N + 1" "pi_read_pos q2 = pi_read_pos q" "pi_counter q2 = pi_counter q + 1"
    by (simp_all add: q2_def q1)
  have len: "int (length (xs @ [v])) = 1 + int (length xs)" by simp
  show "pipe_holds q2 (m(pi_base q1 + word_of_int (pi_write_pos q1) := v)) (xs @ [v])" unfolding at
  proof (rule pipe_holdsI)
    show "(m(ring_slot q (?r + int (length xs)) := v)) (ring_slot q2 (pi_read_pos q2 + int k)) = (xs @ [v]) ! k"
      if "k < length (xs @ [v])" for k using bytes [OF that] by (simp only: f)
    show "pi_write_pos q2 mod pi_buffer_size q2 = (pi_read_pos q2 + int (length (xs @ [v]))) mod pi_buffer_size q2"
      unfolding f len by (rule wr)
    show "pi_write_pos q2 \<le> pi_buffer_size q2" unfolding f using pos_mod_bound [OF N(1), of ?w] by linarith
    show "0 \<le> pi_write_pos q2" unfolding f using wm(1) by linarith
  qed (use h room in \<open>simp_all add: f pipe_holds_def\<close>)
qed

text \<open>A whole transfer: it moves as many bytes as there are, or as there is room for.\<close>

lemma read_bytes_Suc: "read_bytes m p (Suc n) = m p # read_bytes m (p + 1) n"
proof -
  have "[0..<Suc n] = 0 # map Suc [0..<n]" by (simp only: upt_conv_Cons map_Suc_upt zero_less_Suc)
  then show ?thesis by (simp add: read_bytes_def at_off_Suc [symmetric] algebra_simps)
qed

lemma read_bytes_cong: "(\<And>a. a \<in> area p n \<Longrightarrow> m' a = m a) \<Longrightarrow> read_bytes m' p n = read_bytes m p n"
  by (simp add: read_bytes_def area_at)

lemma read_bytes_0 [simp]: "read_bytes m p 0 = []"
  by (simp add: read_bytes_def)

lemma area_tail:
  assumes "n < 2 ^ 64"
  shows "p \<notin> area (p + 1) n"
  using at_off_below_area [of 0 1 n p] assms by simp

lemma read_pipe_loop_result:
  assumes "pipe_holds q m xs" "area p len \<inter> ring_area q = {}" "len < 2 ^ 64"
  shows "\<exists>q' m'. read_pipe_loop len p q m = (min len (length xs), q', m') \<and> pipe_holds q' m' (drop len xs) \<and>
    ring_area q' = ring_area q \<and> read_bytes m' p (min len (length xs)) = take len xs \<and> (\<forall>a. a \<notin> area p len \<longrightarrow> m' a = m a)"
  using assms
proof (induction len arbitrary: p q m xs)
  case (Suc len)
  show ?case
  proof (cases xs)
    case Nil
    then have "pi_counter q = 0" using Suc.prems(1) by (simp add: pipe_holds_def)
    then have "q\<lparr>pi_counter := 0\<rparr> = q" by simp
    then show ?thesis using Nil Suc.prems(1) by (simp add: pipe_holds_def ring_area_def)
  next
    case (Cons x ys)
    let ?q1 = "if pi_buffer_size q \<le> pi_read_pos q then q\<lparr>pi_read_pos := 0\<rparr> else q"
    let ?q2 = "?q1\<lparr>pi_read_pos := pi_read_pos ?q1 + 1, pi_counter := pi_counter ?q1 - 1\<rparr>"
    let ?m1 = "m(p := m (pi_base ?q1 + word_of_int (pi_read_pos ?q1)))"
    have p: "p \<notin> ring_area q" and d: "area (p + 1) len \<inter> ring_area q = {}" using Suc.prems(2) by (auto simp: area_Suc)
    note T = pipe_take [OF Suc.prems(1) [unfolded Cons] p]
    have c: "\<not> pi_counter q \<le> 0" using Suc.prems(1) Cons by (simp add: pipe_holds_def)
    have l: "len < 2 ^ 64" using Suc.prems(3) by simp
    obtain q' m' where r: "read_pipe_loop len (p + 1) ?q2 ?m1 = (min len (length ys), q', m')" "pipe_holds q' m' (drop len ys)"
      "ring_area q' = ring_area ?q2" "read_bytes m' (p + 1) (min len (length ys)) = take len ys"
      "\<forall>a. a \<notin> area (p + 1) len \<longrightarrow> m' a = ?m1 a"
      using Suc.IH [OF T(2) _ l] d unfolding T(3) by blast
    have "read_pipe_loop (Suc len) p q m = (Suc (min len (length ys)), q', m')"
      using c r(1) by (simp add: Let_def)
    moreover have "m' p = x" using r(5) area_tail [OF l] T(1) by simp
    then have "read_bytes m' p (Suc (min len (length ys))) = x # take len ys" unfolding read_bytes_Suc r(4) by simp
    moreover have "m' a = m a" if "a \<notin> area p (Suc len)" for a using r(5) that by (simp add: area_Suc)
    moreover have "ring_area q' = ring_area q" unfolding r(3) by (rule T(3))
    ultimately show ?thesis using r(2) Cons by (intro exI [of _ q'] exI [of _ m']) simp
  qed
qed simp

lemma write_pipe_loop_result:
  assumes "pipe_holds q m xs" "area p len \<inter> ring_area q = {}"
  shows "\<exists>n q' m'. n = min len (nat (pi_buffer_size q) - length xs) \<and> write_pipe_loop len p q m = (n, q', m') \<and>
    pipe_holds q' m' (xs @ take n (read_bytes m p len)) \<and> ring_area q' = ring_area q \<and> (\<forall>a. a \<notin> ring_area q \<longrightarrow> m' a = m a)"
  using assms
proof (induction len arbitrary: p q m xs)
  case (Suc len)
  have le: "int (length xs) \<le> pi_buffer_size q" "pi_counter q = int (length xs)" using Suc.prems(1) by (simp_all add: pipe_holds_def)
  show ?case
  proof (cases "int (length xs) = pi_buffer_size q")
    case True
    then show ?thesis using Suc.prems(1) le by auto
  next
    case False
    then have room: "int (length xs) < pi_buffer_size q" using le by simp
    let ?q1 = "if pi_buffer_size q \<le> pi_write_pos q then q\<lparr>pi_write_pos := 0\<rparr> else q"
    let ?q2 = "?q1\<lparr>pi_write_pos := pi_write_pos ?q1 + 1, pi_counter := pi_counter ?q1 + 1\<rparr>"
    let ?a = "pi_base ?q1 + word_of_int (pi_write_pos ?q1)"
    let ?m1 = "m(?a := m p)"
    note T = pipe_put(1) [OF Suc.prems(1) room] pipe_put(2) [OF Suc.prems(1) room, where v = "m p"] pipe_put(3) [OF Suc.prems(1) room]
    have d: "area (p + 1) len \<inter> ring_area q = {}" using Suc.prems(2) by (auto simp: area_Suc)
    have sz: "pi_buffer_size ?q2 = pi_buffer_size q" by simp
    define n where "n = min len (nat (pi_buffer_size q) - length (xs @ [m p]))"
    obtain q' m' where r: "write_pipe_loop len (p + 1) ?q2 ?m1 = (n, q', m')"
      "pipe_holds q' m' ((xs @ [m p]) @ take n (read_bytes ?m1 (p + 1) len))" "ring_area q' = ring_area ?q2"
      "\<forall>a. a \<notin> ring_area ?q2 \<longrightarrow> m' a = ?m1 a"
      using Suc.IH [OF T(2)] d unfolding T(3) sz n_def by blast
    have same: "read_bytes ?m1 (p + 1) len = read_bytes m (p + 1) len" using d T(1) by (intro read_bytes_cong) auto
    have k: "Suc n = min (Suc len) (nat (pi_buffer_size q) - length xs)" using room by (simp add: n_def)
    have w: "write_pipe_loop (Suc len) p q m = (Suc n, q', m')" using room le(2) r(1) by (simp add: Let_def)
    have h: "pipe_holds q' m' (xs @ take (Suc n) (read_bytes m p (Suc len)))"
      using r(2) unfolding same read_bytes_Suc by simp
    have o: "m' a = m a" if "a \<notin> ring_area q" for a using r(4) that T(1) unfolding T(3) by auto
    have "ring_area q' = ring_area q" unfolding r(3) by (rule T(3))
    then show ?thesis using k w h o by blast
  qed
qed (simp add: pipe_holds_def)

text \<open>The same for the two operations on a file. The file is the end of a pipe, and the caller's buffer is not part of the ring.\<close>

definition pipe_end :: "addr \<Rightarrow> io_state \<Rightarrow> bool" where
  "pipe_end f s \<longleftrightarrow> f \<noteq> NULL \<and> f_object (files s f) = ObjectTypePipe \<and> f_used (files s f) \<and> f_magic (files s f) = 1234 \<and>
     f_pipe_info (files s f) \<noteq> NULL"

text \<open>What an operation on a pipe leaves alone: the tables, and of a file everything but its flags and the two
  permissions, which are only ever given.\<close>

definition same_ends :: "io_state \<Rightarrow> io_state \<Rightarrow> bool" where
  "same_ends s s' \<longleftrightarrow> iks s' = iks s \<and> objects s' = objects s \<and>
     (\<forall>g. f_used (files s' g) = f_used (files s g) \<and> f_magic (files s' g) = f_magic (files s g) \<and>
       f_object (files s' g) = f_object (files s g) \<and> f_pipe_info (files s' g) = f_pipe_info (files s g) \<and>
       f_lbfsize (files s' g) = f_lbfsize (files s g) \<and> f_file (files s' g) = f_file (files s g) \<and>
       (sy_can_read (f_sync (files s g)) \<longrightarrow> sy_can_read (f_sync (files s' g))) \<and>
       (sy_can_write (f_sync (files s g)) \<longrightarrow> sy_can_write (f_sync (files s' g))))"

lemma same_ends_end: "same_ends s s' \<Longrightarrow> pipe_end g s' = pipe_end g s"
  by (simp add: same_ends_def pipe_end_def)

definition ring_of :: "addr \<Rightarrow> io_state \<Rightarrow> pipe_info_d" where
  "ring_of f s = pipe_infos s (f_pipe_info (files s f))"

definition waiting :: "addr \<Rightarrow> io_state \<Rightarrow> u8 list \<Rightarrow> bool" where
  "waiting f s xs \<longleftrightarrow> pipe_end f s \<and> pipe_holds (ring_of f s) (bytes s) xs"

lemma file_read_pipe_result:
  assumes w: "waiting f s xs" and b: "buffer \<noteq> NULL" "0 < len" "len < 2 ^ 31"
    and d: "area buffer (nat len) \<inter> ring_area (ring_of f s) = {}"
  shows "\<exists>s'. file_read_pipe_buffer f buffer len s = (int (min (nat len) (length xs)), s') \<and> waiting f s' (drop (nat len) xs) \<and>
    ring_area (ring_of f s') = ring_area (ring_of f s) \<and>
    read_bytes (bytes s') buffer (min (nat len) (length xs)) = take (nat len) xs \<and>
    (\<forall>a. a \<notin> area buffer (nat len) \<longrightarrow> bytes s' a = bytes s a) \<and>
    same_ends s s'"
proof -
  let ?pi = "f_pipe_info (files s f)"
  have l: "nat len < 2 ^ 64" using b by simp
  from w have e: "pipe_end f s" and h: "pipe_holds (pipe_infos s ?pi) (bytes s) xs" by (simp_all add: waiting_def ring_of_def)
  obtain q' m' where r: "read_pipe_loop (nat len) buffer (pipe_infos s ?pi) (bytes s) = (min (nat len) (length xs), q', m')"
    "pipe_holds q' m' (drop (nat len) xs)" "ring_area q' = ring_area (pipe_infos s ?pi)"
    "read_bytes m' buffer (min (nat len) (length xs)) = take (nat len) xs" "\<forall>a. a \<notin> area buffer (nat len) \<longrightarrow> m' a = bytes s a"
    using read_pipe_loop_result [OF h _ l] d unfolding ring_of_def by blast
  define s' where "s' = upd_file f (\<lambda>x. (upd_sync (\<lambda>y. y\<lparr>sy_can_write := True\<rparr>) x)\<lparr>f_flags := SWR\<rparr>)
    (upd_pipe ?pi (\<lambda>_. q') (s\<lparr>bytes := m'\<rparr>))"
  have same: "same_ends s s'" by (simp add: s'_def same_ends_def)
  then have pi: "f_pipe_info (files s' g) = f_pipe_info (files s g) \<and> pipe_end g s' = pipe_end g s" for g
    by (simp add: same_ends_def same_ends_end [OF same])
  then have ring: "ring_of f s' = q'" unfolding ring_of_def by (simp add: s'_def)
  have mem: "bytes s' = m'" by (simp add: s'_def)
  have "file_read_pipe_buffer f buffer len s = (int (min (nat len) (length xs)), s')"
    using e b r(1) by (simp add: file_read_pipe_buffer_def pipe_end_def Let_def s'_def)
  moreover have "waiting f s' (drop (nat len) xs)" using e r(2) pi unfolding waiting_def ring mem by blast
  ultimately show ?thesis using r(3,4,5) same ring mem unfolding ring_of_def by metis
qed

lemma file_write_pipe_result:
  assumes w: "waiting f s xs" and b: "buffer \<noteq> NULL" "0 < len"
    and d: "area buffer (nat len) \<inter> ring_area (ring_of f s) = {}"
  shows "\<exists>n s'. n = min (nat len) (nat (pi_buffer_size (ring_of f s)) - length xs) \<and>
    file_write_pipe_buffer f buffer len s = (int n, s') \<and> waiting f s' (xs @ take n (read_bytes (bytes s) buffer (nat len))) \<and>
    ring_area (ring_of f s') = ring_area (ring_of f s) \<and>
    (\<forall>a. a \<notin> ring_area (ring_of f s) \<longrightarrow> bytes s' a = bytes s a) \<and>
    same_ends s s'"
proof -
  let ?pi = "f_pipe_info (files s f)"
  from w have e: "pipe_end f s" and h: "pipe_holds (pipe_infos s ?pi) (bytes s) xs" by (simp_all add: waiting_def ring_of_def)
  obtain n q' m' where r: "n = min (nat len) (nat (pi_buffer_size (pipe_infos s ?pi)) - length xs)"
    "write_pipe_loop (nat len) buffer (pipe_infos s ?pi) (bytes s) = (n, q', m')"
    "pipe_holds q' m' (xs @ take n (read_bytes (bytes s) buffer (nat len)))" "ring_area q' = ring_area (pipe_infos s ?pi)"
    "\<forall>a. a \<notin> ring_area (pipe_infos s ?pi) \<longrightarrow> m' a = bytes s a"
    using write_pipe_loop_result [OF h d [unfolded ring_of_def]] by (elim exE conjE)
  define s' where "s' = upd_file f (\<lambda>x. (upd_sync (\<lambda>y. y\<lparr>sy_can_read := True\<rparr>) x)\<lparr>f_flags := SRD\<rparr>)
    (upd_pipe ?pi (\<lambda>_. q') (s\<lparr>bytes := m'\<rparr>))"
  have same: "same_ends s s'" by (simp add: s'_def same_ends_def)
  then have pi: "f_pipe_info (files s' g) = f_pipe_info (files s g) \<and> pipe_end g s' = pipe_end g s" for g
    by (simp add: same_ends_def same_ends_end [OF same])
  then have ring: "ring_of f s' = q'" unfolding ring_of_def by (simp add: s'_def)
  have mem: "bytes s' = m'" by (simp add: s'_def)
  have "file_write_pipe_buffer f buffer len s = (int n, s')"
    using e b r(2) by (simp add: file_write_pipe_buffer_def pipe_end_def Let_def s'_def)
  moreover have "waiting f s' (xs @ take n (read_bytes (bytes s) buffer (nat len)))" using e r(3) pi unfolding waiting_def ring mem by blast
  ultimately show ?thesis using r(1,4,5) same ring mem unfolding ring_of_def by metis
qed

text \<open>The size of the ring is fixed.\<close>

lemma read_pipe_loop_size: "read_pipe_loop len p q m = (n, q', m') \<Longrightarrow> pi_buffer_size q' = pi_buffer_size q"
  by (induction len arbitrary: p q m n q' m') (auto simp: Let_def split: if_splits prod.splits)

lemma write_pipe_loop_size: "write_pipe_loop len p q m = (n, q', m') \<Longrightarrow> pi_buffer_size q' = pi_buffer_size q"
  by (induction len arbitrary: p q m n q' m') (auto simp: Let_def split: if_splits prod.splits)

lemma file_read_pipe_size:
  "file_read_pipe_buffer f buffer len s = (n, s') \<Longrightarrow> pi_buffer_size (pipe_infos s' P) = pi_buffer_size (pipe_infos s P)"
  by (auto simp: file_read_pipe_buffer_def Let_def split: if_splits prod.splits dest: read_pipe_loop_size)

lemma file_write_pipe_size:
  "file_write_pipe_buffer f buffer len s = (n, s') \<Longrightarrow> pi_buffer_size (pipe_infos s' P) = pi_buffer_size (pipe_infos s P)"
  by (auto simp: file_write_pipe_buffer_def Let_def split: if_splits prod.splits dest: write_pipe_loop_size)

end
