(* ===== verification/Tty.thy ===== *)
theory Tty
  imports File_Buffer
begin

text \<open>
  Terminals (chardev/tty/tty.c): their three queues of bytes, reading and writing in the raw and the canonical
  mode, the flush of the output queue to its worker, and their control.
\<close>

section \<open>Constants\<close>

definition TTY_MAGIC :: int where "TTY_MAGIC = 1234"
definition TTY_BUF_SIZE :: int where "TTY_BUF_SIZE = 1024"
definition TTY_TYPE_PTY :: int where "TTY_TYPE_PTY = 2000"
definition TTY_SUBTYPE_PTY_MASTER :: int where "TTY_SUBTYPE_PTY_MASTER = 300"
definition TTY_SUBTYPE_PTY_SLAVE :: int where "TTY_SUBTYPE_PTY_SLAVE = 400"
definition TTY_SESSION_TYPE_CONSOLE :: int where "TTY_SESSION_TYPE_CONSOLE = 1000"
definition TTY_OUTPUT_WORKER_FGCONSOLE :: int where "TTY_OUTPUT_WORKER_FGCONSOLE = 0"
definition TTY_OUTPUT_WORKER_STDIN :: int where "TTY_OUTPUT_WORKER_STDIN = 1"
definition TTY_OUTPUT_WORKER_SERIALPORT :: int where "TTY_OUTPUT_WORKER_SERIALPORT = 2"
definition TTY_OUTPUT_WORKER_PTYSLAVE :: int where "TTY_OUTPUT_WORKER_PTYSLAVE = 3"
definition ICANON :: u16 where "ICANON = 0x0010"
definition VERASE :: nat where "VERASE = 2"
definition TCSANOW :: int where "TCSANOW = 1"

section \<open>Queues\<close>

definition queue_next :: "u64 \<Rightarrow> tty_queue \<Rightarrow> u64" where
  "queue_next i q = (i + 1) mod word_of_int (tq_buffer_size q)"

text \<open>A queue of size 0 divides by zero.\<close>

definition tty_queue_getchar :: "tty_queue \<Rightarrow> (int \<times> tty_queue) outcome" where
  "tty_queue_getchar q =
    (if tq_head q = tq_tail q then Inr (-1, q)
     else if tq_buffer_size q = 0 then Inl (Die ''divide error'')
     else Inr (uint (tq_buf q (unat (tq_tail q))), q\<lparr>tq_tail := queue_next (tq_tail q) q, tq_cnt := tq_cnt q - 1\<rparr>))"

definition tty_queue_putchar :: "u8 \<Rightarrow> tty_queue \<Rightarrow> (int \<times> tty_queue) outcome" where
  "tty_queue_putchar c q =
    (if tq_buffer_size q = 0 then Inl (Die ''divide error'')
     else let next_head = queue_next (tq_head q) q in
     if next_head = tq_tail q then Inr (-1, q)
     else Inr (0, q\<lparr>tq_buf := (tq_buf q)(unat (tq_head q) := c), tq_head := next_head, tq_cnt := tq_cnt q + 1\<rparr>))"

text \<open>The reading loops; \<open>stop\<close> tells whether to end after a character.\<close>

fun read_loop :: "(int \<Rightarrow> bool) \<Rightarrow> nat \<Rightarrow> addr \<Rightarrow> tty_queue \<Rightarrow> mem \<Rightarrow> (nat \<times> tty_queue \<times> mem) outcome" where
  "read_loop stop 0 p q m = Inr (0, q, m)"
| "read_loop stop (Suc n) p q m =
    and_then (tty_queue_getchar q) (\<lambda>(c, q1).
      if c < 0 then Inr (0, q1, m)
      else let m1 = m(p := word_of_int c) in
        if stop c then Inr (1, q1, m1)
        else and_then (read_loop stop n (p + 1) q1 m1) (\<lambda>(k, r). Inr (Suc k, r)))"

abbreviation never :: "int \<Rightarrow> bool" where "never \<equiv> \<lambda>_. False"
abbreviation newline :: "int \<Rightarrow> bool" where "newline \<equiv> \<lambda>c. c = 10"

definition tty_read_raw :: "addr \<Rightarrow> addr \<Rightarrow> int \<Rightarrow> io_state \<Rightarrow> (int \<times> io_state) outcome" where
  "tty_read_raw tty buf sz s =
    (if tty = NULL \<or> buf = NULL \<or> sz = 0 then Inr (0, s)
     else and_then (read_loop never (nat sz) buf (raw_queue (ttys s tty)) (bytes s)) (\<lambda>(n, q, m).
       Inr (int n, upd_tty tty (\<lambda>t. t\<lparr>raw_queue := q\<rparr>) (s\<lparr>bytes := m\<rparr>))))"

definition tty_read2 :: "addr \<Rightarrow> addr \<Rightarrow> int \<Rightarrow> io_state \<Rightarrow> (int \<times> io_state) outcome" where
  "tty_read2 tty buffer nr s =
    (if tty = NULL \<or> tt_magic (ttys s tty) \<noteq> TTY_MAGIC then Inr (-1, s)
     else if buffer = NULL \<or> nr \<le> 0 then Inr (-1, s)
     else and_then (read_loop never (nat nr) buffer (output_queue (ttys s tty)) (bytes s)) (\<lambda>(n, q, m).
       Inr (int n, upd_tty tty (\<lambda>t. t\<lparr>output_queue := q\<rparr>) (s\<lparr>bytes := m\<rparr>))))"

definition read_canonical :: "addr \<Rightarrow> addr \<Rightarrow> int \<Rightarrow> io_state \<Rightarrow> (int \<times> io_state) outcome" where
  "read_canonical tty buffer nr s =
    and_then (read_loop newline (nat nr) buffer (canonical_queue (ttys s tty)) (bytes s)) (\<lambda>(n, q, m).
      Inr (int n, upd_tty tty (\<lambda>t. t\<lparr>canonical_queue := q\<rparr>) (s\<lparr>bytes := m\<rparr>)))"

definition read_uncooked :: "addr \<Rightarrow> addr \<Rightarrow> int \<Rightarrow> io_state \<Rightarrow> (int \<times> io_state) outcome" where
  "read_uncooked tty buffer nr s =
    and_then (read_loop never (nat nr) buffer (raw_queue (ttys s tty)) (bytes s)) (\<lambda>(n, q, m).
      Inr (int n, upd_tty tty (\<lambda>t. t\<lparr>raw_queue := q\<rparr>) (s\<lparr>bytes := m\<rparr>)))"

definition tty_read3 :: "addr \<Rightarrow> addr \<Rightarrow> int \<Rightarrow> io_state \<Rightarrow> (int \<times> io_state) outcome" where
  "tty_read3 tty buffer nr s =
    (if tty = NULL \<or> tt_magic (ttys s tty) \<noteq> TTY_MAGIC then Inr (-1, s)
     else if buffer = NULL \<or> nr \<le> 0 then Inr (-1, s)
     else if c_lflag (tt_termios (ttys s tty)) AND ICANON \<noteq> 0 then read_canonical tty buffer nr s
     else read_uncooked tty buffer nr s)"

definition tty_read_mode :: "addr \<Rightarrow> addr \<Rightarrow> int \<Rightarrow> int \<Rightarrow> io_state \<Rightarrow> (int \<times> io_state) outcome" where
  "tty_read_mode tty buffer nr mode s =
    (if tty = NULL \<or> tt_magic (ttys s tty) \<noteq> TTY_MAGIC then Inr (-1, s)
     else if buffer = NULL \<or> nr \<le> 0 then Inr (-1, s)
     else if mode = uint ICANON then read_canonical tty buffer nr s else read_uncooked tty buffer nr s)"

section \<open>Flushing the output queue\<close>

text \<open>Characters leave the queue up to its head; the loop does not end when the head lies outside the ring.\<close>

definition flush_step :: "tty_queue \<Rightarrow> tty_queue" where
  "flush_step q = q\<lparr>tq_tail := queue_next (tq_tail q) q, tq_cnt := (if 0 < tq_cnt q then tq_cnt q - 1 else tq_cnt q)\<rparr>"

partial_function (option) flush_queue :: "tty_queue \<Rightarrow> u8 list \<Rightarrow> (u8 list \<times> tty_queue) outcome option" where
  "flush_queue q out =
    (if tq_tail q = tq_head q then Some (Inr (out, q))
     else if tq_buffer_size q = 0 then Some (Inl (Die ''divide error''))
     else flush_queue (flush_step q) (out @ [tq_buf q (unat (tq_tail q))]))"

definition flushed :: "tty_queue \<Rightarrow> (u8 list \<times> tty_queue) outcome" where
  "flushed q = (case flush_queue q [] of None \<Rightarrow> Inl (Die ''endless loop'') | Some r \<Rightarrow> r)"

definition tty_flush_raw_queue :: "addr \<Rightarrow> int \<Rightarrow> io_state \<Rightarrow> io_state outcome" where
  "tty_flush_raw_queue tty console_number s =
    (if tty = NULL \<or> tt_magic (ttys s tty) \<noteq> TTY_MAGIC then Inr s
     else and_then (flushed (raw_queue (ttys s tty))) (\<lambda>(cs, q).
       Inr (upd_tty tty (\<lambda>t. t\<lparr>raw_queue := q\<rparr>) (s\<lparr>console_out := console_out s @ map (Pair console_number) cs\<rparr>))))"

definition tty_flush_canonical_queue :: "addr \<Rightarrow> int \<Rightarrow> io_state \<Rightarrow> io_state outcome" where
  "tty_flush_canonical_queue tty console_number s =
    (if tty = NULL \<or> tt_magic (ttys s tty) \<noteq> TTY_MAGIC then Inr s
     else and_then (flushed (canonical_queue (ttys s tty))) (\<lambda>(cs, q).
       Inr (upd_tty tty (\<lambda>t. t\<lparr>canonical_queue := q\<rparr>) (s\<lparr>console_out := console_out s @ map (Pair console_number) cs\<rparr>))))"

definition tty_flush_output_queue :: "addr \<Rightarrow> int \<Rightarrow> io_state \<Rightarrow> io_state outcome" where
  "tty_flush_output_queue tty console_number s =
    (if tty = NULL \<or> tt_magic (ttys s tty) \<noteq> TTY_MAGIC then Inr s
     else if console_session s console_number \<noteq> TTY_SESSION_TYPE_CONSOLE then Inr s
     else and_then (flushed (output_queue (ttys s tty))) (\<lambda>(cs, q).
       Inr (upd_tty tty (\<lambda>t. t\<lparr>output_queue := q\<rparr>) (s\<lparr>console_out := console_out s @ map (Pair console_number) cs\<rparr>))))"

definition COM1_PORT :: int where "COM1_PORT = 0x3F8"
definition COM2_PORT :: int where "COM2_PORT = 0x2F8"
definition COM3_PORT :: int where "COM3_PORT = 0x3E8"
definition COM4_PORT :: int where "COM4_PORT = 0x2E8"

definition tty_flush_output_queue_to_serial :: "addr \<Rightarrow> int \<Rightarrow> io_state \<Rightarrow> io_state outcome" where
  "tty_flush_output_queue_to_serial tty port_number s =
    (if tty = NULL \<or> tt_magic (ttys s tty) \<noteq> TTY_MAGIC then Inr s
     else if port_number \<noteq> COM1_PORT \<and> port_number \<noteq> COM2_PORT \<and> port_number \<noteq> COM3_PORT \<and> port_number \<noteq> COM4_PORT then Inr s
     else and_then (flushed (output_queue (ttys s tty))) (\<lambda>(cs, q).
       Inr (upd_tty tty (\<lambda>t. t\<lparr>output_queue := q\<rparr>) (s\<lparr>serial_out := serial_out s @ cs\<rparr>))))"

text \<open>Feeding the standard input does not touch the queues, so the characters are fed in the order they leave.\<close>

definition tty_flush_output_queue_to_stdin :: "addr \<Rightarrow> addr \<Rightarrow> io_state \<Rightarrow> io_state outcome" where
  "tty_flush_output_queue_to_stdin ch_buffer tty s =
    (if tty = NULL \<or> tt_magic (ttys s tty) \<noteq> TTY_MAGIC then Inr s
     else and_then (flushed (output_queue (ttys s tty))) (\<lambda>(cs, q).
       Inr (fold (\<lambda>c s. snd (kstdio_feed_stdin ch_buffer (uint c) s)) cs (upd_tty tty (\<lambda>t. t\<lparr>output_queue := q\<rparr>) s))))"

definition tty_copy_raw_buffer :: "addr \<Rightarrow> addr \<Rightarrow> io_state \<Rightarrow> int \<times> io_state" where
  "tty_copy_raw_buffer tty_to tty_from s =
    (if tty_to = NULL \<or> tty_from = NULL \<or> tt_magic (ttys s tty_to) \<noteq> 1234 \<or> tt_magic (ttys s tty_from) \<noteq> 1234 then (-1, s)
     else (TTY_BUF_SIZE, upd_tty tty_to (\<lambda>t. t\<lparr>raw_queue := (raw_queue t)\<lparr>tq_buf :=
        (\<lambda>i. if i < nat TTY_BUF_SIZE then tq_buf (raw_queue (ttys s tty_from)) i else tq_buf (raw_queue t) i)\<rparr>\<rparr>) s))"

definition tty_copy_output_buffer :: "addr \<Rightarrow> addr \<Rightarrow> io_state \<Rightarrow> int \<times> io_state" where
  "tty_copy_output_buffer tty_to tty_from s =
    (if tty_to = NULL \<or> tty_from = NULL \<or> tt_magic (ttys s tty_to) \<noteq> 1234 \<or> tt_magic (ttys s tty_from) \<noteq> 1234 then (-1, s)
     else (TTY_BUF_SIZE, upd_tty tty_to (\<lambda>t. t\<lparr>output_queue := (output_queue t)\<lparr>tq_buf :=
        (\<lambda>i. if i < nat TTY_BUF_SIZE then tq_buf (output_queue (ttys s tty_from)) i else tq_buf (output_queue t) i)\<rparr>\<rparr>) s))"

definition tty_flush_output_queue_ex :: "addr \<Rightarrow> addr \<Rightarrow> io_state \<Rightarrow> io_state outcome" where
  "tty_flush_output_queue_ex ch_buffer tty s =
    (if tty = NULL \<or> tt_magic (ttys s tty) \<noteq> TTY_MAGIC then Inr s
     else let w = output_worker_number (ttys s tty) in
     if w = TTY_OUTPUT_WORKER_FGCONSOLE then tty_flush_output_queue tty (fg_console s) s
     else if w = TTY_OUTPUT_WORKER_STDIN then tty_flush_output_queue_to_stdin ch_buffer tty s
     else if w = TTY_OUTPUT_WORKER_SERIALPORT then tty_flush_output_queue_to_serial tty COM1_PORT s
     else if w = TTY_OUTPUT_WORKER_PTYSLAVE
     then let link = tt_link (ttys s tty) in
       if link = NULL then Inr s
       else if tt_magic (ttys s link) \<noteq> 1234 then Inr s
       else Inr (snd (tty_copy_output_buffer link tty s))
     else Inr s)"

definition tty_flush0 :: "addr \<Rightarrow> int \<Rightarrow> io_state \<Rightarrow> io_state outcome" where
  "tty_flush0 tty console_number s =
    (if tty = NULL then Inr s else if tt_magic (ttys s tty) \<noteq> 1234 then Inr s
     else if console_number < 0 then Inr s else tty_flush_output_queue tty console_number s)"

definition tty_flush :: "addr \<Rightarrow> io_state \<Rightarrow> io_state outcome" where
  "tty_flush tty s =
    (if tty = NULL then Inr s else if tt_magic (ttys s tty) \<noteq> 1234 then Inr s else tty_flush0 tty (fg_console s) s)"

section \<open>Writing\<close>

text \<open>\<^verbatim>\<open>__tty_write\<close> ignores the result for each character and reports them all as written.\<close>

fun put_all :: "u8 list \<Rightarrow> tty_queue \<Rightarrow> tty_queue outcome" where
  "put_all [] q = Inr q"
| "put_all (c # cs) q = and_then (tty_queue_putchar c q) (\<lambda>(r, q1). put_all cs q1)"

definition tty_write_raw :: "addr \<Rightarrow> addr \<Rightarrow> int \<Rightarrow> io_state \<Rightarrow> (int \<times> io_state) outcome" where
  "tty_write_raw tty buf sz s =
    (if tty = NULL \<or> buf = NULL \<or> sz = 0 then Inr (0, s)
     else and_then (put_all (read_bytes (bytes s) buf (nat sz)) (raw_queue (ttys s tty))) (\<lambda>q.
       Inr (sz, upd_tty tty (\<lambda>t. t\<lparr>raw_queue := q\<rparr>) s)))"

fun put_until_full :: "u8 list \<Rightarrow> tty_queue \<Rightarrow> (nat \<times> tty_queue) outcome" where
  "put_until_full [] q = Inr (0, q)"
| "put_until_full (c # cs) q =
    and_then (tty_queue_putchar c q) (\<lambda>(r, q1).
      if r < 0 then Inr (0, q1) else and_then (put_until_full cs q1) (\<lambda>(n, q2). Inr (Suc n, q2)))"

definition tty_write2 :: "addr \<Rightarrow> addr \<Rightarrow> int \<Rightarrow> io_state \<Rightarrow> (int \<times> io_state) outcome" where
  "tty_write2 tty buffer nr s =
    (if tty = NULL \<or> tt_magic (ttys s tty) \<noteq> TTY_MAGIC then Inr (-1, s)
     else if buffer = NULL \<or> nr \<le> 0 then Inr (-1, s)
     else and_then (put_until_full (read_bytes (bytes s) buffer (nat nr)) (output_queue (ttys s tty))) (\<lambda>(n, q).
       Inr (int n, upd_tty tty (\<lambda>t. t\<lparr>output_queue := q\<rparr>) s)))"

text \<open>Erasing takes back the last character of the canonical queue.\<close>

definition erase_last :: "tty_queue \<Rightarrow> tty_queue outcome" where
  "erase_last q =
    (if 0 < tq_cnt q
     then if tq_buffer_size q = 0 then Inl (Die ''divide error'')
       else Inr (q\<lparr>tq_head := (tq_head q - 1 + word_of_int (tq_buffer_size q)) mod word_of_int (tq_buffer_size q),
                   tq_cnt := tq_cnt q - 1\<rparr>)
     else Inr q)"

definition put_canonical :: "addr \<Rightarrow> u8 \<Rightarrow> io_state \<Rightarrow> io_state outcome" where
  "put_canonical tty c s = and_then (tty_queue_putchar c (canonical_queue (ttys s tty))) (\<lambda>(r, q).
     Inr (upd_tty tty (\<lambda>t. t\<lparr>canonical_queue := q\<rparr>) s))"

definition put_raw :: "addr \<Rightarrow> u8 \<Rightarrow> io_state \<Rightarrow> io_state outcome" where
  "put_raw tty c s = and_then (tty_queue_putchar c (raw_queue (ttys s tty))) (\<lambda>(r, q).
     Inr (upd_tty tty (\<lambda>t. t\<lparr>raw_queue := q\<rparr>) s))"

definition erase_canonical :: "addr \<Rightarrow> io_state \<Rightarrow> io_state outcome" where
  "erase_canonical tty s = and_then (erase_last (canonical_queue (ttys s tty))) (\<lambda>q.
     Inr (upd_tty tty (\<lambda>t. t\<lparr>canonical_queue := q\<rparr>) s))"

text \<open>The character is signed where it is compared, the control character is not.\<close>

definition is_erase :: "u8 \<Rightarrow> termios_d \<Rightarrow> bool" where
  "is_erase c t \<longleftrightarrow> sint c = uint (c_cc t VERASE)"

definition write3_char :: "addr \<Rightarrow> addr \<Rightarrow> u8 \<Rightarrow> io_state \<Rightarrow> io_state outcome" where
  "write3_char ch_buffer tty c s =
    (if c_lflag (tt_termios (ttys s tty)) AND ICANON \<noteq> 0
     then if c = 10 then and_then (put_canonical tty c s) (tty_flush_output_queue_ex ch_buffer tty)
       else if is_erase c (tt_termios (ttys s tty)) then erase_canonical tty s
       else put_canonical tty c s
     else put_raw tty c s)"

definition write_mode_char :: "addr \<Rightarrow> addr \<Rightarrow> int \<Rightarrow> u8 \<Rightarrow> io_state \<Rightarrow> io_state outcome" where
  "write_mode_char ch_buffer tty mode c s =
    (if mode = uint ICANON
     then if is_erase c (tt_termios (ttys s tty)) then erase_canonical tty s
       else and_then (put_canonical tty c s) (\<lambda>s1. if c = 10 then tty_flush_output_queue_ex ch_buffer tty s1 else Inr s1)
     else put_raw tty c s)"

text \<open>The characters are read from memory as the loop goes: a flush to the standard input may change it.\<close>

fun write_loop :: "(u8 \<Rightarrow> io_state \<Rightarrow> io_state outcome) \<Rightarrow> addr \<Rightarrow> nat \<Rightarrow> io_state \<Rightarrow> io_state outcome" where
  "write_loop f p 0 s = Inr s"
| "write_loop f p (Suc n) s = and_then (f (bytes s p) s) (write_loop f (p + 1) n)"

definition tty_write3 :: "addr \<Rightarrow> addr \<Rightarrow> addr \<Rightarrow> int \<Rightarrow> io_state \<Rightarrow> (int \<times> io_state) outcome" where
  "tty_write3 ch_buffer tty buffer nr s =
    (if tty = NULL \<or> tt_magic (ttys s tty) \<noteq> TTY_MAGIC then Inr (-1, s)
     else if buffer = NULL \<or> nr \<le> 0 then Inr (-1, s)
     else and_then (write_loop (write3_char ch_buffer tty) buffer (nat nr) s) (\<lambda>s1. Inr (nr, s1)))"

definition tty_write_mode :: "addr \<Rightarrow> addr \<Rightarrow> addr \<Rightarrow> int \<Rightarrow> int \<Rightarrow> io_state \<Rightarrow> (int \<times> io_state) outcome" where
  "tty_write_mode ch_buffer tty buffer nr mode s =
    (if tty = NULL \<or> tt_magic (ttys s tty) \<noteq> TTY_MAGIC then Inr (-1, s)
     else if buffer = NULL \<or> nr \<le> 0 then Inr (-1, s)
     else and_then (write_loop (write_mode_char ch_buffer tty mode) buffer (nat nr) s) (\<lambda>s1. Inr (nr, s1)))"

section \<open>Control\<close>

definition tty_set_output_worker :: "addr \<Rightarrow> int \<Rightarrow> io_state \<Rightarrow> int \<times> io_state" where
  "tty_set_output_worker tty worker_number s =
    (if tty = NULL \<or> tt_magic (ttys s tty) \<noteq> TTY_MAGIC then (-1, s)
     else if worker_number \<in> {TTY_OUTPUT_WORKER_FGCONSOLE, TTY_OUTPUT_WORKER_STDIN, TTY_OUTPUT_WORKER_SERIALPORT, TTY_OUTPUT_WORKER_PTYSLAVE}
     then (0, upd_tty tty (\<lambda>t. t\<lparr>output_worker_number := worker_number\<rparr>) s)
     else (-1, s))"

text \<open>The initial modes: BRKINT, ICRNL and IXON; OPOST; CREAD and CS8; ECHO, ECHOE, ECHOK, ICANON and ISIG; and the
  control characters.\<close>

definition default_termios :: "termios_d \<Rightarrow> termios_d" where
  "default_termios t = t\<lparr>c_iflag := 0x0001 OR 0x0002 OR 0x0200, c_oflag := 0x0001, c_cflag := 0x0002 OR 0x000C,
     c_lflag := 0x0001 OR 0x0002 OR 0x0004 OR ICANON OR 0x0040, c_ispeed := 0xD000, c_ospeed := 0xD000,
     c_cc := (c_cc t)(0 := 4, VERASE := 0x7f, 3 := 3, 4 := 21, 6 := 0x1C, 8 := 26)\<rparr>"

definition tty_reset_termios :: "addr \<Rightarrow> io_state \<Rightarrow> int \<times> io_state" where
  "tty_reset_termios tty s =
    (if tty = NULL then (-1, s) else (0, upd_tty tty (\<lambda>t. t\<lparr>tt_termios := default_termios (tt_termios t)\<rparr>) s))"

definition file_tty :: "addr \<Rightarrow> io_state \<Rightarrow> addr" where
  "file_tty f s = (if f = NULL then NULL else f_tty (files s f))"

definition tty_start :: "addr \<Rightarrow> io_state \<Rightarrow> io_state" where
  "tty_start tty s = (if tty = NULL then s else if \<not> tt_is_blocked (ttys s tty) then s
     else upd_tty tty (\<lambda>t. t\<lparr>tt_is_blocked := False\<rparr>) s)"

definition tty_stop :: "addr \<Rightarrow> io_state \<Rightarrow> io_state" where
  "tty_stop tty s = (if tty = NULL then s else if tt_is_blocked (ttys s tty) then s
     else upd_tty tty (\<lambda>t. t\<lparr>tt_is_blocked := True\<rparr>) s)"

definition tty_delete :: "addr \<Rightarrow> io_state \<Rightarrow> int \<times> io_state" where
  "tty_delete tty s = (if tty = NULL then (-1, s) else (0, tty_stop tty (upd_tty tty (\<lambda>t. t\<lparr>tt_magic := 216\<rparr>) s)))"

definition tty_gets :: "addr \<Rightarrow> addr \<Rightarrow> io_state \<Rightarrow> int \<times> io_state" where
  "tty_gets tty termiosp s =
    (if tty = NULL then (-1, s) else if termiosp = NULL then (-1, s)
     else (0, s\<lparr>user_termios := (user_termios s)(termiosp := tt_termios (ttys s tty))\<rparr>))"

definition tty_sets :: "addr \<Rightarrow> int \<Rightarrow> addr \<Rightarrow> io_state \<Rightarrow> int \<times> io_state" where
  "tty_sets tty options termiosp s =
    (if tty = NULL then (-1, s) else if tt_magic (ttys s tty) \<noteq> 1234 then (-1, s)
     else if options < 0 then (-1, s) else if termiosp = NULL then (-1, s)
     else if options = TCSANOW then (0, upd_tty tty (\<lambda>t. t\<lparr>tt_termios := user_termios s termiosp\<rparr>) s)
     else (-1, s))"

end
