(* ===== verification/Disk.thy ===== *)
theory Disk
  imports Io_State
begin

text \<open>
  The disk below the file system: a sector through the ports of an IDE channel (blkdev/ata/atahdd.c) or the AHCI
  driver (blkdev/ahci/ahci.c), the sector calls of blkdev/storage.c, and the sequences of sectors that the FAT, the root
  directory and boot files are moved in (blkdev/ata/atadsk_r.c, atadsk_w.c). The hardware is what stands behind the ports: it
  decodes the registers, it answers before the driver gives up or it does not (\<open>ide_answers\<close>,
  \<open>ahci_answers\<close>), and it transfers the sector.
\<close>

section \<open>Sequencing\<close>

text \<open>A computation whose loops may not end returns an optional outcome.\<close>

definition run_then :: "'a outcome option \<Rightarrow> ('a \<Rightarrow> 'b outcome option) \<Rightarrow> 'b outcome option" where
  "run_then r f = (case r of None \<Rightarrow> None | Some (Inl e) \<Rightarrow> Some (Inl e) | Some (Inr x) \<Rightarrow> f x)"

lemma run_then_simps [simp]:
  "run_then None f = None" "run_then (Some (Inl e)) f = Some (Inl e)" "run_then (Some (Inr x)) f = f x"
  by (simp_all add: run_then_def)

abbreviation returns :: "'a \<Rightarrow> 'a outcome option" where
  "returns x \<equiv> Some (Inr x)"

section \<open>Sectors and memory\<close>

definition put_sector :: "addr \<Rightarrow> sector \<Rightarrow> mem \<Rightarrow> mem" where
  "put_sector buf sec m = (\<lambda>a. if unat (a - buf) < 512 then sec (ucast (a - buf)) else m a)"

definition get_sector :: "addr \<Rightarrow> mem \<Rightarrow> sector" where
  "get_sector buf m = (\<lambda>k. m (buf + ucast k))"

section \<open>One sector through the ports\<close>

definition ATA_MASTER :: u8 where "ATA_MASTER = 0"
definition ATA_SLAVE :: u8 where "ATA_SLAVE = 1"
definition STORAGE_CONTROLLER_MODE_AHCI :: u8 where "STORAGE_CONTROLLER_MODE_AHCI = 0x06"

lemmas disk_consts = ATA_MASTER_def ATA_SLAVE_def STORAGE_CONTROLLER_MODE_AHCI_def

text \<open>The registers of a channel that the driver sets before the command: device, count and three address bytes.\<close>

record ata_registers =
  reg_devsel :: u8
  reg_seccount :: u8
  reg_lba0 :: u8
  reg_lba1 :: u8
  reg_lba2 :: u8

definition pio_registers :: "bool \<Rightarrow> u32 \<Rightarrow> ata_registers" where
  "pio_registers is_slave lba =
    \<lparr>reg_devsel = ucast (drop_bit 24 lba OR (if is_slave then 0xF0 else 0xE0)),
     reg_seccount = 1,
     reg_lba0 = ucast (lba AND 0xFF),
     reg_lba1 = ucast (drop_bit 8 lba AND 0xFF),
     reg_lba2 = ucast (drop_bit 16 lba AND 0xFF)\<rparr>"

text \<open>How a device reads them (28-bit addressing of the ATA standard): bit 4 of the device register selects the
  slave, its low four bits are the highest address bits.\<close>

definition ata_slave :: "ata_registers \<Rightarrow> bool" where
  "ata_slave r = bit (reg_devsel r) 4"

definition ata_lba :: "ata_registers \<Rightarrow> u32" where
  "ata_lba r = ucast (reg_lba0 r) OR push_bit 8 (ucast (reg_lba1 r)) OR push_bit 16 (ucast (reg_lba2 r)) OR
     push_bit 24 (ucast (reg_devsel r) AND 0xF)"

datatype operation = OPERATION_PIO_READ | OPERATION_PIO_WRITE

definition pio_rw_sector :: "addr \<Rightarrow> u32 \<Rightarrow> operation \<Rightarrow> u32 \<Rightarrow> io_state \<Rightarrow> (int \<times> io_state) outcome" where
  "pio_rw_sector buffer lba op port_index0 s =
    (let port_index = port_index0 AND 0xFF in
     if 3 < port_index then Inl (Panic ''__pio_rw_sector: We only support 4 ata ports.'')
     else let val = dev_num (ide_port s port_index) in
     if val \<noteq> ATA_MASTER \<and> val \<noteq> ATA_SLAVE then Inl (Panic ''__pio_rw_sector: value?'')
     else let r = pio_registers (val = ATA_SLAVE) lba;
              u = (base_port (ide_port s port_index), ata_slave r); k = ata_lba r in
     if \<not> ide_answers s u k then Inr (-3, s)
     else (case op of
       OPERATION_PIO_READ \<Rightarrow> Inr (0, s\<lparr>bytes := put_sector buffer (ide_sectors s u k) (bytes s)\<rparr>)
     | OPERATION_PIO_WRITE \<Rightarrow>
         Inr (if ide_settles s u k then 0 else -1,
              s\<lparr>ide_sectors := (ide_sectors s)(u := (ide_sectors s u)(k := get_sector buffer (bytes s)))\<rparr>)))"

definition ataReadSector :: "u32 \<Rightarrow> addr \<Rightarrow> u64 \<Rightarrow> io_state \<Rightarrow> (int \<times> io_state) outcome" where
  "ataReadSector port buffer lba s =
    (if controller_type s \<noteq> STORAGE_CONTROLLER_MODE_AHCI \<and> gNumberOfSectorsInBootDisk s = 0
     then Inl (Panic ''ataReadSector: gNumberOfSectorsInBootDisk'')
     else if controller_type s \<noteq> STORAGE_CONTROLLER_MODE_AHCI \<and> gNumberOfSectorsInBootDisk s \<le> lba
     then Inl (Panic ''ataReadSector: lba limits'')
     else pio_rw_sector buffer (ucast lba) OPERATION_PIO_READ port s)"

definition ataWriteSector :: "u32 \<Rightarrow> addr \<Rightarrow> u64 \<Rightarrow> io_state \<Rightarrow> (int \<times> io_state) outcome" where
  "ataWriteSector port buffer lba s =
    (if controller_type s \<noteq> STORAGE_CONTROLLER_MODE_AHCI \<and> gNumberOfSectorsInBootDisk s = 0
     then Inl (Panic ''ataWriteSector: gNumberOfSectorsInBootDisk'')
     else if controller_type s \<noteq> STORAGE_CONTROLLER_MODE_AHCI \<and> gNumberOfSectorsInBootDisk s \<le> lba
     then Inl (Panic ''ataWriteSector: lba limits'')
     else pio_rw_sector buffer (ucast lba) OPERATION_PIO_WRITE port s)"

section \<open>The AHCI driver\<close>

text \<open>One sector by direct memory access; the driver puts the low 48 bits of the address into its command.\<close>

definition ahci_read_sector :: "int \<Rightarrow> u64 \<Rightarrow> addr \<Rightarrow> io_state \<Rightarrow> int \<times> io_state" where
  "ahci_read_sector port lba buffer s =
    (let k = lba AND 0xFFFFFFFFFFFF in
     if buffer = NULL then (-1, s)
     else if \<not> ahci_answers s k then (-1, s)
     else (0, s\<lparr>bytes := put_sector buffer (ahci_sectors s k) (bytes s)\<rparr>))"

definition ahci_write_sector :: "int \<Rightarrow> u64 \<Rightarrow> addr \<Rightarrow> io_state \<Rightarrow> int \<times> io_state" where
  "ahci_write_sector port lba buffer s =
    (let k = lba AND 0xFFFFFFFFFFFF in
     if buffer = NULL then (-1, s)
     else if \<not> ahci_answers s k then (-1, s)
     else (0, s\<lparr>ahci_sectors := (ahci_sectors s)(k := get_sector buffer (bytes s))\<rparr>))"

section \<open>The storage layer\<close>

definition read_lba :: "addr \<Rightarrow> u64 \<Rightarrow> io_state \<Rightarrow> (int \<times> io_state) outcome" where
  "read_lba address lba s =
    (if address = NULL then Inr (-1, s)
     else if controller_type s = STORAGE_CONTROLLER_MODE_AHCI then Inr (0, snd (ahci_read_sector 0 lba address s))
     else if g_currentvolume_fatbits s = 32 then Inr (-1, s)
     else if g_currentvolume_fatbits s = 16
     then and_then (ataReadSector (current_ide_port s) address lba s) (\<lambda>(_, s1). Inr (0, s1))
     else if g_currentvolume_fatbits s = 12 then Inr (-1, s)
     else Inl (Panic ''read_lba: default''))"

definition write_lba :: "addr \<Rightarrow> u64 \<Rightarrow> io_state \<Rightarrow> (int \<times> io_state) outcome" where
  "write_lba address lba s =
    (if address = NULL then Inr (-1, s)
     else if controller_type s = STORAGE_CONTROLLER_MODE_AHCI then Inr (0, snd (ahci_write_sector 0 lba address s))
     else if g_currentvolume_fatbits s = 32 then Inr (-1, s)
     else if g_currentvolume_fatbits s = 16
     then and_then (ataWriteSector (current_ide_port s) address lba s) (\<lambda>(_, s1). Inr (0, s1))
     else if g_currentvolume_fatbits s = 12 then Inr (-1, s)
     else Inl (Panic ''read_lba: default''))"

section \<open>Sequences of sectors\<close>

text \<open>The status of each transfer is dropped.\<close>

fun load_sequential_sectors :: "nat \<Rightarrow> addr \<Rightarrow> u64 \<Rightarrow> io_state \<Rightarrow> io_state outcome" where
  "load_sequential_sectors 0 address lba s = Inr s"
| "load_sequential_sectors (Suc n) address lba s =
    and_then (if controller_type s = STORAGE_CONTROLLER_MODE_AHCI then Inr (ahci_read_sector 0 lba address s)
              else ataReadSector (current_ide_port s) address lba s)
      (\<lambda>(_, s1). load_sequential_sectors n (address + 512) (lba + 1) s1)"

fun do_save_sequence :: "nat \<Rightarrow> addr \<Rightarrow> u64 \<Rightarrow> io_state \<Rightarrow> io_state outcome" where
  "do_save_sequence 0 address lba s = Inr s"
| "do_save_sequence (Suc n) address lba s =
    and_then (if controller_type s = STORAGE_CONTROLLER_MODE_AHCI then Inr (ahci_write_sector 0 lba address s)
              else ataWriteSector (current_ide_port s) address lba s)
      (\<lambda>(_, s1). do_save_sequence n (address + 512) (lba + 1) s1)"

definition atadsk_load_boot_metafile :: "addr \<Rightarrow> u64 \<Rightarrow> u64 \<Rightarrow> io_state \<Rightarrow> io_state outcome" where
  "atadsk_load_boot_metafile buffer first_lba size_in_sectors s =
    (if buffer = NULL \<or> size_in_sectors = 0 then Inr s
     else load_sequential_sectors (unat (size_in_sectors AND 0xFFFFFFFF)) buffer first_lba s)"

definition atadsk_store_boot_metafile :: "addr \<Rightarrow> u64 \<Rightarrow> u64 \<Rightarrow> io_state \<Rightarrow> io_state outcome" where
  "atadsk_store_boot_metafile buffer first_lba size_in_sectors s =
    (if buffer = NULL then Inl (Panic ''atadsk_store_boot_metafile: buffer'')
     else if first_lba = 0 then Inl (Panic ''atadsk_store_boot_metafile: first_lba'')
     else do_save_sequence (nat (sint (ucast size_in_sectors :: u32))) buffer first_lba s)"

section \<open>What the device is asked for\<close>

text \<open>The masks of the driver as runs of bits.\<close>

lemma mask_bits:
  "(0xFF :: u32) = mask 8" "(0x0F :: u32) = mask 4" "(0xE0 :: u32) = push_bit 5 (mask 3)" "(0xF0 :: u32) = push_bit 4 (mask 4)"
  by (simp_all add: mask_eq_exp_minus_1 push_bit_eq_mult)

text \<open>
  The device reads from its registers the low 28 bits of the address; bits 28 and above are merged into the bits that
  select the drive.
\<close>

lemma ata_lba_decode: "ata_lba (pio_registers sl lba) = take_bit 28 lba"
proof (rule bit_word_eqI)
  fix n assume "n < LENGTH(32)"
  then have "n < 8 \<or> 8 \<le> n \<and> n < 16 \<or> 16 \<le> n \<and> n < 24 \<or> 24 \<le> n \<and> n < 28 \<or> 28 \<le> n \<and> n < 32" by auto
  then show "bit (ata_lba (pio_registers sl lba)) n = bit (take_bit 28 lba) n"
    unfolding ata_lba_def pio_registers_def mask_bits by (elim disjE) (auto simp: bit_simps)
qed

lemma ata_slave_decode: "ata_slave (pio_registers sl lba) \<longleftrightarrow> sl \<or> bit lba 28"
  unfolding ata_slave_def pio_registers_def mask_bits by (auto simp: bit_simps)

section \<open>A working IDE boot disk\<close>

definition boot_unit :: "io_state \<Rightarrow> ide_unit" where
  "boot_unit s = (let p = ide_port s (current_ide_port s AND 0xFF) in (base_port p, dev_num p = ATA_SLAVE))"

text \<open>The sectors of the boot disk by their number.\<close>

definition volume :: "io_state \<Rightarrow> u64 \<Rightarrow> sector" where
  "volume s lba = ide_sectors s (boot_unit s) (ucast lba)"

definition ide_boot :: "io_state \<Rightarrow> bool" where
  "ide_boot s \<longleftrightarrow> controller_type s \<noteq> STORAGE_CONTROLLER_MODE_AHCI \<and> g_currentvolume_fatbits s = 16 \<and>
     current_ide_port s AND 0xFF \<le> 3 \<and> dev_num (ide_port s (current_ide_port s AND 0xFF)) \<in> {ATA_MASTER, ATA_SLAVE} \<and>
     ide_answers s (boot_unit s) = (\<lambda>_. True) \<and> gNumberOfSectorsInBootDisk s \<le> 0x10000000"

definition set_volume :: "u64 \<Rightarrow> sector \<Rightarrow> io_state \<Rightarrow> io_state" where
  "set_volume lba sec s =
    s\<lparr>ide_sectors := (ide_sectors s)(boot_unit s := (ide_sectors s (boot_unit s))(ucast lba := sec))\<rparr>"

lemma lba_in_range:
  assumes "ide_boot s" "lba < gNumberOfSectorsInBootDisk s"
  shows "take_bit 28 (ucast lba :: u32) = ucast lba" "\<not> bit (ucast lba :: u32) 28" "unat (ucast lba :: u32) = unat lba"
    "gNumberOfSectorsInBootDisk s \<noteq> 0" "unat lba < 0x10000000"
proof -
  show u: "unat lba < 0x10000000" using assms by (auto simp: ide_boot_def unat_less_iff unat_le_iff)
  show e: "unat (ucast lba :: u32) = unat lba" using u by (simp add: unsigned_ucast_eq take_bit_nat_eq_self)
  show t: "take_bit 28 (ucast lba :: u32) = ucast lba"
    by (rule word_unat_eq_iff [THEN iffD2]) (simp add: unsigned_take_bit_eq e take_bit_nat_eq_self u)
  then show "\<not> bit (ucast lba :: u32) 28" by (metis bit_take_bit_iff less_irrefl)
  show "gNumberOfSectorsInBootDisk s \<noteq> 0" using assms(2) by auto
qed

lemma pio_read:
  assumes "ide_boot s" "lba < gNumberOfSectorsInBootDisk s"
  shows "ataReadSector (current_ide_port s) buf lba s = Inr (0, s\<lparr>bytes := put_sector buf (volume s lba) (bytes s)\<rparr>)"
  using assms lba_in_range [OF assms]
  by (auto simp: ataReadSector_def pio_rw_sector_def Let_def ide_boot_def volume_def boot_unit_def ata_lba_decode ata_slave_decode
      not_le [symmetric] disk_consts)

lemma pio_write:
  assumes "ide_boot s" "lba < gNumberOfSectorsInBootDisk s"
  shows "\<exists>r. ataWriteSector (current_ide_port s) buf lba s = Inr (r, set_volume lba (get_sector buf (bytes s)) s)"
  using assms lba_in_range [OF assms]
  by (auto simp: ataWriteSector_def pio_rw_sector_def Let_def ide_boot_def set_volume_def boot_unit_def ata_lba_decode ata_slave_decode
      not_le [symmetric] disk_consts)

lemma read_lba_boot:
  assumes "ide_boot s" "lba < gNumberOfSectorsInBootDisk s" "buf \<noteq> NULL"
  shows "read_lba buf lba s = Inr (0, s\<lparr>bytes := put_sector buf (volume s lba) (bytes s)\<rparr>)"
  using assms pio_read [OF assms(1,2)] by (simp add: read_lba_def ide_boot_def)

lemma ide_boot_frame [simp]:
  "ide_boot (s\<lparr>bytes := m\<rparr>) = ide_boot s" "boot_unit (s\<lparr>bytes := m\<rparr>) = boot_unit s" "volume (s\<lparr>bytes := m\<rparr>) = volume s"
  "boot_unit (s\<lparr>ide_sectors := f\<rparr>) = boot_unit s" "ide_boot (s\<lparr>ide_sectors := f\<rparr>) = ide_boot s"
  by (simp_all add: ide_boot_def boot_unit_def volume_def fun_eq_iff)

lemma volume_set:
  assumes "ide_boot s" "k < gNumberOfSectorsInBootDisk s" "lba < gNumberOfSectorsInBootDisk s"
  shows "volume (set_volume lba sec s) k = (if k = lba then sec else volume s k)"
proof -
  have "(ucast k :: u32) = ucast lba \<longleftrightarrow> k = lba"
    using lba_in_range(3) [OF assms(1,2)] lba_in_range(3) [OF assms(1,3)] by (metis word_unat_eq_iff)
  then show ?thesis by (simp add: volume_def set_volume_def boot_unit_def)
qed

section \<open>Runs of sectors\<close>

definition put_sectors :: "nat \<Rightarrow> addr \<Rightarrow> (nat \<Rightarrow> sector) \<Rightarrow> mem \<Rightarrow> mem" where
  "put_sectors n a f m =
    (\<lambda>x. if unat (x - a) < 512 * n then f (unat (x - a) div 512) (of_nat (unat (x - a) mod 512)) else m x)"

lemma put_sectors_0 [simp]: "put_sectors 0 a f m = m"
  by (simp add: put_sectors_def)

lemma unat_minus_512: "w < 512 \<Longrightarrow> unat ((w :: u64) - 512) = 2 ^ 64 + unat w - 512"
  by (simp add: unat_sub_if' unat_less_iff)

lemma put_sectors_Suc:
  assumes "512 * Suc n \<le> 2 ^ 64"
  shows "put_sectors n (a + 512) (\<lambda>i. f (Suc i)) (put_sector a (f 0) m) = put_sectors (Suc n) a f m"
proof
  fix x
  define d where "d = unat (x - a)"
  have e: "x - (a + 512) = (x - a) - 512" by simp
  show "put_sectors n (a + 512) (\<lambda>i. f (Suc i)) (put_sector a (f 0) m) x = put_sectors (Suc n) a f m x"
  proof (cases "d < 512")
    case True
    have "unat (x - a - 512) = 2 ^ 64 + d - 512"
      using unat_minus_512 [of "x - a"] True by (simp add: d_def unat_less_iff)
    then have "\<not> unat (x - (a + 512)) < 512 * n" using assms by (simp add: e)
    then show ?thesis using True by (simp add: put_sectors_def put_sector_def d_def)
  next
    case False
    then have "(512 :: u64) \<le> x - a" by (simp add: d_def unat_le_iff)
    then have u: "unat (x - (a + 512)) = d - 512" unfolding e by (simp add: unat_minus_exact d_def)
    have "(d - 512) div 512 + 1 = d div 512" "(d - 512) mod 512 = d mod 512"
      using False by (simp_all add: le_div_geq le_mod_geq)
    moreover have "d - 512 < 512 * n \<longleftrightarrow> d < 512 * Suc n" using False by auto
    ultimately show ?thesis using False u unfolding put_sectors_def put_sector_def d_def [symmetric] by simp
  qed
qed

lemma load_sequential_result:
  assumes "ide_boot s" "unat lba + n \<le> unat (gNumberOfSectorsInBootDisk s)" "512 * n \<le> 2 ^ 64"
  shows "load_sequential_sectors n a lba s = Inr (s\<lparr>bytes := put_sectors n a (\<lambda>i. volume s (lba + of_nat i)) (bytes s)\<rparr>)"
  using assms
proof (induction n arbitrary: a lba s)
  case (Suc n)
  have l: "lba < gNumberOfSectorsInBootDisk s" using Suc.prems(2) by (simp add: unat_less_iff)
  have N: "unat (gNumberOfSectorsInBootDisk s) \<le> 0x10000000" using Suc.prems(1) by (auto simp: ide_boot_def unat_le_iff)
  have l1: "unat (lba + 1) = unat lba + 1" using Suc.prems(2) N by (subst unat_plus_exact) auto
  let ?s = "s\<lparr>bytes := put_sector a (volume s lba) (bytes s)\<rparr>"
  have r: "load_sequential_sectors n (a + 512) (lba + 1) ?s =
      Inr (?s\<lparr>bytes := put_sectors n (a + 512) (\<lambda>i. volume ?s (lba + 1 + of_nat i)) (bytes ?s)\<rparr>)"
    by (rule Suc.IH) (use Suc.prems l1 in auto)
  have i: "lba + 1 + of_nat i = lba + of_nat (Suc i)" for i by simp
  have m: "put_sectors n (a + 512) (\<lambda>i. volume s (lba + of_nat (Suc i))) (put_sector a (volume s lba) (bytes s)) =
      put_sectors (Suc n) a (\<lambda>i. volume s (lba + of_nat i)) (bytes s)"
    using put_sectors_Suc [of n a "\<lambda>i. volume s (lba + of_nat i)" "bytes s"] Suc.prems(3) by (simp del: of_nat_Suc)
  have c: "controller_type s \<noteq> STORAGE_CONTROLLER_MODE_AHCI" using Suc.prems(1) by (simp add: ide_boot_def)
  have "load_sequential_sectors (Suc n) a lba s = load_sequential_sectors n (a + 512) (lba + 1) ?s"
    using c pio_read [OF Suc.prems(1) l, of a] by simp
  also have "\<dots> = Inr (s\<lparr>bytes := put_sectors n (a + 512) (\<lambda>i. volume s (lba + of_nat (Suc i))) (put_sector a (volume s lba) (bytes s))\<rparr>)"
    unfolding r i by simp
  finally show ?case unfolding m .
qed simp

lemma save_sequence_result:
  assumes "ide_boot s" "unat lba + n \<le> unat (gNumberOfSectorsInBootDisk s)"
  shows "\<exists>f. do_save_sequence n a lba s = Inr (s\<lparr>ide_sectors := f\<rparr>) \<and>
    (\<forall>k < gNumberOfSectorsInBootDisk s. volume (s\<lparr>ide_sectors := f\<rparr>) k =
       (if unat lba \<le> unat k \<and> unat k < unat lba + n then get_sector (a + 512 * (k - lba)) (bytes s) else volume s k))"
  using assms
proof (induction n arbitrary: a lba s)
  case 0
  then show ?case by (intro exI [where x = "ide_sectors s"]) auto
next
  case (Suc n)
  have l: "lba < gNumberOfSectorsInBootDisk s" using Suc.prems(2) by (simp add: unat_less_iff)
  have N: "unat (gNumberOfSectorsInBootDisk s) \<le> 0x10000000" using Suc.prems(1) by (auto simp: ide_boot_def unat_le_iff)
  have l1: "unat (lba + 1) = unat lba + 1" using Suc.prems(2) N by (subst unat_plus_exact) auto
  let ?s = "set_volume lba (get_sector a (bytes s)) s"
  obtain r where w: "ataWriteSector (current_ide_port s) a lba s = Inr (r, ?s)" using pio_write [OF Suc.prems(1) l] by blast
  have s': "ide_boot ?s" "gNumberOfSectorsInBootDisk ?s = gNumberOfSectorsInBootDisk s" "bytes ?s = bytes s"
    using Suc.prems(1) by (simp_all add: set_volume_def)
  obtain f where f: "do_save_sequence n (a + 512) (lba + 1) ?s = Inr (?s\<lparr>ide_sectors := f\<rparr>)"
    "\<forall>k < gNumberOfSectorsInBootDisk s. volume (?s\<lparr>ide_sectors := f\<rparr>) k =
       (if unat lba + 1 \<le> unat k \<and> unat k < unat lba + 1 + n then get_sector (a + 512 + 512 * (k - (lba + 1))) (bytes s) else volume ?s k)"
    using Suc.IH [of ?s "lba + 1" "a + 512"] Suc.prems l1 s' by auto
  have e: "?s\<lparr>ide_sectors := f\<rparr> = s\<lparr>ide_sectors := f\<rparr>" by (simp add: set_volume_def)
  show ?case
  proof (intro exI conjI allI impI)
    show "do_save_sequence (Suc n) a lba s = Inr (s\<lparr>ide_sectors := f\<rparr>)"
      using f(1) w Suc.prems(1) by (simp add: e ide_boot_def)
    fix k assume k: "k < gNumberOfSectorsInBootDisk s"
    have "a + 512 + 512 * (k - (lba + 1)) = a + 512 * (k - lba)" by (simp add: algebra_simps)
    with f(2) [rule_format, OF k] volume_set [OF Suc.prems(1) k l, of "get_sector a (bytes s)"]
    show "volume (s\<lparr>ide_sectors := f\<rparr>) k =
       (if unat lba \<le> unat k \<and> unat k < unat lba + Suc n then get_sector (a + 512 * (k - lba)) (bytes s) else volume s k)"
      unfolding e using word_unat_eq_iff [of k lba] by (cases "k = lba") auto
  qed
qed

section \<open>Sectors as bytes\<close>

definition sector_bytes :: "sector \<Rightarrow> u8 list" where
  "sector_bytes sec = map (\<lambda>k. sec (of_nat k)) [0..<512]"

lemma sector_bytes_length [simp]: "length (sector_bytes sec) = 512"
  by (simp add: sector_bytes_def)

lemma ucast_of_nat_9: "k < 512 \<Longrightarrow> (ucast (of_nat k :: 9 word) :: u64) = of_nat k"
  by (simp add: unsigned_of_nat take_bit_nat_eq_self)

lemma get_sector_bytes: "sector_bytes (get_sector a m) = read_bytes m a 512"
  by (simp add: sector_bytes_def get_sector_def read_bytes_def ucast_of_nat_9)

lemma put_sectors_at:
  assumes "k < 512 * n" "512 * n \<le> 2 ^ 64"
  shows "put_sectors n a f m (at_off a k) = sector_bytes (f (k div 512)) ! (k mod 512)"
proof -
  have "unat (at_off a k - a) = k" using assms by (simp add: unat_of_nat)
  with assms show ?thesis by (simp add: put_sectors_def sector_bytes_def)
qed

lemma put_sectors_outside: "512 * n < 2 ^ 64 \<Longrightarrow> x \<notin> area a (512 * n) \<Longrightarrow> put_sectors n a f m x = m x"
  by (simp add: put_sectors_def area_unat)

lemma concat_sectors_nth:
  "k < 512 * length ss \<Longrightarrow> concat (map sector_bytes ss) ! k = sector_bytes (ss ! (k div 512)) ! (k mod 512)"
proof (induction ss arbitrary: k)
  case (Cons x ss)
  show ?case
  proof (cases "k < 512")
    case False
    with Cons.prems Cons.IH [of "k - 512"] show ?thesis by (simp add: nth_append le_div_geq le_mod_geq)
  qed (simp add: nth_append)
qed simp

lemma concat_sectors_length [simp]: "length (concat (map sector_bytes ss)) = 512 * length ss"
  by (induction ss) auto

lemma put_sectors_bytes:
  assumes "512 * n \<le> 2 ^ 64"
  shows "read_bytes (put_sectors n a f m) a (512 * n) = concat (map (\<lambda>i. sector_bytes (f i)) [0..<n])"
proof (rule nth_equalityI)
  show "length (read_bytes (put_sectors n a f m) a (512 * n)) = length (concat (map (\<lambda>i. sector_bytes (f i)) [0..<n]))"
    using concat_sectors_length [of "map f [0..<n]"] by (simp add: comp_def)
  fix k assume k: "k < length (read_bytes (put_sectors n a f m) a (512 * n))"
  then have "k div 512 < n" by auto
  with k show "read_bytes (put_sectors n a f m) a (512 * n) ! k = concat (map (\<lambda>i. sector_bytes (f i)) [0..<n]) ! k"
    using put_sectors_at [OF _ assms, of k] concat_sectors_nth [of k "map f [0..<n]"] by (simp add: comp_def)
qed

text \<open>What was saved from memory is what a load of the same sectors brings back.\<close>

lemma save_sequence_reload:
  assumes "do_save_sequence n a lba s = Inr (s\<lparr>ide_sectors := f\<rparr>)" "ide_boot s"
    and "unat lba + n \<le> unat (gNumberOfSectorsInBootDisk s)"
  shows "unat (x - a) < 512 * n \<Longrightarrow> put_sectors n a (\<lambda>i. volume (s\<lparr>ide_sectors := f\<rparr>) (lba + of_nat i)) m x = bytes s x"
    and "k < gNumberOfSectorsInBootDisk s \<Longrightarrow> unat k < unat lba \<or> unat lba + n \<le> unat k \<Longrightarrow> volume (s\<lparr>ide_sectors := f\<rparr>) k = volume s k"
proof -
  obtain g where g: "do_save_sequence n a lba s = Inr (s\<lparr>ide_sectors := g\<rparr>)"
    "\<forall>k < gNumberOfSectorsInBootDisk s. volume (s\<lparr>ide_sectors := g\<rparr>) k =
       (if unat lba \<le> unat k \<and> unat k < unat lba + n then get_sector (a + 512 * (k - lba)) (bytes s) else volume s k)"
    using save_sequence_result [OF assms(2,3)] by blast
  have fg: "s\<lparr>ide_sectors := f\<rparr> = s\<lparr>ide_sectors := g\<rparr>" using g(1) assms(1) by simp
  have N: "unat (gNumberOfSectorsInBootDisk s) \<le> 0x10000000" using assms(2) by (auto simp: ide_boot_def unat_le_iff)
  have v: "volume (s\<lparr>ide_sectors := f\<rparr>) (lba + of_nat i) = get_sector (at_off a (512 * i)) (bytes s)" if "i < n" for i
  proof -
    have "unat (of_nat i :: u64) = i" using that assms(3) N by (simp add: unat_of_nat)
    then have u: "unat (lba + of_nat i) = unat lba + i" using that assms(3) N by (subst unat_plus_exact) simp_all
    then have "lba + of_nat i < gNumberOfSectorsInBootDisk s" using assms(3) that by (simp add: unat_less_iff)
    from g(2) [rule_format, OF this] u that show ?thesis unfolding fg by simp
  qed
  show "put_sectors n a (\<lambda>i. volume (s\<lparr>ide_sectors := f\<rparr>) (lba + of_nat i)) m x = bytes s x" if x: "unat (x - a) < 512 * n"
  proof -
    let ?d = "unat (x - a)"
    have i: "?d div 512 < n" using x by auto
    have "at_off a (512 * (?d div 512)) + ucast (of_nat (?d mod 512) :: 9 word) = at_off a (512 * (?d div 512) + ?d mod 512)"
      by (subst ucast_of_nat_9) (simp, rule at_off_add)
    also have "512 * (?d div 512) + ?d mod 512 = ?d" by simp
    also have "at_off a ?d = x" by simp
    finally show ?thesis using x v [OF i] by (simp add: put_sectors_def get_sector_def)
  qed
  show "volume (s\<lparr>ide_sectors := f\<rparr>) k = volume s k" if "k < gNumberOfSectorsInBootDisk s" "unat k < unat lba \<or> unat lba + n \<le> unat k"
    using g(2) [rule_format, OF that(1)] that(2) unfolding fg by auto
qed

end
