(* ===== verification/Fat16.thy ===== *)
theory Fat16
  imports Disk Paging
begin

text \<open>
  The FAT16 file system (gthouse/fs/fat/fat16.c, gthouse/fs/search.c, the caches of blkdev/ata/atadsk_r.c and
  atadsk_w.c). The FAT and the directories are bytes of memory at fixed addresses, filled from the disk; the code reads
  them as 16-bit words.
\<close>

section \<open>Constants\<close>

definition VOLUME1_FAT_ADDRESS :: addr where "VOLUME1_FAT_ADDRESS = 0x00030000"
definition VOLUME1_ROOTDIR_ADDRESS :: addr where "VOLUME1_ROOTDIR_ADDRESS = 0x00070000"
definition VOLUME1_FAT_LBA :: u64 where "VOLUME1_FAT_LBA = 67"
definition VOLUME1_ROOTDIR_LBA :: u64 where "VOLUME1_ROOTDIR_LBA = 559"
definition VOLUME1_DATAAREA_LBA :: u64 where "VOLUME1_DATAAREA_LBA = 591"
definition VOLUME1_FAT_SIZE :: nat where "VOLUME1_FAT_SIZE = 246"
definition FAT16_ROOT_ENTRIES :: nat where "FAT16_ROOT_ENTRIES = 512"
definition CLUSTERS_TO_SAVE_MAX :: nat where "CLUSTERS_TO_SAVE_MAX = 32 * 1024"
definition CONFIG_IMAGESIZE_LIMIT_IN_KB :: nat where "CONFIG_IMAGESIZE_LIMIT_IN_KB = 408"

lemmas fat_consts = VOLUME1_FAT_ADDRESS_def VOLUME1_ROOTDIR_ADDRESS_def KERNELIMAGE_VA_def FRONTBUFFER_VA_def
  VOLUME1_FAT_LBA_def VOLUME1_ROOTDIR_LBA_def VOLUME1_DATAAREA_LBA_def VOLUME1_FAT_SIZE_def FAT16_ROOT_ENTRIES_def

section \<open>Words in memory\<close>

definition read16 :: "mem \<Rightarrow> addr \<Rightarrow> u16" where
  "read16 m a = ucast (m a) OR push_bit 8 (ucast (m (a + 1)))"

definition write16 :: "addr \<Rightarrow> u16 \<Rightarrow> mem \<Rightarrow> mem" where
  "write16 a v m = m(a := ucast v, a + 1 := ucast (drop_bit 8 v))"

definition read32 :: "mem \<Rightarrow> addr \<Rightarrow> u32" where
  "read32 m a = ucast (read16 m a) OR push_bit 16 (ucast (read16 m (a + 2)))"

definition put_bytes :: "addr \<Rightarrow> u8 list \<Rightarrow> mem \<Rightarrow> mem" where
  "put_bytes a xs m = (\<lambda>x. if unat (x - a) < length xs then xs ! unat (x - a) else m x)"

abbreviation fat_slot :: "addr \<Rightarrow> u16 \<Rightarrow> addr" where
  "fat_slot fat c \<equiv> fat + 2 * ucast c"

abbreviation dir_slot :: "addr \<Rightarrow> nat \<Rightarrow> addr" where
  "dir_slot dir i \<equiv> dir + 32 * of_nat i"

section \<open>Caches\<close>

definition fs_load_fat :: "addr \<Rightarrow> u64 \<Rightarrow> nat \<Rightarrow> io_state \<Rightarrow> io_state outcome" where
  "fs_load_fat fat_address fat_lba size_in_sectors s =
    (if g_fat_cache_loaded s then Inr s
     else and_then (load_sequential_sectors (size_in_sectors mod 0x10000) fat_address fat_lba s)
       (\<lambda>s1. Inr (s1\<lparr>g_fat_cache_loaded := True\<rparr>)))"

definition fs_load_rootdir :: "addr \<Rightarrow> u64 \<Rightarrow> nat \<Rightarrow> io_state \<Rightarrow> io_state outcome" where
  "fs_load_rootdir root_address root_lba size_in_sectors s =
    load_sequential_sectors (size_in_sectors mod 0x10000) root_address root_lba s"

definition atadsk_save_fat :: "addr \<Rightarrow> u64 \<Rightarrow> nat \<Rightarrow> io_state \<Rightarrow> (int \<times> io_state) outcome" where
  "atadsk_save_fat fat_address fat_lba fat_size s =
    (if fat_address = NULL then Inl (Panic ''atadsk_save_fat: fat_address'')
     else if fat_lba = 0 then Inl (Panic ''atadsk_save_fat: fat_lba'')
     else if fat_size \<noteq> VOLUME1_FAT_SIZE then Inl (Panic ''atadsk_save_fat: fat_size'')
     else and_then (do_save_sequence fat_size fat_address fat_lba s) (\<lambda>s1. Inr (0, s1)))"

definition atadsk_save_rootdir :: "addr \<Rightarrow> u64 \<Rightarrow> nat \<Rightarrow> io_state \<Rightarrow> (int \<times> io_state) outcome" where
  "atadsk_save_rootdir root_address root_lba root_size s =
    (if root_address = NULL then Inl (Panic ''atadsk_save_rootdir: root_address'')
     else if root_lba = 0 then Inl (Panic ''atadsk_save_rootdir: root_lba'')
     else if root_size \<noteq> 32 then Inl (Panic ''atadsk_save_rootdir: root_size'')
     else and_then (do_save_sequence root_size root_address root_lba s) (\<lambda>s1. Inr (0, s1)))"

definition fs_fat16_cache_not_saved :: "io_state \<Rightarrow> io_state" where
  "fs_fat16_cache_not_saved s = s\<lparr>g_fat_cache_saved := False\<rparr>"

definition fs_save_fat16_cache :: "io_state \<Rightarrow> (int \<times> io_state) outcome" where
  "fs_save_fat16_cache s =
    (if g_fat_cache_saved s then Inr (-1, s)
     else and_then (atadsk_save_fat VOLUME1_FAT_ADDRESS VOLUME1_FAT_LBA VOLUME1_FAT_SIZE s)
       (\<lambda>(_, s1). Inr (0, s1\<lparr>g_fat_cache_saved := True\<rparr>)))"

section \<open>Directories\<close>

text \<open>The comparison of a name with a copy of a directory entry: \<^verbatim>\<open>gramado_strncmp\<close> on the
  bytes of two arrays.\<close>

fun strncmp_bytes :: "u8 list \<Rightarrow> u8 list \<Rightarrow> nat \<Rightarrow> int" where
  "strncmp_bytes xs ys 0 = (if hd xs \<noteq> 0 \<or> hd ys \<noteq> 0 then 2 else 0)"
| "strncmp_bytes xs ys (Suc n) = (if hd xs \<noteq> hd ys then 1 else strncmp_bytes (tl xs) (tl ys) n)"

definition entry_named :: "mem \<Rightarrow> addr \<Rightarrow> nat \<Rightarrow> addr \<Rightarrow> bool" where
  "entry_named m file_name n e \<longleftrightarrow> strncmp_bytes (read_bytes m file_name (Suc n)) (read_bytes m e n @ [0]) n = 0"

definition find_entry :: "mem \<Rightarrow> addr \<Rightarrow> addr \<Rightarrow> nat \<Rightarrow> nat \<Rightarrow> nat option" where
  "find_entry m dir file_name n max_entries =
    first_slot (\<lambda>i. read16 m (dir_slot dir i) \<noteq> 0 \<and> entry_named m file_name n (dir_slot dir i)) [0..<max_entries]"

definition search_in_dir_imp :: "addr \<Rightarrow> addr \<Rightarrow> mem \<Rightarrow> bool option" where
  "search_in_dir_imp file_name dir_address m =
    (if file_name = NULL then Some False
     else if m file_name = 0 then Some False
     else if dir_address = NULL then Some False
     else case strlen m file_name of None \<Rightarrow> None
     | Some stringSize \<Rightarrow>
         if 11 < stringSize then Some False
         else let Name_Desired = read_bytes m file_name stringSize @ replicate (11 - stringSize) 0 @ [0] in
         if m file_name = 0x2F then Some False
         else Some (first_slot (\<lambda>i. let e = dir_slot dir_address i in
             m e \<noteq> 0xE5 \<and> m e \<noteq> 0x2E \<and> m e \<noteq> 0 \<and> strncmp_bytes Name_Desired (read_bytes m e 11 @ [0]) 11 = 0) [0..<512] \<noteq> None))"

definition search_in_dir :: "addr \<Rightarrow> addr \<Rightarrow> mem \<Rightarrow> bool option" where
  "search_in_dir file_name dir_address m =
    (if file_name = NULL then Some False else if m file_name = 0 then Some False else search_in_dir_imp file_name dir_address m)"

definition search_in_root :: "addr \<Rightarrow> mem \<Rightarrow> bool option" where
  "search_in_root file_name m =
    (if file_name = NULL then Some False else if m file_name = 0 then Some False
     else search_in_dir file_name VOLUME1_ROOTDIR_ADDRESS m)"

definition fsSearchFileInRoot :: "addr \<Rightarrow> mem \<Rightarrow> bool option" where
  "fsSearchFileInRoot file_name m = (if file_name = NULL then Some False else search_in_root file_name m)"

definition findEmptyDirectoryEntry :: "addr \<Rightarrow> int \<Rightarrow> mem \<Rightarrow> int" where
  "findEmptyDirectoryEntry dir_address number_of_entries m =
    (if dir_address = NULL then -1 else if number_of_entries < 0 then -1
     else case first_slot (\<lambda>i. m (dir_slot dir_address i) = 0) [0..<nat number_of_entries] of
       None \<Rightarrow> -1 | Some i \<Rightarrow> int i)"

text \<open>The result is an unsigned long that holds a 32-bit number.\<close>

definition fsGetFileSize :: "addr \<Rightarrow> addr \<Rightarrow> io_state \<Rightarrow> (u64 \<times> io_state) outcome option" where
  "fsGetFileSize file_name dir_address s =
    (if file_name = NULL then returns (0, s)
     else if bytes s file_name = 0 then returns (0, s)
     else if dir_address = NULL then returns (0, s)
     else run_then (Some (if dir_address = VOLUME1_ROOTDIR_ADDRESS
                          then fs_load_rootdir VOLUME1_ROOTDIR_ADDRESS VOLUME1_ROOTDIR_LBA 32 s else Inr s)) (\<lambda>s1.
       case root s1 of None \<Rightarrow> Some (Inl (Panic ''fsGetFileSize: [FAIL] No root file system!''))
       | Some r \<Rightarrow>
           if r_spc r \<le> 0 then Some (Inl (Panic ''fsGetFileSize: [FAIL] spc''))
           else if r_dir_entries r = 0 then Some (Inl (Panic ''fsGetFileSize: [FAIL] max root entries''))
           else case strlen (bytes s1) file_name of None \<Rightarrow> None
             | Some k \<Rightarrow>
                 (case find_entry (bytes s1) dir_address file_name (min k 11) (unat (word_of_int (r_dir_entries r) :: u64)) of
                    None \<Rightarrow> returns (0, s1)
                  | Some i \<Rightarrow> returns (ucast (read32 (bytes s1) (dir_slot dir_address i + 28)), s1))))"

section \<open>Loading a file\<close>

definition check_address_validation :: "io_state \<Rightarrow> addr \<Rightarrow> bool" where
  "check_address_validation s a \<longleftrightarrow> a \<noteq> VOLUME1_FAT_ADDRESS \<and> a \<noteq> VOLUME1_ROOTDIR_ADDRESS \<and> a \<noteq> KERNELIMAGE_VA \<and>
     a \<noteq> FRONTBUFFER_VA \<and> a \<noteq> backbuffer_va s"

text \<open>Label \<^verbatim>\<open>__loop_next_entry\<close>: one cluster is one sector.\<close>

partial_function (option) load_clusters :: "addr \<Rightarrow> u16 \<Rightarrow> addr \<Rightarrow> nat \<Rightarrow> io_state \<Rightarrow> (int \<times> io_state) outcome option" where
  "load_clusters fat cluster buffer nreads s =
    (if \<not> check_address_validation s buffer then Some (Inl (Panic ''fat16LoadFile: Not a valid address''))
     else if cluster = 0 \<or> 0xFFF0 < cluster then Some (Inl (Panic ''fat16LoadFile: fat[] vector limits.''))
     else case read_lba buffer (VOLUME1_DATAAREA_LBA + ucast cluster - 2) s of
       Inl e \<Rightarrow> Some (Inl e)
     | Inr (_, s1) \<Rightarrow>
         let next = read16 (bytes s1) (fat_slot fat cluster) in
         if next = 0xFFF7 then Some (Inl (Panic ''fat16LoadFile: Bad cluster''))
         else if next = 0xFFFF \<or> next = 0xFFF8
         then if CONFIG_IMAGESIZE_LIMIT_IN_KB < (nreads + 1) div 2 then Some (Inl (Panic ''fat16LoadFile: nreads''))
              else returns (0, s1)
         else load_clusters fat next (buffer + 512) (nreads + 1) s1)"

definition fat16LoadFile :: "addr \<Rightarrow> addr \<Rightarrow> int \<Rightarrow> addr \<Rightarrow> addr \<Rightarrow> u64 \<Rightarrow> io_state \<Rightarrow> (int \<times> io_state) outcome option" where
  "fat16LoadFile fat_address dir_address dir_entries file_name buffer buffer_size_in_bytes s =
    (let DirEntries = dir_entries mod 0x10000; BufferSizeInBytes = buffer_size_in_bytes AND 0xFFFFFFFF in
     if fat_address = NULL then Some (Inl (Panic ''fat16LoadFile: fat_address''))
     else if dir_address = NULL then Some (Inl (Panic ''fat16LoadFile: dir_address''))
     else if fat_address \<noteq> VOLUME1_FAT_ADDRESS then Some (Inl (Panic ''fat16LoadFile: Not valid FAT address''))
     else if int FAT16_ROOT_ENTRIES < DirEntries then Some (Inl (Panic ''fat16LoadFile: DirEntries''))
     else if DirEntries \<noteq> int FAT16_ROOT_ENTRIES then Some (Inl (Panic ''fat16LoadFile: [DEBUG] DirEntries IS LESS THE 512''))
     else if BufferSizeInBytes = 0 then Some (Inl (Panic ''fat16LoadFile: BufferSizeInBytes = 0''))
     else if 512 * 4096 < BufferSizeInBytes then Some (Inl (Panic ''fat16LoadFile: BufferSizeInBytes limits''))
     else case root s of None \<Rightarrow> Some (Inl (Panic ''fat16LoadFile: root''))
     | Some r \<Rightarrow>
     if \<not> r_used r \<or> r_magic r \<noteq> 1234 then Some (Inl (Panic ''fat16LoadFile: root validation''))
     else if r_spc r \<le> 0 then Some (Inl (Panic ''fat16LoadFile: Spc''))
     else if r_dir_entries r \<noteq> int FAT16_ROOT_ENTRIES then Some (Inl (Panic ''fat16LoadFile: root->dir_entries''))
     else if file_name = NULL then returns (-1, s)
     else if bytes s file_name = 0 then returns (-1, s)
     else case strlen (bytes s) file_name of None \<Rightarrow> None
     | Some FileNameSize \<Rightarrow>
     if 11 < FileNameSize then returns (-1, s)
     else run_then (fsGetFileSize file_name dir_address s) (\<lambda>(FileSize, s1).
       if BufferSizeInBytes \<le> FileSize then returns (-1, s1)
       else case find_entry (bytes s1) dir_address file_name FileNameSize FAT16_ROOT_ENTRIES of
         None \<Rightarrow> returns (-1, s1)
       | Some i \<Rightarrow>
           let cluster = read16 (bytes s1) (dir_slot dir_address i + 26) in
           if cluster = 0 \<or> 0xFFF0 < cluster then returns (-1, s1)
           else run_then (Some (fs_load_fat VOLUME1_FAT_ADDRESS VOLUME1_FAT_LBA 246 s1)) (\<lambda>s2.
             load_clusters fat_address cluster buffer 0 s2)))"

section \<open>Saving a file\<close>

text \<open>The clusters for a file: the first free ones from number 3, closed by an end mark, for which one more free
  cluster has to follow.\<close>

fun pick_clusters :: "nat \<Rightarrow> nat \<Rightarrow> nat \<Rightarrow> nat \<Rightarrow> (nat \<Rightarrow> u16) \<Rightarrow> (int \<Rightarrow> u16) \<Rightarrow> bool \<times> (int \<Rightarrow> u16)" where
  "pick_clusters 0 c j left fat cl = (False, cl)"
| "pick_clusters (Suc n) c j left fat cl =
    (if fat c = 0
     then if left = 0 then (True, cl(int j := 0xFFF8))
          else pick_clusters n (c + 1) (j + 1) (left - 1) fat (cl(int j := of_nat c))
     else pick_clusters n (c + 1) j left fat cl)"

definition dir_entry_bytes :: "u8 list \<Rightarrow> u8 \<Rightarrow> u16 \<Rightarrow> u64 \<Rightarrow> u8 list" where
  "dir_entry_bytes name flag first size_in_bytes =
    (if flag = 0x10 then take 8 name @ [0x20, 0x20, 0x20] else take 11 name) @
    [flag, 0, 0x97, 0xD3, 0xBA, 0xE2, 0x58, 0xE2, 0x58, 0, 0, 0xD3, 0xBA, 0xE2, 0x58] @
    [ucast first, ucast (drop_bit 8 first)] @
    (if flag = 0x10 then [0, 0, 0, 0]
     else [ucast size_in_bytes, ucast (drop_bit 8 size_in_bytes), ucast (drop_bit 16 size_in_bytes), ucast (drop_bit 24 size_in_bytes)])"

definition set_fat :: "addr \<Rightarrow> u16 \<Rightarrow> u16 \<Rightarrow> io_state \<Rightarrow> io_state" where
  "set_fat fat c v s = s\<lparr>bytes := write16 (fat_slot fat c) v (bytes s)\<rparr>"

function write_clusters :: "addr \<Rightarrow> nat \<Rightarrow> addr \<Rightarrow> io_state \<Rightarrow> (bool \<times> io_state) outcome" where
  "write_clusters fat i address s =
    (let next = fat16ClustersToSave s (int i) in
     if next = 0xFFF8 then Inr (True, set_fat fat (fat16ClustersToSave s (int i - 1)) 0xFFF8 s)
     else let s1 = set_fat fat next (fat16ClustersToSave s (int i + 1)) s in
       and_then (ataWriteSector (current_ide_port s1) address (VOLUME1_DATAAREA_LBA + ucast next - 2) s1) (\<lambda>(_, s2).
         if 16 < i + 1 then Inr (False, s2) else write_clusters fat (i + 1) (address + 512) s2))"
  by pat_completeness auto
termination by (relation "measure (\<lambda>(fat, i, address, s). 17 - i)") auto

declare write_clusters.simps [simp del]

definition fat16SaveFile :: "addr \<Rightarrow> addr \<Rightarrow> int \<Rightarrow> addr \<Rightarrow> u64 \<Rightarrow> u64 \<Rightarrow> addr \<Rightarrow> u8 \<Rightarrow> io_state \<Rightarrow> (int \<times> io_state) outcome" where
  "fat16SaveFile fat_address dir_address dir_entries file_name size_in_sectors size_in_bytes file_address flag s =
    (if fat_address = NULL then Inl (Panic ''fat16SaveFile: fat_address'')
     else if dir_address = NULL then Inl (Panic ''fat16SaveFile: dir_address'')
     else if fat_address \<noteq> VOLUME1_FAT_ADDRESS then Inl (Panic ''fat16SaveFile: fat_address'')
     else if file_name = NULL then Inr (-1, s)
     else if bytes s file_name = 0 then Inr (-1, s)
     else if dir_entries = 0 \<or> int FAT16_ROOT_ENTRIES < dir_entries then Inl (Panic ''fat16SaveFile: [FAIL] max dir entries'')
     else if 16 < size_in_sectors then Inr (-1, s)
     else and_then (fs_load_rootdir VOLUME1_ROOTDIR_ADDRESS VOLUME1_ROOTDIR_LBA 32 s) (\<lambda>s1.
       and_then (fs_load_fat VOLUME1_FAT_ADDRESS VOLUME1_FAT_LBA 246 s1) (\<lambda>s2.
       case pick_clusters CLUSTERS_TO_SAVE_MAX 3 0 (unat size_in_sectors)
              (\<lambda>c. read16 (bytes s2) (fat_address + 2 * of_nat c)) (fat16ClustersToSave s2) of
         (found, cl) \<Rightarrow>
           let s3 = s2\<lparr>fat16ClustersToSave := cl\<rparr> in
           if \<not> found then Inr (-1, s3)
           else let DirEntry = dir_entry_bytes (read_bytes (bytes s3) file_name 11) flag (cl 0) size_in_bytes;
                    FreeIndex = findEmptyDirectoryEntry dir_address dir_entries (bytes s3) in
             if FreeIndex = -1 then Inr (-1, s3)
             else let s4 = s3\<lparr>bytes := put_bytes (dir_slot dir_address (nat FreeIndex)) DirEntry (bytes s3)\<rparr> in
             and_then (write_clusters fat_address 0 file_address s4) (\<lambda>(written, s5).
               if \<not> written then Inr (-1, s5)
               else and_then (atadsk_save_rootdir VOLUME1_ROOTDIR_ADDRESS VOLUME1_ROOTDIR_LBA 32 s5) (\<lambda>(_, s6).
                 Inr (0, fs_fat16_cache_not_saved s6))))))"

definition do_write_file_to_disk :: "addr \<Rightarrow> u64 \<Rightarrow> u64 \<Rightarrow> addr \<Rightarrow> u8 \<Rightarrow> io_state \<Rightarrow> (int \<times> io_state) outcome" where
  "do_write_file_to_disk file_name size_in_sectors size_in_bytes file_address flag s =
    (if file_name = NULL then Inr (- EINVAL, s)
     else if bytes s file_name = 0 then Inr (- EINVAL, s)
     else fat16SaveFile VOLUME1_FAT_ADDRESS VOLUME1_ROOTDIR_ADDRESS (int FAT16_ROOT_ENTRIES)
            (if bytes s file_name = 0x2F then file_name + 1 else file_name) size_in_sectors size_in_bytes file_address flag s)"

end
