(* ===== verification/Descriptors.thy ===== *)
theory Descriptors
  imports Tty Fat16
begin

text \<open>
  The descriptor table of a process and the calls on it (fs/pipe.c, fs/fslib.c, libk/kstdio.c): duplicating
  and closing descriptors, pipes, control, and the implementation of the read and write system calls, which choose the
  device behind a descriptor. The calls of the network stack are arguments.
\<close>

section \<open>Files and descriptors\<close>

definition k_fclose :: "addr \<Rightarrow> io_state \<Rightarrow> int \<times> io_state" where
  "k_fclose f s =
    (if f = NULL then (EOF, s) else if \<not> f_used (files s f) then (EOF, s) else if f_magic (files s f) \<noteq> 1234 then (EOF, s)
     else (0, upd_file f (\<lambda>x. x\<lparr>f_used := True, f_magic := 4321\<rparr>) s))"

definition get_file_from_fd :: "int \<Rightarrow> io_state \<Rightarrow> addr outcome" where
  "get_file_from_fd fd s =
    (if fd < 0 \<or> 32 \<le> fd then Inr NULL
     else let current_pid = get_current_process 0 (iks s) in
     if current_pid < 0 \<or> int PROCESS_COUNT_MAX \<le> current_pid then Inr NULL
     else let p = teList (iks s) (nat current_pid) in
     if p = NULL then Inl (Panic ''get_file_from_fd: p'')
     else if \<not> p_used (tes (iks s) p) then Inr NULL
     else if p_magic (tes (iks s) p) \<noteq> 1234 then Inr NULL
     else Inr (objects s p (nat fd)))"

definition get_current_process_struct :: "io_state \<Rightarrow> addr outcome" where
  "get_current_process_struct s =
    and_then (te_at (get_current_process 0 (iks s)) s) (\<lambda>p.
      if p = NULL then Inr NULL
      else if \<not> p_used (tes (iks s) p) \<or> p_magic (tes (iks s) p) \<noteq> 1234 then Inr NULL
      else Inr p)"

definition sys_dup :: "int \<Rightarrow> io_state \<Rightarrow> (int \<times> io_state) outcome" where
  "sys_dup oldfd s =
    (if oldfd < 0 \<or> OPEN_MAX \<le> oldfd then Inr (- EBADF, s)
     else and_then (get_current_process_struct s) (\<lambda>p.
       if p = NULL then Inr (- EBADF, s)
       else let fp = objects s p (nat oldfd) in
       if fp = NULL then Inr (- EBADF, s)
       else case first_slot (\<lambda>i. objects s p i = NULL) [0..<nat OPEN_MAX] of
         None \<Rightarrow> Inr (- EMFILE, s)
       | Some newfd \<Rightarrow> Inr (int newfd, upd_file fp (\<lambda>x. x\<lparr>f_fd_counter := f_fd_counter x + 1\<rparr>) (set_object p (int newfd) fp s))))"

text \<open>Dropping the file of a descriptor that is about to be replaced.\<close>

definition drop_old_file :: "addr \<Rightarrow> int \<Rightarrow> io_state \<Rightarrow> io_state" where
  "drop_old_file p newfd s =
    (let old_newfp = objects s p (nat newfd) in
     if old_newfp = NULL then s
     else let s1 = upd_file old_newfp (\<lambda>x. x\<lparr>f_fd_counter := f_fd_counter x - 1\<rparr>) s;
              s2 = (if f_fd_counter (files s1 old_newfp) \<le> 0 then snd (k_fclose old_newfp s1) else s1)
          in set_object p newfd NULL s2)"

definition sys_dup2 :: "int \<Rightarrow> int \<Rightarrow> io_state \<Rightarrow> (int \<times> io_state) outcome" where
  "sys_dup2 oldfd newfd s =
    (if oldfd < 0 \<or> OPEN_MAX \<le> oldfd \<or> newfd < 0 \<or> OPEN_MAX \<le> newfd then Inr (- EBADF, s)
     else and_then (get_current_process_struct s) (\<lambda>p.
       if p = NULL then Inr (- EBADF, s)
       else let fp = objects s p (nat oldfd) in
       if fp = NULL then Inr (- EBADF, s)
       else if oldfd = newfd then Inr (newfd, s)
       else Inr (newfd, upd_file fp (\<lambda>x. x\<lparr>f_fd_counter := f_fd_counter x + 1\<rparr>) (set_object p newfd fp (drop_old_file p newfd s)))))"

definition sys_dup3 :: "int \<Rightarrow> int \<Rightarrow> int \<Rightarrow> io_state \<Rightarrow> (int \<times> io_state) outcome" where
  "sys_dup3 oldfd newfd flags s =
    (if oldfd < 0 \<or> OPEN_MAX \<le> oldfd \<or> newfd < 0 \<or> OPEN_MAX \<le> newfd then Inr (- EBADF, s)
     else if oldfd = newfd then Inr (- EINVAL, s)
     else and_then (get_current_process_struct s) (\<lambda>p.
       if p = NULL then Inr (- EBADF, s)
       else let fp = objects s p (nat oldfd) in
       if fp = NULL then Inr (- EBADF, s)
       else Inr (newfd, upd_file fp (\<lambda>x. x\<lparr>f_fd_counter := f_fd_counter x + 1\<rparr>) (set_object p newfd fp (drop_old_file p newfd s)))))"

definition fs_duplicate_fd :: "int \<Rightarrow> int \<Rightarrow> io_state \<Rightarrow> (int \<times> io_state) outcome" where
  "fs_duplicate_fd oldfd start s =
    (if oldfd < 0 \<or> OPEN_MAX \<le> oldfd then Inr (- EBADF, s)
     else if start < 0 \<or> OPEN_MAX \<le> start then Inr (- EINVAL, s)
     else and_then (te_at (get_current_process 0 (iks s)) s) (\<lambda>p.
       if p = NULL \<or> p_magic (tes (iks s) p) \<noteq> 1234 then Inr (- EBADF, s)
       else let fp = objects s p (nat oldfd) in
       if fp = NULL then Inr (- EBADF, s)
       else if f_magic (files s fp) \<noteq> 1234 then Inr (- EBADF, s)
       else case first_slot (\<lambda>i. objects s p i = NULL) [nat start..<nat OPEN_MAX] of
         None \<Rightarrow> Inr (- EMFILE, s)
       | Some newfd \<Rightarrow> Inr (int newfd, set_object p (int newfd) fp s)))"

definition fs_get_free_fd_from_pid :: "int \<Rightarrow> io_state \<Rightarrow> int" where
  "fs_get_free_fd_from_pid pid s =
    (if pid < 0 \<or> int PROCESS_COUNT_MAX \<le> pid then -1
     else let p = teList (iks s) (nat pid) in
     if p = NULL then -1
     else if \<not> p_used (tes (iks s) p) \<or> p_magic (tes (iks s) p) \<noteq> 1234 then -1
     else case first_slot (\<lambda>i. objects s p i = NULL) [0..<32] of None \<Rightarrow> -1 | Some i \<Rightarrow> int i)"

definition F_DUPFD :: int where "F_DUPFD = 0"
definition F_GETFD :: int where "F_GETFD = 1"
definition F_SETFD :: int where "F_SETFD = 2"
definition F_GETFL :: int where "F_GETFL = 3"
definition F_SETFL :: int where "F_SETFL = 4"
definition F_GETLK :: int where "F_GETLK = 5"
definition F_SETLK :: int where "F_SETLK = 6"
definition F_SETLKW :: int where "F_SETLKW = 7"
definition F_FREESP :: int where "F_FREESP = 8"
definition F_DUPFD_CLOEXEC :: int where "F_DUPFD_CLOEXEC = 9"
definition FD_CLOEXEC :: u16 where "FD_CLOEXEC = 0x01"

definition sys_fcntl_imp :: "int \<Rightarrow> int \<Rightarrow> u64 \<Rightarrow> io_state \<Rightarrow> (int \<times> io_state) outcome" where
  "sys_fcntl_imp fd cmd arg s =
    (if fd < 0 \<or> OPEN_MAX \<le> fd then Inr (- EBADF, s)
     else if cmd < 0 then Inr (- EINVAL, s)
     else and_then (get_file_from_fd fd s) (\<lambda>fp.
       if fp = NULL then Inr (- EBADF, s)
       else if f_magic (files s fp) \<noteq> 1234 then Inr (- EBADF, s)
       else if cmd = F_DUPFD then fs_duplicate_fd fd (sint (ucast arg :: u32)) s
       else if cmd = F_DUPFD_CLOEXEC
       then and_then (fs_duplicate_fd fd (sint (ucast arg :: u32)) s) (\<lambda>(newfd, s1).
         if 0 \<le> newfd
         then and_then (get_file_from_fd newfd s1) (\<lambda>newfp.
           Inr (newfd, if newfp \<noteq> NULL then upd_file newfp (\<lambda>x. x\<lparr>f_fd_flags := f_fd_flags x OR FD_CLOEXEC\<rparr>) s1 else s1))
         else Inr (newfd, s1))
       else if cmd = F_GETFD then Inr (uint (f_fd_flags (files s fp)), s)
       else if cmd = F_SETFD then Inr (0, upd_file fp (\<lambda>x. x\<lparr>f_fd_flags := ucast arg\<rparr>) s)
       else if cmd = F_GETFL then Inr (uint (f_flags (files s fp)), s)
       else if cmd = F_SETFL then Inr (0, upd_file fp (\<lambda>x. x\<lparr>f_flags := ucast arg\<rparr>) s)
       else if cmd = F_GETLK \<or> cmd = F_SETLK \<or> cmd = F_SETLKW then Inr (-1, s)
       else if cmd = F_FREESP then Inr (0, upd_file fp (\<lambda>x. x\<lparr>f_fsize := sint (ucast arg :: u32)\<rparr>) s)
       else Inr (- EINVAL, s)))"

section \<open>Pipes\<close>

definition sizeof_file :: u32 where "sizeof_file = 336"
definition sizeof_pipe_info_d :: u32 where "sizeof_pipe_info_d = 24"
definition ACTION_NULL :: int where "ACTION_NULL = 0"

text \<open>What \<^verbatim>\<open>sys_pipe\<close> writes into each of its two files. The structures come from
  \<^verbatim>\<open>kmalloc\<close>, which does not clear them: every field not named here keeps what the memory held.\<close>

definition pipe_file :: "int \<Rightarrow> int \<Rightarrow> addr \<Rightarrow> io_state \<Rightarrow> file_d \<Rightarrow> file_d" where
  "pipe_file slot current_process sh_buff s f = f\<lparr>f_used := True, f_magic := 1234, f_object := ObjectTypePipe,
     f_pid := current_process, f_uid := current_user s, f_gid := current_group s,
     f_sync := (f_sync f)\<lparr>sy_sender_pid := -1, sy_receiver_pid := -1, sy_action := ACTION_NULL, sy_can_read := True,
       sy_can_write := True, sy_can_execute := False, sy_can_accept := False, sy_can_connect := False\<rparr>,
     f_tmpfname := NULL, f_base := sh_buff, f_p := sh_buff, f_lbfsize := BUFSIZ, f_fsize := 0, f_cnt := BUFSIZ,
     f_r := 0, f_w := 0, f_file := slot\<rparr>"

text \<open>The part after the two free slots are found.\<close>

definition pipe_create :: "addr \<Rightarrow> int \<Rightarrow> int \<Rightarrow> int \<Rightarrow> io_state \<Rightarrow> (int \<times> (int \<times> int) option \<times> io_state) outcome" where
  "pipe_create p current_process slot1 slot2 s =
    and_then (io_kmalloc (word_of_int BUFSIZ) s) (\<lambda>(sh_buff, s1).
      if sh_buff = NULL then Inr (-1, None, set_object p slot2 NULL (set_object p slot1 NULL s1))
      else and_then (io_kmalloc sizeof_file s1) (\<lambda>(f1, s2).
      and_then (io_kmalloc sizeof_file s2) (\<lambda>(f2, s3).
      if f1 = NULL \<or> f2 = NULL then Inr (-1, None, set_object p slot2 NULL (set_object p slot1 NULL s3))
      else let s4 = upd_file f2 (pipe_file slot2 current_process sh_buff s3) (upd_file f1 (pipe_file slot1 current_process sh_buff s3) s3);
               s5 = set_object p slot2 f2 (set_object p slot1 f1 s4)
           in and_then (io_kmalloc sizeof_pipe_info_d s5) (\<lambda>(pi, s6).
             if pi = NULL then Inr (-1, Some (slot1, slot2), s6)
             else let s7 = upd_pipe pi (\<lambda>_. \<lparr>pi_base = sh_buff, pi_buffer_size = BUFSIZ, pi_counter = 0, pi_write_pos = 0, pi_read_pos = 0\<rparr>) s6
                  in Inr (0, Some (slot1, slot2),
                       upd_file f2 (\<lambda>x. x\<lparr>f_pipe_info := pi\<rparr>) (upd_file f1 (\<lambda>x. x\<lparr>f_pipe_info := pi\<rparr>) s7))))))"

definition free_fd :: "addr \<Rightarrow> nat \<Rightarrow> io_state \<Rightarrow> int" where
  "free_fd p n s = (case first_slot (\<lambda>i. objects s p i = NULL) [n..<nat OPEN_MAX] of None \<Rightarrow> -1 | Some i \<Rightarrow> int i)"

definition sys_pipe :: "io_state \<Rightarrow> (int \<times> (int \<times> int) option \<times> io_state) outcome" where
  "sys_pipe s =
    (let current_process = get_current_process 0 (iks s) in
     and_then (te_at current_process s) (\<lambda>p.
     if p = NULL then Inr (-1, None, s)
     else if \<not> p_used (tes (iks s) p) \<or> p_magic (tes (iks s) p) \<noteq> 1234 then Inr (-1, None, s)
     else let slot1 = free_fd p 3 s; slot2 = free_fd p (nat (slot1 + 1)) s in
     if slot1 = -1 \<or> slot2 = -1 then Inr (-1, None, s)
     else pipe_create p current_process slot1 slot2 s))"

definition sys_read_pipe :: "int \<Rightarrow> addr \<Rightarrow> int \<Rightarrow> io_state \<Rightarrow> (int \<times> io_state) outcome" where
  "sys_read_pipe fd ubuf count s =
    (if fd < 0 \<or> OPEN_MAX \<le> fd then Inr (- EBADF, s)
     else if ubuf = NULL then Inr (- EINVAL, s)
     else if count \<le> 0 then Inr (-1, s)
     else and_then (get_file_from_fd fd s) (\<lambda>fp.
       if fp = NULL then Inr (- EBADF, s) else Inr (file_read_pipe_buffer fp ubuf count s)))"

definition sys_write_pipe :: "int \<Rightarrow> addr \<Rightarrow> int \<Rightarrow> io_state \<Rightarrow> (int \<times> io_state) outcome" where
  "sys_write_pipe fd ubuf count s =
    (if fd < 0 \<or> OPEN_MAX \<le> fd then Inr (- EBADF, s)
     else if ubuf = NULL then Inr (- EINVAL, s)
     else if count \<le> 0 then Inr (-1, s)
     else and_then (get_file_from_fd fd s) (\<lambda>fp.
       if fp = NULL then Inr (- EBADF, s) else Inr (file_write_pipe_buffer fp ubuf count s)))"

definition pipe_ioctl :: "int \<Rightarrow> u64 \<Rightarrow> u64 \<Rightarrow> int" where
  "pipe_ioctl fd request arg = (if fd < 0 \<or> OPEN_MAX \<le> fd then - EBADF else -1)"

definition sys_setup_stdin :: "int \<Rightarrow> io_state \<Rightarrow> bool \<times> io_state" where
  "sys_setup_stdin stdin_fd s =
    (if stdin_fd < 0 \<or> 32 \<le> stdin_fd then (False, s)
     else let current_process = get_current_process 0 (iks s) in
     if current_process < 0 \<or> int PROCESS_COUNT_MAX \<le> current_process then (False, s)
     else let p = teList (iks s) (nat current_process) in
     if p = NULL then (False, s)
     else if \<not> p_used (tes (iks s) p) then (False, s)
     else if p_magic (tes (iks s) p) \<noteq> 1234 then (False, s)
     else let f = objects s p (nat stdin_fd) in
     if f = NULL then (False, s)
     else if \<not> f_used (files s f) then (False, s)
     else if f_magic (files s f) \<noteq> 1234 then (False, s)
     else (True, upd_file f (\<lambda>x. (upd_sync (\<lambda>y. y\<lparr>sy_can_write := True\<rparr>) x)\<lparr>f_flags := f_flags x OR SWR\<rparr>) (s\<lparr>stdin_file := f\<rparr>)))"


section \<open>Reading and writing through a descriptor\<close>

text \<open>The calls into the network and the disk, and the address of the character buffer on the kernel stack.\<close>

record io_env =
  tcp_socket_recv :: "addr \<Rightarrow> addr \<Rightarrow> int \<Rightarrow> io_state \<Rightarrow> int \<times> io_state"
  tcp_socket_send :: "addr \<Rightarrow> addr \<Rightarrow> int \<Rightarrow> io_state \<Rightarrow> int \<times> io_state"
  ch_buffer :: addr

definition AF_INET :: int where "AF_INET = 2"
definition SS_CONNECTED :: int where "SS_CONNECTED = 4"

definition live_socket :: "addr \<Rightarrow> io_state \<Rightarrow> bool" where
  "live_socket sk s \<longleftrightarrow> sk \<noteq> NULL \<and> sk_magic (sockets s sk) = 1234 \<and> sk_family (sockets s sk) = AF_INET \<and>
     sk_state (sockets s sk) = SS_CONNECTED \<and>
     (sk_is_client_connecting_with_remote_server (sockets s sk) \<or> sk_is_remote_client_connecting_with_local_server (sockets s sk))"

definition io_yield :: "io_state \<Rightarrow> io_state" where
  "io_yield s = s\<lparr>iks := yield_thread (l_current_tid (lapic_info (iks s) 0)) (iks s)\<rparr>"

definition io_credits :: "io_state \<Rightarrow> io_state" where
  "io_credits s = s\<lparr>iks := do_credits_by_tid (l_current_tid (lapic_info (iks s) 0)) (iks s)\<rparr>"

definition read_socket :: "io_env \<Rightarrow> addr \<Rightarrow> addr \<Rightarrow> int \<Rightarrow> io_state \<Rightarrow> (int \<times> io_state) outcome" where
  "read_socket E fp ubuf count s0 =
    (let s = io_credits s0; x = files s fp in
     if live_socket (f_socket x) s
     then case tcp_socket_recv E (f_socket x) ubuf count s of (n, s1) \<Rightarrow> Inr (if n < 0 then -1 else n, s1)
     else if f_flags x AND SRD = 0 then Inr (-1, s)
     else if \<not> f_socket_buffer_full x
     then let s1 = upd_file fp (\<lambda>x. x\<lparr>f_flags := SWR\<rparr>) s in
       if sy_block_on_read_empty (f_sync x) then Inl (Panic ''__read_imp: [DEBUG] Couldn't read socket'')
       else Inr (-1, io_yield s1)
     else case file_read_buffer fp ubuf count s of (nbytes, s1) \<Rightarrow>
       if nbytes \<le> 0 then Inr (-1, s1)
       else Inr (nbytes, upd_file fp (\<lambda>x. x\<lparr>f_socket_buffer_full := False, f_flags := f_flags x AND NOT SRD OR SWR\<rparr>) s1))"

definition read_regular :: "addr \<Rightarrow> addr \<Rightarrow> int \<Rightarrow> io_state \<Rightarrow> int \<times> io_state" where
  "read_regular fp ubuf count s =
    (if f_flags (files s fp) AND SRD = 0 then (-1, s)
     else case file_read_buffer fp ubuf count s of (nbytes, s1) \<Rightarrow>
       if nbytes \<le> 0 then (-1, s1)
       else (nbytes, upd_file fp (\<lambda>x. (upd_sync (\<lambda>y. y\<lparr>sy_can_write := True\<rparr>) x)\<lparr>f_flags := f_flags x OR SWR\<rparr>) s1))"

definition read_tty_object :: "addr \<Rightarrow> addr \<Rightarrow> int \<Rightarrow> io_state \<Rightarrow> (int \<times> io_state) outcome" where
  "read_tty_object fp ubuf count s =
    (let tty = f_tty (files s fp) in
     if tty = NULL then Inr (-1, s)
     else if tt_subtype (ttys s tty) = TTY_SUBTYPE_PTY_MASTER then tty_read2 tty ubuf count s
     else if tt_subtype (ttys s tty) = TTY_SUBTYPE_PTY_SLAVE then tty_read_raw tty ubuf count s
     else Inr (0, s))"

text \<open>The devices behind a descriptor that is not one of the three standard ones.\<close>

definition read_object :: "io_env \<Rightarrow> int \<Rightarrow> addr \<Rightarrow> addr \<Rightarrow> int \<Rightarrow> io_state \<Rightarrow> (int \<times> io_state) outcome" where
  "read_object E fd fp ubuf count s =
    (case f_object (files s fp) of
       ObjectTypeSocket \<Rightarrow> read_socket E fp ubuf count s
     | ObjectTypeFile \<Rightarrow> Inr (read_regular fp ubuf count s)
     | ObjectTypePTMX \<Rightarrow> Inr (0, s)
     | ObjectTypeTTY \<Rightarrow> read_tty_object fp ubuf count s
     | ObjectTypeVirtualConsole \<Rightarrow>
         if fd = STDIN_FILENO \<or> fd = STDOUT_FILENO \<or> fd = STDERR_FILENO then Inr (-1, s)
         else if f_tty (files s fp) \<noteq> NULL then tty_read_raw (f_tty (files s fp)) ubuf count s
         else Inr (- EINVAL, s)
     | ObjectTypeFileSystem \<Rightarrow> Inr (0, s)
     | ObjectTypePipe \<Rightarrow> Inr (file_read_buffer fp ubuf count s)
     | _ \<Rightarrow> Inr (-1, s))"

definition read_standard :: "io_env \<Rightarrow> int \<Rightarrow> addr \<Rightarrow> addr \<Rightarrow> int \<Rightarrow> io_state \<Rightarrow> (int \<times> io_state) outcome" where
  "read_standard E fd fp ubuf count s =
    (let x = files s fp in
     if f_file x = STDIN_FILENO
     then if f_object x = ObjectTypeVirtualConsole
       then if f_tty x \<noteq> NULL then tty_read_raw (f_tty x) ubuf count s else Inr (-1, s)
       else read_object E fd fp ubuf count s
     else if f_file x = STDOUT_FILENO \<or> f_file x = STDERR_FILENO
     then if f_object x = ObjectTypeVirtualConsole then Inr (-1, s)
       else if f_object x = ObjectTypeFile \<or> f_object x = ObjectTypeTTY then read_object E fd fp ubuf count s
       else Inr (-1, s)
     else read_object E fd fp ubuf count s)"

definition read_imp :: "io_env \<Rightarrow> int \<Rightarrow> addr \<Rightarrow> int \<Rightarrow> io_state \<Rightarrow> (int \<times> io_state) outcome" where
  "read_imp E fd ubuf count s0 =
    (let current_process = get_current_process 0 (iks s0) in
     if current_process < 0 \<or> int PROCESS_COUNT_MAX \<le> current_process then Inr (-1, s0)
     else let p = teList (iks s0) (nat current_process) in
     if p = NULL then Inr (-1, s0)
     else if \<not> p_used (tes (iks s0) p) \<or> p_magic (tes (iks s0) p) \<noteq> 1234 then Inr (-1, s0)
     else let s = s0\<lparr>read_counter := (read_counter s0)(p := read_counter s0 p + 1)\<rparr> in
     if fd < 0 \<or> OPEN_MAX \<le> fd then Inr (- EBADF, s)
     else if ubuf = NULL then Inr (- EINVAL, s)
     else if count < 0 then Inr (- EINVAL, s)
     else if count = 0 then Inr (0, s)
     else and_then (get_file_from_fd fd s) (\<lambda>fp.
       if fp = NULL then Inr (-1, s)
       else if \<not> sy_can_read (f_sync (files s fp)) then Inr (-1, s)
       else read_standard E fd fp ubuf count s))"

definition write_socket :: "io_env \<Rightarrow> addr \<Rightarrow> addr \<Rightarrow> int \<Rightarrow> io_state \<Rightarrow> (int \<times> io_state) outcome" where
  "write_socket E fp ubuf count s0 =
    (let s = io_credits s0; x = files s fp in
     if live_socket (f_socket x) s then Inr (tcp_socket_send E (f_socket x) ubuf count s)
     else if f_flags x AND SWR = 0 then Inr (-1, s)
     else if f_socket_buffer_full x then Inr (-1, io_yield (upd_file fp (\<lambda>x. x\<lparr>f_flags := SRD\<rparr>) s))
     else case file_write_buffer fp ubuf count (upd_file fp (\<lambda>x. x\<lparr>f_flags := 0\<rparr>) s) of (nbytes, s1) \<Rightarrow>
       if nbytes \<le> 0 then Inr (-1, io_yield s1)
       else Inr (nbytes, upd_file fp (\<lambda>x. x\<lparr>f_socket_buffer_full := True, f_flags := f_flags x AND NOT SWR OR SRD\<rparr>) s1))"

definition write_regular :: "addr \<Rightarrow> addr \<Rightarrow> int \<Rightarrow> io_state \<Rightarrow> int \<times> io_state" where
  "write_regular fp ubuf count s =
    (if f_flags (files s fp) AND SWR = 0 then (0, s)
     else case file_write_buffer fp ubuf count s of (nbytes, s1) \<Rightarrow>
       if 0 < nbytes then (nbytes, upd_file fp (\<lambda>x. (upd_sync (\<lambda>y. y\<lparr>sy_can_read := True\<rparr>) x)\<lparr>f_flags := SRD\<rparr>) s1)
       else (0, s1))"

definition write_tty_object :: "addr \<Rightarrow> addr \<Rightarrow> int \<Rightarrow> io_state \<Rightarrow> (int \<times> io_state) outcome" where
  "write_tty_object fp ubuf count s =
    (let tty = f_tty (files s fp) in
     if tty = NULL then Inr (-1, s)
     else let link = tt_link (ttys s tty) in
     if tt_subtype (ttys s tty) = TTY_SUBTYPE_PTY_MASTER
     then if link = NULL then Inr (-1, s) else tty_write_raw link ubuf count s
     else if tt_subtype (ttys s tty) = TTY_SUBTYPE_PTY_SLAVE
     then if link = NULL then Inr (-1, s) else tty_write2 link ubuf count s
     else Inr (0, s))"

text \<open>Output for a console: queue the characters and send the queue to the console in the foreground.\<close>

definition write_console :: "io_env \<Rightarrow> addr \<Rightarrow> addr \<Rightarrow> int \<Rightarrow> io_state \<Rightarrow> (int \<times> io_state) outcome" where
  "write_console E tty ubuf count s =
    and_then (tty_write2 tty ubuf count s) (\<lambda>(nbytes, s1).
      and_then (tty_flush_output_queue_ex (ch_buffer E) tty
         (upd_tty tty (\<lambda>t. t\<lparr>output_worker_number := TTY_OUTPUT_WORKER_FGCONSOLE\<rparr>) s1)) (\<lambda>s2. Inr (nbytes, s2)))"

definition write_object :: "io_env \<Rightarrow> int \<Rightarrow> addr \<Rightarrow> addr \<Rightarrow> int \<Rightarrow> io_state \<Rightarrow> (int \<times> io_state) outcome" where
  "write_object E fd fp ubuf count s =
    (case f_object (files s fp) of
       ObjectTypeNIC \<Rightarrow> Inr (0, s)
     | ObjectTypeSocket \<Rightarrow> write_socket E fp ubuf count s
     | ObjectTypeFile \<Rightarrow> Inr (write_regular fp ubuf count s)
     | ObjectTypePTMX \<Rightarrow> Inr (0, s)
     | ObjectTypeTTY \<Rightarrow> write_tty_object fp ubuf count s
     | ObjectTypeVirtualConsole \<Rightarrow>
         if fd = STDIN_FILENO \<or> fd = STDOUT_FILENO \<or> fd = STDERR_FILENO then Inr (-1, s)
         else if f_tty (files s fp) \<noteq> NULL then write_console E (f_tty (files s fp)) ubuf count s
         else Inr (- EINVAL, s)
     | ObjectTypeFileSystem \<Rightarrow> Inr (0, s)
     | ObjectTypePipe \<Rightarrow> Inr (file_write_buffer fp ubuf count s)
     | _ \<Rightarrow> Inr (-1, s))"

definition write_standard :: "io_env \<Rightarrow> int \<Rightarrow> addr \<Rightarrow> addr \<Rightarrow> int \<Rightarrow> io_state \<Rightarrow> (int \<times> io_state) outcome" where
  "write_standard E fd fp ubuf count s =
    (let x = files s fp in
     if f_file x = STDIN_FILENO \<or> f_file x = STDOUT_FILENO \<or> f_file x = STDERR_FILENO
     then if f_object x = ObjectTypeVirtualConsole
       then if f_tty x = NULL then Inr (-1, s)
         else if f_file x = STDIN_FILENO then tty_write_raw (f_tty x) ubuf count s
         else write_console E (f_tty x) ubuf count s
       else if f_object x = ObjectTypeFile \<or> f_object x = ObjectTypeTTY then write_object E fd fp ubuf count s
       else Inr (-1, s)
     else write_object E fd fp ubuf count s)"

definition write_imp :: "io_env \<Rightarrow> int \<Rightarrow> addr \<Rightarrow> int \<Rightarrow> io_state \<Rightarrow> (int \<times> io_state) outcome" where
  "write_imp E fd ubuf count s0 =
    (let current_process = get_current_process 0 (iks s0) in
     if current_process < 0 \<or> int PROCESS_COUNT_MAX \<le> current_process then Inr (-1, s0)
     else let p = teList (iks s0) (nat current_process) in
     if p = NULL then Inr (-1, s0)
     else if \<not> p_used (tes (iks s0) p) \<or> p_magic (tes (iks s0) p) \<noteq> 1234 then Inr (-1, s0)
     else let s = s0\<lparr>write_counter := (write_counter s0)(p := write_counter s0 p + 1)\<rparr> in
     if fd < 0 \<or> OPEN_MAX \<le> fd then Inr (- EBADF, s)
     else if ubuf = NULL then Inr (- EINVAL, s)
     else if count < 0 then Inr (- EINVAL, s)
     else if count = 0 then Inr (0, s)
     else and_then (get_file_from_fd fd s) (\<lambda>fp.
       if fp = NULL then Inr (-1, s)
       else if \<not> sy_can_write (f_sync (files s fp)) then Inr (-1, s)
       else write_standard E fd fp ubuf count s))"

section \<open>Closing\<close>

definition CONN_STATUS_CLOSED :: int where "CONN_STATUS_CLOSED = 0"
definition SS_CLOSED :: int where "SS_CLOSED = 6"

text \<open>Whatever state the connection is in, it and the socket end up closed.\<close>

definition socket_close :: "addr \<Rightarrow> io_state \<Rightarrow> int \<times> io_state" where
  "socket_close sk s =
    (if sk = NULL then (- EINVAL, s)
     else if sk_magic (sockets s sk) \<noteq> 1234 then (- EINVAL, s)
     else let conn = sk_conn (sockets s sk) in
     if conn = NULL then (- ENOTCONN, s)
     else if cn_magic (connections s conn) \<noteq> 1234 then (- ENOTCONN, s)
     else (0, s\<lparr>connections := (connections s)(conn := (connections s conn)\<lparr>cn_status := CONN_STATUS_CLOSED\<rparr>),
               sockets := (sockets s)(sk := (sockets s sk)\<lparr>sk_state := SS_CLOSED\<rparr>)\<rparr>))"

definition close_imp :: "int \<Rightarrow> io_state \<Rightarrow> (int \<times> io_state) outcome" where
  "close_imp fd s =
    (if fd < 0 \<or> OPEN_MAX \<le> fd then Inr (- EBADF, s)
     else if fd = 0 \<or> fd = 1 \<or> fd = 2 then Inr (- EBADF, s)
     else let current_process = get_current_process 0 (iks s) in
     if current_process < 0 \<or> int PROCESS_COUNT_MAX \<le> current_process then Inr (-1, s)
     else let p = teList (iks s) (nat current_process) in
     if p = NULL then Inr (-1, s)
     else if \<not> p_used (tes (iks s) p) \<or> p_magic (tes (iks s) p) \<noteq> 1234 then Inr (-1, s)
     else let fp = objects s p (nat fd) in
     if fp = NULL then Inr (-1, s)
     else if \<not> f_used (files s fp) \<or> f_magic (files s fp) \<noteq> 1234 then Inr (-1, s)
     else case f_object (files s fp) of
       ObjectTypeSocket \<Rightarrow> Inr (if f_socket (files s fp) = NULL then (-1, s) else (0, snd (socket_close (f_socket (files s fp)) s)))
     | ObjectTypePipe \<Rightarrow> Inr (0, set_object p fd NULL s)
     | ObjectTypeVirtualConsole \<Rightarrow> Inr (0, s)
     | ObjectTypeTTY \<Rightarrow> Inr (0, set_object p fd NULL s)
     | ObjectTypeFile \<Rightarrow>
         let s1 = (if f_lbfsize (files s fp) < 512 then upd_file fp (\<lambda>x. x\<lparr>f_lbfsize := 512\<rparr>) s else s); x = files s1 fp in
         and_then (fat16SaveFile VOLUME1_FAT_ADDRESS VOLUME1_ROOTDIR_ADDRESS (int FAT16_ROOT_ENTRIES) (f_tmpfname x)
             (word_of_int (f_lbfsize x div 512)) (word_of_int (f_lbfsize x)) (f_base x) 0x20 s1)
           (\<lambda>(_, s2). Inr (0, set_object p fd NULL s2))
     | _ \<Rightarrow> Inr (-1, s))"

section \<open>Terminals through a descriptor\<close>

definition tty_of_fd :: "int \<Rightarrow> io_state \<Rightarrow> addr" where
  "tty_of_fd fd s =
    (let current_process = get_current_process 0 (iks s) in
     if current_process < 0 \<or> int PROCESS_COUNT_MAX \<le> current_process then NULL
     else let p = teList (iks s) (nat current_process) in
     if p = NULL then NULL
     else if p_magic (tes (iks s) p) \<noteq> 1234 then NULL
     else let f = objects s p (nat fd) in
     if f = NULL then NULL
     else if f_magic (files s f) \<noteq> 1234 then NULL
     else if f_object (files s f) \<noteq> ObjectTypeTTY then NULL
     else f_tty (files s f))"

definition tty_read :: "int \<Rightarrow> addr \<Rightarrow> int \<Rightarrow> io_state \<Rightarrow> (int \<times> io_state) outcome" where
  "tty_read fd buffer n s =
    (if fd < 0 \<or> 31 < fd then Inr (- EBADF, s)
     else if buffer = NULL then Inr (- EINVAL, s)
     else if n \<le> 0 then Inr (- EINVAL, s)
     else if tty_of_fd fd s = NULL then Inr (-1, s)
     else tty_read2 (tty_of_fd fd s) buffer n s)"

definition sys_tty_read :: "int \<Rightarrow> addr \<Rightarrow> int \<Rightarrow> io_state \<Rightarrow> (int \<times> io_state) outcome" where
  "sys_tty_read fd buffer n s =
    (if fd < 0 \<or> 31 < fd then Inr (- EBADF, s)
     else if buffer = NULL then Inr (- EINVAL, s)
     else if n \<le> 0 then Inr (- EINVAL, s)
     else tty_read fd buffer n s)"

definition tty_write :: "int \<Rightarrow> addr \<Rightarrow> int \<Rightarrow> io_state \<Rightarrow> (int \<times> io_state) outcome" where
  "tty_write fd buffer n s =
    (if fd < 0 \<or> 31 < fd then Inr (- EBADF, s)
     else if buffer = NULL then Inr (- EINVAL, s)
     else if n \<le> 0 then Inr (- EINVAL, s)
     else if tty_of_fd fd s = NULL then Inr (-1, s)
     else tty_write2 (tty_of_fd fd s) buffer n s)"

definition sys_tty_write :: "int \<Rightarrow> addr \<Rightarrow> int \<Rightarrow> io_state \<Rightarrow> (int \<times> io_state) outcome" where
  "sys_tty_write fd buffer n s =
    (if fd < 0 \<or> 31 < fd then Inr (- EBADF, s)
     else if buffer = NULL then Inr (- EINVAL, s)
     else if n \<le> 0 then Inr (- EINVAL, s)
     else tty_write fd buffer n s)"

definition TCGETS :: u64 where "TCGETS = 0x5401"
definition TCSETS :: u64 where "TCSETS = 0x5402"
definition TCGETA :: u64 where "TCGETA = 0x5405"
definition TCSETA :: u64 where "TCSETA = 0x5406"
definition TCFLSH :: u64 where "TCFLSH = 0x540B"
definition TCIFLUSH :: u64 where "TCIFLUSH = 1"
definition TCOFLUSH :: u64 where "TCOFLUSH = 2"
definition TCIOFLUSH :: u64 where "TCIOFLUSH = 3"
definition TIOCCONS :: u64 where "TIOCCONS = 0x541D"
definition KDSETMODE :: u64 where "KDSETMODE = 8000"
definition KD_TEXT :: u64 where "KD_TEXT = 1000"
definition KD_GRAPHICS :: u64 where "KD_GRAPHICS = 2000"
definition TTY_TYPE_CONSOLE :: int where "TTY_TYPE_CONSOLE = 1000"
definition TTY_SESSION_TYPE_GUI :: int where "TTY_SESSION_TYPE_GUI = 2000"
definition EBUSY :: int where "EBUSY = 16"
definition ENOTTY :: int where "ENOTTY = 25"

definition is_superuser :: "io_state \<Rightarrow> bool" where
  "is_superuser s \<longleftrightarrow> current_user s = 0"

text \<open>Redirecting the console. The other end of a pair counts as linked when its magic number is right, and as an end of a
  pair when its type is; the code reads both through the null pointer when there is no other end.\<close>

definition ioctl_tioccons :: "addr \<Rightarrow> addr \<Rightarrow> bool \<Rightarrow> io_state \<Rightarrow> int \<times> io_state" where
  "ioctl_tioccons tty other_tty is_linked s =
    (if \<not> is_superuser s then (- EPERM, s)
     else if tt_type (ttys s tty) = TTY_TYPE_CONSOLE then (0, s\<lparr>redirect := NULL\<rparr>)
     else if redirect s \<noteq> NULL then (- EBUSY, s)
     else if tt_subtype (ttys s tty) = TTY_SUBTYPE_PTY_MASTER
     then if is_linked then (0, s\<lparr>redirect := other_tty\<rparr>) else (-1, s\<lparr>redirect := NULL\<rparr>)
     else if tt_subtype (ttys s tty) = TTY_SUBTYPE_PTY_SLAVE then (0, s\<lparr>redirect := tty\<rparr>)
     else (- ENOTTY, s))"

definition tty_ioctl :: "int \<Rightarrow> u64 \<Rightarrow> u64 \<Rightarrow> io_state \<Rightarrow> int \<times> io_state" where
  "tty_ioctl fd request arg s =
    (if fd < 0 \<or> OPEN_MAX \<le> fd then (- EBADF, s)
     else let current_process = get_current_process 0 (iks s) in
     if current_process < 0 \<or> int PROCESS_COUNT_MAX \<le> current_process then (-1, s)
     else let p = teList (iks s) (nat current_process) in
     if p = NULL then (-1, s)
     else if p_magic (tes (iks s) p) \<noteq> 1234 then (-1, s)
     else let f = objects s p (nat fd) in
     if f = NULL then (-1, s)
     else if f_magic (files s f) \<noteq> 1234 then (-1, s)
     else if f_object (files s f) \<noteq> ObjectTypeTTY then (- EINVAL, s)
     else let tty = f_tty (files s f) in
     if tty = NULL then (- EINVAL, s)
     else if tt_magic (ttys s tty) \<noteq> 1234 then (- EINVAL, s)
     else let link = tt_link (ttys s tty);
              other1 = (if tt_magic (ttys s link) \<noteq> 1234 then NULL else link);
              is_linked = (tt_magic (ttys s other1) = 1234);
              other_tty = (if tt_type (ttys s other1) \<noteq> TTY_TYPE_PTY then NULL else other1) in
     if request = TCGETS then if arg = NULL then (- EINVAL, s) else tty_gets tty arg s
     else if request = TCSETS then if arg = NULL then (- EINVAL, s) else tty_sets tty TCSANOW arg s
     else if request \<in> {TCFLSH, TCIFLUSH, TCOFLUSH, TCIOFLUSH, TCGETA, TCSETA, 800, 900} then (-1, s)
     else if request = TIOCCONS then ioctl_tioccons tty other_tty is_linked s
     else if request = KDSETMODE
     then (0, if arg = KD_TEXT then upd_tty tty (\<lambda>t. t\<lparr>tt_session_type := TTY_SESSION_TYPE_CONSOLE\<rparr>) s
              else if arg = KD_GRAPHICS then upd_tty tty (\<lambda>t. t\<lparr>tt_session_type := TTY_SESSION_TYPE_GUI\<rparr>) s else s)
     else (- EINVAL, s))"

definition FIONREAD :: u64 where "FIONREAD = 0x541B"
definition FIONBIO :: u64 where "FIONBIO = 0x5421"
definition FIOQSIZE :: u64 where "FIOQSIZE = 0x5460"

definition regularfile_ioctl :: "int \<Rightarrow> u64 \<Rightarrow> u64 \<Rightarrow> io_state \<Rightarrow> (int \<times> io_state) outcome" where
  "regularfile_ioctl fd request arg s =
    (if fd < 0 \<or> OPEN_MAX \<le> fd then Inr (- EBADF, s)
     else and_then (te_at (get_current_process 0 (iks s)) s) (\<lambda>p.
     if p = NULL then Inr (- EINVAL, s)
     else if p_magic (tes (iks s) p) \<noteq> 1234 then Inr (- EINVAL, s)
     else let fp = objects s p (nat fd) in
     if fp = NULL then Inr (- EINVAL, s)
     else let x = files s fp in
     if f_magic x \<noteq> 1234 then Inr (- EINVAL, s)
     else if f_object x \<noteq> ObjectTypeFile then Inr (- ENOTTY, s)
     else if request = FIONREAD then Inr (if f_fsize x - f_r x < 0 then 0 else f_fsize x - f_r x, s)
     else if request = FIONBIO then Inr (0, s)
     else if request = FIOQSIZE then Inr (f_fsize x, s)
     else if request = 4000 then Inr (0, upd_file fp (upd_sync (\<lambda>y. y\<lparr>sy_sender_pid := int_of_long (uint arg)\<rparr>)) s)
     else if request = 4001 then Inr (sy_sender_pid (f_sync x), s)
     else if request = 4002 then Inr (if sy_can_read (f_sync x) then 1 else 0, s)
     else if request = 4003 then Inr (if sy_can_write (f_sync x) then 1 else 0, s)
     else if request = 4004 then Inr (if sy_can_execute (f_sync x) then 1 else 0, s)
     else Inr (- EINVAL, s)))"

end
