(* ===== verification/Files.thy ===== *)
theory Files
  imports Descriptors
begin

text \<open>
  What the calls on descriptors promise: a pipe is a bounded stream of bytes for any sequence of reads and writes through
  its descriptors, the buffer of a regular file is an append-only log with a reading position, and duplicating
  descriptors keeps the counts of the files.
\<close>

section \<open>Pipes through descriptors\<close>

definition current_te :: "io_state \<Rightarrow> addr" where
  "current_te s = teList (iks s) (nat (get_current_process 0 (iks s)))"

definition process_ok :: "io_state \<Rightarrow> bool" where
  "process_ok s \<longleftrightarrow> 0 \<le> get_current_process 0 (iks s) \<and> get_current_process 0 (iks s) < int PROCESS_COUNT_MAX \<and>
     current_te s \<noteq> NULL \<and> p_used (tes (iks s) (current_te s)) \<and> p_magic (tes (iks s) (current_te s)) = 1234"

definition fd_file :: "int \<Rightarrow> io_state \<Rightarrow> addr" where
  "fd_file fd s = objects s (current_te s) (nat fd)"

text \<open>Descriptor \<open>fd\<close> is an end of the pipe \<open>P\<close>, and the bytes \<open>xs\<close> wait in it.\<close>

definition pipe_fd :: "int \<Rightarrow> addr \<Rightarrow> io_state \<Rightarrow> bool" where
  "pipe_fd fd P s \<longleftrightarrow> 0 \<le> fd \<and> fd < OPEN_MAX \<and> process_ok s \<and> pipe_end (fd_file fd s) s \<and>
     f_pipe_info (files s (fd_file fd s)) = P \<and> f_lbfsize (files s (fd_file fd s)) = BUFSIZ \<and> 2 < f_file (files s (fd_file fd s)) \<and>
     sy_can_read (f_sync (files s (fd_file fd s))) \<and> sy_can_write (f_sync (files s (fd_file fd s)))"

definition stream :: "addr \<Rightarrow> io_state \<Rightarrow> u8 list \<Rightarrow> bool" where
  "stream P s xs \<longleftrightarrow> pipe_holds (pipe_infos s P) (bytes s) xs \<and> pi_buffer_size (pipe_infos s P) = BUFSIZ"

definition ring_bytes :: "addr \<Rightarrow> io_state \<Rightarrow> addr set" where
  "ring_bytes P s = ring_area (pipe_infos s P)"

lemma same_ends_pipe_fd:
  assumes e: "same_ends s s'" and fd: "pipe_fd fd P s"
  shows "pipe_fd fd P s'"
proof -
  have k: "process_ok s' = process_ok s" "fd_file fd s' = fd_file fd s"
    using e by (simp_all add: same_ends_def process_ok_def fd_file_def current_te_def)
  show ?thesis using e fd unfolding pipe_fd_def k same_ends_end [OF e] by (simp add: same_ends_def)
qed

lemma get_file_from_fd_ok:
  "process_ok s \<Longrightarrow> 0 \<le> fd \<Longrightarrow> fd < OPEN_MAX \<Longrightarrow> get_file_from_fd fd s = Inr (fd_file fd s)"
  by (simp add: get_file_from_fd_def process_ok_def current_te_def fd_file_def Let_def io_consts)

text \<open>Counting the call changes nothing else.\<close>

lemma counted:
  "pipe_fd fd P (s\<lparr>write_counter := c\<rparr>) = pipe_fd fd P s" "pipe_fd fd P (s\<lparr>read_counter := d\<rparr>) = pipe_fd fd P s"
  "stream P (s\<lparr>write_counter := c\<rparr>) xs = stream P s xs" "stream P (s\<lparr>read_counter := d\<rparr>) xs = stream P s xs"
  "fd_file fd (s\<lparr>write_counter := c\<rparr>) = fd_file fd s" "fd_file fd (s\<lparr>read_counter := d\<rparr>) = fd_file fd s"
  "process_ok (s\<lparr>write_counter := c\<rparr>) = process_ok s" "process_ok (s\<lparr>read_counter := d\<rparr>) = process_ok s"
  "pipe_end f (s\<lparr>write_counter := c\<rparr>) = pipe_end f s" "pipe_end f (s\<lparr>read_counter := d\<rparr>) = pipe_end f s"
  "ring_of f (s\<lparr>write_counter := c\<rparr>) = ring_of f s" "ring_of f (s\<lparr>read_counter := d\<rparr>) = ring_of f s"
  by (simp_all add: pipe_fd_def stream_def fd_file_def process_ok_def current_te_def pipe_end_def ring_of_def)

text \<open>The two calls end in the operations on the pipe.\<close>

lemma write_imp_pipe:
  assumes fd: "pipe_fd fd P s" and b: "buf \<noteq> NULL" "0 < n" "n < BUFSIZ"
  shows "\<exists>c. write_imp E fd buf n s = Inr (file_write_pipe_buffer (fd_file fd s) buf n (s\<lparr>write_counter := c\<rparr>))"
proof -
  have p: "process_ok s" "0 \<le> fd" "fd < OPEN_MAX" using fd by (simp_all add: pipe_fd_def)
  let ?p = "current_te s"
  let ?s = "s\<lparr>write_counter := (write_counter s)(?p := write_counter s ?p + 1)\<rparr>"
  have g: "get_file_from_fd fd ?s = Inr (fd_file fd s)" using get_file_from_fd_ok [of ?s fd] p by (simp add: counted)
  have "write_standard E fd (fd_file fd s) buf n ?s = Inr (file_write_pipe_buffer (fd_file fd s) buf n ?s)"
    using fd b by (simp add: write_standard_def write_object_def file_write_buffer_def pipe_fd_def pipe_end_def Let_def io_consts)
  then have "write_imp E fd buf n s = Inr (file_write_pipe_buffer (fd_file fd s) buf n ?s)"
    using p g b fd by (simp add: write_imp_def process_ok_def current_te_def pipe_fd_def pipe_end_def Let_def)
  then show ?thesis by blast
qed

lemma read_imp_pipe:
  assumes fd: "pipe_fd fd P s" and b: "buf \<noteq> NULL" "0 < n" "n mod 0x10000 = k" "0 < k"
  shows "\<exists>c. read_imp E fd buf n s = Inr (file_read_pipe_buffer (fd_file fd s) buf (min k BUFSIZ) (s\<lparr>read_counter := c\<rparr>))"
proof -
  have p: "process_ok s" "0 \<le> fd" "fd < OPEN_MAX" using fd by (simp_all add: pipe_fd_def)
  let ?p = "current_te s"
  let ?s = "s\<lparr>read_counter := (read_counter s)(?p := read_counter s ?p + 1)\<rparr>"
  have g: "get_file_from_fd fd ?s = Inr (fd_file fd s)" using get_file_from_fd_ok [of ?s fd] p by (simp add: counted)
  have m: "(if BUFSIZ < k then BUFSIZ else k) = min k BUFSIZ" by simp
  have "read_standard E fd (fd_file fd s) buf n ?s = Inr (file_read_pipe_buffer (fd_file fd s) buf (min k BUFSIZ) ?s)"
    using fd b unfolding m [symmetric] by (simp add: read_standard_def read_object_def file_read_buffer_def pipe_fd_def pipe_end_def Let_def io_consts)
  then have "read_imp E fd buf n s = Inr (file_read_pipe_buffer (fd_file fd s) buf (min k BUFSIZ) ?s)"
    using p g b fd by (simp add: read_imp_def process_ok_def current_te_def pipe_fd_def pipe_end_def Let_def)
  then show ?thesis by blast
qed

text \<open>The bytes of a request that count. A write of 1024 bytes or more is refused, so none of it counts; the size of a read
  is taken modulo 65536.\<close>

definition offered :: "u8 list \<Rightarrow> u8 list" where
  "offered data = (if length data < 1024 then data else [])"

definition asked :: "nat \<Rightarrow> nat" where
  "asked n = n mod 65536"

text \<open>One call: how many bytes move, which, and what is left; no end of a pipe is lost and memory outside the ring,
  or the reader's buffer, is not touched.\<close>

lemma write_imp_stream:
  assumes fd: "pipe_fd fd P s" and h: "stream P s xs" and b: "buf \<noteq> NULL" "0 < n" "n < 1024"
    and d: "area buf n \<inter> ring_bytes P s = {}"
  shows "\<exists>s'. write_imp E fd buf (int n) s = Inr (int (min n (1024 - length xs)), s') \<and> same_ends s s' \<and>
    stream P s' (xs @ take (1024 - length xs) (read_bytes (bytes s) buf n)) \<and> ring_bytes P s' = ring_bytes P s \<and>
    (\<forall>a. a \<notin> ring_bytes P s \<longrightarrow> bytes s' a = bytes s a)"
proof -
  let ?f = "fd_file fd s"
  have nb: "0 < int n" "int n < BUFSIZ" "nat (int n) = n" using b by (simp_all add: io_consts)
  obtain c where c: "write_imp E fd buf (int n) s = Inr (file_write_pipe_buffer ?f buf (int n) (s\<lparr>write_counter := c\<rparr>))"
    using write_imp_pipe [OF fd b(1) nb(1,2)] by blast
  let ?s = "s\<lparr>write_counter := c\<rparr>"
  have P: "f_pipe_info (files s ?f) = P" using fd by (simp add: pipe_fd_def)
  have ring: "ring_of ?f s = pipe_infos s P" "ring_area (ring_of ?f ?s) = ring_bytes P s"
    by (simp_all add: ring_of_def ring_bytes_def P)
  have w: "waiting ?f ?s xs" and sz: "pi_buffer_size (ring_of ?f ?s) = BUFSIZ" "nat (pi_buffer_size (ring_of ?f ?s)) = 1024"
    using h fd by (simp_all add: waiting_def counted ring(1) stream_def pipe_fd_def io_consts)
  obtain k s' where r: "k = min n (1024 - length xs)" "file_write_pipe_buffer ?f buf (int n) ?s = (int k, s')"
    "waiting ?f s' (xs @ take k (read_bytes (bytes s) buf n))" "ring_area (ring_of ?f s') = ring_bytes P s"
    "\<forall>a. a \<notin> ring_bytes P s \<longrightarrow> bytes s' a = bytes s a" "same_ends ?s s'"
    using file_write_pipe_result [OF w b(1) nb(1)] d unfolding sz(2) nb(3) ring(2) by auto
  have e: "same_ends s s'" using r(6) by (simp add: same_ends_def)
  have fd': "pipe_fd fd P s'" by (rule same_ends_pipe_fd [OF e fd])
  have f: "fd_file fd s' = ?f" using e by (simp add: same_ends_def fd_file_def current_te_def)
  have P': "ring_of ?f s' = pipe_infos s' P" using fd' unfolding pipe_fd_def f by (simp add: ring_of_def)
  have base: "pi_buffer_size (pipe_infos s' P) = BUFSIZ"
    using file_write_pipe_size [of ?f buf "int n" ?s _ _ P] r(2) h by (simp add: stream_def)
  have "take k (read_bytes (bytes s) buf n) = take (1024 - length xs) (read_bytes (bytes s) buf n)" by (simp add: r(1) min_def)
  then have "stream P s' (xs @ take (1024 - length xs) (read_bytes (bytes s) buf n))"
    using r(3) base unfolding waiting_def P' stream_def by simp
  moreover have "ring_bytes P s' = ring_bytes P s" unfolding ring_bytes_def [of P s'] P' [symmetric] by (rule r(4))
  ultimately show ?thesis using c e r by auto
qed

lemma read_imp_stream:
  assumes fd: "pipe_fd fd P s" and h: "stream P s xs" and b: "buf \<noteq> NULL" "asked N = n" "0 < n"
    and d: "area buf n \<inter> ring_bytes P s = {}"
  shows "\<exists>s'. read_imp E fd buf (int N) s = Inr (int (min n (length xs)), s') \<and> same_ends s s' \<and>
    stream P s' (drop n xs) \<and> ring_bytes P s' = ring_bytes P s \<and>
    read_bytes (bytes s') buf (min n (length xs)) = take n xs \<and> (\<forall>a. a \<notin> area buf n \<longrightarrow> bytes s' a = bytes s a)"
proof -
  let ?f = "fd_file fd s"
  let ?n = "min n 1024"
  have len: "length xs \<le> 1024" using h by (simp add: stream_def pipe_holds_def io_consts)
  then have mn: "min ?n (length xs) = min n (length xs)" "drop ?n xs = drop n xs" "take ?n xs = take n xs" by (auto simp: min_def)
  have nb: "0 < int ?n" "int ?n < 2 ^ 31" "nat (int ?n) = ?n" "0 < int N" "int N mod 0x10000 = int n" "0 < int n" "min (int n) BUFSIZ = int ?n"
    using b by (auto simp: io_consts asked_def zmod_int intro: ccontr)
  have d': "area buf ?n \<inter> ring_bytes P s = {}" using d area_mono [of ?n n buf] by auto
  obtain c where c: "read_imp E fd buf (int N) s = Inr (file_read_pipe_buffer ?f buf (int ?n) (s\<lparr>read_counter := c\<rparr>))"
    using read_imp_pipe [OF fd b(1) nb(4,5,6), of E] unfolding nb(7) by blast
  let ?s = "s\<lparr>read_counter := c\<rparr>"
  have P: "f_pipe_info (files s ?f) = P" using fd by (simp add: pipe_fd_def)
  have ring: "ring_of ?f s = pipe_infos s P" "ring_area (ring_of ?f ?s) = ring_bytes P s"
    by (simp_all add: ring_of_def ring_bytes_def P)
  have w: "waiting ?f ?s xs"
    using h fd by (simp add: waiting_def counted ring(1) stream_def pipe_fd_def)
  obtain s' where r: "file_read_pipe_buffer ?f buf (int ?n) ?s = (int (min n (length xs)), s')"
    "waiting ?f s' (drop n xs)" "ring_area (ring_of ?f s') = ring_bytes P s"
    "read_bytes (bytes s') buf (min n (length xs)) = take n xs" "\<forall>a. a \<notin> area buf ?n \<longrightarrow> bytes s' a = bytes s a" "same_ends ?s s'"
    using file_read_pipe_result [OF w b(1) nb(1,2)] d' unfolding nb(3) ring(2) mn by auto
  have out: "\<forall>a. a \<notin> area buf n \<longrightarrow> bytes s' a = bytes s a" using r(5) area_mono [of ?n n buf] by auto
  have e: "same_ends s s'" using r(6) by (simp add: same_ends_def)
  have fd': "pipe_fd fd P s'" by (rule same_ends_pipe_fd [OF e fd])
  have f: "fd_file fd s' = ?f" using e by (simp add: same_ends_def fd_file_def current_te_def)
  have P': "ring_of ?f s' = pipe_infos s' P" using fd' unfolding pipe_fd_def f by (simp add: ring_of_def)
  have base: "pi_buffer_size (pipe_infos s' P) = BUFSIZ"
    using file_read_pipe_size [of ?f buf "int ?n" ?s _ _ P] r(1) h by (simp add: stream_def)
  have "stream P s' (drop n xs)" using r(2) base unfolding waiting_def P' stream_def by simp
  moreover have "ring_bytes P s' = ring_bytes P s" unfolding ring_bytes_def [of P s'] P' [symmetric] by (rule r(3))
  ultimately show ?thesis using c e r(1,4) out by auto
qed

text \<open>The other sizes. A write of nothing writes nothing; the buffer layer refuses a write of \<^verbatim>\<open>BUFSIZ\<close>
  bytes or more; and a read takes its size modulo 65536, of which at most \<^verbatim>\<open>BUFSIZ\<close> count.\<close>

lemma write_imp_refused:
  assumes fd: "pipe_fd fd P s" and b: "buf \<noteq> NULL" "n = 0 \<or> 1024 \<le> n"
  shows "\<exists>c. write_imp E fd buf (int n) s = Inr (if n = 0 then 0 else -1, s\<lparr>write_counter := c\<rparr>)"
proof -
  have p: "process_ok s" "0 \<le> fd" "fd < OPEN_MAX" using fd by (simp_all add: pipe_fd_def)
  let ?p = "current_te s"
  let ?s = "s\<lparr>write_counter := (write_counter s)(?p := write_counter s ?p + 1)\<rparr>"
  have g: "get_file_from_fd fd ?s = Inr (fd_file fd s)" using get_file_from_fd_ok [of ?s fd] p by (simp add: counted)
  have "write_standard E fd (fd_file fd s) buf (int n) ?s = Inr (-1, ?s)" if "1024 \<le> n"
    using fd b that by (simp add: write_standard_def write_object_def file_write_buffer_def pipe_fd_def pipe_end_def Let_def io_consts)
  then have "write_imp E fd buf (int n) s = Inr (if n = 0 then 0 else -1, ?s)"
    using p g b fd by (cases "n = 0") (simp_all add: write_imp_def process_ok_def current_te_def pipe_fd_def pipe_end_def Let_def)
  then show ?thesis by blast
qed

lemma read_imp_refused:
  assumes fd: "pipe_fd fd P s" and b: "buf \<noteq> NULL" "asked n = 0"
  shows "\<exists>c. read_imp E fd buf (int n) s = Inr (if n = 0 then 0 else -1, s\<lparr>read_counter := c\<rparr>)"
proof -
  have p: "process_ok s" "0 \<le> fd" "fd < OPEN_MAX" using fd by (simp_all add: pipe_fd_def)
  let ?p = "current_te s"
  let ?s = "s\<lparr>read_counter := (read_counter s)(?p := read_counter s ?p + 1)\<rparr>"
  have g: "get_file_from_fd fd ?s = Inr (fd_file fd s)" using get_file_from_fd_ok [of ?s fd] p by (simp add: counted)
  have m: "int n mod 0x10000 = 0"
    using b(2) unfolding asked_def by presburger
  have "read_standard E fd (fd_file fd s) buf (int n) ?s = Inr (-1, ?s)"
    using fd b m by (simp add: read_standard_def read_object_def file_read_buffer_def pipe_fd_def pipe_end_def Let_def io_consts)
  then have "read_imp E fd buf (int n) s = Inr (if n = 0 then 0 else -1, ?s)"
    using p g b fd by (cases "n = 0") (simp_all add: read_imp_def process_ok_def current_te_def pipe_fd_def pipe_end_def Let_def)
  then show ?thesis by blast
qed

lemma counted_same_ends: "same_ends s (s\<lparr>write_counter := c\<rparr>)" "same_ends s (s\<lparr>read_counter := c\<rparr>)"
  "ring_bytes P (s\<lparr>write_counter := c\<rparr>) = ring_bytes P s" "ring_bytes P (s\<lparr>read_counter := c\<rparr>) = ring_bytes P s"
  by (simp_all add: same_ends_def ring_bytes_def)

lemma write_imp_any:
  assumes fd: "pipe_fd fd P s" and h: "stream P s xs" and b: "buf \<noteq> NULL" and d: "area buf n \<inter> ring_bytes P s = {}"
  shows "\<exists>s'. write_imp E fd buf (int n) s = Inr (if n < 1024 then int (min n (1024 - length xs)) else -1, s') \<and> same_ends s s' \<and>
    stream P s' (xs @ take (1024 - length xs) (offered (read_bytes (bytes s) buf n))) \<and> ring_bytes P s' = ring_bytes P s"
proof (cases "n = 0 \<or> 1024 \<le> n")
  case True
  have o: "offered (read_bytes (bytes s) buf n) = []" using True by (auto simp: offered_def)
  obtain c where "write_imp E fd buf (int n) s = Inr (if n = 0 then 0 else -1, s\<lparr>write_counter := c\<rparr>)"
    using write_imp_refused [OF fd b True] by blast
  moreover have "stream P (s\<lparr>write_counter := c\<rparr>) xs" using h by (simp add: counted)
  ultimately show ?thesis using True counted_same_ends(1,3) [where s = s and c = c] unfolding o by auto
next
  case False
  then have n: "0 < n" "n < 1024" by auto
  then have "offered (read_bytes (bytes s) buf n) = read_bytes (bytes s) buf n" by (simp add: offered_def)
  then show ?thesis using write_imp_stream [OF fd h b n d, of E] n(2) by auto
qed

lemma read_imp_any:
  assumes fd: "pipe_fd fd P s" and h: "stream P s xs" and b: "buf \<noteq> NULL" and d: "area buf n \<inter> ring_bytes P s = {}"
  shows "\<exists>s'. read_imp E fd buf (int n) s = Inr (if n \<noteq> 0 \<and> asked n = 0 then -1 else int (min (asked n) (length xs)), s') \<and>
    same_ends s s' \<and> stream P s' (drop (asked n) xs) \<and> ring_bytes P s' = ring_bytes P s \<and>
    read_bytes (bytes s') buf (min (asked n) (length xs)) = take (asked n) xs"
proof (cases "asked n = 0")
  case True
  obtain c where "read_imp E fd buf (int n) s = Inr (if n = 0 then 0 else -1, s\<lparr>read_counter := c\<rparr>)"
    using read_imp_refused [OF fd b True] by blast
  moreover have "stream P (s\<lparr>read_counter := c\<rparr>) xs" using h by (simp add: counted)
  ultimately show ?thesis using True counted_same_ends(2,4) [where s = s and c = c] by auto
next
  case False
  have "asked n \<le> n" by (simp add: asked_def)
  then have d': "area buf (asked n) \<inter> ring_bytes P s = {}" using d area_mono [of "asked n" n buf] by blast
  show ?thesis using read_imp_stream [OF fd h b refl _ d', of E] False by auto
qed

text \<open>Any sequence of calls on the descriptors of a pipe, with what was offered and what was delivered.\<close>

datatype pipe_call = Write_Call int addr nat | Read_Call int addr nat

datatype transfer = Sent int "u8 list" | Received nat int "u8 list"

fun pipe_calls :: "io_env \<Rightarrow> pipe_call list \<Rightarrow> io_state \<Rightarrow> (transfer list \<times> io_state) outcome" where
  "pipe_calls E [] s = Inr ([], s)"
| "pipe_calls E (Write_Call fd buf n # cs) s =
    and_then (write_imp E fd buf (int n) s) (\<lambda>(r, s1).
      and_then (pipe_calls E cs s1) (\<lambda>(ts, s2). Inr (Sent r (read_bytes (bytes s) buf n) # ts, s2)))"
| "pipe_calls E (Read_Call fd buf n # cs) s =
    and_then (read_imp E fd buf (int n) s) (\<lambda>(r, s1).
      and_then (pipe_calls E cs s1) (\<lambda>(ts, s2). Inr (Received n r (read_bytes (bytes s1) buf (nat r)) # ts, s2)))"

text \<open>The promise: a sequence of at most 1024 bytes. A write of less than 1024 bytes appends what there is room for and a
  larger one fails with -1 and appends nothing; a read takes from the front what it asks for, modulo 65536, and fails with
  -1 when that is 0 although it asked for more.\<close>

fun byte_stream :: "transfer list \<Rightarrow> u8 list \<Rightarrow> u8 list \<Rightarrow> bool" where
  "byte_stream [] xs ys = (ys = xs)"
| "byte_stream (Sent r data # ts) xs ys =
    (r = (if length data < 1024 then int (min (length data) (1024 - length xs)) else -1) \<and>
     byte_stream ts (xs @ take (1024 - length xs) (offered data)) ys)"
| "byte_stream (Received n r data # ts) xs ys =
    (r = (if n \<noteq> 0 \<and> asked n = 0 then -1 else int (min (asked n) (length xs))) \<and> data = take (asked n) xs \<and>
     byte_stream ts (drop (asked n) xs) ys)"

text \<open>The accepted and the delivered bytes of a sequence of transfers.\<close>

fun accepted :: "transfer list \<Rightarrow> u8 list" where
  "accepted [] = []"
| "accepted (Sent r data # ts) = take (nat r) data @ accepted ts"
| "accepted (Received n r data # ts) = accepted ts"

fun delivered :: "transfer list \<Rightarrow> u8 list" where
  "delivered [] = []"
| "delivered (Sent r data # ts) = delivered ts"
| "delivered (Received n r data # ts) = data @ delivered ts"

lemma byte_stream_conserves: "byte_stream ts xs ys \<Longrightarrow> xs @ accepted ts = delivered ts @ ys"
proof (induction ts xs ys rule: byte_stream.induct)
  case (2 r data ts xs ys)
  then have "take (nat r) data = take (1024 - length xs) (offered data)" by (auto simp: min_def offered_def)
  with 2 show ?case by simp
next
  case (3 n r data ts xs ys)
  then have "drop (asked n) xs @ accepted ts = delivered ts @ ys" by simp
  moreover have "xs @ accepted ts = take (asked n) xs @ (drop (asked n) xs @ accepted ts)"
    by (simp only: append_assoc [symmetric] append_take_drop_id)
  ultimately have "xs @ accepted ts = take (asked n) xs @ delivered ts @ ys" by simp
  with 3 show ?case by simp
qed simp

text \<open>A call is in order when its descriptor is an end of the pipe, its buffer is not the null pointer and the buffer is not
  part of the ring. Its size is any.\<close>

fun call_ok :: "addr \<Rightarrow> io_state \<Rightarrow> pipe_call \<Rightarrow> bool" where
  "call_ok P s (Write_Call fd buf n) \<longleftrightarrow> pipe_fd fd P s \<and> buf \<noteq> NULL \<and> area buf n \<inter> ring_bytes P s = {}"
| "call_ok P s (Read_Call fd buf n) \<longleftrightarrow> pipe_fd fd P s \<and> buf \<noteq> NULL \<and> area buf n \<inter> ring_bytes P s = {}"

lemma call_ok_kept: "call_ok P s c \<Longrightarrow> same_ends s s' \<Longrightarrow> ring_bytes P s' = ring_bytes P s \<Longrightarrow> call_ok P s' c"
  by (cases c) (auto intro: same_ends_pipe_fd)

lemma pipe_calls_byte_stream:
  assumes "stream P s xs" "\<forall>c \<in> set cs. call_ok P s c"
  shows "\<exists>ts s' ys. pipe_calls E cs s = Inr (ts, s') \<and> byte_stream ts xs ys \<and> stream P s' ys"
  using assms
proof (induction cs arbitrary: s xs)
  case (Cons c cs)
  show ?case
  proof (cases c)
    case (Write_Call fd buf n)
    with Cons.prems have k: "pipe_fd fd P s" "buf \<noteq> NULL" "area buf n \<inter> ring_bytes P s = {}" by simp_all
    obtain s1 where r: "write_imp E fd buf (int n) s = Inr (if n < 1024 then int (min n (1024 - length xs)) else -1, s1)"
      "same_ends s s1" "stream P s1 (xs @ take (1024 - length xs) (offered (read_bytes (bytes s) buf n)))" "ring_bytes P s1 = ring_bytes P s"
      using write_imp_any [OF k(1) Cons.prems(1) k(2,3)] by blast
    have "\<forall>c \<in> set cs. call_ok P s1 c" using Cons.prems(2) call_ok_kept [OF _ r(2,4)] by simp
    then obtain ts s' ys where "pipe_calls E cs s1 = Inr (ts, s')"
      "byte_stream ts (xs @ take (1024 - length xs) (offered (read_bytes (bytes s) buf n))) ys" "stream P s' ys"
      using Cons.IH [OF r(3)] by blast
    then show ?thesis using r(1) Write_Call by auto
  next
    case (Read_Call fd buf n)
    with Cons.prems have k: "pipe_fd fd P s" "buf \<noteq> NULL" "area buf n \<inter> ring_bytes P s = {}" by simp_all
    obtain s1 where r: "read_imp E fd buf (int n) s =
        Inr (if n \<noteq> 0 \<and> asked n = 0 then -1 else int (min (asked n) (length xs)), s1)" "same_ends s s1"
      "stream P s1 (drop (asked n) xs)" "ring_bytes P s1 = ring_bytes P s"
      "read_bytes (bytes s1) buf (min (asked n) (length xs)) = take (asked n) xs"
      using read_imp_any [OF k(1) Cons.prems(1) k(2,3)] by blast
    have "\<forall>c \<in> set cs. call_ok P s1 c" using Cons.prems(2) call_ok_kept [OF _ r(2,4)] by simp
    then obtain ts s' ys where "pipe_calls E cs s1 = Inr (ts, s')" "byte_stream ts (drop (asked n) xs) ys" "stream P s' ys"
      using Cons.IH [OF r(3)] by blast
    then show ?thesis using r(1,5) Read_Call by auto
  qed
qed simp

text \<open>A new pipe is empty and both of its descriptors are ends of it.\<close>

lemma kmalloc_process:
  assumes "kmalloc sz k = Inr (p, k')"
  shows "teList k' = teList k" "get_current_process c k' = get_current_process c k"
    "p_used (tes k' a) = p_used (tes k a)" "p_magic (tes k' a) = p_magic (tes k a)"
  using kmalloc_Inr [OF assms] by (auto simp: charge_def get_current_process_def split: if_splits)

lemma io_kmalloc_process:
  assumes "io_kmalloc sz s = Inr (p, s')"
  shows "process_ok s' = process_ok s" "fd_file fd s' = fd_file fd s" "current_te s' = current_te s"
    "objects s' = objects s" "files s' = files s" "pipe_infos s' = pipe_infos s"
proof -
  obtain k where k: "kmalloc sz (iks s) = Inr (p, k)" "s' = s\<lparr>iks := k\<rparr>" using io_kmalloc_Inr [OF assms] .
  show "process_ok s' = process_ok s" "fd_file fd s' = fd_file fd s" "current_te s' = current_te s"
    "objects s' = objects s" "files s' = files s" "pipe_infos s' = pipe_infos s"
    by (simp_all add: k(2) process_ok_def fd_file_def current_te_def kmalloc_process [OF k(1)])
qed

text \<open>The steps of a successful call.\<close>

lemma free_fd_range: "free_fd p n s \<noteq> -1 \<Longrightarrow> int n \<le> free_fd p n s \<and> free_fd p n s < OPEN_MAX"
  by (auto simp: free_fd_def io_consts split: option.splits dest: first_slot_upt_least)

lemma pipe_create_steps:
  assumes "pipe_create p cp fd1 fd2 s = Inr (0, fds, s')"
  obtains a s1 f1 s2 f2 s3 pi s6 where "io_kmalloc (word_of_int BUFSIZ) s = Inr (a, s1)" "a \<noteq> NULL"
    "io_kmalloc sizeof_file s1 = Inr (f1, s2)" "f1 \<noteq> NULL" "io_kmalloc sizeof_file s2 = Inr (f2, s3)" "f2 \<noteq> NULL"
    "io_kmalloc sizeof_pipe_info_d (set_object p fd2 f2 (set_object p fd1 f1
       (upd_file f2 (pipe_file fd2 cp a s3) (upd_file f1 (pipe_file fd1 cp a s3) s3)))) = Inr (pi, s6)" "pi \<noteq> NULL"
    "fds = Some (fd1, fd2)" "s' = upd_file f2 (\<lambda>x. x\<lparr>f_pipe_info := pi\<rparr>) (upd_file f1 (\<lambda>x. x\<lparr>f_pipe_info := pi\<rparr>)
       (upd_pipe pi (\<lambda>_. \<lparr>pi_base = a, pi_buffer_size = BUFSIZ, pi_counter = 0, pi_write_pos = 0, pi_read_pos = 0\<rparr>) s6))"
proof -
  note o = that
  from assms obtain a s1 where 1: "io_kmalloc (word_of_int BUFSIZ) s = Inr (a, s1)" "a \<noteq> NULL"
    unfolding pipe_create_def by (auto elim!: and_then_InrE split: if_split_asm)
  note s1 = assms [unfolded pipe_create_def 1(1) and_then_simps prod.case if_not_P [OF 1(2)]]
  from s1 obtain f1 s2 where 2: "io_kmalloc sizeof_file s1 = Inr (f1, s2)" by (auto elim: and_then_InrE)
  note s2 = s1 [unfolded 2 and_then_simps prod.case]
  from s2 obtain f2 s3 where 3: "io_kmalloc sizeof_file s2 = Inr (f2, s3)" by (auto elim: and_then_InrE)
  note s3 = s2 [unfolded 3 and_then_simps prod.case]
  then have n: "f1 \<noteq> NULL" "f2 \<noteq> NULL" by (auto split: if_split_asm)
  then have nn: "\<not> (f1 = NULL \<or> f2 = NULL)" by simp
  note s4 = s3 [unfolded if_not_P [OF nn] Let_def]
  from s4 obtain pi s6 where 4: "io_kmalloc sizeof_pipe_info_d (set_object p fd2 f2 (set_object p fd1 f1
       (upd_file f2 (pipe_file fd2 cp a s3) (upd_file f1 (pipe_file fd1 cp a s3) s3)))) = Inr (pi, s6)"
    by (rule and_then_InrE) (metis prod.exhaust)
  note s5 = s4 [unfolded 4 and_then_simps prod.case]
  then have pi: "pi \<noteq> NULL" by (auto split: if_split_asm)
  note s6 = s5 [unfolded if_not_P [OF pi]]
  show thesis by (rule o [OF 1 2 n(1) 3 n(2) 4 pi]) (use s6 in \<open>simp_all only: sum.inject prod.inject\<close>)
qed

lemma sys_pipe_steps:
  assumes "sys_pipe s = Inr (0, Some (fd1, fd2), s')"
  shows "process_ok s \<and> fd1 = free_fd (current_te s) 3 s \<and> fd1 \<noteq> -1 \<and> fd2 = free_fd (current_te s) (nat (fd1 + 1)) s \<and> fd2 \<noteq> -1 \<and>
    pipe_create (current_te s) (get_current_process 0 (iks s)) fd1 fd2 s = Inr (0, Some (fd1, fd2), s')"
proof -
  have ok: "process_ok s"
    using assms by (auto simp: sys_pipe_def te_at_def process_ok_def current_te_def Let_def elim!: and_then_InrE split: if_split_asm)
  let ?f1 = "free_fd (current_te s) 3 s" and ?f2 = "free_fd (current_te s) (nat (free_fd (current_te s) 3 s + 1)) s"
  have "sys_pipe s = (if ?f1 = -1 \<or> ?f2 = -1 then Inr (-1, None, s)
      else pipe_create (current_te s) (get_current_process 0 (iks s)) ?f1 ?f2 s)"
    using ok by (simp add: sys_pipe_def te_at_def process_ok_def current_te_def Let_def)
  then have n: "?f1 \<noteq> -1" "?f2 \<noteq> -1" and c: "pipe_create (current_te s) (get_current_process 0 (iks s)) ?f1 ?f2 s = Inr (0, Some (fd1, fd2), s')"
    using assms by (auto split: if_split_asm)
  have "Some (fd1, fd2) = Some (?f1, ?f2)" using c by (rule pipe_create_steps)
  then show ?thesis using ok n c by simp
qed

lemma sys_pipe_opens:
  assumes "sys_pipe s = Inr (0, Some (fd1, fd2), s')"
  shows "\<exists>P. pipe_fd fd1 P s' \<and> pipe_fd fd2 P s' \<and> stream P s' [] \<and> fd1 < fd2"
proof -
  have ok: "process_ok s" and fd: "fd1 = free_fd (current_te s) 3 s" "fd1 \<noteq> -1" "fd2 = free_fd (current_te s) (nat (fd1 + 1)) s" "fd2 \<noteq> -1"
    and c: "pipe_create (current_te s) (get_current_process 0 (iks s)) fd1 fd2 s = Inr (0, Some (fd1, fd2), s')"
    using sys_pipe_steps [OF assms] by blast+
  from c obtain a s1 f1 s2 f2 s3 pi s6 where k1: "io_kmalloc (word_of_int BUFSIZ) s = Inr (a, s1)" "a \<noteq> NULL" and k2: "io_kmalloc sizeof_file s1 = Inr (f1, s2)" "f1 \<noteq> NULL"
    and k3: "io_kmalloc sizeof_file s2 = Inr (f2, s3)" "f2 \<noteq> NULL"
    and k4: "io_kmalloc sizeof_pipe_info_d (set_object (current_te s) fd2 f2 (set_object (current_te s) fd1 f1
       (upd_file f2 (pipe_file fd2 (get_current_process 0 (iks s)) a s3) (upd_file f1 (pipe_file fd1 (get_current_process 0 (iks s)) a s3) s3))))
     = Inr (pi, s6)" "pi \<noteq> NULL" and fds: "Some (fd1, fd2) = Some (fd1, fd2)"
    and s': "s' = upd_file f2 (\<lambda>x. x\<lparr>f_pipe_info := pi\<rparr>) (upd_file f1 (\<lambda>x. x\<lparr>f_pipe_info := pi\<rparr>)
       (upd_pipe pi (\<lambda>_. \<lparr>pi_base = a, pi_buffer_size = BUFSIZ, pi_counter = 0, pi_write_pos = 0, pi_read_pos = 0\<rparr>) s6))"
    by (rule pipe_create_steps)
  let ?s5 = "set_object (current_te s) fd2 f2 (set_object (current_te s) fd1 f1
       (upd_file f2 (pipe_file fd2 (get_current_process 0 (iks s)) a s3) (upd_file f1 (pipe_file fd1 (get_current_process 0 (iks s)) a s3) s3)))"
  have r: "3 \<le> fd1" "fd1 < fd2" "fd2 < OPEN_MAX" using free_fd_range [of "current_te s" 3 s] free_fd_range [of "current_te s" "nat (fd1 + 1)" s] fd by auto
  have p3: "current_te s3 = current_te s" "process_ok s3"
    unfolding io_kmalloc_process(1,3) [OF k3(1)] io_kmalloc_process(1,3) [OF k2(1)] io_kmalloc_process(1,3) [OF k1(1)] by (rule refl ok)+
  have "current_te ?s5 = current_te s3" "process_ok ?s5 = process_ok s3" by (simp_all add: current_te_def process_ok_def)
  then have p6: "current_te s6 = current_te s" "process_ok s6"
    unfolding io_kmalloc_process(1,3) [OF k4(1)] using p3 by simp_all
  have t6: "current_te s' = current_te s6" "process_ok s' = process_ok s6" unfolding s' by (simp_all add: current_te_def process_ok_def)
  note t6 = t6 [unfolded p6]
  have o: "objects s' = objects ?s5" and f: "files s' = (files ?s5)(f1 := (files ?s5 f1)\<lparr>f_pipe_info := pi\<rparr>,
      f2 := (((files ?s5)(f1 := (files ?s5 f1)\<lparr>f_pipe_info := pi\<rparr>)) f2)\<lparr>f_pipe_info := pi\<rparr>)"
    unfolding s' using io_kmalloc_process(4,5) [OF k4(1)] by simp_all
  have fdf: "fd_file fd1 s' = f1" "fd_file fd2 s' = f2" using r by (auto simp: fd_file_def t6 o nat_eq_iff)
  have e: "pipe_fd fd1 pi s' \<and> pipe_fd fd2 pi s'"
    using r t6(2) p6(2) k2(2) k3(2) k4(2) by (simp add: pipe_fd_def pipe_end_def fdf f pipe_file_def)
  have h: "stream pi s' []" by (simp add: stream_def s' pipe_holds_def io_consts)
  show ?thesis using e h r(2) by blast
qed

section \<open>Properties of pipes\<close>

text \<open>
  Claim C10. A pipe is a bounded stream of bytes. For any sequence of write and read system calls of any sizes on
  descriptors of one pipe, whose buffers are not the null pointer and lie outside its ring, every call returns; a write of
  less than 1024 bytes appends as many of them as fit into 1024 and returns their number, while a write of 1024 bytes or
  more is refused with -1 and appends nothing, even to an empty pipe; and a read of \<open>n\<close> bytes returns the oldest
  waiting bytes, at most \<open>n\<close> modulo 65536, in order (and -1 where that is 0 although \<open>n\<close> is not).
\<close>

theorem pipe_calls_refine_byte_stream:
  assumes "stream P s xs" and "\<forall>c \<in> set cs. call_ok P s c"
  shows "\<exists>ts s' ys. pipe_calls E cs s = Inr (ts, s') \<and> byte_stream ts xs ys \<and> stream P s' ys"
  using assms by (rule pipe_calls_byte_stream)

text \<open>
  Claim C21. A pipe that \<^verbatim>\<open>sys_pipe\<close> has opened delivers what it was given: both descriptors are ends of the same
  pipe, and after any sequence of calls of any sizes on them (with buffers outside the ring) the accepted bytes are the delivered ones followed by at most 1024 that
  still wait, whichever end was written and whichever was read.
\<close>

theorem new_pipe_conserves_bytes:
  assumes "sys_pipe s = Inr (0, Some (fd1, fd2), s')"
  shows "\<exists>P. pipe_fd fd1 P s' \<and> pipe_fd fd2 P s' \<and> fd1 < fd2 \<and>
    (\<forall>cs. (\<forall>c \<in> set cs. call_ok P s' c) \<longrightarrow>
      (\<exists>ts s'' ys. pipe_calls E cs s' = Inr (ts, s'') \<and> accepted ts = delivered ts @ ys \<and> length ys \<le> 1024))"
proof -
  obtain P where P: "pipe_fd fd1 P s'" "pipe_fd fd2 P s'" "stream P s' []" "fd1 < fd2" using sys_pipe_opens [OF assms] by blast
  have "\<exists>ts s'' ys. pipe_calls E cs s' = Inr (ts, s'') \<and> accepted ts = delivered ts @ ys \<and> length ys \<le> 1024"
    if c: "\<forall>c \<in> set cs. call_ok P s' c" for cs
  proof -
    obtain ts s'' ys where t: "pipe_calls E cs s' = Inr (ts, s'')" "byte_stream ts [] ys" "stream P s'' ys"
      using pipe_calls_byte_stream [OF P(3) c] by blast
    have "length ys \<le> 1024" using t(3) by (simp add: stream_def pipe_holds_def io_consts)
    then show ?thesis using t(1) byte_stream_conserves [OF t(2)] by auto
  qed
  then show ?thesis using P(1,2,4) by blast
qed

text \<open>A process with an open pipe in which one byte waits at the last place of the ring, and one without files.\<close>

definition pipe_io :: io_state where
  "pipe_io = zero_io\<lparr>objects := (\<lambda>_ _. NULL)(0xA000 := (\<lambda>_. NULL)(3 := 0x10, 4 := 0x20)),
     files := (\<lambda>_. pipe_file 3 0 0x5000 zero_io zero_file\<lparr>f_pipe_info := 0x30\<rparr>),
     pipe_infos := (\<lambda>_. \<lparr>pi_base = 0x5000, pi_buffer_size = BUFSIZ, pi_counter = 1, pi_write_pos = 1024, pi_read_pos = 1023\<rparr>)\<rparr>"

lemma zero_io_process [simp]: "process_ok zero_io" "current_te zero_io = 0xA000" "get_current_process 0 (iks zero_io) = 0"
  by (simp_all add: zero_io_def process_ok_def current_te_def process_kstate_def zero_kstate_def get_current_process_def zero_lapic_def
      NR_CPUS_def PROCESS_COUNT_MAX_def)

lemma pipe_io_facts:
  "stream 0x30 pipe_io [0xFF]" "pipe_fd 3 0x30 pipe_io" "pipe_fd 4 0x30 pipe_io" "ring_bytes 0x30 pipe_io = area 0x5000 1024"
proof -
  have t: "current_te pipe_io = 0xA000" "process_ok pipe_io"
    using zero_io_process by (simp_all add: pipe_io_def current_te_def process_ok_def)
  show "stream 0x30 pipe_io [0xFF]" by (simp add: stream_def pipe_io_def pipe_holds_def ring_slot_def zero_io_def io_consts)
  show "pipe_fd 3 0x30 pipe_io" "pipe_fd 4 0x30 pipe_io"
    by (simp_all add: pipe_fd_def t fd_file_def pipe_end_def io_consts) (simp_all add: pipe_io_def pipe_file_def io_consts)
  show "ring_bytes 0x30 pipe_io = area 0x5000 1024" by (simp add: ring_bytes_def ring_area_def pipe_io_def io_consts)
qed

definition null_env :: io_env where
  "null_env = \<lparr>tcp_socket_recv = (\<lambda>_ _ _ s. (-1, s)), tcp_socket_send = (\<lambda>_ _ _ s. (-1, s)), ch_buffer = 0x7000\<rparr>"

lemma pipe_io_calls: "\<forall>c \<in> set [Write_Call 4 0x2000 3, Write_Call 4 0x4000 2000, Read_Call 3 0x3000 2]. call_ok 0x30 pipe_io c"
  using pipe_io_facts(2,3) area_apart [where p = "0x2000" and n = 3 and q = "0x5000" and k = 1024]
    area_apart [where p = "0x3000" and n = 2 and q = "0x5000" and k = 1024]
    area_apart [where p = "0x4000" and n = 2000 and q = "0x5000" and k = 1024] by (simp add: pipe_io_facts(4))

theorem pipe_calls_refine_byte_stream_witness:
  "\<exists>ts s' ys. pipe_calls null_env [Write_Call 4 0x2000 3, Write_Call 4 0x4000 2000, Read_Call 3 0x3000 2] pipe_io = Inr (ts, s') \<and>
    byte_stream ts [0xFF] ys \<and> stream 0x30 s' ys"
  by (rule pipe_calls_refine_byte_stream [OF pipe_io_facts(1) pipe_io_calls])

lemma zero_io_sys_pipe: "\<exists>s'. sys_pipe zero_io = Inr (0, Some (3, 4), s')"
proof -
  have "\<exists>h1 h2 h3 h4. heapAllocateMemory 1024 boot_heap = Inr (0x30100048, h1) \<and>
      heapAllocateMemory 336 h1 = Inr (0x30100490, h2) \<and> heapAllocateMemory 336 h2 = Inr (0x30100628, h3) \<and>
      heapAllocateMemory 24 h3 = Inr (0x301007C0, h4)"
    by (simp add: heapAllocateMemory_def Let_def boot_heap_fields heap_consts)
  then obtain h1 h2 h3 h4 where h: "heapAllocateMemory 1024 boot_heap = Inr (0x30100048, h1)"
    "heapAllocateMemory 336 h1 = Inr (0x30100490, h2)" "heapAllocateMemory 336 h2 = Inr (0x30100628, h3)"
    "heapAllocateMemory 24 h3 = Inr (0x301007C0, h4)" by blast
  have zh: "heap (iks zero_io) = boot_heap" by (simp add: zero_io_def)
  obtain k1 where k1: "kmalloc 1024 (iks zero_io) = Inr (0x30100048, k1)" "heap k1 = h1"
    using kmalloc_returns [of 1024 "iks zero_io"] h(1) zh by auto
  obtain k2 where k2: "kmalloc 336 k1 = Inr (0x30100490, k2)" "heap k2 = h2" using kmalloc_returns [of 336 k1] h(2) k1(2) by auto
  obtain k3 where k3: "kmalloc 336 k2 = Inr (0x30100628, k3)" "heap k3 = h3" using kmalloc_returns [of 336 k2] h(3) k2(2) by auto
  obtain k4 where k4: "kmalloc 24 k3 = Inr (0x301007C0, k4)" using kmalloc_returns [of 24 k3] h(4) k3(2) by auto
  have fd: "free_fd 0xA000 3 zero_io = 3" "free_fd 0xA000 4 zero_io = 4"
    by (simp_all add: free_fd_def zero_io_def io_consts upt_rec_numeral)
  have "pipe_create 0xA000 0 3 4 zero_io \<in> {Inr (0, Some (3, 4), s') | s'. True}"
    by (simp add: pipe_create_def io_kmalloc_def k1 k2 k3 k4 sizeof_file_def sizeof_pipe_info_d_def io_consts Let_def
        del: fun_upd_apply)
  then obtain s' where "pipe_create 0xA000 0 3 4 zero_io = Inr (0, Some (3, 4), s')" by blast
  moreover have "sys_pipe zero_io = pipe_create 0xA000 0 3 4 zero_io"
    using zero_io_process fd by (simp add: sys_pipe_def te_at_def process_ok_def current_te_def Let_def)
  ultimately show ?thesis by auto
qed

theorem new_pipe_conserves_bytes_witness:
  "\<exists>s' P. sys_pipe zero_io = Inr (0, Some (3, 4), s') \<and> pipe_fd 3 P s' \<and> pipe_fd 4 P s'"
proof -
  obtain s' where s: "sys_pipe zero_io = Inr (0, Some (3, 4), s')" using zero_io_sys_pipe by blast
  show ?thesis using new_pipe_conserves_bytes [OF s] s by blast
qed

end
