(* ===== verification/Terminals.thy ===== *)
theory Terminals
  imports Files
begin

text \<open>
  What the terminals promise: each queue is a bounded list of characters, flushing empties it in order, reading and
  writing move the oldest characters, and the canonical mode is a line editor.
\<close>

section \<open>A queue holds a list\<close>

definition tty_holds :: "tty_queue \<Rightarrow> u8 list \<Rightarrow> bool" where
  "tty_holds q xs \<longleftrightarrow> tq_buffer_size q = 1024 \<and> unat (tq_head q) < 1024 \<and> unat (tq_tail q) < 1024 \<and>
     tq_cnt q = int (length xs) \<and> length xs < 1024 \<and> unat (tq_head q) = (unat (tq_tail q) + length xs) mod 1024 \<and>
     (\<forall>k < length xs. tq_buf q ((unat (tq_tail q) + k) mod 1024) = xs ! k)"

lemma mod_1024: "n < 2048 \<Longrightarrow> n mod 1024 = (if n < 1024 then n else n - 1024)" for n :: nat
  by (simp add: le_mod_geq)

lemma unat_queue_next:
  assumes "tq_buffer_size q = 1024" "unat i < 1024"
  shows "unat (queue_next i q) = (unat i + 1) mod 1024"
proof -
  have "unat (i + 1) = unat i + 1" using assms(2) by (subst unat_plus_exact) simp_all
  then show ?thesis by (simp add: queue_next_def assms(1) unat_mod_distrib)
qed

lemma full_iff: "t < 1024 \<Longrightarrow> n < 1024 \<Longrightarrow> ((t + n) mod 1024 + 1) mod 1024 = t \<longleftrightarrow> n = 1023" for t n :: nat
  by (cases "t + n < 1024") (simp_all add: mod_1024, arith+)

lemma slot_apart: "t < 1024 \<Longrightarrow> k < n \<Longrightarrow> n < 1024 \<Longrightarrow> (t + k) mod 1024 \<noteq> (t + n) mod 1024" for t n :: nat
  by (simp add: mod_1024) arith

lemma putchar_holds:
  assumes h: "tty_holds q xs" and room: "length xs < 1023"
  shows "\<exists>q'. tty_queue_putchar c q = Inr (0, q') \<and> tty_holds q' (xs @ [c])"
proof -
  let ?t = "unat (tq_tail q)" and ?h = "unat (tq_head q)"
  have b: "tq_buffer_size q = 1024" "?h < 1024" "?t < 1024" "?h = (?t + length xs) mod 1024" using h by (simp_all add: tty_holds_def)
  have n: "unat (queue_next (tq_head q) q) = (?h + 1) mod 1024" by (rule unat_queue_next [OF b(1,2)])
  have ne: "queue_next (tq_head q) q \<noteq> tq_tail q"
    using full_iff [OF b(3), of "length xs"] room n unfolding b(4) by (auto simp: word_unat_eq_iff)
  let ?q = "q\<lparr>tq_buf := (tq_buf q)(?h := c), tq_head := queue_next (tq_head q) q, tq_cnt := tq_cnt q + 1\<rparr>"
  have "tty_queue_putchar c q = Inr (0, ?q)" using ne b(1) by (simp add: tty_queue_putchar_def Let_def)
  moreover have "tq_buf ?q ((?t + k) mod 1024) = (xs @ [c]) ! k" if k: "k < length (xs @ [c])" for k
  proof (cases "k = length xs")
    case False
    then have k': "k < length xs" using k by simp
    then have "tq_buf q ((?t + k) mod 1024) = xs ! k" using h unfolding tty_holds_def by blast
    moreover have "(?t + k) mod 1024 \<noteq> ?h" unfolding b(4) using k' room by (intro slot_apart [OF b(3)]) simp_all
    ultimately show ?thesis using k' by (simp add: nth_append)
  qed (simp add: b(4) nth_append)
  then have "tty_holds ?q (xs @ [c])" using h room n b(4) by (simp add: tty_holds_def mod_simps)
  ultimately show ?thesis by blast
qed

lemma putchar_full:
  assumes h: "tty_holds q xs" and full: "length xs = 1023"
  shows "tty_queue_putchar c q = Inr (-1, q)"
proof -
  let ?t = "unat (tq_tail q)" and ?h = "unat (tq_head q)"
  have b: "tq_buffer_size q = 1024" "?h < 1024" "?t < 1024" "?h = (?t + length xs) mod 1024" using h by (simp_all add: tty_holds_def)
  have "unat (queue_next (tq_head q) q) = ?t"
    using full_iff [OF b(3), of "length xs"] full unat_queue_next [OF b(1,2)] unfolding b(4) by simp
  then have "queue_next (tq_head q) q = tq_tail q" by (simp add: word_unat_eq_iff)
  then show ?thesis using b(1) by (simp add: tty_queue_putchar_def)
qed

lemma empty_iff:
  assumes h: "tty_holds q xs"
  shows "tq_head q = tq_tail q \<longleftrightarrow> xs = []"
proof -
  let ?t = "unat (tq_tail q)"
  have b: "?t < 1024" "unat (tq_head q) = (?t + length xs) mod 1024" "length xs < 1024" using h by (simp_all add: tty_holds_def)
  show ?thesis using b(1,3) unfolding word_unat_eq_iff b(2) by (cases "?t + length xs < 1024") (auto simp add: mod_1024)
qed

lemma getchar_empty: "tty_holds q [] \<Longrightarrow> tty_queue_getchar q = Inr (-1, q)"
  by (simp add: tty_queue_getchar_def empty_iff)

lemma tail_holds:
  assumes h: "tty_holds q (x # xs)"
  shows "tq_buf q (unat (tq_tail q)) = x"
    "tty_holds (q\<lparr>tq_tail := queue_next (tq_tail q) q, tq_cnt := tq_cnt q - 1\<rparr>) xs"
proof -
  let ?t = "unat (tq_tail q)"
  have b: "tq_buffer_size q = 1024" "?t < 1024" "unat (tq_head q) = (?t + length (x # xs)) mod 1024" using h by (simp_all add: tty_holds_def)
  have s: "tq_buf q ((?t + k) mod 1024) = (x # xs) ! k" if "k < length (x # xs)" for k using h that unfolding tty_holds_def by blast
  show "tq_buf q ?t = x" using s [of 0] b(2) by simp
  have n: "unat (queue_next (tq_tail q) q) = (?t + 1) mod 1024" by (rule unat_queue_next [OF b(1,2)])
  have "tq_buf q ((unat (queue_next (tq_tail q) q) + k) mod 1024) = xs ! k" if "k < length xs" for k
    unfolding n using s [of "Suc k"] that by (simp add: mod_simps)
  then show "tty_holds (q\<lparr>tq_tail := queue_next (tq_tail q) q, tq_cnt := tq_cnt q - 1\<rparr>) xs"
    using h n b(3) by (simp add: tty_holds_def mod_simps)
qed

lemma getchar_holds:
  assumes h: "tty_holds q (x # xs)"
  shows "\<exists>q'. tty_queue_getchar q = Inr (uint x, q') \<and> tty_holds q' xs"
proof -
  have "tq_buffer_size q \<noteq> 0" using h by (simp add: tty_holds_def)
  then have "tty_queue_getchar q = Inr (uint x, q\<lparr>tq_tail := queue_next (tq_tail q) q, tq_cnt := tq_cnt q - 1\<rparr>)"
    using empty_iff [OF h] tail_holds(1) [OF h] by (simp add: tty_queue_getchar_def)
  then show ?thesis using tail_holds(2) [OF h] by blast
qed

text \<open>The queue of a terminal is a bounded queue for its clients.\<close>

definition put_char :: "u8 \<Rightarrow> tty_queue \<Rightarrow> tty_queue outcome" where
  "put_char c q = and_then (tty_queue_putchar c q) (\<lambda>(r, q1). Inr q1)"

definition get_char :: "tty_queue \<Rightarrow> (u8 \<times> tty_queue) outcome" where
  "get_char q = and_then (tty_queue_getchar q) (\<lambda>(c, q1). Inr (word_of_int c, q1))"

interpretation chars: bounded_queue put_char get_char tty_holds "\<lambda>_. True" 1023
proof unfold_locales
  show "\<exists>s'. put_char m s = Inr s' \<and> tty_holds s' (q @ [m])" if "tty_holds s q" "length q < 1023" for s q m
    using putchar_holds [OF that, of m] by (auto simp: put_char_def)
  show "\<exists>s'. get_char s = Inr (m, s') \<and> tty_holds s' q" if "tty_holds s (m # q)" for s m q
    using getchar_holds [OF that] by (auto simp: get_char_def)
qed

section \<open>Reading and writing\<close>

lemma put_all_result:
  "tty_holds q xs \<Longrightarrow> \<exists>q'. put_all cs q = Inr q' \<and> tty_holds q' (xs @ take (1023 - length xs) cs)"
proof (induction cs arbitrary: q xs)
  case (Cons c cs)
  show ?case
  proof (cases "length xs < 1023")
    case True
    then obtain q1 where q1: "tty_queue_putchar c q = Inr (0, q1)" "tty_holds q1 (xs @ [c])" using putchar_holds [OF Cons.prems] by blast
    obtain q' where "put_all cs q1 = Inr q'" "tty_holds q' ((xs @ [c]) @ take (1023 - length (xs @ [c])) cs)"
      using Cons.IH [OF q1(2)] by blast
    moreover have "1023 - length xs = Suc (1023 - length (xs @ [c]))" using True by simp
    ultimately show ?thesis using q1(1) by simp
  next
    case False
    then have f: "length xs = 1023" using Cons.prems by (simp add: tty_holds_def)
    show ?thesis using Cons.IH [OF Cons.prems] putchar_full [OF Cons.prems f, of c] f by simp
  qed
qed simp

lemma put_until_full_result:
  "tty_holds q xs \<Longrightarrow> \<exists>q'. put_until_full cs q = Inr (min (length cs) (1023 - length xs), q') \<and>
    tty_holds q' (xs @ take (1023 - length xs) cs)"
proof (induction cs arbitrary: q xs)
  case (Cons c cs)
  show ?case
  proof (cases "length xs < 1023")
    case True
    then obtain q1 where q1: "tty_queue_putchar c q = Inr (0, q1)" "tty_holds q1 (xs @ [c])" using putchar_holds [OF Cons.prems] by blast
    obtain q' where "put_until_full cs q1 = Inr (min (length cs) (1023 - length (xs @ [c])), q')"
      "tty_holds q' ((xs @ [c]) @ take (1023 - length (xs @ [c])) cs)"
      using Cons.IH [OF q1(2)] by blast
    moreover have "1023 - length xs = Suc (1023 - length (xs @ [c]))" using True by simp
    ultimately show ?thesis using q1(1) by simp
  next
    case False
    then have f: "length xs = 1023" using Cons.prems by (simp add: tty_holds_def)
    show ?thesis using putchar_full [OF Cons.prems f, of c] Cons.prems f by simp
  qed
qed simp

text \<open>What a reading loop takes: up to \<open>n\<close> characters, and none after one it stops at.\<close>

fun taken :: "(int \<Rightarrow> bool) \<Rightarrow> nat \<Rightarrow> u8 list \<Rightarrow> nat" where
  "taken stop 0 xs = 0"
| "taken stop (Suc n) [] = 0"
| "taken stop (Suc n) (x # xs) = (if stop (uint x) then 1 else Suc (taken stop n xs))"

lemma taken_le: "taken stop n xs \<le> n \<and> taken stop n xs \<le> length xs"
  by (induction stop n xs rule: taken.induct) auto

lemma taken_never: "taken never n xs = min n (length xs)"
proof (induction n arbitrary: xs)
  case (Suc n)
  then show ?case by (cases xs) simp_all
qed simp

lemma read_loop_result:
  assumes "tty_holds q xs" "n < 2 ^ 64"
  shows "\<exists>q' m'. read_loop stop n p q m = Inr (taken stop n xs, q', m') \<and> tty_holds q' (drop (taken stop n xs) xs) \<and>
    read_bytes m' p (taken stop n xs) = take (taken stop n xs) xs \<and> (\<forall>a. a \<notin> area p n \<longrightarrow> m' a = m a)"
  using assms
proof (induction stop n xs arbitrary: p q m rule: taken.induct)
  case (2 stop n)
  then show ?case by (simp add: getchar_empty)
next
  case (3 stop n x xs)
  obtain q1 where q1: "tty_queue_getchar q = Inr (uint x, q1)" "tty_holds q1 xs" using getchar_holds [OF 3(2)] by blast
  have nn: "\<not> uint x < 0" by simp
  have n: "n < 2 ^ 64" using 3(3) by simp
  let ?m = "m(p := x)"
  show ?case
  proof (cases "stop (uint x)")
    case True
    have "read_bytes ?m p (Suc 0) = [x]" by (simp add: read_bytes_Suc del: fun_upd_apply) simp
    then show ?thesis using q1 nn True by (simp add: area_Suc)
  next
    case False
    obtain q' m' where r: "read_loop stop n (p + 1) q1 ?m = Inr (taken stop n xs, q', m')" "tty_holds q' (drop (taken stop n xs) xs)"
      "read_bytes m' (p + 1) (taken stop n xs) = take (taken stop n xs) xs" "\<forall>a. a \<notin> area (p + 1) n \<longrightarrow> m' a = ?m a"
      using 3(1) [OF False q1(2) n] by blast
    have "m' p = x" using r(4) area_tail [OF n] by simp
    then have "read_bytes m' p (Suc (taken stop n xs)) = x # take (taken stop n xs) xs" unfolding read_bytes_Suc r(3) by simp
    moreover have "m' a = m a" if "a \<notin> area p (Suc n)" for a using r(4) that by (simp add: area_Suc)
    ultimately show ?thesis using q1(1) nn False r(1,2) by simp
  qed
qed simp

section \<open>Flushing\<close>

lemma flush_step_holds: "tty_holds q (x # xs) \<Longrightarrow> tty_holds (flush_step q) xs"
  using tail_holds(2) [of q x xs] by (simp add: flush_step_def tty_holds_def)

lemma flush_queue_result:
  "tty_holds q xs \<Longrightarrow> \<exists>q'. flush_queue q out = Some (Inr (out @ xs, q')) \<and> tty_holds q' []"
proof (induction xs arbitrary: q out)
  case Nil
  then have "tq_tail q = tq_head q" using empty_iff [of q "[]"] by simp
  then have "flush_queue q out = Some (Inr (out, q))" by (subst flush_queue.simps) simp
  then show ?case using Nil by simp
next
  case (Cons x xs)
  obtain q' where "flush_queue (flush_step q) (out @ [x]) = Some (Inr ((out @ [x]) @ xs, q'))" "tty_holds q' []"
    using Cons.IH [OF flush_step_holds [OF Cons.prems]] by blast
  moreover have "flush_queue q out = flush_queue (flush_step q) (out @ [x])"
    using empty_iff [OF Cons.prems] tail_holds(1) [OF Cons.prems] Cons.prems
    by (subst flush_queue.simps) (simp add: tty_holds_def)
  ultimately show ?case by simp
qed

text \<open>The loop ends as soon as the head is a place of the ring, whatever the tail is.\<close>

lemma flush_step_fields:
  "tq_head (flush_step q) = tq_head q" "tq_tail (flush_step q) = queue_next (tq_tail q) q" "tq_buffer_size (flush_step q) = tq_buffer_size q"
  by (simp_all add: flush_step_def)

lemma queue_next_range: "tq_buffer_size q = 1024 \<Longrightarrow> unat (queue_next i q) < 1024"
  by (simp add: queue_next_def unat_mod_distrib)

lemma flush_distance:
  "tq_buffer_size q = 1024 \<Longrightarrow> unat (tq_tail q) < 1024 \<Longrightarrow> unat (tq_head q) < 1024 \<Longrightarrow>
    (unat (tq_head q) + 1024 - unat (tq_tail q)) mod 1024 = d \<Longrightarrow> flush_queue q out \<noteq> None"
proof (induction d arbitrary: q out)
  case 0
  then have "unat (tq_head q) = unat (tq_tail q)" by (auto simp: mod_1024 split: if_split_asm)
  then have "tq_tail q = tq_head q" by (simp add: word_unat_eq_iff)
  then show ?case by (subst flush_queue.simps) simp
next
  case (Suc d)
  let ?t = "unat (tq_tail q)" and ?h = "unat (tq_head q)"
  have n: "unat (queue_next (tq_tail q) q) = (?t + 1) mod 1024" by (rule unat_queue_next [OF Suc.prems(1,2)])
  have "(?h + 1024 - (?t + 1) mod 1024) mod 1024 = d"
    using Suc.prems(2-4) by (cases "?t + 1 < 1024"; cases "?h < ?t") (simp_all add: mod_1024 split: if_split_asm, arith+)
  then have "flush_queue (flush_step q) (out @ [tq_buf q ?t]) \<noteq> None"
    using Suc.prems by (intro Suc.IH) (simp_all add: flush_step_fields queue_next_range n)
  then show ?case using Suc.prems(1) by (subst flush_queue.simps) simp
qed

lemma flush_ends:
  assumes "tq_buffer_size q = 1024" "tq_tail q = tq_head q \<or> unat (tq_head q) < 1024"
  shows "flush_queue q out \<noteq> None"
proof (cases "tq_tail q = tq_head q")
  case True
  then show ?thesis by (subst flush_queue.simps) simp
next
  case False
  then have h: "unat (tq_head q) < 1024" using assms(2) by simp
  have "flush_queue (flush_step q) (out @ [tq_buf q (unat (tq_tail q))]) \<noteq> None"
    by (rule flush_distance [OF _ _ _ refl]) (simp_all add: flush_step_fields assms(1) queue_next_range h)
  then show ?thesis using assms(1) False by (subst flush_queue.simps) simp
qed

lemma flush_ended:
  assumes "flush_queue q out = Some r"
  shows "tq_buffer_size q = 1024 \<longrightarrow> tq_tail q = tq_head q \<or> unat (tq_head q) < 1024"
  using assms
proof (rule flush_queue.raw_induct [where P = "\<lambda>q out r. tq_buffer_size q = 1024 \<longrightarrow> tq_tail q = tq_head q \<or> unat (tq_head q) < 1024", rotated])
  fix f q out and r :: "(u8 list \<times> tty_queue) outcome"
  assume step: "\<And>q out r. f q out = Some r \<Longrightarrow> tq_buffer_size q = 1024 \<longrightarrow> tq_tail q = tq_head q \<or> unat (tq_head q) < 1024"
    "(if tq_tail q = tq_head q then Some (Inr (out, q))
      else if tq_buffer_size q = 0 then Some (Inl (Die ''divide error''))
      else f (flush_step q) (out @ [tq_buf q (unat (tq_tail q))])) = Some r"
  show "tq_buffer_size q = 1024 \<longrightarrow> tq_tail q = tq_head q \<or> unat (tq_head q) < 1024"
  proof (intro impI)
    assume sz: "tq_buffer_size q = 1024"
    show "tq_tail q = tq_head q \<or> unat (tq_head q) < 1024"
    proof (cases "tq_tail q = tq_head q")
      case False
      then have fs: "f (flush_step q) (out @ [tq_buf q (unat (tq_tail q))]) = Some r" using step(2) sz by simp
      have "queue_next (tq_tail q) q = tq_head q \<or> unat (tq_head q) < 1024"
        using step(1) [OF fs] sz unfolding flush_step_fields by blast
      then show ?thesis using queue_next_range [OF sz] by metis
    qed simp
  qed
qed

section \<open>Line editing\<close>

lemma erase_last_holds:
  assumes h: "tty_holds q xs"
  shows "\<exists>q'. erase_last q = Inr q' \<and> tty_holds q' (butlast xs)"
proof (cases "xs = []")
  case True
  then show ?thesis using h by (simp add: erase_last_def tty_holds_def)
next
  case False
  let ?t = "unat (tq_tail q)" and ?h = "unat (tq_head q)"
  let ?q = "q\<lparr>tq_head := (tq_head q - 1 + 1024) mod 1024, tq_cnt := tq_cnt q - 1\<rparr>"
  have b: "tq_buffer_size q = 1024" "?h < 1024" "?t < 1024" "?h = (?t + length xs) mod 1024" "tq_cnt q = int (length xs)"
    using h by (simp_all add: tty_holds_def)
  have "tq_head q - 1 + 1024 = 1023 + tq_head q" by simp
  moreover have "unat (1023 + tq_head q) = 1023 + ?h" using b(2) by (subst unat_plus_exact) simp_all
  moreover have "unat (1024 :: u64) = 1024" by simp
  ultimately have "unat ((tq_head q - 1 + 1024) mod 1024) = (?h + 1023) mod 1024" by (simp only: unat_mod_distrib add.commute)
  moreover have "tq_head ?q = (tq_head q - 1 + 1024) mod 1024" by (cases q) simp
  ultimately have u: "unat (tq_head ?q) = (?h + 1023) mod 1024" by (simp only:)
  obtain n where n: "length xs = Suc n" using False by (cases xs) auto
  have "(?h + 1023) mod 1024 = (?t + Suc n + 1023) mod 1024" unfolding b(4) n by (rule mod_add_left_eq)
  also have "?t + Suc n + 1023 = (?t + n) + 1024" by simp
  also have "((?t + n) + 1024) mod 1024 = (?t + n) mod 1024" by (rule mod_add_self2)
  finally have u': "unat (tq_head ?q) = (?t + n) mod 1024" unfolding u .
  have "tq_buf ?q ((?t + k) mod 1024) = butlast xs ! k" if k: "k < length (butlast xs)" for k
  proof -
    have "k < length xs" using k by simp
    then have "tq_buf q ((?t + k) mod 1024) = xs ! k" using h unfolding tty_holds_def by blast
    then show ?thesis using k by (simp add: nth_butlast)
  qed
  then have "tty_holds ?q (butlast xs)" using h u' n by (simp add: tty_holds_def)
  moreover have "erase_last q = Inr ?q" using b(1,5) n by (simp add: erase_last_def)
  ultimately show ?thesis by blast
qed

text \<open>
  The reference: a list that typing extends while there is room and erasing shortens, and its first line. Where no newline
  has been typed the first line is all there is: the code does not wait for the end of a line, against the comment
  at its read loop (``wait until newline is present'') and the one at the mode in \<^verbatim>\<open>tty.h\<close>.
\<close>

fun edit :: "termios_d \<Rightarrow> u8 list \<Rightarrow> u8 list \<Rightarrow> u8 list" where
  "edit t xs [] = xs"
| "edit t xs (c # cs) = edit t (if c \<noteq> 10 \<and> is_erase c t then butlast xs else if length xs < 1023 then xs @ [c] else xs) cs"

definition first_line :: "nat \<Rightarrow> u8 list \<Rightarrow> u8 list" where
  "first_line n xs = take n (takeWhile (\<lambda>c. c \<noteq> 10) xs @ take 1 (dropWhile (\<lambda>c. c \<noteq> 10) xs))"

lemma first_line_unfinished: "10 \<notin> set xs \<Longrightarrow> first_line n xs = take n xs"
proof -
  assume "10 \<notin> set xs"
  then have "\<forall>c \<in> set xs. c \<noteq> 10" by metis
  then show ?thesis by (simp add: first_line_def takeWhile_eq_all_conv [THEN iffD2] dropWhile_eq_Nil_conv [THEN iffD2])
qed

lemma uint_newline: "uint (c :: u8) = 10 \<longleftrightarrow> c = 10"
  unfolding word_uint_eq_iff by simp

lemma take_taken: "take (taken newline n xs) xs = first_line n xs"
proof (induction n arbitrary: xs)
  case (Suc n)
  then show ?case by (cases xs) (simp_all add: first_line_def uint_newline)
qed (simp add: first_line_def)

text \<open>A terminal in the canonical mode, with what was typed; its output does not go to the standard input.\<close>

definition canon :: "addr \<Rightarrow> io_state \<Rightarrow> u8 list \<Rightarrow> bool" where
  "canon tty s xs \<longleftrightarrow> tty \<noteq> NULL \<and> tt_magic (ttys s tty) = TTY_MAGIC \<and> c_lflag (tt_termios (ttys s tty)) AND ICANON \<noteq> 0 \<and>
     output_worker_number (ttys s tty) \<noteq> TTY_OUTPUT_WORKER_STDIN \<and> tty_holds (canonical_queue (ttys s tty)) xs \<and>
     (\<exists>ys. tty_holds (output_queue (ttys s tty)) ys)"

abbreviation modes :: "addr \<Rightarrow> io_state \<Rightarrow> termios_d" where "modes tty s \<equiv> tt_termios (ttys s tty)"

text \<open>Flushing the output touches neither the line nor memory.\<close>

definition keeps_line :: "addr \<Rightarrow> io_state \<Rightarrow> io_state \<Rightarrow> bool" where
  "keeps_line tty s s' \<longleftrightarrow> bytes s' = bytes s \<and> canonical_queue (ttys s' tty) = canonical_queue (ttys s tty) \<and>
     tt_magic (ttys s' tty) = tt_magic (ttys s tty) \<and> tt_termios (ttys s' tty) = tt_termios (ttys s tty) \<and>
     output_worker_number (ttys s' tty) = output_worker_number (ttys s tty) \<and> (\<exists>ys. tty_holds (output_queue (ttys s' tty)) ys)"

lemma flushed_result: "tty_holds q xs \<Longrightarrow> \<exists>q'. flushed q = Inr (xs, q') \<and> tty_holds q' []"
  using flush_queue_result [of q xs "[]"] by (auto simp: flushed_def)

lemma flush_console_keeps:
  assumes "tty_holds (output_queue (ttys s tty)) ys"
  shows "\<exists>s'. tty_flush_output_queue tty c s = Inr s' \<and> keeps_line tty s s'"
proof -
  obtain q' where q: "flushed (output_queue (ttys s tty)) = Inr (ys, q')" "tty_holds q' []" using flushed_result [OF assms] by blast
  show ?thesis using q assms by (auto simp: tty_flush_output_queue_def keeps_line_def)
qed

lemma flush_serial_keeps:
  assumes "tty_holds (output_queue (ttys s tty)) ys"
  shows "\<exists>s'. tty_flush_output_queue_to_serial tty c s = Inr s' \<and> keeps_line tty s s'"
proof -
  obtain q' where q: "flushed (output_queue (ttys s tty)) = Inr (ys, q')" "tty_holds q' []" using flushed_result [OF assms] by blast
  show ?thesis using q assms by (auto simp: tty_flush_output_queue_to_serial_def keeps_line_def)
qed

lemma copy_output_keeps:
  assumes "tty_holds (output_queue (ttys s tty)) ys"
  shows "keeps_line tty s (snd (tty_copy_output_buffer link tty s))"
proof -
  have "q\<lparr>tq_buf := \<lambda>i. if i < n then tq_buf q i else tq_buf q i\<rparr> = q" for q n by (cases q) simp
  then show ?thesis using assms by (auto simp: tty_copy_output_buffer_def keeps_line_def)
qed

lemma flush_ex_keeps:
  assumes "tty_holds (output_queue (ttys s tty)) ys" "output_worker_number (ttys s tty) \<noteq> TTY_OUTPUT_WORKER_STDIN"
  shows "\<exists>s'. tty_flush_output_queue_ex ch tty s = Inr s' \<and> keeps_line tty s s'"
proof -
  have same: "keeps_line tty s s" using assms(1) by (auto simp: keeps_line_def)
  show ?thesis using flush_console_keeps [OF assms(1)] flush_serial_keeps [OF assms(1)] copy_output_keeps [OF assms(1)] same assms(2)
    by (simp add: tty_flush_output_queue_ex_def Let_def)
qed

lemma keeps_line_canon: "canon tty s xs \<Longrightarrow> keeps_line tty s s' \<Longrightarrow> canon tty s' xs"
  by (simp add: canon_def keeps_line_def)

lemma put_canonical_canon:
  assumes c: "canon tty s xs"
  shows "\<exists>s'. put_canonical tty b s = Inr s' \<and> canon tty s' (if length xs < 1023 then xs @ [b] else xs) \<and>
    bytes s' = bytes s \<and> modes tty s' = modes tty s"
proof -
  have h: "tty_holds (canonical_queue (ttys s tty)) xs" using c by (simp add: canon_def)
  show ?thesis
  proof (cases "length xs < 1023")
    case True
    then show ?thesis using putchar_holds [OF h True, of b] c by (auto simp: put_canonical_def canon_def)
  next
    case False
    then have "length xs = 1023" using h by (simp add: tty_holds_def)
    then show ?thesis using putchar_full [OF h, of b] c by (auto simp: put_canonical_def canon_def)
  qed
qed

lemma erase_canonical_canon:
  assumes c: "canon tty s xs"
  shows "\<exists>s'. erase_canonical tty s = Inr s' \<and> canon tty s' (butlast xs) \<and> bytes s' = bytes s \<and> modes tty s' = modes tty s"
proof -
  have h: "tty_holds (canonical_queue (ttys s tty)) xs" using c by (simp add: canon_def)
  show ?thesis using erase_last_holds [OF h] c by (auto simp: erase_canonical_def canon_def)
qed

lemma write3_char_canon:
  assumes c: "canon tty s xs"
  shows "\<exists>s'. write3_char ch tty b s = Inr s' \<and> canon tty s' (edit (modes tty s) xs [b]) \<and> bytes s' = bytes s \<and> modes tty s' = modes tty s"
proof -
  have i: "c_lflag (modes tty s) AND ICANON \<noteq> 0" using c by (simp add: canon_def)
  show ?thesis
  proof (cases "b = 10")
    case True
    obtain s1 where s1: "put_canonical tty b s = Inr s1" "canon tty s1 (if length xs < 1023 then xs @ [b] else xs)"
      "bytes s1 = bytes s" "modes tty s1 = modes tty s" using put_canonical_canon [OF c] by blast
    obtain ys where "tty_holds (output_queue (ttys s1 tty)) ys" "output_worker_number (ttys s1 tty) \<noteq> TTY_OUTPUT_WORKER_STDIN"
      using s1(2) by (auto simp: canon_def)
    then obtain s2 where s2: "tty_flush_output_queue_ex ch tty s1 = Inr s2" "keeps_line tty s1 s2" using flush_ex_keeps by blast
    have "write3_char ch tty b s = Inr s2" using i True s1(1) s2(1) by (simp add: write3_char_def)
    moreover have "bytes s2 = bytes s" "modes tty s2 = modes tty s" using s2(2) s1(3,4) by (simp_all add: keeps_line_def)
    ultimately show ?thesis using keeps_line_canon [OF s1(2) s2(2)] True by (auto split: if_splits)
  next
    case False
    show ?thesis
    proof (cases "is_erase b (modes tty s)")
      case True
      then show ?thesis using erase_canonical_canon [OF c] i False by (simp add: write3_char_def)
    next
      case e: False
      then show ?thesis using put_canonical_canon [OF c, of b] i False by (simp add: write3_char_def)
    qed
  qed
qed

lemma edit_Cons: "edit t xs (c # cs) = edit t (edit t xs [c]) cs"
  by simp

lemma write_loop_canon:
  "canon tty s xs \<Longrightarrow> \<exists>s'. write_loop (write3_char ch tty) p n s = Inr s' \<and> canon tty s' (edit (modes tty s) xs (read_bytes (bytes s) p n)) \<and>
    bytes s' = bytes s \<and> modes tty s' = modes tty s"
proof (induction n arbitrary: p s xs)
  case (Suc n)
  obtain s1 where s1: "write3_char ch tty (bytes s p) s = Inr s1" "canon tty s1 (edit (modes tty s) xs [bytes s p])"
    "bytes s1 = bytes s" "modes tty s1 = modes tty s" using write3_char_canon [OF Suc.prems] by blast
  obtain s' where "write_loop (write3_char ch tty) (p + 1) n s1 = Inr s'"
    "canon tty s' (edit (modes tty s1) (edit (modes tty s) xs [bytes s p]) (read_bytes (bytes s1) (p + 1) n))"
    "bytes s' = bytes s1" "modes tty s' = modes tty s1" using Suc.IH [OF s1(2)] by blast
  moreover have "edit (modes tty s) xs (read_bytes (bytes s) p (Suc n)) =
      edit (modes tty s) (edit (modes tty s) xs [bytes s p]) (read_bytes (bytes s) (p + 1) n)"
    unfolding read_bytes_Suc by (rule edit_Cons)
  ultimately show ?case using s1 by auto
qed simp

lemma read_canonical_canon:
  assumes c: "canon tty s xs" and p: "p \<noteq> NULL" "0 < n" "n < 2 ^ 31"
  shows "\<exists>s'. tty_read3 tty p (int n) s = Inr (int (length (first_line n xs)), s') \<and> canon tty s' (drop (length (first_line n xs)) xs) \<and>
    read_bytes (bytes s') p (length (first_line n xs)) = first_line n xs \<and> (\<forall>a. a \<notin> area p n \<longrightarrow> bytes s' a = bytes s a)"
proof -
  let ?k = "taken newline n xs"
  have l: "length (first_line n xs) = ?k" using taken_le [of newline n xs] unfolding take_taken [symmetric] by simp
  have h: "tty_holds (canonical_queue (ttys s tty)) xs" using c by (simp add: canon_def)
  obtain q' m' where r: "read_loop newline n p (canonical_queue (ttys s tty)) (bytes s) = Inr (?k, q', m')" "tty_holds q' (drop ?k xs)"
    "read_bytes m' p ?k = take ?k xs" "\<forall>a. a \<notin> area p n \<longrightarrow> m' a = bytes s a"
    using read_loop_result [OF h, of n newline p "bytes s"] p(3) by auto
  have "tty_read3 tty p (int n) s = Inr (int ?k, upd_tty tty (\<lambda>t. t\<lparr>canonical_queue := q'\<rparr>) (s\<lparr>bytes := m'\<rparr>))"
    using c p r(1) by (simp add: tty_read3_def canon_def read_canonical_def)
  then show ?thesis using c r(2-4) unfolding l take_taken by (simp add: canon_def)
qed

section \<open>Pseudo terminals\<close>

text \<open>Two linked terminals behind two files. What the master writes lands in the raw queue of the slave, what the slave
  writes in the output queue of the master.\<close>

definition pty_pair :: "addr \<Rightarrow> addr \<Rightarrow> io_state \<Rightarrow> bool" where
  "pty_pair fm fs s \<longleftrightarrow> (let tm = f_tty (files s fm); ts = f_tty (files s fs) in tm \<noteq> NULL \<and> ts \<noteq> NULL \<and> tm \<noteq> ts \<and>
     tt_magic (ttys s tm) = TTY_MAGIC \<and> tt_magic (ttys s ts) = TTY_MAGIC \<and>
     tt_subtype (ttys s tm) = TTY_SUBTYPE_PTY_MASTER \<and> tt_subtype (ttys s ts) = TTY_SUBTYPE_PTY_SLAVE \<and>
     tt_link (ttys s tm) = ts \<and> tt_link (ttys s ts) = tm)"

definition to_slave :: "addr \<Rightarrow> io_state \<Rightarrow> tty_queue" where "to_slave fs s = raw_queue (ttys s (f_tty (files s fs)))"
definition to_master :: "addr \<Rightarrow> io_state \<Rightarrow> tty_queue" where "to_master fm s = output_queue (ttys s (f_tty (files s fm)))"

lemma master_write:
  assumes p: "pty_pair fm fs s" and h: "tty_holds (to_slave fs s) xs" and b: "buf \<noteq> NULL" "0 < n"
  shows "\<exists>s'. write_tty_object fm buf (int n) s = Inr (int n, s') \<and> pty_pair fm fs s' \<and>
    tty_holds (to_slave fs s') (xs @ take (1023 - length xs) (read_bytes (bytes s) buf n)) \<and> to_master fm s' = to_master fm s \<and>
    bytes s' = bytes s"
proof -
  obtain q' where q: "put_all (read_bytes (bytes s) buf n) (to_slave fs s) = Inr q'"
    "tty_holds q' (xs @ take (1023 - length xs) (read_bytes (bytes s) buf n))" using put_all_result [OF h] by blast
  have "write_tty_object fm buf (int n) s = Inr (int n, upd_tty (f_tty (files s fs)) (\<lambda>t. t\<lparr>raw_queue := q'\<rparr>) s)"
    using p b q(1) by (simp add: write_tty_object_def pty_pair_def tty_write_raw_def to_slave_def Let_def)
  then show ?thesis using p q(2) by (simp add: pty_pair_def to_slave_def to_master_def Let_def)
qed

lemma slave_read:
  assumes p: "pty_pair fm fs s" and h: "tty_holds (to_slave fs s) xs" and b: "buf \<noteq> NULL" "0 < n" "n < 2 ^ 31"
  shows "\<exists>s'. read_tty_object fs buf (int n) s = Inr (int (min n (length xs)), s') \<and> pty_pair fm fs s' \<and>
    tty_holds (to_slave fs s') (drop n xs) \<and> read_bytes (bytes s') buf (min n (length xs)) = take n xs"
proof -
  let ?k = "min n (length xs)"
  obtain q' m' where r: "read_loop never n buf (to_slave fs s) (bytes s) = Inr (?k, q', m')" "tty_holds q' (drop ?k xs)"
    "read_bytes m' buf ?k = take ?k xs" using read_loop_result [OF h, of n never buf "bytes s"] b(3) by (auto simp: taken_never)
  have "read_tty_object fs buf (int n) s = Inr (int ?k, upd_tty (f_tty (files s fs)) (\<lambda>t. t\<lparr>raw_queue := q'\<rparr>) (s\<lparr>bytes := m'\<rparr>))"
    using p b r(1) by (simp add: read_tty_object_def pty_pair_def tty_read_raw_def to_slave_def Let_def
        TTY_SUBTYPE_PTY_MASTER_def TTY_SUBTYPE_PTY_SLAVE_def)
  moreover have "drop ?k xs = drop n xs" "take ?k xs = take n xs" by (simp_all add: min_def)
  ultimately show ?thesis using p r(2,3) by (simp add: pty_pair_def to_slave_def Let_def)
qed

lemma slave_write:
  assumes p: "pty_pair fm fs s" and h: "tty_holds (to_master fm s) xs" and b: "buf \<noteq> NULL" "0 < n"
  shows "\<exists>s'. write_tty_object fs buf (int n) s = Inr (int (min n (1023 - length xs)), s') \<and> pty_pair fm fs s' \<and>
    tty_holds (to_master fm s') (xs @ take (1023 - length xs) (read_bytes (bytes s) buf n)) \<and> to_slave fs s' = to_slave fs s \<and>
    bytes s' = bytes s"
proof -
  obtain q' where q: "put_until_full (read_bytes (bytes s) buf n) (to_master fm s) = Inr (min n (1023 - length xs), q')"
    "tty_holds q' (xs @ take (1023 - length xs) (read_bytes (bytes s) buf n))"
    using put_until_full_result [OF h, of "read_bytes (bytes s) buf n"] by auto
  have "write_tty_object fs buf (int n) s = Inr (int (min n (1023 - length xs)), upd_tty (f_tty (files s fm)) (\<lambda>t. t\<lparr>output_queue := q'\<rparr>) s)"
    using p b q(1) by (simp add: write_tty_object_def pty_pair_def tty_write2_def to_master_def Let_def
        TTY_SUBTYPE_PTY_MASTER_def TTY_SUBTYPE_PTY_SLAVE_def)
  then show ?thesis using p q(2) by (auto simp add: pty_pair_def to_slave_def to_master_def Let_def)
qed

lemma master_read:
  assumes p: "pty_pair fm fs s" and h: "tty_holds (to_master fm s) xs" and b: "buf \<noteq> NULL" "0 < n" "n < 2 ^ 31"
  shows "\<exists>s'. read_tty_object fm buf (int n) s = Inr (int (min n (length xs)), s') \<and> pty_pair fm fs s' \<and>
    tty_holds (to_master fm s') (drop n xs) \<and> read_bytes (bytes s') buf (min n (length xs)) = take n xs"
proof -
  let ?k = "min n (length xs)"
  obtain q' m' where r: "read_loop never n buf (to_master fm s) (bytes s) = Inr (?k, q', m')" "tty_holds q' (drop ?k xs)"
    "read_bytes m' buf ?k = take ?k xs" using read_loop_result [OF h, of n never buf "bytes s"] b(3) by (auto simp: taken_never)
  have "read_tty_object fm buf (int n) s = Inr (int ?k, upd_tty (f_tty (files s fm)) (\<lambda>t. t\<lparr>output_queue := q'\<rparr>) (s\<lparr>bytes := m'\<rparr>))"
    using p b r(1) by (simp add: read_tty_object_def pty_pair_def tty_read2_def to_master_def Let_def)
  moreover have "drop ?k xs = drop n xs" "take ?k xs = take n xs" by (simp_all add: min_def)
  ultimately show ?thesis using p r(2,3) by (auto simp: pty_pair_def to_master_def Let_def)
qed

section \<open>Properties\<close>

text \<open>
  The queue of a terminal is a list of at most 1023 characters: every schedule of puts and gets that neither
  overfills nor underruns it returns what the list returns; a put into the full queue and a get from the empty one
  report -1 and change nothing.
\<close>

theorem tty_queue_refines_list:
  assumes "tty_holds q xs" and "list_run 1023 ops xs = Some (ms, r)"
  shows "(\<exists>q'. queue_run put_char get_char ops q = Inr (ms, q') \<and> tty_holds q' r) \<and>
    (length xs = 1023 \<longrightarrow> tty_queue_putchar c q = Inr (-1, q)) \<and> (xs = [] \<longrightarrow> tty_queue_getchar q = Inr (-1, q))"
  using chars.run_refines [OF assms(1) _ assms(2)] putchar_full [OF assms(1)] getchar_empty [of q] assms(1) by auto

theorem tty_queue_refines_list_witness:
  "\<exists>q'. queue_run put_char get_char [Put 65, Get] zero_queue = Inr ([65], q') \<and> tty_holds q' []"
  using tty_queue_refines_list [of zero_queue "[]" "[Put 65, Get]" "[65]" "[]"] by (simp add: tty_holds_def zero_queue_def)

text \<open>
  Claim C23. Flushing a queue ends exactly when it is empty or its head is a place of the ring, wherever the tail is; a
  queue in order is flushed completely: the characters leave in the order they came and the queue is empty.
\<close>

theorem flush_ends_iff:
  assumes "tq_buffer_size q = 1024"
  shows "(flush_queue q out \<noteq> None \<longleftrightarrow> tq_tail q = tq_head q \<or> unat (tq_head q) < 1024) \<and>
    (\<forall>xs. tty_holds q xs \<longrightarrow> (\<exists>q'. flush_queue q out = Some (Inr (out @ xs, q')) \<and> tty_holds q' []))"
  using flush_ends [OF assms] flush_ended [of q out] flush_queue_result [of q _ out] assms by auto

theorem flush_ends_iff_witness:
  "flush_queue (zero_queue\<lparr>tq_tail := 5\<rparr>) [] \<noteq> None \<and> flush_queue (zero_queue\<lparr>tq_head := 1024\<rparr>) [] = None"
  using flush_ends_iff [of "zero_queue\<lparr>tq_tail := 5\<rparr>" "[]"] flush_ends_iff [of "zero_queue\<lparr>tq_head := 1024\<rparr>" "[]"]
  by (simp add: zero_queue_def)

text \<open>
  Claim C13. In the canonical mode a terminal is a line editor. Writing reports all its characters, and leaves the line
  that typing them one by one gives: the erase character takes the last character back, any other is added while
  there is room. Reading then delivers the first line of it, its newline included, or what fits into the buffer. It
  does not wait for a newline: when none has been typed it delivers the unfinished line, although the comments of the
  code say that reading waits for the newline and receives whole lines.
\<close>

theorem canonical_mode_is_line_editor:
  assumes "canon tty s xs" and "buffer \<noteq> NULL" "0 < nr" and "p \<noteq> NULL" "0 < n" "n < 2 ^ 31"
    and "line = edit (tt_termios (ttys s tty)) xs (read_bytes (bytes s) buffer nr)"
  shows "\<exists>s1 s2. tty_write3 ch tty buffer (int nr) s = Inr (int nr, s1) \<and> canon tty s1 line \<and>
    tty_read3 tty p (int n) s1 = Inr (int (length (first_line n line)), s2) \<and>
    read_bytes (bytes s2) p (length (first_line n line)) = first_line n line \<and>
    canon tty s2 (drop (length (first_line n line)) line) \<and> (10 \<notin> set line \<longrightarrow> first_line n line = take n line)"
proof -
  obtain s1 where s1: "write_loop (write3_char ch tty) buffer nr s = Inr s1" "canon tty s1 line"
    using write_loop_canon [OF assms(1), of ch buffer nr] assms(7) by blast
  have "tty_write3 ch tty buffer (int nr) s = Inr (int nr, s1)"
    using assms(1-3) s1(1) by (simp add: tty_write3_def canon_def)
  then show ?thesis using read_canonical_canon [OF s1(2) assms(4-6)] s1(2) first_line_unfinished [of line n] by blast
qed

text \<open>A console terminal with the initial modes, in which a, the erase character and b are typed.\<close>

definition console_io :: io_state where
  "console_io = zero_io\<lparr>ttys := (\<lambda>_. zero_tty\<lparr>tt_magic := TTY_MAGIC, tt_termios := default_termios zero_termios\<rparr>),
     bytes := (\<lambda>_. 0)(0x100 := 97, 0x101 := 0x7f, 0x102 := 98)\<rparr>"

lemma zero_queue_holds: "tty_holds zero_queue []"
  by (simp add: tty_holds_def zero_queue_def)

lemma console_io_canon: "canon 0x40 console_io []"
  using zero_queue_holds by (auto simp: canon_def console_io_def zero_tty_def default_termios_def ICANON_def TTY_OUTPUT_WORKER_STDIN_def
      TTY_MAGIC_def)

lemma console_io_edit: "edit (tt_termios (ttys console_io 0x40)) [] (read_bytes (bytes console_io) 0x100 3) = [98]"
  by (simp add: numeral_3_eq_3 read_bytes_Suc console_io_def is_erase_def zero_tty_def default_termios_def VERASE_def)

theorem canonical_mode_is_line_editor_witness:
  "\<exists>s1 s2. tty_write3 0x7000 0x40 0x100 3 console_io = Inr (3, s1) \<and> canon 0x40 s1 [98] \<and>
    tty_read3 0x40 0x200 8 s1 = Inr (1, s2) \<and> read_bytes (bytes s2) 0x200 1 = [98]"
  using canonical_mode_is_line_editor [OF console_io_canon, where buffer = "0x100" and nr = 3 and p = "0x200" and n = 8 and
    line = "[98]" and ch = "0x7000"] console_io_edit
  by (auto simp: first_line_def)

text \<open>
  Claim C20. A pair of pseudo terminals is two channels. What the master writes the slave reads and the other way round,
  in order. The two differ when the channel is full: the slave is told how many characters were taken, the master is told
  that all were, although those beyond 1023 are lost.
\<close>

theorem pty_pair_is_two_channels:
  assumes "pty_pair fm fs s" and "tty_holds (to_slave fs s) xs" and "tty_holds (to_master fm s) ys"
    and "src \<noteq> NULL" "0 < n" and "dst \<noteq> NULL" "0 < k" "k < 2 ^ 31" and "data = read_bytes (bytes s) src n"
  shows "(\<exists>s1 s2. write_tty_object fm src (int n) s = Inr (int n, s1) \<and>
      read_tty_object fs dst (int k) s1 = Inr (int (min k (length (xs @ take (1023 - length xs) data))), s2) \<and>
      read_bytes (bytes s2) dst (min k (length (xs @ take (1023 - length xs) data))) = take k (xs @ take (1023 - length xs) data)) \<and>
    (\<exists>s1 s2. write_tty_object fs src (int n) s = Inr (int (min n (1023 - length ys)), s1) \<and>
      read_tty_object fm dst (int k) s1 = Inr (int (min k (length (ys @ take (1023 - length ys) data))), s2) \<and>
      read_bytes (bytes s2) dst (min k (length (ys @ take (1023 - length ys) data))) = take k (ys @ take (1023 - length ys) data))"
proof -
  obtain s1 where s1: "write_tty_object fm src (int n) s = Inr (int n, s1)" "pty_pair fm fs s1"
    "tty_holds (to_slave fs s1) (xs @ take (1023 - length xs) data)"
    using master_write [OF assms(1,2,4,5)] assms(9) by blast
  obtain s3 where s3: "write_tty_object fs src (int n) s = Inr (int (min n (1023 - length ys)), s3)" "pty_pair fm fs s3"
    "tty_holds (to_master fm s3) (ys @ take (1023 - length ys) data)"
    using slave_write [OF assms(1,3,4,5)] assms(9) by blast
  show ?thesis using slave_read [OF s1(2,3) assms(6-8)] master_read [OF s3(2,3) assms(6-8)] s1(1) s3(1) by blast
qed

definition pty_io :: io_state where
  "pty_io = zero_io\<lparr>files := (\<lambda>_. zero_file)(0x10 := zero_file\<lparr>f_tty := 0x50\<rparr>, 0x20 := zero_file\<lparr>f_tty := 0x60\<rparr>),
     ttys := (\<lambda>_. zero_tty)(0x50 := zero_tty\<lparr>tt_magic := TTY_MAGIC, tt_subtype := TTY_SUBTYPE_PTY_MASTER, tt_link := 0x60\<rparr>,
       0x60 := zero_tty\<lparr>tt_magic := TTY_MAGIC, tt_subtype := TTY_SUBTYPE_PTY_SLAVE, tt_link := 0x50\<rparr>)\<rparr>"

lemma pty_io_pair: "pty_pair 0x10 0x20 pty_io" "tty_holds (to_slave 0x20 pty_io) []" "tty_holds (to_master 0x10 pty_io) []"
  using zero_queue_holds by (simp_all add: pty_pair_def pty_io_def to_slave_def to_master_def zero_tty_def Let_def)

theorem pty_pair_is_two_channels_witness:
  "\<exists>s1 s2. write_tty_object 0x10 0x41 2 pty_io = Inr (2, s1) \<and> read_tty_object 0x20 0x80 9 s1 = Inr (2, s2) \<and>
    read_bytes (bytes s2) 0x80 2 = [0x41, 0x42]"
proof -
  have d: "[0x41, 0x42] = read_bytes (bytes pty_io) 0x41 2"
    unfolding numeral_2_eq_2 read_bytes_Suc by (simp add: pty_io_def zero_io_def)
  show ?thesis using pty_pair_is_two_channels [OF pty_io_pair _ _ _ _ _ d, where dst = "0x80" and k = 9] by (simp add: numeral_2_eq_2 [symmetric])
qed

end
