(* ===== verification/Descriptor_Table.thy ===== *)
theory Descriptor_Table
  imports Terminals
begin

text \<open>
  Regular files and the table of descriptors: the buffer of a file is a log with a reading position as long as nobody
  moves that position, and the duplicating calls keep the table well typed: every descriptor is free or names a live
  file, and the counter of a file is the number of its descriptors.
\<close>

section \<open>The buffer of a file is a log\<close>

lemma copy_result:
  assumes "n < 2 ^ 64" "area dst n \<inter> area src n = {}"
  shows "read_bytes (snd (memcpy dst src (word_of_int (int n)) m)) dst n = read_bytes m src n"
    "a \<notin> area dst n \<Longrightarrow> snd (memcpy dst src (word_of_int (int n)) m) a = m a"
proof -
  have u: "unat (word_of_int (int n) :: u64) = n" using assms(1) by (simp add: unat_of_nat)
  have o: "\<forall>i j. i < j \<and> j < unat (word_of_int (int n) :: u64) \<longrightarrow> at_off dst i \<noteq> at_off src j"
  proof (intro allI impI)
    fix i j assume "i < j \<and> j < unat (word_of_int (int n) :: u64)"
    then have "at_off dst i \<in> area dst n" "at_off src j \<in> area src n" unfolding u by (simp_all add: area_at)
    then show "at_off dst i \<noteq> at_off src j" using assms(2) by auto
  qed
  show "read_bytes (snd (memcpy dst src (word_of_int (int n)) m)) dst n = read_bytes m src n"
    using memcpy_effect(1) [OF o, of m] unfolding u .
  show "snd (memcpy dst src (word_of_int (int n)) m) a = m a" if "a \<notin> area dst n"
    using memcpy_effect(2) [OF o, of a m] that unfolding u by simp
qed

lemma read_bytes_add: "read_bytes m p (j + k) = read_bytes m p j @ read_bytes m (at_off p j) k"
  by (induction j arbitrary: p) (simp_all add: read_bytes_Suc algebra_simps)

lemma area_part: "i + n \<le> k \<Longrightarrow> a \<in> area (at_off p i) n \<Longrightarrow> a \<in> area p k"
  using area_sub [of i n k p] by blast

text \<open>A regular file that holds \<open>data\<close>, of which \<open>r\<close> bytes have been read.\<close>

definition log :: "addr \<Rightarrow> io_state \<Rightarrow> u8 list \<Rightarrow> nat \<Rightarrow> bool" where
  "log f s data r \<longleftrightarrow> f \<noteq> NULL \<and> f_used (files s f) \<and> f_magic (files s f) = 1234 \<and> f_object (files s f) = ObjectTypeFile \<and>
     f_lbfsize (files s f) = BUFSIZ \<and> f_w (files s f) = int (length data) \<and> length data \<le> 1024 \<and> f_r (files s f) = int r \<and>
     r \<le> length data \<and> f_cnt (files s f) = 1024 - int (length data) \<and> read_bytes (bytes s) (f_base (files s f)) (length data) = data"

lemma log_write:
  assumes l: "log f s data r" and b: "str \<noteq> NULL" "n < 1024"
    and d: "area str n \<inter> area (f_base (files s f)) 1024 = {}"
  shows "\<exists>s'. file_write_buffer f str (int n) s =
      (if length data = 1024 then -1 else int (min n (1024 - length data)), s') \<and>
    log f s' (data @ take (1024 - length data) (read_bytes (bytes s) str n)) r \<and> f_base (files s' f) = f_base (files s f)"
proof (cases "length data = 1024")
  case True
  have x: "f_w (files s f) = 1024" "f_cnt (files s f) = 0" using l True by (simp_all add: log_def)
  have "(files s f)\<lparr>f_w := BUFSIZ, f_cnt := 0\<rparr> = files s f" using x by (cases "files s f") (simp add: io_consts)
  then have same: "s\<lparr>files := (files s)(f := (files s f)\<lparr>f_w := BUFSIZ, f_cnt := 0\<rparr>)\<rparr> = s" by simp
  have "file_write_buffer f str (int n) s = (-1, upd_file f (\<lambda>x. x\<lparr>f_w := BUFSIZ, f_cnt := 0\<rparr>) s)"
    using l b x by (simp add: file_write_buffer_def plain_object_def write_plain_def Let_def log_def io_consts)
  then show ?thesis using same l True by auto
next
  case False
  let ?x = "files s f" and ?w = "length data" and ?k = "min n (1024 - length data)"
  have w: "?w < 1024" using l False by (simp add: log_def)
  let ?m = "snd (memcpy (f_base ?x + word_of_int (int ?w)) str (word_of_int (int ?k)) (bytes s))"
  have base: "f_base ?x + word_of_int (int ?w) = at_off (f_base ?x) ?w" by simp
  have k: "?k < 2 ^ 64" "?w + ?k \<le> 1024" using b(2) w by auto
  have dd: "area (at_off (f_base ?x) ?w) ?k \<inter> area str ?k = {}"
    using d area_part [OF k(2), of _ "f_base ?x"] area_mono [of ?k n str] by auto
  note c = copy_result [OF k(1) dd, where m = "bytes s", folded base]
  have old: "read_bytes ?m (f_base ?x) ?w = data"
  proof -
    have "read_bytes ?m (f_base ?x) ?w = read_bytes (bytes s) (f_base ?x) ?w"
    proof (rule read_bytes_cong)
      fix a assume "a \<in> area (f_base ?x) ?w"
      then obtain i where i: "i < ?w" "a = at_off (f_base ?x) i" by (auto simp: area_elem)
      then have "a \<notin> area (at_off (f_base ?x) ?w) ?k" using at_off_below_area [of i ?w ?k "f_base ?x"] k(2) by simp
      then show "?m a = bytes s a" using c(2) unfolding base by blast
    qed
    then show ?thesis using l by (simp add: log_def)
  qed
  have new: "read_bytes ?m (f_base ?x) (?w + ?k) = data @ read_bytes (bytes s) str ?k"
    unfolding read_bytes_add old using c(1) unfolding base by simp
  have t: "read_bytes (bytes s) str ?k = take (1024 - ?w) (read_bytes (bytes s) str n)"
    by (cases "1024 - ?w \<le> n") (simp_all add: read_bytes_def take_map take_upt min_def)
  let ?y = "(upd_sync (\<lambda>y. y\<lparr>sy_can_read := True\<rparr>) ?x)\<lparr>f_p := f_base ?x + word_of_int (int ?w) + word_of_int (int ?k),
     f_w := int ?w + int ?k, f_cnt := f_cnt ?x - int ?k, f_flags := SRD\<rparr>"
  have lt: "(1024 - int ?w < int n) = (\<not> n \<le> 1024 - ?w)" using w by linarith
  have "file_write_buffer f str (int n) s = (int ?k, s\<lparr>bytes := ?m, files := (files s)(f := ?y)\<rparr>)"
    using l b w by (simp add: lt file_write_buffer_def plain_object_def write_plain_def Let_def log_def io_consts of_nat_min min_def of_nat_diff)
  moreover have "log f (s\<lparr>bytes := ?m, files := (files s)(f := ?y)\<rparr>) (data @ read_bytes (bytes s) str ?k) r"
    using l new k(2) by (simp add: log_def)
  ultimately show ?thesis using False unfolding t by auto
qed

lemma drop_read_bytes: "drop r (read_bytes m p (r + k)) = read_bytes m (at_off p r) k"
  by (simp add: read_bytes_add)

lemma take_read_bytes: "k \<le> n \<Longrightarrow> take k (read_bytes m p n) = read_bytes m p k"
  by (simp add: read_bytes_def take_map)

lemma request_count:
  assumes "r < L" "L \<le> 1024"
  shows "(if int L - int r < (if BUFSIZ < int n then BUFSIZ else int n) then int L - int r else (if BUFSIZ < int n then BUFSIZ else int n)) =
    int (min n (L - r))"
proof (cases "n \<le> L - r")
  case True
  then have "\<not> BUFSIZ < int n" "\<not> int L - int r < int n" using assms by (simp_all add: io_consts)
  then show ?thesis using True by simp
next
  case False
  then have "int L - int r < (if BUFSIZ < int n then BUFSIZ else int n) \<or> int L - int r = (if BUFSIZ < int n then BUFSIZ else int n)"
    using assms by (simp add: io_consts) linarith
  then show ?thesis using False assms by auto
qed

lemma log_read:
  assumes l: "log f s data r" and b: "buf \<noteq> NULL" "0 < n" "n < 65536"
    and d: "area buf n \<inter> area (f_base (files s f)) 1024 = {}"
  shows "\<exists>s'. file_read_buffer f buf (int n) s = (int (min n (length data - r)), s') \<and>
    log f s' data (r + min n (length data - r)) \<and> f_base (files s' f) = f_base (files s f) \<and>
    read_bytes (bytes s') buf (min n (length data - r)) = take n (drop r data)"
proof (cases "r = length data")
  case True
  have "file_read_buffer f buf (int n) s = (0, s)"
    using l b True by (simp add: file_read_buffer_def plain_object_def read_plain_def Let_def log_def io_consts)
  then show ?thesis using l True by simp
next
  case False
  let ?x = "files s f" and ?k = "min n (length data - r)" and ?c = "if BUFSIZ < int n then BUFSIZ else int n"
  have r: "r < length data" "length data \<le> 1024" using l False by (simp_all add: log_def)
  let ?m = "snd (memcpy buf (f_base ?x + word_of_int (int r)) (word_of_int (int ?k)) (bytes s))"
  have base: "f_base ?x + word_of_int (int r) = at_off (f_base ?x) r" by simp
  have k: "?k < 2 ^ 64" "r + ?k \<le> 1024" "r + ?k \<le> length data" using b(3) r by auto
  have dd: "area buf ?k \<inter> area (at_off (f_base ?x) r) ?k = {}"
    using d area_part [OF k(2), of _ "f_base ?x"] area_mono [of ?k n buf] by auto
  note c = copy_result [OF k(1) dd, where m = "bytes s", folded base]
  have keep: "read_bytes ?m (f_base ?x) (length data) = data"
  proof -
    have "read_bytes ?m (f_base ?x) (length data) = read_bytes (bytes s) (f_base ?x) (length data)"
    proof (rule read_bytes_cong)
      fix a assume "a \<in> area (f_base ?x) (length data)"
      then have "a \<notin> area buf ?k" using d area_mono [of "length data" 1024 "f_base ?x"] area_mono [of ?k n buf] r(2) by auto
      then show "?m a = bytes s a" by (rule c(2))
    qed
    then show ?thesis using l by (simp add: log_def)
  qed
  have part: "read_bytes (bytes s) (at_off (f_base ?x) r) ?k = take n (drop r data)"
  proof -
    have e: "r + (length data - r) = length data" using k(3) by linarith
    have rb: "read_bytes (bytes s) (f_base ?x) (length data) = data" using l by (simp add: log_def)
    have "drop r data = read_bytes (bytes s) (at_off (f_base ?x) r) (length data - r)"
      using drop_read_bytes [of r "bytes s" "f_base ?x" "length data - r"] unfolding e rb .
    moreover have "take n (drop r data) = take ?k (drop r data)" by (simp add: min_def)
    ultimately show ?thesis using take_read_bytes [of ?k "length data - r" "bytes s" "at_off (f_base ?x) r"] by simp
  qed
  let ?y = "(upd_sync (\<lambda>y. y\<lparr>sy_can_write := True\<rparr>) (?x\<lparr>f_p := f_base ?x + word_of_int (int r) + word_of_int (int ?k),
     f_r := int r + int ?k\<rparr>))\<lparr>f_flags := f_flags ?x OR SWR\<rparr>"
  have count: "(if int (length data) - int r < ?c then int (length data) - int r else ?c) = int ?k" by (rule request_count [OF r])
  have k0: "0 < ?k" using r(1) b(2) by simp
  have c2: "\<not> int ?k \<le> 0" using k0 by linarith
  have c3: "\<not> int (length data) < int r + int ?k" using k(3) by linarith
  have c4: "\<not> BUFSIZ < ?c" by simp
  have c5: "int (length data) - int r \<noteq> 0" using r(1) by linarith
  have obj: "f \<noteq> NULL" "f_used ?x" "f_magic ?x = 1234" "f_object ?x = ObjectTypeFile" "f_lbfsize ?x = BUFSIZ" "f_w ?x = int (length data)"
    "f_r ?x = int r" "int n mod 0x10000 = int n" using l b by (simp_all add: log_def)
  have plain: "read_plain f buf ?c s = (int ?k, s\<lparr>bytes := ?m, files := (files s)(f := ?y)\<rparr>)"
    unfolding read_plain_def Let_def obj if_not_P [OF c4] if_not_P [OF c5] count if_not_P [OF c2]
    using r c3 by (simp add: obj io_consts)
  have "file_read_buffer f buf (int n) s = read_plain f buf ?c s"
    using b obj by (simp add: file_read_buffer_def plain_object_def Let_def)
  note result = trans [OF this plain]
  have "log f (s\<lparr>bytes := ?m, files := (files s)(f := ?y)\<rparr>) data (r + ?k)"
    using l keep k(3) by (simp add: log_def)
  moreover have "read_bytes ?m buf ?k = take n (drop r data)" using c(1) part unfolding base by simp
  ultimately show ?thesis using result by auto
qed

text \<open>The other sizes: a write of 1024 bytes or more is refused, and a read takes its size modulo 65536.\<close>

lemma log_write_any:
  assumes l: "log f s data r" and b: "str \<noteq> NULL" and d: "area str n \<inter> area (f_base (files s f)) 1024 = {}"
  shows "\<exists>s'. file_write_buffer f str (int n) s =
      (if length data = 1024 \<or> 1024 \<le> n then -1 else int (min n (1024 - length data)), s') \<and>
    log f s' (data @ take (1024 - length data) (offered (read_bytes (bytes s) str n))) r \<and> f_base (files s' f) = f_base (files s f)"
proof (cases "1024 \<le> n")
  case True
  then have "file_write_buffer f str (int n) s = (-1, s)" using l b by (simp add: file_write_buffer_def log_def io_consts)
  then show ?thesis using True l by (simp add: offered_def)
next
  case False
  then show ?thesis using log_write [OF l b _ d] by (simp add: offered_def)
qed

lemma log_read_any:
  assumes l: "log f s data r" and b: "buf \<noteq> NULL" and d: "area buf n \<inter> area (f_base (files s f)) 1024 = {}"
  shows "\<exists>s'. file_read_buffer f buf (int n) s = (if asked n = 0 then -1 else int (min (asked n) (length data - r)), s') \<and>
    log f s' data (r + min (asked n) (length data - r)) \<and> f_base (files s' f) = f_base (files s f) \<and>
    read_bytes (bytes s') buf (min (asked n) (length data - r)) = take (asked n) (drop r data)"
proof -
  have m: "int n mod 0x10000 = int (asked n)" "int (asked n) mod 0x10000 = int (asked n)" by (simp_all add: asked_def zmod_int)
  have eq: "file_read_buffer f buf (int n) s = file_read_buffer f buf (int (asked n)) s"
    unfolding file_read_buffer_def m ..
  show ?thesis
  proof (cases "asked n = 0")
    case True
    have "file_read_buffer f buf (int n) s = (-1, s)"
      unfolding file_read_buffer_def m using l b True by (simp add: log_def io_consts)
    then show ?thesis using True l by simp
  next
    case False
    have "asked n < 65536" "asked n \<le> n" by (simp_all add: asked_def)
    moreover from this have "area buf (asked n) \<inter> area (f_base (files s f)) 1024 = {}" using d area_mono [of "asked n" n buf] by blast
    ultimately show ?thesis unfolding eq using log_read [OF l b, of "asked n"] False by simp
  qed
qed

text \<open>Any sequence of writes and reads on the file, each with its result and its bytes.\<close>

datatype log_call = Append addr nat | Fetch addr nat

fun log_calls :: "addr \<Rightarrow> log_call list \<Rightarrow> io_state \<Rightarrow> transfer list \<times> io_state" where
  "log_calls f [] s = ([], s)"
| "log_calls f (Append str n # cs) s =
    (case file_write_buffer f str (int n) s of (k, s1) \<Rightarrow> case log_calls f cs s1 of (ts, s2) \<Rightarrow> (Sent k (read_bytes (bytes s) str n) # ts, s2))"
| "log_calls f (Fetch buf n # cs) s =
    (case file_read_buffer f buf (int n) s of (k, s1) \<Rightarrow> case log_calls f cs s1 of (ts, s2) \<Rightarrow> (Received n k (read_bytes (bytes s1) buf (nat k)) # ts, s2))"

text \<open>The log: a write of less than 1024 bytes appends what there is room for, and it fails when there is none or when it has
  1024 bytes or more; a read of some bytes, counted modulo 65536, goes on where the last one ended, and one of none fails.\<close>

fun log_trace :: "transfer list \<Rightarrow> u8 list \<Rightarrow> nat \<Rightarrow> u8 list \<Rightarrow> nat \<Rightarrow> bool" where
  "log_trace [] data r data' r' \<longleftrightarrow> data' = data \<and> r' = r"
| "log_trace (Sent k new # ts) data r data' r' \<longleftrightarrow>
    k = (if length data = 1024 \<or> 1024 \<le> length new then -1 else int (min (length new) (1024 - length data))) \<and>
    log_trace ts (data @ take (1024 - length data) (offered new)) r data' r'"
| "log_trace (Received n k got # ts) data r data' r' \<longleftrightarrow>
    k = (if asked n = 0 then -1 else int (min (asked n) (length data - r))) \<and> got = take (asked n) (drop r data) \<and>
    log_trace ts data (r + min (asked n) (length data - r)) data' r'"

fun log_call_ok :: "addr \<Rightarrow> log_call \<Rightarrow> bool" where
  "log_call_ok base (Append str n) \<longleftrightarrow> str \<noteq> NULL \<and> area str n \<inter> area base 1024 = {}"
| "log_call_ok base (Fetch buf n) \<longleftrightarrow> buf \<noteq> NULL \<and> area buf n \<inter> area base 1024 = {}"

lemma log_calls_result:
  "log f s data r \<Longrightarrow> \<forall>c \<in> set cs. log_call_ok (f_base (files s f)) c \<Longrightarrow>
    \<exists>ts s' data' r'. log_calls f cs s = (ts, s') \<and> log_trace ts data r data' r' \<and> log f s' data' r'"
proof (induction cs arbitrary: s data r)
  case (Cons c cs)
  show ?case
  proof (cases c)
    case (Append str n)
    with Cons.prems have ok: "str \<noteq> NULL" "area str n \<inter> area (f_base (files s f)) 1024 = {}" by simp_all
    let ?new = "data @ take (1024 - length data) (offered (read_bytes (bytes s) str n))"
    obtain s1 where s1: "file_write_buffer f str (int n) s = (if length data = 1024 \<or> 1024 \<le> n then -1 else int (min n (1024 - length data)), s1)"
      "log f s1 ?new r" "f_base (files s1 f) = f_base (files s f)"
      using log_write_any [OF Cons.prems(1) ok] by blast
    obtain ts s' data' r' where "log_calls f cs s1 = (ts, s')" "log_trace ts ?new r data' r'" "log f s' data' r'"
      using Cons.IH [OF s1(2)] Cons.prems(2) s1(3) by auto
    then show ?thesis using s1(1) Append
      by (cases "length data = 1024") auto
  next
    case (Fetch buf n)
    with Cons.prems have ok: "buf \<noteq> NULL" "area buf n \<inter> area (f_base (files s f)) 1024 = {}" by simp_all
    obtain s1 where s1: "file_read_buffer f buf (int n) s = (if asked n = 0 then -1 else int (min (asked n) (length data - r)), s1)"
      "log f s1 data (r + min (asked n) (length data - r))" "f_base (files s1 f) = f_base (files s f)"
      "read_bytes (bytes s1) buf (min (asked n) (length data - r)) = take (asked n) (drop r data)"
      using log_read_any [OF Cons.prems(1) ok] by blast
    obtain ts s' data' r' where "log_calls f cs s1 = (ts, s')" "log_trace ts data (r + min (asked n) (length data - r)) data' r'" "log f s' data' r'"
      using Cons.IH [OF s1(2)] Cons.prems(2) s1(3) by auto
    then show ?thesis using s1(1,4) Fetch
      by (cases "asked n = 0") auto
  qed
qed simp

text \<open>Seeking moves the end of the log along with the reading position, and leaves the count of free places.\<close>

definition sought :: "addr \<Rightarrow> nat \<Rightarrow> io_state \<Rightarrow> io_state" where
  "sought f off s = upd_file f (\<lambda>x. x\<lparr>f_r := int off, f_w := int off, f_p := at_off (f_base x) off\<rparr>) s"

lemma k_fseek_sought:
  assumes "log f s data r" "off \<le> 1024 - length data"
  shows "k_fseek f (int off) SEEK_SET s = Inr (0, sought f off s)"
proof -
  have l: "length data \<le> 1024" and c: "f_cnt (files s f) = 1024 - int (length data)" "f \<noteq> NULL" using assms(1) by (simp_all add: log_def)
  have o: "\<not> f_cnt (files s f) < int off" "int off < 2 ^ 31" using assms(2) l c by auto
  have "int_of_long (int off) = int off"
    unfolding int_of_long_def by (subst sint_sbintrunc', subst signed_take_bit_int_eq_self) (use o in auto)
  then show ?thesis using c(2) o(1) by (simp add: k_fseek_def SEEK_SET_def Let_def sought_def)
qed

lemma sought_read:
  assumes l: "log f s data r" and o: "off \<le> 1024" and b: "buf \<noteq> NULL" "0 < n" "n < 65536"
  shows "file_read_buffer f buf (int n) (sought f off s) = (0, sought f off s)"
  using l o b by (simp add: file_read_buffer_def plain_object_def read_plain_def sought_def Let_def log_def io_consts)

lemma sought_write:
  assumes l: "log f s data r" and o: "off < 1024" and b: "str \<noteq> NULL" "n < 1024" "n \<le> 1024 - length data" "length data < 1024"
    and d: "area str n \<inter> area (at_off (f_base (files s f)) off) n = {}"
  shows "\<exists>s'. file_write_buffer f str (int n) (sought f off s) = (int n, s') \<and>
    read_bytes (bytes s') (at_off (f_base (files s f)) off) n = read_bytes (bytes s) str n"
proof -
  let ?x = "files s f"
  let ?m = "snd (memcpy (f_base ?x + word_of_int (int off)) str (word_of_int (int n)) (bytes s))"
  have base: "f_base ?x + word_of_int (int off) = at_off (f_base ?x) off" by simp
  have c: "f_cnt ?x = 1024 - int (length data)" "\<not> f_cnt ?x < int n" "\<not> 1024 < f_cnt ?x" "\<not> f_cnt ?x < 0" "\<not> f_cnt ?x \<le> 0"
    using l b(3,4) by (auto simp: log_def)
  have "\<exists>s'. file_write_buffer f str (int n) (sought f off s) = (int n, s') \<and> bytes s' = ?m"
    using l o b c(2-5) by (simp add: file_write_buffer_def plain_object_def write_plain_def sought_def Let_def log_def io_consts)
  moreover have "n < 2 ^ 64" using b(2) by simp
  then have "read_bytes ?m (at_off (f_base ?x) off) n = read_bytes (bytes s) str n"
    unfolding base using d by (intro copy_result(1)) auto
  ultimately show ?thesis by metis
qed

section \<open>The table of descriptors\<close>

text \<open>The descriptors of process \<open>p\<close> that name \<open>f\<close>.\<close>

definition fds_of :: "addr \<Rightarrow> io_state \<Rightarrow> addr \<Rightarrow> nat set" where
  "fds_of p s f = {i. i < 32 \<and> objects s p i = f}"

definition live_file :: "addr \<Rightarrow> io_state \<Rightarrow> bool" where
  "live_file f s \<longleftrightarrow> f_used (files s f) \<and> f_magic (files s f) = 1234"

text \<open>A well-typed table. Other holders of a file, such as descriptors of other processes, are counted by \<open>c\<close>.\<close>

definition table_ok :: "addr \<Rightarrow> (addr \<Rightarrow> nat) \<Rightarrow> io_state \<Rightarrow> bool" where
  "table_ok p c s \<longleftrightarrow> (\<forall>i < 32. objects s p i \<noteq> NULL \<longrightarrow> live_file (objects s p i) s) \<and>
     (\<forall>f. f \<noteq> NULL \<longrightarrow> f_fd_counter (files s f) = int (card (fds_of p s f) + c f))"

lemma finite_fds [simp]: "finite (fds_of p s f)"
  by (simp add: fds_of_def)

lemma fds_set:
  assumes "fd < 32"
  shows "fds_of p (s\<lparr>objects := (objects s)(p := (objects s p)(fd := v))\<rparr>) f =
    (if v = f then insert fd (fds_of p s f) else fds_of p s f - {fd})"
  using assms by (auto simp: fds_of_def)

lemma fds_upd_file [simp]: "fds_of p (s\<lparr>files := x\<rparr>) f = fds_of p s f"
  by (simp add: fds_of_def)

text \<open>A free slot gets a live file.\<close>

lemma table_ok_fill:
  assumes t: "table_ok p c s" and fd: "fd < 32" "objects s p fd = NULL" and f: "f \<noteq> NULL" "live_file f s"
  shows "table_ok p c (upd_file f (\<lambda>x. x\<lparr>f_fd_counter := f_fd_counter x + 1\<rparr>)
      (s\<lparr>objects := (objects s)(p := (objects s p)(fd := f))\<rparr>))" (is "table_ok p c ?s")
proof -
  have live: "live_file g ?s = live_file g s" for g by (simp add: live_file_def)
  have nin: "fd \<notin> fds_of p s g" if "g \<noteq> NULL" for g using fd that by (simp add: fds_of_def)
  have "f_fd_counter (files ?s g) = int (card (fds_of p ?s g) + c g)" if "g \<noteq> NULL" for g
    using t that nin [OF that] fd(1) by (cases "f = g") (auto simp: table_ok_def fds_set)
  moreover have "live_file (objects ?s p i) ?s" if "i < 32" "objects ?s p i \<noteq> NULL" for i
    using t f(2) that unfolding live by (auto simp: table_ok_def split: if_split_asm)
  ultimately show ?thesis unfolding table_ok_def by blast
qed

text \<open>A slot is emptied; its file dies with its last descriptor.\<close>

lemma table_ok_drop:
  assumes t: "table_ok p c s" and fd: "0 \<le> fd" "fd < 32"
  shows "table_ok p c (drop_old_file p fd s) \<and> objects (drop_old_file p fd s) p (nat fd) = NULL \<and>
    (\<forall>i. i \<noteq> nat fd \<longrightarrow> objects (drop_old_file p fd s) p i = objects s p i) \<and> iks (drop_old_file p fd s) = iks s"
proof (cases "objects s p (nat fd) = NULL")
  case True
  then show ?thesis using t by (simp add: drop_old_file_def)
next
  case False
  let ?f = "objects s p (nat fd)" and ?d = "drop_old_file p fd s"
  let ?s1 = "upd_file ?f (\<lambda>x. x\<lparr>f_fd_counter := f_fd_counter x - 1\<rparr>) s"
  let ?s2 = "if f_fd_counter (files ?s1 ?f) \<le> 0 then snd (k_fclose ?f ?s1) else ?s1"
  have d: "?d = set_object p fd NULL ?s2" using False by (simp only: drop_old_file_def Let_def if_False)
  have o: "objects ?d = (objects s)(p := (objects s p)(nat fd := NULL))" "iks ?d = iks s"
    unfolding d by (simp_all add: k_fclose_def)
  have cnt: "f_fd_counter (files ?d g) = f_fd_counter (files ?s1 g)" for g unfolding d by (simp add: k_fclose_def)
  have n: "nat fd < 32" "nat fd \<in> fds_of p s ?f" using fd by (simp_all add: fds_of_def)
  have fds: "fds_of p ?d g = fds_of p s g - {nat fd}" if "g \<noteq> NULL" for g
    using that by (auto simp: fds_of_def o)
  have card: "f_fd_counter (files ?d g) = int (card (fds_of p ?d g) + c g)" if g: "g \<noteq> NULL" for g
  proof (cases "g = ?f")
    case True
    have "0 < card (fds_of p s ?f)" using n(2) by (auto simp: card_gt_0_iff)
    then show ?thesis using t g True n(2) unfolding cnt fds [OF g] by (simp add: table_ok_def card_Diff_singleton of_nat_diff)
  next
    case False
    then have "nat fd \<notin> fds_of p s g" by (auto simp: fds_of_def)
    then show ?thesis using t g False unfolding cnt fds [OF g] by (simp add: table_ok_def)
  qed
  have "live_file (objects ?d p i) ?d" if i: "i < 32" "objects ?d p i \<noteq> NULL" for i
  proof -
    have ni: "i \<noteq> nat fd" and oi: "objects ?d p i = objects s p i" using i(2) by (auto simp: o)
    have l: "live_file (objects s p i) s" using t i oi by (simp add: table_ok_def)
    have "\<not> f_fd_counter (files ?s1 ?f) \<le> 0" if "objects s p i = ?f"
    proof -
      have "i \<in> fds_of p ?d ?f" using i(1) oi that by (simp add: fds_of_def)
      then have "0 < card (fds_of p ?d ?f)" by (auto simp: card_gt_0_iff)
      then show ?thesis using card [OF False] unfolding cnt by simp
    qed
    then show ?thesis using l ni unfolding oi d by (auto simp: live_file_def k_fclose_def)
  qed
  then show ?thesis using card o by (simp add: table_ok_def)
qed

text \<open>The three calls: they return, keep the table, and a descriptor they return names the file of the old one.\<close>

definition dup_result :: "(addr \<Rightarrow> nat) \<Rightarrow> int \<Rightarrow> io_state \<Rightarrow> (int \<times> io_state) outcome \<Rightarrow> bool" where
  "dup_result c fd s r \<longleftrightarrow> (\<exists>n s'. r = Inr (n, s') \<and> table_ok (current_te s) c s' \<and> iks s' = iks s \<and>
     (n < 0 \<longrightarrow> s' = s) \<and> (0 \<le> n \<longrightarrow> n < OPEN_MAX \<and> fd_file fd s \<noteq> NULL \<and> fd_file n s' = fd_file fd s))"

lemma dup_resultI:
  "table_ok (current_te s) c s' \<Longrightarrow> iks s' = iks s \<Longrightarrow> n < 0 \<longrightarrow> s' = s \<Longrightarrow>
    0 \<le> n \<longrightarrow> n < OPEN_MAX \<and> fd_file fd s \<noteq> NULL \<and> objects s' (current_te s) (nat n) = fd_file fd s \<Longrightarrow> dup_result c fd s (Inr (n, s'))"
  unfolding dup_result_def by (intro exI [of _ n] exI [of _ s']) (simp add: fd_file_def current_te_def)

lemma dup_error: "table_ok (current_te s) c s \<Longrightarrow> n < 0 \<Longrightarrow> dup_result c fd s (Inr (n, s))"
  by (rule dup_resultI) simp_all

lemma current_struct: "process_ok s \<Longrightarrow> get_current_process_struct s = Inr (current_te s)"
  by (simp add: get_current_process_struct_def te_at_def process_ok_def current_te_def)

lemma sys_dup_table:
  assumes ok: "process_ok s" and t: "table_ok (current_te s) c s"
  shows "dup_result c oldfd s (sys_dup oldfd s)"
proof (cases "oldfd < 0 \<or> OPEN_MAX \<le> oldfd \<or> fd_file oldfd s = NULL")
  case True
  have "current_te s \<noteq> NULL" using ok by (simp add: process_ok_def)
  then have "sys_dup oldfd s = Inr (- EBADF, s)"
    using True by (auto simp: sys_dup_def current_struct [OF ok] fd_file_def Let_def)
  then show ?thesis using dup_error [OF t] by (simp add: io_consts)
next
  case False
  let ?p = "current_te s" and ?f = "fd_file oldfd s"
  have n: "?p \<noteq> NULL" using ok by (simp add: process_ok_def)
  have r: "\<not> (oldfd < 0 \<or> OPEN_MAX \<le> oldfd)" "?f \<noteq> NULL" "nat oldfd < 32" using False by (auto simp: io_consts)
  have e: "sys_dup oldfd s = (case first_slot (\<lambda>i. objects s ?p i = NULL) [0..<nat OPEN_MAX] of
         None \<Rightarrow> Inr (- EMFILE, s)
       | Some newfd \<Rightarrow> Inr (int newfd, upd_file ?f (\<lambda>x. x\<lparr>f_fd_counter := f_fd_counter x + 1\<rparr>) (set_object ?p (int newfd) ?f s)))"
    unfolding sys_dup_def if_not_P [OF r(1)] current_struct [OF ok] and_then_simps if_not_P [OF n] Let_def
      fd_file_def if_not_P [OF r(2) [unfolded fd_file_def]] by (rule refl)
  show ?thesis
  proof (cases "first_slot (\<lambda>i. objects s ?p i = NULL) [0..<nat OPEN_MAX]")
    case None
    then show ?thesis using dup_error [OF t] by (simp add: e io_consts)
  next
    case (Some i)
    have i: "objects s ?p i = NULL" "i < 32" using first_slot_upt_least [OF Some] by (simp_all add: io_consts)
    have live: "live_file ?f s" using t r(2,3) by (simp add: table_ok_def fd_file_def)
    note fill = table_ok_fill [OF t i(2,1) r(2) live]
    show ?thesis unfolding e Some option.case nat_int
      by (rule dup_resultI [OF fill]) (use i(2) r(2) in \<open>simp_all add: io_consts\<close>)
  qed
qed

text \<open>The part that \<^verbatim>\<open>sys_dup2\<close> and \<^verbatim>\<open>sys_dup3\<close> share.\<close>

lemma replace_table:
  assumes t: "table_ok (current_te s) c s" and fd: "0 \<le> oldfd" "oldfd < OPEN_MAX" "0 \<le> newfd" "newfd < OPEN_MAX" "oldfd \<noteq> newfd"
    and f: "fd_file oldfd s \<noteq> NULL"
  shows "dup_result c oldfd s (Inr (newfd, upd_file (fd_file oldfd s) (\<lambda>x. x\<lparr>f_fd_counter := f_fd_counter x + 1\<rparr>)
      (set_object (current_te s) newfd (fd_file oldfd s) (drop_old_file (current_te s) newfd s))))"
proof -
  let ?p = "current_te s" and ?f = "fd_file oldfd s"
  let ?d = "drop_old_file ?p newfd s"
  have n: "newfd < 32" "nat newfd < 32" "nat oldfd < 32" "nat oldfd \<noteq> nat newfd" using fd by (simp_all add: io_consts nat_eq_iff)
  have d: "table_ok ?p c ?d" "objects ?d ?p (nat newfd) = NULL" "\<forall>i. i \<noteq> nat newfd \<longrightarrow> objects ?d ?p i = objects s ?p i" "iks ?d = iks s"
    using table_ok_drop [OF t fd(3) n(1)] by blast+
  have "objects ?d ?p (nat oldfd) = ?f" using d(3) n(4) by (simp add: fd_file_def)
  then have "live_file ?f ?d" using d(1) f n(3) unfolding table_ok_def by metis
  note fill = table_ok_fill [OF d(1) n(2) d(2) f this]
  show ?thesis by (rule dup_resultI [OF fill]) (use d(4) fd f in simp_all)
qed

lemma same_fd_table: "table_ok (current_te s) c s \<Longrightarrow> fd < OPEN_MAX \<Longrightarrow> fd_file fd s \<noteq> NULL \<Longrightarrow> dup_result c fd s (Inr (fd, s))"
  by (rule dup_resultI) (simp_all add: fd_file_def)

lemma sys_dup2_table:
  assumes ok: "process_ok s" and t: "table_ok (current_te s) c s"
  shows "dup_result c oldfd s (sys_dup2 oldfd newfd s)"
proof (cases "oldfd < 0 \<or> OPEN_MAX \<le> oldfd \<or> newfd < 0 \<or> OPEN_MAX \<le> newfd")
  case True
  then have "sys_dup2 oldfd newfd s = Inr (- EBADF, s)" by (simp add: sys_dup2_def)
  then show ?thesis using dup_error [OF t] by (simp add: io_consts)
next
  case False
  let ?p = "current_te s" and ?f = "fd_file oldfd s"
  have n: "?p \<noteq> NULL" using ok by (simp add: process_ok_def)
  have "sys_dup2 oldfd newfd s = (if ?f = NULL then Inr (- EBADF, s) else if oldfd = newfd then Inr (newfd, s)
     else Inr (newfd, upd_file ?f (\<lambda>x. x\<lparr>f_fd_counter := f_fd_counter x + 1\<rparr>) (set_object ?p newfd ?f (drop_old_file ?p newfd s))))"
    unfolding sys_dup2_def if_not_P [OF False] current_struct [OF ok] and_then_simps if_not_P [OF n] Let_def fd_file_def by (rule refl)
  then show ?thesis using dup_error [OF t, of "- EBADF"] same_fd_table [OF t, of oldfd] replace_table [OF t, of oldfd newfd] False
    by (auto simp: io_consts)
qed

lemma sys_dup3_table:
  assumes ok: "process_ok s" and t: "table_ok (current_te s) c s"
  shows "dup_result c oldfd s (sys_dup3 oldfd newfd flags s)"
proof (cases "oldfd < 0 \<or> OPEN_MAX \<le> oldfd \<or> newfd < 0 \<or> OPEN_MAX \<le> newfd")
  case True
  then have "sys_dup3 oldfd newfd flags s = Inr (- EBADF, s)" by (simp add: sys_dup3_def)
  then show ?thesis using dup_error [OF t] by (simp add: io_consts)
next
  case False
  let ?p = "current_te s" and ?f = "fd_file oldfd s"
  have n: "?p \<noteq> NULL" using ok by (simp add: process_ok_def)
  have "sys_dup3 oldfd newfd flags s = (if oldfd = newfd then Inr (- EINVAL, s) else if ?f = NULL then Inr (- EBADF, s)
     else Inr (newfd, upd_file ?f (\<lambda>x. x\<lparr>f_fd_counter := f_fd_counter x + 1\<rparr>) (set_object ?p newfd ?f (drop_old_file ?p newfd s))))"
    unfolding sys_dup3_def if_not_P [OF False] current_struct [OF ok] and_then_simps if_not_P [OF n] Let_def fd_file_def by (rule refl)
  then show ?thesis using dup_error [OF t, of "- EBADF"] dup_error [OF t, of "- EINVAL"] replace_table [OF t, of oldfd newfd] False
    by (auto simp: io_consts)
qed

datatype dup_call = Dup int | Dup2 int int | Dup3 int int int

fun fd_call :: "dup_call \<Rightarrow> io_state \<Rightarrow> (int \<times> io_state) outcome" where
  "fd_call (Dup fd) s = sys_dup fd s"
| "fd_call (Dup2 fd newfd) s = sys_dup2 fd newfd s"
| "fd_call (Dup3 fd newfd flags) s = sys_dup3 fd newfd flags s"

fun fd_calls :: "dup_call list \<Rightarrow> io_state \<Rightarrow> (int list \<times> io_state) outcome" where
  "fd_calls [] s = Inr ([], s)"
| "fd_calls (call # cs) s = and_then (fd_call call s) (\<lambda>(r, s1). and_then (fd_calls cs s1) (\<lambda>(rs, s2). Inr (r # rs, s2)))"

lemma fd_call_table:
  "process_ok s \<Longrightarrow> table_ok (current_te s) c s \<Longrightarrow> \<exists>fd. dup_result c fd s (fd_call call s)"
  by (cases call) (auto intro: sys_dup_table sys_dup2_table sys_dup3_table)

lemma fd_calls_table:
  "process_ok s \<Longrightarrow> table_ok (current_te s) c s \<Longrightarrow>
    \<exists>rs s'. fd_calls cs s = Inr (rs, s') \<and> table_ok (current_te s) c s' \<and> iks s' = iks s"
proof (induction cs arbitrary: s)
  case (Cons call cs)
  obtain r s1 where s1: "fd_call call s = Inr (r, s1)" "table_ok (current_te s) c s1" "iks s1 = iks s"
    using fd_call_table [OF Cons.prems] unfolding dup_result_def by blast
  have k: "process_ok s1" "current_te s1 = current_te s" using Cons.prems(1) s1(3) by (simp_all add: process_ok_def current_te_def)
  show ?case using Cons.IH [OF k(1)] s1 k(2) by auto
qed simp

section \<open>Where the counts go wrong\<close>

text \<open>\<^verbatim>\<open>fcntl\<close> duplicates a descriptor without counting it.\<close>

lemma fs_duplicate_fd_result:
  assumes ok: "process_ok s" and t: "table_ok (current_te s) c s"
    and fd: "0 \<le> fd" "fd < OPEN_MAX" "fd_file fd s \<noteq> NULL" "0 \<le> start" "start < OPEN_MAX"
    and free: "first_slot (\<lambda>i. objects s (current_te s) i = NULL) [nat start..<nat OPEN_MAX] = Some i"
  shows "fs_duplicate_fd fd start s = Inr (int i, set_object (current_te s) (int i) (fd_file fd s) s)"
proof -
  let ?p = "current_te s"
  have p: "te_at (get_current_process 0 (iks s)) s = Inr ?p" "?p \<noteq> NULL" "p_magic (tes (iks s) ?p) = 1234"
    using ok by (simp_all add: process_ok_def te_at_def current_te_def)
  have "f_magic (files s (fd_file fd s)) = 1234" using t fd by (simp add: table_ok_def live_file_def fd_file_def io_consts)
  then show ?thesis using fd p free by (simp add: fs_duplicate_fd_def fd_file_def)
qed

lemma table_iks: "iks (drop_old_file p fd s) = iks s"
  unfolding drop_old_file_def Let_def k_fclose_def by (simp split: if_split)

lemma dangling_after_dup2:
  assumes ok: "process_ok s" and t: "table_ok (current_te s) c s"
    and fd: "0 \<le> fd" "fd < OPEN_MAX" "fd_file fd s = f" "f \<noteq> NULL" and only: "fds_of (current_te s) s f = {nat fd}" "c f = 0"
    and other: "0 \<le> g" "g < OPEN_MAX" "fd_file g s \<noteq> NULL" "fd_file g s \<noteq> f"
    and start: "0 \<le> start" "start < OPEN_MAX"
    and free: "first_slot (\<lambda>i. objects s (current_te s) i = NULL) [nat start..<nat OPEN_MAX] = Some i"
  shows "\<exists>s1 s2. fs_duplicate_fd fd start s = Inr (int i, s1) \<and> sys_dup2 g fd s1 = Inr (fd, s2) \<and>
    fd_file (int i) s2 = f \<and> f_magic (files s2 f) = 4321"
proof -
  let ?p = "current_te s"
  define s1 where "s1 = set_object ?p (int i) f s"
  have i: "objects s ?p i = NULL" "i < 32" using first_slot_upt_least [OF free] by (simp_all add: io_consts)
  have ne: "i \<noteq> nat fd" "i \<noteq> nat g" "g \<noteq> fd" using i fd other by (auto simp: fd_file_def)
  have ok1: "process_ok s1" "current_te s1 = ?p" using ok by (simp_all add: s1_def process_ok_def current_te_def)
  have o1: "objects s1 ?p (nat fd) = f" "objects s1 ?p (nat g) = fd_file g s" "objects s1 ?p i = f" "files s1 = files s"
    using fd(3) ne by (simp_all add: s1_def fd_file_def)
  have cnt: "f_fd_counter (files s f) = 1" "f_used (files s f)" "f_magic (files s f) = 1234"
    using t fd only by (auto simp: table_ok_def live_file_def fd_file_def io_consts)
  define s2 where "s2 = drop_old_file ?p fd s1"
  have d: "objects s2 ?p i = f" "f_magic (files s2 f) = 4321"
    using fd(1,4) o1 ne cnt by (simp_all add: s2_def drop_old_file_def Let_def k_fclose_def nat_eq_iff)
  let ?h = "fd_file g s"
  define s3 where "s3 = upd_file ?h (\<lambda>x. x\<lparr>f_fd_counter := f_fd_counter x + 1\<rparr>) (set_object ?p fd ?h s2)"
  have n: "\<not> (g < 0 \<or> OPEN_MAX \<le> g \<or> fd < 0 \<or> OPEN_MAX \<le> fd)" "?p \<noteq> NULL" using fd other ok by (auto simp: process_ok_def)
  have "sys_dup2 g fd s1 = Inr (fd, s3)"
    unfolding sys_dup2_def if_not_P [OF n(1)] current_struct [OF ok1(1)] and_then_simps ok1(2) if_not_P [OF n(2)] Let_def o1(2)
      if_not_P [OF other(3)] if_not_P [OF ne(3)] s3_def s2_def by (rule refl)
  moreover have "iks s2 = iks s1" using table_iks [of ?p fd s1] by (simp add: s2_def)
  then have "iks s3 = iks s" by (simp add: s3_def s1_def)
  then have "current_te s3 = ?p" by (simp add: current_te_def)
  then have "fd_file (int i) s3 = f" "f_magic (files s3 f) = 4321" using d ne other(4) by (simp_all add: fd_file_def s3_def)
  moreover have "fs_duplicate_fd fd start s = Inr (int i, s1)"
    using fs_duplicate_fd_result [OF ok t fd(1,2) _ start free] fd(3,4) by (simp add: s1_def)
  ultimately show ?thesis by blast
qed

section \<open>Properties\<close>

text \<open>
  Claim C15. The buffer of a regular file is a log. For any sequence of writes and reads of any sizes, whose buffers are
  not the null pointer and lie outside it, a write of less than 1024 bytes appends as many of its bytes as fit into 1024
  and returns their number, or -1 when the buffer is full already, and a write of 1024 bytes or more is refused with -1
  and appends nothing, even to an empty buffer; a read of \<open>n\<close> bytes returns at most \<open>n\<close> modulo
  65536 bytes after those read before, 0 at the end of the log, and -1 where \<open>n\<close> modulo 65536 is 0; and the file
  stays such a log.
\<close>

theorem file_buffer_is_log:
  assumes "log f s data r" and "\<forall>c \<in> set cs. log_call_ok (f_base (files s f)) c"
  shows "\<exists>ts s' data' r'. log_calls f cs s = (ts, s') \<and> log_trace ts data r data' r' \<and> log f s' data' r'"
  using assms by (rule log_calls_result)

text \<open>
  Claim C38. Moving the position of a file breaks the log. After \<^verbatim>\<open>k_fseek\<close> to any offset every read
  returns 0, so the data cannot be read again; and a write then goes to that offset with its full length, also where it
  runs over the end of the buffer.
\<close>

theorem seek_loses_data_and_bound:
  assumes "log f s data r" and "off \<le> 1024 - length data" and "buf \<noteq> NULL" "0 < n" "n < 1024"
  shows "\<exists>s1. k_fseek f (int off) SEEK_SET s = Inr (0, s1) \<and> file_read_buffer f buf (int n) s1 = (0, s1) \<and>
    (n \<le> 1024 - length data \<and> off < 1024 \<and> area buf n \<inter> area (at_off (f_base (files s f)) off) n = {} \<longrightarrow>
      (\<exists>s2. file_write_buffer f buf (int n) s1 = (int n, s2) \<and>
        read_bytes (bytes s2) (at_off (f_base (files s f)) off) n = read_bytes (bytes s) buf n))"
proof -
  have o: "off \<le> 1024" "n < 65536" using assms(2,5) by simp_all
  have d: "length data < 1024" if "n \<le> 1024 - length data" using that assms(4) by simp
  have "file_read_buffer f buf (int n) (sought f off s) = (0, sought f off s)"
    by (rule sought_read [OF assms(1) o(1) assms(3,4) o(2)])
  moreover have "\<exists>s2. file_write_buffer f buf (int n) (sought f off s) = (int n, s2) \<and>
      read_bytes (bytes s2) (at_off (f_base (files s f)) off) n = read_bytes (bytes s) buf n"
    if "n \<le> 1024 - length data \<and> off < 1024 \<and> area buf n \<inter> area (at_off (f_base (files s f)) off) n = {}"
    using sought_write [OF assms(1) _ assms(3,5) _ d] that by blast
  ultimately show ?thesis using k_fseek_sought [OF assms(1,2)] by blast
qed

text \<open>An empty regular file.\<close>

definition file_io :: io_state where
  "file_io = zero_io\<lparr>files := (\<lambda>_. zero_file\<lparr>f_used := True, f_magic := 1234, f_object := ObjectTypeFile, f_lbfsize := BUFSIZ,
     f_cnt := BUFSIZ, f_base := 0x5000\<rparr>)\<rparr>"

lemma file_io_log: "log 0x10 file_io [] 0" "f_base (files file_io 0x10) = 0x5000"
  by (simp_all add: log_def file_io_def zero_file_def io_consts)

theorem file_buffer_is_log_witness:
  "\<exists>ts s' data' r'. log_calls 0x10 [Append 0x2000 5, Append 0x4000 2000, Fetch 0x3000 9] file_io = (ts, s') \<and> log_trace ts [] 0 data' r' \<and> log 0x10 s' data' r'"
  using file_buffer_is_log [OF file_io_log(1), where cs = "[Append 0x2000 5, Append 0x4000 2000, Fetch 0x3000 9]"]
    area_apart [where p = "0x2000" and n = 5 and q = "0x5000" and k = 1024] area_apart [where p = "0x3000" and n = 9 and q = "0x5000" and k = 1024]
    area_apart [where p = "0x4000" and n = 2000 and q = "0x5000" and k = 1024]
  by (simp add: file_io_log(2))

theorem seek_loses_data_and_bound_witness:
  "\<exists>s1 s2. k_fseek 0x10 1000 SEEK_SET file_io = Inr (0, s1) \<and> file_write_buffer 0x10 0x2000 500 s1 = (500, s2) \<and>
    read_bytes (bytes s2) 0x53E8 500 = read_bytes (bytes file_io) 0x2000 500"
  using seek_loses_data_and_bound [OF file_io_log(1), of 1000 "0x2000" 500]
    area_apart [where p = "0x2000" and n = 500 and q = "0x53E8" and k = 500]
  by (auto simp: file_io_log(2))

text \<open>
  Claim C12. The table of descriptors is well typed: each of the 32 descriptors is free or names a live file, and the
  counter of every file is the number of descriptors that name it. Any sequence of \<^verbatim>\<open>dup\<close>,
  \<^verbatim>\<open>dup2\<close> and \<^verbatim>\<open>dup3\<close> returns and keeps that, and a descriptor one of
  them returns names the file of the old descriptor.
\<close>

theorem dup_calls_keep_table_typed:
  assumes "process_ok s" and "table_ok (current_te s) c s"
  shows "(\<exists>rs s'. fd_calls cs s = Inr (rs, s') \<and> table_ok (current_te s) c s' \<and> iks s' = iks s) \<and>
    dup_result c fd s (sys_dup fd s) \<and> dup_result c fd s (sys_dup2 fd newfd s) \<and> dup_result c fd s (sys_dup3 fd newfd flags s)"
  using fd_calls_table [OF assms] sys_dup_table [OF assms] sys_dup2_table [OF assms] sys_dup3_table [OF assms] by blast

text \<open>
  Claim C39. Duplicating through \<^verbatim>\<open>fcntl\<close> does not count the new descriptor. When descriptor
  \<open>fd\<close> is the only one of its file, a duplicate of it and a \<^verbatim>\<open>dup2\<close> of another open
  descriptor over \<open>fd\<close> close the file while the duplicate still names it.
\<close>

theorem fcntl_duplicate_dangles:
  assumes "process_ok s" and "table_ok (current_te s) c s"
    and "0 \<le> fd" "fd < OPEN_MAX" "fd_file fd s = f" "f \<noteq> NULL" and "fds_of (current_te s) s f = {nat fd}" "c f = 0"
    and "0 \<le> g" "g < OPEN_MAX" "fd_file g s \<noteq> NULL" "fd_file g s \<noteq> f" and "0 \<le> start" "start < OPEN_MAX"
    and "first_slot (\<lambda>i. objects s (current_te s) i = NULL) [nat start..<nat OPEN_MAX] = Some i"
  shows "\<exists>s1 s2. fs_duplicate_fd fd start s = Inr (int i, s1) \<and> sys_dup2 g fd s1 = Inr (fd, s2) \<and>
    fd_file (int i) s2 = f \<and> f_magic (files s2 f) = 4321"
  using assms by (rule dangling_after_dup2)

text \<open>A process with two open files.\<close>

definition table_io :: io_state where
  "table_io = zero_io\<lparr>objects := (\<lambda>_ _. NULL)(0xA000 := (\<lambda>_. NULL)(0 := 0x10, 1 := 0x20)),
     files := (\<lambda>_. zero_file)(0x10 := zero_file\<lparr>f_used := True, f_magic := 1234, f_fd_counter := 1\<rparr>,
       0x20 := zero_file\<lparr>f_used := True, f_magic := 1234, f_fd_counter := 1\<rparr>)\<rparr>"

lemma table_io_process: "process_ok table_io" "current_te table_io = 0xA000"
  using zero_io_process by (simp_all add: table_io_def process_ok_def current_te_def)

lemma table_io_fds: "f \<noteq> NULL \<Longrightarrow> fds_of 0xA000 table_io f = (if f = 0x10 then {0} else if f = 0x20 then {1} else {})"
  by (auto simp: fds_of_def table_io_def split: if_split_asm)

lemma table_io_ok: "table_ok 0xA000 (\<lambda>_. 0) table_io"
proof -
  have "live_file (objects table_io 0xA000 i) table_io" if "objects table_io 0xA000 i \<noteq> NULL" for i
    using that by (auto simp: live_file_def table_io_def split: if_split_asm)
  moreover have "f_fd_counter (files table_io f) = int (card (fds_of 0xA000 table_io f) + 0)" if "f \<noteq> NULL" for f
    using that by (simp add: table_io_fds) (simp add: table_io_def zero_file_def)
  ultimately show ?thesis unfolding table_ok_def by blast
qed

theorem dup_calls_keep_table_typed_witness:
  "\<exists>rs s'. fd_calls [Dup 0, Dup2 1 0, Dup3 5 5 0] table_io = Inr (rs, s') \<and> table_ok 0xA000 (\<lambda>_. 0) s'"
  using dup_calls_keep_table_typed [OF table_io_process(1), of "\<lambda>_. 0"] table_io_ok table_io_process(2) by metis

theorem fcntl_duplicate_dangles_witness:
  "\<exists>s1 s2. fs_duplicate_fd 0 10 table_io = Inr (10, s1) \<and> sys_dup2 1 0 s1 = Inr (0, s2) \<and> fd_file 10 s2 = 0x10 \<and>
    f_magic (files s2 0x10) = 4321"
proof -
  have f: "fd_file 0 table_io = 0x10" "fd_file 1 table_io = 0x20" by (simp_all add: fd_file_def table_io_process) (simp_all add: table_io_def)
  have slot: "first_slot (\<lambda>i. objects table_io 0xA000 i = NULL) [nat 10..<nat OPEN_MAX] = Some 10"
    by (rule first_slot_upt_SomeI) (simp_all add: io_consts table_io_def)
  show ?thesis
    using fcntl_duplicate_dangles [OF table_io_process(1), of "\<lambda>_. 0" 0 "0x10" 1 10 10] table_io_ok table_io_process(2) f slot
    by (simp add: table_io_fds io_consts)
qed

end
