(* ===== verification/Fat_Store.thy ===== *)
theory Fat_Store
  imports Fat16
begin

text \<open>
  The contract of the FAT16 calls: what the lookup of a name finds, that loading copies the chain of a file and nothing
  else, that saving adds a file and keeps the others, and that a file which was saved is what is loaded.
\<close>

section \<open>Names and entries\<close>

lemma strncmp_bytes_0_iff:
  "n < length xs \<Longrightarrow> n < length ys \<Longrightarrow> strncmp_bytes xs ys n = 0 \<longleftrightarrow> take n xs = take n ys \<and> xs ! n = 0 \<and> ys ! n = 0"
proof (induction xs ys n rule: strncmp_bytes.induct)
  case (1 xs ys)
  then show ?case by (cases xs; cases ys) auto
next
  case (2 xs ys n)
  then show ?case by (cases xs; cases ys) auto
qed

text \<open>On two strings in memory it is the comparison of the library.\<close>

lemma strncmp_bytes_memory:
  "gramado_strncmp_loop m n s1 s2 = strncmp_bytes (read_bytes m s1 (Suc n)) (read_bytes m s2 (Suc n)) n"
proof (induction n arbitrary: s1 s2)
  case (Suc n)
  have "read_bytes m p (Suc k) = m p # read_bytes m (p + 1) k" for p k
    by (rule nth_equalityI) (auto simp: nth_Cons at_off_Suc split: nat.splits simp del: of_nat_Suc)
  with Suc show ?case by simp
qed (simp add: read_bytes_def)

lemma entry_named_iff: "entry_named m f n e \<longleftrightarrow> read_bytes m f n = read_bytes m e n \<and> m (at_off f n) = 0"
proof -
  have "take n (read_bytes m f (Suc n)) = read_bytes m f n" by (rule nth_equalityI) auto
  then show ?thesis by (simp add: entry_named_def strncmp_bytes_0_iff nth_append)
qed

section \<open>The words of the FAT\<close>

lemma read16_write16: "read16 (write16 a v m) a = v"
proof -
  have "a + 1 \<noteq> a" by simp
  then have "read16 (write16 a v m) a = ucast (ucast v :: u8) OR push_bit 8 (ucast (ucast (drop_bit 8 v) :: u8))"
    by (simp add: read16_def write16_def)
  also have "\<dots> = v"
  proof (rule bit_word_eqI)
    fix n assume "n < LENGTH(16)"
    then show "bit (ucast (ucast v :: u8) OR push_bit 8 (ucast (ucast (drop_bit 8 v) :: u8)) :: u16) n = bit v n"
      by (cases "n < 8") (auto simp: bit_simps)
  qed
  finally show ?thesis .
qed

definition fat_area :: "addr set" where "fat_area = area VOLUME1_FAT_ADDRESS 0x20000"
definition root_area :: "addr set" where "root_area = area VOLUME1_ROOTDIR_ADDRESS 0x4000"

lemma fat_slot_offset: "fat_slot a c = at_off a (2 * unat c)" "fat_slot a c + 1 = at_off a (2 * unat c + 1)"
  by simp_all

lemma u16_range: "unat (c :: u16) < 0x10000"
proof -
  have "unat c < 2 ^ LENGTH(16)" by (rule unsigned_less)
  then show ?thesis by simp
qed

lemma fat_slot_in_area: "fat_slot VOLUME1_FAT_ADDRESS c \<in> fat_area" "fat_slot VOLUME1_FAT_ADDRESS c + 1 \<in> fat_area"
proof -
  have "at_off VOLUME1_FAT_ADDRESS k \<in> fat_area" if "k < 0x20000" for k
    unfolding fat_area_def using that by (rule area_at)
  from this [of "2 * unat c"] this [of "2 * unat c + 1"] show "fat_slot VOLUME1_FAT_ADDRESS c \<in> fat_area" "fat_slot VOLUME1_FAT_ADDRESS c + 1 \<in> fat_area"
    using u16_range [of c] by (simp_all add: ac_simps)
qed

lemma read16_cong: "m' a = m a \<Longrightarrow> m' (a + 1) = m (a + 1) \<Longrightarrow> read16 m' a = read16 m a"
  by (simp add: read16_def)

lemma fat_slot_other:
  assumes "c \<noteq> d"
  shows "read16 (write16 (fat_slot a c) v m) (fat_slot a d) = read16 m (fat_slot a d)"
proof -
  have "unat c \<noteq> unat d" using assms by (simp add: word_unat_eq_iff)
  then have n: "2 * unat d \<noteq> 2 * unat c" "2 * unat d \<noteq> 2 * unat c + 1" "2 * unat d + 1 \<noteq> 2 * unat c" "2 * unat d + 1 \<noteq> 2 * unat c + 1"
    by presburger+
  have k: "at_off a k \<noteq> at_off a j" if "k \<noteq> j" "k < 0x20000" "j < 0x20000" for k j
    using at_off_inj [of k j a] that by auto
  note o = fat_slot_offset [of a c] fat_slot_offset [of a d]
  have r: "2 * unat c + 1 < 0x20000" "2 * unat d + 1 < 0x20000" using u16_range [of c] u16_range [of d] by linarith+
  have "fat_slot a d \<noteq> fat_slot a c" unfolding o(1) o(3) by (rule k) (use n r in linarith)+
  moreover have "fat_slot a d \<noteq> fat_slot a c + 1" unfolding o(2) o(3) by (rule k) (use n r in linarith)+
  moreover have "fat_slot a d + 1 \<noteq> fat_slot a c" unfolding o(1) o(4) by (rule k) (use n r in linarith)+
  moreover have "fat_slot a d + 1 \<noteq> fat_slot a c + 1" unfolding o(2) o(4) by (rule k) (use n r in linarith)+
  ultimately show ?thesis by (intro read16_cong) (simp_all add: write16_def)
qed

text \<open>The FAT as the code reads it, and the clusters of a file: each entry leads to the next, the last holds an end
  mark.\<close>

definition fat_of :: "mem \<Rightarrow> u16 \<Rightarrow> u16" where
  "fat_of m c = read16 m (fat_slot VOLUME1_FAT_ADDRESS c)"

fun chain :: "(u16 \<Rightarrow> u16) \<Rightarrow> u16 \<Rightarrow> u16 list \<Rightarrow> bool" where
  "chain F c [] \<longleftrightarrow> False"
| "chain F c (x # xs) \<longleftrightarrow> c = x \<and> c \<noteq> 0 \<and> c \<le> 0xFFF0 \<and>
     (if xs = [] then F c = 0xFFF8 \<or> F c = 0xFFFF else chain F (F c) xs)"

lemma chain_next: "chain F c cs \<Longrightarrow> c \<noteq> 0xFFF7 \<and> c \<noteq> 0xFFF8 \<and> c \<noteq> 0xFFFF \<and> c \<noteq> 0 \<and> c \<le> 0xFFF0"
  by (cases cs) auto

lemma chain_cong: "(\<And>x. x \<in> set cs \<Longrightarrow> G x = F x) \<Longrightarrow> chain G c cs = chain F c cs"
  by (induction cs arbitrary: c) auto

lemma chain_allocated: "chain F c cs \<Longrightarrow> x \<in> set cs \<Longrightarrow> F x \<noteq> 0"
proof (induction cs arbitrary: c)
  case (Cons y ys)
  then show ?case using chain_next [of F "F c" ys] by (auto split: if_splits)
qed simp

lemma fat_of_cong: "(\<And>x. x \<in> fat_area \<Longrightarrow> m' x = m x) \<Longrightarrow> fat_of m' = fat_of m"
  unfolding fat_of_def by (rule ext, rule read16_cong) (simp_all add: fat_slot_in_area)

lemma fat_of_write16:
  "fat_of (write16 (fat_slot VOLUME1_FAT_ADDRESS c) v m) = (fat_of m)(c := v)"
  by (rule ext) (auto simp: fat_of_def read16_write16 fat_slot_other)

section \<open>Loading a chain\<close>

definition cluster_lba :: "u16 \<Rightarrow> u64" where
  "cluster_lba c = VOLUME1_DATAAREA_LBA + ucast c - 2"

definition file_sectors :: "io_state \<Rightarrow> u16 list \<Rightarrow> nat \<Rightarrow> sector" where
  "file_sectors s cs = (\<lambda>i. volume s (cluster_lba (cs ! i)))"

lemma put_sector_outside: "x \<notin> area buf 512 \<Longrightarrow> put_sector buf sec m x = m x"
  by (simp add: put_sector_def area_unat)

lemma load_clusters_result:
  assumes "chain (fat_of (bytes s)) c cs" "ide_boot s"
    and "\<forall>x \<in> set cs. cluster_lba x < gNumberOfSectorsInBootDisk s"
    and "area buf (512 * length cs) \<inter> fat_area = {}"
    and "\<forall>i < length cs. at_off buf (512 * i) \<noteq> NULL \<and> check_address_validation s (at_off buf (512 * i))"
    and "nreads + length cs \<le> 817"
  shows "load_clusters VOLUME1_FAT_ADDRESS c buf nreads s =
    returns (0, s\<lparr>bytes := put_sectors (length cs) buf (file_sectors s cs) (bytes s)\<rparr>)"
  using assms
proof (induction cs arbitrary: c buf nreads s)
  case (Cons x xs)
  have c: "c = x" "c \<noteq> 0" "\<not> 0xFFF0 < c" using Cons.prems(1) by auto
  have v: "check_address_validation s buf" "buf \<noteq> NULL" using Cons.prems(5) [rule_format, of 0] by auto
  let ?s = "s\<lparr>bytes := put_sector buf (volume s (cluster_lba c)) (bytes s)\<rparr>"
  have r: "read_lba buf (VOLUME1_DATAAREA_LBA + ucast c - 2) s = Inr (0, ?s)"
    using read_lba_boot [OF Cons.prems(2) _ v(2)] Cons.prems(3) c(1) by (simp add: cluster_lba_def)
  have sub: "area buf 512 \<subseteq> area buf (512 * length (x # xs))" by (rule area_mono) simp
  have F: "fat_of (bytes ?s) = fat_of (bytes s)"
    by (rule fat_of_cong) (use sub Cons.prems(4) in \<open>auto intro!: put_sector_outside\<close>)
  then have nx: "read16 (bytes ?s) (fat_slot VOLUME1_FAT_ADDRESS c) = fat_of (bytes s) c" by (simp add: fat_of_def fun_eq_iff)
  have e: "put_sectors (length xs) (buf + 512) (file_sectors s xs) (put_sector buf (volume s (cluster_lba c)) (bytes s)) =
      put_sectors (length (x # xs)) buf (file_sectors s (x # xs)) (bytes s)"
    using put_sectors_Suc [of "length xs" buf "file_sectors s (x # xs)" "bytes s"] Cons.prems(6) c(1) by (simp add: file_sectors_def)
  show ?case
  proof (cases "xs = []")
    case True
    then have "fat_of (bytes s) c = 0xFFF8 \<or> fat_of (bytes s) c = 0xFFFF" using Cons.prems(1) by (simp add: c(1))
    moreover have "\<not> CONFIG_IMAGESIZE_LIMIT_IN_KB < (nreads + 1) div 2" using Cons.prems(6) by (simp add: CONFIG_IMAGESIZE_LIMIT_IN_KB_def)
    ultimately show ?thesis using c v r nx e True by (subst load_clusters.simps) (auto simp: Let_def)
  next
    case False
    then have n: "chain (fat_of (bytes s)) (fat_of (bytes s) c) xs" using Cons.prems(1) by (simp add: c(1))
    have "load_clusters VOLUME1_FAT_ADDRESS (fat_of (bytes s) c) (buf + 512) (nreads + 1) ?s =
        returns (0, ?s\<lparr>bytes := put_sectors (length xs) (buf + 512) (file_sectors ?s xs) (bytes ?s)\<rparr>)"
    proof (rule Cons.IH)
      show "chain (fat_of (bytes ?s)) (fat_of (bytes s) c) xs" using n F by simp
      have "area (at_off buf 512) (512 * length xs) \<subseteq> area buf (512 * length (x # xs))" by (rule area_sub) simp
      then show "area (buf + 512) (512 * length xs) \<inter> fat_area = {}" using Cons.prems(4) by auto
      show "\<forall>i < length xs. at_off (buf + 512) (512 * i) \<noteq> NULL \<and> check_address_validation ?s (at_off (buf + 512) (512 * i))"
      proof (intro allI impI)
        fix i assume i: "i < length xs"
        have e: "at_off (buf + 512) (512 * i) = at_off buf (512 * Suc i)" by simp
        have "check_address_validation ?s = check_address_validation s" by (simp add: check_address_validation_def fun_eq_iff)
        then show "at_off (buf + 512) (512 * i) \<noteq> NULL \<and> check_address_validation ?s (at_off (buf + 512) (512 * i))"
          unfolding e using Cons.prems(5) [rule_format, of "Suc i"] i
          by (simp only: length_Cons Suc_less_eq True_implies_equals simp_thms)
      qed
    qed (use Cons.prems in auto)
    moreover have "file_sectors ?s xs = file_sectors s xs" by (simp add: file_sectors_def)
    ultimately have "load_clusters VOLUME1_FAT_ADDRESS (fat_of (bytes s) c) (buf + 512) (nreads + 1) ?s =
        returns (0, s\<lparr>bytes := put_sectors (length (x # xs)) buf (file_sectors s (x # xs)) (bytes s)\<rparr>)"
      unfolding e [symmetric] by simp
    then show ?thesis using c v r nx chain_next [OF n] by (subst load_clusters.simps) (auto simp: Let_def)
  qed
qed simp

section \<open>Loading a file by its name\<close>

text \<open>Memory with the root directory as it is on the disk, which every lookup in it starts from.\<close>

definition dir_view :: "io_state \<Rightarrow> mem" where
  "dir_view s = put_sectors 32 VOLUME1_ROOTDIR_ADDRESS (\<lambda>i. volume s (VOLUME1_ROOTDIR_LBA + of_nat i)) (bytes s)"

definition root_ok :: "io_state \<Rightarrow> bool" where
  "root_ok s \<longleftrightarrow> (case root s of None \<Rightarrow> False
     | Some r \<Rightarrow> r_used r \<and> r_magic r = 1234 \<and> 0 < r_spc r \<and> r_dir_entries r = int FAT16_ROOT_ENTRIES)"

text \<open>A mounted volume: the disk works and reaches past the root directory. A load reads the FAT from the disk unless
  it is in memory already.\<close>

definition mounted :: "io_state \<Rightarrow> bool" where
  "mounted s \<longleftrightarrow> ide_boot s \<and> root_ok s \<and> 591 \<le> gNumberOfSectorsInBootDisk s"

definition disk_fat :: "io_state \<Rightarrow> mem \<Rightarrow> mem" where
  "disk_fat s m = put_sectors 246 VOLUME1_FAT_ADDRESS (\<lambda>i. volume s (VOLUME1_FAT_LBA + of_nat i)) m"

definition fat_view :: "io_state \<Rightarrow> mem" where
  "fat_view s = (if g_fat_cache_loaded s then dir_view s else disk_fat s (dir_view s))"

definition name_at :: "io_state \<Rightarrow> addr \<Rightarrow> u8 list \<Rightarrow> bool" where
  "name_at s name xs \<longleftrightarrow> cstr (bytes s) name xs \<and> xs \<noteq> [] \<and> length xs \<le> 11 \<and> name \<noteq> NULL \<and>
     area name 12 \<inter> (fat_area \<union> root_area) = {}"

definition buffer_ok :: "io_state \<Rightarrow> addr \<Rightarrow> nat \<Rightarrow> bool" where
  "buffer_ok s buf n \<longleftrightarrow> n \<le> 817 \<and> area buf (512 * n) \<inter> fat_area = {} \<and>
     (\<forall>i < n. at_off buf (512 * i) \<noteq> NULL \<and> check_address_validation s (at_off buf (512 * i)))"

text \<open>The file that the first entry with the name leads to: its clusters and the size in the entry.\<close>

definition stored :: "io_state \<Rightarrow> addr \<Rightarrow> u8 list \<Rightarrow> nat \<Rightarrow> u16 list \<Rightarrow> u32 \<Rightarrow> bool" where
  "stored s name xs i cs sz \<longleftrightarrow>
     find_entry (dir_view s) VOLUME1_ROOTDIR_ADDRESS name (length xs) FAT16_ROOT_ENTRIES = Some i \<and>
     chain (fat_of (fat_view s)) (read16 (dir_view s) (dir_slot VOLUME1_ROOTDIR_ADDRESS i + 26)) cs \<and>
     read32 (dir_view s) (dir_slot VOLUME1_ROOTDIR_ADDRESS i + 28) = sz \<and>
     (\<forall>x \<in> set cs. cluster_lba x < gNumberOfSectorsInBootDisk s)"

definition size_fits :: "u32 \<Rightarrow> u64 \<Rightarrow> bool" where
  "size_fits sz limit \<longleftrightarrow> (ucast sz :: u64) < limit AND 0xFFFFFFFF \<and> limit AND 0xFFFFFFFF \<le> 512 * 4096"

lemma load_rootdir_view:
  assumes "ide_boot s" "591 \<le> gNumberOfSectorsInBootDisk s"
  shows "fs_load_rootdir VOLUME1_ROOTDIR_ADDRESS VOLUME1_ROOTDIR_LBA 32 s = Inr (s\<lparr>bytes := dir_view s\<rparr>)"
proof -
  have "unat VOLUME1_ROOTDIR_LBA + 32 \<le> unat (gNumberOfSectorsInBootDisk s)"
    using assms(2) by (simp add: VOLUME1_ROOTDIR_LBA_def unat_le_iff)
  from load_sequential_result [OF assms(1) this] show ?thesis by (simp add: fs_load_rootdir_def dir_view_def)
qed

lemma dir_view_outside: "x \<notin> root_area \<Longrightarrow> dir_view s x = bytes s x"
  unfolding dir_view_def root_area_def by (rule put_sectors_outside) auto

lemma areas_disjoint: "fat_area \<inter> root_area = {}"
proof (rule ccontr)
  assume "fat_area \<inter> root_area \<noteq> {}"
  then obtain a where a: "a \<in> fat_area" "a \<in> root_area" by blast
  then have "unat (a - VOLUME1_FAT_ADDRESS) < 0x20000" "unat (a - VOLUME1_ROOTDIR_ADDRESS) < 0x4000"
    by (simp_all add: fat_area_def root_area_def area_unat)
  then have b: "unat (a - 0x30000) < 0x20000" "unat (a - 0x70000) < 0x4000" by (simp_all add: fat_consts)
  define d where "d = a - 0x70000"
  have "a - 0x30000 = d + 0x40000" by (simp add: d_def)
  moreover have "unat (d + 0x40000) = unat d + unat (0x40000 :: u64)" by (rule unat_plus_exact) (use b(2) in \<open>simp add: d_def\<close>)
  ultimately have "unat (a - 0x30000) = unat d + unat (0x40000 :: u64)" by (simp only:)
  moreover have "unat (0x40000 :: u64) = 0x40000" by simp
  ultimately show False using b(1) by linarith
qed

lemma fat_of_dir_view [simp]: "fat_of (dir_view s) = fat_of (bytes s)"
  using areas_disjoint by (intro fat_of_cong dir_view_outside) blast

lemma name_in_view:
  assumes "name_at s name xs"
  shows "cstr (dir_view s) name xs" "strlen (dir_view s) name = Some (length xs)" "strlen (bytes s) name = Some (length xs)"
    "dir_view s name \<noteq> 0" "bytes s name \<noteq> 0"
proof -
  have o: "dir_view s x = bytes s x" if "x \<in> area name (Suc (length xs))" for x
  proof (rule dir_view_outside)
    have "area name (Suc (length xs)) \<subseteq> area name 12" using assms by (intro area_mono) (simp add: name_at_def)
    then show "x \<notin> root_area" using that assms by (auto simp: name_at_def)
  qed
  show c: "cstr (dir_view s) name xs" using cstr_cong [OF o] assms by (simp add: name_at_def)
  show "strlen (dir_view s) name = Some (length xs)" using c by (rule strlen_cstr)
  show "strlen (bytes s) name = Some (length xs)" using assms by (simp add: name_at_def strlen_cstr)
  obtain y ys where "xs = y # ys" using assms by (cases xs) (auto simp: name_at_def)
  then show "dir_view s name \<noteq> 0" "bytes s name \<noteq> 0" using c assms by (auto simp: name_at_def cstr_Cons)
qed

lemma file_size_result:
  assumes "ide_boot s" "591 \<le> gNumberOfSectorsInBootDisk s" "root_ok s" "name_at s name xs"
    "find_entry (dir_view s) VOLUME1_ROOTDIR_ADDRESS name (length xs) FAT16_ROOT_ENTRIES = Some i"
  shows "fsGetFileSize name VOLUME1_ROOTDIR_ADDRESS s =
    returns (ucast (read32 (dir_view s) (dir_slot VOLUME1_ROOTDIR_ADDRESS i + 28)), s\<lparr>bytes := dir_view s\<rparr>)"
proof -
  obtain r where r: "root s = Some r" "0 < r_spc r" "r_dir_entries r = int FAT16_ROOT_ENTRIES"
    using assms(3) by (auto simp: root_ok_def split: option.splits)
  note n = name_in_view [OF assms(4)]
  have l: "min (length xs) 11 = length xs" "name \<noteq> NULL" using assms(4) by (simp_all add: name_at_def)
  have R: "unat (word_of_int (r_dir_entries r) :: u64) = FAT16_ROOT_ENTRIES" by (simp add: r(3) FAT16_ROOT_ENTRIES_def)
  have z: "VOLUME1_ROOTDIR_ADDRESS \<noteq> NULL" "r_dir_entries r \<noteq> 0" using r(3) by (simp_all add: fat_consts)
  show ?thesis
    unfolding fsGetFileSize_def using n l(2) z r(1,2) R assms(5) load_rootdir_view [OF assms(1,2)] by (simp add: l(1))
qed

lemma load_fat_view:
  assumes "ide_boot s" "591 \<le> gNumberOfSectorsInBootDisk s"
  shows "fs_load_fat VOLUME1_FAT_ADDRESS VOLUME1_FAT_LBA 246 (s\<lparr>bytes := dir_view s\<rparr>) =
    Inr (s\<lparr>bytes := fat_view s, g_fat_cache_loaded := True\<rparr>)"
proof (cases "g_fat_cache_loaded s")
  case True
  then show ?thesis by (cases s) (simp add: fs_load_fat_def fat_view_def)
next
  case False
  let ?s = "s\<lparr>bytes := dir_view s\<rparr>"
  have "ide_boot ?s" "unat VOLUME1_FAT_LBA + 246 \<le> unat (gNumberOfSectorsInBootDisk ?s)"
    using assms by (simp_all add: VOLUME1_FAT_LBA_def unat_le_iff)
  from load_sequential_result [OF this] False show ?thesis by (simp add: fs_load_fat_def fat_view_def disk_fat_def)
qed

lemma load_file_runs:
  assumes "mounted s" "name_at s name xs" "size_fits sz limit" "c = read16 (dir_view s) (dir_slot VOLUME1_ROOTDIR_ADDRESS i + 26)"
    and "c \<noteq> 0" "\<not> 0xFFF0 < c"
    and "find_entry (dir_view s) VOLUME1_ROOTDIR_ADDRESS name (length xs) FAT16_ROOT_ENTRIES = Some i"
    and "read32 (dir_view s) (dir_slot VOLUME1_ROOTDIR_ADDRESS i + 28) = sz"
  shows "fat16LoadFile VOLUME1_FAT_ADDRESS VOLUME1_ROOTDIR_ADDRESS (int FAT16_ROOT_ENTRIES) name buf limit s =
    load_clusters VOLUME1_FAT_ADDRESS c buf 0 (s\<lparr>bytes := fat_view s, g_fat_cache_loaded := True\<rparr>)"
proof -
  have m: "ide_boot s" "root_ok s" "591 \<le> gNumberOfSectorsInBootDisk s" using assms(1) by (simp_all add: mounted_def)
  obtain r where r: "root s = Some r" "r_used r" "r_magic r = 1234" "0 < r_spc r" "r_dir_entries r = int FAT16_ROOT_ENTRIES"
    using m(2) by (auto simp: root_ok_def split: option.splits)
  note n = name_in_view [OF assms(2)]
  have l: "name \<noteq> NULL" "length xs \<le> 11" using assms(2) by (simp_all add: name_at_def)
  have b: "limit AND 0xFFFFFFFF \<noteq> 0" "\<not> 512 * 4096 < limit AND 0xFFFFFFFF" "\<not> limit AND 0xFFFFFFFF \<le> ucast sz"
    using assms(3) by (auto simp: size_fits_def)
  show ?thesis
    unfolding fat16LoadFile_def
    using r n(3,5) l assms(4-8) b load_fat_view [OF m(1,3)] file_size_result [OF m(1,3,2) assms(2,7)]
    by (simp add: Let_def fat_consts)
qed

lemma load_file_result:
  assumes "mounted s" "name_at s name xs" "stored s name xs i cs sz" "size_fits sz limit" "buffer_ok s buf (length cs)"
  shows "fat16LoadFile VOLUME1_FAT_ADDRESS VOLUME1_ROOTDIR_ADDRESS (int FAT16_ROOT_ENTRIES) name buf limit s =
    returns (0, s\<lparr>bytes := put_sectors (length cs) buf (file_sectors s cs) (fat_view s), g_fat_cache_loaded := True\<rparr>)"
proof -
  let ?c = "read16 (dir_view s) (dir_slot VOLUME1_ROOTDIR_ADDRESS i + 26)" and ?s = "s\<lparr>bytes := fat_view s, g_fat_cache_loaded := True\<rparr>"
  have f: "find_entry (dir_view s) VOLUME1_ROOTDIR_ADDRESS name (length xs) FAT16_ROOT_ENTRIES = Some i"
    "chain (fat_of (fat_view s)) ?c cs" "read32 (dir_view s) (dir_slot VOLUME1_ROOTDIR_ADDRESS i + 28) = sz"
    "\<forall>x \<in> set cs. cluster_lba x < gNumberOfSectorsInBootDisk s"
    using assms(3) by (auto simp: stored_def)
  have k: "check_address_validation ?s = check_address_validation s" by (simp add: check_address_validation_def fun_eq_iff)
  have b: "ide_boot ?s" "volume ?s = volume s" using assms(1) by (simp_all add: mounted_def ide_boot_def volume_def boot_unit_def fun_eq_iff)
  have "load_clusters VOLUME1_FAT_ADDRESS ?c buf 0 ?s =
      returns (0, ?s\<lparr>bytes := put_sectors (length cs) buf (file_sectors ?s cs) (bytes ?s)\<rparr>)"
    by (rule load_clusters_result) (use b f assms(5) in \<open>simp_all add: buffer_ok_def k\<close>)
  moreover have "file_sectors ?s cs = file_sectors s cs" by (simp add: file_sectors_def b(2))
  moreover have "?c \<noteq> 0" "\<not> 0xFFF0 < ?c" using chain_next [OF f(2)] by auto
  ultimately show ?thesis
    using load_file_runs [OF assms(1,2,4) refl _ _ f(1,3)] by simp
qed

section \<open>Choosing and linking clusters\<close>

text \<open>The free clusters among \<open>n\<close> from \<open>c\<close> on.\<close>

fun free_clusters :: "(nat \<Rightarrow> u16) \<Rightarrow> nat \<Rightarrow> nat \<Rightarrow> nat list" where
  "free_clusters F c 0 = []"
| "free_clusters F c (Suc n) = (if F c = 0 then c # free_clusters F (Suc c) n else free_clusters F (Suc c) n)"

lemma free_clusters_set: "set (free_clusters F c n) = {k. c \<le> k \<and> k < c + n \<and> F k = 0}"
proof (induction n arbitrary: c)
  case (Suc n)
  have "{k. c \<le> k \<and> k < c + Suc n \<and> F k = 0} = (if F c = 0 then {c} else {}) \<union> {k. Suc c \<le> k \<and> k < Suc c + n \<and> F k = 0}"
    by (auto simp: le_Suc_eq Suc_le_eq intro: le_neq_implies_less)
  with Suc show ?case by simp
qed auto

lemma free_clusters_distinct: "distinct (free_clusters F c n)"
  by (induction n arbitrary: c) (auto simp: free_clusters_set)

lemma pick_clusters_found:
  "left < length (free_clusters F c n) \<Longrightarrow>
     pick_clusters n c j left F cl = (True, \<lambda>t.
       if int j \<le> t \<and> t < int j + int left then of_nat (free_clusters F c n ! nat (t - int j))
       else if t = int j + int left then 0xFFF8 else cl t)"
proof (induction n arbitrary: c j left cl)
  case (Suc n)
  show ?case
  proof (cases "F c = 0 \<and> left \<noteq> 0")
    case False
    with Suc.prems show ?thesis using Suc.IH [of left "Suc c" j cl] by (auto simp: fun_eq_iff)
  next
    case True
    let ?fr = "free_clusters F (Suc c) n"
    have l: "left - 1 < length ?fr" using Suc.prems True by (cases left) auto
    have n: "nat (t - int j) = Suc (nat (t - int (j + 1)))" if "int (j + 1) \<le> t" for t using that by simp
    have "pick_clusters (Suc n) c j left F cl = pick_clusters n (Suc c) (j + 1) (left - 1) F (cl(int j := of_nat c))"
      using True by simp
    also have "\<dots> = (True, \<lambda>t. if int (j + 1) \<le> t \<and> t < int (j + 1) + int (left - 1) then of_nat (?fr ! nat (t - int (j + 1)))
        else if t = int (j + 1) + int (left - 1) then 0xFFF8 else (cl(int j := of_nat c)) t)"
      by (rule Suc.IH [OF l])
    also have "\<dots> = (True, \<lambda>t. if int j \<le> t \<and> t < int j + int left then of_nat ((c # ?fr) ! nat (t - int j))
        else if t = int j + int left then 0xFFF8 else cl t)"
    proof (rule arg_cong [of _ _ "Pair True"], rule ext)
      fix t
      have "int (j + 1) + int (left - 1) = int j + int left" using True by simp
      then show "(if int (j + 1) \<le> t \<and> t < int (j + 1) + int (left - 1) then of_nat (?fr ! nat (t - int (j + 1)))
          else if t = int (j + 1) + int (left - 1) then 0xFFF8 else (cl(int j := of_nat c)) t) =
        (if int j \<le> t \<and> t < int j + int left then of_nat ((c # ?fr) ! nat (t - int j))
          else if t = int j + int left then 0xFFF8 else cl t)"
        using True n [of t] by (cases "t = int j") auto
    qed
    also have "c # ?fr = free_clusters F c (Suc n)" using True by simp
    finally show ?thesis .
  qed
qed simp

lemma pick_clusters_full:
  "length (free_clusters F c n) \<le> left \<Longrightarrow> \<not> fst (pick_clusters n c j left F cl)"
  by (induction n arbitrary: c j left cl) (auto split: if_splits)

fun link :: "u16 list \<Rightarrow> (u16 \<Rightarrow> u16) \<Rightarrow> u16 \<Rightarrow> u16" where
  "link [] F = F"
| "link [x] F = F(x := 0xFFF8)"
| "link (x # y # ys) F = link (y # ys) (F(x := y))"

lemma link_other: "c \<notin> set cs \<Longrightarrow> link cs F c = F c"
  by (induction cs F rule: link.induct) auto

lemma link_chain:
  "distinct cs \<Longrightarrow> cs \<noteq> [] \<Longrightarrow> \<forall>x \<in> set cs. x \<noteq> 0 \<and> x \<le> 0xFFF0 \<Longrightarrow> chain (link cs F) (hd cs) cs"
proof (induction cs F rule: link.induct)
  case (3 x y ys F)
  have "link (y # ys) (F(x := y)) x = y" using 3(2) link_other [of x "y # ys"] by simp
  moreover have "chain (link (y # ys) (F(x := y))) y (y # ys)" using 3 by (simp del: fun_upd_apply)
  ultimately show ?case using 3(4) by (simp del: fun_upd_apply chain.simps(2) link.simps add: link.simps(3) chain.simps(2) [of _ x])
qed auto

lemma cluster_lba_inj: "cluster_lba c = cluster_lba d \<Longrightarrow> c = d"
proof -
  assume "cluster_lba c = cluster_lba d"
  then have "(ucast c :: u64) = ucast d" by (simp add: cluster_lba_def)
  then have "unat (ucast c :: u64) = unat (ucast d :: u64)" by simp
  then show "c = d" using u16_range [of c] u16_range [of d]
    by (simp add: unsigned_ucast_eq take_bit_nat_eq_self word_unat_eq_iff)
qed

section \<open>Writing the clusters\<close>

lemma get_sector_cong: "(\<And>x. x \<in> area a 512 \<Longrightarrow> m' x = m x) \<Longrightarrow> get_sector a m' = get_sector a m"
proof (rule ext)
  fix k :: "9 word"
  assume h: "\<And>x. x \<in> area a 512 \<Longrightarrow> m' x = m x"
  have "unat k < 2 ^ LENGTH(9)" by (rule unsigned_less)
  then have "unat k < 512" by simp
  then have "at_off a (unat k) \<in> area a 512" by (rule area_at)
  then show "get_sector a m' k = get_sector a m k" using h by (simp add: get_sector_def)
qed

lemma write16_fat_outside: "x \<notin> fat_area \<Longrightarrow> write16 (fat_slot VOLUME1_FAT_ADDRESS c) v m x = m x"
  using fat_slot_in_area [of c] by (auto simp: write16_def)

text \<open>One round of the loop: the entry of the cluster and its sector.\<close>

lemma write_cluster_step:
  assumes "ide_boot s" "cluster_lba x < gNumberOfSectorsInBootDisk s" "area address 512 \<inter> fat_area = {}"
    and "fat16ClustersToSave s (int i) = x" "x \<noteq> 0xFFF8" "i < 16"
  shows "write_clusters VOLUME1_FAT_ADDRESS i address s = write_clusters VOLUME1_FAT_ADDRESS (i + 1) (address + 512)
    (set_volume (cluster_lba x) (get_sector address (bytes s)) (set_fat VOLUME1_FAT_ADDRESS x (fat16ClustersToSave s (int i + 1)) s))"
proof -
  let ?s = "set_fat VOLUME1_FAT_ADDRESS x (fat16ClustersToSave s (int i + 1)) s"
  have b: "ide_boot ?s" "cluster_lba x < gNumberOfSectorsInBootDisk ?s" using assms(1,2) by (simp_all add: set_fat_def)
  have "get_sector address (bytes ?s) = get_sector address (bytes s)"
    by (rule get_sector_cong) (use assms(3) in \<open>auto simp: set_fat_def intro!: write16_fat_outside\<close>)
  then obtain r where "ataWriteSector (current_ide_port ?s) address (cluster_lba x) ?s =
      Inr (r, set_volume (cluster_lba x) (get_sector address (bytes s)) ?s)" using pio_write [OF b, of address] by auto
  then show ?thesis using assms(4-6) by (subst write_clusters.simps) (simp add: Let_def cluster_lba_def)
qed

lemma write_clusters_result:
  assumes "ide_boot s" "\<forall>x \<in> set xs. cluster_lba x < gNumberOfSectorsInBootDisk s" "area address (512 * length xs) \<inter> fat_area = {}"
    and "\<forall>t < length xs. fat16ClustersToSave s (int (i + t)) = xs ! t" "fat16ClustersToSave s (int (i + length xs)) = 0xFFF8"
    and "distinct xs" "xs \<noteq> []" "0xFFF8 \<notin> set xs" "i + length xs \<le> 16"
  shows "\<exists>f m. write_clusters VOLUME1_FAT_ADDRESS i address s = Inr (True, s\<lparr>bytes := m, ide_sectors := f\<rparr>) \<and>
    (\<forall>x. x \<notin> fat_area \<longrightarrow> m x = bytes s x) \<and> fat_of m = link xs (fat_of (bytes s)) \<and>
    (\<forall>t < length xs. volume (s\<lparr>ide_sectors := f\<rparr>) (cluster_lba (xs ! t)) = get_sector (at_off address (512 * t)) (bytes s)) \<and>
    (\<forall>k < gNumberOfSectorsInBootDisk s. k \<notin> cluster_lba ` set xs \<longrightarrow> volume (s\<lparr>ide_sectors := f\<rparr>) k = volume s k)"
  using assms
proof (induction xs arbitrary: i address s)
  case (Cons x xs)
  let ?s = "set_volume (cluster_lba x) (get_sector address (bytes s)) (set_fat VOLUME1_FAT_ADDRESS x (fat16ClustersToSave s (int i + 1)) s)"
  have sub: "area address 512 \<subseteq> area address (512 * length (x # xs))" by (rule area_mono) simp
  have x: "fat16ClustersToSave s (int i) = x" "x \<noteq> 0xFFF8" using Cons.prems(4) [rule_format, of 0] Cons.prems(8) by auto
  have step: "write_clusters VOLUME1_FAT_ADDRESS i address s = write_clusters VOLUME1_FAT_ADDRESS (i + 1) (address + 512) ?s"
    by (rule write_cluster_step) (use Cons.prems sub x in auto)
  have b: "ide_boot ?s" "gNumberOfSectorsInBootDisk ?s = gNumberOfSectorsInBootDisk s" "fat16ClustersToSave ?s = fat16ClustersToSave s"
    "bytes ?s = write16 (fat_slot VOLUME1_FAT_ADDRESS x) (fat16ClustersToSave s (int i + 1)) (bytes s)"
    using Cons.prems(1) by (simp_all add: set_volume_def set_fat_def)
  have lx: "cluster_lba x < gNumberOfSectorsInBootDisk s" using Cons.prems(2) by simp
  have v: "volume ?s k = (if k = cluster_lba x then get_sector address (bytes s) else volume s k)" if "k < gNumberOfSectorsInBootDisk s" for k
    using volume_set [of "set_fat VOLUME1_FAT_ADDRESS x (fat16ClustersToSave s (int i + 1)) s" k "cluster_lba x"] that lx Cons.prems(1)
    by (simp add: set_fat_def)
  have out: "bytes ?s y = bytes s y" if "y \<notin> fat_area" for y using write16_fat_outside [OF that] b(4) by simp
  have F: "fat_of (bytes ?s) = (fat_of (bytes s))(x := fat16ClustersToSave s (int i + 1))" unfolding b(4) by (rule fat_of_write16)
  show ?case
  proof (cases "xs = []")
    case True
    have e: "fat16ClustersToSave s (int i + 1) = 0xFFF8" using Cons.prems(5) True by (simp add: add.commute)
    define m where "m = write16 (fat_slot VOLUME1_FAT_ADDRESS x) 0xFFF8 (bytes ?s)"
    have "write_clusters VOLUME1_FAT_ADDRESS (i + 1) (address + 512) ?s = Inr (True, set_fat VOLUME1_FAT_ADDRESS x 0xFFF8 ?s)"
      using e x(1) b(3) by (subst write_clusters.simps) (simp add: Let_def add.commute)
    moreover have "set_fat VOLUME1_FAT_ADDRESS x 0xFFF8 ?s = s\<lparr>bytes := m, ide_sectors := ide_sectors ?s\<rparr>"
      by (simp add: set_fat_def m_def set_volume_def)
    moreover have "volume (s\<lparr>ide_sectors := ide_sectors ?s\<rparr>) = volume ?s" by (simp add: volume_def boot_unit_def set_volume_def set_fat_def fun_eq_iff)
    moreover have "fat_of m = (fat_of (bytes s))(x := 0xFFF8)" unfolding m_def fat_of_write16 F by simp
    moreover have "m y = bytes s y" if "y \<notin> fat_area" for y unfolding m_def using write16_fat_outside [OF that] out [OF that] by simp
    ultimately show ?thesis unfolding step using True v lx by (intro exI [where x = "ide_sectors ?s"] exI [where x = m]) simp
  next
    case False
    then obtain y ys where ys: "xs = y # ys" by (cases xs) auto
    have y: "fat16ClustersToSave s (int i + 1) = y" using Cons.prems(4) [rule_format, of 1] ys by (simp add: add.commute)
    have "area (at_off address 512) (512 * length xs) \<subseteq> area address (512 * length (x # xs))" by (rule area_sub) simp
    then have d: "area (address + 512) (512 * length xs) \<inter> fat_area = {}" using Cons.prems(3) by auto
    have c: "\<forall>t < length xs. fat16ClustersToSave ?s (int (i + 1 + t)) = xs ! t"
    proof (intro allI impI)
      fix t assume "t < length xs"
      with Cons.prems(4) [rule_format, of "Suc t"] show "fat16ClustersToSave ?s (int (i + 1 + t)) = xs ! t"
        by (simp add: set_volume_def set_fat_def ac_simps)
    qed
    have "\<exists>f m. write_clusters VOLUME1_FAT_ADDRESS (i + 1) (address + 512) ?s = Inr (True, ?s\<lparr>bytes := m, ide_sectors := f\<rparr>) \<and>
        (\<forall>x. x \<notin> fat_area \<longrightarrow> m x = bytes ?s x) \<and> fat_of m = link xs (fat_of (bytes ?s)) \<and>
        (\<forall>t < length xs. volume (?s\<lparr>ide_sectors := f\<rparr>) (cluster_lba (xs ! t)) = get_sector (at_off (address + 512) (512 * t)) (bytes ?s)) \<and>
        (\<forall>k < gNumberOfSectorsInBootDisk ?s. k \<notin> cluster_lba ` set xs \<longrightarrow> volume (?s\<lparr>ide_sectors := f\<rparr>) k = volume ?s k)"
      by (rule Cons.IH) (use Cons.prems b(1-3) c d False in \<open>simp_all add: add.assoc\<close>)
    then obtain f m where f: "write_clusters VOLUME1_FAT_ADDRESS (i + 1) (address + 512) ?s = Inr (True, ?s\<lparr>bytes := m, ide_sectors := f\<rparr>)"
      "\<forall>x. x \<notin> fat_area \<longrightarrow> m x = bytes ?s x" "fat_of m = link xs (fat_of (bytes ?s))"
      "\<forall>t < length xs. volume (?s\<lparr>ide_sectors := f\<rparr>) (cluster_lba (xs ! t)) = get_sector (at_off (address + 512) (512 * t)) (bytes ?s)"
      "\<forall>k < gNumberOfSectorsInBootDisk s. k \<notin> cluster_lba ` set xs \<longrightarrow> volume (?s\<lparr>ide_sectors := f\<rparr>) k = volume ?s k"
      unfolding b(2) by (elim exE conjE)
    have s: "?s\<lparr>bytes := m, ide_sectors := f\<rparr> = s\<lparr>bytes := m, ide_sectors := f\<rparr>" by (simp add: set_volume_def set_fat_def)
    have V: "volume (?s\<lparr>ide_sectors := f\<rparr>) = volume (s\<lparr>ide_sectors := f\<rparr>)" by (simp add: volume_def boot_unit_def set_volume_def set_fat_def fun_eq_iff)
    show ?thesis
    proof (intro exI conjI)
      show "write_clusters VOLUME1_FAT_ADDRESS i address s = Inr (True, s\<lparr>bytes := m, ide_sectors := f\<rparr>)" unfolding step f(1) s ..
      show "\<forall>x. x \<notin> fat_area \<longrightarrow> m x = bytes s x" using f(2) out by simp
      show "fat_of m = link (x # xs) (fat_of (bytes s))" unfolding f(3) F by (simp add: y ys)
      show "\<forall>t < length (x # xs). volume (s\<lparr>ide_sectors := f\<rparr>) (cluster_lba ((x # xs) ! t)) = get_sector (at_off address (512 * t)) (bytes s)"
      proof (intro allI impI)
        fix t assume t: "t < length (x # xs)"
        show "volume (s\<lparr>ide_sectors := f\<rparr>) (cluster_lba ((x # xs) ! t)) = get_sector (at_off address (512 * t)) (bytes s)"
        proof (cases t)
          case 0
          have "cluster_lba x \<notin> cluster_lba ` set xs" using Cons.prems(6) cluster_lba_inj by auto
          with f(5) lx v [OF lx] show ?thesis by (simp add: 0 V)
        next
          case (Suc u)
          then have u: "u < length xs" using t by simp
          have e: "at_off (address + 512) (512 * u) = at_off address (512 * t)" by (simp add: Suc)
          have "area (at_off address (512 * t)) 512 \<subseteq> area address (512 * length (x # xs))" by (rule area_sub) (use t in simp)
          then have "get_sector (at_off address (512 * t)) (bytes ?s) = get_sector (at_off address (512 * t)) (bytes s)"
            using Cons.prems(3) out by (intro get_sector_cong) blast
          with f(4) [rule_format, OF u] show ?thesis unfolding e V by (simp add: Suc)
        qed
      qed
      show "\<forall>k < gNumberOfSectorsInBootDisk s. k \<notin> cluster_lba ` set (x # xs) \<longrightarrow> volume (s\<lparr>ide_sectors := f\<rparr>) k = volume s k"
        using f(5) v by (simp add: V)
    qed
  qed
qed simp

section \<open>Saving a file\<close>

text \<open>What a successful call has done: an entry \<open>e\<close> at position \<open>j\<close> of the root directory, in memory and
  on the disk, a chain over the clusters \<open>cs\<close> in the FAT, in memory only, and the sectors of the file.\<close>

definition adds_file :: "io_state \<Rightarrow> nat \<Rightarrow> u8 list \<Rightarrow> u16 list \<Rightarrow> addr \<Rightarrow> io_state \<Rightarrow> bool" where
  "adds_file s j e cs file s' \<longleftrightarrow> (\<exists>cl f m.
     s' = s\<lparr>bytes := m, ide_sectors := f, fat16ClustersToSave := cl, g_fat_cache_saved := False\<rparr> \<and>
     (\<forall>x. x \<notin> fat_area \<longrightarrow> m x = put_bytes (dir_slot VOLUME1_ROOTDIR_ADDRESS j) e (dir_view s) x) \<and>
     fat_of m = link cs (fat_of (bytes s)) \<and> dir_view s' = m \<and>
     (\<forall>t < length cs. volume s' (cluster_lba (cs ! t)) = get_sector (at_off file (512 * t)) (bytes s)) \<and>
     (\<forall>k < gNumberOfSectorsInBootDisk s. k \<notin> cluster_lba ` set cs \<and> (k < 559 \<or> 591 \<le> k) \<longrightarrow> volume s' k = volume s k))"

lemma put_bytes_at: "k < length xs \<Longrightarrow> length xs < 2 ^ 64 \<Longrightarrow> put_bytes a xs m (at_off a k) = xs ! k"
  by (simp add: put_bytes_def unat_of_nat)

lemma put_bytes_outside: "length xs < 2 ^ 64 \<Longrightarrow> x \<notin> area a (length xs) \<Longrightarrow> put_bytes a xs m x = m x"
  by (simp add: put_bytes_def area_unat)

lemma dir_entry_bytes_length: "length name = 11 \<Longrightarrow> length (dir_entry_bytes name flag first n) = 32"
  by (simp add: dir_entry_bytes_def)

lemma dir_slot_offset: "dir_slot a j = at_off a (32 * j)"
  by simp

lemma dir_slot_area: "j < 512 \<Longrightarrow> area (dir_slot VOLUME1_ROOTDIR_ADDRESS j) 32 \<subseteq> root_area"
  unfolding root_area_def dir_slot_offset by (rule area_sub) simp

lemma cluster_lba_unat: "unat (cluster_lba c) = 589 + unat c"
proof -
  have "cluster_lba c = 589 + ucast c" by (simp add: cluster_lba_def fat_consts)
  moreover have "unat (ucast c :: u64) = unat c"
    using u16_range [of c] by (simp add: unsigned_ucast_eq take_bit_nat_eq_self)
  ultimately show ?thesis using u16_range [of c] by (simp add: unat_word_ariths)
qed

text \<open>What the disk holds after the root directory has been written is what memory holds.\<close>

lemma dir_view_saved:
  assumes "do_save_sequence 32 VOLUME1_ROOTDIR_ADDRESS VOLUME1_ROOTDIR_LBA s = Inr (s\<lparr>ide_sectors := f\<rparr>)"
    and "ide_boot s" "591 \<le> gNumberOfSectorsInBootDisk s"
  shows "put_sectors 32 VOLUME1_ROOTDIR_ADDRESS (\<lambda>i. volume (s\<lparr>ide_sectors := f\<rparr>) (VOLUME1_ROOTDIR_LBA + of_nat i)) (bytes s) = bytes s \<and>
    (\<forall>k < gNumberOfSectorsInBootDisk s. k < 559 \<or> 591 \<le> k \<longrightarrow> volume (s\<lparr>ide_sectors := f\<rparr>) k = volume s k)"
proof -
  have "unat VOLUME1_ROOTDIR_LBA + 32 \<le> unat (gNumberOfSectorsInBootDisk s)"
    using assms(3) by (simp add: VOLUME1_ROOTDIR_LBA_def unat_le_iff)
  note r = save_sequence_reload [OF assms(1,2) this]
  have "put_sectors 32 VOLUME1_ROOTDIR_ADDRESS (\<lambda>i. volume (s\<lparr>ide_sectors := f\<rparr>) (VOLUME1_ROOTDIR_LBA + of_nat i)) (bytes s) x = bytes s x" for x
    using r(1) [of x "bytes s"] by (cases "unat (x - VOLUME1_ROOTDIR_ADDRESS) < 512 * 32") (simp_all add: put_sectors_def)
  then show ?thesis using r(2) by (auto simp: VOLUME1_ROOTDIR_LBA_def unat_less_iff unat_le_iff)
qed

text \<open>The clusters a call takes and the position of the new entry.\<close>

definition new_clusters :: "io_state \<Rightarrow> nat \<Rightarrow> u16 list" where
  "new_clusters s k = map of_nat (take k (free_clusters (\<lambda>c. fat_of (bytes s) (of_nat c)) 3 CLUSTERS_TO_SAVE_MAX))"

definition enough_clusters :: "io_state \<Rightarrow> nat \<Rightarrow> bool" where
  "enough_clusters s k \<longleftrightarrow> k < length (free_clusters (\<lambda>c. fat_of (bytes s) (of_nat c)) 3 CLUSTERS_TO_SAVE_MAX)"

definition free_entry :: "io_state \<Rightarrow> nat \<Rightarrow> bool" where
  "free_entry s j \<longleftrightarrow> findEmptyDirectoryEntry VOLUME1_ROOTDIR_ADDRESS (int FAT16_ROOT_ENTRIES) (dir_view s) = int j"

lemma free_clusters_range: "c \<in> set (free_clusters F 3 CLUSTERS_TO_SAVE_MAX) \<Longrightarrow> 3 \<le> c \<and> c < 0x8003"
  by (simp add: free_clusters_set CLUSTERS_TO_SAVE_MAX_def)

lemma new_clusters_length: "enough_clusters s k \<Longrightarrow> length (new_clusters s k) = k"
  by (simp add: new_clusters_def enough_clusters_def)

lemma new_clusters_facts:
  "distinct (new_clusters s k)" "x \<in> set (new_clusters s k) \<Longrightarrow> 3 \<le> unat x \<and> unat x < 0x8003 \<and> fat_of (bytes s) x = 0"
proof -
  let ?fr = "take k (free_clusters (\<lambda>c. fat_of (bytes s) (of_nat c)) 3 CLUSTERS_TO_SAVE_MAX)"
  have r: "3 \<le> c \<and> c < 0x8003 \<and> fat_of (bytes s) (of_nat c) = 0" if "c \<in> set ?fr" for c
    using in_set_takeD [OF that] by (simp add: free_clusters_set CLUSTERS_TO_SAVE_MAX_def)
  have u: "unat (of_nat c :: u16) = c" if "c < 0x8003" for c using that by (simp add: unat_of_nat)
  have "inj_on (of_nat :: nat \<Rightarrow> u16) (set ?fr)"
  proof (rule inj_onI)
    fix c d assume c: "c \<in> set ?fr" "d \<in> set ?fr" "(of_nat c :: u16) = of_nat d"
    from c(3) have "unat (of_nat c :: u16) = unat (of_nat d :: u16)" by (rule arg_cong)
    then show "c = d" using u [of c] u [of d] r [OF c(1)] r [OF c(2)] by simp
  qed
  then show "distinct (new_clusters s k)" by (simp add: new_clusters_def distinct_map free_clusters_distinct)
  show "3 \<le> unat x \<and> unat x < 0x8003 \<and> fat_of (bytes s) x = 0" if x: "x \<in> set (new_clusters s k)"
  proof -
    obtain c where c: "c \<in> set ?fr" "x = of_nat c" using x unfolding new_clusters_def set_map by blast
    show ?thesis using r [OF c(1)] u [of c] by (simp add: c(2))
  qed
qed

lemma free_entry_facts:
  assumes "free_entry s j"
  shows "j < 512" "dir_view s (dir_slot VOLUME1_ROOTDIR_ADDRESS j) = 0"
    "\<And>i. i < j \<Longrightarrow> dir_view s (dir_slot VOLUME1_ROOTDIR_ADDRESS i) \<noteq> 0"
proof -
  have "first_slot (\<lambda>i. dir_view s (dir_slot VOLUME1_ROOTDIR_ADDRESS i) = 0) [0..<512] = Some j"
    using assms by (auto simp: free_entry_def findEmptyDirectoryEntry_def fat_consts split: option.splits if_splits)
  from first_slot_upt_least [OF this] show "j < 512" "dir_view s (dir_slot VOLUME1_ROOTDIR_ADDRESS j) = 0"
    "\<And>i. i < j \<Longrightarrow> dir_view s (dir_slot VOLUME1_ROOTDIR_ADDRESS i) \<noteq> 0" by auto
qed

lemma free_clusters_view:
  "free_clusters (\<lambda>c. read16 (dir_view s) (VOLUME1_FAT_ADDRESS + 2 * of_nat c)) 3 CLUSTERS_TO_SAVE_MAX =
   free_clusters (\<lambda>c. fat_of (bytes s) (of_nat c)) 3 CLUSTERS_TO_SAVE_MAX"
proof -
  have F: "read16 (dir_view s) (VOLUME1_FAT_ADDRESS + 2 * of_nat c) = fat_of (bytes s) (of_nat c)" if "c < 0x8003" for c
  proof -
    have "(ucast (of_nat c :: u16) :: u64) = of_nat c" using that by (simp add: unsigned_of_nat take_bit_nat_eq_self)
    then have "fat_of (dir_view s) (of_nat c) = read16 (dir_view s) (VOLUME1_FAT_ADDRESS + 2 * of_nat c)"
      unfolding fat_of_def by simp
    then show ?thesis by simp
  qed
  have "free_clusters (\<lambda>c. read16 (dir_view s) (VOLUME1_FAT_ADDRESS + 2 * of_nat c)) c n = free_clusters (\<lambda>c. fat_of (bytes s) (of_nat c)) c n"
    if "c + n \<le> 0x8003" for c n
    using that by (induction n arbitrary: c) (simp_all add: F)
  then show ?thesis by (simp add: CLUSTERS_TO_SAVE_MAX_def)
qed

lemma save_file_result:
  assumes "mounted s \<and> g_fat_cache_loaded s" "name \<noteq> NULL" "bytes s name \<noteq> 0" "name \<notin> root_area"
    and k: "unat size_in_sectors = k" "1 \<le> k" "k \<le> 16" and "enough_clusters s k" "free_entry s j"
    and "\<forall>x \<in> set (new_clusters s k). cluster_lba x < gNumberOfSectorsInBootDisk s"
    and disj: "area file (512 * k) \<inter> (fat_area \<union> root_area) = {}"
  shows "\<exists>s'. fat16SaveFile VOLUME1_FAT_ADDRESS VOLUME1_ROOTDIR_ADDRESS (int FAT16_ROOT_ENTRIES) name size_in_sectors n file flag s = Inr (0, s') \<and>
    adds_file s j (dir_entry_bytes (read_bytes (dir_view s) name 11) flag (hd (new_clusters s k)) n) (new_clusters s k) file s'"
proof -
  have m: "ide_boot s" "591 \<le> gNumberOfSectorsInBootDisk s" "g_fat_cache_loaded s" using assms(1) by (simp_all add: mounted_def)
  let ?cs = "new_clusters s k" and ?fr = "free_clusters (\<lambda>c. fat_of (bytes s) (of_nat c)) 3 CLUSTERS_TO_SAVE_MAX"
  let ?s2 = "s\<lparr>bytes := dir_view s\<rparr>"
  have len: "length ?cs = k" using assms(8) by (rule new_clusters_length)
  define cl where "cl = (\<lambda>t. if int 0 \<le> t \<and> t < int 0 + int k then of_nat (?fr ! nat (t - int 0))
    else if t = int 0 + int k then 0xFFF8 else fat16ClustersToSave s t)"
  have pick: "pick_clusters CLUSTERS_TO_SAVE_MAX 3 0 k (\<lambda>c. read16 (bytes ?s2) (VOLUME1_FAT_ADDRESS + 2 * of_nat c)) (fat16ClustersToSave s) = (True, cl)"
  proof -
    have fr3: "free_clusters (\<lambda>c. read16 (bytes ?s2) (VOLUME1_FAT_ADDRESS + 2 * of_nat c)) 3 CLUSTERS_TO_SAVE_MAX = ?fr"
      using free_clusters_view by simp
    show ?thesis
      unfolding cl_def by (rule pick_clusters_found [of k "\<lambda>c. read16 (bytes ?s2) (VOLUME1_FAT_ADDRESS + 2 * of_nat c)" 3
            CLUSTERS_TO_SAVE_MAX 0 "fat16ClustersToSave s", unfolded fr3]) (use assms(8) in \<open>simp add: enough_clusters_def\<close>)
  qed
  have cl: "\<forall>t < k. cl (int t) = ?cs ! t" "cl (int k) = 0xFFF8"
    using assms(8) by (simp_all add: cl_def new_clusters_def enough_clusters_def)
  have h: "cl 0 = hd ?cs" using cl(1) [rule_format, of 0] k(2) len by (cases ?cs) auto
  define e where "e = dir_entry_bytes (read_bytes (dir_view s) name 11) flag (hd ?cs) n"
  define M where "M = put_bytes (dir_slot VOLUME1_ROOTDIR_ADDRESS j) e (dir_view s)"
  have el: "length e = 32" by (simp add: e_def dir_entry_bytes_length)
  have j: "j < 512" using free_entry_facts [OF assms(9)] by simp
  let ?s4 = "?s2\<lparr>fat16ClustersToSave := cl, bytes := M\<rparr>"
  have out: "M x = dir_view s x" if "x \<notin> root_area" for x
    unfolding M_def using that dir_slot_area [OF j] el by (intro put_bytes_outside) auto
  then have out': "M x = bytes s x" if "x \<notin> root_area" for x using that dir_view_outside by simp
  have FM: "fat_of M = fat_of (bytes s)" using areas_disjoint by (intro fat_of_cong out') blast
  have b4: "ide_boot ?s4" "gNumberOfSectorsInBootDisk ?s4 = gNumberOfSectorsInBootDisk s" "bytes ?s4 = M" using m(1) by (simp_all add: ide_boot_def boot_unit_def)
  have "\<exists>f m. write_clusters VOLUME1_FAT_ADDRESS 0 file ?s4 = Inr (True, ?s4\<lparr>bytes := m, ide_sectors := f\<rparr>) \<and>
    (\<forall>x. x \<notin> fat_area \<longrightarrow> m x = bytes ?s4 x) \<and> fat_of m = link ?cs (fat_of (bytes ?s4)) \<and>
    (\<forall>t < length ?cs. volume (?s4\<lparr>ide_sectors := f\<rparr>) (cluster_lba (?cs ! t)) = get_sector (at_off file (512 * t)) (bytes ?s4)) \<and>
    (\<forall>k < gNumberOfSectorsInBootDisk ?s4. k \<notin> cluster_lba ` set ?cs \<longrightarrow> volume (?s4\<lparr>ide_sectors := f\<rparr>) k = volume ?s4 k)"
  proof (rule write_clusters_result)
    show "distinct ?cs" by (rule new_clusters_facts)
    show "0xFFF8 \<notin> set ?cs" using new_clusters_facts(2) [of "0xFFF8" s k] by auto
    show "?cs \<noteq> []" using len k(2) by auto
  qed (use assms(10) b4 disj len k(3) cl in auto)
  then obtain f m' where w: "write_clusters VOLUME1_FAT_ADDRESS 0 file ?s4 = Inr (True, ?s4\<lparr>bytes := m', ide_sectors := f\<rparr>)"
    "\<forall>x. x \<notin> fat_area \<longrightarrow> m' x = M x" "fat_of m' = link ?cs (fat_of M)"
    "\<forall>t < k. volume (?s4\<lparr>ide_sectors := f\<rparr>) (cluster_lba (?cs ! t)) = get_sector (at_off file (512 * t)) M"
    "\<forall>k < gNumberOfSectorsInBootDisk s. k \<notin> cluster_lba ` set ?cs \<longrightarrow> volume (?s4\<lparr>ide_sectors := f\<rparr>) k = volume ?s4 k"
    unfolding b4(2,3) len by (elim exE conjE)
  let ?s5 = "?s4\<lparr>bytes := m', ide_sectors := f\<rparr>"
  have b5: "ide_boot ?s5" "591 \<le> gNumberOfSectorsInBootDisk ?s5" using b4(1) m(2) by (simp_all add: ide_boot_def boot_unit_def)
  have "unat VOLUME1_ROOTDIR_LBA + 32 \<le> unat (gNumberOfSectorsInBootDisk ?s5)"
    using b5(2) by (simp add: VOLUME1_ROOTDIR_LBA_def unat_le_iff)
  from save_sequence_result [OF b5(1) this] obtain g where
    g: "do_save_sequence 32 VOLUME1_ROOTDIR_ADDRESS VOLUME1_ROOTDIR_LBA ?s5 = Inr (?s5\<lparr>ide_sectors := g\<rparr>)" by blast
  define s' where "s' = s\<lparr>bytes := m', ide_sectors := g, fat16ClustersToSave := cl, g_fat_cache_saved := False\<rparr>"
  have s': "(?s5\<lparr>ide_sectors := g\<rparr>)\<lparr>g_fat_cache_saved := False\<rparr> = s'" by (simp add: s'_def)
  have V: "volume s' = volume (?s5\<lparr>ide_sectors := g\<rparr>)" "volume ?s5 = volume (?s4\<lparr>ide_sectors := f\<rparr>)" "volume ?s4 = volume s"
    by (simp_all add: s'_def volume_def boot_unit_def fun_eq_iff)
  note sv = dir_view_saved [OF g b5]
  have lba: "591 \<le> cluster_lba x" if "x \<in> set ?cs" for x
    using new_clusters_facts(2) [OF that] by (simp add: unat_le_iff cluster_lba_unat)
  have "fat16SaveFile VOLUME1_FAT_ADDRESS VOLUME1_ROOTDIR_ADDRESS (int FAT16_ROOT_ENTRIES) name size_in_sectors n file flag s = Inr (0, s')"
  proof -
    have l: "fs_load_fat VOLUME1_FAT_ADDRESS VOLUME1_FAT_LBA 246 ?s2 = Inr ?s2" using m(3) by (simp add: fs_load_fat_def)
    have sz: "\<not> 16 < size_in_sectors" using k by (simp add: unat_less_iff)
    have E: "dir_entry_bytes (read_bytes (dir_view s) name 11) flag (cl 0) n = e" by (simp add: e_def h)
    have S: "atadsk_save_rootdir VOLUME1_ROOTDIR_ADDRESS VOLUME1_ROOTDIR_LBA 32 ?s5 = Inr (0, ?s5\<lparr>ide_sectors := g\<rparr>)"
      using g by (simp add: atadsk_save_rootdir_def fat_consts)
    have c: "VOLUME1_FAT_ADDRESS \<noteq> NULL" "VOLUME1_ROOTDIR_ADDRESS \<noteq> NULL" "int FAT16_ROOT_ENTRIES \<noteq> 0" by (simp_all add: fat_consts)
    have fe: "findEmptyDirectoryEntry VOLUME1_ROOTDIR_ADDRESS (int FAT16_ROOT_ENTRIES) (dir_view s) = int j" using assms(9) by (simp add: free_entry_def)
    show ?thesis
      unfolding fat16SaveFile_def
      using c assms(2,3) sz load_rootdir_view [OF m(1,2)] l pick [simplified] fe E w(1) S
      by (simp add: k(1) Let_def M_def [symmetric] fs_fat16_cache_not_saved_def s' [simplified])
  qed
  moreover have "adds_file s j e ?cs file s'"
    unfolding adds_file_def
  proof (intro exI conjI)
    show "s' = s\<lparr>bytes := m', ide_sectors := g, fat16ClustersToSave := cl, g_fat_cache_saved := False\<rparr>" by (rule s'_def)
    show "\<forall>x. x \<notin> fat_area \<longrightarrow> m' x = put_bytes (dir_slot VOLUME1_ROOTDIR_ADDRESS j) e (dir_view s) x" using w(2) by (simp add: M_def)
    show "fat_of m' = link ?cs (fat_of (bytes s))" unfolding w(3) FM ..
    show "dir_view s' = m'" using sv unfolding dir_view_def V(1) by (simp add: s'_def)
    show "\<forall>t < length ?cs. volume s' (cluster_lba (?cs ! t)) = get_sector (at_off file (512 * t)) (bytes s)"
    proof (intro allI impI)
      fix t assume "t < length ?cs"
      then have t: "t < k" "?cs ! t \<in> set ?cs" using len by auto
      have "area (at_off file (512 * t)) 512 \<subseteq> area file (512 * k)" by (rule area_sub) (use t in simp)
      then have "get_sector (at_off file (512 * t)) M = get_sector (at_off file (512 * t)) (bytes s)"
        using disj out' by (intro get_sector_cong) blast
      moreover have "volume s' (cluster_lba (?cs ! t)) = volume ?s5 (cluster_lba (?cs ! t))"
        using sv lba [OF t(2)] assms(10) t(2) unfolding V(1) by simp
      ultimately show "volume s' (cluster_lba (?cs ! t)) = get_sector (at_off file (512 * t)) (bytes s)"
        using w(4) t(1) unfolding V(2) by simp
    qed
    show "\<forall>k < gNumberOfSectorsInBootDisk s. k \<notin> cluster_lba ` set ?cs \<and> (k < 559 \<or> 591 \<le> k) \<longrightarrow> volume s' k = volume s k"
    proof (intro allI impI)
      fix l assume l: "l < gNumberOfSectorsInBootDisk s" "l \<notin> cluster_lba ` set ?cs \<and> (l < 559 \<or> 591 \<le> l)"
      have "l < gNumberOfSectorsInBootDisk ?s5" using l(1) by simp
      with conjunct2 [OF sv, rule_format, of l] l(2) have "volume s' l = volume ?s5 l" unfolding V(1) by blast
      also have "\<dots> = volume ?s4 l" using w(5) [rule_format, OF l(1)] l(2) unfolding V(2) by simp
      finally show "volume s' l = volume s l" unfolding V(3) .
    qed
  qed
  ultimately show ?thesis unfolding e_def by blast
qed

end
