(* ===== verification/Fat_Contract.thy ===== *)
theory Fat_Contract
  imports Fat_Store
begin

text \<open>
  What a save means for the next load (gthouse/fs/fat/fat16.c): the file just saved is read back, the other files are
  not touched, and a restart of the machine keeps the file only when the FAT was written back.
\<close>

section \<open>The directory after a save\<close>

lemma adds_file_config:
  assumes "adds_file s j e cs file s'"
  shows "mounted s' = mounted s" "gNumberOfSectorsInBootDisk s' = gNumberOfSectorsInBootDisk s" "root s' = root s"
    "backbuffer_va s' = backbuffer_va s" "g_fat_cache_loaded s' = g_fat_cache_loaded s" "dir_view s' = bytes s'"
    "\<And>x. x \<notin> fat_area \<Longrightarrow> bytes s' x = put_bytes (dir_slot VOLUME1_ROOTDIR_ADDRESS j) e (dir_view s) x"
    "fat_of (bytes s') = link cs (fat_of (bytes s))" "\<not> g_fat_cache_saved s'"
proof -
  obtain cl f m where s': "s' = s\<lparr>bytes := m, ide_sectors := f, fat16ClustersToSave := cl, g_fat_cache_saved := False\<rparr>"
    and m: "\<forall>x. x \<notin> fat_area \<longrightarrow> m x = put_bytes (dir_slot VOLUME1_ROOTDIR_ADDRESS j) e (dir_view s) x"
      "fat_of m = link cs (fat_of (bytes s))" "dir_view s' = m"
    using assms unfolding adds_file_def by (elim exE conjE)
  have b: "bytes s' = m" by (simp add: s')
  show "mounted s' = mounted s" "gNumberOfSectorsInBootDisk s' = gNumberOfSectorsInBootDisk s" "root s' = root s"
    "backbuffer_va s' = backbuffer_va s" "g_fat_cache_loaded s' = g_fat_cache_loaded s"
    "\<not> g_fat_cache_saved s'"
    by (simp_all add: s' mounted_def ide_boot_def root_ok_def boot_unit_def)
  show "dir_view s' = bytes s'" unfolding b m(3) ..
  show "bytes s' x = put_bytes (dir_slot VOLUME1_ROOTDIR_ADDRESS j) e (dir_view s) x" if "x \<notin> fat_area" for x
    using m(1) that unfolding b by blast
  show "fat_of (bytes s') = link cs (fat_of (bytes s))" unfolding b m(2) ..
qed

lemma adds_file_memory:
  assumes "adds_file s j e cs file s'" "j < 512" "length e = 32" "x \<notin> fat_area" "x \<notin> area (dir_slot VOLUME1_ROOTDIR_ADDRESS j) 32"
  shows "bytes s' x = dir_view s x"
  using adds_file_config(7) [OF assms(1,4)] put_bytes_outside [of e x "dir_slot VOLUME1_ROOTDIR_ADDRESS j" "dir_view s"] assms(3,5)
  by simp

lemma adds_file_name:
  assumes "adds_file s j e cs file s'" "j < 512" "length e = 32" "name_at s name xs"
  shows "name_at s' name xs" "\<And>x. x \<in> area name 12 \<Longrightarrow> bytes s' x = bytes s x" "\<And>x. x \<in> area name 12 \<Longrightarrow> dir_view s x = bytes s x"
proof -
  show d: "dir_view s x = bytes s x" if "x \<in> area name 12" for x
    using that assms(4) by (intro dir_view_outside) (auto simp: name_at_def)
  show m: "bytes s' x = bytes s x" if "x \<in> area name 12" for x
    using adds_file_memory [OF assms(1-3), of x] dir_slot_area [OF assms(2)] that assms(4) d [OF that] by (auto simp: name_at_def)
  have "area name (Suc (length xs)) \<subseteq> area name 12" using assms(4) by (intro area_mono) (simp add: name_at_def)
  then have "cstr (bytes s') name xs" using cstr_cong [of name xs "bytes s'" "bytes s"] m assms(4) by (auto simp: name_at_def)
  then show "name_at s' name xs" using assms(4) by (simp add: name_at_def)
qed

text \<open>The bytes of an entry, old or new.\<close>

lemma entry_offset:
  assumes "i < 512" "k < 32"
  shows "at_off (dir_slot VOLUME1_ROOTDIR_ADDRESS i) k \<in> root_area" "at_off (dir_slot VOLUME1_ROOTDIR_ADDRESS i) k \<notin> fat_area"
    "j < 512 \<Longrightarrow> j \<noteq> i \<Longrightarrow> at_off (dir_slot VOLUME1_ROOTDIR_ADDRESS i) k \<notin> area (dir_slot VOLUME1_ROOTDIR_ADDRESS j) 32"
proof -
  have "at_off (dir_slot VOLUME1_ROOTDIR_ADDRESS i) k \<in> area (dir_slot VOLUME1_ROOTDIR_ADDRESS i) 32" using assms(2) by (rule area_at)
  then show r: "at_off (dir_slot VOLUME1_ROOTDIR_ADDRESS i) k \<in> root_area" using dir_slot_area [OF assms(1)] by blast
  then show "at_off (dir_slot VOLUME1_ROOTDIR_ADDRESS i) k \<notin> fat_area" using areas_disjoint by blast
  show "at_off (dir_slot VOLUME1_ROOTDIR_ADDRESS i) k \<notin> area (dir_slot VOLUME1_ROOTDIR_ADDRESS j) 32" if "j < 512" "j \<noteq> i"
  proof
    assume "at_off (dir_slot VOLUME1_ROOTDIR_ADDRESS i) k \<in> area (dir_slot VOLUME1_ROOTDIR_ADDRESS j) 32"
    then obtain l where l: "l < 32" "at_off (at_off VOLUME1_ROOTDIR_ADDRESS (32 * i)) k = at_off (at_off VOLUME1_ROOTDIR_ADDRESS (32 * j)) l"
      unfolding dir_slot_offset area_elem by blast
    then have "at_off VOLUME1_ROOTDIR_ADDRESS (32 * i + k) = at_off VOLUME1_ROOTDIR_ADDRESS (32 * j + l)" by (simp only: at_off_add)
    from at_off_inj [OF _ _ this] assms that(1) l(1) have "32 * i + k = 32 * j + l" by simp
    with assms(2) l(1) that(2) show False by presburger
  qed
qed

lemma entry_kept:
  assumes "adds_file s j e cs file s'" "j < 512" "length e = 32" "i < 512" "i \<noteq> j" "k < 32"
  shows "bytes s' (at_off (dir_slot VOLUME1_ROOTDIR_ADDRESS i) k) = dir_view s (at_off (dir_slot VOLUME1_ROOTDIR_ADDRESS i) k)"
  using adds_file_memory [OF assms(1-3)] entry_offset [OF assms(4,6)] assms(2,5) by blast

lemma entry_new:
  assumes "adds_file s j e cs file s'" "j < 512" "length e = 32" "k < 32"
  shows "bytes s' (at_off (dir_slot VOLUME1_ROOTDIR_ADDRESS j) k) = e ! k"
  using adds_file_config(7) [OF assms(1) entry_offset(2) [OF assms(2,4)]] put_bytes_at [of k e] assms(3,4) by simp

lemma read16_at: "read16 m (at_off a k) = ucast (m (at_off a k)) OR push_bit 8 (ucast (m (at_off a (k + 1))))"
  by (simp add: read16_def ac_simps)

lemma read32_at: "read32 m (at_off a k) = ucast (read16 m (at_off a k)) OR push_bit 16 (ucast (read16 m (at_off a (k + 2))))"
  by (simp add: read32_def ac_simps)

definition entry_words :: "mem \<Rightarrow> nat \<Rightarrow> u16 \<times> u16 \<times> u32" where
  "entry_words m i = (let a = dir_slot VOLUME1_ROOTDIR_ADDRESS i in (read16 m a, read16 m (a + 26), read32 m (a + 28)))"

lemma entry_words_at:
  "entry_words m i = (let a = dir_slot VOLUME1_ROOTDIR_ADDRESS i in (read16 m (at_off a 0), read16 m (at_off a 26), read32 m (at_off a 28)))"
  by (simp add: entry_words_def)

lemma entry_words_kept:
  assumes "adds_file s j e cs file s'" "j < 512" "length e = 32" "i < 512" "i \<noteq> j"
  shows "entry_words (bytes s') i = entry_words (dir_view s) i"
  unfolding entry_words_at Let_def read32_at read16_at by (simp only: entry_kept [OF assms] arith_simps rel_simps)

text \<open>A match is a prefix: only as many bytes of the entry are compared as the name has.\<close>

lemma entry_named_prefix:
  assumes "name_at s name xs" "\<And>x. x \<in> area name 12 \<Longrightarrow> m x = bytes s x"
  shows "entry_named m name (length xs) a \<longleftrightarrow> read_bytes m a (length xs) = xs"
proof -
  have l: "length xs \<le> 11" and c: "cstr (bytes s) name xs" using assms(1) by (simp_all add: name_at_def)
  have "m (at_off name k) = bytes s (at_off name k)" if "k \<le> length xs" for k
    using l that by (intro assms(2) area_at) simp
  then have "read_bytes m name (length xs) = xs" "m (at_off name (length xs)) = 0"
    using c by (auto simp: cstr_def intro!: nth_equalityI)
  then show ?thesis by (auto simp: entry_named_iff)
qed

definition has_entry :: "mem \<Rightarrow> u8 list \<Rightarrow> nat \<Rightarrow> bool" where
  "has_entry m xs i \<longleftrightarrow> fst (entry_words m i) \<noteq> 0 \<and> read_bytes m (dir_slot VOLUME1_ROOTDIR_ADDRESS i) (length xs) = xs"

lemma find_entry_has:
  assumes "name_at s name xs" "\<And>x. x \<in> area name 12 \<Longrightarrow> m x = bytes s x"
  shows "find_entry m VOLUME1_ROOTDIR_ADDRESS name (length xs) FAT16_ROOT_ENTRIES = first_slot (has_entry m xs) [0..<512]"
proof -
  have "entry_named m name (length xs) a \<longleftrightarrow> read_bytes m a (length xs) = xs" for a
    using assms by (rule entry_named_prefix)
  then show ?thesis by (simp add: find_entry_def has_entry_def [abs_def] entry_words_def Let_def FAT16_ROOT_ENTRIES_def)
qed

lemma has_entry_kept:
  assumes "adds_file s j e cs file s'" "j < 512" "length e = 32" "i < 512" "i \<noteq> j" "length xs \<le> 11"
  shows "has_entry (bytes s') xs i \<longleftrightarrow> has_entry (dir_view s) xs i"
proof -
  have "read_bytes (bytes s') (dir_slot VOLUME1_ROOTDIR_ADDRESS i) (length xs) = read_bytes (dir_view s) (dir_slot VOLUME1_ROOTDIR_ADDRESS i) (length xs)"
    using entry_kept [OF assms(1-5)] assms(6) by (intro nth_equalityI) auto
  then show ?thesis by (simp add: has_entry_def entry_words_kept [OF assms(1-5)])
qed

lemma entry_new_bytes:
  assumes "adds_file s j e cs file s'" "j < 512" "length e = 32" "n \<le> 32"
  shows "read_bytes (bytes s') (dir_slot VOLUME1_ROOTDIR_ADDRESS j) n = take n e"
  using entry_new [OF assms(1-3)] assms(3,4) by (intro nth_equalityI) auto

lemma entry_words_new:
  assumes "adds_file s j e cs file s'" "j < 512" "length e = 32"
  shows "entry_words (bytes s') j = (ucast (e ! 0) OR push_bit 8 (ucast (e ! 1)), ucast (e ! 26) OR push_bit 8 (ucast (e ! 27)),
    ucast (ucast (e ! 28) OR push_bit 8 (ucast (e ! 29)) :: u16) OR push_bit 16 (ucast (ucast (e ! 30) OR push_bit 8 (ucast (e ! 31)) :: u16)))"
proof -
  have n: "26 + 1 = (27 :: nat)" "28 + 1 = (29 :: nat)" "28 + 2 = (30 :: nat)" "30 + 1 = (31 :: nat)" "0 + 1 = (1 :: nat)" by simp_all
  have k: "0 < (32 :: nat)" "1 < (32 :: nat)" by simp_all
  show ?thesis unfolding entry_words_at Let_def read32_at read16_at n by (simp only: entry_new [OF assms] k rel_simps)
qed

lemma low_byte_nonzero: "x \<noteq> 0 \<Longrightarrow> (ucast (x :: u8) OR push_bit 8 (ucast (y :: u8)) :: u16) \<noteq> 0"
proof
  assume x: "x \<noteq> 0" and z: "(ucast x OR push_bit 8 (ucast y) :: u16) = 0"
  have "x = 0"
  proof (rule bit_word_eqI)
    fix n assume "n < LENGTH(8)"
    then have "bit (ucast x OR push_bit 8 (ucast y) :: u16) n = bit x n" by (auto simp: bit_simps)
    with z show "bit x n = bit 0 n" by simp
  qed
  with x show False ..
qed

text \<open>The words of the new entry: its first cluster and its size.\<close>

lemma saved_words:
  "length name = 11 \<Longrightarrow> (ucast (dir_entry_bytes name flag first n ! 26) OR push_bit 8 (ucast (dir_entry_bytes name flag first n ! 27)) :: u16) = first"
  "length name = 11 \<Longrightarrow> flag \<noteq> 0x10 \<Longrightarrow> (let e = dir_entry_bytes name flag first n in
     (ucast (ucast (e ! 28) OR push_bit 8 (ucast (e ! 29)) :: u16) OR push_bit 16 (ucast (ucast (e ! 30) OR push_bit 8 (ucast (e ! 31)) :: u16)) :: u32)) =
   ucast n"
proof -
  assume l: "length name = 11"
  have e: "dir_entry_bytes name flag first n ! 26 = ucast first" "dir_entry_bytes name flag first n ! 27 = ucast (drop_bit 8 first)"
    using l by (simp_all add: dir_entry_bytes_def nth_append)
  show "(ucast (dir_entry_bytes name flag first n ! 26) OR push_bit 8 (ucast (dir_entry_bytes name flag first n ! 27)) :: u16) = first"
    unfolding e
  proof (rule bit_word_eqI)
    fix k assume "k < LENGTH(16)"
    then show "bit (ucast (ucast first :: u8) OR push_bit 8 (ucast (ucast (drop_bit 8 first) :: u8)) :: u16) k = bit first k"
      by (cases "k < 8") (auto simp: bit_simps)
  qed
next
  assume l: "length name = 11" and f: "flag \<noteq> 0x10"
  have e: "dir_entry_bytes name flag first n ! 28 = ucast n" "dir_entry_bytes name flag first n ! 29 = ucast (drop_bit 8 n)"
    "dir_entry_bytes name flag first n ! 30 = ucast (drop_bit 16 n)" "dir_entry_bytes name flag first n ! 31 = ucast (drop_bit 24 n)"
    using l f by (simp_all add: dir_entry_bytes_def nth_append)
  show "(let e = dir_entry_bytes name flag first n in
     (ucast (ucast (e ! 28) OR push_bit 8 (ucast (e ! 29)) :: u16) OR push_bit 16 (ucast (ucast (e ! 30) OR push_bit 8 (ucast (e ! 31)) :: u16)) :: u32)) =
   ucast n"
    unfolding Let_def e
  proof (rule bit_word_eqI)
    fix k assume "k < LENGTH(32)"
    then have "k < 8 \<or> 8 \<le> k \<and> k < 16 \<or> 16 \<le> k \<and> k < 24 \<or> 24 \<le> k \<and> k < 32" by auto
    then show "bit (ucast (ucast (ucast n :: u8) OR push_bit 8 (ucast (ucast (drop_bit 8 n) :: u8)) :: u16) OR
        push_bit 16 (ucast (ucast (ucast (drop_bit 16 n) :: u8) OR push_bit 8 (ucast (ucast (drop_bit 24 n) :: u8)) :: u16)) :: u32) k =
      bit (ucast n :: u32) k"
      by (elim disjE) (auto simp: bit_simps)
  qed
qed

lemma find_after_new:
  assumes "adds_file s j e cs file s'" "j < 512" "length e = 32" "name_at s name xs"
    and "find_entry (dir_view s) VOLUME1_ROOTDIR_ADDRESS name (length xs) FAT16_ROOT_ENTRIES = None" "take (length xs) e = xs"
  shows "find_entry (dir_view s') VOLUME1_ROOTDIR_ADDRESS name (length xs) FAT16_ROOT_ENTRIES = Some j"
proof -
  note n = adds_file_name [OF assms(1-4)]
  have l: "length xs \<le> 11" "xs \<noteq> []" using assms(4) by (simp_all add: name_at_def)
  have none: "\<not> has_entry (dir_view s) xs i" if "i < 512" for i
    using assms(5) that find_entry_has [OF assms(4), of "dir_view s"] n(3) by (auto simp: first_slot_None_iff)
  have "e ! 0 \<noteq> 0"
  proof -
    have "e ! 0 = xs ! 0" using l(2) assms(6) by (metis length_greater_0_conv nth_take)
    moreover have "0 \<notin> set xs" using assms(4) by (simp add: name_at_def cstr_def)
    ultimately show ?thesis using l(2) by (metis length_greater_0_conv nth_mem)
  qed
  then have "has_entry (bytes s') xs j"
    using entry_words_new [OF assms(1-3)] entry_new_bytes [OF assms(1-3)] l(1) assms(6) low_byte_nonzero by (simp add: has_entry_def)
  moreover have "\<not> has_entry (bytes s') xs i" if "i < j" for i
    using has_entry_kept [OF assms(1-3), of i xs] none [of i] that assms(2) l(1) by simp
  ultimately have "first_slot (has_entry (bytes s') xs) [0..<512] = Some j" by (intro first_slot_upt_SomeI) (use assms(2) in auto)
  then show ?thesis unfolding adds_file_config(6) [OF assms(1)] by (subst find_entry_has [OF n(1)]) auto
qed

lemma find_after_old:
  assumes "adds_file s j e cs file s'" "free_entry s j" "length e = 32" "name_at s name xs"
    and "find_entry (dir_view s) VOLUME1_ROOTDIR_ADDRESS name (length xs) FAT16_ROOT_ENTRIES = Some i"
    and "i < j \<or> take (length xs) e \<noteq> xs"
  shows "find_entry (dir_view s') VOLUME1_ROOTDIR_ADDRESS name (length xs) FAT16_ROOT_ENTRIES = Some i" "i < 512" "i \<noteq> j"
proof -
  have j: "j < 512" "dir_view s (dir_slot VOLUME1_ROOTDIR_ADDRESS j) = 0" using free_entry_facts [OF assms(2)] by simp_all
  note n = adds_file_name [OF assms(1) j(1) assms(3,4)]
  have l: "length xs \<le> 11" "xs \<noteq> []" "0 \<notin> set xs" using assms(4) by (simp_all add: name_at_def cstr_def)
  have f: "has_entry (dir_view s) xs i \<and> i < 512 \<and> (\<forall>k < i. \<not> has_entry (dir_view s) xs k)"
    using assms(5) find_entry_has [OF assms(4), of "dir_view s"] n(3) first_slot_upt_least [of "has_entry (dir_view s) xs" 0 512 i] by auto
  then show i: "i < 512" by simp
  show ij: "i \<noteq> j"
  proof
    assume "i = j"
    with f have "read_bytes (dir_view s) (dir_slot VOLUME1_ROOTDIR_ADDRESS j) (length xs) = xs" by (simp add: has_entry_def)
    then have "xs ! 0 = dir_view s (dir_slot VOLUME1_ROOTDIR_ADDRESS j)"
      using l(2) read_bytes_nth [of 0 "length xs" "dir_view s" "dir_slot VOLUME1_ROOTDIR_ADDRESS j"] by simp
    with j(2) l(2,3) show False by (metis length_greater_0_conv nth_mem)
  qed
  have "has_entry (bytes s') xs i" using has_entry_kept [OF assms(1) j(1) assms(3) i ij l(1)] f by simp
  moreover have "\<not> has_entry (bytes s') xs k" if "k < i" for k
  proof (cases "k = j")
    case True
    then show ?thesis using assms(6) that entry_new_bytes [OF assms(1) j(1) assms(3), of "length xs"] l(1) by (auto simp: has_entry_def)
  next
    case False
    then show ?thesis using has_entry_kept [OF assms(1) j(1) assms(3), of k xs] f that l(1) by simp
  qed
  ultimately have "first_slot (has_entry (bytes s') xs) [0..<512] = Some i" by (intro first_slot_upt_SomeI) (use i in auto)
  then show "find_entry (dir_view s') VOLUME1_ROOTDIR_ADDRESS name (length xs) FAT16_ROOT_ENTRIES = Some i"
    unfolding adds_file_config(6) [OF assms(1)] by (subst find_entry_has [OF n(1)]) auto
qed

section \<open>Saved files\<close>

text \<open>A volume on which a file of \<open>k\<close> sectors at \<open>file\<close> can be saved, at position \<open>j\<close> of the root directory.\<close>

definition can_save :: "io_state \<Rightarrow> nat \<Rightarrow> nat \<Rightarrow> addr \<Rightarrow> bool" where
  "can_save s k j file \<longleftrightarrow> mounted s \<and> g_fat_cache_loaded s \<and> 1 \<le> k \<and> k \<le> 16 \<and> enough_clusters s k \<and> free_entry s j \<and>
     (\<forall>x \<in> set (new_clusters s k). cluster_lba x < gNumberOfSectorsInBootDisk s) \<and> area file (512 * k) \<inter> (fat_area \<union> root_area) = {}"

abbreviation save_file :: "addr \<Rightarrow> u64 \<Rightarrow> u64 \<Rightarrow> addr \<Rightarrow> u8 \<Rightarrow> io_state \<Rightarrow> (int \<times> io_state) outcome" where
  "save_file name sectors n file flag s \<equiv>
     fat16SaveFile VOLUME1_FAT_ADDRESS VOLUME1_ROOTDIR_ADDRESS (int FAT16_ROOT_ENTRIES) name sectors n file flag s"

abbreviation load_file :: "addr \<Rightarrow> addr \<Rightarrow> u64 \<Rightarrow> io_state \<Rightarrow> (int \<times> io_state) outcome option" where
  "load_file name buf limit s \<equiv>
     fat16LoadFile VOLUME1_FAT_ADDRESS VOLUME1_ROOTDIR_ADDRESS (int FAT16_ROOT_ENTRIES) name buf limit s"

lemma save_adds:
  assumes "can_save s k j file" "name_at s name xs" "unat sectors = k" "save_file name sectors n file flag s = Inr (r, s')"
  shows "r = 0" "adds_file s j (dir_entry_bytes (read_bytes (dir_view s) name 11) flag (hd (new_clusters s k)) n) (new_clusters s k) file s'"
    "length (dir_entry_bytes (read_bytes (dir_view s) name 11) flag (hd (new_clusters s k)) n) = 32" "j < 512"
proof -
  have "name \<in> area name 12" using area_at [of 0 12 name] by simp
  then have "name \<noteq> NULL" "bytes s name \<noteq> 0" "name \<notin> root_area" using name_in_view(5) [OF assms(2)] assms(2) by (auto simp: name_at_def)
  then have "\<exists>s'. save_file name sectors n file flag s = Inr (0, s') \<and>
      adds_file s j (dir_entry_bytes (read_bytes (dir_view s) name 11) flag (hd (new_clusters s k)) n) (new_clusters s k) file s'"
    using assms(1,3) by (intro save_file_result) (simp_all add: can_save_def)
  with assms(4) show "r = 0" "adds_file s j (dir_entry_bytes (read_bytes (dir_view s) name 11) flag (hd (new_clusters s k)) n) (new_clusters s k) file s'"
    by auto
  show "length (dir_entry_bytes (read_bytes (dir_view s) name 11) flag (hd (new_clusters s k)) n) = 32" by (simp add: dir_entry_bytes_length)
  show "j < 512" using assms(1) free_entry_facts(1) [of s j] by (simp add: can_save_def)
qed

lemma entry_name:
  assumes "name_at s name xs" "flag \<noteq> 0x10" "m \<le> 11" "\<And>x. x \<in> area name 12 \<Longrightarrow> v x = bytes s x"
  shows "take m (dir_entry_bytes (read_bytes v name 11) flag first n) = read_bytes (bytes s) name m"
proof (rule nth_equalityI)
  fix k assume "k < length (take m (dir_entry_bytes (read_bytes v name 11) flag first n))"
  then have k: "k < m" "k < 11" using assms(3) by simp_all
  have "v (at_off name k) = bytes s (at_off name k)" using k by (intro assms(4) area_at) simp
  with k assms(2) show "take m (dir_entry_bytes (read_bytes v name 11) flag first n) ! k = read_bytes (bytes s) name m ! k"
    by (simp add: dir_entry_bytes_def nth_append)
qed (use assms(2,3) in \<open>simp add: dir_entry_bytes_def\<close>)

lemma name_bytes: "name_at s name xs \<Longrightarrow> read_bytes (bytes s) name (length xs) = xs"
  by (auto simp: name_at_def cstr_def intro!: nth_equalityI)

text \<open>The sectors of a buffer, one after the other, are its bytes.\<close>

lemma read_bytes_sectors:
  "concat (map (\<lambda>t. sector_bytes (get_sector (at_off a (512 * t)) m)) [0..<k]) = read_bytes m a (512 * k)"
proof (rule nth_equalityI)
  let ?f = "\<lambda>t. get_sector (at_off a (512 * t)) m"
  show "length (concat (map (\<lambda>t. sector_bytes (?f t)) [0..<k])) = length (read_bytes m a (512 * k))"
    using concat_sectors_length [of "map ?f [0..<k]"] by (simp add: comp_def)
  fix i assume "i < length (concat (map (\<lambda>t. sector_bytes (?f t)) [0..<k]))"
  then have i: "i < 512 * k" using concat_sectors_length [of "map ?f [0..<k]"] by (simp add: comp_def)
  then have d: "i div 512 < k" by auto
  have "concat (map (\<lambda>t. sector_bytes (?f t)) [0..<k]) ! i = sector_bytes (?f (i div 512)) ! (i mod 512)"
    using concat_sectors_nth [of i "map ?f [0..<k]"] i d by (simp add: comp_def)
  also have "\<dots> = m (at_off (at_off a (512 * (i div 512))) (i mod 512))" by (simp only: get_sector_bytes read_bytes_nth mod_less_divisor zero_less_numeral)
  also have "\<dots> = m (at_off a (512 * (i div 512) + i mod 512))" by (simp only: at_off_add)
  also have "512 * (i div 512) + i mod 512 = i" by simp
  finally show "concat (map (\<lambda>t. sector_bytes (?f t)) [0..<k]) ! i = read_bytes m a (512 * k) ! i" using i by simp
qed

text \<open>The new file in any state whose disk holds the directory and the FAT of the save.\<close>

lemma new_chain: "enough_clusters s k \<Longrightarrow> 1 \<le> k \<Longrightarrow> chain (link (new_clusters s k) F) (hd (new_clusters s k)) (new_clusters s k)"
proof (rule link_chain)
  assume "enough_clusters s k" "1 \<le> k"
  then show "new_clusters s k \<noteq> []" using new_clusters_length by fastforce
  show "\<forall>x \<in> set (new_clusters s k). x \<noteq> 0 \<and> x \<le> 0xFFF0"
    using new_clusters_facts(2) by (fastforce simp: unat_le_iff)
qed (rule new_clusters_facts)

lemma buffer_ok_area: "buffer_ok s buf n \<Longrightarrow> 512 * n < 2 ^ 64"
  by (simp add: buffer_ok_def)

lemma loaded_sectors:
  assumes "512 * length cs < 2 ^ 64" "\<forall>t < length cs. volume s (cluster_lba (cs ! t)) = get_sector (at_off a (512 * t)) m"
  shows "read_bytes (put_sectors (length cs) buf (file_sectors s cs) m') buf (512 * length cs) = read_bytes m a (512 * length cs)"
proof -
  have "read_bytes (put_sectors (length cs) buf (file_sectors s cs) m') buf (512 * length cs) =
      concat (map (\<lambda>t. sector_bytes (file_sectors s cs t)) [0..<length cs])"
    by (rule put_sectors_bytes) (use assms(1) in simp)
  also have "map (\<lambda>t. sector_bytes (file_sectors s cs t)) [0..<length cs] = map (\<lambda>t. sector_bytes (get_sector (at_off a (512 * t)) m)) [0..<length cs]"
    using assms(2) by (simp add: file_sectors_def)
  finally show ?thesis unfolding read_bytes_sectors .
qed

lemma saved_is_stored:
  assumes "can_save s k j file" "name_at s name xs" "unat sectors = k" "save_file name sectors n file flag s = Inr (r, s')" "flag \<noteq> 0x10"
    and "find_entry (dir_view s) VOLUME1_ROOTDIR_ADDRESS name (length xs) FAT16_ROOT_ENTRIES = None"
  shows "stored s' name xs j (new_clusters s k) (ucast n)" "name_at s' name xs"
proof -
  note a = save_adds [OF assms(1-4)]
  let ?e = "dir_entry_bytes (read_bytes (dir_view s) name 11) flag (hd (new_clusters s k)) n"
  note m = adds_file_name [OF a(2,4,3) assms(2)]
  show "name_at s' name xs" by (rule m)
  have l: "length xs \<le> 11" using assms(2) by (simp add: name_at_def)
  have t: "take (length xs) ?e = xs" using entry_name [OF assms(2,5) l] m(3) name_bytes [OF assms(2)] by simp
  have f: "find_entry (dir_view s') VOLUME1_ROOTDIR_ADDRESS name (length xs) FAT16_ROOT_ENTRIES = Some j"
    by (rule find_after_new [OF a(2,4,3) assms(2,6) t])
  have w: "entry_words (dir_view s') j = (ucast (?e ! 0) OR push_bit 8 (ucast (?e ! 1)), hd (new_clusters s k), ucast n)"
    unfolding adds_file_config(6) [OF a(2)] entry_words_new [OF a(2,4,3)] using saved_words assms(5) by (simp add: Let_def)
  have c: "g_fat_cache_loaded s'" using assms(1) adds_file_config(5) [OF a(2)] by (simp add: can_save_def)
  have F: "fat_of (fat_view s') = link (new_clusters s k) (fat_of (bytes s))"
    using c adds_file_config(6,8) [OF a(2)] by (simp add: fat_view_def)
  show "stored s' name xs j (new_clusters s k) (ucast n)"
    unfolding stored_def F using f w assms(1) adds_file_config(2) [OF a(2)] new_chain [of s k]
    by (simp add: entry_words_def Let_def can_save_def)
qed

section \<open>Properties\<close>

text \<open>
  Claim C8. A file that has been saved is what is loaded. When the root directory has no entry that the name matches,
  saving a file of 1 to 16 sectors returns 0, and a load of the same name then returns 0 and leaves in the
  buffer exactly the sectors that were saved: the clusters of the file are taken from the free ones, linked in the FAT in
  their order, and the entry in the directory leads to the first of them.
\<close>

theorem save_then_load:
  assumes "can_save s k j file" "name_at s name xs" "unat sectors = k" "flag \<noteq> 0x10"
    and "find_entry (dir_view s) VOLUME1_ROOTDIR_ADDRESS name (length xs) FAT16_ROOT_ENTRIES = None"
    and "save_file name sectors n file flag s = Inr (r, s')" "size_fits (ucast n) limit" "buffer_ok s buf k"
  shows "r = 0 \<and> (\<exists>s''. load_file name buf limit s' = returns (0, s'') \<and>
    read_bytes (bytes s'') buf (512 * k) = read_bytes (bytes s) file (512 * k))"
proof -
  note a = save_adds [OF assms(1-3,6)] and st = saved_is_stored [OF assms(1-3,6,4,5)]
  have l: "length (new_clusters s k) = k" using assms(1) by (intro new_clusters_length) (simp add: can_save_def)
  have m: "mounted s'" using assms(1) adds_file_config(1) [OF a(2)] by (simp add: can_save_def)
  have b: "buffer_ok s' buf (length (new_clusters s k))"
    using assms(8) l adds_file_config(4) [OF a(2)] by (simp add: buffer_ok_def check_address_validation_def)
  have v: "\<forall>t < length (new_clusters s k). volume s' (cluster_lba (new_clusters s k ! t)) = get_sector (at_off file (512 * t)) (bytes s)"
    using a(2) unfolding adds_file_def by blast
  show ?thesis
    using a(1) load_file_result [OF m st(2,1) assms(7) b] loaded_sectors [OF _ v] buffer_ok_area [OF assms(8)] by (auto simp: l)
qed

text \<open>
  Claim C11. Saving a file keeps every other file: a name that matched an entry before still matches that entry, the 32
  bytes of the entry and its chain of clusters are as they were, and a load of it gives the same bytes
  after the save as before, because the clusters of a file are never free and the new entry is put into an unused place. The name may even be the name of the new file: when the old entry comes
  first, a load of this name gives the old file, so that saving under an existing name has no visible effect.
\<close>

theorem save_keeps_files:
  assumes "can_save s k j file" "name_at s name xs" "unat sectors = k" "flag \<noteq> 0x10"
    and "save_file name sectors n file flag s = Inr (r, s')"
    and "name_at s old ys" "stored s old ys i cs sz" "\<forall>x \<in> set cs. 2 \<le> x" "i < j \<or> take (length ys) (read_bytes (bytes s) name 11) \<noteq> ys"
    and "size_fits sz limit" "buffer_ok s buf (length cs)"
  shows "\<exists>s1 s2. load_file old buf limit s = returns (0, s1) \<and> load_file old buf limit s' = returns (0, s2) \<and>
    read_bytes (bytes s2) buf (512 * length cs) = read_bytes (bytes s1) buf (512 * length cs) \<and>
    find_entry (dir_view s') VOLUME1_ROOTDIR_ADDRESS old (length ys) FAT16_ROOT_ENTRIES = Some i \<and>
    read_bytes (dir_view s') (dir_slot VOLUME1_ROOTDIR_ADDRESS i) 32 = read_bytes (dir_view s) (dir_slot VOLUME1_ROOTDIR_ADDRESS i) 32 \<and>
    stored s' old ys i cs sz"
proof -
  note a = save_adds [OF assms(1-3,5)]
  let ?e = "dir_entry_bytes (read_bytes (dir_view s) name 11) flag (hd (new_clusters s k)) n"
  have c: "mounted s" "g_fat_cache_loaded s" "free_entry s j" using assms(1) by (simp_all add: can_save_def)
  have l: "length ys \<le> 11" using assms(6) by (simp add: name_at_def)
  have t: "take (length ys) ?e = take (length ys) (read_bytes (bytes s) name 11)"
    using entry_name [OF assms(2,4) l] adds_file_name(3) [OF a(2,4,3) assms(2)] l by (auto intro!: nth_equalityI)
  have st: "find_entry (dir_view s) VOLUME1_ROOTDIR_ADDRESS old (length ys) FAT16_ROOT_ENTRIES = Some i"
    "chain (fat_of (bytes s)) (read16 (dir_view s) (dir_slot VOLUME1_ROOTDIR_ADDRESS i + 26)) cs"
    "read32 (dir_view s) (dir_slot VOLUME1_ROOTDIR_ADDRESS i + 28) = sz" "\<forall>x \<in> set cs. cluster_lba x < gNumberOfSectorsInBootDisk s"
    using assms(7) c(2) by (simp_all add: stored_def fat_view_def)
  have f: "find_entry (dir_view s') VOLUME1_ROOTDIR_ADDRESS old (length ys) FAT16_ROOT_ENTRIES = Some i" "i < 512" "i \<noteq> j"
    using find_after_old [OF a(2) c(3) a(3) assms(6) st(1)] assms(9) t by simp_all
  have w: "entry_words (dir_view s') i = entry_words (dir_view s) i"
    unfolding adds_file_config(6) [OF a(2)] by (rule entry_words_kept [OF a(2,4,3) f(2,3)])
  have entry: "read_bytes (dir_view s') (dir_slot VOLUME1_ROOTDIR_ADDRESS i) 32 = read_bytes (dir_view s) (dir_slot VOLUME1_ROOTDIR_ADDRESS i) 32"
    unfolding adds_file_config(6) [OF a(2)] using entry_kept [OF a(2,4,3) f(2,3)] by (intro nth_equalityI) simp_all
  have new: "x \<notin> set (new_clusters s k)" if "x \<in> set cs" for x
    using chain_allocated [OF st(2) that] new_clusters_facts(2) [of x s k] by auto
  have "chain (fat_of (bytes s')) (read16 (dir_view s) (dir_slot VOLUME1_ROOTDIR_ADDRESS i + 26)) cs"
    unfolding adds_file_config(8) [OF a(2)] using st(2) new by (subst chain_cong [where F = "fat_of (bytes s)"]) (simp_all add: link_other)
  then have st': "stored s' old ys i cs sz"
    using f(1) w st(3,4) c(2) adds_file_config(2,5,6) [OF a(2)] by (simp add: stored_def fat_view_def entry_words_def Let_def)
  have v: "volume s' (cluster_lba x) = volume s (cluster_lba x)" if "x \<in> set cs" for x
  proof -
    have "2 \<le> unat x" using assms(8) that by (auto simp: unat_le_iff)
    then have "591 \<le> cluster_lba x" by (simp add: unat_le_iff cluster_lba_unat)
    moreover have "cluster_lba x \<notin> cluster_lba ` set (new_clusters s k)" using new [OF that] cluster_lba_inj by auto
    ultimately show ?thesis using a(2) st(4) that unfolding adds_file_def by blast
  qed
  have m: "mounted s'" "name_at s' old ys" "buffer_ok s' buf (length cs)"
    using c(1) adds_file_config(1,4) [OF a(2)] adds_file_name(1) [OF a(2,4,3) assms(6)] assms(11)
    by (simp_all add: buffer_ok_def check_address_validation_def)
  have e: "map (\<lambda>x. sector_bytes (file_sectors s' cs x)) [0..<length cs] = map (\<lambda>x. sector_bytes (file_sectors s cs x)) [0..<length cs]"
    using v by (simp add: file_sectors_def)
  have b: "512 * length cs \<le> 2 ^ 64" using buffer_ok_area [OF assms(11)] by simp
  have "read_bytes (put_sectors (length cs) buf (file_sectors s' cs) m') buf (512 * length cs) =
      read_bytes (put_sectors (length cs) buf (file_sectors s cs) m'') buf (512 * length cs)" for m' m''
    unfolding put_sectors_bytes [OF b] e ..
  then show ?thesis
    using load_file_result [OF c(1) assms(6,7,10,11)] load_file_result [OF m(1,2) st' assms(10) m(3)] f(1) entry st' by simp
qed

section \<open>Restarting the machine\<close>

text \<open>A machine that runs again on the same disk, its memory and caches new.\<close>

definition restarted :: "io_state \<Rightarrow> io_state \<Rightarrow> bool" where
  "restarted s t \<longleftrightarrow> mounted t \<and> \<not> g_fat_cache_loaded t \<and> gNumberOfSectorsInBootDisk t = gNumberOfSectorsInBootDisk s \<and>
     (\<forall>k < gNumberOfSectorsInBootDisk s. volume t k = volume s k)"

lemma restarted_root:
  assumes "restarted s t" "x \<in> root_area"
  shows "dir_view t x = dir_view s x"
proof -
  have u: "unat (x - VOLUME1_ROOTDIR_ADDRESS) < 512 * 32" using assms(2) by (simp add: root_area_def area_unat)
  let ?i = "unat (x - VOLUME1_ROOTDIR_ADDRESS) div 512"
  have i: "?i < 32" using u by auto
  then have "unat (VOLUME1_ROOTDIR_LBA + of_nat ?i) = 559 + ?i" by (simp add: VOLUME1_ROOTDIR_LBA_def unat_word_ariths unat_of_nat)
  moreover have "591 \<le> gNumberOfSectorsInBootDisk s" using assms(1) by (auto simp: restarted_def mounted_def)
  ultimately have "VOLUME1_ROOTDIR_LBA + of_nat ?i < gNumberOfSectorsInBootDisk s"
    using i by (simp add: unat_less_iff unat_le_iff)
  then have "volume t (VOLUME1_ROOTDIR_LBA + of_nat ?i) = volume s (VOLUME1_ROOTDIR_LBA + of_nat ?i)" using assms(1) by (simp add: restarted_def)
  with u show ?thesis by (simp add: dir_view_def put_sectors_def)
qed

text \<open>Lookups depend on the root directory and the name only.\<close>

lemma entries_cong:
  assumes "\<And>x. x \<in> root_area \<Longrightarrow> m' x = m x" "i < 512"
  shows "entry_words m' i = entry_words m i" "length xs \<le> 11 \<Longrightarrow> has_entry m' xs i = has_entry m xs i"
proof -
  have e: "m' (at_off (dir_slot VOLUME1_ROOTDIR_ADDRESS i) k) = m (at_off (dir_slot VOLUME1_ROOTDIR_ADDRESS i) k)" if "k < 32" for k
    using assms(1) entry_offset(1) [OF assms(2) that] by blast
  show w: "entry_words m' i = entry_words m i"
    unfolding entry_words_at Let_def read32_at read16_at by (simp only: e arith_simps rel_simps)
  have "read_bytes m' (dir_slot VOLUME1_ROOTDIR_ADDRESS i) (length xs) = read_bytes m (dir_slot VOLUME1_ROOTDIR_ADDRESS i) (length xs)"
    if "length xs \<le> 11" using e that by (intro nth_equalityI) auto
  then show "has_entry m' xs i = has_entry m xs i" if "length xs \<le> 11" using that by (simp add: has_entry_def w)
qed

lemma first_slot_cong: "(\<And>i. i \<in> set is \<Longrightarrow> P i = Q i) \<Longrightarrow> first_slot P is = first_slot Q is"
  by (induction "is") auto

lemma same_root_lookup:
  assumes "\<And>x. x \<in> root_area \<Longrightarrow> dir_view t x = dir_view s x" "name_at s name xs" "name_at t name' xs"
  shows "find_entry (dir_view t) VOLUME1_ROOTDIR_ADDRESS name' (length xs) FAT16_ROOT_ENTRIES =
    find_entry (dir_view s) VOLUME1_ROOTDIR_ADDRESS name (length xs) FAT16_ROOT_ENTRIES"
proof -
  have l: "length xs \<le> 11" using assms(2) by (simp add: name_at_def)
  have v: "dir_view u x = bytes u x" if "name_at u p xs" "x \<in> area p 12" for u p x
    using that by (intro dir_view_outside) (auto simp: name_at_def)
  have "find_entry (dir_view t) VOLUME1_ROOTDIR_ADDRESS name' (length xs) FAT16_ROOT_ENTRIES = first_slot (has_entry (dir_view t) xs) [0..<512]"
    using v assms(3) by (intro find_entry_has) auto
  also have "\<dots> = first_slot (has_entry (dir_view s) xs) [0..<512]"
    using entries_cong(2) [OF assms(1) _ l] by (intro first_slot_cong) simp
  also have "\<dots> = find_entry (dir_view s) VOLUME1_ROOTDIR_ADDRESS name (length xs) FAT16_ROOT_ENTRIES"
    using v assms(2) by (intro find_entry_has [symmetric]) auto
  finally show ?thesis .
qed

lemma restarted_lookup:
  assumes "restarted s t" "name_at s name xs" "name_at t name' xs"
  shows "find_entry (dir_view t) VOLUME1_ROOTDIR_ADDRESS name' (length xs) FAT16_ROOT_ENTRIES =
      find_entry (dir_view s) VOLUME1_ROOTDIR_ADDRESS name (length xs) FAT16_ROOT_ENTRIES"
    "i < 512 \<Longrightarrow> entry_words (dir_view t) i = entry_words (dir_view s) i"
  using same_root_lookup [OF restarted_root [OF assms(1)] assms(2,3)] entries_cong(1) [OF restarted_root [OF assms(1)]] by simp_all

text \<open>The entries of the FAT that are stored on the disk.\<close>

lemma disk_fat_slot:
  assumes "unat c < 0xF600" "\<And>x. unat (x - VOLUME1_FAT_ADDRESS) < 512 * 246 \<Longrightarrow> disk_fat s m x = m' x"
  shows "fat_of (disk_fat s m) c = fat_of m' c"
proof -
  have o: "fat_slot VOLUME1_FAT_ADDRESS c - VOLUME1_FAT_ADDRESS = of_nat (2 * unat c)"
    "fat_slot VOLUME1_FAT_ADDRESS c + 1 - VOLUME1_FAT_ADDRESS = of_nat (2 * unat c + 1)" by simp_all
  have "unat (fat_slot VOLUME1_FAT_ADDRESS c - VOLUME1_FAT_ADDRESS) < 512 * 246" unfolding o(1) using assms(1) by (subst unat_of_nat) simp
  moreover have "unat (fat_slot VOLUME1_FAT_ADDRESS c + 1 - VOLUME1_FAT_ADDRESS) < 512 * 246" unfolding o(2) using assms(1) by (subst unat_of_nat) simp
  ultimately show ?thesis unfolding fat_of_def by (intro read16_cong assms(2))
qed

lemma restarted_fat:
  assumes "\<forall>k < gNumberOfSectorsInBootDisk s. volume t k = volume s k" "591 \<le> gNumberOfSectorsInBootDisk s" "unat c < 0xF600"
  shows "fat_of (disk_fat t m) c = fat_of (disk_fat s m') c"
proof (rule disk_fat_slot [OF assms(3)])
  fix x assume u: "unat (x - VOLUME1_FAT_ADDRESS) < 512 * 246"
  let ?i = "unat (x - VOLUME1_FAT_ADDRESS) div 512"
  have i: "?i < 246" using u by auto
  then have "unat (VOLUME1_FAT_LBA + of_nat ?i) = 67 + ?i" by (simp add: VOLUME1_FAT_LBA_def unat_word_ariths unat_of_nat)
  then have "VOLUME1_FAT_LBA + of_nat ?i < gNumberOfSectorsInBootDisk s" using assms(2) i by (simp add: unat_less_iff unat_le_iff)
  then have "volume t (VOLUME1_FAT_LBA + of_nat ?i) = volume s (VOLUME1_FAT_LBA + of_nat ?i)" using assms(1) by simp
  with u show "disk_fat t m x = disk_fat s m' x" by (simp add: disk_fat_def put_sectors_def)
qed

text \<open>Writing the FAT back changes its sectors only, and they then hold the FAT in memory.\<close>

lemma fs_save_fat16_cache_result:
  assumes "mounted s" "\<not> g_fat_cache_saved s" "fs_save_fat16_cache s = Inr (r, t)"
  shows "r = 0" "bytes t = bytes s" "gNumberOfSectorsInBootDisk t = gNumberOfSectorsInBootDisk s"
    "\<And>k. k < gNumberOfSectorsInBootDisk s \<Longrightarrow> 559 \<le> k \<Longrightarrow> volume t k = volume s k"
    "\<And>x. x \<in> root_area \<Longrightarrow> dir_view t x = dir_view s x"
    "\<And>c m. unat c < 0xF600 \<Longrightarrow> fat_of (disk_fat t m) c = fat_of (bytes s) c"
proof -
  have m: "ide_boot s" "591 \<le> gNumberOfSectorsInBootDisk s" using assms(1) by (simp_all add: mounted_def)
  have fl: "unat VOLUME1_FAT_LBA + 246 \<le> unat (gNumberOfSectorsInBootDisk s)" using m(2) by (simp add: VOLUME1_FAT_LBA_def unat_le_iff)
  obtain f where f: "do_save_sequence 246 VOLUME1_FAT_ADDRESS VOLUME1_FAT_LBA s = Inr (s\<lparr>ide_sectors := f\<rparr>)"
    using save_sequence_result [OF m(1) fl] by blast
  have t: "r = 0" "t = s\<lparr>ide_sectors := f, g_fat_cache_saved := True\<rparr>"
    using assms(2,3) f by (auto simp: fs_save_fat16_cache_def atadsk_save_fat_def fat_consts)
  have V: "volume t = volume (s\<lparr>ide_sectors := f\<rparr>)" by (simp add: t(2) volume_def boot_unit_def fun_eq_iff)
  note rl = save_sequence_reload [OF f m(1) fl]
  show "r = 0" "bytes t = bytes s" "gNumberOfSectorsInBootDisk t = gNumberOfSectorsInBootDisk s" by (simp_all add: t)
  show k: "volume t k = volume s k" if "k < gNumberOfSectorsInBootDisk s" "559 \<le> k" for k
    unfolding V using rl(2) [OF that(1)] that(2) by (simp add: VOLUME1_FAT_LBA_def unat_le_iff)
  show "dir_view t x = dir_view s x" if "x \<in> root_area" for x
  proof -
    have u: "unat (x - VOLUME1_ROOTDIR_ADDRESS) < 512 * 32" using that by (simp add: root_area_def area_unat)
    let ?i = "unat (x - VOLUME1_ROOTDIR_ADDRESS) div 512"
    have i: "?i < 32" using u by auto
    then have "unat (VOLUME1_ROOTDIR_LBA + of_nat ?i) = 559 + ?i" by (simp add: VOLUME1_ROOTDIR_LBA_def unat_word_ariths unat_of_nat)
    then have "volume t (VOLUME1_ROOTDIR_LBA + of_nat ?i) = volume s (VOLUME1_ROOTDIR_LBA + of_nat ?i)"
      using m(2) i by (intro k) (simp_all add: unat_less_iff unat_le_iff)
    with u show ?thesis by (simp add: dir_view_def put_sectors_def)
  qed
  show "fat_of (disk_fat t m) c = fat_of (bytes s) c" if "unat c < 0xF600" for c m
    by (rule disk_fat_slot [OF that]) (use rl(1) in \<open>simp add: disk_fat_def V\<close>)
qed

text \<open>
  Claim C22. A file survives a restart of the machine when the FAT is written back first: after a save and a call of
  \<^verbatim>\<open>fs_save_fat16_cache\<close>, which returns 0, a machine that starts again on the disk, whatever
  its memory holds, loads by the same name exactly the sectors that were saved.
\<close>

theorem saved_fat_survives_restart:
  assumes "can_save s k j file" "name_at s name xs" "unat sectors = k" "flag \<noteq> 0x10"
    and "find_entry (dir_view s) VOLUME1_ROOTDIR_ADDRESS name (length xs) FAT16_ROOT_ENTRIES = None"
    and "save_file name sectors n file flag s = Inr (r, s')" "fs_save_fat16_cache s' = Inr (r', s2)"
    and "restarted s2 t" "name_at t name' xs" "size_fits (ucast n) limit" "buffer_ok t buf k"
  shows "r' = 0 \<and> (\<exists>t'. load_file name' buf limit t = returns (0, t') \<and>
    read_bytes (bytes t') buf (512 * k) = read_bytes (bytes s) file (512 * k))"
proof -
  note a = save_adds [OF assms(1-3,6)] and st = saved_is_stored [OF assms(1-3,6,4,5)]
  let ?cs = "new_clusters s k"
  have l: "length ?cs = k" using assms(1) by (intro new_clusters_length) (simp add: can_save_def)
  have m: "mounted s'" "g_fat_cache_loaded s'" using assms(1) adds_file_config(1,5) [OF a(2)] by (simp_all add: can_save_def)
  note w = fs_save_fat16_cache_result [OF m(1) adds_file_config(9) [OF a(2)] assms(7)]
  have n2: "name_at s2 name xs" using st(2) by (simp add: name_at_def w(2))
  have "591 \<le> gNumberOfSectorsInBootDisk s'" using m(1) by (simp add: mounted_def)
  then have N: "gNumberOfSectorsInBootDisk t = gNumberOfSectorsInBootDisk s'" "591 \<le> gNumberOfSectorsInBootDisk s2"
    "\<forall>k < gNumberOfSectorsInBootDisk s2. volume t k = volume s2 k" "\<not> g_fat_cache_loaded t" "mounted t"
    using assms(8) w(3) by (simp_all add: restarted_def)
  have F: "find_entry (dir_view t) VOLUME1_ROOTDIR_ADDRESS name' (length xs) FAT16_ROOT_ENTRIES = Some j"
    using st(1) restarted_lookup(1) [OF assms(8) n2 assms(9)] same_root_lookup [OF w(5) st(2) n2] by (simp add: stored_def)
  have W: "entry_words (dir_view t) j = entry_words (dir_view s') j"
    using restarted_lookup(2) [OF assms(8) n2 assms(9) a(4)] entries_cong(1) [OF w(5) a(4)] by simp
  have fat: "fat_of (fat_view t) x = fat_of (fat_view s') x" if "x \<in> set ?cs" for x
  proof -
    have x: "unat x < 0xF600" using new_clusters_facts(2) [OF that] by simp
    show ?thesis using restarted_fat [OF N(3,2) x] N(4) m(2) w(6) [OF x] by (simp add: fat_view_def)
  qed
  have lba: "cluster_lba x < gNumberOfSectorsInBootDisk s'" "volume t (cluster_lba x) = volume s' (cluster_lba x)" if "x \<in> set ?cs" for x
  proof -
    show b: "cluster_lba x < gNumberOfSectorsInBootDisk s'" using st(1) that by (simp add: stored_def)
    have "559 \<le> cluster_lba x" using new_clusters_facts(2) [OF that] by (simp add: unat_le_iff cluster_lba_unat)
    then show "volume t (cluster_lba x) = volume s' (cluster_lba x)" using w(4) [OF b] N(3) b w(3) by simp
  qed
  have c: "chain (fat_of (fat_view s')) (read16 (dir_view s') (dir_slot VOLUME1_ROOTDIR_ADDRESS j + 26)) ?cs" using st(1) by (simp add: stored_def)
  then have h: "read16 (dir_view s') (dir_slot VOLUME1_ROOTDIR_ADDRESS j + 26) = hd ?cs" by (cases ?cs) auto
  have "chain (fat_of (fat_view t)) (hd ?cs) ?cs" using c h chain_cong [of ?cs, OF fat] by simp
  then have "stored t name' xs j ?cs (ucast n)"
    using F W h st(1) lba(1) N(1) by (simp add: stored_def entry_words_def Let_def)
  from load_file_result [OF N(5) assms(9) this assms(10)] have L: "load_file name' buf limit t =
      returns (0, t\<lparr>bytes := put_sectors k buf (file_sectors t ?cs) (fat_view t), g_fat_cache_loaded := True\<rparr>)" using assms(11) l by simp
  have "\<forall>i < length ?cs. volume t (cluster_lba (?cs ! i)) = get_sector (at_off file (512 * i)) (bytes s)"
    using a(2) lba(2) unfolding adds_file_def by auto
  from loaded_sectors [OF _ this, of buf "fat_view t"] show ?thesis
    using w(1) L buffer_ok_area [OF assms(11)] by (auto simp: l)
qed

text \<open>
  Claim C24. Without that the file is lost and takes the kernel down: a save writes the directory to the disk but not the
  FAT, so when the machine starts again before the FAT is written back, the entry leads to a cluster that the
  FAT on the disk calls free, and loading the file ends in a panic.
\<close>

theorem unsaved_fat_panics:
  assumes "can_save s k j file" "name_at s name xs" "unat sectors = k" "flag \<noteq> 0x10"
    and "find_entry (dir_view s) VOLUME1_ROOTDIR_ADDRESS name (length xs) FAT16_ROOT_ENTRIES = None"
    and "\<forall>x \<in> set (new_clusters s k). fat_of (disk_fat s (bytes s)) x = 0"
    and "save_file name sectors n file flag s = Inr (r, s')"
    and "restarted s' t" "name_at t name' xs" "size_fits (ucast n) limit" "buffer_ok t buf 1"
  shows "r = 0 \<and> (\<exists>msg. load_file name' buf limit t = Some (Inl (Panic msg)))"
proof -
  note a = save_adds [OF assms(1-3,7)] and st = saved_is_stored [OF assms(1-3,7,4,5)]
  let ?cs = "new_clusters s k" and ?c = "hd (new_clusters s k)"
  have l: "length ?cs = k" using assms(1) by (intro new_clusters_length) (simp add: can_save_def)
  then have h: "?c \<in> set ?cs" using assms(1) by (cases ?cs) (auto simp: can_save_def)
  have s591: "591 \<le> gNumberOfSectorsInBootDisk s" using assms(1) by (simp add: can_save_def mounted_def)
  have N: "gNumberOfSectorsInBootDisk t = gNumberOfSectorsInBootDisk s" "gNumberOfSectorsInBootDisk s' = gNumberOfSectorsInBootDisk s"
    "\<forall>k < gNumberOfSectorsInBootDisk s. volume t k = volume s' k" "\<not> g_fat_cache_loaded t" "mounted t"
    using assms(8) adds_file_config(2) [OF a(2)] by (simp_all add: restarted_def)
  have N6: "ide_boot t" using N(5) by (simp add: mounted_def)
  have F: "find_entry (dir_view t) VOLUME1_ROOTDIR_ADDRESS name' (length xs) FAT16_ROOT_ENTRIES = Some j"
    using st(1) restarted_lookup(1) [OF assms(8) st(2) assms(9)] by (simp add: stored_def)
  have c: "chain (fat_of (fat_view s')) (read16 (dir_view s') (dir_slot VOLUME1_ROOTDIR_ADDRESS j + 26)) ?cs" using st(1) by (simp add: stored_def)
  have W: "read16 (dir_view t) (dir_slot VOLUME1_ROOTDIR_ADDRESS j + 26) = ?c" "read32 (dir_view t) (dir_slot VOLUME1_ROOTDIR_ADDRESS j + 28) = ucast n"
    using restarted_lookup(2) [OF assms(8) st(2) assms(9) a(4)] st(1) c by (cases ?cs; simp add: entry_words_def Let_def stored_def)+
  have cr: "3 \<le> unat ?c" "unat ?c < 0x8003" using new_clusters_facts(2) [OF h] by simp_all
  have c0: "?c \<noteq> 0" "\<not> 0xFFF0 < ?c" using cr by (auto simp: unat_less_iff)
  have cl: "cluster_lba ?c < gNumberOfSectorsInBootDisk t" using st(1) h N(1,2) by (simp add: stored_def)
  let ?t = "t\<lparr>bytes := fat_view t, g_fat_cache_loaded := True\<rparr>"
  have L: "load_file name' buf limit t = load_clusters VOLUME1_FAT_ADDRESS ?c buf 0 ?t"
    by (rule load_file_runs [OF N(5) assms(9,10) _ c0 F W(2)]) (simp add: W(1))
  have bt: "ide_boot ?t" "volume ?t = volume t" using N6 by (simp_all add: ide_boot_def boot_unit_def volume_def fun_eq_iff)
  have ad: "buf \<noteq> NULL" "check_address_validation ?t buf" "area buf 512 \<inter> fat_area = {}"
    using assms(11) by (auto simp: buffer_ok_def check_address_validation_def)
  let ?t1 = "?t\<lparr>bytes := put_sector buf (volume ?t (cluster_lba ?c)) (bytes ?t)\<rparr>"
  have rd: "read_lba buf (VOLUME1_DATAAREA_LBA + ucast ?c - 2) ?t = Inr (0, ?t1)"
    using read_lba_boot [OF bt(1) _ ad(1), of "cluster_lba ?c"] cl by (simp add: cluster_lba_def)
  have "volume s' x = volume s x" if "x < gNumberOfSectorsInBootDisk s" "x < 559" for x
  proof -
    have "x \<notin> cluster_lba ` set ?cs"
    proof
      assume "x \<in> cluster_lba ` set ?cs"
      then obtain y where "x = cluster_lba y" by blast
      with that(2) show False by (simp add: unat_less_iff cluster_lba_unat)
    qed
    with a(2) that show ?thesis unfolding adds_file_def by blast
  qed
  then have tv: "volume t x = volume s x" if "x < gNumberOfSectorsInBootDisk s" "x < 559" for x using N(3) that by simp
  have "fat_of (disk_fat t (dir_view t)) ?c = fat_of (disk_fat s (bytes s)) ?c"
  proof (rule disk_fat_slot)
    show "unat ?c < 0xF600" using cr by simp
    fix x assume u: "unat (x - VOLUME1_FAT_ADDRESS) < 512 * 246"
    let ?i = "unat (x - VOLUME1_FAT_ADDRESS) div 512"
    have i: "?i < 246" using u by auto
    then have "unat (VOLUME1_FAT_LBA + of_nat ?i) = 67 + ?i" by (simp add: VOLUME1_FAT_LBA_def unat_word_ariths unat_of_nat)
    then have "volume t (VOLUME1_FAT_LBA + of_nat ?i) = volume s (VOLUME1_FAT_LBA + of_nat ?i)"
      using s591 i by (intro tv) (simp_all add: unat_less_iff unat_le_iff)
    with u show "disk_fat t (dir_view t) x = disk_fat s (bytes s) x" by (simp add: disk_fat_def put_sectors_def)
  qed
  then have "fat_of (bytes ?t) ?c = 0" using assms(6) h N(4) by (simp add: fat_view_def)
  moreover have "fat_of (bytes ?t1) = fat_of (bytes ?t)"
    by (rule fat_of_cong) (use ad(3) in \<open>auto intro!: put_sector_outside\<close>)
  ultimately have nx: "read16 (bytes ?t1) (fat_slot VOLUME1_FAT_ADDRESS ?c) = 0" by (simp add: fat_of_def fun_eq_iff)
  have "load_clusters VOLUME1_FAT_ADDRESS ?c buf 0 ?t = load_clusters VOLUME1_FAT_ADDRESS 0 (buf + 512) 1 ?t1"
    using ad(2) c0 rd nx by (subst load_clusters.simps) (simp add: Let_def)
  moreover have "\<exists>msg. load_clusters VOLUME1_FAT_ADDRESS 0 (buf + 512) 1 ?t1 = Some (Inl (Panic msg))"
    by (subst load_clusters.simps) simp
  ultimately show ?thesis using L a(1) by simp
qed

text \<open>
  Claim C40. A save needs one free cluster more than it uses: the search closes its list at the next free cluster, so with
  exactly as many free clusters as the file has sectors the call fails. It then returns -1 and leaves the disk, the
  FAT and the directory as they were.
\<close>

theorem save_needs_spare_cluster:
  assumes "mounted s" "g_fat_cache_loaded s" "name_at s name xs" "sectors \<le> 16"
    and "length (free_clusters (\<lambda>c. fat_of (bytes s) (of_nat c)) 3 CLUSTERS_TO_SAVE_MAX) \<le> unat sectors"
  shows "\<exists>s'. save_file name sectors n file flag s = Inr (-1, s') \<and> ide_sectors s' = ide_sectors s \<and> bytes s' = dir_view s"
proof -
  have m: "ide_boot s" "591 \<le> gNumberOfSectorsInBootDisk s" using assms(1) by (simp_all add: mounted_def)
  let ?s = "s\<lparr>bytes := dir_view s\<rparr>"
  have v: "name \<noteq> NULL" "bytes s name \<noteq> 0" using assms(3) name_in_view(5) [OF assms(3)] by (auto simp: name_at_def)
  have z: "VOLUME1_FAT_ADDRESS \<noteq> NULL" "VOLUME1_ROOTDIR_ADDRESS \<noteq> NULL" "int FAT16_ROOT_ENTRIES \<noteq> 0" by (simp_all add: fat_consts)
  have l: "fs_load_fat VOLUME1_FAT_ADDRESS VOLUME1_FAT_LBA 246 ?s = Inr ?s" using assms(2) by (simp add: fs_load_fat_def)
  have "\<not> fst (pick_clusters CLUSTERS_TO_SAVE_MAX 3 0 (unat sectors) (\<lambda>c. read16 (dir_view s) (VOLUME1_FAT_ADDRESS + 2 * of_nat c)) (fat16ClustersToSave s))"
    by (rule pick_clusters_full) (use assms(5) in \<open>simp add: free_clusters_view\<close>)
  then obtain cl where "pick_clusters CLUSTERS_TO_SAVE_MAX 3 0 (unat sectors) (\<lambda>c. read16 (dir_view s) (VOLUME1_FAT_ADDRESS + 2 * of_nat c))
      (fat16ClustersToSave s) = (False, cl)" by (metis prod.collapse)
  then have "save_file name sectors n file flag s = Inr (-1, ?s\<lparr>fat16ClustersToSave := cl\<rparr>)"
    unfolding fat16SaveFile_def using v z assms(4) load_rootdir_view [OF m] l by (simp add: Let_def not_less [symmetric])
  then show ?thesis by simp
qed

section \<open>A small volume\<close>

text \<open>An empty volume with a name at 0x5000, and the bytes from 0x600000 on as data.\<close>

definition fat_name :: "u8 list" where
  "fat_name = [0x4E, 0x4F, 0x54, 0x45, 0x53, 0x20, 0x20, 0x20, 0x54, 0x58, 0x54]"

definition fat_io :: io_state where
  "fat_io = zero_io\<lparr>bytes := put_bytes 0x5000 (fat_name @ [0]) (\<lambda>a. if a < 0x600000 then 0 else ucast a)\<rparr>"

lemma fat_io_sel [simp]:
  "volume fat_io k = (\<lambda>_. 0)" "g_fat_cache_loaded fat_io" "gNumberOfSectorsInBootDisk fat_io = 0x10000" "backbuffer_va fat_io = 0x30A00000"
  by (simp_all add: fat_io_def zero_io_def volume_def)

lemma fat_io_mounted: "mounted fat_io"
  by (simp add: mounted_def ide_boot_def root_ok_def fat_io_def zero_io_def disk_consts fat_consts)

lemma low_areas:
  assumes "0x80000 \<le> unat p" "unat p + n < 2 ^ 64"
  shows "area p n \<inter> (fat_area \<union> root_area) = {}"
proof -
  have "fat_area \<inter> area p n = {}" "root_area \<inter> area p n = {}"
    unfolding fat_area_def root_area_def using assms by (intro area_apart; simp add: fat_consts)+
  then show ?thesis by blast
qed

lemma fat_io_low: "x \<in> fat_area \<union> root_area \<Longrightarrow> bytes fat_io x = 0"
proof -
  assume x: "x \<in> fat_area \<union> root_area"
  have "unat VOLUME1_FAT_ADDRESS \<le> unat x \<and> unat x < 0x80000"
    using x area_range [of x VOLUME1_FAT_ADDRESS "0x20000"] area_range [of x VOLUME1_ROOTDIR_ADDRESS "0x4000"]
    by (auto simp: fat_area_def root_area_def fat_consts)
  then have r: "0x30000 \<le> unat x" "unat x < 0x80000" by (simp_all add: fat_consts)
  then have "unat (x - 0x5000) = unat x - 0x5000" by (subst unat_minus_exact) (simp_all add: unat_le_iff)
  with r show "bytes fat_io x = 0" by (simp add: fat_io_def put_bytes_def fat_name_def unat_less_iff)
qed

lemma fat_io_name: "name_at fat_io 0x5000 fat_name"
proof -
  have "area 0x5000 12 \<inter> fat_area = {}" "area 0x5000 12 \<inter> root_area = {}"
    unfolding fat_area_def root_area_def by (intro area_apart; simp add: fat_consts)+
  moreover have "cstr (bytes fat_io) 0x5000 fat_name"
  proof -
    have "bytes fat_io (at_off 0x5000 k) = (fat_name @ [0]) ! k" if "k < 12" for k
      unfolding fat_io_def using that by (simp add: put_bytes_def fat_name_def unat_of_nat)
    moreover have l: "length fat_name = 11" "0 \<notin> set fat_name" by (simp_all add: fat_name_def)
    ultimately show ?thesis unfolding cstr_def using l by (auto simp: nth_append simp del: of_nat_numeral)
  qed
  ultimately show ?thesis by (simp add: name_at_def fat_name_def Int_Un_distrib)
qed

lemma fat_io_fat: "fat_of (bytes fat_io) = (\<lambda>_. 0)"
  using fat_slot_in_area by (auto simp: fat_of_def read16_def fat_io_low)

lemma fat_io_dir: "x \<in> root_area \<Longrightarrow> dir_view fat_io x = 0"
  by (simp add: dir_view_def put_sectors_def fat_io_low)

lemma free_clusters_all: "(\<And>c. F c = 0) \<Longrightarrow> free_clusters F c n = [c..<c + n]"
proof (induction n arbitrary: c)
  case (Suc n)
  then show ?case by (simp add: upt_conv_Cons)
qed simp

lemma fat_io_clusters: "free_clusters (\<lambda>c. fat_of (bytes fat_io) (of_nat c)) 3 CLUSTERS_TO_SAVE_MAX = [3..<3 + CLUSTERS_TO_SAVE_MAX]"
  by (rule free_clusters_all) (simp add: fat_io_fat)

lemma fat_io_can_save: "can_save fat_io 2 0 0x600000"
proof -
  have e: "enough_clusters fat_io 2" unfolding enough_clusters_def fat_io_clusters length_upt by (simp add: CLUSTERS_TO_SAVE_MAX_def)
  have "dir_view fat_io (at_off (dir_slot VOLUME1_ROOTDIR_ADDRESS 0) 0) = 0" by (rule fat_io_dir, rule entry_offset) simp_all
  then have "first_slot (\<lambda>i. dir_view fat_io (dir_slot VOLUME1_ROOTDIR_ADDRESS i) = 0) [0..<512] = Some 0" by (intro first_slot_upt_SomeI) simp_all
  then have f: "free_entry fat_io 0" by (simp add: free_entry_def findEmptyDirectoryEntry_def fat_consts)
  have "cluster_lba x < 0x10000" if "x \<in> set (new_clusters fat_io 2)" for x
    using new_clusters_facts(2) [OF that] by (simp add: unat_less_iff cluster_lba_unat)
  moreover have "area 0x600000 (512 * 2) \<inter> (fat_area \<union> root_area) = {}" by (rule low_areas) simp_all
  ultimately show ?thesis using fat_io_mounted e f by (simp add: can_save_def)
qed

lemma fat_io_absent: "find_entry (dir_view fat_io) VOLUME1_ROOTDIR_ADDRESS 0x5000 (length fat_name) FAT16_ROOT_ENTRIES = None"
proof -
  have "entry_words (dir_view fat_io) i = (0, 0, 0)" if "i < 512" for i
  proof -
    have z: "dir_view fat_io (at_off (dir_slot VOLUME1_ROOTDIR_ADDRESS i) k) = 0" if "k < 32" for k
      using entry_offset(1) [OF \<open>i < 512\<close> that] by (rule fat_io_dir)
    show ?thesis unfolding entry_words_at Let_def read32_at read16_at by (simp only: z arith_simps rel_simps) simp
  qed
  then have "\<not> has_entry (dir_view fat_io) fat_name i" if "i < 512" for i using that by (simp add: has_entry_def)
  then have "first_slot (has_entry (dir_view fat_io) fat_name) [0..<512] = None" by (simp add: first_slot_None_iff)
  moreover have "dir_view fat_io x = bytes fat_io x" if "x \<in> area 0x5000 12" for x
    using that fat_io_name by (intro dir_view_outside) (auto simp: name_at_def)
  ultimately show ?thesis using find_entry_has [OF fat_io_name, of "dir_view fat_io"] by simp
qed

lemma fat_io_buffer: "buffer_ok fat_io 0x800000 2"
proof -
  have "area 0x800000 (512 * 2) \<inter> (fat_area \<union> root_area) = {}" by (rule low_areas) simp_all
  moreover have "at_off 0x800000 (512 * i) \<noteq> NULL \<and> check_address_validation fat_io (at_off 0x800000 (512 * i))" if "i < 2" for i
    using that by (cases "i = 0 \<or> i = 1") (auto simp: check_address_validation_def fat_consts KERNELIMAGE_VA_def FRONTBUFFER_VA_def)
  ultimately show ?thesis by (simp add: buffer_ok_def Int_Un_distrib)
qed

lemma fat_io_save: "\<exists>s'. save_file 0x5000 2 1024 0x600000 0x20 fat_io = Inr (0, s')"
proof -
  have "name \<in> area name 12" for name :: addr using area_at [of 0 12 name] by simp
  then have "(0x5000 :: addr) \<notin> root_area" using fat_io_name by (auto simp: name_at_def)
  moreover have "bytes fat_io 0x5000 \<noteq> 0" using name_in_view(5) [OF fat_io_name] .
  ultimately show ?thesis using save_file_result [of fat_io "0x5000" 2 2 0 "0x600000" 1024 "0x20"] fat_io_can_save by (auto simp: can_save_def)
qed

lemma buffer_ok_mono:
  assumes "buffer_ok s buf n" "k \<le> n" "backbuffer_va t = backbuffer_va s"
  shows "buffer_ok t buf k"
proof -
  have "area buf (512 * k) \<subseteq> area buf (512 * n)" by (rule area_mono) (use assms(2) in simp)
  moreover have "check_address_validation t = check_address_validation s" using assms(3) by (simp add: check_address_validation_def fun_eq_iff)
  ultimately show ?thesis using assms(1,2) by (auto simp: buffer_ok_def)
qed

lemma fat_io_size: "size_fits (ucast (1024 :: u64)) 4096"
  by (simp add: size_fits_def)

theorem save_then_load_witness:
  "\<exists>s' s''. save_file 0x5000 2 1024 0x600000 0x20 fat_io = Inr (0, s') \<and> load_file 0x5000 0x800000 4096 s' = returns (0, s'') \<and>
    read_bytes (bytes s'') 0x800000 (512 * 2) = read_bytes (bytes fat_io) 0x600000 (512 * 2)"
proof -
  obtain s' where s': "save_file 0x5000 2 1024 0x600000 0x20 fat_io = Inr (0, s')" using fat_io_save by blast
  from save_then_load [OF fat_io_can_save fat_io_name _ _ fat_io_absent s' fat_io_size fat_io_buffer] s' show ?thesis by auto
qed

text \<open>The machine that starts again with the name at the same place.\<close>

lemma fat_io_restart:
  assumes "mounted s"
  shows "restarted s (s\<lparr>bytes := bytes fat_io, g_fat_cache_loaded := False\<rparr>)"
    "name_at (s\<lparr>bytes := bytes fat_io, g_fat_cache_loaded := False\<rparr>) 0x5000 fat_name"
proof -
  let ?t = "s\<lparr>bytes := bytes fat_io, g_fat_cache_loaded := False\<rparr>"
  have "volume ?t = volume s" by (simp add: volume_def boot_unit_def fun_eq_iff)
  then show "restarted s ?t" using assms by (simp add: restarted_def mounted_def ide_boot_def root_ok_def boot_unit_def)
  show "name_at ?t 0x5000 fat_name" using fat_io_name by (simp add: name_at_def)
qed

theorem saved_fat_survives_restart_witness:
  "\<exists>s' s2 t'. save_file 0x5000 2 1024 0x600000 0x20 fat_io = Inr (0, s') \<and> fs_save_fat16_cache s' = Inr (0, s2) \<and>
    load_file 0x5000 0x800000 4096 (s2\<lparr>bytes := bytes fat_io, g_fat_cache_loaded := False\<rparr>) = returns (0, t') \<and>
    read_bytes (bytes t') 0x800000 (512 * 2) = read_bytes (bytes fat_io) 0x600000 (512 * 2)"
proof -
  obtain s' where s': "save_file 0x5000 2 1024 0x600000 0x20 fat_io = Inr (0, s')" using fat_io_save by blast
  note a = save_adds [OF fat_io_can_save fat_io_name _ s']
  have m: "mounted s'" "\<not> g_fat_cache_saved s'" "backbuffer_va s' = 0x30A00000"
    using adds_file_config(1,4,9) [OF a(2)] fat_io_mounted by simp_all
  have fl: "ide_boot s'" "unat VOLUME1_FAT_LBA + 246 \<le> unat (gNumberOfSectorsInBootDisk s')"
    using m(1) by (simp_all add: mounted_def VOLUME1_FAT_LBA_def unat_le_iff)
  obtain f where f: "do_save_sequence 246 VOLUME1_FAT_ADDRESS VOLUME1_FAT_LBA s' = Inr (s'\<lparr>ide_sectors := f\<rparr>)"
    using save_sequence_result [OF fl] by blast
  define s2 where "s2 = s'\<lparr>ide_sectors := f, g_fat_cache_saved := True\<rparr>"
  have s2: "fs_save_fat16_cache s' = Inr (0, s2)"
    using m(2) f by (simp add: s2_def fs_save_fat16_cache_def atadsk_save_fat_def fat_consts)
  have m2: "mounted s2" "backbuffer_va s2 = backbuffer_va fat_io" using m by (simp_all add: s2_def mounted_def ide_boot_def root_ok_def boot_unit_def)
  let ?t = "s2\<lparr>bytes := bytes fat_io, g_fat_cache_loaded := False\<rparr>"
  have b: "buffer_ok ?t 0x800000 2" by (rule buffer_ok_mono [OF fat_io_buffer]) (simp_all add: m2(2) [simplified])
  from saved_fat_survives_restart [OF fat_io_can_save fat_io_name _ _ fat_io_absent s' s2 fat_io_restart [OF m2(1)] fat_io_size b] s' s2
  show ?thesis by auto
qed

theorem unsaved_fat_panics_witness:
  "\<exists>s' msg. save_file 0x5000 2 1024 0x600000 0x20 fat_io = Inr (0, s') \<and>
    load_file 0x5000 0x800000 4096 (s'\<lparr>bytes := bytes fat_io, g_fat_cache_loaded := False\<rparr>) = Some (Inl (Panic msg))"
proof -
  obtain s' where s': "save_file 0x5000 2 1024 0x600000 0x20 fat_io = Inr (0, s')" using fat_io_save by blast
  note a = save_adds [OF fat_io_can_save fat_io_name _ s']
  have m: "mounted s'" "backbuffer_va s' = 0x30A00000" using adds_file_config(1,4) [OF a(2)] fat_io_mounted by simp_all
  let ?t = "s'\<lparr>bytes := bytes fat_io, g_fat_cache_loaded := False\<rparr>"
  have z: "\<forall>x \<in> set (new_clusters fat_io 2). fat_of (disk_fat fat_io (bytes fat_io)) x = 0"
  proof
    fix x assume "x \<in> set (new_clusters fat_io 2)"
    then have "unat x < 0xF600" using new_clusters_facts(2) [of x fat_io 2] by simp
    moreover have "disk_fat fat_io (bytes fat_io) y = 0" if "unat (y - VOLUME1_FAT_ADDRESS) < 512 * 246" for y
      using that by (simp add: disk_fat_def put_sectors_def)
    ultimately have "fat_of (disk_fat fat_io (bytes fat_io)) x = fat_of (\<lambda>_. 0) x" by (intro disk_fat_slot)
    then show "fat_of (disk_fat fat_io (bytes fat_io)) x = 0" by (simp add: fat_of_def read16_def)
  qed
  have b: "buffer_ok ?t 0x800000 1" by (rule buffer_ok_mono [OF fat_io_buffer]) (simp_all add: m(2))
  from unsaved_fat_panics [OF fat_io_can_save fat_io_name _ _ fat_io_absent z s' fat_io_restart [OF m(1)] fat_io_size b] s'
  show ?thesis by auto
qed

text \<open>Saving the same name a second time.\<close>

lemma free_clusters_after:
  assumes "\<And>c. c < 0x10000 \<Longrightarrow> 5 \<le> c \<Longrightarrow> F c = 0"
  shows "2 < length (free_clusters F 3 CLUSTERS_TO_SAVE_MAX)"
proof -
  have "{5, 6, 7} \<subseteq> set (free_clusters F 3 CLUSTERS_TO_SAVE_MAX)"
    using assms by (auto simp: free_clusters_set CLUSTERS_TO_SAVE_MAX_def)
  from card_mono [OF finite_set this] have "3 \<le> card (set (free_clusters F 3 CLUSTERS_TO_SAVE_MAX))" by simp
  then show ?thesis by (simp add: distinct_card free_clusters_distinct)
qed

theorem save_keeps_files_witness:
  "\<exists>s' s'' s1 s2. save_file 0x5000 2 1024 0x600000 0x20 fat_io = Inr (0, s') \<and> save_file 0x5000 2 1024 0x700000 0x20 s' = Inr (0, s'') \<and>
    load_file 0x5000 0x800000 4096 s' = returns (0, s1) \<and> load_file 0x5000 0x800000 4096 s'' = returns (0, s2) \<and>
    read_bytes (bytes s2) 0x800000 (512 * 2) = read_bytes (bytes s1) 0x800000 (512 * 2)"
proof -
  obtain s' where s': "save_file 0x5000 2 1024 0x600000 0x20 fat_io = Inr (0, s')" using fat_io_save by blast
  note a = save_adds [OF fat_io_can_save fat_io_name _ s'] and st = saved_is_stored [OF fat_io_can_save fat_io_name _ s' _ fat_io_absent]
  let ?e = "dir_entry_bytes (read_bytes (dir_view fat_io) 0x5000 11) 0x20 (hd (new_clusters fat_io 2)) 1024"
  have A: "adds_file fat_io 0 ?e (new_clusters fat_io 2) 0x600000 s'" "length ?e = 32" using a(2,3) by simp_all
  have S: "stored s' 0x5000 fat_name 0 (new_clusters fat_io 2) (ucast (1024 :: u64))" "name_at s' 0x5000 fat_name" using st by simp_all
  have m: "mounted s'" "g_fat_cache_loaded s'" "backbuffer_va s' = 0x30A00000" "gNumberOfSectorsInBootDisk s' = 0x10000"
    using adds_file_config(1,2,4,5) [OF A(1)] fat_io_mounted by simp_all
  have cs: "new_clusters fat_io 2 = [3, 4]"
  proof -
    have u: "[3..<3 + n] = 3 # 4 # [5..<3 + n]" if "5 \<le> n" for n :: nat using that by (simp add: upt_conv_Cons)
    have "5 \<le> CLUSTERS_TO_SAVE_MAX" by (simp add: CLUSTERS_TO_SAVE_MAX_def)
    from u [OF this] show ?thesis unfolding new_clusters_def fat_io_clusters by simp
  qed
  have "fat_of (bytes s') (of_nat c) = 0" if "5 \<le> c" "c < 0x10000" for c
  proof -
    have "unat (of_nat c :: u16) = c" using that by (simp add: unat_of_nat)
    then have "(of_nat c :: u16) \<notin> set [3, 4]" using that by (auto simp: word_unat_eq_iff)
    then show ?thesis using adds_file_config(8) [OF A(1)] link_other [of "of_nat c" "[3, 4]"] by (simp add: cs fat_io_fat)
  qed
  then have enough: "enough_clusters s' 2" unfolding enough_clusters_def by (intro free_clusters_after) simp
  have e0: "dir_view s' (dir_slot VOLUME1_ROOTDIR_ADDRESS 0) \<noteq> 0"
  proof -
    have "?e ! 0 = dir_view fat_io 0x5000" by (simp add: dir_entry_bytes_def nth_append)
    then have "?e ! 0 \<noteq> 0" using name_in_view(4) [OF fat_io_name] by simp
    then show ?thesis using entry_new [OF A(1) _ A(2), of 0] adds_file_config(6) [OF A(1)] by simp
  qed
  have "bytes s' (at_off (dir_slot VOLUME1_ROOTDIR_ADDRESS 1) 0) = dir_view fat_io (at_off (dir_slot VOLUME1_ROOTDIR_ADDRESS 1) 0)"
    by (rule entry_kept [OF A(1) _ A(2)]) simp_all
  also have "\<dots> = 0" by (rule fat_io_dir, rule entry_offset) simp_all
  finally have "first_slot (\<lambda>i. dir_view s' (dir_slot VOLUME1_ROOTDIR_ADDRESS i) = 0) [0..<512] = Some 1"
    using e0 adds_file_config(6) [OF A(1)] by (intro first_slot_upt_SomeI) simp_all
  then have free: "free_entry s' 1" by (simp add: free_entry_def findEmptyDirectoryEntry_def fat_consts)
  have "cluster_lba x < 0x10000" if "x \<in> set (new_clusters s' 2)" for x
    using new_clusters_facts(2) [OF that] by (simp add: unat_less_iff cluster_lba_unat)
  moreover have "area 0x700000 (512 * 2) \<inter> (fat_area \<union> root_area) = {}" by (rule low_areas) simp_all
  ultimately have can: "can_save s' 2 1 0x700000" using m enough free by (simp add: can_save_def)
  have "name \<in> area name 12" for name :: addr using area_at [of 0 12 name] by simp
  then have "(0x5000 :: addr) \<notin> root_area" using fat_io_name by (auto simp: name_at_def)
  then obtain s'' where s'': "save_file 0x5000 2 1024 0x700000 0x20 s' = Inr (0, s'')"
    using save_file_result [of s' "0x5000" 2 2 1 "0x700000" 1024 "0x20"] can name_in_view(5) [OF S(2)] by (auto simp: can_save_def)
  have b: "buffer_ok s' 0x800000 (length (new_clusters fat_io 2))"
    unfolding cs by (rule buffer_ok_mono [OF fat_io_buffer]) (simp_all add: m(3))
  have g: "\<forall>x \<in> set (new_clusters fat_io 2). 2 \<le> x" by (simp add: cs)
  from save_keeps_files [OF can S(2) _ _ s'' S(2,1) g _ fat_io_size b] s' s'' show ?thesis by (auto simp: cs)
qed

theorem save_needs_spare_cluster_witness:
  "\<exists>s'. save_file 0x5000 0 0 0x600000 0x20 (fat_io\<lparr>bytes := put_bytes 0x5000 (fat_name @ [0]) (\<lambda>_. 1)\<rparr>) = Inr (-1, s') \<and>
    ide_sectors s' = ide_sectors fat_io"
proof -
  let ?s = "fat_io\<lparr>bytes := put_bytes 0x5000 (fat_name @ [0]) (\<lambda>_. 1)\<rparr>"
  have m: "mounted ?s" "g_fat_cache_loaded ?s" using fat_io_mounted by (simp_all add: mounted_def root_ok_def)
  have "bytes ?s (at_off 0x5000 k) = bytes fat_io (at_off 0x5000 k)" if "k < 12" for k
    using that by (simp add: fat_io_def put_bytes_def fat_name_def unat_of_nat)
  then have "bytes ?s x = bytes fat_io x" if "x \<in> area 0x5000 12" for x using that by (auto simp: area_elem)
  moreover have "length fat_name = 11" by (simp add: fat_name_def)
  ultimately have n: "name_at ?s 0x5000 fat_name"
    using fat_io_name cstr_cong [of "0x5000" fat_name "bytes ?s" "bytes fat_io"] by (simp add: name_at_def)
  have one: "bytes ?s x = 1" if "x \<in> fat_area" for x
  proof -
    have "unat VOLUME1_FAT_ADDRESS \<le> unat x" using that area_range [of x VOLUME1_FAT_ADDRESS "0x20000"] by (simp add: fat_area_def fat_consts)
    then have "0x30000 \<le> unat x" by (simp add: fat_consts)
    moreover from this have "unat (x - 0x5000) = unat x - 0x5000" by (subst unat_minus_exact) (simp_all add: unat_le_iff)
    ultimately show ?thesis by (simp add: put_bytes_def fat_name_def)
  qed
  have "fat_of (bytes ?s) c = 0x101" for c
    unfolding fat_of_def read16_def by (simp only: one fat_slot_in_area) simp
  then have "c \<notin> set (free_clusters (\<lambda>c. fat_of (bytes ?s) (of_nat c)) 3 CLUSTERS_TO_SAVE_MAX)" for c by (simp only: free_clusters_set) simp
  then have "length (free_clusters (\<lambda>c. fat_of (bytes ?s) (of_nat c)) 3 CLUSTERS_TO_SAVE_MAX) \<le> unat (0 :: u64)"
    by (metis length_0_conv last_in_set order_refl unat_0)
  from save_needs_spare_cluster [OF m n _ this, of 0 "0x600000" "0x20"] show ?thesis by auto
qed

end
