(* ===== verification/File_Names.thy ===== *)
theory File_Names
  imports Kstring
begin

text \<open>
  File names (gthouse/fs/fslib.c, gthouse/fs/fat/fat16.c): the rewriting of a name in place into the eleven characters
  of a directory entry, the two conversions between both forms, and the count of path levels. The loops that look
  for a terminator are partial.
\<close>

section \<open>Rewriting a name in place\<close>

definition is_lower :: "u8 \<Rightarrow> bool" where
  "is_lower c \<longleftrightarrow> 0x61 \<le> c \<and> c \<le> 0x7A"

text \<open>The first loop: up to the dot or the terminator, with the length of the name.\<close>

partial_function (option) upper_name :: "addr \<Rightarrow> nat \<Rightarrow> mem \<Rightarrow> (addr \<times> nat \<times> mem) option" where
  "upper_name name ns m =
    (if m name = 0 \<or> m name = 0x2E then Some (name, ns, m)
     else upper_name (name + 1) (ns + 1) (if is_lower (m name) then m(name := m name - 0x20) else m))"

text \<open>The second loop: up to three characters behind the dot, into \<^verbatim>\<open>ext\<close>. A character that is neither
  a small letter, a digit nor one of the eight signs leaves its place in \<^verbatim>\<open>ext\<close> zero.\<close>

definition ext_sign :: "u8 \<Rightarrow> bool" where
  "ext_sign c \<longleftrightarrow> c = 0x24 \<or> c = 0x25 \<or> c = 0x2D \<or> c = 0x5F \<or> c = 0x28 \<or> c = 0x29 \<or> c = 0x7B \<or> c = 0x7D"

definition ext_char :: "u8 \<Rightarrow> u8" where
  "ext_char c = (if is_lower c then c - 0x20 else if ext_sign c \<or> 0x30 \<le> c \<and> c \<le> 0x39 then c else 0)"

fun ext_loop :: "nat \<Rightarrow> nat \<Rightarrow> addr \<Rightarrow> u8 list \<Rightarrow> mem \<Rightarrow> u8 list \<times> mem" where
  "ext_loop 0 i name ext m = (ext, m)"
| "ext_loop (Suc n) i name ext m =
    (let c = m (at_off name (i + 1)) in
     if c = 0 then (ext, m)
     else ext_loop n (i + 1) name (ext[i := ext_char c]) (if is_lower c then m(at_off name (i + 1) := c - 0x20) else m))"

text \<open>Label \<^verbatim>\<open>CompleteName8WithSpaces\<close>.\<close>

fun put_spaces :: "nat \<Rightarrow> addr \<Rightarrow> mem \<Rightarrow> mem" where
  "put_spaces 0 name m = m"
| "put_spaces (Suc n) name m = put_spaces n (name + 1) (m(name := 0x20))"

fun put_ext :: "u8 list \<Rightarrow> addr \<Rightarrow> mem \<Rightarrow> mem" where
  "put_ext [] name m = m(name := 0)"
| "put_ext (c # cs) name m = put_ext cs (name + 1) (m(name := if c \<noteq> 0 then c else 0x20))"

definition fntos :: "u8 list \<Rightarrow> addr \<Rightarrow> mem \<Rightarrow> mem option" where
  "fntos new_ext name m =
    (if name = NULL then Some m
     else if m name = 0 then Some m
     else case upper_name name 0 m of None \<Rightarrow> None
     | Some (name1, ns, m1) \<Rightarrow>
         if m1 name1 = 0 \<and> ns \<le> 8 then Some (put_ext new_ext (at_off name1 (8 - ns)) (put_spaces (8 - ns) name1 m1))
         else case ext_loop 3 0 name1 [0, 0, 0] m1 of (ext, m2) \<Rightarrow>
           Some (put_ext ext (at_off name1 (8 - ns)) (put_spaces (8 - ns) name1 m2)))"

text \<open>The two versions differ in the extension of a name without one: BIN, or spaces.\<close>

definition fs_fntos :: "addr \<Rightarrow> mem \<Rightarrow> mem option" where
  "fs_fntos = fntos [0x42, 0x49, 0x4E]"

definition fs_fntos2 :: "addr \<Rightarrow> mem \<Rightarrow> mem option" where
  "fs_fntos2 = fntos [0x20, 0x20, 0x20]"

section \<open>Conversions\<close>

text \<open>Copies while a bound holds, the source has not ended and, in the first part, no dot is met.\<close>

fun copy_part :: "nat \<Rightarrow> bool \<Rightarrow> addr \<Rightarrow> addr \<Rightarrow> mem \<Rightarrow> nat \<times> addr \<times> mem" where
  "copy_part 0 dot dst ptr m = (0, ptr, m)"
| "copy_part (Suc n) dot dst ptr m =
    (if m ptr \<noteq> 0 \<and> \<not> (dot \<and> m ptr = 0x2E)
     then case copy_part n dot (dst + 1) (ptr + 1) (m(dst := m ptr)) of (k, ptr', m') \<Rightarrow> (Suc k, ptr', m')
     else (0, ptr, m))"

definition to_FAT_name :: "addr \<Rightarrow> addr \<Rightarrow> mem \<Rightarrow> mem" where
  "to_FAT_name src dst m =
    (if m src = 0x2E \<and> m (src + 1) = 0x2E \<and> m (src + 2) = 0
     then put_spaces 9 (dst + 2) (m(dst := 0x2E, dst + 1 := 0x2E, dst + 2 := 0))
     else if m src = 0x2E \<and> m (src + 1) = 0
     then put_spaces 10 (dst + 1) (m(dst := 0x2E, dst + 1 := 0))
     else case copy_part 8 True dst src m of (i, ptr, m1) \<Rightarrow>
       let m2 = put_spaces (8 - i) (at_off dst i) m1; ptr1 = (if m2 ptr = 0x2E then ptr + 1 else ptr) in
       case copy_part 3 False (dst + 8) ptr1 m2 of (k, _, m3) \<Rightarrow> put_spaces (3 - k) (at_off dst (8 + k)) m3)"

text \<open>The length of a field without its trailing spaces.\<close>

fun trimmed :: "nat \<Rightarrow> addr \<Rightarrow> mem \<Rightarrow> nat" where
  "trimmed 0 src m = 0"
| "trimmed (Suc n) src m = (if m (at_off src n) = 0x20 then trimmed n src m else Suc n)"

definition from_FAT_name :: "addr \<Rightarrow> addr \<Rightarrow> mem \<Rightarrow> mem" where
  "from_FAT_name src dst m =
    (if src = NULL \<or> dst = NULL \<or> m src = 0 \<or> m dst = 0 then m
     else let j = trimmed 8 src m;
              m1 = memcpy_loop j dst src m;
              k = (if m1 src \<noteq> 0x2E then j + 1 else j);
              m2 = (if m1 src \<noteq> 0x2E then m1(at_off dst j := 0x2E) else m1);
              e = trimmed 3 (src + 8) m2
          in if e = 0
             then if k = 1 then m2(at_off dst k := 0)
                  else if m2 dst = 0x2E then m2(at_off dst k := 0)
                  else m2(at_off dst (k - 1) := 0)
             else (memcpy_loop e (at_off dst k) (src + 8) m2)(at_off dst (k + e) := 0))"

section \<open>Paths\<close>

fun count_levels :: "nat \<Rightarrow> addr \<Rightarrow> mem \<Rightarrow> nat" where
  "count_levels 0 path m = 0"
| "count_levels (Suc n) path m =
    (if m path = 0 then 0 else (if m path = 0x2F then 1 else 0) + count_levels n (path + 1) m)"

definition fs_count_path_levels :: "addr \<Rightarrow> mem \<Rightarrow> nat" where
  "fs_count_path_levels path m = (if path = NULL then 0 else if m path = 0 then 0 else count_levels 2000 path m)"

end
