(* ===== verification/Name_Contract.thy ===== *)
theory Name_Contract
  imports File_Names Fat_Store
begin

text \<open>
  What the rewriting of a name yields: the eleven characters of a directory entry, in upper case and padded with
  spaces.
\<close>

section \<open>The parts of the loop\<close>

definition upper :: "u8 \<Rightarrow> u8" where
  "upper c = (if is_lower c then c - 0x20 else c)"

lemma is_lower_cases: "is_lower c \<Longrightarrow> 0x61 \<le> unat c \<and> unat c \<le> 0x7A"
  by (simp add: is_lower_def word_le_nat_alt)

lemma upper_not_0: "c \<noteq> 0 \<Longrightarrow> upper c \<noteq> 0"
  by (auto simp: upper_def is_lower_def)

lemma put_spaces_eq: "put_spaces n a m x = (if x \<in> area a n then 0x20 else m x)"
  by (induction n arbitrary: a m) (auto simp: area_Suc)

lemma not_in_tail: "n < 2 ^ 64 \<Longrightarrow> p \<notin> area (p + 1) n"
  using at_off_below_area [of 0 1 n p] by simp

lemma cstr_skip:
  assumes "cstr m name (c # xs)" "length xs < 2 ^ 63"
  shows "cstr (m(name := v)) (name + 1) xs"
proof -
  have "name \<notin> area (name + 1) (Suc (length xs))" using assms(2) by (intro not_in_tail) simp
  then show ?thesis using assms(1) by (subst cstr_upd_outside) (simp_all add: cstr_Cons)
qed

lemma upper_name_result:
  assumes "cstr m name (b @ r)" "0x2E \<notin> set b" "r = [] \<or> hd r = 0x2E" "length (b @ r) < 2 ^ 63"
  shows "upper_name name ns m = Some (at_off name (length b), ns + length b, \<lambda>x. if x \<in> area name (length b) then upper (m x) else m x)"
  using assms
proof (induction b arbitrary: name ns m)
  case Nil
  then have "m name = 0 \<or> m name = 0x2E" by (cases r) (auto simp: cstr_Cons)
  then show ?case by (subst upper_name.simps) auto
next
  case (Cons c b)
  let ?m = "m(name := upper (m name))"
  have c: "m name = c" "c \<noteq> 0" "c \<noteq> 0x2E" using Cons.prems by (auto simp: cstr_Cons)
  have o: "name \<notin> area (name + 1) (length b)" using Cons.prems(4) by (intro not_in_tail) simp
  have u: "(if is_lower (m name) then m(name := m name - 0x20) else m) = ?m" by (auto simp: upper_def)
  have "cstr ?m (name + 1) (b @ r)" using Cons.prems(1,4) by (intro cstr_skip) auto
  then have "upper_name (name + 1) (ns + 1) ?m = Some (at_off (name + 1) (length b), ns + 1 + length b,
      \<lambda>x. if x \<in> area (name + 1) (length b) then upper (?m x) else ?m x)"
    by (rule Cons.IH) (use Cons.prems in auto)
  moreover have "(\<lambda>x. if x \<in> area (name + 1) (length b) then upper (?m x) else ?m x) =
      (\<lambda>x. if x \<in> area name (length (c # b)) then upper (m x) else m x)"
    using o by (auto simp: area_Suc fun_eq_iff)
  ultimately show ?case
    using c u by (subst upper_name.simps) (simp add: at_off_Suc del: of_nat_Suc fun_upd_apply)
qed

text \<open>The extension behind the dot.\<close>

lemma ext_loop_frame: "x \<notin> area (at_off name (i + 1)) n \<Longrightarrow> snd (ext_loop n i name ext m) x = m x"
proof (induction n arbitrary: i ext m)
  case (Suc n)
  have "x \<noteq> at_off name (i + 1)" "x \<notin> area (at_off name (i + 1 + 1)) n"
    using Suc.prems by (simp_all add: area_Suc ac_simps)
  then show ?case using Suc.IH [of "i + 1"] by (simp add: Let_def del: of_nat_Suc of_nat_add)
qed simp

lemma ext_loop_result:
  assumes "cstr m (at_off name (i + 1)) e" "length e < 2 ^ 63" "length ext = i + n"
  shows "fst (ext_loop n i name ext m) = take i ext @ map ext_char (take n e) @ drop (i + length (take n e)) ext"
  using assms
proof (induction n arbitrary: i ext m e)
  case (Suc n)
  let ?a = "at_off name (i + 1)"
  show ?case
  proof (cases e)
    case Nil
    then show ?thesis using Suc.prems(1) by (simp add: Let_def del: of_nat_Suc of_nat_add)
  next
    case (Cons c e')
    let ?m = "if is_lower (m ?a) then m(?a := m ?a - 0x20) else m"
    have c: "m ?a = c" "c \<noteq> 0" using Suc.prems(1) Cons by (auto simp: cstr_Cons)
    have u: "?m = m(?a := upper (m ?a))" by (auto simp: upper_def)
    have e: "?a + 1 = at_off name (i + 1 + 1)" by simp
    have "cstr (m(?a := upper (m ?a))) (?a + 1) e'" by (rule cstr_skip) (use Suc.prems(1,2) Cons in auto)
    then have "cstr ?m (at_off name (i + 1 + 1)) e'" unfolding e u .
    then have "fst (ext_loop n (i + 1) name (ext[i := ext_char c]) ?m) =
        take (i + 1) (ext[i := ext_char c]) @ map ext_char (take n e') @ drop (i + 1 + length (take n e')) (ext[i := ext_char c])"
      by (rule Suc.IH) (use Suc.prems(2,3) Cons in auto)
    moreover have "take (i + 1) (ext[i := ext_char c]) = take i ext @ [ext_char c]"
      using Suc.prems(3) by (simp add: take_Suc_conv_app_nth)
    moreover have "ext_loop (Suc n) i name ext m = ext_loop n (i + 1) name (ext[i := ext_char c]) ?m"
      using c by (simp add: Let_def del: of_nat_Suc of_nat_add)
    ultimately show ?thesis using Cons by simp
  qed
qed simp

section \<open>The name\<close>

text \<open>The eleven characters for a base \<open>b\<close> and a rest \<open>r\<close> that is empty or begins with the dot.\<close>

definition dir_name :: "u8 list \<Rightarrow> u8 list \<Rightarrow> u8 list \<Rightarrow> u8 list" where
  "dir_name no_ext b r = map upper b @ replicate (8 - length b) 0x20 @
     (if r = [] then no_ext
      else map (\<lambda>c. if c \<noteq> 0 then c else 0x20) (map ext_char (take 3 (tl r)) @ replicate (3 - length (tl r)) 0))"

lemma dir_name_length: "length no_ext = 3 \<Longrightarrow> length b \<le> 8 \<Longrightarrow> length (dir_name no_ext b r) = 11"
  by (auto simp: dir_name_def min_def)

lemma put_ext_result:
  assumes "length cs < 2 ^ 63"
  shows "\<forall>k < length cs. put_ext cs a m (at_off a k) = (if cs ! k \<noteq> 0 then cs ! k else 0x20)"
    "put_ext cs a m (at_off a (length cs)) = 0" "x \<notin> area a (Suc (length cs)) \<Longrightarrow> put_ext cs a m x = m x"
proof -
  have "(\<forall>k < length cs. put_ext cs a m (at_off a k) = (if cs ! k \<noteq> 0 then cs ! k else 0x20)) \<and>
    put_ext cs a m (at_off a (length cs)) = 0 \<and> (\<forall>x. x \<notin> area a (Suc (length cs)) \<longrightarrow> put_ext cs a m x = m x)"
    using assms
  proof (induction cs arbitrary: a m)
    case Nil
    then show ?case by (simp add: area_Suc)
  next
    case (Cons c cs)
    define m1 where "m1 = m(a := if c \<noteq> 0 then c else 0x20)"
    have m1: "m1 a = (if c \<noteq> 0 then c else 0x20)" "x \<noteq> a \<Longrightarrow> m1 x = m x" "put_ext (c # cs) a m = put_ext cs (a + 1) m1" for x
      by (simp_all add: m1_def)
    note IH = Cons.IH [of "a + 1" m1]
    have o: "a \<notin> area (a + 1) (Suc (length cs))" using Cons.prems by (intro not_in_tail) simp
    have "put_ext (c # cs) a m (at_off a k) = (if (c # cs) ! k \<noteq> 0 then (c # cs) ! k else 0x20)" if "k < length (c # cs)" for k
    proof (cases k)
      case 0
      then show ?thesis using IH o Cons.prems m1(1,3) by simp
    next
      case (Suc j)
      then show ?thesis using IH that Cons.prems unfolding m1(3) by (simp add: at_off_Suc del: of_nat_Suc)
    qed
    moreover have "put_ext (c # cs) a m x = m x" if "x \<notin> area a (Suc (length (c # cs)))" for x
      using IH that Cons.prems m1(2) unfolding m1(3) area_Suc [of a "length (c # cs)"] by simp
    ultimately show ?case using IH Cons.prems unfolding m1(3) by (simp add: at_off_Suc del: of_nat_Suc)
  qed
  then show "\<forall>k < length cs. put_ext cs a m (at_off a k) = (if cs ! k \<noteq> 0 then cs ! k else 0x20)"
    "put_ext cs a m (at_off a (length cs)) = 0" "x \<notin> area a (Suc (length cs)) \<Longrightarrow> put_ext cs a m x = m x" by blast+
qed

text \<open>The last part of the code, from memory in which the base is in upper case.\<close>

lemma padded_name:
  assumes "length b \<le> 8" "length cs = 3" "\<forall>k < length b. m (at_off name k) = upper (b ! k)" "0 \<notin> set b"
    and "m' = put_ext cs (at_off (at_off name (length b)) (8 - length b)) (put_spaces (8 - length b) (at_off name (length b)) m)"
  shows "cstr m' name (map upper b @ replicate (8 - length b) 0x20 @ map (\<lambda>c. if c \<noteq> 0 then c else 0x20) cs)"
    "x \<notin> area name 12 \<Longrightarrow> m' x = m x"
proof -
  let ?n = "length b" and ?s = "put_spaces (8 - length b) (at_off name (length b)) m"
  let ?X = "map upper b @ replicate (8 - ?n) 0x20 @ map (\<lambda>c. if c \<noteq> 0 then c else 0x20) cs"
  have e: "at_off (at_off name ?n) (8 - ?n) = at_off name 8" using assms(1) unfolding at_off_add by simp
  note p = put_ext_result [where cs = cs and a = "at_off name 8" and m = ?s, folded assms(5) [unfolded e]]
  have l: "length ?X = 11" using assms(1,2) by simp
  have low: "m' (at_off name k) = ?s (at_off name k)" if "k < 8" for k
  proof (rule p(3))
    show "at_off name k \<notin> area (at_off name 8) (Suc (length cs))" using that unfolding assms(2) by (intro at_off_below_area) simp_all
  qed (use assms(2) in simp)
  have "m' (at_off name k) = ?X ! k" if "k < 11" for k
  proof -
    consider "k < ?n" | "?n \<le> k" "k < 8" | "8 \<le> k" by linarith
    then show ?thesis
    proof cases
      case 1
      then have "at_off name k \<notin> area (at_off name ?n) (8 - ?n)" using assms(1) by (intro at_off_below_area) simp_all
      then show ?thesis using 1 assms(1,3) low [of k] by (simp add: put_spaces_eq nth_append)
    next
      case 2
      then have "at_off name k = at_off (at_off name ?n) (k - ?n)" unfolding at_off_add by simp
      then have "at_off name k \<in> area (at_off name ?n) (8 - ?n)" using 2 by (simp only: area_at diff_less_mono)
      moreover have "k - ?n < 8 - ?n" using 2 by simp
      ultimately show ?thesis using 2 low [of k] by (simp add: put_spaces_eq nth_append)
    next
      case 3
      then have "at_off name k = at_off (at_off name 8) (k - 8)" unfolding at_off_add by simp
      moreover have "\<not> k < ?n" "\<not> k - ?n < 8 - ?n" "k - ?n - (8 - ?n) = k - 8" "k - 8 < 3" using 3 assms(1) that by auto
      ultimately show ?thesis using p(1) [rule_format, of "k - 8"] assms(2) by (simp add: nth_append)
    qed
  qed
  moreover have "m' (at_off name 11) = 0"
  proof -
    have "at_off (at_off name 8) (length cs) = at_off name 11" unfolding at_off_add assms(2) by simp
    then show ?thesis using p(2) assms(2) by (simp only: rel_simps numeral_less_iff power_one_right) (simp add: ac_simps)
  qed
  moreover have "0 \<notin> set ?X" proof -
    have "\<forall>c \<in> set b. upper c \<noteq> 0" using upper_not_0 assms(4) by metis
    then show ?thesis by (auto simp: image_iff)
  qed
  ultimately show "cstr m' name ?X" unfolding cstr_def l by blast
  show "m' x = m x" if "x \<notin> area name 12"
  proof -
    have "area (at_off name 8) (Suc (length cs)) \<subseteq> area name 12" "area (at_off name ?n) (8 - ?n) \<subseteq> area name 12"
      using assms(1,2) by (intro area_sub; simp)+
    then have "x \<notin> area (at_off name 8) (Suc (length cs))" "x \<notin> area (at_off name ?n) (8 - ?n)" using that by blast+
    with p(3) [of x] show ?thesis by (simp only: assms(2) put_spaces_eq if_False) simp
  qed
qed

lemma fntos_runs:
  assumes "cstr m name (b @ r)" "b @ r \<noteq> []" "0x2E \<notin> set b" "r = [] \<or> hd r = 0x2E" "length b \<le> 8" "length r < 2 ^ 32"
    and "name \<noteq> NULL" "length no_ext = 3" "0 \<notin> set no_ext"
  shows "\<exists>m'. fntos no_ext name m = Some m' \<and> cstr m' name (dir_name no_ext b r) \<and> (\<forall>x. x \<notin> area name 12 \<longrightarrow> m' x = m x)"
proof -
  let ?n = "length b" and ?m1 = "\<lambda>x. if x \<in> area name (length b) then upper (m x) else m x"
  have n0: "m name \<noteq> 0" using assms(1,2) by (cases "b @ r") (auto simp: cstr_Cons)
  have u: "upper_name name 0 m = Some (at_off name ?n, ?n, ?m1)"
    using upper_name_result [OF assms(1,3,4), of 0] assms(5,6) by simp
  have c: "\<And>k. k < ?n \<Longrightarrow> m (at_off name k) = b ! k" "0 \<notin> set b" "cstr m (at_off name ?n) r"
    using assms(1) cstr_append by (auto simp: cstr_def nth_append)
  have m1: "\<forall>k < ?n. ?m1 (at_off name k) = upper (b ! k)" using c(1) area_at by simp
  have out: "?m1 x = m x" if "x \<notin> area name 12" for x using that area_mono [of ?n 12 name] assms(5) by auto
  have no: "map (\<lambda>c. if c \<noteq> 0 then c else 0x20) no_ext = no_ext" using assms(9) by (intro map_idI) auto
  have end_out: "at_off name ?n \<notin> area name ?n" using assms(5) by (intro at_off_above_area) auto
  show ?thesis
  proof (cases r)
    case Nil
    let ?M = "put_ext no_ext (at_off (at_off name ?n) (8 - ?n)) (put_spaces (8 - ?n) (at_off name ?n) ?m1)"
    have "?m1 (at_off name ?n) = 0" using c(3) Nil end_out by simp
    then have "fntos no_ext name m = Some ?M" using assms(5,7) n0 u by (simp add: fntos_def del: put_ext.simps)
    moreover note padded_name [OF assms(5,8) m1 c(2) refl]
    ultimately show ?thesis using Nil out no by (auto simp: dir_name_def)
  next
    case (Cons d e)
    let ?e = "ext_loop 3 0 (at_off name ?n) [0, 0, 0] ?m1"
    let ?M = "put_ext (fst ?e) (at_off (at_off name ?n) (8 - ?n)) (put_spaces (8 - ?n) (at_off name ?n) (snd ?e))"
    have d: "d = 0x2E" using assms(4) Cons by simp
    have "?m1 (at_off name ?n) = 0x2E" using c(3) Cons end_out d by (simp add: cstr_Cons)
    then have f: "fntos no_ext name m = Some ?M" using n0 u assms(7) by (simp add: fntos_def split_beta del: put_ext.simps)
    have "cstr ?m1 (at_off (at_off name ?n) (0 + 1)) e"
    proof -
      have "at_off name (?n + 1 + k) \<notin> area name ?n" if "k \<le> length e" for k
        using that assms(5,6) Cons by (intro at_off_above_area) auto
      then have same: "?m1 x = m x" if "x \<in> area (at_off name (?n + 1)) (Suc (length e))" for x
        using that by (auto simp: area_elem at_off_add less_Suc_eq_le simp del: of_nat_add of_nat_Suc)
      have p: "at_off name ?n + 1 = at_off name (?n + 1)" "at_off (at_off name ?n) (0 + 1) = at_off name (?n + 1)" by simp_all
      have "cstr m (at_off name ?n + 1) e" using c(3) unfolding Cons cstr_Cons by blast
      then show ?thesis unfolding p by (subst cstr_cong [OF same])
    qed
    then have "fst ?e = take 0 [0, 0, 0] @ map ext_char (take 3 e) @ drop (0 + length (take 3 e)) [0, 0, 0]"
      by (rule ext_loop_result) (use assms(6) Cons in simp_all)
    moreover have "[0, 0, 0 :: u8] = replicate 3 0" by (simp add: eval_nat_numeral)
    ultimately have x: "fst ?e = map ext_char (take 3 e) @ replicate (3 - length e) 0"
      by (simp only: drop_replicate length_take) (simp add: min_def)
    have fr: "snd ?e x = ?m1 x" if "x \<notin> area (at_off name (?n + 1)) 3" for x
      using ext_loop_frame [of x "at_off name ?n" 0 3] that unfolding at_off_add by simp
    have up: "\<forall>k < ?n. snd ?e (at_off name k) = upper (b ! k)"
    proof (intro allI impI)
      fix k assume k: "k < ?n"
      then have "at_off name k \<notin> area (at_off name (?n + 1)) 3" using assms(5) by (intro at_off_below_area) simp_all
      from trans [OF fr [OF this] m1 [rule_format, OF k]] show "snd ?e (at_off name k) = upper (b ! k)" .
    qed
    have l3: "length (fst ?e) = 3" unfolding x by (simp add: min_def)
    note p = padded_name [OF assms(5) l3 up c(2) refl]
    have calculation: "area (at_off name (?n + 1)) 3 \<subseteq> area name 12" using assms(5) by (intro area_sub) simp
    have sn: "snd ?e x = m x" if "x \<notin> area name 12" for x
    proof -
      have "x \<notin> area (at_off name (?n + 1)) 3" using calculation that by blast
      from fr [OF this] out [OF that] show ?thesis by (rule trans)
    qed
    have o: "?M x = m x" if "x \<notin> area name 12" for x using trans [OF p(2) [OF that] sn [OF that]] .
    have "cstr ?M name (dir_name no_ext b r)" using p(1) unfolding x dir_name_def Cons by simp
    with f o show ?thesis by blast
  qed
qed

end
