(* ===== verification/File_Calls.thy ===== *)
theory File_Calls
  imports Descriptors File_Names
begin

text \<open>
  Opening files and loading programs (gthouse/fs/fslib.c, gthouse/fs/fsload.c, devmgr_search_in_dev_list of
  halls/dev/per/dev.c) and the file system calls of gthouse/fs/fs.c. Buffers that the code keeps on the kernel
  stack have their addresses in \<open>file_env\<close>, with the table of device entries, which no call
  changes. Output for debugging is left out.
\<close>

section \<open>Environment and constants\<close>

record dev_entry =
  de_magic :: int
  de_initialized :: bool
  de_fp :: addr

record file_env =
  pathname_local_copy :: addr
  name_buffer :: addr
  new_file_buffer :: addr
  dev_dir :: "nat \<Rightarrow> dev_entry"

definition EFAULT :: int where "EFAULT = 14"
definition O_CREAT :: u32 where "O_CREAT = 0x0200"
definition DEVICE_LIST_MAX :: nat where "DEVICE_LIST_MAX = 512"
definition FS_N_BUFFERS :: nat where "FS_N_BUFFERS = 5"
definition FLOWERTHREAD_BASE :: addr where "FLOWERTHREAD_BASE = 0x00200000"
definition SYNC_REQUEST_SET_ACTION :: int where "SYNC_REQUEST_SET_ACTION = 1"
definition SYNC_REQUEST_GET_ACTION :: int where "SYNC_REQUEST_GET_ACTION = 2"
definition SYNC_REQUEST_RESET_WR :: int where "SYNC_REQUEST_RESET_WR = 216"
definition SYNC_REQUEST_RESET_RD :: int where "SYNC_REQUEST_RESET_RD = 217"

lemmas call_consts = EFAULT_def O_CREAT_def DEVICE_LIST_MAX_def FS_N_BUFFERS_def FLOWERTHREAD_BASE_def
  SYNC_REQUEST_SET_ACTION_def SYNC_REQUEST_GET_ACTION_def SYNC_REQUEST_RESET_WR_def SYNC_REQUEST_RESET_RD_def

definition ascii :: "string \<Rightarrow> u8 list" where
  "ascii str = map of_char str"

text \<open>A comparison of the code with a literal: the terminator of the literal is part of it.\<close>

definition is_literal :: "mem \<Rightarrow> addr \<Rightarrow> string \<Rightarrow> bool" where
  "is_literal m a str \<longleftrightarrow> strncmp_bytes (read_bytes m a (Suc (length str))) (ascii str @ [0]) (length str) = 0"

section \<open>Devices\<close>

definition devmgr_search_in_dev_list :: "addr \<Rightarrow> io_state \<Rightarrow> addr option" where
  "devmgr_search_in_dev_list path s =
    (if path = NULL then Some NULL
     else case strlen (bytes s) path of None \<Rightarrow> None
     | Some PathSize \<Rightarrow>
         if 64 \<le> PathSize then Some NULL
         else Some (case first_slot (\<lambda>i. let d = deviceList s i in
                d \<noteq> NULL \<and> d_magic (devices s d) = 1234 \<and> d_mount_point (devices s d) \<noteq> NULL \<and>
                gramado_strncmp (bytes s) (d_mount_point (devices s d)) path (int PathSize) = 0) [0..<DEVICE_LIST_MAX] of
              None \<Rightarrow> NULL | Some i \<Rightarrow> d_fp (devices s (deviceList s i))))"

definition open_device :: "addr \<Rightarrow> addr \<Rightarrow> io_state \<Rightarrow> int \<times> io_state" where
  "open_device p fp s =
    (case first_slot (\<lambda>i. objects s p i = NULL) [0..<nat OPEN_MAX] of
       None \<Rightarrow> (- EMFILE, s)
     | Some dev_fd \<Rightarrow>
         (int dev_fd, upd_file fp (\<lambda>x. x\<lparr>f_fd_counter := f_fd_counter x + 1\<rparr>)
           (set_object p (int dev_fd) fp (upd_file fp (\<lambda>x. x\<lparr>f_file := int dev_fd\<rparr>) s))))"

section \<open>Opening a file of the disk\<close>

text \<open>The directory that a name stands in and the rest of the name; without the directory the call fails.\<close>

definition open_dir :: "addr \<Rightarrow> io_state \<Rightarrow> (addr \<times> addr) option" where
  "open_dir file_name s =
    (let name = (if bytes s file_name = 0x2F then file_name + 1 else file_name) in
     if bytes s name = 0x40
     then if \<not> sd_initialized (sdGRAMADO s) \<or> sd_address (sdGRAMADO s) = 0 then None
          else Some (sd_address (sdGRAMADO s), name + 1)
     else if bytes s name = 0x23
     then if \<not> sd_initialized (sdDE s) \<or> sd_address (sdDE s) = 0 then None
          else Some (sd_address (sdDE s), name + 1)
     else Some (VOLUME1_ROOTDIR_ADDRESS, name))"

text \<open>With O_CREAT a file that is not found is saved with a line of text. The text has no directives, so
  \<^verbatim>\<open>ksprintf\<close> copies it.\<close>

definition open_create :: "addr \<Rightarrow> addr \<Rightarrow> io_state \<Rightarrow> (bool \<times> io_state) outcome" where
  "open_create dir name s =
    and_then (io_kmalloc (word_of_int BUFSIZ) s) (\<lambda>(buff, s1).
      if buff = NULL then Inr (False, s1)
      else let s2 = s1\<lparr>bytes := put_bytes buff (ascii ''This is a new file.'') (snd (memset buff 0 BUFSIZ (bytes s1)))\<rparr> in
      and_then (fat16SaveFile VOLUME1_FAT_ADDRESS dir (int FAT16_ROOT_ENTRIES) name 1 512 buff 0x20 s2)
        (\<lambda>(r, s3). Inr (\<not> r < 0, s3)))"

definition open_file :: "addr \<Rightarrow> int \<Rightarrow> io_state \<Rightarrow> file_d" where
  "open_file p slot s = zero_file\<lparr>f_used := True, f_magic := 1234, f_pid := p_pid (tes (iks s) p), f_uid := current_user s,
     f_gid := current_group s, f_object := ObjectTypeFile,
     f_sync := (f_sync zero_file)\<lparr>sy_can_read := True, sy_can_write := True, sy_action := ACTION_NULL\<rparr>,
     f_fsize := 0, f_lbfsize := BUFSIZ, f_r := 0, f_w := 0, f_cnt := BUFSIZ, f_fd_counter := 1, f_file := slot\<rparr>"

text \<open>A buffer of its size and eight bytes more for a file that does not fit into the standard buffer, if the file has at most 8 KB.\<close>

definition open_buffer :: "addr \<Rightarrow> int \<Rightarrow> io_state \<Rightarrow> (bool \<times> io_state) outcome" where
  "open_buffer fp FileSize s =
    (if f_lbfsize (files s fp) \<le> FileSize
     then if 8 * 1024 < FileSize then Inr (False, s)
       else let buflen = FileSize + 8 in
         and_then (io_kmalloc (word_of_int buflen) s) (\<lambda>(b, s1).
           let s2 = upd_file fp (\<lambda>x. x\<lparr>f_base := b\<rparr>) s1 in
           if b = NULL then Inr (False, s2)
           else Inr (True, upd_file fp (\<lambda>x. x\<lparr>f_lbfsize := buflen\<rparr>) (s2\<lparr>bytes := snd (memset b 0 buflen (bytes s2))\<rparr>)))
     else Inr (True, s))"

definition open_load :: "addr \<Rightarrow> int \<Rightarrow> addr \<Rightarrow> addr \<Rightarrow> addr \<Rightarrow> io_state \<Rightarrow> (addr \<times> io_state) outcome option" where
  "open_load p slot fp name dir s =
    (if f_base (files s fp) = NULL then returns (NULL, s)
     else let s1 = upd_file fp (\<lambda>x. x\<lparr>f_p := f_base x\<rparr>) s;
              s2 = (if f_fsize (files s1 fp) < f_lbfsize (files s1 fp)
                    then upd_file fp (\<lambda>x. x\<lparr>f_cnt := f_lbfsize x - f_fsize x, f_r := 0, f_w := f_fsize x\<rparr>) s1
                    else upd_file fp (\<lambda>x. x\<lparr>f_cnt := 0, f_r := f_lbfsize x, f_w := f_lbfsize x\<rparr>) s1)
     in if f_lbfsize (files s2 fp) \<le> f_fsize (files s2 fp) then returns (NULL, s2)
     else run_then (fat16LoadFile VOLUME1_FAT_ADDRESS dir (int FAT16_ROOT_ENTRIES) name (f_base (files s2 fp))
            (word_of_int (f_lbfsize (files s2 fp))) s2) (\<lambda>(Status, s3).
       if Status < 0 then returns (NULL, s3)
       else returns (fp, set_object p slot fp
         (upd_file fp (\<lambda>x. x\<lparr>f_cnt := f_lbfsize x - f_fsize x, f_r := 0, f_w := f_fsize x, f_flags := f_flags x OR SRD\<rparr>) s3))))"

definition open_found :: "addr \<Rightarrow> addr \<Rightarrow> io_state \<Rightarrow> (addr \<times> io_state) outcome option" where
  "open_found name dir s =
    (let p = get_current_process_pointer (iks s) in
     if p = NULL then returns (NULL, s)
     else case first_slot (\<lambda>i. objects s p i = NULL) [0..<nat OPEN_MAX] of
       None \<Rightarrow> returns (NULL, s)
     | Some slot \<Rightarrow>
         run_then (Some (io_kmalloc sizeof_file s)) (\<lambda>(fp, s1).
         if fp = NULL then returns (NULL, s1)
         else let s2 = upd_file fp (\<lambda>_. open_file p (int slot) s1) s1 in
         run_then (Some (io_kmalloc (word_of_int BUFSIZ) s2)) (\<lambda>(b, s3).
         let s4 = upd_file fp (\<lambda>x. x\<lparr>f_base := b\<rparr>) s3 in
         if b = NULL then returns (NULL, s4)
         else run_then (fsGetFileSize name dir (s4\<lparr>bytes := snd (memset b 0 BUFSIZ (bytes s4))\<rparr>)) (\<lambda>(size_found, s5).
         let FileSize = sint (ucast size_found :: u32) in
         if FileSize \<le> 0 then returns (NULL, s5)
         else run_then (Some (open_buffer fp FileSize (upd_file fp (\<lambda>x. x\<lparr>f_fsize := FileSize\<rparr>) s5))) (\<lambda>(ok, s6).
         if \<not> ok then returns (NULL, s6) else open_load p (int slot) fp name dir s6)))))"

definition do_read_file_from_disk :: "addr \<Rightarrow> u32 \<Rightarrow> io_state \<Rightarrow> (addr \<times> io_state) outcome option" where
  "do_read_file_from_disk file_name flags s =
    (if file_name = NULL then returns (NULL, s)
     else if bytes s file_name = 0 then returns (NULL, s)
     else case open_dir file_name s of None \<Rightarrow> returns (NULL, s)
     | Some (dir, name) \<Rightarrow>
         Option.bind (fs_fntos2 name (bytes s)) (\<lambda>m.
           let s1 = s\<lparr>bytes := m\<rparr> in
           Option.bind (search_in_dir name dir m) (\<lambda>found.
             if found then open_found name dir s1
             else if flags AND O_CREAT = 0 then returns (NULL, s1)
             else run_then (Some (open_create dir name s1)) (\<lambda>(ok, s2).
               if ok then open_found name dir s2 else returns (NULL, s2)))))"

definition fd_of_file :: "addr \<Rightarrow> io_state \<Rightarrow> int" where
  "fd_of_file fp s =
    (if fp = NULL then -1
     else if \<not> f_used (files s fp) then -1
     else if f_magic (files s fp) \<noteq> 1234 then -1
     else let fd = f_file (files s fp) in if fd < 0 then -1 else if 31 < fd then -1 else fd)"

text \<open>The copy of the path on the stack.\<close>

definition copy_path :: "file_env \<Rightarrow> addr \<Rightarrow> mem \<Rightarrow> mem" where
  "copy_path E pathname m = snd (strncpy (pathname_local_copy E) pathname 256 (snd (memset (pathname_local_copy E) 0 256 m)))"

definition open_imp :: "file_env \<Rightarrow> addr \<Rightarrow> u32 \<Rightarrow> io_state \<Rightarrow> (int \<times> io_state) outcome option" where
  "open_imp E pathname flags s =
    (if pathname = NULL then returns (- EFAULT, s)
     else if bytes s pathname = 0 then returns (- EFAULT, s)
     else let current_process = get_current_process 0 (iks s) in
     if current_process < 0 \<or> int PROCESS_COUNT_MAX \<le> current_process then returns (-1, s)
     else let p = teList (iks s) (nat current_process) in
     if p = NULL then returns (-1, s)
     else if \<not> p_used (tes (iks s) p) \<or> p_magic (tes (iks s) p) \<noteq> 1234 then returns (-1, s)
     else let path = pathname_local_copy E;
              m = (copy_path E pathname (bytes s))(at_off path 254 := 0); s1 = s\<lparr>bytes := m\<rparr> in
     if is_literal m path ''/dev/tty'' \<or> is_literal m path ''/DEV/TTY'' \<or> is_literal m path ''/dev/console'' \<or>
        is_literal m path ''/DEV/CONSOLE''
     then returns (STDOUT_FILENO, s1)
     else Option.bind (devmgr_search_in_dev_list path s1) (\<lambda>fp.
       if fp \<noteq> NULL \<and> f_isDevice (files s1 fp) then Some (Inr (open_device p fp s1))
       else run_then (do_read_file_from_disk path flags s1) (\<lambda>(fp, s2). returns (fd_of_file fp s2, s2))))"

section \<open>Loading a program\<close>

definition fsLoadProgramFrom :: "system_directory_d \<Rightarrow> addr \<Rightarrow> addr \<Rightarrow> u64 \<Rightarrow> io_state \<Rightarrow> (int \<times> io_state) outcome option" where
  "fsLoadProgramFrom sd program_name buffer buffer_size_in_bytes s =
    (if buffer = NULL then returns (-1, s)
     else if buffer_size_in_bytes = 0 then returns (-1, s)
     else if \<not> sd_initialized sd then returns (-1, s)
     else if sd_address sd = 0 then returns (-1, s)
     else run_then (fat16LoadFile VOLUME1_FAT_ADDRESS (sd_address sd) 512 program_name buffer buffer_size_in_bytes s)
       (\<lambda>(Status, s1). returns (if Status \<noteq> 0 then -1 else 0, s1)))"

definition fsLoadProgramFromGRAMADO :: "addr \<Rightarrow> addr \<Rightarrow> u64 \<Rightarrow> io_state \<Rightarrow> (int \<times> io_state) outcome option" where
  "fsLoadProgramFromGRAMADO program_name buffer n s = fsLoadProgramFrom (sdGRAMADO s) program_name buffer n s"

definition fsLoadProgramFromDE :: "addr \<Rightarrow> addr \<Rightarrow> u64 \<Rightarrow> io_state \<Rightarrow> (int \<times> io_state) outcome option" where
  "fsLoadProgramFromDE program_name buffer n s = fsLoadProgramFrom (sdDE s) program_name buffer n s"

definition try_to_load_program_from_special_folder :: "addr \<Rightarrow> addr \<Rightarrow> io_state \<Rightarrow> (int \<times> io_state) outcome option" where
  "try_to_load_program_from_special_folder filename image_va s =
    (if filename = NULL then returns (-1, s)
     else if bytes s filename = 0 then returns (-1, s)
     else if bytes s filename = 0x40
     then Option.bind (fs_fntos (filename + 1) (bytes s)) (\<lambda>m.
       run_then (fsLoadProgramFromGRAMADO (filename + 1) image_va 2097152 (s\<lparr>bytes := m\<rparr>)) (\<lambda>(Status, s1).
         returns (if Status = 0 then 0 else -1, s1)))
     else if bytes s filename = 0x23
     then Option.bind (fs_fntos (filename + 1) (bytes s)) (\<lambda>m.
       run_then (fsLoadProgramFromDE (filename + 1) image_va 2097152 (s\<lparr>bytes := m\<rparr>)) (\<lambda>(Status, s1).
         returns (if Status = 0 then 0 else -1, s1)))
     else returns (-1, s))"

definition fs_load_image :: "addr \<Rightarrow> addr \<Rightarrow> io_state \<Rightarrow> (int \<times> io_state) outcome option" where
  "fs_load_image filename image_va s =
    (if filename = NULL then returns (-1, s)
     else if bytes s filename = 0 then returns (-1, s)
     else if bytes s filename = 0x2E \<and> bytes s (filename + 1) = 0x2F then returns (-1, s)
     else if bytes s filename = 0x40 \<or> bytes s filename = 0x23
     then try_to_load_program_from_special_folder filename image_va s
     else let name = (if bytes s filename = 0x2F then filename + 1 else filename) in
     Option.bind (fs_fntos name (bytes s)) (\<lambda>m.
     Option.bind (search_in_dir name VOLUME1_ROOTDIR_ADDRESS m) (\<lambda>found.
       if \<not> found then returns (-1, s\<lparr>bytes := m\<rparr>)
       else if image_va = NULL then Some (Inl (Panic ''fs_load_image: image_va''))
       else fat16LoadFile VOLUME1_FAT_ADDRESS VOLUME1_ROOTDIR_ADDRESS (int FAT16_ROOT_ENTRIES) name image_va (512 * 4096) (s\<lparr>bytes := m\<rparr>))))"

subsection \<open>Along a path\<close>

text \<open>One level of a path is read into the name buffer, up to a dot (the last level: a file), a slash
  (a folder), or twelve characters. The terminator of the path is no end.\<close>

datatype path_part = Part_File mem | Part_Folder addr mem | Part_None addr mem

fun read_part :: "nat \<Rightarrow> addr \<Rightarrow> bool \<Rightarrow> addr \<Rightarrow> mem \<Rightarrow> path_part outcome" where
  "read_part 0 buf is_last p m = Inr (Part_None p m)"
| "read_part (Suc k) buf is_last p m =
    (let i = 12 - Suc k; m1 = m(at_off buf i := m p) in
     if m1 p = 0x2E
     then if \<not> is_last then Inl (Panic ''fs_load_path: dot found into a subdirectory'')
       else if i = 0 then Inl (Panic ''fs_load_path: [fail] Filename starting with a dot.'')
       else if 8 < i then Inl (Panic ''fs_load_path: Filename bigger than 8.'')
       else case copy_part 3 False (at_off buf 8) (p + 1) (put_spaces (8 - i) (at_off buf i) m1) of (n, _, m2) \<Rightarrow>
         Inr (Part_File ((put_spaces (3 - n) (at_off buf (8 + n)) m2)(at_off buf 11 := 0)))
     else if m1 p = 0x2F
     then if i = 0 then Inl (Panic ''fs_load_path: Invalid folder name'')
       else if 11 \<le> i then Inl (Panic ''fs_load_path: The folder name is too long'')
       else Inr (Part_Folder p ((put_spaces (11 - i) (at_off buf i) m1)(at_off buf 11 := 0)))
     else read_part k buf is_last (p + 1) m1)"

fun load_levels :: "addr \<Rightarrow> nat \<Rightarrow> nat \<Rightarrow> addr \<Rightarrow> addr \<Rightarrow> addr \<Rightarrow> u64 \<Rightarrow> io_state \<Rightarrow> (int \<times> io_state) outcome option" where
  "load_levels buf n_levels 0 p src file_buffer file_size s = returns (-1, s)"
| "load_levels buf n_levels (Suc k) p src file_buffer file_size s =
    (let l = n_levels - Suc k in
     if bytes s p \<noteq> 0x2F then Some (Inl (Panic ''fs_load_path: All levels need to start with a slash''))
     else case read_part 12 buf (k = 0) (p + 1) (bytes s) of
       Inl e \<Rightarrow> Some (Inl e)
     | Inr (Part_None p1 m) \<Rightarrow> load_levels buf n_levels k p1 src file_buffer file_size (s\<lparr>bytes := m\<rparr>)
     | Inr (Part_File m) \<Rightarrow>
         run_then (fat16LoadFile VOLUME1_FAT_ADDRESS src (int FAT16_ROOT_ENTRIES) buf file_buffer file_size (s\<lparr>bytes := m\<rparr>))
           (\<lambda>(Ret, s1). if Ret = 0 then returns (0, s1) else Some (Inl (Panic ''fs_load_path: [FAIL] Loading level 0'')))
     | Inr (Part_Folder p1 m) \<Rightarrow>
         let dst = fs_buffers s (int l) in
         if dst = NULL then Some (Inl (Panic ''fs_load_path: __dst_buffer''))
         else run_then (fat16LoadFile VOLUME1_FAT_ADDRESS src (int FAT16_ROOT_ENTRIES) buf dst 16384 (s\<lparr>bytes := m\<rparr>))
           (\<lambda>(Ret, s1). if Ret = 0 then load_levels buf n_levels k p1 dst file_buffer file_size s1
                        else Some (Inl (Panic ''fs_load_path: [FAIL] Loading level 0''))))"

definition fs_load_path :: "file_env \<Rightarrow> addr \<Rightarrow> addr \<Rightarrow> u64 \<Rightarrow> io_state \<Rightarrow> (int \<times> io_state) outcome option" where
  "fs_load_path E path address buffer_size s =
    (if path = NULL then Some (Inl (Panic ''fs_load_path: path''))
     else if bytes s path = 0 then Some (Inl (Panic ''fs_load_path: path''))
     else if address = 0 then Some (Inl (Panic ''fs_load_path: address''))
     else if buffer_size = 0 then Some (Inl (Panic ''fs_load_path: buffer_size''))
     else let n_levels = fs_count_path_levels path (bytes s) in
     if n_levels = 0 \<or> FS_N_BUFFERS \<le> n_levels then Some (Inl (Panic ''fs_load_path: n_levels''))
     else if bytes s path \<noteq> 0x2F then Some (Inl (Panic ''fs_load_path: Not absolute pathname''))
     else load_levels (name_buffer E) n_levels n_levels path VOLUME1_ROOTDIR_ADDRESS address (buffer_size AND 0xFFFFFFFF) s)"

section \<open>System calls\<close>

definition sys_read :: "io_env \<Rightarrow> int \<Rightarrow> addr \<Rightarrow> int \<Rightarrow> io_state \<Rightarrow> (int \<times> io_state) outcome" where
  "sys_read E fd ubuf count s =
    (let tid = l_current_tid (lapic_info (iks s) 0) in
     if fd < 0 then Inr (- EBADF, s)
     else if fd = 0 \<and> tid \<noteq> foreground_thread (iks s) \<and> tid \<noteq> special_reader s then Inr (- EPERM, s)
     else if ubuf < FLOWERTHREAD_BASE then Inl (Panic ''sys_read: Invalid ubuf'')
     else if count = 0 then Inr (- EINVAL, s)
     else read_imp E fd ubuf count s)"

definition sys_write :: "io_env \<Rightarrow> int \<Rightarrow> addr \<Rightarrow> int \<Rightarrow> io_state \<Rightarrow> (int \<times> io_state) outcome" where
  "sys_write E fd ubuf count s =
    (if fd < 0 then Inr (- EBADF, s)
     else if ubuf < FLOWERTHREAD_BASE then Inl (Panic ''sys_write: Invalid ubuf'')
     else if count = 0 then Inr (- EINVAL, s)
     else write_imp E fd ubuf count s)"

definition sys_open :: "file_env \<Rightarrow> addr \<Rightarrow> u32 \<Rightarrow> io_state \<Rightarrow> (int \<times> io_state) outcome option" where
  "sys_open E pathname flags s =
    (if pathname = NULL then returns (- EFAULT, s)
     else if bytes s pathname = 0 then returns (- EFAULT, s)
     else open_imp E pathname flags s)"

definition sys_close :: "int \<Rightarrow> io_state \<Rightarrow> (int \<times> io_state) outcome" where
  "sys_close fd s = (if fd < 0 then Inr (- EBADF, s) else close_imp fd s)"

definition sys_fcntl :: "int \<Rightarrow> int \<Rightarrow> u64 \<Rightarrow> io_state \<Rightarrow> (int \<times> io_state) outcome" where
  "sys_fcntl fd cmd arg s =
    (if fd < 0 \<or> OPEN_MAX \<le> fd then Inr (- EBADF, s)
     else if cmd < 0 then Inr (- EINVAL, s)
     else sys_fcntl_imp fd cmd arg s)"

text \<open>The file behind a descriptor of the current process, as the calls of fs.c look it up.\<close>

definition fd_object :: "int \<Rightarrow> io_state \<Rightarrow> addr" where
  "fd_object fd s =
    (let current_process = get_current_process 0 (iks s) in
     if current_process < 0 \<or> int PROCESS_COUNT_MAX \<le> current_process then NULL
     else let p = teList (iks s) (nat current_process) in
     if p = NULL then NULL
     else if p_magic (tes (iks s) p) \<noteq> 1234 then NULL
     else let f = objects s p (nat fd) in
     if f = NULL then NULL
     else if \<not> f_used (files s f) \<or> f_magic (files s f) \<noteq> 1234 then NULL
     else f)"

definition sys_set_file_sync :: "int \<Rightarrow> int \<Rightarrow> int \<Rightarrow> io_state \<Rightarrow> io_state" where
  "sys_set_file_sync fd request data s =
    (if fd < 0 \<or> OPEN_MAX \<le> fd then s
     else let f = fd_object fd s in
     if f = NULL then s
     else if request = SYNC_REQUEST_SET_ACTION then upd_file f (upd_sync (\<lambda>y. y\<lparr>sy_action := data\<rparr>)) s
     else if request = SYNC_REQUEST_RESET_WR
     then upd_file f (\<lambda>x. x\<lparr>f_r := 0, f_w := 0, f_socket_buffer_full := False\<rparr>)
       (k_rewind f (upd_file f (\<lambda>x. (upd_sync (\<lambda>y. y\<lparr>sy_action := ACTION_NULL, sy_can_write := True\<rparr>) x)\<lparr>f_flags := SWR\<rparr>) s))
     else if request = SYNC_REQUEST_RESET_RD
     then upd_file f (\<lambda>x. (upd_sync (\<lambda>y. y\<lparr>sy_action := ACTION_NULL, sy_can_read := True\<rparr>) x)\<lparr>f_flags := SRD\<rparr>) s
     else s)"

definition sys_get_file_sync :: "int \<Rightarrow> int \<Rightarrow> io_state \<Rightarrow> int" where
  "sys_get_file_sync fd request s =
    (if fd < 0 \<or> OPEN_MAX \<le> fd then - EBADF
     else let f = fd_object fd s in
     if f = NULL then -1
     else if request = SYNC_REQUEST_GET_ACTION then sy_action (f_sync (files s f)) else -1)"

definition sys_open_device_by_number :: "file_env \<Rightarrow> int \<Rightarrow> io_state \<Rightarrow> (int \<times> io_state) outcome" where
  "sys_open_device_by_number E device_index s =
    (if device_index < 0 \<or> 32 \<le> device_index then Inr (- EINVAL, s)
     else let d = dev_dir E (nat device_index) in
     if de_magic d \<noteq> 1234 then Inr (-1, s)
     else if \<not> de_initialized d then Inr (-1, s)
     else if de_fp d = NULL then Inr (-1, s)
     else if f_magic (files s (de_fp d)) \<noteq> 1234 then Inr (-1, s)
     else let current_process = get_current_process 0 (iks s) in
     if current_process < 0 \<or> int PROCESS_COUNT_MAX \<le> current_process then Inr (-1, s)
     else let p = teList (iks s) (nat current_process) in
     if p = NULL then Inr (-1, s)
     else if \<not> p_used (tes (iks s) p) \<or> p_magic (tes (iks s) p) \<noteq> 1234 then Inr (-1, s)
     else case first_slot (\<lambda>i. objects s p i = NULL) [0..<32] of
       None \<Rightarrow> Inl (Panic ''sys_open_device_by_number: No slots!'')
     | Some slot \<Rightarrow> Inr (int slot, set_object p (int slot) (de_fp d) s))"

definition sys_get_file_size :: "addr \<Rightarrow> io_state \<Rightarrow> (u64 \<times> io_state) outcome option" where
  "sys_get_file_size path s =
    (if path = NULL then returns (0, s)
     else if bytes s path = 0 then returns (0, s)
     else fsGetFileSize path VOLUME1_ROOTDIR_ADDRESS s)"

text \<open>The comment of the code says that the caller sleeps; it does not.\<close>

definition sys_sleep_if_socket_is_empty :: "int \<Rightarrow> io_state \<Rightarrow> int \<times> io_state" where
  "sys_sleep_if_socket_is_empty fd s =
    (if fd < 0 \<or> OPEN_MAX \<le> fd then (- EBADF, s)
     else let f = fd_object fd s in
     if f = NULL then (-1, s)
     else if f_object (files s f) \<noteq> ObjectTypeSocket then (-1, s)
     else if \<not> f_socket_buffer_full (files s f) then (0, upd_file f (\<lambda>x. x\<lparr>f_flags := f_flags x OR SWR\<rparr>) s)
     else (1, upd_file f (\<lambda>x. x\<lparr>f_flags := f_flags x OR SRD\<rparr>) s))"

definition sys_read_file_from_disk :: "file_env \<Rightarrow> addr \<Rightarrow> u32 \<Rightarrow> io_state \<Rightarrow> (int \<times> io_state) outcome option" where
  "sys_read_file_from_disk E file_name flags s =
    (if file_name = NULL then returns (- EINVAL, s)
     else if bytes s file_name = 0 then returns (- EINVAL, s)
     else run_then (do_read_file_from_disk (pathname_local_copy E) flags (s\<lparr>bytes := copy_path E file_name (bytes s)\<rparr>))
       (\<lambda>(fp, s1). returns (fd_of_file fp s1, s1)))"

definition sys_write_file_to_disk :: "file_env \<Rightarrow> addr \<Rightarrow> u64 \<Rightarrow> u64 \<Rightarrow> addr \<Rightarrow> u8 \<Rightarrow> io_state \<Rightarrow> (int \<times> io_state) outcome" where
  "sys_write_file_to_disk E file_name size_in_sectors size_in_bytes file_address flag s =
    (if file_name = NULL then Inr (- EINVAL, s)
     else if bytes s file_name = 0 then Inr (- EINVAL, s)
     else do_write_file_to_disk (pathname_local_copy E) size_in_sectors size_in_bytes file_address flag
       (s\<lparr>bytes := copy_path E file_name (bytes s)\<rparr>))"

text \<open>Both calls save two sectors from a buffer on the stack.\<close>

definition sys_create_empty_file :: "file_env \<Rightarrow> addr \<Rightarrow> io_state \<Rightarrow> (int \<times> io_state) outcome option" where
  "sys_create_empty_file E file_name s =
    (if file_name = NULL then returns (- EINVAL, s)
     else if bytes s file_name = 0 then returns (- EINVAL, s)
     else Option.bind (fs_fntos file_name (bytes s)) (\<lambda>m.
       let buf = new_file_buffer E;
           s1 = s\<lparr>bytes := put_bytes buf (ascii ''This is a new file.'') (snd (memset buf 0 BUFSIZ m))\<rparr> in
       run_then (Some (fat16SaveFile VOLUME1_FAT_ADDRESS VOLUME1_ROOTDIR_ADDRESS (int FAT16_ROOT_ENTRIES) file_name 2 1024 buf 0x20 s1))
         (\<lambda>(r, s2). returns (if r < 0 then -1 else r, s2))))"

definition sys_create_empty_directory :: "file_env \<Rightarrow> addr \<Rightarrow> io_state \<Rightarrow> (int \<times> io_state) outcome option" where
  "sys_create_empty_directory E dir_name s =
    (if dir_name = NULL then returns (- EINVAL, s)
     else if bytes s dir_name = 0 then returns (- EINVAL, s)
     else Option.bind (fs_fntos dir_name (bytes s)) (\<lambda>m.
       let buf = new_file_buffer E; s1 = s\<lparr>bytes := snd (memset buf 0 BUFSIZ m)\<rparr> in
       run_then (Some (fat16SaveFile VOLUME1_FAT_ADDRESS VOLUME1_ROOTDIR_ADDRESS (int FAT16_ROOT_ENTRIES) dir_name 2 1024 buf 0x10 s1))
         (\<lambda>(r, s2). returns (if r < 0 then -1 else r, s2))))"

end
