(* ===== verification/File_Open.thy ===== *)
theory File_Open
  imports Name_Contract File_Calls Fat_Contract Descriptor_Table
begin

text \<open>
  What it means to open a file of the disk: the name of the path becomes the name of a directory entry, the buffer
  from the kernel heap receives the clusters of the file, and the descriptor leads to a log of its bytes.
\<close>

section \<open>Buffers from the heap\<close>

definition heap_bytes :: "addr set" where
  "heap_bytes = {a. 0x30100000 \<le> unat a \<and> unat a < 0x30200000}"

lemma heap_apart: "heap_bytes \<inter> (fat_area \<union> root_area) = {}"
proof -
  have "unat a < 0x80000" if "a \<in> fat_area \<union> root_area" for a
    using that area_range [of a VOLUME1_FAT_ADDRESS "0x20000"] area_range [of a VOLUME1_ROOTDIR_ADDRESS "0x4000"]
    by (auto simp: fat_area_def root_area_def fat_consts)
  then show ?thesis by (fastforce simp: heap_bytes_def)
qed

lemma kmalloc_place:
  assumes "kheap_inv k" "kmalloc n k = Inr (p, k')" "p \<noteq> NULL"
  shows "0x30100048 \<le> unat p" "unat p + unat n < 0x301D0048" "kheap_inv k'" "get_current_process_pointer k' = get_current_process_pointer k"
    "p_pid (tes k' q) = p_pid (tes k q)"
proof -
  let ?n = "ucast (if n = 0 then 1 else n) :: u64"
  obtain h where h: "heapAllocateMemory ?n (heap k) = Inr (p, h)"
    "k' = charge (get_current_process_pointer k) (scast (if n = 0 then 1 else n)) (k\<lparr>heap := h\<rparr>)"
    using kmalloc_Inr [OF assms(2)] assms(3) by auto
  from heapAllocateMemory_Inr [OF assms(1) h(1)] assms(3)
  have e: "p = g_heap_pointer (heap k) + sizeof_mmblock_d" and r: "user_size ?n < g_available_heap (heap k)" "g_heap_pointer (heap k) < KERNEL_HEAP_END"
    by auto
  have u: "unat p = unat (g_heap_pointer (heap k)) + 72" unfolding e by (rule new_userArea_unat [OF assms(1)])
  then show "0x30100048 \<le> unat p" using assms(1) by (simp add: heap_inv_def heap_const_unat)
  have nn: "unat n \<le> unat ?n" by simp
  have "unat n \<le> unat (user_size ?n)"
  proof (cases "?n = 0")
    case True
    with nn have "unat n \<le> 0" by (simp only: unat_0)
    then show ?thesis by simp
  next
    case False
    then show ?thesis using nn by (simp only: user_size_def if_False)
  qed
  moreover have "unat (g_heap_pointer (heap k)) + unat (user_size ?n) < 0x301D0000"
    using push_block_room(2) [OF assms(1) r] by (simp add: heap_const_unat)
  ultimately show "unat p + unat n < 0x301D0048" using u by simp
  show "kheap_inv k'" by (rule kernel_alloc.alloc_inv [OF assms(1,2)])
  show "get_current_process_pointer k' = get_current_process_pointer k" "p_pid (tes k' q) = p_pid (tes k q)"
    unfolding h(2) by (simp_all add: charge_def get_current_process_pointer_def get_current_process_def Let_def)
qed

lemma heap_buffer:
  assumes "0x30100048 \<le> unat b" "unat b < 0x301D0048" "n \<le> 17" "backbuffer_va s \<notin> heap_bytes"
  shows "area b (512 * n) \<subseteq> heap_bytes" "buffer_ok s b n"
proof -
  have r: "unat b \<le> unat a \<and> unat a < unat b + 512 * 17" if "a \<in> area b (512 * 17)" for a
    using that assms(2) by (intro area_range) simp_all
  have m: "area b (512 * n) \<subseteq> area b (512 * 17)" using assms(3) by (intro area_mono) simp
  have h: "a \<in> heap_bytes" if "a \<in> area b (512 * 17)" for a using r [OF that] assms(1,2) by (simp add: heap_bytes_def)
  then show sub: "area b (512 * n) \<subseteq> heap_bytes" using m by blast
  have "at_off b (512 * i) \<noteq> NULL \<and> check_address_validation s (at_off b (512 * i))" if "i < n" for i
  proof -
    have "at_off b (512 * i) \<in> heap_bytes" by (rule h, rule area_at) (use that assms(3) in simp)
    then show ?thesis using assms(4) by (auto simp: check_address_validation_def heap_bytes_def fat_consts)
  qed
  then show "buffer_ok s b n" using sub heap_apart assms(3) by (auto simp: buffer_ok_def)
qed

section \<open>States of the same volume\<close>

text \<open>Steps that change the files, the kernel state and bytes of the heap only, or read the directory again.\<close>

definition same_volume :: "io_state \<Rightarrow> io_state \<Rightarrow> bool" where
  "same_volume s t \<longleftrightarrow> (\<exists>k F m. t = s\<lparr>iks := k, files := F, bytes := m\<rparr>) \<and> (\<forall>x. x \<notin> heap_bytes \<longrightarrow> dir_view t x = dir_view s x)"

lemma same_volume_refl: "same_volume s s"
  unfolding same_volume_def by (intro conjI exI [where x = "iks s"] exI [where x = "files s"] exI [where x = "bytes s"]) auto

lemma same_volume_trans: "same_volume s t \<Longrightarrow> same_volume t u \<Longrightarrow> same_volume s u"
proof -
  assume "same_volume s t" "same_volume t u"
  then obtain k F m k' F' m' where t: "t = s\<lparr>iks := k, files := F, bytes := m\<rparr>" "\<forall>x. x \<notin> heap_bytes \<longrightarrow> dir_view t x = dir_view s x"
    and u: "u = t\<lparr>iks := k', files := F', bytes := m'\<rparr>" "\<forall>x. x \<notin> heap_bytes \<longrightarrow> dir_view u x = dir_view t x"
    unfolding same_volume_def by blast
  have "u = s\<lparr>iks := k', files := F', bytes := m'\<rparr>" unfolding u(1) t(1) by (cases s) simp
  with t(2) u(2) show "same_volume s u" unfolding same_volume_def by metis
qed

lemma volume_config [simp]:
  "volume (s\<lparr>iks := k\<rparr>) = volume s" "volume (s\<lparr>files := F\<rparr>) = volume s" "volume (s\<lparr>objects := ob\<rparr>) = volume s"
  by (simp_all add: volume_def boot_unit_def fun_eq_iff)

lemma dir_view_config [simp]:
  "dir_view (s\<lparr>iks := k\<rparr>) = dir_view s" "dir_view (s\<lparr>files := F\<rparr>) = dir_view s"
  by (simp_all add: dir_view_def)

lemma dir_view_idem: "dir_view (s\<lparr>bytes := dir_view s\<rparr>) = dir_view s"
  by (simp add: dir_view_def fun_eq_iff put_sectors_def)

lemma same_volume_step:
  assumes "\<And>x. x \<notin> heap_bytes \<Longrightarrow> dir_view (t\<lparr>iks := k, files := F, bytes := m\<rparr>) x = dir_view t x" "same_volume s t"
  shows "same_volume s (t\<lparr>iks := k, files := F, bytes := m\<rparr>)"
  by (rule same_volume_trans [OF assms(2)]) (use assms(1) in \<open>auto simp: same_volume_def\<close>)

lemma same_volume_iks: "same_volume s t \<Longrightarrow> same_volume s (t\<lparr>iks := k\<rparr>)"
  using same_volume_step [where t = t and k = k and F = "files t" and m = "bytes t" and s = s] by simp

lemma same_volume_files: "same_volume s t \<Longrightarrow> same_volume s (t\<lparr>files := F\<rparr>)"
  using same_volume_step [where t = t and k = "iks t" and F = F and m = "bytes t" and s = s] by simp

lemma same_volume_reread: "same_volume s t \<Longrightarrow> same_volume s (t\<lparr>bytes := dir_view t\<rparr>)"
  using same_volume_step [where t = t and k = "iks t" and F = "files t" and m = "dir_view t" and s = s] by (simp add: dir_view_idem)

lemma same_volume_bytes:
  assumes "same_volume s t" "\<And>x. x \<notin> heap_bytes \<Longrightarrow> m x = bytes t x"
  shows "same_volume s (t\<lparr>bytes := m\<rparr>)"
proof -
  have "dir_view (t\<lparr>bytes := m\<rparr>) x = dir_view t x" if "x \<notin> heap_bytes" for x
    using assms(2) [OF that] by (simp add: dir_view_def put_sectors_def)
  then show ?thesis using same_volume_step [where t = t and k = "iks t" and F = "files t" and m = m and s = s] assms(1) by simp
qed

lemma memset_outside: "x \<notin> area b (nat n) \<Longrightarrow> nat n < 2 ^ 64 \<Longrightarrow> snd (memset b v n m) x = m x"
  by (simp add: memset_def memset_loop_eq)

text \<open>The file of a name that is not tied to a place in memory.\<close>

definition on_volume :: "io_state \<Rightarrow> u8 list \<Rightarrow> nat \<Rightarrow> u16 list \<Rightarrow> u32 \<Rightarrow> bool" where
  "on_volume s xs i cs sz \<longleftrightarrow> first_slot (has_entry (dir_view s) xs) [0..<512] = Some i \<and>
     chain (fat_of (fat_view s)) (fst (snd (entry_words (dir_view s) i))) cs \<and> snd (snd (entry_words (dir_view s) i)) = sz \<and>
     (\<forall>x \<in> set cs. cluster_lba x < gNumberOfSectorsInBootDisk s)"

lemma stored_on_volume:
  assumes "name_at s name xs"
  shows "stored s name xs i cs sz \<longleftrightarrow> on_volume s xs i cs sz"
proof -
  have "dir_view s x = bytes s x" if "x \<in> area name 12" for x
    using assms that by (intro dir_view_outside) (auto simp: name_at_def)
  from find_entry_has [OF assms this] show ?thesis by (simp add: stored_def on_volume_def entry_words_def Let_def)
qed

lemma on_volume_cong:
  assumes "\<And>x. x \<in> root_area \<Longrightarrow> dir_view t x = dir_view s x" "\<And>x. x \<in> fat_area \<Longrightarrow> fat_view t x = fat_view s x"
    and "gNumberOfSectorsInBootDisk t = gNumberOfSectorsInBootDisk s" "length xs \<le> 11"
  shows "on_volume t xs i cs sz = on_volume s xs i cs sz"
proof -
  have "first_slot (has_entry (dir_view t) xs) [0..<512] = first_slot (has_entry (dir_view s) xs) [0..<512]"
    using entries_cong(2) [OF assms(1) _ assms(4)] by (intro first_slot_cong) simp
  moreover have "entry_words (dir_view t) i = entry_words (dir_view s) i" if "first_slot (has_entry (dir_view s) xs) [0..<512] = Some i"
    using first_slot_Some_sat [OF that] by (intro entries_cong(1) [OF assms(1)]) simp_all
  ultimately show ?thesis unfolding on_volume_def fat_of_cong [OF assms(2)] by (auto simp: assms(3) fat_of_cong [OF assms(2)])
qed

lemma on_volume_bytes:
  assumes "\<And>x. x \<in> fat_area \<union> root_area \<Longrightarrow> m x = bytes s x" "length xs \<le> 11"
  shows "on_volume (s\<lparr>bytes := m\<rparr>) xs i cs sz = on_volume s xs i cs sz"
proof (rule on_volume_cong)
  let ?t = "s\<lparr>bytes := m\<rparr>"
  have v: "volume ?t = volume s" by (simp add: volume_def boot_unit_def fun_eq_iff)
  have d: "dir_view ?t x = dir_view s x" if "x \<in> fat_area \<union> root_area" for x
    using assms(1) [OF that] by (simp add: dir_view_def put_sectors_def v)
  show "dir_view ?t x = dir_view s x" if "x \<in> root_area" for x using d that by blast
  show "fat_view ?t x = fat_view s x" if "x \<in> fat_area" for x using d that by (simp add: fat_view_def disk_fat_def put_sectors_def v)
qed (simp_all add: assms(2))

lemma same_volume_frame:
  assumes "same_volume s t"
  shows "mounted t = mounted s" "volume t = volume s" "backbuffer_va t = backbuffer_va s" "ide_sectors t = ide_sectors s"
    "objects t = objects s" "length xs \<le> 11 \<Longrightarrow> on_volume t xs i cs sz = on_volume s xs i cs sz"
    "area name 12 \<inter> heap_bytes = {} \<Longrightarrow> name_at t name xs = name_at s name xs"
    "\<And>x. x \<notin> heap_bytes \<Longrightarrow> x \<notin> root_area \<Longrightarrow> bytes t x = bytes s x" "sdGRAMADO t = sdGRAMADO s" "current_user t = current_user s"
    "current_group t = current_group s" "ahci_sectors t = ahci_sectors s"
proof -
  obtain k F m where t: "t = s\<lparr>iks := k, files := F, bytes := m\<rparr>" and d: "\<forall>x. x \<notin> heap_bytes \<longrightarrow> dir_view t x = dir_view s x"
    using assms unfolding same_volume_def by blast
  show "mounted t = mounted s" "backbuffer_va t = backbuffer_va s" "ide_sectors t = ide_sectors s"
    "objects t = objects s" "sdGRAMADO t = sdGRAMADO s" "current_user t = current_user s" "current_group t = current_group s"
    "ahci_sectors t = ahci_sectors s"
    by (simp_all add: t mounted_def ide_boot_def root_ok_def boot_unit_def)
  show v: "volume t = volume s" by (simp add: t)
  have r: "dir_view t x = dir_view s x" if "x \<in> root_area" for x using d heap_apart that by blast
  have f: "fat_view t x = fat_view s x" if "x \<in> fat_area" for x
  proof -
    have "dir_view t x = dir_view s x" using d heap_apart that by blast
    then show ?thesis by (simp add: fat_view_def disk_fat_def put_sectors_def v t)
  qed
  show "length xs \<le> 11 \<Longrightarrow> on_volume t xs i cs sz = on_volume s xs i cs sz"
    by (rule on_volume_cong [OF r f]) (simp_all add: t)
  show b: "bytes t x = bytes s x" if "x \<notin> heap_bytes" "x \<notin> root_area" for x
    using d dir_view_outside [OF that(2)] that(1) by metis
  show "name_at t name xs = name_at s name xs" if n: "area name 12 \<inter> heap_bytes = {}"
  proof (cases "area name 12 \<inter> root_area = {} \<and> length xs \<le> 11")
    case True
    have "area name (Suc (length xs)) \<subseteq> area name 12" using True by (intro area_mono) simp
    then have "bytes t x = bytes s x" if "x \<in> area name (Suc (length xs))" for x using b n True that by blast
    from cstr_cong [OF this] show ?thesis by (simp add: name_at_def)
  qed (auto simp: name_at_def)
qed

section \<open>Finding and opening\<close>

lemma search_in_dir_found:
  assumes "cstr m name xs" "length xs = 11" "hd xs \<notin> {0xE5, 0x2E, 0x2F}" "name \<noteq> NULL"
    and "first_slot (has_entry m xs) [0..<512] = Some i"
  shows "search_in_dir name VOLUME1_ROOTDIR_ADDRESS m = Some True"
proof -
  let ?P = "\<lambda>i. let e = dir_slot VOLUME1_ROOTDIR_ADDRESS i in m e \<noteq> 0xE5 \<and> m e \<noteq> 0x2E \<and> m e \<noteq> 0 \<and>
    strncmp_bytes (xs @ [0]) (read_bytes m e 11 @ [0]) 11 = 0"
  obtain y ys where xs: "xs = y # ys" using assms(2) by (cases xs) auto
  have y: "m name = y" "y \<noteq> 0" "y \<notin> {0xE5, 0x2E, 0x2F}" using assms(1,3) by (simp_all add: xs cstr_Cons)
  have i: "has_entry m xs i" "i \<in> set [0..<512]" using first_slot_Some_sat [OF assms(5)] by blast+
  then have e: "read_bytes m (dir_slot VOLUME1_ROOTDIR_ADDRESS i) 11 = xs" using assms(2) by (simp add: has_entry_def)
  then have "m (dir_slot VOLUME1_ROOTDIR_ADDRESS i) = y" using read_bytes_nth [of 0 11 m "dir_slot VOLUME1_ROOTDIR_ADDRESS i"] by (simp add: xs)
  then have "?P i" using y e assms(2) by (simp add: strncmp_bytes_0_iff nth_append)
  then have "first_slot ?P [0..<512] \<noteq> None" using i(2) by (auto simp: first_slot_None_iff simp del: atLeastLessThan_upt set_upt)
  moreover have "read_bytes m name 11 = xs" using assms(1,2) by (auto simp: cstr_def intro!: nth_equalityI)
  ultimately show ?thesis
    using strlen_cstr [OF assms(1)] assms(2,4) y by (simp add: search_in_dir_def search_in_dir_imp_def Let_def fat_consts)
qed

text \<open>The allocations of a call: the structure, the standard buffer and, for a file that fills it, another buffer.\<close>

definition open_requests :: "u32 \<Rightarrow> u32 list" where
  "open_requests sz = [336, 1024] @ (if unat sz < 1024 then [] else [sz + 8])"

definition opened_file :: "addr \<Rightarrow> int \<Rightarrow> u32 \<Rightarrow> addr \<Rightarrow> io_state \<Rightarrow> file_d" where
  "opened_file p slot sz b s = (let n = (if unat sz < 1024 then 1024 else int (unat sz) + 8) in
     (open_file p slot s)\<lparr>f_fsize := int (unat sz), f_base := b, f_p := b, f_lbfsize := n, f_cnt := n - int (unat sz), f_r := 0,
       f_w := int (unat sz), f_flags := SRD\<rparr>)"

definition file_bytes :: "io_state \<Rightarrow> u16 list \<Rightarrow> u8 list" where
  "file_bytes s cs = concat (map (\<lambda>t. sector_bytes (file_sectors s cs t)) [0..<length cs])"

lemma size_words:
  assumes "unat (sz :: u32) \<le> 8192"
  shows "sint (ucast (ucast sz :: u64) :: u32) = int (unat sz)" "word_of_int (int (unat sz) + 8) = sz + 8"
    "unat (sz + 8) = unat sz + 8" "(word_of_int (int (unat sz) + 8) :: u64) = ucast sz + 8" "unat (ucast sz + 8 :: u64) = unat sz + 8"
proof -
  have "(ucast (ucast sz :: u64) :: u32) = sz" by (rule bit_word_eqI) (simp add: bit_simps)
  moreover have "sint sz = uint sz"
  proof -
    have "int (unat sz) \<le> 8192" using assms by linarith
    then have u: "uint sz \<le> 8192" "0 \<le> uint sz" by simp_all
    have e: "LENGTH(32) - Suc 0 = 31" by simp
    have "- (2 ^ 31) \<le> uint sz" by (rule order_trans [OF _ u(2)]) simp
    moreover have "uint sz < 2 ^ 31" by (rule order_le_less_trans [OF u(1)]) simp
    ultimately show ?thesis unfolding sint_uint e by (rule signed_take_bit_int_eq_self)
  qed
  ultimately show "sint (ucast (ucast sz :: u64) :: u32) = int (unat sz)" by simp
  show "word_of_int (int (unat sz) + 8) = sz + 8" by simp
  show "unat (sz + 8) = unat sz + 8" using assms by (simp add: unat_plus_if')
  show "(word_of_int (int (unat sz) + 8) :: u64) = ucast sz + 8" by (simp add: unsigned_ucast_eq)
  show "unat (ucast sz + 8 :: u64) = unat sz + 8" using assms by (subst unat_plus_exact) simp_all
qed


lemma low_32_bits: "unat (n :: u64) < 2 ^ 32 \<Longrightarrow> n AND 0xFFFFFFFF = n"
proof -
  assume n: "unat n < 2 ^ 32"
  have "n AND mask 32 = take_bit 32 n" by (simp add: take_bit_eq_mask)
  also have "\<dots> = n" by (rule word_unat_eq_iff [THEN iffD2]) (use n in \<open>simp add: unsigned_take_bit_eq take_bit_nat_eq_self\<close>)
  finally show ?thesis by (simp add: mask_eq_exp_minus_1)
qed

lemma files_frame:
  "mounted (t\<lparr>files := F\<rparr>) = mounted t" "name_at (t\<lparr>files := F\<rparr>) name xs = name_at t name xs" "fat_view (t\<lparr>files := F\<rparr>) = fat_view t"
  "stored (t\<lparr>files := F\<rparr>) name xs i cs sz = stored t name xs i cs sz" "buffer_ok (t\<lparr>files := F\<rparr>) b k = buffer_ok t b k"
proof -
  show "mounted (t\<lparr>files := F\<rparr>) = mounted t" by (simp add: mounted_def ide_boot_def boot_unit_def root_ok_def)
  show "name_at (t\<lparr>files := F\<rparr>) name xs = name_at t name xs" by (simp add: name_at_def)
  show v: "fat_view (t\<lparr>files := F\<rparr>) = fat_view t" by (simp add: fat_view_def disk_fat_def)
  show "stored (t\<lparr>files := F\<rparr>) name xs i cs sz = stored t name xs i cs sz" by (simp add: stored_def v)
  show "buffer_ok (t\<lparr>files := F\<rparr>) b k = buffer_ok t b k" by (simp add: buffer_ok_def check_address_validation_def)
qed

lemma open_load_result:
  assumes "mounted t" "name_at t name xs" "stored t name xs i cs sz" "buffer_ok t (f_base X) (length cs)" "files t fp = X" "f_base X \<noteq> NULL"
    and "f_fsize X = int n" "f_lbfsize X = int N" "unat sz = n" "n < N" "N \<le> 8200"
  shows "\<exists>s'. open_load p slot fp name VOLUME1_ROOTDIR_ADDRESS t = returns (fp, s') \<and>
    files s' fp = X\<lparr>f_p := f_base X, f_cnt := int N - int n, f_r := 0, f_w := int n, f_flags := f_flags X OR SRD\<rparr> \<and>
    objects s' = (objects t)(p := (objects t p)(nat slot := fp)) \<and>
    read_bytes (bytes s') (f_base X) (512 * length cs) = file_bytes t cs \<and> ide_sectors s' = ide_sectors t \<and>
    ahci_sectors s' = ahci_sectors t \<and> iks s' = iks t"
proof -
  let ?Y = "X\<lparr>f_p := f_base X, f_cnt := int N - int n, f_r := 0, f_w := int n\<rparr>"
  let ?u = "t\<lparr>files := (files t)(fp := ?Y)\<rparr>"
  let ?N64 = "word_of_int (int N) :: u64"
  have n: "unat ?N64 = N" "?N64 AND 0xFFFFFFFF = ?N64"
  proof -
    show "unat ?N64 = N" using assms(11) by (simp add: unat_of_nat)
    then show "?N64 AND 0xFFFFFFFF = ?N64" using assms(11) by (intro low_32_bits) simp
  qed
  have su: "unat (ucast sz :: u64) = unat sz" by simp
  have fits: "size_fits sz ?N64"
    unfolding size_fits_def n(2) using assms(9-11) n(1) su by (simp only: unat_less_iff unat_le_iff) simp
  have u: "mounted ?u" "name_at ?u name xs" "stored ?u name xs i cs sz" "buffer_ok ?u (f_base X) (length cs)"
    using assms(1-4) by (simp_all only: files_frame)
  let ?w = "?u\<lparr>bytes := put_sectors (length cs) (f_base X) (file_sectors ?u cs) (fat_view ?u), g_fat_cache_loaded := True\<rparr>"
  have l: "load_file name (f_base X) ?N64 ?u = returns (0, ?w)" by (rule load_file_result [OF u(1-3) fits u(4)])
  let ?w' = "set_object p slot fp (upd_file fp (\<lambda>x. x\<lparr>f_cnt := f_lbfsize x - f_fsize x, f_r := 0, f_w := f_fsize x, f_flags := f_flags x OR SRD\<rparr>) ?w)"
  have "open_load p slot fp name VOLUME1_ROOTDIR_ADDRESS t = returns (fp, ?w')"
    using assms(5-10) l by (simp add: open_load_def Let_def)
  moreover have "read_bytes (bytes ?w') (f_base X) (512 * length cs) = file_bytes t cs"
  proof -
    have "512 * length cs \<le> 2 ^ 64" using buffer_ok_area [OF assms(4)] by simp
    from put_sectors_bytes [OF this] show ?thesis by (simp add: file_bytes_def file_sectors_def)
  qed
  ultimately show ?thesis using assms(7,8) by (intro exI [where x = ?w']) simp
qed

text \<open>The steps of a call that opens a stored file.\<close>

lemma open_found_result:
  assumes "mounted s" "name_at s name xs" "area name 12 \<inter> heap_bytes = {}" "stored s name xs i cs sz"
    and "0 < unat sz" "unat sz \<le> 8192" "length cs \<le> 17" "backbuffer_va s \<notin> heap_bytes" "kheap_inv (iks s)"
    and "get_current_process_pointer (iks s) = p" "p \<noteq> NULL" "first_slot (\<lambda>i. objects s p i = NULL) [0..<nat OPEN_MAX] = Some slot"
    and "alloc_all kmalloc (open_requests sz) (iks s) = Inr (ps, k)" "NULL \<notin> set ps"
  shows "\<exists>s'. open_found name VOLUME1_ROOTDIR_ADDRESS s = returns (hd ps, s') \<and>
    files s' (hd ps) = opened_file p (int slot) sz (last ps) s \<and> objects s' = (objects s)(p := (objects s p)(slot := hd ps)) \<and>
    read_bytes (bytes s') (last ps) (512 * length cs) = file_bytes s cs \<and> ide_sectors s' = ide_sectors s \<and>
    ahci_sectors s' = ahci_sectors s \<and> iks s' = k"
proof -
  obtain n where n: "unat sz = n" by blast
  obtain fp k1 b0 k2 where K: "kmalloc 336 (iks s) = Inr (fp, k1)" "kmalloc 1024 k1 = Inr (b0, k2)" "fp \<noteq> NULL" "b0 \<noteq> NULL" "hd ps = fp"
    and r: "(if n < 1024 then ps = [fp, b0] \<and> k = k2 else \<exists>b. kmalloc (sz + 8) k2 = Inr (b, k) \<and> b \<noteq> NULL \<and> ps = [fp, b0, b])"
    using assms(13,14) by (auto simp: open_requests_def n elim!: and_then_InrE split: if_splits)
  note k1 = kmalloc_place [OF assms(9) K(1,3)]
  note k2 = kmalloc_place [OF k1(3) K(2,4)]
  let ?f = "open_file p (int slot) s"
  let ?s1 = "s\<lparr>iks := k1\<rparr>"
  let ?s2 = "?s1\<lparr>files := (files s)(fp := ?f)\<rparr>"
  let ?s4 = "?s1\<lparr>iks := k2, files := (files s)(fp := ?f\<lparr>f_base := b0\<rparr>)\<rparr>"
  let ?m4 = "snd (memset b0 0 BUFSIZ (bytes s))"
  let ?s5 = "?s4\<lparr>bytes := ?m4\<rparr>"
  have of: "open_file p (int slot) ?s1 = ?f" by (simp add: open_file_def k1(5))
  have b: "BUFSIZ = 1024" "f_lbfsize (?f\<lparr>f_base := b0, f_fsize := n\<rparr>) = 1024" "sizeof_file = 336" for n
    by (simp_all add: open_file_def io_consts sizeof_file_def)
  have ub: "0x30100048 \<le> unat b0" "unat b0 < 0x301D0048" "unat b0 + 1024 < 0x301D0048" using k2(1,2) by simp_all
  have m4: "?m4 x = bytes s x" if "x \<notin> heap_bytes" for x
  proof -
    have "area b0 (512 * 2) \<subseteq> heap_bytes" using ub assms(8) by (intro heap_buffer(1)) simp_all
    then show ?thesis using that by (intro memset_outside) (auto simp: b(1))
  qed
  have v5: "same_volume s ?s5"
    by (intro same_volume_bytes same_volume_iks same_volume_files same_volume_refl) (use m4 in simp)
  have L: "length xs \<le> 11" using assms(2) by (simp add: name_at_def)
  have on: "on_volume s xs i cs sz" using assms(4) unfolding stored_on_volume [OF assms(2)] .
  note fr = same_volume_frame [OF v5]
  have n5: "name_at ?s5 name xs" using fr(7) [OF assms(3)] assms(2) by simp
  have st5: "stored ?s5 name xs i cs sz" unfolding stored_on_volume [OF n5] fr(6) [OF L] by (rule on)
  have md5: "ide_boot ?s5" "591 \<le> gNumberOfSectorsInBootDisk ?s5" "root_ok ?s5" using assms(1) fr(1) unfolding mounted_def by blast+
  have sz5: "fsGetFileSize name VOLUME1_ROOTDIR_ADDRESS ?s5 = returns (ucast sz, ?s5\<lparr>bytes := dir_view ?s5\<rparr>)"
    using file_size_result [OF md5 n5] st5 unfolding stored_def by simp
  let ?s6 = "?s5\<lparr>bytes := dir_view ?s5\<rparr>"
  have v6: "same_volume s ?s6" by (rule same_volume_reread [OF v5])
  let ?s7 = "upd_file fp (\<lambda>x. x\<lparr>f_fsize := int n\<rparr>) ?s6"
  have v7: "same_volume s ?s7" by (rule same_volume_files [OF v6])
  let ?N = "if n < 1024 then 1024 else n + 8" and ?b = "last ps"
  have "\<exists>s8. open_buffer fp (int n) ?s7 = Inr (True, s8) \<and> same_volume s s8 \<and> 0x30100048 \<le> unat ?b \<and> unat ?b < 0x301D0048 \<and>
      files s8 fp = ?f\<lparr>f_base := ?b, f_fsize := int n, f_lbfsize := int ?N\<rparr> \<and> iks s8 = k"
  proof (cases "n < 1024")
    case True
    then have "open_buffer fp (int n) ?s7 = Inr (True, ?s7)" by (simp add: open_buffer_def b(2))
    then show ?thesis using v7 ub True r by (intro exI [where x = ?s7]) (simp add: open_file_def io_consts)
  next
    case False
    then obtain b1 where b1: "kmalloc (sz + 8) k2 = Inr (b1, k)" "b1 \<noteq> NULL" "?b = b1" using r by auto
    note k3 = kmalloc_place [OF k2(3) b1(1,2)]
    let ?n = "int n + 8"
    let ?s8 = "?s7\<lparr>iks := k, files := (files ?s7)(fp := ?f\<lparr>f_fsize := int n, f_base := b1, f_lbfsize := ?n\<rparr>)\<rparr>"
    let ?m8 = "snd (memset b1 0 ?n (bytes ?s7))"
    note w = size_words [OF assms(6), unfolded n]
    define S8 where "S8 = ?s8\<lparr>bytes := ?m8\<rparr>"
    have "io_kmalloc (word_of_int ?n) ?s7 = Inr (b1, ?s7\<lparr>iks := k\<rparr>)" unfolding w(2) by (simp add: io_kmalloc_def b1(1))
    then have ob: "open_buffer fp (int n) ?s7 = Inr (True, S8)"
      using False assms(6) [unfolded n] b1(2) by (simp add: open_buffer_def b(2) Let_def S8_def)
    have "?m8 x = bytes ?s7 x" if "x \<notin> heap_bytes" for x
    proof -
      have "area b1 (nat ?n) \<subseteq> area b1 (512 * 17)" using assms(6) n by (intro area_mono) simp
      moreover have "area b1 (512 * 17) \<subseteq> heap_bytes" using k3(1,2) assms(8) by (intro heap_buffer(1)) simp_all
      ultimately show ?thesis using that assms(6) n by (intro memset_outside) auto
    qed
    then have sv: "same_volume s S8"
      unfolding S8_def by (intro same_volume_bytes same_volume_files same_volume_iks v7) simp
    have "files S8 fp = ?f\<lparr>f_fsize := int n, f_base := b1, f_lbfsize := ?n\<rparr>" by (simp add: S8_def)
    also have "\<dots> = ?f\<lparr>f_base := ?b, f_fsize := int n, f_lbfsize := int ?N\<rparr>"
      using False by (simp add: open_file_def zero_file_def b1(3))
    finally have fl: "files S8 fp = ?f\<lparr>f_base := ?b, f_fsize := int n, f_lbfsize := int ?N\<rparr>" .
    have "unat ?b < 0x301D0048" "0x30100048 \<le> unat ?b" using k3(1,2) b1(3) by simp_all
    moreover have "iks S8 = k" by (simp add: S8_def)
    ultimately show ?thesis using ob sv fl by blast
  qed
  then obtain s8 where s8: "open_buffer fp (int n) ?s7 = Inr (True, s8)" "same_volume s s8" "0x30100048 \<le> unat ?b" "unat ?b < 0x301D0048"
    and X: "files s8 fp = ?f\<lparr>f_base := ?b, f_fsize := int n, f_lbfsize := int ?N\<rparr>" (is "_ = ?X") and k8: "iks s8 = k" by blast
  note f8 = same_volume_frame [OF s8(2)]
  have n8: "name_at s8 name xs" using f8(7) [OF assms(3)] assms(2) by simp
  have st8: "stored s8 name xs i cs sz" unfolding stored_on_volume [OF n8] f8(6) [OF L] by (rule on)
  have bb: "?b \<noteq> NULL" using s8(3) by auto
  have "buffer_ok s8 ?b (length cs)" by (rule heap_buffer(2) [OF s8(3,4) assms(7)]) (use f8(3) assms(8) in simp)
  then have B: "buffer_ok s8 (f_base ?X) (length cs)" "f_base ?X \<noteq> NULL" "f_fsize ?X = int n" "f_lbfsize ?X = int ?N" using bb by simp_all
  have N: "n < ?N" "?N \<le> 8200" using assms(6) n by auto
  have m8: "mounted s8" using f8(1) assms(1) by simp
  obtain s' where s': "open_load p (int slot) fp name VOLUME1_ROOTDIR_ADDRESS s8 = returns (fp, s')"
    "files s' fp = ?X\<lparr>f_p := f_base ?X, f_cnt := int ?N - int n, f_r := 0, f_w := int n, f_flags := f_flags ?X OR SRD\<rparr>"
    "objects s' = (objects s8)(p := (objects s8 p)(nat (int slot) := fp))"
    "read_bytes (bytes s') (f_base ?X) (512 * length cs) = file_bytes s8 cs" "ide_sectors s' = ide_sectors s8"
    "ahci_sectors s' = ahci_sectors s8" "iks s' = iks s8"
    using open_load_result [OF m8 n8 st8 B(1) X B(2-4) n N] by blast
  have fb: "file_bytes s8 cs = file_bytes s cs" by (simp add: file_bytes_def file_sectors_def f8(2))
  have "open_found name VOLUME1_ROOTDIR_ADDRESS s = returns (fp, s')"
  proof -
    have 1: "io_kmalloc sizeof_file s = Inr (fp, ?s1)" unfolding b(3) by (simp add: io_kmalloc_def K(1))
    have e2: "upd_file fp (\<lambda>_. open_file p (int slot) ?s1) ?s1 = ?s2" unfolding of by simp
    have "io_kmalloc (word_of_int BUFSIZ) ?s2 = Inr (b0, ?s2\<lparr>iks := k2\<rparr>)" unfolding b(1) by (simp add: io_kmalloc_def K(2))
    moreover have e4: "upd_file fp (\<lambda>x. x\<lparr>f_base := b0\<rparr>) (?s2\<lparr>iks := k2\<rparr>) = ?s4" by simp
    have e5: "bytes ?s4 = bytes s" by simp
    note sz = size_words(1) [OF assms(6), unfolded n]
    have n0: "\<not> int n \<le> 0" using assms(5) n by simp
    ultimately show ?thesis
      using assms(10-12) K(3,4) sz5 s8(1) s'(1)
      unfolding open_found_def Let_def
      by (simp only: 1 run_then_simps prod.case option.case if_False if_True simp_thms e2 e4 e5 sz n0)
  qed
  moreover have "files s' fp = opened_file p (int slot) sz ?b s"
    unfolding s'(2) opened_file_def n by (simp add: open_file_def zero_file_def Let_def)
  ultimately show ?thesis using s'(3-7) fb f8(4,5,12) k8 K(5) by (intro exI [where x = s']) simp
qed

section \<open>The path\<close>

lemma fill_zero_eq: "fill_zero n a m x = (if x \<in> area a n then 0 else m x)"
  by (induction n arbitrary: a m) (auto simp: area_Suc)

lemma strncpy_loop_result:
  assumes "cstr m src xs" "length xs < n" "n < 2 ^ 63" "area dst n \<inter> area src (Suc (length xs)) = {}"
  shows "cstr (strncpy_loop n dst src m) dst xs" "x \<notin> area dst n \<Longrightarrow> strncpy_loop n dst src m x = m x"
proof -
  have "cstr (strncpy_loop n dst src m) dst xs \<and> (\<forall>x. x \<notin> area dst n \<longrightarrow> strncpy_loop n dst src m x = m x)"
    using assms
  proof (induction n arbitrary: dst src m xs)
    case (Suc n)
    show ?case
    proof (cases xs)
      case Nil
      then show ?thesis using Suc.prems(1) fill_zero_eq [of "Suc n" dst m] by (auto simp: area_Suc simp del: fill_zero.simps)
    next
      case (Cons c ys)
      let ?m = "m(dst := c)"
      have c: "m src = c" "c \<noteq> 0" "cstr m (src + 1) ys" using Suc.prems(1) Cons by (auto simp: cstr_Cons)
      have dis: "area (dst + 1) n \<inter> area (src + 1) (Suc (length ys)) = {}" "dst \<notin> area (src + 1) (Suc (length ys))"
        using Suc.prems(4) Cons unfolding area_Suc [of dst] area_Suc [of src "length xs"] by auto
      have "cstr ?m (src + 1) ys" using c(3) dis(2) by (subst cstr_upd_outside)
      then have IH: "cstr (strncpy_loop n (dst + 1) (src + 1) ?m) (dst + 1) ys \<and>
          (\<forall>x. x \<notin> area (dst + 1) n \<longrightarrow> strncpy_loop n (dst + 1) (src + 1) ?m x = ?m x)"
        using Suc.prems(2,3) Cons dis(1) by (intro Suc.IH) (auto simp del: fun_upd_apply)
      have e: "strncpy_loop (Suc n) dst src m = strncpy_loop n (dst + 1) (src + 1) ?m" using c(1,2) by simp
      have "dst \<notin> area (dst + 1) n" using Suc.prems(3) by (intro not_in_tail) simp
      then show ?thesis unfolding e Cons cstr_Cons using IH c(2) by (simp add: area_Suc)
    qed
  qed simp
  then show "cstr (strncpy_loop n dst src m) dst xs" "x \<notin> area dst n \<Longrightarrow> strncpy_loop n dst src m x = m x" by blast+
qed

lemma copied_path:
  assumes "cstr m path xs" "length xs < 254" "a = pathname_local_copy E" "a \<noteq> NULL" "area a 256 \<inter> area path (Suc (length xs)) = {}"
    and "m' = (copy_path E path m)(at_off a 254 := 0)"
  shows "cstr m' a xs" "x \<notin> area a 256 \<Longrightarrow> m' x = m x"
proof -
  let ?m = "snd (memset a 0 256 m)"
  have z: "?m x = m x" if "x \<notin> area a 256" for x using memset_outside [of x a 256 0 m] that by simp
  have "cstr ?m path xs" using cstr_cong [of path xs ?m m] z assms(1,5) by blast
  note s = strncpy_loop_result [OF this, of 256 a, folded assms(5)]
  have c: "copy_path E path m = strncpy_loop 256 a path ?m" by (simp add: copy_path_def strncpy_def assms(3))
  have e: "at_off a 254 \<notin> area a (Suc (length xs))" using assms(2) by (intro at_off_above_area) simp_all
  show "cstr m' a xs" unfolding assms(6) c using s(1) assms(2,5) e by (subst cstr_upd_outside) simp_all
  show "m' x = m x" if "x \<notin> area a 256"
  proof -
    have "x \<noteq> at_off a 254" using that area_at [of 254 256 a] by auto
    then show ?thesis unfolding assms(6) c using s(2) [OF _ _ _ that] assms(2,5) z [OF that] by simp
  qed
qed

text \<open>A relative path of a base and an optional extension.\<close>

definition file_path :: "u8 list \<Rightarrow> u8 list \<Rightarrow> bool" where
  "file_path b r \<longleftrightarrow> b \<noteq> [] \<and> length b \<le> 8 \<and> 0x2E \<notin> set b \<and> hd b \<notin> {0x2F, 0x40, 0x23, 0xE5} \<and> (r = [] \<or> hd r = 0x2E) \<and> length r < 200"

abbreviation disk_name :: "u8 list \<Rightarrow> u8 list \<Rightarrow> u8 list" where
  "disk_name b r \<equiv> dir_name [0x20, 0x20, 0x20] b r"

lemma upper_cases: "upper c \<noteq> c \<Longrightarrow> 0x41 \<le> upper c \<and> upper c \<le> 0x5A"
proof -
  assume "upper c \<noteq> c"
  then have l: "is_lower c" by (auto simp: upper_def split: if_splits)
  then have "unat c \<le> 0x7A" "0x61 \<le> unat c" using is_lower_cases by blast+
  moreover have "unat (c - 0x20) = unat c - 0x20" using is_lower_cases [OF l] by (simp add: unat_sub_if')
  ultimately have "65 \<le> unat (c - 0x20)" "unat (c - 0x20) \<le> 90" by linarith+
  then show ?thesis using l by (simp add: upper_def word_le_nat_alt)
qed

lemma disk_name_start:
  assumes "file_path b r"
  shows "hd (disk_name b r) \<notin> {0xE5, 0x2E, 0x2F}" "length (disk_name b r) = 11"
proof -
  obtain c b' where b: "b = c # b'" using assms by (cases b) (auto simp: file_path_def)
  have c: "c \<notin> {0x2F, 0xE5, 0x2E}" using assms by (auto simp: file_path_def b)
  have "upper c \<notin> {0xE5, 0x2E, 0x2F}" using upper_cases [of c] c by (cases "upper c = c") auto
  then show "hd (disk_name b r) \<notin> {0xE5, 0x2E, 0x2F}" by (simp add: dir_name_def b)
  show "length (disk_name b r) = 11" using assms by (intro dir_name_length) (simp_all add: file_path_def)
qed

lemma not_literal: "m a \<noteq> 0x2F \<Longrightarrow> \<not> is_literal m a (CHR ''/'' # str)"
  by (simp add: is_literal_def ascii_def File_Buffer.read_bytes_Suc del: of_char_of)

section \<open>The call\<close>

text \<open>
  A working volume whose root directory is in memory as on the disk, a well-formed heap, a relative path that is not
  on the stack, and devices whose mount points are absolute paths.
\<close>

definition can_open :: "file_env \<Rightarrow> addr \<Rightarrow> u8 list \<Rightarrow> u8 list \<Rightarrow> io_state \<Rightarrow> bool" where
  "can_open E path b r s \<longleftrightarrow> mounted s \<and> dir_view s = bytes s \<and> backbuffer_va s \<notin> heap_bytes \<and> kheap_inv (iks s) \<and>
     pathname_local_copy E \<noteq> NULL \<and> area (pathname_local_copy E) 256 \<inter> (fat_area \<union> root_area \<union> heap_bytes) = {} \<and>
     path \<noteq> NULL \<and> cstr (bytes s) path (b @ r) \<and> area (pathname_local_copy E) 256 \<inter> area path (Suc (length (b @ r))) = {} \<and> file_path b r \<and>
     (\<forall>i < DEVICE_LIST_MAX. let d = deviceList s i; a = d_mount_point (devices s d) in
        d \<noteq> NULL \<and> a \<noteq> NULL \<longrightarrow> a \<notin> area (pathname_local_copy E) 256 \<and> bytes s a = 0x2F)"

lemma no_device:
  assumes "cstr (bytes t) a xs" "xs \<noteq> []" "hd xs \<noteq> 0x2F" "a \<noteq> NULL"
    and "\<forall>i < DEVICE_LIST_MAX. let d = deviceList t i; a = d_mount_point (devices t d) in d \<noteq> NULL \<and> a \<noteq> NULL \<longrightarrow> bytes t a = 0x2F"
  shows "devmgr_search_in_dev_list a t = Some NULL"
proof -
  obtain y ys where xs: "xs = y # ys" using assms(2) by (cases xs) auto
  have y: "bytes t a = y" "y \<noteq> 0x2F" using assms(1,3) by (auto simp: xs cstr_Cons)
  let ?P = "\<lambda>i. let d = deviceList t i in d \<noteq> NULL \<and> d_magic (devices t d) = 1234 \<and> d_mount_point (devices t d) \<noteq> NULL \<and>
    gramado_strncmp (bytes t) (d_mount_point (devices t d)) a (int (length xs)) = 0"
  have "\<not> ?P i" if i: "i < DEVICE_LIST_MAX" for i
  proof
    assume p: "?P i"
    then have m: "bytes t (d_mount_point (devices t (deviceList t i))) = 0x2F" using assms(5) i by (auto simp: Let_def)
    have g: "gramado_strncmp (bytes t) (d_mount_point (devices t (deviceList t i))) a (int (length xs)) = 0" using p by (simp add: Let_def)
    have n: "nat (int (length xs)) = Suc (length ys)" by (simp add: xs)
    show False using g y m unfolding gramado_strncmp_def n by (simp split: if_split_asm)
  qed
  then have "first_slot ?P [0..<DEVICE_LIST_MAX] = None" by (simp add: first_slot_None_iff)
  then show ?thesis using strlen_cstr [OF assms(1)] assms(4) by (simp add: devmgr_search_in_dev_list_def)
qed

lemma current_process_found:
  assumes "get_current_process_pointer k \<noteq> NULL"
  shows "0 \<le> get_current_process 0 k" "get_current_process 0 k < int PROCESS_COUNT_MAX"
    "teList k (nat (get_current_process 0 k)) = get_current_process_pointer k"
    "p_used (tes k (get_current_process_pointer k))" "p_magic (tes k (get_current_process_pointer k)) = 1234"
  using assms by (auto simp: get_current_process_pointer_def Let_def split: if_split_asm)

lemma open_imp_result:
  assumes c: "can_open E path b r s" and on: "on_volume s (disk_name b r) i cs sz"
    and sz: "0 < unat sz" "unat sz \<le> 8192" "length cs \<le> 17"
    and p: "get_current_process_pointer (iks s) = p" "p \<noteq> NULL" "first_slot (\<lambda>i. objects s p i = NULL) [0..<nat OPEN_MAX] = Some slot"
    and k: "alloc_all kmalloc (open_requests sz) (iks s) = Inr (ps, k)" "NULL \<notin> set ps"
  shows "\<exists>s'. open_imp E path flags s = returns (int slot, s') \<and>
    files s' (hd ps) = opened_file p (int slot) sz (last ps) s \<and> objects s' = (objects s)(p := (objects s p)(slot := hd ps)) \<and>
    read_bytes (bytes s') (last ps) (512 * length cs) = file_bytes s cs \<and> ide_sectors s' = ide_sectors s \<and>
    ahci_sectors s' = ahci_sectors s \<and> iks s' = k"
proof -
  let ?a = "pathname_local_copy E"
  let ?m = "(copy_path E path (bytes s))(at_off ?a 254 := 0)" and ?xs = "disk_name b r"
  let ?s1 = "s\<lparr>bytes := ?m\<rparr>"
  have C: "mounted s" "dir_view s = bytes s" "backbuffer_va s \<notin> heap_bytes" "kheap_inv (iks s)" "?a \<noteq> NULL"
    "area ?a 256 \<inter> (fat_area \<union> root_area \<union> heap_bytes) = {}" "path \<noteq> NULL" "cstr (bytes s) path (b @ r)"
    "area ?a 256 \<inter> area path (Suc (length (b @ r))) = {}" "file_path b r"
    "\<forall>i < DEVICE_LIST_MAX. let d = deviceList s i; a = d_mount_point (devices s d) in
        d \<noteq> NULL \<and> a \<noteq> NULL \<longrightarrow> a \<notin> area ?a 256 \<and> bytes s a = 0x2F"
    using c unfolding can_open_def by blast+
  have fp: "b \<noteq> []" "length b \<le> 8" "0x2E \<notin> set b" "hd b \<notin> {0x2F, 0x40, 0x23, 0xE5}" "r = [] \<or> hd r = 0x2E" "length r < 200"
    using C(10) by (simp_all add: file_path_def)
  have l: "length (b @ r) < 254" using fp(2,6) by simp
  note cp = copied_path [OF C(8) l refl C(5,9) refl]
  obtain y ys where y: "b @ r = y # ys" "y = hd b" using fp(1) by (cases b) auto
  have y0: "?m ?a = y" "y \<noteq> 0" "bytes s path \<noteq> 0" using cp(1) C(8) unfolding y(1) by (auto simp: cstr_Cons)
  have yn: "y \<noteq> 0x2F" "y \<noteq> 0x40" "y \<noteq> 0x23" using fp(4) y(2) by auto
  obtain m2 where m2: "fs_fntos2 ?a ?m = Some m2" "cstr m2 ?a ?xs" "\<And>x. x \<notin> area ?a 12 \<Longrightarrow> m2 x = ?m x"
    using fntos_runs [OF cp(1) _ fp(3,5,2) _ C(5), of "[0x20, 0x20, 0x20]"] y(1) fp(6) by (auto simp: fs_fntos2_def)
  have sub: "area ?a 12 \<subseteq> area ?a 256" by (intro area_mono) simp
  have out: "m2 x = bytes s x" if "x \<notin> area ?a 256" for x using m2(3) [of x] cp(2) [OF that] that sub by auto
  let ?s2 = "s\<lparr>bytes := m2\<rparr>"
  have ro: "x \<notin> area ?a 256" if "x \<in> fat_area \<union> root_area \<union> heap_bytes" for x using C(6) that by blast
  have dv: "dir_view ?s2 x = dir_view s x" if "x \<in> fat_area \<union> root_area \<union> heap_bytes" for x
    using out [OF ro [OF that]] by (simp add: dir_view_def put_sectors_def)
  note ds = disk_name_start [OF C(10)]
  have n2: "name_at ?s2 ?a ?xs" using m2(2) ds(2) C(5,6) sub by (auto simp: name_at_def)
  have slots: "first_slot (has_entry m ?xs) [0..<512] = Some i" if "\<And>x. x \<in> root_area \<Longrightarrow> m x = dir_view s x" for m
  proof -
    have "first_slot (has_entry m ?xs) [0..<512] = first_slot (has_entry (dir_view s) ?xs) [0..<512]"
      using entries_cong(2) [of m "dir_view s"] that ds(2) by (intro first_slot_cong) simp
    then show ?thesis using on by (simp add: on_volume_def)
  qed
  have on2: "on_volume ?s2 ?xs i cs sz"
    using on_volume_bytes [of m2 s ?xs] on ds(2) out ro by simp
  have st2: "stored ?s2 ?a ?xs i cs sz" unfolding stored_on_volume [OF n2] by (rule on2)
  have m2r: "m2 x = dir_view s x" if "x \<in> root_area" for x using out [OF ro] that C(2) by simp
  have se: "search_in_dir ?a VOLUME1_ROOTDIR_ADDRESS m2 = Some True"
    by (rule search_in_dir_found [OF m2(2) ds(2,1) C(5) slots]) (use m2r in blast)
  have mo: "mounted ?s2" using C(1) by (simp add: mounted_def ide_boot_def boot_unit_def root_ok_def)
  obtain s' where s': "open_found ?a VOLUME1_ROOTDIR_ADDRESS ?s2 = returns (hd ps, s')"
    "files s' (hd ps) = opened_file p (int slot) sz (last ps) ?s2" "objects s' = (objects ?s2)(p := (objects ?s2 p)(slot := hd ps))"
    "read_bytes (bytes s') (last ps) (512 * length cs) = file_bytes ?s2 cs" "ide_sectors s' = ide_sectors ?s2"
    "ahci_sectors s' = ahci_sectors ?s2" "iks s' = k"
    using open_found_result [OF mo n2 _ st2 sz] C(3,4,6) p k sub by fastforce
  have of: "opened_file p (int slot) sz (last ps) ?s2 = opened_file p (int slot) sz (last ps) s" "file_bytes ?s2 cs = file_bytes s cs"
    by (simp_all add: opened_file_def open_file_def file_bytes_def file_sectors_def)
  have lit: "\<not> is_literal ?m ?a (CHR ''/'' # str)" for str using y0(1) yn(1) by (intro not_literal) simp
  have dm: "devmgr_search_in_dev_list ?a ?s1 = Some NULL"
  proof (rule no_device)
    show "cstr (bytes ?s1) ?a (b @ r)" using cp(1) by simp
    show "\<forall>i < DEVICE_LIST_MAX. let d = deviceList ?s1 i; a = d_mount_point (devices ?s1 d) in d \<noteq> NULL \<and> a \<noteq> NULL \<longrightarrow> bytes ?s1 a = 0x2F"
      using C(11) cp(2) by (auto simp: Let_def)
  qed (use y yn(1) C(5) in auto)
  have od: "open_dir ?a ?s1 = Some (VOLUME1_ROOTDIR_ADDRESS, ?a)" using y0(1) yn by (simp add: open_dir_def)
  have "do_read_file_from_disk ?a flags ?s1 = returns (hd ps, s')"
    unfolding do_read_file_from_disk_def using C(5) y0(1,2) od m2(1) se s'(1) by (simp add: Let_def)
  moreover have "fd_of_file (hd ps) s' = int slot"
  proof -
    have "hd ps \<noteq> NULL" using k by (cases ps) (auto simp: open_requests_def elim!: and_then_InrE)
    moreover have "slot < 32" using first_slot_Some_sat [OF p(3)] by (simp add: io_consts)
    ultimately show ?thesis by (simp add: fd_of_file_def s'(2) opened_file_def open_file_def Let_def)
  qed
  moreover note cur = current_process_found [of "iks s", unfolded p(1), OF p(2)]
  ultimately have "open_imp E path flags s = returns (int slot, s')"
    unfolding open_imp_def using C(7) y0(3) p(2) cur dm lit by (simp add: Let_def)
  then show ?thesis using s'(2-7) of by auto
qed

end
