(* ===== verification/Open_Contract.thy ===== *)
theory Open_Contract
  imports File_Open
begin

text \<open>
  What a process can rely on when it opens and closes a file of the disk: the descriptor reads the bytes that were
  saved, the last cluster of a file may reach beyond its buffer, and a file that was opened is not written back.
\<close>

section \<open>The bytes of an opened file\<close>

lemma file_bytes_length: "length (file_bytes s cs) = 512 * length cs"
  using concat_sectors_length [of "map (file_sectors s cs) [0..<length cs]"] by (simp add: file_bytes_def comp_def)

lemma read_bytes_take: "k \<le> n \<Longrightarrow> read_bytes m p k = take k (read_bytes m p n)"
  by (rule nth_equalityI) simp_all

lemma read_bytes_drop: "k \<le> n \<Longrightarrow> read_bytes m (at_off p k) (n - k) = drop k (read_bytes m p n)"
  by (rule nth_equalityI) (simp_all add: algebra_simps)

lemma opened_log:
  assumes "can_open E path b r s" "on_volume s (disk_name b r) i cs sz"
    and "0 < unat sz" "unat sz < 1024" "unat sz \<le> 512 * length cs" "length cs \<le> 17"
    and "get_current_process_pointer (iks s) = p" "p \<noteq> NULL" "first_slot (\<lambda>i. objects s p i = NULL) [0..<nat OPEN_MAX] = Some slot"
    and "alloc_all kmalloc [336, 1024] (iks s) = Inr ([f, buf], k)" "NULL \<notin> {f, buf}"
  shows "\<exists>s'. open_imp E path flags s = returns (int slot, s') \<and> objects s' p slot = f \<and>
    log f s' (take (unat sz) (file_bytes s cs)) 0 \<and> f_tmpfname (files s' f) = NULL \<and> ide_sectors s' = ide_sectors s"
proof -
  obtain n where n: "unat sz = n" by blast
  have q: "open_requests sz = [336, 1024]" using assms(4) by (simp add: open_requests_def)
  obtain s' where s': "open_imp E path flags s = returns (int slot, s')" "files s' f = opened_file p (int slot) sz buf s"
    "objects s' = (objects s)(p := (objects s p)(slot := f))" "read_bytes (bytes s') buf (512 * length cs) = file_bytes s cs"
    "ide_sectors s' = ide_sectors s"
    using open_imp_result [OF assms(1-3) _ assms(6-9), of "[f, buf]" k flags] assms(4,10,11) q by auto
  have "read_bytes (bytes s') buf n = take n (file_bytes s cs)"
    using read_bytes_take [of n "512 * length cs" "bytes s'" buf] assms(5) s'(4) n by simp
  then have "log f s' (take (unat sz) (file_bytes s cs)) 0"
    using assms(4,5,11) n by (simp add: log_def s'(2) opened_file_def open_file_def file_bytes_length io_consts)
  then show ?thesis using s' by (simp add: opened_file_def open_file_def zero_file_def Let_def)
qed

text \<open>
  What other work may do between two calls of the file system: it changes the kernel, the open files and memory, but
  neither the disk nor the copies of the FAT and of the root directory.
\<close>

definition later :: "io_state \<Rightarrow> io_state \<Rightarrow> bool" where
  "later s t \<longleftrightarrow> t = s\<lparr>iks := iks t, files := files t, objects := objects t, bytes := bytes t\<rparr> \<and>
     (\<forall>x \<in> fat_area \<union> root_area. bytes t x = bytes s x)"

lemma later_volume:
  assumes "later s t"
  shows "volume t = volume s" "length xs \<le> 11 \<Longrightarrow> on_volume t xs i cs sz = on_volume s xs i cs sz"
proof -
  obtain k F ob where t: "t = s\<lparr>iks := k, files := F, objects := ob, bytes := bytes t\<rparr>" using assms unfolding later_def by blast
  show v: "volume t = volume s" by (subst t) (simp add: volume_def boot_unit_def fun_eq_iff)
  have d: "dir_view t x = dir_view s x" if "x \<in> fat_area \<union> root_area" for x
    using assms that unfolding dir_view_def put_sectors_def v by (simp add: later_def)
  have c: "g_fat_cache_loaded t = g_fat_cache_loaded s" "gNumberOfSectorsInBootDisk t = gNumberOfSectorsInBootDisk s" by (subst t, simp)+
  have f: "fat_view t x = fat_view s x" if "x \<in> fat_area" for x
    using d that by (simp add: fat_view_def disk_fat_def put_sectors_def v c)
  show "length xs \<le> 11 \<Longrightarrow> on_volume t xs i cs sz = on_volume s xs i cs sz"
    by (rule on_volume_cong [OF _ f c(2)]) (use d in blast)+
qed

lemma saved_file_bytes:
  assumes "adds_file s j e cs file s'" "volume t = volume s'"
  shows "file_bytes t cs = read_bytes (bytes s) file (512 * length cs)"
proof -
  have "\<forall>m < length cs. file_sectors t cs m = get_sector (at_off file (512 * m)) (bytes s)"
    using assms unfolding adds_file_def by (auto simp: file_sectors_def)
  then have "map (\<lambda>m. sector_bytes (file_sectors t cs m)) [0..<length cs] = map (\<lambda>m. sector_bytes (get_sector (at_off file (512 * m)) (bytes s))) [0..<length cs]"
    by simp
  then show ?thesis unfolding file_bytes_def by (simp only: read_bytes_sectors)
qed

text \<open>
  Claim C9. What was saved is what a process opens and reads: after a file of fewer than 1024 bytes has been saved
  under a new name, opening a path whose conversion is that name, at any later time and by any process with a free
  descriptor, yields the lowest free descriptor, and it leads to a regular file whose content is exactly the bytes
  that were saved, to be read from the first one. Opening leaves the disk as it is.
\<close>
theorem save_then_open:
  assumes "can_save s k j file" "name_at s name (disk_name b r)" "unat sectors = k" "flag \<noteq> 0x10"
    and "find_entry (dir_view s) VOLUME1_ROOTDIR_ADDRESS name 11 FAT16_ROOT_ENTRIES = None"
    and "save_file name sectors (word_of_nat n) file flag s = Inr (0, s')" "0 < n" "n < 1024" "n \<le> 512 * k"
    and "later s' t" "can_open E path b r t"
    and "get_current_process_pointer (iks t) = p" "p \<noteq> NULL" "first_slot (\<lambda>i. objects t p i = NULL) [0..<nat OPEN_MAX] = Some slot"
    and "alloc_all kmalloc [336, 1024] (iks t) = Inr ([f, buf], h)" "NULL \<notin> {f, buf}"
  shows "\<exists>t'. open_imp E path flags t = returns (int slot, t') \<and> objects t' p slot = f \<and>
    log f t' (read_bytes (bytes s) file n) 0 \<and> ide_sectors t' = ide_sectors t"
proof -
  let ?cs = "new_clusters s k" and ?sz = "word_of_nat n :: u32"
  have l: "length (disk_name b r) = 11" using assms(11) disk_name_start(2) by (simp add: can_open_def)
  have k: "length ?cs = k" "k \<le> 16" using assms(1) by (simp_all add: can_save_def new_clusters_length)
  note a = save_adds [OF assms(1-3,6)] and st = saved_is_stored [OF assms(1-3,6,4), unfolded l, OF assms(5)]
  have c: "ucast (word_of_nat n :: u64) = ?sz" "unat ?sz = n"
    using assms(8) by (simp_all add: word_unat_eq_iff unsigned_ucast_eq unat_of_nat take_bit_nat_eq_self)
  have on: "on_volume t (disk_name b r) j ?cs ?sz"
    using st(1) c(1) stored_on_volume [OF st(2)] later_volume(2) [OF assms(10)] l by simp
  have "take n (file_bytes t ?cs) = read_bytes (bytes s) file n"
    using saved_file_bytes [OF a(2) later_volume(1) [OF assms(10)]] k(1) assms(9) read_bytes_take [of n "512 * k" "bytes s" "file"] by simp
  then show ?thesis
    using opened_log [OF assms(11) on _ _ _ _ assms(12-16), of flags] assms(7-9) c(2) k by auto
qed

section \<open>Beyond the buffer\<close>

lemma kmalloc_next:
  assumes "kheap_inv k" "kmalloc n k = Inr (p, k')" "p \<noteq> NULL" "n \<noteq> 0"
  shows "g_heap_pointer (heap k') = p + ucast n"
proof -
  obtain h where h: "heapAllocateMemory (ucast n) (heap k) = Inr (p, h)" "heap k' = h"
    using kmalloc_Inr [OF assms(2)] assms(3,4) by (auto simp: charge_def Let_def)
  have "(ucast n :: u64) \<noteq> 0" using assms(4) by (metis unat_ucast_32_64 unat_0 unat_eq_0)
  then show ?thesis
    using heapAllocateMemory_Inr [OF assms(1) h(1)] assms(3) by (auto simp: h(2) push_block_def user_size_def Let_def)
qed

text \<open>
  Claim C25. The buffer of a larger file is too small for its last cluster: a file that does not fit into the
  standard buffer gets a buffer of its size and eight bytes more, but the clusters are copied whole, so when the last
  cluster has more than eight unused bytes, the rest of it is written beyond the buffer, over the memory where the
  kernel heap puts the header of its next block.
\<close>
theorem open_overruns_buffer:
  assumes "can_open E path b r s" "on_volume s (disk_name b r) i cs sz"
    and "1024 \<le> unat sz" "unat sz \<le> 8192" "unat sz + 8 < 512 * length cs" "length cs \<le> 17"
    and "get_current_process_pointer (iks s) = p" "p \<noteq> NULL" "first_slot (\<lambda>i. objects s p i = NULL) [0..<nat OPEN_MAX] = Some slot"
    and "alloc_all kmalloc [336, 1024, sz + 8] (iks s) = Inr ([f, b0, buf], k)" "NULL \<notin> {f, b0, buf}"
  shows "\<exists>s'. open_imp E path flags s = returns (int slot, s') \<and> f_base (files s' f) = buf \<and> f_lbfsize (files s' f) = int (unat (sz + 8)) \<and>
    g_heap_pointer (heap k) = at_off buf (unat (sz + 8)) \<and>
    read_bytes (bytes s') (g_heap_pointer (heap k)) (512 * length cs - unat (sz + 8)) = drop (unat (sz + 8)) (file_bytes s cs)"
proof -
  obtain n where n: "unat sz = n" by blast
  note w = size_words [OF assms(4), unfolded n]
  have q: "open_requests sz = [336, 1024, sz + 8]" using assms(3) by (simp add: open_requests_def)
  obtain s' where s': "open_imp E path flags s = returns (int slot, s')" "files s' f = opened_file p (int slot) sz buf s"
    "read_bytes (bytes s') buf (512 * length cs) = file_bytes s cs"
    using open_imp_result [OF assms(1,2) _ assms(4,6-9), of "[f, b0, buf]" k flags] assms(3,10,11) q by auto
  obtain k1 k2 where K: "kmalloc 336 (iks s) = Inr (f, k1)" "kmalloc 1024 k1 = Inr (b0, k2)" "kmalloc (sz + 8) k2 = Inr (buf, k)"
    using assms(10) by (auto elim!: and_then_InrE)
  have "kheap_inv (iks s)" using assms(1) by (simp add: can_open_def)
  then have i2: "kheap_inv k2" by (intro kernel_alloc.alloc_inv [OF kernel_alloc.alloc_inv [OF _ K(1)] K(2)])
  have nz: "sz + 8 \<noteq> 0" using w(3) by (metis add_is_0 unat_0 zero_neq_numeral)
  have g: "g_heap_pointer (heap k) = at_off buf (n + 8)"
    using kmalloc_next [OF i2 K(3) _ nz] assms(11) unfolding w(3) [symmetric] by simp
  have "read_bytes (bytes s') (at_off buf (n + 8)) (512 * length cs - (n + 8)) = drop (n + 8) (file_bytes s cs)"
    using read_bytes_drop [of "n + 8" "512 * length cs" "bytes s'" buf] assms(5) s'(3) n by simp
  then have "read_bytes (bytes s') (g_heap_pointer (heap k)) (512 * length cs - unat (sz + 8)) = drop (unat (sz + 8)) (file_bytes s cs)"
    unfolding g w(3) .
  then show ?thesis using s'(1,2) assms(3) n w(3) g by (auto simp: opened_file_def Let_def)
qed

section \<open>Closing\<close>

text \<open>What reading and writing an open file leaves alone: the kernel, the table, both kinds of disk, and of the structure of
  the file its kind, its descriptor and its name.\<close>

definition kept_open :: "addr \<Rightarrow> io_state \<Rightarrow> io_state \<Rightarrow> bool" where
  "kept_open f s s' \<longleftrightarrow> iks s' = iks s \<and> objects s' = objects s \<and> ide_sectors s' = ide_sectors s \<and> ahci_sectors s' = ahci_sectors s \<and>
     f_used (files s' f) = f_used (files s f) \<and> f_magic (files s' f) = f_magic (files s f) \<and>
     f_object (files s' f) = f_object (files s f) \<and> f_file (files s' f) = f_file (files s f) \<and>
     f_tmpfname (files s' f) = f_tmpfname (files s f)"

lemma kept_open_refl: "kept_open f s s"
  by (simp add: kept_open_def)

lemma kept_open_trans: "kept_open f s s' \<Longrightarrow> kept_open f s' s'' \<Longrightarrow> kept_open f s s''"
  by (simp add: kept_open_def)

lemma kept_open_counted: "kept_open f s (s\<lparr>write_counter := c\<rparr>)" "kept_open f s (s\<lparr>read_counter := c\<rparr>)"
  by (simp_all add: kept_open_def)

lemma kept_open_file:
  assumes "kept_open f s t" "f_used X = f_used (files t f) \<and> f_magic X = f_magic (files t f) \<and> f_object X = f_object (files t f) \<and>
    f_file X = f_file (files t f) \<and> f_tmpfname X = f_tmpfname (files t f)"
  shows "kept_open f s (t\<lparr>files := (files t)(f := X)\<rparr>)"
  using assms by (simp add: kept_open_def)

lemma kept_open_bytes: "kept_open f s t \<Longrightarrow> kept_open f s (t\<lparr>bytes := m\<rparr>)"
  by (simp add: kept_open_def)

lemma kept_open_if: "kept_open f s a \<Longrightarrow> kept_open f s b \<Longrightarrow> kept_open f s (if c then a else b)"
  "kept_open f s (snd x) \<Longrightarrow> kept_open f s (snd y) \<Longrightarrow> kept_open f s (snd (if c then x else y))"
  by simp_all

lemma kept_open_let:
  "kept_open f s a \<Longrightarrow> (\<And>x. kept_open f s x \<Longrightarrow> kept_open f s (snd (g x))) \<Longrightarrow> kept_open f s (snd (let x = a in g x))"
  "(\<And>y. kept_open f s (snd (h y))) \<Longrightarrow> kept_open f s (snd (let y = b in h y))"
  "kept_open f s a \<Longrightarrow> kept_open f s (snd (k, a))"
  by (simp_all add: Let_def)

lemmas kept_open_intros = kept_open_let kept_open_if kept_open_bytes kept_open_file kept_open_refl

lemma write_plain_kept: "kept_open f s (snd (write_plain f str n s))"
  unfolding write_plain_def by (intro kept_open_intros) (simp_all add: kept_open_def)

lemma read_plain_kept: "kept_open f s (snd (read_plain f buf n s))"
  unfolding read_plain_def by (intro kept_open_intros) (simp_all add: kept_open_def)

lemma write_regular_kept:
  assumes "f_object (files s f) = ObjectTypeFile"
  shows "kept_open f s (snd (write_regular f str n s))"
proof -
  have "kept_open f s (snd (file_write_buffer f str n s))"
    using assms write_plain_kept [of f s str n] by (simp add: file_write_buffer_def kept_open_refl plain_object_def)
  then show ?thesis by (auto simp: write_regular_def kept_open_def split: prod.splits)
qed

lemma read_regular_kept:
  assumes "f_object (files s f) = ObjectTypeFile"
  shows "kept_open f s (snd (read_regular f buf n s))"
proof -
  have "kept_open f s (snd (file_read_buffer f buf n s))"
    using assms read_plain_kept [of f s buf] by (simp add: file_read_buffer_def kept_open_refl plain_object_def Let_def)
  then show ?thesis by (auto simp: read_regular_def kept_open_def split: prod.splits)
qed

text \<open>Descriptor \<open>fd\<close> names the open file \<open>f\<close>, whose structure has no name.\<close>

definition open_fd :: "int \<Rightarrow> addr \<Rightarrow> io_state \<Rightarrow> bool" where
  "open_fd fd f s \<longleftrightarrow> process_ok s \<and> 3 \<le> fd \<and> fd < OPEN_MAX \<and> fd_file fd s = f \<and> f \<noteq> NULL \<and> f_used (files s f) \<and>
     f_magic (files s f) = 1234 \<and> f_object (files s f) = ObjectTypeFile \<and> f_file (files s f) = fd \<and> f_tmpfname (files s f) = NULL"

lemma open_fd_kept: "open_fd fd f s \<Longrightarrow> kept_open f s s' \<Longrightarrow> open_fd fd f s'"
  by (simp add: open_fd_def kept_open_def process_ok_def fd_file_def current_te_def)

lemma write_imp_kept:
  assumes "open_fd fd f s"
  shows "\<exists>r s'. write_imp E fd buf n s = Inr (r, s') \<and> kept_open f s s'"
proof -
  let ?s = "s\<lparr>write_counter := (write_counter s)(current_te s := write_counter s (current_te s) + 1)\<rparr>"
  have o: "open_fd fd f ?s" by (rule open_fd_kept [OF assms kept_open_counted(1)])
  then have p: "process_ok ?s" "3 \<le> fd" "fd < OPEN_MAX" "fd_file fd ?s = f" "f \<noteq> NULL" "f_object (files ?s f) = ObjectTypeFile" "f_file (files ?s f) = fd"
    by (simp_all add: open_fd_def)
  have g: "get_file_from_fd fd ?s = Inr f" using get_file_from_fd_ok [OF p(1), of fd] p(2-4) by simp
  have "write_standard E fd f buf n ?s = Inr (write_regular f buf n ?s)"
    using p(2,6,7) by (simp add: write_standard_def write_object_def Let_def io_consts)
  then have "write_imp E fd buf n s = Inr (write_regular f buf n ?s) \<or> (\<exists>r. write_imp E fd buf n s = Inr (r, ?s))"
    using p(1-3,5) g by (simp add: write_imp_def process_ok_def current_te_def Let_def)
  moreover have "kept_open f s (snd (write_regular f buf n ?s))"
    by (rule kept_open_trans [OF kept_open_counted(1) write_regular_kept [OF p(6)]])
  ultimately show ?thesis using kept_open_counted(1) [of f s] by (metis prod.collapse)
qed

lemma read_imp_kept:
  assumes "open_fd fd f s"
  shows "\<exists>r s'. read_imp E fd buf n s = Inr (r, s') \<and> kept_open f s s'"
proof -
  let ?s = "s\<lparr>read_counter := (read_counter s)(current_te s := read_counter s (current_te s) + 1)\<rparr>"
  have o: "open_fd fd f ?s" by (rule open_fd_kept [OF assms kept_open_counted(2)])
  then have p: "process_ok ?s" "3 \<le> fd" "fd < OPEN_MAX" "fd_file fd ?s = f" "f \<noteq> NULL" "f_object (files ?s f) = ObjectTypeFile" "f_file (files ?s f) = fd"
    by (simp_all add: open_fd_def)
  have g: "get_file_from_fd fd ?s = Inr f" using get_file_from_fd_ok [OF p(1), of fd] p(2-4) by simp
  have "read_standard E fd f buf n ?s = Inr (read_regular f buf n ?s)"
    using p(2,6,7) by (simp add: read_standard_def read_object_def Let_def io_consts)
  then have "read_imp E fd buf n s = Inr (read_regular f buf n ?s) \<or> (\<exists>r. read_imp E fd buf n s = Inr (r, ?s))"
    using p(1-3,5) g by (simp add: read_imp_def process_ok_def current_te_def Let_def)
  moreover have "kept_open f s (snd (read_regular f buf n ?s))"
    by (rule kept_open_trans [OF kept_open_counted(2) read_regular_kept [OF p(6)]])
  ultimately show ?thesis using kept_open_counted(2) [of f s] by (metis prod.collapse)
qed

text \<open>Any sequence of calls on the descriptor.\<close>

fun call_fd :: "pipe_call \<Rightarrow> int" where
  "call_fd (Write_Call fd buf n) = fd"
| "call_fd (Read_Call fd buf n) = fd"

lemma calls_kept:
  "open_fd fd f s \<Longrightarrow> \<forall>c \<in> set cs. call_fd c = fd \<Longrightarrow> \<exists>ts s'. pipe_calls E cs s = Inr (ts, s') \<and> kept_open f s s'"
proof (induction cs arbitrary: s)
  case (Cons c cs)
  show ?case
  proof (cases c)
    case (Write_Call d buf n)
    obtain r s1 where 1: "write_imp E fd buf (int n) s = Inr (r, s1)" "kept_open f s s1" using write_imp_kept [OF Cons.prems(1)] by blast
    then obtain ts s' where "pipe_calls E cs s1 = Inr (ts, s')" "kept_open f s1 s'"
      using Cons.IH [OF open_fd_kept [OF Cons.prems(1) 1(2)]] Cons.prems(2) by auto
    then show ?thesis using 1 Cons.prems(2) Write_Call kept_open_trans by auto
  next
    case (Read_Call d buf n)
    obtain r s1 where 1: "read_imp E fd buf (int n) s = Inr (r, s1)" "kept_open f s s1" using read_imp_kept [OF Cons.prems(1)] by blast
    then obtain ts s' where "pipe_calls E cs s1 = Inr (ts, s')" "kept_open f s1 s'"
      using Cons.IH [OF open_fd_kept [OF Cons.prems(1) 1(2)]] Cons.prems(2) by auto
    then show ?thesis using 1 Cons.prems(2) Read_Call kept_open_trans by auto
  qed
qed (simp add: kept_open_refl)

lemma close_unnamed:
  assumes "open_fd fd f t"
  shows "\<exists>t'. close_imp fd t = Inr (0, t') \<and> fd_file fd t' = NULL \<and> ide_sectors t' = ide_sectors t \<and> ahci_sectors t' = ahci_sectors t"
proof -
  have c: "\<not> (fd < 0 \<or> OPEN_MAX \<le> fd)" "\<not> (fd = 0 \<or> fd = 1 \<or> fd = 2)" "fd \<noteq> 0" using assms by (auto simp: open_fd_def)
  have v: "VOLUME1_FAT_ADDRESS \<noteq> NULL" "VOLUME1_ROOTDIR_ADDRESS \<noteq> NULL" by (simp_all add: fat_consts)
  show ?thesis
    using assms c v by (simp add: open_fd_def close_imp_def process_ok_def current_te_def fd_file_def fat16SaveFile_def Let_def)
qed
lemma alloc_all_process:
  "alloc_all kmalloc ns k = Inr (ps, k') \<Longrightarrow> teList k' = teList k \<and> get_current_process c k' = get_current_process c k \<and>
     p_used (tes k' a) = p_used (tes k a) \<and> p_magic (tes k' a) = p_magic (tes k a)"
proof (induction ns arbitrary: k ps)
  case (Cons n ns)
  from Cons.prems obtain q k1 qs where "kmalloc n k = Inr (q, k1)" "alloc_all kmalloc ns k1 = Inr (qs, k')"
    by (auto elim!: and_then_InrE)
  then show ?case using Cons.IH kmalloc_process by metis
qed simp

text \<open>After a successful open the descriptor names an open file without a name.\<close>

lemma opened_fd:
  assumes "can_open E path b r s" "on_volume s (disk_name b r) i cs sz" "0 < unat sz" "unat sz \<le> 8192" "length cs \<le> 17"
    and p: "get_current_process_pointer (iks s) = p" "p \<noteq> NULL" and slot: "first_slot (\<lambda>i. objects s p i = NULL) [0..<nat OPEN_MAX] = Some slot" "3 \<le> slot"
    and k: "alloc_all kmalloc (open_requests sz) (iks s) = Inr (ps, k)" "NULL \<notin> set ps"
  shows "\<exists>s'. open_imp E path flags s = returns (int slot, s') \<and> open_fd (int slot) (hd ps) s' \<and>
    ide_sectors s' = ide_sectors s \<and> ahci_sectors s' = ahci_sectors s"
proof -
  obtain s' where s': "open_imp E path flags s = returns (int slot, s')" "files s' (hd ps) = opened_file p (int slot) sz (last ps) s"
    "objects s' = (objects s)(p := (objects s p)(slot := hd ps))" "ide_sectors s' = ide_sectors s" "ahci_sectors s' = ahci_sectors s" "iks s' = k"
    using open_imp_result [OF assms(1-5) p slot(1) k] by blast
  note cur = current_process_found [of "iks s", unfolded p(1), OF p(2)] and a = alloc_all_process [OF k(1)]
  have c: "process_ok s'" "current_te s' = p"
    using cur a p(2) by (simp_all add: process_ok_def current_te_def s'(6))
  have "hd ps \<noteq> NULL" using k by (cases ps) (auto simp: open_requests_def elim!: and_then_InrE)
  moreover have "int slot < OPEN_MAX" using first_slot_Some_sat [OF slot(1)] by (simp add: io_consts)
  moreover have "fd_file (int slot) s' = hd ps" by (simp add: fd_file_def c(2) s'(3))
  ultimately have "open_fd (int slot) (hd ps) s'"
    using c(1) slot(2) by (simp add: open_fd_def s'(2) opened_file_def open_file_def zero_file_def Let_def)
  then show ?thesis using s'(1,4,5) by blast
qed

text \<open>
  Claim C26. What a process writes into a file of the disk is lost when it closes the file. A stored file of at most 8 KB
  is opened into the lowest free descriptor, which is not one of the three standard ones; then any sequence of write and
  read system calls on that descriptor returns; closing it reports success and frees the descriptor; and every sector of
  the disk is as it was before the file was opened. For opening leaves no name in the structure of the file, and without
  a name closing does not save.
\<close>
theorem close_writes_nothing:
  assumes "can_open E path b r s" "on_volume s (disk_name b r) i cs sz" "0 < unat sz" "unat sz \<le> 8192" "length cs \<le> 17"
    and "get_current_process_pointer (iks s) = p" "p \<noteq> NULL" "first_slot (\<lambda>i. objects s p i = NULL) [0..<nat OPEN_MAX] = Some slot" "3 \<le> slot"
    and "alloc_all kmalloc (open_requests sz) (iks s) = Inr (ps, k)" "NULL \<notin> set ps"
    and "\<forall>c \<in> set calls. call_fd c = int slot"
  shows "\<exists>s1 ts s2 s3. open_imp E path flags s = returns (int slot, s1) \<and> pipe_calls Q calls s1 = Inr (ts, s2) \<and>
    close_imp (int slot) s2 = Inr (0, s3) \<and> fd_file (int slot) s3 = NULL \<and>
    ide_sectors s3 = ide_sectors s \<and> ahci_sectors s3 = ahci_sectors s"
proof -
  obtain s1 where 1: "open_imp E path flags s = returns (int slot, s1)" "open_fd (int slot) (hd ps) s1"
    "ide_sectors s1 = ide_sectors s" "ahci_sectors s1 = ahci_sectors s"
    using opened_fd [OF assms(1-11)] by blast
  obtain ts s2 where 2: "pipe_calls Q calls s1 = Inr (ts, s2)" "kept_open (hd ps) s1 s2" using calls_kept [OF 1(2) assms(12)] by blast
  obtain s3 where "close_imp (int slot) s2 = Inr (0, s3)" "fd_file (int slot) s3 = NULL"
    "ide_sectors s3 = ide_sectors s2" "ahci_sectors s3 = ahci_sectors s2"
    using close_unnamed [OF open_fd_kept [OF 1(2) 2(2)]] by blast
  then show ?thesis using 1 2 by (auto simp: kept_open_def)
qed

section \<open>A volume with a file\<close>

text \<open>The file of the small volume, saved from 0x600000, whose name is a path at 0x6000 now.\<close>

definition path_base :: "u8 list" where "path_base = [0x6E, 0x6F, 0x74, 0x65, 0x73]"
definition path_rest :: "u8 list" where "path_rest = [0x2E, 0x74, 0x78, 0x74]"

definition path_env :: file_env where
  "path_env = \<lparr>pathname_local_copy = 0x7000, name_buffer = NULL, new_file_buffer = NULL, dev_dir = (\<lambda>_. undefined)\<rparr>"

lemma path_name: "disk_name path_base path_rest = fat_name"
  by (simp add: path_base_def path_rest_def fat_name_def dir_name_def upper_def is_lower_def ext_char_def numeral_3_eq_3)

lemma path_areas:
  "area 0x7000 256 \<inter> (fat_area \<union> root_area \<union> heap_bytes) = {}" "area 0x6000 10 \<inter> (fat_area \<union> root_area) = {}"
  "area 0x7000 256 \<inter> area 0x6000 10 = {}"
proof -
  have "area 0x7000 256 \<inter> fat_area = {}" "area 0x7000 256 \<inter> root_area = {}" "area 0x6000 10 \<inter> fat_area = {}" "area 0x6000 10 \<inter> root_area = {}"
    unfolding fat_area_def root_area_def by (intro area_apart; simp add: fat_consts)+
  moreover have "a \<notin> heap_bytes" if "a \<in> area 0x7000 256" for a using area_range [OF that] by (simp add: heap_bytes_def)
  ultimately show "area 0x7000 256 \<inter> (fat_area \<union> root_area \<union> heap_bytes) = {}" "area 0x6000 10 \<inter> (fat_area \<union> root_area) = {}" by blast+
  show "area 0x7000 256 \<inter> area 0x6000 10 = {}" unfolding Int_commute [of "area 0x7000 256"] by (rule area_apart) simp_all
qed

lemma fat_io_can_save_any: "1 \<le> k \<Longrightarrow> k \<le> 16 \<Longrightarrow> can_save fat_io k 0 0x600000"
proof -
  assume k: "1 \<le> k" "k \<le> 16"
  then have e: "enough_clusters fat_io k" unfolding enough_clusters_def fat_io_clusters length_upt by (simp add: CLUSTERS_TO_SAVE_MAX_def)
  have "cluster_lba x < 0x10000" if "x \<in> set (new_clusters fat_io k)" for x
    using new_clusters_facts(2) [OF that] by (simp add: unat_less_iff cluster_lba_unat)
  moreover have "area 0x600000 (512 * k) \<inter> (fat_area \<union> root_area) = {}" using k by (intro low_areas) simp_all
  ultimately show ?thesis using fat_io_can_save e k by (simp add: can_save_def)
qed

lemma saved_path:
  assumes "1 \<le> unat (k :: u64)" "unat k \<le> 16"
  shows "\<exists>s t. save_file 0x5000 k n 0x600000 0x20 fat_io = Inr (0, s) \<and> later s t \<and> can_open path_env 0x6000 path_base path_rest t \<and>
    on_volume t fat_name 0 (new_clusters fat_io (unat k)) (ucast (n :: u64)) \<and> length (new_clusters fat_io (unat k)) = unat k \<and> iks t = process_kstate \<and> objects t = (\<lambda>_ _. NULL)"
proof -
  note c = fat_io_can_save_any [OF assms]
  have "name \<in> area name 12" for name :: addr using area_at [of 0 12 name] by simp
  then have "(0x5000 :: addr) \<notin> root_area" using fat_io_name by (auto simp: name_at_def)
  moreover have "bytes fat_io 0x5000 \<noteq> 0" using name_in_view(5) [OF fat_io_name] .
  ultimately obtain s where s: "save_file 0x5000 k n 0x600000 0x20 fat_io = Inr (0, s)"
    using save_file_result [of fat_io "0x5000" k "unat k" 0 "0x600000" n "0x20"] c by (auto simp: can_save_def)
  note a = save_adds [OF c fat_io_name refl s] saved_is_stored [OF c fat_io_name refl s _ fat_io_absent]
  note g = adds_file_config [OF a(2)]
  obtain cl f m where e: "s = fat_io\<lparr>bytes := m, ide_sectors := f, fat16ClustersToSave := cl, g_fat_cache_saved := False\<rparr>"
    using a(2) unfolding adds_file_def by blast
  let ?x = "path_base @ path_rest @ [0]"
  let ?m = "put_bytes 0x6000 ?x (bytes s)"
  let ?t = "s\<lparr>bytes := ?m\<rparr>"
  have l: "length ?x = 10" "0 \<notin> set (path_base @ path_rest)" by (simp_all add: path_base_def path_rest_def)
  have pl: "Suc (length (path_base @ path_rest)) = 10" by (simp add: path_base_def path_rest_def)
  have out: "?m x = bytes s x" if "x \<in> fat_area \<union> root_area" for x
    using put_bytes_outside [of ?x x "0x6000" "bytes s"] l(1) that path_areas(2) by auto
  have on: "on_volume ?t fat_name 0 (new_clusters fat_io (unat k)) (ucast n)"
    using on_volume_bytes [OF out] a(5,6) stored_on_volume [OF a(6)] by (simp add: fat_name_def)
  have "dir_view ?t x = bytes ?t x" for x
  proof (cases "x \<in> root_area")
    case True
    have "volume ?t = volume s" by (simp add: volume_def boot_unit_def fun_eq_iff)
    then have "dir_view ?t x = dir_view s x" using out [of x] True by (simp add: dir_view_def put_sectors_def)
    then show ?thesis using g(6) out [of x] True by simp
  qed (rule dir_view_outside)
  then have dv: "dir_view ?t = bytes ?t" by (simp add: fun_eq_iff)
  have cs: "cstr (bytes ?t) 0x6000 (path_base @ path_rest)"
  proof -
    have "bytes ?t (at_off 0x6000 j) = ?x ! j" if "j < 10" for j using put_bytes_at [of j ?x] that l(1) by simp
    then show ?thesis unfolding cstr_def using l by (auto simp: nth_append simp del: of_nat_numeral)
  qed
  have "mounted ?t" using g(1) fat_io_mounted by (simp add: mounted_def ide_boot_def boot_unit_def root_ok_def)
  moreover have "kheap_inv (iks ?t)" "backbuffer_va ?t \<notin> heap_bytes" "deviceList ?t = (\<lambda>_. NULL)" "iks ?t = process_kstate" "objects ?t = (\<lambda>_ _. NULL)"
    by (simp_all add: e fat_io_def zero_io_def heap_bytes_def boot_heap_inv)
  moreover have "file_path path_base path_rest" by (simp add: file_path_def path_base_def path_rest_def)
  ultimately have "can_open path_env 0x6000 path_base path_rest ?t"
    using dv cs path_areas pl by (simp add: can_open_def path_env_def del: length_append)
  moreover have "length (new_clusters fat_io (unat k)) = unat k" using c by (intro new_clusters_length) (simp add: can_save_def)
  moreover have "later s ?t" using out by (cases s) (simp add: later_def)
  ultimately show ?thesis using on s by (intro exI [where x = s] exI [where x = ?t]) (simp add: e fat_io_def zero_io_def)
qed

lemma path_buffers:
  "\<exists>k1. alloc_all kmalloc [336, 1024] process_kstate = Inr ([0x30100048, 0x301001E0], k1)"
  "\<exists>k2. alloc_all kmalloc [336, 1024, 1030 + 8] process_kstate = Inr ([0x30100048, 0x301001E0, 0x30100628], k2)"
proof -
  have "\<exists>h1 h2 h3. heapAllocateMemory 336 boot_heap = Inr (0x30100048, h1) \<and> heapAllocateMemory 1024 h1 = Inr (0x301001E0, h2) \<and>
      heapAllocateMemory 1038 h2 = Inr (0x30100628, h3)"
    by (simp add: heapAllocateMemory_def Let_def boot_heap_fields heap_consts)
  then obtain h1 h2 h3 where h: "heapAllocateMemory 336 boot_heap = Inr (0x30100048, h1)" "heapAllocateMemory 1024 h1 = Inr (0x301001E0, h2)"
    "heapAllocateMemory 1038 h2 = Inr (0x30100628, h3)" by blast
  have z: "heap process_kstate = boot_heap" by simp
  obtain k1 where k1: "kmalloc 336 process_kstate = Inr (0x30100048, k1)" "heap k1 = h1"
    using kmalloc_returns [of 336 process_kstate] h(1) z by auto
  obtain k2 where k2: "kmalloc 1024 k1 = Inr (0x301001E0, k2)" "heap k2 = h2" using kmalloc_returns [of 1024 k1] h(2) k1(2) by auto
  obtain k3 where k3: "kmalloc 1038 k2 = Inr (0x30100628, k3)" using kmalloc_returns [of 1038 k2] h(3) k2(2) by auto
  show "\<exists>k1. alloc_all kmalloc [336, 1024] process_kstate = Inr ([0x30100048, 0x301001E0], k1)" by (simp add: k1(1) k2(1))
  show "\<exists>k2. alloc_all kmalloc [336, 1024, 1030 + 8] process_kstate = Inr ([0x30100048, 0x301001E0, 0x30100628], k2)"
    by (simp add: k1(1) k2(1) k3)
qed

lemma path_slot: "first_slot (\<lambda>i. (NULL :: addr) = NULL) [0..<nat OPEN_MAX] = Some 0"
  by (simp add: io_consts first_slot_upt_SomeI)

theorem save_then_open_witness:
  "\<exists>s t t'. save_file 0x5000 2 600 0x600000 0x20 fat_io = Inr (0, s) \<and> later s t \<and> open_imp path_env 0x6000 0 t = returns (0, t') \<and>
    objects t' 0xA000 0 = 0x30100048 \<and> log 0x30100048 t' (read_bytes (bytes fat_io) 0x600000 600) 0"
proof -
  obtain s t where t: "save_file 0x5000 2 600 0x600000 0x20 fat_io = Inr (0, s)" "later s t" "can_open path_env 0x6000 path_base path_rest t"
    "iks t = process_kstate" "objects t = (\<lambda>_ _. NULL)"
    using saved_path [of 2 600] by auto
  obtain k where k: "alloc_all kmalloc [336, 1024] (iks t) = Inr ([0x30100048, 0x301001E0], k)" using path_buffers(1) t(4) by auto
  have n: "name_at fat_io 0x5000 (disk_name path_base path_rest)" using fat_io_name by (simp add: path_name)
  have n1: "length fat_name = 11" by (simp add: fat_name_def)
  have a: "find_entry (dir_view fat_io) VOLUME1_ROOTDIR_ADDRESS 0x5000 11 FAT16_ROOT_ENTRIES = None"
    using fat_io_absent unfolding n1 .
  have s: "save_file 0x5000 2 (word_of_nat 600) 0x600000 0x20 fat_io = Inr (0, s)" using t(1) by simp
  have p: "get_current_process_pointer (iks t) = 0xA000" using t(4) by simp
  have f: "first_slot (\<lambda>i. objects t 0xA000 i = NULL) [0..<nat OPEN_MAX] = Some 0" using path_slot t(5) by simp
  from save_then_open [OF fat_io_can_save n _ _ a s _ _ _ t(2,3) p _ f k, of 0] t(1,2) show ?thesis by auto
qed

theorem open_overruns_buffer_witness:
  "\<exists>t s' k. alloc_all kmalloc [336, 1024, 1030 + 8] (iks t) = Inr ([0x30100048, 0x301001E0, 0x30100628], k) \<and>
    open_imp path_env 0x6000 0 t = returns (0, s') \<and> f_lbfsize (files s' 0x30100048) = 1038 \<and> g_heap_pointer (heap k) = 0x30100A36 \<and>
    read_bytes (bytes s') 0x30100A36 498 = drop 1038 (file_bytes t (new_clusters fat_io 3))"
proof -
  obtain t where t: "can_open path_env 0x6000 path_base path_rest t" "on_volume t fat_name 0 (new_clusters fat_io 3) 1030"
    "length (new_clusters fat_io 3) = 3" "iks t = process_kstate" "objects t = (\<lambda>_ _. NULL)"
    using saved_path [of 3 1030] by auto
  obtain k where k: "alloc_all kmalloc [336, 1024, 1030 + 8] (iks t) = Inr ([0x30100048, 0x301001E0, 0x30100628], k)"
    using path_buffers(2) t(4) by auto
  have "get_current_process_pointer (iks t) = 0xA000" using t(4) by simp
  moreover have "first_slot (\<lambda>i. objects t 0xA000 i = NULL) [0..<nat OPEN_MAX] = Some 0" using path_slot t(5) by simp
  ultimately obtain s' where s': "open_imp path_env 0x6000 0 t = returns (int 0, s')"
    "f_lbfsize (files s' 0x30100048) = int (unat (1030 + 8 :: u32))" "g_heap_pointer (heap k) = at_off 0x30100628 (unat (1030 + 8 :: u32))"
    "read_bytes (bytes s') (g_heap_pointer (heap k)) (512 * length (new_clusters fat_io 3) - unat (1030 + 8 :: u32)) =
       drop (unat (1030 + 8 :: u32)) (file_bytes t (new_clusters fat_io 3))"
    using open_overruns_buffer [of path_env "0x6000" path_base path_rest t 0 "new_clusters fat_io 3" 1030 "0xA000" 0 "0x30100048" "0x301001E0" "0x30100628" k 0]
      t(1-3) k by (auto simp: path_name)
  have "open_imp path_env 0x6000 0 t = returns (0, s')" "f_lbfsize (files s' 0x30100048) = 1038" "g_heap_pointer (heap k) = 0x30100A36"
    "read_bytes (bytes s') 0x30100A36 498 = drop 1038 (file_bytes t (new_clusters fat_io 3))"
    using s' t(3) by simp_all
  with k show ?thesis by blast
qed

lemma can_open_objects: "can_open E path b r (t\<lparr>objects := ob\<rparr>) = can_open E path b r t"
proof -
  have "volume (t\<lparr>objects := ob\<rparr>) = volume t" by (simp add: volume_def boot_unit_def fun_eq_iff)
  then have "dir_view (t\<lparr>objects := ob\<rparr>) = dir_view t" by (simp add: dir_view_def put_sectors_def fun_eq_iff)
  moreover have "mounted (t\<lparr>objects := ob\<rparr>) = mounted t" by (simp add: mounted_def ide_boot_def boot_unit_def root_ok_def)
  ultimately show ?thesis unfolding can_open_def by simp
qed

theorem close_writes_nothing_witness:
  "\<exists>s s1 ts s2 s3. open_imp path_env 0x6000 0 s = returns (3, s1) \<and>
    pipe_calls null_env [Write_Call 3 0x2000 5, Read_Call 3 0x3000 9] s1 = Inr (ts, s2) \<and>
    close_imp 3 s2 = Inr (0, s3) \<and> ide_sectors s3 = ide_sectors s"
proof -
  obtain t where t: "can_open path_env 0x6000 path_base path_rest t" "on_volume t fat_name 0 (new_clusters fat_io 2) (ucast (600 :: u64))"
    "length (new_clusters fat_io 2) = 2" "iks t = process_kstate"
    using saved_path [of 2 600] by auto
  let ?s = "t\<lparr>objects := (\<lambda>_ i. if i < 3 then 0x10 else NULL)\<rparr>"
  have l: "later t ?s" by (cases t) (simp add: later_def)
  have n: "length (disk_name path_base path_rest) \<le> 11" by (simp add: path_name fat_name_def)
  have "can_open path_env 0x6000 path_base path_rest ?s" using t(1) by (simp only: can_open_objects)
  moreover have "on_volume ?s (disk_name path_base path_rest) 0 (new_clusters fat_io 2) 600"
    unfolding later_volume(2) [OF l n] using t(2) by (simp add: path_name)
  moreover have "first_slot (\<lambda>i. objects ?s 0xA000 i = NULL) [0..<nat OPEN_MAX] = Some 3"
    by (intro first_slot_upt_SomeI) (simp_all add: io_consts)
  moreover have "get_current_process_pointer (iks ?s) = 0xA000" using t(4) by simp
  moreover obtain k where "alloc_all kmalloc (open_requests 600) (iks ?s) = Inr ([0x30100048, 0x301001E0], k)"
    using path_buffers(1) t(4) by (auto simp: open_requests_def)
  ultimately obtain s1 ts s2 s3 where "open_imp path_env 0x6000 0 ?s = returns (3, s1)"
    "pipe_calls null_env [Write_Call 3 0x2000 5, Read_Call 3 0x3000 9] s1 = Inr (ts, s2)"
    "close_imp 3 s2 = Inr (0, s3)" "ide_sectors s3 = ide_sectors ?s"
    using close_writes_nothing [of path_env "0x6000" path_base path_rest ?s 0 "new_clusters fat_io 2" 600 "0xA000" 3 "[0x30100048, 0x301001E0]" k
      "[Write_Call 3 0x2000 5, Read_Call 3 0x3000 9]" 0 null_env] t(3) by (auto simp del: pipe_calls.simps)
  then show ?thesis by blast
qed

end
