(* ===== verification/Spec2Isabelle.thy ===== *)
theory Spec2Isabelle
  imports Kernel_Steps Kprint Page_Pool Descriptor_Table Fat_Contract Name_Contract Open_Contract
begin

text \<open>
  A model of the kernel of Gramado (src/core/castleos): threads, scheduling and task switching, the
  messages between threads, the memory of the kernel (heap, page tables, page pool), files, pipes and terminals behind
  the descriptors of a process, the FAT16 file system on its disk, and the C library the kernel is written with.

  \<^bold>\<open>Parts and interaction.\<close> A timer interrupt enters \<^verbatim>\<open>tsThreadSwitch\<close>
  (halls/dev/exec/ke/intake/disp/ts.c). It saves the current thread (disp/x86_64/x64cont.c), decides whether
  its quantum is over or a sleep was requested, takes the next thread of the run queue or asks
  \<^verbatim>\<open>psScheduler\<close> (sched/sched.c) to build a new one, and hands the choice to
  \<^verbatim>\<open>dispatcher\<close> (disp/dispatch.c), which loads its registers; a thread that never ran is
  entered by \<^verbatim>\<open>spawn_thread_by_tid\<close> (disp/spawn.c). System calls and drivers change
  threads through sched/schedi.c and tlib.c and talk to them through the message rings of ipc/ipc.c; interrupt
  handlers leave key and mouse events in a ring of garden/entry/kmain.c which the task switcher drains. All
  structures come from the kernel heap (halls/dev/req/mm/mm.c) through \<^verbatim>\<open>kmalloc\<close>. The read
  and write system calls end in \<^verbatim>\<open>__read_imp\<close> and \<^verbatim>\<open>__write_imp\<close>
  (gthouse/fs/fslib.c), which find the file behind the descriptor of the current process and go to a pipe, a terminal, a
  socket or the buffer of a file. Opening a file (\<^verbatim>\<open>__open_imp\<close>) turns the last part of its path into
  the name of a directory entry, asks the device list and the directory, and reads the whole file into its buffer through
  \<^verbatim>\<open>fat16LoadFile\<close> (gthouse/fs/fat/fat16.c), which moves one sector after the other through
  the storage layer (halls/dev/per/blkdev).

  \<^bold>\<open>Theories.\<close> \<open>Gramado_Prelude\<close> holds the machine types, the outcome type (a
  value, or a panic or halt of the machine), sequencing, and lemmas on lists and maps.
  \<open>Kernel_State\<close> is the state: the structures of thread.h, te.h, ipc.h, apic.h and x64cont.h as
  records with the fields that the modelled code reads or writes, and one record \<open>kstate\<close> for the
  global variables; pointers are 64-bit addresses and each structure type has its own store.

  \<^item> \<open>Allocator_Spec\<close>, \<open>Kernel_Heap\<close>, \<open>Kmalloc\<close>: mm.c, mmblock.h and kstdlib.c.
    The allocator contract is a locale, interpreted on the heap, on its reuse path and on kmalloc; its
    lemmas give disjointness of everything handed out. The properties add the free-then-reuse behaviour, the
    placement of blocks, kcalloc, the charge to the process, and the overrun that ends in a panic.
  \<^item> \<open>Thread_Ops\<close>: schedi.c, tlib.c and the accessors of thread.c, one definition for each
    function; a locale states what every call of the interface keeps, and is interpreted on all of them.
  \<^item> \<open>Queue_Spec\<close>, \<open>Ipc\<close>, \<open>Dpc_Queue\<close>: the message rings and the ring
    of deferred events refine a bounded list queue (a locale with two interpretations); the properties also say
    what the code does outside that contract, on empty and on full rings.
  \<^item> \<open>Chain_Spec\<close>, \<open>Scheduler\<close>: both policies of sched.c with the work they do on
    the way (sleeps, alarms, exits, zombies). A round is shown to link exactly the selected threads into a
    NULL-terminated chain.
  \<^item> \<open>Context\<close>, \<open>Dispatch\<close>, \<open>Spawn\<close>, \<open>Task_Switch\<close>: saving and
    restoring registers, the dispatcher, the first entry into a thread, and the whole switch composed of them.
  \<^item> \<open>Kernel_Steps\<close>: the components above as one transition system. A run is any sequence of timer
    switches, scheduling rounds, messages, deferred events, thread calls and heap requests; every run keeps the thread
    table, the message rings and the heap in order.
  \<^item> \<open>Paging\<close>, \<open>Address_Space\<close>: x86_64/paging.c, x64mm.c, mmft.c, mmsize.c, mmusage.c
    and the start of slab.c. \<open>Paging\<close> holds the operations on page tables in physical memory and the whole
    initialization; \<open>Address_Space\<close> specifies the walk of the processor and the address map of the system, and shows
    that the tables built at boot give that map, what user mode can reach, when the software walk is right, and
    how long clones and canvas pages last. The region initializers are verified by a calculus of table actions
    (\<open>region_step\<close>): each is one fresh table and one directory entry.
  \<^item> \<open>Byte_Allocator\<close>, \<open>Page_Pool\<close>: mmpool.c, slab_1MB_allocator and phase 1 of mmInitialize.
    The weak allocation contract is a locale that every region allocator satisfies; the page pool and the slabs are
    interpretations of their own. The properties give disjointness, physical contiguity through the page tables, clearing,
    and the exact conditions of the panics.
  \<^item> \<open>Bytes\<close>, \<open>Kstring\<close>, \<open>Kprint\<close>: gthouse/libk/kstring.c and the number
    conversion and formatted output of kstdio.c and kstdlib.c, on byte-addressed memory. Each routine is
    related to a function on lists: comparison, concatenation, tokens, numerals, and the rendering of a
    format.
  \<^item> \<open>Io_State\<close>, \<open>File_Buffer\<close>, \<open>Tty\<close>, \<open>Descriptors\<close>: the state of the file
    layer (the kernel state, bytes of memory, one store per structure) and one definition for each function of
    gthouse/fs/pipe.c, the buffer routines and descriptor calls of fslib.c, the positions in kstdio.c, and
    halls/chardev/tty/tty.c. \<^verbatim>\<open>__read_imp\<close> is split by the kind of object, in the order of its
    branches.
  \<^item> \<open>Files\<close>, \<open>Terminals\<close>, \<open>Descriptor_Table\<close>: the contracts. A pipe refines a bounded
    sequence of bytes for every schedule of system calls; the queues of a terminal are a further interpretation of the
    bounded queue, on which the canonical mode is shown to be a line editor and a pair of pseudo terminals two channels;
    the buffer of a file is a log; duplicating descriptors keeps the table typed and the counters right. Two properties show
    where the code leaves these contracts: seeking and the duplicates made by \<^verbatim>\<open>fcntl\<close>.
  \<^item> \<open>Disk\<close>, \<open>Fat16\<close>: a sector through the registers of an IDE channel (ata/atahdd.c) or through the AHCI
    driver, the sector calls of storage.c, the sequences of sectors of atadsk_r.c and atadsk_w.c, and on them the file
    system of fat16.c and search.c. FAT and directories are bytes of memory at the addresses of x64gpa.h; a
    disk is a store of sectors behind the registers, which decodes the address as the ATA standard says.
  \<^item> \<open>Fat_Store\<close>, \<open>Fat_Contract\<close>: a chain of clusters in the FAT, a stored file, and what loading and saving do to
    them. A saved file is what is loaded, other files are kept, and the FAT has to be written back before a restart.
  \<^item> \<open>File_Names\<close>, \<open>Name_Contract\<close>, \<open>File_Calls\<close>: the conversions of names, whose result is
    described by the eleven characters of an entry; opening files and devices, loading programs and files along a path
    (fslib.c, fsload.c), and the system calls of gthouse/fs/fs.c.
  \<^item> \<open>File_Open\<close>, \<open>Open_Contract\<close>: opening a file of the disk, from the path to a descriptor. The file is the
    log of \<open>Descriptor_Table\<close> that holds the bytes of \<open>Fat_Contract\<close> under the name of \<open>Name_Contract\<close>, in a buffer of the
    heap. The code refuses files of more than 8192 bytes; chains of at most 17 clusters are covered. Two
    properties show where the code goes wrong: the end of the last cluster and the missing write on closing, the latter
    over a whole session of open, any reads and writes, and close. What
    was saved is what is opened, whatever runs between the two calls (\<open>later\<close>).

  \<^bold>\<open>Conventions.\<close> An int that the code uses as an index or an error code is an
  \<^typ>\<open>int\<close>, an unsigned long is a 64-bit word and wraps. A C array indexed by a tid is a function
  on naturals; the code's range checks are in the definitions. A panic or an endless halt is the
  left side of the outcome type, so a statement about the right side says that the code returns. Loops over
  fixed tables recurse on the list of slots. Loops that wait for a terminator in memory are
  \<open>partial_function\<close>s whose value is \<^term>\<open>None\<close> when they do not end; the properties on
  them state the value and so that they end. No fuel is used. Page tables and pages live in physical memory
  (\<open>qmem\<close>, one 64-bit word per address of an entry); the kernel reaches its tables through the identity mapping of the
  first two megabytes, so a table pointer is its physical address. Clearing a page goes through the walk of the processor.

  \<^bold>\<open>Parameters.\<close> The two input handlers of the window manager that the task switcher calls
  (wmRawKeyEvent and wmMouseEvent) are arguments of its model. That a switch leaves a valid current thread holds for
  any such handlers; for whole runs they are assumed to extend the thread table at most (they may create threads, allocate
  and post messages, as the commands of the console broker do) and to damage neither a ring nor the heap. The identifier read from the local APIC and the address of the static
  conversion buffer are arguments too, and so is the base memory that the real-time clock reports. The file layer takes
  from outside (\<open>io_env\<close>, \<open>file_env\<close>) sending and receiving on a connected socket, the addresses of
  the buffers that the code keeps on the kernel stack, and the table of device entries. Whether a disk answers
  before the driver gives up is a part of the state (\<open>ide_answers\<close>, \<open>ahci_answers\<close>). A process number outside the table, where the code reads past the
  array, counts as a halt.

  \<^bold>\<open>Not modelled.\<close> The boot code, interrupt stubs and device drivers are assembly and device
  access; the consoles and the window manager draw into the frame buffer, and characters for a console or the serial port are
  only collected in lists. The detection and initialization of disks and their partition tables, the working directory of a
  process and the network stack with its drivers are left out. The creation of terminals registers devices; the creation and cloning of processes copy images through the loader; the system
  call table dispatches over all of these. The programs in user space reach the kernel through system calls only. In the model of a thread switch the page table of a process is its
  physical address in cr3; \<open>Paging\<close> models the contents. The translation cache of the processor is not
  modelled: the code reloads cr3 after it has built the tables. Screen output and serial
  debugging messages have no effect on the modelled state. Only processor 0 is scheduled by the code,
  and the model follows it; interrupts are disabled inside a switch, so that a switch is one step.
\<close>

end
